(* ===== verification/Prelude.thy ===== *)
theory Prelude
  imports Main "HOL-Library.Word"
begin

text \<open>
  Shared vocabulary of the development: the machine integer types of the Rust
  code, the result type of fallible operations, the \<open>named_theorems\<close>
  collections that the component theories fill, and generic facts on lists and
  words that more than one component uses.
\<close>

unbundle bit_operations_syntax

section \<open>Machine integers\<close>

text \<open>
  Unsigned Rust integers are words of their width. Signed integers are words
  read through \<open>sint\<close>. The target is a 64-bit platform, so \<open>usize\<close> is 64 bits
  wide; a length of a vector that cannot overflow it is a \<open>nat\<close>.
\<close>

type_synonym u8 = "8 word"
type_synonym u32 = "32 word"
type_synonym i32 = "32 word"
type_synonym u64 = "64 word"
type_synonym i64 = "64 word"

text \<open>A Rust \<open>Result\<close>: \<open>Inl\<close> carries the error, \<open>Inr\<close> the value.\<close>

type_synonym ('e, 'a) res = "'e + 'a"

fun res_bind :: "('e, 'a) res \<Rightarrow> ('a \<Rightarrow> ('e, 'b) res) \<Rightarrow> ('e, 'b) res" where
  "res_bind (Inl e) f = Inl e"
| "res_bind (Inr x) f = f x"

text \<open>
  \<open>res_bind\<close> is the question-mark operator: the first error ends the function.
\<close>

lemma res_bind_Inr_iff: "res_bind m f = Inr y \<longleftrightarrow> (\<exists>x. m = Inr x \<and> f x = Inr y)"
  by (cases m) auto

lemma res_bind_assoc: "res_bind (res_bind m f) g = res_bind m (\<lambda>x. res_bind (f x) g)"
  by (cases m) auto

lemma res_bind_cong [fundef_cong]:
  "m = m' \<Longrightarrow> (\<And>x. m' = Inr x \<Longrightarrow> f x = g x) \<Longrightarrow> res_bind m f = res_bind m' g"
  by (cases m') auto

section \<open>Collections of facts\<close>

named_theorems instr_defs "encoding and decoding of instructions"
named_theorems mask_simps "bit masks and shift amounts as numerals"

section \<open>Words\<close>

lemma word_eq_by_bits:
  fixes x y :: "'a::len word"
  assumes "\<And>n. n < LENGTH('a) \<Longrightarrow> bit x n = bit y n"
  shows "x = y"
  by (rule bit_word_eqI) (use assms in simp)

text \<open>The low \<open>n\<close> bits, tested bit by bit.\<close>

lemma bit_mask_numeral:
  "bit (mask k :: 'a::len word) n \<longleftrightarrow> n < min k LENGTH('a)"
  by (simp add: bit_mask_iff min_def) auto

lemma and_mask_small:
  fixes x :: "'a::len word"
  assumes "unat x < 2 ^ k"
  shows "x AND mask k = x"
proof -
  have "unat (take_bit k x) = unat x"
    using assms by (simp add: unsigned_take_bit_eq take_bit_nat_eq_self)
  then have "take_bit k x = x" by (simp only: word_unat_eq_iff)
  then show ?thesis by (simp add: take_bit_eq_mask)
qed

section \<open>Lists\<close>

lemma nth_update_other [simp]: "i \<noteq> j \<Longrightarrow> xs[i := v] ! j = xs ! j"
  by simp

lemma list_update_in_range: "i < length xs \<Longrightarrow> xs[i := v] ! i = v"
  by simp


section \<open>Interfaces\<close>

text \<open>
  A store of objects behind opaque handles: adding an object returns a handle that
  resolved to nothing before and leaves every other handle alone. The string table
  and the collector use arenas through these laws only.
\<close>

locale object_store =
  fixes lookup :: "'s \<Rightarrow> 'r \<Rightarrow> 'a option"
    and add :: "'s \<Rightarrow> 'a \<Rightarrow> 'c \<Rightarrow> 's \<times> 'r"
    and ok :: "'s \<Rightarrow> bool"
    and room :: "'s \<Rightarrow> bool"
  assumes add_ok: "ok s \<Longrightarrow> room s \<Longrightarrow> ok (fst (add s v c))"
    and add_lookup: "ok s \<Longrightarrow> room s \<Longrightarrow>
      lookup (fst (add s v c)) = (lookup s)(snd (add s v c) \<mapsto> v)"
    and add_fresh: "ok s \<Longrightarrow> room s \<Longrightarrow> lookup s (snd (add s v c)) = None"
begin

lemma add_resolves: "ok s \<Longrightarrow> room s \<Longrightarrow> lookup (fst (add s v c)) (snd (add s v c)) = Some v"
  by (simp add: add_lookup)

lemma add_keeps:
  "ok s \<Longrightarrow> room s \<Longrightarrow> lookup s r = Some w \<Longrightarrow> lookup (fst (add s v c)) r = Some w"
  using add_fresh [of s v c] by (auto simp: add_lookup)

lemma add_not_live: "ok s \<Longrightarrow> room s \<Longrightarrow> lookup s r = Some w \<Longrightarrow> snd (add s v c) \<noteq> r"
  using add_fresh [of s v c] by auto

lemma add_twice_distinct:
  assumes "ok s" "room s" "room (fst (add s v c))"
  shows "snd (add (fst (add s v c)) w d) \<noteq> snd (add s v c)"
  using add_not_live [OF add_ok [OF assms(1,2)] assms(3) add_resolves [OF assms(1,2)]] .

end

end
