(* ===== verification/Instr.thy ===== *)
theory Instr
  imports Prelude
begin

text \<open>
  The instruction word of \<^verbatim>\<open>src/vm/instructions.rs\<close>: the forty opcodes, the three
  formats iABC, iABx and iAsBx, the builders, the field accessors and the
  in-place setters that the code generator uses for patching.
\<close>

section \<open>Field layout\<close>

definition SIZE_OP :: nat where "SIZE_OP = 6"
definition SIZE_A :: nat where "SIZE_A = 8"
definition SIZE_B :: nat where "SIZE_B = 9"
definition SIZE_C :: nat where "SIZE_C = 9"
definition SIZE_BX :: nat where "SIZE_BX = SIZE_B + SIZE_C"

definition POS_OP :: nat where "POS_OP = 0"
definition POS_A :: nat where "POS_A = POS_OP + SIZE_OP"
definition POS_C :: nat where "POS_C = POS_A + SIZE_A"
definition POS_B :: nat where "POS_B = POS_C + SIZE_C"
definition POS_BX :: nat where "POS_BX = POS_C"

definition MASK_OP :: u32 where "MASK_OP = push_bit SIZE_OP 1 - 1"
definition MASK_A :: u32 where "MASK_A = push_bit SIZE_A 1 - 1"
definition MASK_B :: u32 where "MASK_B = push_bit SIZE_B 1 - 1"
definition MASK_C :: u32 where "MASK_C = push_bit SIZE_C 1 - 1"
definition MASK_BX :: u32 where "MASK_BX = push_bit SIZE_BX 1 - 1"

definition MAXARG_BX :: u32 where "MAXARG_BX = MASK_BX"
definition MAXARG_SBX :: i32 where "MAXARG_SBX = drop_bit 1 MAXARG_BX"
definition MAXARG_A :: u32 where "MAXARG_A = MASK_A"
definition MAXARG_B :: u32 where "MAXARG_B = MASK_B"
definition MAXARG_C :: u32 where "MAXARG_C = MASK_C"
definition MAXSTACK :: u32 where "MAXSTACK = 250"
definition LUAI_MAXACTIVEVARS :: u32 where "LUAI_MAXACTIVEVARS = 200"
definition BITRK :: u32 where "BITRK = push_bit (SIZE_B - 1) 1"
definition MAXINDEXRK :: u32 where "MAXINDEXRK = BITRK - 1"
definition NO_REG :: u32 where "NO_REG = MAXARG_A"
definition NO_JUMP :: i32 where "NO_JUMP = -1"
definition LFIELDS_PER_FLUSH :: u32 where "LFIELDS_PER_FLUSH = 50"
definition LUAI_MAXVARS :: u32 where "LUAI_MAXVARS = 512"
definition LUAI_MAXUPVALUES :: u32 where "LUAI_MAXUPVALUES = 60"

definition is_k :: "u32 \<Rightarrow> bool" where
  "is_k x \<longleftrightarrow> x AND BITRK \<noteq> 0"

definition rk_as_k :: "u32 \<Rightarrow> u32" where
  "rk_as_k idx = idx OR BITRK"

definition index_k :: "u32 \<Rightarrow> u32" where
  "index_k rk = rk AND NOT BITRK"

lemmas size_defs = SIZE_OP_def SIZE_A_def SIZE_B_def SIZE_C_def SIZE_BX_def
  POS_OP_def POS_A_def POS_B_def POS_C_def POS_BX_def

lemma mask_values [mask_simps]:
  "MASK_OP = mask 6" "MASK_A = mask 8" "MASK_B = mask 9" "MASK_C = mask 9" "MASK_BX = mask 18"
  by (simp_all add: MASK_OP_def MASK_A_def MASK_B_def MASK_C_def MASK_BX_def size_defs
      mask_eq_exp_minus_1)

lemma pos_values [mask_simps]:
  "POS_OP = 0" "POS_A = 6" "POS_C = 14" "POS_B = 23" "POS_BX = 14"
  by (simp_all add: size_defs)

lemma BITRK_value [mask_simps]: "BITRK = 256" "MAXINDEXRK = 255" "MAXARG_SBX = 131071"
  "MAXARG_BX = mask 18"
  by (simp_all add: BITRK_def MAXINDEXRK_def MAXARG_SBX_def MAXARG_BX_def size_defs MASK_BX_def
      mask_eq_exp_minus_1)

section \<open>Opcodes\<close>

datatype OpCode =
    Op_Move | Op_LoadK | Op_LoadBool | Op_LoadNil | Op_GetUpval
  | Op_GetGlobal | Op_GetTable | Op_SetGlobal | Op_SetUpval | Op_SetTable
  | Op_NewTable | Op_OpSelf | Op_Add | Op_Sub | Op_Mul
  | Op_Div | Op_Mod | Op_Pow | Op_Unm | Op_Not
  | Op_Len | Op_Concat | Op_Jmp | Op_Eq | Op_Lt
  | Op_Le | Op_Test | Op_TestSet | Op_Call | Op_TailCall
  | Op_Return | Op_ForLoop | Op_ForPrep | Op_TForLoop | Op_SetList
  | Op_Close | Op_Closure | Op_VarArg | Op_GetGlobalSlot | Op_SetGlobalSlot

definition NUM_OPCODES :: u32 where "NUM_OPCODES = 40"

text \<open>The explicit discriminants of the \<open>repr(u8)\<close> enum.\<close>

primrec op_u8 :: "OpCode \<Rightarrow> u8" where
  "op_u8 Op_Move = 0" | "op_u8 Op_LoadK = 1" | "op_u8 Op_LoadBool = 2"
| "op_u8 Op_LoadNil = 3" | "op_u8 Op_GetUpval = 4" | "op_u8 Op_GetGlobal = 5"
| "op_u8 Op_GetTable = 6" | "op_u8 Op_SetGlobal = 7" | "op_u8 Op_SetUpval = 8"
| "op_u8 Op_SetTable = 9" | "op_u8 Op_NewTable = 10" | "op_u8 Op_OpSelf = 11"
| "op_u8 Op_Add = 12" | "op_u8 Op_Sub = 13" | "op_u8 Op_Mul = 14"
| "op_u8 Op_Div = 15" | "op_u8 Op_Mod = 16" | "op_u8 Op_Pow = 17"
| "op_u8 Op_Unm = 18" | "op_u8 Op_Not = 19" | "op_u8 Op_Len = 20"
| "op_u8 Op_Concat = 21" | "op_u8 Op_Jmp = 22" | "op_u8 Op_Eq = 23"
| "op_u8 Op_Lt = 24" | "op_u8 Op_Le = 25" | "op_u8 Op_Test = 26"
| "op_u8 Op_TestSet = 27" | "op_u8 Op_Call = 28" | "op_u8 Op_TailCall = 29"
| "op_u8 Op_Return = 30" | "op_u8 Op_ForLoop = 31" | "op_u8 Op_ForPrep = 32"
| "op_u8 Op_TForLoop = 33" | "op_u8 Op_SetList = 34" | "op_u8 Op_Close = 35"
| "op_u8 Op_Closure = 36" | "op_u8 Op_VarArg = 37" | "op_u8 Op_GetGlobalSlot = 38"
| "op_u8 Op_SetGlobalSlot = 39"

definition op_u32 :: "OpCode \<Rightarrow> u32" where
  "op_u32 op = ucast (op_u8 op)"

text \<open>The match table of \<open>from_u8\<close>.\<close>

definition from_u8 :: "u8 \<Rightarrow> OpCode option" where
  "from_u8 n = map_of
    [(0, Op_Move), (1, Op_LoadK), (2, Op_LoadBool), (3, Op_LoadNil), (4, Op_GetUpval),
     (5, Op_GetGlobal), (6, Op_GetTable), (7, Op_SetGlobal), (8, Op_SetUpval),
     (9, Op_SetTable), (10, Op_NewTable), (11, Op_OpSelf), (12, Op_Add), (13, Op_Sub),
     (14, Op_Mul), (15, Op_Div), (16, Op_Mod), (17, Op_Pow), (18, Op_Unm), (19, Op_Not),
     (20, Op_Len), (21, Op_Concat), (22, Op_Jmp), (23, Op_Eq), (24, Op_Lt), (25, Op_Le),
     (26, Op_Test), (27, Op_TestSet), (28, Op_Call), (29, Op_TailCall), (30, Op_Return),
     (31, Op_ForLoop), (32, Op_ForPrep), (33, Op_TForLoop), (34, Op_SetList),
     (35, Op_Close), (36, Op_Closure), (37, Op_VarArg), (38, Op_GetGlobalSlot),
     (39, Op_SetGlobalSlot)] n"

text \<open>
  \<open>from_u8_unchecked\<close> transmutes a byte into the contiguous enum: the result is the
  variant at that position of the declaration.
\<close>

definition opcode_variants :: "OpCode list" where
  "opcode_variants =
    [Op_Move, Op_LoadK, Op_LoadBool, Op_LoadNil, Op_GetUpval, Op_GetGlobal, Op_GetTable,
     Op_SetGlobal, Op_SetUpval, Op_SetTable, Op_NewTable, Op_OpSelf, Op_Add, Op_Sub, Op_Mul,
     Op_Div, Op_Mod, Op_Pow, Op_Unm, Op_Not, Op_Len, Op_Concat, Op_Jmp, Op_Eq, Op_Lt, Op_Le,
     Op_Test, Op_TestSet, Op_Call, Op_TailCall, Op_Return, Op_ForLoop, Op_ForPrep,
     Op_TForLoop, Op_SetList, Op_Close, Op_Closure, Op_VarArg, Op_GetGlobalSlot,
     Op_SetGlobalSlot]"

definition from_u8_unchecked :: "u8 \<Rightarrow> OpCode" where
  "from_u8_unchecked n = opcode_variants ! unat n"

datatype OpMode = IABC | IABx | IAsBx
datatype OpArgMask = Arg_N | Arg_U | Arg_R | Arg_K

fun is_test_mode :: "OpCode \<Rightarrow> bool" where
  "is_test_mode op = (case op of Op_Eq \<Rightarrow> True | Op_Lt \<Rightarrow> True | Op_Le \<Rightarrow> True
     | Op_Test \<Rightarrow> True | Op_TestSet \<Rightarrow> True | _ \<Rightarrow> False)"

fun op_mode :: "OpCode \<Rightarrow> OpMode" where
  "op_mode op = (case op of
      Op_Jmp \<Rightarrow> IAsBx | Op_ForLoop \<Rightarrow> IAsBx | Op_ForPrep \<Rightarrow> IAsBx
    | Op_LoadK \<Rightarrow> IABx | Op_GetGlobal \<Rightarrow> IABx | Op_SetGlobal \<Rightarrow> IABx | Op_Closure \<Rightarrow> IABx
    | Op_GetGlobalSlot \<Rightarrow> IABx | Op_SetGlobalSlot \<Rightarrow> IABx
    | _ \<Rightarrow> IABC)"

fun b_mode :: "OpCode \<Rightarrow> OpArgMask" where
  "b_mode op = (case op of
      Op_LoadK \<Rightarrow> Arg_K | Op_GetGlobal \<Rightarrow> Arg_K | Op_SetGlobal \<Rightarrow> Arg_K
    | Op_GetGlobalSlot \<Rightarrow> Arg_K | Op_SetGlobalSlot \<Rightarrow> Arg_K | Op_SetTable \<Rightarrow> Arg_K
    | Op_Add \<Rightarrow> Arg_K | Op_Sub \<Rightarrow> Arg_K | Op_Mul \<Rightarrow> Arg_K | Op_Div \<Rightarrow> Arg_K
    | Op_Mod \<Rightarrow> Arg_K | Op_Pow \<Rightarrow> Arg_K | Op_Eq \<Rightarrow> Arg_K | Op_Lt \<Rightarrow> Arg_K | Op_Le \<Rightarrow> Arg_K
    | Op_Move \<Rightarrow> Arg_R | Op_LoadNil \<Rightarrow> Arg_R | Op_Unm \<Rightarrow> Arg_R | Op_Not \<Rightarrow> Arg_R
    | Op_Len \<Rightarrow> Arg_R | Op_Concat \<Rightarrow> Arg_R | Op_Jmp \<Rightarrow> Arg_R | Op_Test \<Rightarrow> Arg_R
    | Op_TestSet \<Rightarrow> Arg_R | Op_ForLoop \<Rightarrow> Arg_R | Op_ForPrep \<Rightarrow> Arg_R | Op_GetTable \<Rightarrow> Arg_R
    | Op_OpSelf \<Rightarrow> Arg_R
    | Op_LoadBool \<Rightarrow> Arg_U | Op_GetUpval \<Rightarrow> Arg_U | Op_SetUpval \<Rightarrow> Arg_U | Op_NewTable \<Rightarrow> Arg_U
    | Op_Call \<Rightarrow> Arg_U | Op_TailCall \<Rightarrow> Arg_U | Op_Return \<Rightarrow> Arg_U | Op_SetList \<Rightarrow> Arg_U
    | Op_Closure \<Rightarrow> Arg_U | Op_VarArg \<Rightarrow> Arg_U
    | Op_TForLoop \<Rightarrow> Arg_N | Op_Close \<Rightarrow> Arg_N)"

fun c_mode :: "OpCode \<Rightarrow> OpArgMask" where
  "c_mode op = (case op of
      Op_GetTable \<Rightarrow> Arg_K | Op_OpSelf \<Rightarrow> Arg_K | Op_SetTable \<Rightarrow> Arg_K
    | Op_Add \<Rightarrow> Arg_K | Op_Sub \<Rightarrow> Arg_K | Op_Mul \<Rightarrow> Arg_K | Op_Div \<Rightarrow> Arg_K
    | Op_Mod \<Rightarrow> Arg_K | Op_Pow \<Rightarrow> Arg_K | Op_Eq \<Rightarrow> Arg_K | Op_Lt \<Rightarrow> Arg_K | Op_Le \<Rightarrow> Arg_K
    | Op_Concat \<Rightarrow> Arg_R
    | Op_LoadBool \<Rightarrow> Arg_U | Op_NewTable \<Rightarrow> Arg_U | Op_Call \<Rightarrow> Arg_U | Op_TailCall \<Rightarrow> Arg_U
    | Op_SetList \<Rightarrow> Arg_U | Op_Test \<Rightarrow> Arg_U | Op_TestSet \<Rightarrow> Arg_U | Op_TForLoop \<Rightarrow> Arg_U
    | Op_VarArg \<Rightarrow> Arg_U
    | _ \<Rightarrow> Arg_N)"

fun sets_register_a :: "OpCode \<Rightarrow> bool" where
  "sets_register_a op = (\<not> (case op of
      Op_SetGlobal \<Rightarrow> True | Op_SetGlobalSlot \<Rightarrow> True | Op_SetUpval \<Rightarrow> True
    | Op_SetTable \<Rightarrow> True | Op_Jmp \<Rightarrow> True | Op_Eq \<Rightarrow> True | Op_Lt \<Rightarrow> True | Op_Le \<Rightarrow> True
    | Op_Return \<Rightarrow> True | Op_SetList \<Rightarrow> True | Op_Close \<Rightarrow> True | Op_TForLoop \<Rightarrow> True
    | _ \<Rightarrow> False))"

primrec op_name :: "OpCode \<Rightarrow> string" where
  "op_name Op_Move = ''MOVE''" | "op_name Op_LoadK = ''LOADK''"
| "op_name Op_LoadBool = ''LOADBOOL''" | "op_name Op_LoadNil = ''LOADNIL''"
| "op_name Op_GetUpval = ''GETUPVAL''" | "op_name Op_GetGlobal = ''GETGLOBAL''"
| "op_name Op_GetTable = ''GETTABLE''" | "op_name Op_SetGlobal = ''SETGLOBAL''"
| "op_name Op_SetUpval = ''SETUPVAL''" | "op_name Op_SetTable = ''SETTABLE''"
| "op_name Op_NewTable = ''NEWTABLE''" | "op_name Op_OpSelf = ''SELF''"
| "op_name Op_Add = ''ADD''" | "op_name Op_Sub = ''SUB''" | "op_name Op_Mul = ''MUL''"
| "op_name Op_Div = ''DIV''" | "op_name Op_Mod = ''MOD''" | "op_name Op_Pow = ''POW''"
| "op_name Op_Unm = ''UNM''" | "op_name Op_Not = ''NOT''" | "op_name Op_Len = ''LEN''"
| "op_name Op_Concat = ''CONCAT''" | "op_name Op_Jmp = ''JMP''" | "op_name Op_Eq = ''EQ''"
| "op_name Op_Lt = ''LT''" | "op_name Op_Le = ''LE''" | "op_name Op_Test = ''TEST''"
| "op_name Op_TestSet = ''TESTSET''" | "op_name Op_Call = ''CALL''"
| "op_name Op_TailCall = ''TAILCALL''" | "op_name Op_Return = ''RETURN''"
| "op_name Op_ForLoop = ''FORLOOP''" | "op_name Op_ForPrep = ''FORPREP''"
| "op_name Op_TForLoop = ''TFORLOOP''" | "op_name Op_SetList = ''SETLIST''"
| "op_name Op_Close = ''CLOSE''" | "op_name Op_Closure = ''CLOSURE''"
| "op_name Op_VarArg = ''VARARG''" | "op_name Op_GetGlobalSlot = ''GETGLOBAL_SLOT''"
| "op_name Op_SetGlobalSlot = ''SETGLOBAL_SLOT''"

section \<open>The instruction word\<close>

datatype Instruction = Instruction (raw: u32)

definition abc :: "OpCode \<Rightarrow> u32 \<Rightarrow> u32 \<Rightarrow> u32 \<Rightarrow> Instruction" where
  "abc op a b c = Instruction (push_bit POS_OP (op_u32 op)
     OR push_bit POS_A (a AND MASK_A)
     OR push_bit POS_B (b AND MASK_B)
     OR push_bit POS_C (c AND MASK_C))"

definition a_bx :: "OpCode \<Rightarrow> u32 \<Rightarrow> u32 \<Rightarrow> Instruction" where
  "a_bx op a bx = Instruction (push_bit POS_OP (op_u32 op)
     OR push_bit POS_A (a AND MASK_A) OR push_bit POS_BX (bx AND MASK_BX))"

text \<open>The signed field is stored in excess-K form; the addition is on 32-bit words.\<close>

definition a_sbx :: "OpCode \<Rightarrow> u32 \<Rightarrow> i32 \<Rightarrow> Instruction" where
  "a_sbx op a sbx = a_bx op a (sbx + MAXARG_SBX)"

definition ins_opcode :: "Instruction \<Rightarrow> OpCode" where
  "ins_opcode i = (let op = drop_bit POS_OP (raw i) AND MASK_OP in
     if op < NUM_OPCODES then from_u8_unchecked (ucast op) else Op_Move)"

definition ins_a :: "Instruction \<Rightarrow> u32" where
  "ins_a i = drop_bit POS_A (raw i) AND MASK_A"

definition ins_b :: "Instruction \<Rightarrow> u32" where
  "ins_b i = drop_bit POS_B (raw i) AND MASK_B"

definition ins_c :: "Instruction \<Rightarrow> u32" where
  "ins_c i = drop_bit POS_C (raw i) AND MASK_C"

definition ins_bx :: "Instruction \<Rightarrow> u32" where
  "ins_bx i = drop_bit POS_BX (raw i) AND MASK_BX"

definition ins_sbx :: "Instruction \<Rightarrow> i32" where
  "ins_sbx i = ins_bx i - MAXARG_SBX"

definition set_a :: "u32 \<Rightarrow> Instruction \<Rightarrow> Instruction" where
  "set_a a i = Instruction ((raw i AND NOT (push_bit POS_A MASK_A))
     OR push_bit POS_A (a AND MASK_A))"

definition set_opcode :: "OpCode \<Rightarrow> Instruction \<Rightarrow> Instruction" where
  "set_opcode op i = Instruction ((raw i AND NOT (push_bit POS_OP MASK_OP))
     OR push_bit POS_OP (op_u32 op))"

definition set_b :: "u32 \<Rightarrow> Instruction \<Rightarrow> Instruction" where
  "set_b b i = Instruction ((raw i AND NOT (push_bit POS_B MASK_B))
     OR push_bit POS_B (b AND MASK_B))"

definition set_c :: "u32 \<Rightarrow> Instruction \<Rightarrow> Instruction" where
  "set_c c i = Instruction ((raw i AND NOT (push_bit POS_C MASK_C))
     OR push_bit POS_C (c AND MASK_C))"

definition set_bx :: "u32 \<Rightarrow> Instruction \<Rightarrow> Instruction" where
  "set_bx bx i = Instruction ((raw i AND NOT (push_bit POS_BX MASK_BX))
     OR push_bit POS_BX (bx AND MASK_BX))"

definition set_sbx :: "i32 \<Rightarrow> Instruction \<Rightarrow> Instruction" where
  "set_sbx sbx i = Instruction ((raw i AND NOT (push_bit POS_BX MASK_BX))
     OR push_bit POS_BX ((sbx + MAXARG_SBX) AND MASK_BX))"

section \<open>Opcode tables\<close>

lemma op_u32_mask: "op_u32 op AND mask 6 = op_u32 op"
  by (cases op) (simp_all add: op_u32_def mask_eq_exp_minus_1)

lemma op_u32_bits: "bit (op_u32 op) n \<Longrightarrow> n < 6"
  by (subst (asm) op_u32_mask [symmetric]) (simp add: bit_simps)

lemma from_u8_op_u8 [simp]: "from_u8 (op_u8 op) = Some op"
  by (cases op) (simp_all add: from_u8_def)

lemma op_u8_from_u8: "from_u8 n = Some op \<Longrightarrow> op_u8 op = n"
  by (auto simp: from_u8_def split: if_splits)

lemma op_u8_bound: "op_u8 op < 40"
  by (cases op) simp_all

lemma op_u8_inj: "op_u8 op = op_u8 op' \<longleftrightarrow> op = op'"
  by (metis from_u8_op_u8 option.inject)

lemma unchecked_op_u8 [simp]: "from_u8_unchecked (op_u8 op) = op"
  by (cases op) (simp_all add: from_u8_unchecked_def opcode_variants_def)

lemma map_op_u8_variants: "map op_u8 opcode_variants = map of_nat [0..<40]"
  by (simp add: opcode_variants_def upt_rec)

lemma op_u8_unchecked:
  assumes "n < 40"
  shows "op_u8 (from_u8_unchecked n) = n"
proof -
  have len: "length opcode_variants = 40" by (simp add: opcode_variants_def)
  have n: "unat n < 40" using assms by (simp add: word_less_nat_alt)
  have "op_u8 (opcode_variants ! unat n) = map op_u8 opcode_variants ! unat n"
    using n len by simp
  also have "\<dots> = of_nat (unat n)"
    using n by (simp only: map_op_u8_variants) simp
  finally show ?thesis by (simp add: from_u8_unchecked_def)
qed

text \<open>The transmuted variant is the one the checked conversion finds.\<close>

lemma from_u8_unchecked_checked: "n < 40 \<Longrightarrow> from_u8 n = Some (from_u8_unchecked n)"
  by (metis from_u8_op_u8 op_u8_unchecked)

lemma from_u8_eq_None: "from_u8 n = None \<longleftrightarrow> 40 \<le> n"
proof
  show "40 \<le> n" if "from_u8 n = None"
    using that from_u8_unchecked_checked by (metis not_le option.distinct(1))
  show "from_u8 n = None" if "40 \<le> n"
    using that op_u8_from_u8 op_u8_bound by (metis not_le option.exhaust)
qed

section \<open>Bit fields\<close>

text \<open>
  Every accessor and setter is a field of the instruction word at a position
  and of a width. The laws of one field, and the independence of two disjoint
  ones, are proved once for any field and instantiated for the six of the code.
\<close>

locale word_field =
  fixes pos width :: nat
  assumes fits: "pos + width \<le> 32"
begin

lemma get_set:
  "drop_bit pos ((w AND NOT (push_bit pos (mask width))) OR push_bit pos (v AND mask width))
     AND mask width = (v AND mask width :: u32)"
  by (rule word_eq_by_bits) (use fits in \<open>auto simp: bit_simps\<close>)

lemma get_update:
  "drop_bit pos ((w AND NOT (push_bit pos (mask width))) OR push_bit pos v) AND mask width
     = (v AND mask width :: u32)"
  by (rule word_eq_by_bits) (use fits in \<open>auto simp: bit_simps\<close>)

lemma set_get:
  "(w AND NOT (push_bit pos (mask width)))
     OR push_bit pos (drop_bit pos w AND mask width) = (w :: u32)"
  by (rule word_eq_by_bits) (use fits in \<open>auto simp: bit_simps\<close>)

end

locale disjoint_fields = f: word_field p w + g: word_field q v for p w q v :: nat +
  assumes apart: "p + w \<le> q \<or> q + v \<le> p"
begin

lemma get_set_other:
  "drop_bit p ((x AND NOT (push_bit q (mask v))) OR push_bit q (y AND mask v)) AND mask w
     = (drop_bit p x AND mask w :: u32)"
  by (rule word_eq_by_bits) (use f.fits g.fits apart in \<open>auto simp: bit_simps\<close>)

lemma set_commute:
  "(((x AND NOT (push_bit q (mask v))) OR push_bit q (y AND mask v))
      AND NOT (push_bit p (mask w))) OR push_bit p (z AND mask w)
   = ((((x AND NOT (push_bit p (mask w))) OR push_bit p (z AND mask w))
      AND NOT (push_bit q (mask v))) OR push_bit q (y AND mask v) :: u32)"
  by (rule word_eq_by_bits) (use f.fits g.fits apart in \<open>auto simp: bit_simps\<close>)

end

interpretation fld_op: word_field 0 6 by unfold_locales simp
interpretation fld_a: word_field 6 8 by unfold_locales simp
interpretation fld_c: word_field 14 9 by unfold_locales simp
interpretation fld_b: word_field 23 9 by unfold_locales simp
interpretation fld_bx: word_field 14 18 by unfold_locales simp

interpretation fop_a: disjoint_fields 0 6 6 8 by unfold_locales simp
interpretation fop_b: disjoint_fields 0 6 23 9 by unfold_locales simp
interpretation fop_c: disjoint_fields 0 6 14 9 by unfold_locales simp
interpretation fop_bx: disjoint_fields 0 6 14 18 by unfold_locales simp
interpretation fa_op: disjoint_fields 6 8 0 6 by unfold_locales simp
interpretation fa_b: disjoint_fields 6 8 23 9 by unfold_locales simp
interpretation fa_c: disjoint_fields 6 8 14 9 by unfold_locales simp
interpretation fa_bx: disjoint_fields 6 8 14 18 by unfold_locales simp
interpretation fb_op: disjoint_fields 23 9 0 6 by unfold_locales simp
interpretation fb_a: disjoint_fields 23 9 6 8 by unfold_locales simp
interpretation fb_c: disjoint_fields 23 9 14 9 by unfold_locales simp
interpretation fc_op: disjoint_fields 14 9 0 6 by unfold_locales simp
interpretation fc_a: disjoint_fields 14 9 6 8 by unfold_locales simp
interpretation fc_b: disjoint_fields 14 9 23 9 by unfold_locales simp
interpretation fbx_op: disjoint_fields 14 18 0 6 by unfold_locales simp
interpretation fbx_a: disjoint_fields 14 18 6 8 by unfold_locales simp

lemmas field_get_set = fld_op.get_set fld_a.get_set fld_b.get_set fld_c.get_set fld_bx.get_set

lemmas field_other = fop_a.get_set_other fop_b.get_set_other fop_c.get_set_other
  fop_bx.get_set_other fa_op.get_set_other fa_b.get_set_other fa_c.get_set_other
  fa_bx.get_set_other fb_op.get_set_other fb_a.get_set_other fb_c.get_set_other
  fc_op.get_set_other fc_a.get_set_other fc_b.get_set_other fbx_op.get_set_other
  fbx_a.get_set_other

lemmas [instr_defs] = ins_a_def ins_b_def ins_c_def ins_bx_def set_a_def set_b_def set_c_def
  set_bx_def set_opcode_def

definition op_bits :: "Instruction \<Rightarrow> u32" where
  "op_bits i = drop_bit POS_OP (raw i) AND MASK_OP"

lemma set_opcode_masked:
  "set_opcode op i = Instruction ((raw i AND NOT (push_bit 0 (mask 6)))
     OR push_bit 0 (op_u32 op AND mask 6))"
  by (simp add: set_opcode_def mask_simps op_u32_mask)

lemma op_u32_bound: "op_u32 op < 40"
  by (cases op) (simp_all add: op_u32_def)

lemma ins_opcode_bits:
  assumes "op_bits i = op_u32 op"
  shows "ins_opcode i = op"
proof -
  have "(ucast (op_u32 op) :: u8) = op_u8 op"
    by (cases op) (simp_all add: op_u32_def)
  then show ?thesis
    using assms op_u32_bound [of op] by (simp add: ins_opcode_def op_bits_def NUM_OPCODES_def)
qed

lemma ins_opcode_cong: "op_bits i = op_bits j \<Longrightarrow> ins_opcode i = ins_opcode j"
  by (simp add: ins_opcode_def op_bits_def)

lemma op_bits_opcode:
  assumes "op_bits i < 40"
  shows "op_u32 (ins_opcode i) = op_bits i"
proof -
  have u: "unat (op_bits i) < 40" using assms by (simp add: word_less_nat_alt)
  have c: "(ucast (op_bits i) :: u8) < 40"
    using u by (simp add: word_less_nat_alt unsigned_ucast_eq take_bit_nat_eq_self)
  have "op_u32 (ins_opcode i) = ucast (ucast (op_bits i) :: u8)"
    using assms op_u8_unchecked [OF c]
    by (simp add: ins_opcode_def op_bits_def [symmetric] NUM_OPCODES_def op_u32_def)
  also have "\<dots> = op_bits i"
    using u by (simp add: word_unat_eq_iff unsigned_ucast_eq unsigned_take_bit_eq take_bit_nat_eq_self)
  finally show ?thesis .
qed

lemma set_a_fields [simp]:
  "ins_a (set_a v i) = v AND MASK_A" "ins_b (set_a v i) = ins_b i"
  "ins_c (set_a v i) = ins_c i" "ins_bx (set_a v i) = ins_bx i" "op_bits (set_a v i) = op_bits i"
  by (simp_all only: instr_defs op_bits_def mask_simps field_get_set field_other Instruction.sel)

lemma set_b_fields [simp]:
  "ins_b (set_b v i) = v AND MASK_B" "ins_a (set_b v i) = ins_a i"
  "ins_c (set_b v i) = ins_c i" "op_bits (set_b v i) = op_bits i"
  by (simp_all only: instr_defs op_bits_def mask_simps field_get_set field_other Instruction.sel)

lemma set_c_fields [simp]:
  "ins_c (set_c v i) = v AND MASK_C" "ins_a (set_c v i) = ins_a i"
  "ins_b (set_c v i) = ins_b i" "op_bits (set_c v i) = op_bits i"
  by (simp_all only: instr_defs op_bits_def mask_simps field_get_set field_other Instruction.sel)

lemma set_bx_fields [simp]:
  "ins_bx (set_bx v i) = v AND MASK_BX" "ins_a (set_bx v i) = ins_a i"
  "op_bits (set_bx v i) = op_bits i"
  by (simp_all only: instr_defs op_bits_def mask_simps field_get_set field_other Instruction.sel)

lemma set_opcode_fields_raw:
  "op_bits (set_opcode op i) = op_u32 op AND mask 6" "ins_a (set_opcode op i) = ins_a i"
  "ins_b (set_opcode op i) = ins_b i" "ins_c (set_opcode op i) = ins_c i"
  "ins_bx (set_opcode op i) = ins_bx i"
  by (simp_all only: set_opcode_masked op_bits_def ins_a_def ins_b_def ins_c_def ins_bx_def
       mask_simps field_get_set field_other Instruction.sel)

lemma set_opcode_fields [simp]:
  "ins_opcode (set_opcode op i) = op" "ins_a (set_opcode op i) = ins_a i"
  "ins_b (set_opcode op i) = ins_b i" "ins_c (set_opcode op i) = ins_c i"
  "ins_bx (set_opcode op i) = ins_bx i"
  by (rule ins_opcode_bits, simp only: set_opcode_fields_raw op_u32_mask)
     (simp_all only: set_opcode_fields_raw)

lemma setters_keep_opcode [simp]:
  "ins_opcode (set_a v i) = ins_opcode i" "ins_opcode (set_b v i) = ins_opcode i"
  "ins_opcode (set_c v i) = ins_opcode i" "ins_opcode (set_bx v i) = ins_opcode i"
  by (rule ins_opcode_cong, simp)+

text \<open>The signed setter is the unsigned one after the excess-K shift.\<close>

lemma set_sbx_alt: "set_sbx s i = set_bx (s + MAXARG_SBX) i"
  by (simp add: set_sbx_def set_bx_def)

section \<open>Builders\<close>

text \<open>A built instruction is the zero word with its fields set one after the other.\<close>

lemma abc_fields:
  "op_bits (abc op a b c) = op_u32 op" "ins_a (abc op a b c) = a AND MASK_A"
  "ins_b (abc op a b c) = b AND MASK_B" "ins_c (abc op a b c) = c AND MASK_C"
  by (simp_all add: abc_def op_bits_def ins_a_def ins_b_def ins_c_def mask_simps)
     (rule word_eq_by_bits, auto simp: bit_simps dest: op_u32_bits)+

lemma a_bx_fields:
  "op_bits (a_bx op a bx) = op_u32 op" "ins_a (a_bx op a bx) = a AND MASK_A"
  "ins_bx (a_bx op a bx) = bx AND MASK_BX"
  by (simp_all add: a_bx_def op_bits_def ins_a_def ins_bx_def mask_simps)
     (rule word_eq_by_bits, auto simp: bit_simps dest: op_u32_bits)+

lemma ins_opcode_abc [simp]: "ins_opcode (abc op a b c) = op"
  by (rule ins_opcode_bits) (rule abc_fields)

lemma ins_opcode_a_bx [simp]: "ins_opcode (a_bx op a bx) = op"
  by (rule ins_opcode_bits) (rule a_bx_fields)

lemma raw_fields_abc:
  "Instruction (op_bits i OR push_bit 6 (ins_a i) OR push_bit 23 (ins_b i)
     OR push_bit 14 (ins_c i)) = i"
proof (cases i)
  case (Instruction x)
  have "(drop_bit 0 x AND mask 6) OR push_bit 6 (drop_bit 6 x AND mask 8)
      OR push_bit 23 (drop_bit 23 x AND mask 9) OR push_bit 14 (drop_bit 14 x AND mask 9) = x"
    (is "?l = x")
  proof (rule word_eq_by_bits)
    fix n assume "n < LENGTH(32)"
    then consider "n < 6" | "6 \<le> n" "n < 14" | "14 \<le> n" "n < 23" | "23 \<le> n" "n < 32"
      by fastforce
    then show "bit ?l n = bit x n"
      by cases (auto simp: bit_simps)
  qed
  then show ?thesis
    using Instruction by (simp add: op_bits_def ins_a_def ins_b_def ins_c_def mask_simps)
qed

lemma ins_masked [simp]:
  "ins_a i AND MASK_A = ins_a i" "ins_b i AND MASK_B = ins_b i" "ins_c i AND MASK_C = ins_c i"
  "ins_bx i AND MASK_BX = ins_bx i"
  by (simp_all add: ins_a_def ins_b_def ins_c_def ins_bx_def and.assoc)

lemma abc_reassemble:
  assumes "op_bits i < 40"
  shows "abc (ins_opcode i) (ins_a i) (ins_b i) (ins_c i) = i"
  using raw_fields_abc [of i] op_bits_opcode [OF assms]
  by (simp add: abc_def) (simp add: mask_simps)

lemma sbx_excess_K:
  assumes "-131071 \<le> sint s" "sint s \<le> 131072"
  shows "((s + 131071) AND mask 18) - 131071 = (s :: i32)"
proof -
  have e: "s + 131071 = word_of_int (sint s + 131071)" by simp
  have "uint (s + 131071) = sint s + 131071"
    unfolding e using assms by (simp add: unsigned_of_int take_bit_int_eq_self del: of_int_add)
  then have "unat (s + 131071) < 2 ^ 18"
    using assms by (simp add: unat_eq_nat_uint)
  then show ?thesis by (simp add: and_mask_small)
qed

section \<open>Round trips\<close>

text \<open>Encoding and decoding are inverse: operands that fit their fields come back from an ABC
  instruction with its opcode, and every word with a defined opcode is rebuilt from its fields.\<close>

theorem abc_roundtrip:
  "(unat a < 2 ^ 8 \<and> unat b < 2 ^ 9 \<and> unat c < 2 ^ 9 \<longrightarrow>
      ins_opcode (abc op a b c) = op \<and> ins_a (abc op a b c) = a
    \<and> ins_b (abc op a b c) = b \<and> ins_c (abc op a b c) = c)
   \<and> (op_bits i < 40 \<longrightarrow> abc (ins_opcode i) (ins_a i) (ins_b i) (ins_c i) = i)"
proof (intro conjI impI)
  assume "op_bits i < 40"
  then show "abc (ins_opcode i) (ins_a i) (ins_b i) (ins_c i) = i" by (rule abc_reassemble)
qed (simp_all add: abc_fields mask_simps and_mask_small)

theorem abc_roundtrip_witness:
  "ins_b (abc Op_Add 1 256 511) = 256 \<and> abc Op_Add 1 2 3 = Instruction 0x100C04C"
proof -
  have "unat (1::u32) < 2 ^ 8 \<and> unat (256::u32) < 2 ^ 9 \<and> unat (511::u32) < 2 ^ 9" by simp
  then have "ins_b (abc Op_Add 1 256 511) = 256"
    using abc_roundtrip [where a = 1 and b = 256 and c = 511 and op = Op_Add and i = "Instruction 0"] by blast
  moreover have "abc Op_Add 1 2 3 = Instruction 0x100C04C" by code_simp
  ultimately show ?thesis ..
qed

text \<open>A jump offset from \<open>-131071\<close> to \<open>131072\<close> survives the excess-K encoding, written by the
  builder or by the setter, and neither touches the opcode or the A field.\<close>

theorem sbx_roundtrip:
  assumes "-131071 \<le> sint s" "sint s \<le> 131072"
  shows "ins_sbx (a_sbx op a s) = s \<and> ins_opcode (a_sbx op a s) = op
    \<and> ins_sbx (set_sbx s i) = s \<and> ins_opcode (set_sbx s i) = ins_opcode i \<and> ins_a (set_sbx s i) = ins_a i"
proof -
  have K: "MAXARG_SBX = 131071" by code_simp
  have M: "MASK_BX = mask 18" by (simp add: mask_simps)
  have e: "((s + MAXARG_SBX) AND MASK_BX) - MAXARG_SBX = s"
    using sbx_excess_K [OF assms] unfolding K M .
  show ?thesis by (simp add: ins_sbx_def a_sbx_def set_sbx_alt a_bx_fields e)
qed

theorem sbx_roundtrip_witness:
  "ins_sbx (a_sbx Op_Jmp 0 (-5)) = -5 \<and> ins_sbx (set_sbx 131072 (Instruction 0)) = 131072"
  using sbx_roundtrip [of "-5" Op_Jmp 0 "Instruction 0"] sbx_roundtrip [of 131072 Op_Jmp 0 "Instruction 0"]
  by simp

text \<open>Each setter writes its own field, truncated to the width of the field, and leaves the opcode
  and every other field alone; setting the opcode keeps all operands.\<close>

theorem setters_frame:
  "ins_a (set_a v i) = v AND MASK_A \<and> ins_b (set_a v i) = ins_b i \<and> ins_c (set_a v i) = ins_c i
     \<and> ins_bx (set_a v i) = ins_bx i \<and> ins_opcode (set_a v i) = ins_opcode i
   \<and> ins_b (set_b v i) = v AND MASK_B \<and> ins_a (set_b v i) = ins_a i \<and> ins_c (set_b v i) = ins_c i
     \<and> ins_opcode (set_b v i) = ins_opcode i
   \<and> ins_c (set_c v i) = v AND MASK_C \<and> ins_a (set_c v i) = ins_a i \<and> ins_b (set_c v i) = ins_b i
     \<and> ins_opcode (set_c v i) = ins_opcode i
   \<and> ins_opcode (set_opcode op i) = op \<and> ins_a (set_opcode op i) = ins_a i
     \<and> ins_b (set_opcode op i) = ins_b i \<and> ins_c (set_opcode op i) = ins_c i"
  by simp

text \<open>The byte conversions agree: exactly the forty defined codes are accepted, the unchecked
  conversion finds the same opcode there, and decoding a word never leaves the enumeration.\<close>

theorem opcode_conversions:
  "(from_u8 n = None \<longleftrightarrow> 40 \<le> n) \<and> (n < 40 \<longrightarrow> from_u8 n = Some (from_u8_unchecked n) \<and> op_u8 (from_u8_unchecked n) = n)
   \<and> from_u8 (op_u8 op) = Some op \<and> (\<not> op_bits i < 40 \<longrightarrow> ins_opcode i = Op_Move)"
  using from_u8_eq_None [of n] from_u8_unchecked_checked [of n] op_u8_unchecked [of n]
  by (simp add: ins_opcode_def op_bits_def NUM_OPCODES_def)

theorem opcode_conversions_witness:
  "from_u8 40 = None \<and> from_u8_unchecked 39 = Op_SetGlobalSlot \<and> ins_opcode (Instruction 63) = Op_Move"
proof -
  have "\<not> op_bits (Instruction 63) < 40" by code_simp
  moreover have "from_u8 39 = Some Op_SetGlobalSlot" by code_simp
  ultimately show ?thesis
    using opcode_conversions [of 40 Op_Move "Instruction 63"] opcode_conversions [of 39 Op_Move "Instruction 63"]
    by auto
qed

end
