(* ===== verification/Float64.thy ===== *)
theory Float64
  imports Prelude
begin

text \<open>
  The \<open>f64\<close> of the language, as the code uses it: a 64-bit IEEE 754 pattern with
  comparison, addition, subtraction, multiplication, division, negation, floor
  and the \<open>as\<close> conversions to and from \<open>i64\<close>. Every Lua number is one of these.
  Results are exact rationals rounded once, to nearest with ties to even, so
  every definition computes.
\<close>

type_synonym f64 = "64 word"

section \<open>Bit patterns\<close>

definition f64_sign :: "f64 \<Rightarrow> bool" where
  "f64_sign x = bit x 63"

definition f64_mag :: "f64 \<Rightarrow> int" where
  "f64_mag x = uint (x AND mask 63)"

definition SIGN_BIT :: f64 where "SIGN_BIT = push_bit 63 1"

definition f64_bits :: "bool \<Rightarrow> int \<Rightarrow> f64" where
  "f64_bits s m = (if s then SIGN_BIT else 0) OR (word_of_int m AND mask 63)"

text \<open>The magnitude of infinity; a larger magnitude is a NaN.\<close>

definition INF_MAG :: int where "INF_MAG = 2047 * 2 ^ 52"

definition f64_nan :: f64 where "f64_nan = f64_bits False (INF_MAG + 2 ^ 51)"
definition f64_inf :: "bool \<Rightarrow> f64" where "f64_inf s = f64_bits s INF_MAG"
definition f64_zero :: "bool \<Rightarrow> f64" where "f64_zero s = f64_bits s 0"

definition is_nan :: "f64 \<Rightarrow> bool" where "is_nan x \<longleftrightarrow> f64_mag x > INF_MAG"
definition is_infinite :: "f64 \<Rightarrow> bool" where "is_infinite x \<longleftrightarrow> f64_mag x = INF_MAG"
definition is_finite :: "f64 \<Rightarrow> bool" where "is_finite x \<longleftrightarrow> f64_mag x < INF_MAG"
definition is_zero :: "f64 \<Rightarrow> bool" where "is_zero x \<longleftrightarrow> f64_mag x = 0"

text \<open>A finite pattern is the integer \<open>f64_mant\<close> scaled by two to \<open>f64_exp\<close>.\<close>

definition f64_mant :: "f64 \<Rightarrow> int" where
  "f64_mant x = (let m = f64_mag x in
     if m div 2 ^ 52 = 0 then m else m mod 2 ^ 52 + 2 ^ 52)"

definition f64_exp :: "f64 \<Rightarrow> int" where
  "f64_exp x = (let m = f64_mag x in
     if m div 2 ^ 52 = 0 then -1074 else m div 2 ^ 52 - 1075)"

definition f64_smant :: "f64 \<Rightarrow> int" where
  "f64_smant x = (if f64_sign x then - f64_mant x else f64_mant x)"

section \<open>Comparison\<close>

text \<open>Sign and magnitude as one integer: the order of the values, both zeros equal.\<close>

definition f64_key :: "f64 \<Rightarrow> int" where
  "f64_key x = (if f64_sign x then - f64_mag x else f64_mag x)"

definition f64_eq :: "f64 \<Rightarrow> f64 \<Rightarrow> bool" where
  "f64_eq x y \<longleftrightarrow> \<not> is_nan x \<and> \<not> is_nan y \<and> f64_key x = f64_key y"

definition f64_lt :: "f64 \<Rightarrow> f64 \<Rightarrow> bool" where
  "f64_lt x y \<longleftrightarrow> \<not> is_nan x \<and> \<not> is_nan y \<and> f64_key x < f64_key y"

definition f64_le :: "f64 \<Rightarrow> f64 \<Rightarrow> bool" where
  "f64_le x y \<longleftrightarrow> \<not> is_nan x \<and> \<not> is_nan y \<and> f64_key x \<le> f64_key y"

section \<open>Rounding\<close>

text \<open>Number of binary digits.\<close>

function nbits :: "int \<Rightarrow> int" where
  "nbits n = (if n \<le> 0 then 0 else 1 + nbits (n div 2))"
  by pat_completeness auto
termination
  by (relation "measure nat") auto

declare nbits.simps [simp del]

definition scale_num :: "int \<Rightarrow> int \<Rightarrow> int" where
  "scale_num n e = n * 2 ^ nat e"

text \<open>The binary exponent of the positive rational \<open>n / d\<close>.\<close>

definition rat_log2 :: "int \<Rightarrow> int \<Rightarrow> int" where
  "rat_log2 n d = (let l = nbits n - nbits d in
     if scale_num d l \<le> scale_num n (- l) then l else l - 1)"

definition round_half_even :: "int \<Rightarrow> int \<Rightarrow> int" where
  "round_half_even n d = (let q = n div d; r = n mod d in
     if 2 * r < d then q else if 2 * r > d then q + 1 else if even q then q else q + 1)"

text \<open>
  The magnitude of the double nearest to the positive rational \<open>n / d\<close>: \<open>q\<close> units of
  the last place, the exponent clamped at the subnormal range. Adding \<open>q\<close> to the
  exponent field lets a carry run into the exponent.
\<close>

definition round_mag :: "int \<Rightarrow> int \<Rightarrow> int" where
  "round_mag n d = (let e = max (rat_log2 n d - 52) (-1074);
     q = round_half_even (scale_num n (- e)) (scale_num d e)
     in min INF_MAG ((e + 1074) * 2 ^ 52 + q))"

definition f64_round :: "bool \<Rightarrow> int \<Rightarrow> int \<Rightarrow> f64" where
  "f64_round s n d = (if n = 0 then f64_zero s else f64_bits s (round_mag n d))"

definition f64_scaled :: "bool \<Rightarrow> int \<Rightarrow> int \<Rightarrow> f64" where
  "f64_scaled s m e = f64_round s (scale_num m e) (scale_num 1 (- e))"

section \<open>Arithmetic\<close>

definition f64_neg :: "f64 \<Rightarrow> f64" where
  "f64_neg x = x XOR SIGN_BIT"

definition f64_abs :: "f64 \<Rightarrow> f64" where
  "f64_abs x = x AND mask 63"

definition f64_add :: "f64 \<Rightarrow> f64 \<Rightarrow> f64" where
  "f64_add x y =
    (if is_nan x \<or> is_nan y then f64_nan
     else if is_infinite x then
       (if is_infinite y \<and> f64_sign x \<noteq> f64_sign y then f64_nan else x)
     else if is_infinite y then y
     else let e = min (f64_exp x) (f64_exp y);
              k = f64_smant x * 2 ^ nat (f64_exp x - e) + f64_smant y * 2 ^ nat (f64_exp y - e)
          in if k = 0 then f64_zero (f64_sign x \<and> f64_sign y)
             else f64_scaled (k < 0) \<bar>k\<bar> e)"

definition f64_sub :: "f64 \<Rightarrow> f64 \<Rightarrow> f64" where
  "f64_sub x y = f64_add x (f64_neg y)"

definition f64_mul :: "f64 \<Rightarrow> f64 \<Rightarrow> f64" where
  "f64_mul x y =
    (let s = (f64_sign x \<noteq> f64_sign y) in
     if is_nan x \<or> is_nan y then f64_nan
     else if is_infinite x \<or> is_infinite y then
       (if is_zero x \<or> is_zero y then f64_nan else f64_inf s)
     else f64_scaled s (f64_mant x * f64_mant y) (f64_exp x + f64_exp y))"

definition f64_div :: "f64 \<Rightarrow> f64 \<Rightarrow> f64" where
  "f64_div x y =
    (let s = (f64_sign x \<noteq> f64_sign y) in
     if is_nan x \<or> is_nan y then f64_nan
     else if is_infinite x then (if is_infinite y then f64_nan else f64_inf s)
     else if is_infinite y then f64_zero s
     else if is_zero y then (if is_zero x then f64_nan else f64_inf s)
     else let e = f64_exp x - f64_exp y in
       f64_round s (scale_num (f64_mant x) e) (scale_num (f64_mant y) (- e)))"

definition f64_floor :: "f64 \<Rightarrow> f64" where
  "f64_floor x =
    (if \<not> is_finite x \<or> f64_exp x \<ge> 0 \<or> is_zero x then x
     else let k = f64_smant x div 2 ^ nat (- f64_exp x) in
       if k = 0 then f64_zero (f64_sign x) else f64_scaled (k < 0) \<bar>k\<bar> 0)"

section \<open>Conversions\<close>

definition I64_MAX :: int where "I64_MAX = 2 ^ 63 - 1"
definition I64_MIN :: int where "I64_MIN = - (2 ^ 63)"

text \<open>Truncation toward zero of a finite double.\<close>

definition f64_trunc :: "f64 \<Rightarrow> int" where
  "f64_trunc x = (let a = scale_num (f64_mant x) (f64_exp x) div scale_num 1 (- f64_exp x)
     in if f64_sign x then - a else a)"

text \<open>\<open>x as i64\<close> saturates and sends NaN to zero.\<close>

definition f64_to_i64 :: "f64 \<Rightarrow> int" where
  "f64_to_i64 x =
    (if is_nan x then 0
     else if is_infinite x then (if f64_sign x then I64_MIN else I64_MAX)
     else max I64_MIN (min I64_MAX (f64_trunc x)))"

text \<open>\<open>k as f64\<close> for an integer \<open>k\<close>.\<close>

definition f64_of_int :: "int \<Rightarrow> f64" where
  "f64_of_int k = f64_scaled (k < 0) \<bar>k\<bar> 0"

section \<open>Sign and magnitude\<close>

lemma bit_SIGN_BIT [simp]: "bit SIGN_BIT n \<longleftrightarrow> n = 63"
  unfolding SIGN_BIT_def bit_push_bit_iff bit_1_iff by auto

lemma f64_mag_take_bit: "f64_mag x = take_bit 63 (uint x)"
  by (simp add: f64_mag_def unsigned_take_bit_eq flip: take_bit_eq_mask)

lemma f64_mag_range: "0 \<le> f64_mag x" "f64_mag x < 2 ^ 63"
  by (simp_all add: f64_mag_take_bit take_bit_int_less_exp [of 63, simplified])

lemma f64_split: "x = (if f64_sign x then SIGN_BIT else 0) OR (x AND mask 63)"
proof (rule word_eq_by_bits)
  fix n assume n: "n < LENGTH(64)"
  show "bit x n = bit ((if f64_sign x then SIGN_BIT else 0) OR (x AND mask 63)) n"
    using n by (cases "n = 63") (auto simp: f64_sign_def bit_simps)
qed

lemma f64_eqI:
  assumes "f64_sign x = f64_sign y" "f64_mag x = f64_mag y"
  shows "x = y"
proof -
  have "x AND mask 63 = y AND mask 63"
    using assms(2) by (simp add: f64_mag_def word_uint_eq_iff)
  then show ?thesis
    using assms(1) f64_split [of x] f64_split [of y] by simp
qed

lemma f64_sign_bits [simp]: "f64_sign (f64_bits s m) = s"
  by (simp add: f64_sign_def f64_bits_def bit_simps)

lemma f64_mag_bits [simp]:
  assumes "0 \<le> m" "m < 2 ^ 63"
  shows "f64_mag (f64_bits s m) = m"
proof -
  have "f64_bits s m AND mask 63 = word_of_int m AND mask 63"
    by (rule word_eq_by_bits) (auto simp: f64_bits_def bit_simps)
  then have "f64_mag (f64_bits s m) = take_bit 63 (take_bit 64 m)"
    by (simp add: f64_mag_def unsigned_take_bit_eq unsigned_of_int flip: take_bit_eq_mask)
  then show ?thesis
    using assms by (simp add: take_bit_int_eq_self)
qed

lemma f64_bits_inverse: "f64_bits (f64_sign x) (f64_mag x) = x"
  by (rule f64_eqI) (simp_all add: f64_mag_range [simplified])

section \<open>Equality and order\<close>

lemma f64_eq_refl: "f64_eq x x \<longleftrightarrow> \<not> is_nan x"
  by (simp add: f64_eq_def)

lemma f64_eq_sym: "f64_eq x y = f64_eq y x"
  by (auto simp: f64_eq_def)

lemma f64_eq_trans: "f64_eq x y \<Longrightarrow> f64_eq y z \<Longrightarrow> f64_eq x z"
  by (simp add: f64_eq_def)

lemma is_zero_cases: "is_zero x \<Longrightarrow> x = f64_zero (f64_sign x)"
  by (rule f64_eqI) (simp_all add: f64_zero_def is_zero_def)

lemma f64_eq_cases: "f64_eq x y \<Longrightarrow> x = y \<or> is_zero x \<and> is_zero y"
  using f64_mag_range [of x] f64_mag_range [of y] f64_eqI [of x y]
  by (auto simp: f64_eq_def f64_key_def is_zero_def split: if_splits)

lemma f64_eq_zero: "is_zero x \<Longrightarrow> is_zero y \<Longrightarrow> f64_eq x y"
  by (simp add: f64_eq_def is_zero_def is_nan_def f64_key_def INF_MAG_def)

lemma f64_lt_trichotomy:
  "\<not> is_nan x \<Longrightarrow> \<not> is_nan y \<Longrightarrow> f64_lt x y \<or> f64_eq x y \<or> f64_lt y x"
  by (auto simp: f64_lt_def f64_eq_def)

lemma f64_le_iff: "f64_le x y \<longleftrightarrow> f64_lt x y \<or> f64_eq x y"
  by (auto simp: f64_le_def f64_lt_def f64_eq_def)

lemma f64_nan_unordered: "is_nan x \<Longrightarrow> \<not> f64_lt x y \<and> \<not> f64_le x y \<and> \<not> f64_eq x y"
  by (simp add: f64_le_def f64_lt_def f64_eq_def)

text \<open>The two zeros are the only distinct patterns that compare equal.\<close>

lemma f64_zero_values: "f64_zero False = 0" "f64_zero True = 0x8000000000000000"
  by (simp_all add: f64_zero_def f64_bits_def SIGN_BIT_def)

lemma f64_zero_to_i64: "f64_to_i64 (f64_zero s) = 0"
proof -
  have "f64_to_i64 (f64_zero True) = 0" "f64_to_i64 (f64_zero False) = 0"
    by code_simp+
  then show ?thesis by (cases s) simp_all
qed

lemma f64_to_i64_cong: "f64_eq x y \<Longrightarrow> f64_to_i64 x = f64_to_i64 y"
  by (metis f64_eq_cases f64_zero_to_i64 is_zero_cases)

section \<open>Rounding\<close>

lemma nbits_spec: "0 < n \<Longrightarrow> 0 < nbits n \<and> 2 ^ nat (nbits n - 1) \<le> n \<and> n < 2 ^ nat (nbits n)"
proof (induction n rule: nbits.induct)
  case (1 n)
  show ?case
  proof (cases "n div 2 = 0")
    case True
    then have "n = 1" using "1.prems" by linarith
    then show ?thesis by (simp add: nbits.simps)
  next
    case False
    then have h: "0 < n div 2" using "1.prems" by linarith
    let ?b = "nbits (n div 2)"
    have b: "0 < ?b" "2 ^ nat (?b - 1) \<le> n div 2" "n div 2 < 2 ^ nat ?b"
      using "1.IH" "1.prems" h by auto
    have e: "nbits n = 1 + ?b" using "1.prems" by (simp add: nbits.simps [of n])
    have s: "nat (1 + ?b) = Suc (nat ?b)" "nat ?b = Suc (nat (?b - 1))" using b(1) by auto
    have "2 ^ nat ?b \<le> n" using b(2) unfolding s(2) power_Suc by linarith
    moreover have "n < 2 ^ nat (1 + ?b)" using b(3) unfolding s(1) power_Suc by linarith
    ultimately show ?thesis using e b(1) by simp
  qed
qed

lemma nbits_upper: "0 < n \<Longrightarrow> n < 2 ^ k \<Longrightarrow> nbits n \<le> int k"
proof (rule ccontr)
  assume n: "0 < n" "n < 2 ^ k" "\<not> nbits n \<le> int k"
  then have "k \<le> nat (nbits n - 1)" by simp
  then have "(2::int) ^ k \<le> 2 ^ nat (nbits n - 1)" by (rule power_increasing) simp
  with nbits_spec [OF n(1)] n(2) show False by linarith
qed

text \<open>\<open>round_half_even\<close> is a nearest integer to the quotient, and the exact one if there is one.\<close>

lemma round_half_even_nearest:
  assumes "0 < d"
  shows "2 * \<bar>n - round_half_even n d * d\<bar> \<le> d"
proof -
  define q r where "q = n div d" and "r = n mod d"
  have n: "n = q * d + r" and r: "0 \<le> r" "r < d"
    using assms by (simp_all add: q_def r_def)
  have "n - q * d = r" "n - (q + 1) * d = r - d"
    by (simp_all add: n algebra_simps)
  moreover have "round_half_even n d = q \<and> 2 * r \<le> d \<or> round_half_even n d = q + 1 \<and> d \<le> 2 * r"
    by (auto simp: round_half_even_def Let_def q_def r_def)
  ultimately show ?thesis using r by auto
qed

lemma round_half_even_exact: "0 < d \<Longrightarrow> round_half_even (q * d) d = q"
  by (simp add: round_half_even_def)

lemma rat_log2_one: "0 < k \<Longrightarrow> rat_log2 k 1 = nbits k - 1"
  using nbits_spec [of k] by (simp add: rat_log2_def Let_def scale_num_def nbits.simps [of 1] nbits.simps [of 0])


lemma nbits_unique:
  assumes "2 ^ k \<le> n" "n < 2 ^ Suc k"
  shows "nbits n = int k + 1"
proof -
  have n: "0 < n" using assms(1) by (smt (verit) zero_less_power)
  have "nbits n \<le> int (Suc k)" by (rule nbits_upper [OF n assms(2)])
  moreover have "\<not> nbits n \<le> int k"
  proof
    assume "nbits n \<le> int k"
    then have "(2::int) ^ nat (nbits n) \<le> 2 ^ k" by (intro power_increasing) auto
    with nbits_spec [OF n] assms(1) show False by linarith
  qed
  ultimately show ?thesis by simp
qed

text \<open>A value that is a normal double already is its own rounding.\<close>

lemma round_mag_exact:
  assumes q: "2 ^ 52 \<le> q" "q < 2 ^ 53" and e: "int a - int b = e" "-1074 \<le> e"
    and fin: "(e + 1074) * 2 ^ 52 + q < INF_MAG"
  shows "round_mag (q * 2 ^ a) (2 ^ b) = (e + 1074) * 2 ^ 52 + q"
proof -
  have "(2::int) ^ (52 + a) \<le> q * 2 ^ a" "q * 2 ^ a < (2::int) ^ Suc (52 + a)"
    using q by (simp_all add: power_add)
  then have n: "nbits (q * 2 ^ a) = 53 + int a" using nbits_unique [of "52 + a" "q * 2 ^ a"] by simp
  have d: "nbits (2 ^ b) = int b + 1" by (rule nbits_unique) simp_all
  have p: "2 ^ b * 2 ^ nat (52 + e) \<le> q * 2 ^ a * (2::int) ^ nat (- (52 + e))"
  proof -
    have "b + nat (52 + e) = 52 + a + nat (- (52 + e))" using e(1) by arith
    then have "(2::int) ^ b * 2 ^ nat (52 + e) = 2 ^ 52 * (2 ^ a * 2 ^ nat (- (52 + e)))"
      by (metis power_add add.assoc)
    also have "\<dots> \<le> q * (2 ^ a * 2 ^ nat (- (52 + e)))"
      using q(1) by (intro mult_right_mono) simp_all
    finally show ?thesis by (simp add: mult.assoc)
  qed
  have l: "rat_log2 (q * 2 ^ a) (2 ^ b) = 52 + e"
    using p e(1) by (simp add: rat_log2_def n d scale_num_def Let_def)
  have "a + nat (- e) = b + nat e" using e(1) by arith
  then have "q * 2 ^ a * 2 ^ nat (- e) = q * (2 ^ b * 2 ^ nat e)"
    by (metis power_add mult.assoc)
  then have r: "round_half_even (scale_num (q * 2 ^ a) (- e)) (scale_num (2 ^ b) e) = q"
    by (simp only: scale_num_def minus_minus) (rule round_half_even_exact, simp)
  show ?thesis
    using e(2) fin by (simp add: round_mag_def l Let_def max_def r)
qed

definition is_normal :: "f64 \<Rightarrow> bool" where
  "is_normal x \<longleftrightarrow> 2 ^ 52 \<le> f64_mag x \<and> is_finite x"

lemma is_normal_parts:
  assumes "is_normal x"
  shows "2 ^ 52 \<le> f64_mant x" "f64_mant x < 2 ^ 53" "-1074 \<le> f64_exp x"
    "(f64_exp x + 1074) * 2 ^ 52 + f64_mant x = f64_mag x"
proof -
  have "f64_mag x div 2 ^ 52 > 0" using assms by (simp add: is_normal_def pos_imp_zdiv_pos_iff)
  then have m: "f64_mant x = f64_mag x mod 2 ^ 52 + 2 ^ 52" "f64_exp x = f64_mag x div 2 ^ 52 - 1075"
    "1 \<le> f64_mag x div 2 ^ 52"
    by (simp_all add: f64_mant_def f64_exp_def Let_def)
  have "0 \<le> f64_mag x mod 2 ^ 52" "f64_mag x mod 2 ^ 52 < 2 ^ 52" by simp_all
  with m show "2 ^ 52 \<le> f64_mant x" "f64_mant x < 2 ^ 53" "-1074 \<le> f64_exp x" by auto
  show "(f64_exp x + 1074) * 2 ^ 52 + f64_mant x = f64_mag x"
    unfolding m using mult_div_mod_eq [of "2 ^ 52" "f64_mag x"] by (simp add: algebra_simps)
qed

lemma f64_scaled_exact:
  assumes "is_normal x"
  shows "f64_scaled (f64_sign x) (f64_mant x * 2 ^ j) (f64_exp x - int j) = x"
proof -
  note p = is_normal_parts [OF assms]
  have "f64_mag x < INF_MAG" using assms by (simp add: is_normal_def is_finite_def)
  then have "round_mag (f64_mant x * 2 ^ (j + nat (f64_exp x - int j))) (2 ^ nat (int j - f64_exp x))
      = f64_mag x"
    using round_mag_exact [OF p(1,2), of "j + nat (f64_exp x - int j)" "nat (int j - f64_exp x)"
        "f64_exp x"] p(3,4) by simp
  then have "round_mag (scale_num (f64_mant x * 2 ^ j) (f64_exp x - int j))
      (scale_num 1 (int j - f64_exp x)) = f64_mag x"
    by (simp add: scale_num_def power_add mult.assoc)
  moreover have "scale_num (f64_mant x * 2 ^ j) (f64_exp x - int j) \<noteq> 0"
    using p(1) by (simp add: scale_num_def)
  ultimately show ?thesis
    by (simp add: f64_scaled_def f64_round_def f64_bits_inverse)
qed

lemma f64_add_zero_left:
  assumes "is_normal y"
  shows "f64_add (f64_zero s) y = y"
proof -
  note p = is_normal_parts [OF assms]
  let ?z = "f64_zero s"
  have z: "f64_mag ?z = 0" by (simp add: f64_zero_def)
  then have zm: "f64_smant ?z = 0" "f64_exp ?z = -1074" "\<not> is_nan ?z" "\<not> is_infinite ?z"
    by (simp_all add: f64_smant_def f64_mant_def f64_exp_def is_nan_def is_infinite_def INF_MAG_def)
  have y: "\<not> is_nan y" "\<not> is_infinite y" using assms
    by (simp_all add: is_normal_def is_nan_def is_infinite_def is_finite_def)
  let ?j = "nat (f64_exp y + 1074)"
  have k: "f64_smant y * 2 ^ ?j \<noteq> 0" "\<bar>f64_smant y * 2 ^ ?j\<bar> = f64_mant y * 2 ^ ?j"
    "f64_smant y * 2 ^ ?j < 0 \<longleftrightarrow> f64_sign y"
    using p(1) by (auto simp: f64_smant_def abs_mult mult_less_0_iff)
  have "f64_add ?z y = f64_scaled (f64_sign y) (f64_mant y * 2 ^ ?j) (f64_exp y - int ?j)"
    using p(3) k by (simp add: f64_add_def zm y Let_def)
  then show ?thesis by (simp only: f64_scaled_exact [OF assms])
qed

lemma f64_zero_add_one: "f64_add (f64_zero s) 0x3FF0000000000000 = 0x3FF0000000000000"
  by (rule f64_add_zero_left) (simp add: is_normal_def is_finite_def f64_mag_def INF_MAG_def
    mask_eq_exp_minus_1)

lemma f64_add_one_cong:
  "f64_eq x y \<Longrightarrow> f64_add x 0x3FF0000000000000 = f64_add y 0x3FF0000000000000"
  by (metis f64_eq_cases f64_zero_add_one is_zero_cases)

section \<open>Integers as doubles\<close>

lemma round_mag_int:
  assumes "0 < k" "k < 2 ^ 53"
  shows "\<exists>l. 0 \<le> l \<and> l \<le> 52 \<and> round_mag k 1 = (l + 1022) * 2 ^ 52 + k * 2 ^ nat (52 - l)
    \<and> 2 ^ 52 \<le> k * 2 ^ nat (52 - l) \<and> k * 2 ^ nat (52 - l) < 2 ^ 53"
proof -
  define l where "l = nbits k - 1"
  have l: "0 \<le> l" "l \<le> 52" "2 ^ nat l \<le> k" "k < 2 * 2 ^ nat l"
    using nbits_spec [OF assms(1)] nbits_upper [OF assms]
    by (auto simp: l_def nat_diff_distrib' simp flip: power_Suc)
  have split: "nat 52 = nat l + nat (52 - l)" using l(1,2) by simp
  let ?q = "k * 2 ^ nat (52 - l)"
  have "2 ^ nat l * 2 ^ nat (52 - l) \<le> ?q" "?q < (2 * 2 ^ nat l) * 2 ^ nat (52 - l)"
    using l(3,4) by (simp_all only: mult_right_mono mult_strict_right_mono zero_less_power
        zero_less_numeral zero_le_power zero_le_numeral)
  then have q: "2 ^ 52 \<le> ?q" "?q < 2 ^ 53"
    by (simp_all only: mult.assoc power_add [symmetric] split [symmetric]) simp_all
  have "round_mag k 1 = min INF_MAG ((l + 1022) * 2 ^ 52 + ?q)"
    using l(1,2) round_half_even_exact [of 1 ?q]
    by (simp add: round_mag_def Let_def rat_log2_one [OF assms(1)] scale_num_def flip: l_def)
  moreover have "(l + 1022) * 2 ^ 52 + ?q < INF_MAG"
    using l(2) q(2) by (simp add: INF_MAG_def)
  ultimately show ?thesis using l q by (intro exI [of _ l]) simp
qed

lemma f64_of_int_parts:
  assumes "0 < \<bar>k\<bar>" "\<bar>k\<bar> < 2 ^ 53"
  shows "\<exists>l. 0 \<le> l \<and> l \<le> 52 \<and> f64_mant (f64_of_int k) = \<bar>k\<bar> * 2 ^ nat (52 - l)
    \<and> f64_exp (f64_of_int k) = l - 52 \<and> f64_sign (f64_of_int k) = (k < 0)
    \<and> f64_mag (f64_of_int k) < INF_MAG"
proof -
  from round_mag_int [OF assms] obtain l where l: "0 \<le> l" "l \<le> 52"
    and m: "round_mag \<bar>k\<bar> 1 = (l + 1022) * 2 ^ 52 + \<bar>k\<bar> * 2 ^ nat (52 - l)"
    and q: "2 ^ 52 \<le> \<bar>k\<bar> * 2 ^ nat (52 - l)" "\<bar>k\<bar> * 2 ^ nat (52 - l) < 2 ^ 53"
    by blast
  define q where "q = \<bar>k\<bar> * 2 ^ nat (52 - l)"
  have f: "f64_of_int k = f64_bits (k < 0) (round_mag \<bar>k\<bar> 1)"
    using assms by (simp add: f64_of_int_def f64_scaled_def f64_round_def scale_num_def)
  have mag: "f64_mag (f64_of_int k) = (l + 1022) * 2 ^ 52 + q"
    using l q unfolding f m q_def [symmetric] by (intro f64_mag_bits) auto
  have e: "(l + 1022) * 2 ^ 52 + q = (q - 2 ^ 52) + (l + 1023) * 2 ^ 52"
    by (simp add: algebra_simps)
  have d: "((l + 1022) * 2 ^ 52 + q) div 2 ^ 52 = l + 1023"
    using q unfolding q_def [symmetric] e by simp
  moreover have "((l + 1022) * 2 ^ 52 + q) mod 2 ^ 52 = q - 2 ^ 52"
    unfolding minus_div_mult_eq_mod [symmetric] d by (simp add: algebra_simps)
  ultimately have d: "((l + 1022) * 2 ^ 52 + q) div 2 ^ 52 = l + 1023"
    "((l + 1022) * 2 ^ 52 + q) mod 2 ^ 52 = q - 2 ^ 52"
    by auto
  have "f64_mant (f64_of_int k) = q" "f64_exp (f64_of_int k) = l - 52"
    using l d by (simp_all add: f64_mant_def f64_exp_def mag Let_def)
  moreover have "f64_mag (f64_of_int k) < INF_MAG"
    using l q(2) unfolding mag q_def [symmetric] by (simp add: INF_MAG_def)
  ultimately show ?thesis
    using l by (intro exI [of _ l]) (simp add: f q_def)
qed

lemma f64_trunc_of_int:
  assumes "\<bar>k\<bar> < 2 ^ 53"
  shows "f64_trunc (f64_of_int k) = k"
proof (cases "k = 0")
  case True
  have "f64_trunc (f64_of_int 0) = 0" by code_simp
  then show ?thesis using True by simp
next
  case False
  then obtain l where l: "0 \<le> l" "l \<le> 52" "f64_mant (f64_of_int k) = \<bar>k\<bar> * 2 ^ nat (52 - l)"
     "f64_exp (f64_of_int k) = l - 52" "f64_sign (f64_of_int k) = (k < 0)"
    using f64_of_int_parts [of k] assms by auto
  then show ?thesis by (simp add: f64_trunc_def scale_num_def Let_def)
qed


lemma f64_of_int_finite: "\<bar>k\<bar> < 2 ^ 53 \<Longrightarrow> is_finite (f64_of_int k)"
  using f64_of_int_parts [of k]
  by (cases "k = 0") (auto simp: is_finite_def f64_of_int_def f64_scaled_def f64_round_def
      scale_num_def f64_zero_def INF_MAG_def)

lemma f64_to_i64_of_int:
  assumes "\<bar>k\<bar> < 2 ^ 53"
  shows "f64_to_i64 (f64_of_int k) = k"
  using f64_of_int_finite [OF assms] f64_trunc_of_int [OF assms] assms
  by (auto simp: f64_to_i64_def is_finite_def is_nan_def is_infinite_def I64_MIN_def I64_MAX_def)

lemma f64_of_int_inj:
  "\<bar>j\<bar> < 2 ^ 53 \<Longrightarrow> \<bar>k\<bar> < 2 ^ 53 \<Longrightarrow> f64_eq (f64_of_int j) (f64_of_int k) \<Longrightarrow> j = k"
  by (metis f64_to_i64_cong f64_to_i64_of_int)

end
