(* ===== verification/Arena.thy ===== *)
theory Arena
  imports Prelude
begin

text \<open>
  The generational arena of \<^verbatim>\<open>src/vm/gc/arena.rs\<close> and the colours of
  \<^verbatim>\<open>src/vm/gc/mod.rs\<close>: typed slots with a free list, a generation counter per slot
  and parallel colour and flag bytes. \<open>free\<close> and the two sweeps bump the
  generation, so that handles to the old object stop resolving.
\<close>

section \<open>Colours and flags\<close>

datatype Color = White0 | White1 | Gray | Black

fun is_white :: "Color \<Rightarrow> bool" where
  "is_white c = (case c of White0 \<Rightarrow> True | White1 \<Rightarrow> True | _ \<Rightarrow> False)"

definition is_black :: "Color \<Rightarrow> bool" where "is_black c \<longleftrightarrow> c = Black"
definition is_gray :: "Color \<Rightarrow> bool" where "is_gray c \<longleftrightarrow> c = Gray"

fun other_white :: "Color \<Rightarrow> Color" where
  "other_white White0 = White1"
| "other_white White1 = White0"
| "other_white other = other"

definition COLOR_FREE :: u8 where "COLOR_FREE = 0"
definition COLOR_WHITE0 :: u8 where "COLOR_WHITE0 = 1"
definition COLOR_WHITE1 :: u8 where "COLOR_WHITE1 = 2"
definition COLOR_GRAY :: u8 where "COLOR_GRAY = 3"
definition COLOR_BLACK :: u8 where "COLOR_BLACK = 4"

fun color_to_byte :: "Color \<Rightarrow> u8" where
  "color_to_byte White0 = COLOR_WHITE0"
| "color_to_byte White1 = COLOR_WHITE1"
| "color_to_byte Gray = COLOR_GRAY"
| "color_to_byte Black = COLOR_BLACK"

definition byte_to_color :: "u8 \<Rightarrow> Color option" where
  "byte_to_color b =
    (if b = COLOR_WHITE0 then Some White0 else if b = COLOR_WHITE1 then Some White1
     else if b = COLOR_GRAY then Some Gray else if b = COLOR_BLACK then Some Black else None)"

datatype Flag = Frozen | Pinned | SkipTraverse

definition FLAG_FROZEN :: u8 where "FLAG_FROZEN = push_bit 0 1"
definition FLAG_PINNED :: u8 where "FLAG_PINNED = push_bit 1 1"
definition FLAG_SKIP_TRAVERSE :: u8 where "FLAG_SKIP_TRAVERSE = push_bit 2 1"

fun flag_mask :: "Flag \<Rightarrow> u8" where
  "flag_mask Frozen = FLAG_FROZEN"
| "flag_mask Pinned = FLAG_PINNED"
| "flag_mask SkipTraverse = FLAG_SKIP_TRAVERSE"

section \<open>Handles, slots and the arena\<close>

datatype GcRef = GcRef (ref_index: u32) (ref_gen: u32)

abbreviation ix :: "GcRef \<Rightarrow> nat" where "ix r \<equiv> unat (ref_index r)"

datatype 'a EntryState = Occupied 'a | Free "u32 option"

record 'a entry =
  egen :: u32
  estate :: "'a EntryState"

record 'a arena =
  entries :: "'a entry list"
  colors :: "u8 list"
  flags :: "u8 list"
  free_head :: "u32 option"
  alen :: u32

definition arena_new :: "'a arena" where
  "arena_new = \<lparr>entries = [], colors = [], flags = [], free_head = None, alen = 0\<rparr>"

definition capacity :: "'a arena \<Rightarrow> u32" where
  "capacity a = word_of_nat (length (entries a))"

definition arena_is_empty :: "'a arena \<Rightarrow> bool" where
  "arena_is_empty a \<longleftrightarrow> alen a = 0"

definition alloc :: "'a arena \<Rightarrow> 'a \<Rightarrow> Color \<Rightarrow> 'a arena \<times> GcRef" where
  "alloc a v c =
    (let a = a\<lparr>alen := alen a + 1\<rparr>; cb = color_to_byte c in
     case free_head a of
       Some fi \<Rightarrow>
         (let i = unat fi; e = entries a ! i;
              fh = (case estate e of Free nf \<Rightarrow> nf | Occupied _ \<Rightarrow> free_head a)
          in (a\<lparr>entries := (entries a)[i := e\<lparr>estate := Occupied v\<rparr>],
                colors := (colors a)[i := cb], flags := (flags a)[i := 0], free_head := fh\<rparr>,
              GcRef fi (egen e)))
     | None \<Rightarrow>
         (a\<lparr>entries := entries a @ [\<lparr>egen = 0, estate = Occupied v\<rparr>],
            colors := colors a @ [cb], flags := flags a @ [0]\<rparr>,
          GcRef (word_of_nat (length (entries a))) 0))"

definition get :: "'a arena \<Rightarrow> GcRef \<Rightarrow> 'a option" where
  "get a r =
    (if ix r < length (entries a) then
       (let e = entries a ! ix r in
        if egen e \<noteq> ref_gen r then None
        else case estate e of Occupied v \<Rightarrow> Some v | Free _ \<Rightarrow> None)
     else None)"

text \<open>\<open>get_mut\<close> hands out the slot for writing: the write is the function \<open>f\<close>.\<close>

definition get_mut :: "'a arena \<Rightarrow> GcRef \<Rightarrow> ('a \<Rightarrow> 'a) \<Rightarrow> 'a arena" where
  "get_mut a r f =
    (if ix r < length (entries a) then
       (let e = entries a ! ix r in
        if egen e \<noteq> ref_gen r then a
        else case estate e of
            Occupied v \<Rightarrow> a\<lparr>entries := (entries a)[ix r := e\<lparr>estate := Occupied (f v)\<rparr>]\<rparr>
          | Free _ \<Rightarrow> a)
     else a)"

definition free :: "'a arena \<Rightarrow> GcRef \<Rightarrow> 'a arena \<times> 'a option" where
  "free a r =
    (if ix r < length (entries a) then
       (let e = entries a ! ix r in
        if egen e \<noteq> ref_gen r then (a, None)
        else (a\<lparr>entries := (entries a)[ix r := \<lparr>egen = egen e + 1, estate = Free (free_head a)\<rparr>],
                free_head := Some (ref_index r), alen := alen a - 1,
                colors := (colors a)[ix r := COLOR_FREE], flags := (flags a)[ix r := 0]\<rparr>,
              case estate e of Occupied v \<Rightarrow> Some v | Free _ \<Rightarrow> None))
     else (a, None))"

definition is_valid :: "'a arena \<Rightarrow> GcRef \<Rightarrow> bool" where
  "is_valid a r \<longleftrightarrow> get a r \<noteq> None"

definition color :: "'a arena \<Rightarrow> GcRef \<Rightarrow> Color option" where
  "color a r =
    (if ix r < length (entries a) \<and> egen (entries a ! ix r) = ref_gen r
     then byte_to_color (colors a ! ix r) else None)"

definition occupied_index :: "'a arena \<Rightarrow> GcRef \<Rightarrow> nat option" where
  "occupied_index a r =
    (if ix r < length (entries a) then
       (if egen (entries a ! ix r) \<noteq> ref_gen r \<or> colors a ! ix r = COLOR_FREE then None
        else Some (ix r))
     else None)"

definition set_color :: "'a arena \<Rightarrow> GcRef \<Rightarrow> Color \<Rightarrow> 'a arena \<times> bool" where
  "set_color a r c = (case occupied_index a r of
     None \<Rightarrow> (a, False)
   | Some i \<Rightarrow> (a\<lparr>colors := (colors a)[i := color_to_byte c]\<rparr>, True))"

definition mark_white_unfrozen :: "'a arena \<Rightarrow> GcRef \<Rightarrow> Color \<Rightarrow> 'a arena \<times> bool" where
  "mark_white_unfrozen a r c = (case occupied_index a r of
     None \<Rightarrow> (a, False)
   | Some i \<Rightarrow>
      (if flags a ! i AND flag_mask Frozen \<noteq> 0 then (a, False)
       else if \<not> (case byte_to_color (colors a ! i) of Some col \<Rightarrow> is_white col | None \<Rightarrow> False)
       then (a, False)
       else (a\<lparr>colors := (colors a)[i := color_to_byte c]\<rparr>, True)))"

definition has_any_flag_mask :: "'a arena \<Rightarrow> GcRef \<Rightarrow> u8 \<Rightarrow> bool" where
  "has_any_flag_mask a r m = (case occupied_index a r of
     None \<Rightarrow> False | Some i \<Rightarrow> flags a ! i AND m \<noteq> 0)"

definition has_flag :: "'a arena \<Rightarrow> GcRef \<Rightarrow> Flag \<Rightarrow> bool" where
  "has_flag a r f = has_any_flag_mask a r (flag_mask f)"

definition set_flag :: "'a arena \<Rightarrow> GcRef \<Rightarrow> Flag \<Rightarrow> 'a arena \<times> bool" where
  "set_flag a r f = (case occupied_index a r of
     None \<Rightarrow> (a, False)
   | Some i \<Rightarrow> (a\<lparr>flags := (flags a)[i := flags a ! i OR flag_mask f]\<rparr>, True))"

definition clear_flag :: "'a arena \<Rightarrow> GcRef \<Rightarrow> Flag \<Rightarrow> 'a arena \<times> bool" where
  "clear_flag a r f = (case occupied_index a r of
     None \<Rightarrow> (a, False)
   | Some i \<Rightarrow> (a\<lparr>flags := (flags a)[i := flags a ! i AND NOT (flag_mask f)]\<rparr>, True))"

definition is_frozen :: "'a arena \<Rightarrow> GcRef \<Rightarrow> bool" where
  "is_frozen a r = has_flag a r Frozen"

definition is_pinned :: "'a arena \<Rightarrow> GcRef \<Rightarrow> bool" where
  "is_pinned a r = has_flag a r Pinned"

definition is_skip_traverse :: "'a arena \<Rightarrow> GcRef \<Rightarrow> bool" where
  "is_skip_traverse a r = has_flag a r SkipTraverse"

definition is_skip_traverse_or_frozen :: "'a arena \<Rightarrow> GcRef \<Rightarrow> bool" where
  "is_skip_traverse_or_frozen a r =
     has_any_flag_mask a r (flag_mask SkipTraverse OR flag_mask Frozen)"

definition reset_colors :: "'a arena \<Rightarrow> Color \<Rightarrow> 'a arena" where
  "reset_colors a c = a\<lparr>colors :=
     map (\<lambda>b. if b \<noteq> COLOR_FREE then color_to_byte c else b) (colors a)\<rparr>"

section \<open>Sweeping\<close>

text \<open>Pinned and frozen slots survive a sweep whatever their colour.\<close>

definition kept_alive :: "u8 \<Rightarrow> bool" where
  "kept_alive fb \<longleftrightarrow> fb AND (FLAG_PINNED OR FLAG_FROZEN) \<noteq> 0"

definition dead_slot :: "'a arena \<Rightarrow> Color \<Rightarrow> nat \<Rightarrow> bool" where
  "dead_slot a dead i \<longleftrightarrow> colors a ! i = color_to_byte dead \<and> \<not> kept_alive (flags a ! i)"

text \<open>The body of both sweep loops on one slot; the counter is the number of freed slots.\<close>

definition sweep_slot :: "Color \<Rightarrow> Color \<Rightarrow> nat \<Rightarrow> 'a arena \<times> u32 \<Rightarrow> 'a arena \<times> u32" where
  "sweep_slot dead new i s =
    (let (a, freed) = s in
     if colors a ! i = COLOR_FREE then s
     else if dead_slot a dead i then
       (a\<lparr>entries := (entries a)[i := \<lparr>egen = egen (entries a ! i) + 1, estate = Free (free_head a)\<rparr>],
          free_head := Some (word_of_nat i), alen := alen a - 1,
          colors := (colors a)[i := COLOR_FREE], flags := (flags a)[i := 0]\<rparr>, freed + 1)
     else (a\<lparr>colors := (colors a)[i := color_to_byte new]\<rparr>, freed))"

definition sweep :: "'a arena \<Rightarrow> Color \<Rightarrow> Color \<Rightarrow> 'a arena \<times> u32" where
  "sweep a dead new = fold (sweep_slot dead new) [0..<length (entries a)] (a, 0)"

text \<open>
  The bounded sweep stops after \<open>mx\<close> occupied slots. Its loop runs over the slots
  from \<open>start\<close> and returns how many it scanned.
\<close>

fun sweep_partial_loop ::
  "Color \<Rightarrow> Color \<Rightarrow> nat \<Rightarrow> nat list \<Rightarrow> nat \<Rightarrow> nat \<Rightarrow> 'a arena \<times> u32 \<Rightarrow> ('a arena \<times> u32) \<times> nat" where
  "sweep_partial_loop dead new mx [] seen scanned s = (s, scanned)"
| "sweep_partial_loop dead new mx (i # is) seen scanned s =
    (if seen \<ge> mx then (s, scanned)
     else if colors (fst s) ! i = COLOR_FREE
     then sweep_partial_loop dead new mx is seen (scanned + 1) s
     else sweep_partial_loop dead new mx is (seen + 1) (scanned + 1) (sweep_slot dead new i s))"

text \<open>\<open>None\<close> is the panic of slicing past the end.\<close>

definition sweep_partial ::
  "'a arena \<Rightarrow> Color \<Rightarrow> Color \<Rightarrow> u32 \<Rightarrow> u32 \<Rightarrow> ('a arena \<times> u32 \<times> u32 \<times> bool) option" where
  "sweep_partial a dead new start max_count =
    (if unat start > length (entries a) then None
     else let total = capacity a;
              ((a', freed), scanned) = sweep_partial_loop dead new (unat max_count)
                 [unat start..<length (entries a)] 0 0 (a, 0);
              next_pos = start + word_of_nat scanned
          in Some (a', freed, next_pos, next_pos \<ge> total))"

section \<open>Iteration\<close>

function arena_next :: "'a arena \<Rightarrow> nat \<Rightarrow> ((GcRef \<times> 'a \<times> Color) \<times> nat) option" where
  "arena_next a pos =
    (if pos < length (entries a) then
       (case byte_to_color (colors a ! pos) of
          Some c \<Rightarrow> (case estate (entries a ! pos) of
              Occupied v \<Rightarrow> Some ((GcRef (word_of_nat pos) (egen (entries a ! pos)), v, c), pos + 1)
            | Free _ \<Rightarrow> arena_next a (pos + 1))
        | None \<Rightarrow> arena_next a (pos + 1))
     else None)"
  by pat_completeness auto
termination
  by (relation "measure (\<lambda>(a, pos). length (entries a) - pos)") auto

declare arena_next.simps [simp del]


section \<open>The arena invariant\<close>

text \<open>
  The parallel arrays agree: a colour byte is zero exactly on a free slot, whose flag
  byte is then zero; \<open>alen\<close> counts the occupied slots; and the free list runs through
  exactly the free slots, without repetition.
\<close>

definition is_free_slot :: "'a entry \<Rightarrow> bool" where
  "is_free_slot e = (case estate e of Free _ \<Rightarrow> True | Occupied _ \<Rightarrow> False)"

fun free_chain :: "'a entry list \<Rightarrow> u32 option \<Rightarrow> nat list \<Rightarrow> bool" where
  "free_chain es h [] = (h = None)"
| "free_chain es h (i # is) =
    (h = Some (word_of_nat i) \<and> i < length es
     \<and> (\<exists>nf. estate (es ! i) = Free nf \<and> free_chain es nf is))"

definition free_set :: "'a entry list \<Rightarrow> nat set" where
  "free_set es = {i. i < length es \<and> is_free_slot (es ! i)}"

definition arena_inv :: "'a arena \<Rightarrow> bool" where
  "arena_inv a \<longleftrightarrow>
     length (colors a) = length (entries a) \<and> length (flags a) = length (entries a)
     \<and> length (entries a) < 2 ^ 32
     \<and> (\<forall>i < length (entries a). colors a ! i = COLOR_FREE \<longleftrightarrow> is_free_slot (entries a ! i))
     \<and> (\<forall>i < length (entries a). colors a ! i \<le> COLOR_BLACK)
     \<and> (\<forall>i < length (entries a). is_free_slot (entries a ! i) \<longrightarrow> flags a ! i = 0)
     \<and> unat (alen a) + card (free_set (entries a)) = length (entries a)
     \<and> (\<exists>fl. distinct fl \<and> set fl = free_set (entries a) \<and> free_chain (entries a) (free_head a) fl)"

lemma color_byte_nonzero [simp]: "color_to_byte c \<noteq> COLOR_FREE" "color_to_byte c \<le> COLOR_BLACK"
  by (cases c; simp add: COLOR_FREE_def COLOR_WHITE0_def COLOR_WHITE1_def COLOR_GRAY_def
      COLOR_BLACK_def)+

lemma byte_to_color_byte [simp]: "byte_to_color (color_to_byte c) = Some c"
  by (cases c) (simp_all add: byte_to_color_def COLOR_WHITE0_def COLOR_WHITE1_def COLOR_GRAY_def
      COLOR_BLACK_def)

lemma color_to_byte_inj: "color_to_byte c = color_to_byte d \<longleftrightarrow> c = d"
  by (metis byte_to_color_byte option.inject)

lemma COLOR_FREE_le [simp]: "COLOR_FREE \<le> COLOR_BLACK"
  by (simp add: COLOR_FREE_def COLOR_BLACK_def)

lemma byte_to_color_None:
  assumes "b \<le> COLOR_BLACK"
  shows "byte_to_color b = None \<longleftrightarrow> b = COLOR_FREE"
proof -
  have "unat b \<in> {0, 1, 2, 3, 4}"
    using assms by (simp add: COLOR_BLACK_def word_le_nat_alt) linarith
  then have "b \<in> {0, 1, 2, 3, 4}"
    by (auto simp: word_unat_eq_iff)
  then show ?thesis
    by (auto simp: byte_to_color_def COLOR_FREE_def COLOR_WHITE0_def COLOR_WHITE1_def
        COLOR_GRAY_def COLOR_BLACK_def)
qed

lemma free_chain_update:
  assumes "i \<notin> set fl"
  shows "free_chain (es[i := e]) h fl = free_chain es h fl"
  using assms by (induction es h fl rule: free_chain.induct) auto

lemma free_chain_append: "set fl \<subseteq> {..<length es} \<Longrightarrow>
    free_chain (es @ xs) h fl = free_chain es h fl"
  by (induction es h fl rule: free_chain.induct) (auto simp: nth_append)

lemma free_set_bound: "free_set es \<subseteq> {..<length es}"
  by (auto simp: free_set_def)

lemma free_set_finite [simp]: "finite (free_set es)"
  by (rule finite_subset [OF free_set_bound]) simp

lemma free_set_update:
  "i < length es \<Longrightarrow>
    free_set (es[i := e]) = (if is_free_slot e then insert i (free_set es) else free_set es - {i})"
  by (auto simp: free_set_def nth_list_update split: if_splits)

lemma free_set_append:
  "free_set (es @ [e]) =
    (if is_free_slot e then insert (length es) (free_set es) else free_set es)"
  by (auto simp: free_set_def nth_append less_Suc_eq split: if_splits)

lemma arena_inv_new: "arena_inv arena_new"
  by (simp add: arena_inv_def arena_new_def free_set_def)

lemma arena_inv_lengths:
  assumes "arena_inv a"
  shows "length (colors a) = length (entries a)" "length (flags a) = length (entries a)"
    "length (entries a) < 2 ^ 32"
  using assms by (simp_all add: arena_inv_def)

lemma arena_inv_count:
  "arena_inv a \<Longrightarrow> unat (alen a) + card (free_set (entries a)) = length (entries a)"
  by (simp add: arena_inv_def)

lemma arena_inv_color_free:
  "arena_inv a \<Longrightarrow> i < length (entries a) \<Longrightarrow>
    colors a ! i = COLOR_FREE \<longleftrightarrow> is_free_slot (entries a ! i)"
  by (simp add: arena_inv_def)

lemma occupied_index_valid:
  assumes "arena_inv a"
  shows "occupied_index a r = (if is_valid a r then Some (ix r) else None)"
  using assms arena_inv_color_free [OF assms]
  by (auto simp: occupied_index_def is_valid_def get_def is_free_slot_def Let_def
      split: EntryState.splits if_splits)


section \<open>Allocation and release\<close>

definition has_room :: "'a arena \<Rightarrow> bool" where
  "has_room a \<longleftrightarrow> free_head a \<noteq> None \<or> length (entries a) + 1 < 2 ^ 32"

lemma unat_of_small: "n < 2 ^ 32 \<Longrightarrow> unat (word_of_nat n :: u32) = n"
  by (simp add: unat_of_nat take_bit_nat_eq_self)

lemma free_head_slot:
  assumes inv: "arena_inv a" and fh: "free_head a = Some fi"
  obtains i nf fl where "fi = word_of_nat i" "unat fi = i" "i < length (entries a)"
    "estate (entries a ! i) = Free nf" "distinct (i # fl)" "set (i # fl) = free_set (entries a)"
    "free_chain (entries a) nf fl"
proof -
  from inv obtain fl where fl: "distinct fl" "set fl = free_set (entries a)"
    "free_chain (entries a) (Some fi) fl" and len: "length (entries a) < 2 ^ 32"
    using fh by (auto simp: arena_inv_def)
  then obtain i fl' where "fl = i # fl'" by (cases fl) auto
  with fl len that show thesis by (auto simp: unat_of_small)
qed

lemma free_head_None:
  assumes "arena_inv a" "free_head a = None"
  shows "free_set (entries a) = {}"
proof -
  from assms obtain fl where "set fl = free_set (entries a)" "free_chain (entries a) None fl"
    by (auto simp: arena_inv_def)
  then show ?thesis by (cases fl) auto
qed

lemma alen_no_wrap:
  assumes inv: "arena_inv a" and room: "has_room a"
  shows "unat (alen a + 1) = unat (alen a) + 1"
proof -
  have "unat (alen a) + 1 < 2 ^ 32"
  proof (cases "free_head a")
    case None
    then show ?thesis using inv room by (simp add: arena_inv_def has_room_def)
  next
    case (Some fi)
    from free_head_slot [OF inv Some] obtain i where "i \<in> free_set (entries a)"
      by (metis list.set_intros(1))
    then have "0 < card (free_set (entries a))"
      using free_set_finite card_gt_0_iff by blast
    then show ?thesis using inv by (simp add: arena_inv_def)
  qed
  then show ?thesis by (simp add: unat_word_ariths)
qed

lemma alloc_reuse:
  assumes inv: "arena_inv a" and fh: "free_head a = Some fi"
  shows "arena_inv (fst (alloc a v c))"
    and "get (fst (alloc a v c)) = (get a)(snd (alloc a v c) \<mapsto> v)"
    and "get a (snd (alloc a v c)) = None"
    and "color (fst (alloc a v c)) (snd (alloc a v c)) = Some c"
proof -
  from free_head_slot [OF inv fh] obtain i nf fl where
    i: "fi = word_of_nat i" "unat fi = i" "i < length (entries a)" and
    st: "estate (entries a ! i) = Free nf" and
    fl: "distinct (i # fl)" "set (i # fl) = free_set (entries a)" "free_chain (entries a) nf fl" .
  have room: "has_room a" using fh by (simp add: has_room_def)
  note len = arena_inv_lengths [OF inv]
  let ?e = "(entries a ! i)\<lparr>estate := Occupied v\<rparr>"
  let ?a = "a\<lparr>alen := alen a + 1, entries := (entries a)[i := ?e],
      colors := (colors a)[i := color_to_byte c], flags := (flags a)[i := 0], free_head := nf\<rparr>"
  have al: "alloc a v c = (?a, GcRef fi (egen (entries a ! i)))"
    using fh i st by (simp add: alloc_def Let_def)
  have nf: "\<not> is_free_slot ?e" by (simp add: is_free_slot_def)
  have fs: "free_set ((entries a)[i := ?e]) = set fl"
    using fl i nf by (auto simp: free_set_update)
  have "card (free_set (entries a)) = Suc (card (set fl))"
    using fl(1) by (simp flip: fl(2))
  then have "unat (alen a + 1) + card (set fl) = length (entries a)"
    using inv alen_no_wrap [OF inv room] by (simp add: arena_inv_def)
  moreover have "free_chain ((entries a)[i := ?e]) nf fl"
    using fl by (simp add: free_chain_update)
  ultimately show "arena_inv (fst (alloc a v c))"
    using inv fl(1) nf i(3) unfolding al
    by (auto simp: arena_inv_def fs nth_list_update)
  show "get (fst (alloc a v c)) = (get a)(snd (alloc a v c) \<mapsto> v)"
    using i st unfolding al by (intro ext; case_tac x) (auto simp: get_def nth_list_update)
  show "get a (snd (alloc a v c)) = None"
    using i st unfolding al by (simp add: get_def)
  show "color (fst (alloc a v c)) (snd (alloc a v c)) = Some c"
    using i len unfolding al by (simp add: color_def)
qed

lemma alloc_append:
  assumes inv: "arena_inv a" and fh: "free_head a = None" and room: "has_room a"
  shows "arena_inv (fst (alloc a v c))"
    and "get (fst (alloc a v c)) = (get a)(snd (alloc a v c) \<mapsto> v)"
    and "get a (snd (alloc a v c)) = None"
    and "color (fst (alloc a v c)) (snd (alloc a v c)) = Some c"
proof -
  note len = arena_inv_lengths [OF inv]
  let ?n = "length (entries a)"
  let ?e = "\<lparr>egen = 0, estate = Occupied v\<rparr>"
  let ?a = "a\<lparr>alen := alen a + 1, entries := entries a @ [?e],
      colors := colors a @ [color_to_byte c], flags := flags a @ [0]\<rparr>"
  have al: "alloc a v c = (?a, GcRef (word_of_nat ?n) 0)"
    using fh by (simp add: alloc_def Let_def)
  have n: "unat (word_of_nat ?n :: u32) = ?n" "?n + 1 < 2 ^ 32"
    using len room fh by (simp_all add: unat_of_small has_room_def)
  have nf: "\<not> is_free_slot ?e" by (simp add: is_free_slot_def)
  have fs: "free_set (entries a @ [?e]) = free_set (entries a)" "free_set (entries a) = {}"
    using nf free_head_None [OF inv fh] by (simp_all add: free_set_append)
  show "arena_inv (fst (alloc a v c))"
    using inv n nf alen_no_wrap [OF inv room] fh unfolding al
    by (auto simp: arena_inv_def fs nth_append less_Suc_eq)
  show "get (fst (alloc a v c)) = (get a)(snd (alloc a v c) \<mapsto> v)"
    using n unfolding al
    by (intro ext; case_tac x) (auto simp: get_def nth_append less_Suc_eq word_unat_eq_iff)
  show "get a (snd (alloc a v c)) = None"
    using n unfolding al by (simp add: get_def)
  show "color (fst (alloc a v c)) (snd (alloc a v c)) = Some c"
    using n len unfolding al by (simp add: color_def nth_append)
qed

lemma alloc_props:
  assumes "arena_inv a" "has_room a"
  shows "arena_inv (fst (alloc a v c))"
    and "get (fst (alloc a v c)) = (get a)(snd (alloc a v c) \<mapsto> v)"
    and "get a (snd (alloc a v c)) = None"
    and "color (fst (alloc a v c)) (snd (alloc a v c)) = Some c"
  using alloc_reuse [OF assms(1)] alloc_append [OF assms(1) _ assms(2)]
  by (cases "free_head a"; blast)+

text \<open>Freeing one occupied slot, in the form shared by \<open>free\<close> and the sweeps.\<close>

definition release_slot :: "nat \<Rightarrow> 'a arena \<Rightarrow> 'a arena" where
  "release_slot i a = a\<lparr>entries := (entries a)[i := \<lparr>egen = egen (entries a ! i) + 1,
       estate = Free (free_head a)\<rparr>],
     free_head := Some (word_of_nat i), alen := alen a - 1,
     colors := (colors a)[i := COLOR_FREE], flags := (flags a)[i := 0]\<rparr>"

lemma release_slot_inv:
  fixes a :: "'a arena"
  assumes inv: "arena_inv a" and i: "i < length (entries a)"
    and occ: "\<not> is_free_slot (entries a ! i)"
  shows "arena_inv (release_slot i a)"
proof -
  from inv obtain fl where fl: "distinct fl" "set fl = free_set (entries a)"
    "free_chain (entries a) (free_head a) fl"
    by (auto simp: arena_inv_def)
  let ?e = "\<lparr>egen = egen (entries a ! i) + 1, estate = Free (free_head a)\<rparr>"
  have f: "is_free_slot (?e :: 'a entry)" by (simp add: is_free_slot_def)
  have nin: "i \<notin> free_set (entries a)" using occ by (simp add: free_set_def)
  have fs: "free_set ((entries a)[i := ?e]) = insert i (free_set (entries a))"
    using i f by (simp add: free_set_update)
  have "card (free_set (entries a)) \<le> card ({..<length (entries a)} - {i})"
    using free_set_bound [of "entries a"] nin by (intro card_mono) auto
  then have "unat (alen a) \<noteq> 0"
    using arena_inv_count [OF inv] i by auto
  then have "1 \<le> unat (alen a)" by linarith
  moreover from this have "unat (alen a - 1) = unat (alen a) - 1"
    by (intro unat_minus_one) auto
  ultimately have "unat (alen a - 1) + card (insert i (free_set (entries a))) = length (entries a)"
    using arena_inv_count [OF inv] nin by simp
  moreover have "free_chain ((entries a)[i := ?e]) (Some (word_of_nat i)) (i # fl)"
    using fl nin i by (simp add: free_chain_update)
  moreover have "distinct (i # fl)" "set (i # fl) = insert i (free_set (entries a))"
    using fl nin by auto
  ultimately show ?thesis
    using inv f i unfolding release_slot_def
    by (auto simp: arena_inv_def fs nth_list_update intro!: exI [of _ "i # fl"])
qed

lemma release_slot_get:
  assumes "i < length (entries a)"
  shows "get (release_slot i a) r = (if ix r = i then None else get a r)"
  using assms by (auto simp: release_slot_def get_def nth_list_update)

lemma free_release:
  assumes "arena_inv a" "is_valid a r"
  shows "free a r = (release_slot (ix r) a, get a r)"
  using assms by (cases r)
    (auto simp: free_def is_valid_def get_def release_slot_def Let_def split: if_splits)

lemma valid_occupied: "is_valid a r \<Longrightarrow> ix r < length (entries a) \<and> \<not> is_free_slot (entries a ! ix r)"
  by (auto simp: is_valid_def get_def is_free_slot_def Let_def split: if_splits EntryState.splits)

lemma get_same_slot: "is_valid a r \<Longrightarrow> is_valid a r' \<Longrightarrow> ix r = ix r' \<Longrightarrow> r = r'"
  by (cases r; cases r') (auto simp: is_valid_def get_def Let_def word_unat_eq_iff split: if_splits)

lemma free_props:
  assumes "arena_inv a" "is_valid a r"
  shows "arena_inv (fst (free a r))" "get (fst (free a r)) = (get a)(r := None)"
    "snd (free a r) = get a r"
proof -
  note v = valid_occupied [OF assms(2)]
  show "arena_inv (fst (free a r))" "snd (free a r) = get a r"
    using release_slot_inv [OF assms(1)] v by (simp_all add: free_release [OF assms])
  have "get a x = None" if "x \<noteq> r" "ix x = ix r" for x
    using that get_same_slot [OF assms(2), of x] by (cases "get a x") (auto simp: is_valid_def)
  then show "get (fst (free a r)) = (get a)(r := None)"
    using v by (auto simp: free_release [OF assms] release_slot_get fun_eq_iff)
qed


section \<open>Colour and flag updates\<close>

text \<open>Rewriting the colour or flag bytes of occupied slots keeps the invariant and every object.\<close>

lemma arena_inv_colors:
  assumes "arena_inv a" "length cs = length (entries a)"
    "\<And>i. i < length (entries a) \<Longrightarrow> cs ! i \<le> COLOR_BLACK"
    "\<And>i. i < length (entries a) \<Longrightarrow> cs ! i = COLOR_FREE \<longleftrightarrow> colors a ! i = COLOR_FREE"
  shows "arena_inv (a\<lparr>colors := cs\<rparr>)"
  using assms by (simp add: arena_inv_def)

lemma arena_inv_flags:
  assumes "arena_inv a" "length fs = length (entries a)"
    "\<And>i. i < length (entries a) \<Longrightarrow> is_free_slot (entries a ! i) \<Longrightarrow> fs ! i = 0"
  shows "arena_inv (a\<lparr>flags := fs\<rparr>)"
  using assms by (simp add: arena_inv_def)

lemma get_colors [simp]: "get (a\<lparr>colors := cs\<rparr>) = get a" "get (a\<lparr>flags := fs\<rparr>) = get a"
  by (simp_all add: get_def fun_eq_iff)

lemma recolor_slot_inv:
  assumes inv: "arena_inv a" and occ: "colors a ! i \<noteq> COLOR_FREE"
  shows "arena_inv (a\<lparr>colors := (colors a)[i := color_to_byte c]\<rparr>)"
proof (cases "i < length (entries a)")
  case True
  then show ?thesis
    using inv occ
    by (intro arena_inv_colors) (auto simp: arena_inv_def nth_list_update split: if_splits)
next
  case False
  then show ?thesis using inv arena_inv_lengths [OF inv] by (simp add: list_update_beyond)
qed

lemma occupied_index_Some:
  "occupied_index a r = Some i \<longleftrightarrow> i = ix r \<and> i < length (entries a)
     \<and> egen (entries a ! i) = ref_gen r \<and> colors a ! i \<noteq> COLOR_FREE"
  by (auto simp: occupied_index_def)

lemma reset_colors_inv:
  assumes inv: "arena_inv a"
  shows "arena_inv (reset_colors a c)"
  unfolding reset_colors_def
proof (rule arena_inv_colors [OF inv])
  let ?cs = "map (\<lambda>b. if b \<noteq> COLOR_FREE then color_to_byte c else b) (colors a)"
  note len = arena_inv_lengths(1) [OF inv]
  show "length ?cs = length (entries a)" using len by simp
  show "?cs ! i \<le> COLOR_BLACK" "?cs ! i = COLOR_FREE \<longleftrightarrow> colors a ! i = COLOR_FREE"
    if "i < length (entries a)" for i
    using that len by simp_all
qed

lemma set_flag_inv:
  assumes inv: "arena_inv a"
  shows "arena_inv (fst (set_flag a r f))" "arena_inv (fst (clear_flag a r f))"
proof -
  have "arena_inv (a\<lparr>flags := (flags a)[i := b]\<rparr>)" if "occupied_index a r = Some i" for i b
    using that arena_inv_color_free [OF inv, of i] arena_inv_lengths [OF inv]
      inv [unfolded arena_inv_def]
    by (intro arena_inv_flags [OF inv]) (auto simp: occupied_index_Some nth_list_update)
  then show "arena_inv (fst (set_flag a r f))" "arena_inv (fst (clear_flag a r f))"
    using inv by (auto simp: set_flag_def clear_flag_def split: option.splits)
qed

lemma set_color_inv:
  assumes "arena_inv a"
  shows "arena_inv (fst (set_color a r c))" "arena_inv (fst (mark_white_unfrozen a r c))"
  using assms recolor_slot_inv [OF assms]
  by (auto simp: set_color_def mark_white_unfrozen_def occupied_index_Some split: option.splits)

lemmas update_ops_inv = set_color_inv set_flag_inv reset_colors_inv

lemma update_ops_get:
  "get (fst (set_color a r c)) = get a" "get (fst (mark_white_unfrozen a r c)) = get a"
  "get (fst (set_flag a r f)) = get a" "get (fst (clear_flag a r f)) = get a"
  "get (reset_colors a c) = get a"
  by (simp_all add: set_color_def mark_white_unfrozen_def set_flag_def clear_flag_def
      reset_colors_def split: option.splits)

section \<open>Sweeping, slot by slot\<close>

lemma dead_slot_not_free: "dead_slot a dead i \<Longrightarrow> colors a ! i \<noteq> COLOR_FREE"
  by (auto simp: dead_slot_def)

lemma sweep_slot_cases:
  "sweep_slot dead new i (a, n) =
    (if colors a ! i = COLOR_FREE then (a, n)
     else if dead_slot a dead i then (release_slot i a, n + 1)
     else (a\<lparr>colors := (colors a)[i := color_to_byte new]\<rparr>, n))"
  by (simp add: sweep_slot_def release_slot_def)

lemma sweep_slot_inv:
  assumes "arena_inv a" "i < length (entries a)"
  shows "arena_inv (fst (sweep_slot dead new i (a, n)))"
  using assms by (auto simp: sweep_slot_cases arena_inv_color_free
      intro: release_slot_inv recolor_slot_inv)

lemma sweep_slot_length [simp]:
  "length (entries (fst (sweep_slot dead new i s))) = length (entries (fst s))"
  by (cases s) (simp add: sweep_slot_def Let_def)

lemma sweep_slot_other:
  assumes "i \<noteq> j"
  shows "colors (fst (sweep_slot dead new i s)) ! j = colors (fst s) ! j"
    "flags (fst (sweep_slot dead new i s)) ! j = flags (fst s) ! j"
    "entries (fst (sweep_slot dead new i s)) ! j = entries (fst s) ! j"
  using assms by (cases s; simp add: sweep_slot_def Let_def)+

definition swept_color :: "'a arena \<Rightarrow> Color \<Rightarrow> Color \<Rightarrow> nat \<Rightarrow> u8" where
  "swept_color a dead new j = (if colors a ! j = COLOR_FREE \<or> dead_slot a dead j then COLOR_FREE
     else color_to_byte new)"

text \<open>
  What sweeping a set of distinct slots does, whatever the order in which the loop
  reaches them: the dead ones stop resolving, the others keep their object and get
  the new colour, and the count grows by the number of dead ones.
\<close>

lemma sweep_fold:
  assumes "arena_inv a" "distinct is'" "set is' \<subseteq> {..<length (entries a)}"
    and "fold (sweep_slot dead new) is' (a, n) = (a', n')"
  shows "arena_inv a' \<and> length (entries a') = length (entries a)
    \<and> (\<forall>r. get a' r = (if ix r \<in> set is' \<and> dead_slot a dead (ix r) then None else get a r))
    \<and> (\<forall>j. j < length (entries a) \<longrightarrow>
         colors a' ! j = (if j \<in> set is' then swept_color a dead new j else colors a ! j))
    \<and> n' = n + word_of_nat (card {j \<in> set is'. dead_slot a dead j})"
  using assms
proof (induction is' arbitrary: a n)
  case Nil
  then show ?case by simp
next
  case (Cons i is')
  obtain b m where b: "sweep_slot dead new i (a, n) = (b, m)" by fastforce
  have i: "i < length (entries a)" "i \<notin> set is'" using Cons.prems by auto
  have inv: "arena_inv b" and len: "length (entries b) = length (entries a)"
    using sweep_slot_inv [OF Cons.prems(1) i(1), of dead new n]
      sweep_slot_length [of dead new i "(a, n)"] by (simp_all add: b)
  have oth: "colors b ! j = colors a ! j" "flags b ! j = flags a ! j" if "j \<noteq> i" for j
    using sweep_slot_other [of i j dead new "(a, n)"] that by (simp_all add: b)
  have dd: "dead_slot b dead j = dead_slot a dead j" if "j \<noteq> i" for j
    using oth [OF that] by (simp add: dead_slot_def)
  have getb: "get b r = (if ix r = i \<and> dead_slot a dead i then None else get a r)" for r
    using b dead_slot_not_free [of a dead i] release_slot_get [OF i(1)]
    by (auto simp: sweep_slot_cases split: if_splits)
  have colb: "colors b ! i = swept_color a dead new i"
    using b i(1) arena_inv_lengths [OF Cons.prems(1)]
    by (auto simp: sweep_slot_cases swept_color_def release_slot_def dest: dead_slot_not_free
        split: if_splits)
  have m: "m = (if dead_slot a dead i then n + 1 else n)"
    using b dead_slot_not_free [of a dead i] by (auto simp: sweep_slot_cases split: if_splits)
  have sc: "swept_color b dead new j = swept_color a dead new j" if "j \<noteq> i" for j
    using oth [OF that] dd [OF that] by (simp add: swept_color_def)
  have IH: "arena_inv a' \<and> length (entries a') = length (entries b)
    \<and> (\<forall>r. get a' r = (if ix r \<in> set is' \<and> dead_slot b dead (ix r) then None else get b r))
    \<and> (\<forall>j. j < length (entries b) \<longrightarrow>
         colors a' ! j = (if j \<in> set is' then swept_color b dead new j else colors b ! j))
    \<and> n' = m + word_of_nat (card {j \<in> set is'. dead_slot b dead j})"
    by (rule Cons.IH) (use inv len Cons.prems b in \<open>auto\<close>)
  have "dead_slot b dead j = dead_slot a dead j" if "j \<in> set is'" for j
    using dd [of j] that i(2) by auto
  then have "{j \<in> set is'. dead_slot b dead j} = {j \<in> set is'. dead_slot a dead j}"
    by auto
  moreover have "{j \<in> set (i # is'). dead_slot a dead j} =
      (if dead_slot a dead i then insert i {j \<in> set is'. dead_slot a dead j}
       else {j \<in> set is'. dead_slot a dead j})" by auto
  ultimately have "n' = n + word_of_nat (card {j \<in> set (i # is'). dead_slot a dead j})"
    using IH m i(2) by auto
  moreover have "get a' r = (if ix r \<in> set (i # is') \<and> dead_slot a dead (ix r) then None else get a r)"
    for r
    using IH getb [of r] dd [of "ix r"] i(2) by auto
  moreover have "colors a' ! j = (if j \<in> set (i # is') then swept_color a dead new j else colors a ! j)"
    if "j < length (entries a)" for j
    using IH that colb oth [of j] sc [of j] i(2) len by auto
  ultimately show ?case using IH len by simp
qed


lemma get_out_of_range: "\<not> ix r < length (entries a) \<Longrightarrow> get a r = None"
  by (simp add: get_def)

lemma sweep_props:
  assumes "arena_inv a" "sweep a dead new = (a', n)"
  shows "arena_inv a'"
    and "get a' r = (if dead_slot a dead (ix r) then None else get a r)"
    and "j < length (entries a) \<Longrightarrow> colors a' ! j = swept_color a dead new j"
    and "n = word_of_nat (card {j. j < length (entries a) \<and> dead_slot a dead j})"
proof -
  have h: "arena_inv a' \<and> length (entries a') = length (entries a)
    \<and> (\<forall>r. get a' r = (if ix r \<in> set [0..<length (entries a)] \<and> dead_slot a dead (ix r)
          then None else get a r))
    \<and> (\<forall>j. j < length (entries a) \<longrightarrow>
         colors a' ! j = (if j \<in> set [0..<length (entries a)] then swept_color a dead new j
           else colors a ! j))
    \<and> n = 0 + word_of_nat (card {j \<in> set [0..<length (entries a)]. dead_slot a dead j})"
    by (rule sweep_fold) (use assms in \<open>auto simp: sweep_def\<close>)
  then show "arena_inv a'" "j < length (entries a) \<Longrightarrow> colors a' ! j = swept_color a dead new j"
    "n = word_of_nat (card {j. j < length (entries a) \<and> dead_slot a dead j})"
    by simp_all
  show "get a' r = (if dead_slot a dead (ix r) then None else get a r)"
    using h get_out_of_range [of r a] by (cases "ix r < length (entries a)") auto
qed

section \<open>Bounded sweeps\<close>

text \<open>The bounded loop is the full loop on a prefix of the slots.\<close>

lemma sweep_partial_loop_prefix:
  "\<exists>k. k \<le> length is' \<and>
     sweep_partial_loop dead new mx is' seen scanned s =
       (fold (sweep_slot dead new) (take k is') s, scanned + k)
     \<and> (seen < mx \<and> is' \<noteq> [] \<longrightarrow> 0 < k)"
proof (induction dead new mx is' seen scanned s rule: sweep_partial_loop.induct)
  case (1 dead new mx seen scanned s)
  then show ?case by simp
next
  case (2 dead new mx i is' seen scanned s)
  show ?case
  proof (cases "mx \<le> seen")
    case True
    then show ?thesis by (intro exI [of _ 0]) simp
  next
    case False
    show ?thesis
    proof (cases "colors (fst s) ! i = COLOR_FREE")
      case True
      have "sweep_slot dead new i s = s"
        using True by (cases s) (simp add: sweep_slot_def)
      with "2.IH"(1) [OF False True] obtain k where "k \<le> length is'"
        "sweep_partial_loop dead new mx (i # is') seen scanned s =
          (fold (sweep_slot dead new) (take k is') (sweep_slot dead new i s), scanned + 1 + k)"
        using True False by auto
      then show ?thesis by (intro exI [of _ "Suc k"]) simp
    next
      case neq: False
      with "2.IH"(2) [OF False neq] obtain k where "k \<le> length is'"
        "sweep_partial_loop dead new mx (i # is') seen scanned s =
          (fold (sweep_slot dead new) (take k is') (sweep_slot dead new i s), scanned + 1 + k)"
        using False by auto
      then show ?thesis by (intro exI [of _ "Suc k"]) simp
    qed
  qed
qed

lemma fold_sweep_length [simp]:
  "length (entries (fst (fold (sweep_slot dead new) is' s))) = length (entries (fst s))"
  by (induction is' arbitrary: s) simp_all

lemma sweep_count_shift:
  "fold (sweep_slot dead new) is' (a, n + m) =
    (fst (fold (sweep_slot dead new) is' (a, n)), snd (fold (sweep_slot dead new) is' (a, n)) + m)"
proof (induction is' arbitrary: a n)
  case (Cons i is')
  show ?case
    by (simp add: sweep_slot_cases Cons.IH flip: Cons.IH)
       (metis (no_types, opaque_lifting) Cons.IH add.assoc add.commute)
qed simp

lemma sweep_partial_step:
  fixes a :: "'a arena"
  assumes len: "length (entries a) < 2 ^ 32" and pos: "unat pos \<le> length (entries a)"
  obtains p a' f where "unat pos \<le> p" "p \<le> length (entries a)"
    "fold (sweep_slot dead new) [unat pos..<p] (a, 0) = (a', f)"
    "sweep_partial a dead new pos mx = Some (a', f, word_of_nat p, p = length (entries a))"
    "0 < mx \<Longrightarrow> unat pos < length (entries a) \<Longrightarrow> unat pos < p"
proof -
  let ?n = "length (entries a)"
  obtain k where k: "k \<le> length [unat pos..<?n]"
    "sweep_partial_loop dead new (unat mx) [unat pos..<?n] 0 0 (a, 0) =
      (fold (sweep_slot dead new) (take k [unat pos..<?n]) (a, 0), 0 + k)"
    "0 < unat mx \<and> [unat pos..<?n] \<noteq> [] \<longrightarrow> 0 < k"
    using sweep_partial_loop_prefix [of "[unat pos..<?n]" dead new "unat mx" 0 0 "(a, 0)"] by blast
  define p where "p = unat pos + k"
  have p: "unat pos \<le> p" "p \<le> ?n" "take k [unat pos..<?n] = [unat pos..<p]"
    using k(1) pos by (auto simp: p_def)
  have pw: "pos + word_of_nat k = word_of_nat p" by (simp add: p_def)
  have "word_of_nat ?n \<le> (word_of_nat p :: u32) \<longleftrightarrow> p = ?n"
    using p(2) len by (auto simp: word_le_nat_alt unat_of_small)
  then have "sweep_partial a dead new pos mx =
      Some (fst (fold (sweep_slot dead new) [unat pos..<p] (a, 0)),
            snd (fold (sweep_slot dead new) [unat pos..<p] (a, 0)), word_of_nat p, p = ?n)"
    using k(2) p(3) pos pw by (simp add: sweep_partial_def capacity_def split: prod.splits)
  moreover have "0 < mx \<Longrightarrow> unat pos < ?n \<Longrightarrow> unat pos < p"
    using k(3) by (auto simp: p_def word_less_nat_alt)
  ultimately show thesis using that p(1,2) by (metis prod.collapse)
qed

text \<open>The collector resumes a bounded sweep where the last one stopped, until it is done.\<close>

fun sweep_run :: "Color \<Rightarrow> Color \<Rightarrow> u32 list \<Rightarrow> 'a arena \<Rightarrow> u32 \<Rightarrow> u32 \<Rightarrow> ('a arena \<times> u32) option" where
  "sweep_run dead new [] a pos freed = None"
| "sweep_run dead new (m # ms) a pos freed =
    (case sweep_partial a dead new pos m of
       None \<Rightarrow> None
     | Some (a', f, p, fin) \<Rightarrow>
         if fin then Some (a', freed + f) else sweep_run dead new ms a' p (freed + f))"

lemma sweep_run_fold:
  assumes "length (entries a) < 2 ^ 32" "unat pos \<le> length (entries a)"
    "length (entries a) - unat pos < length ms" "\<forall>m \<in> set ms. 0 < m"
  shows "sweep_run dead new ms a pos freed =
    Some (fold (sweep_slot dead new) [unat pos..<length (entries a)] (a, freed))"
  using assms
proof (induction ms arbitrary: a pos freed)
  case Nil
  then show ?case by simp
next
  case (Cons m ms)
  let ?n = "length (entries a)"
  obtain p a' f where p: "unat pos \<le> p" "p \<le> ?n"
    and f: "fold (sweep_slot dead new) [unat pos..<p] (a, 0) = (a', f)"
    and sp: "sweep_partial a dead new pos m = Some (a', f, word_of_nat p, p = ?n)"
    and prog: "0 < m \<Longrightarrow> unat pos < ?n \<Longrightarrow> unat pos < p"
    using sweep_partial_step [OF Cons.prems(1,2)] by metis
  have ff: "fold (sweep_slot dead new) [unat pos..<p] (a, freed) = (a', freed + f)"
    using sweep_count_shift [of dead new "[unat pos..<p]" a 0 freed] f by (simp add: add.commute)
  have n': "length (entries a') = ?n"
    using fold_sweep_length [of dead new "[unat pos..<p]" "(a, 0)"] f by simp
  have u: "unat (word_of_nat p :: u32) = p" using p(2) Cons.prems(1) by (simp add: unat_of_small)
  have app: "[unat pos..<?n] = [unat pos..<p] @ [p..<?n]"
    using p by (metis le_add_diff_inverse upt_add_eq_append)
  show ?case
  proof (cases "p = ?n")
    case True
    then show ?thesis using sp ff by simp
  next
    case False
    have "sweep_run dead new ms a' (word_of_nat p) (freed + f) =
        Some (fold (sweep_slot dead new) [unat (word_of_nat p :: u32)..<length (entries a')] (a', freed + f))"
      using Cons.prems p prog False by (intro Cons.IH) (auto simp: n' u)
    then show ?thesis using sp False by (simp add: n' u app ff)
  qed
qed


section \<open>The store interface\<close>

interpretation store: object_store get alloc arena_inv has_room
  by unfold_locales (rule alloc_props; assumption)+

section \<open>Histories of an arena\<close>

text \<open>Every operation that changes an arena, as one step.\<close>

datatype 'a arena_op =
    Do_alloc 'a Color | Do_free GcRef | Do_set_color GcRef Color | Do_mark GcRef Color
  | Do_set_flag GcRef Flag | Do_clear_flag GcRef Flag | Do_reset Color | Do_sweep Color Color
  | Do_sweep_partial Color Color u32 u32 | Do_write GcRef "'a \<Rightarrow> 'a"

fun arena_step :: "'a arena \<Rightarrow> 'a arena_op \<Rightarrow> 'a arena" where
  "arena_step a (Do_alloc v c) = fst (alloc a v c)"
| "arena_step a (Do_free r) = fst (free a r)"
| "arena_step a (Do_set_color r c) = fst (set_color a r c)"
| "arena_step a (Do_mark r c) = fst (mark_white_unfrozen a r c)"
| "arena_step a (Do_set_flag r f) = fst (set_flag a r f)"
| "arena_step a (Do_clear_flag r f) = fst (clear_flag a r f)"
| "arena_step a (Do_reset c) = reset_colors a c"
| "arena_step a (Do_sweep d n) = fst (sweep a d n)"
| "arena_step a (Do_sweep_partial d n p m) =
    (case sweep_partial a d n p m of None \<Rightarrow> a | Some (a', _) \<Rightarrow> a')"
| "arena_step a (Do_write r f) = get_mut a r f"

abbreviation arena_run :: "'a arena \<Rightarrow> 'a arena_op list \<Rightarrow> 'a arena" where
  "arena_run \<equiv> foldl arena_step"

text \<open>A step raises the generation of a slot by at most one.\<close>

definition gen_bump :: "nat \<Rightarrow> 'a arena \<Rightarrow> 'a arena \<Rightarrow> nat \<Rightarrow> bool" where
  "gen_bump j a b k \<longleftrightarrow> length (entries a) \<le> length (entries b)
     \<and> (\<exists>d \<le> k. egen (entries b ! j) = egen (entries a ! j) + word_of_nat d)"

lemma gen_bump_refl: "gen_bump j a a k"
  by (auto simp: gen_bump_def intro: exI [of _ 0])

lemma gen_bump_trans: "gen_bump j a b k \<Longrightarrow> gen_bump j b c m \<Longrightarrow> gen_bump j a c (k + m)"
proof -
  assume ab: "gen_bump j a b k" and bc: "gen_bump j b c m"
  then obtain d e where "d \<le> k" "e \<le> m" "egen (entries b ! j) = egen (entries a ! j) + word_of_nat d"
    "egen (entries c ! j) = egen (entries b ! j) + word_of_nat e"
    by (auto simp: gen_bump_def)
  then show ?thesis using ab bc
    by (auto simp: gen_bump_def add.assoc intro!: exI [of _ "d + e"])
qed

lemma gen_bump_sweep_slot:
  assumes "i < length (entries (fst s))" "j < length (entries (fst s))"
  shows "gen_bump j (fst s) (fst (sweep_slot dead new i s)) (if i = j then 1 else 0)"
  using assms by (cases s)
    (auto simp: gen_bump_def sweep_slot_cases release_slot_def nth_list_update
      intro: exI [of _ 0] exI [of _ 1])

lemma gen_bump_sweep_fold:
  assumes "distinct is'" "set is' \<subseteq> {..<length (entries (fst s))}" "j < length (entries (fst s))"
  shows "gen_bump j (fst s) (fst (fold (sweep_slot dead new) is' s)) (if j \<in> set is' then 1 else 0)"
  using assms
proof (induction is' arbitrary: s)
  case Nil
  then show ?case by (simp add: gen_bump_refl)
next
  case (Cons i is')
  let ?t = "sweep_slot dead new i s"
  have 1: "gen_bump j (fst s) (fst ?t) (if i = j then 1 else 0)"
    using Cons.prems by (intro gen_bump_sweep_slot) auto
  have 2: "gen_bump j (fst ?t) (fst (fold (sweep_slot dead new) is' ?t)) (if j \<in> set is' then 1 else 0)"
    using Cons.prems by (intro Cons.IH) auto
  have "(if i = j then 1 else 0) + (if j \<in> set is' then 1 else 0)
      = (if j \<in> set (i # is') then 1 else (0::nat))"
    using Cons.prems by auto
  then show ?case using gen_bump_trans [OF 1 2] by simp
qed

lemma gen_bump_mono: "gen_bump j a b k \<Longrightarrow> k \<le> m \<Longrightarrow> gen_bump j a b m"
  unfolding gen_bump_def by (meson le_trans)

lemma gen_bump_partial:
  assumes "j < length (entries a)" "sweep_partial a d n p m = Some (a', rest)"
  shows "gen_bump j a a' 1"
proof -
  obtain k where "k \<le> length [unat p..<length (entries a)]"
    "sweep_partial_loop d n (unat m) [unat p..<length (entries a)] 0 0 (a, 0) =
      (fold (sweep_slot d n) (take k [unat p..<length (entries a)]) (a, 0), 0 + k)"
    using sweep_partial_loop_prefix by blast
  then have "a' = fst (fold (sweep_slot d n) (take k [unat p..<length (entries a)]) (a, 0))"
    using assms(2) by (auto simp: sweep_partial_def Let_def split: if_splits prod.splits)
  moreover have "set (take k [unat p..<length (entries a)]) \<subseteq> {..<length (entries (fst (a, 0::u32)))}"
    using set_take_subset [of k "[unat p..<length (entries a)]"] by auto
  ultimately have "gen_bump j a a' (if j \<in> set (take k [unat p..<length (entries a)]) then 1 else 0)"
    using gen_bump_sweep_fold [of "take k [unat p..<length (entries a)]" "(a, 0)" j d n] assms(1)
    by simp
  then show ?thesis by (rule gen_bump_mono) simp
qed

lemma egen_update_state [simp]: "egen (es[i := (es ! i)\<lparr>estate := s\<rparr>] ! j) = egen (es ! j)"
  by (cases "i < length es"; cases "i = j") (auto simp: list_update_beyond)

lemma gen_bump_step:
  assumes j: "j < length (entries a)"
  shows "gen_bump j a (arena_step a p) 1"
proof (cases p)
  case (Do_alloc v c)
  then show ?thesis using j
    by (auto simp: alloc_def gen_bump_def Let_def nth_append nth_list_update
        intro: exI [of _ 0] split: option.splits)
next
  case (Do_free r)
  then show ?thesis using j
    by (auto simp: free_def gen_bump_def Let_def nth_list_update intro: exI [of _ 0] exI [of _ 1])
next
  case (Do_sweep d n)
  then show ?thesis
    using gen_bump_mono [OF gen_bump_sweep_fold [of "[0..<length (entries a)]" "(a, 0)" j d n], of 1] j
    by (auto simp: sweep_def atLeast0LessThan)
next
  case (Do_sweep_partial d n q m)
  then show ?thesis
    using gen_bump_partial [OF j] by (auto simp: gen_bump_refl split: option.splits)
next
  case (Do_write r f)
  then show ?thesis using j
    by (auto simp: get_mut_def gen_bump_def Let_def nth_list_update intro: exI [of _ 0]
        split: EntryState.splits)
qed (auto simp: set_color_def mark_white_unfrozen_def set_flag_def clear_flag_def reset_colors_def
    gen_bump_def intro: exI [of _ 0] split: option.splits)

lemma gen_bump_run:
  "j < length (entries a) \<Longrightarrow> gen_bump j a (arena_run a ops) (length ops)"
proof (induction ops arbitrary: a)
  case Nil
  then show ?case by (simp add: gen_bump_refl)
next
  case (Cons p ops)
  have s: "gen_bump j a (arena_step a p) 1" by (rule gen_bump_step [OF Cons.prems])
  then have "j < length (entries (arena_step a p))" using Cons.prems by (simp add: gen_bump_def)
  then show ?case using gen_bump_trans [OF s Cons.IH] by simp
qed


section \<open>Properties\<close>

lemma kept_alive_iff:
  "is_valid a r \<Longrightarrow> arena_inv a \<Longrightarrow>
    kept_alive (flags a ! ix r) \<longleftrightarrow> is_pinned a r \<or> is_frozen a r"
  by (simp add: kept_alive_def is_pinned_def is_frozen_def has_flag_def has_any_flag_mask_def
      occupied_index_valid bit.conj_disj_distrib or_eq_0_iff)

lemma valid_color:
  assumes "arena_inv a" "is_valid a r"
  shows "color a r = Some c \<longleftrightarrow> colors a ! ix r = color_to_byte c"
proof -
  have b: "colors a ! ix r \<le> COLOR_BLACK" "colors a ! ix r \<noteq> COLOR_FREE"
    using assms valid_occupied [OF assms(2)] by (simp_all add: arena_inv_def)
  then obtain d where d: "byte_to_color (colors a ! ix r) = Some d"
    using byte_to_color_None by (metis option.exhaust)
  then have "colors a ! ix r = color_to_byte d"
    by (auto simp: byte_to_color_def split: if_splits)
  moreover have "color a r = Some d"
    using d assms(2) by (auto simp: color_def is_valid_def get_def Let_def split: if_splits)
  ultimately show ?thesis by (auto simp: color_to_byte_inj)
qed

definition collectable :: "'a arena \<Rightarrow> Color \<Rightarrow> GcRef \<Rightarrow> bool" where
  "collectable a dead r \<longleftrightarrow> color a r = Some dead \<and> \<not> is_pinned a r \<and> \<not> is_frozen a r"

lemma dead_slot_collectable:
  "arena_inv a \<Longrightarrow> is_valid a r \<Longrightarrow> dead_slot a dead (ix r) \<longleftrightarrow> collectable a dead r"
  by (simp add: collectable_def dead_slot_def valid_color kept_alive_iff)

text \<open>A new handle resolved to nothing before the allocation. Afterwards it resolves to
  the stored object with the requested colour, every other handle resolves as before, and
  the parallel arrays, the slot count and the free list still agree.\<close>

theorem alloc_fresh:
  assumes "arena_inv a" "has_room a" "alloc a v c = (b, r)"
  shows "arena_inv b \<and> get a r = None \<and> get b = (get a)(r \<mapsto> v) \<and> color b r = Some c"
  using alloc_props [OF assms(1,2), of v c] assms(3) by simp

definition demo_arena :: "int arena" where
  "demo_arena = fst (alloc (fst (free (fst (alloc (fst (alloc arena_new 5 White0)) 6 White1))
     (GcRef 0 0))) 7 White0)"

lemma demo_arena_eq:
  "demo_arena = \<lparr>entries = [\<lparr>egen = 1, estate = Occupied 7\<rparr>, \<lparr>egen = 0, estate = Occupied 6\<rparr>],
     colors = [1, 2], flags = [0, 0], free_head = None, alen = 2\<rparr>"
  by (simp add: demo_arena_def arena_new_def alloc_def free_def Let_def COLOR_WHITE0_def
      COLOR_WHITE1_def COLOR_FREE_def)

lemma demo_arena_inv: "arena_inv demo_arena"
proof -
  have "free_set (entries demo_arena) = {}"
    by (auto simp: demo_arena_eq free_set_def is_free_slot_def less_Suc_eq nth_Cons split: nat.splits)
  then show ?thesis
    by (auto simp: demo_arena_eq arena_inv_def is_free_slot_def less_Suc_eq COLOR_FREE_def
        COLOR_BLACK_def)
qed

theorem alloc_fresh_witness:
  "get (fst (alloc demo_arena 9 Gray)) (GcRef 2 0) = Some 9
    \<and> get (fst (alloc demo_arena 9 Gray)) (GcRef 0 1) = Some 7"
proof -
  have "alloc demo_arena 9 Gray = (fst (alloc demo_arena 9 Gray), GcRef 2 0)"
    by (simp add: demo_arena_eq alloc_def)
  from alloc_fresh [OF demo_arena_inv _ this]
  have "get (fst (alloc demo_arena 9 Gray)) = (get demo_arena)(GcRef 2 0 \<mapsto> 9)"
    by (simp add: has_room_def demo_arena_eq)
  then show ?thesis by (simp add: demo_arena_eq get_def)
qed

text \<open>Freeing a valid handle returns its object, removes exactly that handle from the
  arena and keeps the invariant.\<close>

theorem free_removes:
  assumes "arena_inv a" "is_valid a r" "free a r = (b, x)"
  shows "arena_inv b \<and> x = get a r \<and> get b = (get a)(r := None)"
  using free_props [OF assms(1,2)] assms(3) by simp

theorem free_removes_witness:
  "get (fst (free demo_arena (GcRef 1 0))) (GcRef 1 0) = None
    \<and> get (fst (free demo_arena (GcRef 1 0))) (GcRef 0 1) = Some 7"
proof -
  have v: "is_valid demo_arena (GcRef 1 0)" by (simp add: is_valid_def get_def demo_arena_eq)
  have "get (fst (free demo_arena (GcRef 1 0))) = (get demo_arena)(GcRef 1 0 := None)"
    using free_removes [OF demo_arena_inv v prod.collapse [symmetric]] by simp
  then show ?thesis by (simp add: demo_arena_eq get_def)
qed



text \<open>C5. A sweep removes exactly the objects that carry the dead colour and are neither
  pinned nor frozen, whitens every survivor, keeps the invariant, and returns the number of
  slots it freed.\<close>

theorem sweep_exact:
  assumes "arena_inv a" "sweep a dead new = (b, n)"
  shows "arena_inv b
    \<and> (\<forall>r. get b r = (if collectable a dead r then None else get a r))
    \<and> (\<forall>r. is_valid b r \<longrightarrow> color b r = Some new)
    \<and> n = word_of_nat (card {j. j < length (entries a) \<and> dead_slot a dead j})"
proof -
  note sw = sweep_props [OF assms]
  have g: "get b r = (if collectable a dead r then None else get a r)" for r
    using sw(2) [of r] dead_slot_collectable [OF assms(1), of r dead]
    by (cases "is_valid a r") (auto simp: is_valid_def)
  have "color b r = Some new" if v: "is_valid b r" for r
  proof -
    have a: "get a r = get b r" "is_valid a r" "\<not> dead_slot a dead (ix r)"
      using v sw(2) [of r] by (auto simp: is_valid_def split: if_splits)
    have "colors a ! ix r \<noteq> COLOR_FREE" "ix r < length (entries a)"
      using valid_occupied [OF a(2)] assms(1) by (simp_all add: arena_inv_color_free)
    then show ?thesis
      using a(3) sw(3) [of "ix r"] by (simp add: valid_color [OF sw(1) v] swept_color_def)
  qed
  then show ?thesis using sw(1,4) g by blast
qed

theorem sweep_exact_witness:
  "get (fst (sweep demo_arena White0 White1)) (GcRef 0 1) = None
    \<and> get (fst (sweep demo_arena White0 White1)) (GcRef 1 0) = Some 6"
proof -
  have "get (fst (sweep demo_arena White0 White1)) r =
      (if collectable demo_arena White0 r then None else get demo_arena r)" for r
    using sweep_exact [OF demo_arena_inv prod.collapse [symmetric]] by blast
  moreover have "collectable demo_arena White0 (GcRef 0 1)"
    "\<not> collectable demo_arena White0 (GcRef 1 0)"
    by (simp_all add: collectable_def color_def byte_to_color_def is_pinned_def is_frozen_def
        has_flag_def has_any_flag_mask_def occupied_index_def demo_arena_eq COLOR_FREE_def
        COLOR_WHITE0_def COLOR_WHITE1_def COLOR_GRAY_def)
  moreover have "get demo_arena (GcRef 1 0) = Some 6" by (simp add: demo_arena_eq get_def)
  ultimately show ?thesis by simp
qed

text \<open>Resuming bounded sweeps of any positive sizes until one reports that it is done
  gives the arena and the freed count of one full sweep; with one step more than there are
  slots it always gets there.\<close>

theorem bounded_sweeps_complete:
  assumes "arena_inv a" "length (entries a) < length budgets" "\<forall>m \<in> set budgets. 0 < m"
  shows "sweep_run dead new budgets a 0 0 = Some (sweep a dead new)"
  using sweep_run_fold [of a 0 budgets dead new 0] assms arena_inv_lengths(3) [OF assms(1)]
  by (simp add: sweep_def)

theorem bounded_sweeps_complete_witness:
  "sweep_run White0 White1 [1, 1, 1] demo_arena 0 0 = Some (sweep demo_arena White0 White1)"
  by (rule bounded_sweeps_complete [OF demo_arena_inv]) (simp_all add: demo_arena_eq)

end
