(* ===== verification/LuaStr.thy ===== *)
theory LuaStr
  imports Arena
begin

text \<open>
  String interning of \<^verbatim>\<open>src/vm/string.rs\<close>: the sampled hash, the string objects
  and the power-of-two bucket table that maps contents to arena handles. Interned
  strings are compared by handle everywhere else in the machine.
\<close>

section \<open>Strings and their hash\<close>

record lua_string =
  shash :: u32
  sdata :: "u8 list"

definition lua_string_new :: "u8 list \<Rightarrow> u32 \<Rightarrow> lua_string" where
  "lua_string_new data h = \<lparr>shash = h, sdata = data\<rparr>"

text \<open>One round of the hash on a sampled byte.\<close>

definition hash_mix :: "u32 \<Rightarrow> u8 \<Rightarrow> u32" where
  "hash_mix h b = h XOR (push_bit 5 h + drop_bit 2 h + ucast b)"

function lua_hash_loop :: "u8 list \<Rightarrow> nat \<Rightarrow> nat \<Rightarrow> u32 \<Rightarrow> u32" where
  "lua_hash_loop data step l1 h =
    (if 0 < step \<and> step \<le> l1 then lua_hash_loop data step (l1 - step) (hash_mix h (data ! (l1 - 1)))
     else h)"
  by pat_completeness auto
termination
  by (relation "measure (\<lambda>(data, step, l1, h). l1)") auto

declare lua_hash_loop.simps [simp del]

definition lua_hash :: "u8 list \<Rightarrow> u32" where
  "lua_hash data =
    (let len = length data; step = drop_bit 5 len + 1
     in lua_hash_loop data step len (word_of_nat len))"

section \<open>The interning table\<close>

definition MIN_STR_TAB_SIZE :: nat where "MIN_STR_TAB_SIZE = 32"
definition USIZE_MAX :: nat where "USIZE_MAX = 2 ^ 64 - 1"

record string_table =
  buckets :: "GcRef list list"
  scount :: nat

type_synonym string_arena = "lua_string arena"

definition string_table_new :: string_table where
  "string_table_new = \<lparr>buckets = replicate MIN_STR_TAB_SIZE [], scount = 0\<rparr>"

definition bucket_index :: "u32 \<Rightarrow> nat \<Rightarrow> nat" where
  "bucket_index h n = unat h AND (n - 1)"

definition resurrect_if_dead :: "string_arena \<Rightarrow> GcRef \<Rightarrow> Color \<Rightarrow> string_arena" where
  "resurrect_if_dead a r white =
    (if color a r = Some (other_white white) then fst (set_color a r white) else a)"

fun find_string :: "string_arena \<Rightarrow> u32 \<Rightarrow> u8 list \<Rightarrow> GcRef list \<Rightarrow> GcRef option" where
  "find_string a h data [] = None"
| "find_string a h data (r # rs) =
    (case get a r of
       Some s \<Rightarrow> if shash s = h \<and> length (sdata s) = length data \<and> sdata s = data then Some r
                 else find_string a h data rs
     | None \<Rightarrow> find_string a h data rs)"

text \<open>Moving one handle to its bucket in the table being built.\<close>

definition rehash_push :: "string_arena \<Rightarrow> nat \<Rightarrow> GcRef \<Rightarrow> GcRef list list \<Rightarrow> GcRef list list" where
  "rehash_push a n r bs =
    (case get a r of
       Some s \<Rightarrow> bs[bucket_index (shash s) n := bs ! bucket_index (shash s) n @ [r]]
     | None \<Rightarrow> bs)"

definition st_rehash :: "string_table \<Rightarrow> nat \<Rightarrow> string_arena \<Rightarrow> string_table" where
  "st_rehash t n a = t\<lparr>buckets :=
     fold (fold (rehash_push a n)) (buckets t) (replicate n [])\<rparr>"

definition saturating_mul :: "nat \<Rightarrow> nat \<Rightarrow> nat" where
  "saturating_mul x y = min (x * y) USIZE_MAX"

definition st_grow :: "string_table \<Rightarrow> string_arena \<Rightarrow> string_table" where
  "st_grow t a = (let n = saturating_mul (length (buckets t)) 2 in
     if n \<le> length (buckets t) then t else st_rehash t n a)"

definition intern_hashed ::
  "string_table \<Rightarrow> u8 list \<Rightarrow> u32 \<Rightarrow> string_arena \<Rightarrow> Color \<Rightarrow> string_table \<times> string_arena \<times> GcRef" where
  "intern_hashed t data h a white =
    (let bi = bucket_index h (length (buckets t)) in
     case find_string a h data (buckets t ! bi) of
       Some r \<Rightarrow> (t, resurrect_if_dead a r white, r)
     | None \<Rightarrow>
        (let (a', r) = alloc a (lua_string_new data h) white;
             t1 = t\<lparr>buckets := (buckets t)[bi := buckets t ! bi @ [r]], scount := scount t + 1\<rparr>;
             t2 = (if scount t1 > length (buckets t1) then st_grow t1 a' else t1)
         in (t2, a', r)))"

definition intern :: "string_table \<Rightarrow> u8 list \<Rightarrow> string_arena \<Rightarrow> Color \<Rightarrow>
    string_table \<times> string_arena \<times> GcRef" where
  "intern t data a white = intern_hashed t data (lua_hash data) a white"

function next_pow2_from :: "nat \<Rightarrow> nat \<Rightarrow> nat" where
  "next_pow2_from p n = (if 0 < p \<and> p < n then next_pow2_from (2 * p) n else p)"
  by pat_completeness auto
termination
  by (relation "measure (\<lambda>(p, n). n - p)") auto

declare next_pow2_from.simps [simp del]

definition next_power_of_two :: "nat \<Rightarrow> nat" where
  "next_power_of_two n = next_pow2_from 1 n"

definition st_reserve :: "string_table \<Rightarrow> nat \<Rightarrow> string_arena \<Rightarrow> string_table" where
  "st_reserve t additional a =
    (let needed = min (scount t + additional) USIZE_MAX in
     if needed \<le> length (buckets t) then t
     else st_rehash t (max (saturating_mul (next_power_of_two needed) 2) MIN_STR_TAB_SIZE) a)"

definition maybe_shrink :: "string_table \<Rightarrow> string_arena \<Rightarrow> string_table" where
  "maybe_shrink t a =
    (if scount t < length (buckets t) div 4 \<and> length (buckets t) > MIN_STR_TAB_SIZE * 2
     then st_rehash t (length (buckets t) div 2) a else t)"

text \<open>\<open>swap_remove\<close> overwrites the position with the last element and drops the last.\<close>

definition swap_remove :: "'a list \<Rightarrow> nat \<Rightarrow> 'a list" where
  "swap_remove xs i = butlast (xs[i := last xs])"

fun position :: "GcRef \<Rightarrow> GcRef list \<Rightarrow> nat option" where
  "position r [] = None"
| "position r (x # xs) = (if x = r then Some 0 else map_option Suc (position r xs))"

definition st_remove :: "string_table \<Rightarrow> GcRef \<Rightarrow> string_arena \<Rightarrow> string_table" where
  "st_remove t r a =
    (case get a r of
       None \<Rightarrow> t
     | Some s \<Rightarrow>
        (let bi = bucket_index (shash s) (length (buckets t)); b = buckets t ! bi in
         case position r b of
           Some p \<Rightarrow> t\<lparr>buckets := (buckets t)[bi := swap_remove b p], scount := scount t - 1\<rparr>
         | None \<Rightarrow> t))"

definition st_entries :: "string_table \<Rightarrow> nat" where
  "st_entries t = sum_list (map length (buckets t))"

definition st_retain :: "string_table \<Rightarrow> (GcRef \<Rightarrow> bool) \<Rightarrow> string_table" where
  "st_retain t p =
    (let bs = map (filter p) (buckets t);
         removed = sum_list (map2 (\<lambda>b b'. length b - length b') (buckets t) bs)
     in t\<lparr>buckets := bs, scount := scount t - removed\<rparr>)"

definition sweep_dead :: "string_table \<Rightarrow> string_arena \<Rightarrow> string_table" where
  "sweep_dead t a = st_retain t (\<lambda>r. get a r \<noteq> None)"

section \<open>Facts on the hash and the buckets\<close>

text \<open>
  \<open>walk\<close> is the list of sampled positions; the hash is a fold over them, so it reads
  only bytes inside the string.
\<close>

function sample_walk :: "nat \<Rightarrow> nat \<Rightarrow> nat list" where
  "sample_walk step l1 = (if 0 < step \<and> step \<le> l1 then (l1 - 1) # sample_walk step (l1 - step) else [])"
  by pat_completeness auto
termination
  by (relation "measure (\<lambda>(step, l1). l1)") auto

declare sample_walk.simps [simp del]

lemma lua_hash_loop_fold:
  "lua_hash_loop data step l1 h = fold (\<lambda>i h. hash_mix h (data ! i)) (sample_walk step l1) h"
proof (induction data step l1 h rule: lua_hash_loop.induct)
  case (1 data step l1 h)
  then show ?case
    by (subst lua_hash_loop.simps, subst sample_walk.simps) simp
qed

lemma sample_walk_bound: "i \<in> set (sample_walk step l1) \<Longrightarrow> i < l1"
proof (induction step l1 rule: sample_walk.induct)
  case (1 step l1)
  show ?case
  proof (cases "0 < step \<and> step \<le> l1")
    case True
    with "1.prems" have "i = l1 - 1 \<or> i \<in> set (sample_walk step (l1 - step))"
      by (subst (asm) sample_walk.simps) simp
    with "1.IH" [OF True] True show ?thesis by fastforce
  next
    case False
    with "1.prems" show ?thesis by (subst (asm) sample_walk.simps) simp
  qed
qed

lemma sample_walk_length: "0 < step \<Longrightarrow> length (sample_walk step l1) = l1 div step"
proof (induction step l1 rule: sample_walk.induct)
  case (1 step l1)
  then show ?case
    by (subst sample_walk.simps) (auto simp: le_div_geq)
qed

lemma bucket_index_mod: "bucket_index h (2 ^ k) = unat h mod 2 ^ k"
proof -
  have "unat h AND mask k = unat h mod 2 ^ k"
    by (simp add: take_bit_eq_mod flip: take_bit_eq_mask)
  then show ?thesis by (simp add: bucket_index_def mask_eq_exp_minus_1)
qed

lemma bucket_index_less: "bucket_index h (2 ^ k) < 2 ^ k"
  by (simp add: bucket_index_mod)


section \<open>Invariant of the table and its arena\<close>

text \<open>
  Every live string carries its own hash, sits in the bucket of that hash, and is the
  only live string with its contents. Handles whose slot was swept may linger in the
  buckets: they resolve to nothing and the search passes over them.
\<close>

definition st_inv :: "string_table \<Rightarrow> string_arena \<Rightarrow> bool" where
  "st_inv t a \<longleftrightarrow> arena_inv a
     \<and> (\<exists>k. length (buckets t) = 2 ^ k)
     \<and> (\<forall>r s. get a r = Some s \<longrightarrow> shash s = lua_hash (sdata s))
     \<and> (\<forall>r s. get a r = Some s \<longrightarrow> r \<in> set (buckets t ! bucket_index (shash s) (length (buckets t))))
     \<and> (\<forall>r r' s s'. get a r = Some s \<longrightarrow> get a r' = Some s' \<longrightarrow> sdata s = sdata s' \<longrightarrow> r = r')"

text \<open>Room for one more bucket doubling; a \<open>Vec\<close> cannot reach this size.\<close>

definition st_room :: "string_table \<Rightarrow> bool" where
  "st_room t \<longleftrightarrow> length (buckets t) < 2 ^ 62"

lemma st_invD:
  assumes "st_inv t a"
  shows "arena_inv a" "\<exists>k. length (buckets t) = 2 ^ k"
    "get a r = Some s \<Longrightarrow> shash s = lua_hash (sdata s)"
    "get a r = Some s \<Longrightarrow> r \<in> set (buckets t ! bucket_index (lua_hash (sdata s)) (length (buckets t)))"
    "get a r = Some s \<Longrightarrow> get a r' = Some s' \<Longrightarrow> sdata s = sdata s' \<Longrightarrow> r = r'"
  using assms unfolding st_inv_def by (blast, blast, blast, metis, blast)

lemma st_inv_bucket_in_range:
  assumes "st_inv t a"
  shows "bucket_index h (length (buckets t)) < length (buckets t)"
  using st_invD(2) [OF assms] bucket_index_less by auto

lemma st_inv_new: "st_inv string_table_new arena_new"
  using arena_inv_new
  by (auto simp: st_inv_def string_table_new_def MIN_STR_TAB_SIZE_def get_def arena_new_def
      intro: exI [of _ 5])

text \<open>The search returns a live string with these contents, and finds one if the bucket has it.\<close>

lemma find_string_Some:
  "find_string a h data rs = Some r \<Longrightarrow>
    r \<in> set rs \<and> (\<exists>s. get a r = Some s \<and> shash s = h \<and> sdata s = data)"
  by (induction rs) (auto split: option.splits if_splits)

lemma find_string_None:
  "find_string a h data rs = None \<Longrightarrow> r \<in> set rs \<Longrightarrow> get a r = Some s \<Longrightarrow>
    \<not> (shash s = h \<and> sdata s = data)"
  by (induction rs) (auto split: option.splits if_splits)

lemma find_string_iff:
  assumes inv: "st_inv t a"
  shows "find_string a (lua_hash data) data
      (buckets t ! bucket_index (lua_hash data) (length (buckets t))) = Some r
    \<longleftrightarrow> (\<exists>s. get a r = Some s \<and> sdata s = data)" (is "?f = Some r \<longleftrightarrow> ?live")
proof
  show ?live if "?f = Some r" using find_string_Some [OF that] by blast
  assume ?live
  then obtain s where s: "get a r = Some s" "sdata s = data" by blast
  have m: "r \<in> set (buckets t ! bucket_index (lua_hash data) (length (buckets t)))"
    using st_invD(4) [OF inv s(1)] s(2) by simp
  have h: "shash s = lua_hash data" using st_invD(3) [OF inv s(1)] s(2) by simp
  obtain r' where r': "?f = Some r'"
    using find_string_None [OF _ m s(1)] h s(2) by fastforce
  then obtain s' where "get a r' = Some s'" "sdata s' = data"
    using find_string_Some by blast
  then have "r' = r" using st_invD(5) [OF inv _ s(1)] s(2) by metis
  with r' show "?f = Some r" by simp
qed

section \<open>Rehashing\<close>

lemma rehash_push_length [simp]: "length (rehash_push a n r bs) = length bs"
  by (simp add: rehash_push_def split: option.splits)

lemma fold_rehash_push_length [simp]: "length (fold (rehash_push a n) rs bs) = length bs"
  by (induction rs arbitrary: bs) simp_all

lemma fold_fold_rehash_length [simp]:
  "length (fold (fold (rehash_push a n)) bss bs) = length bs"
  by (induction bss arbitrary: bs) simp_all

lemma set_nth_extend: "x \<in> set (bs ! i) \<Longrightarrow> x \<in> set (bs[j := bs ! j @ ys] ! i)"
  by (cases "i = j"; cases "j < length bs") (auto simp: list_update_beyond)

lemma rehash_push_keeps: "r' \<in> set (bs ! i) \<Longrightarrow> r' \<in> set (rehash_push a n r bs ! i)"
  by (auto simp: rehash_push_def set_nth_extend split: option.splits)

lemma fold_rehash_push_keeps:
  "r' \<in> set (bs ! i) \<Longrightarrow> r' \<in> set (fold (rehash_push a n) rs bs ! i)"
  by (induction rs arbitrary: bs) (simp_all add: rehash_push_keeps)

lemma fold_fold_rehash_keeps:
  "r' \<in> set (bs ! i) \<Longrightarrow> r' \<in> set (fold (fold (rehash_push a n)) bss bs ! i)"
  by (induction bss arbitrary: bs) (simp_all add: fold_rehash_push_keeps)

lemma fold_rehash_push_moves:
  assumes "get a r = Some s" "r \<in> set rs" "bucket_index (shash s) n < length bs"
  shows "r \<in> set (fold (rehash_push a n) rs bs ! bucket_index (shash s) n)"
  using assms(2,3)
proof (induction rs arbitrary: bs)
  case (Cons x rs)
  show ?case
  proof (cases "x = r")
    case True
    have "r \<in> set (rehash_push a n r bs ! bucket_index (shash s) n)"
      using Cons.prems(2) assms(1) by (simp add: rehash_push_def)
    then show ?thesis using True by (simp add: fold_rehash_push_keeps)
  next
    case False
    then show ?thesis using Cons by simp
  qed
qed simp

lemma fold_fold_rehash_moves:
  assumes "get a r = Some s" "r \<in> set rs" "rs \<in> set bss" "bucket_index (shash s) n < length bs"
  shows "r \<in> set (fold (fold (rehash_push a n)) bss bs ! bucket_index (shash s) n)"
  using assms(3,4)
proof (induction bss arbitrary: bs)
  case (Cons x bss)
  show ?case
  proof (cases "x = rs")
    case True
    then show ?thesis
      using fold_rehash_push_moves [OF assms(1,2) Cons.prems(2)] by (simp add: fold_fold_rehash_keeps)
  next
    case False
    then show ?thesis using Cons by simp
  qed
qed simp

lemma st_rehash_inv:
  assumes inv: "st_inv t a"
  shows "st_inv (st_rehash t (2 ^ k) a) a"
proof -
  have "r \<in> set (buckets (st_rehash t (2 ^ k) a) ! bucket_index (shash s) (2 ^ k))"
    if g: "get a r = Some s" for r s
  proof -
    let ?i = "bucket_index (shash s) (length (buckets t))"
    have "r \<in> set (buckets t ! ?i)" using st_invD(3,4) [OF inv g] by simp
    moreover have "buckets t ! ?i \<in> set (buckets t)"
      using st_inv_bucket_in_range [OF inv] by simp
    ultimately show ?thesis
      using fold_fold_rehash_moves [OF g] bucket_index_less by (simp add: st_rehash_def)
  qed
  moreover have "length (buckets (st_rehash t (2 ^ k) a)) = 2 ^ k"
    by (simp add: st_rehash_def)
  ultimately show ?thesis
    using inv unfolding st_inv_def by auto
qed

lemma st_grow_inv:
  assumes inv: "st_inv t a" and room: "st_room t"
  shows "st_inv (st_grow t a) a"
proof -
  from st_invD(2) [OF inv] obtain k where k: "length (buckets t) = 2 ^ k" ..
  have "saturating_mul (length (buckets t)) 2 = 2 ^ Suc k"
    using room by (simp add: saturating_mul_def USIZE_MAX_def st_room_def k)
  then show ?thesis
    using st_rehash_inv [OF inv, of "Suc k"] k by (simp add: st_grow_def)
qed

lemma maybe_shrink_inv:
  assumes inv: "st_inv t a"
  shows "st_inv (maybe_shrink t a) a"
proof -
  from st_invD(2) [OF inv] obtain k where k: "length (buckets t) = 2 ^ k" ..
  show ?thesis
  proof (cases k)
    case 0
    then show ?thesis using inv k by (simp add: maybe_shrink_def MIN_STR_TAB_SIZE_def)
  next
    case (Suc j)
    then have "length (buckets t) div 2 = 2 ^ j" using k by simp
    then show ?thesis using inv st_rehash_inv [OF inv, of j] by (simp add: maybe_shrink_def)
  qed
qed

lemma sweep_dead_inv:
  assumes inv: "st_inv t a"
  shows "st_inv (sweep_dead t a) a"
proof -
  have "r \<in> set (map (filter (\<lambda>r. get a r \<noteq> None)) (buckets t) !
      bucket_index (shash s) (length (buckets t)))" if g: "get a r = Some s" for r s
    using st_invD(3,4) [OF inv g] st_inv_bucket_in_range [OF inv] g by simp
  then show ?thesis
    using inv unfolding st_inv_def sweep_dead_def st_retain_def by (auto simp: Let_def)
qed

text \<open>Collecting strings from the arena leaves a valid table behind, swept or not.\<close>

lemma st_inv_shrink_arena:
  assumes inv: "st_inv t a" and b: "arena_inv b" "\<And>r s. get b r = Some s \<Longrightarrow> get a r = Some s"
  shows "st_inv t b"
proof -
  have "shash s = lua_hash (sdata s)"
    "r \<in> set (buckets t ! bucket_index (shash s) (length (buckets t)))"
    if "get b r = Some s" for r s
    using st_invD(3,4) [OF inv b(2) [OF that]] by simp_all
  moreover have "r = r'" if "get b r = Some s" "get b r' = Some s'" "sdata s = sdata s'" for r r' s s'
    using st_invD(5) [OF inv b(2) [OF that(1)] b(2) [OF that(2)] that(3)] .
  ultimately show ?thesis using b(1) st_invD(2) [OF inv] unfolding st_inv_def by blast
qed


section \<open>Interning\<close>

lemma resurrect_props:
  assumes "arena_inv a"
  shows "arena_inv (resurrect_if_dead a r w)" "get (resurrect_if_dead a r w) = get a"
  using assms update_ops_inv(1) [OF assms] by (simp_all add: resurrect_if_dead_def update_ops_get)

lemma set_color_color:
  assumes "arena_inv a" "is_valid a r"
  shows "color (fst (set_color a r c)) r = Some c"
  using assms valid_occupied [OF assms(2)] arena_inv_lengths [OF assms(1)]
  by (auto simp: set_color_def occupied_index_valid color_def is_valid_def get_def Let_def
      split: if_splits)

lemma other_white_neq: "is_white w \<Longrightarrow> other_white w \<noteq> w"
  by (cases w) simp_all

lemma resurrect_color:
  assumes "arena_inv a" "is_valid a r" "is_white w"
  shows "color (resurrect_if_dead a r w) r \<noteq> Some (other_white w)"
  using set_color_color [OF assms(1,2), of w] other_white_neq [OF assms(3)]
  by (simp add: resurrect_if_dead_def)

lemma st_inv_alloc:
  assumes inv: "st_inv t a" and room: "has_room a"
    and new: "\<forall>r s. get a r = Some s \<longrightarrow> sdata s \<noteq> data"
    and al: "alloc a (lua_string_new data (lua_hash data)) w = (a', r)"
    and bi: "bi = bucket_index (lua_hash data) (length (buckets t))"
  shows "st_inv (t\<lparr>buckets := (buckets t)[bi := buckets t ! bi @ [r]], scount := n\<rparr>) a'"
proof -
  let ?s = "lua_string_new data (lua_hash data)"
  let ?bs = "(buckets t)[bi := buckets t ! bi @ [r]]"
  have a': "arena_inv a'" "get a' = (get a)(r \<mapsto> ?s)"
    using alloc_props [OF st_invD(1) [OF inv] room, of ?s w] al by simp_all
  have b: "bi < length (buckets t)" using st_inv_bucket_in_range [OF inv] bi by simp
  have old: "get a r0 = Some s" if "get a' r0 = Some s" "r0 \<noteq> r" for r0 s
    using that a'(2) by simp
  have "shash s = lua_hash (sdata s)" if "get a' r0 = Some s" for r0 s
    using that a'(2) st_invD(3) [OF inv] by (cases "r0 = r") (auto simp: lua_string_new_def)
  moreover have "r0 \<in> set (?bs ! bucket_index (shash s) (length ?bs))" if g: "get a' r0 = Some s" for r0 s
  proof (cases "r0 = r")
    case True
    then show ?thesis using g a'(2) b bi by (auto simp: lua_string_new_def)
  next
    case False
    then show ?thesis using st_invD(3,4) [OF inv old [OF g False]] by (simp add: set_nth_extend)
  qed
  moreover have "r1 = r2" if "get a' r1 = Some s1" "get a' r2 = Some s2" "sdata s1 = sdata s2" for r1 r2 s1 s2
    using that new [rule_format, of r1 s1] new [rule_format, of r2 s2] old [of r1 s1] old [of r2 s2]
      st_invD(5) [OF inv, of r1 s1 r2 s2] a'(2)
    by (cases "r1 = r"; cases "r2 = r") (auto simp: lua_string_new_def)
  ultimately show ?thesis
    using a'(1) st_invD(2) [OF inv] unfolding st_inv_def by simp
qed

lemma intern_found:
  assumes "st_inv t a" "get a r = Some s" "sdata s = data"
  shows "intern t data a w = (t, resurrect_if_dead a r w, r)"
proof -
  have "find_string a (lua_hash data) data
      (buckets t ! bucket_index (lua_hash data) (length (buckets t))) = Some r"
    using find_string_iff [OF assms(1), of data r] assms(2,3) by blast
  then show ?thesis by (simp add: intern_def intern_hashed_def Let_def)
qed

lemma intern_new:
  assumes inv: "st_inv t a" and new: "\<forall>r s. get a r = Some s \<longrightarrow> sdata s \<noteq> data"
    and al: "alloc a (lua_string_new data (lua_hash data)) w = (a', r)"
  shows "\<exists>t1. intern t data a w = (t1, a', r) \<and> (st_room t \<longrightarrow> has_room a \<longrightarrow> st_inv t1 a')"
proof -
  let ?bi = "bucket_index (lua_hash data) (length (buckets t))"
  let ?t1 = "t\<lparr>buckets := (buckets t)[?bi := buckets t ! ?bi @ [r]], scount := scount t + 1\<rparr>"
  have "find_string a (lua_hash data) data (buckets t ! ?bi) = None"
    using find_string_iff [OF inv, of data] new by (metis option.exhaust)
  then have i: "intern t data a w =
      ((if scount ?t1 > length (buckets ?t1) then st_grow ?t1 a' else ?t1), a', r)"
    using al by (simp add: intern_def intern_hashed_def Let_def)
  show ?thesis
    unfolding i using st_inv_alloc [OF inv _ new al refl, of "scount t + 1"] st_grow_inv [of ?t1 a']
    by (auto simp: st_room_def)
qed

lemma intern_props:
  assumes inv: "st_inv t a" and room: "st_room t" "has_room a" and i: "intern t data a w = (t', a', r)"
  shows "st_inv t' a'" "get a' r = Some \<lparr>shash = lua_hash data, sdata = data\<rparr>"
    "get a r0 = Some s \<Longrightarrow> get a' r0 = Some s"
    "is_white w \<Longrightarrow> color a' r \<noteq> Some (other_white w)"
proof -
  have "st_inv t' a' \<and> get a' r = Some \<lparr>shash = lua_hash data, sdata = data\<rparr>
    \<and> (get a r0 = Some s \<longrightarrow> get a' r0 = Some s)
    \<and> (is_white w \<longrightarrow> color a' r \<noteq> Some (other_white w))"
  proof (cases "\<exists>r1 s1. get a r1 = Some s1 \<and> sdata s1 = data")
    case True
    then obtain r1 s1 where l: "get a r1 = Some s1" "sdata s1 = data" by blast
    have e: "t' = t" "a' = resurrect_if_dead a r1 w" "r = r1"
      using intern_found [OF inv l, of w] i by simp_all
    note rp = resurrect_props [OF st_invD(1) [OF inv], of r1 w]
    have s1: "s1 = \<lparr>shash = lua_hash data, sdata = data\<rparr>"
      using st_invD(3) [OF inv l(1)] l(2) by (cases s1) simp
    have "is_valid a r1" using l by (simp add: is_valid_def)
    then show ?thesis
      using st_inv_shrink_arena [OF inv rp(1)] rp(2) l(1) s1 resurrect_color [OF st_invD(1) [OF inv]]
      unfolding e by auto
  next
    case False
    then have new: "\<forall>r s. get a r = Some s \<longrightarrow> sdata s \<noteq> data" by blast
    obtain a1 r1 where al: "alloc a (lua_string_new data (lua_hash data)) w = (a1, r1)" by fastforce
    obtain t1 where "intern t data a w = (t1, a1, r1)" "st_inv t1 a1"
      using intern_new [OF inv new al] room by blast
    then have e: "t' = t1" "a' = a1" "r = r1" "st_inv t1 a1" using i by simp_all
    note sp = store.add_resolves [OF st_invD(1) [OF inv] room(2), of "lua_string_new data (lua_hash data)" w]
      store.add_keeps [OF st_invD(1) [OF inv] room(2), of r0 s "lua_string_new data (lua_hash data)" w]
      alloc_props(4) [OF st_invD(1) [OF inv] room(2), of "lua_string_new data (lua_hash data)" w]
    then show ?thesis
      using other_white_neq [of w] e(4) al unfolding e(1-3) by (auto simp: lua_string_new_def)
  qed
  then show "st_inv t' a'" "get a' r = Some \<lparr>shash = lua_hash data, sdata = data\<rparr>"
    "get a r0 = Some s \<Longrightarrow> get a' r0 = Some s"
    "is_white w \<Longrightarrow> color a' r \<noteq> Some (other_white w)" by blast+
qed

section \<open>Properties\<close>

lemma demo_room: "st_room string_table_new" "has_room arena_new"
  by (simp_all add: st_room_def string_table_new_def MIN_STR_TAB_SIZE_def has_room_def arena_new_def)

text \<open>C4. Interning returns a handle that resolves to exactly the given bytes and their hash,
  keeps every string that was live, and leaves a table in which the search by contents
  finds every live string and no two live strings are equal.\<close>

theorem intern_correct:
  assumes "st_inv t a" "st_room t" "has_room a" "intern t data a w = (t', a', r)"
  shows "st_inv t' a' \<and> get a' r = Some \<lparr>shash = lua_hash data, sdata = data\<rparr>
    \<and> (\<forall>r0 s. get a r0 = Some s \<longrightarrow> get a' r0 = Some s)"
  using intern_props [OF assms] by blast

theorem intern_correct_witness:
  "\<exists>t a r. intern string_table_new [72, 105] arena_new White0 = (t, a, r)
     \<and> get a r = Some \<lparr>shash = lua_hash [72, 105], sdata = [72, 105]\<rparr>"
proof -
  obtain t a r where i: "intern string_table_new [72, 105] arena_new White0 = (t, a, r)"
    by (metis prod_cases3)
  from intern_correct [OF st_inv_new demo_room i] i show ?thesis by blast
qed

text \<open>Two interned strings have the same handle if and only if they have the same bytes:
  comparing handles is comparing contents.\<close>

theorem intern_handle_eq:
  assumes "st_inv t a" "st_room t" "has_room a" "intern t d1 a w1 = (t1, a1, r1)"
    "st_room t1" "has_room a1" "intern t1 d2 a1 w2 = (t2, a2, r2)"
  shows "r1 = r2 \<longleftrightarrow> d1 = d2"
proof -
  note p1 = intern_props [OF assms(1-4)]
  note p2 = intern_props [OF p1(1) assms(5-7)]
  have g: "get a2 r1 = Some \<lparr>shash = lua_hash d1, sdata = d1\<rparr>" using p2(3) [OF p1(2)] .
  show ?thesis
    using g p2(2) st_invD(5) [OF p2(1) g p2(2)] by auto
qed

lemma intern_keeps_room:
  assumes "has_room a" "length (entries a) + 2 < 2 ^ 32" "arena_inv a"
  shows "has_room (fst (alloc a v c))"
  using assms by (auto simp: has_room_def alloc_def Let_def split: option.splits)

theorem intern_handle_eq_witness:
  "\<exists>t1 a1 r1 t2 a2 r2. intern string_table_new [65] arena_new White0 = (t1, a1, r1)
     \<and> intern t1 [66] a1 White0 = (t2, a2, r2) \<and> r1 \<noteq> r2"
proof -
  obtain a1 r1 where al: "alloc arena_new (lua_string_new [65] (lua_hash [65])) White0 = (a1, r1)"
    by fastforce
  have none: "\<forall>r s. get (arena_new :: string_arena) r = Some s \<longrightarrow> sdata s \<noteq> [65]"
    by (simp add: get_def arena_new_def)
  obtain t1 where i1: "intern string_table_new [65] arena_new White0 = (t1, a1, r1)"
    using intern_new [OF st_inv_new none al] by blast
  have r1: "has_room a1"
    using intern_keeps_room [OF demo_room(2) _ arena_inv_new,
        of "lua_string_new [65] (lua_hash [65])" White0] al by (simp add: arena_new_def)
  have len: "length (buckets string_table_new) = 32" "scount string_table_new = 0"
    by (simp_all add: string_table_new_def MIN_STR_TAB_SIZE_def)
  have "st_room t1"
    using i1 al len by (auto simp: intern_def intern_hashed_def Let_def st_room_def
        split: option.splits prod.splits if_splits)
  moreover obtain t2 a2 r2 where "intern t1 [66] a1 White0 = (t2, a2, r2)" by (metis prod_cases3)
  ultimately show ?thesis
    using intern_handle_eq [OF st_inv_new demo_room i1 _ r1] i1 by fastforce
qed

text \<open>A string handed out while a collection is sweeping survives that sweep: interning
  recolours a string that was already condemned.\<close>

theorem interned_survives_sweep:
  assumes "st_inv t a" "st_room t" "has_room a" "is_white w" "intern t data a w = (t', a', r)"
  shows "get (fst (sweep a' (other_white w) w)) r = Some \<lparr>shash = lua_hash data, sdata = data\<rparr>
    \<and> st_inv t' (fst (sweep a' (other_white w) w))"
proof -
  note p = intern_props [OF assms(1-3,5)]
  note inv = st_invD(1) [OF p(1)]
  note sw = sweep_props [OF inv prod.collapse [symmetric], where dead = "other_white w" and new = w]
  have v: "is_valid a' r" using p(2) by (simp add: is_valid_def)
  have "\<not> dead_slot a' (other_white w) (ix r)"
    using p(4) [OF assms(4)] valid_color [OF inv v] by (auto simp: dead_slot_def)
  then have "get (fst (sweep a' (other_white w) w)) r = Some \<lparr>shash = lua_hash data, sdata = data\<rparr>"
    using sw(2) p(2) by simp
  moreover have "st_inv t' (fst (sweep a' (other_white w) w))"
    by (rule st_inv_shrink_arena [OF p(1) sw(1)]) (simp add: sw(2) split: if_splits)
  ultimately show ?thesis ..
qed

theorem interned_survives_sweep_witness:
  "\<exists>t a r. intern string_table_new [72] arena_new White1 = (t, a, r)
     \<and> get (fst (sweep a White0 White1)) r = Some \<lparr>shash = lua_hash [72], sdata = [72]\<rparr>"
proof -
  obtain t a r where i: "intern string_table_new [72] arena_new White1 = (t, a, r)"
    by (metis prod_cases3)
  have "is_white White1" by simp
  from interned_survives_sweep [OF st_inv_new demo_room this i] i show ?thesis by auto
qed

text \<open>The hash reads at most 31 bytes of a string, all of them inside it, whatever its length.\<close>

theorem lua_hash_samples:
  "\<exists>ps. lua_hash data = fold (\<lambda>i h. hash_mix h (data ! i)) ps (word_of_nat (length data))
     \<and> length ps \<le> 31 \<and> (\<forall>i \<in> set ps. i < length data)"
proof -
  let ?n = "length data"
  have st: "drop_bit 5 ?n = ?n div 32" by (simp add: drop_bit_eq_div)
  have "?n < 32 * (?n div 32 + 1)" by arith
  then have "?n div (?n div 32 + 1) < 32" by (simp add: less_mult_imp_div_less)
  then show ?thesis
    using sample_walk_length [of "?n div 32 + 1" ?n] sample_walk_bound
    by (intro exI [of _ "sample_walk (?n div 32 + 1) ?n"])
       (auto simp: lua_hash_def Let_def st lua_hash_loop_fold)
qed

theorem lua_hash_samples_witness:
  "lua_hash [97] = 1 XOR (32 + 0 + 97) \<and>
   (\<exists>ps. lua_hash [97] = fold (\<lambda>i h. hash_mix h ([97] ! i)) ps (word_of_nat (length [97::u8]))
     \<and> length ps \<le> 31 \<and> (\<forall>i \<in> set ps. i < length [97::u8]))"
  using lua_hash_samples [of "[97]"]
  by (simp add: lua_hash_def lua_hash_loop.simps hash_mix_def drop_bit_eq_div)

end
