(* ===== verification/Value.thy ===== *)
theory Value
  imports Float64 LuaStr
begin

text \<open>
  The value type of \<^verbatim>\<open>src/vm/value.rs\<close>: nine kinds of values, references being
  arena handles, with Lua's primitive equality and the hash that has to agree with it.
\<close>

section \<open>Values\<close>

text \<open>A light userdata is a host pointer, a 64-bit word.\<close>

datatype Val =
    VNil | VBool bool | VNum f64 | VStr GcRef | VTable GcRef | VFunction GcRef
  | VUserdata GcRef | VThread GcRef | VLightUserdata u64

definition is_truthy :: "Val \<Rightarrow> bool" where
  "is_truthy v \<longleftrightarrow> \<not> (v = VNil \<or> v = VBool False)"

definition is_nil :: "Val \<Rightarrow> bool" where
  "is_nil v = (case v of VNil \<Rightarrow> True | _ \<Rightarrow> False)"

definition is_gc_managed :: "Val \<Rightarrow> bool" where
  "is_gc_managed v = (case v of VStr _ \<Rightarrow> True | VTable _ \<Rightarrow> True | VFunction _ \<Rightarrow> True
     | VUserdata _ \<Rightarrow> True | VThread _ \<Rightarrow> True | _ \<Rightarrow> False)"

fun type_name :: "Val \<Rightarrow> string" where
  "type_name VNil = ''nil''"
| "type_name (VBool _) = ''boolean''"
| "type_name (VNum _) = ''number''"
| "type_name (VStr _) = ''string''"
| "type_name (VTable _) = ''table''"
| "type_name (VFunction _) = ''function''"
| "type_name (VUserdata _) = ''userdata''"
| "type_name (VLightUserdata _) = ''userdata''"
| "type_name (VThread _) = ''thread''"

definition as_number :: "Val \<Rightarrow> f64 option" where
  "as_number v = (case v of VNum n \<Rightarrow> Some n | _ \<Rightarrow> None)"

definition as_bool :: "Val \<Rightarrow> bool option" where
  "as_bool v = (case v of VBool b \<Rightarrow> Some b | _ \<Rightarrow> None)"

text \<open>Primitive equality: numbers by IEEE comparison, references by handle.\<close>

primrec val_eq :: "Val \<Rightarrow> Val \<Rightarrow> bool" where
  "val_eq VNil w = (case w of VNil \<Rightarrow> True | _ \<Rightarrow> False)"
| "val_eq (VBool a) w = (case w of VBool b \<Rightarrow> a = b | _ \<Rightarrow> False)"
| "val_eq (VNum a) w = (case w of VNum b \<Rightarrow> f64_eq a b | _ \<Rightarrow> False)"
| "val_eq (VStr a) w = (case w of VStr b \<Rightarrow> a = b | _ \<Rightarrow> False)"
| "val_eq (VTable a) w = (case w of VTable b \<Rightarrow> a = b | _ \<Rightarrow> False)"
| "val_eq (VFunction a) w = (case w of VFunction b \<Rightarrow> a = b | _ \<Rightarrow> False)"
| "val_eq (VUserdata a) w = (case w of VUserdata b \<Rightarrow> a = b | _ \<Rightarrow> False)"
| "val_eq (VThread a) w = (case w of VThread b \<Rightarrow> a = b | _ \<Rightarrow> False)"
| "val_eq (VLightUserdata a) w = (case w of VLightUserdata b \<Rightarrow> a = b | _ \<Rightarrow> False)"

section \<open>Hashing\<close>

text \<open>The sequence of words a value feeds to a hasher, the discriminant first.\<close>

datatype hash_write = Write_disc nat | Write_bool bool | Write_u64 u64 | Write_u32 u32

fun discriminant :: "Val \<Rightarrow> nat" where
  "discriminant VNil = 0" | "discriminant (VBool _) = 1" | "discriminant (VNum _) = 2"
| "discriminant (VStr _) = 3" | "discriminant (VTable _) = 4" | "discriminant (VFunction _) = 5"
| "discriminant (VUserdata _) = 6" | "discriminant (VThread _) = 7"
| "discriminant (VLightUserdata _) = 8"

definition ref_hash :: "GcRef \<Rightarrow> hash_write list" where
  "ref_hash r = [Write_u32 (ref_index r), Write_u32 (ref_gen r)]"

fun val_hash :: "Val \<Rightarrow> hash_write list" where
  "val_hash v = Write_disc (discriminant v) # (case v of
     VNil \<Rightarrow> []
   | VBool b \<Rightarrow> [Write_bool b]
   | VNum n \<Rightarrow> if is_zero n then [Write_u64 (f64_zero False)] else [Write_u64 n]
   | VStr r \<Rightarrow> ref_hash r | VTable r \<Rightarrow> ref_hash r | VFunction r \<Rightarrow> ref_hash r
   | VUserdata r \<Rightarrow> ref_hash r | VThread r \<Rightarrow> ref_hash r
   | VLightUserdata p \<Rightarrow> [Write_u64 p])"

section \<open>Equality as a partial equivalence\<close>

definition is_nan_val :: "Val \<Rightarrow> bool" where
  "is_nan_val v = (case v of VNum n \<Rightarrow> is_nan n | _ \<Rightarrow> False)"

lemma val_eq_refl: "val_eq v v \<longleftrightarrow> \<not> is_nan_val v"
  by (cases v) (simp_all add: is_nan_val_def f64_eq_refl)

lemma val_eq_sym: "val_eq v w = val_eq w v"
  by (cases v; cases w; simp add: f64_eq_sym) auto

lemma val_eq_trans: "val_eq u v \<Longrightarrow> val_eq v w \<Longrightarrow> val_eq u w"
  by (cases u; cases v; simp split: Val.splits) (auto intro: f64_eq_trans)

lemma val_eq_nil [simp]: "val_eq VNil v \<longleftrightarrow> v = VNil" "val_eq v VNil \<longleftrightarrow> v = VNil"
  by (cases v; simp)+

lemma is_nil_iff [simp]: "is_nil v \<longleftrightarrow> v = VNil"
  by (cases v) (simp_all add: is_nil_def)

lemma val_eq_cases:
  "val_eq v w \<Longrightarrow> v = w \<or> (\<exists>m n. v = VNum m \<and> w = VNum n \<and> is_zero m \<and> is_zero n)"
  by (cases v; cases w; simp) (auto dest: f64_eq_cases)

text \<open>Equal values feed the same words to a hasher, \<open>-0.0\<close> and \<open>+0.0\<close> included, and
  equality is symmetric, transitive, and reflexive on everything but NaN.\<close>

theorem val_hash_agrees:
  "(val_eq v w \<longrightarrow> val_hash v = val_hash w) \<and> (val_eq v w = val_eq w v)
   \<and> (val_eq u v \<and> val_eq v w \<longrightarrow> val_eq u w) \<and> (val_eq v v \<longleftrightarrow> \<not> is_nan_val v)"
  using val_eq_cases [of v w] val_eq_trans [of u v w] by (auto simp: val_eq_sym val_eq_refl)

theorem val_hash_agrees_witness:
  "val_hash (VNum 0) = val_hash (VNum 0x8000000000000000)"
proof -
  have z: "is_zero 0" "is_zero 0x8000000000000000"
    by (simp_all add: is_zero_def f64_mag_def mask_eq_exp_minus_1)
  then have "val_eq (VNum 0) (VNum 0x8000000000000000)" by (simp add: f64_eq_zero)
  then show ?thesis using val_hash_agrees [of "VNum 0" "VNum 0x8000000000000000" VNil] by simp
qed

end
