(* ===== verification/Table.thy ===== *)
theory Table
  imports Value
begin

text \<open>
  The Lua table of \<^verbatim>\<open>src/vm/table.rs\<close>: an array part for the keys \<open>1..n\<close> and a
  hash part of nodes linked into collision chains by Brent's scheme. All lookups,
  assignments, the rehash, the border search and traversal follow the code. A chain walk
  in the code is an unbounded loop: here it carries fuel for one visit of every node, and
  running out is the outcome \<open>TLoop\<close>, a walk that never ends.
\<close>

section \<open>Errors and outcomes\<close>

datatype table_error = TErr string | TLoop | TPanic

type_synonym 'a tres = "(table_error, 'a) res"

section \<open>State\<close>

record node =
  nkey :: Val
  nvalue :: Val
  nnext :: "nat option"

definition node_empty :: node where
  "node_empty = \<lparr>nkey = VNil, nvalue = VNil, nnext = None\<rparr>"

datatype TaintKey = TK_Str "u8 list" | TK_Int int

text \<open>
  Node positions are 32-bit in the code; a hash part never exceeds \<open>2 ^ 26\<close> nodes after a
  resize, so they are plain numbers here.
\<close>

record table =
  arr :: "Val list"
  nodes :: "node list"
  last_free :: nat
  log2_size :: nat
  tmeta :: "GcRef option"
  tflags :: u8
  backing :: "(u32 \<times> u32) option"
  slot_taint :: "(TaintKey \<rightharpoonup> string) option"
  security_flags :: u8
  read_only :: bool

section \<open>Hash helpers\<close>

definition F64_ONE :: f64 where "F64_ONE = 0x3FF0000000000000"

definition hash_number :: "f64 \<Rightarrow> u32" where
  "hash_number n = (let b = f64_add n F64_ONE; lo = ucast b; hi = ucast (drop_bit 32 b) in lo + hi)"

definition hash_pow2 :: "u32 \<Rightarrow> u32 \<Rightarrow> u32" where
  "hash_pow2 h sz = h AND (sz - 1)"

definition hash_mod :: "u32 \<Rightarrow> u32 \<Rightarrow> u32" where
  "hash_mod h sz = h mod ((sz - 1) OR 1)"

definition number_to_int_key :: "f64 \<Rightarrow> int option" where
  "number_to_int_key n =
    (if \<not> is_finite n then None
     else let k = f64_to_i64 n in if f64_eq (f64_of_int k) n then Some k else None)"

definition ceil_log2 :: "nat \<Rightarrow> nat" where
  "ceil_log2 n = (if n \<le> 1 then 0 else nat (nbits (int (n - 1))))"

definition MAXBITS :: nat where "MAXBITS = 26"
definition MAXASIZE :: nat where "MAXASIZE = 2 ^ MAXBITS"

section \<open>Construction and accessors\<close>

definition table_new :: table where
  "table_new = \<lparr>arr = [], nodes = [], last_free = 0, log2_size = 0, tmeta = None, tflags = 0,
     backing = None, slot_taint = None, security_flags = 0, read_only = False\<rparr>"

definition with_sizes :: "nat \<Rightarrow> nat \<Rightarrow> table" where
  "with_sizes array_size hash_sz =
    (let a = replicate array_size VNil in
     if hash_sz = 0 then table_new\<lparr>arr := a\<rparr>
     else let l2 = ceil_log2 hash_sz; actual = 2 ^ l2 in
       table_new\<lparr>arr := a, nodes := replicate actual node_empty, last_free := actual, log2_size := l2\<rparr>)"

definition make_read_only :: "table \<Rightarrow> table" where
  "make_read_only t = t\<lparr>read_only := True\<rparr>"

definition array_len :: "table \<Rightarrow> nat" where "array_len t = length (arr t)"

definition hash_size :: "table \<Rightarrow> nat" where
  "hash_size t = (if log2_size t = 0 \<and> nodes t = [] then 0 else 2 ^ log2_size t)"

definition estimated_memory :: "table \<Rightarrow> nat" where
  "estimated_memory t = length (arr t) * 16 + hash_size t * 32"

definition set_metatable :: "table \<Rightarrow> GcRef option \<Rightarrow> table" where
  "set_metatable t mt = t\<lparr>tmeta := mt, tflags := 0\<rparr>"

definition set_backing :: "table \<Rightarrow> (u32 \<times> u32) option \<Rightarrow> table" where
  "set_backing t b = t\<lparr>backing := b\<rparr>"

definition get_slot_taint_str :: "table \<Rightarrow> u8 list \<Rightarrow> string option" where
  "get_slot_taint_str t k = (case slot_taint t of None \<Rightarrow> None | Some m \<Rightarrow> m (TK_Str k))"

definition get_slot_taint_int :: "table \<Rightarrow> int \<Rightarrow> string option" where
  "get_slot_taint_int t k = (case slot_taint t of None \<Rightarrow> None | Some m \<Rightarrow> m (TK_Int k))"

definition taint_map :: "table \<Rightarrow> TaintKey \<rightharpoonup> string" where
  "taint_map t = (case slot_taint t of None \<Rightarrow> Map.empty | Some m \<Rightarrow> m)"

definition set_slot_taint_str :: "table \<Rightarrow> u8 list \<Rightarrow> string \<Rightarrow> table" where
  "set_slot_taint_str t k s = t\<lparr>slot_taint := Some ((taint_map t)(TK_Str k \<mapsto> s))\<rparr>"

definition set_slot_taint_int :: "table \<Rightarrow> int \<Rightarrow> string \<Rightarrow> table" where
  "set_slot_taint_int t k s = t\<lparr>slot_taint := Some ((taint_map t)(TK_Int k \<mapsto> s))\<rparr>"

definition clear_slot_taint_str :: "table \<Rightarrow> u8 list \<Rightarrow> table" where
  "clear_slot_taint_str t k = (case slot_taint t of
     None \<Rightarrow> t | Some m \<Rightarrow> t\<lparr>slot_taint := Some (m(TK_Str k := None))\<rparr>)"

definition hash_entries :: "table \<Rightarrow> (Val \<times> Val) list" where
  "hash_entries t = map (\<lambda>n. (nkey n, nvalue n)) (filter (\<lambda>n. \<not> is_nil (nkey n)) (nodes t))"

definition ensure_array_capacity :: "table \<Rightarrow> nat \<Rightarrow> table" where
  "ensure_array_capacity t min_size =
    (if min_size > length (arr t)
     then t\<lparr>arr := arr t @ replicate (min_size - length (arr t)) VNil\<rparr> else t)"

definition set_array_slot :: "table \<Rightarrow> nat \<Rightarrow> Val \<Rightarrow> table tres" where
  "set_array_slot t i v =
    (if i < length (arr t) then Inr (t\<lparr>arr := (arr t)[i := v]\<rparr>) else Inl TPanic)"

definition find_dead_hash_entries :: "table \<Rightarrow> bool \<Rightarrow> bool \<Rightarrow> (Val \<Rightarrow> bool \<Rightarrow> bool) \<Rightarrow> nat list" where
  "find_dead_hash_entries t weak_keys weak_values is_dead =
    filter (\<lambda>i. let n = nodes t ! i in \<not> is_nil (nkey n)
      \<and> ((weak_keys \<and> is_dead (nkey n) True) \<or> (weak_values \<and> is_dead (nvalue n) False)))
      [0..<length (nodes t)]"

definition nil_array_entry :: "table \<Rightarrow> nat \<Rightarrow> table" where
  "nil_array_entry t i = (if i < length (arr t) then t\<lparr>arr := (arr t)[i := VNil]\<rparr> else t)"

definition nil_hash_entries :: "table \<Rightarrow> nat list \<Rightarrow> table" where
  "nil_hash_entries t is' = t\<lparr>nodes :=
     fold (\<lambda>i ns. if i < length ns then ns[i := (ns ! i)\<lparr>nvalue := VNil\<rparr>] else ns) is' (nodes t)\<rparr>"

definition set_tm_flag :: "table \<Rightarrow> u8 \<Rightarrow> table" where
  "set_tm_flag t event =
    (if event \<le> 4 then t\<lparr>tflags := tflags t OR push_bit (unat event) 1\<rparr> else t)"

definition invalidate_tm_cache :: "table \<Rightarrow> table" where
  "invalidate_tm_cache t = t\<lparr>tflags := 0\<rparr>"

section \<open>Positions and chain walks\<close>

definition val_main_position :: "string_arena \<Rightarrow> nat \<Rightarrow> Val \<Rightarrow> nat" where
  "val_main_position strings sz key =
    (let s32 = word_of_nat sz :: u32 in unat (case key of
       VNum n \<Rightarrow> hash_mod (hash_number n) s32
     | VStr r \<Rightarrow> hash_pow2 (case get strings r of None \<Rightarrow> 0 | Some s \<Rightarrow> shash s) s32
     | VBool b \<Rightarrow> hash_pow2 (if b then 1 else 0) s32
     | VLightUserdata p \<Rightarrow> hash_mod (ucast p) s32
     | VTable r \<Rightarrow> hash_mod (ref_index r) s32
     | VFunction r \<Rightarrow> hash_mod (ref_index r) s32
     | VUserdata r \<Rightarrow> hash_mod (ref_index r) s32
     | VThread r \<Rightarrow> hash_mod (ref_index r) s32
     | VNil \<Rightarrow> 0))"

definition main_position :: "table \<Rightarrow> Val \<Rightarrow> string_arena \<Rightarrow> nat" where
  "main_position t key strings = val_main_position strings (hash_size t) key"

text \<open>The loop shared by every search: follow \<open>next\<close> until a node's key matches.\<close>

fun chain_find :: "nat \<Rightarrow> node list \<Rightarrow> (Val \<Rightarrow> bool) \<Rightarrow> nat option \<Rightarrow> nat option tres" where
  "chain_find fuel ns p None = Inr None"
| "chain_find 0 ns p (Some i) = Inl TLoop"
| "chain_find (Suc fuel) ns p (Some i) =
    (if i < length ns then
       (if p (nkey (ns ! i)) then Inr (Some i) else chain_find fuel ns p (nnext (ns ! i)))
     else Inl TPanic)"

definition search :: "table \<Rightarrow> (Val \<Rightarrow> bool) \<Rightarrow> nat \<Rightarrow> nat option tres" where
  "search t p mp = chain_find (Suc (length (nodes t))) (nodes t) p (Some mp)"

definition node_value :: "table \<Rightarrow> nat option \<Rightarrow> Val" where
  "node_value t oi = (case oi of None \<Rightarrow> VNil | Some i \<Rightarrow> nvalue (nodes t ! i))"

text \<open>\<open>free_pos\<close> scans backward from \<open>last_free\<close>.\<close>

fun free_pos :: "node list \<Rightarrow> nat \<Rightarrow> nat option \<times> nat" where
  "free_pos ns 0 = (None, 0)"
| "free_pos ns (Suc l) = (if is_nil (nkey (ns ! l)) then (Some l, l) else free_pos ns l)"

definition get_free_pos :: "table \<Rightarrow> nat option \<times> table" where
  "get_free_pos t = (let (r, l) = free_pos (nodes t) (last_free t) in (r, t\<lparr>last_free := l\<rparr>))"

section \<open>Lookup\<close>

definition int_index :: "int \<Rightarrow> nat" where
  "int_index key = nat ((key - 1) mod 2 ^ 64)"

definition is_num_key :: "f64 \<Rightarrow> Val \<Rightarrow> bool" where
  "is_num_key nk v = (case v of VNum n \<Rightarrow> f64_eq n nk | _ \<Rightarrow> False)"

definition get_int :: "table \<Rightarrow> int \<Rightarrow> Val tres" where
  "get_int t key =
    (if int_index key < length (arr t) then Inr (arr t ! int_index key)
     else if nodes t = [] then Inr VNil
     else let nk = f64_of_int key;
              mp = unat (hash_mod (hash_number nk) (word_of_nat (hash_size t)))
          in res_bind (search t (is_num_key nk) mp) (\<lambda>oi. Inr (node_value t oi)))"

definition set_int_existing :: "table \<Rightarrow> int \<Rightarrow> Val \<Rightarrow> (table \<times> bool) tres" where
  "set_int_existing t key v =
    (if int_index key < length (arr t) then Inr (t\<lparr>arr := (arr t)[int_index key := v]\<rparr>, True)
     else if nodes t = [] then Inr (t, False)
     else let nk = f64_of_int key;
              mp = unat (hash_mod (hash_number nk) (word_of_nat (hash_size t)))
          in res_bind (search t (is_num_key nk) mp) (\<lambda>oi. case oi of
               None \<Rightarrow> Inr (t, False)
             | Some i \<Rightarrow> Inr (t\<lparr>nodes := (nodes t)[i := (nodes t ! i)\<lparr>nvalue := v\<rparr>]\<rparr>, True)))"

definition swap_array_ints :: "table \<Rightarrow> int \<Rightarrow> int \<Rightarrow> table \<times> bool" where
  "swap_array_ints t left right =
    (let l = int_index left; r = int_index right in
     if l \<ge> length (arr t) \<or> r \<ge> length (arr t) then (t, False)
     else (t\<lparr>arr := (arr t)[l := arr t ! r, r := arr t ! l]\<rparr>, True))"

definition get_str_hashed :: "table \<Rightarrow> GcRef \<Rightarrow> u32 \<Rightarrow> Val tres" where
  "get_str_hashed t key h =
    (if nodes t = [] then Inr VNil
     else res_bind (search t (\<lambda>v. v = VStr key) (unat (hash_pow2 h (word_of_nat (hash_size t)))))
       (\<lambda>oi. Inr (node_value t oi)))"

definition get_str :: "table \<Rightarrow> GcRef \<Rightarrow> string_arena \<Rightarrow> Val tres" where
  "get_str t key strings =
    (if nodes t = [] then Inr VNil
     else case get strings key of None \<Rightarrow> Inr VNil | Some s \<Rightarrow> get_str_hashed t key (shash s))"

definition get_hash :: "table \<Rightarrow> Val \<Rightarrow> string_arena \<Rightarrow> Val tres" where
  "get_hash t key strings =
    (if nodes t = [] then Inr VNil
     else res_bind (search t (\<lambda>v. val_eq v key) (main_position t key strings))
       (\<lambda>oi. Inr (node_value t oi)))"

definition tget :: "table \<Rightarrow> Val \<Rightarrow> string_arena \<Rightarrow> Val tres" where
  "tget t key strings = (case key of
     VNil \<Rightarrow> Inr VNil
   | VStr r \<Rightarrow> get_str t r strings
   | VNum n \<Rightarrow> (case number_to_int_key n of
        Some k \<Rightarrow> get_int t k | None \<Rightarrow> get_hash t key strings)
   | _ \<Rightarrow> get_hash t key strings)"

section \<open>Insertion\<close>

definition update_existing_hash_slot ::
  "table \<Rightarrow> Val \<Rightarrow> Val \<Rightarrow> string_arena \<Rightarrow> (table \<times> bool) tres" where
  "update_existing_hash_slot t key v strings =
    (if nodes t = [] then Inr (t, False)
     else res_bind (search t (\<lambda>k. val_eq k key) (main_position t key strings)) (\<lambda>oi. case oi of
        None \<Rightarrow> Inr (t, False)
      | Some i \<Rightarrow> Inr (t\<lparr>nodes := (nodes t)[i := (nodes t ! i)\<lparr>nvalue := v\<rparr>]\<rparr>, True)))"

definition insert_first_hash_node :: "table \<Rightarrow> Val \<Rightarrow> Val \<Rightarrow> string_arena \<Rightarrow> table \<times> bool" where
  "insert_first_hash_node t key v strings =
    (if nodes t \<noteq> [] then (t, False)
     else let t1 = t\<lparr>nodes := replicate 2 node_empty, last_free := 2, log2_size := 1\<rparr>;
              b = main_position t1 key strings
          in (t1\<lparr>nodes := (nodes t1)[b := (nodes t1 ! b)\<lparr>nkey := key, nvalue := v\<rparr>]\<rparr>, True))"

definition dense_array_append_index :: "table \<Rightarrow> Val \<Rightarrow> nat option" where
  "dense_array_append_index t key = (case key of
     VNum n \<Rightarrow> (case number_to_int_key n of
        Some k \<Rightarrow> (if 0 \<le> k \<and> nat k = length (arr t) + 1 \<and> nat k \<le> MAXASIZE then Some (nat k) else None)
      | None \<Rightarrow> None)
   | _ \<Rightarrow> None)"

text \<open>Case A of an insertion walks from the occupant's home to its predecessor.\<close>

fun find_pred :: "nat \<Rightarrow> node list \<Rightarrow> nat \<Rightarrow> nat \<Rightarrow> nat tres" where
  "find_pred 0 ns mp prev = Inl TLoop"
| "find_pred (Suc fuel) ns mp prev =
    (if prev < length ns then
       (if nnext (ns ! prev) \<noteq> Some mp then
          (case nnext (ns ! prev) of Some nx \<Rightarrow> find_pred fuel ns mp nx | None \<Rightarrow> Inr prev)
        else Inr prev)
     else Inl TPanic)"

definition dead_occupant :: "string_arena \<Rightarrow> node \<Rightarrow> bool" where
  "dead_occupant strings n \<longleftrightarrow> is_nil (nvalue n)
     \<and> (case nkey n of VStr r \<Rightarrow> get strings r = None | _ \<Rightarrow> False)"

definition new_key :: "table \<Rightarrow> Val \<Rightarrow> string_arena \<Rightarrow> nat tres \<times> table" where
  "new_key t key strings =
    (if nodes t = [] then (Inl (TErr ''table overflow''), t)
     else let mp = main_position t key strings; ns = nodes t in
       if is_nil (nkey (ns ! mp)) \<or> dead_occupant strings (ns ! mp)
       then (Inr mp, t\<lparr>nodes := ns[mp := (ns ! mp)\<lparr>nkey := key\<rparr>]\<rparr>)
       else case get_free_pos t of
         (None, t1) \<Rightarrow> (Inl (TErr ''table overflow''), t1)
       | (Some fr, t1) \<Rightarrow>
           let other_mp = main_position t1 (nkey (ns ! mp)) strings in
           if other_mp = mp then
             (Inr fr, t1\<lparr>nodes := ns[fr := (ns ! fr)\<lparr>nnext := nnext (ns ! mp), nkey := key\<rparr>,
                                       mp := (ns ! mp)\<lparr>nnext := Some fr\<rparr>]\<rparr>)
           else case find_pred (Suc (length ns)) ns mp other_mp of
               Inl e \<Rightarrow> (Inl e, t1)
             | Inr prev \<Rightarrow>
                 let ns1 = ns[prev := (ns ! prev)\<lparr>nnext := Some fr\<rparr>];
                     occ = ns1 ! mp
                 in (Inr mp, t1\<lparr>nodes := ns1[fr := \<lparr>nkey = nkey occ, nvalue = nvalue occ, nnext = nnext occ\<rparr>,
                                             mp := node_empty\<lparr>nkey := key\<rparr>]\<rparr>))"

definition set_node_value :: "table \<Rightarrow> nat \<Rightarrow> Val \<Rightarrow> table" where
  "set_node_value t i v = t\<lparr>nodes := (nodes t)[i := (nodes t ! i)\<lparr>nvalue := v\<rparr>]\<rparr>"

definition array_slot :: "table \<Rightarrow> Val \<Rightarrow> nat option" where
  "array_slot t key = (case key of
     VNum n \<Rightarrow> (case number_to_int_key n of
        Some k \<Rightarrow> (if int_index k < length (arr t) then Some (int_index k) else None)
      | None \<Rightarrow> None)
   | _ \<Rightarrow> None)"

text \<open>
  \<open>raw_set_impl\<close>, with what happens when \<open>new_key\<close> finds no room as the argument \<open>full\<close>: it gets
  the table and the error. With \<open>allow_rehash\<close> false that is returning the error.
\<close>

definition raw_set_body ::
  "(table \<Rightarrow> table_error \<Rightarrow> nat tres \<times> table) \<Rightarrow> table \<Rightarrow> Val \<Rightarrow> Val \<Rightarrow> string_arena \<Rightarrow> nat tres \<times> table" where
  "raw_set_body full t key v strings =
    (if is_nil key then (Inl (TErr ''table index is nil''), t)
     else if is_nan_val key then (Inl (TErr ''table index is NaN''), t)
     else case array_slot t key of Some i \<Rightarrow> (Inr 0, t\<lparr>arr := (arr t)[i := v]\<rparr>)
     | None \<Rightarrow>
       (case update_existing_hash_slot t key v strings of
         Inl e \<Rightarrow> (Inl e, t)
       | Inr (t1, done) \<Rightarrow>
          if done then (Inr 0, t1)
          else if is_nil v then (Inr 0, t)
          else if dense_array_append_index t key \<noteq> None then (Inr 16, t\<lparr>arr := arr t @ [v]\<rparr>)
          else (case insert_first_hash_node t key v strings of (t2, first) \<Rightarrow>
            if first then (Inr 64, t2)
            else (case new_key t key strings of
                (Inr i, t3) \<Rightarrow> (Inr 0, set_node_value t3 i v)
              | (Inl e, t3) \<Rightarrow> full t3 e))))"

definition raw_set_no_rehash :: "table \<Rightarrow> Val \<Rightarrow> Val \<Rightarrow> string_arena \<Rightarrow> nat tres \<times> table" where
  "raw_set_no_rehash = raw_set_body (\<lambda>t e. (Inl e, t))"

section \<open>Rehash\<close>

definition count_int :: "Val \<Rightarrow> nat list \<Rightarrow> nat list \<times> nat" where
  "count_int key nums = (case key of
     VNum n \<Rightarrow> (case number_to_int_key n of
        Some k \<Rightarrow> (if k \<ge> 1 \<and> nat k \<le> MAXASIZE
                   then (nums[ceil_log2 (nat k) := nums ! ceil_log2 (nat k) + 1], 1) else (nums, 0))
      | None \<Rightarrow> (nums, 0))
   | _ \<Rightarrow> (nums, 0))"

text \<open>\<open>count_range a i n\<close> counts the non-nil slots among the \<open>n\<close> 1-based slots from \<open>i\<close>.\<close>

primrec count_range :: "Val list \<Rightarrow> nat \<Rightarrow> nat \<Rightarrow> nat" where
  "count_range a i 0 = 0"
| "count_range a i (Suc n) = (if is_nil (a ! (i - 1)) then 0 else 1) + count_range a (i + 1) n"

fun num_use_array_loop :: "Val list \<Rightarrow> nat list \<Rightarrow> nat \<Rightarrow> nat list \<Rightarrow> nat \<Rightarrow> nat list \<times> nat" where
  "num_use_array_loop a [] i nums ause = (nums, ause)"
| "num_use_array_loop a (lg # lgs) i nums ause =
    (let lim = min (2 ^ lg) (length a) in
     if i > lim then (nums, ause)
     else let lc = count_range a i (lim + 1 - i)
          in num_use_array_loop a lgs (lim + 1) (nums[lg := nums ! lg + lc]) (ause + lc))"

definition num_use_array :: "table \<Rightarrow> nat list \<Rightarrow> nat list \<times> nat" where
  "num_use_array t nums = num_use_array_loop (arr t) [0..<MAXBITS + 1] 1 nums 0"

text \<open>The fold keeps the histogram, the integer keys counted and the entries counted.\<close>

definition num_use_hash_step :: "node \<Rightarrow> nat list \<times> nat \<times> nat \<Rightarrow> nat list \<times> nat \<times> nat" where
  "num_use_hash_step n = (\<lambda>(nums, na_size, total).
     if is_nil (nvalue n) then (nums, na_size, total)
     else let (nums', c) = count_int (nkey n) nums in (nums', na_size + c, total + 1))"

definition num_use_hash :: "table \<Rightarrow> nat list \<Rightarrow> nat \<Rightarrow> nat list \<times> nat \<times> nat" where
  "num_use_hash t nums na_size = fold num_use_hash_step (rev (nodes t)) (nums, na_size, 0)"

fun compute_sizes_loop :: "nat list \<Rightarrow> nat \<Rightarrow> nat \<Rightarrow> nat \<Rightarrow> nat \<Rightarrow> nat \<Rightarrow> nat \<times> nat" where
  "compute_sizes_loop [] na_size a na best twotoi = (best, na)"
| "compute_sizes_loop (num # nums) na_size a na best twotoi =
    (let a' = a + num;
         best' = (if num > 0 \<and> a' > twotoi div 2 then twotoi else best);
         na' = (if num > 0 \<and> a' > twotoi div 2 then a' else na)
     in if a' = na_size then (best', na')
        else compute_sizes_loop nums na_size a' na' best' (min (2 ^ 32 - 1) (twotoi * 2)))"

text \<open>The array size chosen and the number of keys that go into it.\<close>

definition compute_sizes :: "nat list \<Rightarrow> nat \<Rightarrow> nat \<times> nat" where
  "compute_sizes nums na_size = compute_sizes_loop nums na_size 0 0 0 1"

text \<open>Step 2 of \<open>resize\<close>: the fresh hash part.\<close>

definition new_hash_part :: "nat \<Rightarrow> table \<Rightarrow> unit tres \<times> table" where
  "new_hash_part new_hash_size t =
    (if new_hash_size = 0 then (Inr (), t\<lparr>nodes := [], log2_size := 0, last_free := 0\<rparr>)
     else let l2 = ceil_log2 new_hash_size in
       if l2 > MAXBITS then (Inl (TErr ''table overflow''), t)
       else (Inr (), t\<lparr>nodes := replicate (2 ^ l2) node_empty, log2_size := l2, last_free := 2 ^ l2\<rparr>))"

text \<open>Step 3: the array entries beyond the new size move to the hash part.\<close>

fun move_displaced :: "nat list \<Rightarrow> table \<Rightarrow> string_arena \<Rightarrow> unit tres \<times> table" where
  "move_displaced [] t strings = (Inr (), t)"
| "move_displaced (i # is') t strings =
    (if is_nil (arr t ! i) then move_displaced is' t strings
     else case new_key t (VNum (f64_of_int (int (i + 1)))) strings of
        (Inl e, t1) \<Rightarrow> (Inl e, t1)
      | (Inr j, t1) \<Rightarrow> move_displaced is' (set_node_value t1 j (arr t ! i)) strings)"

text \<open>Step 4: the old hash entries, last node first.\<close>

fun reinsert :: "node list \<Rightarrow> table \<Rightarrow> string_arena \<Rightarrow> unit tres \<times> table" where
  "reinsert [] t strings = (Inr (), t)"
| "reinsert (n # ns) t strings =
    (if is_nil (nvalue n) then reinsert ns t strings
     else case raw_set_no_rehash t (nkey n) (nvalue n) strings of
        (Inl e, t1) \<Rightarrow> (Inl e, t1)
      | (Inr _, t1) \<Rightarrow> reinsert ns t1 strings)"

definition resize :: "table \<Rightarrow> nat \<Rightarrow> nat \<Rightarrow> string_arena \<Rightarrow> unit tres \<times> table" where
  "resize t new_array_size new_hash_size strings =
    (let old_array_size = length (arr t);
         old_nodes = nodes t;
         t1 = ensure_array_capacity t new_array_size
     in case new_hash_part new_hash_size t1 of
       (Inl e, t2) \<Rightarrow> (Inl e, t2)
     | (Inr _, t2) \<Rightarrow>
        (case (if new_array_size < old_array_size
               then (case move_displaced [new_array_size..<old_array_size] t2 strings of
                      (Inl e, t3) \<Rightarrow> (Inl e, t3)
                    | (Inr _, t3) \<Rightarrow> (Inr (), t3\<lparr>arr := take new_array_size (arr t3)\<rparr>))
               else (Inr (), t2)) of
          (Inl e, t3) \<Rightarrow> (Inl e, t3)
        | (Inr _, t3) \<Rightarrow> reinsert (rev old_nodes) t3 strings))"

definition rehash_sizes :: "table \<Rightarrow> Val \<Rightarrow> nat \<times> nat" where
  "rehash_sizes t ek =
    (let (nums1, na1) = num_use_array t (replicate (MAXBITS + 1) 0);
         (nums2, na2, th) = num_use_hash t nums1 na1;
         (nums3, c) = count_int ek nums2;
         total_use = na1 + th + 1;
         (best, na) = compute_sizes nums3 (na2 + c)
     in (best, total_use - na))"

definition rehash :: "table \<Rightarrow> Val \<Rightarrow> string_arena \<Rightarrow> unit tres \<times> table" where
  "rehash t ek strings = (case rehash_sizes t ek of (na_size, nh_size) \<Rightarrow> resize t na_size nh_size strings)"

section \<open>Assignment\<close>

definition raw_set_impl :: "table \<Rightarrow> Val \<Rightarrow> Val \<Rightarrow> string_arena \<Rightarrow> nat tres \<times> table" where
  "raw_set_impl t key v strings =
    raw_set_body (\<lambda>t1 e. case rehash t1 key strings of
        (Inl e', t2) \<Rightarrow> (Inl e', t2)
      | (Inr _, t2) \<Rightarrow> (case raw_set_no_rehash t2 key v strings of
            (Inl e', t3) \<Rightarrow> (Inl e', t3)
          | (Inr _, t3) \<Rightarrow> (Inr (estimated_memory t3 - estimated_memory t1), t3)))
      t key v strings"

definition starts_with :: "u8 list \<Rightarrow> u8 list \<Rightarrow> bool" where
  "starts_with s p \<longleftrightarrow> take (length p) s = p"

definition raw_set_with_memory_delta :: "table \<Rightarrow> Val \<Rightarrow> Val \<Rightarrow> string_arena \<Rightarrow> nat tres \<times> table" where
  "raw_set_with_memory_delta t key v strings =
    (if read_only t then (Inl (TErr ''attempt to modify a read-only table''), t)
     else let meta = (case key of VStr r \<Rightarrow> (case get strings r of
                          Some s \<Rightarrow> starts_with (sdata s) [95, 95] | None \<Rightarrow> False) | _ \<Rightarrow> False);
              t1 = (if meta then t\<lparr>tflags := 0\<rparr> else t)
          in raw_set_impl t1 key v strings)"

definition raw_set :: "table \<Rightarrow> Val \<Rightarrow> Val \<Rightarrow> string_arena \<Rightarrow> unit tres \<times> table" where
  "raw_set t key v strings = (case raw_set_with_memory_delta t key v strings of
     (Inl e, t1) \<Rightarrow> (Inl e, t1) | (Inr _, t1) \<Rightarrow> (Inr (), t1))"

section \<open>Length\<close>

text \<open>\<open>usize::midpoint\<close> rounds down.\<close>

function (sequential) border_search :: "(nat \<Rightarrow> bool tres) \<Rightarrow> nat \<Rightarrow> nat \<Rightarrow> nat tres" where
  "border_search present lo hi =
    (if hi - lo > 1 then
       (case present ((lo + hi) div 2) of
          Inl e \<Rightarrow> Inl e
        | Inr b \<Rightarrow> if b then border_search present ((lo + hi) div 2) hi
                   else border_search present lo ((lo + hi) div 2))
     else Inr lo)"
  by pat_completeness auto
termination by (relation "measure (\<lambda>(p, lo, hi). hi - lo)") auto

text \<open>
  The two unbounded loops of a length search carry fuel. The exponential probe stops after 64
  doublings, when the candidate overflows; the linear one may run for as long as there are keys.
\<close>

fun linear_boundary_search :: "nat \<Rightarrow> (nat \<Rightarrow> bool tres) \<Rightarrow> nat \<Rightarrow> nat tres" where
  "linear_boundary_search 0 present i = Inl TLoop"
| "linear_boundary_search (Suc fuel) present i =
    res_bind (present i) (\<lambda>b. if b then linear_boundary_search fuel present (i + 1) else Inr (i - 1))"

fun exp_probe :: "nat \<Rightarrow> (nat \<Rightarrow> bool tres) \<Rightarrow> nat \<Rightarrow> nat \<Rightarrow> (nat \<times> nat) option tres" where
  "exp_probe 0 present i j = Inl TLoop"
| "exp_probe (Suc fuel) present i j =
    res_bind (present j) (\<lambda>b. if b then (if j * 2 < 2 ^ 64 then exp_probe fuel present j (j * 2) else Inr None)
                              else Inr (Some (i, j)))"

definition key_present :: "table \<Rightarrow> string_arena \<Rightarrow> nat \<Rightarrow> bool tres" where
  "key_present t strings j =
    res_bind (tget t (VNum (f64_of_int (int j))) strings) (\<lambda>v. Inr (\<not> is_nil v))"

definition unbound_search :: "nat \<Rightarrow> table \<Rightarrow> nat \<Rightarrow> string_arena \<Rightarrow> nat tres" where
  "unbound_search fuel t array_size strings =
    res_bind (exp_probe 65 (key_present t strings) array_size (array_size + 1)) (\<lambda>r. case r of
        None \<Rightarrow> linear_boundary_search fuel (key_present t strings) 1
      | Some (i, j) \<Rightarrow> border_search (key_present t strings) i j)"

definition table_len :: "nat \<Rightarrow> table \<Rightarrow> string_arena \<Rightarrow> nat tres" where
  "table_len fuel t strings =
    (let j = length (arr t) in
     if j > 0 \<and> is_nil (arr t ! (j - 1))
     then border_search (\<lambda>m. Inr (\<not> is_nil (arr t ! (m - 1)))) 0 j
     else if nodes t = [] then Inr j
     else unbound_search fuel t j strings)"

section \<open>Traversal\<close>

text \<open>The position before the first is \<open>None\<close>: the code's \<open>usize::MAX\<close>, which wraps to 0.\<close>

definition invalid_next_key :: string where
  "invalid_next_key = ''invalid key to '' @ [CHR 0x27] @ ''next'' @ [CHR 0x27]"

definition find_index :: "table \<Rightarrow> Val \<Rightarrow> string_arena \<Rightarrow> nat option tres" where
  "find_index t key strings =
    (if is_nil key then Inr None
     else case array_slot t key of Some i \<Rightarrow> Inr (Some i)
     | None \<Rightarrow>
        (if nodes t = [] then Inl (TErr invalid_next_key)
         else res_bind (search t (\<lambda>k. val_eq k key) (main_position t key strings)) (\<lambda>oi. case oi of
            Some i \<Rightarrow> Inr (Some (i + length (arr t)))
          | None \<Rightarrow> Inl (TErr invalid_next_key))))"

fun scan_array :: "Val list \<Rightarrow> nat list \<Rightarrow> (Val \<times> Val) option" where
  "scan_array a [] = None"
| "scan_array a (i # is') = (if is_nil (a ! i) then scan_array a is'
                             else Some (VNum (f64_of_int (int (i + 1))), a ! i))"

fun scan_nodes :: "node list \<Rightarrow> (Val \<times> Val) option" where
  "scan_nodes [] = None"
| "scan_nodes (n # ns) = (if is_nil (nvalue n) then scan_nodes ns else Some (nkey n, nvalue n))"

definition table_next :: "table \<Rightarrow> Val \<Rightarrow> string_arena \<Rightarrow> (Val \<times> Val) option tres" where
  "table_next t key strings =
    res_bind (find_index t key strings) (\<lambda>idx.
      let start = (case idx of None \<Rightarrow> 0 | Some i \<Rightarrow> i + 1) in
      case (if start < length (arr t) then scan_array (arr t) [start..<length (arr t)] else None) of
        Some kv \<Rightarrow> Inr (Some kv)
      | None \<Rightarrow> Inr (scan_nodes (drop (start - length (arr t)) (nodes t))))"

end
