(* ===== verification/TableInv.thy ===== *)
theory TableInv
  imports Table
begin

text \<open>
  The invariant of the hash part and what Brent's insertion does to it. A chain is followed
  through \<open>nnext\<close>; \<open>hash_scheme\<close> is the interface the chains rely on, a home position in range
  that agrees on equal keys, and the positions the table computes are an interpretation.
\<close>

section \<open>Chains\<close>

definition link :: "node list \<Rightarrow> nat \<Rightarrow> nat \<Rightarrow> bool" where
  "link ns i j \<longleftrightarrow> i < length ns \<and> nnext (ns ! i) = Some j"

abbreviation reach :: "node list \<Rightarrow> nat \<Rightarrow> nat \<Rightarrow> bool" where
  "reach ns \<equiv> (link ns)\<^sup>*\<^sup>*"

definition links_ok :: "node list \<Rightarrow> bool" where
  "links_ok ns \<longleftrightarrow>
     (\<forall>i j. link ns i j \<longrightarrow> j < length ns \<and> nkey (ns ! i) \<noteq> VNil \<and> nkey (ns ! j) \<noteq> VNil)
   \<and> (\<forall>i i' j. link ns i j \<and> link ns i' j \<longrightarrow> i = i')
   \<and> (\<exists>rk :: nat \<Rightarrow> nat. \<forall>i j. link ns i j \<longrightarrow> rk j < rk i)"

lemma links_okD:
  assumes "links_ok ns" "link ns i j"
  shows "i < length ns" "j < length ns" "nkey (ns ! i) \<noteq> VNil" "nkey (ns ! j) \<noteq> VNil"
  using assms by (auto simp: links_ok_def link_def)

lemma links_ok_inj: "links_ok ns \<Longrightarrow> link ns i j \<Longrightarrow> link ns i' j \<Longrightarrow> i = i'"
  unfolding links_ok_def by blast

lemma links_ok_irrefl: "links_ok ns \<Longrightarrow> \<not> link ns i i"
  unfolding links_ok_def by (metis less_irrefl)

lemma reach_bound: "reach ns i j \<Longrightarrow> links_ok ns \<Longrightarrow> i < length ns \<Longrightarrow> j < length ns"
  by (induction rule: rtranclp_induct) (auto dest: links_okD)

lemma link_fun: "link ns i j \<Longrightarrow> link ns i k \<Longrightarrow> j = k"
  by (simp add: link_def)

text \<open>A rank bounds the number of nodes a walk can still visit.\<close>

definition below :: "(nat \<Rightarrow> nat) \<Rightarrow> nat \<Rightarrow> nat \<Rightarrow> nat set" where
  "below rk N i = {j. j < N \<and> rk j \<le> rk i}"

lemma below_card: "card (below rk N i) \<le> N"
proof -
  have "below rk N i \<subseteq> {..<N}" by (auto simp: below_def)
  then have "card (below rk N i) \<le> card {..<N}" by (intro card_mono) simp_all
  then show ?thesis by simp
qed

lemma below_step:
  assumes "rk j < rk i" "i < N" "card (below rk N i) \<le> Suc f"
  shows "card (below rk N j) \<le> f"
proof -
  have "i \<in> below rk N i" "i \<notin> below rk N j" using assms by (simp_all add: below_def)
  moreover have "below rk N j \<subseteq> below rk N i" using assms(1) by (force simp: below_def)
  ultimately have "below rk N j \<subset> below rk N i" by blast
  moreover have "finite (below rk N i)" by (simp add: below_def)
  ultimately have "card (below rk N j) < card (below rk N i)" by (rule psubset_card_mono [rotated])
  then show ?thesis using assms(3) by simp
qed

lemma chain_find_ranked:
  assumes ok: "links_ok ns" and rk: "\<forall>i j. link ns i j \<longrightarrow> rk j < rk i"
  shows "i < length ns \<Longrightarrow> card (below rk (length ns) i) \<le> f \<Longrightarrow>
    \<exists>r. chain_find f ns p (Some i) = Inr r \<and>
     (case r of Some j \<Rightarrow> j < length ns \<and> reach ns i j \<and> p (nkey (ns ! j))
              | None \<Rightarrow> (\<forall>j. reach ns i j \<longrightarrow> \<not> p (nkey (ns ! j))))"
proof (induction f arbitrary: i)
  case 0
  have "i \<in> below rk (length ns) i" using 0 by (simp add: below_def)
  moreover have "finite (below rk (length ns) i)" by (simp add: below_def)
  ultimately show ?case using 0 by auto
next
  case (Suc f)
  show ?case
  proof (cases "p (nkey (ns ! i))")
    case True
    then show ?thesis using Suc.prems by auto
  next
    case False
    show ?thesis
    proof (cases "nnext (ns ! i)")
      case None
      then have "j = i" if "reach ns i j" for j
        using that by (auto elim: converse_rtranclpE simp: link_def)
      then show ?thesis using False None Suc.prems by auto
    next
      case (Some k)
      then have l: "link ns i k" using Suc.prems by (simp add: link_def)
      then have "k < length ns" "rk k < rk i" using ok rk by (auto dest: links_okD)
      moreover from this have "card (below rk (length ns) k) \<le> f"
        using below_step Suc.prems by blast
      ultimately obtain r where r: "chain_find f ns p (Some k) = Inr r"
        "case r of Some j \<Rightarrow> j < length ns \<and> reach ns k j \<and> p (nkey (ns ! j))
              | None \<Rightarrow> (\<forall>j. reach ns k j \<longrightarrow> \<not> p (nkey (ns ! j)))"
        using Suc.IH by blast
      have up: "reach ns k j \<Longrightarrow> reach ns i j" for j using l by simp
      have down: "reach ns k j" if "reach ns i j" "j \<noteq> i" for j
        using that l by (metis converse_rtranclpE link_fun)
      show ?thesis
      proof (intro exI conjI)
        show "chain_find (Suc f) ns p (Some i) = Inr r" using r(1) False Some Suc.prems by simp
        show "case r of Some j \<Rightarrow> j < length ns \<and> reach ns i j \<and> p (nkey (ns ! j))
              | None \<Rightarrow> (\<forall>j. reach ns i j \<longrightarrow> \<not> p (nkey (ns ! j)))"
          using r(2) up down False by (auto split: option.splits)
      qed
    qed
  qed
qed

lemma chain_find_total:
  assumes "links_ok ns" "i < length ns"
  obtains r where "chain_find (Suc (length ns)) ns p (Some i) = Inr r"
    "\<And>j. r = Some j \<Longrightarrow> j < length ns \<and> reach ns i j \<and> p (nkey (ns ! j))"
    "r = None \<Longrightarrow> \<forall>j. reach ns i j \<longrightarrow> \<not> p (nkey (ns ! j))"
proof -
  obtain rk :: "nat \<Rightarrow> nat" where "\<forall>i j. link ns i j \<longrightarrow> rk j < rk i"
    using assms by (auto simp: links_ok_def)
  from chain_find_ranked [OF assms(1) this assms(2) le_SucI [OF below_card], of p]
  obtain r where "chain_find (Suc (length ns)) ns p (Some i) = Inr r"
    "case r of Some j \<Rightarrow> j < length ns \<and> reach ns i j \<and> p (nkey (ns ! j))
              | None \<Rightarrow> (\<forall>j. reach ns i j \<longrightarrow> \<not> p (nkey (ns ! j)))"
    by blast
  then show ?thesis using that by (cases r) auto
qed

lemma find_pred_ranked:
  assumes ok: "links_ok ns" and rk: "\<forall>i j. link ns i j \<longrightarrow> rk j < rk i"
  shows "i < length ns \<Longrightarrow> card (below rk (length ns) i) \<le> f \<Longrightarrow> reach ns i mp \<Longrightarrow> i \<noteq> mp \<Longrightarrow>
    \<exists>j. find_pred f ns mp i = Inr j \<and> link ns j mp"
proof (induction f arbitrary: i)
  case 0
  have "i \<in> below rk (length ns) i" using 0 by (simp add: below_def)
  moreover have "finite (below rk (length ns) i)" by (simp add: below_def)
  ultimately show ?case using 0 by auto
next
  case (Suc f)
  obtain k where l: "link ns i k" and r: "reach ns k mp"
    using Suc.prems(3,4) by (cases rule: converse_rtranclpE) simp_all
  have k: "k < length ns" "rk k < rk i" using ok rk l by (auto dest: links_okD)
  have c: "card (below rk (length ns) k) \<le> f" using below_step k(2) Suc.prems by blast
  show ?case
  proof (cases "k = mp")
    case True
    then show ?thesis using l Suc.prems by (auto simp: link_def)
  next
    case False
    then show ?thesis using Suc.IH [OF k(1) c r] l Suc.prems by (auto simp: link_def)
  qed
qed

lemma find_pred_total:
  assumes "links_ok ns" "i < length ns" "reach ns i mp" "i \<noteq> mp"
  obtains j where "find_pred (Suc (length ns)) ns mp i = Inr j" "link ns j mp"
proof -
  obtain rk :: "nat \<Rightarrow> nat" where "\<forall>i j. link ns i j \<longrightarrow> rk j < rk i"
    using assms by (auto simp: links_ok_def)
  from find_pred_ranked [OF assms(1) this assms(2) le_SucI [OF below_card] assms(3,4)]
  show ?thesis using that by blast
qed

section \<open>The invariant of the hash part\<close>

definition keys_ok :: "(Val \<Rightarrow> bool) \<Rightarrow> node list \<Rightarrow> bool" where
  "keys_ok dead ns \<longleftrightarrow>
     (\<forall>i<length ns. \<forall>j<length ns. i \<noteq> j \<and> nkey (ns ! i) \<noteq> VNil
        \<longrightarrow> \<not> val_eq (nkey (ns ! i)) (nkey (ns ! j)))
   \<and> (\<forall>i<length ns. \<not> is_nan_val (nkey (ns ! i)))
   \<and> (\<forall>i<length ns. dead (nkey (ns ! i)) \<or> nkey (ns ! i) = VNil \<longrightarrow> nvalue (ns ! i) = VNil)"

definition homes_ok :: "(Val \<Rightarrow> nat) \<Rightarrow> (Val \<Rightarrow> bool) \<Rightarrow> node list \<Rightarrow> bool" where
  "homes_ok h dead ns \<longleftrightarrow>
     (\<forall>i<length ns. nkey (ns ! i) \<noteq> VNil \<and> \<not> dead (nkey (ns ! i)) \<longrightarrow>
        h (nkey (ns ! i)) < length ns \<and> reach ns (h (nkey (ns ! i))) i
      \<and> nkey (ns ! h (nkey (ns ! i))) \<noteq> VNil
      \<and> (dead (nkey (ns ! h (nkey (ns ! i)))) \<or>
         h (nkey (ns ! h (nkey (ns ! i)))) = h (nkey (ns ! i))))"

lemma homes_okD:
  assumes "homes_ok h dead ns" "i < length ns" "nkey (ns ! i) \<noteq> VNil" "\<not> dead (nkey (ns ! i))"
  shows "h (nkey (ns ! i)) < length ns" "reach ns (h (nkey (ns ! i))) i"
    "nkey (ns ! h (nkey (ns ! i))) \<noteq> VNil"
    "dead (nkey (ns ! h (nkey (ns ! i)))) \<or> h (nkey (ns ! h (nkey (ns ! i)))) = h (nkey (ns ! i))"
  using assms unfolding homes_ok_def by blast+

lemma keys_okD:
  assumes "keys_ok dead ns" "i < length ns"
  shows "j < length ns \<Longrightarrow> i \<noteq> j \<Longrightarrow> nkey (ns ! i) \<noteq> VNil \<Longrightarrow> \<not> val_eq (nkey (ns ! i)) (nkey (ns ! j))"
    "\<not> is_nan_val (nkey (ns ! i))"
    "dead (nkey (ns ! i)) \<Longrightarrow> nvalue (ns ! i) = VNil"
    "nkey (ns ! i) = VNil \<Longrightarrow> nvalue (ns ! i) = VNil"
  using assms unfolding keys_ok_def by blast+

text \<open>The entries the hash part holds, and its contents read by a scan of all the nodes.\<close>

definition hents :: "node list \<Rightarrow> (Val \<times> Val) set" where
  "hents ns = {(nkey n, nvalue n) |n. n \<in> set ns \<and> nvalue n \<noteq> VNil}"

fun hash_lookup :: "node list \<Rightarrow> Val \<Rightarrow> Val" where
  "hash_lookup [] k = VNil"
| "hash_lookup (n # ns) k = (if val_eq (nkey n) k then nvalue n else hash_lookup ns k)"

lemma hash_lookup_absent:
  "(\<And>n. n \<in> set ns \<Longrightarrow> \<not> val_eq (nkey n) k) \<Longrightarrow> hash_lookup ns k = VNil"
  by (induction ns) auto

lemma hash_lookup_at:
  "\<lbrakk>i < length ns; val_eq (nkey (ns ! i)) k;
    \<forall>j<length ns. j \<noteq> i \<longrightarrow> \<not> val_eq (nkey (ns ! j)) k\<rbrakk> \<Longrightarrow> hash_lookup ns k = nvalue (ns ! i)"
proof (induction ns arbitrary: i)
  case (Cons n ns)
  show ?case
  proof (cases i)
    case 0
    then show ?thesis using Cons.prems by simp
  next
    case (Suc i')
    have "\<not> val_eq (nkey n) k" using Cons.prems(3) Suc by auto
    moreover have "\<forall>j<length ns. j \<noteq> i' \<longrightarrow> \<not> val_eq (nkey (ns ! j)) k"
      using Cons.prems(3) Suc by (metis Suc_less_eq length_Cons nat.inject nth_Cons_Suc)
    ultimately show ?thesis using Cons Suc by simp
  qed
qed simp

lemma keys_ok_only:
  assumes "keys_ok dead ns" "i < length ns" "j < length ns" "k \<noteq> VNil"
    "val_eq (nkey (ns ! i)) k" "val_eq (nkey (ns ! j)) k"
  shows "i = j"
proof (rule ccontr)
  assume "i \<noteq> j"
  moreover have "nkey (ns ! i) \<noteq> VNil" using assms(4,5) by (metis val_eq_nil(1))
  moreover have "val_eq (nkey (ns ! i)) (nkey (ns ! j))" using assms val_eq_trans val_eq_sym by blast
  ultimately show False using keys_okD(1) [OF assms(1,2,3)] by blast
qed

lemma hash_lookup_key:
  assumes "keys_ok dead ns" "i < length ns" "val_eq (nkey (ns ! i)) k" "k \<noteq> VNil"
  shows "hash_lookup ns k = nvalue (ns ! i)"
  using assms by (intro hash_lookup_at) (auto dest: keys_ok_only)

lemma hash_lookup_nil:
  assumes "keys_ok dead ns" shows "hash_lookup ns VNil = VNil"
proof -
  have "\<forall>n \<in> set ns. nkey n = VNil \<longrightarrow> nvalue n = VNil"
    using keys_okD(4) [OF assms] by (auto simp: in_set_conv_nth)
  then show ?thesis by (induction ns) auto
qed

lemma hentsI: "n \<in> set ns \<Longrightarrow> nvalue n \<noteq> VNil \<Longrightarrow> (nkey n, nvalue n) \<in> hents ns"
  by (auto simp: hents_def)

text \<open>Lookups only depend on the entries.\<close>

lemma hash_lookup_ents:
  assumes "keys_ok dead ns" "v \<noteq> VNil"
  shows "hash_lookup ns k = v \<longleftrightarrow> (\<exists>k'. val_eq k' k \<and> (k', v) \<in> hents ns)"
proof
  assume l: "hash_lookup ns k = v"
  then obtain n where "n \<in> set ns" "val_eq (nkey n) k" "nvalue n = v"
    using assms(2) by (induction ns) (auto split: if_splits)
  then show "\<exists>k'. val_eq k' k \<and> (k', v) \<in> hents ns" using assms(2) by (auto simp: hents_def)
next
  assume "\<exists>k'. val_eq k' k \<and> (k', v) \<in> hents ns"
  then obtain i where i: "i < length ns" "val_eq (nkey (ns ! i)) k" "nvalue (ns ! i) = v"
    by (auto simp: hents_def in_set_conv_nth)
  then have "k \<noteq> VNil" using keys_okD(4) [OF assms(1) i(1)] assms(2) by auto
  then show "hash_lookup ns k = v" using hash_lookup_key [OF assms(1)] i by blast
qed

lemma hash_lookup_cong:
  assumes "keys_ok dead ns" "keys_ok dead' ns'" "hents ns = hents ns'"
  shows "hash_lookup ns k = hash_lookup ns' k"
  using hash_lookup_ents [OF assms(1)] hash_lookup_ents [OF assms(2)] assms(3) by metis

section \<open>Effects of an insertion\<close>

text \<open>
  A new key is at \<open>i\<close>, its value still nil, every entry is where a lookup finds it, and at
  most one free node is gone.
\<close>

definition free_count :: "node list \<Rightarrow> nat" where
  "free_count ns = card {i. i < length ns \<and> nkey (ns ! i) = VNil}"

definition inserted :: "(Val \<Rightarrow> nat) \<Rightarrow> (Val \<Rightarrow> bool) \<Rightarrow> node list \<Rightarrow> Val \<Rightarrow> node list \<Rightarrow> nat \<Rightarrow> bool" where
  "inserted h dead ns k ns' i \<longleftrightarrow> i < length ns' \<and> length ns' = length ns
     \<and> links_ok ns' \<and> keys_ok dead ns' \<and> homes_ok h dead ns' \<and> hents ns' = hents ns
     \<and> nkey (ns' ! i) = k \<and> nvalue (ns' ! i) = VNil \<and> nkey ` set ns' \<subseteq> insert k (nkey ` set ns)
     \<and> (\<forall>j<length ns. nkey (ns ! j) \<noteq> VNil \<longrightarrow> nkey (ns' ! j) \<noteq> VNil)
     \<and> free_count ns \<le> Suc (free_count ns')"

definition absent :: "node list \<Rightarrow> Val \<Rightarrow> bool" where
  "absent ns k \<longleftrightarrow> (\<forall>i<length ns. \<not> val_eq (nkey (ns ! i)) k)"

lemma keys_moved:
  assumes "keys_ok dead ns" "length ns' = length ns" "q < length ns"
    and k: "nkey (ns' ! q) = k" "nvalue (ns' ! q) = VNil" "absent ns k" "\<not> is_nan_val k"
    and mv: "\<forall>i<length ns. i \<noteq> q \<longrightarrow> \<sigma> i < length ns \<and> nkey (ns' ! i) = nkey (ns ! \<sigma> i)
                \<and> nvalue (ns' ! i) = nvalue (ns ! \<sigma> i)"
    and inj: "\<forall>i<length ns. \<forall>j<length ns. i \<noteq> q \<and> j \<noteq> q \<and> \<sigma> i = \<sigma> j \<longrightarrow> i = j"
    and cov: "\<forall>j<length ns. nvalue (ns ! j) \<noteq> VNil \<longrightarrow> (\<exists>i<length ns. i \<noteq> q \<and> \<sigma> i = j)"
  shows "keys_ok dead ns'" "hents ns' = hents ns" "nkey ` set ns' \<subseteq> insert k (nkey ` set ns)"
proof -
  have "nkey (ns' ! i) \<in> insert k (nkey ` set ns)" if "i < length ns" for i
    using mv that k(1) by (cases "i = q") (simp_all add: image_iff, metis nth_mem)
  then show "nkey ` set ns' \<subseteq> insert k (nkey ` set ns)" using assms(2) by (fastforce simp: in_set_conv_nth)
  show "keys_ok dead ns'" unfolding keys_ok_def assms(2)
  proof (intro conjI allI impI)
    fix i j assume ij: "i < length ns" "j < length ns" "i \<noteq> j \<and> nkey (ns' ! i) \<noteq> VNil"
    consider "i = q" | "j = q" | "i \<noteq> q" "j \<noteq> q" by blast
    then show "\<not> val_eq (nkey (ns' ! i)) (nkey (ns' ! j))"
    proof cases
      case 1
      then show ?thesis using ij k mv val_eq_sym by (metis absent_def)
    next
      case 2
      then show ?thesis using ij k mv by (metis absent_def)
    next
      case 3
      then have "\<sigma> i \<noteq> \<sigma> j" "\<sigma> i < length ns" "\<sigma> j < length ns" using ij inj mv by blast+
      then show ?thesis using ij 3 mv keys_okD(1) [OF assms(1)] by metis
    qed
  next
    fix i assume "i < length ns"
    then show "\<not> is_nan_val (nkey (ns' ! i))"
      using mv k keys_okD(2) [OF assms(1)] by (cases "i = q") auto
  next
    fix i assume "i < length ns" "dead (nkey (ns' ! i)) \<or> nkey (ns' ! i) = VNil"
    then show "nvalue (ns' ! i) = VNil"
      using mv k keys_okD(3,4) [OF assms(1)] by (cases "i = q") auto
  qed
  have "n \<in> set ns' \<and> nvalue n \<noteq> VNil \<Longrightarrow> (nkey n, nvalue n) \<in> hents ns" for n
    using mv k assms(2) by (fastforce simp: in_set_conv_nth hents_def)
  moreover have "(nkey n, nvalue n) \<in> hents ns'" if n: "n \<in> set ns" "nvalue n \<noteq> VNil" for n
  proof -
    from n obtain j where j: "j < length ns" "ns ! j = n" by (auto simp: in_set_conv_nth)
    then obtain i where "i < length ns" "i \<noteq> q" "\<sigma> i = j" using cov n by blast
    then have "ns' ! i \<in> set ns'" "nkey (ns' ! i) = nkey n" "nvalue (ns' ! i) = nvalue n"
      using mv j assms(2) by auto
    then show ?thesis using n hentsI by metis
  qed
  ultimately show "hents ns' = hents ns" by (auto simp: hents_def)
qed

lemma free_count_drop:
  assumes "length ns' = length ns" "\<forall>j<length ns. j \<noteq> x \<and> nkey (ns ! j) = VNil \<longrightarrow> nkey (ns' ! j) = VNil"
  shows "free_count ns \<le> Suc (free_count ns')"
proof -
  have "{i. i < length ns \<and> nkey (ns ! i) = VNil} \<subseteq> insert x {i. i < length ns' \<and> nkey (ns' ! i) = VNil}"
    using assms by auto
  then have "free_count ns \<le> card (insert x {i. i < length ns' \<and> nkey (ns' ! i) = VNil})"
    unfolding free_count_def by (intro card_mono) auto
  also have "\<dots> \<le> Suc (free_count ns')" unfolding free_count_def by (simp add: card_insert_if)
  finally show ?thesis .
qed

text \<open>The main position is free, or its occupant is a swept string.\<close>

lemma place_inserted:
  assumes ok: "links_ok ns" "keys_ok dead ns" "homes_ok h dead ns"
    and mp: "mp < length ns" "nkey (ns ! mp) = VNil \<or> dead (nkey (ns ! mp))" "h k = mp"
    and k: "k \<noteq> VNil" "\<not> dead k" "\<not> is_nan_val k" "absent ns k"
  shows "inserted h dead ns k (ns[mp := (ns ! mp)\<lparr>nkey := k\<rparr>]) mp"
proof -
  let ?ns = "ns[mp := (ns ! mp)\<lparr>nkey := k\<rparr>]"
  have nx: "nnext (?ns ! i) = nnext (ns ! i)" for i using mp(1) by (cases "i = mp") simp_all
  have link: "link ?ns = link ns" by (intro ext) (simp add: link_def nx)
  have v: "nvalue (ns ! mp) = VNil" using mp keys_okD(3,4) [OF ok(2)] by blast
  have key: "nkey (?ns ! i) = (if i = mp then k else nkey (ns ! i))" if "i < length ns" for i
    using that by simp
  have "links_ok ?ns" unfolding links_ok_def link length_list_update
    using ok(1) k(1) key by (auto simp: links_ok_def link_def)
  moreover have "keys_ok dead ?ns" "hents ?ns = hents ns" "nkey ` set ?ns \<subseteq> insert k (nkey ` set ns)"
    by (rule keys_moved [OF ok(2), where q = mp and k = k and \<sigma> = id]; use mp k v in force)+
  moreover have "homes_ok h dead ?ns" unfolding homes_ok_def link length_list_update
  proof (intro allI impI)
    fix i assume i: "i < length ns" "nkey (?ns ! i) \<noteq> VNil \<and> \<not> dead (nkey (?ns ! i))"
    show "h (nkey (?ns ! i)) < length ns \<and> reach ns (h (nkey (?ns ! i))) i
      \<and> nkey (?ns ! h (nkey (?ns ! i))) \<noteq> VNil
      \<and> (dead (nkey (?ns ! h (nkey (?ns ! i)))) \<or>
         h (nkey (?ns ! h (nkey (?ns ! i)))) = h (nkey (?ns ! i)))"
    proof (cases "i = mp")
      case True
      then show ?thesis using mp k by simp
    next
      case False
      then show ?thesis using homes_okD [OF ok(3), of i] i mp k by (auto simp: key)
    qed
  qed
  moreover have "free_count ns \<le> Suc (free_count ?ns)" by (rule free_count_drop [where x = mp]) auto
  moreover have "\<forall>j<length ns. nkey (ns ! j) \<noteq> VNil \<longrightarrow> nkey (?ns ! j) \<noteq> VNil"
    using k(1) by (simp add: key)
  ultimately show ?thesis using mp(1) v unfolding inserted_def by (simp add: key)
qed

text \<open>Case B: the occupant is at home; the new key goes to a free node chained after it.\<close>

lemma chain_after_inserted:
  assumes ok: "links_ok ns" "keys_ok dead ns" "homes_ok h dead ns"
    and mp: "mp < length ns" "nkey (ns ! mp) \<noteq> VNil" "h k = mp" "h (nkey (ns ! mp)) = mp"
    and fr: "fr < length ns" "nkey (ns ! fr) = VNil"
    and k: "k \<noteq> VNil" "\<not> dead k" "\<not> is_nan_val k" "absent ns k"
  shows "inserted h dead ns k (ns[fr := (ns ! fr)\<lparr>nnext := nnext (ns ! mp), nkey := k\<rparr>,
                                 mp := (ns ! mp)\<lparr>nnext := Some fr\<rparr>]) fr"
proof -
  let ?ns = "ns[fr := (ns ! fr)\<lparr>nnext := nnext (ns ! mp), nkey := k\<rparr>, mp := (ns ! mp)\<lparr>nnext := Some fr\<rparr>]"
  have ne: "fr \<noteq> mp" using mp fr by auto
  have key: "nkey (?ns ! i) = (if i = fr then k else nkey (ns ! i))" if "i < length ns" for i
    using that ne mp(1) fr(1) by (auto simp: nth_list_update)
  have val: "nvalue (?ns ! i) = nvalue (ns ! i)" if "i < length ns" for i
    using that ne mp(1) fr(1) by (auto simp: nth_list_update)
  have v: "nvalue (ns ! fr) = VNil" using fr keys_okD(4) [OF ok(2)] by blast
  have fr_out: "\<not> link ns fr j" and fr_in: "\<not> link ns j fr" for j
    using fr links_okD(3,4) [OF ok(1)] by blast+
  have link: "link ?ns i j \<longleftrightarrow> (if i = mp then j = fr else if i = fr then link ns mp j else link ns i j)" for i j
    using ne mp fr by (auto simp: link_def nth_list_update)
  obtain rk :: "nat \<Rightarrow> nat" where rk: "\<forall>i j. link ns i j \<longrightarrow> rk j < rk i"
    using ok(1) by (auto simp: links_ok_def)
  define rk' where "rk' i = (if i = fr then 2 * rk mp else 2 * rk i + 1)" for i
  have "rk' j < rk' i" if l: "link ?ns i j" for i j
  proof -
    have "rk j < rk i" if "link ns i j" using rk that by blast
    moreover have "rk j < rk mp" if "link ns mp j" using rk that by blast
    ultimately show ?thesis using l ne fr_in fr_out unfolding link rk'_def by (auto split: if_splits)
  qed
  moreover have "i = i'" if "link ?ns i j" "link ?ns i' j" for i i' j
    using that links_ok_inj [OF ok(1)] ne fr_in unfolding link by (auto split: if_splits)
  moreover have "j < length ns \<and> nkey (?ns ! i) \<noteq> VNil \<and> nkey (?ns ! j) \<noteq> VNil" if "link ?ns i j" for i j
  proof -
    have "i < length ns" using that by (simp add: link_def)
    then show ?thesis using that links_okD(2,3,4) [OF ok(1)] fr mp k(1) ne unfolding link
      by (auto simp: key split: if_splits)
  qed
  ultimately have links: "links_ok ?ns" unfolding links_ok_def length_list_update by blast
  have reach: "reach ?ns i j" if "reach ns i j" for i j
    using that
  proof (induction rule: rtranclp_induct)
    case (step j l)
    show ?case
    proof (cases "j = mp")
      case True
      then have "link ?ns mp fr" "link ?ns fr l" using step(2) ne unfolding link by auto
      then show ?thesis using step(3) True by (meson rtranclp.rtrancl_into_rtrancl)
    next
      case False
      then have "link ?ns j l" using step(2) fr_out unfolding link by auto
      then show ?thesis using step(3) by (rule rtranclp.rtrancl_into_rtrancl [rotated])
    qed
  qed simp
  have keys: "keys_ok dead ?ns" "hents ?ns = hents ns" "nkey ` set ?ns \<subseteq> insert k (nkey ` set ns)"
    by (rule keys_moved [OF ok(2), where q = fr and k = k and \<sigma> = id];
        (simp add: key val fr v k)?; use v in metis)+
  moreover have "homes_ok h dead ?ns" unfolding homes_ok_def length_list_update
  proof (intro allI impI)
    fix i assume i: "i < length ns" "nkey (?ns ! i) \<noteq> VNil \<and> \<not> dead (nkey (?ns ! i))"
    show "h (nkey (?ns ! i)) < length ns \<and> reach ?ns (h (nkey (?ns ! i))) i
      \<and> nkey (?ns ! h (nkey (?ns ! i))) \<noteq> VNil
      \<and> (dead (nkey (?ns ! h (nkey (?ns ! i)))) \<or>
         h (nkey (?ns ! h (nkey (?ns ! i)))) = h (nkey (?ns ! i)))"
    proof (cases "i = fr")
      case True
      have "link ?ns mp fr" unfolding link by simp
      then show ?thesis using True mp k fr ne by (auto simp: key)
    next
      case False
      then show ?thesis using homes_okD [OF ok(3), of i] i mp k fr reach by (auto simp: key)
    qed
  qed
  moreover have "free_count ns \<le> Suc (free_count ?ns)"
    by (rule free_count_drop [where x = fr]) (auto simp: key)
  moreover have "\<forall>j<length ns. nkey (ns ! j) \<noteq> VNil \<longrightarrow> nkey (?ns ! j) \<noteq> VNil"
    using k(1) by (simp add: key)
  ultimately show ?thesis using links fr(1) v unfolding inserted_def by (simp add: key val)
qed

text \<open>
  Case A: the occupant is away from home. It moves to a free node, its predecessor is relinked
  there, and the new key gets the main position.
\<close>

lemma relocate_inserted:
  assumes ok: "links_ok ns" "keys_ok dead ns" "homes_ok h dead ns"
    and mp: "mp < length ns" "nkey (ns ! mp) \<noteq> VNil" "h k = mp" "h (nkey (ns ! mp)) \<noteq> mp"
      "\<not> dead (nkey (ns ! mp))"
    and fr: "fr < length ns" "nkey (ns ! fr) = VNil"
    and pr: "link ns prev mp"
    and k: "k \<noteq> VNil" "\<not> dead k" "\<not> is_nan_val k" "absent ns k"
  shows "inserted h dead ns k (ns[prev := (ns ! prev)\<lparr>nnext := Some fr\<rparr>, fr := ns ! mp,
                                 mp := node_empty\<lparr>nkey := k\<rparr>]) mp"
proof -
  let ?ns = "ns[prev := (ns ! prev)\<lparr>nnext := Some fr\<rparr>, fr := ns ! mp, mp := node_empty\<lparr>nkey := k\<rparr>]"
  have p: "prev < length ns" "nkey (ns ! prev) \<noteq> VNil" using links_okD [OF ok(1) pr] by auto
  have ne: "fr \<noteq> mp" "prev \<noteq> fr" "prev \<noteq> mp" using mp fr p pr links_ok_irrefl [OF ok(1)] by auto
  have key: "nkey (?ns ! i) = (if i = mp then k else if i = fr then nkey (ns ! mp) else nkey (ns ! i))"
    if "i < length ns" for i
    using that ne p mp(1) fr(1) by (auto simp: nth_list_update)
  have val: "nvalue (?ns ! i) = (if i = mp then VNil else if i = fr then nvalue (ns ! mp) else nvalue (ns ! i))"
    if "i < length ns" for i
    using that ne p mp(1) fr(1) by (auto simp: nth_list_update node_empty_def)
  have v: "nvalue (ns ! fr) = VNil" using fr keys_okD(4) [OF ok(2)] by blast
  have fr_out: "\<not> link ns fr j" and fr_in: "\<not> link ns j fr" for j
    using fr links_okD(3,4) [OF ok(1)] by blast+
  have link: "link ?ns i j \<longleftrightarrow> (if i = mp then False else if i = prev then j = fr
                           else if i = fr then link ns mp j else link ns i j)" for i j
    using ne mp fr p by (auto simp: link_def nth_list_update node_empty_def)
  have into: "link ns i mp \<Longrightarrow> i = prev" for i using links_ok_inj [OF ok(1)] pr by blast
  obtain rk :: "nat \<Rightarrow> nat" where rk: "\<forall>i j. link ns i j \<longrightarrow> rk j < rk i"
    using ok(1) by (auto simp: links_ok_def)
  define rk' where "rk' i = (if i = fr then rk mp else rk i)" for i
  have "rk' j < rk' i" if l: "link ?ns i j" for i j
  proof -
    have "rk j < rk i" if "link ns i j" using rk that by blast
    moreover have "rk j < rk mp" if "link ns mp j" using rk that by blast
    moreover have "rk mp < rk prev" using rk pr by blast
    ultimately show ?thesis using l ne fr_in fr_out unfolding link rk'_def by (auto split: if_splits)
  qed
  moreover have "i = i'" if "link ?ns i j" "link ?ns i' j" for i i' j
    using that links_ok_inj [OF ok(1)] ne fr_in unfolding link by (auto split: if_splits)
  moreover have "j < length ns \<and> nkey (?ns ! i) \<noteq> VNil \<and> nkey (?ns ! j) \<noteq> VNil" if "link ?ns i j" for i j
  proof -
    have "i < length ns" using that by (simp add: link_def)
    then show ?thesis using that links_okD(2,3,4) [OF ok(1)] fr mp p k(1) ne unfolding link
      by (auto simp: key split: if_splits)
  qed
  ultimately have links: "links_ok ?ns" unfolding links_ok_def length_list_update by blast
  have reach: "reach ?ns i (if j = mp then fr else j)" if "reach ns i j" "i \<noteq> mp" for i j
    using that(1)
  proof (induction rule: rtranclp_induct)
    case base
    then show ?case using that(2) by simp
  next
    case (step j l)
    have self: "j = mp \<Longrightarrow> l \<noteq> mp" and toprev: "l = mp \<longleftrightarrow> j = prev"
      using step(2) links_ok_irrefl [OF ok(1)] into link_fun [OF pr] pr link_fun by blast+
    have "j \<noteq> fr" using step(2) fr_out by blast
    then have "link ?ns (if j = mp then fr else j) (if l = mp then fr else l)"
      using step(2) ne self toprev unfolding link by auto
    then show ?case using step(3) by (rule rtranclp.rtrancl_into_rtrancl [rotated])
  qed
  let ?s = "\<lambda>i. if i = fr then mp else i"
  have mv: "\<forall>i<length ns. i \<noteq> mp \<longrightarrow> ?s i < length ns \<and> nkey (?ns ! i) = nkey (ns ! ?s i)
                \<and> nvalue (?ns ! i) = nvalue (ns ! ?s i)"
  proof (intro allI impI)
    fix i assume "i < length ns" "i \<noteq> mp"
    then show "?s i < length ns \<and> nkey (?ns ! i) = nkey (ns ! ?s i) \<and> nvalue (?ns ! i) = nvalue (ns ! ?s i)"
      using key [of i] val [of i] mp(1) by simp
  qed
  have inj: "\<forall>i<length ns. \<forall>j<length ns. i \<noteq> mp \<and> j \<noteq> mp \<and> ?s i = ?s j \<longrightarrow> i = j" by auto
  have cov: "\<forall>j<length ns. nvalue (ns ! j) \<noteq> VNil \<longrightarrow> (\<exists>i<length ns. i \<noteq> mp \<and> ?s i = j)"
  proof (intro allI impI)
    fix j assume j: "j < length ns" "nvalue (ns ! j) \<noteq> VNil"
    then have "j \<noteq> fr" using v by blast
    then show "\<exists>i<length ns. i \<noteq> mp \<and> ?s i = j"
      using fr(1) ne(1) j(1) by (intro exI [of _ "if j = mp then fr else j"]) simp
  qed
  have "keys_ok dead ?ns" "hents ?ns = hents ns" "nkey ` set ?ns \<subseteq> insert k (nkey ` set ns)"
    using keys_moved [OF ok(2) _ mp(1) _ _ k(4,3) mv inj cov] mp(1) by (simp_all add: key val node_empty_def)
  moreover have "homes_ok h dead ?ns" unfolding homes_ok_def length_list_update
  proof (intro allI impI)
    fix i assume i: "i < length ns" "nkey (?ns ! i) \<noteq> VNil \<and> \<not> dead (nkey (?ns ! i))"
    show "h (nkey (?ns ! i)) < length ns \<and> reach ?ns (h (nkey (?ns ! i))) i
      \<and> nkey (?ns ! h (nkey (?ns ! i))) \<noteq> VNil
      \<and> (dead (nkey (?ns ! h (nkey (?ns ! i)))) \<or>
         h (nkey (?ns ! h (nkey (?ns ! i)))) = h (nkey (?ns ! i)))"
    proof (cases "i = mp")
      case True
      then show ?thesis using mp k by (simp add: key)
    next
      case False
      define j where "j = (if i = fr then mp else i)"
      have j: "j < length ns" "nkey (?ns ! i) = nkey (ns ! j)" "j = mp \<longleftrightarrow> i = fr"
        using False i(1) mp(1) key [of i] by (simp_all add: j_def)
      note D = homes_okD [OF ok(3) j(1)]
      have jk: "nkey (ns ! j) \<noteq> VNil" "\<not> dead (nkey (ns ! j))" using i j by auto
      have hm: "h (nkey (ns ! j)) \<noteq> mp" "h (nkey (ns ! j)) \<noteq> fr" using D(3,4) [OF jk] mp fr by auto
      then have "reach ?ns (h (nkey (ns ! j))) i" using reach [OF D(2) [OF jk]] j(3) False
        by (auto simp: j_def split: if_splits)
      moreover have "nkey (?ns ! h (nkey (ns ! j))) = nkey (ns ! h (nkey (ns ! j)))"
        using key [OF D(1) [OF jk]] hm by simp
      ultimately show ?thesis unfolding j(2) using D [OF jk] by simp
    qed
  qed
  moreover have "free_count ns \<le> Suc (free_count ?ns)"
    by (rule free_count_drop [where x = fr]) (use mp in \<open>auto simp: key\<close>)
  moreover have "\<forall>j<length ns. nkey (ns ! j) \<noteq> VNil \<longrightarrow> nkey (?ns ! j) \<noteq> VNil"
  proof (intro allI impI)
    fix j assume "j < length ns" "nkey (ns ! j) \<noteq> VNil"
    then show "nkey (?ns ! j) \<noteq> VNil" using key [of j] mp(2) k(1) by (simp split: if_splits)
  qed
  ultimately show ?thesis using links mp(1) unfolding inserted_def
    by (simp add: key val node_empty_def)
qed

section \<open>The hashing interface\<close>

definition pow2_size :: "nat \<Rightarrow> bool" where
  "pow2_size n \<longleftrightarrow> (\<exists>l\<le>MAXBITS. n = 2 ^ l)"

locale hash_scheme =
  fixes home :: "'s \<Rightarrow> nat \<Rightarrow> Val \<Rightarrow> nat"
    and dead :: "'s \<Rightarrow> Val \<Rightarrow> bool"
  assumes home_range: "pow2_size n \<Longrightarrow> home s n k < n"
    and home_cong: "val_eq k k' \<Longrightarrow> home s n k = home s n k'"
    and dead_cong: "val_eq k k' \<Longrightarrow> dead s k = dead s k'"
begin

definition scattered :: "'s \<Rightarrow> node list \<Rightarrow> bool" where
  "scattered s ns \<longleftrightarrow> pow2_size (length ns) \<and> links_ok ns \<and> keys_ok (dead s) ns
     \<and> homes_ok (home s (length ns)) (dead s) ns"

text \<open>A walk from a live key's home ends and finds the key exactly if a node holds it.\<close>

lemma walk_finds:
  assumes "scattered s ns" "k \<noteq> VNil" "\<not> dead s k"
    and p: "\<And>k'. p k' \<longleftrightarrow> val_eq k' k"
  obtains (found) i where "chain_find (Suc (length ns)) ns p (Some (home s (length ns) k)) = Inr (Some i)"
      "i < length ns" "val_eq (nkey (ns ! i)) k"
    | (missing) "chain_find (Suc (length ns)) ns p (Some (home s (length ns) k)) = Inr None"
      "absent ns k"
proof -
  have ok: "links_ok ns" "keys_ok (dead s) ns" "homes_ok (home s (length ns)) (dead s) ns"
    and h: "home s (length ns) k < length ns"
    using assms(1) home_range by (auto simp: scattered_def)
  obtain r where r: "chain_find (Suc (length ns)) ns p (Some (home s (length ns) k)) = Inr r"
    "\<And>j. r = Some j \<Longrightarrow> j < length ns \<and> reach ns (home s (length ns) k) j \<and> p (nkey (ns ! j))"
    "r = None \<Longrightarrow> \<forall>j. reach ns (home s (length ns) k) j \<longrightarrow> \<not> p (nkey (ns ! j))"
    using chain_find_total [OF ok(1) h] by blast
  show ?thesis
  proof (cases r)
    case (Some i)
    then show ?thesis using found r p by blast
  next
    case None
    have "\<not> val_eq (nkey (ns ! i)) k" if "i < length ns" for i
    proof
      assume e: "val_eq (nkey (ns ! i)) k"
      then have "nkey (ns ! i) \<noteq> VNil" using assms(2) by (metis val_eq_nil(1))
      moreover have "\<not> dead s (nkey (ns ! i))" using e assms(3) dead_cong by blast
      ultimately have "reach ns (home s (length ns) (nkey (ns ! i))) i"
        using homes_okD(2) [OF ok(3) that] by blast
      then show False using home_cong [OF e] r(3) None e p by auto
    qed
    then show ?thesis using missing r(1) None by (auto simp: absent_def)
  qed
qed

text \<open>Changing the value of a live key keeps the chains.\<close>

lemma set_value_scattered:
  assumes "scattered s ns" "i < length ns" "nkey (ns ! i) \<noteq> VNil" "\<not> dead s (nkey (ns ! i))"
  shows "scattered s (ns[i := (ns ! i)\<lparr>nvalue := v\<rparr>])"
proof -
  let ?ns = "ns[i := (ns ! i)\<lparr>nvalue := v\<rparr>]"
  have eq: "nkey (?ns ! j) = nkey (ns ! j)" "nnext (?ns ! j) = nnext (ns ! j)" for j
    using assms(2) by (cases "j = i"; simp)+
  have link: "link ?ns = link ns" by (intro ext) (simp add: link_def eq)
  have "links_ok ?ns" using assms(1) unfolding scattered_def links_ok_def link length_list_update eq by blast
  moreover have "homes_ok (home s (length ns)) (dead s) ?ns"
    using assms(1) unfolding scattered_def homes_ok_def link length_list_update eq by blast
  moreover have "keys_ok (dead s) ?ns" unfolding keys_ok_def length_list_update eq
  proof (intro conjI)
    show "\<forall>j<length ns. dead s (nkey (ns ! j)) \<or> nkey (ns ! j) = VNil \<longrightarrow> nvalue (?ns ! j) = VNil"
      using assms by (auto simp: nth_list_update scattered_def keys_ok_def)
  qed (use assms(1) in \<open>auto simp: scattered_def keys_ok_def\<close>)
  ultimately show ?thesis using assms(1) by (simp add: scattered_def)
qed

end

definition dead_key :: "string_arena \<Rightarrow> Val \<Rightarrow> bool" where
  "dead_key strings k = (case k of VStr r \<Rightarrow> get strings r = None | _ \<Rightarrow> False)"

lemma hash_mod_range:
  assumes "pow2_size n" shows "unat (hash_mod w (word_of_nat n)) < n"
proof -
  obtain l where l: "l \<le> MAXBITS" "n = 2 ^ l" using assms by (auto simp: pow2_size_def)
  then have l32: "l < 32" by (simp add: MAXBITS_def)
  have w1: "(word_of_nat n :: u32) - 1 = mask l" using l by (simp add: mask_eq_exp_minus_1)
  show ?thesis
  proof (cases l)
    case 0
    then show ?thesis using l by (simp add: hash_mod_def)
  next
    case (Suc l')
    have d: "(mask l :: u32) OR 1 = mask l"
      using Suc l32 by (intro bit_word_eqI) (auto simp: bit_simps)
    have "(2::nat) ^ l < 2 ^ 32" using l32 by (intro power_strict_increasing) simp_all
    moreover have "(mask l :: u32) = of_nat (2 ^ l - 1)"
      by (simp add: mask_eq_exp_minus_1 of_nat_diff)
    ultimately have u: "unat (mask l :: u32) = 2 ^ l - 1"
      by (simp only: unsigned_of_nat) (simp add: take_bit_nat_eq_self)
    have "(2::nat) ^ l - 1 > 0" using Suc one_less_power [of "2::nat" l] by simp
    then have "unat (w mod mask l) < 2 ^ l - 1" using u by (simp add: unat_mod)
    moreover have "hash_mod w (word_of_nat n) = w mod mask l" by (simp only: hash_mod_def w1 d)
    ultimately show ?thesis unfolding l(2) by simp
  qed
qed

lemma hash_pow2_range:
  assumes "pow2_size n" shows "unat (hash_pow2 w (word_of_nat n)) < n"
proof -
  obtain l where l: "l \<le> MAXBITS" "n = 2 ^ l" using assms by (auto simp: pow2_size_def)
  then have l32: "l < 32" by (simp add: MAXBITS_def)
  have "(word_of_nat n :: u32) - 1 = mask l" using l by (simp add: mask_eq_exp_minus_1)
  then have "hash_pow2 w (word_of_nat n) = take_bit l w" by (simp add: hash_pow2_def take_bit_eq_mask)
  then show ?thesis using l l32 by (simp add: unsigned_take_bit_eq)
qed

lemma hash_number_cong: "f64_eq a b \<Longrightarrow> hash_number a = hash_number b"
  by (simp add: hash_number_def F64_ONE_def f64_add_one_cong)

interpretation hp: hash_scheme val_main_position dead_key
proof unfold_locales
  fix n s k assume n: "pow2_size n"
  then have "0 < n" by (auto simp: pow2_size_def)
  then show "val_main_position s n k < n"
    using hash_mod_range [OF n] hash_pow2_range [OF n]
    by (simp add: val_main_position_def Let_def split: Val.splits)
next
  fix k k' and s :: string_arena and n assume e: "val_eq k k'"
  then show "val_main_position s n k = val_main_position s n k'"
    by (cases k; cases k') (auto simp: val_main_position_def hash_number_cong)
  show "dead_key s k = dead_key s k'" using e by (cases k; cases k') (auto simp: dead_key_def)
qed

section \<open>The invariant of a table\<close>

definition table_inv :: "string_arena \<Rightarrow> table \<Rightarrow> bool" where
  "table_inv strings t \<longleftrightarrow>
     (if nodes t = [] then log2_size t = 0 \<and> last_free t = 0
      else log2_size t \<le> MAXBITS \<and> length (nodes t) = 2 ^ log2_size t
         \<and> last_free t \<le> length (nodes t)
         \<and> (\<forall>i. last_free t \<le> i \<and> i < length (nodes t) \<longrightarrow> nkey (nodes t ! i) \<noteq> VNil)
         \<and> hp.scattered strings (nodes t))
   \<and> (\<forall>n \<in> set (nodes t). array_slot t (nkey n) = None)
   \<and> length (arr t) \<le> MAXASIZE"

lemma table_inv_scattered:
  assumes "table_inv strings t" "nodes t \<noteq> []"
  shows "hp.scattered strings (nodes t)" "hash_size t = length (nodes t)"
    "log2_size t \<le> MAXBITS" "length (nodes t) = 2 ^ log2_size t" "last_free t \<le> length (nodes t)"
    "last_free t \<le> i \<Longrightarrow> i < length (nodes t) \<Longrightarrow> nkey (nodes t ! i) \<noteq> VNil"
  using assms by (auto simp: table_inv_def hash_size_def)

lemma table_inv_empty:
  "table_inv strings t \<Longrightarrow> nodes t = [] \<Longrightarrow> log2_size t = 0 \<and> last_free t = 0"
  by (simp add: table_inv_def)

lemma table_inv_arr:
  assumes "table_inv strings t"
  shows "n \<in> set (nodes t) \<Longrightarrow> array_slot t (nkey n) = None" "length (arr t) \<le> MAXASIZE"
  using assms by (auto simp: table_inv_def)

lemma table_inv_keys: "table_inv strings t \<Longrightarrow> keys_ok (dead_key strings) (nodes t)"
  by (cases "nodes t = []") (auto simp: keys_ok_def table_inv_def hp.scattered_def)

text \<open>The contents of a table, by a scan.\<close>

definition abs_get :: "table \<Rightarrow> Val \<Rightarrow> Val" where
  "abs_get t k = (case array_slot t k of Some i \<Rightarrow> arr t ! i | None \<Rightarrow> hash_lookup (nodes t) k)"

lemma search_spec:
  assumes "table_inv strings t" "nodes t \<noteq> []" "k \<noteq> VNil" "\<not> dead_key strings k"
    and p: "\<And>k'. p k' \<longleftrightarrow> val_eq k' k"
  obtains (found) i where "search t p (val_main_position strings (hash_size t) k) = Inr (Some i)"
      "i < length (nodes t)" "val_eq (nkey (nodes t ! i)) k"
      "hash_lookup (nodes t) k = nvalue (nodes t ! i)"
    | (missing) "search t p (val_main_position strings (hash_size t) k) = Inr None"
      "absent (nodes t) k" "hash_lookup (nodes t) k = VNil"
proof -
  note S = table_inv_scattered(1,2) [OF assms(1,2)]
  show ?thesis
  proof (rule hp.walk_finds [OF S(1) assms(3,4) p])
    fix i assume i: "chain_find (Suc (length (nodes t))) (nodes t) p
        (Some (val_main_position strings (length (nodes t)) k)) = Inr (Some i)"
      "i < length (nodes t)" "val_eq (nkey (nodes t ! i)) k"
    then show ?thesis
      using found S(2) hash_lookup_key [OF table_inv_keys [OF assms(1)] i(2,3) assms(3)]
      by (simp add: search_def)
  next
    assume n: "chain_find (Suc (length (nodes t))) (nodes t) p
        (Some (val_main_position strings (length (nodes t)) k)) = Inr None" "absent (nodes t) k"
    then have "hash_lookup (nodes t) k = VNil"
      by (intro hash_lookup_absent) (auto simp: absent_def in_set_conv_nth)
    then show ?thesis using missing n S(2) by (simp add: search_def)
  qed
qed

end
