(* ===== verification/TableOps.thy ===== *)
theory TableOps
  imports TableInv
begin

text \<open>
  What the operations of a table do, on every table that meets \<open>table_inv\<close>: a lookup reads the
  contents, an assignment changes one key of them and keeps the invariant through any rehash.
\<close>

section \<open>Lookup\<close>

lemma hash_lookup_dead:
  assumes "keys_ok (dead_key strings) ns" "dead_key strings k"
  shows "hash_lookup ns k = VNil"
proof (rule ccontr)
  assume "hash_lookup ns k \<noteq> VNil"
  then obtain k' where k': "val_eq k' k" "(k', hash_lookup ns k) \<in> hents ns"
    using hash_lookup_ents [OF assms(1)] by blast
  then obtain i where "i < length ns" "nkey (ns ! i) = k'" "nvalue (ns ! i) \<noteq> VNil"
    by (auto simp: hents_def in_set_conv_nth)
  then show False using keys_okD(3) [OF assms(1)] k'(1) assms(2) hp.dead_cong by metis
qed

lemma number_to_int_key_eq: "number_to_int_key n = Some k \<Longrightarrow> f64_eq (f64_of_int k) n"
  by (auto simp: number_to_int_key_def Let_def split: if_splits)

lemma is_zero_finite: "is_zero a \<Longrightarrow> is_finite a"
  by (simp add: is_zero_def is_finite_def INF_MAG_def)

lemma number_to_int_key_cong: "f64_eq a b \<Longrightarrow> number_to_int_key a = number_to_int_key b"
proof -
  assume e: "f64_eq a b"
  have "f64_eq x a = f64_eq x b" for x using e f64_eq_trans f64_eq_sym by blast
  moreover have "is_finite a = is_finite b" using f64_eq_cases [OF e] is_zero_finite by blast
  ultimately show ?thesis using f64_to_i64_cong [OF e] by (simp add: number_to_int_key_def)
qed

lemma array_slot_cong: "val_eq a b \<Longrightarrow> array_slot t a = array_slot t b"
  by (cases a; cases b) (auto simp: array_slot_def number_to_int_key_cong)

lemma array_slot_arr: "length (arr t) = length (arr t') \<Longrightarrow> array_slot t k = array_slot t' k"
  by (cases k) (auto simp: array_slot_def split: option.split)

lemma is_num_key_eq: "f64_eq m n \<Longrightarrow> is_num_key m v \<longleftrightarrow> val_eq v (VNum n)"
  by (cases v) (auto simp: is_num_key_def intro: f64_eq_trans f64_eq_sym [THEN iffD1])

lemma node_value_search:
  assumes "table_inv strings t" "nodes t \<noteq> []" "k \<noteq> VNil" "\<not> dead_key strings k"
    and p: "\<And>k'. p k' \<longleftrightarrow> val_eq k' k"
  shows "res_bind (search t p (val_main_position strings (hash_size t) k)) (\<lambda>oi. Inr (node_value t oi))
    = Inr (hash_lookup (nodes t) k)"
  by (rule search_spec [OF assms]) (simp_all add: node_value_def)

lemma get_hash_spec:
  assumes "table_inv strings t" "k \<noteq> VNil" "\<not> dead_key strings k"
  shows "get_hash t k strings = Inr (hash_lookup (nodes t) k)"
  using node_value_search [OF assms(1) _ assms(2,3), of "\<lambda>v. val_eq v k"]
  by (simp add: get_hash_def main_position_def)

lemma get_int_spec:
  assumes "table_inv strings t" "number_to_int_key n = Some k"
  shows "get_int t k = Inr (abs_get t (VNum n))"
proof -
  note e = number_to_int_key_eq [OF assms(2)]
  show ?thesis
    using node_value_search [OF assms(1), of "VNum n" "is_num_key (f64_of_int k)"] is_num_key_eq [OF e]
    by (auto simp: get_int_def abs_get_def array_slot_def assms(2) Let_def val_main_position_def
        hash_number_cong [OF e] dead_key_def)
qed

lemma get_str_spec:
  assumes "table_inv strings t"
  shows "get_str t r strings = Inr (abs_get t (VStr r))"
proof (cases "get strings r")
  case None
  then show ?thesis
    using hash_lookup_dead [OF table_inv_keys [OF assms], of "VStr r"]
    by (simp add: get_str_def abs_get_def array_slot_def dead_key_def)
next
  case (Some s)
  have "v = VStr r \<longleftrightarrow> val_eq v (VStr r)" for v by (cases v) auto
  then show ?thesis using node_value_search [OF assms, of "VStr r" "\<lambda>v. v = VStr r"] Some
    by (auto simp: get_str_def get_str_hashed_def abs_get_def array_slot_def dead_key_def
        val_main_position_def Let_def)
qed

lemma tget_spec:
  assumes "table_inv strings t"
  shows "tget t k strings = Inr (abs_get t k)"
proof (cases k)
  case VNil
  then show ?thesis using hash_lookup_nil [OF table_inv_keys [OF assms]]
    by (simp add: tget_def abs_get_def array_slot_def)
next
  case (VNum n)
  then show ?thesis using get_int_spec [OF assms] get_hash_spec [OF assms, of k]
    by (auto simp: tget_def abs_get_def array_slot_def dead_key_def split: option.splits)
qed (use get_str_spec [OF assms] get_hash_spec [OF assms, of k] in
     \<open>auto simp: tget_def abs_get_def array_slot_def dead_key_def\<close>)

lemma abs_get_cong:
  assumes "table_inv strings t" "val_eq a b" shows "abs_get t a = abs_get t b"
proof -
  have "val_eq k a \<longleftrightarrow> val_eq k b" for k using assms(2) val_eq_trans val_eq_sym by blast
  then have "hash_lookup ns a = hash_lookup ns b" for ns by (induction ns) auto
  then show ?thesis using array_slot_cong [OF assms(2)] by (simp add: abs_get_def split: option.splits)
qed

section \<open>Finding room\<close>

lemma free_pos_spec:
  "free_pos ns l = (r, l') \<Longrightarrow> l' \<le> l \<and> (\<forall>j. l' < j \<and> j < l \<longrightarrow> nkey (ns ! j) \<noteq> VNil)
    \<and> (case r of Some i \<Rightarrow> i = l' \<and> l' < l \<and> nkey (ns ! i) = VNil
              | None \<Rightarrow> l' = 0 \<and> (l > 0 \<longrightarrow> nkey (ns ! 0) \<noteq> VNil))"
proof (induction l arbitrary: r l')
  case (Suc l)
  show ?case
  proof (cases "nkey (ns ! l) = VNil")
    case True
    then show ?thesis using Suc.prems by auto
  next
    case False
    then have "free_pos ns l = (r, l')" using Suc.prems by simp
    from Suc.IH [OF this] False show ?thesis
      by (cases r; cases "l = 0") (auto simp: less_Suc_eq)
  qed
qed auto

lemma free_count_0:
  "(\<forall>j<length ns. nkey (ns ! j) \<noteq> VNil) \<Longrightarrow> free_count ns = 0"
  by (auto simp: free_count_def)

text \<open>Replacing the nodes by an insertion's result keeps the invariant of the table.\<close>

lemma table_inv_inserted:
  assumes inv: "table_inv strings t" "nodes t \<noteq> []"
    and ins: "inserted (val_main_position strings (length (nodes t))) (dead_key strings) (nodes t) k ns' i"
    and slot: "array_slot t k = None"
    and lf: "l \<le> last_free t" "\<forall>j. l < j \<and> j < last_free t \<longrightarrow> nkey (nodes t ! j) \<noteq> VNil"
      "l < last_free t \<longrightarrow> nkey (ns' ! l) \<noteq> VNil"
  shows "table_inv strings (t\<lparr>last_free := l, nodes := ns'\<rparr>)"
proof -
  note S = table_inv_scattered [OF inv]
  have len: "length ns' = length (nodes t)" "ns' \<noteq> []" using ins inv(2) by (auto simp: inserted_def)
  have "nkey (ns' ! j) \<noteq> VNil" if "l \<le> j" "j < length (nodes t)" for j
  proof -
    note jl = that
    consider "j = l" "l < last_free t" | "l < j" "j < last_free t" | "last_free t \<le> j"
      using jl by force
    then show ?thesis using lf S(6) jl ins by cases (auto simp: inserted_def)
  qed
  moreover have "hp.scattered strings ns'" using S(1) ins len by (auto simp: hp.scattered_def inserted_def)
  moreover have "array_slot t (nkey n) = None" if "n \<in> set ns'" for n
    using ins that slot table_inv_arr(1) [OF inv(1)] by (auto simp: inserted_def)
  moreover have "array_slot (t\<lparr>last_free := l, nodes := ns'\<rparr>) = array_slot t"
    by (intro ext array_slot_arr) simp
  ultimately show ?thesis using S(3,4,5) lf(1) len table_inv_arr(2) [OF inv(1)]
    by (simp add: table_inv_def)
qed

definition key_ok :: "string_arena \<Rightarrow> Val \<Rightarrow> bool" where
  "key_ok strings k \<longleftrightarrow> k \<noteq> VNil \<and> \<not> is_nan_val k \<and> \<not> dead_key strings k"

lemma node_collapse: "\<lparr>nkey = nkey (n :: node), nvalue = nvalue n, nnext = nnext n\<rparr> = n"
  by (cases n) simp

lemma new_key_spec:
  assumes inv: "table_inv strings t" "nodes t \<noteq> []"
    and k: "key_ok strings k" "absent (nodes t) k" "array_slot t k = None"
  obtains (placed) i ns' l where "new_key t k strings = (Inr i, t\<lparr>last_free := l, nodes := ns'\<rparr>)"
      "inserted (val_main_position strings (length (nodes t))) (dead_key strings) (nodes t) k ns' i"
      "table_inv strings (t\<lparr>last_free := l, nodes := ns'\<rparr>)"
    | (full) "new_key t k strings = (Inl (TErr ''table overflow''), t\<lparr>last_free := 0\<rparr>)"
      "table_inv strings (t\<lparr>last_free := 0\<rparr>)" "free_count (nodes t) = 0"
proof -
  note S = table_inv_scattered [OF inv]
  let ?h = "val_main_position strings (length (nodes t))" and ?ns = "nodes t"
  have ok: "links_ok ?ns" "keys_ok (dead_key strings) ?ns" "homes_ok ?h (dead_key strings) ?ns"
    and p2: "pow2_size (length ?ns)"
    using S(1) by (auto simp: hp.scattered_def)
  define mp where "mp = ?h k"
  have mp: "mp < length ?ns" using hp.home_range [OF p2] by (simp add: mp_def)
  have kk: "k \<noteq> VNil" "\<not> dead_key strings k" "\<not> is_nan_val k" using k(1) by (auto simp: key_ok_def)
  have hs: "hash_size (t\<lparr>last_free := l\<rparr>) = hash_size t" for l by (simp add: hash_size_def)
  have mpos: "main_position t k' strings = ?h k'" "main_position (t\<lparr>last_free := l\<rparr>) k' strings = ?h k'"
    for k' l using S(2) by (simp_all add: main_position_def hs)
  have dead: "dead_occupant strings (?ns ! mp) \<longleftrightarrow> dead_key strings (nkey (?ns ! mp))"
    using keys_okD(3) [OF ok(2) mp] by (auto simp: dead_occupant_def dead_key_def split: Val.splits)
  note unf = new_key_def [of t k strings] Let_def inv(2) mpos mp_def [symmetric] dead is_nil_iff if_False if_True
  show ?thesis
  proof (cases "nkey (?ns ! mp) = VNil \<or> dead_key strings (nkey (?ns ! mp))")
    case True
    let ?ns' = "?ns[mp := (?ns ! mp)\<lparr>nkey := k\<rparr>]"
    have ins: "inserted ?h (dead_key strings) ?ns k ?ns' mp"
      using place_inserted [OF ok mp True mp_def [symmetric] kk k(2)] .
    have e: "new_key t k strings = (Inr mp, t\<lparr>last_free := last_free t, nodes := ?ns'\<rparr>)"
      using True inv(2) by (simp only: unf) simp
    show ?thesis by (rule placed [OF e ins table_inv_inserted [OF inv ins k(3)]]) auto
  next
    case False
    obtain r l where r: "free_pos ?ns (last_free t) = (r, l)" by fastforce
    note F = free_pos_spec [OF r]
    note G = get_free_pos_def [of t] r prod.case
    show ?thesis
    proof (cases r)
      case None
      have "nkey (?ns ! j) \<noteq> VNil" if "j < length ?ns" for j
        using F None S(6) [of j] that by (cases "last_free t \<le> j"; cases j) auto
      moreover from this have "table_inv strings (t\<lparr>last_free := 0\<rparr>)"
        using inv S(1,3-5) table_inv_arr [OF inv(1)]
        by (simp add: table_inv_def array_slot_arr [of "t\<lparr>last_free := 0\<rparr>" t])
      moreover have r': "free_pos ?ns (last_free t) = (None, 0)" using r F None by simp
      have "new_key t k strings = (Inl (TErr ''table overflow''), t\<lparr>last_free := 0\<rparr>)"
        using False inv(2) by (simp only: unf get_free_pos_def [of t] r' prod.case) simp
      ultimately show ?thesis using full free_count_0 by auto
    next
      case (Some fr)
      have fr: "fr < length ?ns" "nkey (?ns ! fr) = VNil" "fr = l" "l < last_free t"
        using F Some S(5) by auto
      show ?thesis
      proof (cases "?h (nkey (?ns ! mp)) = mp")
        case True
        let ?ns' = "?ns[fr := (?ns ! fr)\<lparr>nnext := nnext (?ns ! mp), nkey := k\<rparr>,
                                       mp := (?ns ! mp)\<lparr>nnext := Some fr\<rparr>]"
        have ins: "inserted ?h (dead_key strings) ?ns k ?ns' fr"
          using chain_after_inserted [OF ok mp _ mp_def [symmetric] True fr(1,2) kk k(2)] False by blast
        have "new_key t k strings = (Inr fr, t\<lparr>last_free := l, nodes := ?ns'\<rparr>)"
          using False True Some inv(2) by (simp only: unf G) simp
        moreover have "nkey (?ns' ! l) \<noteq> VNil" using ins fr(3) kk(1) by (simp add: inserted_def)
        ultimately show ?thesis using ins table_inv_inserted [OF inv ins k(3), of l] F fr(4)
          by (intro placed) auto
      next
        case neq: False
        have "reach ?ns (?h (nkey (?ns ! mp))) mp" using homes_okD(2) [OF ok(3) mp] False by blast
        then obtain prev where prev: "find_pred (Suc (length ?ns)) ?ns mp (?h (nkey (?ns ! mp))) = Inr prev"
          "link ?ns prev mp"
          using find_pred_total [OF ok(1) hp.home_range [OF p2] _ neq] by blast
        then have pm: "prev \<noteq> mp" using links_ok_irrefl [OF ok(1)] by blast
        let ?ns' = "?ns[prev := (?ns ! prev)\<lparr>nnext := Some fr\<rparr>, fr := ?ns ! mp, mp := node_empty\<lparr>nkey := k\<rparr>]"
        have ins: "inserted ?h (dead_key strings) ?ns k ?ns' mp"
          using relocate_inserted [OF ok mp _ mp_def [symmetric] neq _ fr(1,2) prev(2) kk k(2)] False by blast
        have "new_key t k strings = (Inr mp, t\<lparr>last_free := l, nodes := ?ns'\<rparr>)"
          using False neq Some inv(2) pm
          by (simp only: unf G prev(1) option.case sum.case if_False de_Morgan_disj simp_thms) (simp add: node_collapse)
        moreover have "nkey (?ns' ! l) \<noteq> VNil"
        proof -
          have "fr \<noteq> mp" using fr(2) False by auto
          then show ?thesis using fr False by simp
        qed
        ultimately show ?thesis using ins table_inv_inserted [OF inv ins k(3), of l] F fr(4)
          by (intro placed) auto
      qed
    qed
  qed
qed

section \<open>Array slots\<close>

lemma f64_to_i64_range: "- (2 ^ 63) \<le> f64_to_i64 x" "f64_to_i64 x < 2 ^ 63"
  by (auto simp: f64_to_i64_def I64_MIN_def I64_MAX_def)

lemma array_slot_Some:
  "array_slot t k = Some i \<longleftrightarrow> (\<exists>n j. k = VNum n \<and> number_to_int_key n = Some j
     \<and> int_index j = i \<and> i < length (arr t))"
  by (cases k) (auto simp: array_slot_def split: option.splits)

lemma int_index_inj:
  assumes "int_index a = int_index b" "- (2 ^ 63) \<le> a" "a < 2 ^ 63" "- (2 ^ 63) \<le> b" "b < 2 ^ 63"
  shows "a = b"
proof -
  have "(a - 1) mod 2 ^ 64 = (b - 1) mod 2 ^ 64" using assms(1) by (simp add: int_index_def)
  then have "(2::int) ^ 64 dvd (a - 1) - (b - 1)" by (simp only: mod_eq_dvd_iff)
  then have "(2::int) ^ 64 dvd a - b" by simp
  moreover have "\<bar>a - b\<bar> < 2 ^ 64" using assms by simp
  ultimately show ?thesis using dvd_imp_le_int [of "a - b" "2 ^ 64"] by force
qed

lemma number_to_int_key_range: "number_to_int_key n = Some k \<Longrightarrow> - (2 ^ 63) \<le> k \<and> k < 2 ^ 63"
  using f64_to_i64_range [of n] by (auto simp: number_to_int_key_def Let_def split: if_splits)

lemma int_index_of_key:
  "number_to_int_key m = Some a \<Longrightarrow> number_to_int_key n = Some b \<Longrightarrow> int_index a = int_index b \<longleftrightarrow> f64_eq m n"
proof -
  assume m: "number_to_int_key m = Some a" and n: "number_to_int_key n = Some b"
  have "f64_eq m n" if "a = b"
    using number_to_int_key_eq [OF m] number_to_int_key_eq [OF n] that f64_eq_trans f64_eq_sym by blast
  moreover have "a = b" if "f64_eq m n" using number_to_int_key_cong [OF that] m n by simp
  moreover have "a = b" if "int_index a = int_index b"
    using int_index_inj [OF that] number_to_int_key_range [OF m] number_to_int_key_range [OF n] by simp
  ultimately show ?thesis by blast
qed

lemma array_slot_inj:
  assumes "array_slot t a = Some i" shows "array_slot t b = Some i \<longleftrightarrow> val_eq b a"
proof
  show "array_slot t b = Some i" if "val_eq b a" using array_slot_cong [OF that] assms by simp
  assume "array_slot t b = Some i"
  then obtain m n x y where b: "b = VNum m" "number_to_int_key m = Some x" "int_index x = i"
    and a: "a = VNum n" "number_to_int_key n = Some y" "int_index y = i"
    using assms by (auto simp: array_slot_Some)
  then show "val_eq b a" using int_index_of_key [OF b(2) a(2)] by simp
qed

lemma int_index_nat: "1 \<le> k \<Longrightarrow> k < 2 ^ 63 \<Longrightarrow> int_index k = nat k - 1"
  by (simp add: int_index_def nat_diff_distrib)

lemma number_to_int_key_of_int: "\<bar>k\<bar> < 2 ^ 53 \<Longrightarrow> number_to_int_key (f64_of_int k) = Some k"
  using f64_of_int_finite [of k] f64_to_i64_of_int [of k]
  by (auto simp: number_to_int_key_def f64_eq_refl is_finite_def is_nan_def)

lemma array_slot_of_int:
  assumes "i < MAXASIZE"
  shows "array_slot t (VNum (f64_of_int (int (i + 1)))) = (if i < length (arr t) then Some i else None)"
proof -
  have "\<bar>int (i + 1)\<bar> < 2 ^ 53" using assms by (simp add: MAXASIZE_def MAXBITS_def)
  moreover from this have "int_index (int (i + 1)) = i" using int_index_nat [of "int (i + 1)"] by simp
  ultimately show ?thesis using number_to_int_key_of_int [of "int (i + 1)"] by (simp add: array_slot_def)
qed

section \<open>Assignment without a rehash\<close>

lemma table_inv_frame:
  assumes "nodes t' = nodes t" "last_free t' = last_free t" "log2_size t' = log2_size t"
    "length (arr t') = length (arr t)"
  shows "table_inv strings t' = table_inv strings t"
  unfolding table_inv_def assms array_slot_arr [OF assms(4)] ..

definition same_rest :: "table \<Rightarrow> table \<Rightarrow> bool" where
  "same_rest t t' \<longleftrightarrow> tmeta t' = tmeta t \<and> tflags t' = tflags t \<and> backing t' = backing t
     \<and> slot_taint t' = slot_taint t \<and> security_flags t' = security_flags t \<and> read_only t' = read_only t"

lemma same_rest_trans: "same_rest t t' \<Longrightarrow> same_rest t' t'' \<Longrightarrow> same_rest t t''"
  by (simp add: same_rest_def)

definition set_done :: "string_arena \<Rightarrow> table \<Rightarrow> Val \<Rightarrow> Val \<Rightarrow> table \<Rightarrow> bool" where
  "set_done strings t k v t' \<longleftrightarrow> table_inv strings t' \<and> same_rest t t' \<and> length (arr t) \<le> length (arr t')
     \<and> (\<forall>k'. abs_get t' k' = (if val_eq k' k then v else abs_get t k'))"

lemma set_done_array:
  assumes "table_inv strings t" "array_slot t k = Some i"
  shows "set_done strings t k v (t\<lparr>arr := (arr t)[i := v]\<rparr>)"
proof -
  let ?t = "t\<lparr>arr := (arr t)[i := v]\<rparr>"
  have sl: "array_slot ?t k' = array_slot t k'" for k'
    by (cases k') (auto simp: array_slot_def split: option.split)
  have "i < length (arr t)" using assms(2) by (auto simp: array_slot_Some)
  then have "abs_get ?t k' = (if val_eq k' k then v else abs_get t k')" for k'
    using array_slot_inj [OF assms(2), of k'] by (auto simp: abs_get_def sl nth_list_update split: option.split)
  moreover have "table_inv strings ?t" using assms(1) table_inv_frame [of ?t t] by simp
  ultimately show ?thesis by (simp add: set_done_def same_rest_def)
qed

lemma hash_lookup_skip:
  "\<not> val_eq (nkey (ns ! i)) k \<Longrightarrow> hash_lookup (ns[i := (ns ! i)\<lparr>nvalue := v\<rparr>]) k = hash_lookup ns k"
  by (induction ns arbitrary: i) (auto split: nat.split)

lemma hash_lookup_update:
  assumes "keys_ok dead ns" "i < length ns" "val_eq (nkey (ns ! i)) k" "k \<noteq> VNil"
  shows "hash_lookup (ns[i := (ns ! i)\<lparr>nvalue := v\<rparr>]) k' = (if val_eq k' k then v else hash_lookup ns k')"
proof -
  have only: "j = i" if "j < length ns" "val_eq (nkey (ns ! j)) k" for j
    using keys_ok_only [OF assms(1,2) that(1) assms(4,3)] that(2) by simp
  let ?ns = "ns[i := (ns ! i)\<lparr>nvalue := v\<rparr>]"
  have key: "nkey (?ns ! j) = nkey (ns ! j)" for j using assms(2) by (cases "j = i") simp_all
  show ?thesis
  proof (cases "val_eq k' k")
    case True
    then have e: "val_eq x k' \<longleftrightarrow> val_eq x k" for x using val_eq_trans val_eq_sym by blast
    have "hash_lookup ?ns k' = nvalue (?ns ! i)"
    proof (rule hash_lookup_at)
      show "\<forall>j<length ?ns. j \<noteq> i \<longrightarrow> \<not> val_eq (nkey (?ns ! j)) k'" unfolding key e using only by auto
    qed (use assms(2,3) in \<open>simp_all add: e\<close>)
    then show ?thesis using True assms(2) by simp
  next
    case False
    then have ne: "\<not> val_eq (nkey (ns ! i)) k'" using assms(3) val_eq_trans val_eq_sym by blast
    have "hash_lookup ?ns k' = hash_lookup ns k'" by (rule hash_lookup_skip [OF ne])
    then show ?thesis using False by simp
  qed
qed

lemma set_done_update:
  assumes "table_inv strings t" "array_slot t k = None" "k \<noteq> VNil" "\<not> dead_key strings k"
    "i < length (nodes t)" "val_eq (nkey (nodes t ! i)) k"
  shows "set_done strings t k v (set_node_value t i v)"
proof -
  have ne: "nodes t \<noteq> []" using assms(5) by auto
  note S = table_inv_scattered [OF assms(1) ne]
  let ?ns = "(nodes t)[i := (nodes t ! i)\<lparr>nvalue := v\<rparr>]"
  have ki: "nkey (nodes t ! i) \<noteq> VNil" "\<not> dead_key strings (nkey (nodes t ! i))"
    using assms(3,4,6) hp.dead_cong by (metis val_eq_nil(1), metis)
  have sl: "array_slot (set_node_value t i v) = array_slot t"
    by (intro ext array_slot_arr) (simp add: set_node_value_def)
  have key: "nkey (?ns ! j) = nkey (nodes t ! j)" for j using assms(5) by (cases "j = i") simp_all
  have "nkey n \<in> nkey ` set (nodes t)" if "n \<in> set ?ns" for n
    using that key unfolding in_set_conv_nth by (metis imageI length_list_update nth_mem)
  then have "array_slot t (nkey n) = None" if "n \<in> set ?ns" for n
    using that table_inv_arr(1) [OF assms(1)] by (metis imageE)
  moreover have "hp.scattered strings ?ns" using hp.set_value_scattered [OF S(1) assms(5) ki] .
  ultimately have "table_inv strings (set_node_value t i v)"
    using S(3-6) ne table_inv_arr(2) [OF assms(1)] unfolding table_inv_def sl
    by (simp add: set_node_value_def key)
  moreover have "abs_get (set_node_value t i v) k' = (if val_eq k' k then v else abs_get t k')" for k'
  proof (cases "array_slot t k'")
    case None
    then have "abs_get (set_node_value t i v) k' = hash_lookup ?ns k'" unfolding abs_get_def sl
      by (simp add: set_node_value_def)
    then show ?thesis using hash_lookup_update [OF table_inv_keys [OF assms(1)] assms(5,6,3)] None
      by (simp add: abs_get_def)
  next
    case (Some j)
    then have "abs_get (set_node_value t i v) k' = arr t ! j" unfolding abs_get_def sl
      by (simp add: set_node_value_def)
    then show ?thesis using array_slot_cong [of k' k t] assms(2) Some by (auto simp: abs_get_def)
  qed
  ultimately show ?thesis by (simp add: set_done_def same_rest_def set_node_value_def)
qed

lemma absent_hash_lookup: "absent ns k \<Longrightarrow> hash_lookup ns k = VNil"
  by (intro hash_lookup_absent) (auto simp: absent_def in_set_conv_nth)

lemma set_done_append:
  assumes inv: "table_inv strings t" and k: "dense_array_append_index t k \<noteq> None" "absent (nodes t) k"
  shows "set_done strings t k v (t\<lparr>arr := arr t @ [v]\<rparr>)"
proof -
  let ?t = "t\<lparr>arr := arr t @ [v]\<rparr>" and ?len = "length (arr t)"
  obtain n j where kn: "k = VNum n" "number_to_int_key n = Some j" "0 \<le> j" "nat j = ?len + 1" "?len + 1 \<le> MAXASIZE"
    using k(1) by (auto simp: dense_array_append_index_def split: Val.splits option.splits if_splits)
  have ix: "int_index j = ?len" using int_index_nat [of j] kn by (simp add: MAXASIZE_def MAXBITS_def)
  then have new: "array_slot ?t k = Some ?len" using kn by (simp add: array_slot_def)
  have keep: "array_slot ?t k' = Some i \<longleftrightarrow> array_slot t k' = Some i" if "i < ?len" for k' i
    using that by (simp add: array_slot_Some)
  have le: "array_slot ?t k' = Some i \<Longrightarrow> i \<le> ?len" "array_slot t k' = Some i \<Longrightarrow> i < ?len" for k' i
    by (auto simp: array_slot_Some)
  have sl: "array_slot ?t k' = (if val_eq k' k then Some ?len else array_slot t k')" for k'
  proof (cases "val_eq k' k")
    case True
    then show ?thesis using array_slot_cong new by simp
  next
    case False
    then have "array_slot ?t k' \<noteq> Some ?len" using array_slot_inj [OF new] by simp
    then show ?thesis using False keep le by (metis le_neq_implies_less option.collapse)
  qed
  have out: "array_slot t k = None" using kn ix by (simp add: array_slot_def)
  have "array_slot ?t (nkey n) = None" if "n \<in> set (nodes t)" for n
    using that sl table_inv_arr(1) [OF inv that] k(2) by (auto simp: absent_def in_set_conv_nth)
  then have "table_inv strings ?t" using inv kn(5) by (auto simp: table_inv_def)
  moreover have "abs_get ?t k' = (if val_eq k' k then v else abs_get t k')" for k'
    using sl [of k'] le(2) [of k'] by (cases "val_eq k' k") (auto simp: abs_get_def nth_append split: option.split)
  ultimately show ?thesis by (simp add: set_done_def same_rest_def)
qed

lemma fresh_inv:
  assumes "l \<le> MAXBITS" "length (arr t) \<le> MAXASIZE"
  shows "table_inv strings (t\<lparr>nodes := replicate (2 ^ l) node_empty, last_free := 2 ^ l, log2_size := l\<rparr>)"
    "free_count (replicate (2 ^ l) node_empty) = 2 ^ l"
    "hash_lookup (replicate n node_empty) k = VNil" "absent (replicate n node_empty) k \<longleftrightarrow> k \<noteq> VNil \<or> n = 0"
proof -
  let ?ns = "replicate (2 ^ l) node_empty :: node list"
  have e: "nkey node_empty = VNil" "nvalue node_empty = VNil" "nnext node_empty = None"
    by (simp_all add: node_empty_def)
  have "hp.scattered strings ?ns" unfolding hp.scattered_def
    using assms(1) by (auto simp: pow2_size_def links_ok_def link_def keys_ok_def homes_ok_def e is_nan_val_def)
  then show "table_inv strings (t\<lparr>nodes := ?ns, last_free := 2 ^ l, log2_size := l\<rparr>)"
    using assms by (auto simp: table_inv_def array_slot_def e)
  have "{i. i < 2 ^ l \<and> nkey (?ns ! i) = VNil} = {..<2 ^ l}" by (auto simp: e)
  then show "free_count ?ns = 2 ^ l" by (simp add: free_count_def)
  show "hash_lookup (replicate n node_empty) k = VNil" by (induction n) (auto simp: e)
  show "absent (replicate n node_empty) k \<longleftrightarrow> k \<noteq> VNil \<or> n = 0"
    by (auto simp: absent_def e simp del: val_eq.simps)
qed

lemma set_node_value_free: "free_count (nodes (set_node_value t i v)) = free_count (nodes t)"
proof (cases "i < length (nodes t)")
  case True
  then have "nkey ((nodes t)[i := (nodes t ! i)\<lparr>nvalue := v\<rparr>] ! j) = nkey (nodes t ! j)" for j
    by (cases "j = i") simp_all
  then show ?thesis by (simp add: free_count_def set_node_value_def)
qed (simp add: set_node_value_def list_update_beyond)

lemma set_done_inserted:
  assumes inv: "table_inv strings t"
    and ins: "inserted h (dead_key strings) (nodes t) k ns' i"
    and inv': "table_inv strings (t\<lparr>last_free := l, nodes := ns'\<rparr>)"
    and k: "key_ok strings k" "array_slot t k = None"
  shows "set_done strings t k v (set_node_value (t\<lparr>last_free := l, nodes := ns'\<rparr>) i v)"
    "free_count (nodes t) \<le> Suc (free_count (nodes (set_node_value (t\<lparr>last_free := l, nodes := ns'\<rparr>) i v)))"
    "length (nodes (set_node_value (t\<lparr>last_free := l, nodes := ns'\<rparr>) i v)) = length (nodes t)"
proof -
  let ?t = "t\<lparr>last_free := l, nodes := ns'\<rparr>"
  have sl: "array_slot ?t k' = array_slot t k'" for k' by (rule array_slot_arr) simp
  have i: "i < length (nodes ?t)" "nkey (nodes ?t ! i) = k" using ins by (simp_all add: inserted_def)
  have "val_eq k k" using k by (simp add: key_ok_def val_eq_refl)
  then have d: "set_done strings ?t k v (set_node_value ?t i v)"
    using set_done_update [OF inv' _ _ _ i(1)] i(2) k by (simp add: sl key_ok_def)
  have "hash_lookup (nodes ?t) k' = hash_lookup (nodes t) k'" for k'
    by (rule hash_lookup_cong [OF table_inv_keys [OF inv'] table_inv_keys [OF inv]])
      (use ins in \<open>simp add: inserted_def\<close>)
  then have "abs_get ?t k' = abs_get t k'" for k'
    unfolding abs_get_def sl by (auto split: option.split)
  then show "set_done strings t k v (set_node_value ?t i v)"
    using d by (simp add: set_done_def same_rest_def set_node_value_def)
  show "free_count (nodes t) \<le> Suc (free_count (nodes (set_node_value ?t i v)))"
    using ins by (simp add: set_node_value_free inserted_def)
  show "length (nodes (set_node_value ?t i v)) = length (nodes t)"
    using ins by (simp add: set_node_value_def inserted_def)
qed

lemma insert_first_spec:
  assumes inv: "table_inv strings t" and k: "key_ok strings k" "array_slot t k = None" "nodes t = []"
  shows "\<exists>t'. insert_first_hash_node t k v strings = (t', True) \<and> set_done strings t k v t'
    \<and> estimated_memory t' = estimated_memory t + 64"
proof -
  let ?t = "t\<lparr>nodes := replicate 2 node_empty, last_free := 2, log2_size := 1\<rparr>" and ?ns = "replicate 2 node_empty"
  let ?b = "val_main_position strings 2 k" and ?n = "node_empty\<lparr>nkey := k\<rparr>"
  have kk: "k \<noteq> VNil" "\<not> is_nan_val k" "\<not> dead_key strings k" using k by (auto simp: key_ok_def)
  have m: "1 \<le> MAXBITS" by (simp add: MAXBITS_def)
  note fresh = fresh_inv [OF m table_inv_arr(2) [OF inv]]
  have inv1: "table_inv strings ?t" using fresh(1) by simp
  have b: "?b < 2" by (rule hp.home_range) (auto simp: pow2_size_def MAXBITS_def intro: exI [of _ 1])
  have sl: "array_slot ?t = array_slot t" by (intro ext array_slot_arr) simp
  have S: "hp.scattered strings ?ns" using table_inv_scattered(1) [OF inv1] by simp
  have ins: "inserted (val_main_position strings (length ?ns)) (dead_key strings) ?ns k
      (?ns[?b := (?ns ! ?b)\<lparr>nkey := k\<rparr>]) ?b"
    by (rule place_inserted) (use S b kk fresh(4) in \<open>auto simp: hp.scattered_def node_empty_def\<close>)
  have nb: "?ns ! ?b = node_empty" using b by (rule nth_replicate)
  have "inserted (val_main_position strings 2) (dead_key strings) ?ns k (?ns[?b := ?n]) ?b"
    using ins unfolding nb length_replicate .
  then have ins': "inserted (val_main_position strings 2) (dead_key strings) (nodes ?t) k (?ns[?b := ?n]) ?b"
    by simp
  have inv2: "table_inv strings (?t\<lparr>last_free := 2, nodes := ?ns[?b := ?n]\<rparr>)"
    by (rule table_inv_inserted [OF inv1]) (use ins' sl k in \<open>auto simp: numeral_2_eq_2\<close>)
  let ?t' = "set_node_value (?t\<lparr>last_free := 2, nodes := ?ns[?b := ?n]\<rparr>) ?b v"
  have "set_done strings ?t k v ?t'"
    using set_done_inserted(1) [OF inv1 ins' inv2] k sl by simp
  moreover have "abs_get ?t k' = abs_get t k'" for k'
    using k(3) fresh(3) [of 2 k'] unfolding abs_get_def sl by (simp split: option.split)
  ultimately have "set_done strings t k v ?t'" by (simp add: set_done_def same_rest_def set_node_value_def)
  moreover have "insert_first_hash_node t k v strings = (?t', True)"
    using b k(3) by (simp add: insert_first_hash_node_def main_position_def hash_size_def set_node_value_def Let_def)
  moreover have "estimated_memory ?t' = estimated_memory t + 64"
    using k(3) table_inv_empty [OF inv k(3)] by (simp add: estimated_memory_def hash_size_def set_node_value_def)
  ultimately show ?thesis by blast
qed

lemma raw_set_body_spec:
  assumes inv: "table_inv strings t" and k: "key_ok strings k"
  obtains (stored) d t' where "raw_set_body full t k v strings = (Inr d, t')" "set_done strings t k v t'"
      "estimated_memory t' = estimated_memory t + d"
      "free_count (nodes t) \<le> free_count (nodes t') + (if array_slot t k = None then 1 else 0)"
    | (full) "raw_set_body full t k v strings = full (t\<lparr>last_free := 0\<rparr>) (TErr ''table overflow'')"
      "table_inv strings (t\<lparr>last_free := 0\<rparr>)" "nodes t \<noteq> []" "free_count (nodes t) = 0"
      "array_slot t k = None" "absent (nodes t) k" "v \<noteq> VNil"
proof -
  have kk: "k \<noteq> VNil" "\<not> is_nan_val k" "\<not> dead_key strings k" using k by (auto simp: key_ok_def)
  note start = raw_set_body_def [of full t k v strings] is_nil_iff kk(1,2) if_False
  show ?thesis
  proof (cases "array_slot t k")
    case (Some i)
    let ?t = "t\<lparr>arr := (arr t)[i := v]\<rparr>"
    have "raw_set_body full t k v strings = (Inr 0, ?t)" using Some by (simp only: start option.case)
    moreover have "estimated_memory ?t = estimated_memory t + 0"
      by (simp add: estimated_memory_def hash_size_def)
    ultimately show ?thesis using set_done_array [OF inv Some] by (intro stored) auto
  next
    case out: None
    have upd: "update_existing_hash_slot t k v strings =
      (if nodes t = [] then Inr (t, False)
       else res_bind (search t (\<lambda>x. val_eq x k) (val_main_position strings (hash_size t) k))
         (\<lambda>oi. case oi of None \<Rightarrow> Inr (t, False) | Some i \<Rightarrow> Inr (set_node_value t i v, True)))"
      unfolding update_existing_hash_slot_def main_position_def set_node_value_def ..
    have "(\<exists>i. i < length (nodes t) \<and> val_eq (nkey (nodes t ! i)) k
             \<and> update_existing_hash_slot t k v strings = Inr (set_node_value t i v, True))
        \<or> absent (nodes t) k \<and> update_existing_hash_slot t k v strings = Inr (t, False)"
    proof (cases "nodes t = []")
      case True
      then show ?thesis by (simp add: upd absent_def)
    next
      case False
      show ?thesis
        by (rule search_spec [OF inv False kk(1,3), of "\<lambda>x. val_eq x k"]) (auto simp: upd False)
    qed
    then consider (hit) i where "i < length (nodes t)" "val_eq (nkey (nodes t ! i)) k"
        "update_existing_hash_slot t k v strings = Inr (set_node_value t i v, True)"
      | (miss) "absent (nodes t) k" "update_existing_hash_slot t k v strings = Inr (t, False)" by blast
    then show ?thesis
    proof cases
      case hit
      have "raw_set_body full t k v strings = (Inr 0, set_node_value t i v)"
        by (simp only: start out option.case hit(3) sum.case prod.case if_True)
      moreover have "estimated_memory (set_node_value t i v) = estimated_memory t + 0"
        by (simp add: estimated_memory_def hash_size_def set_node_value_def)
      ultimately show ?thesis using set_done_update [OF inv out kk(1,3) hit(1,2)]
        by (intro stored) (auto simp: set_node_value_free)
    next
      case miss
      note start2 = start out option.case miss(2) sum.case prod.case if_False
      have look: "abs_get t k = VNil" using absent_hash_lookup [OF miss(1)] out by (simp add: abs_get_def)
      show ?thesis
      proof (cases "v = VNil")
        case True
        have "raw_set_body full t k v strings = (Inr 0, t)" by (simp only: start2) (simp only: True if_True simp_thms)
        moreover have "set_done strings t k v t"
          using inv look abs_get_cong [OF inv] True by (auto simp: set_done_def same_rest_def)
        ultimately show ?thesis by (intro stored) auto
      next
        case nv: False
        note start3 = start2 nv
        show ?thesis
        proof (cases "dense_array_append_index t k \<noteq> None")
          case True
          have "raw_set_body full t k v strings = (Inr 16, t\<lparr>arr := arr t @ [v]\<rparr>)"
            using True by (simp only: start3 if_True not_False_eq_True simp_thms)
          moreover have "estimated_memory (t\<lparr>arr := arr t @ [v]\<rparr>) = estimated_memory t + 16"
            by (simp add: estimated_memory_def hash_size_def)
          ultimately show ?thesis using set_done_append [OF inv True miss(1)] by (intro stored) auto
        next
          case nd: False
          note start4 = start3 nd
          show ?thesis
          proof (cases "nodes t = []")
            case True
            obtain t' where "insert_first_hash_node t k v strings = (t', True)" "set_done strings t k v t'"
              "estimated_memory t' = estimated_memory t + 64"
              using insert_first_spec [OF inv k out True] by blast
            moreover from this have "raw_set_body full t k v strings = (Inr 64, t')"
              by (simp only: start4 prod.case if_True not_False_eq_True)
            moreover have "free_count (nodes t) = 0" using True by (simp add: free_count_def)
            ultimately show ?thesis by (intro stored) auto
          next
            case ne: False
            show ?thesis
            proof (rule new_key_spec [OF inv ne k miss(1) out])
              fix i ns' l
              assume n: "new_key t k strings = (Inr i, t\<lparr>last_free := l, nodes := ns'\<rparr>)"
                "inserted (val_main_position strings (length (nodes t))) (dead_key strings) (nodes t) k ns' i"
                "table_inv strings (t\<lparr>last_free := l, nodes := ns'\<rparr>)"
              let ?t = "set_node_value (t\<lparr>last_free := l, nodes := ns'\<rparr>) i v"
              note D = set_done_inserted [OF inv n(2,3) k out, of v]
              have "raw_set_body full t k v strings = (Inr 0, ?t)"
                using ne nd by (simp add: start3 insert_first_hash_node_def n(1))
              moreover have "estimated_memory ?t = estimated_memory t + 0"
                using D(3) ne by (auto simp: estimated_memory_def hash_size_def set_node_value_def)
              ultimately show ?thesis using D(1,2) out by (intro stored) auto
            next
              assume n: "new_key t k strings = (Inl (TErr ''table overflow''), t\<lparr>last_free := 0\<rparr>)"
                "table_inv strings (t\<lparr>last_free := 0\<rparr>)" "free_count (nodes t) = 0"
              have "raw_set_body full t k v strings = full (t\<lparr>last_free := 0\<rparr>) (TErr ''table overflow'')"
                using ne nd by (simp add: start3 insert_first_hash_node_def n(1))
              then show ?thesis using full n ne out miss(1) nv by blast
            qed
          qed
        qed
      qed
    qed
  qed
qed

end
