(* ===== verification/Rehash.thy ===== *)
theory Rehash
  imports TableOps
begin

text \<open>
  The rehash: what the histogram counts, why the chosen array size is the best one, and that
  \<open>resize\<close> always finds room for every entry and loses none.
\<close>

section \<open>The histogram\<close>

lemma ceil_log2_le: "ceil_log2 n \<le> j \<longleftrightarrow> n \<le> 2 ^ j"
proof (cases "n \<le> 1")
  case True
  then show ?thesis by (simp add: ceil_log2_def le_trans [OF True one_le_power])
next
  case False
  then have n: "0 < int (n - 1)" by simp
  note b = nbits_spec [OF n]
  show ?thesis
  proof
    assume "ceil_log2 n \<le> j"
    then have "nat (nbits (int (n - 1))) \<le> j" using False by (simp add: ceil_log2_def)
    then have "(2::int) ^ nat (nbits (int (n - 1))) \<le> 2 ^ j" by (rule power_increasing) simp
    with b have "int (n - 1) < 2 ^ j" by linarith
    then have "int (n - 1) < int (2 ^ j)" by (simp only: of_nat_power of_nat_numeral)
    then have "n - 1 < 2 ^ j" unfolding of_nat_less_iff .
    then show "n \<le> 2 ^ j" by simp
  next
    assume "n \<le> 2 ^ j"
    then have "n - 1 < 2 ^ j" using False by simp
    then have "int (n - 1) < int (2 ^ j)" unfolding of_nat_less_iff .
    then have "nbits (int (n - 1)) \<le> int j" using nbits_upper [OF n, of j] by simp
    then show "ceil_log2 n \<le> j" using False by (simp add: ceil_log2_def)
  qed
qed

definition tally :: "('a \<Rightarrow> bool) \<Rightarrow> 'a list \<Rightarrow> nat" where
  "tally p xs = length (filter p xs)"

lemma tally_simps [simp]:
  "tally p [] = 0" "tally p (x # xs) = (if p x then Suc (tally p xs) else tally p xs)"
  "tally p (xs @ ys) = tally p xs + tally p ys"
  by (simp_all add: tally_def)

lemma tally_split: "tally p xs = tally (\<lambda>x. p x \<and> q x) xs + tally (\<lambda>x. p x \<and> \<not> q x) xs"
  by (induction xs) auto

lemma tally_le: "tally p xs \<le> length xs"
  by (simp add: tally_def)

lemma tally_mono: "(\<And>x. x \<in> set xs \<Longrightarrow> p x \<Longrightarrow> q x) \<Longrightarrow> tally p xs \<le> tally q xs"
  by (induction xs) (auto simp: le_SucI)

lemma tally_cong: "(\<And>x. x \<in> set xs \<Longrightarrow> p x = q x) \<Longrightarrow> tally p xs = tally q xs"
  by (induction xs) auto

lemma tally_const: "(\<And>k. k \<in> set xs \<Longrightarrow> c k = g) \<Longrightarrow> tally (\<lambda>k. c k = j) xs = (if j = g then length xs else 0)"
  by (induction xs) auto

definition hist :: "nat list \<Rightarrow> nat list" where
  "hist ks = map (\<lambda>j. tally (\<lambda>k. ceil_log2 k = j) ks) [0..<MAXBITS + 1]"

lemma hist_length [simp]: "length (hist ks) = MAXBITS + 1"
  by (simp add: hist_def)

lemma hist_nth: "j \<le> MAXBITS \<Longrightarrow> hist ks ! j = tally (\<lambda>k. ceil_log2 k = j) ks"
  unfolding hist_def by (subst nth_map) (simp_all del: upt_Suc)

lemma hist_eqI:
  "length xs = MAXBITS + 1 \<Longrightarrow> (\<And>j. j \<le> MAXBITS \<Longrightarrow> xs ! j = tally (\<lambda>k. ceil_log2 k = j) ks) \<Longrightarrow> xs = hist ks"
  by (rule nth_equalityI) (simp_all add: hist_nth)

lemma hist_add:
  assumes "k \<le> MAXASIZE"
  shows "(hist ks)[ceil_log2 k := hist ks ! ceil_log2 k + 1] = hist (k # ks)"
proof -
  have "ceil_log2 k \<le> MAXBITS" using assms by (simp add: ceil_log2_le MAXASIZE_def)
  then show ?thesis by (intro hist_eqI) (auto simp: hist_nth nth_list_update)
qed

text \<open>The integer keys that are candidates for the array part.\<close>

definition int_cand :: "Val \<Rightarrow> nat option" where
  "int_cand v = (case v of
     VNum n \<Rightarrow> (case number_to_int_key n of
        Some k \<Rightarrow> (if k \<ge> 1 \<and> nat k \<le> MAXASIZE then Some (nat k) else None) | None \<Rightarrow> None)
   | _ \<Rightarrow> None)"

lemma int_cand_range: "int_cand v = Some k \<Longrightarrow> 1 \<le> k \<and> k \<le> MAXASIZE"
  by (auto simp: int_cand_def split: Val.splits option.splits if_splits)

lemma count_int_hist:
  "count_int v (hist ks) = (case int_cand v of Some k \<Rightarrow> (hist (k # ks), 1) | None \<Rightarrow> (hist ks, 0))"
  by (cases v) (auto simp: count_int_def int_cand_def hist_add [simplified] split: option.split)

definition array_cands :: "Val list \<Rightarrow> nat list" where
  "array_cands a = filter (\<lambda>k. a ! (k - 1) \<noteq> VNil) [1..<length a + 1]"

definition cand_acc :: "node \<Rightarrow> nat list \<Rightarrow> nat list" where
  "cand_acc n ks = (if nvalue n = VNil then ks else case int_cand (nkey n) of Some k \<Rightarrow> k # ks | None \<Rightarrow> ks)"

lemma num_use_hash_hist:
  "fold num_use_hash_step ns (hist ks, length ks, tot) =
    (hist (fold cand_acc ns ks), length (fold cand_acc ns ks), tot + tally (\<lambda>n. nvalue n \<noteq> VNil) ns)"
proof (induction ns arbitrary: ks tot)
  case (Cons n ns)
  have "num_use_hash_step n (hist ks, length ks, tot)
      = (hist (cand_acc n ks), length (cand_acc n ks), tot + (if nvalue n = VNil then 0 else 1))"
    by (simp add: num_use_hash_step_def cand_acc_def count_int_hist split: option.split)
  then show ?case using Cons.IH by simp
qed simp

lemma count_range_tally: "count_range a i n = tally (\<lambda>k. a ! (k - 1) \<noteq> VNil) [i..<i + n]"
proof (induction n arbitrary: i)
  case (Suc n)
  have "[i..<i + Suc n] = i # [i + 1..<i + 1 + n]" by (simp add: upt_conv_Cons)
  then show ?case using Suc by simp
qed simp

lemma cands_below:
  assumes "x \<le> length a + 1"
  shows "filter (\<lambda>k. k < x) (array_cands a) = filter (\<lambda>k. a ! (k - 1) \<noteq> VNil) [1..<x]"
proof (cases "1 \<le> x")
  case True
  then have cut: "[1..<length a + 1] = [1..<x] @ [x..<length a + 1]"
    using upt_add_eq_append [of 1 x "length a + 1 - x"] assms by simp
  have "array_cands a = filter (\<lambda>k. a ! (k - 1) \<noteq> VNil) [1..<x] @ filter (\<lambda>k. a ! (k - 1) \<noteq> VNil) [x..<length a + 1]"
    unfolding array_cands_def cut filter_append ..
  moreover have "filter (\<lambda>k. k < x) (filter (\<lambda>k. a ! (k - 1) \<noteq> VNil) [1..<x]) = filter (\<lambda>k. a ! (k - 1) \<noteq> VNil) [1..<x]"
    by (intro filter_True) auto
  moreover have "filter (\<lambda>k. k < x) (filter (\<lambda>k. a ! (k - 1) \<noteq> VNil) [x..<length a + 1]) = []"
    unfolding filter_empty_conv set_filter set_upt by simp
  ultimately show ?thesis by (simp only: filter_append append_Nil2)
qed (simp add: array_cands_def filter_empty_conv)

lemma num_use_array_loop_hist:
  assumes len: "length a \<le> MAXASIZE"
  shows "g \<le> MAXBITS + 1 \<Longrightarrow> i = (if g = 0 then 1 else min (2 ^ (g - 1)) (length a) + 1) \<Longrightarrow>
    num_use_array_loop a [g..<MAXBITS + 1] i (hist (filter (\<lambda>k. k < i) (array_cands a)))
      (length (filter (\<lambda>k. k < i) (array_cands a)))
    = (hist (array_cands a), length (array_cands a))"
proof (induction "MAXBITS + 1 - g" arbitrary: g i)
  case 0
  then have "g = MAXBITS + 1" by simp
  then have "i = length a + 1" using 0 len by (simp add: MAXASIZE_def)
  then have "filter (\<lambda>k. k < i) (array_cands a) = array_cands a"
    by (intro filter_True) (auto simp: array_cands_def)
  then show ?case using \<open>g = MAXBITS + 1\<close> by simp
next
  case (Suc d)
  then have g: "g \<le> MAXBITS" by simp
  have up: "[g..<MAXBITS + 1] = g # [Suc g..<MAXBITS + 1]" using g by (simp add: upt_conv_Cons)
  let ?lim = "min (2 ^ g) (length a)" and ?ac = "array_cands a"
  show ?case
  proof (cases "i > ?lim")
    case True
    have "i = length a + 1"
    proof (cases g)
      case (Suc g')
      have "(2::nat) ^ g' < 2 ^ g" using Suc by simp
      then show ?thesis using True Suc.prems Suc by (auto simp: min_def split: if_splits)
    qed (use True Suc.prems in \<open>auto simp: min_def split: if_splits\<close>)
    then have "filter (\<lambda>k. k < i) ?ac = ?ac" by (intro filter_True) (auto simp: array_cands_def)
    then show ?thesis using True up by simp
  next
    case False
    let ?lc = "count_range a i (?lim + 1 - i)"
    have i1: "1 \<le> i" "i \<le> ?lim" using Suc.prems False by (auto simp: Suc_le_eq)
    let ?P = "\<lambda>k. a ! (k - 1) \<noteq> VNil"
    have "i \<le> ?lim + 1" using i1 by linarith
    then have e: "i + (?lim + 1 - i) = ?lim + 1" by (rule le_add_diff_inverse)
    then have cut: "[1..<?lim + 1] = [1..<i] @ [i..<?lim + 1]"
      using upt_add_eq_append [of 1 i "?lim + 1 - i"] i1(1) by metis
    have b: "i \<le> length a + 1" "?lim + 1 \<le> length a + 1" using i1 by auto
    have n: "filter (\<lambda>k. k < i) ?ac = filter ?P [1..<i]"
      "filter (\<lambda>k. k < ?lim + 1) ?ac = filter ?P [1..<i] @ filter ?P [i..<?lim + 1]"
      unfolding cands_below [OF b(1)] cands_below [OF b(2)] cut filter_append by (rule refl)+
    have lc: "?lc = length (filter ?P [i..<?lim + 1])"
      unfolding count_range_tally tally_def e ..
    have cl: "ceil_log2 k = g" if "i \<le> k" "k < ?lim + 1" for k
    proof -
      have "ceil_log2 k \<le> g" using that by (simp add: ceil_log2_le)
      moreover have "\<not> ceil_log2 k \<le> g - 1" if "g \<noteq> 0"
        using \<open>i \<le> k\<close> \<open>k < ?lim + 1\<close> that Suc.prems(2) by (simp add: ceil_log2_le min_def split: if_splits)
      ultimately show ?thesis by (cases "g = 0") auto
    qed
    have upd: "(hist (filter ?P [1..<i]))[g := hist (filter ?P [1..<i]) ! g + ?lc]
        = hist (filter ?P [1..<i] @ filter ?P [i..<?lim + 1])"
    proof (rule hist_eqI)
      fix j assume j: "j \<le> MAXBITS"
      have "tally (\<lambda>k. ceil_log2 k = j) (filter ?P [i..<?lim + 1]) = (if j = g then ?lc else 0)"
        unfolding lc by (rule tally_const) (use cl in auto)
      then show "(hist (filter ?P [1..<i]))[g := hist (filter ?P [1..<i]) ! g + ?lc] ! j
          = tally (\<lambda>k. ceil_log2 k = j) (filter ?P [1..<i] @ filter ?P [i..<?lim + 1])"
        using j g by (simp add: hist_nth nth_list_update)
    qed simp
    have "num_use_array_loop a [Suc g..<MAXBITS + 1] (?lim + 1) (hist (filter (\<lambda>k. k < ?lim + 1) ?ac))
      (length (filter (\<lambda>k. k < ?lim + 1) ?ac)) = (hist ?ac, length ?ac)"
      using Suc.hyps g by (intro Suc.hyps(1)) auto
    then have "num_use_array_loop a [Suc g..<MAXBITS + 1] (?lim + 1)
        ((hist (filter (\<lambda>k. k < i) ?ac))[g := hist (filter (\<lambda>k. k < i) ?ac) ! g + ?lc])
        (length (filter (\<lambda>k. k < i) ?ac) + ?lc) = (hist ?ac, length ?ac)"
      unfolding n upd by (simp only: length_append lc)
    then show ?thesis using False by (simp only: up num_use_array_loop.simps Let_def if_False)
  qed
qed

section \<open>The array size\<close>

lemma compute_sizes_loop_spec:
  assumes pos: "\<forall>k \<in> set ks. 1 \<le> k"
  shows "g \<le> MAXBITS + 1 \<Longrightarrow> a = (if g = 0 then 0 else tally (\<lambda>k. k \<le> 2 ^ (g - 1)) ks) \<Longrightarrow>
    na = tally (\<lambda>k. k \<le> best) ks \<Longrightarrow> best = 0 \<or> (\<exists>i<g. best = 2 ^ i \<and> 2 ^ i div 2 < na) \<Longrightarrow>
    compute_sizes_loop (drop g (hist ks)) (length ks) a na best (2 ^ g) = (best', na') \<Longrightarrow>
    na' = tally (\<lambda>k. k \<le> best') ks \<and> (best' = 0 \<or> (\<exists>i\<le>MAXBITS. best' = 2 ^ i \<and> 2 ^ i div 2 < na'))"
proof (induction "MAXBITS + 1 - g" arbitrary: g a na best)
  case 0
  then show ?case by (auto simp: less_Suc_eq_le)
next
  case (Suc d)
  then have g: "g \<le> MAXBITS" by simp
  have dr: "drop g (hist ks) = hist ks ! g # drop (Suc g) (hist ks)" using g by (simp add: Cons_nth_drop_Suc)
  have cnt: "a + hist ks ! g = tally (\<lambda>k. k \<le> 2 ^ g) ks"
  proof -
    have "tally (\<lambda>k. k \<le> 2 ^ g) ks = tally (\<lambda>k. k \<le> 2 ^ g \<and> ceil_log2 k = g) ks + tally (\<lambda>k. k \<le> 2 ^ g \<and> ceil_log2 k \<noteq> g) ks"
      by (rule tally_split)
    moreover have "tally (\<lambda>k. k \<le> 2 ^ g \<and> ceil_log2 k = g) ks = hist ks ! g"
      using g by (auto simp: hist_nth ceil_log2_le [symmetric] intro: tally_cong)
    moreover have "tally (\<lambda>k. k \<le> 2 ^ g \<and> ceil_log2 k \<noteq> g) ks = a"
    proof (cases g)
      case 0
      have "ceil_log2 k = 0" if "k \<le> 1" for k using ceil_log2_le [of k 0] that by simp
      then show ?thesis using Suc.prems 0 by (auto simp: tally_def filter_empty_conv)
    next
      case (Suc g')
      then show ?thesis using Suc.prems
        by (auto simp: ceil_log2_le [symmetric] le_Suc_eq simp del: power_Suc intro!: tally_cong)
    qed
    ultimately show ?thesis by simp
  qed
  have tw: "min (2 ^ 32 - 1) (2 ^ g * 2) = (2::nat) ^ Suc g"
  proof -
    have "(2::nat) ^ Suc g \<le> 2 ^ 27" using g by (intro power_increasing) (auto simp: MAXBITS_def)
    then show ?thesis by (simp add: min_def)
  qed
  let ?take = "hist ks ! g > 0 \<and> a + hist ks ! g > 2 ^ g div 2"
  let ?best = "if ?take then 2 ^ g else best" and ?na = "if ?take then a + hist ks ! g else na"
  have inv: "?na = tally (\<lambda>k. k \<le> ?best) ks" using Suc.prems(3) cnt by simp
  have best: "?best = 0 \<or> (\<exists>i<Suc g. ?best = 2 ^ i \<and> 2 ^ i div 2 < ?na)"
    using Suc.prems(4) by (auto intro: less_SucI)
  show ?case
  proof (cases "a + hist ks ! g = length ks")
    case True
    then have "(best', na') = (?best, ?na)" using Suc.prems(5)
      by (cases "0 < hist ks ! g \<and> 2 ^ g div 2 < length ks") (auto simp: dr Let_def)
    then show ?thesis using inv best g by (auto simp: less_Suc_eq_le)
  next
    case False
    then have "compute_sizes_loop (drop (Suc g) (hist ks)) (length ks) (a + hist ks ! g) ?na ?best (2 ^ Suc g) = (best', na')"
      using Suc.prems(5) unfolding dr by (simp only: compute_sizes_loop.simps Let_def if_False tw)
    then show ?thesis using Suc.hyps g cnt inv best by (intro Suc.hyps(1)) auto
  qed
qed

lemma compute_sizes_spec:
  assumes "\<forall>k \<in> set ks. 1 \<le> k" "compute_sizes (hist ks) (length ks) = (best, na)"
  shows "na = tally (\<lambda>k. k \<le> best) ks" "best = 0 \<or> (\<exists>i\<le>MAXBITS. best = 2 ^ i \<and> best div 2 < na)"
proof -
  have z: "0 = tally (\<lambda>k. k \<le> 0) ks" using assms(1) by (auto simp: tally_def filter_empty_conv)
  have "na = tally (\<lambda>k. k \<le> best) ks \<and> (best = 0 \<or> (\<exists>i\<le>MAXBITS. best = 2 ^ i \<and> 2 ^ i div 2 < na))"
    by (rule compute_sizes_loop_spec [OF assms(1), of 0 0 0 0])
      (use assms(2) z in \<open>simp_all add: compute_sizes_def\<close>)
  then show "na = tally (\<lambda>k. k \<le> best) ks" "best = 0 \<or> (\<exists>i\<le>MAXBITS. best = 2 ^ i \<and> best div 2 < na)"
    by auto
qed

lemma tally_rev [simp]: "tally p (rev xs) = tally p xs"
  by (simp add: tally_def rev_filter [symmetric])

lemma tally_all: "(\<And>x. x \<in> set xs \<Longrightarrow> p x) \<Longrightarrow> tally p xs = length xs"
  by (induction xs) auto

definition fits :: "nat \<Rightarrow> Val \<Rightarrow> bool" where
  "fits b v = (case int_cand v of Some k \<Rightarrow> k \<le> b | None \<Rightarrow> False)"

lemma tally_cand_acc:
  "tally p (fold cand_acc ns ks) = tally p ks
    + tally (\<lambda>n. nvalue n \<noteq> VNil \<and> (case int_cand (nkey n) of Some k \<Rightarrow> p k | None \<Rightarrow> False)) ns"
  by (induction ns arbitrary: ks) (auto simp: cand_acc_def split: option.split)

text \<open>Every integer key the table would have after storing \<open>ek\<close>.\<close>

definition rehash_cands :: "table \<Rightarrow> Val \<Rightarrow> nat list" where
  "rehash_cands t ek = (let ks = fold cand_acc (rev (nodes t)) (array_cands (arr t))
     in case int_cand ek of Some k \<Rightarrow> k # ks | None \<Rightarrow> ks)"

definition table_use :: "table \<Rightarrow> nat" where
  "table_use t = length (array_cands (arr t)) + tally (\<lambda>n. nvalue n \<noteq> VNil) (nodes t)"

lemma rehash_cands_pos:
  assumes "k \<in> set (rehash_cands t ek)" shows "1 \<le> k"
proof -
  have "\<forall>k \<in> set (fold cand_acc ns ks). 1 \<le> k" if "\<forall>k \<in> set ks. 1 \<le> k" for ns ks
    using that
  proof (induction ns arbitrary: ks)
    case (Cons n ns)
    have "\<forall>k \<in> set (cand_acc n ks). 1 \<le> k"
      using Cons.prems int_cand_range by (auto simp: cand_acc_def split: option.split)
    then show ?case using Cons.IH by simp
  qed simp
  moreover have "\<forall>k \<in> set (array_cands (arr t)). 1 \<le> k" by (auto simp: array_cands_def)
  ultimately show ?thesis using assms
    by (auto simp: rehash_cands_def Let_def dest: int_cand_range split: option.splits)
qed

lemma hist_Nil: "replicate (MAXBITS + 1) 0 = hist []"
  by (rule hist_eqI) (simp_all del: replicate.simps replicate_Suc)

lemma rehash_sizes_alt:
  assumes "length (arr t) \<le> MAXASIZE"
  shows "rehash_sizes t ek = (case compute_sizes (hist (rehash_cands t ek)) (length (rehash_cands t ek)) of
      (best, na) \<Rightarrow> (best, table_use t + 1 - na))"
proof -
  let ?ac = "array_cands (arr t)"
  have "num_use_array_loop (arr t) [0..<MAXBITS + 1] 1 (hist (filter (\<lambda>k. k < 1) ?ac)) (length (filter (\<lambda>k. k < 1) ?ac))
      = (hist ?ac, length ?ac)"
    by (rule num_use_array_loop_hist [OF assms]) simp_all
  moreover have "filter (\<lambda>k. k < 1) ?ac = []" using cands_below [of 1 "arr t"] by simp
  ultimately have a: "num_use_array t (replicate (MAXBITS + 1) 0) = (hist ?ac, length ?ac)"
    unfolding num_use_array_def hist_Nil by (simp only: list.size)
  have "num_use_hash t (hist ?ac) (length ?ac)
      = (hist (fold cand_acc (rev (nodes t)) ?ac), length (fold cand_acc (rev (nodes t)) ?ac),
         tally (\<lambda>n. nvalue n \<noteq> VNil) (nodes t))"
    unfolding num_use_hash_def num_use_hash_hist by simp
  then show ?thesis unfolding rehash_sizes_def a
    by (cases "int_cand ek") (simp_all add: count_int_hist rehash_cands_def table_use_def)
qed

lemma rehash_sizes_spec:
  assumes "length (arr t) \<le> MAXASIZE" "rehash_sizes t ek = (best, nh)"
  shows "nh = tally (\<lambda>k. best < k) (array_cands (arr t))
      + tally (\<lambda>n. nvalue n \<noteq> VNil \<and> \<not> fits best (nkey n)) (nodes t) + (if fits best ek then 0 else 1)"
    "best \<le> MAXASIZE" "nh \<le> table_use t + 1"
    "best = 0 \<or> (\<exists>i\<le>MAXBITS. best = 2 ^ i \<and> best div 2 < tally (\<lambda>k. k \<le> best) (rehash_cands t ek))"
proof -
  obtain na where c: "compute_sizes (hist (rehash_cands t ek)) (length (rehash_cands t ek)) = (best, na)"
    "nh = table_use t + 1 - na"
    using assms(2) unfolding rehash_sizes_alt [OF assms(1)] by (auto split: prod.splits)
  note S = compute_sizes_spec [OF _ c(1)]
  have pos: "\<forall>k \<in> set (rehash_cands t ek). 1 \<le> k" using rehash_cands_pos by blast
  have na: "na = tally (\<lambda>k. k \<le> best) (array_cands (arr t))
      + tally (\<lambda>n. nvalue n \<noteq> VNil \<and> fits best (nkey n)) (nodes t) + (if fits best ek then 1 else 0)"
    unfolding S(1) [OF pos] rehash_cands_def Let_def
    by (cases "int_cand ek") (simp_all add: tally_cand_acc fits_def)
  have "length (array_cands (arr t)) = tally (\<lambda>k. k \<le> best) (array_cands (arr t)) + tally (\<lambda>k. best < k) (array_cands (arr t))"
    using tally_split [of "\<lambda>_. True" "array_cands (arr t)" "\<lambda>k. k \<le> best"]
    by (simp add: tally_all not_le)
  moreover have "tally (\<lambda>n. nvalue n \<noteq> VNil) (nodes t) = tally (\<lambda>n. nvalue n \<noteq> VNil \<and> fits best (nkey n)) (nodes t)
      + tally (\<lambda>n. nvalue n \<noteq> VNil \<and> \<not> fits best (nkey n)) (nodes t)"
    by (rule tally_split)
  ultimately show "nh = tally (\<lambda>k. best < k) (array_cands (arr t))
      + tally (\<lambda>n. nvalue n \<noteq> VNil \<and> \<not> fits best (nkey n)) (nodes t) + (if fits best ek then 0 else 1)"
    unfolding c(2) na table_use_def by simp
  show "best \<le> MAXASIZE" using S(2) [OF pos] by (auto simp: MAXASIZE_def intro: power_increasing)
  show "nh \<le> table_use t + 1" using c(2) by simp
  show "best = 0 \<or> (\<exists>i\<le>MAXBITS. best = 2 ^ i \<and> best div 2 < tally (\<lambda>k. k \<le> best) (rehash_cands t ek))"
    using S [OF pos] by simp
qed

lemma int_index_small: "- (2 ^ 63) \<le> k \<Longrightarrow> k < 2 ^ 63 \<Longrightarrow> b \<le> MAXASIZE \<Longrightarrow> int_index k < b \<longleftrightarrow> 1 \<le> k \<and> nat k \<le> b"
proof (cases "1 \<le> k")
  case False
  assume k: "- (2 ^ 63) \<le> k" "k < 2 ^ 63" "b \<le> MAXASIZE"
  have "(k - 1) mod 2 ^ 64 = (k - 1 + 2 ^ 64) mod 2 ^ 64" by (rule mod_add_self2 [symmetric])
  also have "\<dots> = k - 1 + 2 ^ 64" using k False by (intro mod_pos_pos_trivial) auto
  finally have "int_index k \<ge> 2 ^ 62" using k(1) by (simp add: int_index_def)
  then show ?thesis using k(3) False by (simp add: MAXASIZE_def MAXBITS_def)
qed (auto simp: int_index_nat)

lemma array_slot_fits:
  assumes "length (arr t) \<le> MAXASIZE"
  shows "array_slot t v \<noteq> None \<longleftrightarrow> fits (length (arr t)) v"
proof (cases v)
  case (VNum n)
  then show ?thesis
    using int_index_small [OF _ _ assms] number_to_int_key_range [of n] assms
    by (cases "number_to_int_key n") (auto simp: array_slot_def fits_def int_cand_def)
qed (simp_all add: array_slot_def fits_def int_cand_def)

section \<open>Moving entries\<close>

text \<open>\<open>new_key\<close> does not look at the array part.\<close>

lemma get_free_pos_arr: "get_free_pos (t\<lparr>arr := a\<rparr>) = (let (r, t') = get_free_pos t in (r, t'\<lparr>arr := a\<rparr>))"
  by (simp add: get_free_pos_def split: prod.split)

lemma new_key_arr: "new_key (t\<lparr>arr := a\<rparr>) k strings = (let (r, t') = new_key t k strings in (r, t'\<lparr>arr := a\<rparr>))"
proof -
  have hs: "hash_size (t\<lparr>arr := a\<rparr>) = hash_size t" "hash_size (t\<lparr>last_free := l\<rparr>) = hash_size t"
    "hash_size (t\<lparr>arr := a, last_free := l\<rparr>) = hash_size t" for l by (simp_all add: hash_size_def)
  show ?thesis
    by (simp add: new_key_def get_free_pos_arr main_position_def hs Let_def get_free_pos_def
        split: prod.split option.split sum.split)
qed

lemma image_nkey_nth:
  assumes "nkey ` set xs \<subseteq> insert k (nkey ` set ys)" "x < length xs"
  shows "nkey (xs ! x) = k \<or> (\<exists>y<length ys. nkey (xs ! x) = nkey (ys ! y))"
proof -
  have "nkey (xs ! x) \<in> nkey ` set xs" using assms(2) by simp
  then have "nkey (xs ! x) \<in> insert k (nkey ` set ys)" using assms(1) by blast
  then show ?thesis by (auto simp: in_set_conv_nth)
qed

lemma move_displaced_spec:
  assumes "table_inv strings (t\<lparr>arr := take m (arr t)\<rparr>)" "length (arr t) \<le> MAXASIZE"
    "\<forall>i \<in> set is'. m \<le> i \<and> i < length (arr t)" "distinct is'"
    "\<forall>i \<in> set is'. absent (nodes t) (VNum (f64_of_int (int (i + 1))))"
    "tally (\<lambda>i. arr t ! i \<noteq> VNil) is' \<le> free_count (nodes t)"
  shows "\<exists>t'. move_displaced is' t strings = (Inr (), t') \<and> arr t' = arr t \<and> same_rest t t'
    \<and> table_inv strings (t'\<lparr>arr := take m (arr t)\<rparr>)
    \<and> free_count (nodes t) \<le> free_count (nodes t') + tally (\<lambda>i. arr t ! i \<noteq> VNil) is'
    \<and> (\<forall>k. abs_get (t'\<lparr>arr := take m (arr t)\<rparr>) k =
         (case array_slot t k of Some i \<Rightarrow> (if i \<in> set is' \<and> arr t ! i \<noteq> VNil then arr t ! i
                                            else abs_get (t\<lparr>arr := take m (arr t)\<rparr>) k)
          | None \<Rightarrow> abs_get (t\<lparr>arr := take m (arr t)\<rparr>) k))"
  using assms
proof (induction is' arbitrary: t)
  case Nil
  then show ?case by (auto simp: same_rest_def split: option.split)
next
  case (Cons i is')
  show ?case
  proof (cases "arr t ! i = VNil")
    case True
    then show ?thesis using Cons.IH [of t] Cons.prems by (auto split: option.split)
  next
    case False
    let ?a = "arr t" and ?T = "t\<lparr>arr := take m (arr t)\<rparr>"
    let ?k = "VNum (f64_of_int (int (i + 1)))"
    have im: "m \<le> i" "i < length ?a" "i < MAXASIZE" using Cons.prems(2,3) by auto
    have slot: "array_slot t ?k = Some i" using array_slot_of_int [OF im(3)] im(2) by simp
    have slotT: "array_slot ?T ?k = None" using array_slot_of_int [OF im(3), of ?T] im(1,2) by simp
    have i53: "\<bar>int (i + 1)\<bar> < 2 ^ 53" using im(3) by (simp add: MAXASIZE_def MAXBITS_def)
    have kok: "key_ok strings ?k"
      using f64_of_int_finite [OF i53] by (simp add: key_ok_def is_nan_val_def dead_key_def is_finite_def is_nan_def)
    have ab: "absent (nodes ?T) ?k" using Cons.prems(5) by simp
    have fc: "0 < free_count (nodes ?T)" using Cons.prems(6) False by simp
    then have ne: "nodes ?T \<noteq> []" by (auto simp: free_count_def)
    obtain j ns' l where nk: "new_key ?T ?k strings = (Inr j, ?T\<lparr>last_free := l, nodes := ns'\<rparr>)"
      "inserted (val_main_position strings (length (nodes ?T))) (dead_key strings) (nodes ?T) ?k ns' j"
      "table_inv strings (?T\<lparr>last_free := l, nodes := ns'\<rparr>)"
      using new_key_spec [OF Cons.prems(1) ne kok ab slotT] fc by (metis less_numeral_extra(3))
    let ?t1 = "set_node_value (t\<lparr>last_free := l, nodes := ns'\<rparr>) j (?a ! i)"
    let ?T1 = "set_node_value (?T\<lparr>last_free := l, nodes := ns'\<rparr>) j (?a ! i)"
    note D = set_done_inserted [OF Cons.prems(1) nk(2,3) kok slotT, of "?a ! i"]
    have nkt: "new_key t ?k strings = (Inr j, t\<lparr>last_free := l, nodes := ns'\<rparr>)"
      using new_key_arr [of ?a ?T ?k strings] nk(1) by simp
    have T1: "?T1 = ?t1\<lparr>arr := take m (arr ?t1)\<rparr>" by (simp add: set_node_value_def)
    have keys: "nkey ` set (nodes ?t1) \<subseteq> insert ?k (nkey ` set (nodes t))"
    proof -
      have jl: "j < length ns'" using nk(2) by (simp add: inserted_def)
      have "map nkey (nodes ?t1) = map nkey ns'"
        by (rule nth_equalityI) (use jl in \<open>auto simp: set_node_value_def nth_list_update\<close>)
      then have "nkey ` set (nodes ?t1) = nkey ` set ns'" by (metis set_map)
      then show ?thesis using nk(2) by (auto simp: inserted_def)
    qed
    have ab': "absent (nodes ?t1) (VNum (f64_of_int (int (i' + 1))))" if i': "i' \<in> set is'" for i'
    proof -
      have "i' \<noteq> i" "i' < MAXASIZE" using i' Cons.prems(2,3,4) by auto
      then have "\<bar>int (i' + 1)\<bar> < 2 ^ 53" by (simp add: MAXASIZE_def MAXBITS_def)
      from f64_of_int_inj [OF i53 this] have "\<not> val_eq ?k (VNum (f64_of_int (int (i' + 1))))"
        using \<open>i' \<noteq> i\<close> by auto
      moreover have "absent (nodes t) (VNum (f64_of_int (int (i' + 1))))" using Cons.prems(5) i' by simp
      ultimately show ?thesis using image_nkey_nth [OF keys] unfolding absent_def by metis
    qed
    have arr1: "arr ?t1 = ?a" by (simp add: set_node_value_def)
    have n1: "nodes ?T1 = nodes ?t1" by (simp add: set_node_value_def)
    have fc1: "free_count (nodes t) \<le> Suc (free_count (nodes ?t1))" using D(2) by (simp add: n1)
    have p1: "table_inv strings (?t1\<lparr>arr := take m (arr ?t1)\<rparr>)"
      using D(1) unfolding T1 by (simp only: set_done_def)
    have p2: "length (arr ?t1) \<le> MAXASIZE" unfolding arr1 by (rule Cons.prems(2))
    have p3: "\<forall>i \<in> set is'. m \<le> i \<and> i < length (arr ?t1)" unfolding arr1 using Cons.prems(3) by simp
    have p4: "distinct is'" using Cons.prems(4) by simp
    have p5: "\<forall>i \<in> set is'. absent (nodes ?t1) (VNum (f64_of_int (int (i + 1))))" using ab' by blast
    have p6: "tally (\<lambda>i. arr ?t1 ! i \<noteq> VNil) is' \<le> free_count (nodes ?t1)"
      unfolding arr1 using Cons.prems(6) False fc1 by simp
    have T1': "?t1\<lparr>arr := take m ?a\<rparr> = ?T1" by (simp add: set_node_value_def)
    obtain t' where t': "move_displaced is' ?t1 strings = (Inr (), t')" "arr t' = ?a" "same_rest ?t1 t'"
      "table_inv strings (t'\<lparr>arr := take m ?a\<rparr>)"
      "free_count (nodes ?t1) \<le> free_count (nodes t') + tally (\<lambda>i. ?a ! i \<noteq> VNil) is'"
      "\<And>k. abs_get (t'\<lparr>arr := take m ?a\<rparr>) k =
         (case array_slot ?t1 k of Some i \<Rightarrow> (if i \<in> set is' \<and> ?a ! i \<noteq> VNil then ?a ! i else abs_get ?T1 k)
          | None \<Rightarrow> abs_get ?T1 k)"
      using Cons.IH [OF p1 p2 p3 p4 p5 p6] unfolding arr1 T1' by blast
    have sl1: "array_slot ?t1 k = array_slot t k" for k by (rule array_slot_arr) (simp add: arr1)
    have "abs_get (t'\<lparr>arr := take m ?a\<rparr>) k =
         (case array_slot t k of Some i' \<Rightarrow> (if i' \<in> set (i # is') \<and> ?a ! i' \<noteq> VNil then ?a ! i' else abs_get ?T k)
          | None \<Rightarrow> abs_get ?T k)" for k
      using D(1) array_slot_inj [OF slot, of k] False unfolding t'(6) sl1
      by (auto simp: set_done_def split: option.split)
    moreover have "move_displaced (i # is') t strings = (Inr (), t')" using False nkt t'(1) by simp
    moreover have "same_rest t t'" using t'(3) by (simp add: same_rest_def set_node_value_def)
    moreover have "free_count (nodes t) \<le> free_count (nodes t') + tally (\<lambda>i. ?a ! i \<noteq> VNil) (i # is')"
      using t'(5) fc1 False by simp
    ultimately show ?thesis using t'(2,4) by blast
  qed
qed

definition uniq :: "node list \<Rightarrow> bool" where
  "uniq ns \<longleftrightarrow> sorted_wrt (\<lambda>m n. nkey m \<noteq> VNil \<or> nkey n \<noteq> VNil \<longrightarrow> \<not> val_eq (nkey m) (nkey n)) ns"

lemma keys_ok_uniq: "keys_ok dead ns \<Longrightarrow> uniq ns"
  unfolding uniq_def sorted_wrt_iff_nth_less
  by (metis keys_okD(1) less_trans nat_neq_iff val_eq_sym)

lemma uniq_skip:
  assumes "uniq (n # ns)" "val_eq (nkey n) k" "nkey n \<noteq> VNil" shows "hash_lookup ns k = VNil"
proof (rule hash_lookup_absent)
  fix m assume "m \<in> set ns"
  then have "\<not> val_eq (nkey n) (nkey m)" using assms(1,3) by (auto simp: uniq_def)
  then show "\<not> val_eq (nkey m) k" using assms(2) val_eq_sym val_eq_trans by blast
qed

lemma uniq_rev: "uniq (rev ns) = uniq ns"
  unfolding uniq_def sorted_wrt_rev by (rule arg_cong [of _ _ "\<lambda>r. sorted_wrt r ns"]) (auto simp: fun_eq_iff val_eq_sym)

lemma hash_lookup_rev:
  assumes "keys_ok dead ns" shows "hash_lookup (rev ns) k = hash_lookup ns k"
proof -
  have "keys_ok dead (rev ns)" unfolding keys_ok_def length_rev
  proof (intro conjI allI impI)
    fix i j assume ij: "i < length ns" "j < length ns" "i \<noteq> j \<and> nkey (rev ns ! i) \<noteq> VNil"
    then have "length ns - Suc i \<noteq> length ns - Suc j" by linarith
    with ij show "\<not> val_eq (nkey (rev ns ! i)) (nkey (rev ns ! j))"
      using keys_okD(1) [OF assms, of "length ns - Suc i" "length ns - Suc j"] by (auto simp: rev_nth)
  qed (use assms in \<open>auto simp: keys_ok_def rev_nth\<close>)
  moreover have "hents (rev ns) = hents ns" by (simp add: hents_def)
  ultimately show ?thesis using hash_lookup_cong assms by blast
qed

text \<open>How many of the nodes will need a place in the hash part.\<close>

definition need :: "table \<Rightarrow> node list \<Rightarrow> nat" where
  "need t ns = tally (\<lambda>n. nvalue n \<noteq> VNil \<and> array_slot t (nkey n) = None) ns"

lemma need_mono:
  assumes "length (arr t) \<le> length (arr t')" shows "need t' ns \<le> need t ns"
proof -
  have "array_slot t k = None" if "array_slot t' k = None" for k
  proof (rule ccontr)
    assume "array_slot t k \<noteq> None"
    then obtain i where "array_slot t k = Some i" by blast
    then have "array_slot t' k = Some i" using assms by (auto simp: array_slot_Some)
    then show False using that by simp
  qed
  then show ?thesis unfolding need_def by (intro tally_mono) auto
qed

lemma reinsert_spec:
  assumes "table_inv strings t" "\<forall>n \<in> set ns. nvalue n \<noteq> VNil \<longrightarrow> key_ok strings (nkey n)" "uniq ns"
    "need t ns \<le> free_count (nodes t)"
  shows "\<exists>t'. reinsert ns t strings = (Inr (), t') \<and> table_inv strings t' \<and> same_rest t t'
    \<and> length (arr t) \<le> length (arr t') \<and> free_count (nodes t) \<le> free_count (nodes t') + need t ns
    \<and> (\<forall>k. abs_get t' k = (if hash_lookup ns k \<noteq> VNil then hash_lookup ns k else abs_get t k))"
  using assms
proof (induction ns arbitrary: t)
  case Nil
  then show ?case by (simp add: same_rest_def)
next
  case (Cons n ns)
  have u: "uniq ns" using Cons.prems(3) by (simp add: uniq_def)
  show ?case
  proof (cases "nvalue n = VNil")
    case True
    have nn: "need t (n # ns) = need t ns" using True by (simp add: need_def)
    have "hash_lookup (n # ns) k = hash_lookup ns k" for k
    proof (cases "val_eq (nkey n) k")
      case e: True
      have "hash_lookup ns k = VNil"
      proof (cases "k = VNil")
        case True
        have "\<forall>m \<in> set ns. nkey m = VNil \<longrightarrow> nvalue m = VNil" using Cons.prems(2) by (auto simp: key_ok_def)
        then show ?thesis unfolding True by (induction ns) auto
      next
        case False
        then have "nkey n \<noteq> VNil" using e by (metis val_eq_nil(1))
        then show ?thesis using uniq_skip Cons.prems(3) e by blast
      qed
      then show ?thesis using True e by simp
    qed simp
    then have h: "hash_lookup (n # ns) = hash_lookup ns" by blast
    have rr: "reinsert (n # ns) t strings = reinsert ns t strings" using True by simp
    show ?thesis unfolding h rr nn
      by (rule Cons.IH) (use Cons.prems(1,2,4) u nn in simp_all)
  next
    case False
    then have kok: "key_ok strings (nkey n)" using Cons.prems(2) by simp
    have nd: "need t (n # ns) = (if array_slot t (nkey n) = None then 1 else 0) + need t ns"
      using False by (simp add: need_def)
    obtain d t1 where t1: "raw_set_no_rehash t (nkey n) (nvalue n) strings = (Inr d, t1)"
      "set_done strings t (nkey n) (nvalue n) t1"
      "free_count (nodes t) \<le> free_count (nodes t1) + (if array_slot t (nkey n) = None then 1 else 0)"
      unfolding raw_set_no_rehash_def
    proof (rule raw_set_body_spec [OF Cons.prems(1) kok, where full = "\<lambda>t e. (Inl e, t)" and v = "nvalue n"])
      assume "free_count (nodes t) = 0" "array_slot t (nkey n) = None"
      then show thesis using Cons.prems(4) nd by simp
    qed blast
    have "table_inv strings t1" "same_rest t t1" and la: "length (arr t) \<le> length (arr t1)"
      and g1: "abs_get t1 k = (if val_eq k (nkey n) then nvalue n else abs_get t k)" for k
      using t1(2) by (auto simp: set_done_def)
    moreover from this have "need t1 ns \<le> need t ns" by (intro need_mono)
    ultimately obtain t' where t': "reinsert ns t1 strings = (Inr (), t')" "table_inv strings t'" "same_rest t1 t'"
      "length (arr t1) \<le> length (arr t')" "free_count (nodes t1) \<le> free_count (nodes t') + need t1 ns"
      "\<And>k. abs_get t' k = (if hash_lookup ns k \<noteq> VNil then hash_lookup ns k else abs_get t1 k)"
      using Cons.IH [of t1] Cons.prems(2,4) u t1(3) nd by auto
    have "abs_get t' k = (if hash_lookup (n # ns) k \<noteq> VNil then hash_lookup (n # ns) k else abs_get t k)" for k
      using t'(6) g1 uniq_skip [OF Cons.prems(3), of k] kok False by (auto simp: key_ok_def val_eq_sym)
    moreover have "same_rest t t'" using \<open>same_rest t t1\<close> t'(3) by (rule same_rest_trans)
    moreover have "reinsert (n # ns) t strings = (Inr (), t')" using False t1(1) t'(1) by simp
    ultimately show ?thesis using t'(2,4,5) la t1(3) nd \<open>need t1 ns \<le> need t ns\<close> by (intro exI [of _ t']) auto
  qed
qed

section \<open>Resizing\<close>

lemma new_hash_part_spec:
  assumes "nh \<le> 2 ^ MAXBITS" "length a \<le> MAXASIZE"
  shows "\<exists>t'. new_hash_part nh t = (Inr (), t') \<and> arr t' = arr t \<and> same_rest t t'
    \<and> table_inv strings (t'\<lparr>arr := a\<rparr>) \<and> nh \<le> free_count (nodes t')
    \<and> (\<forall>k. hash_lookup (nodes t') k = VNil \<and> (k \<noteq> VNil \<longrightarrow> absent (nodes t') k))"
proof (cases "nh = 0")
  case True
  then show ?thesis using assms by (simp add: new_hash_part_def same_rest_def table_inv_def absent_def)
next
  case False
  have l: "ceil_log2 nh \<le> MAXBITS" "nh \<le> 2 ^ ceil_log2 nh"
    using assms(1) ceil_log2_le [of nh MAXBITS] ceil_log2_le [of nh "ceil_log2 nh"] by auto
  note F = fresh_inv [OF l(1), of "t\<lparr>arr := a\<rparr>"]
  have c: "t\<lparr>arr := a, nodes := x, last_free := y, log2_size := z\<rparr> = t\<lparr>nodes := x, log2_size := z, last_free := y, arr := a\<rparr>"
    for x y z by simp
  show ?thesis using False l F assms(2) unfolding c by (simp add: new_hash_part_def same_rest_def Let_def)
qed

lemma array_tail_tally:
  "tally (\<lambda>k. b < k) (array_cands a) = tally (\<lambda>i. a ! i \<noteq> VNil) [b..<length a]"
proof -
  have "tally (\<lambda>k. b < k) (array_cands a) = tally (\<lambda>k. b < k \<and> a ! (k - 1) \<noteq> VNil) (map Suc [0..<length a])"
    by (simp add: tally_def array_cands_def filter_filter map_Suc_upt conj_commute)
  also have "\<dots> = tally (\<lambda>i. b \<le> i \<and> a ! i \<noteq> VNil) [0..<length a]"
    by (simp add: tally_def filter_map o_def less_Suc_eq_le)
  also have "\<dots> = tally (\<lambda>i. a ! i \<noteq> VNil) [b..<length a]"
  proof (cases "b \<le> length a")
    case True
    then have "[0..<length a] = [0..<b] @ [b..<length a]" using upt_add_eq_append [of 0 b "length a - b"] by simp
    moreover have "tally (\<lambda>i. b \<le> i \<and> a ! i \<noteq> VNil) [0..<b] = 0" by (auto simp: tally_def filter_empty_conv)
    moreover have "tally (\<lambda>i. b \<le> i \<and> a ! i \<noteq> VNil) [b..<length a] = tally (\<lambda>i. a ! i \<noteq> VNil) [b..<length a]"
      by (rule tally_cong) auto
    ultimately show ?thesis by simp
  qed (auto simp: tally_def filter_empty_conv)
  finally show ?thesis .
qed

text \<open>After steps 1 to 3 the array has its new size and every old array entry is still found.\<close>

definition shrink_step :: "table \<Rightarrow> nat \<Rightarrow> nat \<Rightarrow> string_arena \<Rightarrow> unit tres \<times> table" where
  "shrink_step t2 m old strings = (if m < old
       then (case move_displaced [m..<old] t2 strings of
              (Inl e, t3) \<Rightarrow> (Inl e, t3)
            | (Inr _, t3) \<Rightarrow> (Inr (), t3\<lparr>arr := take m (arr t3)\<rparr>))
       else (Inr (), t2))"

lemma shrink_step_spec:
  assumes inv: "table_inv strings t" and m: "m \<le> MAXASIZE"
    and t2: "arr t2 = arr t @ replicate (m - length (arr t)) VNil" "table_inv strings (t2\<lparr>arr := take m (arr t2)\<rparr>)"
      "\<forall>k. hash_lookup (nodes t2) k = VNil \<and> (k \<noteq> VNil \<longrightarrow> absent (nodes t2) k)"
    and room: "tally (\<lambda>k. m < k) (array_cands (arr t)) \<le> free_count (nodes t2)"
  shows "\<exists>t3. shrink_step t2 m (length (arr t)) strings = (Inr (), t3) \<and> table_inv strings t3 \<and> same_rest t2 t3
    \<and> length (arr t3) = m
    \<and> free_count (nodes t2) \<le> free_count (nodes t3) + tally (\<lambda>k. m < k) (array_cands (arr t))
    \<and> (\<forall>k. abs_get t3 k = (case array_slot t k of Some i \<Rightarrow> arr t ! i | None \<Rightarrow> VNil))"
proof (cases "m < length (arr t)")
  case True
  then have a2: "arr t2 = arr t" using t2(1) by simp
  have "tally (\<lambda>i. arr t2 ! i \<noteq> VNil) [m..<length (arr t)] \<le> free_count (nodes t2)"
    using room unfolding array_tail_tally a2 .
  moreover have "\<forall>i \<in> set [m..<length (arr t)]. absent (nodes t2) (VNum (f64_of_int (int (i + 1))))" using t2(3) by simp
  ultimately obtain t' where t': "move_displaced [m..<length (arr t)] t2 strings = (Inr (), t')" "arr t' = arr t"
    "same_rest t2 t'" "table_inv strings (t'\<lparr>arr := take m (arr t)\<rparr>)"
    "free_count (nodes t2) \<le> free_count (nodes t') + tally (\<lambda>i. arr t ! i \<noteq> VNil) [m..<length (arr t)]"
    "\<And>k. abs_get (t'\<lparr>arr := take m (arr t)\<rparr>) k =
         (case array_slot t2 k of Some i \<Rightarrow> (if i \<in> set [m..<length (arr t)] \<and> arr t ! i \<noteq> VNil then arr t ! i
                                            else abs_get (t2\<lparr>arr := take m (arr t)\<rparr>) k)
          | None \<Rightarrow> abs_get (t2\<lparr>arr := take m (arr t)\<rparr>) k)"
    using move_displaced_spec [OF t2(2), of "[m..<length (arr t)]"] table_inv_arr(2) [OF inv] unfolding a2 by auto
  let ?T2 = "t2\<lparr>arr := take m (arr t)\<rparr>"
  have sl: "array_slot t2 k = array_slot t k" for k by (rule array_slot_arr) (simp add: a2)
  have slT: "array_slot ?T2 k = Some i \<longleftrightarrow> array_slot t k = Some i \<and> i < m" for k i
    using True by (auto simp: array_slot_Some)
  have "abs_get (t'\<lparr>arr := take m (arr t)\<rparr>) k = (case array_slot t k of Some i \<Rightarrow> arr t ! i | None \<Rightarrow> VNil)" for k
  proof (cases "array_slot t k")
    case None
    then have "array_slot ?T2 k = None" using slT by (metis option.exhaust)
    then show ?thesis using None t2(3) unfolding t'(6) sl by (simp add: abs_get_def)
  next
    case (Some i)
    have "i < length (arr t)" using Some by (auto simp: array_slot_Some)
    moreover have "abs_get ?T2 k = (if i < m then arr t ! i else VNil)"
    proof (cases "i < m")
      case False
      then have "array_slot ?T2 k = None" using slT Some by (metis option.exhaust option.inject)
      then show ?thesis using False t2(3) by (simp add: abs_get_def)
    next
      case True
      then have "array_slot ?T2 k = Some i" using slT Some by simp
      then show ?thesis using True by (simp add: abs_get_def)
    qed
    ultimately show ?thesis using Some unfolding t'(6) sl by simp
  qed
  then show ?thesis using True t' unfolding array_tail_tally
    by (intro exI [of _ "t'\<lparr>arr := take m (arr t)\<rparr>"]) (simp add: shrink_step_def same_rest_def)
next
  case False
  then have len: "length (arr t2) = m" using t2(1) by simp
  then have T: "t2\<lparr>arr := take m (arr t2)\<rparr> = t2" by simp
  have "abs_get t2 k = (case array_slot t k of Some i \<Rightarrow> arr t ! i | None \<Rightarrow> VNil)" for k
  proof (cases "array_slot t k")
    case (Some i)
    then have "array_slot t2 k = Some i" "i < length (arr t)" using False len by (auto simp: array_slot_Some)
    then show ?thesis using Some t2(1) by (simp add: abs_get_def nth_append)
  next
    case None
    have "arr t2 ! i = VNil" if "array_slot t2 k = Some i" for i
    proof -
      have "i < m" "\<not> i < length (arr t)" using that None len array_slot_Some [of t2 k i] array_slot_Some [of t k i] by auto
      then show ?thesis using t2(1) False by (simp add: nth_append)
    qed
    then show ?thesis using None t2(3) by (auto simp: abs_get_def split: option.split)
  qed
  then show ?thesis using False len t2(2) unfolding T by (simp add: shrink_step_def same_rest_def)
qed

lemma resize_spec:
  assumes inv: "table_inv strings t" and m: "m \<le> MAXASIZE" and nh: "nh \<le> 2 ^ MAXBITS"
    and room: "tally (\<lambda>k. m < k) (array_cands (arr t))
        + tally (\<lambda>n. nvalue n \<noteq> VNil \<and> \<not> fits m (nkey n)) (nodes t) + extra \<le> nh"
  shows "\<exists>t'. resize t m nh strings = (Inr (), t') \<and> table_inv strings t' \<and> same_rest t t'
    \<and> m \<le> length (arr t') \<and> extra \<le> free_count (nodes t') \<and> (\<forall>k. abs_get t' k = abs_get t k)"
proof -
  let ?t1 = "ensure_array_capacity t m"
  have a1: "arr ?t1 = arr t @ replicate (m - length (arr t)) VNil" "same_rest t ?t1"
    by (auto simp: ensure_array_capacity_def same_rest_def)
  have "length (take m (arr ?t1)) \<le> MAXASIZE" using m by simp
  from new_hash_part_spec [OF nh this, of ?t1 strings] obtain t2 where
    t2: "new_hash_part nh ?t1 = (Inr (), t2)" "arr t2 = arr ?t1" "same_rest ?t1 t2"
      "table_inv strings (t2\<lparr>arr := take m (arr ?t1)\<rparr>)" "nh \<le> free_count (nodes t2)"
      "\<forall>k. hash_lookup (nodes t2) k = VNil \<and> (k \<noteq> VNil \<longrightarrow> absent (nodes t2) k)"
    by blast
  have "tally (\<lambda>k. m < k) (array_cands (arr t)) \<le> free_count (nodes t2)" using room t2(5) by simp
  from shrink_step_spec [OF inv m _ _ t2(6) this] t2(4) obtain t3 where
    t3: "shrink_step t2 m (length (arr t)) strings = (Inr (), t3)" "table_inv strings t3" "same_rest t2 t3"
      "length (arr t3) = m"
      "free_count (nodes t2) \<le> free_count (nodes t3) + tally (\<lambda>k. m < k) (array_cands (arr t))"
      "\<And>k. abs_get t3 k = (case array_slot t k of Some i \<Rightarrow> arr t ! i | None \<Rightarrow> VNil)"
    unfolding t2(2) a1(1) by blast
  note K = table_inv_keys [OF inv]
  have need: "need t3 (rev (nodes t)) = tally (\<lambda>n. nvalue n \<noteq> VNil \<and> \<not> fits m (nkey n)) (nodes t)"
  proof -
    have "array_slot t3 v = None \<longleftrightarrow> \<not> fits m v" for v using array_slot_fits [of t3 v] t3(4) m by metis
    then show ?thesis unfolding need_def tally_rev by simp
  qed
  have nok: "\<forall>n \<in> set (rev (nodes t)). nvalue n \<noteq> VNil \<longrightarrow> key_ok strings (nkey n)"
    using keys_okD [OF K] by (auto simp: in_set_conv_nth key_ok_def)
  have "need t3 (rev (nodes t)) \<le> free_count (nodes t3)" unfolding need using room t2(5) t3(5) by simp
  from reinsert_spec [OF t3(2) nok _ this] keys_ok_uniq [OF K] obtain t' where
    t': "reinsert (rev (nodes t)) t3 strings = (Inr (), t')" "table_inv strings t'" "same_rest t3 t'"
      "length (arr t3) \<le> length (arr t')" "free_count (nodes t3) \<le> free_count (nodes t') + need t3 (rev (nodes t))"
      "\<And>k. abs_get t' k = (if hash_lookup (nodes t) k \<noteq> VNil then hash_lookup (nodes t) k else abs_get t3 k)"
    unfolding uniq_rev hash_lookup_rev [OF K] by blast
  have "abs_get t' k = abs_get t k" for k
  proof (cases "array_slot t k")
    case None
    then show ?thesis unfolding t'(6) t3(6) by (simp add: abs_get_def)
  next
    case (Some i)
    have "hash_lookup (nodes t) k = VNil"
    proof (rule hash_lookup_absent)
      fix n assume "n \<in> set (nodes t)"
      then show "\<not> val_eq (nkey n) k" using table_inv_arr(1) [OF inv] array_slot_cong Some by fastforce
    qed
    then show ?thesis using Some unfolding t'(6) t3(6) by (simp add: abs_get_def)
  qed
  moreover have "resize t m nh strings = (Inr (), t')"
    using t2(1) t3(1) t'(1) by (simp add: resize_def Let_def shrink_step_def)
  moreover have "same_rest t t'" using a1(2) t2(3) t3(3) t'(3) by (meson same_rest_trans)
  moreover have "extra \<le> free_count (nodes t')" using room t2(5) t3(5) t'(5) unfolding need by simp
  ultimately show ?thesis using t'(2,4) t3(4) by auto
qed

section \<open>Assignment\<close>

lemma raw_set_impl_spec:
  assumes inv: "table_inv strings t" and k: "key_ok strings k" and use: "table_use t < 2 ^ MAXBITS"
  shows "\<exists>d t'. raw_set_impl t k v strings = (Inr d, t') \<and> table_inv strings t' \<and> same_rest t t'
    \<and> (\<forall>k'. abs_get t' k' = (if val_eq k' k then v else abs_get t k'))
    \<and> d = estimated_memory t' - estimated_memory t"
proof -
  let ?full = "\<lambda>t1 e. case rehash t1 k strings of
        (Inl e', t2) \<Rightarrow> (Inl e', t2)
      | (Inr _, t2) \<Rightarrow> (case raw_set_no_rehash t2 k v strings of
            (Inl e', t3) \<Rightarrow> (Inl e', t3)
          | (Inr _, t3) \<Rightarrow> (Inr (estimated_memory t3 - estimated_memory t1), t3))"
  have impl: "raw_set_impl t k v strings = raw_set_body ?full t k v strings" by (simp add: raw_set_impl_def)
  show ?thesis unfolding impl
  proof (rule raw_set_body_spec [OF inv k, of ?full v])
    fix d t' assume "raw_set_body ?full t k v strings = (Inr d, t')" "set_done strings t k v t'"
      "estimated_memory t' = estimated_memory t + d"
    then show "\<exists>d t'. raw_set_body ?full t k v strings = (Inr d, t') \<and> table_inv strings t' \<and> same_rest t t'
      \<and> (\<forall>k'. abs_get t' k' = (if val_eq k' k then v else abs_get t k'))
      \<and> d = estimated_memory t' - estimated_memory t"
      by (auto simp: set_done_def)
  next
    let ?t1 = "t\<lparr>last_free := 0\<rparr>"
    assume f: "raw_set_body ?full t k v strings = ?full ?t1 (TErr ''table overflow'')" "table_inv strings ?t1"
    obtain best nh where sz: "rehash_sizes ?t1 k = (best, nh)" by fastforce
    have "table_use ?t1 = table_use t" by (simp add: table_use_def)
    then have nh: "nh \<le> 2 ^ MAXBITS" using rehash_sizes_spec(3) [OF table_inv_arr(2) [OF f(2)] sz] use by simp
    note R = rehash_sizes_spec [OF table_inv_arr(2) [OF f(2)] sz]
    obtain t2 where t2: "resize ?t1 best nh strings = (Inr (), t2)" "table_inv strings t2" "same_rest ?t1 t2"
      "best \<le> length (arr t2)" "(if fits best k then 0 else 1) \<le> free_count (nodes t2)"
      "\<And>k. abs_get t2 k = abs_get ?t1 k"
      using resize_spec [OF f(2) R(2) nh, of "if fits best k then 0 else 1"] R(1) by auto
    have g1: "abs_get ?t1 k' = abs_get t k'" for k'
      using array_slot_arr [of ?t1 t k'] by (simp add: abs_get_def split: option.split)
    obtain d t3 where t3: "raw_set_no_rehash t2 k v strings = (Inr d, t3)" "set_done strings t2 k v t3"
      unfolding raw_set_no_rehash_def
    proof (rule raw_set_body_spec [OF t2(2) k, where full = "\<lambda>t e. (Inl e, t)" and v = v])
      assume z: "free_count (nodes t2) = 0" "array_slot t2 k = None"
      have "fits best k" using z(1) t2(5) by (simp split: if_splits)
      then have "fits (length (arr t2)) k" using t2(4) by (auto simp: fits_def split: option.splits)
      then show thesis using z(2) array_slot_fits [OF table_inv_arr(2) [OF t2(2)]] by blast
    qed blast
    have "raw_set_body ?full t k v strings = (Inr (estimated_memory t3 - estimated_memory ?t1), t3)"
      unfolding f(1) by (simp add: rehash_def sz t2(1) t3(1))
    moreover have "estimated_memory ?t1 = estimated_memory t" by (simp add: estimated_memory_def hash_size_def)
    moreover have "same_rest t t3" using t2(3) t3(2) by (simp add: set_done_def same_rest_def)
    ultimately show "\<exists>d t'. raw_set_body ?full t k v strings = (Inr d, t') \<and> table_inv strings t' \<and> same_rest t t'
      \<and> (\<forall>k'. abs_get t' k' = (if val_eq k' k then v else abs_get t k'))
      \<and> d = estimated_memory t' - estimated_memory t"
      using t3(2) by (auto simp: set_done_def t2(6) g1)
  qed
qed

end
