(* ===== verification/TableProps.thy ===== *)
theory TableProps
  imports Rehash
begin

text \<open>
  The contract of a table: lookups read its contents, an assignment changes exactly one key, the
  length is a border, traversal visits every entry once, and a sweep of the strings is harmless.
\<close>

section \<open>Borders\<close>

declare border_search.simps [simp del]

lemma border_search_spec:
  assumes "\<forall>j. \<exists>b. present j = Inr b" "lo < hi" "present hi = Inr False"
    "lo = 0 \<or> present lo = Inr True"
  shows "\<exists>n. border_search present lo hi = Inr n \<and> lo \<le> n \<and> n < hi
    \<and> (n = 0 \<or> present n = Inr True) \<and> present (n + 1) = Inr False"
  using assms
proof (induction present lo hi rule: border_search.induct)
  case (1 present lo hi)
  show ?case
  proof (cases "hi - lo > 1")
    case False
    then have "hi = lo + 1" using "1.prems"(2) by simp
    moreover have "border_search present lo hi = Inr lo" using False by (subst border_search.simps) simp
    ultimately show ?thesis using "1.prems" by simp
  next
    case True
    let ?m = "(lo + hi) div 2"
    have m: "lo < ?m" "?m < hi" using True by auto
    obtain b where b: "present ?m = Inr b" using "1.prems"(1) by blast
    show ?thesis
    proof (cases b)
      case True
      then obtain n where "border_search present ?m hi = Inr n" "?m \<le> n" "n < hi"
        "n = 0 \<or> present n = Inr True" "present (n + 1) = Inr False"
        using "1.IH"(1) [OF \<open>hi - lo > 1\<close> b] "1.prems" m b by auto
      then show ?thesis using \<open>hi - lo > 1\<close> b True m by (auto simp: border_search.simps [of present lo hi])
    next
      case False
      then obtain n where "border_search present lo ?m = Inr n" "lo \<le> n" "n < ?m"
        "n = 0 \<or> present n = Inr True" "present (n + 1) = Inr False"
        using "1.IH"(2) [OF \<open>hi - lo > 1\<close> b] "1.prems" m b by auto
      then show ?thesis using \<open>hi - lo > 1\<close> b False m by (auto simp: border_search.simps [of present lo hi])
    qed
  qed
qed

lemma exp_probe_spec:
  assumes "\<forall>j. \<exists>b. present j = Inr b" "i < j" "2 ^ 64 \<le> j * 2 ^ f" "i = 0 \<or> present i = Inr True"
  shows "\<exists>r. exp_probe f present i j = Inr r \<and> (case r of None \<Rightarrow> True
    | Some (i', j') \<Rightarrow> i' < j' \<and> present j' = Inr False \<and> (i' = 0 \<or> present i' = Inr True))
    \<or> 2 ^ 64 \<le> j"
  using assms
proof (induction f arbitrary: i j)
  case (Suc f)
  obtain b where b: "present j = Inr b" using Suc.prems(1) by blast
  show ?case
  proof (cases "b \<and> j * 2 < 2 ^ 64")
    case True
    then have "2 ^ 64 \<le> j * 2 * 2 ^ f" "j < j * 2" using Suc.prems by (auto simp: algebra_simps)
    then have "\<exists>r. exp_probe f present j (j * 2) = Inr r \<and> (case r of None \<Rightarrow> True
      | Some (i', j') \<Rightarrow> i' < j' \<and> present j' = Inr False \<and> (i' = 0 \<or> present i' = Inr True)) \<or> 2 ^ 64 \<le> j * 2"
      using Suc.IH [of j "j * 2"] Suc.prems(1) b True by auto
    then show ?thesis using True b by auto
  qed (use b Suc.prems in auto)
qed simp

text \<open>The keys \<open>1..n\<close> need \<open>n\<close> entries, so a run of present keys is no longer than the table.\<close>

lemma key_present_abs:
  assumes "table_inv strings t"
  shows "key_present t strings j = Inr (abs_get t (VNum (f64_of_int (int j))) \<noteq> VNil)"
  by (simp add: key_present_def tget_spec [OF assms])

lemma present_run_bound:
  assumes inv: "table_inv strings t" and n: "n < 2 ^ 53"
    and run: "\<forall>j. 1 \<le> j \<and> j \<le> n \<longrightarrow> abs_get t (VNum (f64_of_int (int j))) \<noteq> VNil"
  shows "n \<le> table_use t"
proof -
  let ?k = "\<lambda>j. VNum (f64_of_int (int j))"
  define A where "A = {j \<in> {1..n}. array_slot t (?k j) \<noteq> None}"
  define B where "B = {j \<in> {1..n}. array_slot t (?k j) = None}"
  have slot: "array_slot t (?k j) = (if j - 1 < length (arr t) then Some (j - 1) else None)" if "j \<in> {1..n}" for j
    using that n number_to_int_key_of_int [of "int j"] int_index_nat [of "int j"] by (simp add: array_slot_def)
  have "A \<subseteq> set (array_cands (arr t))"
  proof
    fix j assume "j \<in> A"
    then have j: "j \<in> {1..n}" "j - 1 < length (arr t)" using slot by (auto simp: A_def split: if_splits)
    then have "arr t ! (j - 1) \<noteq> VNil" using run slot by (auto simp: abs_get_def)
    then show "j \<in> set (array_cands (arr t))" using j by (auto simp: array_cands_def less_diff_conv simp del: upt_Suc)
  qed
  then have A: "card A \<le> length (array_cands (arr t))" by (meson card_length card_mono finite_set le_trans)
  have loc: "\<exists>i. i < length (nodes t) \<and> val_eq (nkey (nodes t ! i)) (?k j) \<and> nvalue (nodes t ! i) \<noteq> VNil" if "j \<in> B" for j
  proof -
    have "hash_lookup (nodes t) (?k j) \<noteq> VNil" using that run by (auto simp: B_def abs_get_def)
    then obtain k' where "val_eq k' (?k j)" "(k', hash_lookup (nodes t) (?k j)) \<in> hents (nodes t)"
      using hash_lookup_ents [OF table_inv_keys [OF inv]] by blast
    then show ?thesis using \<open>hash_lookup (nodes t) (?k j) \<noteq> VNil\<close> by (auto simp: hents_def in_set_conv_nth)
  qed
  define at where "at j = (SOME i. i < length (nodes t) \<and> val_eq (nkey (nodes t ! i)) (?k j) \<and> nvalue (nodes t ! i) \<noteq> VNil)" for j
  have at: "at j < length (nodes t)" "val_eq (nkey (nodes t ! at j)) (?k j)" "nvalue (nodes t ! at j) \<noteq> VNil" if "j \<in> B" for j
    using someI_ex [OF loc [OF that]] by (auto simp: at_def)
  have "inj_on at B"
  proof (rule inj_onI)
    fix a b assume ab: "a \<in> B" "b \<in> B" "at a = at b"
    then have "val_eq (?k a) (?k b)" using at(2) val_eq_sym val_eq_trans by metis
    then show "a = b" using f64_of_int_inj [of "int a" "int b"] ab n by (auto simp: B_def)
  qed
  moreover have "at ` B \<subseteq> {i. i < length (nodes t) \<and> nvalue (nodes t ! i) \<noteq> VNil}" using at by blast
  ultimately have "card B \<le> card {i. i < length (nodes t) \<and> nvalue (nodes t ! i) \<noteq> VNil}"
    by (intro card_inj_on_le) auto
  also have "\<dots> = tally (\<lambda>n. nvalue n \<noteq> VNil) (nodes t)" by (simp add: tally_def length_filter_conv_card)
  finally have B: "card B \<le> tally (\<lambda>n. nvalue n \<noteq> VNil) (nodes t)" .
  have "A \<union> B = {1..n}" "A \<inter> B = {}" by (auto simp: A_def B_def)
  then have "n = card A + card B" by (metis card_Un_disjoint card_atLeastAtMost diff_Suc_1 finite_Un finite_atLeastAtMost)
  then show ?thesis using A B by (simp add: table_use_def)
qed

lemma linear_spec:
  assumes inv: "table_inv strings t" and use: "table_use t < 2 ^ 52"
    and run: "\<forall>j. 1 \<le> j \<and> j < i \<longrightarrow> abs_get t (VNum (f64_of_int (int j))) \<noteq> VNil" and i: "1 \<le> i"
    and fuel: "table_use t + 2 \<le> fuel + i"
  shows "\<exists>n. linear_boundary_search fuel (key_present t strings) i = Inr n
    \<and> (n = 0 \<or> key_present t strings n = Inr True) \<and> key_present t strings (n + 1) = Inr False"
  using run i fuel
proof (induction fuel arbitrary: i)
  case 0
  have "table_use t + 1 \<le> table_use t"
    by (rule present_run_bound [OF inv]) (use 0 use in auto)
  then show ?case by simp
next
  case (Suc fuel)
  let ?p = "abs_get t (VNum (f64_of_int (int i))) \<noteq> VNil"
  show ?case
  proof (cases ?p)
    case True
    then have "\<forall>j. 1 \<le> j \<and> j < i + 1 \<longrightarrow> abs_get t (VNum (f64_of_int (int j))) \<noteq> VNil"
      using Suc.prems(1) by (metis Suc_eq_plus1 less_Suc_eq)
    then show ?thesis using Suc.IH [of "i + 1"] Suc.prems(3) True by (simp add: key_present_abs [OF inv])
  next
    case False
    have "i - 1 = 0 \<or> abs_get t (VNum (f64_of_int (int (i - 1)))) \<noteq> VNil"
      using Suc.prems(1) [rule_format, of "i - 1"] Suc.prems(2) by linarith
    then show ?thesis using False Suc.prems(2) by (auto simp: key_present_abs [OF inv] of_nat_diff)
  qed
qed

lemma table_len_spec:
  assumes inv: "table_inv strings t" and use: "table_use t < 2 ^ 52" and fuel: "table_use t + 2 \<le> fuel"
  shows "\<exists>n. table_len fuel t strings = Inr n
    \<and> (n = 0 \<or> key_present t strings n = Inr True) \<and> key_present t strings (n + 1) = Inr False"
proof -
  let ?len = "length (arr t)"
  have len: "?len \<le> MAXASIZE" by (rule table_inv_arr(2) [OF inv])
  have in_arr: "key_present t strings (i + 1) = Inr (arr t ! i \<noteq> VNil)" if "i < ?len" for i
    using that len array_slot_of_int [of i t] by (simp add: key_present_abs [OF inv] abs_get_def)
  consider (hole) "?len > 0" "arr t ! (?len - 1) = VNil" | (full) "nodes t = []" "?len = 0 \<or> arr t ! (?len - 1) \<noteq> VNil"
    | (probe) "nodes t \<noteq> []" "?len = 0 \<or> arr t ! (?len - 1) \<noteq> VNil" by blast
  then show ?thesis
  proof cases
    case hole
    let ?p = "\<lambda>m. Inr (\<not> is_nil (arr t ! (m - 1))) :: bool tres"
    obtain n where n: "border_search ?p 0 ?len = Inr n" "n < ?len" "n = 0 \<or> ?p n = Inr True" "?p (n + 1) = Inr False"
      using border_search_spec [of ?p 0 ?len] hole by auto
    have "n = 0 \<or> key_present t strings n = Inr True"
      using in_arr [of "n - 1"] n(2,3) by (cases n) auto
    then show ?thesis using hole n in_arr [of n] by (simp add: table_len_def)
  next
    case full
    have "array_slot t (VNum (f64_of_int (int (?len + 1)))) = None"
    proof -
      have b: "\<bar>int (?len + 1)\<bar> < 2 ^ 53" using len by (simp add: MAXASIZE_def MAXBITS_def)
      then have "int_index (int (?len + 1)) = ?len" using int_index_nat [of "int (?len + 1)"] by simp
      then show ?thesis using number_to_int_key_of_int [OF b] by (simp add: array_slot_def)
    qed
    then have "key_present t strings (?len + 1) = Inr False"
      using full by (simp add: key_present_abs [OF inv] abs_get_def)
    moreover have "?len = 0 \<or> key_present t strings ?len = Inr True"
      using full in_arr [of "?len - 1"] by (cases "?len") auto
    ultimately show ?thesis using full by (auto simp: table_len_def)
  next
    case probe
    have p0: "?len = 0 \<or> key_present t strings ?len = Inr True"
      using probe in_arr [of "?len - 1"] by (cases "?len") auto
    have tot: "\<forall>j. \<exists>b. key_present t strings j = Inr b" by (simp add: key_present_abs [OF inv])
    have "(2::nat) ^ 64 \<le> (?len + 1) * 2 ^ 65" by simp
    from exp_probe_spec [OF tot _ this p0] len obtain r where
      r: "exp_probe 65 (key_present t strings) ?len (?len + 1) = Inr r"
      "case r of None \<Rightarrow> True
        | Some (i', j') \<Rightarrow> i' < j' \<and> key_present t strings j' = Inr False \<and> (i' = 0 \<or> key_present t strings i' = Inr True)"
      by (auto simp: MAXASIZE_def MAXBITS_def)
    have tl: "table_len fuel t strings = unbound_search fuel t ?len strings"
      using probe by (auto simp: table_len_def)
    show ?thesis
    proof (cases r)
      case None
      have run: "\<forall>j. 1 \<le> j \<and> j < 1 \<longrightarrow> abs_get t (VNum (f64_of_int (int j))) \<noteq> VNil" by simp
      from linear_spec [OF inv use run, of fuel] fuel show ?thesis
        unfolding tl unbound_search_def r(1) by (simp add: None)
    next
      case (Some ij)
      obtain i j where ij: "ij = (i, j)" by (cases ij)
      then have "i < j" "key_present t strings j = Inr False" "i = 0 \<or> key_present t strings i = Inr True"
        using r(2) Some by auto
      from border_search_spec [OF tot this] show ?thesis
        unfolding tl unbound_search_def r(1) by (auto simp: Some ij)
    qed
  qed
qed

section \<open>Traversal\<close>

text \<open>All positions of the iteration order, and the entries among them.\<close>

definition positions :: "table \<Rightarrow> (Val \<times> Val) list" where
  "positions t = map (\<lambda>i. (VNum (f64_of_int (int (i + 1))), arr t ! i)) [0..<length (arr t)]
     @ map (\<lambda>n. (nkey n, nvalue n)) (nodes t)"

definition first_entry :: "(Val \<times> Val) list \<Rightarrow> (Val \<times> Val) option" where
  "first_entry kvs = find (\<lambda>kv. snd kv \<noteq> VNil) kvs"

definition entries :: "table \<Rightarrow> (Val \<times> Val) list" where
  "entries t = filter (\<lambda>kv. snd kv \<noteq> VNil) (positions t)"

lemma find_append: "find p (xs @ ys) = (case find p xs of Some x \<Rightarrow> Some x | None \<Rightarrow> find p ys)"
  by (induction xs) auto

lemma scan_array_find:
  "scan_array a is' = find (\<lambda>kv. snd kv \<noteq> VNil) (map (\<lambda>i. (VNum (f64_of_int (int (i + 1))), a ! i)) is')"
  by (induction is') auto

lemma scan_nodes_find: "scan_nodes ns = find (\<lambda>kv. snd kv \<noteq> VNil) (map (\<lambda>n. (nkey n, nvalue n)) ns)"
  by (induction ns) auto

lemma next_scan:
  "(case (if start < length (arr t) then scan_array (arr t) [start..<length (arr t)] else None) of
      Some kv \<Rightarrow> Some kv | None \<Rightarrow> scan_nodes (drop (start - length (arr t)) (nodes t)))
   = first_entry (drop start (positions t))"
  by (auto simp: first_entry_def positions_def find_append scan_array_find scan_nodes_find drop_map drop_upt
      split: option.split)

lemma table_next_at:
  assumes "find_index t key strings = Inr idx"
  shows "table_next t key strings = Inr (first_entry (drop (case idx of None \<Rightarrow> 0 | Some i \<Rightarrow> i + 1) (positions t)))"
  unfolding table_next_def assms next_scan [symmetric]
  by (simp add: Let_def split: option.split)

lemma find_index_array: "i < length (arr t) \<Longrightarrow> length (arr t) \<le> MAXASIZE \<Longrightarrow>
    find_index t (VNum (f64_of_int (int (i + 1)))) strings = Inr (Some i)"
  using array_slot_of_int [of i t] by (simp add: find_index_def)

lemma find_index_node:
  assumes "table_inv strings t" "i < length (nodes t)" "key_ok strings (nkey (nodes t ! i))"
  shows "find_index t (nkey (nodes t ! i)) strings = Inr (Some (i + length (arr t)))"
proof -
  let ?k = "nkey (nodes t ! i)"
  have ne: "nodes t \<noteq> []" using assms(2) by auto
  have k: "?k \<noteq> VNil" "\<not> dead_key strings ?k" "val_eq ?k ?k" using assms(3) by (auto simp: key_ok_def val_eq_refl)
  have slot: "array_slot t ?k = None" using table_inv_arr(1) [OF assms(1)] assms(2) by simp
  have "search t (\<lambda>x. val_eq x ?k) (val_main_position strings (hash_size t) ?k) = Inr (Some i)"
  proof (rule search_spec [OF assms(1) ne k(1,2), of "\<lambda>x. val_eq x ?k"])
    fix j assume "search t (\<lambda>x. val_eq x ?k) (val_main_position strings (hash_size t) ?k) = Inr (Some j)"
      "j < length (nodes t)" "val_eq (nkey (nodes t ! j)) ?k"
    then show ?thesis using keys_ok_only [OF table_inv_keys [OF assms(1)] _ assms(2) k(1) _ k(3)] by auto
  next
    assume "absent (nodes t) ?k"
    then show ?thesis using assms(2) k(3) by (auto simp: absent_def)
  qed simp
  then show ?thesis using ne k(1) slot by (simp add: find_index_def main_position_def)
qed

lemma positions_length: "length (positions t) = length (arr t) + length (nodes t)"
  by (simp add: positions_def)

lemma find_index_position:
  assumes inv: "table_inv strings t" and p: "p < length (positions t)"
    and k: "key_ok strings (fst (positions t ! p))"
  shows "find_index t (fst (positions t ! p)) strings = Inr (Some p)"
proof (cases "p < length (arr t)")
  case True
  then have "fst (positions t ! p) = VNum (f64_of_int (int (p + 1)))" by (simp add: positions_def nth_append)
  then show ?thesis using find_index_array [OF True table_inv_arr(2) [OF inv]] by simp
next
  case False
  let ?i = "p - length (arr t)"
  have i: "?i < length (nodes t)" using p False by (simp add: positions_length)
  then have e: "fst (positions t ! p) = nkey (nodes t ! ?i)" using False by (simp add: positions_def nth_append)
  show ?thesis using find_index_node [OF inv i] k False unfolding e by simp
qed

lemma key_ok_entry:
  assumes inv: "table_inv strings t" and p: "p < length (positions t)" "snd (positions t ! p) \<noteq> VNil"
  shows "key_ok strings (fst (positions t ! p))"
proof (cases "p < length (arr t)")
  case True
  then have b: "\<bar>int (p + 1)\<bar> < 2 ^ 53" using table_inv_arr(2) [OF inv] by (simp add: MAXASIZE_def MAXBITS_def)
  have "fst (positions t ! p) = VNum (f64_of_int (int (p + 1)))" using True by (simp add: positions_def nth_append)
  then show ?thesis using f64_of_int_finite [OF b]
    by (simp add: key_ok_def is_nan_val_def dead_key_def is_finite_def is_nan_def)
next
  case False
  let ?i = "p - length (arr t)"
  have i: "?i < length (nodes t)" using p(1) False by (simp add: positions_length)
  then have e: "positions t ! p = (nkey (nodes t ! ?i), nvalue (nodes t ! ?i))" using False
    by (simp add: positions_def nth_append)
  show ?thesis using keys_okD [OF table_inv_keys [OF inv] i] p(2) unfolding e by (auto simp: key_ok_def)
qed

text \<open>The loop of a program that walks the table with \<open>next\<close>.\<close>

fun traverse :: "nat \<Rightarrow> table \<Rightarrow> Val \<Rightarrow> string_arena \<Rightarrow> (Val \<times> Val) list tres" where
  "traverse 0 t k strings = Inl TLoop"
| "traverse (Suc fuel) t k strings = res_bind (table_next t k strings) (\<lambda>r. case r of
     None \<Rightarrow> Inr []
   | Some (k', v) \<Rightarrow> res_bind (traverse fuel t k' strings) (\<lambda>kvs. Inr ((k', v) # kvs)))"

lemma find_split: "find p xs = Some x \<Longrightarrow> \<exists>a b. xs = a @ x # b \<and> filter p a = [] \<and> p x"
proof (induction xs)
  case (Cons y ys)
  show ?case
  proof (cases "p y")
    case True
    then have "y # ys = [] @ x # ys \<and> filter p [] = [] \<and> p x" using Cons.prems by simp
    then show ?thesis by blast
  next
    case False
    then obtain a b where "ys = a @ x # b \<and> filter p a = [] \<and> p x" using Cons by auto
    then have "y # ys = (y # a) @ x # b \<and> filter p (y # a) = [] \<and> p x" using False by simp
    then show ?thesis by blast
  qed
qed simp

lemma find_None_filter: "find p xs = None \<Longrightarrow> filter p xs = []"
  by (induction xs) (auto split: if_splits)

lemma traverse_from:
  assumes inv: "table_inv strings t"
  shows "find_index t k strings = Inr idx \<Longrightarrow> s = (case idx of None \<Rightarrow> 0 | Some i \<Rightarrow> i + 1) \<Longrightarrow>
    length (filter (\<lambda>kv. snd kv \<noteq> VNil) (drop s (positions t))) < fuel \<Longrightarrow>
    traverse fuel t k strings = Inr (filter (\<lambda>kv. snd kv \<noteq> VNil) (drop s (positions t)))"
proof (induction fuel arbitrary: k idx s)
  case (Suc fuel)
  let ?P = "\<lambda>kv :: Val \<times> Val. snd kv \<noteq> VNil"
  note nx = table_next_at [OF Suc.prems(1)]
  show ?case
  proof (cases "find ?P (drop s (positions t))")
    case None
    then show ?thesis using nx Suc.prems(2) find_None_filter [OF None] by (simp add: first_entry_def)
  next
    case (Some kv)
    obtain a b where ab: "drop s (positions t) = a @ kv # b" "filter ?P a = []" "?P kv"
      using find_split [OF Some] by (elim exE conjE)
    let ?q = "s + length a"
    have b: "b = drop (?q + 1) (positions t)"
    proof -
      have "drop (length a + 1) (drop s (positions t)) = b" unfolding ab(1) by simp
      then show ?thesis by (simp only: drop_drop ac_simps)
    qed
    have "length (drop s (positions t)) = length a + 1 + length b" unfolding ab(1) by simp
    then have "length (positions t) - s = length a + 1 + length b" by (simp only: length_drop)
    then have q1: "?q < length (positions t)" by linarith
    have "drop s (positions t) ! length a = kv" unfolding ab(1) by simp
    then have "positions t ! ?q = kv" using q1 by (simp only: nth_drop [of s "positions t" "length a"])
    with q1 have q: "?q < length (positions t)" "positions t ! ?q = kv" .
    have "key_ok strings (fst kv)" using key_ok_entry [OF inv q(1)] ab(3) q(2) by simp
    then have fi: "find_index t (fst kv) strings = Inr (Some ?q)" using find_index_position [OF inv q(1)] q(2) by simp
    have "traverse fuel t (fst kv) strings = Inr (filter ?P b)"
      unfolding b by (rule Suc.IH [OF fi]) (use Suc.prems(3) ab b in auto)
    then show ?thesis using nx Suc.prems(2) Some ab by (cases kv) (simp add: first_entry_def)
  qed
qed simp

lemma traverse_entries:
  assumes "table_inv strings t" "length (entries t) < fuel"
  shows "traverse fuel t VNil strings = Inr (entries t)"
  using traverse_from [OF assms(1), of VNil None 0 fuel] assms(2) by (simp add: find_index_def entries_def)

lemma entries_abs:
  assumes inv: "table_inv strings t" and v: "v \<noteq> VNil"
  shows "abs_get t k = v \<longleftrightarrow> (\<exists>k'. val_eq k' k \<and> (k', v) \<in> set (entries t))"
proof -
  have set_e: "(k', v) \<in> set (entries t) \<longleftrightarrow> (k', v) \<in> hents (nodes t)
      \<or> (\<exists>i<length (arr t). k' = VNum (f64_of_int (int (i + 1))) \<and> arr t ! i = v)" for k'
    using v by (auto simp: entries_def positions_def hents_def)
  have slot_i: "array_slot t (VNum (f64_of_int (int (i + 1)))) = Some i" if "i < length (arr t)" for i
    using that table_inv_arr(2) [OF inv] array_slot_of_int [of i t] by simp
  note H = hash_lookup_ents [OF table_inv_keys [OF inv] v]
  show ?thesis
  proof (cases "array_slot t k")
    case None
    then have "\<not> val_eq (VNum (f64_of_int (int (i + 1)))) k" if "i < length (arr t)" for i
      using slot_i [OF that] array_slot_cong by fastforce
    then show ?thesis using H None by (auto simp: abs_get_def set_e)
  next
    case (Some i)
    have i: "i < length (arr t)" using Some by (auto simp: array_slot_Some)
    have "\<not> val_eq k' k" if "(k', v) \<in> hents (nodes t)" for k'
      using that table_inv_arr(1) [OF inv] array_slot_cong Some by (fastforce simp: hents_def)
    moreover have "val_eq (VNum (f64_of_int (int (j + 1)))) k \<longleftrightarrow> j = i" if "j < length (arr t)" for j
      using array_slot_inj [OF Some, of "VNum (f64_of_int (int (j + 1)))"] slot_i [OF that] by (simp del: val_eq.simps)
    ultimately show ?thesis using i Some by (auto simp: abs_get_def set_e simp del: val_eq.simps)
  qed
qed

section \<open>Sweeping the strings\<close>

lemma table_inv_sweep:
  assumes inv: "table_inv strings t"
    and keep: "\<forall>r. get strings' r = get strings r \<or> get strings' r = None"
    and dead: "\<forall>n \<in> set (nodes t). dead_key strings' (nkey n) \<longrightarrow> nvalue n = VNil"
  shows "table_inv strings' t"
proof (cases "nodes t = []")
  case True
  then show ?thesis using inv by (simp add: table_inv_def)
next
  case False
  let ?N = "length (nodes t)"
  have mono: "dead_key strings k \<Longrightarrow> dead_key strings' k" for k
  proof (cases k)
    case (VStr r)
    assume "dead_key strings k"
    then have "get strings r = None" using VStr by (simp add: dead_key_def)
    then have "get strings' r = None" using keep by metis
    then show ?thesis using VStr by (simp add: dead_key_def)
  qed (simp_all add: dead_key_def)
  have home: "val_main_position strings' ?N k = val_main_position strings ?N k" if "\<not> dead_key strings' k" for k
  proof (cases k)
    case (VStr r)
    then have "get strings' r \<noteq> None" using that by (simp add: dead_key_def)
    then have "get strings' r = get strings r" using keep by metis
    then show ?thesis using VStr by (simp add: val_main_position_def)
  qed (simp_all add: val_main_position_def)
  have S: "hp.scattered strings (nodes t)" by (rule table_inv_scattered(1) [OF inv False])
  have ho: "homes_ok (val_main_position strings ?N) (dead_key strings) (nodes t)" using S by (simp add: hp.scattered_def)
  have "homes_ok (val_main_position strings' ?N) (dead_key strings') (nodes t)" unfolding homes_ok_def
  proof (intro allI impI)
    fix i assume i: "i < ?N" "nkey (nodes t ! i) \<noteq> VNil \<and> \<not> dead_key strings' (nkey (nodes t ! i))"
    then have "\<not> dead_key strings (nkey (nodes t ! i))" using mono by blast
    note D = homes_okD [OF ho i(1) conjunct1 [OF i(2)] this]
    let ?m = "val_main_position strings ?N (nkey (nodes t ! i))"
    have h: "val_main_position strings' ?N (nkey (nodes t ! i)) = ?m" using home i(2) by blast
    have "dead_key strings' (nkey (nodes t ! ?m)) \<or> val_main_position strings' ?N (nkey (nodes t ! ?m)) = ?m"
      using D(4) home [of "nkey (nodes t ! ?m)"] mono by metis
    then show "val_main_position strings' ?N (nkey (nodes t ! i)) < ?N
        \<and> reach (nodes t) (val_main_position strings' ?N (nkey (nodes t ! i))) i
        \<and> nkey (nodes t ! val_main_position strings' ?N (nkey (nodes t ! i))) \<noteq> VNil
        \<and> (dead_key strings' (nkey (nodes t ! val_main_position strings' ?N (nkey (nodes t ! i)))) \<or>
           val_main_position strings' ?N (nkey (nodes t ! val_main_position strings' ?N (nkey (nodes t ! i))))
             = val_main_position strings' ?N (nkey (nodes t ! i)))"
      unfolding h using D by blast
  qed
  moreover have "keys_ok (dead_key strings') (nodes t)"
    using table_inv_keys [OF inv] dead by (auto simp: keys_ok_def)
  ultimately have "hp.scattered strings' (nodes t)" using S by (simp add: hp.scattered_def)
  then show ?thesis using inv False by (auto simp: table_inv_def)
qed

section \<open>The contract\<close>

lemma table_new_inv: "table_inv strings table_new"
  by (simp add: table_inv_def table_new_def)

lemma raw_set_spec:
  assumes "table_inv strings t" "key_ok strings k" "\<not> read_only t" "table_use t < 2 ^ MAXBITS"
  shows "\<exists>d t'. raw_set_with_memory_delta t k v strings = (Inr d, t') \<and> table_inv strings t'
    \<and> (\<forall>k'. abs_get t' k' = (if val_eq k' k then v else abs_get t k'))
    \<and> d = estimated_memory t' - estimated_memory t \<and> tmeta t' = tmeta t \<and> \<not> read_only t'"
proof -
  obtain t1 where t1: "raw_set_with_memory_delta t k v strings = raw_set_impl t1 k v strings" "t1 = t \<or> t1 = t\<lparr>tflags := 0\<rparr>"
    using assms(3) by (simp add: raw_set_with_memory_delta_def Let_def)
  have inv: "table_inv strings t1" using assms(1) t1(2) table_inv_frame [of "t\<lparr>tflags := 0\<rparr>" t] by auto
  have "array_slot (t\<lparr>tflags := 0\<rparr>) = array_slot t" by (intro ext array_slot_arr) simp
  then have g: "abs_get t1 = abs_get t" using t1(2) by (intro ext) (auto simp: abs_get_def split: option.split)
  have "table_use t1 = table_use t" "estimated_memory t1 = estimated_memory t" "tmeta t1 = tmeta t" "read_only t1 = read_only t"
    using t1(2) by (auto simp: table_use_def estimated_memory_def hash_size_def)
  then show ?thesis using raw_set_impl_spec [OF inv assms(2), of v] assms(3,4) unfolding t1(1) g
    by (auto simp: same_rest_def)
qed

text \<open>C1. An assignment succeeds and changes what exactly one key reads as; every other key reads
  as before, through any collision, rehash or migration between the array and the hash part.\<close>

theorem raw_set_correct:
  assumes "table_inv strings t" "key_ok strings k" "\<not> read_only t" "table_use t < 2 ^ MAXBITS"
  shows "\<exists>t'. raw_set t k v strings = (Inr (), t') \<and> table_inv strings t'
    \<and> (\<forall>k'. tget t' k' strings = (if val_eq k' k then Inr v else tget t k' strings))"
proof -
  obtain d t' where "raw_set_with_memory_delta t k v strings = (Inr d, t')" "table_inv strings t'"
    "\<And>k'. abs_get t' k' = (if val_eq k' k then v else abs_get t k')"
    using raw_set_spec [OF assms] by blast
  then show ?thesis using assms(1) by (simp add: raw_set_def tget_spec)
qed

theorem raw_set_correct_witness:
  "\<exists>t'. raw_set table_new (VBool True) (VBool False) (arena_new :: string_arena) = (Inr (), t')
    \<and> tget t' (VBool True) arena_new = Inr (VBool False)"
  using raw_set_correct [OF table_new_inv [of arena_new], of "VBool True" "VBool False"]
  by (auto simp: key_ok_def is_nan_val_def dead_key_def table_new_def table_use_def array_cands_def MAXBITS_def)

text \<open>The memory growth an assignment reports is exactly the growth of the two parts.\<close>

theorem raw_set_memory_delta:
  assumes "table_inv strings t" "key_ok strings k" "\<not> read_only t" "table_use t < 2 ^ MAXBITS"
  shows "case raw_set_with_memory_delta t k v strings of
      (Inr d, t') \<Rightarrow> d = estimated_memory t' - estimated_memory t | (Inl _, _) \<Rightarrow> False"
  using raw_set_spec [OF assms, of v] by auto

theorem raw_set_memory_delta_witness:
  "case raw_set_with_memory_delta table_new (VBool True) (VBool False) (arena_new :: string_arena) of
      (Inr d, t') \<Rightarrow> d = estimated_memory t' | (Inl _, _) \<Rightarrow> False"
proof -
  have z: "estimated_memory table_new = 0" by (simp add: estimated_memory_def table_new_def hash_size_def)
  have "key_ok (arena_new :: string_arena) (VBool True)" by (simp add: key_ok_def is_nan_val_def dead_key_def)
  moreover have "\<not> read_only table_new" "table_use table_new < 2 ^ MAXBITS"
    by (simp_all add: table_new_def table_use_def array_cands_def MAXBITS_def)
  ultimately show ?thesis
    using raw_set_memory_delta [OF table_new_inv, of arena_new "VBool True" "VBool False"]
    unfolding z by (simp only: diff_zero not_False_eq_True)
qed

text \<open>A read-only table, a nil key and a NaN key are refused with their own error, and the
  table is left as it was.\<close>

theorem raw_set_errors:
  "(read_only t \<longrightarrow> raw_set t k v strings = (Inl (TErr ''attempt to modify a read-only table''), t))
   \<and> (\<not> read_only t \<longrightarrow> raw_set t VNil v strings = (Inl (TErr ''table index is nil''), t))
   \<and> (\<not> read_only t \<and> is_nan n \<longrightarrow> raw_set t (VNum n) v strings = (Inl (TErr ''table index is NaN''), t))"
  by (simp add: raw_set_def raw_set_with_memory_delta_def raw_set_impl_def raw_set_body_def is_nan_val_def)

theorem raw_set_errors_witness:
  "raw_set (make_read_only table_new) VNil VNil (arena_new :: string_arena)
      = (Inl (TErr ''attempt to modify a read-only table''), make_read_only table_new)
   \<and> fst (raw_set table_new VNil VNil (arena_new :: string_arena)) = Inl (TErr ''table index is nil'')
   \<and> fst (raw_set table_new (VNum f64_nan) VNil (arena_new :: string_arena)) = Inl (TErr ''table index is NaN'')"
proof -
  have "read_only (make_read_only table_new)" "\<not> read_only table_new"
    by (simp_all add: make_read_only_def table_new_def)
  moreover have "is_nan f64_nan" by code_simp
  ultimately show ?thesis
    using raw_set_errors [where t = "make_read_only table_new" and k = VNil and v = VNil and strings = arena_new and n = f64_nan]
      raw_set_errors [where t = table_new and k = VNil and v = VNil and strings = arena_new and n = f64_nan] by simp
qed

text \<open>C37. Every lookup ends, and finds what a scan of the array part and of all hash nodes finds:
  following one collision chain is as good as looking everywhere.\<close>

theorem tget_linear_scan:
  assumes "table_inv strings t"
  shows "tget t k strings = Inr (case array_slot t k of Some i \<Rightarrow> arr t ! i | None \<Rightarrow> hash_lookup (nodes t) k)"
  using tget_spec [OF assms, of k] by (simp add: abs_get_def)

theorem tget_linear_scan_witness:
  "tget table_new (VBool True) (arena_new :: string_arena) = Inr VNil"
  using tget_linear_scan [OF table_new_inv, where strings = arena_new and k = "VBool True"] by (simp add: array_slot_def table_new_def)

text \<open>C38. The length operator ends and returns a border: the last key it counts is present and the
  next one is absent.\<close>

theorem table_len_border:
  assumes "table_inv strings t" "table_use t < 2 ^ 52" "table_use t + 2 \<le> fuel"
  shows "\<exists>n. table_len fuel t strings = Inr n
    \<and> (n = 0 \<or> key_present t strings n = Inr True) \<and> key_present t strings (n + 1) = Inr False"
  using table_len_spec [OF assms] .

theorem table_len_border_witness: "\<exists>n. table_len 2 table_new (arena_new :: string_arena) = Inr n"
  using table_len_border [OF table_new_inv [of arena_new], of 2]
  by (auto simp: table_new_def table_use_def array_cands_def)

text \<open>C36. Walking a table with \<open>next\<close> from nil ends, yields every entry exactly once in array then
  node order, and what it yields is what lookups read.\<close>

theorem traversal_complete:
  assumes "table_inv strings t" "length (entries t) < fuel"
  shows "traverse fuel t VNil strings = Inr (entries t)
    \<and> (v \<noteq> VNil \<longrightarrow> (tget t k strings = Inr v \<longleftrightarrow> (\<exists>k'. val_eq k' k \<and> (k', v) \<in> set (entries t))))"
  using traverse_entries [OF assms] entries_abs [OF assms(1), of v k] by (simp add: tget_spec [OF assms(1)])

theorem traversal_complete_witness: "traverse 1 table_new VNil (arena_new :: string_arena) = Inr []"
  using traversal_complete [OF table_new_inv [of arena_new], of 1 VNil VNil]
  by (simp add: entries_def positions_def table_new_def)

text \<open>\<open>next\<close> resumes from any key the table still has a place for, the entries assigned nil
  during the walk included.\<close>

theorem next_resumes:
  assumes "table_inv strings t" "p < length (positions t)" "key_ok strings (fst (positions t ! p))"
  shows "table_next t (fst (positions t ! p)) strings = Inr (first_entry (drop (p + 1) (positions t)))"
  using table_next_at [OF find_index_position [OF assms]] by simp

theorem next_resumes_witness:
  "table_next (table_new\<lparr>arr := [VNil, VBool True]\<rparr>) (VNum (f64_of_int 1)) (arena_new :: string_arena)
    = Inr (Some (VNum (f64_of_int 2), VBool True))"
proof -
  let ?t = "table_new\<lparr>arr := [VNil, VBool True]\<rparr>"
  have inv: "table_inv (arena_new :: string_arena) ?t" by (simp add: table_inv_def table_new_def MAXASIZE_def MAXBITS_def)
  have pos: "positions ?t = [(VNum (f64_of_int 1), VNil), (VNum (f64_of_int 2), VBool True)]"
    by (simp add: positions_def table_new_def)
  have "key_ok (arena_new :: string_arena) (VNum (f64_of_int 1))"
    using f64_of_int_finite [of 1] by (simp add: key_ok_def is_nan_val_def dead_key_def is_finite_def is_nan_def)
  then show ?thesis using next_resumes [OF inv, of 0] unfolding pos by (simp add: first_entry_def)
qed

text \<open>Sweeping strings leaves a table as good as it was: when every swept key has a nil value, the
  invariant holds over the swept strings and lookups of the surviving keys are unchanged.\<close>

theorem sweep_keeps_table:
  assumes "table_inv strings t"
    and "\<forall>r. get strings' r = get strings r \<or> get strings' r = None"
    and "\<forall>n \<in> set (nodes t). dead_key strings' (nkey n) \<longrightarrow> nvalue n = VNil"
  shows "table_inv strings' t \<and> tget t k strings' = tget t k strings"
  using table_inv_sweep [OF assms] assms(1) by (simp add: tget_spec)

theorem sweep_keeps_table_witness: "table_inv (arena_new :: string_arena) table_new"
  using sweep_keeps_table [OF table_new_inv [of arena_new], of arena_new] by (auto simp: table_new_def)

end
