(* ===== verification/RText.thy ===== *)
theory RText
  imports Prelude
begin

text \<open>
  Rust strings as their UTF-8 bytes, \<open>from_utf8_lossy\<close> as the standard library documents it (each
  maximal invalid run becomes U+FFFD), and the display form of chunk names,
  \<^verbatim>\<open>chunkid\<close> of \<^verbatim>\<open>src/error.rs\<close>. Slicing a string inside a character panics: \<open>None\<close>.
\<close>

section \<open>UTF-8\<close>

type_synonym rstring = "u8 list"

definition utf8_cont :: "u8 \<Rightarrow> bool" where
  "utf8_cont b \<longleftrightarrow> 128 \<le> b \<and> b < 192"

definition byte_at :: "u8 list \<Rightarrow> nat \<Rightarrow> u8" where
  "byte_at bs i = (if i < length bs then bs ! i else 0)"

text \<open>Whether the second byte may follow a given first one.\<close>

definition second_ok :: "u8 \<Rightarrow> u8 \<Rightarrow> bool" where
  "second_ok b c = (if b = 0xE0 then 0xA0 \<le> c \<and> c \<le> 0xBF
     else if b = 0xED then 0x80 \<le> c \<and> c \<le> 0x9F
     else if b = 0xF0 then 0x90 \<le> c \<and> c \<le> 0xBF
     else if b = 0xF4 then 0x80 \<le> c \<and> c \<le> 0x8F
     else utf8_cont c)"

text \<open>The length of the first character or invalid run, and whether it is a character.\<close>

definition utf8_head :: "u8 list \<Rightarrow> nat \<times> bool" where
  "utf8_head bs = (let b = byte_at bs 0 in
     if b < 128 then (1, True)
     else if 0xC2 \<le> b \<and> b \<le> 0xDF then
       (if utf8_cont (byte_at bs 1) then (2, True) else (1, False))
     else if 0xE0 \<le> b \<and> b \<le> 0xEF then
       (if \<not> second_ok b (byte_at bs 1) then (1, False)
        else if \<not> utf8_cont (byte_at bs 2) then (2, False) else (3, True))
     else if 0xF0 \<le> b \<and> b \<le> 0xF4 then
       (if \<not> second_ok b (byte_at bs 1) then (1, False)
        else if \<not> utf8_cont (byte_at bs 2) then (2, False)
        else if \<not> utf8_cont (byte_at bs 3) then (3, False) else (4, True))
     else (1, False))"

lemma utf8_head_pos: "0 < fst (utf8_head bs)"
  by (simp add: utf8_head_def Let_def)

lemma utf8_head_drop: "(n, ok) = utf8_head bs \<Longrightarrow> bs \<noteq> [] \<Longrightarrow> length bs - n < length bs"
  using utf8_head_pos [of bs] by (metis diff_less fst_conv length_greater_0_conv)

function utf8_lossy :: "u8 list \<Rightarrow> rstring" where
  "utf8_lossy bs = (if bs = [] then [] else
     (let (n, ok) = utf8_head bs in
       (if ok then take n bs else [0xEF, 0xBF, 0xBD]) @ utf8_lossy (drop n bs)))"
  by pat_completeness auto
termination
  by (relation "measure length") (auto dest: utf8_head_drop)

function valid_utf8 :: "u8 list \<Rightarrow> bool" where
  "valid_utf8 bs = (if bs = [] then True else
     (let (n, ok) = utf8_head bs in ok \<and> valid_utf8 (drop n bs)))"
  by pat_completeness auto
termination
  by (relation "measure length") (auto dest: utf8_head_drop)

declare utf8_lossy.simps [simp del] valid_utf8.simps [simp del]

lemma utf8_lossy_valid: "valid_utf8 bs \<Longrightarrow> utf8_lossy bs = bs"
proof (induction bs rule: utf8_lossy.induct)
  case (1 bs)
  show ?case
  proof (cases "bs = []")
    case False
    obtain n ok where h: "utf8_head bs = (n, ok)" by fastforce
    then have "ok" "valid_utf8 (drop n bs)" using "1.prems" False by (simp_all add: valid_utf8.simps [of bs])
    then show ?thesis using "1.IH" [OF False h [symmetric] refl] False h by (simp add: utf8_lossy.simps [of bs])
  qed (simp add: utf8_lossy.simps)
qed

lemma valid_utf8_ascii: "\<forall>b \<in> set bs. b < 128 \<Longrightarrow> valid_utf8 bs"
proof (induction bs)
  case (Cons b bs)
  then have "utf8_head (b # bs) = (1, True)" by (simp add: utf8_head_def byte_at_def)
  then show ?case using Cons by (simp add: valid_utf8.simps [of "b # bs"])
qed (simp add: valid_utf8.simps)

section \<open>Slicing\<close>

definition is_char_boundary :: "rstring \<Rightarrow> nat \<Rightarrow> bool" where
  "is_char_boundary s i \<longleftrightarrow> i = 0 \<or> i = length s \<or> (i < length s \<and> \<not> utf8_cont (s ! i))"

definition str_slice :: "rstring \<Rightarrow> nat \<Rightarrow> nat \<Rightarrow> rstring option" where
  "str_slice s a b = (if a \<le> b \<and> is_char_boundary s a \<and> is_char_boundary s b
     then Some (take (b - a) (drop a s)) else None)"

lemma is_char_boundary_ascii: "\<forall>b \<in> set s. b < 128 \<Longrightarrow> i \<le> length s \<Longrightarrow> is_char_boundary s i"
  by (cases "i = length s") (auto simp: is_char_boundary_def utf8_cont_def not_le)

section \<open>Chunk names\<close>

definition LUA_IDSIZE :: nat where "LUA_IDSIZE = 60"

definition ascii :: "string \<Rightarrow> u8 list" where
  "ascii s = map (\<lambda>c. word_of_nat (of_char c)) s"

definition first_line :: "rstring \<Rightarrow> rstring" where
  "first_line s = takeWhile (\<lambda>b. b \<noteq> 10) s"

definition chunkid :: "rstring \<Rightarrow> rstring option" where
  "chunkid source =
    (if take 1 source = [61] then
       (let rest = drop 1 source in
        if length rest < LUA_IDSIZE then Some rest else str_slice rest 0 (LUA_IDSIZE - 1))
     else if take 1 source = [64] then
       (let rest = drop 1 source in
        if length rest < LUA_IDSIZE then Some rest
        else map_option (\<lambda>s. ascii ''...'' @ s) (str_slice rest (length rest - (LUA_IDSIZE - 4)) (length rest)))
     else
       (let fl = first_line source;
            max_len = LUA_IDSIZE - length (ascii ''[string \"...\"]'')
        in if length fl \<le> max_len \<and> 10 \<notin> set source
           then Some (ascii ''[string \"'' @ fl @ ascii ''\"]'')
           else map_option (\<lambda>s. ascii ''[string \"'' @ s @ ascii ''...\"]'')
                  (str_slice fl 0 (min (length fl) max_len))))"

lemma ascii_length [simp]: "length (ascii s) = length s"
  by (simp add: ascii_def)

lemma str_slice_length: "str_slice s a b = Some r \<Longrightarrow> length r = min (length s) b - a"
  by (auto simp: str_slice_def split: if_splits)

text \<open>A display name never exceeds 60 bytes, and an ASCII chunk name, of any length, always has
  one: no slice in the function leaves the string or splits a character.\<close>

theorem chunkid_bounded:
  "(chunkid s = Some r \<longrightarrow> length r \<le> LUA_IDSIZE) \<and> ((\<forall>b \<in> set s. b < 128) \<longrightarrow> chunkid s \<noteq> None)"
proof (intro conjI impI)
  show "length r \<le> LUA_IDSIZE" if "chunkid s = Some r"
    using that by (auto simp: chunkid_def Let_def LUA_IDSIZE_def split: if_splits dest!: str_slice_length)
  assume a: "\<forall>b \<in> set s. b < 128"
  have d: "\<forall>b \<in> set (drop 1 s). b < 128" using a by (meson in_set_dropD)
  have f: "\<forall>b \<in> set (first_line s). b < 128" using a by (auto simp: first_line_def dest: set_takeWhileD)
  have "str_slice (drop 1 s) 0 (LUA_IDSIZE - 1) \<noteq> None" if "\<not> length (drop 1 s) < LUA_IDSIZE"
    using that is_char_boundary_ascii [OF d] by (simp add: str_slice_def is_char_boundary_def [of _ 0] LUA_IDSIZE_def)
  moreover have "str_slice (drop 1 s) (length (drop 1 s) - (LUA_IDSIZE - 4)) (length (drop 1 s)) \<noteq> None"
    using is_char_boundary_ascii [OF d] by (simp add: str_slice_def)
  moreover have "str_slice (first_line s) 0 (min (length (first_line s)) m) \<noteq> None" for m
    using is_char_boundary_ascii [OF f] by (simp add: str_slice_def is_char_boundary_def [of _ 0])
  ultimately show "chunkid s \<noteq> None" unfolding chunkid_def Let_def by simp
qed

theorem chunkid_bounded_witness:
  "chunkid (ascii ''@main.lua'') = Some (ascii ''main.lua'') \<and> length (ascii ''main.lua'') \<le> LUA_IDSIZE"
proof -
  have c: "chunkid (ascii ''@main.lua'') = Some (ascii ''main.lua'')" by code_simp
  then show ?thesis using chunkid_bounded [of "ascii ''@main.lua''" "ascii ''main.lua''"] by blast
qed

text \<open>A chunk name with a two-byte character across byte 46 of its first line is not displayed: the
  slice falls inside the character and the function panics.\<close>

theorem chunkid_splits_character:
  "valid_utf8 (replicate 45 97 @ [0xC3, 0xA9, 97]) \<and> chunkid (replicate 45 97 @ [0xC3, 0xA9, 97]) = None"
  by code_simp

end
