(* ===== verification/Chunk.thy ===== *)
theory Chunk
  imports RText Value Instr
begin

text \<open>
  Function prototypes (\<^verbatim>\<open>src/vm/proto.rs\<close>) and the binary chunk format: the writer of
  \<^verbatim>\<open>src/vm/dump.rs\<close> and the reader of \<^verbatim>\<open>src/vm/undump.rs\<close>. A writer
  operation is the bytes it appends; a reader operation takes the read position and returns
  it moved. Nested prototypes make the reader recursive, so it carries fuel; a reader that
  has more fuel than bytes never runs out of it.
\<close>

section \<open>Prototypes\<close>

datatype LocalVar = LocalVar (lv_name: rstring) (lv_start: u32) (lv_end: u32)

datatype StringPoolEntry = StringPoolEntry (sp_index: u32) (sp_bytes: "u8 list") (sp_hash: u32)

datatype Proto = Proto
  (pr_code: "u32 list")
  (pr_constants: "Val list")
  (pr_protos: "Proto list")
  (pr_line_info: "u32 list")
  (pr_local_vars: "LocalVar list")
  (pr_upvalue_names: "rstring list")
  (pr_source: rstring)
  (pr_short_source: rstring)
  (pr_line_defined: u32)
  (pr_last_line_defined: u32)
  (pr_num_upvalues: u8)
  (pr_num_params: u8)
  (pr_is_vararg: u8)
  (pr_max_stack_size: u8)
  (pr_string_pool: "StringPoolEntry list")
  (pr_global_slot_names: "u8 list option list")

definition VARARG_HASARG :: u8 where "VARARG_HASARG = 1"
definition VARARG_ISVARARG :: u8 where "VARARG_ISVARARG = 2"
definition VARARG_NEEDSARG :: u8 where "VARARG_NEEDSARG = 4"

text \<open>\<open>Proto::new\<close>; \<open>None\<close> is the panic of \<open>chunkid\<close>.\<close>

definition proto_new :: "rstring \<Rightarrow> Proto option" where
  "proto_new source = map_option (\<lambda>short. Proto [] [] [] [] [] [] source short 0 0 0 0 0 2 [] []) (chunkid source)"

section \<open>Little-endian words\<close>

definition le_bytes :: "nat \<Rightarrow> 'a::len word \<Rightarrow> u8 list" where
  "le_bytes n w = map (\<lambda>i. ucast (drop_bit (8 * i) w)) [0..<n]"

fun le_word :: "u8 list \<Rightarrow> 'a::len word" where
  "le_word [] = 0"
| "le_word (b # bs) = ucast b OR push_bit 8 (le_word bs)"

section \<open>Writing\<close>

definition LUA_SIGNATURE :: "u8 list" where "LUA_SIGNATURE = [0x1B, 76, 117, 97]"
definition LUAC_VERSION :: u8 where "LUAC_VERSION = 0x51"
definition LUAC_FORMAT :: u8 where "LUAC_FORMAT = 0"
definition LUAC_HEADERSIZE :: nat where "LUAC_HEADERSIZE = 12"
definition ENDIANNESS :: u8 where "ENDIANNESS = 1"
definition SIZEOF_INT :: u8 where "SIZEOF_INT = 4"
definition SIZEOF_SIZE_T :: u8 where "SIZEOF_SIZE_T = 8"
definition SIZEOF_INSTRUCTION :: u8 where "SIZEOF_INSTRUCTION = 4"
definition SIZEOF_LUA_NUMBER :: u8 where "SIZEOF_LUA_NUMBER = 8"
definition INTEGRAL_FLAG :: u8 where "INTEGRAL_FLAG = 0"
definition LUA_TNIL :: u8 where "LUA_TNIL = 0"
definition LUA_TBOOLEAN :: u8 where "LUA_TBOOLEAN = 1"
definition LUA_TNUMBER :: u8 where "LUA_TNUMBER = 3"
definition LUA_TSTRING :: u8 where "LUA_TSTRING = 4"

definition dump_byte :: "u8 \<Rightarrow> u8 list" where "dump_byte b = [b]"
definition dump_int :: "i32 \<Rightarrow> u8 list" where "dump_int n = le_bytes 4 n"
definition dump_size :: "u64 \<Rightarrow> u8 list" where "dump_size n = le_bytes 8 n"
definition dump_number :: "f64 \<Rightarrow> u8 list" where "dump_number n = le_bytes 8 n"

definition dump_string :: "u8 list option \<Rightarrow> u8 list" where
  "dump_string s = (case s of
     None \<Rightarrow> dump_size 0
   | Some data \<Rightarrow> dump_size (word_of_nat (length data) + 1) @ data @ dump_byte 0)"

definition dump_header :: "u8 list" where
  "dump_header = LUA_SIGNATURE @ dump_byte LUAC_VERSION @ dump_byte LUAC_FORMAT @ dump_byte ENDIANNESS
     @ dump_byte SIZEOF_INT @ dump_byte SIZEOF_SIZE_T @ dump_byte SIZEOF_INSTRUCTION
     @ dump_byte SIZEOF_LUA_NUMBER @ dump_byte INTEGRAL_FLAG"

definition make_header :: "u8 list" where
  "make_header = LUA_SIGNATURE @ [LUAC_VERSION, LUAC_FORMAT, ENDIANNESS, SIZEOF_INT, SIZEOF_SIZE_T,
     SIZEOF_INSTRUCTION, SIZEOF_LUA_NUMBER, INTEGRAL_FLAG]"

definition dump_code :: "Proto \<Rightarrow> u8 list" where
  "dump_code p = dump_int (word_of_nat (length (pr_code p))) @ concat (map (le_bytes 4) (pr_code p))"

definition pool_find :: "StringPoolEntry list \<Rightarrow> nat \<Rightarrow> u8 list option" where
  "pool_find pool i = map_option sp_bytes (find (\<lambda>e. sp_index e = word_of_nat i) pool)"

definition dump_constant :: "string_arena option \<Rightarrow> StringPoolEntry list \<Rightarrow> nat \<times> Val \<Rightarrow> u8 list" where
  "dump_constant arena pool iv = (case snd iv of
     VNil \<Rightarrow> (case pool_find pool (fst iv) of
         Some bytes \<Rightarrow> dump_byte LUA_TSTRING @ dump_string (Some bytes)
       | None \<Rightarrow> dump_byte LUA_TNIL)
   | VBool b \<Rightarrow> dump_byte LUA_TBOOLEAN @ dump_byte (if b then 1 else 0)
   | VNum n \<Rightarrow> dump_byte LUA_TNUMBER @ dump_number n
   | VStr r \<Rightarrow> dump_byte LUA_TSTRING @ (case arena of
         Some a \<Rightarrow> (case get a r of
             Some s \<Rightarrow> dump_string (Some (sdata s))
           | None \<Rightarrow> dump_string (Some []))
       | None \<Rightarrow> (case pool_find pool (fst iv) of
             Some bytes \<Rightarrow> dump_string (Some bytes)
           | None \<Rightarrow> dump_string (Some [])))
   | _ \<Rightarrow> dump_byte LUA_TNIL)"

definition dump_local_var :: "LocalVar \<Rightarrow> u8 list" where
  "dump_local_var v = dump_string (Some (lv_name v)) @ dump_int (ucast (lv_start v)) @ dump_int (ucast (lv_end v))"

definition dump_debug :: "bool \<Rightarrow> Proto \<Rightarrow> u8 list" where
  "dump_debug strip p =
    (if strip then dump_int 0 @ dump_int 0 @ dump_int 0
     else dump_int (word_of_nat (length (pr_line_info p))) @ concat (map (\<lambda>l. dump_int (ucast l)) (pr_line_info p))
        @ dump_int (word_of_nat (length (pr_local_vars p))) @ concat (map dump_local_var (pr_local_vars p))
        @ dump_int (word_of_nat (length (pr_upvalue_names p)))
        @ concat (map (\<lambda>n. dump_string (Some n)) (pr_upvalue_names p)))"

lemma child_smaller: "c \<in> set (pr_protos p) \<Longrightarrow> size c < size p"
  by (cases p) (auto dest!: size_list_estimation' [where f = size, OF _ le_refl])

function dump_function :: "string_arena option \<Rightarrow> bool \<Rightarrow> Proto \<Rightarrow> rstring \<Rightarrow> u8 list" where
  "dump_function arena strip p parent =
     (if pr_source p = parent then dump_string None else dump_string (Some (pr_source p)))
     @ dump_int (ucast (pr_line_defined p)) @ dump_int (ucast (pr_last_line_defined p))
     @ dump_byte (pr_num_upvalues p) @ dump_byte (pr_num_params p)
     @ dump_byte (pr_is_vararg p) @ dump_byte (pr_max_stack_size p)
     @ dump_code p
     @ dump_int (word_of_nat (length (pr_constants p)))
     @ concat (map (dump_constant arena (pr_string_pool p)) (enumerate 0 (pr_constants p)))
     @ dump_int (word_of_nat (length (pr_protos p)))
     @ concat (map (\<lambda>child. dump_function arena strip child (pr_source p)) (pr_protos p))
     @ dump_debug strip p"

  by pat_completeness auto
termination
  by (relation "measure (\<lambda>(_, _, p, _). size p)") (auto dest: child_smaller)

declare dump_function.simps [simp del]

definition dump :: "Proto \<Rightarrow> string_arena option \<Rightarrow> bool \<Rightarrow> u8 list" where
  "dump p arena strip = dump_header @ dump_function arena strip p []"

section \<open>Reading\<close>

text \<open>
  A reason, with the message built from it and the chunk name; a panic of the code; fuel.
\<close>

datatype load_error = LErr string | LPanic | LFuel

type_synonym 'a loader = "u8 list \<Rightarrow> nat \<Rightarrow> (load_error, 'a \<times> nat) res"

definition load_bind :: "'a loader \<Rightarrow> ('a \<Rightarrow> 'b loader) \<Rightarrow> 'b loader" where
  "load_bind m f = (\<lambda>data pos. res_bind (m data pos) (\<lambda>(x, pos'). f x data pos'))"

definition load_return :: "'a \<Rightarrow> 'a loader" where
  "load_return x = (\<lambda>data pos. Inr (x, pos))"

definition load_fail :: "load_error \<Rightarrow> 'a loader" where
  "load_fail e = (\<lambda>data pos. Inl e)"

text \<open>The message of the syntax error a reader reports.\<close>

definition load_message :: "rstring \<Rightarrow> string \<Rightarrow> rstring" where
  "load_message name reason = name @ ascii '': '' @ ascii reason @ ascii '' in precompiled chunk''"

definition load_byte :: "u8 loader" where
  "load_byte = (\<lambda>data pos. if pos \<ge> length data then Inl (LErr ''truncated'') else Inr (data ! pos, pos + 1))"

text \<open>
  \<open>pos + n\<close> is on 64 bits: when it overflows the checked build panics there and the unchecked one
  at the slice whose end is before its start.
\<close>

definition load_block :: "nat \<Rightarrow> u8 list loader" where
  "load_block n = (\<lambda>data pos. if pos + n \<ge> 2 ^ 64 then Inl LPanic
     else if pos + n > length data then Inl (LErr ''truncated'')
     else Inr (take n (drop pos data), pos + n))"

definition load_int :: "i32 loader" where
  "load_int = load_bind (load_block 4) (\<lambda>bytes. load_return (le_word bytes))"

text \<open>\<open>as usize\<close> extends the sign.\<close>

definition as_usize :: "i32 \<Rightarrow> nat" where
  "as_usize n = unat (scast n :: u64)"

fun chunks4 :: "u8 list \<Rightarrow> u8 list list" where
  "chunks4 (a # b # c # d # rest) = [a, b, c, d] # chunks4 rest"
| "chunks4 _ = []"

definition load_u32_vec :: "nat \<Rightarrow> u32 list loader" where
  "load_u32_vec n = (if n * 4 \<ge> 2 ^ 64 then load_fail (LErr ''size overflow'')
     else load_bind (load_block (n * 4)) (\<lambda>bytes. load_return (map le_word (chunks4 bytes))))"

definition load_size :: "u64 loader" where
  "load_size = load_bind (load_block 8) (\<lambda>bytes. load_return (le_word bytes))"

definition load_number :: "f64 loader" where
  "load_number = load_bind (load_block 8) (\<lambda>bytes. load_return (le_word bytes))"

definition load_string :: "u8 list option loader" where
  "load_string = load_bind load_size (\<lambda>size.
     if size = 0 then load_return None
     else load_bind (load_block (unat (size - 1))) (\<lambda>data.
          load_bind load_byte (\<lambda>_. load_return (Some data))))"

definition load_header :: "unit loader" where
  "load_header = load_bind (load_block (length LUA_SIGNATURE)) (\<lambda>sig.
     if sig \<noteq> LUA_SIGNATURE then load_fail (LErr ''not a precompiled chunk'')
     else load_bind (load_block (LUAC_HEADERSIZE - length LUA_SIGNATURE)) (\<lambda>rest.
       if rest \<noteq> drop (length LUA_SIGNATURE) make_header then load_fail (LErr ''incompatible precompiled chunk'')
       else load_return ()))"

text \<open>\<open>Vec::reserve\<close> panics when the bytes asked for exceed \<open>isize::MAX\<close>.\<close>

definition reserve :: "nat \<Rightarrow> nat \<Rightarrow> unit loader" where
  "reserve n elem_size = (if n * elem_size > 2 ^ 63 - 1 then load_fail LPanic else load_return ())"

definition unwrap_or_default :: "u8 list option \<Rightarrow> u8 list" where
  "unwrap_or_default o' = (case o' of None \<Rightarrow> [] | Some bs \<Rightarrow> bs)"

definition load_constant :: "nat \<Rightarrow> (Val \<times> StringPoolEntry list) loader" where
  "load_constant i = load_bind load_byte (\<lambda>tag.
     if tag = LUA_TNIL then load_return (VNil, [])
     else if tag = LUA_TBOOLEAN then load_bind load_byte (\<lambda>b. load_return (VBool (b \<noteq> 0), []))
     else if tag = LUA_TNUMBER then load_bind load_number (\<lambda>n. load_return (VNum n, []))
     else if tag = LUA_TSTRING then load_bind load_string (\<lambda>s.
        (let bytes = unwrap_or_default s in
         load_return (VNil, [StringPoolEntry (word_of_nat i) bytes (lua_hash bytes)])))
     else load_fail (LErr ''bad constant type''))"

text \<open>\<open>for i in from..from + n\<close>, collecting what the body returns.\<close>

primrec load_loop :: "(nat \<Rightarrow> 'a loader) \<Rightarrow> nat \<Rightarrow> nat \<Rightarrow> 'a list loader" where
  "load_loop f i 0 = load_return []"
| "load_loop f i (Suc n) = load_bind (f i) (\<lambda>x. load_bind (load_loop f (i + 1) n) (\<lambda>xs. load_return (x # xs)))"

definition load_local_var :: "LocalVar loader" where
  "load_local_var = load_bind load_string (\<lambda>name. load_bind load_int (\<lambda>s. load_bind load_int (\<lambda>e.
     load_return (LocalVar (utf8_lossy (unwrap_or_default name)) (ucast s) (ucast e)))))"

definition load_debug :: "(u32 list \<times> LocalVar list \<times> rstring list) loader" where
  "load_debug = load_bind load_int (\<lambda>n. load_bind (load_u32_vec (as_usize n)) (\<lambda>lines.
     load_bind load_int (\<lambda>n. load_bind (reserve (as_usize n) 32) (\<lambda>_.
     load_bind (load_loop (\<lambda>_. load_local_var) 0 (as_usize n)) (\<lambda>vars.
     load_bind load_int (\<lambda>n. load_bind (reserve (as_usize n) 24) (\<lambda>_.
     load_bind (load_loop (\<lambda>_. load_bind load_string (\<lambda>name.
         load_return (utf8_lossy (unwrap_or_default name)))) 0 (as_usize n)) (\<lambda>names.
     load_return (lines, vars, names)))))))))"

definition load_constants :: "(Val list \<times> StringPoolEntry list) loader" where
  "load_constants = load_bind load_int (\<lambda>n. load_bind (reserve (as_usize n) 16) (\<lambda>_.
     load_bind (load_loop load_constant 0 (as_usize n)) (\<lambda>cs.
     load_return (map fst cs, concat (map snd cs)))))"

definition load_source :: "rstring \<Rightarrow> (rstring \<times> rstring) loader" where
  "load_source parent = load_bind load_string (\<lambda>s.
     (let source = (case s of Some bytes \<Rightarrow> utf8_lossy bytes | None \<Rightarrow> parent) in
      case chunkid source of None \<Rightarrow> load_fail LPanic | Some short \<Rightarrow> load_return (source, short)))"

primrec load_function :: "nat \<Rightarrow> rstring \<Rightarrow> Proto loader" where
  "load_function 0 parent = load_fail LFuel"
| "load_function (Suc fuel) parent =
     load_bind (load_source parent) (\<lambda>(source, short).
     load_bind load_int (\<lambda>line_defined. load_bind load_int (\<lambda>last_line_defined.
     load_bind load_byte (\<lambda>num_upvalues. load_bind load_byte (\<lambda>num_params.
     load_bind load_byte (\<lambda>is_vararg. load_bind load_byte (\<lambda>max_stack_size.
     load_bind load_int (\<lambda>n. load_bind (load_u32_vec (as_usize n)) (\<lambda>code.
     load_bind load_constants (\<lambda>(constants, pool).
     load_bind load_int (\<lambda>np. load_bind (reserve (as_usize np) 8) (\<lambda>_.
     load_bind (load_loop (\<lambda>_. load_function fuel source) 0 (as_usize np)) (\<lambda>protos.
     load_bind load_debug (\<lambda>(lines, vars, names).
     load_return (Proto code constants protos lines vars names source short (ucast line_defined)
       (ucast last_line_defined) num_upvalues num_params is_vararg max_stack_size pool [])))))))))))))))"

definition undump_fuel :: "nat \<Rightarrow> u8 list \<Rightarrow> rstring \<Rightarrow> (load_error, Proto) res" where
  "undump_fuel fuel data name =
    res_bind (load_bind load_header (\<lambda>_. load_function fuel name) data 0) (\<lambda>(p, _). Inr p)"

text \<open>The nesting of a chunk is bounded by its length, so that much fuel is always enough.\<close>

definition undump :: "u8 list \<Rightarrow> rstring \<Rightarrow> (load_error, Proto) res" where
  "undump data name = undump_fuel (length data + 1) data name"

end
