(* ===== verification/Objects.thy ===== *)
theory Objects
  imports Table Chunk
begin

text \<open>
  The heap objects besides strings and tables: upvalues and closures of
  \<^verbatim>\<open>src/vm/closure.rs\<close>, userdata of \<^verbatim>\<open>src/vm/value.rs\<close>, call frames of
  \<^verbatim>\<open>src/vm/callinfo.rs\<close>, coroutines and the heap itself (\<^verbatim>\<open>Gc\<close>) of
  \<^verbatim>\<open>src/vm/state.rs\<close>, with metamethod lookup of \<^verbatim>\<open>src/vm/metatable.rs\<close>.
  Byte counters of the collector are naturals: no run allocates \<open>2 ^ 64\<close> bytes.
\<close>

section \<open>Upvalues\<close>

datatype UpvalueState = Open nat | Closed Val

record upvalue = uv_state :: UpvalueState

definition new_open :: "nat \<Rightarrow> upvalue" where "new_open i = \<lparr>uv_state = Open i\<rparr>"
definition new_closed :: "Val \<Rightarrow> upvalue" where "new_closed v = \<lparr>uv_state = Closed v\<rparr>"

definition is_open :: "upvalue \<Rightarrow> bool" where
  "is_open uv = (case uv_state uv of Open _ \<Rightarrow> True | Closed _ \<Rightarrow> False)"

definition stack_index :: "upvalue \<Rightarrow> nat option" where
  "stack_index uv = (case uv_state uv of Open i \<Rightarrow> Some i | Closed _ \<Rightarrow> None)"

definition uv_get :: "upvalue \<Rightarrow> Val list \<Rightarrow> Val" where
  "uv_get uv stack = (case uv_state uv of
     Open i \<Rightarrow> (if i < length stack then stack ! i else VNil)
   | Closed v \<Rightarrow> v)"

definition uv_set :: "upvalue \<Rightarrow> Val list \<Rightarrow> Val \<Rightarrow> upvalue \<times> Val list" where
  "uv_set uv stack v = (case uv_state uv of
     Open i \<Rightarrow> (uv, if i < length stack then stack[i := v] else stack)
   | Closed _ \<Rightarrow> (uv\<lparr>uv_state := Closed v\<rparr>, stack))"

definition uv_close :: "upvalue \<Rightarrow> Val list \<Rightarrow> upvalue" where
  "uv_close uv stack = (case uv_state uv of
     Open i \<Rightarrow> uv\<lparr>uv_state := Closed (if i < length stack then stack ! i else VNil)\<rparr>
   | Closed _ \<Rightarrow> uv)"

section \<open>Closures\<close>

record lua_closure =
  lc_proto :: Proto
  lc_upvalues :: "GcRef list"
  lc_env :: GcRef

definition lua_closure_new :: "Proto \<Rightarrow> GcRef \<Rightarrow> lua_closure" where
  "lua_closure_new proto env = \<lparr>lc_proto = proto, lc_upvalues = [], lc_env = env\<rparr>"

text \<open>A native function pointer is a code address.\<close>

record rust_closure =
  rc_func :: nat
  rc_upvalues :: "Val list"
  rc_name :: rstring
  rc_env :: "GcRef option"

definition rust_closure_new :: "nat \<Rightarrow> rstring \<Rightarrow> rust_closure" where
  "rust_closure_new f name = \<lparr>rc_func = f, rc_upvalues = [], rc_name = name, rc_env = None\<rparr>"

datatype Closure = LuaC lua_closure | RustC rust_closure

definition is_rust :: "Closure \<Rightarrow> bool" where
  "is_rust c = (case c of LuaC _ \<Rightarrow> False | RustC _ \<Rightarrow> True)"
definition is_lua :: "Closure \<Rightarrow> bool" where
  "is_lua c = (case c of LuaC _ \<Rightarrow> True | RustC _ \<Rightarrow> False)"
definition as_lua :: "Closure \<Rightarrow> lua_closure option" where
  "as_lua c = (case c of LuaC l \<Rightarrow> Some l | RustC _ \<Rightarrow> None)"
definition as_rust :: "Closure \<Rightarrow> rust_closure option" where
  "as_rust c = (case c of LuaC _ \<Rightarrow> None | RustC r \<Rightarrow> Some r)"

section \<open>Userdata\<close>

text \<open>The host's payload is not modelled: no operation here looks into it.\<close>

record userdata =
  ud_metatable :: "GcRef option"
  ud_env :: "GcRef option"
  ud_finalized :: bool
  ud_alloc_seq :: u64
  ud_secret_value :: "Val option"

definition userdata_new :: userdata where
  "userdata_new = \<lparr>ud_metatable = None, ud_env = None, ud_finalized = False, ud_alloc_seq = 0, ud_secret_value = None\<rparr>"

definition userdata_with_metatable :: "GcRef \<Rightarrow> userdata" where
  "userdata_with_metatable mt = userdata_new\<lparr>ud_metatable := Some mt\<rparr>"

definition userdata_secret :: "Val \<Rightarrow> userdata" where
  "userdata_secret v = userdata_new\<lparr>ud_secret_value := Some v\<rparr>"

section \<open>Call frames and coroutines\<close>

definition LUA_MULTRET :: int where "LUA_MULTRET = -1"
definition LUA_MINSTACK :: nat where "LUA_MINSTACK = 20"
definition BASIC_STACK_SIZE :: nat where "BASIC_STACK_SIZE = 2 * LUA_MINSTACK"

record call_info =
  ci_func :: nat
  ci_base :: nat
  ci_top :: nat
  ci_saved_pc :: nat
  ci_num_results :: int
  ci_tail_calls :: int
  ci_is_lua :: bool
  ci_taint :: "rstring option"

definition call_info_new :: "nat \<Rightarrow> nat \<Rightarrow> nat \<Rightarrow> int \<Rightarrow> call_info" where
  "call_info_new func base tp num_results = \<lparr>ci_func = func, ci_base = base, ci_top = tp, ci_saved_pc = 0,
     ci_num_results = num_results, ci_tail_calls = 0, ci_is_lua = False, ci_taint = None\<rparr>"

datatype ThreadStatus = Initial | Running | Suspended | Normal | Dead

record hook_state =
  hook_func :: Val
  hook_mask :: u8
  allow_hook :: bool
  base_hook_count :: int
  hook_count :: int
  yield_on_hook :: bool

definition hook_new :: hook_state where
  "hook_new = \<lparr>hook_func = VNil, hook_mask = 0, allow_hook = True, base_hook_count = 0, hook_count = 0,
     yield_on_hook = False\<rparr>"

definition hook_is_active :: "hook_state \<Rightarrow> bool" where
  "hook_is_active h \<longleftrightarrow> hook_mask h \<noteq> 0 \<and> \<not> is_nil (hook_func h)"

definition should_fire :: "hook_state \<Rightarrow> bool" where
  "should_fire h \<longleftrightarrow> hook_is_active h \<and> allow_hook h"

record lthread =
  th_stack :: "Val list"
  th_base :: nat
  th_top :: nat
  th_call_stack :: "call_info list"
  th_ci :: nat
  th_n_ccalls :: nat
  th_call_depth :: nat
  th_ci_overflow :: bool
  th_open_upvalues :: "GcRef list"
  th_suspended_upvals :: "(GcRef \<times> nat) list"
  th_error_object :: "Val option"
  th_status :: ThreadStatus
  th_global :: GcRef
  th_hook :: hook_state
  th_syntactic_global_lookup :: bool
  th_yielded_in_hook :: bool

definition thread_new :: "Val \<Rightarrow> GcRef \<Rightarrow> lthread" where
  "thread_new func global = \<lparr>th_stack = (replicate BASIC_STACK_SIZE VNil)[0 := func], th_base = 1, th_top = 1,
     th_call_stack = [call_info_new 0 1 (1 + LUA_MINSTACK) LUA_MULTRET], th_ci = 0, th_n_ccalls = 0,
     th_call_depth = 0, th_ci_overflow = False, th_open_upvalues = [], th_suspended_upvals = [],
     th_error_object = None, th_status = Initial, th_global = global, th_hook = hook_new,
     th_syntactic_global_lookup = False, th_yielded_in_hook = False\<rparr>"

section \<open>The heap\<close>

datatype GrayItem = GTable GcRef | GClosure GcRef | GThread GcRef | GMainThread

datatype GcPhase = Pause | Propagate | SweepString | Sweep | Finalize

record sweep_cursor =
  arena_index :: nat
  slot_position :: u32

definition DEFAULT_GC_PAUSE :: nat where "DEFAULT_GC_PAUSE = 200"
definition DEFAULT_GC_STEPMUL :: nat where "DEFAULT_GC_STEPMUL = 200"
definition INITIAL_GC_THRESHOLD :: nat where "INITIAL_GC_THRESHOLD = 64 * 1024"
definition GCSTEPSIZE :: nat where "GCSTEPSIZE = 1024"
definition GCSWEEPMAX :: u32 where "GCSWEEPMAX = 80"
definition GCSWEEPCOST :: nat where "GCSWEEPCOST = 10"
definition GCFINALIZECOST :: nat where "GCFINALIZECOST = 100"
definition EST_STRING_SIZE :: nat where "EST_STRING_SIZE = 48"
definition EST_TABLE_SIZE :: nat where "EST_TABLE_SIZE = 64"
definition EST_CLOSURE_SIZE :: nat where "EST_CLOSURE_SIZE = 48"
definition EST_UPVALUE_SIZE :: nat where "EST_UPVALUE_SIZE = 24"
definition EST_USERDATA_SIZE :: nat where "EST_USERDATA_SIZE = 48"
definition EST_THREAD_SIZE :: nat where "EST_THREAD_SIZE = 256"

text \<open>\<open>gray\<close> is the vector with its end first: a push conses, a pop takes the head.\<close>

record gc_state =
  gray :: "GrayItem list"
  grayagain :: "GrayItem list"
  weak_tables :: "GcRef list"
  total_bytes :: nat
  gc_threshold :: nat
  gc_pause :: nat
  gc_stepmul :: nat
  gc_running :: bool
  gc_phase :: GcPhase
  gc_cursor :: sweep_cursor
  gc_estimate :: nat
  gc_debt :: int
  tmudata :: "GcRef list"
  ud_alloc_seq_next :: u64
  alloc_limit :: nat
  max_bytes :: nat

definition gc_state_new :: gc_state where
  "gc_state_new = \<lparr>gray = [], grayagain = [], weak_tables = [], total_bytes = 0,
     gc_threshold = INITIAL_GC_THRESHOLD, gc_pause = DEFAULT_GC_PAUSE, gc_stepmul = DEFAULT_GC_STEPMUL,
     gc_running = False, gc_phase = Pause, gc_cursor = \<lparr>arena_index = 0, slot_position = 0\<rparr>,
     gc_estimate = 0, gc_debt = 0, tmudata = [], ud_alloc_seq_next = 0, alloc_limit = USIZE_MAX, max_bytes = 0\<rparr>"

definition track_alloc :: "nat \<Rightarrow> gc_state \<Rightarrow> gc_state" where
  "track_alloc n s = (let t = total_bytes s + n in
     s\<lparr>total_bytes := t, max_bytes := (if t > max_bytes s then t else max_bytes s)\<rparr>)"

record heap =
  h_strings :: string_table
  h_string_arena :: string_arena
  h_tables :: "table arena"
  h_closures :: "Closure arena"
  h_upvalues :: "upvalue arena"
  h_userdata :: "userdata arena"
  h_threads :: "lthread arena"
  h_white :: Color
  h_type_metatables :: "GcRef option list"
  h_tm_names :: "GcRef option list"
  h_type_name_refs :: "GcRef option list"
  h_static_intern_cache :: "(nat \<times> GcRef) list"
  h_gc :: gc_state

text \<open>The interning operations, which track memory only when a string is created.\<close>

definition intern_tracked :: "string_table \<times> string_arena \<times> GcRef \<Rightarrow> nat \<Rightarrow> heap \<Rightarrow> heap \<times> GcRef" where
  "intern_tracked res len h = (case res of (t, a, r) \<Rightarrow>
     let h1 = h\<lparr>h_strings := t, h_string_arena := a\<rparr> in
     (if alen (h_string_arena h) < alen a
      then h1\<lparr>h_gc := track_alloc (EST_STRING_SIZE + len) (h_gc h)\<rparr> else h1, r))"

definition intern_string :: "u8 list \<Rightarrow> heap \<Rightarrow> heap \<times> GcRef" where
  "intern_string data h =
     intern_tracked (intern (h_strings h) data (h_string_arena h) (h_white h)) (length data) h"

definition intern_string_hashed :: "u8 list \<Rightarrow> u32 \<Rightarrow> heap \<Rightarrow> heap \<times> GcRef" where
  "intern_string_hashed data hash h =
     intern_tracked (intern_hashed (h_strings h) data hash (h_string_arena h) (h_white h)) (length data) h"

text \<open>A static literal is known by its address; the cache keeps the most recent entry first.\<close>

definition intern_string_static :: "nat \<Rightarrow> u8 list \<Rightarrow> heap \<Rightarrow> heap \<times> GcRef" where
  "intern_string_static key data h = (case map_of (h_static_intern_cache h) key of
     Some r \<Rightarrow> (h, r)
   | None \<Rightarrow> (case intern_string data h of (h1, r) \<Rightarrow>
       let h2 = (if gc_phase (h_gc h1) \<noteq> Pause
                 then h1\<lparr>h_string_arena := fst (set_color (h_string_arena h1) r Black)\<rparr> else h1)
       in (h2\<lparr>h_static_intern_cache := (key, r) # h_static_intern_cache h2\<rparr>, r)))"

definition alloc_table :: "table \<Rightarrow> heap \<Rightarrow> heap \<times> GcRef" where
  "alloc_table t h = (case alloc (h_tables h) t (h_white h) of (a, r) \<Rightarrow>
     (h\<lparr>h_tables := a, h_gc := track_alloc (EST_TABLE_SIZE + length (arr t) * 16 + hash_size t * 32) (h_gc h)\<rparr>, r))"

definition alloc_closure :: "Closure \<Rightarrow> heap \<Rightarrow> heap \<times> GcRef" where
  "alloc_closure c h = (case alloc (h_closures h) c (h_white h) of (a, r) \<Rightarrow>
     (h\<lparr>h_closures := a, h_gc := track_alloc EST_CLOSURE_SIZE (h_gc h)\<rparr>, r))"

definition alloc_upvalue :: "upvalue \<Rightarrow> heap \<Rightarrow> heap \<times> GcRef" where
  "alloc_upvalue u h = (case alloc (h_upvalues h) u (h_white h) of (a, r) \<Rightarrow>
     (h\<lparr>h_upvalues := a, h_gc := track_alloc EST_UPVALUE_SIZE (h_gc h)\<rparr>, r))"

definition alloc_userdata :: "userdata \<Rightarrow> heap \<Rightarrow> heap \<times> GcRef" where
  "alloc_userdata u h = (let g = track_alloc EST_USERDATA_SIZE (h_gc h); seq = ud_alloc_seq_next g in
     case alloc (h_userdata h) (u\<lparr>ud_alloc_seq := seq\<rparr>) (h_white h) of (a, r) \<Rightarrow>
     (h\<lparr>h_userdata := a, h_gc := g\<lparr>ud_alloc_seq_next := seq + 1\<rparr>\<rparr>, r))"

definition alloc_thread :: "lthread \<Rightarrow> heap \<Rightarrow> heap \<times> GcRef" where
  "alloc_thread t h = (case alloc (h_threads h) t (h_white h) of (a, r) \<Rightarrow>
     (h\<lparr>h_threads := a, h_gc := track_alloc EST_THREAD_SIZE (h_gc h)\<rparr>, r))"

definition count_blocks :: "heap \<Rightarrow> nat" where
  "count_blocks h = unat (alen (h_string_arena h)) + unat (alen (h_tables h)) + unat (alen (h_closures h))
     + unat (alen (h_upvalues h)) + unat (alen (h_userdata h)) + unat (alen (h_threads h))"

definition set_alloc_limit :: "nat \<Rightarrow> heap \<Rightarrow> heap" where
  "set_alloc_limit limit h = (let g = (h_gc h)\<lparr>alloc_limit := limit\<rparr> in
     h\<lparr>h_gc := (if limit < gc_threshold g then g\<lparr>gc_threshold := limit\<rparr> else g)\<rparr>)"

definition alloc_limit_exceeded :: "heap \<Rightarrow> bool" where
  "alloc_limit_exceeded h \<longleftrightarrow> total_bytes (h_gc h) > alloc_limit (h_gc h)"

section \<open>Metatables\<close>

datatype TMS = TM_Index | TM_NewIndex | TM_Gc | TM_Mode | TM_Eq | TM_Add | TM_Sub | TM_Mul | TM_Div | TM_Mod
  | TM_Pow | TM_Unm | TM_Len | TM_Lt | TM_Le | TM_Concat | TM_Call

fun tms_index :: "TMS \<Rightarrow> nat" where
  "tms_index TM_Index = 0" | "tms_index TM_NewIndex = 1" | "tms_index TM_Gc = 2" | "tms_index TM_Mode = 3"
| "tms_index TM_Eq = 4" | "tms_index TM_Add = 5" | "tms_index TM_Sub = 6" | "tms_index TM_Mul = 7"
| "tms_index TM_Div = 8" | "tms_index TM_Mod = 9" | "tms_index TM_Pow = 10" | "tms_index TM_Unm = 11"
| "tms_index TM_Len = 12" | "tms_index TM_Lt = 13" | "tms_index TM_Le = 14" | "tms_index TM_Concat = 15"
| "tms_index TM_Call = 16"

definition TM_N :: nat where "TM_N = 17"
definition MAXTAGLOOP :: nat where "MAXTAGLOOP = 100"
definition NUM_TYPE_TAGS :: nat where "NUM_TYPE_TAGS = 9"

definition TM_NAMES :: "string list" where
  "TM_NAMES = [''__index'', ''__newindex'', ''__gc'', ''__mode'', ''__eq'', ''__add'', ''__sub'', ''__mul'',
     ''__div'', ''__mod'', ''__pow'', ''__unm'', ''__len'', ''__lt'', ''__le'', ''__concat'', ''__call'']"

definition TYPE_NAMES :: "string list" where
  "TYPE_NAMES = [''nil'', ''boolean'', ''number'', ''string'', ''function'', ''userdata'', ''thread'', ''table'',
     ''userdata'']"

definition fast_tm_absent :: "u8 \<Rightarrow> TMS \<Rightarrow> bool" where
  "fast_tm_absent fl event = (if tms_index event > tms_index TM_Eq then False
     else fl AND push_bit (tms_index event) 1 \<noteq> 0)"

definition invalidate_flags :: "u8 \<Rightarrow> u8" where
  "invalidate_flags fl = 0"

text \<open>
  A lookup in a table of the heap. A chain that never ends does not exist in a table that satisfies the
  table invariant; the model reads nil from one.
\<close>

definition lookup_str :: "table \<Rightarrow> GcRef \<Rightarrow> string_arena \<Rightarrow> Val" where
  "lookup_str t r strings = (case get_str t r strings of Inr v \<Rightarrow> v | Inl _ \<Rightarrow> VNil)"

definition non_nil :: "Val \<Rightarrow> Val option" where
  "non_nil v = (if is_nil v then None else Some v)"

definition gettm :: "table arena \<Rightarrow> string_arena \<Rightarrow> GcRef \<Rightarrow> GcRef \<Rightarrow> Val option" where
  "gettm tables strings mt tm_name = (case get tables mt of None \<Rightarrow> None
   | Some t \<Rightarrow> non_nil (lookup_str t tm_name strings))"

definition fasttm :: "table arena \<Rightarrow> string_arena \<Rightarrow> GcRef \<Rightarrow> TMS \<Rightarrow> GcRef option list \<Rightarrow> Val option" where
  "fasttm tables strings mt event tm_names = (case get tables mt of None \<Rightarrow> None
   | Some t \<Rightarrow> (if fast_tm_absent (tflags t) event then None
      else case tm_names ! tms_index event of None \<Rightarrow> None
         | Some name \<Rightarrow> non_nil (lookup_str t name strings)))"

primrec val_raw_equal :: "Val \<Rightarrow> Val \<Rightarrow> string_arena \<Rightarrow> bool" where
  "val_raw_equal VNil b strings = (case b of VNil \<Rightarrow> True | _ \<Rightarrow> False)"
| "val_raw_equal (VBool x) b strings = (case b of VBool y \<Rightarrow> x = y | _ \<Rightarrow> False)"
| "val_raw_equal (VNum x) b strings = (case b of VNum y \<Rightarrow> f64_eq x y | _ \<Rightarrow> False)"
| "val_raw_equal (VStr x) b strings = (case b of VStr y \<Rightarrow>
     (if x = y then True else case (get strings x, get strings y) of
        (Some p, Some q) \<Rightarrow> sdata p = sdata q | _ \<Rightarrow> False)
   | _ \<Rightarrow> False)"
| "val_raw_equal (VTable x) b strings = (case b of VTable y \<Rightarrow> x = y | _ \<Rightarrow> False)"
| "val_raw_equal (VFunction x) b strings = (case b of VFunction y \<Rightarrow> x = y | _ \<Rightarrow> False)"
| "val_raw_equal (VUserdata x) b strings = (case b of VUserdata y \<Rightarrow> x = y | _ \<Rightarrow> False)"
| "val_raw_equal (VThread x) b strings = (case b of VThread y \<Rightarrow> x = y | _ \<Rightarrow> False)"
| "val_raw_equal (VLightUserdata x) b strings = (case b of VLightUserdata y \<Rightarrow> x = y | _ \<Rightarrow> False)"

definition get_comp_tm :: "table arena \<Rightarrow> string_arena \<Rightarrow> GcRef option \<Rightarrow> GcRef option \<Rightarrow> TMS
    \<Rightarrow> GcRef option list \<Rightarrow> Val option" where
  "get_comp_tm tables strings mt1 mt2 event tm_names =
    Option.bind mt1 (\<lambda>m1. Option.bind (fasttm tables strings m1 event tm_names) (\<lambda>tm1.
      if mt2 = Some m1 then Some tm1
      else Option.bind mt2 (\<lambda>m2. Option.bind (fasttm tables strings m2 event tm_names) (\<lambda>tm2.
        if val_raw_equal tm1 tm2 strings then Some tm1 else None))))"

fun type_tag :: "Val \<Rightarrow> nat" where
  "type_tag VNil = 0" | "type_tag (VBool _) = 1" | "type_tag (VNum _) = 2" | "type_tag (VStr _) = 3"
| "type_tag (VFunction _) = 4" | "type_tag (VUserdata _) = 5" | "type_tag (VThread _) = 6"
| "type_tag (VTable _) = 7" | "type_tag (VLightUserdata _) = 8"

definition gettmbyobj :: "Val \<Rightarrow> TMS \<Rightarrow> table arena \<Rightarrow> string_arena \<Rightarrow> GcRef option list \<Rightarrow> GcRef option list
    \<Rightarrow> userdata arena \<Rightarrow> Val option" where
  "gettmbyobj v event tables strings type_metatables tm_names uds =
    Option.bind (tm_names ! tms_index event) (\<lambda>name.
    Option.bind (case v of
        VTable r \<Rightarrow> Option.bind (get tables r) tmeta
      | VUserdata r \<Rightarrow> Option.bind (get uds r) ud_metatable
      | _ \<Rightarrow> type_metatables ! type_tag v) (\<lambda>mt.
    gettm tables strings mt name))"

section \<open>A new heap\<close>

definition init_names :: "string list \<Rightarrow> heap \<Rightarrow> heap \<times> GcRef option list" where
  "init_names names h = fold (\<lambda>name (h, refs). case intern_string (ascii name) h of (h', r) \<Rightarrow> (h', refs @ [Some r]))
     names (h, [])"

definition heap_new :: heap where
  "heap_new = (let
     h = \<lparr>h_strings = string_table_new, h_string_arena = arena_new, h_tables = arena_new, h_closures = arena_new,
          h_upvalues = arena_new, h_userdata = arena_new, h_threads = arena_new, h_white = White0,
          h_type_metatables = replicate NUM_TYPE_TAGS None, h_tm_names = replicate TM_N None,
          h_type_name_refs = replicate NUM_TYPE_TAGS None, h_static_intern_cache = [], h_gc = gc_state_new\<rparr>;
     (h1, tms) = init_names TM_NAMES h;
     (h2, tys) = init_names TYPE_NAMES h1
   in h2\<lparr>h_tm_names := tms, h_type_name_refs := tys\<rparr>)"

end
