(* ===== verification/Marking.thy ===== *)
theory Marking
  imports Objects
begin

text \<open>
  The heap side of the collector, \<^verbatim>\<open>src/vm/gc/collector.rs\<close>, \<^verbatim>\<open>impl Gc\<close>:
  marking, the traversal of gray objects, the atomic phase with finalizable userdata and weak tables, the
  two sweep phases, the write barriers and the byte accounting. Operations take the heap last and
  return it updated.
\<close>

section \<open>Marking\<close>

definition set_gc :: "(gc_state \<Rightarrow> gc_state) \<Rightarrow> heap \<Rightarrow> heap" where
  "set_gc f h = h\<lparr>h_gc := f (h_gc h)\<rparr>"

definition push_gray :: "GrayItem \<Rightarrow> heap \<Rightarrow> heap" where
  "push_gray it = set_gc (\<lambda>g. g\<lparr>gray := it # gray g\<rparr>)"

definition mark_string :: "GcRef \<Rightarrow> heap \<Rightarrow> heap" where
  "mark_string r h = h\<lparr>h_string_arena := fst (mark_white_unfrozen (h_string_arena h) r Black)\<rparr>"

definition mark_table :: "GcRef \<Rightarrow> heap \<Rightarrow> heap" where
  "mark_table r h = (case mark_white_unfrozen (h_tables h) r Gray of (a, marked) \<Rightarrow>
     let h1 = h\<lparr>h_tables := a\<rparr> in if marked then push_gray (GTable r) h1 else h1)"

definition mark_closure :: "GcRef \<Rightarrow> heap \<Rightarrow> heap" where
  "mark_closure r h = (case mark_white_unfrozen (h_closures h) r Gray of (a, marked) \<Rightarrow>
     let h1 = h\<lparr>h_closures := a\<rparr> in if marked then push_gray (GClosure r) h1 else h1)"

definition mark_thread :: "GcRef \<Rightarrow> heap \<Rightarrow> heap" where
  "mark_thread r h = (case mark_white_unfrozen (h_threads h) r Gray of (a, marked) \<Rightarrow>
     let h1 = h\<lparr>h_threads := a\<rparr> in if marked then push_gray (GThread r) h1 else h1)"

definition mark_opt :: "('a \<Rightarrow> heap \<Rightarrow> heap) \<Rightarrow> 'a option \<Rightarrow> heap \<Rightarrow> heap" where
  "mark_opt f x h = (case x of None \<Rightarrow> h | Some y \<Rightarrow> f y h)"

text \<open>
  \<open>mark_value\<close> and \<open>mark_userdata\<close> call each other through the secret payload of a userdata. Each
  call blackens a white userdata, so as many levels as there are white userdata are enough; the equation
  without fuel is the lemma \<open>mark_value_eq\<close> below.
\<close>

definition white_slots :: "'a arena \<Rightarrow> nat" where
  "white_slots a = length (filter (\<lambda>b. b = COLOR_WHITE0 \<or> b = COLOR_WHITE1) (colors a))"

lemma occupied_index_eq: "occupied_index a r = Some i \<Longrightarrow> i = ix r \<and> ix r < length (entries a)
   \<and> egen (entries a ! ix r) = ref_gen r \<and> colors a ! ix r \<noteq> COLOR_FREE"
  by (auto simp: occupied_index_def split: if_splits)

lemma white_bytes: "byte_to_color b = Some c \<Longrightarrow> is_white c \<Longrightarrow> b = COLOR_WHITE0 \<or> b = COLOR_WHITE1"
  by (auto simp: byte_to_color_def split: if_splits)

lemma filter_update_less:
  "i < length xs \<Longrightarrow> P (xs ! i) \<Longrightarrow> \<not> P y \<Longrightarrow> length (filter P (xs[i := y])) < length (filter P xs)"
proof (induction xs arbitrary: i)
  case (Cons x xs)
  then show ?case by (cases i) auto
qed simp

lemma white_slots_less:
  assumes "mark_white_unfrozen a r c = (a', True)" "\<not> is_white c" "length (colors a) = length (entries a)"
  shows "white_slots a' < white_slots a"
proof -
  from assms(1) obtain i where i: "occupied_index a r = Some i"
    by (auto simp: mark_white_unfrozen_def split: option.splits)
  from i assms(1) obtain col where col: "byte_to_color (colors a ! i) = Some col" "is_white col"
    and a': "a' = a\<lparr>colors := (colors a)[i := color_to_byte c]\<rparr>"
    by (auto simp: mark_white_unfrozen_def split: if_splits option.splits)
  have "i < length (colors a)" using occupied_index_eq [OF i] assms(3) by simp
  moreover have "color_to_byte c \<noteq> COLOR_WHITE0 \<and> color_to_byte c \<noteq> COLOR_WHITE1"
    using assms(2) by (cases c) (simp_all add: COLOR_WHITE0_def COLOR_WHITE1_def COLOR_GRAY_def COLOR_BLACK_def)
  ultimately show ?thesis using white_bytes [OF col] unfolding white_slots_def a'
    by (auto intro!: filter_update_less)
qed

definition mark_userdata_with :: "(Val \<Rightarrow> heap \<Rightarrow> heap) \<Rightarrow> GcRef \<Rightarrow> heap \<Rightarrow> heap" where
  "mark_userdata_with mv r h = (case mark_white_unfrozen (h_userdata h) r Black of (a, marked) \<Rightarrow>
     let h1 = h\<lparr>h_userdata := a\<rparr> in
     if \<not> marked then h1
     else case get a r of None \<Rightarrow> h1
        | Some ud \<Rightarrow> mark_opt mv (ud_secret_value ud) (mark_opt mark_table (ud_env ud)
                       (mark_opt mark_table (ud_metatable ud) h1)))"

primrec mark_value_n :: "nat \<Rightarrow> Val \<Rightarrow> heap \<Rightarrow> heap" where
  "mark_value_n 0 v h = h"
| "mark_value_n (Suc n) v h = (case v of
     VStr r \<Rightarrow> mark_string r h
   | VTable r \<Rightarrow> mark_table r h
   | VFunction r \<Rightarrow> mark_closure r h
   | VUserdata r \<Rightarrow> mark_userdata_with (mark_value_n n) r h
   | VThread r \<Rightarrow> mark_thread r h
   | _ \<Rightarrow> h)"

definition mark_value :: "Val \<Rightarrow> heap \<Rightarrow> heap" where
  "mark_value v h = mark_value_n (Suc (white_slots (h_userdata h))) v h"

lemma mark_opt_table_userdata [simp]: "h_userdata (mark_opt mark_table x h) = h_userdata h"
  by (simp add: mark_opt_def mark_table_def push_gray_def set_gc_def Let_def split: option.split prod.split)

lemma mark_userdata_with_cong:
  fixes f f' :: "Val \<Rightarrow> heap \<Rightarrow> heap"
  assumes "length (colors (h_userdata h)) = length (entries (h_userdata h))"
    and "\<And>v g. length (colors (h_userdata g)) = length (entries (h_userdata g)) \<Longrightarrow>
        white_slots (h_userdata g) < white_slots (h_userdata h) \<Longrightarrow> f v g = f' v g"
  shows "mark_userdata_with f r h = mark_userdata_with f' r h"
proof -
  obtain a m where a: "mark_white_unfrozen (h_userdata h) r Black = (a, m)" by fastforce
  have l: "length (colors a) = length (entries a)"
    using a assms(1) by (auto simp: mark_white_unfrozen_def split: option.splits if_splits)
  have "white_slots a < white_slots (h_userdata h)" if "m" using white_slots_less [OF a [unfolded that [THEN eqTrueI]] _ assms(1)] by simp
  then show ?thesis using l assms(2) unfolding mark_userdata_with_def a
    by (auto simp: Let_def mark_opt_def [of f] mark_opt_def [of f'] split: option.split)
qed

lemma mark_value_n_enough:
  "length (colors (h_userdata h)) = length (entries (h_userdata h)) \<Longrightarrow> white_slots (h_userdata h) < n
     \<Longrightarrow> mark_value_n n v h = mark_value v h"
proof (induction n arbitrary: v h rule: less_induct)
  case (less n)
  obtain k where n: "n = Suc k" using less.prems(2) by (cases n) auto
  have "mark_userdata_with (mark_value_n k) r h = mark_userdata_with (mark_value_n (white_slots (h_userdata h))) r h" for r
  proof (cases "k = white_slots (h_userdata h)")
    case False
    then have k: "white_slots (h_userdata h) < k" using less.prems(2) n by simp
    show ?thesis
    proof (rule mark_userdata_with_cong [OF less.prems(1)])
      fix v and g :: heap assume g: "length (colors (h_userdata g)) = length (entries (h_userdata g))"
        "white_slots (h_userdata g) < white_slots (h_userdata h)"
      show "mark_value_n k v g = mark_value_n (white_slots (h_userdata h)) v g"
        using less.IH [of k, OF _ g(1)] less.IH [of "white_slots (h_userdata h)", OF _ g] n g(2) k by simp
    qed
  qed simp
  then show ?case by (simp add: n mark_value_def split: Val.split)
qed

lemma mark_value_eq:
  assumes "length (colors (h_userdata h)) = length (entries (h_userdata h))"
  shows "mark_value v h = (case v of
     VStr r \<Rightarrow> mark_string r h | VTable r \<Rightarrow> mark_table r h | VFunction r \<Rightarrow> mark_closure r h
   | VUserdata r \<Rightarrow> mark_userdata_with mark_value r h | VThread r \<Rightarrow> mark_thread r h | _ \<Rightarrow> h)"
proof -
  have "mark_userdata_with (mark_value_n (white_slots (h_userdata h))) r h = mark_userdata_with mark_value r h" for r
    by (rule mark_userdata_with_cong [OF assms]) (rule mark_value_n_enough)
  then show ?thesis by (simp add: mark_value_def split: Val.split)
qed

definition mark_upvalue :: "GcRef \<Rightarrow> heap \<Rightarrow> heap" where
  "mark_upvalue r h = (case mark_white_unfrozen (h_upvalues h) r Black of (a, marked) \<Rightarrow>
     let h1 = h\<lparr>h_upvalues := a\<rparr> in
     if \<not> marked then h1
     else case get a r of None \<Rightarrow> h1
        | Some uv \<Rightarrow> (case uv_state uv of Closed v \<Rightarrow> mark_value v h1 | Open _ \<Rightarrow> h1))"

definition mark_gc_roots :: "heap \<Rightarrow> heap" where
  "mark_gc_roots h = fold mark_string (map snd (h_static_intern_cache h))
     (fold (mark_opt mark_string) (h_type_name_refs h)
     (fold (mark_opt mark_string) (h_tm_names h)
     (fold (mark_opt mark_table) (h_type_metatables h) h)))"

section \<open>Propagation\<close>

text \<open>The occupied entries of an arena in slot order, as its iterator yields them.\<close>

definition arena_items :: "'a arena \<Rightarrow> (GcRef \<times> 'a \<times> Color) list" where
  "arena_items a = List.map_filter (\<lambda>i. case byte_to_color (colors a ! i) of None \<Rightarrow> None
     | Some c \<Rightarrow> (case estate (entries a ! i) of
          Occupied v \<Rightarrow> Some (GcRef (word_of_nat i) (egen (entries a ! i)), v, c) | Free _ \<Rightarrow> None))
     [0..<length (entries a)]"

definition find_interned_string :: "u8 list \<Rightarrow> heap \<Rightarrow> GcRef option" where
  "find_interned_string name h =
    (case find (\<lambda>tm. case tm of None \<Rightarrow> False | Some r \<Rightarrow>
        (case get (h_string_arena h) r of None \<Rightarrow> False | Some ls \<Rightarrow> sdata ls = name)) (h_tm_names h) of
      Some tm \<Rightarrow> tm
    | None \<Rightarrow> map_option fst (find (\<lambda>(r, ls, _). sdata ls = name) (arena_items (h_string_arena h))))"

definition check_weak_mode :: "heap \<Rightarrow> GcRef option \<Rightarrow> bool \<times> bool" where
  "check_weak_mode h mt = (case Option.bind mt (get (h_tables h)) of
     None \<Rightarrow> (False, False)
   | Some t \<Rightarrow> (case find_interned_string (ascii ''__mode'') h of
        None \<Rightarrow> (False, False)
      | Some m \<Rightarrow> (case lookup_str t m (h_string_arena h) of
           VStr s \<Rightarrow> (case get (h_string_arena h) s of
              Some ls \<Rightarrow> (107 \<in> set (sdata ls), 118 \<in> set (sdata ls))
            | None \<Rightarrow> (False, False))
         | _ \<Rightarrow> (False, False))))"

definition get_weak_mode :: "heap \<Rightarrow> GcRef option \<Rightarrow> bool \<times> bool" where
  "get_weak_mode = check_weak_mode"

definition collect_table_array_mark_values :: "table \<Rightarrow> Val list" where
  "collect_table_array_mark_values t = filter is_gc_managed (arr t)"

definition node_mark_values :: "bool \<Rightarrow> bool \<Rightarrow> node \<Rightarrow> Val list" where
  "node_mark_values weak_keys weak_values n =
    (if is_nil (nkey n) \<or> is_nil (nvalue n) then []
     else (if \<not> weak_keys \<and> is_gc_managed (nkey n) then [nkey n] else [])
        @ (if \<not> weak_values \<and> is_gc_managed (nvalue n) then [nvalue n] else []))"

definition collect_table_hash_mark_values :: "table \<Rightarrow> bool \<Rightarrow> bool \<Rightarrow> Val list" where
  "collect_table_hash_mark_values t weak_keys weak_values =
     concat (map (node_mark_values weak_keys weak_values) (nodes t))"

definition mark_table_array_values :: "GcRef \<Rightarrow> heap \<Rightarrow> heap" where
  "mark_table_array_values r h = (case get (h_tables h) r of None \<Rightarrow> h
   | Some t \<Rightarrow> fold mark_value (collect_table_array_mark_values t) h)"

definition mark_table_hash_values :: "GcRef \<Rightarrow> bool \<Rightarrow> bool \<Rightarrow> heap \<Rightarrow> heap" where
  "mark_table_hash_values r weak_keys weak_values h = (case get (h_tables h) r of None \<Rightarrow> h
   | Some t \<Rightarrow> fold mark_value (collect_table_hash_mark_values t weak_keys weak_values) h)"

definition color_table :: "GcRef \<Rightarrow> Color \<Rightarrow> heap \<Rightarrow> heap" where
  "color_table r c h = h\<lparr>h_tables := fst (set_color (h_tables h) r c)\<rparr>"

definition color_closure :: "GcRef \<Rightarrow> Color \<Rightarrow> heap \<Rightarrow> heap" where
  "color_closure r c h = h\<lparr>h_closures := fst (set_color (h_closures h) r c)\<rparr>"

definition color_thread :: "GcRef \<Rightarrow> Color \<Rightarrow> heap \<Rightarrow> heap" where
  "color_thread r c h = h\<lparr>h_threads := fst (set_color (h_threads h) r c)\<rparr>"

definition color_userdata :: "GcRef \<Rightarrow> Color \<Rightarrow> heap \<Rightarrow> heap" where
  "color_userdata r c h = h\<lparr>h_userdata := fst (set_color (h_userdata h) r c)\<rparr>"

definition traverse_table :: "GcRef \<Rightarrow> heap \<Rightarrow> heap" where
  "traverse_table r h =
    (if is_skip_traverse_or_frozen (h_tables h) r then color_table r Black h
     else case get (h_tables h) r of None \<Rightarrow> h
     | Some t \<Rightarrow> (case check_weak_mode h (tmeta t) of (weak_keys, weak_values) \<Rightarrow>
         let h1 = mark_opt mark_table (tmeta t) (color_table r Black h);
             h2 = (if weak_keys \<or> weak_values then set_gc (\<lambda>g. g\<lparr>weak_tables := weak_tables g @ [r]\<rparr>) h1 else h1)
         in if weak_keys \<and> weak_values then h2
            else mark_table_hash_values r weak_keys weak_values
                   (if \<not> weak_values then mark_table_array_values r h2 else h2)))"

primrec proto_constants :: "Proto \<Rightarrow> Val list" where
  "proto_constants (Proto code ks ps lines vars names source short ld lld nu np va mx pool gs) =
     ks @ concat (map proto_constants ps)"

definition mark_proto_constants :: "Proto \<Rightarrow> heap \<Rightarrow> heap" where
  "mark_proto_constants p = fold mark_value (proto_constants p)"

definition traverse_closure :: "GcRef \<Rightarrow> heap \<Rightarrow> heap" where
  "traverse_closure r h = (case get (h_closures h) r of None \<Rightarrow> h
   | Some cl \<Rightarrow> (let h1 = color_closure r Black h in case cl of
        LuaC lc \<Rightarrow> mark_proto_constants (lc_proto lc) (fold mark_upvalue (lc_upvalues lc) (mark_table (lc_env lc) h1))
      | RustC rc \<Rightarrow> fold mark_value (rc_upvalues rc) (mark_opt mark_table (rc_env rc) h1)))"

definition thread_stack_values :: "lthread \<Rightarrow> Val list" where
  "thread_stack_values t = take (th_top t) (th_stack t)"

definition traverse_thread :: "GcRef \<Rightarrow> heap \<Rightarrow> heap" where
  "traverse_thread r h = (case get (h_threads h) r of None \<Rightarrow> h
   | Some t \<Rightarrow> set_gc (\<lambda>g. g\<lparr>grayagain := grayagain g @ [GThread r]\<rparr>)
       (fold mark_upvalue (map fst (th_suspended_upvals t))
       (fold mark_upvalue (th_open_upvalues t)
       (fold mark_value (thread_stack_values t)
       (mark_value (hook_func (th_hook t)) (mark_table (th_global t) (color_thread r Black h)))))))"

datatype PropagateResult = Done nat | NeedMainThread | Empty

definition table_cost :: "GcRef \<Rightarrow> heap \<Rightarrow> nat" where
  "table_cost r h = (case get (h_tables h) r of
     Some t \<Rightarrow> EST_TABLE_SIZE + length (arr t) * 16 + hash_size t * 32 | None \<Rightarrow> EST_TABLE_SIZE)"

definition closure_cost :: "GcRef \<Rightarrow> heap \<Rightarrow> nat" where
  "closure_cost r h = (case get (h_closures h) r of
     Some (LuaC lc) \<Rightarrow> EST_CLOSURE_SIZE + length (lc_upvalues lc) * 8
   | Some (RustC rc) \<Rightarrow> EST_CLOSURE_SIZE + length (rc_upvalues rc) * 16 | None \<Rightarrow> EST_CLOSURE_SIZE)"

definition thread_cost :: "GcRef \<Rightarrow> heap \<Rightarrow> nat" where
  "thread_cost r h = (case get (h_threads h) r of
     Some t \<Rightarrow> EST_THREAD_SIZE + length (th_stack t) * 16 | None \<Rightarrow> EST_THREAD_SIZE)"

definition propagate_one :: "heap \<Rightarrow> heap \<times> PropagateResult" where
  "propagate_one h = (case gray (h_gc h) of [] \<Rightarrow> (h, Empty)
   | it # rest \<Rightarrow> (let h1 = set_gc (\<lambda>g. g\<lparr>gray := rest\<rparr>) h in case it of
        GTable r \<Rightarrow> (traverse_table r h1, Done (table_cost r h1))
      | GClosure r \<Rightarrow> (traverse_closure r h1, Done (closure_cost r h1))
      | GThread r \<Rightarrow> (traverse_thread r h1, Done (thread_cost r h1))
      | GMainThread \<Rightarrow> (h1, NeedMainThread)))"

text \<open>The propagation loop, with fuel for one turn per white object and per gray entry.\<close>

primrec propagate_all_n :: "nat \<Rightarrow> heap \<Rightarrow> heap \<times> nat" where
  "propagate_all_n 0 h = (h, 0)"
| "propagate_all_n (Suc n) h = (case propagate_one h of
     (h1, Done cost) \<Rightarrow> (case propagate_all_n n h1 of (h2, costs) \<Rightarrow> (h2, cost + costs))
   | (h1, NeedMainThread) \<Rightarrow> propagate_all_n n h1
   | (h1, Empty) \<Rightarrow> (h1, 0))"

definition mark_work :: "heap \<Rightarrow> nat" where
  "mark_work h = 2 * (white_slots (h_tables h) + white_slots (h_closures h) + white_slots (h_threads h))
     + length (gray (h_gc h))"

definition propagate_all :: "heap \<Rightarrow> heap \<times> nat" where
  "propagate_all h = propagate_all_n (Suc (mark_work h)) h"


section \<open>The atomic phase\<close>

definition has_gc_metamethod :: "heap \<Rightarrow> GcRef \<Rightarrow> bool" where
  "has_gc_metamethod h mt = (case find_interned_string (ascii ''__gc'') h of None \<Rightarrow> False
   | Some name \<Rightarrow> (case get (h_tables h) mt of None \<Rightarrow> False
       | Some t \<Rightarrow> \<not> is_nil (lookup_str t name (h_string_arena h))))"

definition ud_seq :: "heap \<Rightarrow> GcRef \<Rightarrow> u64" where
  "ud_seq h r = (case get (h_userdata h) r of Some ud \<Rightarrow> ud_alloc_seq ud | None \<Rightarrow> 0)"

definition to_finalize :: "heap \<Rightarrow> GcRef list" where
  "to_finalize h = map fst (filter (\<lambda>(r, ud, c). c = h_white h \<and> \<not> ud_finalized ud
       \<and> (case ud_metatable ud of None \<Rightarrow> False | Some mt \<Rightarrow> has_gc_metamethod h mt))
     (arena_items (h_userdata h)))"

definition finalize_mark :: "GcRef \<Rightarrow> heap \<Rightarrow> heap" where
  "finalize_mark r h = set_gc (\<lambda>g. g\<lparr>tmudata := r # tmudata g\<rparr>)
     (color_userdata r Gray (h\<lparr>h_userdata := get_mut (h_userdata h) r (\<lambda>ud. ud\<lparr>ud_finalized := True\<rparr>)\<rparr>))"

text \<open>\<open>tmudata\<close> too is kept with the end of the vector first.\<close>

definition separate_userdata :: "heap \<Rightarrow> heap \<times> nat" where
  "separate_userdata h = (let refs = sort_key (\<lambda>r. unat (ud_seq h r)) (to_finalize h) in
     (fold finalize_mark refs h, EST_USERDATA_SIZE * length refs))"

definition mark_tmu :: "GcRef \<Rightarrow> heap \<Rightarrow> heap" where
  "mark_tmu r h = (case get (h_userdata h) r of None \<Rightarrow> h
   | Some ud \<Rightarrow> mark_opt mark_value (ud_secret_value ud) (mark_opt mark_table (ud_env ud)
        (mark_opt mark_table (ud_metatable ud) (color_userdata r Black h))))"

definition mark_tmudata :: "heap \<Rightarrow> heap" where
  "mark_tmudata h = fold mark_tmu (rev (tmudata (h_gc h))) h"

definition is_dead_collectable :: "heap \<Rightarrow> Color \<Rightarrow> Val \<Rightarrow> bool \<Rightarrow> bool" where
  "is_dead_collectable h other v is_key = (case v of
     VTable r \<Rightarrow> color (h_tables h) r = Some other
   | VFunction r \<Rightarrow> color (h_closures h) r = Some other
   | VUserdata r \<Rightarrow> color (h_userdata h) r = Some other
       \<or> (\<not> is_key \<and> (case get (h_userdata h) r of Some ud \<Rightarrow> ud_finalized ud | None \<Rightarrow> False))
   | VThread r \<Rightarrow> color (h_threads h) r = Some other
   | _ \<Rightarrow> False)"

definition val_str :: "Val \<Rightarrow> GcRef option" where
  "val_str v = (case v of VStr r \<Rightarrow> Some r | _ \<Rightarrow> None)"

definition weak_table_strings :: "table \<Rightarrow> GcRef list" where
  "weak_table_strings t = List.map_filter val_str (arr t)
     @ List.map_filter val_str (concat (map (\<lambda>n. if is_nil (nkey n) then [] else [nkey n, nvalue n]) (nodes t)))"

definition keep_weak_strings :: "GcRef \<Rightarrow> heap \<Rightarrow> heap" where
  "keep_weak_strings r h = (case get (h_tables h) r of None \<Rightarrow> h
   | Some t \<Rightarrow> h\<lparr>h_string_arena := fold (\<lambda>s a. fst (set_color a s (h_white h))) (weak_table_strings t) (h_string_arena h)\<rparr>)"

definition cleared_table :: "heap \<Rightarrow> bool \<Rightarrow> bool \<Rightarrow> table \<Rightarrow> table" where
  "cleared_table h weak_keys weak_values t =
    (let dead = is_dead_collectable h (other_white (h_white h));
         idx = (if weak_values then filter (\<lambda>i. dead (arr t ! i) False) [0..<length (arr t)] else []);
         hidx = find_dead_hash_entries t weak_keys weak_values dead
     in nil_hash_entries (fold (\<lambda>i t. nil_array_entry t i) idx t) hidx)"

definition clear_weak_table :: "GcRef \<Rightarrow> heap \<Rightarrow> heap" where
  "clear_weak_table r h = (case get (h_tables h) r of None \<Rightarrow> h
   | Some t \<Rightarrow> (case get_weak_mode h (tmeta t) of (weak_keys, weak_values) \<Rightarrow>
        if \<not> weak_keys \<and> \<not> weak_values then h
        else h\<lparr>h_tables := get_mut (h_tables h) r (\<lambda>_. cleared_table h weak_keys weak_values t)\<rparr>))"

definition clear_weak_tables :: "heap \<Rightarrow> heap" where
  "clear_weak_tables h = (let refs = weak_tables (h_gc h);
      h1 = set_gc (\<lambda>g. g\<lparr>weak_tables := []\<rparr>) h
    in fold clear_weak_table refs (fold keep_weak_strings refs h1))"

text \<open>One entry of \<open>grayagain\<close>. A thread is re-marked without its hook function, which
  \<open>traverse_thread\<close> marks.\<close>

definition again_one :: "GrayItem \<Rightarrow> heap \<Rightarrow> heap" where
  "again_one it h = (case it of
     GThread r \<Rightarrow> (case get (h_threads h) r of None \<Rightarrow> h
       | Some t \<Rightarrow> fold mark_upvalue (map fst (th_suspended_upvals t))
           (fold mark_upvalue (th_open_upvalues t)
           (fold mark_value (thread_stack_values t)
           (mark_table (th_global t) (color_thread r Black h)))))
   | GTable r \<Rightarrow> traverse_table r (color_table r Gray h)
   | GClosure r \<Rightarrow> traverse_closure r (color_closure r Gray h)
   | GMainThread \<Rightarrow> h)"

definition atomic_mark :: "heap \<Rightarrow> heap" where
  "atomic_mark h = (let again = grayagain (h_gc h);
      h1 = set_gc (\<lambda>g. g\<lparr>grayagain := []\<rparr>) h
    in fst (propagate_all (fold again_one again h1)))"

definition atomic :: "heap \<Rightarrow> heap" where
  "atomic h = (case separate_userdata (atomic_mark h) of (h1, ud_size) \<Rightarrow>
     let h2 = fst (propagate_all (mark_tmudata h1));
         h3 = clear_weak_tables (h2\<lparr>h_white := other_white (h_white h2)\<rparr>)
     in set_gc (\<lambda>g. g\<lparr>gc_estimate := total_bytes g - ud_size,
          gc_cursor := \<lparr>arena_index = 0, slot_position = 0\<rparr>, gc_phase := SweepString\<rparr>) h3)"

section \<open>Sweeping\<close>

definition account_freed :: "u32 \<Rightarrow> nat \<Rightarrow> heap \<Rightarrow> heap" where
  "account_freed freed est = set_gc (\<lambda>g. g\<lparr>total_bytes := total_bytes g - unat freed * est,
     gc_estimate := gc_estimate g - unat freed * est\<rparr>)"

text \<open>A bounded sweep asked for more than zero slots and inside the arena always returns.\<close>

definition sweep_batch :: "'a arena \<Rightarrow> Color \<Rightarrow> u32 \<Rightarrow> 'a arena \<times> u32 \<times> u32 \<times> bool" where
  "sweep_batch a white start = (case sweep_partial a (other_white white) white start GCSWEEPMAX of
     Some r \<Rightarrow> r | None \<Rightarrow> (a, 0, start, True))"

definition sweep_strings_step :: "heap \<Rightarrow> heap \<times> nat" where
  "sweep_strings_step h = (case sweep_batch (h_string_arena h) (h_white h) (slot_position (gc_cursor (h_gc h))) of
     (a, freed, next_pos, is_done) \<Rightarrow>
       let h1 = account_freed freed EST_STRING_SIZE (h\<lparr>h_string_arena := a\<rparr>) in
       ((if is_done then set_gc (\<lambda>g. g\<lparr>gc_phase := Sweep, gc_cursor := \<lparr>arena_index = 0, slot_position = 0\<rparr>\<rparr>)
             (h1\<lparr>h_strings := sweep_dead (h_strings h1) (h_string_arena h1)\<rparr>)
         else set_gc (\<lambda>g. g\<lparr>gc_cursor := (gc_cursor g)\<lparr>slot_position := next_pos\<rparr>\<rparr>) h1), GCSWEEPCOST))"

definition sweep_arena :: "nat \<Rightarrow> heap \<Rightarrow> heap \<times> u32 \<times> nat \<times> u32 \<times> bool" where
  "sweep_arena i h = (let start = slot_position (gc_cursor (h_gc h)); w = h_white h in
     if i = 0 then (case sweep_batch (h_tables h) w start of (a, f, p, d) \<Rightarrow> (h\<lparr>h_tables := a\<rparr>, f, EST_TABLE_SIZE, p, d))
     else if i = 1 then (case sweep_batch (h_closures h) w start of (a, f, p, d) \<Rightarrow> (h\<lparr>h_closures := a\<rparr>, f, EST_CLOSURE_SIZE, p, d))
     else if i = 2 then (case sweep_batch (h_upvalues h) w start of (a, f, p, d) \<Rightarrow> (h\<lparr>h_upvalues := a\<rparr>, f, EST_UPVALUE_SIZE, p, d))
     else if i = 3 then (case sweep_batch (h_userdata h) w start of (a, f, p, d) \<Rightarrow> (h\<lparr>h_userdata := a\<rparr>, f, EST_USERDATA_SIZE, p, d))
     else (case sweep_batch (h_threads h) w start of (a, f, p, d) \<Rightarrow> (h\<lparr>h_threads := a\<rparr>, f, EST_THREAD_SIZE, p, d)))"

definition sweep_other_step :: "heap \<Rightarrow> heap \<times> nat" where
  "sweep_other_step h = (let i = arena_index (gc_cursor (h_gc h)) in
     case sweep_arena i h of (h1, freed, est, next_pos, is_done) \<Rightarrow>
       let h2 = account_freed freed est h1 in
       ((if is_done then
           (if i \<ge> 4 then set_gc (\<lambda>g. g\<lparr>gc_phase := Finalize\<rparr>) h2
            else set_gc (\<lambda>g. g\<lparr>gc_cursor := \<lparr>arena_index = i + 1, slot_position = 0\<rparr>\<rparr>) h2)
         else set_gc (\<lambda>g. g\<lparr>gc_cursor := (gc_cursor g)\<lparr>slot_position := next_pos\<rparr>\<rparr>) h2),
        unat GCSWEEPMAX * GCSWEEPCOST))"

section \<open>Write barriers\<close>

definition barrier_back :: "GcRef \<Rightarrow> heap \<Rightarrow> heap" where
  "barrier_back parent h =
    (if gc_phase (h_gc h) \<noteq> Propagate then h
     else case color (h_tables h) parent of
       Some c \<Rightarrow> (if is_black c
           then set_gc (\<lambda>g. g\<lparr>grayagain := grayagain g @ [GTable parent]\<rparr>) (color_table parent Gray h)
           else h)
     | None \<Rightarrow> h)"

definition child_color :: "heap \<Rightarrow> Val \<Rightarrow> Color option" where
  "child_color h v = (case v of
     VStr r \<Rightarrow> color (h_string_arena h) r
   | VTable r \<Rightarrow> color (h_tables h) r
   | VFunction r \<Rightarrow> color (h_closures h) r
   | VUserdata r \<Rightarrow> color (h_userdata h) r
   | VThread r \<Rightarrow> color (h_threads h) r
   | _ \<Rightarrow> None)"

definition barrier_forward_val :: "Color \<Rightarrow> Val \<Rightarrow> heap \<Rightarrow> heap" where
  "barrier_forward_val parent_color child h =
    (if gc_phase (h_gc h) \<noteq> Propagate then h
     else if \<not> is_black parent_color then h
     else if child_color h child = Some (h_white h) then mark_value child h else h)"

section \<open>Accounting\<close>

definition estimate_memory :: "heap \<Rightarrow> nat" where
  "estimate_memory h = unat (alen (h_string_arena h)) * EST_STRING_SIZE + unat (alen (h_tables h)) * EST_TABLE_SIZE
     + unat (alen (h_closures h)) * EST_CLOSURE_SIZE + unat (alen (h_upvalues h)) * EST_UPVALUE_SIZE
     + unat (alen (h_userdata h)) * EST_USERDATA_SIZE + unat (alen (h_threads h)) * EST_THREAD_SIZE"

definition should_collect :: "heap \<Rightarrow> bool" where
  "should_collect h \<longleftrightarrow> \<not> gc_running (h_gc h) \<and> total_bytes (h_gc h) \<ge> gc_threshold (h_gc h)"

definition update_threshold :: "heap \<Rightarrow> heap" where
  "update_threshold h = (let est = max (gc_estimate (h_gc h)) (estimate_memory h) in
     set_gc (\<lambda>g. g\<lparr>total_bytes := estimate_memory h,
       gc_threshold := max 4096 (saturating_mul (est div 100) (gc_pause g))\<rparr>) h)"

end
