(* ===== verification/VmState.thy ===== *)
theory VmState
  imports Marking
begin

text \<open>
  The state of the interpreter, \<^verbatim>\<open>LuaState\<close> of \<^verbatim>\<open>src/vm/state.rs\<close>: the
  stack, the call stack, open upvalues (\<^verbatim>\<open>src/vm/execute.rs\<close>) and the swap of coroutine
  states. The call and native depth counters are naturals; host data, budgets, taint and secret
  access contexts, which no operation here reads, are left out.
\<close>

section \<open>The state\<close>

record global_slot_runtime =
  slot_values :: "Val list"
  slot_name_keys :: "GcRef list"
  slot_root_global :: GcRef
  slot_shadow_registry_key :: "GcRef option"

record lua =
  stack :: "Val list"
  l_base :: nat
  l_top :: nat
  call_stack :: "call_info list"
  l_ci :: nat
  n_ccalls :: nat
  call_depth :: nat
  ci_overflow :: bool
  l_global :: GcRef
  global_slots :: "global_slot_runtime option"
  registry :: GcRef
  open_upvalues :: "GcRef list"
  l_heap :: heap
  error_object :: "Val option"
  current_thread :: "GcRef option"
  l_hook :: hook_state
  hook_event_names :: "GcRef list"
  hook_mask_names :: "GcRef list"
  debug_info_field_names :: "GcRef list"
  syntactic_global_lookup :: bool
  yielded_in_hook :: bool
  saved_threads :: "lthread list"

definition HOOK_EVENT_NAMES :: "string list" where
  "HOOK_EVENT_NAMES = [''call'', ''return'', ''tail return'', ''count'', ''line'']"
definition HOOK_MASK_NAMES :: "string list" where
  "HOOK_MASK_NAMES = [[], ''c'', ''r'', ''cr'', ''l'', ''cl'', ''rl'', ''crl'']"
definition DEBUG_INFO_FIELD_NAMES :: "string list" where
  "DEBUG_INFO_FIELD_NAMES = [''source'', ''short_src'', ''linedefined'', ''lastlinedefined'', ''what'',
     ''currentline'', ''nups'', ''name'', ''namewhat'', ''func'', ''activelines'']"

definition cache_names :: "string list \<Rightarrow> heap \<Rightarrow> heap \<times> GcRef list" where
  "cache_names names h = fold (\<lambda>name (h, refs). case intern_string (ascii name) h of (h', r) \<Rightarrow> (h', refs @ [r]))
     names (h, [])"

definition lua_new :: lua where
  "lua_new = (let
     (h1, ev) = cache_names HOOK_EVENT_NAMES heap_new;
     (h2, mk) = cache_names HOOK_MASK_NAMES h1;
     (h3, fd) = cache_names DEBUG_INFO_FIELD_NAMES h2;
     (h4, global) = alloc_table table_new h3;
     (h5, reg) = alloc_table table_new h4
   in \<lparr>stack = replicate BASIC_STACK_SIZE VNil, l_base = 1, l_top = 1,
       call_stack = [call_info_new 0 1 (1 + LUA_MINSTACK) LUA_MULTRET], l_ci = 0, n_ccalls = 0, call_depth = 0,
       ci_overflow = False, l_global = global, global_slots = None, registry = reg, open_upvalues = [],
       l_heap = h5, error_object = None, current_thread = None, l_hook = hook_new, hook_event_names = ev,
       hook_mask_names = mk, debug_info_field_names = fd, syntactic_global_lookup = False,
       yielded_in_hook = False, saved_threads = []\<rparr>)"

section \<open>Stack and frames\<close>

definition stack_get :: "lua \<Rightarrow> nat \<Rightarrow> Val" where
  "stack_get s i = (if i < length (stack s) then stack s ! i else VNil)"

definition vec_resize :: "'a list \<Rightarrow> nat \<Rightarrow> 'a \<Rightarrow> 'a list" where
  "vec_resize xs n x = take n xs @ replicate (n - length xs) x"

definition stack_set :: "lua \<Rightarrow> nat \<Rightarrow> Val \<Rightarrow> lua" where
  "stack_set s i v = (let st = (if i \<ge> length (stack s) then vec_resize (stack s) (i + 1) VNil else stack s)
     in s\<lparr>stack := st[i := v]\<rparr>)"

definition ensure_stack :: "lua \<Rightarrow> nat \<Rightarrow> lua" where
  "ensure_stack s n = (if l_top s + n > length (stack s)
     then s\<lparr>stack := vec_resize (stack s) (l_top s + n) VNil\<rparr> else s)"

definition push :: "lua \<Rightarrow> Val \<Rightarrow> lua" where
  "push s v = (let st = (if l_top s \<ge> length (stack s) then vec_resize (stack s) (l_top s + 1) VNil else stack s)
     in s\<lparr>stack := st[l_top s := v], l_top := l_top s + 1\<rparr>)"

definition pop :: "lua \<Rightarrow> lua \<times> Val" where
  "pop s = (if l_top s > 0 then (s\<lparr>l_top := l_top s - 1\<rparr>, stack s ! (l_top s - 1)) else (s, VNil))"

definition push_ci :: "lua \<Rightarrow> call_info \<Rightarrow> lua" where
  "push_ci s ci = (let i = l_ci s + 1 in
     s\<lparr>call_stack := (if i < length (call_stack s) then (call_stack s)[i := ci] else call_stack s @ [ci]), l_ci := i\<rparr>)"

definition pop_ci :: "lua \<Rightarrow> lua" where
  "pop_ci s = s\<lparr>l_ci := l_ci s - 1\<rparr>"

definition get_nargs :: "lua \<Rightarrow> nat \<Rightarrow> nat" where
  "get_nargs s func_idx = (if l_top s > func_idx + 1 then l_top s - func_idx - 1 else 0)"

section \<open>Open upvalues\<close>

text \<open>The loop over the list, which is sorted by stack index, greatest first.\<close>

definition uv_index :: "heap \<Rightarrow> GcRef \<Rightarrow> nat option" where
  "uv_index h r = Option.bind (get (h_upvalues h) r) Objects.stack_index"

fun find_open :: "heap \<Rightarrow> nat \<Rightarrow> GcRef list \<Rightarrow> GcRef option" where
  "find_open h i [] = None"
| "find_open h i (r # rs) = (case uv_index h r of
     Some j \<Rightarrow> (if j = i then Some r else if j < i then None else find_open h i rs)
   | None \<Rightarrow> find_open h i rs)"

fun insert_open :: "heap \<Rightarrow> nat \<Rightarrow> GcRef \<Rightarrow> GcRef list \<Rightarrow> GcRef list" where
  "insert_open h i new [] = [new]"
| "insert_open h i new (r # rs) = (case uv_index h r of
     Some j \<Rightarrow> (if j < i then new # r # rs else r # insert_open h i new rs)
   | None \<Rightarrow> new # r # rs)"

definition find_upvalue :: "lua \<Rightarrow> nat \<Rightarrow> lua \<times> GcRef" where
  "find_upvalue s i = (case find_open (l_heap s) i (open_upvalues s) of
     Some r \<Rightarrow> (s, r)
   | None \<Rightarrow> (case alloc_upvalue (new_open i) (l_heap s) of (h, r) \<Rightarrow>
        (s\<lparr>l_heap := h, open_upvalues := insert_open h i r (open_upvalues s)\<rparr>, r)))"

definition close_one :: "Val list \<Rightarrow> GcRef \<Rightarrow> heap \<Rightarrow> heap" where
  "close_one st r h = (let h1 = h\<lparr>h_upvalues := get_mut (h_upvalues h) r (\<lambda>uv. uv_close uv st)\<rparr>;
      captured = (case get (h_upvalues h1) r of None \<Rightarrow> VNil | Some uv \<Rightarrow> uv_get uv st);
      col = (case color (h_upvalues h1) r of None \<Rightarrow> White0 | Some c \<Rightarrow> c)
    in barrier_forward_val col captured h1)"

fun close_loop :: "Val list \<Rightarrow> nat \<Rightarrow> GcRef list \<Rightarrow> heap \<Rightarrow> GcRef list \<times> heap" where
  "close_loop st level [] h = ([], h)"
| "close_loop st level (r # rs) h = (case uv_index h r of
     Some i \<Rightarrow> (if i \<ge> level then close_loop st level rs (close_one st r h) else (r # rs, h))
   | None \<Rightarrow> (r # rs, h))"

definition close_upvalues :: "lua \<Rightarrow> nat \<Rightarrow> lua" where
  "close_upvalues s level = (case close_loop (stack s) level (open_upvalues s) (l_heap s) of (os, h) \<Rightarrow>
     s\<lparr>open_upvalues := os, l_heap := h\<rparr>)"

section \<open>Swapping coroutines\<close>

text \<open>What \<open>mem::take\<close> leaves behind is empty.\<close>

definition save_thread_state :: "lua \<Rightarrow> lua \<times> lthread" where
  "save_thread_state s =
    (s\<lparr>stack := [], call_stack := [], open_upvalues := [], error_object := None\<rparr>,
     \<lparr>th_stack = stack s, th_base = l_base s, th_top = l_top s, th_call_stack = call_stack s, th_ci = l_ci s,
      th_n_ccalls = n_ccalls s, th_call_depth = call_depth s, th_ci_overflow = ci_overflow s,
      th_open_upvalues = open_upvalues s, th_suspended_upvals = [], th_error_object = error_object s,
      th_status = Normal, th_global = l_global s, th_hook = l_hook s,
      th_syntactic_global_lookup = syntactic_global_lookup s, th_yielded_in_hook = yielded_in_hook s\<rparr>)"

definition load_fields :: "lthread \<Rightarrow> lua \<Rightarrow> lua" where
  "load_fields t s = s\<lparr>stack := th_stack t, l_base := th_base t, l_top := th_top t,
     call_stack := th_call_stack t, l_ci := th_ci t, n_ccalls := th_n_ccalls t, call_depth := th_call_depth t,
     ci_overflow := th_ci_overflow t, open_upvalues := th_open_upvalues t, error_object := th_error_object t,
     l_global := th_global t, l_hook := th_hook t, syntactic_global_lookup := th_syntactic_global_lookup t,
     yielded_in_hook := th_yielded_in_hook t\<rparr>"

text \<open>Reopening a suspended upvalue: its value goes back to its slot.\<close>

definition reopen :: "GcRef \<times> nat \<Rightarrow> lua \<Rightarrow> lua" where
  "reopen p s = (case p of (r, i) \<Rightarrow>
     (let st = (case get (h_upvalues (l_heap s)) r of
            Some uv \<Rightarrow> (case uv_state uv of Closed v \<Rightarrow> (if i < length (stack s) then (stack s)[i := v] else stack s)
               | Open _ \<Rightarrow> stack s)
          | None \<Rightarrow> stack s);
          h = (l_heap s)\<lparr>h_upvalues := get_mut (h_upvalues (l_heap s)) r (\<lambda>uv. uv\<lparr>uv_state := Open i\<rparr>)\<rparr>
      in s\<lparr>stack := st, l_heap := h,
           open_upvalues := (if r \<in> set (open_upvalues s) then open_upvalues s else open_upvalues s @ [r])\<rparr>))"

definition sort_open :: "lua \<Rightarrow> lua" where
  "sort_open s = s\<lparr>open_upvalues := rev (sort_key (\<lambda>r. case uv_index (l_heap s) r of Some i \<Rightarrow> i | None \<Rightarrow> 0)
     (rev (open_upvalues s)))\<rparr>"

text \<open>The thread's moved-out fields are left empty, its scalars stay.\<close>

definition load_thread_by_ref :: "lua \<Rightarrow> GcRef \<Rightarrow> ThreadStatus \<Rightarrow> lua" where
  "load_thread_by_ref s co new_status = (case get (h_threads (l_heap s)) co of None \<Rightarrow> s
   | Some t \<Rightarrow> (let h = (l_heap s)\<lparr>h_threads := get_mut (h_threads (l_heap s)) co (\<lambda>t. t\<lparr>th_status := new_status,
          th_stack := [], th_call_stack := [], th_open_upvalues := [], th_error_object := None, th_hook := hook_new,
          th_suspended_upvals := []\<rparr>)\<rparr>
      in sort_open (fold reopen (th_suspended_upvals t) (load_fields t (s\<lparr>l_heap := h\<rparr>)))))"

definition suspended_of :: "lua \<Rightarrow> (GcRef \<times> nat) list" where
  "suspended_of s = List.map_filter (\<lambda>r. map_option (\<lambda>i. (r, i)) (uv_index (l_heap s) r)) (open_upvalues s)"

definition close_suspended :: "Val list \<Rightarrow> (GcRef \<times> nat) list \<Rightarrow> heap \<Rightarrow> heap" where
  "close_suspended st ps h = fold (\<lambda>(r, _) h. h\<lparr>h_upvalues := get_mut (h_upvalues h) r (\<lambda>uv. uv_close uv st)\<rparr>) ps h"

definition store_fields :: "lua \<Rightarrow> (GcRef \<times> nat) list \<Rightarrow> ThreadStatus \<Rightarrow> lthread \<Rightarrow> lthread" where
  "store_fields s suspended status t = t\<lparr>th_stack := stack s, th_base := l_base s, th_top := l_top s,
     th_call_stack := call_stack s, th_ci := l_ci s, th_n_ccalls := n_ccalls s, th_call_depth := call_depth s,
     th_ci_overflow := ci_overflow s, th_open_upvalues := open_upvalues s, th_suspended_upvals := suspended,
     th_error_object := error_object s, th_global := l_global s, th_hook := l_hook s,
     th_syntactic_global_lookup := syntactic_global_lookup s, th_yielded_in_hook := yielded_in_hook s,
     th_status := status\<rparr>"

definition save_and_restore_by_ref :: "lua \<Rightarrow> GcRef \<Rightarrow> ThreadStatus \<Rightarrow> lthread \<Rightarrow> lua" where
  "save_and_restore_by_ref s co co_status resumer =
    (let suspended = suspended_of s;
         h1 = close_suspended (stack s) suspended (l_heap s);
         h2 = h1\<lparr>h_threads := get_mut (h_threads h1) co (store_fields s suspended co_status)\<rparr>
     in fold reopen (th_suspended_upvals resumer) (load_fields resumer (s\<lparr>l_heap := h2\<rparr>)))"


text \<open>\<open>close_thread_upvalues\<close> of \<^verbatim>\<open>src/stdlib/coroutine.rs\<close>, before a resume.\<close>

definition close_thread_upvalues :: "lua \<Rightarrow> lua \<times> (GcRef \<times> nat) list" where
  "close_thread_upvalues s = (let suspended = suspended_of s in
     (s\<lparr>l_heap := close_suspended (stack s) suspended (l_heap s)\<rparr>, suspended))"

end
