(* ===== verification/Collector.thy ===== *)
theory Collector
  imports VmState
begin

text \<open>
  The interpreter side of the collector, \<^verbatim>\<open>impl LuaState\<close> of
  \<^verbatim>\<open>src/vm/gc/collector.rs\<close>: the roots, the traversal of the running thread and of the
  resumers below it, the incremental state machine, automatic steps and full collections. Calling a
  finalizer runs Lua code: \<open>call_function\<close> is a parameter, returning the state and the error if any.
\<close>

section \<open>Roots\<close>

definition on_heap :: "(heap \<Rightarrow> heap) \<Rightarrow> lua \<Rightarrow> lua" where
  "on_heap f s = s\<lparr>l_heap := f (l_heap s)\<rparr>"

definition mark_strings :: "GcRef list \<Rightarrow> heap \<Rightarrow> heap" where
  "mark_strings = fold (\<lambda>r. mark_value (VStr r))"

definition mark_global_slots :: "global_slot_runtime \<Rightarrow> heap \<Rightarrow> heap" where
  "mark_global_slots rt h = mark_opt (\<lambda>k. mark_value (VStr k)) (slot_shadow_registry_key rt)
     (mark_strings (slot_name_keys rt) (fold mark_value (slot_values rt) h))"

definition mark_cached_state_strings :: "lua \<Rightarrow> heap \<Rightarrow> heap" where
  "mark_cached_state_strings s h = mark_opt mark_global_slots (global_slots s)
     (mark_strings (debug_info_field_names s) (mark_strings (hook_mask_names s) (mark_strings (hook_event_names s) h)))"

definition mark_roots :: "lua \<Rightarrow> lua" where
  "mark_roots s = on_heap (\<lambda>h. mark_cached_state_strings s (mark_gc_roots
     (mark_table (registry s) (mark_table (l_global s) (push_gray GMainThread h))))) s"

text \<open>The function values of the frames up to the current one.\<close>

definition frame_functions :: "Val list \<Rightarrow> call_info list \<Rightarrow> nat \<Rightarrow> Val list" where
  "frame_functions st cis ci = List.map_filter (\<lambda>c. if ci_func c < length st then Some (st ! ci_func c) else None)
     (take (ci + 1) cis)"

definition mark_saved :: "lthread \<Rightarrow> heap \<Rightarrow> heap" where
  "mark_saved t h = fold mark_value (frame_functions (th_stack t) (th_call_stack t) (th_ci t))
     (mark_value (hook_func (th_hook t)) (mark_opt mark_value (th_error_object t)
     (fold mark_upvalue (map fst (th_suspended_upvals t)) (fold mark_upvalue (th_open_upvalues t)
     (fold mark_value (take (th_top t) (th_stack t)) h)))))"

definition mark_running :: "lua \<Rightarrow> heap \<Rightarrow> heap" where
  "mark_running s h = fold mark_saved (saved_threads s)
     (fold mark_value (frame_functions (stack s) (call_stack s) (l_ci s))
     (mark_value (hook_func (l_hook s)) (mark_opt mark_value (error_object s)
     (fold mark_upvalue (open_upvalues s) (fold mark_value (take (l_top s) (stack s)) h)))))"

definition traverse_main_thread :: "lua \<Rightarrow> lua \<times> nat" where
  "traverse_main_thread s =
    (on_heap (\<lambda>h. set_gc (\<lambda>g. g\<lparr>grayagain := grayagain g @ [GMainThread]\<rparr>) (mark_running s h)) s,
     EST_THREAD_SIZE + length (stack s) * 16 + length (call_stack s) * 40)"

definition traverse_main_thread_for_atomic :: "lua \<Rightarrow> lua" where
  "traverse_main_thread_for_atomic s = on_heap (mark_running s) s"

section \<open>The state machine\<close>

definition clear_marking :: "heap \<Rightarrow> heap" where
  "clear_marking = set_gc (\<lambda>g. g\<lparr>gray := [], grayagain := [], weak_tables := []\<rparr>)"

definition set_phase :: "GcPhase \<Rightarrow> heap \<Rightarrow> heap" where
  "set_phase p = set_gc (\<lambda>g. g\<lparr>gc_phase := p\<rparr>)"

text \<open>The outcome of running a finalizer: none left, one run, or its error.\<close>

datatype 'e finalizer_result = FNone | FRan | FError 'e

definition finalizer_of :: "heap \<Rightarrow> GcRef \<Rightarrow> Val option" where
  "finalizer_of h r = (case Option.bind (get (h_userdata h) r) ud_metatable of None \<Rightarrow> None
   | Some mt \<Rightarrow> (case find_interned_string (ascii ''__gc'') h of None \<Rightarrow> None
       | Some name \<Rightarrow> gettm (h_tables h) (h_string_arena h) mt name))"

definition call_gc_finalizer :: "(nat \<Rightarrow> lua \<Rightarrow> lua \<times> 'e option) \<Rightarrow> lua \<Rightarrow> lua \<times> 'e finalizer_result" where
  "call_gc_finalizer call_function s = (case tmudata (h_gc (l_heap s)) of [] \<Rightarrow> (s, FNone)
   | r # rest \<Rightarrow> (let s1 = on_heap (set_gc (\<lambda>g. g\<lparr>tmudata := rest\<rparr>)) s in
       case finalizer_of (l_heap s1) r of None \<Rightarrow> (s1, FRan)
       | Some gc_fn \<Rightarrow>
          (let s2 = on_heap (set_gc (\<lambda>g. g\<lparr>gc_threshold := min (total_bytes g + GCSTEPSIZE) USIZE_MAX\<rparr>)) s1
           in case call_function (l_top s2) (push (push s2 gc_fn) (VUserdata r)) of
               (s3, Some e) \<Rightarrow> (s3\<lparr>l_ci := l_ci s2, l_base := ci_base (call_stack s3 ! l_ci s2), l_top := l_top s2\<rparr>, FError e)
             | (s3, None) \<Rightarrow> (on_heap (set_gc (\<lambda>g. g\<lparr>gc_threshold := total_bytes g * gc_pause g div 100\<rparr>)) s3, FRan))))"

definition gc_singlestep :: "(nat \<Rightarrow> lua \<Rightarrow> lua \<times> 'e option) \<Rightarrow> lua \<Rightarrow> lua \<times> ('e, nat) res" where
  "gc_singlestep call_function s = (case gc_phase (h_gc (l_heap s)) of
     Pause \<Rightarrow> (on_heap (set_phase Propagate) (mark_roots (on_heap clear_marking s)), Inr 0)
   | Propagate \<Rightarrow> (case propagate_one (l_heap s) of
        (h, Done cost) \<Rightarrow> (s\<lparr>l_heap := h\<rparr>, Inr cost)
      | (h, NeedMainThread) \<Rightarrow> (case traverse_main_thread (s\<lparr>l_heap := h\<rparr>) of (s1, cost) \<Rightarrow> (s1, Inr cost))
      | (h, Empty) \<Rightarrow> (on_heap atomic (traverse_main_thread_for_atomic (s\<lparr>l_heap := h\<rparr>)), Inr 0))
   | SweepString \<Rightarrow> (case sweep_strings_step (l_heap s) of (h, cost) \<Rightarrow> (s\<lparr>l_heap := h\<rparr>, Inr cost))
   | Sweep \<Rightarrow> (case sweep_other_step (l_heap s) of (h, cost) \<Rightarrow> (s\<lparr>l_heap := h\<rparr>, Inr cost))
   | Finalize \<Rightarrow> (case call_gc_finalizer call_function s of
        (s1, FRan) \<Rightarrow> (on_heap (set_gc (\<lambda>g. if gc_estimate g > GCFINALIZECOST
             then g\<lparr>gc_estimate := gc_estimate g - GCFINALIZECOST\<rparr> else g)) s1, Inr GCFINALIZECOST)
      | (s1, FNone) \<Rightarrow> (on_heap (set_gc (\<lambda>g. g\<lparr>gc_phase := Pause, gc_debt := 0\<rparr>)) s1, Inr 0)
      | (s1, FError e) \<Rightarrow> (s1, Inl e)))"

definition set_running :: "bool \<Rightarrow> lua \<Rightarrow> lua" where
  "set_running b = on_heap (set_gc (\<lambda>g. g\<lparr>gc_running := b\<rparr>))"

text \<open>The loop of a bounded step. Fuel bounds its turns; \<open>None\<close> is a step that needs more.\<close>

primrec gc_step_loop :: "nat \<Rightarrow> (nat \<Rightarrow> lua \<Rightarrow> lua \<times> 'e option) \<Rightarrow> int \<Rightarrow> lua \<Rightarrow> (lua \<times> ('e, bool) res) option" where
  "gc_step_loop 0 call_function budget s = None"
| "gc_step_loop (Suc n) call_function budget s = (case gc_singlestep call_function s of
     (s1, Inl e) \<Rightarrow> Some (s1, Inl e)
   | (s1, Inr cost) \<Rightarrow>
       (if gc_phase (h_gc (l_heap s1)) = Pause then Some (on_heap update_threshold s1, Inr True)
        else if budget - int cost \<le> 0 then
          Some (on_heap (set_gc (\<lambda>g. if gc_debt g < int GCSTEPSIZE
              then g\<lparr>gc_threshold := min (total_bytes g + GCSTEPSIZE) USIZE_MAX\<rparr>
              else g\<lparr>gc_debt := gc_debt g - int GCSTEPSIZE, gc_threshold := total_bytes g\<rparr>)) s1, Inr False)
        else gc_step_loop n call_function (budget - int cost) s1))"

definition gc_step :: "nat \<Rightarrow> (nat \<Rightarrow> lua \<Rightarrow> lua \<times> 'e option) \<Rightarrow> int \<Rightarrow> lua \<Rightarrow> (lua \<times> ('e, bool) res) option" where
  "gc_step n call_function budget s = (if gc_running (h_gc (l_heap s)) then Some (s, Inr False)
     else map_option (\<lambda>(s1, r). (set_running False s1, r)) (gc_step_loop n call_function budget (set_running True s)))"

text \<open>One turn of a full collection's loops: the flag is down during the step.\<close>

definition full_turn :: "(nat \<Rightarrow> lua \<Rightarrow> lua \<times> 'e option) \<Rightarrow> lua \<Rightarrow> lua \<times> ('e, nat) res" where
  "full_turn call_function s = (case gc_singlestep call_function (set_running False s) of
     (s1, Inl e) \<Rightarrow> (s1, Inl e)
   | (s1, Inr cost) \<Rightarrow> (set_running True s1, Inr cost))"

primrec run_until :: "nat \<Rightarrow> (GcPhase \<Rightarrow> bool) \<Rightarrow> (nat \<Rightarrow> lua \<Rightarrow> lua \<times> 'e option) \<Rightarrow> lua \<Rightarrow> (lua \<times> ('e, unit) res) option" where
  "run_until 0 stop call_function s = None"
| "run_until (Suc n) stop call_function s = (if stop (gc_phase (h_gc (l_heap s))) then Some (s, Inr ())
     else case full_turn call_function s of
        (s1, Inl e) \<Rightarrow> Some (s1, Inl e)
      | (s1, Inr _) \<Rightarrow> run_until n stop call_function s1)"

definition full_gc_inner :: "nat \<Rightarrow> (nat \<Rightarrow> lua \<Rightarrow> lua \<times> 'e option) \<Rightarrow> lua \<Rightarrow> (lua \<times> ('e, unit) res) option" where
  "full_gc_inner n call_function s =
    (let ph = gc_phase (h_gc (l_heap s));
         s1 = (if ph = Pause \<or> ph = Propagate
               then on_heap (\<lambda>h. set_gc (\<lambda>g. g\<lparr>gc_phase := SweepString, gc_cursor := \<lparr>arena_index = 0, slot_position = 0\<rparr>\<rparr>)
                      (clear_marking h)) s
               else s)
     in case run_until n (\<lambda>p. p = Pause \<or> p = Propagate) call_function s1 of
          None \<Rightarrow> None
        | Some (s2, Inl e) \<Rightarrow> Some (s2, Inl e)
        | Some (s2, Inr _) \<Rightarrow>
            (let s3 = on_heap (set_phase Propagate) (mark_roots (on_heap clear_marking s2))
             in case run_until n (\<lambda>p. p = Pause) call_function s3 of
                  None \<Rightarrow> None
                | Some (s4, Inl e) \<Rightarrow> Some (s4, Inl e)
                | Some (s4, Inr _) \<Rightarrow> Some (on_heap update_threshold s4, Inr ())))"

definition full_gc :: "nat \<Rightarrow> (nat \<Rightarrow> lua \<Rightarrow> lua \<times> 'e option) \<Rightarrow> lua \<Rightarrow> (lua \<times> ('e, unit) res) option" where
  "full_gc n call_function s = (if gc_running (h_gc (l_heap s)) then Some (s, Inr ())
     else map_option (\<lambda>(s1, r). (set_running False s1, r)) (full_gc_inner n call_function (set_running True s)))"

section \<open>Automatic steps\<close>

definition gc_auto_step_budget :: "lua \<Rightarrow> int" where
  "gc_auto_step_budget s = (let g = h_gc (l_heap s); stepmul = int (gc_stepmul g) in
     if stepmul = 0 then (2 ^ 63 - 1) div 2
     else let base = (int GCSTEPSIZE div 100) * stepmul in
       if gc_phase g = Pause \<or> gc_debt g < int GCSTEPSIZE then base else min (base * 2) (2 ^ 63 - 1))"

definition gc_step_auto :: "nat \<Rightarrow> (nat \<Rightarrow> lua \<Rightarrow> lua \<times> 'e option) \<Rightarrow> lua \<Rightarrow> (lua \<times> ('e, bool) res) option" where
  "gc_step_auto n call_function s =
    (let s1 = on_heap (set_gc (\<lambda>g. g\<lparr>gc_debt := gc_debt g + int (total_bytes g) - int (gc_threshold g)\<rparr>)) s
     in gc_step n call_function (gc_auto_step_budget s1) s1)"

text \<open>\<open>None\<close> as the error is \<open>LuaError::Memory\<close>.\<close>

definition gc_check :: "nat \<Rightarrow> (nat \<Rightarrow> lua \<Rightarrow> lua \<times> 'e option) \<Rightarrow> lua \<Rightarrow> (lua \<times> ('e option, unit) res) option" where
  "gc_check n call_function s =
    (case (if should_collect (l_heap s) then gc_step_auto n call_function s else Some (s, Inr False)) of
       None \<Rightarrow> None
     | Some (s1, Inl e) \<Rightarrow> Some (s1, Inl (Some e))
     | Some (s1, Inr _) \<Rightarrow> Some (s1, if alloc_limit_exceeded (l_heap s1) then Inl None else Inr ()))"

end
