(* ===== verification/Tricolor.thy ===== *)
theory Tricolor
  imports Collector
begin

text \<open>
  The objects of the heap as one kind of node, their colours and their strong children, and what every
  marking operation of the collector does to them: it darkens white objects, pushes the gray ones, leaves
  no white child under what it blackens, and never touches anything else.
\<close>

section \<open>Marking one slot\<close>

text \<open>An object that a mark would darken.\<close>

definition markable :: "'a arena \<Rightarrow> GcRef \<Rightarrow> bool" where
  "markable a r \<longleftrightarrow> (case color a r of Some c \<Rightarrow> is_white c | None \<Rightarrow> False)
     \<and> flags a ! ix r AND flag_mask Frozen = 0"

text \<open>An arena without its colours.\<close>

definition shape :: "'a arena \<Rightarrow> 'a arena" where
  "shape a = a\<lparr>colors := []\<rparr>"

lemma ix_inj: "ix r = ix r' \<Longrightarrow> ref_gen r = ref_gen r' \<Longrightarrow> r = r'"
  by (cases r; cases r') (simp add: word_unat_eq_iff)

lemma color_eq:
  "color a r = (case occupied_index a r of Some i \<Rightarrow> byte_to_color (colors a ! i) | None \<Rightarrow> None)"
  by (simp add: color_def occupied_index_def byte_to_color_def COLOR_FREE_def COLOR_WHITE0_def COLOR_WHITE1_def
      COLOR_GRAY_def COLOR_BLACK_def)

lemma shape_eqD:
  assumes "shape a = shape b"
  shows "entries a = entries b" "flags a = flags b" "alen a = alen b" "free_head a = free_head b" "get a = get b"
proof -
  from assms show e: "entries a = entries b" "flags a = flags b" "alen a = alen b" "free_head a = free_head b"
    by (cases a; cases b; simp add: shape_def)+
  then show "get a = get b" by (simp add: get_def fun_eq_iff)
qed

lemma color_valid: "arena_inv a \<Longrightarrow> color a r = None \<longleftrightarrow> get a r = None"
proof -
  assume inv: "arena_inv a"
  show ?thesis
  proof (cases "get a r")
    case None
    then have "occupied_index a r = None" using occupied_index_valid [OF inv, of r] by (simp add: is_valid_def)
    then show ?thesis using None by (simp add: color_eq)
  next
    case (Some v)
    then have o': "occupied_index a r = Some (ix r)" using occupied_index_valid [OF inv, of r] by (simp add: is_valid_def)
    then have "byte_to_color (colors a ! ix r) \<noteq> None"
      using inv byte_to_color_None [of "colors a ! ix r"] by (auto simp: occupied_index_Some arena_inv_def)
    then show ?thesis using Some o' by (simp add: color_eq)
  qed
qed

lemma color_set_color:
  assumes "arena_inv a"
  shows "color (fst (set_color a r c)) r' = (if r' = r \<and> get a r \<noteq> None then Some c else color a r')"
proof (cases "occupied_index a r")
  case None
  then show ?thesis using occupied_index_valid [OF assms, of r]
    by (simp add: set_color_def is_valid_def split: if_splits)
next
  case (Some i)
  then have i: "i = ix r" "ix r < length (entries a)" "egen (entries a ! ix r) = ref_gen r"
    "colors a ! ix r \<noteq> COLOR_FREE"
    by (auto simp: occupied_index_Some)
  have v: "get a r \<noteq> None" using Some occupied_index_valid [OF assms, of r] by (simp add: is_valid_def split: if_splits)
  have l: "ix r < length (colors a)" using i(2) arena_inv_lengths(1) [OF assms] by simp
  show ?thesis
  proof (cases "r' = r")
    case True
    then show ?thesis using Some i l v by (simp add: set_color_def color_def)
  next
    case False
    show ?thesis
    proof (cases "ix r' = ix r")
      case True
      then have "egen (entries a ! ix r') \<noteq> ref_gen r'" using False ix_inj [of r' r] i(3) by auto
      then show ?thesis using False Some by (simp add: set_color_def color_def)
    next
      case ne: False
      then show ?thesis using False Some i by (simp add: set_color_def color_def)
    qed
  qed
qed

lemma shape_set_color [simp]: "shape (fst (set_color a r c)) = shape a"
  by (simp add: set_color_def shape_def split: option.splits)

lemma mark_white_eq:
  assumes "arena_inv a"
  shows "mark_white_unfrozen a r c = (if markable a r then (fst (set_color a r c), True) else (a, False))"
proof (cases "occupied_index a r")
  case None
  then show ?thesis by (simp add: mark_white_unfrozen_def markable_def color_eq)
next
  case (Some i)
  then have "i = ix r" by (simp add: occupied_index_Some)
  then show ?thesis using Some by (auto simp: mark_white_unfrozen_def markable_def color_eq set_color_def split: option.splits)
qed

lemma set_color_white_slots:
  assumes "arena_inv a" "markable a r" "\<not> is_white c"
  shows "white_slots (fst (set_color a r c)) < white_slots a"
  by (rule white_slots_less [OF _ assms(3) arena_inv_lengths(1) [OF assms(1)]])
    (use mark_white_eq [OF assms(1), of r c] assms(2) in simp)

lemma markable_get: "arena_inv a \<Longrightarrow> markable a r \<Longrightarrow> get a r \<noteq> None"
  using color_valid [of a r] by (auto simp: markable_def split: option.splits)

lemma markable_set_color:
  assumes "arena_inv a" "\<not> is_white c"
  shows "markable (fst (set_color a r c)) r' \<longleftrightarrow> markable a r' \<and> r' \<noteq> r"
proof -
  have "flags (fst (set_color a r c)) = flags a" by (simp add: set_color_def split: option.splits)
  moreover have "r' = r \<Longrightarrow> get a r = None \<Longrightarrow> \<not> markable a r" using markable_get [OF assms(1)] by blast
  ultimately show ?thesis using color_set_color [OF assms(1), of r c r'] assms(2)
    by (auto simp: markable_def split: if_splits)
qed


section \<open>Objects and their children\<close>

datatype obj = OStr GcRef | OTab GcRef | OClo GcRef | OUpv GcRef | OUd GcRef | OThr GcRef

primrec ocolor :: "heap \<Rightarrow> obj \<Rightarrow> Color option" where
  "ocolor h (OStr r) = color (h_string_arena h) r"
| "ocolor h (OTab r) = color (h_tables h) r"
| "ocolor h (OClo r) = color (h_closures h) r"
| "ocolor h (OUpv r) = color (h_upvalues h) r"
| "ocolor h (OUd r) = color (h_userdata h) r"
| "ocolor h (OThr r) = color (h_threads h) r"

primrec olive :: "heap \<Rightarrow> obj \<Rightarrow> bool" where
  "olive h (OStr r) \<longleftrightarrow> get (h_string_arena h) r \<noteq> None"
| "olive h (OTab r) \<longleftrightarrow> get (h_tables h) r \<noteq> None"
| "olive h (OClo r) \<longleftrightarrow> get (h_closures h) r \<noteq> None"
| "olive h (OUpv r) \<longleftrightarrow> get (h_upvalues h) r \<noteq> None"
| "olive h (OUd r) \<longleftrightarrow> get (h_userdata h) r \<noteq> None"
| "olive h (OThr r) \<longleftrightarrow> get (h_threads h) r \<noteq> None"

primrec oflags :: "heap \<Rightarrow> obj \<Rightarrow> u8" where
  "oflags h (OStr r) = flags (h_string_arena h) ! ix r"
| "oflags h (OTab r) = flags (h_tables h) ! ix r"
| "oflags h (OClo r) = flags (h_closures h) ! ix r"
| "oflags h (OUpv r) = flags (h_upvalues h) ! ix r"
| "oflags h (OUd r) = flags (h_userdata h) ! ix r"
| "oflags h (OThr r) = flags (h_threads h) ! ix r"

definition ofrozen :: "heap \<Rightarrow> obj \<Rightarrow> bool" where
  "ofrozen h ob \<longleftrightarrow> oflags h ob AND flag_mask Frozen \<noteq> 0"

definition omark :: "heap \<Rightarrow> obj \<Rightarrow> bool" where
  "omark h ob \<longleftrightarrow> (case ocolor h ob of Some c \<Rightarrow> is_white c | None \<Rightarrow> False) \<and> \<not> ofrozen h ob"

lemma omark_simps [simp]:
  "omark h (OStr r) = markable (h_string_arena h) r" "omark h (OTab r) = markable (h_tables h) r"
  "omark h (OClo r) = markable (h_closures h) r" "omark h (OUpv r) = markable (h_upvalues h) r"
  "omark h (OUd r) = markable (h_userdata h) r" "omark h (OThr r) = markable (h_threads h) r"
  by (simp_all add: omark_def ofrozen_def markable_def)

definition val_obj :: "Val \<Rightarrow> obj list" where
  "val_obj v = (case v of VStr r \<Rightarrow> [OStr r] | VTable r \<Rightarrow> [OTab r] | VFunction r \<Rightarrow> [OClo r]
     | VUserdata r \<Rightarrow> [OUd r] | VThread r \<Rightarrow> [OThr r] | _ \<Rightarrow> [])"

definition opt_list :: "('a \<Rightarrow> 'b) \<Rightarrow> 'a option \<Rightarrow> 'b list" where
  "opt_list f x = (case x of None \<Rightarrow> [] | Some y \<Rightarrow> [f y])"

definition vals_objs :: "Val list \<Rightarrow> obj list" where
  "vals_objs vs = concat (map val_obj vs)"

definition table_children :: "heap \<Rightarrow> table \<Rightarrow> obj list" where
  "table_children h t = (case check_weak_mode h (tmeta t) of (weak_keys, weak_values) \<Rightarrow>
     opt_list OTab (tmeta t)
     @ (if weak_values then [] else vals_objs (collect_table_array_mark_values t))
     @ (if weak_keys \<and> weak_values then [] else vals_objs (collect_table_hash_mark_values t weak_keys weak_values)))"

definition closure_children :: "Closure \<Rightarrow> obj list" where
  "closure_children c = (case c of
     LuaC lc \<Rightarrow> OTab (lc_env lc) # map OUpv (lc_upvalues lc) @ vals_objs (proto_constants (lc_proto lc))
   | RustC rc \<Rightarrow> opt_list OTab (rc_env rc) @ vals_objs (rc_upvalues rc))"

definition upvalue_children :: "upvalue \<Rightarrow> obj list" where
  "upvalue_children uv = (case uv_state uv of Closed v \<Rightarrow> val_obj v | Open _ \<Rightarrow> [])"

definition userdata_children :: "userdata \<Rightarrow> obj list" where
  "userdata_children ud = opt_list OTab (ud_metatable ud) @ opt_list OTab (ud_env ud)
     @ (case ud_secret_value ud of None \<Rightarrow> [] | Some v \<Rightarrow> val_obj v)"

definition thread_children :: "lthread \<Rightarrow> obj list" where
  "thread_children t = OTab (th_global t) # val_obj (hook_func (th_hook t)) @ vals_objs (thread_stack_values t)
     @ map OUpv (th_open_upvalues t) @ map (\<lambda>p. OUpv (fst p)) (th_suspended_upvals t)"

text \<open>
  The strong references the collector follows out of an object. It follows none out of a frozen object or
  a table marked to be skipped, and none of the weak side of a weak table.
\<close>

definition ochildren :: "heap \<Rightarrow> obj \<Rightarrow> obj list" where
  "ochildren h ob = (if ofrozen h ob then [] else case ob of
     OStr r \<Rightarrow> []
   | OTab r \<Rightarrow> (case get (h_tables h) r of None \<Rightarrow> [] | Some t \<Rightarrow>
        if is_skip_traverse_or_frozen (h_tables h) r then [] else table_children h t)
   | OClo r \<Rightarrow> (case get (h_closures h) r of None \<Rightarrow> [] | Some c \<Rightarrow> closure_children c)
   | OUpv r \<Rightarrow> (case get (h_upvalues h) r of None \<Rightarrow> [] | Some u \<Rightarrow> upvalue_children u)
   | OUd r \<Rightarrow> (case get (h_userdata h) r of None \<Rightarrow> [] | Some u \<Rightarrow> userdata_children u)
   | OThr r \<Rightarrow> (case get (h_threads h) r of None \<Rightarrow> [] | Some t \<Rightarrow> thread_children t))"

definition heap_ok :: "heap \<Rightarrow> bool" where
  "heap_ok h \<longleftrightarrow> arena_inv (h_string_arena h) \<and> arena_inv (h_tables h) \<and> arena_inv (h_closures h)
     \<and> arena_inv (h_upvalues h) \<and> arena_inv (h_userdata h) \<and> arena_inv (h_threads h)"

text \<open>Everything but the colours and the collector's own state.\<close>

definition same_shape :: "heap \<Rightarrow> heap \<Rightarrow> bool" where
  "same_shape h h' \<longleftrightarrow> shape (h_string_arena h) = shape (h_string_arena h') \<and> shape (h_tables h) = shape (h_tables h')
     \<and> shape (h_closures h) = shape (h_closures h') \<and> shape (h_upvalues h) = shape (h_upvalues h')
     \<and> shape (h_userdata h) = shape (h_userdata h') \<and> shape (h_threads h) = shape (h_threads h')
     \<and> h_strings h = h_strings h' \<and> h_white h = h_white h' \<and> h_type_metatables h = h_type_metatables h'
     \<and> h_tm_names h = h_tm_names h' \<and> h_type_name_refs h = h_type_name_refs h'
     \<and> h_static_intern_cache h = h_static_intern_cache h'"

lemma same_shape_refl [simp]: "same_shape h h"
  by (simp add: same_shape_def)

lemma same_shape_trans: "same_shape a b \<Longrightarrow> same_shape b c \<Longrightarrow> same_shape a c"
  by (simp add: same_shape_def)

lemma same_shape_sym: "same_shape a b \<Longrightarrow> same_shape b a"
  by (simp add: same_shape_def)

lemma same_shape_get:
  assumes "same_shape h h'"
  shows "get (h_string_arena h) = get (h_string_arena h')" "get (h_tables h) = get (h_tables h')"
    "get (h_closures h) = get (h_closures h')" "get (h_upvalues h) = get (h_upvalues h')"
    "get (h_userdata h) = get (h_userdata h')" "get (h_threads h) = get (h_threads h')"
  using assms by (auto simp: same_shape_def dest: shape_eqD(5))

lemma same_shape_flags:
  assumes "same_shape h h'"
  shows "oflags h = oflags h'" "ofrozen h = ofrozen h'" "olive h = olive h'"
proof -
  have f: "flags (h_string_arena h) = flags (h_string_arena h')" "flags (h_tables h) = flags (h_tables h')"
    "flags (h_closures h) = flags (h_closures h')" "flags (h_upvalues h) = flags (h_upvalues h')"
    "flags (h_userdata h) = flags (h_userdata h')" "flags (h_threads h) = flags (h_threads h')"
    using assms by (auto simp: same_shape_def dest: shape_eqD(2))
  show 1: "oflags h = oflags h'"
  proof
    fix ob show "oflags h ob = oflags h' ob" by (cases ob) (simp_all add: f)
  qed
  then show "ofrozen h = ofrozen h'" by (simp add: ofrozen_def fun_eq_iff)
  show "olive h = olive h'"
  proof
    fix ob show "olive h ob = olive h' ob" by (cases ob) (simp_all add: same_shape_get [OF assms])
  qed
qed

lemma map_map_filter_cong:
  "\<forall>i \<in> set xs. map_option g (f1 i) = map_option g (f2 i) \<Longrightarrow>
   map g (List.map_filter f1 xs) = map g (List.map_filter f2 xs)"
proof (induction xs)
  case (Cons x xs)
  then show ?case by (cases "f1 x"; cases "f2 x") (simp_all add: List.map_filter_simps)
qed simp

text \<open>Which slots an arena's iterator yields does not depend on the colours.\<close>

lemma arena_items_shape:
  assumes "arena_inv a" "arena_inv b" "shape a = shape b"
  shows "map (\<lambda>(r, v, c). (r, v)) (arena_items a) = map (\<lambda>(r, v, c). (r, v)) (arena_items b)"
proof -
  let ?f = "\<lambda>a i. case byte_to_color (colors a ! i) of None \<Rightarrow> None
     | Some c \<Rightarrow> (case estate (entries a ! i) of
          Occupied v \<Rightarrow> Some (GcRef (word_of_nat i) (egen (entries a ! i)), v, c) | Free _ \<Rightarrow> None)"
  have e: "entries a = entries b" using assms(3) by (rule shape_eqD(1))
  have nf: "byte_to_color (colors x ! i) = None \<longleftrightarrow> is_free_slot (entries x ! i)"
    if "arena_inv x" "i < length (entries x)" for x :: "'a arena" and i
    using that byte_to_color_None [of "colors x ! i"] by (auto simp: arena_inv_def byte_to_color_def)
  have "map_option (\<lambda>(r, v, c). (r, v)) (?f a i) = map_option (\<lambda>(r, v, c). (r, v)) (?f b i)"
    if "i < length (entries a)" for i
    using nf [OF assms(1) that] nf [OF assms(2), of i] that e
    by (auto split: option.splits EntryState.splits simp: is_free_slot_def)
  then show ?thesis unfolding arena_items_def e [symmetric]
    by (intro map_map_filter_cong ballI) (simp add: e)
qed

lemma find_map_eq: "map f xs = map f ys \<Longrightarrow> \<forall>x. P x = Q (f x) \<Longrightarrow> map_option f (find P xs) = map_option f (find P ys)"
proof (induction xs arbitrary: ys)
  case (Cons x xs)
  then obtain y ys' where y: "ys = y # ys'" "f x = f y" "map f xs = map f ys'" by (cases ys) auto
  show ?case using Cons.IH [OF y(3) Cons.prems(2)] Cons.prems(2) y(1,2) by simp
qed simp

lemma find_interned_shape:
  assumes "heap_ok h" "heap_ok h'" "same_shape h h'"
  shows "find_interned_string name h = find_interned_string name h'"
proof -
  let ?f = "\<lambda>(r, v, c). (r, v)" and ?P = "\<lambda>(r, ls, _). sdata ls = name"
  have "map ?f (arena_items (h_string_arena h)) = map ?f (arena_items (h_string_arena h'))"
    using assms by (intro arena_items_shape) (simp_all add: heap_ok_def same_shape_def)
  then have "map_option ?f (find ?P (arena_items (h_string_arena h)))
      = map_option ?f (find ?P (arena_items (h_string_arena h')))"
    by (rule find_map_eq [where Q = "\<lambda>(r, ls). sdata ls = name"]) (simp add: split_beta)
  then have A: "map_option fst (find ?P (arena_items (h_string_arena h)))
      = map_option fst (find ?P (arena_items (h_string_arena h')))"
    by (cases "find ?P (arena_items (h_string_arena h))"; cases "find ?P (arena_items (h_string_arena h'))") auto
  have B: "h_tm_names h = h_tm_names h'" using assms(3) by (simp add: same_shape_def)
  show ?thesis unfolding find_interned_string_def same_shape_get(1) [OF assms(3)] A B ..
qed

lemma lookup_str_shape:
  assumes "shape a = shape b" shows "lookup_str t r a = lookup_str t r b"
  by (simp add: lookup_str_def get_str_def shape_eqD(5) [OF assms])

lemma weak_mode_shape:
  assumes "heap_ok h" "heap_ok h'" "same_shape h h'"
  shows "check_weak_mode h mt = check_weak_mode h' mt"
proof -
  have "shape (h_string_arena h) = shape (h_string_arena h')" using assms(3) by (simp add: same_shape_def)
  then have l: "lookup_str t r (h_string_arena h) = lookup_str t r (h_string_arena h')" for t r
    by (rule lookup_str_shape)
  show ?thesis unfolding check_weak_mode_def same_shape_get [OF assms(3)] find_interned_shape [OF assms] l by simp
qed

lemma ochildren_shape:
  assumes "heap_ok h" "heap_ok h'" "same_shape h h'"
  shows "ochildren h ob = ochildren h' ob"
proof -
  have s: "is_skip_traverse_or_frozen (h_tables h) r = is_skip_traverse_or_frozen (h_tables h') r" for r
  proof -
    have "arena_inv (h_tables h)" "arena_inv (h_tables h')" using assms by (simp_all add: heap_ok_def)
    moreover have "flags (h_tables h) = flags (h_tables h')" using assms(3) shape_eqD(2) unfolding same_shape_def by blast
    ultimately show ?thesis
      by (simp add: is_skip_traverse_or_frozen_def has_any_flag_mask_def occupied_index_valid is_valid_def
          same_shape_get [OF assms(3)])
  qed
  have t: "table_children h = table_children h'"
    unfolding table_children_def weak_mode_shape [OF assms] by simp
  show ?thesis unfolding ochildren_def same_shape_flags [OF assms(3)] same_shape_get [OF assms(3)] s t by simp
qed


text \<open>The tables whose metatable makes them weak.\<close>

definition is_weak :: "heap \<Rightarrow> GcRef \<Rightarrow> bool" where
  "is_weak h r \<longleftrightarrow> (case get (h_tables h) r of None \<Rightarrow> False
     | Some t \<Rightarrow> check_weak_mode h (tmeta t) \<noteq> (False, False))"

lemma is_weak_shape:
  assumes "heap_ok h" "heap_ok h'" "same_shape h h'" shows "is_weak h r = is_weak h' r"
  unfolding is_weak_def weak_mode_shape [OF assms] same_shape_get [OF assms(3)] ..

lemma is_weak_gc [simp]: "is_weak (h\<lparr>h_gc := g\<rparr>) = is_weak h"
proof -
  have "find_interned_string n (h\<lparr>h_gc := g\<rparr>) = find_interned_string n h" for n
    by (simp add: find_interned_string_def cong: option.case_cong)
  then have "check_weak_mode (h\<lparr>h_gc := g\<rparr>) = check_weak_mode h"
    by (simp add: check_weak_mode_def fun_eq_iff cong: option.case_cong Val.case_cong)
  then show ?thesis by (simp add: is_weak_def fun_eq_iff cong: option.case_cong)
qed

section \<open>What marking does\<close>

definition whites :: "heap \<Rightarrow> nat" where
  "whites h = white_slots (h_tables h) + white_slots (h_closures h) + white_slots (h_threads h)"

primrec item_obj :: "GrayItem \<Rightarrow> obj option" where
  "item_obj (GTable r) = Some (OTab r)"
| "item_obj (GClosure r) = Some (OClo r)"
| "item_obj (GThread r) = Some (OThr r)"
| "item_obj GMainThread = None"

text \<open>
  \<open>mk S R h h'\<close>: \<open>h'\<close> is \<open>h\<close> with some white objects of \<open>R\<close> darkened. The gray ones are on
  the gray list; the black ones, but for those of \<open>S\<close>, have no child left to mark.
\<close>

definition darkened :: "obj set \<Rightarrow> heap \<Rightarrow> heap \<Rightarrow> obj \<Rightarrow> bool" where
  "darkened S h h' ob \<longleftrightarrow> ocolor h' ob = Some Gray \<and> Some ob \<in> item_obj ` set (gray (h_gc h'))
     \<or> ocolor h' ob = Some Black \<and> (ob \<in> S \<or> (\<forall>c \<in> set (ochildren h ob). \<not> omark h' c))"

definition mk :: "obj set \<Rightarrow> obj set \<Rightarrow> heap \<Rightarrow> heap \<Rightarrow> bool" where
  "mk S R h h' \<longleftrightarrow> same_shape h h' \<and> heap_ok h'
     \<and> (\<forall>ob. omark h' ob \<longrightarrow> omark h ob)
     \<and> (\<forall>ob. omark h ob = omark h' ob \<longrightarrow> ocolor h' ob = ocolor h ob)
     \<and> (\<forall>ob. omark h ob \<and> \<not> omark h' ob \<longrightarrow> ob \<in> R \<and> darkened S h h' ob)
     \<and> (\<exists>new. gray (h_gc h') = new @ gray (h_gc h) \<and> 2 * whites h' + length new \<le> 2 * whites h
         \<and> (\<forall>it \<in> set new. \<exists>ob. item_obj it = Some ob \<and> omark h ob \<and> \<not> omark h' ob))
     \<and> h_gc h' = (h_gc h)\<lparr>gray := gray (h_gc h'), weak_tables := weak_tables (h_gc h')\<rparr>
     \<and> set (weak_tables (h_gc h')) \<subseteq> set (weak_tables (h_gc h)) \<union> Collect (is_weak h)"

lemma mkD:
  assumes "mk S R h h'"
  shows "same_shape h h'" "heap_ok h'" "omark h' ob \<Longrightarrow> omark h ob"
    "omark h ob = omark h' ob \<Longrightarrow> ocolor h' ob = ocolor h ob"
    "omark h ob \<Longrightarrow> \<not> omark h' ob \<Longrightarrow> ob \<in> R"
    "omark h ob \<Longrightarrow> \<not> omark h' ob \<Longrightarrow> darkened S h h' ob"
    "h_gc h' = (h_gc h)\<lparr>gray := gray (h_gc h'), weak_tables := weak_tables (h_gc h')\<rparr>"
    "set (gray (h_gc h)) \<subseteq> set (gray (h_gc h'))"
    "set (weak_tables (h_gc h')) \<subseteq> set (weak_tables (h_gc h)) \<union> Collect (is_weak h)"
  using assms unfolding mk_def by (blast, blast, blast, blast, blast, blast, blast, force, blast)

lemma mk_gray:
  assumes "mk S R h h'"
  obtains new where "gray (h_gc h') = new @ gray (h_gc h)" "2 * whites h' + length new \<le> 2 * whites h"
    "\<forall>it \<in> set new. \<exists>ob. item_obj it = Some ob \<and> omark h ob \<and> \<not> omark h' ob"
  using assms unfolding mk_def by blast

lemma mk_refl: "heap_ok h \<Longrightarrow> mk S R h h"
  by (simp add: mk_def)

lemma mk_trans:
  assumes ok: "heap_ok a" and ab: "mk S R a b" and bc: "mk S R b c"
  shows "mk S R a c"
  unfolding mk_def
proof (intro conjI allI impI)
  note A = mkD [OF ab] and B = mkD [OF bc]
  show "same_shape a c" using A(1) B(1) by (rule same_shape_trans)
  show "heap_ok c" by (rule B(2))
  show "omark a ob" if "omark c ob" for ob using A(3) B(3) that by blast
  show "ocolor c ob = ocolor a ob" if eq: "omark a ob = omark c ob" for ob
  proof -
    have "omark b ob = omark a ob" using A(3) [of ob] B(3) [of ob] eq by blast
    then show ?thesis using A(4) [of ob] B(4) [of ob] eq by simp
  qed
  have ch: "ochildren b ob = ochildren a ob" for ob
    using ochildren_shape [OF ok A(2) A(1)] by simp
  show "ob \<in> R" if m: "omark a ob \<and> \<not> omark c ob" for ob
    using m A(5) [of ob] B(5) [of ob] by blast
  show "darkened S a c ob" if m: "omark a ob \<and> \<not> omark c ob" for ob
  proof (cases "omark b ob")
    case True
    then have "darkened S b c ob" using B(6) m by blast
    then show ?thesis by (simp add: darkened_def ch)
  next
    case False
    then have "darkened S a b ob" using A(6) m by blast
    moreover have "ocolor c ob = ocolor b ob" using B(4) [of ob] False m by simp
    ultimately show ?thesis using B(8) B(3) unfolding darkened_def by (metis image_mono subsetD)
  qed
  obtain n1 where n1: "gray (h_gc b) = n1 @ gray (h_gc a)" "2 * whites b + length n1 \<le> 2 * whites a"
    "\<forall>it \<in> set n1. \<exists>ob. item_obj it = Some ob \<and> omark a ob \<and> \<not> omark b ob" by (rule mk_gray [OF ab])
  obtain n2 where n2: "gray (h_gc c) = n2 @ gray (h_gc b)" "2 * whites c + length n2 \<le> 2 * whites b"
    "\<forall>it \<in> set n2. \<exists>ob. item_obj it = Some ob \<and> omark b ob \<and> \<not> omark c ob" by (rule mk_gray [OF bc])
  show "\<exists>new. gray (h_gc c) = new @ gray (h_gc a) \<and> 2 * whites c + length new \<le> 2 * whites a
      \<and> (\<forall>it \<in> set new. \<exists>ob. item_obj it = Some ob \<and> omark a ob \<and> \<not> omark c ob)"
  proof (rule exI [of _ "n2 @ n1"], intro conjI ballI)
    show "gray (h_gc c) = (n2 @ n1) @ gray (h_gc a)" using n1 n2 by simp
    show "2 * whites c + length (n2 @ n1) \<le> 2 * whites a" using n1(2) n2(2) by simp
    fix it assume "it \<in> set (n2 @ n1)"
    then show "\<exists>ob. item_obj it = Some ob \<and> omark a ob \<and> \<not> omark c ob"
      using n1(3) n2(3) A(3) B(3) by (metis Un_iff set_append)
  qed
  have "h_gc c = (h_gc b)\<lparr>gray := gray (h_gc c), weak_tables := weak_tables (h_gc c)\<rparr>" by (rule B(7))
  also have "\<dots> = (h_gc a)\<lparr>gray := gray (h_gc c), weak_tables := weak_tables (h_gc c)\<rparr>" by (subst A(7)) simp
  finally show "h_gc c = (h_gc a)\<lparr>gray := gray (h_gc c), weak_tables := weak_tables (h_gc c)\<rparr>" .
  show "set (weak_tables (h_gc c)) \<subseteq> set (weak_tables (h_gc a)) \<union> Collect (is_weak a)"
    using A(9) B(9) is_weak_shape [OF ok A(2) A(1)] by blast
qed


text \<open>A darkened set may not leave anything out: \<open>R\<close> is closed under children.\<close>

definition closed :: "heap \<Rightarrow> obj set \<Rightarrow> bool" where
  "closed h R \<longleftrightarrow> (\<forall>ob \<in> R. set (ochildren h ob) \<subseteq> R)"

text \<open>\<open>marks f os\<close>: the operation marks exactly what is asked for.\<close>

definition marks :: "(heap \<Rightarrow> heap) \<Rightarrow> obj list \<Rightarrow> bool" where
  "marks f os \<longleftrightarrow> (\<forall>h R. heap_ok h \<and> closed h R \<and> set os \<subseteq> R \<longrightarrow>
     mk {} R h (f h) \<and> (\<forall>ob \<in> set os. \<not> omark (f h) ob))"

lemma marksD:
  assumes "marks f os" "heap_ok h" "closed h R" "set os \<subseteq> R"
  shows "mk {} R h (f h)" "ob \<in> set os \<Longrightarrow> \<not> omark (f h) ob"
  using assms unfolding marks_def by blast+

lemma closed_shape: "heap_ok h \<Longrightarrow> mk S R h h' \<Longrightarrow> closed h' Q = closed h Q"
  using ochildren_shape [of h h'] by (simp add: closed_def mk_def)

lemma marks_comp:
  assumes f: "marks f xs" and g: "marks g ys"
  shows "marks (\<lambda>h. g (f h)) (xs @ ys)"
  unfolding marks_def
proof (intro allI impI, elim conjE)
  fix h R assume h: "heap_ok h" "closed h R" "set (xs @ ys) \<subseteq> R"
  have F: "mk {} R h (f h)" "\<forall>ob \<in> set xs. \<not> omark (f h) ob"
    using marksD [OF f h(1,2)] h(3) by auto
  have G: "mk {} R (f h) (g (f h))" "\<forall>ob \<in> set ys. \<not> omark (g (f h)) ob"
    using marksD [OF g mkD(2) [OF F(1)]] closed_shape [OF h(1) F(1)] h(2,3) by auto
  show "mk {} R h (g (f h)) \<and> (\<forall>ob \<in> set (xs @ ys). \<not> omark (g (f h)) ob)"
    using mk_trans [OF h(1) F(1) G(1)] F(2) G(2) mkD(3) [OF G(1)] by auto
qed

lemma marks_id: "marks (\<lambda>h. h) []"
  by (simp add: marks_def mk_refl)

lemma marks_comp_Nil: "marks f xs \<Longrightarrow> marks g [] \<Longrightarrow> marks (\<lambda>h. g (f h)) xs"
  using marks_comp [of f xs g "[]"] by simp

lemma marks_fold:
  assumes "\<forall>x \<in> set xs. marks (f x) (os x)"
  shows "marks (fold f xs) (concat (map os xs))"
  using assms
proof (induction xs)
  case Nil
  then show ?case using marks_id by (simp add: id_def)
next
  case (Cons x xs)
  then have "marks (\<lambda>h. fold f xs (f x h)) (os x @ concat (map os xs))" by (intro marks_comp) simp_all
  then show ?case by (simp add: comp_def)
qed

lemma mark_opt_simps: "mark_opt f None = (\<lambda>h. h)" "mark_opt f (Some y) = f y"
  by (simp_all add: mark_opt_def fun_eq_iff)

lemma marks_opt:
  assumes "\<forall>x. marks (f x) (os x)"
  shows "marks (mark_opt f y) (case y of None \<Rightarrow> [] | Some x \<Rightarrow> os x)"
  using assms marks_id by (cases y) (simp_all add: mark_opt_simps)

lemma marks_mono_list: "marks f xs \<Longrightarrow> set xs = set ys \<Longrightarrow> marks f ys"
  unfolding marks_def by metis

section \<open>Darkening a single object\<close>

lemma mk_darken:
  assumes ok: "heap_ok h" "heap_ok h'" and sh: "same_shape h h'"
    and om: "\<forall>x. omark h' x \<longleftrightarrow> omark h x \<and> x \<noteq> ob" and m: "omark h ob"
    and col: "\<forall>x. x \<noteq> ob \<longrightarrow> ocolor h' x = ocolor h x"
    and R: "ob \<in> R" and d: "darkened S h h' ob"
    and gc: "h_gc h' = (h_gc h)\<lparr>gray := gray (h_gc h'), weak_tables := weak_tables (h_gc h')\<rparr>"
    and g: "gray (h_gc h') = new @ gray (h_gc h)" "2 * whites h' + length new \<le> 2 * whites h"
      "\<forall>it \<in> set new. item_obj it = Some ob"
    and w: "set (weak_tables (h_gc h')) \<subseteq> set (weak_tables (h_gc h))"
  shows "mk S R h h'"
  unfolding mk_def
proof (intro conjI allI impI)
  show "omark h x" if "omark h' x" for x using om that by blast
  show "ocolor h' x = ocolor h x" if "omark h x = omark h' x" for x using col om m that by metis
  show "x \<in> R" "darkened S h h' x" if "omark h x \<and> \<not> omark h' x" for x
    using that om R d by auto
  show "\<exists>new. gray (h_gc h') = new @ gray (h_gc h) \<and> 2 * whites h' + length new \<le> 2 * whites h
      \<and> (\<forall>it \<in> set new. \<exists>x. item_obj it = Some x \<and> omark h x \<and> \<not> omark h' x)"
    using g m om by blast
qed (use ok sh gc w in auto)

lemma arena_color_facts:
  assumes "arena_inv a" "markable a r" "\<not> is_white c"
  shows "arena_inv (fst (set_color a r c))" "shape (fst (set_color a r c)) = shape a"
    "markable (fst (set_color a r c)) r' \<longleftrightarrow> markable a r' \<and> r' \<noteq> r"
    "r' \<noteq> r \<Longrightarrow> color (fst (set_color a r c)) r' = color a r'"
    "color (fst (set_color a r c)) r = Some c"
    "white_slots (fst (set_color a r c)) < white_slots a"
  using set_color_inv(1) [OF assms(1)] markable_set_color [OF assms(1,3)] color_set_color [OF assms(1)]
    set_color_white_slots [OF assms] markable_get [OF assms(1,2)] by simp_all


lemma whites_update:
  "whites (h\<lparr>h_string_arena := x\<rparr>) = whites h" "whites (h\<lparr>h_upvalues := u\<rparr>) = whites h"
  "whites (h\<lparr>h_userdata := d\<rparr>) = whites h" "whites (h\<lparr>h_gc := g\<rparr>) = whites h"
  by (simp_all add: whites_def)

primrec set_ocolor :: "obj \<Rightarrow> Color \<Rightarrow> heap \<Rightarrow> heap" where
  "set_ocolor (OStr r) c h = h\<lparr>h_string_arena := fst (set_color (h_string_arena h) r c)\<rparr>"
| "set_ocolor (OTab r) c h = h\<lparr>h_tables := fst (set_color (h_tables h) r c)\<rparr>"
| "set_ocolor (OClo r) c h = h\<lparr>h_closures := fst (set_color (h_closures h) r c)\<rparr>"
| "set_ocolor (OUpv r) c h = h\<lparr>h_upvalues := fst (set_color (h_upvalues h) r c)\<rparr>"
| "set_ocolor (OUd r) c h = h\<lparr>h_userdata := fst (set_color (h_userdata h) r c)\<rparr>"
| "set_ocolor (OThr r) c h = h\<lparr>h_threads := fst (set_color (h_threads h) r c)\<rparr>"

lemma set_ocolor_ok: "heap_ok h \<Longrightarrow> heap_ok (set_ocolor ob c h)"
  by (cases ob) (simp_all add: heap_ok_def set_color_inv)

lemma set_ocolor_shape: "same_shape h (set_ocolor ob c h)"
  by (cases ob) (simp_all add: same_shape_def)

lemma set_ocolor_gc [simp]: "h_gc (set_ocolor ob c h) = h_gc h" "h_white (set_ocolor ob c h) = h_white h"
  by (cases ob; simp)+

lemma set_ocolor_color:
  assumes "heap_ok h"
  shows "ocolor (set_ocolor ob c h) x = (if x = ob \<and> olive h ob then Some c else ocolor h x)"
  using assms by (cases ob; cases x) (auto simp: heap_ok_def color_set_color)

lemma set_ocolor_omark:
  assumes "heap_ok h" "\<not> is_white c"
  shows "omark (set_ocolor ob c h) x \<longleftrightarrow> omark h x \<and> x \<noteq> ob"
  using assms by (cases ob; cases x) (simp_all add: heap_ok_def markable_set_color)

lemma omark_live: "heap_ok h \<Longrightarrow> omark h ob \<Longrightarrow> olive h ob"
  by (cases ob) (auto simp: heap_ok_def dest: markable_get)

lemma ocolor_live: "heap_ok h \<Longrightarrow> ocolor h ob = None \<longleftrightarrow> \<not> olive h ob"
  by (cases ob) (simp_all add: heap_ok_def color_valid)

lemma set_ocolor_whites:
  assumes "heap_ok h" "omark h ob" "\<not> is_white c"
  shows "whites (set_ocolor ob c h) + (case ob of OTab _ \<Rightarrow> 1 | OClo _ \<Rightarrow> 1 | OThr _ \<Rightarrow> 1 | _ \<Rightarrow> 0) \<le> whites h"
  using assms by (cases ob) (auto simp: whites_def heap_ok_def Suc_le_eq dest: set_color_white_slots)

lemma omark_gc [simp]: "omark (h\<lparr>h_gc := g\<rparr>) ob = omark h ob" "ocolor (h\<lparr>h_gc := g\<rparr>) ob = ocolor h ob"
  "same_shape h (h'\<lparr>h_gc := g\<rparr>) = same_shape h h'" "heap_ok (h\<lparr>h_gc := g\<rparr>) = heap_ok h"
  "ofrozen (h\<lparr>h_gc := g\<rparr>) ob = ofrozen h ob" "olive (h\<lparr>h_gc := g\<rparr>) ob = olive h ob"
proof -
  show c: "ocolor (h\<lparr>h_gc := g\<rparr>) ob = ocolor h ob" by (cases ob) simp_all
  show "olive (h\<lparr>h_gc := g\<rparr>) ob = olive h ob" by (cases ob) simp_all
  have "oflags (h\<lparr>h_gc := g\<rparr>) ob = oflags h ob" by (cases ob) simp_all
  then show "ofrozen (h\<lparr>h_gc := g\<rparr>) ob = ofrozen h ob" by (simp add: ofrozen_def)
  with c show "omark (h\<lparr>h_gc := g\<rparr>) ob = omark h ob" by (simp add: omark_def)
qed (simp_all add: same_shape_def heap_ok_def)

text \<open>Graying an object and pushing it; blackening one whose children are still to be seen to.\<close>

lemma mk_push:
  assumes ok: "heap_ok h" and m: "omark h ob" and R: "ob \<in> R" and it: "item_obj it = Some ob"
  shows "mk {} R h (push_gray it (set_ocolor ob Gray h))"
proof (rule mk_darken [OF ok _ _ _ m _ R, where new = "[it]"])
  let ?h = "push_gray it (set_ocolor ob Gray h)"
  show "darkened {} h ?h ob"
    using set_ocolor_color [OF ok] omark_live [OF ok m] it by (auto simp: darkened_def push_gray_def set_gc_def)
  show "2 * whites ?h + length [it] \<le> 2 * whites h"
    using set_ocolor_whites [OF ok m, of Gray] it
    by (cases it) (auto simp: push_gray_def set_gc_def whites_update)
qed (use it in \<open>simp_all add: push_gray_def set_gc_def set_ocolor_ok [OF ok] set_ocolor_shape set_ocolor_omark [OF ok]
       set_ocolor_color [OF ok]\<close>)

lemma mk_blacken:
  assumes ok: "heap_ok h" and m: "omark h ob" and R: "ob \<in> R"
  shows "mk {ob} R h (set_ocolor ob Black h)"
  by (rule mk_darken [OF ok _ _ _ m _ R, where new = "[]"])
    (use set_ocolor_whites [OF ok m, of Black] omark_live [OF ok m] in
      \<open>auto simp: darkened_def set_ocolor_ok [OF ok] set_ocolor_shape set_ocolor_omark [OF ok] set_ocolor_color [OF ok]\<close>)

text \<open>Once its children are seen to, nothing is left out.\<close>

lemma mk_discharge:
  assumes "heap_ok h" "mk {ob} R h h'" "\<forall>c \<in> set (ochildren h ob). \<not> omark h' c"
  shows "mk {} R h h'"
  using assms unfolding mk_def darkened_def by (elim conjE, intro conjI) (blast+)

lemma mk_weaken: "mk S R h h' \<Longrightarrow> S \<subseteq> S' \<Longrightarrow> mk S' R h h'"
  unfolding mk_def darkened_def by (elim conjE, intro conjI) (blast+)

lemma marks_item:
  assumes f: "\<forall>h. heap_ok h \<longrightarrow> f h = (if omark h ob then push_gray it (set_ocolor ob Gray h) else h)"
    and it: "item_obj it = Some ob"
  shows "marks f [ob]"
  unfolding marks_def
proof (intro allI impI, elim conjE)
  fix h R assume h: "heap_ok h" "closed h R" "set [ob] \<subseteq> R"
  then show "mk {} R h (f h) \<and> (\<forall>x \<in> set [ob]. \<not> omark (f h) x)"
    using mk_push [OF h(1) _ _ it, of R] f mk_refl [OF h(1)] set_ocolor_omark [OF h(1), of Gray ob ob]
    by (auto simp: push_gray_def set_gc_def)
qed

lemma marks_table: "marks (mark_table r) [OTab r]"
  by (rule marks_item [where it = "GTable r"])
    (simp_all add: mark_table_def mark_white_eq heap_ok_def Let_def)

lemma marks_closure: "marks (mark_closure r) [OClo r]"
  by (rule marks_item [where it = "GClosure r"])
    (simp_all add: mark_closure_def mark_white_eq heap_ok_def Let_def)

lemma marks_thread: "marks (mark_thread r) [OThr r]"
  by (rule marks_item [where it = "GThread r"])
    (simp_all add: mark_thread_def mark_white_eq heap_ok_def Let_def)

lemma mk_black_step:
  assumes ok: "heap_ok h" and m: "omark h ob" and R: "ob \<in> R"
    and g: "mk {} R (set_ocolor ob Black h) h'" and ch: "\<forall>c \<in> set (ochildren h ob). \<not> omark h' c"
  shows "mk {} R h h' \<and> \<not> omark h' ob"
proof
  have "mk {ob} R h h'" by (rule mk_trans [OF ok mk_blacken [OF ok m R] mk_weaken [OF g]]) simp
  then show "mk {} R h h'" by (rule mk_discharge [OF ok _ ch])
  have "\<not> omark (set_ocolor ob Black h) ob" using set_ocolor_omark [OF ok, of Black ob ob] by simp
  then show "\<not> omark h' ob" using mkD(3) [OF g] by blast
qed

section \<open>Strings, userdata, upvalues and values\<close>

lemma marks_string: "marks (mark_string r) [OStr r]"
  unfolding marks_def
proof (intro allI impI, elim conjE)
  fix h R assume h: "heap_ok h" "closed h R" "set [OStr r] \<subseteq> R"
  have e: "mark_string r h = (if omark h (OStr r) then set_ocolor (OStr r) Black h else h)"
    using h(1) by (simp add: mark_string_def mark_white_eq heap_ok_def)
  show "mk {} R h (mark_string r h) \<and> (\<forall>ob \<in> set [OStr r]. \<not> omark (mark_string r h) ob)"
  proof (cases "omark h (OStr r)")
    case True
    have "mk {} R h (set_ocolor (OStr r) Black h) \<and> \<not> omark (set_ocolor (OStr r) Black h) (OStr r)"
      by (rule mk_black_step [OF h(1) True]) (use h(3) in \<open>simp_all add: mk_refl set_ocolor_ok [OF h(1)] ochildren_def
        del: set_ocolor.simps\<close>)
    then show ?thesis using e True by simp
  qed (use e mk_refl [OF h(1)] in simp)
qed

lemma ochildren_unmarked:
  "omark h (OUd r) \<Longrightarrow> get (h_userdata h) r = Some ud \<Longrightarrow> ochildren h (OUd r) = userdata_children ud"
  "omark h (OUpv r) \<Longrightarrow> get (h_upvalues h) r = Some u \<Longrightarrow> ochildren h (OUpv r) = upvalue_children u"
  by (simp_all add: ochildren_def ofrozen_def markable_def)

text \<open>Each level of a value's chain of secret payloads blackens a userdata: the fuel is enough.\<close>

definition mark_value_ok :: "nat \<Rightarrow> heap \<Rightarrow> Val \<Rightarrow> bool" where
  "mark_value_ok n h v \<longleftrightarrow> (\<forall>R. closed h R \<longrightarrow> set (val_obj v) \<subseteq> R \<longrightarrow>
     mk {} R h (mark_value_n n v h) \<and> (\<forall>ob \<in> set (val_obj v). \<not> omark (mark_value_n n v h) ob))"


lemma mark_table_userdata [simp]: "h_userdata (mark_table r h) = h_userdata h"
  by (simp add: mark_table_def push_gray_def set_gc_def Let_def split: prod.split)

lemma mark_opt_userdata [simp]: "h_userdata (mark_opt mark_table x h) = h_userdata h"
  by (simp add: mark_opt_def split: option.split)

lemma marks_opt_table: "marks (mark_opt mark_table x) (opt_list OTab x)"
  using marks_opt [of mark_table "\<lambda>r. [OTab r]" x] marks_table by (cases x) (simp_all add: opt_list_def)

lemma mark_value_userdata:
  assumes IH: "\<And>h v. heap_ok h \<Longrightarrow> white_slots (h_userdata h) < n \<Longrightarrow> mark_value_ok n h v"
    and ok: "heap_ok h" and w: "white_slots (h_userdata h) < Suc n" and R: "closed h R" "OUd r \<in> R"
  shows "mk {} R h (mark_userdata_with (mark_value_n n) r h)
    \<and> \<not> omark (mark_userdata_with (mark_value_n n) r h) (OUd r)"
proof (cases "omark h (OUd r)")
  case False
  then have "mark_userdata_with (mark_value_n n) r h = h"
    using ok by (simp add: mark_userdata_with_def mark_white_eq heap_ok_def)
  then show ?thesis using False mk_refl [OF ok] by simp
next
  case True
  let ?h1 = "set_ocolor (OUd r) Black h"
  obtain ud where ud: "get (h_userdata h) r = Some ud" using omark_live [OF ok True] by auto
  let ?h2 = "mark_opt mark_table (ud_env ud) (mark_opt mark_table (ud_metatable ud) ?h1)"
  let ?h3 = "mark_opt (mark_value_n n) (ud_secret_value ud) ?h2"
  have e: "mark_userdata_with (mark_value_n n) r h = ?h3"
    using ok True ud by (simp add: mark_userdata_with_def mark_white_eq heap_ok_def update_ops_get)
  have ok1: "heap_ok ?h1" by (rule set_ocolor_ok [OF ok])
  have ch: "ochildren h (OUd r) = userdata_children ud" by (rule ochildren_unmarked(1) [OF True ud])
  have sub: "set (userdata_children ud) \<subseteq> R" using R ch unfolding closed_def by force
  have cl1: "closed ?h1 R" using R(1) ochildren_shape [OF ok ok1 set_ocolor_shape] by (simp add: closed_def)
  have T: "marks (\<lambda>h. mark_opt mark_table (ud_env ud) (mark_opt mark_table (ud_metatable ud) h))
     (opt_list OTab (ud_metatable ud) @ opt_list OTab (ud_env ud))"
    by (rule marks_comp [OF marks_opt_table marks_opt_table])
  have M2: "mk {} R ?h1 ?h2" "\<forall>c \<in> set (opt_list OTab (ud_metatable ud) @ opt_list OTab (ud_env ud)). \<not> omark ?h2 c"
    using marksD [OF T ok1 cl1] sub by (auto simp: userdata_children_def)
  have ok2: "heap_ok ?h2" by (rule mkD(2) [OF M2(1)])
  have cl2: "closed ?h2 R" using cl1 closed_shape [OF ok1 M2(1)] by simp
  have "white_slots (h_userdata ?h1) < white_slots (h_userdata h)"
    using set_color_white_slots [of "h_userdata h" r Black] ok True by (simp add: heap_ok_def)
  then have w2: "white_slots (h_userdata ?h2) < n" using w by simp
  have M3: "mk {} R ?h2 ?h3 \<and> (\<forall>c \<in> set (case ud_secret_value ud of None \<Rightarrow> [] | Some v \<Rightarrow> val_obj v). \<not> omark ?h3 c)"
  proof (cases "ud_secret_value ud")
    case None
    then show ?thesis using mk_refl [OF ok2, of "{}" R] by (simp add: mark_opt_simps del: set_ocolor.simps)
  next
    case (Some v)
    then have "set (val_obj v) \<subseteq> R" using sub by (auto simp: userdata_children_def)
    then show ?thesis using IH [OF ok2 w2, of v] cl2 Some by (simp add: mark_opt_simps mark_value_ok_def)
  qed
  have "mk {} R ?h1 ?h3" using mk_trans [OF ok1 M2(1)] M3 by blast
  moreover have "\<forall>c \<in> set (ochildren h (OUd r)). \<not> omark ?h3 c"
    using M2(2) M3 mkD(3) [of "{}" R ?h2 ?h3] unfolding ch userdata_children_def set_append by blast
  ultimately show ?thesis unfolding e by (rule mk_black_step [OF ok True R(2)])
qed

lemma mark_value_n_ok:
  "heap_ok h \<Longrightarrow> white_slots (h_userdata h) < n \<Longrightarrow> mark_value_ok n h v"
proof (induction n arbitrary: h v)
  case (Suc n h v)
  have "mk {} R h (mark_value_n (Suc n) v h) \<and> (\<forall>ob \<in> set (val_obj v). \<not> omark (mark_value_n (Suc n) v h) ob)"
    if R: "closed h R" "set (val_obj v) \<subseteq> R" for R
  proof (cases v)
      case (VStr r)
    then show ?thesis using marksD [OF marks_string [of r] Suc.prems(1) R(1)] R(2) by (simp add: val_obj_def)
    next
      case (VTable r)
      then show ?thesis using marksD [OF marks_table [of r] Suc.prems(1) R(1)] R(2) by (simp add: val_obj_def)
    next
      case (VFunction r)
      then show ?thesis using marksD [OF marks_closure [of r] Suc.prems(1) R(1)] R(2) by (simp add: val_obj_def)
    next
      case (VThread r)
      then show ?thesis using marksD [OF marks_thread [of r] Suc.prems(1) R(1)] R(2) by (simp add: val_obj_def)
    next
      case (VUserdata r)
      then show ?thesis using mark_value_userdata [OF Suc.IH Suc.prems R(1), of r] R(2) by (simp add: val_obj_def)
  qed (simp_all add: val_obj_def mk_refl Suc.prems(1))
  then show ?case unfolding mark_value_ok_def by blast
qed simp

lemma marks_value: "marks (mark_value v) (val_obj v)"
  unfolding marks_def mark_value_def
  using mark_value_n_ok unfolding mark_value_ok_def by blast

lemma marks_values: "marks (fold mark_value vs) (vals_objs vs)"
  using marks_fold [of vs mark_value val_obj] marks_value by (simp add: vals_objs_def)

lemma marks_upvalue: "marks (mark_upvalue r) [OUpv r]"
  unfolding marks_def
proof (intro allI impI, elim conjE)
  fix h R assume h: "heap_ok h" "closed h R" "set [OUpv r] \<subseteq> R"
  show "mk {} R h (mark_upvalue r h) \<and> (\<forall>ob \<in> set [OUpv r]. \<not> omark (mark_upvalue r h) ob)"
  proof (cases "omark h (OUpv r)")
    case False
    then have "mark_upvalue r h = h" using h(1) by (simp add: mark_upvalue_def mark_white_eq heap_ok_def)
    then show ?thesis using False mk_refl [OF h(1)] by simp
  next
    case True
    let ?h1 = "set_ocolor (OUpv r) Black h"
    obtain u where u: "get (h_upvalues h) r = Some u" using omark_live [OF h(1) True] by auto
    let ?h2 = "case uv_state u of Closed v \<Rightarrow> mark_value v ?h1 | Open _ \<Rightarrow> ?h1"
    have e: "mark_upvalue r h = ?h2"
      using h(1) True u
      by (simp add: mark_upvalue_def mark_white_eq heap_ok_def update_ops_get Let_def split: UpvalueState.split)
    have ok1: "heap_ok ?h1" by (rule set_ocolor_ok [OF h(1)])
    have ch: "ochildren h (OUpv r) = upvalue_children u" by (rule ochildren_unmarked(2) [OF True u])
    have sub: "set (upvalue_children u) \<subseteq> R" using h(2,3) ch unfolding closed_def by force
    have cl1: "closed ?h1 R" using h(2) ochildren_shape [OF h(1) ok1 set_ocolor_shape] by (simp add: closed_def)
    have "mk {} R ?h1 ?h2 \<and> (\<forall>c \<in> set (upvalue_children u). \<not> omark ?h2 c)"
    proof (cases "uv_state u")
      case (Closed v)
      then show ?thesis using marksD [OF marks_value ok1 cl1, of v] sub by (simp add: upvalue_children_def)
    qed (simp add: upvalue_children_def mk_refl ok1 del: set_ocolor.simps)
    then have "mk {} R h ?h2 \<and> \<not> omark ?h2 (OUpv r)"
      using mk_black_step [OF h(1) True, of R ?h2] h(3) ch by simp
    then show ?thesis unfolding e by simp
  qed
qed

lemma marks_upvalues: "marks (fold mark_upvalue rs) (map OUpv rs)"
  using marks_fold [of rs mark_upvalue "\<lambda>r. [OUpv r]"] marks_upvalue by (simp add: concat_map_singleton)

lemma marks_strings: "marks (fold mark_string rs) (map OStr rs)"
  using marks_fold [of rs mark_string "\<lambda>r. [OStr r]"] marks_string by (simp add: concat_map_singleton)


section \<open>Sequences of marks at one heap\<close>

definition mkm :: "obj set \<Rightarrow> heap \<Rightarrow> heap \<Rightarrow> obj list \<Rightarrow> bool" where
  "mkm R h h' os \<longleftrightarrow> mk {} R h h' \<and> (\<forall>ob \<in> set os. \<not> omark h' ob)"

lemma mkm_marks: "marks f os \<Longrightarrow> heap_ok h \<Longrightarrow> closed h R \<Longrightarrow> set os \<subseteq> R \<Longrightarrow> mkm R h (f h) os"
  using marksD [of f os h R] by (simp add: mkm_def)

lemma mkm_trans:
  assumes "heap_ok h" "mkm R h h1 xs" "mkm R h1 h2 ys" shows "mkm R h h2 (xs @ ys)"
  using assms mk_trans [of h "{}" R h1 h2] mkD(3) [of "{}" R h1 h2] by (auto simp: mkm_def)

lemma mkm_refl: "heap_ok h \<Longrightarrow> mkm R h h []"
  by (simp add: mkm_def mk_refl)

lemma mkmD:
  assumes "heap_ok h" "closed h R" "mkm R h h' os"
  shows "heap_ok h'" "closed h' R" "same_shape h h'"
  using assms mkD(1,2) [of "{}" R h h'] closed_shape [of h "{}" R h' R] by (auto simp: mkm_def)

lemma mkm_weak:
  "heap_ok h \<Longrightarrow> is_weak h r \<Longrightarrow> mkm R h (set_gc (\<lambda>g. g\<lparr>weak_tables := weak_tables g @ [r]\<rparr>) h) []"
  by (simp add: mkm_def mk_def set_gc_def whites_def)

section \<open>The tricolour invariant\<close>

text \<open>
  \<open>tri R E G h\<close>: only objects of \<open>R\<close> are gray or black; a black object outside \<open>E\<close> has no child left to
  mark; a gray object outside \<open>G\<close> is on the gray list; and what is on the lists can be traversed.
\<close>

definition listed :: "obj set \<Rightarrow> heap \<Rightarrow> GrayItem list \<Rightarrow> bool" where
  "listed R h its \<longleftrightarrow> (\<forall>it \<in> set its. \<forall>ob. item_obj it = Some ob \<longrightarrow> ob \<in> R \<and> \<not> ofrozen h ob \<and> \<not> omark h ob)"

definition tri :: "obj set \<Rightarrow> obj set \<Rightarrow> obj set \<Rightarrow> heap \<Rightarrow> bool" where
  "tri R E G h \<longleftrightarrow> heap_ok h \<and> closed h R
     \<and> (\<forall>ob. ocolor h ob = Some Gray \<or> ocolor h ob = Some Black \<longrightarrow> ob \<in> R)
     \<and> (\<forall>ob. ocolor h ob = Some Black \<longrightarrow> ob \<in> E \<or> (\<forall>c \<in> set (ochildren h ob). \<not> omark h c))
     \<and> (\<forall>ob. ocolor h ob = Some Gray \<longrightarrow> ob \<in> G \<or> Some ob \<in> item_obj ` set (gray (h_gc h)))
     \<and> listed R h (gray (h_gc h)) \<and> listed R h (grayagain (h_gc h))
     \<and> (\<forall>r. GThread r \<in> set (grayagain (h_gc h)) \<longrightarrow> ocolor h (OThr r) \<noteq> Some Gray)
     \<and> set (weak_tables (h_gc h)) \<subseteq> Collect (is_weak h)"

lemma triD:
  assumes "tri R E G h"
  shows "heap_ok h" "closed h R" "ocolor h ob = Some Gray \<Longrightarrow> ob \<in> R" "ocolor h ob = Some Black \<Longrightarrow> ob \<in> R"
    "ocolor h ob = Some Black \<Longrightarrow> ob \<notin> E \<Longrightarrow> c \<in> set (ochildren h ob) \<Longrightarrow> \<not> omark h c"
    "ocolor h ob = Some Gray \<Longrightarrow> ob \<notin> G \<Longrightarrow> Some ob \<in> item_obj ` set (gray (h_gc h))"
    "listed R h (gray (h_gc h))" "listed R h (grayagain (h_gc h))"
    "GThread r \<in> set (grayagain (h_gc h)) \<Longrightarrow> ocolor h (OThr r) \<noteq> Some Gray"
    "set (weak_tables (h_gc h)) \<subseteq> Collect (is_weak h)"
  using assms unfolding tri_def by blast+

lemma listed_mk:
  assumes "mk S R h h'" "listed R h its" shows "listed R h' its"
  using assms mkD(3) [OF assms(1)] same_shape_flags(2) [OF mkD(1) [OF assms(1)]]
  unfolding listed_def by metis

lemma tri_mk:
  assumes t: "tri R E G h" and m: "mk S R h h'"
  shows "tri R (E \<union> S) G h'"
  unfolding tri_def
proof (intro conjI allI impI)
  note T = triD [OF t] and M = mkD [OF m]
  show "heap_ok h'" by (rule M(2))
  show "closed h' R" using closed_shape [OF T(1) m] T(2) by simp
  have ch: "ochildren h' ob = ochildren h ob" for ob
    using ochildren_shape [OF T(1) M(2) M(1)] by simp
  have cases: "ocolor h' ob = ocolor h ob \<or> (ob \<in> R \<and> darkened S h h' ob)" for ob
    using M(3,4,5,6) [of ob] by blast
  show "ob \<in> R" if "ocolor h' ob = Some Gray \<or> ocolor h' ob = Some Black" for ob
    using cases [of ob] that T(3,4) by auto
  show "ob \<in> E \<union> S \<or> (\<forall>c \<in> set (ochildren h' ob). \<not> omark h' c)" if "ocolor h' ob = Some Black" for ob
    using cases [of ob] that T(5) M(3) unfolding ch darkened_def by fastforce
  show "ob \<in> G \<or> Some ob \<in> item_obj ` set (gray (h_gc h'))" if "ocolor h' ob = Some Gray" for ob
    using cases [of ob] that T(6) M(8) unfolding darkened_def by (metis Color.distinct(11) image_mono option.inject subsetD)
  have "listed R h' (gray (h_gc h))" by (rule listed_mk [OF m T(7)])
  moreover obtain new where new: "gray (h_gc h') = new @ gray (h_gc h)"
    "\<forall>it \<in> set new. \<exists>ob. item_obj it = Some ob \<and> omark h ob \<and> \<not> omark h' ob"
    using mk_gray [OF m] by metis
  moreover have "listed R h' new"
    unfolding listed_def
  proof (intro ballI allI impI)
    fix it ob assume "it \<in> set new" "item_obj it = Some ob"
    then have "omark h ob \<and> \<not> omark h' ob" using new(2) by force
    moreover have "\<not> ofrozen h ob" if "omark h ob" using that by (simp add: omark_def)
    ultimately show "ob \<in> R \<and> \<not> ofrozen h' ob \<and> \<not> omark h' ob"
      using M(5) same_shape_flags(2) [OF M(1)] by simp
  qed
  ultimately show "listed R h' (gray (h_gc h'))" by (auto simp: listed_def)
  have ga: "grayagain (h_gc h') = grayagain (h_gc h)" by (subst M(7)) simp
  then show "listed R h' (grayagain (h_gc h'))" using listed_mk [OF m T(8)] by simp
  show "ocolor h' (OThr r) \<noteq> Some Gray" if r: "GThread r \<in> set (grayagain (h_gc h'))" for r
  proof -
    have "\<not> omark h (OThr r)" using T(8) r ga unfolding listed_def by (metis item_obj.simps(3))
    then have "ocolor h' (OThr r) = ocolor h (OThr r)" using M(3,4) [of "OThr r"] by blast
    then show ?thesis using T(9) [of r] r ga by simp
  qed
  show "set (weak_tables (h_gc h')) \<subseteq> Collect (is_weak h')"
    using T(10) M(9) is_weak_shape [OF T(1) M(2) M(1)] by blast
qed

text \<open>Blackening an object off the gray list and marking its children.\<close>

lemma tri_visit:
  assumes t: "tri R E (insert ob G) h" and ob: "ob \<in> R"
    and m: "mkm R (set_ocolor ob Black h) h' (ochildren h ob)"
  shows "tri R (E - {ob}) (G - {ob}) h'"
proof -
  note T = triD [OF t]
  let ?h = "set_ocolor ob Black h"
  have ok: "heap_ok ?h" by (rule set_ocolor_ok [OF T(1)])
  have ch: "ochildren ?h x = ochildren h x" for x
    using ochildren_shape [OF T(1) ok set_ocolor_shape] by simp
  have om: "omark h x" if "omark ?h x" for x using set_ocolor_omark [OF T(1), of Black ob x] that by auto
  have fr: "ofrozen ?h x = ofrozen h x" for x using same_shape_flags(2) [OF set_ocolor_shape, of h ob Black] by simp
  have t1: "tri R (insert ob E) (G - {ob}) ?h"
    unfolding tri_def
  proof (intro conjI allI impI)
    show "heap_ok ?h" by (rule ok)
    show "closed ?h R" using T(2) ch by (simp add: closed_def)
    show "x \<in> R" if "ocolor ?h x = Some Gray \<or> ocolor ?h x = Some Black" for x
      using that T(3,4) [of x] ob set_ocolor_color [OF T(1), of ob Black x] by (auto split: if_splits)
    show "x \<in> insert ob E \<or> (\<forall>c \<in> set (ochildren ?h x). \<not> omark ?h c)" if "ocolor ?h x = Some Black" for x
      using that T(5) [of x] set_ocolor_color [OF T(1), of ob Black x] om ch by (auto split: if_splits)
    show "x \<in> G - {ob} \<or> Some x \<in> item_obj ` set (gray (h_gc ?h))" if "ocolor ?h x = Some Gray" for x
    proof -
      have "x \<noteq> ob"
        using that set_ocolor_color [OF T(1), of ob Black x] ocolor_live [OF T(1), of ob] by (auto split: if_splits)
      then show ?thesis using that T(6) [of x] set_ocolor_color [OF T(1), of ob Black x] by (auto split: if_splits)
    qed
    show "listed R ?h (gray (h_gc ?h))" "listed R ?h (grayagain (h_gc ?h))"
      using T(7,8) om fr unfolding listed_def by auto
    show "ocolor ?h (OThr r) \<noteq> Some Gray" if "GThread r \<in> set (grayagain (h_gc ?h))" for r
      using T(9) [of r] that set_ocolor_color [OF T(1), of ob Black "OThr r"] by (auto split: if_splits)
    show "set (weak_tables (h_gc ?h)) \<subseteq> Collect (is_weak ?h)"
      using T(10) is_weak_shape [OF T(1) ok set_ocolor_shape] by auto
  qed
  have "mk {} R ?h h'" using m by (simp add: mkm_def)
  then have t2: "tri R (insert ob E) (G - {ob}) h'" using tri_mk [OF t1, of "{}" h'] by simp
  have "ochildren h' ob = ochildren h ob"
    using ch ochildren_shape [OF ok mkD(2) mkD(1)] \<open>mk {} R ?h h'\<close> by metis
  then have "\<forall>c \<in> set (ochildren h' ob). \<not> omark h' c" using m by (simp add: mkm_def)
  then show ?thesis using t2 unfolding tri_def by blast
qed


section \<open>Traversals\<close>

declare set_ocolor.simps [simp del]

text \<open>
  The work left to the propagation: each white object may still be pushed once, each entry is popped once.
\<close>

definition work :: "heap \<Rightarrow> nat" where
  "work h = 2 * whites h + length (gray (h_gc h))"

lemma mk_work:
  assumes "mk S R h h'" shows "work h' \<le> work h"
proof -
  obtain new where "gray (h_gc h') = new @ gray (h_gc h)" "2 * whites h' + length new \<le> 2 * whites h"
    using mk_gray [OF assms] by metis
  then show ?thesis by (simp add: work_def)
qed

text \<open>
  Nothing becomes white again, a thread that was done is not gray again, and of the collector's state
  only the three lists change.
\<close>

definition gc_core :: "heap \<Rightarrow> gc_state" where
  "gc_core h = (h_gc h)\<lparr>gray := [], grayagain := [], weak_tables := []\<rparr>"

definition darker :: "heap \<Rightarrow> heap \<Rightarrow> bool" where
  "darker h h' \<longleftrightarrow> gc_core h' = gc_core h \<and> (\<forall>x. omark h' x \<longrightarrow> omark h x)
     \<and> (\<forall>x c. ocolor h' x = Some c \<longrightarrow> is_white c \<longrightarrow> ocolor h x = Some c)
     \<and> (\<forall>r. \<not> omark h (OThr r) \<longrightarrow> ocolor h (OThr r) \<noteq> Some Gray \<longrightarrow> ocolor h' (OThr r) \<noteq> Some Gray)"

lemma darker_refl [simp]: "darker h h"
  by (simp add: darker_def)

lemma darker_trans: "darker a b \<Longrightarrow> darker b c \<Longrightarrow> darker a c"
  unfolding darker_def by metis

lemma mk_core: "mk S R h h' \<Longrightarrow> gc_core h' = gc_core h"
  unfolding gc_core_def by (subst mkD(7) [of S R h h']) simp_all

lemma mk_darker: "mk S R h h' \<Longrightarrow> darker h h'"
proof -
  assume m: "mk S R h h'"
  have "ocolor h x = Some c" if "ocolor h' x = Some c" "is_white c" for x c
  proof (cases "omark h x = omark h' x")
    case True
    then show ?thesis using mkD(4) [OF m True] that by simp
  next
    case False
    then have "darkened S h h' x" using mkD(3,6) [OF m, of x] by blast
    then show ?thesis using that by (auto simp: darkened_def)
  qed
  then show ?thesis unfolding darker_def using mkD(3,4) [OF m] mk_core [OF m] by metis
qed

lemma set_ocolor_darker:
  assumes "heap_ok h" "\<not> is_white c" "c = Black \<or> (\<forall>r. ob \<noteq> OThr r)"
  shows "darker h (set_ocolor ob c h)"
  using set_ocolor_omark [OF assms(1,2), of ob] set_ocolor_color [OF assms(1), of ob c] assms(2,3)
  unfolding darker_def by (auto simp: gc_core_def simp del: ocolor.simps omark_simps is_white.simps split: if_splits)

lemma darker_gc [simp]:
  "g\<lparr>gray := [], grayagain := [], weak_tables := []\<rparr> = (h_gc h')\<lparr>gray := [], grayagain := [], weak_tables := []\<rparr> \<Longrightarrow>
   darker h (h'\<lparr>h_gc := g\<rparr>) = darker h h'"
  by (simp add: darker_def gc_core_def del: omark_simps)

text \<open>What traversing one object guarantees: it is done, and the work has not grown.\<close>

definition visited :: "obj set \<Rightarrow> heap \<Rightarrow> heap \<Rightarrow> obj \<Rightarrow> bool" where
  "visited R h h' ob \<longleftrightarrow> same_shape h h' \<and> work h' \<le> work h \<and> darker h h'
     \<and> (\<forall>E G. tri R E (insert ob G) h \<longrightarrow> tri R (E - {ob}) (G - {ob}) h')"

lemma filter_update_le:
  "\<not> P y \<Longrightarrow> length (filter P (xs[i := y])) \<le> length (filter P xs)"
  by (induction xs arbitrary: i) (auto split: nat.splits simp: le_SucI)

lemma set_color_white_slots_le: "white_slots (fst (set_color a r Black)) \<le> white_slots a"
  by (auto simp: set_color_def white_slots_def COLOR_WHITE0_def COLOR_WHITE1_def COLOR_BLACK_def
      intro: filter_update_le split: option.split)

lemma set_ocolor_work: "work (set_ocolor ob Black h) \<le> work h"
  by (cases ob) (simp_all add: work_def whites_def set_ocolor.simps set_color_white_slots_le)

lemma visited_intro:
  assumes ok: "heap_ok h" "closed h R" and ob: "ob \<in> R"
    and m: "mkm R (set_ocolor ob Black h) h' (ochildren h ob)"
  shows "visited R h h' ob"
  unfolding visited_def
proof (intro conjI allI impI)
  have mk: "mk {} R (set_ocolor ob Black h) h'" using m by (simp add: mkm_def)
  show "same_shape h h'" using same_shape_trans [OF set_ocolor_shape mkD(1) [OF mk]] .
  show "work h' \<le> work h" using mk_work [OF mk] set_ocolor_work by (rule order_trans)
  show "darker h h'" by (rule darker_trans [OF set_ocolor_darker mk_darker [OF mk]]) (simp_all add: ok(1))
  show "tri R (E - {ob}) (G - {ob}) h'" if "tri R E (insert ob G) h" for E G
    using tri_visit [OF that ob m] .
qed

lemma visited_dead:
  assumes "heap_ok h" "\<not> olive h ob" shows "visited R h h ob"
proof -
  have "ocolor h ob = None" using assms ocolor_live by blast
  then show ?thesis unfolding visited_def tri_def by auto
qed

lemma set_ocolor_children:
  assumes "heap_ok h" "closed h R"
  shows "heap_ok (set_ocolor ob c h)" "closed (set_ocolor ob c h) R" "ochildren (set_ocolor ob c h) x = ochildren h x"
proof -
  show ok: "heap_ok (set_ocolor ob c h)" by (rule set_ocolor_ok [OF assms(1)])
  have ch: "ochildren (set_ocolor ob c h) x = ochildren h x" for x
    using ochildren_shape [OF assms(1) ok set_ocolor_shape] by simp
  show "ochildren (set_ocolor ob c h) x = ochildren h x" by (rule ch)
  show "closed (set_ocolor ob c h) R" using assms(2) ch by (simp add: closed_def)
qed

lemma traverse_table_visited:
  assumes ok: "heap_ok h" "closed h R" and ob: "OTab r \<in> R" "\<not> omark h (OTab r)" "\<not> ofrozen h (OTab r)"
  shows "visited R h (traverse_table r h) (OTab r)"
proof (cases "get (h_tables h) r")
  case None
  have "fst (set_color (h_tables h) r Black) = h_tables h"
    using None ok(1) by (simp add: set_color_def heap_ok_def occupied_index_valid is_valid_def)
  then have "traverse_table r h = h" using None by (simp add: traverse_table_def color_table_def)
  then show ?thesis using visited_dead [OF ok(1)] None by simp
next
  case (Some t)
  let ?h0 = "set_ocolor (OTab r) Black h"
  have c0: "color_table r Black h = ?h0" by (simp add: color_table_def set_ocolor.simps)
  note S0 = set_ocolor_children [OF ok, of "OTab r" Black]
  show ?thesis
  proof (cases "is_skip_traverse_or_frozen (h_tables h) r")
    case True
    then have "ochildren h (OTab r) = []" using Some by (simp add: ochildren_def)
    then show ?thesis using True c0 S0 by (intro visited_intro [OF ok ob(1)]) (simp add: traverse_table_def mkm_refl)
  next
    case False
    obtain wk wv where w: "check_weak_mode h (tmeta t) = (wk, wv)" by fastforce
    let ?h1 = "mark_opt mark_table (tmeta t) ?h0"
    let ?h2 = "if wk \<or> wv then set_gc (\<lambda>g. g\<lparr>weak_tables := weak_tables g @ [r]\<rparr>) ?h1 else ?h1"
    let ?h3 = "if \<not> wv then mark_table_array_values r ?h2 else ?h2"
    let ?h4 = "mark_table_hash_values r wk wv ?h3"
    have ch: "ochildren h (OTab r) = table_children h t" using Some False ob(3) by (simp add: ochildren_def)
    have sub: "set (table_children h t) \<subseteq> R" using ok(2) ob(1) ch unfolding closed_def by force
    have e: "traverse_table r h = (if wk \<and> wv then ?h2 else ?h4)"
      using Some False w c0 by (simp add: traverse_table_def Let_def)
    have m1: "mkm R ?h0 ?h1 (opt_list OTab (tmeta t))"
      by (rule mkm_marks [OF marks_opt_table S0(1,2)]) (use sub w in \<open>auto simp: table_children_def\<close>)
    note D1 = mkmD [OF S0(1,2) m1]
    have "is_weak h r" if "wk \<or> wv" using that Some w by (simp add: is_weak_def)
    then have "is_weak ?h1 r" if "wk \<or> wv"
      using that is_weak_shape [OF ok(1) D1(1) same_shape_trans [OF set_ocolor_shape D1(3)]] by simp
    then have m2: "mkm R ?h0 ?h2 (opt_list OTab (tmeta t))"
      using mkm_trans [OF S0(1) m1 mkm_weak [OF D1(1), of r R]] m1 by simp
    note D2 = mkmD [OF S0(1,2) m2]
    have g2: "get (h_tables ?h2) r = Some t"
      using same_shape_get(2) [OF D2(3)] same_shape_get(2) [OF set_ocolor_shape, of h "OTab r" Black] Some by simp
    have m3: "mkm R ?h2 ?h3 (if wv then [] else vals_objs (collect_table_array_mark_values t))"
    proof (cases wv)
      case False
      then show ?thesis using mkm_marks [OF marks_values D2(1,2)] sub w g2
        by (simp add: table_children_def mark_table_array_values_def)
    next
      case True
      then show ?thesis using mkm_refl [OF D2(1), of R] by simp
    qed
    note D3 = mkmD [OF D2(1,2) m3]
    have g3: "get (h_tables ?h3) r = Some t" using same_shape_get(2) [OF D3(3)] g2 by simp
    have e4: "?h4 = fold mark_value (collect_table_hash_mark_values t wk wv) ?h3"
      unfolding mark_table_hash_values_def g3 by simp
    have m4: "mkm R ?h3 ?h4 (vals_objs (collect_table_hash_mark_values t wk wv))" if "\<not> (wk \<and> wv)"
      unfolding e4 by (rule mkm_marks [OF marks_values D3(1,2)]) (use that sub w in \<open>auto simp: table_children_def\<close>)
    have "mkm R ?h0 (traverse_table r h) (table_children h t)"
    proof (cases "wk \<and> wv")
      case True
      then show ?thesis using m2 e w by (simp add: table_children_def)
    next
      case False
      have "mkm R ?h0 ?h4 (opt_list OTab (tmeta t) @ (if wv then [] else vals_objs (collect_table_array_mark_values t))
          @ vals_objs (collect_table_hash_mark_values t wk wv))"
        using mkm_trans [OF S0(1) m2 mkm_trans [OF D2(1) m3 m4 [OF False]]] .
      moreover have "traverse_table r h = ?h4" unfolding e if_not_P [OF False] ..
      moreover have "table_children h t = opt_list OTab (tmeta t)
          @ (if wv then [] else vals_objs (collect_table_array_mark_values t))
          @ vals_objs (collect_table_hash_mark_values t wk wv)"
        unfolding table_children_def w prod.case if_not_P [OF False] ..
      ultimately show ?thesis by (simp only:)
    qed
    then show ?thesis using ch by (intro visited_intro [OF ok ob(1)]) simp
  qed
qed


lemma marks_opt_value: "marks (mark_opt mark_value x) (case x of None \<Rightarrow> [] | Some v \<Rightarrow> val_obj v)"
  using marks_opt [of mark_value val_obj x] marks_value by blast

definition closure_marks :: "Closure \<Rightarrow> heap \<Rightarrow> heap" where
  "closure_marks cl h = (case cl of
     LuaC lc \<Rightarrow> mark_proto_constants (lc_proto lc) (fold mark_upvalue (lc_upvalues lc) (mark_table (lc_env lc) h))
   | RustC rc \<Rightarrow> fold mark_value (rc_upvalues rc) (mark_opt mark_table (rc_env rc) h))"

lemma marks_closure_children: "marks (closure_marks cl) (closure_children cl)"
proof (cases cl)
  case (LuaC lc)
  have "marks (\<lambda>h. mark_proto_constants (lc_proto lc) (fold mark_upvalue (lc_upvalues lc) (mark_table (lc_env lc) h)))
      (([OTab (lc_env lc)] @ map OUpv (lc_upvalues lc)) @ vals_objs (proto_constants (lc_proto lc)))"
    unfolding mark_proto_constants_def
    by (rule marks_comp [OF marks_comp [OF marks_table marks_upvalues] marks_values])
  then show ?thesis by (simp add: closure_marks_def [abs_def] closure_children_def LuaC)
next
  case (RustC rc)
  have "marks (\<lambda>h. fold mark_value (rc_upvalues rc) (mark_opt mark_table (rc_env rc) h))
      (opt_list OTab (rc_env rc) @ vals_objs (rc_upvalues rc))"
    by (rule marks_comp [OF marks_opt_table marks_values])
  then show ?thesis by (simp add: closure_marks_def [abs_def] closure_children_def RustC)
qed

lemma traverse_closure_visited:
  assumes ok: "heap_ok h" "closed h R" and ob: "OClo r \<in> R" "\<not> omark h (OClo r)" "\<not> ofrozen h (OClo r)"
  shows "visited R h (traverse_closure r h) (OClo r)"
proof (cases "get (h_closures h) r")
  case None
  then show ?thesis using visited_dead [OF ok(1), of "OClo r"] by (simp add: traverse_closure_def)
next
  case (Some cl)
  let ?h0 = "set_ocolor (OClo r) Black h"
  note S0 = set_ocolor_children [OF ok, of "OClo r" Black]
  have ch: "ochildren h (OClo r) = closure_children cl" using Some ob(3) by (simp add: ochildren_def)
  have sub: "set (closure_children cl) \<subseteq> R" using ok(2) ob(1) ch unfolding closed_def by force
  have "traverse_closure r h = closure_marks cl ?h0"
    using Some by (simp add: traverse_closure_def closure_marks_def color_closure_def set_ocolor.simps Let_def split: Closure.split)
  then show ?thesis
    using mkm_marks [OF marks_closure_children S0(1,2) sub] ch by (intro visited_intro [OF ok ob(1)]) simp
qed

text \<open>What a thread's traversal marks besides its hook function.\<close>

definition thread_marks :: "lthread \<Rightarrow> heap \<Rightarrow> heap" where
  "thread_marks t h = fold mark_upvalue (map fst (th_suspended_upvals t)) (fold mark_upvalue (th_open_upvalues t)
     (fold mark_value (thread_stack_values t) (mark_value (hook_func (th_hook t)) (mark_table (th_global t) h))))"

lemma marks_thread_children: "marks (thread_marks t) (thread_children t)"
proof -
  have "marks (thread_marks t) (((([OTab (th_global t)] @ val_obj (hook_func (th_hook t))) @ vals_objs (thread_stack_values t))
      @ map OUpv (th_open_upvalues t)) @ map OUpv (map fst (th_suspended_upvals t)))"
    unfolding thread_marks_def
    by (intro marks_comp marks_table marks_value marks_values marks_upvalues)
  then show ?thesis by (simp add: thread_children_def comp_def)
qed

lemma tri_again:
  assumes "tri R E G h" "item_obj it = Some ob" "ob \<in> R" "\<not> ofrozen h ob" "\<not> omark h ob"
    "ocolor h ob \<noteq> Some Gray"
  shows "tri R E G (set_gc (\<lambda>g. g\<lparr>grayagain := grayagain g @ [it]\<rparr>) h)"
proof -
  have ch: "ochildren (set_gc f h) x = ochildren h x" for f x
    using ochildren_shape [of "set_gc f h" h] triD(1) [OF assms(1)] by (simp add: set_gc_def same_shape_sym)
  have "listed R h (grayagain (h_gc h) @ [it])"
    using triD(8) [OF assms(1)] assms(2-5) by (auto simp: listed_def)
  moreover have "GThread r \<in> set (grayagain (h_gc h) @ [it]) \<Longrightarrow> ocolor h (OThr r) \<noteq> Some Gray" for r
    using triD(9) [OF assms(1)] assms(2,6) by auto
  ultimately show ?thesis using assms(1) unfolding tri_def closed_def listed_def ch
    by (simp add: set_gc_def)
qed

lemma traverse_thread_visited:
  assumes ok: "heap_ok h" "closed h R" and ob: "OThr r \<in> R" "\<not> omark h (OThr r)" "\<not> ofrozen h (OThr r)"
  shows "visited R h (traverse_thread r h) (OThr r)"
proof (cases "get (h_threads h) r")
  case None
  then show ?thesis using visited_dead [OF ok(1), of "OThr r"] by (simp add: traverse_thread_def)
next
  case (Some t)
  let ?h0 = "set_ocolor (OThr r) Black h"
  let ?h1 = "thread_marks t ?h0"
  note S0 = set_ocolor_children [OF ok, of "OThr r" Black]
  have ch: "ochildren h (OThr r) = thread_children t" using Some ob(3) by (simp add: ochildren_def)
  have sub: "set (thread_children t) \<subseteq> R" using ok(2) ob(1) ch unfolding closed_def by force
  have m: "mkm R ?h0 ?h1 (thread_children t)" by (rule mkm_marks [OF marks_thread_children S0(1,2) sub])
  then have v: "visited R h ?h1 (OThr r)" using ch by (intro visited_intro [OF ok ob(1)]) simp
  have e: "traverse_thread r h = set_gc (\<lambda>g. g\<lparr>grayagain := grayagain g @ [GThread r]\<rparr>) ?h1"
    using Some by (simp add: traverse_thread_def thread_marks_def color_thread_def set_ocolor.simps)
  have om: "\<not> omark ?h1 (OThr r)" "\<not> ofrozen ?h1 (OThr r)" "ocolor ?h1 (OThr r) \<noteq> Some Gray"
  proof -
    have mk: "mk {} R ?h0 ?h1" using m by (simp add: mkm_def)
    have om0: "\<not> omark ?h0 (OThr r)" using set_ocolor_omark [OF ok(1), of Black "OThr r" "OThr r"] by simp
    show om1: "\<not> omark ?h1 (OThr r)" using mkD(3) [OF mk] om0 by blast
    have "ocolor ?h1 (OThr r) = ocolor ?h0 (OThr r)" using mkD(4) [OF mk] om0 om1 by blast
    also have "\<dots> = Some Black"
      unfolding set_ocolor_color [OF ok(1)] using Some by simp
    finally show "ocolor ?h1 (OThr r) \<noteq> Some Gray" by simp
    show "\<not> ofrozen ?h1 (OThr r)"
      using v ob(3) same_shape_flags(2) unfolding visited_def by metis
  qed
  show ?thesis unfolding visited_def e
  proof (intro conjI allI impI)
    show "same_shape h (set_gc (\<lambda>g. g\<lparr>grayagain := grayagain g @ [GThread r]\<rparr>) ?h1)"
      "work (set_gc (\<lambda>g. g\<lparr>grayagain := grayagain g @ [GThread r]\<rparr>) ?h1) \<le> work h"
      "darker h (set_gc (\<lambda>g. g\<lparr>grayagain := grayagain g @ [GThread r]\<rparr>) ?h1)"
      using v by (simp_all add: visited_def set_gc_def work_def whites_def)
    fix E G assume "tri R E (insert (OThr r) G) h"
    then have "tri R (E - {OThr r}) (G - {OThr r}) ?h1" using v by (simp add: visited_def)
    then show "tri R (E - {OThr r}) (G - {OThr r}) (set_gc (\<lambda>g. g\<lparr>grayagain := grayagain g @ [GThread r]\<rparr>) ?h1)"
      by (rule tri_again [OF _ _ ob(1) om(2,1,3)]) simp
  qed
qed

end
