(* ===== verification/GcCycle.thy ===== *)
theory GcCycle
  imports Tricolor
begin

text \<open>
  A whole collection cycle: propagation empties the gray list and ends, the atomic phase leaves every
  reachable object dark, the bounded sweeps free exactly the objects left in the old white.
\<close>

section \<open>Propagation\<close>

lemma tri_mono: "tri R E G h \<Longrightarrow> E \<subseteq> E' \<Longrightarrow> G \<subseteq> G' \<Longrightarrow> tri R E' G' h"
  unfolding tri_def by blast

lemma ochildren_gc [simp]: "heap_ok h \<Longrightarrow> ochildren (h\<lparr>h_gc := g\<rparr>) ob = ochildren h ob"
  using ochildren_shape [of "h\<lparr>h_gc := g\<rparr>" h ob] by (simp add: same_shape_sym)

text \<open>Popping an entry: only its object may be gray off the list.\<close>

lemma tri_pop:
  assumes t: "tri R E G h" and g: "gray (h_gc h) = it # rest"
  shows "tri R E (set_option (item_obj it) \<union> G) (set_gc (\<lambda>g. g\<lparr>gray := rest\<rparr>) h)"
  using t g unfolding tri_def closed_def listed_def set_gc_def
  by (elim conjE, intro conjI) (auto simp del: item_obj.simps)

lemma visited_traverse:
  assumes ok: "heap_ok h" "closed h R" and it: "item_obj it = Some ob" and l: "listed R h [it]"
  shows "visited R h (case it of GTable r \<Rightarrow> traverse_table r h | GClosure r \<Rightarrow> traverse_closure r h
    | GThread r \<Rightarrow> traverse_thread r h | GMainThread \<Rightarrow> h) ob"
  using assms traverse_table_visited [OF ok] traverse_closure_visited [OF ok] traverse_thread_visited [OF ok]
  by (cases it) (auto simp: listed_def simp del: omark_simps)

lemma propagate_one_tri:
  assumes t: "tri R E G h" and p: "propagate_one h = (h', res)"
  shows "tri R E G h'" "same_shape h h'" "darker h h'" "res = Empty \<Longrightarrow> h' = h \<and> gray (h_gc h) = []"
    "res \<noteq> Empty \<Longrightarrow> work h' < work h"
proof -
  have "tri R E G h' \<and> same_shape h h' \<and> darker h h' \<and> (res = Empty \<longrightarrow> h' = h \<and> gray (h_gc h) = []) \<and> (res \<noteq> Empty \<longrightarrow> work h' < work h)"
  proof (cases "gray (h_gc h)")
    case Nil
    then show ?thesis using t p by (simp add: propagate_one_def)
  next
    case (Cons it rest)
    let ?h1 = "set_gc (\<lambda>g. g\<lparr>gray := rest\<rparr>) h"
    have t1: "tri R E (set_option (item_obj it) \<union> G) ?h1" by (rule tri_pop [OF t Cons])
    have w: "work ?h1 < work h" using Cons by (simp add: work_def whites_def set_gc_def)
    have sh: "same_shape h ?h1" "darker h ?h1" by (simp_all add: set_gc_def)
    show ?thesis
    proof (cases "item_obj it")
      case None
      then have "it = GMainThread" by (cases it) simp_all
      then show ?thesis using p Cons t1 w sh by (auto simp: propagate_one_def)
    next
      case (Some ob)
      have l: "listed R ?h1 [it]" using triD(7) [OF t] Cons by (simp add: listed_def set_gc_def)
      let ?h2 = "case it of GTable r \<Rightarrow> traverse_table r ?h1 | GClosure r \<Rightarrow> traverse_closure r ?h1
        | GThread r \<Rightarrow> traverse_thread r ?h1 | GMainThread \<Rightarrow> ?h1"
      have v: "visited R ?h1 ?h2 ob" by (rule visited_traverse [OF triD(1,2) [OF t1] Some l])
      have t2: "tri R E (insert ob G) ?h1" using t1 Some by simp
      have "tri R (E - {ob}) (G - {ob}) ?h2" using v t2 unfolding visited_def by blast
      then have "tri R E G ?h2" by (rule tri_mono) auto
      moreover have "h' = ?h2" "res \<noteq> Empty"
        using p Cons Some by (auto simp: propagate_one_def Let_def split: GrayItem.splits)
      moreover have "work ?h2 \<le> work ?h1" "same_shape ?h1 ?h2" "darker ?h1 ?h2" using v by (simp_all add: visited_def)
      ultimately show ?thesis using w same_shape_trans [OF sh(1)] darker_trans [OF sh(2)] by auto
    qed
  qed
  then show "tri R E G h'" "same_shape h h'" "darker h h'" "res = Empty \<Longrightarrow> h' = h \<and> gray (h_gc h) = []"
    "res \<noteq> Empty \<Longrightarrow> work h' < work h" by blast+
qed

lemma propagate_all_n_tri:
  "tri R E G h \<Longrightarrow> work h < n \<Longrightarrow> propagate_all_n n h = (h', tot) \<Longrightarrow>
   tri R E G h' \<and> same_shape h h' \<and> darker h h' \<and> gray (h_gc h') = []"
proof (induction n arbitrary: h tot)
  case (Suc n)
  obtain h1 res where p: "propagate_one h = (h1, res)" by fastforce
  note P = propagate_one_tri [OF Suc.prems(1) p]
  show ?case
  proof (cases "res = Empty")
    case True
    then show ?thesis using Suc.prems P p by auto
  next
    case False
    then have w: "work h1 < n" using P(5) Suc.prems(2) by simp
    obtain h2 c where r: "propagate_all_n n h1 = (h2, c)" by fastforce
    have e: "h' = h2" using Suc.prems(3) p r False by (cases res) auto
    show ?thesis using Suc.IH [OF P(1) w r [folded e]] same_shape_trans [OF P(2)] darker_trans [OF P(3)] by blast
  qed
qed simp

lemma propagate_all_tri:
  assumes "tri R E G h"
  shows "tri R E G (fst (propagate_all h))" "same_shape h (fst (propagate_all h))"
    "darker h (fst (propagate_all h))" "gray (h_gc (fst (propagate_all h))) = []"
proof -
  have "work h < Suc (mark_work h)" by (simp add: work_def mark_work_def whites_def)
  from propagate_all_n_tri [OF assms this]
  show "tri R E G (fst (propagate_all h))" "same_shape h (fst (propagate_all h))"
    "darker h (fst (propagate_all h))" "gray (h_gc (fst (propagate_all h))) = []"
    unfolding propagate_all_def by (metis prod.collapse)+
qed

section \<open>The second visit of the atomic phase\<close>

definition thread_again :: "lthread \<Rightarrow> heap \<Rightarrow> heap" where
  "thread_again t h = fold mark_upvalue (map fst (th_suspended_upvals t)) (fold mark_upvalue (th_open_upvalues t)
     (fold mark_value (thread_stack_values t) (mark_table (th_global t) h)))"

lemma marks_thread_again:
  "marks (thread_again t) (OTab (th_global t) # vals_objs (thread_stack_values t)
      @ map OUpv (th_open_upvalues t) @ map (\<lambda>p. OUpv (fst p)) (th_suspended_upvals t))"
proof -
  have "marks (thread_again t) ((([OTab (th_global t)] @ vals_objs (thread_stack_values t))
      @ map OUpv (th_open_upvalues t)) @ map OUpv (map fst (th_suspended_upvals t)))"
    unfolding thread_again_def by (intro marks_comp marks_table marks_values marks_upvalues)
  then show ?thesis by (simp add: comp_def)
qed

lemma set_color_same:
  assumes "color a r = Some c" shows "fst (set_color a r c) = a"
proof (cases "occupied_index a r")
  case None
  then show ?thesis by (simp add: set_color_def)
next
  case (Some i)
  then have "byte_to_color (colors a ! i) = Some c" using assms by (simp add: color_eq)
  then have "colors a ! i = color_to_byte c" by (auto simp: byte_to_color_def split: if_splits)
  then have "(colors a)[i := color_to_byte c] = colors a" using list_update_id [of "colors a" i] by simp
  then show ?thesis using Some by (simp add: set_color_def)
qed

lemma set_ocolor_same: "ocolor h ob = Some c \<Longrightarrow> set_ocolor ob c h = h"
  by (cases ob) (simp_all add: set_ocolor.simps set_color_same)

text \<open>A thread visited before is black already, or dead, or frozen white.\<close>

lemma again_thread_tri:
  assumes t: "tri R E G h" and r: "OThr r \<in> R" "\<not> ofrozen h (OThr r)" "\<not> omark h (OThr r)"
    "ocolor h (OThr r) \<noteq> Some Gray"
  shows "tri R E G (again_one (GThread r) h) \<and> same_shape h (again_one (GThread r) h)
     \<and> darker h (again_one (GThread r) h)"
proof (cases "get (h_threads h) r")
  case None
  then show ?thesis using t by (simp add: again_one_def)
next
  case (Some th)
  note T = triD [OF t]
  have "ocolor h (OThr r) \<noteq> None" using ocolor_live [OF T(1), of "OThr r"] Some by simp
  then obtain c where c: "ocolor h (OThr r) = Some c" by blast
  then have "c = Black" using r(2-4) by (cases c) (auto simp: omark_def simp del: omark_simps)
  then have black: "ocolor h (OThr r) = Some Black" using c by simp
  have ch: "ochildren h (OThr r) = thread_children th" using Some r(2) by (simp add: ochildren_def)
  have sub: "set (thread_children th) \<subseteq> R" using T(2) r(1) ch unfolding closed_def by force
  have e: "again_one (GThread r) h = thread_again th h"
    using Some set_ocolor_same [OF black] by (simp add: again_one_def thread_again_def color_thread_def set_ocolor.simps)
  have "mkm R h (thread_again th h) (OTab (th_global th) # vals_objs (thread_stack_values th)
      @ map OUpv (th_open_upvalues th) @ map (\<lambda>p. OUpv (fst p)) (th_suspended_upvals th))"
    by (rule mkm_marks [OF marks_thread_again T(1,2)]) (use sub in \<open>auto simp: thread_children_def\<close>)
  then have m: "mk {} R h (thread_again th h)" by (simp add: mkm_def)
  show ?thesis unfolding e using tri_mk [OF t m] mkD(1) [OF m] mk_darker [OF m] by simp
qed

lemma regray:
  assumes t: "tri R E G h" and ob: "ob \<in> R" "\<forall>r. ob \<noteq> OThr r"
  shows "tri R E (insert ob G) (set_ocolor ob Gray h)"
proof -
  note T = triD [OF t]
  let ?h = "set_ocolor ob Gray h"
  have ok: "heap_ok ?h" by (rule set_ocolor_ok [OF T(1)])
  have ch: "ochildren ?h x = ochildren h x" for x
    using ochildren_shape [OF T(1) ok set_ocolor_shape] by simp
  have om: "omark h x" if "omark ?h x" for x using set_ocolor_omark [OF T(1), of Gray ob x] that by auto
  have fr: "ofrozen ?h x = ofrozen h x" for x using same_shape_flags(2) [OF set_ocolor_shape, of h ob Gray] by simp
  note C = set_ocolor_color [OF T(1), of ob Gray]
  show ?thesis
    unfolding tri_def
  proof (intro conjI allI impI)
    show "x \<in> R" if "ocolor ?h x = Some Gray \<or> ocolor ?h x = Some Black" for x
      using that T(3,4) [of x] ob(1) C [of x] by (auto split: if_splits)
    show "x \<in> E \<or> (\<forall>c \<in> set (ochildren ?h x). \<not> omark ?h c)" if "ocolor ?h x = Some Black" for x
      using that T(5) [of x] C [of x] om ch by (auto split: if_splits)
    show "x \<in> insert ob G \<or> Some x \<in> item_obj ` set (gray (h_gc ?h))" if "ocolor ?h x = Some Gray" for x
      using that T(6) [of x] C [of x] by (auto split: if_splits)
    show "ocolor ?h (OThr r) \<noteq> Some Gray" if "GThread r \<in> set (grayagain (h_gc ?h))" for r
      using T(9) [of r] that C [of "OThr r"] ob(2) by (auto split: if_splits)
    show "listed R ?h (gray (h_gc ?h))" "listed R ?h (grayagain (h_gc ?h))"
      using T(7,8) om fr unfolding listed_def by auto
    show "set (weak_tables (h_gc ?h)) \<subseteq> Collect (is_weak ?h)"
      using T(10) is_weak_shape [OF T(1) ok set_ocolor_shape] by auto
  qed (use ok T(2) ch in \<open>simp_all add: closed_def\<close>)
qed

lemma tri_not_gray: "tri R E G h \<Longrightarrow> ocolor h ob \<noteq> Some Gray \<Longrightarrow> tri R E (G - {ob}) h"
  unfolding tri_def by (elim conjE, intro conjI) blast+

lemma again_one_tri:
  assumes t: "tri R E G h" and l: "listed R h [it]" and thr: "\<And>r. it = GThread r \<Longrightarrow> ocolor h (OThr r) \<noteq> Some Gray"
  shows "tri R E (G - set_option (item_obj it)) (again_one it h) \<and> same_shape h (again_one it h)
     \<and> darker h (again_one it h)"
proof (cases it)
  case (GThread r)
  then show ?thesis using again_thread_tri [OF tri_not_gray [OF t thr [OF GThread]]] l thr by (simp add: listed_def)
next
  case (GTable r)
  let ?h1 = "set_ocolor (OTab r) Gray h"
  have ob: "OTab r \<in> R" "\<not> omark h (OTab r)" "\<not> ofrozen h (OTab r)" using l GTable by (simp_all add: listed_def)
  have t1: "tri R E (insert (OTab r) G) ?h1" by (rule regray [OF t ob(1)]) simp
  have "\<not> omark ?h1 (OTab r)" "\<not> ofrozen ?h1 (OTab r)"
    using set_ocolor_omark [OF triD(1) [OF t], of Gray "OTab r" "OTab r"]
      same_shape_flags(2) [OF set_ocolor_shape, of h "OTab r" Gray] ob(3) by simp_all
  then have v: "visited R ?h1 (traverse_table r ?h1) (OTab r)"
    by (rule traverse_table_visited [OF triD(1,2) [OF t1] ob(1)])
  then have "tri R (E - {OTab r}) (G - {OTab r}) (traverse_table r ?h1)"
    "same_shape h (traverse_table r ?h1)" "darker h (traverse_table r ?h1)"
    using t1 same_shape_trans [OF set_ocolor_shape] v
      darker_trans [OF set_ocolor_darker [OF triD(1) [OF t], of Gray "OTab r"]]
    unfolding visited_def by (simp, blast, simp)
  then show ?thesis using tri_mono [of R "E - {OTab r}" "G - {OTab r}" _ E "G - {OTab r}"] GTable
    by (auto simp: again_one_def color_table_def set_ocolor.simps)
next
  case (GClosure r)
  let ?h1 = "set_ocolor (OClo r) Gray h"
  have ob: "OClo r \<in> R" "\<not> omark h (OClo r)" "\<not> ofrozen h (OClo r)" using l GClosure by (simp_all add: listed_def)
  have t1: "tri R E (insert (OClo r) G) ?h1" by (rule regray [OF t ob(1)]) simp
  have "\<not> omark ?h1 (OClo r)" "\<not> ofrozen ?h1 (OClo r)"
    using set_ocolor_omark [OF triD(1) [OF t], of Gray "OClo r" "OClo r"]
      same_shape_flags(2) [OF set_ocolor_shape, of h "OClo r" Gray] ob(3) by simp_all
  then have v: "visited R ?h1 (traverse_closure r ?h1) (OClo r)"
    by (rule traverse_closure_visited [OF triD(1,2) [OF t1] ob(1)])
  then have "tri R (E - {OClo r}) (G - {OClo r}) (traverse_closure r ?h1)"
    "same_shape h (traverse_closure r ?h1)" "darker h (traverse_closure r ?h1)"
    using t1 same_shape_trans [OF set_ocolor_shape] v
      darker_trans [OF set_ocolor_darker [OF triD(1) [OF t], of Gray "OClo r"]]
    unfolding visited_def by (simp, blast, simp)
  then show ?thesis using tri_mono [of R "E - {OClo r}" "G - {OClo r}" _ E "G - {OClo r}"] GClosure
    by (auto simp: again_one_def color_closure_def set_ocolor.simps)
qed (use t in \<open>simp add: again_one_def\<close>)


text \<open>A heap operation that keeps the invariant, the shape and the dark objects.\<close>

definition keeps :: "obj set \<Rightarrow> heap \<Rightarrow> heap \<Rightarrow> bool" where
  "keeps R h h' \<longleftrightarrow> tri R {} {} h' \<and> same_shape h h' \<and> darker h h'"

lemma keeps_trans: "keeps R a b \<Longrightarrow> keeps R b c \<Longrightarrow> keeps R a c"
  using same_shape_trans darker_trans unfolding keeps_def by blast

lemma keeps_refl: "tri R {} {} h \<Longrightarrow> keeps R h h"
  by (simp add: keeps_def)

lemma keeps_marks:
  assumes "marks f os" "tri R {} {} h" "set os \<subseteq> R"
  shows "keeps R h (f h)" "\<forall>ob \<in> set os. \<not> omark (f h) ob"
proof -
  note M = marksD [OF assms(1) triD(1,2) [OF assms(2)] assms(3)]
  show "keeps R h (f h)" unfolding keeps_def
    using tri_mk [OF assms(2) M(1)] mkD(1) [OF M(1)] mk_darker [OF M(1)] by simp
  show "\<forall>ob \<in> set os. \<not> omark (f h) ob" using M(2) by blast
qed

lemma keeps_propagate_all:
  assumes "tri R {} {} h"
  shows "keeps R h (fst (propagate_all h))" "gray (h_gc (fst (propagate_all h))) = []"
  using propagate_all_tri [OF assms] by (simp_all add: keeps_def)

text \<open>What a back barrier puts on the second list is gray and stays so until the second visit.\<close>

definition list_objs :: "GrayItem list \<Rightarrow> obj set" where
  "list_objs its = {ob. Some ob \<in> item_obj ` set its}"

lemma list_objs_simps: "list_objs [] = {}" "list_objs (it # its) = set_option (item_obj it) \<union> list_objs its"
  by (auto simp: list_objs_def)

lemma again_tri:
  assumes "tri R {} G h" "listed R h its" "\<forall>r. GThread r \<in> set its \<longrightarrow> ocolor h (OThr r) \<noteq> Some Gray"
  shows "tri R {} (G - list_objs its) (fold again_one its h) \<and> same_shape h (fold again_one its h)
    \<and> darker h (fold again_one its h)"
  using assms
proof (induction its arbitrary: h G)
  case Nil
  then show ?case by (simp add: list_objs_simps)
next
  case (Cons it its)
  let ?h = "again_one it h"
  have A: "tri R {} (G - set_option (item_obj it)) ?h \<and> same_shape h ?h \<and> darker h ?h"
    by (rule again_one_tri [OF Cons.prems(1)]) (use Cons.prems(2,3) in \<open>auto simp: listed_def\<close>)
  then have d: "darker h ?h" and fr: "ofrozen ?h = ofrozen h" using same_shape_flags(2) [of h ?h] by auto
  have l: "listed R ?h its"
    using Cons.prems(2) d fr unfolding listed_def darker_def by (simp del: omark_simps) blast
  have "\<forall>r. GThread r \<in> set its \<longrightarrow> ocolor ?h (OThr r) \<noteq> Some Gray"
  proof (intro allI impI)
    fix r assume r: "GThread r \<in> set its"
    then have "\<not> omark h (OThr r)" using Cons.prems(2) unfolding listed_def by force
    then show "ocolor ?h (OThr r) \<noteq> Some Gray" using d Cons.prems(3) r unfolding darker_def by auto
  qed
  from Cons.IH [OF _ l this, of "G - set_option (item_obj it)"] A
  have B: "tri R {} (G - set_option (item_obj it) - list_objs its) (fold again_one its ?h)
      \<and> same_shape ?h (fold again_one its ?h) \<and> darker ?h (fold again_one its ?h)" by blast
  then show ?case using A same_shape_trans [of h ?h] darker_trans [of h ?h] by (simp add: list_objs_simps Diff_eq Int_assoc)
qed

lemma keeps_atomic_mark:
  assumes t: "tri R {} (list_objs (grayagain (h_gc h))) h"
  shows "keeps R h (atomic_mark h)" "gray (h_gc (atomic_mark h)) = []"
proof -
  let ?h1 = "set_gc (\<lambda>g. g\<lparr>grayagain := []\<rparr>) h"
  let ?h2 = "fold again_one (grayagain (h_gc h)) ?h1"
  have t1: "tri R {} (list_objs (grayagain (h_gc h))) ?h1"
    using t unfolding tri_def closed_def listed_def set_gc_def by simp
  have "tri R {} (list_objs (grayagain (h_gc h)) - list_objs (grayagain (h_gc h))) ?h2
      \<and> same_shape ?h1 ?h2 \<and> darker ?h1 ?h2"
    by (rule again_tri [OF t1]) (use triD(8,9) [OF t] in \<open>simp_all add: set_gc_def listed_def\<close>)
  then have t2: "tri R {} {} ?h2" and k: "same_shape h ?h2" "darker h ?h2"
    using same_shape_trans [of h ?h1 ?h2] darker_trans [of h ?h1 ?h2] by (simp_all add: set_gc_def)
  have "keeps R h ?h2" using t2 k by (simp add: keeps_def)
  then show "keeps R h (atomic_mark h)" "gray (h_gc (atomic_mark h)) = []"
    using keeps_trans [OF _ keeps_propagate_all(1) [OF t2]] keeps_propagate_all(2) [OF t2]
    by (simp_all add: atomic_mark_def)
qed

section \<open>Roots\<close>

definition opt_objs :: "Val option \<Rightarrow> obj list" where
  "opt_objs x = (case x of None \<Rightarrow> [] | Some v \<Rightarrow> val_obj v)"

definition saved_objs :: "lthread \<Rightarrow> obj list" where
  "saved_objs t = vals_objs (take (th_top t) (th_stack t)) @ map OUpv (th_open_upvalues t)
     @ map OUpv (map fst (th_suspended_upvals t)) @ opt_objs (th_error_object t) @ val_obj (hook_func (th_hook t))
     @ vals_objs (frame_functions (th_stack t) (th_call_stack t) (th_ci t))"

text \<open>What the running thread and the resumers below it hold.\<close>

definition running_objs :: "lua \<Rightarrow> obj list" where
  "running_objs s = vals_objs (take (l_top s) (stack s)) @ map OUpv (open_upvalues s) @ opt_objs (error_object s)
     @ val_obj (hook_func (l_hook s)) @ vals_objs (frame_functions (stack s) (call_stack s) (l_ci s))
     @ concat (map saved_objs (saved_threads s))"

definition gc_root_objs :: "heap \<Rightarrow> obj list" where
  "gc_root_objs h = concat (map (opt_list OTab) (h_type_metatables h)) @ concat (map (opt_list OStr) (h_tm_names h))
     @ concat (map (opt_list OStr) (h_type_name_refs h)) @ map OStr (map snd (h_static_intern_cache h))"

definition slot_objs :: "global_slot_runtime \<Rightarrow> obj list" where
  "slot_objs rt = vals_objs (slot_values rt) @ map OStr (slot_name_keys rt) @ opt_list OStr (slot_shadow_registry_key rt)"

definition cached_objs :: "lua \<Rightarrow> obj list" where
  "cached_objs s = map OStr (hook_event_names s) @ map OStr (hook_mask_names s) @ map OStr (debug_info_field_names s)
     @ (case global_slots s of None \<Rightarrow> [] | Some rt \<Rightarrow> slot_objs rt)"

text \<open>The fixed roots: globals, registry, type metatables, interned names and caches.\<close>

definition base_objs :: "lua \<Rightarrow> obj list" where
  "base_objs s = [OTab (l_global s), OTab (registry s)]
     @ gc_root_objs (l_heap s) @ cached_objs s"

lemma marks_opt_values: "marks (mark_opt mark_value x) (opt_objs x)"
  using marks_opt_value [of x] by (simp add: opt_objs_def)

lemma marks_saved: "marks (mark_saved t) (saved_objs t)"
proof -
  have "marks (mark_saved t) (((((vals_objs (take (th_top t) (th_stack t)) @ map OUpv (th_open_upvalues t))
     @ map OUpv (map fst (th_suspended_upvals t))) @ opt_objs (th_error_object t)) @ val_obj (hook_func (th_hook t)))
     @ vals_objs (frame_functions (th_stack t) (th_call_stack t) (th_ci t)))"
    unfolding mark_saved_def [abs_def]
    by (intro marks_comp marks_values marks_value marks_upvalues marks_opt_values)
  then show ?thesis by (simp add: saved_objs_def)
qed

lemma marks_running: "marks (mark_running s) (running_objs s)"
proof -
  have "marks (fold mark_saved (saved_threads s)) (concat (map saved_objs (saved_threads s)))"
    by (rule marks_fold) (simp add: marks_saved)
  then have "marks (mark_running s) (((((vals_objs (take (l_top s) (stack s)) @ map OUpv (open_upvalues s))
     @ opt_objs (error_object s)) @ val_obj (hook_func (l_hook s)))
     @ vals_objs (frame_functions (stack s) (call_stack s) (l_ci s))) @ concat (map saved_objs (saved_threads s)))"
    unfolding mark_running_def [abs_def]
    by (intro marks_comp marks_values marks_value marks_upvalues marks_opt_values)
  then show ?thesis by (simp add: running_objs_def)
qed

lemma marks_mark_strings: "marks (mark_strings rs) (map OStr rs)"
proof -
  have "marks (fold (\<lambda>r. mark_value (VStr r)) rs) (concat (map (\<lambda>r. [OStr r]) rs))"
    using marks_fold [of rs "\<lambda>r. mark_value (VStr r)" "\<lambda>r. [OStr r]"] marks_value [of "VStr _"]
    by (simp add: val_obj_def)
  then show ?thesis by (simp add: mark_strings_def concat_map_singleton)
qed


lemma marks_fold_opt:
  assumes "\<forall>x. marks (f x) [g x]"
  shows "marks (fold (mark_opt f) xs) (concat (map (opt_list g) xs))"
proof (rule marks_fold, intro ballI)
  fix x show "marks (mark_opt f x) (opt_list g x)"
    using marks_opt [of f "\<lambda>x. [g x]" x] assms by (cases x) (simp_all add: opt_list_def)
qed

lemma mkm_gc_roots:
  assumes "heap_ok h" "closed h R" "set (gc_root_objs h) \<subseteq> R"
  shows "mkm R h (mark_gc_roots h) (gc_root_objs h)"
proof -
  let ?f = "\<lambda>h'. fold mark_string (map snd (h_static_intern_cache h)) (fold (mark_opt mark_string) (h_type_name_refs h)
      (fold (mark_opt mark_string) (h_tm_names h) (fold (mark_opt mark_table) (h_type_metatables h) h')))"
  have "marks ?f
     (((concat (map (opt_list OTab) (h_type_metatables h)) @ concat (map (opt_list OStr) (h_tm_names h)))
        @ concat (map (opt_list OStr) (h_type_name_refs h))) @ map OStr (map snd (h_static_intern_cache h)))"
    by (intro marks_comp marks_strings marks_fold_opt allI marks_string marks_table)
  then have "marks ?f (gc_root_objs h)" by (simp add: gc_root_objs_def)
  from mkm_marks [OF this assms] show ?thesis by (simp add: mark_gc_roots_def)
qed

lemma marks_cached: "marks (mark_cached_state_strings s) (cached_objs s)"
proof -
  have k: "marks (mark_opt (\<lambda>k. mark_value (VStr k)) x) (opt_list OStr x)" for x
    using marks_opt [of "\<lambda>k. mark_value (VStr k)" "\<lambda>k. [OStr k]" x] marks_value [of "VStr _"]
    by (cases x) (simp_all add: opt_list_def val_obj_def)
  have "marks (mark_global_slots rt) ((vals_objs (slot_values rt) @ map OStr (slot_name_keys rt))
      @ opt_list OStr (slot_shadow_registry_key rt))" for rt
    unfolding mark_global_slots_def [abs_def] by (intro marks_comp marks_values marks_mark_strings k)
  then have g: "\<forall>rt. marks (mark_global_slots rt) (slot_objs rt)" by (simp add: slot_objs_def)
  have "marks (mark_opt mark_global_slots (global_slots s)) (case global_slots s of None \<Rightarrow> [] | Some rt \<Rightarrow> slot_objs rt)"
    by (rule marks_opt [OF g])
  then have "marks (mark_cached_state_strings s) (((map OStr (hook_event_names s) @ map OStr (hook_mask_names s))
     @ map OStr (debug_info_field_names s)) @ (case global_slots s of None \<Rightarrow> [] | Some rt \<Rightarrow> slot_objs rt))"
    unfolding mark_cached_state_strings_def [abs_def] by (intro marks_comp marks_mark_strings)
  then show ?thesis by (simp add: cached_objs_def slot_objs_def)
qed


lemma keeps_mkm:
  assumes "tri R {} {} h" "mkm R h h' os"
  shows "keeps R h h' \<and> (\<forall>ob \<in> set os. \<not> omark h' ob)"
proof -
  have m: "mk {} R h h'" using assms(2) by (simp add: mkm_def)
  then show ?thesis using tri_mk [OF assms(1) m] mkD(1) [OF m] mk_darker [OF m] assms(2)
    by (simp add: keeps_def mkm_def)
qed

lemma gc_root_objs_shape: "same_shape h h' \<Longrightarrow> gc_root_objs h = gc_root_objs h'"
  by (simp add: gc_root_objs_def same_shape_def)

lemma keeps_unmarked: "keeps R h h' \<Longrightarrow> \<not> omark h ob \<Longrightarrow> \<not> omark h' ob"
  by (auto simp: keeps_def darker_def)

lemma keeps_roots:
  assumes t: "tri R {} {} (l_heap s)" and R: "set (base_objs s) \<subseteq> R"
  shows "mark_roots s = s\<lparr>l_heap := l_heap (mark_roots s)\<rparr>" "keeps R (l_heap s) (l_heap (mark_roots s))"
    "ob \<in> set (base_objs s) \<Longrightarrow> \<not> omark (l_heap (mark_roots s)) ob"
proof -
  let ?h = "l_heap s"
  let ?h1 = "push_gray GMainThread ?h"
  let ?h2 = "mark_table (registry s) (mark_table (l_global s) ?h1)"
  let ?h3 = "mark_gc_roots ?h2" and ?h4 = "mark_cached_state_strings s (mark_gc_roots ?h2)"
  have k1: "keeps R ?h ?h1"
    using t unfolding keeps_def tri_def closed_def listed_def push_gray_def set_gc_def by auto
  then have t1: "tri R {} {} ?h1" by (simp add: keeps_def)
  have m2: "marks (\<lambda>h. mark_table (registry s) (mark_table (l_global s) h)) ([OTab (l_global s)] @ [OTab (registry s)])"
    by (intro marks_comp marks_table)
  have k2: "keeps R ?h1 ?h2" "\<forall>ob \<in> set [OTab (l_global s), OTab (registry s)]. \<not> omark ?h2 ob"
    using keeps_marks [OF m2 t1] R by (simp_all add: base_objs_def)
  then have t2: "tri R {} {} ?h2" by (simp add: keeps_def)
  have g2: "gc_root_objs ?h2 = gc_root_objs ?h"
    using keeps_trans [OF k1 k2(1)] gc_root_objs_shape by (metis keeps_def)
  have k3: "keeps R ?h2 ?h3 \<and> (\<forall>ob \<in> set (gc_root_objs ?h2). \<not> omark ?h3 ob)"
    by (rule keeps_mkm [OF t2 mkm_gc_roots [OF triD(1,2) [OF t2]]]) (use R g2 in \<open>simp add: base_objs_def\<close>)
  then have t3: "tri R {} {} ?h3" by (simp add: keeps_def)
  have k4: "keeps R ?h3 ?h4" "\<forall>ob \<in> set (cached_objs s). \<not> omark ?h4 ob"
    using keeps_marks [OF marks_cached t3] R by (simp_all add: base_objs_def)
  have k24: "keeps R ?h2 ?h4" using keeps_trans k3 k4(1) by blast
  have e: "l_heap (mark_roots s) = ?h4" by (simp add: mark_roots_def on_heap_def)
  show "mark_roots s = s\<lparr>l_heap := l_heap (mark_roots s)\<rparr>" by (simp add: mark_roots_def on_heap_def)
  show "keeps R (l_heap s) (l_heap (mark_roots s))" unfolding e using keeps_trans [OF keeps_trans [OF k1 k2(1)] k24] .
  show "\<not> omark (l_heap (mark_roots s)) ob" if "ob \<in> set (base_objs s)"
    using that k2(2) k3 k4 g2 keeps_unmarked [OF k24] keeps_unmarked [OF k4(1)]
    unfolding e base_objs_def by (auto simp del: omark_simps)
qed

section \<open>The propagation phase\<close>

text \<open>During propagation the fixed roots are marked, what the thread holds may be marked.\<close>

definition propagating :: "obj set \<Rightarrow> lua \<Rightarrow> bool" where
  "propagating R s \<longleftrightarrow> tri R {} {} (l_heap s) \<and> gc_phase (h_gc (l_heap s)) = Propagate
     \<and> set (running_objs s) \<subseteq> R \<and> (\<forall>ob \<in> set (base_objs s). \<not> omark (l_heap s) ob)"

lemma base_objs_heap: "same_shape (l_heap s) h \<Longrightarrow> base_objs (s\<lparr>l_heap := h\<rparr>) = base_objs s"
  by (simp add: base_objs_def cached_objs_def gc_root_objs_shape [of "l_heap s" h])

lemma running_objs_heap [simp]: "running_objs (s\<lparr>l_heap := h\<rparr>) = running_objs s"
  by (simp add: running_objs_def)

lemma mark_running_heap [simp]: "mark_running (s\<lparr>l_heap := h\<rparr>) = mark_running s"
  by (simp add: mark_running_def fun_eq_iff)

lemma keeps_phase: "keeps R h h' \<Longrightarrow> gc_phase (h_gc h') = gc_phase (h_gc h)"
  unfolding keeps_def darker_def gc_core_def by (elim conjE, drule arg_cong [where f = gc_phase]) simp

lemma propagating_keeps:
  assumes "propagating R s" "keeps R (l_heap s) h"
  shows "propagating R (s\<lparr>l_heap := h\<rparr>)"
  using assms keeps_phase [OF assms(2)] keeps_unmarked [OF assms(2)] base_objs_heap [of s h]
  unfolding propagating_def by (auto simp: keeps_def)

lemma keeps_running:
  assumes "propagating R s"
  shows "keeps R (l_heap s) (mark_running s (l_heap s))"
    "ob \<in> set (running_objs s) \<Longrightarrow> \<not> omark (mark_running s (l_heap s)) ob"
  using keeps_marks [OF marks_running, of R "l_heap s" s] assms by (auto simp: propagating_def)

lemma propagate_step:
  assumes p: "propagating R s" and g: "gray (h_gc (l_heap s)) \<noteq> []"
  shows "\<exists>h'. fst (gc_singlestep call s) = s\<lparr>l_heap := h'\<rparr> \<and> propagating R (s\<lparr>l_heap := h'\<rparr>)
    \<and> keeps R (l_heap s) h' \<and> work h' < work (l_heap s)"
proof -
  let ?h = "l_heap s"
  have t: "tri R {} {} ?h" and ph: "gc_phase (h_gc ?h) = Propagate" using p by (simp_all add: propagating_def)
  obtain h1 res where o: "propagate_one ?h = (h1, res)" by fastforce
  note P = propagate_one_tri [OF t o]
  have k1: "keeps R ?h h1" using P by (simp add: keeps_def)
  have ne: "res \<noteq> Empty" using P(4) g by blast
  note p1 = propagating_keeps [OF p k1]
  show ?thesis
  proof (cases res)
    case (Done cost)
    then show ?thesis using o ph p1 k1 P(5) by (intro exI [of _ h1]) (simp add: gc_singlestep_def)
  next
    case NeedMainThread
    let ?h2 = "mark_running s h1"
    let ?h3 = "set_gc (\<lambda>g. g\<lparr>grayagain := grayagain g @ [GMainThread]\<rparr>) ?h2"
    have k2: "keeps R h1 ?h2" using keeps_running(1) [OF p1] by simp
    have "tri R {} {} ?h3" using k2 unfolding keeps_def tri_def closed_def listed_def set_gc_def by auto
    then have k3: "keeps R ?h2 ?h3" by (simp add: keeps_def set_gc_def)
    have m: "mk {} R h1 ?h2"
      using marksD(1) [OF marks_running triD(1,2) [OF P(1)]] p by (simp add: propagating_def)
    have "work ?h3 = work ?h2" by (simp add: work_def whites_def set_gc_def)
    then have w: "work ?h3 < work ?h" using mk_work [OF m] P(5) ne by simp
    have k: "keeps R ?h ?h3" using keeps_trans [OF k1 keeps_trans [OF k2 k3]] .
    have "fst (gc_singlestep call s) = s\<lparr>l_heap := ?h3\<rparr>"
      using o ph NeedMainThread by (simp add: gc_singlestep_def traverse_main_thread_def on_heap_def)
    then show ?thesis using k w propagating_keeps [OF p k] by blast
  qed (use ne in simp)
qed

primrec gc_steps :: "nat \<Rightarrow> (nat \<Rightarrow> lua \<Rightarrow> lua \<times> 'e option) \<Rightarrow> lua \<Rightarrow> lua" where
  "gc_steps 0 call s = s"
| "gc_steps (Suc n) call s = gc_steps n call (fst (gc_singlestep call s))"

lemma gc_steps_add: "gc_steps (m + n) call s = gc_steps n call (gc_steps m call s)"
  by (induction m arbitrary: s) simp_all

lemma propagate_steps:
  "propagating R s \<Longrightarrow> \<exists>n \<le> work (l_heap s). \<exists>h'. gc_steps n call s = s\<lparr>l_heap := h'\<rparr> \<and> propagating R (s\<lparr>l_heap := h'\<rparr>)
    \<and> keeps R (l_heap s) h' \<and> gray (h_gc h') = []"
proof (induction "work (l_heap s)" arbitrary: s rule: less_induct)
  case less
  show ?case
  proof (cases "gray (h_gc (l_heap s)) = []")
    case True
    then show ?thesis using less.prems by (intro exI [of _ 0]) (auto simp: keeps_refl propagating_def intro: exI [of _ "l_heap s"])
  next
    case False
    obtain h1 where h1: "fst (gc_singlestep call s) = s\<lparr>l_heap := h1\<rparr>" "propagating R (s\<lparr>l_heap := h1\<rparr>)"
      "keeps R (l_heap s) h1" "work h1 < work (l_heap s)"
      using propagate_step [OF less.prems False] by blast
    obtain n h' where n: "n \<le> work h1" "gc_steps n call (s\<lparr>l_heap := h1\<rparr>) = s\<lparr>l_heap := h'\<rparr>"
      "propagating R (s\<lparr>l_heap := h'\<rparr>)" "keeps R h1 h'" "gray (h_gc h') = []"
      using less.hyps [OF _ h1(2)] h1(4) by auto
    then show ?thesis using h1 keeps_trans [OF h1(3) n(4)] by (intro exI [of _ "Suc n"]) auto
  qed
qed

end
