(* ===== verification/GcAtomic.thy ===== *)
theory GcAtomic
  imports GcCycle
begin

text \<open>
  The atomic phase: the second visit of gray objects, the userdata to finalize, the flip of the whites and
  the weak tables.
\<close>

section \<open>Writing to a slot\<close>

lemma get_mut_frame [simp]:
  "colors (get_mut a r f) = colors a" "flags (get_mut a r f) = flags a" "alen (get_mut a r f) = alen a"
  "length (entries (get_mut a r f)) = length (entries a)"
  by (simp_all add: get_mut_def Let_def split: EntryState.split)

lemma get_mut_entries:
  "i < length (entries a) \<Longrightarrow> egen (entries (get_mut a r f) ! i) = egen (entries a ! i)
     \<and> is_free_slot (entries (get_mut a r f) ! i) = is_free_slot (entries a ! i)"
  by (auto simp: get_mut_def Let_def nth_list_update is_free_slot_def split: EntryState.split)

lemma get_mut_color [simp]: "color (get_mut a r f) = color a"
proof
  fix x show "color (get_mut a r f) x = color a x"
    using get_mut_entries [of "ix x" a r f] by (cases "ix x < length (entries a)") (simp_all add: color_def)
qed

lemma get_mut_occupied [simp]: "occupied_index (get_mut a r f) = occupied_index a"
proof
  fix x show "occupied_index (get_mut a r f) x = occupied_index a x"
    using get_mut_entries [of "ix x" a r f] by (cases "ix x < length (entries a)") (simp_all add: occupied_index_def)
qed

lemma get_mut_get: "get (get_mut a r f) x = (if x = r then map_option f (get a r) else get a x)"
proof (cases "ix x = ix r \<and> ix r < length (entries a)")
  case True
  then show ?thesis using ix_inj [of x r]
    by (auto simp: get_def get_mut_def Let_def split: EntryState.splits)
next
  case False
  then show ?thesis by (auto simp: get_def get_mut_def Let_def split: EntryState.splits)
qed

lemma get_mut_inv:
  assumes "arena_inv a" shows "arena_inv (get_mut a r f)"
proof -
  note E = get_mut_entries [of _ a r f]
  have fs: "free_set (entries (get_mut a r f)) = free_set (entries a)"
    using E by (auto simp: free_set_def)
  obtain fl where fl: "distinct fl" "set fl = free_set (entries a)" "free_chain (entries a) (free_head a) fl"
    using assms by (auto simp: arena_inv_def)
  have "free_chain (entries (get_mut a r f)) (free_head (get_mut a r f)) fl"
    using fl free_chain_update [of "ix r" fl "entries a"]
    by (auto simp: get_mut_def Let_def free_set_def is_free_slot_def split: EntryState.split)
  then have "\<exists>fl. distinct fl \<and> set fl = free_set (entries (get_mut a r f))
      \<and> free_chain (entries (get_mut a r f)) (free_head (get_mut a r f)) fl"
    using fl fs by auto
  then show ?thesis using assms E fs unfolding arena_inv_def by simp
qed

section \<open>Flagging userdata\<close>

text \<open>Heaps that differ only in which userdata are flagged as finalized.\<close>

definition unfinal :: "heap \<Rightarrow> GcRef \<Rightarrow> userdata option" where
  "unfinal h r = map_option (\<lambda>ud. ud\<lparr>ud_finalized := False\<rparr>) (get (h_userdata h) r)"

definition flagged :: "GcRef \<Rightarrow> heap \<Rightarrow> heap" where
  "flagged r h = h\<lparr>h_userdata := get_mut (h_userdata h) r (\<lambda>ud. ud\<lparr>ud_finalized := True\<rparr>)\<rparr>"

lemma userdata_weak_mode: "check_weak_mode (h\<lparr>h_userdata := u\<rparr>) = check_weak_mode h"
proof -
  have "find_interned_string n (h\<lparr>h_userdata := u\<rparr>) = find_interned_string n h" for n
    by (simp add: find_interned_string_def cong: option.case_cong)
  then show ?thesis by (simp add: check_weak_mode_def fun_eq_iff cong: option.case_cong Val.case_cong)
qed

lemma flagged_heap [simp]:
  "h_string_arena (flagged r h) = h_string_arena h" "h_tables (flagged r h) = h_tables h"
  "h_closures (flagged r h) = h_closures h" "h_upvalues (flagged r h) = h_upvalues h"
  "h_threads (flagged r h) = h_threads h" "h_gc (flagged r h) = h_gc h" "h_white (flagged r h) = h_white h"
  "check_weak_mode (flagged r h) = check_weak_mode h" "is_weak (flagged r h) = is_weak h"
  by (simp_all add: flagged_def userdata_weak_mode is_weak_def [abs_def] cong: option.case_cong)

lemma flagged_obj [simp]:
  "ocolor (flagged r h) = ocolor h" "ofrozen (flagged r h) = ofrozen h" "olive (flagged r h) = olive h"
proof -
  show "ocolor (flagged r h) = ocolor h"
  proof
    fix ob show "ocolor (flagged r h) ob = ocolor h ob" by (cases ob) (simp_all add: flagged_def)
  qed
  show "olive (flagged r h) = olive h"
  proof
    fix ob show "olive (flagged r h) ob = olive h ob" by (cases ob) (simp_all add: flagged_def get_mut_get)
  qed
  have "oflags (flagged r h) ob = oflags h ob" for ob by (cases ob) (simp_all add: flagged_def)
  then show "ofrozen (flagged r h) = ofrozen h" by (simp add: ofrozen_def fun_eq_iff)
qed

lemma flagged_omark [simp]: "omark (flagged r h) ob = omark h ob"
  by (simp add: omark_def del: omark_simps)

lemma flagged_ok: "heap_ok h \<Longrightarrow> heap_ok (flagged r h)"
  by (simp add: heap_ok_def) (simp add: flagged_def get_mut_inv)

lemma flagged_children [simp]: "ochildren (flagged r h) ob = ochildren h ob"
proof (cases ob)
  case (OUd x)
  have "(case get (h_userdata (flagged r h)) x of None \<Rightarrow> [] | Some u \<Rightarrow> userdata_children u)
      = (case get (h_userdata h) x of None \<Rightarrow> [] | Some u \<Rightarrow> userdata_children u)"
    by (cases "get (h_userdata h) x"; cases "x = r") (simp_all add: flagged_def get_mut_get userdata_children_def)
  then show ?thesis using OUd by (simp add: ochildren_def)
next
  case (OTab x)
  have "table_children (flagged r h) = table_children h" by (simp add: table_children_def fun_eq_iff)
  then show ?thesis using OTab by (simp add: ochildren_def cong: option.case_cong if_cong)
qed (simp_all add: ochildren_def)

lemma tri_flagged: "tri R E G h \<Longrightarrow> tri R E G (flagged r h)"
  unfolding tri_def closed_def listed_def by (simp add: flagged_ok)


section \<open>What the phase leaves as it was\<close>

text \<open>The objects and flags of a heap, whatever the colours and the finalization flags.\<close>

definition content :: "heap \<Rightarrow> _" where
  "content h = ((get (h_string_arena h), get (h_tables h), get (h_closures h)),
     (get (h_upvalues h), unfinal h, get (h_threads h)), (oflags h, ochildren h, gc_root_objs h), h_strings h)"

definition settled :: "heap \<Rightarrow> heap \<Rightarrow> bool" where
  "settled h h' \<longleftrightarrow> content h' = content h \<and> h_white h' = h_white h \<and> olive h' = olive h \<and> is_weak h' = is_weak h
     \<and> (\<forall>x. omark h' x \<longrightarrow> omark h x) \<and> (\<forall>x c. ocolor h' x = Some c \<longrightarrow> is_white c \<longrightarrow> ocolor h x = Some c)"

lemma settled_refl: "settled h h"
  by (simp add: settled_def)

lemma settled_trans: "settled a b \<Longrightarrow> settled b c \<Longrightarrow> settled a c"
  unfolding settled_def by metis

lemma settled_shape:
  assumes "heap_ok h" "heap_ok h'" "same_shape h h'" "darker h h'"
  shows "settled h h'"
proof -
  have "ochildren h' = ochildren h" using ochildren_shape [OF assms(1-3)] by (simp add: fun_eq_iff)
  moreover have "gc_root_objs h' = gc_root_objs h" using gc_root_objs_shape [OF assms(3)] by simp
  moreover have "is_weak h' = is_weak h" using is_weak_shape [OF assms(1-3)] by (simp add: fun_eq_iff)
  moreover have "h_white h' = h_white h" "h_strings h' = h_strings h" using assms(3) by (simp_all add: same_shape_def)
  ultimately show ?thesis using same_shape_get [OF assms(3)] same_shape_flags [OF assms(3)] assms(4)
    unfolding settled_def content_def unfinal_def darker_def by simp
qed

lemma keeps_settled: "heap_ok h \<Longrightarrow> keeps R h h' \<Longrightarrow> settled h h'"
  using settled_shape [of h h'] triD(1) [of R "{}" "{}" h'] unfolding keeps_def by blast

lemma unfinal_flagged: "unfinal (flagged r h) = unfinal h"
  by (auto simp: unfinal_def flagged_def get_mut_get fun_eq_iff option.map_comp comp_def)

lemma settled_flagged: "settled h (flagged r h)"
proof -
  have "oflags (flagged r h) = oflags h"
  proof
    fix ob show "oflags (flagged r h) ob = oflags h ob" by (cases ob) (simp_all add: flagged_def)
  qed
  then show ?thesis
    by (simp add: settled_def content_def unfinal_flagged fun_eq_iff gc_root_objs_def) (simp add: flagged_def)
qed

section \<open>The userdata to finalize\<close>

lemma finalize_mark_eq:
  "finalize_mark r h = set_gc (\<lambda>g. g\<lparr>tmudata := r # tmudata g\<rparr>) (set_ocolor (OUd r) Gray (flagged r h))"
  by (simp add: finalize_mark_def flagged_def color_userdata_def set_ocolor.simps)

lemma tri_tmu: "tri R E G h \<Longrightarrow> tri R E G (set_gc (\<lambda>g. g\<lparr>tmudata := f (tmudata g)\<rparr>) h)"
  unfolding tri_def closed_def listed_def set_gc_def by simp

lemma settled_gc: "heap_ok h' \<Longrightarrow> settled h (set_gc f h') = settled h h'"
proof -
  assume ok: "heap_ok h'"
  have fl: "oflags (set_gc f h') = oflags h'"
  proof
    fix ob show "oflags (set_gc f h') ob = oflags h' ob" by (cases ob) (simp_all add: set_gc_def)
  qed
  have "olive (set_gc f h') = olive h'" "ochildren (set_gc f h') = ochildren h'" "unfinal (set_gc f h') = unfinal h'"
    using ok by (simp_all add: set_gc_def fun_eq_iff unfinal_def)
  with fl show ?thesis unfolding settled_def content_def by (simp add: set_gc_def gc_root_objs_def del: omark_simps)
qed

lemma finalize_mark_tri:
  assumes t: "tri R E G h" and r: "OUd r \<in> R"
  shows "tri R E (insert (OUd r) G) (finalize_mark r h)" "settled h (finalize_mark r h)"
    "tmudata (h_gc (finalize_mark r h)) = r # tmudata (h_gc h)"
    "\<lbrakk>gray (h_gc h) = []\<rbrakk> \<Longrightarrow> gray (h_gc (finalize_mark r h)) = []"
proof -
  let ?h1 = "flagged r h" and ?h2 = "set_ocolor (OUd r) Gray (flagged r h)"
  have t1: "tri R E G ?h1" by (rule tri_flagged [OF t])
  have t2: "tri R E (insert (OUd r) G) ?h2" by (rule regray [OF t1 r]) simp
  then show "tri R E (insert (OUd r) G) (finalize_mark r h)" unfolding finalize_mark_eq by (rule tri_tmu)
  have "settled ?h1 ?h2"
    by (rule settled_shape [OF triD(1) [OF t1] triD(1) [OF t2] set_ocolor_shape
          set_ocolor_darker [OF triD(1) [OF t1]]]) simp_all
  then show "settled h (finalize_mark r h)"
    using settled_trans [OF settled_flagged] settled_gc [OF triD(1) [OF t2]] unfolding finalize_mark_eq by blast
qed (simp_all add: finalize_mark_eq set_gc_def)

lemma finalize_marks_tri:
  "tri R E G h \<Longrightarrow> OUd ` set rs \<subseteq> R \<Longrightarrow> gray (h_gc h) = [] \<Longrightarrow> h' = fold finalize_mark rs h \<Longrightarrow>
   tri R E (OUd ` set rs \<union> G) h' \<and> settled h h' \<and> tmudata (h_gc h') = rev rs @ tmudata (h_gc h) \<and> gray (h_gc h') = []"
proof (induction rs arbitrary: h G)
  case Nil
  then show ?case by (simp add: settled_refl)
next
  case (Cons r rs)
  note F = finalize_mark_tri [OF Cons.prems(1), of r]
  have "tri R E (OUd ` set rs \<union> insert (OUd r) G) h' \<and> settled (finalize_mark r h) h'
      \<and> tmudata (h_gc h') = rev rs @ tmudata (h_gc (finalize_mark r h)) \<and> gray (h_gc h') = []"
    by (rule Cons.IH) (use F Cons.prems in simp_all)
  then show ?case using F Cons.prems settled_trans [of h "finalize_mark r h"] by simp
qed

lemma mkm_subset: "mkm R h h' os \<Longrightarrow> set os' \<subseteq> set os \<Longrightarrow> mkm R h h' os'"
  by (auto simp: mkm_def)

text \<open>A userdata and what it refers to.\<close>

definition ud_objs :: "heap \<Rightarrow> GcRef \<Rightarrow> obj set" where
  "ud_objs h r = (case get (h_userdata h) r of None \<Rightarrow> {} | Some ud \<Rightarrow> insert (OUd r) (set (userdata_children ud)))"

lemma ud_objs_unfinal:
  assumes "unfinal h = unfinal h'" shows "ud_objs h r = ud_objs h' r"
proof -
  have u: "userdata_children (ud\<lparr>ud_finalized := b\<rparr>) = userdata_children ud" for ud b
    by (simp add: userdata_children_def)
  have "ud_objs h r = (case unfinal h r of None \<Rightarrow> {} | Some ud \<Rightarrow> insert (OUd r) (set (userdata_children ud)))" for h
    by (cases "get (h_userdata h) r") (simp_all add: ud_objs_def unfinal_def u)
  then show ?thesis using assms by simp
qed

lemma mark_tmu_visited:
  assumes t: "tri R E G h"
    and sub: "ud_objs h r \<subseteq> R"
  shows "tri R (E - {OUd r}) (G - {OUd r}) (mark_tmu r h) \<and> same_shape h (mark_tmu r h) \<and> darker h (mark_tmu r h)
     \<and> (\<forall>ob \<in> ud_objs h r. \<not> omark (mark_tmu r h) ob)"
proof (cases "get (h_userdata h) r")
  case None
  then have "\<not> olive h (OUd r)" by simp
  then have "ocolor h (OUd r) = None" "\<not> omark h (OUd r)"
    using ocolor_live [OF triD(1) [OF t]] omark_live [OF triD(1) [OF t]] by blast+
  moreover have "tri R (E - {OUd r}) (G - {OUd r}) h" using calculation t unfolding tri_def by auto
  ultimately show ?thesis using None by (simp add: mark_tmu_def ud_objs_def)
next
  case (Some ud)
  let ?h0 = "set_ocolor (OUd r) Black h"
  have e: "mark_tmu r h = mark_opt mark_value (ud_secret_value ud) (mark_opt mark_table (ud_env ud)
      (mark_opt mark_table (ud_metatable ud) ?h0))"
    using Some by (simp add: mark_tmu_def color_userdata_def set_ocolor.simps)
  note S0 = set_ocolor_children [OF triD(1,2) [OF t], of "OUd r" Black]
  have M: "marks (\<lambda>h. mark_opt mark_value (ud_secret_value ud) (mark_opt mark_table (ud_env ud)
      (mark_opt mark_table (ud_metatable ud) h))) ((opt_list OTab (ud_metatable ud) @ opt_list OTab (ud_env ud))
      @ (case ud_secret_value ud of None \<Rightarrow> [] | Some v \<Rightarrow> val_obj v))"
    by (intro marks_comp marks_opt_table marks_opt_value)
  have m0: "mkm R ?h0 (mark_tmu r h) (userdata_children ud)"
    using mkm_marks [OF M S0(1,2)] sub Some unfolding e by (simp add: userdata_children_def ud_objs_def)
  moreover have "set (ochildren h (OUd r)) \<subseteq> set (userdata_children ud)"
    using Some by (simp add: ochildren_def)
  ultimately have m: "mkm R ?h0 (mark_tmu r h) (ochildren h (OUd r))" by (rule mkm_subset)
  have v: "visited R h (mark_tmu r h) (OUd r)"
    by (rule visited_intro [OF triD(1,2) [OF t] _ m]) (use sub Some in \<open>simp add: ud_objs_def\<close>)
  have "\<not> omark ?h0 (OUd r)" using set_ocolor_omark [OF triD(1) [OF t], of Black "OUd r" "OUd r"] by simp
  then have "\<not> omark (mark_tmu r h) (OUd r)" using m0 mkD(3) [of "{}" R ?h0 "mark_tmu r h"] unfolding mkm_def by blast
  then have "\<forall>ob \<in> ud_objs h r. \<not> omark (mark_tmu r h) ob"
    using m0 Some unfolding mkm_def ud_objs_def by (simp del: omark_simps)
  moreover have "tri R E (insert (OUd r) G) h" by (rule tri_mono [OF t]) auto
  ultimately show ?thesis using v unfolding visited_def by blast
qed

definition held :: "obj set \<Rightarrow> heap \<Rightarrow> GcRef set \<Rightarrow> bool" where
  "held R h rs \<longleftrightarrow> (\<forall>r \<in> rs. ud_objs h r \<subseteq> R)"

lemma mark_tmus_visited:
  "tri R {} G h \<Longrightarrow> held R h (set rs) \<Longrightarrow>
   tri R {} (G - OUd ` set rs) (fold mark_tmu rs h) \<and> same_shape h (fold mark_tmu rs h) \<and> darker h (fold mark_tmu rs h)
     \<and> (\<forall>r \<in> set rs. \<forall>ob \<in> ud_objs h r. \<not> omark (fold mark_tmu rs h) ob)"
proof (induction rs arbitrary: h G)
  case (Cons r rs)
  let ?h1 = "mark_tmu r h" and ?h2 = "fold mark_tmu rs (mark_tmu r h)"
  have V: "tri R ({} - {OUd r}) (G - {OUd r}) ?h1 \<and> same_shape h ?h1 \<and> darker h ?h1
      \<and> (\<forall>ob \<in> ud_objs h r. \<not> omark ?h1 ob)"
    by (rule mark_tmu_visited [OF Cons.prems(1)]) (use Cons.prems(2) in \<open>auto simp: held_def\<close>)
  then have "get (h_userdata ?h1) = get (h_userdata h)" using same_shape_get(5) by metis
  then have u: "ud_objs ?h1 = ud_objs h" by (simp add: ud_objs_def fun_eq_iff)
  then have W: "tri R {} (G - {OUd r} - OUd ` set rs) ?h2 \<and> same_shape ?h1 ?h2 \<and> darker ?h1 ?h2
      \<and> (\<forall>r \<in> set rs. \<forall>ob \<in> ud_objs ?h1 r. \<not> omark ?h2 ob)"
    using V Cons.prems(2) by (intro Cons.IH) (auto simp: held_def)
  moreover have "\<forall>ob \<in> ud_objs h r. \<not> omark ?h2 ob" using V W unfolding darker_def by blast
  ultimately show ?case using V same_shape_trans [of h ?h1] darker_trans [of h ?h1] unfolding u
    by (simp add: Diff_insert2 [symmetric] insert_commute del: omark_simps)
qed simp

lemma arena_items_get:
  assumes inv: "arena_inv a"
  shows "(r, v, c) \<in> set (arena_items a) \<longleftrightarrow> get a r = Some v \<and> color a r = Some c"
proof
  assume "(r, v, c) \<in> set (arena_items a)"
  then obtain i where i: "i < length (entries a)" "byte_to_color (colors a ! i) = Some c"
    "estate (entries a ! i) = Occupied v" "r = GcRef (word_of_nat i) (egen (entries a ! i))"
    by (auto simp: arena_items_def List.map_filter_def split: option.splits EntryState.splits)
  have "ix r = i" using i(1,4) arena_inv_lengths(3) [OF inv] by (simp add: unat_of_small)
  then show "get a r = Some v \<and> color a r = Some c" using i by (simp add: get_def color_def)
next
  assume g: "get a r = Some v \<and> color a r = Some c"
  then have i: "ix r < length (entries a)" "egen (entries a ! ix r) = ref_gen r"
    "estate (entries a ! ix r) = Occupied v" "byte_to_color (colors a ! ix r) = Some c"
    by (auto simp: get_def color_def Let_def split: if_splits EntryState.splits)
  moreover have "GcRef (word_of_nat (ix r)) (ref_gen r) = r" by (cases r) simp
  ultimately show "(r, v, c) \<in> set (arena_items a)"
    by (auto simp: arena_items_def List.map_filter_def intro!: image_eqI [of _ _ "ix r"])
qed

text \<open>Userdata whose finalizer is still to run, or is queued.\<close>

definition due :: "heap \<Rightarrow> GcRef set" where
  "due h = {r. \<exists>ud mt. get (h_userdata h) r = Some ud \<and> \<not> ud_finalized ud \<and> ud_metatable ud = Some mt
     \<and> has_gc_metamethod h mt} \<union> set (tmudata (h_gc h))"

lemma has_gc_shape:
  assumes "heap_ok h" "heap_ok h'" "same_shape h h'"
  shows "has_gc_metamethod h mt = has_gc_metamethod h' mt"
proof -
  have l: "lookup_str t r (h_string_arena h) = lookup_str t r (h_string_arena h')" for t r
    using assms(3) by (intro lookup_str_shape) (simp add: same_shape_def)
  show ?thesis unfolding has_gc_metamethod_def find_interned_shape [OF assms] same_shape_get [OF assms(3)] l ..
qed

lemma to_finalize_iff:
  assumes "heap_ok h"
  shows "r \<in> set (to_finalize h) \<longleftrightarrow> (\<exists>ud mt. get (h_userdata h) r = Some ud \<and> ocolor h (OUd r) = Some (h_white h)
     \<and> \<not> ud_finalized ud \<and> ud_metatable ud = Some mt \<and> has_gc_metamethod h mt)"
proof -
  have inv: "arena_inv (h_userdata h)" using assms by (simp add: heap_ok_def)
  have "r \<in> set (to_finalize h) \<longleftrightarrow> (\<exists>ud c. (r, ud, c) \<in> set (arena_items (h_userdata h)) \<and> c = h_white h
      \<and> \<not> ud_finalized ud \<and> (case ud_metatable ud of None \<Rightarrow> False | Some mt \<Rightarrow> has_gc_metamethod h mt))"
    by (force simp: to_finalize_def)
  then show ?thesis by (auto simp: arena_items_get [OF inv] split: option.splits)
qed

section \<open>Everything reachable is dark\<close>

inductive_set traced :: "heap \<Rightarrow> obj set \<Rightarrow> obj set" for h S where
  reach_root: "ob \<in> S \<Longrightarrow> ob \<in> traced h S"
| reach_child: "ob \<in> traced h S \<Longrightarrow> c \<in> set (ochildren h ob) \<Longrightarrow> c \<in> traced h S"

lemma ochildren_dead: "\<not> olive h ob \<Longrightarrow> ochildren h ob = []"
  by (cases ob) (simp_all add: ochildren_def)

lemma dark_child:
  assumes t: "tri R {} {} h" and g: "gray (h_gc h) = []" and ob: "\<not> omark h ob" and c: "c \<in> set (ochildren h ob)"
  shows "\<not> omark h c"
proof -
  have live: "olive h ob" using c ochildren_dead by force
  have fr: "\<not> ofrozen h ob" using c by (auto simp: ochildren_def)
  obtain col where col: "ocolor h ob = Some col" using live ocolor_live [OF triD(1) [OF t]] by (cases "ocolor h ob") auto
  have "\<not> is_white col" using ob col fr by (simp add: omark_def del: omark_simps)
  moreover have "col \<noteq> Gray" using triD(6) [OF t, of ob] col g by auto
  ultimately have "col = Black" by (cases col) auto
  then show ?thesis using triD(5) [OF t] col c by blast
qed

lemma dark_reach:
  assumes "tri R {} {} h" "gray (h_gc h) = []" "\<forall>ob \<in> S. \<not> omark h ob" "ob \<in> traced h S"
  shows "\<not> omark h ob"
  using assms(4) by induction (use assms dark_child in blast)+

lemma reach_closed:
  assumes "closed h R" "S \<subseteq> R" "ob \<in> traced h S" shows "ob \<in> R"
  using assms(3) by induction (use assms(1,2) in \<open>auto simp: closed_def\<close>)


section \<open>Marking ends\<close>

text \<open>The atomic phase up to the flip of the whites.\<close>

definition marked_heap :: "heap \<Rightarrow> heap" where
  "marked_heap h = fst (propagate_all (mark_tmudata (fst (separate_userdata (atomic_mark h)))))"

lemma marked_heap_tri:
  assumes t: "tri R {} (list_objs (grayagain (h_gc h))) h" and due: "held R h (due h)"
  shows "tri R {} {} (marked_heap h)" "gray (h_gc (marked_heap h)) = []" "settled h (marked_heap h)"
    "r \<in> set (tmudata (h_gc (marked_heap h))) \<Longrightarrow> ob \<in> ud_objs h r \<Longrightarrow> \<not> omark (marked_heap h) ob"
    "tmudata (h_gc (marked_heap h)) = rev (sort_key (\<lambda>r. unat (ud_seq (atomic_mark h) r)) (to_finalize (atomic_mark h)))
      @ tmudata (h_gc h)"
proof -
  let ?h1 = "atomic_mark h"
  note K = keeps_atomic_mark [OF t]
  have ok: "heap_ok h" by (rule triD(1) [OF t])
  have t1: "tri R {} {} ?h1" and sh1: "same_shape h ?h1" and d1: "darker h ?h1" using K(1) by (simp_all add: keeps_def)
  have ok1: "heap_ok ?h1" by (rule triD(1) [OF t1])
  have "gc_core ?h1 = gc_core h" using d1 unfolding darker_def by blast
  then have tm1: "tmudata (h_gc ?h1) = tmudata (h_gc h)"
    unfolding gc_core_def by (drule_tac arg_cong [where f = tmudata]) simp
  let ?rs = "sort_key (\<lambda>r. unat (ud_seq ?h1 r)) (to_finalize ?h1)"
  let ?h2 = "fold finalize_mark ?rs ?h1"
  have rs_due: "set ?rs \<subseteq> due h"
    using to_finalize_iff [OF ok1] has_gc_shape [OF ok ok1 sh1] same_shape_get(5) [OF sh1] by (auto simp: due_def)
  have rs_R: "OUd ` set ?rs \<subseteq> R"
  proof (intro subsetI, elim imageE)
    fix x r assume "r \<in> set ?rs" "x = OUd r"
    then show "x \<in> R" using to_finalize_iff [OF ok1, of r] same_shape_get(5) [OF sh1] due rs_due
      unfolding held_def ud_objs_def by fastforce
  qed
  have F: "tri R {} (OUd ` set ?rs \<union> {}) ?h2 \<and> settled ?h1 ?h2 \<and> tmudata (h_gc ?h2) = rev ?rs @ tmudata (h_gc ?h1)
      \<and> gray (h_gc ?h2) = []"
    by (rule finalize_marks_tri [OF t1 rs_R K(2) refl])
  let ?ts = "tmudata (h_gc ?h2)"
  have ts_due: "set ?ts \<subseteq> due h" using F rs_due tm1 by (auto simp: due_def)
  have u: "unfinal ?h2 = unfinal h"
    using F settled_trans [OF keeps_settled [OF ok K(1)]] unfolding settled_def content_def by auto
  have ud: "ud_objs ?h2 = ud_objs h" using ud_objs_unfinal [OF u] by blast
  have "held R ?h2 (set ?ts)" using due ts_due unfolding held_def ud by blast
  then have H: "held R ?h2 (set (rev ?ts))" by simp
  let ?h3 = "fold mark_tmu (rev ?ts) ?h2"
  have t2: "tri R {} (OUd ` set ?rs) ?h2" using F by simp
  have W: "tri R {} (OUd ` set ?rs - OUd ` set (rev ?ts)) ?h3 \<and> same_shape ?h2 ?h3 \<and> darker ?h2 ?h3
      \<and> (\<forall>r \<in> set (rev ?ts). \<forall>ob \<in> ud_objs ?h2 r. \<not> omark ?h3 ob)"
    by (rule mark_tmus_visited [OF t2 H])
  have z: "OUd ` set ?rs - OUd ` set (rev ?ts) = {}" using F by auto
  have t3: "tri R {} {} ?h3" using conjunct1 [OF W] unfolding z .
  have e: "marked_heap h = fst (propagate_all ?h3)"
    by (simp add: marked_heap_def separate_userdata_def Let_def mark_tmudata_def)
  note P = keeps_propagate_all [OF t3]
  show "tri R {} {} (marked_heap h)" "gray (h_gc (marked_heap h)) = []" using P by (simp_all add: e keeps_def)
  have s3: "settled ?h2 ?h3" using settled_shape [OF triD(1) [OF t2] triD(1) [OF t3]] W by blast
  show "settled h (marked_heap h)"
    unfolding e using settled_trans [OF settled_trans [OF keeps_settled [OF ok K(1)]] settled_trans [OF s3
        keeps_settled [OF triD(1) [OF t3] P(1)]]] F by blast
  have "gc_core (marked_heap h) = gc_core ?h2" using P(1) W unfolding e keeps_def darker_def by simp
  then have tm: "tmudata (h_gc (marked_heap h)) = ?ts"
    unfolding gc_core_def by (drule_tac arg_cong [where f = tmudata]) simp
  show "\<not> omark (marked_heap h) ob" if "r \<in> set (tmudata (h_gc (marked_heap h)))" "ob \<in> ud_objs h r"
  proof -
    from that(1) tm have "r \<in> set (rev ?ts)" by (simp only: set_rev)
    then have "\<not> omark ?h3 ob" using W that(2) unfolding ud by blast
    then show ?thesis using keeps_unmarked [OF P(1)] unfolding e by blast
  qed
  show "tmudata (h_gc (marked_heap h)) = rev ?rs @ tmudata (h_gc h)" using tm F tm1 by simp
qed


section \<open>The flip and the weak tables\<close>

lemma fold_set_color:
  "arena_inv a \<Longrightarrow> a' = fold (\<lambda>s a. fst (set_color a s w)) ss a \<Longrightarrow>
   arena_inv a' \<and> shape a' = shape a \<and> (\<forall>r. color a' r = (if r \<in> set ss \<and> get a r \<noteq> None then Some w else color a r))"
proof (induction ss arbitrary: a)
  case (Cons x ss)
  let ?a1 = "fst (set_color a x w)"
  have inv: "arena_inv ?a1" by (rule set_color_inv(1) [OF Cons.prems(1)])
  have g: "get ?a1 = get a" by (rule update_ops_get(1))
  have "arena_inv a' \<and> shape a' = shape ?a1 \<and> (\<forall>r. color a' r = (if r \<in> set ss \<and> get ?a1 r \<noteq> None then Some w else color ?a1 r))"
    by (rule Cons.IH [OF inv]) (use Cons.prems in simp)
  then show ?case using color_set_color [OF Cons.prems(1), of x w] g by auto
qed simp

definition weak_strings :: "heap \<Rightarrow> GcRef list \<Rightarrow> GcRef set" where
  "weak_strings h rs = {s. \<exists>r \<in> set rs. \<exists>t. get (h_tables h) r = Some t \<and> s \<in> set (weak_table_strings t)}"

definition only_strings :: "heap \<Rightarrow> heap \<Rightarrow> bool" where
  "only_strings h h' \<longleftrightarrow> h' = h\<lparr>h_string_arena := h_string_arena h'\<rparr> \<and> shape (h_string_arena h') = shape (h_string_arena h)
     \<and> arena_inv (h_string_arena h')"

lemma keep_weak_strings_fold:
  "arena_inv (h_string_arena h) \<Longrightarrow> h' = fold keep_weak_strings rs h \<Longrightarrow>
   only_strings h h' \<and> (\<forall>r. color (h_string_arena h') r = (if r \<in> weak_strings h rs \<and> get (h_string_arena h) r \<noteq> None
      then Some (h_white h) else color (h_string_arena h) r))"
proof (induction rs arbitrary: h)
  case Nil
  then show ?case by (simp add: only_strings_def weak_strings_def)
next
  case (Cons x rs)
  let ?h1 = "keep_weak_strings x h"
  let ?ss = "case get (h_tables h) x of None \<Rightarrow> [] | Some t \<Rightarrow> weak_table_strings t"
  have e: "?h1 = h\<lparr>h_string_arena := fold (\<lambda>s a. fst (set_color a s (h_white h))) ?ss (h_string_arena h)\<rparr>"
    by (simp add: keep_weak_strings_def split: option.split)
  have F: "arena_inv (h_string_arena ?h1) \<and> shape (h_string_arena ?h1) = shape (h_string_arena h)
      \<and> (\<forall>r. color (h_string_arena ?h1) r = (if r \<in> set ?ss \<and> get (h_string_arena h) r \<noteq> None then Some (h_white h)
          else color (h_string_arena h) r))"
    by (rule fold_set_color [OF Cons.prems(1)]) (simp add: e)
  have IH: "only_strings ?h1 h' \<and> (\<forall>r. color (h_string_arena h') r = (if r \<in> weak_strings ?h1 rs
      \<and> get (h_string_arena ?h1) r \<noteq> None then Some (h_white ?h1) else color (h_string_arena ?h1) r))"
    by (rule Cons.IH) (use F Cons.prems in simp_all)
  have t1: "h_tables ?h1 = h_tables h" "h_white ?h1 = h_white h" by (simp_all add: e)
  have g1: "get (h_string_arena ?h1) = get (h_string_arena h)" using F shape_eqD(5) by blast
  have ws: "weak_strings h (x # rs) = set ?ss \<union> weak_strings ?h1 rs"
    unfolding weak_strings_def t1 by (auto split: option.split)
  have "h' = ?h1\<lparr>h_string_arena := h_string_arena h'\<rparr>" using IH unfolding only_strings_def by blast
  also have "\<dots> = h\<lparr>h_string_arena := h_string_arena h'\<rparr>" by (subst e) simp
  finally have "only_strings h h'" using IH F unfolding only_strings_def by (intro conjI) auto
  then show ?case using IH F unfolding ws t1 g1 by auto
qed

definition only_tables :: "heap \<Rightarrow> heap \<Rightarrow> GcRef set \<Rightarrow> bool" where
  "only_tables h h' rs \<longleftrightarrow> h' = h\<lparr>h_tables := h_tables h'\<rparr> \<and> arena_inv (h_tables h')
     \<and> color (h_tables h') = color (h_tables h) \<and> flags (h_tables h') = flags (h_tables h)
     \<and> (\<forall>r. r \<notin> rs \<longrightarrow> get (h_tables h') r = get (h_tables h) r)
     \<and> (\<forall>r. get (h_tables h') r = None \<longleftrightarrow> get (h_tables h) r = None)"

lemma clear_weak_table_only:
  assumes "arena_inv (h_tables h)" shows "only_tables h (clear_weak_table r h) {r}"
proof -
  have "only_tables h h {r}" using assms by (simp add: only_tables_def)
  moreover have "only_tables h (h\<lparr>h_tables := get_mut (h_tables h) r f\<rparr>) {r}" for f
    using assms by (simp add: only_tables_def get_mut_inv get_mut_get)
  ultimately show ?thesis by (simp add: clear_weak_table_def split: option.split prod.split)
qed

lemma clear_weak_table_fold:
  "arena_inv (h_tables h) \<Longrightarrow> h' = fold clear_weak_table rs h \<Longrightarrow> only_tables h h' (set rs)"
proof (induction rs arbitrary: h)
  case Nil
  then show ?case by (simp add: only_tables_def)
next
  case (Cons x rs)
  let ?h1 = "clear_weak_table x h"
  have A: "only_tables h ?h1 {x}" by (rule clear_weak_table_only [OF Cons.prems(1)])
  have B: "only_tables ?h1 h' (set rs)"
    by (rule Cons.IH) (use A Cons.prems(2) in \<open>simp_all add: only_tables_def\<close>)
  have e: "?h1 = h\<lparr>h_tables := h_tables ?h1\<rparr>" using A unfolding only_tables_def by blast
  have "h' = ?h1\<lparr>h_tables := h_tables h'\<rparr>" using B unfolding only_tables_def by blast
  also have "\<dots> = h\<lparr>h_tables := h_tables h'\<rparr>" by (subst e) simp
  finally show ?case using A B unfolding only_tables_def by auto
qed


text \<open>What the sweeps find: \<open>weak_strings\<close> are kept, everything else has the colour marking gave it.\<close>

definition kept_strings :: "heap \<Rightarrow> obj set" where
  "kept_strings h = OStr ` weak_strings (marked_heap h) (weak_tables (h_gc (marked_heap h)))"

lemma atomic_heap:
  assumes t: "tri R {} (list_objs (grayagain (h_gc h))) h" and due: "held R h (due h)"
  shows "heap_ok (atomic h)" "h_white (atomic h) = other_white (h_white h)"
    "gc_phase (h_gc (atomic h)) = SweepString" "gc_cursor (h_gc (atomic h)) = \<lparr>arena_index = 0, slot_position = 0\<rparr>"
    "tmudata (h_gc (atomic h)) = tmudata (h_gc (marked_heap h))"
    "oflags (atomic h) = oflags h" "olive (atomic h) = olive h"
    "ocolor (atomic h) ob = (if ob \<in> kept_strings h \<and> olive h ob then Some (other_white (h_white h)) else ocolor (marked_heap h) ob)"
    "get (h_string_arena (atomic h)) = get (h_string_arena h)" "get (h_closures (atomic h)) = get (h_closures h)"
    "get (h_upvalues (atomic h)) = get (h_upvalues h)" "unfinal (atomic h) = unfinal h"
    "get (h_threads (atomic h)) = get (h_threads h)" "h_strings (atomic h) = h_strings h"
    "\<not> is_weak h r \<Longrightarrow> get (h_tables (atomic h)) r = get (h_tables h) r"
proof -
  let ?m = "marked_heap h"
  let ?w = "other_white (h_white h)"
  let ?rs = "weak_tables (h_gc ?m)"
  note M = marked_heap_tri [OF t due]
  have okm: "heap_ok ?m" by (rule triD(1) [OF M(1)])
  have hw: "h_white ?m = h_white h" using M(3) by (simp add: settled_def)
  let ?h1 = "set_gc (\<lambda>g. g\<lparr>weak_tables := []\<rparr>) (?m\<lparr>h_white := ?w\<rparr>)"
  let ?h2 = "fold keep_weak_strings ?rs ?h1"
  let ?h3 = "fold clear_weak_table ?rs ?h2"
  have t1: "h_tables ?h1 = h_tables ?m" "h_string_arena ?h1 = h_string_arena ?m" "h_white ?h1 = ?w"
    "h_closures ?h1 = h_closures ?m" "h_upvalues ?h1 = h_upvalues ?m" "h_userdata ?h1 = h_userdata ?m"
    "h_threads ?h1 = h_threads ?m" "h_strings ?h1 = h_strings ?m" by (simp_all add: set_gc_def)
  have S: "only_strings ?h1 ?h2 \<and> (\<forall>r. color (h_string_arena ?h2) r = (if r \<in> weak_strings ?h1 ?rs
      \<and> get (h_string_arena ?h1) r \<noteq> None then Some (h_white ?h1) else color (h_string_arena ?h1) r))"
    by (rule keep_weak_strings_fold) (use okm t1 in \<open>simp_all add: heap_ok_def\<close>)
  define a2 where "a2 = h_string_arena ?h2"
  have e2: "?h2 = ?h1\<lparr>h_string_arena := a2\<rparr>" using S unfolding only_strings_def a2_def by blast
  have T: "only_tables ?h2 ?h3 (set ?rs)"
    by (rule clear_weak_table_fold) (use okm in \<open>simp_all add: e2 t1 heap_ok_def\<close>)
  define a3 where "a3 = h_tables ?h3"
  have e3: "?h3 = ?h2\<lparr>h_tables := a3\<rparr>" using T unfolding only_tables_def a3_def by blast
  have e: "\<exists>f. atomic h = set_gc f (?h1\<lparr>h_string_arena := a2, h_tables := a3\<rparr>) \<and> (\<forall>g. gc_phase (f g) = SweepString
      \<and> gc_cursor (f g) = \<lparr>arena_index = 0, slot_position = 0\<rparr> \<and> tmudata (f g) = tmudata g)"
  proof -
    let ?f = "\<lambda>g. g\<lparr>gc_estimate := total_bytes g - snd (separate_userdata (atomic_mark h)),
       gc_cursor := \<lparr>arena_index = 0, slot_position = 0\<rparr>, gc_phase := SweepString\<rparr>"
    have "atomic h = set_gc ?f ?h3"
      by (simp add: atomic_def marked_heap_def clear_weak_tables_def Let_def split_beta set_gc_def hw [unfolded marked_heap_def])
    then show ?thesis using e2 e3 by (intro exI [of _ ?f]) simp
  qed
  then obtain f where f: "atomic h = set_gc f (?h1\<lparr>h_string_arena := a2, h_tables := a3\<rparr>)"
    "\<forall>g. gc_phase (f g) = SweepString \<and> gc_cursor (f g) = \<lparr>arena_index = 0, slot_position = 0\<rparr> \<and> tmudata (f g) = tmudata g"
    by blast
  have g: "h_tables (atomic h) = a3" "h_string_arena (atomic h) = a2" "h_white (atomic h) = ?w"
    "h_closures (atomic h) = h_closures ?m" "h_upvalues (atomic h) = h_upvalues ?m"
    "h_userdata (atomic h) = h_userdata ?m" "h_threads (atomic h) = h_threads ?m" "h_strings (atomic h) = h_strings ?m"
    using t1 by (simp_all add: f(1)) (simp_all add: set_gc_def)
  have ws: "weak_strings ?h1 ?rs = weak_strings ?m ?rs" by (simp add: weak_strings_def t1)
  have a2: "arena_inv a2" "shape a2 = shape (h_string_arena ?m)"
    using conjunct1 [OF S] unfolding only_strings_def a2_def t1 by blast+
  have a2c: "color a2 r = (if r \<in> weak_strings ?m ?rs \<and> get (h_string_arena ?m) r \<noteq> None then Some ?w else color (h_string_arena ?m) r)" for r
    using conjunct2 [OF S] unfolding a2_def [symmetric] ws t1 by blast
  have a3: "arena_inv a3" "color a3 = color (h_tables ?m)" "flags a3 = flags (h_tables ?m)"
    "r \<notin> set ?rs \<Longrightarrow> get a3 r = get (h_tables ?m) r" "get a3 r = None \<longleftrightarrow> get (h_tables ?m) r = None" for r
    using T t1 unfolding only_tables_def a3_def e2 by simp_all
  have c: "content ?m = content h" "olive ?m = olive h" "is_weak ?m = is_weak h" using M(3) by (simp_all add: settled_def)
  show "heap_ok (atomic h)" using okm a2(1) a3(1) g by (simp add: heap_ok_def)
  show "h_white (atomic h) = ?w" by (rule g(3))
  show "gc_phase (h_gc (atomic h)) = SweepString" "gc_cursor (h_gc (atomic h)) = \<lparr>arena_index = 0, slot_position = 0\<rparr>"
    "tmudata (h_gc (atomic h)) = tmudata (h_gc ?m)" using f by (simp_all add: set_gc_def)
  have fl: "oflags (atomic h) ob = oflags ?m ob" for ob
    by (cases ob) (simp_all add: g a3(3) shape_eqD(2) [OF a2(2)])
  then show "oflags (atomic h) = oflags h" using c(1) by (simp add: content_def fun_eq_iff)
  have ol: "olive (atomic h) ob = olive ?m ob" for ob
    by (cases ob) (simp_all add: g a3(5) shape_eqD(5) [OF a2(2)])
  then show "olive (atomic h) = olive h" using c(2) by (simp add: fun_eq_iff)
  have "olive h (OStr r) = (get (h_string_arena ?m) r \<noteq> None)" for r unfolding c(2) [symmetric] by simp
  then show "ocolor (atomic h) ob = (if ob \<in> kept_strings h \<and> olive h ob then Some ?w else ocolor ?m ob)"
    by (cases ob) (auto simp: g a2c a3(2) kept_strings_def)
  have u: "unfinal (atomic h) = unfinal ?m" by (simp add: fun_eq_iff unfinal_def g)
  show "get (h_string_arena (atomic h)) = get (h_string_arena h)" "get (h_closures (atomic h)) = get (h_closures h)"
    "get (h_upvalues (atomic h)) = get (h_upvalues h)" "unfinal (atomic h) = unfinal h"
    "get (h_threads (atomic h)) = get (h_threads h)" "h_strings (atomic h) = h_strings h"
    using c(1) shape_eqD(5) [OF a2(2)] by (simp_all add: g content_def u)
  show "get (h_tables (atomic h)) r = get (h_tables h) r" if "\<not> is_weak h r"
  proof -
    have "r \<notin> set ?rs" using that triD(10) [OF M(1)] c(3) by auto
    then show ?thesis using a3(4) [of r] c(1) by (simp add: g content_def)
  qed
qed

end
