(* ===== verification/GcSweep.thy ===== *)
theory GcSweep
  imports GcAtomic
begin

text \<open>
  The sweep phases as steps: bounded batches through the string arena and the five others, in order, end with
  every arena fully swept, the intern table cleaned and the finalizers next.
\<close>

section \<open>One batch\<close>

definition prefix_swept :: "Color \<Rightarrow> 'a arena \<Rightarrow> nat \<Rightarrow> 'a arena" where
  "prefix_swept w a p = fst (fold (sweep_slot (other_white w) w) [0..<p] (a, 0))"

lemma prefix_swept_length [simp]: "length (entries (prefix_swept w a p)) = length (entries a)"
  by (simp add: prefix_swept_def)

lemma prefix_swept_0 [simp]: "prefix_swept w a 0 = a"
  by (simp add: prefix_swept_def)

lemma prefix_swept_all: "prefix_swept w a (length (entries a)) = fst (sweep a (other_white w) w)"
  by (simp add: prefix_swept_def sweep_def)

lemma sweep_batch_prefix:
  assumes len: "length (entries a) < 2 ^ 32" and p: "p \<le> length (entries a)"
  obtains q f where "p \<le> q" "q \<le> length (entries a)" "p < length (entries a) \<longrightarrow> p < q"
    "sweep_batch (prefix_swept w a p) w (word_of_nat p) =
      (prefix_swept w a q, f, word_of_nat q, q = length (entries a))"
proof -
  let ?b = "prefix_swept w a p"
  let ?sw = "sweep_slot (other_white w) w"
  have up: "unat (word_of_nat p :: u32) = p" using len p by (simp add: unat_of_small)
  obtain q a' f where q: "unat (word_of_nat p :: u32) \<le> q" "q \<le> length (entries ?b)"
    "fold ?sw [unat (word_of_nat p :: u32)..<q] (?b, 0) = (a', f)"
    "sweep_partial ?b (other_white w) w (word_of_nat p) GCSWEEPMAX = Some (a', f, word_of_nat q, q = length (entries ?b))"
    "0 < GCSWEEPMAX \<Longrightarrow> unat (word_of_nat p :: u32) < length (entries ?b) \<Longrightarrow> unat (word_of_nat p :: u32) < q"
    by (rule sweep_partial_step [where a = ?b and pos = "word_of_nat p" and dead = "other_white w" and new = w and mx = GCSWEEPMAX])
      (use len p up in simp_all)
  obtain b n where b: "fold ?sw [0..<p] (a, 0) = (b, n)" by fastforce
  then have "?b = b" by (simp add: prefix_swept_def)
  have "[0..<q] = [0..<p] @ [p..<q]" using q(1) up by (metis le_add_diff_inverse upt_add_eq_append zero_le)
  then have "prefix_swept w a q = fst (fold ?sw [p..<q] (b, 0 + n))" using b by (simp add: prefix_swept_def)
  also have "\<dots> = a'" unfolding sweep_count_shift using q(3) up \<open>?b = b\<close> by simp
  finally have "prefix_swept w a q = a'" .
  moreover have "0 < GCSWEEPMAX" by (simp add: GCSWEEPMAX_def)
  ultimately show thesis using that [of q f] q up by (simp add: sweep_batch_def)
qed

section \<open>The state of a sweep\<close>

definition arena_len :: "heap \<Rightarrow> nat \<Rightarrow> nat" where
  "arena_len h j = [length (entries (h_string_arena h)), length (entries (h_tables h)), length (entries (h_closures h)),
     length (entries (h_upvalues h)), length (entries (h_userdata h)), length (entries (h_threads h))] ! j"

text \<open>Every arena swept up to its own mark.\<close>

definition part_swept :: "heap \<Rightarrow> (nat \<Rightarrow> nat) \<Rightarrow> heap" where
  "part_swept h f = h\<lparr>h_string_arena := prefix_swept (h_white h) (h_string_arena h) (f 0),
     h_tables := prefix_swept (h_white h) (h_tables h) (f 1), h_closures := prefix_swept (h_white h) (h_closures h) (f 2),
     h_upvalues := prefix_swept (h_white h) (h_upvalues h) (f 3),
     h_userdata := prefix_swept (h_white h) (h_userdata h) (f 4),
     h_threads := prefix_swept (h_white h) (h_threads h) (f 5)\<rparr>"

definition marks_at :: "heap \<Rightarrow> nat \<Rightarrow> nat \<Rightarrow> nat \<Rightarrow> nat" where
  "marks_at h i p j = (if j < i then arena_len h j else if j = i then p else 0)"

lemma marks_at_next: "marks_at h i (arena_len h i) = marks_at h (Suc i) 0"
  by (auto simp: marks_at_def fun_eq_iff less_Suc_eq)

text \<open>Arena \<open>i\<close> is swept up to \<open>p\<close>, those before it fully, those after it not at all.\<close>

definition sweeping :: "heap \<Rightarrow> nat \<Rightarrow> nat \<Rightarrow> heap \<Rightarrow> bool" where
  "sweeping h0 i p h \<longleftrightarrow> h = (part_swept h0 (marks_at h0 i p))\<lparr>h_gc := h_gc h, h_strings := h_strings h\<rparr>
     \<and> p \<le> arena_len h0 i \<and> i \<le> 5
     \<and> h_strings h = (if i = 0 then h_strings h0
          else sweep_dead (h_strings h0) (prefix_swept (h_white h0) (h_string_arena h0) (arena_len h0 0)))
     \<and> gc_phase (h_gc h) = (if i = 0 then SweepString else Sweep)
     \<and> gc_cursor (h_gc h) = \<lparr>arena_index = i - 1, slot_position = word_of_nat p\<rparr>
     \<and> tmudata (h_gc h) = tmudata (h_gc h0)"

definition swept_heap :: "heap \<Rightarrow> heap \<Rightarrow> bool" where
  "swept_heap h0 h \<longleftrightarrow> h = (part_swept h0 (arena_len h0))\<lparr>h_gc := h_gc h, h_strings := h_strings h\<rparr>
     \<and> h_strings h = sweep_dead (h_strings h0) (fst (sweep (h_string_arena h0) (other_white (h_white h0)) (h_white h0)))
     \<and> gc_phase (h_gc h) = Finalize \<and> tmudata (h_gc h) = tmudata (h_gc h0)"

lemma sweeping_arena:
  assumes "sweeping h0 i p h"
  shows "h_string_arena h = prefix_swept (h_white h0) (h_string_arena h0) (marks_at h0 i p 0)"
    "h_tables h = prefix_swept (h_white h0) (h_tables h0) (marks_at h0 i p 1)"
    "h_closures h = prefix_swept (h_white h0) (h_closures h0) (marks_at h0 i p 2)"
    "h_upvalues h = prefix_swept (h_white h0) (h_upvalues h0) (marks_at h0 i p 3)"
    "h_userdata h = prefix_swept (h_white h0) (h_userdata h0) (marks_at h0 i p 4)"
    "h_threads h = prefix_swept (h_white h0) (h_threads h0) (marks_at h0 i p 5)" "h_white h = h_white h0"
proof -
  have e: "h = (part_swept h0 (marks_at h0 i p))\<lparr>h_gc := h_gc h, h_strings := h_strings h\<rparr>"
    using assms unfolding sweeping_def by blast
  show "h_string_arena h = prefix_swept (h_white h0) (h_string_arena h0) (marks_at h0 i p 0)"
    "h_tables h = prefix_swept (h_white h0) (h_tables h0) (marks_at h0 i p 1)"
    "h_closures h = prefix_swept (h_white h0) (h_closures h0) (marks_at h0 i p 2)"
    "h_upvalues h = prefix_swept (h_white h0) (h_upvalues h0) (marks_at h0 i p 3)"
    "h_userdata h = prefix_swept (h_white h0) (h_userdata h0) (marks_at h0 i p 4)"
    "h_threads h = prefix_swept (h_white h0) (h_threads h0) (marks_at h0 i p 5)" "h_white h = h_white h0"
    by (subst e, simp add: part_swept_def)+
qed


definition at_marks :: "heap \<Rightarrow> nat \<Rightarrow> nat \<Rightarrow> heap \<Rightarrow> heap" where
  "at_marks h0 i p h = (part_swept h0 (marks_at h0 i p))\<lparr>h_gc := h_gc h, h_strings := h_strings h\<rparr>"

lemma sweepingD:
  assumes "sweeping h0 i p h"
  shows "h = at_marks h0 i p h" "p \<le> arena_len h0 i" "i \<le> 5" "gc_phase (h_gc h) = (if i = 0 then SweepString else Sweep)"
    "gc_cursor (h_gc h) = \<lparr>arena_index = i - 1, slot_position = word_of_nat p\<rparr>" "tmudata (h_gc h) = tmudata (h_gc h0)"
    "h_strings h = (if i = 0 then h_strings h0
          else sweep_dead (h_strings h0) (prefix_swept (h_white h0) (h_string_arena h0) (arena_len h0 0)))"
  using assms unfolding sweeping_def at_marks_def by blast+

lemma arena_len_small:
  assumes "heap_ok h" "i \<le> 5" shows "arena_len h i < 2 ^ 32"
proof -
  have "i \<in> {0, 1, 2, 3, 4, 5}" using assms(2) by auto
  then show ?thesis using assms(1) by (auto simp: heap_ok_def arena_len_def arena_inv_lengths(3) [simplified])
qed

lemma marks_at_simps [simp]: "marks_at h i p i = p"
  by (simp add: marks_at_def)

text \<open>A batch on arena \<open>i\<close> moves its mark.\<close>

lemma sweep_strings_batch:
  assumes ok: "heap_ok h0" and sw: "sweeping h0 0 p h"
  obtains q f where "p \<le> q" "q \<le> arena_len h0 0" "p < arena_len h0 0 \<longrightarrow> p < q"
    "sweep_batch (h_string_arena h) (h_white h) (slot_position (gc_cursor (h_gc h)))
      = (prefix_swept (h_white h0) (h_string_arena h0) q, f, word_of_nat q, q = arena_len h0 0)"
proof -
  note D = sweepingD [OF sw] and A = sweeping_arena [OF sw]
  have "p \<le> length (entries (h_string_arena h0))" "length (entries (h_string_arena h0)) < 2 ^ 32"
    using D(2) arena_len_small [OF ok, of 0] by (simp_all add: arena_len_def)
  from sweep_batch_prefix [OF this(2,1), of "h_white h0"] obtain q f where "p \<le> q" "q \<le> length (entries (h_string_arena h0))"
    "p < length (entries (h_string_arena h0)) \<longrightarrow> p < q"
    "sweep_batch (prefix_swept (h_white h0) (h_string_arena h0) p) (h_white h0) (word_of_nat p) =
      (prefix_swept (h_white h0) (h_string_arena h0) q, f, word_of_nat q, q = length (entries (h_string_arena h0)))" by metis
  then show thesis using that [of q f] A D(5) by (simp add: arena_len_def)
qed

text \<open>What one batch of another arena gives, whichever arena it is.\<close>

definition batch_ok :: "heap \<Rightarrow> nat \<Rightarrow> nat \<Rightarrow> heap \<Rightarrow> bool" where
  "batch_ok h0 j p h \<longleftrightarrow> (\<exists>q f est. p \<le> q \<and> q \<le> arena_len h0 (Suc j) \<and> (p < arena_len h0 (Suc j) \<longrightarrow> p < q)
     \<and> sweep_arena j h = (at_marks h0 (Suc j) q h, f, est, word_of_nat q, q = arena_len h0 (Suc j)))"

lemma batch_okI:
  assumes "arena_len h0 (Suc j) = length (entries a)" "length (entries a) < 2 ^ 32" "p \<le> length (entries a)"
    and e: "\<And>a' f p' d. sweep_batch (prefix_swept (h_white h0) a p) (h_white h0) (word_of_nat p) = (a', f, p', d) \<Longrightarrow>
      sweep_arena j h = (upd a' h, f, est, p', d)"
    and u: "\<And>q. upd (prefix_swept (h_white h0) a q) h = at_marks h0 (Suc j) q h"
  shows "batch_ok h0 j p h"
proof -
  obtain q f where "p \<le> q" "q \<le> length (entries a)" "p < length (entries a) \<longrightarrow> p < q"
    "sweep_batch (prefix_swept (h_white h0) a p) (h_white h0) (word_of_nat p) =
      (prefix_swept (h_white h0) a q, f, word_of_nat q, q = length (entries a))"
    using sweep_batch_prefix [OF assms(2,3), of "h_white h0"] by metis
  then show ?thesis using e u assms(1) unfolding batch_ok_def by (intro exI [of _ q] exI [of _ f] exI [of _ est]) simp
qed

lemma sweep_arena_batch:
  assumes ok: "heap_ok h0" and sw: "sweeping h0 (Suc j) p h"
  shows "batch_ok h0 j p h"
proof -
  note D = sweepingD [OF sw] and A = sweeping_arena [OF sw]
  have small: "arena_len h0 (Suc j) < 2 ^ 32" using arena_len_small [OF ok D(3)] .
  have e: "h = (part_swept h0 (marks_at h0 (Suc j) p))\<lparr>h_gc := h_gc h, h_strings := h_strings h\<rparr>"
    using D(1) by (simp add: at_marks_def)
  have c: "slot_position (gc_cursor (h_gc h)) = word_of_nat p" using D(5) by simp
  note S = small D(2) c A and at = arena_len_def sweep_arena_def marks_at_def at_marks_def
  consider "j = 0" | "j = 1" | "j = 2" | "j = 3" | "j = 4" using D(3) by linarith
  then show ?thesis
  proof cases
    case 1
    then show ?thesis
      by (intro batch_okI [where a = "h_tables h0" and upd = "\<lambda>a h. h\<lparr>h_tables := a\<rparr>" and est = EST_TABLE_SIZE])
        (use S in \<open>simp_all add: at\<close>, subst e, simp add: part_swept_def marks_at_def)
  next
    case 2
    then show ?thesis
      by (intro batch_okI [where a = "h_closures h0" and upd = "\<lambda>a h. h\<lparr>h_closures := a\<rparr>" and est = EST_CLOSURE_SIZE])
        (use S in \<open>simp_all add: at\<close>, subst e, simp add: part_swept_def marks_at_def)
  next
    case 3
    then show ?thesis
      by (intro batch_okI [where a = "h_upvalues h0" and upd = "\<lambda>a h. h\<lparr>h_upvalues := a\<rparr>" and est = EST_UPVALUE_SIZE])
        (use S in \<open>simp_all add: at\<close>, subst e, simp add: part_swept_def marks_at_def)
  next
    case 4
    then show ?thesis
      by (intro batch_okI [where a = "h_userdata h0" and upd = "\<lambda>a h. h\<lparr>h_userdata := a\<rparr>" and est = EST_USERDATA_SIZE])
        (use S in \<open>simp_all add: at\<close>, subst e, simp add: part_swept_def marks_at_def)
  next
    case 5
    then show ?thesis
      by (intro batch_okI [where a = "h_threads h0" and upd = "\<lambda>a h. h\<lparr>h_threads := a\<rparr>" and est = EST_THREAD_SIZE])
        (use S in \<open>simp_all add: at\<close>, subst e, simp add: part_swept_def marks_at_def)
  qed
qed


lemma at_marks_gc [simp]: "set_gc f (at_marks h0 i p h) = at_marks h0 i p (h\<lparr>h_gc := f (h_gc h)\<rparr>)"
  "h_gc (at_marks h0 i p h) = h_gc h" "h_strings (at_marks h0 i p h) = h_strings h"
  by (simp_all add: at_marks_def set_gc_def)

lemma at_marks_idem [simp]: "at_marks h0 i p (at_marks h0 j q h) = at_marks h0 i p h"
  by (simp add: at_marks_def)

lemma at_marks_strings: "(at_marks h0 i p h)\<lparr>h_strings := t\<rparr> = at_marks h0 i p (h\<lparr>h_strings := t\<rparr>)"
  by (simp add: at_marks_def)

lemma account_freed_at: "account_freed f est (at_marks h0 i p h) = at_marks h0 i p (account_freed f est h)"
  by (simp add: account_freed_def set_gc_def at_marks_def)

lemma account_freed_fields [simp]:
  "h_strings (account_freed f est h) = h_strings h" "gc_phase (h_gc (account_freed f est h)) = gc_phase (h_gc h)"
  "gc_cursor (h_gc (account_freed f est h)) = gc_cursor (h_gc h)" "tmudata (h_gc (account_freed f est h)) = tmudata (h_gc h)"
  by (simp_all add: account_freed_def set_gc_def)

lemma at_marks_finished: "at_marks h0 i (arena_len h0 i) h = at_marks h0 (Suc i) 0 h"
  by (simp add: at_marks_def marks_at_next)

definition progress :: "heap \<Rightarrow> nat \<Rightarrow> nat \<Rightarrow> heap \<Rightarrow> bool" where
  "progress h0 i p h' \<longleftrightarrow> (\<exists>q > p. sweeping h0 i q h') \<or> (i < 5 \<and> sweeping h0 (Suc i) 0 h') \<or> (i = 5 \<and> swept_heap h0 h')"

lemma sweep_strings_progress:
  assumes ok: "heap_ok h0" and sw: "sweeping h0 0 p h"
  shows "progress h0 0 p (fst (sweep_strings_step h))"
proof -
  note D = sweepingD [OF sw]
  obtain q f where q: "p \<le> q" "q \<le> arena_len h0 0" "p < arena_len h0 0 \<longrightarrow> p < q"
    "sweep_batch (h_string_arena h) (h_white h) (slot_position (gc_cursor (h_gc h)))
      = (prefix_swept (h_white h0) (h_string_arena h0) q, f, word_of_nat q, q = arena_len h0 0)"
    using sweep_strings_batch [OF ok sw] by metis
  have "h\<lparr>h_string_arena := prefix_swept (h_white h0) (h_string_arena h0) x\<rparr> = at_marks h0 0 x h" for x
    by (subst D(1)) (simp add: at_marks_def part_swept_def marks_at_def)
  then have e: "fst (sweep_strings_step h) = (let h1 = at_marks h0 0 q (account_freed f EST_STRING_SIZE h) in
      if q = arena_len h0 0 then set_gc (\<lambda>g. g\<lparr>gc_phase := Sweep, gc_cursor := \<lparr>arena_index = 0, slot_position = 0\<rparr>\<rparr>)
             (h1\<lparr>h_strings := sweep_dead (h_strings h1) (h_string_arena h1)\<rparr>)
      else set_gc (\<lambda>g. g\<lparr>gc_cursor := (gc_cursor g)\<lparr>slot_position := word_of_nat q\<rparr>\<rparr>) h1)"
    using q(4) by (simp add: sweep_strings_step_def Let_def account_freed_at)
  have sa: "h_string_arena (at_marks h0 (Suc 0) 0 x) = prefix_swept (h_white h0) (h_string_arena h0) (arena_len h0 0)" for x
    by (simp add: at_marks_def part_swept_def marks_at_def)
  show ?thesis
  proof (cases "q = arena_len h0 0")
    case True
    then have "sweeping h0 (Suc 0) 0 (fst (sweep_strings_step h))"
      unfolding e Let_def sweeping_def at_marks_def [symmetric]
      by (simp add: sa at_marks_strings at_marks_finished D(7,6))
    then show ?thesis by (simp add: progress_def)
  next
    case False
    then have "sweeping h0 0 q (fst (sweep_strings_step h))"
      unfolding e Let_def sweeping_def at_marks_def [symmetric] using q(2) D by simp
    moreover have "p < q" using False q(1-3) by linarith
    ultimately show ?thesis by (auto simp: progress_def)
  qed
qed

lemma sweep_other_progress:
  assumes ok: "heap_ok h0" and sw: "sweeping h0 (Suc j) p h"
  shows "progress h0 (Suc j) p (fst (sweep_other_step h))"
proof -
  note D = sweepingD [OF sw]
  let ?i = "Suc j"
  obtain q f est where q: "p \<le> q" "q \<le> arena_len h0 ?i" "p < arena_len h0 ?i \<longrightarrow> p < q"
    "sweep_arena j h = (at_marks h0 ?i q h, f, est, word_of_nat q, q = arena_len h0 ?i)"
    using sweep_arena_batch [OF ok sw] unfolding batch_ok_def by metis
  have e: "fst (sweep_other_step h) = (let h1 = at_marks h0 ?i q (account_freed f est h) in
      if q = arena_len h0 ?i then
        (if j \<ge> 4 then set_gc (\<lambda>g. g\<lparr>gc_phase := Finalize\<rparr>) h1
         else set_gc (\<lambda>g. g\<lparr>gc_cursor := \<lparr>arena_index = j + 1, slot_position = 0\<rparr>\<rparr>) h1)
      else set_gc (\<lambda>g. g\<lparr>gc_cursor := (gc_cursor g)\<lparr>slot_position := word_of_nat q\<rparr>\<rparr>) h1)"
    using q(4) D(5) by (simp add: sweep_other_step_def Let_def account_freed_at)
  have l0: "prefix_swept (h_white h0) (h_string_arena h0) (arena_len h0 0)
      = fst (sweep (h_string_arena h0) (other_white (h_white h0)) (h_white h0))"
    by (simp add: arena_len_def prefix_swept_all)
  consider (last) "q = arena_len h0 ?i" "j = 4" | (next_arena) "q = arena_len h0 ?i" "j < 4" | (more) "q \<noteq> arena_len h0 ?i"
    using D(3) by linarith
  then show ?thesis
  proof cases
    case last
    have m: "marks_at h0 5 (arena_len h0 5) = marks_at h0 6 0" using marks_at_next [of h0 5] by simp
    have "part_swept h0 (marks_at h0 6 0) = part_swept h0 (arena_len h0)"
      by (simp add: part_swept_def marks_at_def)
    then have "swept_heap h0 (fst (sweep_other_step h))"
      unfolding e Let_def swept_heap_def using last D by (simp add: at_marks_def set_gc_def m l0)
    then show ?thesis using last by (simp add: progress_def)
  next
    case next_arena
    then have "sweeping h0 (Suc ?i) 0 (fst (sweep_other_step h))"
      unfolding e Let_def sweeping_def at_marks_def [symmetric] using D by (simp add: at_marks_finished)
    then show ?thesis using next_arena by (simp add: progress_def)
  next
    case more
    then have "sweeping h0 ?i q (fst (sweep_other_step h))"
      unfolding e Let_def sweeping_def at_marks_def [symmetric] using q(2) D by simp
    moreover have "p < q" using more q(1-3) by linarith
    ultimately show ?thesis by (auto simp: progress_def)
  qed
qed

lemma sweep_progress:
  assumes ok: "heap_ok h0" and sw: "sweeping h0 i p (l_heap s)"
  obtains h' where "fst (gc_singlestep call s) = s\<lparr>l_heap := h'\<rparr>" "progress h0 i p h'"
proof (cases i)
  case 0
  have "fst (gc_singlestep call s) = s\<lparr>l_heap := fst (sweep_strings_step (l_heap s))\<rparr>"
    using sweepingD(4) [OF sw] 0 by (simp add: gc_singlestep_def split: prod.split)
  then show ?thesis using that sweep_strings_progress [OF ok] sw 0 by blast
next
  case (Suc j)
  have "fst (gc_singlestep call s) = s\<lparr>l_heap := fst (sweep_other_step (l_heap s))\<rparr>"
    using sweepingD(4) [OF sw] Suc by (simp add: gc_singlestep_def split: prod.split)
  then show ?thesis using that sweep_other_progress [OF ok] sw Suc by blast
qed

text \<open>The sweeps end: a slot is left behind at every step, or an arena.\<close>

lemma sweep_steps:
  assumes ok: "heap_ok h0"
  shows "sweeping h0 i p (l_heap s) \<Longrightarrow> \<exists>n h'. gc_steps n call s = s\<lparr>l_heap := h'\<rparr> \<and> swept_heap h0 h'"
proof (induction "(5 - i, arena_len h0 i - p)" arbitrary: i p s
    rule: wf_induct_rule [OF wf_lex_prod [OF wf_less_than wf_less_than]])
  case (1 i p s)
  obtain h1 where h1: "fst (gc_singlestep call s) = s\<lparr>l_heap := h1\<rparr>" "progress h0 i p h1"
    using sweep_progress [OF ok 1(2)] by metis
  have more: ?case if "sweeping h0 i' p' h1" "5 - i' < 5 - i \<or> i' = i \<and> arena_len h0 i' - p' < arena_len h0 i - p" for i' p'
  proof -
    have "\<exists>n h'. gc_steps n call (s\<lparr>l_heap := h1\<rparr>) = (s\<lparr>l_heap := h1\<rparr>)\<lparr>l_heap := h'\<rparr> \<and> swept_heap h0 h'"
      by (rule 1(1) [of i' p']) (use that in auto)
    then obtain n h' where "gc_steps n call (s\<lparr>l_heap := h1\<rparr>) = s\<lparr>l_heap := h'\<rparr>" "swept_heap h0 h'" by auto
    then show ?thesis using h1(1) by (intro exI [of _ "Suc n"] exI [of _ h']) simp
  qed
  from h1(2) consider (slot) q where "p < q" "sweeping h0 i q h1" | (arena) "i < 5" "sweeping h0 (Suc i) 0 h1"
    | (swept) "swept_heap h0 h1" unfolding progress_def by blast
  then show ?case
  proof cases
    case slot
    then show ?thesis using more [of i q] sweepingD(2) [OF slot(2)] by auto
  next
    case arena
    then show ?thesis using more [of "Suc i" 0] by auto
  next
    case swept
    then show ?thesis using h1(1) by (intro exI [of _ "Suc 0"] exI [of _ h1]) simp
  qed
qed

end
