(* ===== verification/Reach.thy ===== *)
theory Reach
  imports GcAtomic TableOps
begin

text \<open>
  What the program can reach, told from the fields of the objects and of the interpreter state alone, with no word
  about the collector: which values a table holds strongly given the \<^verbatim>\<open>__mode\<close> of its metatable, what closures,
  upvalues, userdata and coroutines hold, and the roots. On well-formed heaps it is what the collector traces.
\<close>

section \<open>Fields of a metatable\<close>

text \<open>A field of a table under a name: an entry of its hash part whose key is a string with those bytes.\<close>

definition named :: "heap \<Rightarrow> GcRef \<Rightarrow> string \<Rightarrow> bool" where
  "named h k nm \<longleftrightarrow> (\<exists>ls. get (h_string_arena h) k = Some ls \<and> sdata ls = ascii nm)"

definition field :: "heap \<Rightarrow> GcRef \<Rightarrow> string \<Rightarrow> Val \<Rightarrow> bool" where
  "field h r nm v \<longleftrightarrow> v \<noteq> VNil \<and> (\<exists>t n k. get (h_tables h) r = Some t \<and> n \<in> set (nodes t) \<and> nkey n = VStr k
     \<and> named h k nm \<and> nvalue n = v)"

text \<open>The mode of a table has a letter: \<open>k\<close> (107) for weak keys, \<open>v\<close> (118) for weak values.\<close>

definition weak_in :: "heap \<Rightarrow> u8 \<Rightarrow> table \<Rightarrow> bool" where
  "weak_in h c t \<longleftrightarrow> (\<exists>mt s ls. tmeta t = Some mt \<and> field h mt ''__mode'' (VStr s)
     \<and> get (h_string_arena h) s = Some ls \<and> c \<in> set (sdata ls))"

definition has_finalizer :: "heap \<Rightarrow> userdata \<Rightarrow> bool" where
  "has_finalizer h ud \<longleftrightarrow> (\<exists>mt v. ud_metatable ud = Some mt \<and> field h mt ''__gc'' v)"

text \<open>Heaps whose intern table and tables satisfy their invariants.\<close>

definition sound_heap :: "heap \<Rightarrow> bool" where
  "sound_heap h \<longleftrightarrow> st_inv (h_strings h) (h_string_arena h)
     \<and> (\<forall>r t. get (h_tables h) r = Some t \<longrightarrow> table_inv (h_string_arena h) t)"

lemma find_named:
  assumes "sound_heap h"
  shows "find_interned_string (ascii nm) h = Some k \<longleftrightarrow> named h k nm"
proof -
  have inv: "arena_inv (h_string_arena h)" and st: "st_inv (h_strings h) (h_string_arena h)"
    using assms by (auto simp: sound_heap_def st_inv_def)
  let ?P = "\<lambda>tm. case tm of None \<Rightarrow> False | Some r \<Rightarrow>
        (case get (h_string_arena h) r of None \<Rightarrow> False | Some ls \<Rightarrow> sdata ls = ascii nm)"
  let ?Q = "\<lambda>(r, ls, _). sdata ls = ascii nm"
  have unique: "r = k" if "named h r nm" "named h k nm" for r
    using that st_invD(5) [OF st] by (auto simp: named_def)
  have item: "named h r nm" if "(r, ls, c) \<in> set (arena_items (h_string_arena h))" "sdata ls = ascii nm" for r ls c
    using that by (auto simp: named_def arena_items_get [OF inv])
  show ?thesis
  proof (cases "find ?P (h_tm_names h)")
    case (Some tm)
    then obtain r where r: "tm = Some r" "named h r nm"
      by (auto simp: find_Some_iff named_def split: option.splits)
    then show ?thesis using Some unique by (auto simp: find_interned_string_def)
  next
    case None
    then have e: "find_interned_string (ascii nm) h = map_option fst (find ?Q (arena_items (h_string_arena h)))"
      by (simp add: find_interned_string_def)
    show ?thesis
    proof
      assume "find_interned_string (ascii nm) h = Some k"
      then obtain x where "find ?Q (arena_items (h_string_arena h)) = Some x" "fst x = k" unfolding e by auto
      then show "named h k nm" using item by (auto simp: find_Some_iff) (metis nth_mem)
    next
      assume n: "named h k nm"
      then obtain ls c where "(k, ls, c) \<in> set (arena_items (h_string_arena h))" "sdata ls = ascii nm"
        using color_valid [OF inv, of k] by (fastforce simp: named_def arena_items_get [OF inv])
      then have "find ?Q (arena_items (h_string_arena h)) \<noteq> None" by (auto simp: find_None_iff)
      then obtain x where x: "find ?Q (arena_items (h_string_arena h)) = Some x" by blast
      then have "named h (fst x) nm" using item by (auto simp: find_Some_iff) (metis nth_mem)
      then show "find_interned_string (ascii nm) h = Some k" unfolding e x using unique n by simp
    qed
  qed
qed

lemma lookup_entry:
  assumes "table_inv a t"
  shows "lookup_str t k a = v \<and> v \<noteq> VNil \<longleftrightarrow> v \<noteq> VNil \<and> (\<exists>n \<in> set (nodes t). nkey n = VStr k \<and> nvalue n = v)"
proof -
  have l: "lookup_str t k a = hash_lookup (nodes t) (VStr k)"
    using get_str_spec [OF assms, of k] by (simp add: lookup_str_def abs_get_def array_slot_def)
  have e: "val_eq x (VStr k) \<longleftrightarrow> x = VStr k" for x by (cases x) auto
  have "hash_lookup (nodes t) (VStr k) = nvalue n" if n: "n \<in> set (nodes t)" "nkey n = VStr k" for n
  proof -
    obtain i where i: "i < length (nodes t)" "n = nodes t ! i" using n(1) by (auto simp: in_set_conv_nth)
    then show ?thesis using hash_lookup_key [OF table_inv_keys [OF assms] i(1), of "VStr k"] n(2) by (simp add: e)
  qed
  moreover have "\<exists>n \<in> set (nodes t). nkey n = VStr k" if "hash_lookup (nodes t) (VStr k) \<noteq> VNil"
    using that hash_lookup_absent [of "nodes t" "VStr k"] by (auto simp: e)
  ultimately show ?thesis unfolding l by metis
qed

lemma lookup_field:
  assumes "sound_heap h" "get (h_tables h) mt = Some t" "named h k nm"
  shows "lookup_str t k (h_string_arena h) = v \<and> v \<noteq> VNil \<longleftrightarrow> field h mt nm v"
proof -
  have inv: "table_inv (h_string_arena h) t" and st: "st_inv (h_strings h) (h_string_arena h)"
    using assms(1,2) by (auto simp: sound_heap_def)
  have only: "k' = k" if "named h k' nm" for k' using that assms(3) st_invD(5) [OF st] by (auto simp: named_def)
  have "field h mt nm v \<longleftrightarrow> v \<noteq> VNil \<and> (\<exists>n k'. n \<in> set (nodes t) \<and> nkey n = VStr k' \<and> named h k' nm \<and> nvalue n = v)"
    using assms(2) by (simp add: field_def)
  also have "\<dots> \<longleftrightarrow> v \<noteq> VNil \<and> (\<exists>n \<in> set (nodes t). nkey n = VStr k \<and> nvalue n = v)"
    using assms(3) only by blast
  finally show ?thesis unfolding lookup_entry [OF inv] by (rule sym)
qed

lemma weak_mode_in:
  assumes "sound_heap h" shows "check_weak_mode h (tmeta t) = (weak_in h 107 t, weak_in h 118 t)"
proof (cases "Option.bind (tmeta t) (get (h_tables h))")
  case None
  then show ?thesis by (auto simp: check_weak_mode_def weak_in_def field_def)
next
  case (Some m)
  then obtain mt where mt: "tmeta t = Some mt" "get (h_tables h) mt = Some m" by (auto simp: Option.bind_eq_Some_conv)
  show ?thesis
  proof (cases "find_interned_string (ascii ''__mode'') h")
    case None
    then have "\<not> field h mt ''__mode'' v" for v using find_named [OF assms, of "''__mode''"] by (auto simp: field_def)
    then show ?thesis using None mt by (simp add: check_weak_mode_def weak_in_def)
  next
    case (Some k)
    then have k: "named h k ''__mode''" using find_named [OF assms] by blast
    have f: "field h mt ''__mode'' v \<longleftrightarrow> lookup_str m k (h_string_arena h) = v \<and> v \<noteq> VNil" for v
      using lookup_field [OF assms mt(2) k, of v] by blast
    show ?thesis
    proof (cases "lookup_str m k (h_string_arena h)")
      case (VStr x)
      then show ?thesis using Some mt by (auto simp: check_weak_mode_def weak_in_def f split: option.split)
    qed (use Some mt in \<open>simp_all add: check_weak_mode_def weak_in_def f\<close>)
  qed
qed

lemma has_finalizer_gc:
  assumes "sound_heap h"
  shows "has_finalizer h ud \<longleftrightarrow> (case ud_metatable ud of None \<Rightarrow> False | Some mt \<Rightarrow> has_gc_metamethod h mt)"
proof (cases "ud_metatable ud")
  case (Some mt)
  show ?thesis
  proof (cases "find_interned_string (ascii ''__gc'') h")
    case None
    then have "\<not> field h mt ''__gc'' v" for v using find_named [OF assms, of "''__gc''"] by (auto simp: field_def)
    then show ?thesis using None Some by (simp add: has_finalizer_def has_gc_metamethod_def)
  next
    case k: (Some k)
    then have n: "named h k ''__gc''" using find_named [OF assms] by blast
    show ?thesis
    proof (cases "get (h_tables h) mt")
      case None
      then show ?thesis using k Some by (simp add: has_finalizer_def has_gc_metamethod_def field_def)
    next
      case m: (Some m)
      have "field h mt ''__gc'' = (\<lambda>v. lookup_str m k (h_string_arena h) = v \<and> v \<noteq> VNil)"
        by (rule ext, rule lookup_field [OF assms m n, symmetric])
      then show ?thesis using k Some m by (simp add: has_finalizer_def has_gc_metamethod_def)
    qed
  qed
qed (simp add: has_finalizer_def)

section \<open>References\<close>

primrec points :: "Val \<Rightarrow> obj \<Rightarrow> bool" where
  "points v (OStr r) \<longleftrightarrow> v = VStr r" | "points v (OTab r) \<longleftrightarrow> v = VTable r" | "points v (OClo r) \<longleftrightarrow> v = VFunction r"
| "points v (OUpv r) \<longleftrightarrow> False" | "points v (OUd r) \<longleftrightarrow> v = VUserdata r" | "points v (OThr r) \<longleftrightarrow> v = VThread r"

text \<open>The constants of a prototype and of all those nested in it.\<close>

inductive constant_of :: "Proto \<Rightarrow> Val \<Rightarrow> bool" where
  own_constant: "v \<in> set (pr_constants p) \<Longrightarrow> constant_of p v"
| nested_constant: "q \<in> set (pr_protos p) \<Longrightarrow> constant_of q v \<Longrightarrow> constant_of p v"

text \<open>
  A table holds the values of its array part, unless its values are weak, and of each entry whose value is not nil the
  key and the value, each unless it is weak. References out of a frozen object (bit 0 of its flags) do not count: a
  freeze has flagged what they lead to, strings and coroutines apart; nor do those out of a table that the host has
  marked not to be traversed (bit 2), whose content the host keeps.
\<close>

definition holds_strongly :: "heap \<Rightarrow> table \<Rightarrow> Val \<Rightarrow> bool" where
  "holds_strongly h t v \<longleftrightarrow> (\<not> weak_in h 118 t \<and> v \<in> set (arr t))
     \<or> (\<exists>n \<in> set (nodes t). nkey n \<noteq> VNil \<and> nvalue n \<noteq> VNil
          \<and> ((v = nkey n \<and> \<not> weak_in h 107 t) \<or> (v = nvalue n \<and> \<not> weak_in h 118 t)))"

definition userdata_refers :: "userdata \<Rightarrow> obj \<Rightarrow> bool" where
  "userdata_refers u c \<longleftrightarrow> (\<exists>r. c = OTab r \<and> (ud_metatable u = Some r \<or> ud_env u = Some r))
     \<or> (\<exists>v. ud_secret_value u = Some v \<and> points v c)"

primrec refers :: "heap \<Rightarrow> obj \<Rightarrow> obj \<Rightarrow> bool" where
  "refers h (OStr r) c \<longleftrightarrow> False"
| "refers h (OTab r) c \<longleftrightarrow> \<not> bit (oflags h (OTab r)) 0 \<and> \<not> bit (oflags h (OTab r)) 2 \<and> (\<exists>t. get (h_tables h) r = Some t
     \<and> ((\<exists>m. tmeta t = Some m \<and> c = OTab m) \<or> (\<exists>v. holds_strongly h t v \<and> points v c)))"
| "refers h (OClo r) c \<longleftrightarrow> \<not> bit (oflags h (OClo r)) 0 \<and>
     ((\<exists>l. get (h_closures h) r = Some (LuaC l) \<and> (c = OTab (lc_env l) \<or> (\<exists>u \<in> set (lc_upvalues l). c = OUpv u)
          \<or> (\<exists>v. constant_of (lc_proto l) v \<and> points v c)))
      \<or> (\<exists>n. get (h_closures h) r = Some (RustC n) \<and> ((\<exists>e. rc_env n = Some e \<and> c = OTab e) \<or> (\<exists>v \<in> set (rc_upvalues n). points v c))))"
| "refers h (OUpv r) c \<longleftrightarrow> \<not> bit (oflags h (OUpv r)) 0 \<and> (\<exists>u v. get (h_upvalues h) r = Some u \<and> uv_state u = Closed v \<and> points v c)"
| "refers h (OUd r) c \<longleftrightarrow> \<not> bit (oflags h (OUd r)) 0 \<and> (\<exists>u. get (h_userdata h) r = Some u \<and> userdata_refers u c)"
| "refers h (OThr r) c \<longleftrightarrow> \<not> bit (oflags h (OThr r)) 0 \<and> (\<exists>t. get (h_threads h) r = Some t
     \<and> (c = OTab (th_global t) \<or> points (hook_func (th_hook t)) c
        \<or> (\<exists>i. i < th_top t \<and> i < length (th_stack t) \<and> points (th_stack t ! i) c)
        \<or> (\<exists>u. c = OUpv u \<and> (u \<in> set (th_open_upvalues t) \<or> u \<in> fst ` set (th_suspended_upvals t)))))"

inductive_set reachable :: "heap \<Rightarrow> obj set \<Rightarrow> obj set" for h S where
  reachable_root: "ob \<in> S \<Longrightarrow> ob \<in> reachable h S"
| reachable_step: "ob \<in> reachable h S \<Longrightarrow> refers h ob c \<Longrightarrow> c \<in> reachable h S"

text \<open>The enumerations the collector's invariants use agree with these.\<close>

lemma flag_bits:
  "w AND flag_mask Frozen \<noteq> 0 \<longleftrightarrow> bit w 0" "w AND flag_mask SkipTraverse \<noteq> 0 \<longleftrightarrow> bit w 2"
  "w AND FLAG_PINNED \<noteq> 0 \<longleftrightarrow> bit w 1" "w AND FLAG_FROZEN \<noteq> 0 \<longleftrightarrow> bit w 0"
  using and_exp_eq_0_iff_not_bit [of w 0] and_exp_eq_0_iff_not_bit [of w 1] and_exp_eq_0_iff_not_bit [of w 2]
  by (simp_all add: FLAG_FROZEN_def FLAG_SKIP_TRAVERSE_def FLAG_PINNED_def push_bit_eq_mult)

lemma points_val: "c \<in> set (val_obj v) \<longleftrightarrow> points v c"
  by (cases c; cases v) (auto simp: val_obj_def)

lemma points_vals: "c \<in> set (vals_objs vs) \<longleftrightarrow> (\<exists>v \<in> set vs. points v c)"
  by (simp add: vals_objs_def points_val)

lemma points_managed: "points v c \<Longrightarrow> is_gc_managed v"
  by (cases c) (simp_all add: is_gc_managed_def)

lemma taken_points: "(\<exists>v \<in> set (take n xs). points v c) \<longleftrightarrow> (\<exists>i. i < n \<and> i < length xs \<and> points (xs ! i) c)"
proof -
  have "(\<exists>v \<in> set (take n xs). points v c) \<longleftrightarrow> (\<exists>i < length (take n xs). points (take n xs ! i) c)"
    by (metis in_set_conv_nth)
  then show ?thesis by (metis length_take min_less_iff_conj nth_take)
qed

lemma opt_list_mem: "c \<in> set (opt_list f x) \<longleftrightarrow> (\<exists>y. x = Some y \<and> c = f y)"
  by (cases x) (auto simp: opt_list_def)

lemma constants_set: "set (proto_constants p) = {v. constant_of p v}"
proof (induction p)
  case (Proto code ks ps li lv un src ss ld ll nu np va mx sp gs)
  let ?p = "Proto code ks ps li lv un src ss ld ll nu np va mx sp gs"
  have "constant_of ?p v \<longleftrightarrow> v \<in> set ks \<or> (\<exists>q \<in> set ps. constant_of q v)" for v
    by (subst constant_of.simps) auto
  then show ?case using Proto.IH by auto
qed

lemma table_children_set:
  assumes "sound_heap h"
  shows "c \<in> set (table_children h t) \<longleftrightarrow> (\<exists>m. tmeta t = Some m \<and> c = OTab m) \<or> (\<exists>v. holds_strongly h t v \<and> points v c)"
proof -
  have n: "(\<exists>v \<in> set (node_mark_values k w n). points v c) \<longleftrightarrow> nkey n \<noteq> VNil \<and> nvalue n \<noteq> VNil
      \<and> (points (nkey n) c \<and> \<not> k \<or> points (nvalue n) c \<and> \<not> w)" for k w n
    using points_managed [of "nkey n" c] points_managed [of "nvalue n" c] by (auto simp: node_mark_values_def)
  have "(\<exists>v \<in> set (collect_table_array_mark_values t). points v c) \<longleftrightarrow> (\<exists>v \<in> set (arr t). points v c)"
    using points_managed by (auto simp: collect_table_array_mark_values_def)
  moreover have "(\<exists>v \<in> set (collect_table_hash_mark_values t k w). points v c)
      \<longleftrightarrow> (\<exists>n \<in> set (nodes t). \<exists>v \<in> set (node_mark_values k w n). points v c)" for k w
    by (auto simp: collect_table_hash_mark_values_def)
  moreover have "(\<exists>v. holds_strongly h t v \<and> points v c) \<longleftrightarrow> \<not> weak_in h 118 t \<and> (\<exists>v \<in> set (arr t). points v c)
      \<or> (\<exists>n \<in> set (nodes t). nkey n \<noteq> VNil \<and> nvalue n \<noteq> VNil
           \<and> (points (nkey n) c \<and> \<not> weak_in h 107 t \<or> points (nvalue n) c \<and> \<not> weak_in h 118 t))"
    unfolding holds_strongly_def by blast
  ultimately show ?thesis
    unfolding table_children_def weak_mode_in [OF assms] by (auto simp: points_vals opt_list_mem n)
qed

lemma skip_bits:
  assumes "arena_inv a" "get a r = Some t"
  shows "is_skip_traverse_or_frozen a r \<longleftrightarrow> bit (flags a ! ix r) 2 \<or> bit (flags a ! ix r) 0"
proof -
  have "occupied_index a r = Some (ix r)" using occupied_index_valid [OF assms(1), of r] assms(2) by (simp add: is_valid_def)
  then show ?thesis
    using flag_bits(1,2) [of "flags a ! ix r"]
    by (auto simp: is_skip_traverse_or_frozen_def has_any_flag_mask_def bit.conj_disj_distrib or_eq_0_iff)
qed

lemma refers_children:
  assumes "heap_ok h" "sound_heap h" shows "refers h ob c \<longleftrightarrow> c \<in> set (ochildren h ob)"
proof (cases ob)
  case (OTab r)
  have "arena_inv (h_tables h)" using assms(1) by (simp add: heap_ok_def)
  then show ?thesis
    using OTab skip_bits [of "h_tables h" r]
    by (cases "get (h_tables h) r") (simp_all add: ochildren_def ofrozen_def flag_bits table_children_set [OF assms(2)])
next
  case (OClo r)
  consider "get (h_closures h) r = None" | l where "get (h_closures h) r = Some (LuaC l)" | n where "get (h_closures h) r = Some (RustC n)"
    by (metis Closure.exhaust option.exhaust)
  then show ?thesis using OClo
    by cases (auto simp: ochildren_def ofrozen_def flag_bits closure_children_def points_vals opt_list_mem constants_set)
next
  case (OUpv r)
  then show ?thesis
    by (cases "get (h_upvalues h) r"; cases "uv_state (the (get (h_upvalues h) r))")
      (auto simp: ochildren_def ofrozen_def flag_bits upvalue_children_def points_val)
next
  case (OUd r)
  then show ?thesis
    by (cases "get (h_userdata h) r"; cases "ud_secret_value (the (get (h_userdata h) r))")
      (auto simp: ochildren_def ofrozen_def flag_bits userdata_children_def userdata_refers_def points_val opt_list_mem)
next
  case (OThr r)
  have "(\<exists>v \<in> set (thread_stack_values t). points v c)
      \<longleftrightarrow> (\<exists>i. i < th_top t \<and> i < length (th_stack t) \<and> points (th_stack t ! i) c)" for t
    by (simp add: thread_stack_values_def taken_points)
  then show ?thesis using OThr
    by (cases "get (h_threads h) r") (auto simp: ochildren_def ofrozen_def flag_bits thread_children_def points_val points_vals)
qed (simp add: ochildren_def)

lemma reachable_traced:
  assumes "heap_ok h" "sound_heap h" shows "reachable h S = traced h S"
proof (intro set_eqI iffI)
  fix ob assume "ob \<in> reachable h S" then show "ob \<in> traced h S"
    by induction (auto intro: traced.intros simp: refers_children [OF assms])
next
  fix ob assume "ob \<in> traced h S" then show "ob \<in> reachable h S"
    by induction (auto intro: reachable.intros simp: refers_children [OF assms])
qed

section \<open>Roots\<close>

text \<open>A stack with its frames holds the slots below its top and the functions of the frames up to the current one.\<close>

definition stack_holds :: "Val list \<Rightarrow> nat \<Rightarrow> call_info list \<Rightarrow> nat \<Rightarrow> obj \<Rightarrow> bool" where
  "stack_holds st tp cs ci c \<longleftrightarrow> (\<exists>i. i < tp \<and> i < length st \<and> points (st ! i) c)
     \<or> (\<exists>i. i \<le> ci \<and> i < length cs \<and> ci_func (cs ! i) < length st \<and> points (st ! ci_func (cs ! i)) c)"

definition saved_holds :: "lthread \<Rightarrow> obj \<Rightarrow> bool" where
  "saved_holds t c \<longleftrightarrow> stack_holds (th_stack t) (th_top t) (th_call_stack t) (th_ci t) c
     \<or> (\<exists>u. c = OUpv u \<and> (u \<in> set (th_open_upvalues t) \<or> u \<in> fst ` set (th_suspended_upvals t)))
     \<or> (\<exists>v. th_error_object t = Some v \<and> points v c) \<or> points (hook_func (th_hook t)) c"

text \<open>
  The globals, the registry, the metatables of the types, the interned names and literals and the global slots; and of
  the running thread and of the resumers below it, the stack, the open upvalues, the error and the hook function.
\<close>

inductive root :: "lua \<Rightarrow> obj \<Rightarrow> bool" for s where
  root_globals: "root s (OTab (l_global s))"
| root_registry: "root s (OTab (registry s))"
| root_metatable: "Some r \<in> set (h_type_metatables (l_heap s)) \<Longrightarrow> root s (OTab r)"
| root_name: "Some r \<in> set (h_tm_names (l_heap s)) \<union> set (h_type_name_refs (l_heap s)) \<Longrightarrow> root s (OStr r)"
| root_literal: "(k, r) \<in> set (h_static_intern_cache (l_heap s)) \<Longrightarrow> root s (OStr r)"
| root_cached: "r \<in> set (hook_event_names s) \<union> set (hook_mask_names s) \<union> set (debug_info_field_names s) \<Longrightarrow> root s (OStr r)"
| root_slot: "global_slots s = Some rt \<Longrightarrow> v \<in> set (slot_values rt) \<Longrightarrow> points v c \<Longrightarrow> root s c"
| root_slot_name: "global_slots s = Some rt \<Longrightarrow> r \<in> set (slot_name_keys rt) \<or> slot_shadow_registry_key rt = Some r \<Longrightarrow> root s (OStr r)"
| root_stack: "stack_holds (stack s) (l_top s) (call_stack s) (l_ci s) c \<Longrightarrow> root s c"
| root_upvalue: "u \<in> set (open_upvalues s) \<Longrightarrow> root s (OUpv u)"
| root_error: "error_object s = Some v \<Longrightarrow> points v c \<Longrightarrow> root s c"
| root_hook: "points (hook_func (l_hook s)) c \<Longrightarrow> root s c"
| root_saved: "t \<in> set (saved_threads s) \<Longrightarrow> saved_holds t c \<Longrightarrow> root s c"

definition state_roots :: "lua \<Rightarrow> obj set" where
  "state_roots s = set (base_objs s) \<union> set (running_objs s)"

lemma stack_objs: "c \<in> set (vals_objs (take tp st)) \<or> c \<in> set (vals_objs (frame_functions st cs ci)) \<longleftrightarrow> stack_holds st tp cs ci c"
proof -
  have "(\<exists>v \<in> set (frame_functions st cs ci). points v c)
      \<longleftrightarrow> (\<exists>f \<in> set (take (ci + 1) cs). ci_func f < length st \<and> points (st ! ci_func f) c)"
    by (auto simp: frame_functions_def List.map_filter_def)
  also have "\<dots> \<longleftrightarrow> (\<exists>i < length (take (ci + 1) cs). ci_func (take (ci + 1) cs ! i) < length st
      \<and> points (st ! ci_func (take (ci + 1) cs ! i)) c)"
    by (metis in_set_conv_nth)
  also have "\<dots> \<longleftrightarrow> (\<exists>i. i \<le> ci \<and> i < length cs \<and> ci_func (cs ! i) < length st \<and> points (st ! ci_func (cs ! i)) c)"
    by (metis Suc_eq_plus1 length_take less_Suc_eq_le min_less_iff_conj nth_take)
  finally show ?thesis by (simp add: points_vals taken_points stack_holds_def)
qed

lemma opt_objs_mem: "c \<in> set (opt_objs x) \<longleftrightarrow> (\<exists>v. x = Some v \<and> points v c)"
  by (cases x) (simp_all add: opt_objs_def points_val)

lemma saved_objs_mem: "c \<in> set (saved_objs t) \<longleftrightarrow> saved_holds t c"
  unfolding saved_holds_def stack_objs [symmetric] by (auto simp: saved_objs_def opt_objs_mem points_val)

lemma opts_mem: "c \<in> set (concat (map (opt_list f) xs)) \<longleftrightarrow> (\<exists>r. Some r \<in> set xs \<and> c = f r)"
  by (auto simp: opt_list_mem)

lemma running_mem: "c \<in> set (running_objs s) \<longleftrightarrow> stack_holds (stack s) (l_top s) (call_stack s) (l_ci s) c
    \<or> (\<exists>u \<in> set (open_upvalues s). c = OUpv u) \<or> (\<exists>v. error_object s = Some v \<and> points v c)
    \<or> points (hook_func (l_hook s)) c \<or> (\<exists>t \<in> set (saved_threads s). saved_holds t c)"
  unfolding stack_objs [symmetric] by (auto simp: running_objs_def opt_objs_mem points_val saved_objs_mem)

lemma base_mem: "c \<in> set (base_objs s) \<longleftrightarrow> c = OTab (l_global s) \<or> c = OTab (registry s)
    \<or> (\<exists>r. Some r \<in> set (h_type_metatables (l_heap s)) \<and> c = OTab r)
    \<or> (\<exists>r. Some r \<in> set (h_tm_names (l_heap s)) \<union> set (h_type_name_refs (l_heap s)) \<and> c = OStr r)
    \<or> (\<exists>k r. (k, r) \<in> set (h_static_intern_cache (l_heap s)) \<and> c = OStr r)
    \<or> (\<exists>r \<in> set (hook_event_names s) \<union> set (hook_mask_names s) \<union> set (debug_info_field_names s). c = OStr r)
    \<or> (\<exists>rt. global_slots s = Some rt \<and> ((\<exists>v \<in> set (slot_values rt). points v c)
         \<or> (\<exists>r. (r \<in> set (slot_name_keys rt) \<or> slot_shadow_registry_key rt = Some r) \<and> c = OStr r)))"
proof -
  have l: "c \<in> set (map OStr (map snd xs)) \<longleftrightarrow> (\<exists>k r. (k, r) \<in> set xs \<and> c = OStr r)" for xs :: "(nat \<times> GcRef) list"
    by force
  show ?thesis
    unfolding base_objs_def gc_root_objs_def cached_objs_def slot_objs_def set_append Un_iff opts_mem l
    by (cases "global_slots s") (auto simp: points_vals opt_list_mem)
qed

lemma root_state: "{c. root s c} = state_roots s"
proof (intro set_eqI iffI)
  fix c assume "c \<in> {c. root s c}"
  then have "root s c" by simp
  then show "c \<in> state_roots s"
    unfolding state_roots_def Un_iff base_mem running_mem by cases blast+
next
  fix c assume "c \<in> state_roots s"
  then show "c \<in> {c. root s c}"
    unfolding state_roots_def Un_iff base_mem running_mem mem_Collect_eq by (blast intro: root.intros)
qed

end
