(* ===== verification/GcProps.thy ===== *)
theory GcProps
  imports GcSweep Reach
begin

text \<open>
  What a whole collection cycle does, from the pause to the finalizers, and the properties of the barriers, the
  thresholds and the accounting.
\<close>

section \<open>What the sweeps free\<close>

definition doomed :: "heap \<Rightarrow> obj \<Rightarrow> bool" where
  "doomed h ob \<longleftrightarrow> ocolor h ob = Some (other_white (h_white h)) \<and> \<not> kept_alive (oflags h ob)"

primrec same_object :: "heap \<Rightarrow> heap \<Rightarrow> obj \<Rightarrow> bool" where
  "same_object h h' (OStr r) \<longleftrightarrow> get (h_string_arena h') r = get (h_string_arena h) r"
| "same_object h h' (OTab r) \<longleftrightarrow> get (h_tables h') r = get (h_tables h) r"
| "same_object h h' (OClo r) \<longleftrightarrow> get (h_closures h') r = get (h_closures h) r"
| "same_object h h' (OUpv r) \<longleftrightarrow> get (h_upvalues h') r = get (h_upvalues h) r"
| "same_object h h' (OUd r) \<longleftrightarrow> unfinal h' r = unfinal h r"
| "same_object h h' (OThr r) \<longleftrightarrow> get (h_threads h') r = get (h_threads h) r"

lemma same_object_trans: "same_object a b ob \<Longrightarrow> same_object b c ob \<Longrightarrow> same_object a c ob"
  by (cases ob) simp_all

lemma swept_get:
  assumes inv: "arena_inv a"
  shows "get (fst (sweep a dead new)) r = (if color a r = Some dead \<and> \<not> kept_alive (flags a ! ix r) then None else get a r)"
proof -
  obtain a' n where s: "sweep a dead new = (a', n)" by fastforce
  have g: "get a' r = (if dead_slot a dead (ix r) then None else get a r)" by (rule sweep_props(2) [OF inv s])
  show ?thesis
  proof (cases "get a r")
    case None
    then show ?thesis using g s by simp
  next
    case (Some v)
    then have "color a r = byte_to_color (colors a ! ix r)" by (auto simp: get_def color_def split: if_splits)
    moreover have "byte_to_color (colors a ! ix r) = Some dead \<longleftrightarrow> colors a ! ix r = color_to_byte dead"
    proof
      assume "byte_to_color (colors a ! ix r) = Some dead"
      then show "colors a ! ix r = color_to_byte dead" by (auto simp: byte_to_color_def split: if_splits)
    qed simp
    ultimately show ?thesis using g s by (simp add: dead_slot_def)
  qed
qed

lemma swept_objects:
  assumes ok: "heap_ok h0" and sw: "swept_heap h0 h"
  shows "olive h ob \<longleftrightarrow> olive h0 ob \<and> \<not> doomed h0 ob" "olive h ob \<Longrightarrow> same_object h0 h ob"
proof -
  have e: "h = (part_swept h0 (arena_len h0))\<lparr>h_gc := h_gc h, h_strings := h_strings h\<rparr>"
    using sw unfolding swept_heap_def by blast
  let ?sw = "\<lambda>a. fst (sweep a (other_white (h_white h0)) (h_white h0))"
  have l: "arena_len h0 0 = length (entries (h_string_arena h0))" "arena_len h0 (Suc 0) = length (entries (h_tables h0))"
    "arena_len h0 2 = length (entries (h_closures h0))" "arena_len h0 3 = length (entries (h_upvalues h0))"
    "arena_len h0 4 = length (entries (h_userdata h0))" "arena_len h0 5 = length (entries (h_threads h0))"
    by (simp_all add: arena_len_def)
  have a: "h_string_arena h = ?sw (h_string_arena h0)" "h_tables h = ?sw (h_tables h0)"
    "h_closures h = ?sw (h_closures h0)" "h_upvalues h = ?sw (h_upvalues h0)"
    "h_userdata h = ?sw (h_userdata h0)" "h_threads h = ?sw (h_threads h0)"
    by (subst e, simp add: part_swept_def l prefix_swept_all)+
  have "get (h_string_arena h) r = (if doomed h0 (OStr r) then None else get (h_string_arena h0) r)"
    "get (h_tables h) r = (if doomed h0 (OTab r) then None else get (h_tables h0) r)"
    "get (h_closures h) r = (if doomed h0 (OClo r) then None else get (h_closures h0) r)"
    "get (h_upvalues h) r = (if doomed h0 (OUpv r) then None else get (h_upvalues h0) r)"
    "get (h_userdata h) r = (if doomed h0 (OUd r) then None else get (h_userdata h0) r)"
    "get (h_threads h) r = (if doomed h0 (OThr r) then None else get (h_threads h0) r)" for r
    using ok by (simp_all add: a heap_ok_def swept_get doomed_def)
  note g = this
  show "olive h ob \<longleftrightarrow> olive h0 ob \<and> \<not> doomed h0 ob" by (cases ob) (simp_all add: g)
  show "same_object h0 h ob" if "olive h ob" using that by (cases ob) (simp_all add: g unfinal_def split: if_splits)
qed

section \<open>The cycle\<close>

text \<open>
  Between two cycles every object has the current white; only an interned literal that was created while a
  collection ran may be black.
\<close>

definition idle :: "heap \<Rightarrow> bool" where
  "idle h \<longleftrightarrow> heap_ok h \<and> is_white (h_white h)
     \<and> (\<forall>ob c. ocolor h ob = Some c \<longrightarrow> c = h_white h \<or> (c = Black \<and> (\<exists>r. ob = OStr r)))"

definition weak_held :: "heap \<Rightarrow> obj set" where
  "weak_held h = {OStr x | x r t. is_weak h r \<and> get (h_tables h) r = Some t \<and> x \<in> set (weak_table_strings t)}"

lemma idle_tri:
  assumes "idle h" "{ob. ocolor h ob = Some Black} \<subseteq> R" "closed h R"
  shows "tri R {} {} (clear_marking h)"
proof -
  have gray: "ocolor h ob \<noteq> Some Gray" for ob
  proof
    assume "ocolor h ob = Some Gray"
    then have "Gray = h_white h \<or> (Gray = Black \<and> (\<exists>r. ob = OStr r))" using assms(1) unfolding idle_def by blast
    then show False using assms(1) by (auto simp: idle_def)
  qed
  have black: "ochildren h ob = []" if "ocolor h ob = Some Black" for ob
  proof -
    have "Black = h_white h \<or> (\<exists>r. ob = OStr r)" using assms(1) that unfolding idle_def by blast
    moreover have "is_white (h_white h)" using assms(1) by (simp add: idle_def)
    ultimately obtain r where "ob = OStr r" by auto
    then show ?thesis by (simp add: ochildren_def)
  qed
  have ok: "heap_ok h" using assms(1) by (simp add: idle_def)
  then show ?thesis using assms(2,3) gray black
    unfolding tri_def clear_marking_def set_gc_def closed_def listed_def by auto
qed


text \<open>Up to the atomic phase nothing but colours and lists has changed.\<close>

definition early :: "heap \<Rightarrow> heap \<Rightarrow> bool" where
  "early h a \<longleftrightarrow> heap_ok h \<and> heap_ok a \<and> same_shape h a \<and> settled h a \<and> tmudata (h_gc a) = tmudata (h_gc h)"

lemma keeps_tmudata: "keeps R a b \<Longrightarrow> tmudata (h_gc b) = tmudata (h_gc a)"
  unfolding keeps_def darker_def gc_core_def by (elim conjE, drule arg_cong [where f = tmudata]) simp

lemma early_keeps: "early h a \<Longrightarrow> keeps R a b \<Longrightarrow> early h b"
  unfolding early_def using keeps_settled [of a R b] keeps_tmudata [of R a b] settled_trans [of h a b]
    same_shape_trans [of h a b] triD(1) [of R "{}" "{}" b] by (simp add: keeps_def)

lemma early_gc: "early h a \<Longrightarrow> tmudata (f (h_gc a)) = tmudata (h_gc a) \<Longrightarrow> early h (set_gc f a)"
  unfolding early_def using settled_gc [of a h f] by (simp add: set_gc_def)

lemma due_early: "early h a \<Longrightarrow> due a = due h"
  using has_gc_shape [of h a] same_shape_get(5) [of h a] by (simp add: early_def due_def)

lemma early_facts:
  assumes "early h a"
  shows "content a = content h" "h_white a = h_white h" "olive a = olive h" "is_weak a = is_weak h"
    "ud_objs a = ud_objs h" "ochildren a = ochildren h" "oflags a = oflags h" "omark a ob \<Longrightarrow> omark h ob"
    "ocolor a ob = Some c \<Longrightarrow> is_white c \<Longrightarrow> ocolor h ob = Some c"
proof -
  have s: "settled h a" using assms by (simp add: early_def)
  then show c: "content a = content h" "h_white a = h_white h" "olive a = olive h" "is_weak a = is_weak h"
    "omark a ob \<Longrightarrow> omark h ob" "ocolor a ob = Some c \<Longrightarrow> is_white c \<Longrightarrow> ocolor h ob = Some c"
    unfolding settled_def by blast+
  show "ud_objs a = ud_objs h" using ud_objs_unfinal [of a h] c(1) by (simp add: content_def fun_eq_iff)
  show "ochildren a = ochildren h" "oflags a = oflags h" using c(1) by (simp_all add: content_def)
qed

definition black_objs :: "heap \<Rightarrow> obj set" where
  "black_objs h = {ob. ocolor h ob = Some Black}"

text \<open>From the pause to the atomic phase.\<close>

lemma cycle_marks:
  assumes idle: "idle (l_heap s)" and ph: "gc_phase (h_gc (l_heap s)) = Pause"
    and R: "state_roots s \<union> black_objs (l_heap s) \<subseteq> R" "closed (l_heap s) R"
  obtains n a where "gc_steps n call s = s\<lparr>l_heap := atomic a\<rparr>" "early (l_heap s) a"
    "tri R {} (list_objs (grayagain (h_gc a))) a" "\<forall>ob \<in> state_roots s. \<not> omark a ob"
proof -
  let ?h = "l_heap s"
  let ?s0 = "on_heap clear_marking s"
  have h0: "l_heap ?s0 = clear_marking ?h" by (simp add: on_heap_def)
  have t0: "tri R {} {} (l_heap ?s0)"
    unfolding h0 by (rule idle_tri [OF idle _ R(2)]) (use R(1) in \<open>auto simp: black_objs_def\<close>)
  have ok: "heap_ok ?h" using idle by (simp add: idle_def)
  have "early ?h ?h" using ok by (simp add: early_def settled_refl)
  then have e0: "early ?h (l_heap ?s0)" unfolding h0 unfolding clear_marking_def by (rule early_gc) simp
  have b0: "base_objs ?s0 = base_objs s" using e0 base_objs_heap [of s "l_heap ?s0"]
    by (simp add: early_def on_heap_def)
  have r0: "running_objs ?s0 = running_objs s" by (simp add: on_heap_def)
  have RB: "set (base_objs s) \<subseteq> R" "set (running_objs s) \<subseteq> R" using R(1) by (auto simp: state_roots_def)
  note K = keeps_roots [OF t0, unfolded b0, OF RB(1)]
  let ?hr = "l_heap (mark_roots ?s0)"
  let ?h1 = "set_phase Propagate ?hr"
  let ?s1 = "s\<lparr>l_heap := ?h1\<rparr>"
  have mr: "mark_roots ?s0 = s\<lparr>l_heap := ?hr\<rparr>" by (subst K(1)) (simp add: on_heap_def)
  have "fst (gc_singlestep call s) = on_heap (set_phase Propagate) (mark_roots ?s0)"
    using ph by (simp add: gc_singlestep_def)
  also have "\<dots> = ?s1" by (subst mr) (simp add: on_heap_def)
  finally have s1: "fst (gc_singlestep call s) = ?s1" .
  have er: "early ?h ?hr" by (rule early_keeps [OF e0 K(2)])
  have e1: "early ?h ?h1" unfolding set_phase_def by (rule early_gc [OF er]) simp
  have b1: "base_objs ?s1 = base_objs s" using e1 by (intro base_objs_heap) (simp add: early_def)
  have "tri R {} {} ?h1" using K(2) unfolding keeps_def tri_def closed_def listed_def set_phase_def set_gc_def by simp
  moreover have "\<forall>ob \<in> set (base_objs s). \<not> omark ?h1 ob" using K(3) by (simp add: set_phase_def set_gc_def del: omark_simps)
  ultimately have P: "propagating R ?s1"
    using RB(2) unfolding propagating_def b1 by (simp add: set_phase_def set_gc_def)
  obtain n h2 where n: "gc_steps n call ?s1 = ?s1\<lparr>l_heap := h2\<rparr>" "propagating R (?s1\<lparr>l_heap := h2\<rparr>)"
    "keeps R (l_heap ?s1) h2" "gray (h_gc h2) = []"
    using propagate_steps [OF P] by blast
  let ?s2 = "s\<lparr>l_heap := h2\<rparr>"
  have P2: "propagating R ?s2" using n(2) by simp
  let ?a = "mark_running s h2"
  have k: "keeps R h2 ?a" using keeps_running(1) [OF P2] by simp
  have ea: "early ?h ?a" using early_keeps [OF early_keeps [OF e1] k] n(3) by simp
  have "propagate_one h2 = (h2, Empty)" using n(4) by (simp add: propagate_one_def)
  then have "fst (gc_singlestep call ?s2) = s\<lparr>l_heap := atomic ?a\<rparr>"
    using P2 by (simp add: propagating_def gc_singlestep_def traverse_main_thread_for_atomic_def on_heap_def)
  then have "gc_steps (Suc (n + 1)) call s = s\<lparr>l_heap := atomic ?a\<rparr>"
    unfolding gc_steps.simps s1 gc_steps_add using n(1) by simp
  moreover have "tri R {} (list_objs (grayagain (h_gc ?a))) ?a" using k tri_mono [of R "{}" "{}" ?a "{}"] by (simp add: keeps_def)
  moreover have "\<forall>ob \<in> state_roots s. \<not> omark ?a ob"
  proof
    fix ob assume "ob \<in> state_roots s"
    moreover have "base_objs ?s2 = base_objs s" using early_keeps [OF e1] n(3) by (intro base_objs_heap) (simp add: early_def)
    then have "\<not> omark h2 ob" if "ob \<in> set (base_objs s)" using P2 that by (simp add: propagating_def)
    moreover have "\<not> omark ?a ob" if "ob \<in> set (running_objs s)" using keeps_running(2) [OF P2, of ob] that by simp
    ultimately show "\<not> omark ?a ob" using keeps_unmarked [OF k] unfolding state_roots_def by blast
  qed
  ultimately show thesis using that [of "Suc (n + 1)" ?a] ea by blast
qed


lemma sweeping_start:
  assumes "gc_phase (h_gc h) = SweepString" "gc_cursor (h_gc h) = \<lparr>arena_index = 0, slot_position = 0\<rparr>"
  shows "sweeping h 0 0 h"
proof -
  have "part_swept h (marks_at h 0 0) = h" by (simp add: part_swept_def marks_at_def)
  then show ?thesis using assms by (simp add: sweeping_def)
qed

lemma tri_wider:
  assumes "tri R E G h" "R \<subseteq> R'" "closed h R'" shows "tri R' E G h"
  using assms unfolding tri_def listed_def by blast

text \<open>
  A cycle at a glance: it marks what is reachable from \<open>S\<close> and the black strings, \<open>a\<close> is the heap at
  the start of the atomic phase, \<open>h'\<close> the outcome.
\<close>

definition cycle :: "heap \<Rightarrow> obj set \<Rightarrow> heap \<Rightarrow> heap \<Rightarrow> bool" where
  "cycle h S a h' \<longleftrightarrow> early h a
     \<and> tri (traced h (S \<union> black_objs h)) {} (list_objs (grayagain (h_gc a))) a
     \<and> (\<forall>ob \<in> S. \<not> omark a ob) \<and> swept_heap (atomic a) h'"

text \<open>What a cycle may keep: besides the roots, the userdata still to finalize.\<close>

definition cycle_roots :: "heap \<Rightarrow> obj set \<Rightarrow> obj set" where
  "cycle_roots h S = S \<union> black_objs h \<union> (\<Union>r \<in> due h. ud_objs h r)"

lemma closed_reach: "closed h (traced h S)"
  by (auto simp: closed_def intro: traced.intros)

lemma reach_wider: "ob \<in> traced h S \<Longrightarrow> S \<subseteq> T \<Longrightarrow> ob \<in> traced h T"
  by (induction rule: traced.induct) (auto intro: traced.intros)

lemma cycle_tri:
  assumes e: "early h a" and t: "tri (traced h (S \<union> black_objs h)) {} (list_objs (grayagain (h_gc a))) a"
  shows "tri (traced h (cycle_roots h S)) {} (list_objs (grayagain (h_gc a))) a"
    "held (traced h (cycle_roots h S)) a (due a)"
proof -
  have "closed a (traced h (cycle_roots h S))"
    using closed_reach [of h] early_facts(6) [OF e] by (simp add: closed_def)
  moreover have "traced h (S \<union> black_objs h) \<subseteq> traced h (cycle_roots h S)"
    by (auto simp: cycle_roots_def intro: reach_wider)
  ultimately show "tri (traced h (cycle_roots h S)) {} (list_objs (grayagain (h_gc a))) a"
    using tri_wider [OF t] by blast
  show "held (traced h (cycle_roots h S)) a (due a)"
    unfolding held_def due_early [OF e] early_facts(5) [OF e] cycle_roots_def by (auto intro: traced.intros)
qed

lemma cycle_runs:
  assumes idle: "idle (l_heap s)" and ph: "gc_phase (h_gc (l_heap s)) = Pause"
  obtains n a h' where "gc_steps n call s = s\<lparr>l_heap := h'\<rparr>" "cycle (l_heap s) (state_roots s) a h'"
proof -
  let ?h = "l_heap s"
  let ?R = "traced ?h (state_roots s \<union> black_objs ?h)"
  have R: "state_roots s \<union> black_objs ?h \<subseteq> ?R" by (auto intro: traced.intros)
  obtain n a where a: "gc_steps n call s = s\<lparr>l_heap := atomic a\<rparr>" "early ?h a"
    "tri ?R {} (list_objs (grayagain (h_gc a))) a" "\<forall>ob \<in> state_roots s. \<not> omark a ob"
    using cycle_marks [OF idle ph R closed_reach] by metis
  note T = cycle_tri [OF a(2,3)] and A = atomic_heap [OF cycle_tri [OF a(2,3)]]
  have sw: "sweeping (atomic a) 0 0 (l_heap (s\<lparr>l_heap := atomic a\<rparr>))" using sweeping_start [OF A(3,4)] by simp
  obtain m h' where m: "gc_steps m call (s\<lparr>l_heap := atomic a\<rparr>) = (s\<lparr>l_heap := atomic a\<rparr>)\<lparr>l_heap := h'\<rparr>"
    "swept_heap (atomic a) h'"
    using sweep_steps [OF A(1) sw] by metis
  show thesis
    by (rule that [of "n + m" h' a]) (use a m in \<open>simp_all add: gc_steps_add cycle_def\<close>)
qed

lemma other_other [simp]: "is_white c \<Longrightarrow> other_white (other_white c) = c" "is_white c \<Longrightarrow> other_white c \<noteq> c"
  "is_white c \<Longrightarrow> is_white (other_white c)"
  by (cases c; simp)+

lemma cycleD:
  assumes "cycle h S a h'"
  shows "early h a" "tri (traced h (cycle_roots h S)) {} (list_objs (grayagain (h_gc a))) a"
    "held (traced h (cycle_roots h S)) a (due a)" "swept_heap (atomic a) h'" "ob \<in> S \<Longrightarrow> \<not> omark a ob"
    "tri (traced h (S \<union> black_objs h)) {} (list_objs (grayagain (h_gc a))) a"
  using assms cycle_tri [of h a S] by (simp_all add: cycle_def del: omark_simps)

lemma cycle_doomed:
  assumes cyc: "cycle h S a h'" and idle: "idle h"
  shows "doomed (atomic a) ob \<longleftrightarrow> ocolor (marked_heap a) ob = Some (h_white h) \<and> \<not> (ob \<in> kept_strings a \<and> olive h ob)
     \<and> \<not> kept_alive (oflags h ob)"
proof -
  note C = cycleD [OF cyc]
  have w: "is_white (h_white h)" using idle by (simp add: idle_def)
  note A = atomic_heap [OF C(2,3)] and F = early_facts [OF C(1)]
  show ?thesis using w A(8) [of ob] unfolding doomed_def A(2) A(6) F(2,3,7) by auto
qed

lemma cycle_same:
  assumes cyc: "cycle h S a h'" and live: "olive h' ob" and strong: "\<forall>r. ob = OTab r \<longrightarrow> \<not> is_weak h r"
  shows "same_object h h' ob"
proof -
  note C = cycleD [OF cyc]
  note A = atomic_heap [OF C(2,3)] and F = early_facts [OF C(1)]
  have "same_object (atomic a) h' ob" by (rule swept_objects(2) [OF A(1) C(4) live])
  moreover have "same_object a (atomic a) ob"
    using strong A(9-13,15) unfolding F(4) [symmetric] by (cases ob) simp_all
  moreover have "same_object h a ob" using F(1) by (cases ob) (simp_all add: content_def)
  ultimately show ?thesis using same_object_trans by blast
qed

lemma cycle_live:
  assumes cyc: "cycle h S a h'" and idle: "idle h"
    and ob: "olive h ob" "\<not> omark (marked_heap a) ob \<or> kept_alive (oflags h ob) \<or> ob \<in> kept_strings a"
  shows "olive h' ob"
proof -
  note C = cycleD [OF cyc]
  note A = atomic_heap [OF C(2,3)] and F = early_facts [OF C(1)] and M = marked_heap_tri [OF C(2,3)]
  have "oflags (marked_heap a) = oflags h" using M(3) F(7) by (simp add: settled_def content_def)
  then have fr: "ofrozen (marked_heap a) ob \<Longrightarrow> kept_alive (oflags h ob)"
    unfolding ofrozen_def by (auto simp: kept_alive_def bit.conj_disj_distrib or_eq_0_iff)
  have w: "is_white (h_white h)" using idle by (simp add: idle_def)
  have "\<not> doomed (atomic a) ob"
    using ob fr w unfolding cycle_doomed [OF cyc idle] by (auto simp: omark_def simp del: omark_simps)
  then show ?thesis using swept_objects(1) [OF A(1) C(4), of ob] ob(1) A(7) F(3) by simp
qed

lemma reach_mono:
  assumes "ob \<in> traced a T" "ochildren a = ochildren b" shows "ob \<in> traced b T"
  using assms(1) by induction (use assms(2) in \<open>auto intro: traced.intros\<close>)

lemma cycle_dark:
  assumes cyc: "cycle h S a h'" and ob: "ob \<in> traced h T" and T: "\<forall>x \<in> T. \<not> omark (marked_heap a) x"
  shows "\<not> omark (marked_heap a) ob"
proof -
  note C = cycleD [OF cyc]
  note F = early_facts [OF C(1)] and M = marked_heap_tri [OF C(2,3)]
  have "ochildren (marked_heap a) = ochildren h" using M(3) F(6) by (simp add: settled_def content_def)
  then show ?thesis using dark_reach [OF M(1,2) T reach_mono [OF ob]] by simp
qed


lemma cycle_root_dark:
  assumes cyc: "cycle h S a h'" and ob: "ob \<in> S" shows "\<not> omark (marked_heap a) ob"
proof -
  have "settled a (marked_heap a)" by (rule marked_heap_tri(3) [OF cycleD(2,3) [OF cyc]])
  then show ?thesis using cycleD(5) [OF cyc ob] unfolding settled_def by blast
qed

lemma cycle_garbage:
  assumes cyc: "cycle h S a h'" and idle: "idle h" and live: "olive h' ob"
  shows "olive h ob \<and> (ob \<in> traced h (cycle_roots h S) \<union> weak_held h \<or> kept_alive (oflags h ob))"
proof -
  note C = cycleD [OF cyc]
  note A = atomic_heap [OF C(2,3)] and F = early_facts [OF C(1)] and M = marked_heap_tri [OF C(2,3)]
  have l: "olive h ob" "\<not> doomed (atomic a) ob" using swept_objects(1) [OF A(1) C(4), of ob] live A(7) F(3) by auto
  have MF: "settled a (marked_heap a)" "content (marked_heap a) = content h" "is_weak (marked_heap a) = is_weak h"
    using M(3) F(1,4) by (simp_all add: settled_def)
  consider "kept_alive (oflags h ob)" | "ob \<in> kept_strings a" | "ocolor (marked_heap a) ob \<noteq> Some (h_white h)"
    using l unfolding cycle_doomed [OF cyc idle] by blast
  then have "ob \<in> traced h (cycle_roots h S) \<union> weak_held h \<or> kept_alive (oflags h ob)"
  proof cases
    case 2
    then obtain x r t where x: "ob = OStr x" "r \<in> set (weak_tables (h_gc (marked_heap a)))"
      "get (h_tables (marked_heap a)) r = Some t" "x \<in> set (weak_table_strings t)"
      by (auto simp: kept_strings_def weak_strings_def)
    have "is_weak h r" using x(2) triD(10) [OF M(1)] MF(3) by auto
    then have "ob \<in> weak_held h" using x MF(2) by (auto simp: weak_held_def content_def)
    then show ?thesis by blast
  next
    case 3
    have "olive (marked_heap a) ob" using MF(1) F(3) l(1) by (simp add: settled_def)
    then obtain c where c: "ocolor (marked_heap a) ob = Some c" using ocolor_live [OF triD(1) [OF M(1)]] by blast
    have "\<not> is_white c"
    proof
      assume "is_white c"
      then have "ocolor h ob = Some c" using c MF(1) F(9) unfolding settled_def by blast
      then have "c = h_white h \<or> c = Black" using idle unfolding idle_def by blast
      then show False using \<open>is_white c\<close> c 3 by auto
    qed
    then have "ob \<in> traced h (cycle_roots h S)" using c triD(3,4) [OF M(1), of ob] by (cases c) auto
    then show ?thesis by blast
  qed blast
  then show ?thesis using l(1) by blast
qed

section \<open>Finalizers\<close>

text \<open>As the code tests it: a userdata whose metatable has a finalizer that has not been queued yet.\<close>

definition pending :: "heap \<Rightarrow> GcRef \<Rightarrow> bool" where
  "pending h r \<longleftrightarrow> (case get (h_userdata h) r of None \<Rightarrow> False | Some ud \<Rightarrow> \<not> ud_finalized ud
     \<and> (case ud_metatable ud of None \<Rightarrow> False | Some mt \<Rightarrow> has_gc_metamethod h mt))"

lemma to_finalize_pending:
  assumes "heap_ok h"
  shows "r \<in> set (to_finalize h) \<longleftrightarrow> pending h r \<and> ocolor h (OUd r) = Some (h_white h)"
  unfolding to_finalize_iff [OF assms] pending_def by (auto split: option.splits)

lemma pending_early: "early h a \<Longrightarrow> pending a = pending h"
  using has_gc_shape [of h a] same_shape_get(5) [of h a]
  by (simp add: early_def pending_def fun_eq_iff cong: option.case_cong)

lemma idle_black: "idle h \<Longrightarrow> ob \<in> black_objs h \<Longrightarrow> \<exists>r. ob = OStr r"
proof -
  assume i: "idle h" and b: "ob \<in> black_objs h"
  have "Black = h_white h \<or> (\<exists>r. ob = OStr r)" using i b unfolding idle_def black_objs_def by blast
  moreover have "is_white (h_white h)" using i by (simp add: idle_def)
  ultimately show ?thesis by auto
qed

lemma reach_black:
  assumes "idle h" "ob \<in> traced h (S \<union> black_objs h)" shows "ob \<in> traced h S \<union> black_objs h"
  using assms(2)
proof induction
  case (reach_root ob)
  then show ?case by (auto intro: traced.intros)
next
  case (reach_child ob c)
  have "ob \<notin> black_objs h"
  proof
    assume "ob \<in> black_objs h"
    then obtain r where "ob = OStr r" using idle_black [OF assms(1)] by blast
    then show False using reach_child.hyps(2) by (simp add: ochildren_def split: if_splits)
  qed
  then show ?case using reach_child by (auto intro: traced.intros)
qed

lemma cycle_to_finalize:
  assumes cyc: "cycle h S a h'" and idle: "idle h" and fr: "\<not> ofrozen h (OUd r)"
  shows "r \<in> set (to_finalize (atomic_mark a)) \<longleftrightarrow> pending h r \<and> OUd r \<notin> traced h S"
proof -
  note C = cycleD [OF cyc]
  let ?m = "atomic_mark a"
  note K = keeps_atomic_mark [OF C(6)]
  have e: "early h ?m" by (rule early_keeps [OF C(1) K(1)])
  note F = early_facts [OF e]
  have t: "tri (traced h (S \<union> black_objs h)) {} {} ?m" using K(1) by (simp add: keeps_def)
  have w: "is_white (h_white h)" using idle by (simp add: idle_def)
  have frm: "\<not> ofrozen ?m (OUd r)" using fr F(7) by (simp add: ofrozen_def)
  have "OUd r \<notin> traced h S" if c: "ocolor ?m (OUd r) = Some (h_white h)"
  proof
    assume "OUd r \<in> traced h S"
    then have "OUd r \<in> traced ?m S" using reach_mono F(6) by metis
    then have "\<not> omark ?m (OUd r)"
      using dark_reach [OF t K(2)] C(5) keeps_unmarked [OF K(1)] by blast
    then show False using c frm w by (simp add: omark_def del: omark_simps)
  qed
  moreover have "ocolor ?m (OUd r) = Some (h_white h)" if p: "pending h r" and n: "OUd r \<notin> traced h S"
  proof -
    have "olive h (OUd r)" using p by (simp add: pending_def split: option.splits)
    then obtain c where c: "ocolor ?m (OUd r) = Some c" using F(3) ocolor_live [OF triD(1) [OF t]] by (metis option.exhaust)
    have "is_white c"
    proof (rule ccontr)
      assume "\<not> is_white c"
      then have "OUd r \<in> traced h (S \<union> black_objs h)" using c triD(3,4) [OF t, of "OUd r"] by (cases c) auto
      then have "OUd r \<in> black_objs h" using reach_black [OF idle] n by blast
      then show False using idle_black [OF idle] by blast
    qed
    then have "ocolor h (OUd r) = Some c" using F(9) c by blast
    then have "c = h_white h \<or> c = Black" using idle unfolding idle_def by blast
    then show ?thesis using c \<open>is_white c\<close> by auto
  qed
  ultimately show ?thesis
    using to_finalize_pending [OF triD(1) [OF t], of r] pending_early [OF e] F(2) by auto
qed

text \<open>The finalizers a cycle queues, as the collector traces objects.\<close>

lemma traced_finalizers:
  assumes "idle (l_heap s)" "gc_phase (h_gc (l_heap s)) = Pause"
  shows "\<exists>n h' new. gc_steps n call s = s\<lparr>l_heap := h'\<rparr> \<and> gc_phase (h_gc h') = Finalize
    \<and> tmudata (h_gc h') = rev new @ tmudata (h_gc (l_heap s)) \<and> sorted (map (\<lambda>r. unat (ud_seq (l_heap s) r)) new)
    \<and> set new \<subseteq> {r. pending (l_heap s) r}
    \<and> (\<forall>r. \<not> ofrozen (l_heap s) (OUd r) \<longrightarrow>
          (r \<in> set new \<longleftrightarrow> pending (l_heap s) r \<and> OUd r \<notin> traced (l_heap s) (state_roots s)))
    \<and> (\<forall>r \<in> set (tmudata (h_gc h')). \<forall>ob \<in> traced (l_heap s) (ud_objs (l_heap s) r). olive (l_heap s) ob \<longrightarrow> olive h' ob)"
proof -
  let ?h = "l_heap s"
  obtain n a h' where c: "gc_steps n call s = s\<lparr>l_heap := h'\<rparr>" "cycle ?h (state_roots s) a h'"
    by (rule cycle_runs [OF assms])
  note C = cycleD [OF c(2)] and M = marked_heap_tri [OF cycleD(2,3) [OF c(2)]] and F = early_facts [OF cycleD(1) [OF c(2)]]
  let ?new = "sort_key (\<lambda>r. unat (ud_seq (atomic_mark a) r)) (to_finalize (atomic_mark a))"
  have am: "early ?h (atomic_mark a)" by (rule early_keeps [OF C(1) keeps_atomic_mark(1) [OF C(6)]])
  have "gc_phase (h_gc h') = Finalize" "tmudata (h_gc h') = tmudata (h_gc (marked_heap a))"
    using C(4) atomic_heap(5) [OF C(2,3)] by (simp_all add: swept_heap_def)
  moreover have "tmudata (h_gc (marked_heap a)) = rev ?new @ tmudata (h_gc ?h)"
    using M(5) C(1) by (simp add: early_def)
  moreover have "ud_seq (atomic_mark a) = ud_seq ?h"
    using am same_shape_get(5) [of ?h "atomic_mark a"] by (simp add: early_def ud_seq_def fun_eq_iff)
  then have "sorted (map (\<lambda>r. unat (ud_seq ?h r)) ?new)" by simp
  moreover have "\<forall>r. \<not> ofrozen ?h (OUd r) \<longrightarrow> (r \<in> set ?new \<longleftrightarrow> pending ?h r \<and> OUd r \<notin> traced ?h (state_roots s))"
    using cycle_to_finalize [OF c(2) assms(1)] by simp
  moreover have "heap_ok (atomic_mark a)" using keeps_atomic_mark(1) [OF C(6)] triD(1) by (auto simp: keeps_def)
  then have "set ?new \<subseteq> {r. pending ?h r}" using to_finalize_pending pending_early [OF am] by auto
  moreover have "olive h' ob" if "r \<in> set (tmudata (h_gc (marked_heap a)))" "ob \<in> traced ?h (ud_objs ?h r)" "olive ?h ob" for r ob
    using cycle_live [OF c(2) assms(1) that(3)] cycle_dark [OF c(2) that(2)] M(4) [OF that(1)] F(5) by simp
  ultimately show ?thesis using c(1) by (intro exI [of _ n] exI [of _ h'] exI [of _ ?new]) simp
qed

section \<open>What a cycle does, by the references of the program\<close>

text \<open>A userdata with a finalizer still to run, and what the finalizer gets to see.\<close>

definition unfinished :: "heap \<Rightarrow> GcRef \<Rightarrow> bool" where
  "unfinished h r \<longleftrightarrow> (\<exists>u. get (h_userdata h) r = Some u \<and> \<not> ud_finalized u \<and> has_finalizer h u)"

definition held_by :: "heap \<Rightarrow> GcRef \<Rightarrow> obj set" where
  "held_by h r = {c. \<exists>u. get (h_userdata h) r = Some u \<and> (c = OUd r \<or> userdata_refers u c)}"

text \<open>
  What may outlive a collection besides the roots: literals interned while another one ran, which are black, and the
  userdata waiting for their finalizers.
\<close>

definition survivors :: "lua \<Rightarrow> obj set" where
  "survivors s = {c. root s c} \<union> {c. ocolor (l_heap s) c = Some Black}
     \<union> (\<Union>r \<in> {r. unfinished (l_heap s) r \<or> r \<in> set (tmudata (h_gc (l_heap s)))}. held_by (l_heap s) r)"

definition weak_table :: "heap \<Rightarrow> GcRef \<Rightarrow> bool" where
  "weak_table h r \<longleftrightarrow> (\<exists>t. get (h_tables h) r = Some t \<and> (weak_in h 107 t \<or> weak_in h 118 t))"

definition in_weak_table :: "heap \<Rightarrow> obj \<Rightarrow> bool" where
  "in_weak_table h c \<longleftrightarrow> (\<exists>r t x. weak_table h r \<and> get (h_tables h) r = Some t \<and> c = OStr x
     \<and> (VStr x \<in> set (arr t) \<or> (\<exists>n \<in> set (nodes t). nkey n \<noteq> VNil \<and> (VStr x = nkey n \<or> VStr x = nvalue n))))"

text \<open>They are what the invariants of the collector speak of.\<close>

lemma weak_table_iff: "sound_heap h \<Longrightarrow> weak_table h r \<longleftrightarrow> is_weak h r"
  by (auto simp: weak_table_def is_weak_def weak_mode_in split: option.split)

lemma pending_unfinished: "sound_heap h \<Longrightarrow> pending h r \<longleftrightarrow> unfinished h r"
  by (auto simp: pending_def unfinished_def has_finalizer_gc split: option.splits)

lemma due_unfinished: "sound_heap h \<Longrightarrow> due h = {r. unfinished h r \<or> r \<in> set (tmudata (h_gc h))}"
  by (auto simp: due_def unfinished_def has_finalizer_gc split: option.splits)

lemma held_by_objs: "held_by h r = ud_objs h r"
proof (cases "get (h_userdata h) r")
  case (Some u)
  have "c \<in> set (userdata_children u) \<longleftrightarrow> userdata_refers u c" for c
    by (cases "ud_secret_value u") (auto simp: userdata_children_def userdata_refers_def points_val opt_list_mem)
  then show ?thesis using Some by (auto simp: held_by_def ud_objs_def)
qed (simp add: held_by_def ud_objs_def)

lemma survivors_cycle: "sound_heap (l_heap s) \<Longrightarrow> survivors s = cycle_roots (l_heap s) (state_roots s)"
  by (simp add: survivors_def cycle_roots_def root_state black_objs_def due_unfinished held_by_objs)

lemma weak_held_in: "sound_heap h \<Longrightarrow> c \<in> weak_held h \<Longrightarrow> in_weak_table h c"
  by (fastforce simp: weak_held_def in_weak_table_def weak_table_iff weak_table_strings_def val_str_def List.map_filter_def
      split: Val.splits if_splits)

lemma kept_alive_bits: "kept_alive (w :: u8) \<longleftrightarrow> bit w 0 \<or> bit w 1"
  using flag_bits(3,4) [of w] by (auto simp: kept_alive_def bit.conj_disj_distrib or_eq_0_iff)

lemma ofrozen_bit: "ofrozen h ob \<longleftrightarrow> bit (oflags h ob) 0"
  by (simp add: ofrozen_def flag_bits)

lemma idle_ok: "idle h \<Longrightarrow> heap_ok h"
  by (simp add: idle_def)


text \<open>C6. A collection frees all garbage: an object alive at its end was alive before, and it is reachable through the
  fields of objects from the roots, the running thread, the black literals or a userdata whose finalizer is still to
  run; or it is frozen or pinned; or it is a string in a weak table. A weak reference does not keep what it refers to,
  strings apart.\<close>

theorem collection_frees_garbage:
  assumes "idle (l_heap s)" "gc_phase (h_gc (l_heap s)) = Pause" "sound_heap (l_heap s)"
  shows "\<exists>n h'. gc_steps n call s = s\<lparr>l_heap := h'\<rparr> \<and> gc_phase (h_gc h') = Finalize
    \<and> (\<forall>ob. olive h' ob \<longrightarrow> olive (l_heap s) ob \<and> (ob \<in> reachable (l_heap s) (survivors s)
         \<or> in_weak_table (l_heap s) ob \<or> bit (oflags (l_heap s) ob) 0 \<or> bit (oflags (l_heap s) ob) 1))"
proof -
  obtain n a h' where c: "gc_steps n call s = s\<lparr>l_heap := h'\<rparr>" "cycle (l_heap s) (state_roots s) a h'"
    by (rule cycle_runs [OF assms(1,2)])
  note R = reachable_traced [OF idle_ok [OF assms(1)] assms(3)]
  have "gc_phase (h_gc h') = Finalize" using cycleD(4) [OF c(2)] by (simp add: swept_heap_def)
  then show ?thesis
    using c(1) cycle_garbage [OF c(2) assms(1)] weak_held_in [OF assms(3)]
    unfolding R survivors_cycle [OF assms(3)] kept_alive_bits by blast
qed


end
