(* ===== verification/GcBarriers.thy ===== *)
theory GcBarriers
  imports GcProps
begin

text \<open>
  The write barriers: a write into a black object while marking is under way, followed by its barrier, leaves a
  heap from which the atomic phase still marks everything. Thresholds and budgets of automatic steps.
\<close>

section \<open>Rewriting one object\<close>

text \<open>A heap in which one object may have new children; its colour and all else are as they were.\<close>

definition rewritten :: "obj \<Rightarrow> heap \<Rightarrow> heap \<Rightarrow> bool" where
  "rewritten p h w \<longleftrightarrow> heap_ok w \<and> ocolor w = ocolor h \<and> ofrozen w = ofrozen h \<and> h_gc w = h_gc h
     \<and> h_white w = h_white h \<and> is_weak w = is_weak h \<and> (\<forall>x. x \<noteq> p \<longrightarrow> ochildren w x = ochildren h x)"

lemma rewritten_tri:
  assumes t: "tri R E G h" and w: "rewritten p h w" and ch: "set (ochildren w p) \<subseteq> R"
  shows "tri R (insert p E) G w"
proof -
  have om: "omark w x = omark h x" for x using w unfolding rewritten_def omark_def by simp
  have "closed w R" using triD(2) [OF t] w ch unfolding closed_def rewritten_def by metis
  moreover have "listed R w its = listed R h its" for its
    using w om unfolding listed_def rewritten_def by (simp del: omark_simps)
  moreover have "x \<in> insert p E \<or> (\<forall>c \<in> set (ochildren w x). \<not> omark w c)" if "ocolor w x = Some Black" for x
    using triD(5) [OF t, of x] that w om unfolding rewritten_def by (metis insert_iff)
  ultimately show ?thesis using t w unfolding tri_def rewritten_def by (simp del: ocolor.simps omark_simps)
qed

lemma tri_seen:
  assumes "tri R (insert p E) G h" "\<forall>c \<in> set (ochildren h p). \<not> omark h c" shows "tri R E G h"
  using assms unfolding tri_def by blast

lemma tri_not_black:
  assumes "tri R (insert p E) G h" "ocolor h p \<noteq> Some Black" shows "tri R E G h"
  using assms unfolding tri_def by blast

section \<open>The back barrier\<close>

lemma table_rewritten:
  assumes ok: "heap_ok h"
    and mode: "check_weak_mode (h\<lparr>h_tables := get_mut (h_tables h) p (\<lambda>_. t')\<rparr>) = check_weak_mode h"
    and m: "get (h_tables h) p = Some t" "tmeta t' = tmeta t"
  shows "rewritten (OTab p) h (h\<lparr>h_tables := get_mut (h_tables h) p (\<lambda>_. t')\<rparr>)"
proof -
  let ?w = "h\<lparr>h_tables := get_mut (h_tables h) p (\<lambda>_. t')\<rparr>"
  have "heap_ok ?w" using ok by (simp add: heap_ok_def get_mut_inv)
  moreover have c: "ocolor ?w x = ocolor h x" for x by (cases x) simp_all
  have fl: "oflags ?w x = oflags h x" for x by (cases x) simp_all
  then have "ofrozen ?w = ofrozen h" by (simp add: ofrozen_def fun_eq_iff)
  moreover have "is_weak ?w r = is_weak h r" for r
    unfolding is_weak_def mode using m by (simp add: get_mut_get)
  moreover have "ochildren ?w x = ochildren h x" if "x \<noteq> OTab p" for x
  proof (cases x)
    case (OTab r)
    have "is_skip_traverse_or_frozen (h_tables ?w) r = is_skip_traverse_or_frozen (h_tables h) r"
      by (simp add: is_skip_traverse_or_frozen_def has_any_flag_mask_def cong: option.case_cong)
    moreover have "table_children ?w = table_children h" unfolding table_children_def mode ..
    moreover have "get (h_tables ?w) r = get (h_tables h) r" using that OTab by (simp add: get_mut_get)
    ultimately show ?thesis using fl OTab unfolding ochildren_def ofrozen_def by (simp cong: option.case_cong if_cong)
  qed (use fl in \<open>simp_all add: ochildren_def ofrozen_def\<close>)
  ultimately show ?thesis using c unfolding rewritten_def by (simp add: fun_eq_iff del: ocolor.simps)
qed


lemma tri_listed_again:
  assumes t: "tri R E G h" and it: "item_obj it = Some p" "p \<in> R" "\<not> ofrozen h p" "\<not> omark h p"
    and thr: "\<forall>r. p \<noteq> OThr r"
  shows "tri R E G (set_gc (\<lambda>g. g\<lparr>grayagain := grayagain g @ [it]\<rparr>) h)"
proof -
  have "listed R h (grayagain (h_gc h) @ [it])" using triD(8) [OF t] it by (auto simp: listed_def)
  moreover have "GThread r \<noteq> it" for r using it(1) thr by auto
  ultimately show ?thesis
    using t unfolding tri_def closed_def listed_def by (simp add: set_gc_def)
qed

lemma list_objs_snoc: "item_obj it = Some p \<Longrightarrow> list_objs (its @ [it]) = insert p (list_objs its)"
  by (auto simp: list_objs_def)

text \<open>C31. The back barrier: while marking is under way, an assignment gives a live table any new content, and
  the barrier follows. The tricolour invariant, in the form the atomic phase needs, still holds: a black table
  has gone gray onto the second list, to be visited again.\<close>

theorem barrier_back_restores:
  assumes "tri R {} (list_objs (grayagain (h_gc h))) h" "gc_phase (h_gc h) = Propagate" "\<not> ofrozen h (OTab p)"
    and "get (h_tables h) p = Some t" "tmeta t' = tmeta t" "set (table_children h t') \<subseteq> R"
    and "check_weak_mode (h\<lparr>h_tables := get_mut (h_tables h) p (\<lambda>_. t')\<rparr>) = check_weak_mode h"
  shows "tri R {} (list_objs (grayagain (h_gc (barrier_back p (h\<lparr>h_tables := get_mut (h_tables h) p (\<lambda>_. t')\<rparr>)))))
    (barrier_back p (h\<lparr>h_tables := get_mut (h_tables h) p (\<lambda>_. t')\<rparr>))"
proof -
  let ?w = "h\<lparr>h_tables := get_mut (h_tables h) p (\<lambda>_. t')\<rparr>"
  note t = assms(1)
  have rw: "rewritten (OTab p) h ?w" by (rule table_rewritten [OF triD(1) [OF t] assms(7,4,5)])
  have gt: "get (h_tables ?w) p = Some t'" using assms(4) by (simp add: get_mut_get)
  have "ochildren ?w (OTab p) = [] \<or> ochildren ?w (OTab p) = table_children ?w t'"
    using gt by (auto simp: ochildren_def)
  moreover have "table_children ?w t' = table_children h t'" unfolding table_children_def assms(7) ..
  ultimately have ch: "set (ochildren ?w (OTab p)) \<subseteq> R" using assms(6) by auto
  have t1: "tri R (insert (OTab p) {}) (list_objs (grayagain (h_gc h))) ?w" by (rule rewritten_tri [OF t rw ch])
  have okw: "heap_ok ?w" using rw by (simp add: rewritten_def)
  show ?thesis
  proof (cases "ocolor ?w (OTab p) = Some Black")
    case False
    then have "barrier_back p ?w = ?w"
      unfolding barrier_back_def by (simp add: is_black_def split: option.split)
    then show ?thesis using tri_not_black [OF t1 False] by simp
  next
    case True
    let ?h1 = "set_ocolor (OTab p) Gray ?w"
    have e: "barrier_back p ?w = set_gc (\<lambda>g. g\<lparr>grayagain := grayagain g @ [GTable p]\<rparr>) ?h1"
      using True assms(2) by (simp add: barrier_back_def is_black_def color_table_def set_ocolor.simps)
    have pR: "OTab p \<in> R" using triD(4) [OF t1 True] .
    have t2: "tri R {OTab p} (insert (OTab p) (list_objs (grayagain (h_gc h)))) ?h1" by (rule regray [OF t1 pR]) simp
    have gray: "ocolor ?h1 (OTab p) \<noteq> Some Black"
      using set_ocolor_color [OF okw, of "OTab p" Gray "OTab p"] gt by simp
    have t3: "tri R {} (insert (OTab p) (list_objs (grayagain (h_gc h)))) ?h1" by (rule tri_not_black [OF t2 gray])
    have "\<not> omark ?h1 (OTab p)" using set_ocolor_omark [OF okw, of Gray "OTab p" "OTab p"] by simp
    moreover have "\<not> ofrozen ?h1 (OTab p)"
      using same_shape_flags(2) [OF set_ocolor_shape, of ?w "OTab p" Gray] rw assms(3) by (simp add: rewritten_def)
    ultimately have "tri R {} (insert (OTab p) (list_objs (grayagain (h_gc h)))) (barrier_back p ?w)"
      unfolding e by (intro tri_listed_again [OF t3 _ pR]) simp_all
    moreover have "grayagain (h_gc (barrier_back p ?w)) = grayagain (h_gc h) @ [GTable p]"
      unfolding e by (simp add: set_gc_def)
    ultimately show ?thesis by (simp add: list_objs_snoc)
  qed
qed

section \<open>The forward barrier\<close>

lemma upvalue_rewritten:
  assumes ok: "heap_ok h"
  shows "rewritten (OUpv r) h (h\<lparr>h_upvalues := get_mut (h_upvalues h) r f\<rparr>)"
proof -
  let ?w = "h\<lparr>h_upvalues := get_mut (h_upvalues h) r f\<rparr>"
  have "find_interned_string n ?w = find_interned_string n h" for n
    by (simp add: find_interned_string_def cong: option.case_cong)
  then have mode: "check_weak_mode ?w = check_weak_mode h"
    by (simp add: check_weak_mode_def fun_eq_iff cong: option.case_cong Val.case_cong)
  have "heap_ok ?w" using ok by (simp add: heap_ok_def get_mut_inv)
  moreover have c: "ocolor ?w x = ocolor h x" for x by (cases x) simp_all
  have fl: "oflags ?w x = oflags h x" for x by (cases x) simp_all
  then have "ofrozen ?w = ofrozen h" by (simp add: ofrozen_def fun_eq_iff)
  moreover have "is_weak ?w = is_weak h" by (simp add: is_weak_def [abs_def] mode cong: option.case_cong)
  moreover have "ochildren ?w x = ochildren h x" if "x \<noteq> OUpv r" for x
    using that fl mode by (cases x)
      (simp_all add: ochildren_def ofrozen_def get_mut_get table_children_def cong: option.case_cong if_cong)
  ultimately show ?thesis using c unfolding rewritten_def by (simp add: fun_eq_iff del: ocolor.simps)
qed

text \<open>Outside a sweep no unfrozen object has the white of the last cycle.\<close>

definition whites_current :: "heap \<Rightarrow> bool" where
  "whites_current h \<longleftrightarrow> (\<forall>ob c. ocolor h ob = Some c \<longrightarrow> is_white c \<longrightarrow> c = h_white h \<or> ofrozen h ob)"

lemma whites_current_mk:
  assumes "whites_current h" "mk S R h h'" shows "whites_current h'"
proof -
  have e: "h_white h' = h_white h" "ofrozen h' = ofrozen h"
    using mkD(1) [OF assms(2)] same_shape_flags(2) [OF mkD(1) [OF assms(2)]] by (simp_all add: same_shape_def)
  have "ocolor h ob = Some c" if "ocolor h' ob = Some c" "is_white c" for ob c
    using that mk_darker [OF assms(2)] unfolding darker_def by blast
  then show ?thesis using assms(1) unfolding whites_current_def e by blast
qed

lemma barrier_forward_marks:
  assumes t: "tri R {OUpv r} G w" and ph: "gc_phase (h_gc w) = Propagate" and whites: "whites_current w"
    and ch: "set (ochildren w (OUpv r)) \<subseteq> set (val_obj v)" "set (val_obj v) \<subseteq> R"
    and col: "ocolor w (OUpv r) = Some c"
  shows "tri R {} G (barrier_forward_val c v w) \<and> mk {} R w (barrier_forward_val c v w)"
proof (cases "c = Black")
  case False
  then have "barrier_forward_val c v w = w" by (simp add: barrier_forward_val_def is_black_def)
  then show ?thesis using tri_not_black [OF t] col False mk_refl [OF triD(1) [OF t]] by simp
next
  case True
  have cc: "child_color w v = Some (h_white w)" if ob: "ob \<in> set (val_obj v)" and om: "omark w ob" for ob
  proof -
    have "child_color w v = ocolor w ob" using ob by (cases v) (auto simp: val_obj_def child_color_def)
    moreover obtain d where "ocolor w ob = Some d" "is_white d" "\<not> ofrozen w ob"
      using om by (auto simp: omark_def simp del: omark_simps split: option.splits)
    ultimately show ?thesis using whites unfolding whites_current_def by auto
  qed
  show ?thesis
  proof (cases "child_color w v = Some (h_white w)")
    case True': True
    then have e: "barrier_forward_val c v w = mark_value v w"
      using True ph by (simp add: barrier_forward_val_def is_black_def)
    have m: "mkm R w (mark_value v w) (val_obj v)" by (rule mkm_marks [OF marks_value triD(1,2) [OF t] ch(2)])
    then have mk: "mk {} R w (mark_value v w)" by (simp add: mkm_def)
    have t1: "tri R (insert (OUpv r) {}) G (mark_value v w)" using tri_mk [OF t mk] by simp
    have "ochildren (mark_value v w) (OUpv r) = ochildren w (OUpv r)"
      using ochildren_shape [OF triD(1) [OF t] mkD(2) [OF mk] mkD(1) [OF mk]] by simp
    then have "\<forall>c \<in> set (ochildren (mark_value v w) (OUpv r)). \<not> omark (mark_value v w) c"
      using m ch(1) unfolding mkm_def by auto
    then show ?thesis unfolding e using tri_seen [OF t1] mk by blast
  next
    case False
    then have e: "barrier_forward_val c v w = w" by (simp add: barrier_forward_val_def)
    have "\<forall>c \<in> set (ochildren w (OUpv r)). \<not> omark w c" using cc False ch(1) by blast
    then show ?thesis unfolding e using tri_seen [of R "OUpv r" "{}"] t mk_refl [OF triD(1) [OF t]] by simp
  qed
qed

lemma close_one_tri:
  assumes t: "tri R {} G h" and ph: "gc_phase (h_gc h) = Propagate" and whites: "whites_current h"
    and st: "set (vals_objs st) \<subseteq> R" and op: "uv_index h r = Some i"
  shows "tri R {} G (close_one st r h) \<and> gc_phase (h_gc (close_one st r h)) = Propagate \<and> whites_current (close_one st r h)"
proof -
  obtain uv where uv: "get (h_upvalues h) r = Some uv" "uv_state uv = Open i"
    using op by (cases "get (h_upvalues h) r") (auto simp: uv_index_def Objects.stack_index_def split: UpvalueState.splits)
  let ?w = "h\<lparr>h_upvalues := get_mut (h_upvalues h) r (\<lambda>uv. uv_close uv st)\<rparr>"
  let ?v = "if i < length st then st ! i else VNil"
  have cl: "uv_close uv st = uv\<lparr>uv_state := Closed ?v\<rparr>" using uv(2) by (simp add: uv_close_def)
  have rw: "rewritten (OUpv r) h ?w" by (rule upvalue_rewritten [OF triD(1) [OF t]])
  have gw: "get (h_upvalues ?w) r = Some (uv_close uv st)" using uv(1) by (simp add: get_mut_get)
  have okw: "heap_ok ?w" using rw by (simp add: rewritten_def)
  obtain c where c: "ocolor ?w (OUpv r) = Some c" using ocolor_live [OF okw, of "OUpv r"] gw by auto
  have ch: "set (ochildren ?w (OUpv r)) \<subseteq> set (val_obj ?v)"
    using gw cl by (auto simp: ochildren_def upvalue_children_def)
  have vR: "set (val_obj ?v) \<subseteq> R"
  proof (cases "i < length st")
    case True
    then have "?v \<in> set st" by simp
    then have "set (val_obj ?v) \<subseteq> set (vals_objs st)" unfolding vals_objs_def by fastforce
    then show ?thesis using st by blast
  qed (simp add: val_obj_def)
  have tw: "tri R {OUpv r} G ?w" by (rule rewritten_tri [OF t rw]) (use ch vR in blast)
  have phw: "gc_phase (h_gc ?w) = Propagate" and ww: "whites_current ?w"
    using ph whites rw unfolding whites_current_def rewritten_def by simp_all
  have e: "close_one st r h = barrier_forward_val c ?v ?w"
    using gw c cl by (simp add: close_one_def Let_def uv_get_def)
  have B: "tri R {} G (close_one st r h) \<and> mk {} R ?w (close_one st r h)"
    unfolding e by (rule barrier_forward_marks [OF tw phw ww ch vR c])
  have "gc_core (close_one st r h) = gc_core ?w" using mk_core B by blast
  then have "gc_phase (h_gc (close_one st r h)) = gc_phase (h_gc ?w)"
    unfolding gc_core_def by (drule_tac arg_cong [where f = gc_phase]) simp
  then show ?thesis using B phw whites_current_mk [OF ww conjunct2 [OF B]] by simp
qed

text \<open>C32. Closing upvalues while marking is under way keeps the tricolour invariant: what a black upvalue
  captures is marked by the forward barrier at once.\<close>

theorem close_upvalues_restores:
  assumes "tri R {} G (l_heap s)" "gc_phase (h_gc (l_heap s)) = Propagate" "whites_current (l_heap s)"
    and "set (vals_objs (stack s)) \<subseteq> R"
  shows "tri R {} G (l_heap (close_upvalues s level))"
proof -
  have "tri R {} G (snd (close_loop (stack s) level os h))"
    if "tri R {} G h" "gc_phase (h_gc h) = Propagate" "whites_current h" for os h
    using that
  proof (induction "stack s" level os h rule: close_loop.induct)
    case (2 level r rs h)
    show ?case
    proof (cases "uv_index h r")
      case (Some i)
      then show ?thesis using 2(1) [OF Some] close_one_tri [OF 2(2-4) assms(4) Some] 2(2) by simp
    qed (use 2(2) in simp)
  qed simp
  then show ?thesis using assms(1-3) by (simp add: close_upvalues_def split: prod.split) (metis snd_conv)
qed

end
