(* ===== verification/LuaInit.thy ===== *)
theory LuaInit
  imports GcBarriers
begin

text \<open>
  The state a new interpreter starts from: every arena and the intern table satisfy their invariants, all objects
  have the current white, every root is alive, and a collection may start.
\<close>

section \<open>Interning into a table of white strings\<close>

text \<open>At most \<open>k\<close> strings, all white, none ever freed; the bucket array has doubled at most \<open>k\<close> times.\<close>

definition white_strings :: "nat \<Rightarrow> string_table \<Rightarrow> string_arena \<Rightarrow> bool" where
  "white_strings k t a \<longleftrightarrow> st_inv t a \<and> free_head a = None \<and> colors a = replicate (length (entries a)) (color_to_byte White0)
     \<and> length (entries a) \<le> k \<and> length (buckets t) \<le> 2 ^ (5 + k)"

lemma white_strings_new: "white_strings 0 string_table_new arena_new"
  using st_inv_new by (simp add: white_strings_def) (simp add: arena_new_def string_table_new_def MIN_STR_TAB_SIZE_def)

lemma replicate_color:
  assumes "colors a = replicate (length (entries a)) (color_to_byte w)" "color a r = Some c" shows "c = w"
  using assms by (auto simp: color_def split: if_splits)

lemma st_grow_length: "length (buckets (st_grow t a)) \<le> 2 * length (buckets t)"
  by (auto simp: st_grow_def st_rehash_def saturating_mul_def Let_def intro: min.coboundedI1)

lemma intern_white:
  assumes w: "white_strings k t a" and k: "k < 56" and i: "intern t data a White0 = (t', a', r)"
  shows "white_strings (Suc k) t' a' \<and> get a' r \<noteq> None \<and> (\<forall>r0. get a r0 \<noteq> None \<longrightarrow> get a' r0 = get a r0)"
proof -
  have inv: "st_inv t a" and fh: "free_head a = None" and len: "length (entries a) \<le> k"
    and cols: "colors a = replicate (length (entries a)) (color_to_byte White0)" and bl: "length (buckets t) \<le> 2 ^ (5 + k)"
    using w by (simp_all add: white_strings_def)
  have "(2 :: nat) ^ (5 + k) < 2 ^ 62" using k by (intro power_strict_increasing) simp_all
  then have room: "st_room t" "has_room a" using bl len k by (simp_all add: st_room_def has_room_def)
  note P = intern_props [OF inv room i]
  have keep: "\<forall>r0. get a r0 \<noteq> None \<longrightarrow> get a' r0 = get a r0" using P(3) by fastforce
  show ?thesis
  proof (cases "\<exists>r1 s1. get a r1 = Some s1 \<and> sdata s1 = data")
    case True
    then obtain r1 s1 where l: "get a r1 = Some s1" "sdata s1 = data" by blast
    have "color a r1 \<noteq> Some (other_white White0)" using replicate_color [OF cols, of r1] by auto
    then have "t' = t" "a' = a" using intern_found [OF inv l, of White0] i by (simp_all add: resurrect_if_dead_def)
    moreover have "length (buckets t) \<le> 2 ^ (5 + Suc k)" using bl by (rule order_trans) simp
    ultimately show ?thesis using w P(2) keep by (simp add: white_strings_def)
  next
    case False
    let ?v = "lua_string_new data (lua_hash data)"
    obtain a1 r1 where al: "alloc a ?v White0 = (a1, r1)" by fastforce
    let ?bi = "bucket_index (lua_hash data) (length (buckets t))"
    let ?t1 = "t\<lparr>buckets := (buckets t)[?bi := buckets t ! ?bi @ [r1]], scount := scount t + 1\<rparr>"
    have "find_string a (lua_hash data) data (buckets t ! ?bi) = None"
      using find_string_iff [OF inv, of data] False by (metis option.exhaust)
    then have "intern t data a White0 = ((if scount ?t1 > length (buckets ?t1) then st_grow ?t1 a1 else ?t1), a1, r1)"
      using al by (simp add: intern_def intern_hashed_def Let_def)
    then have e: "t' = (if scount ?t1 > length (buckets ?t1) then st_grow ?t1 a1 else ?t1)" "a' = a1" "r = r1"
      using i by simp_all
    have a1: "a1 = a\<lparr>alen := alen a + 1, entries := entries a @ [\<lparr>egen = 0, estate = Occupied ?v\<rparr>],
        colors := colors a @ [color_to_byte White0], flags := flags a @ [0]\<rparr>"
      using al fh by (simp add: alloc_def Let_def)
    have "length (buckets t') \<le> 2 * length (buckets t)" using st_grow_length [of ?t1 a1] unfolding e(1) by simp
    also have "\<dots> \<le> 2 * 2 ^ (5 + k)" using bl by (rule mult_le_mono2)
    finally have "length (buckets t') \<le> 2 ^ (5 + Suc k)" unfolding add_Suc_right power_Suc .
    then show ?thesis using P(1,2) keep fh len cols
      unfolding white_strings_def e(2,3) a1 by (simp add: replicate_append_same)
  qed
qed

text \<open>Only the strings and the byte count change.\<close>

definition interned :: "heap \<Rightarrow> nat \<Rightarrow> heap \<Rightarrow> bool" where
  "interned h k h' \<longleftrightarrow> h' = h\<lparr>h_strings := h_strings h', h_string_arena := h_string_arena h', h_gc := h_gc h'\<rparr>
     \<and> gc_phase (h_gc h') = gc_phase (h_gc h) \<and> tmudata (h_gc h') = tmudata (h_gc h)
     \<and> white_strings k (h_strings h') (h_string_arena h')
     \<and> (\<forall>r. get (h_string_arena h) r \<noteq> None \<longrightarrow> get (h_string_arena h') r = get (h_string_arena h) r)"

lemma interned_trans: "interned a k b \<Longrightarrow> interned b m c \<Longrightarrow> interned a m c"
proof -
  assume ab: "interned a k b" and bc: "interned b m c"
  have "b = a\<lparr>h_strings := h_strings b, h_string_arena := h_string_arena b, h_gc := h_gc b\<rparr>"
    using ab unfolding interned_def by blast
  then obtain t s g where b: "b = a\<lparr>h_strings := t, h_string_arena := s, h_gc := g\<rparr>" by blast
  have "c = b\<lparr>h_strings := h_strings c, h_string_arena := h_string_arena c, h_gc := h_gc c\<rparr>"
    using bc unfolding interned_def by blast
  also have "\<dots> = a\<lparr>h_strings := h_strings c, h_string_arena := h_string_arena c, h_gc := h_gc c\<rparr>" by (simp add: b)
  finally show ?thesis using ab bc unfolding interned_def by auto
qed

lemma intern_string_interned:
  assumes "white_strings k (h_strings h) (h_string_arena h)" "k < 56" "h_white h = White0" "intern_string data h = (h', r)"
  shows "interned h (Suc k) h' \<and> get (h_string_arena h') r \<noteq> None"
proof -
  obtain t a r' where i: "intern (h_strings h) data (h_string_arena h) White0 = (t, a, r')" by (metis prod_cases3)
  note W = intern_white [OF assms(1,2) i]
  show ?thesis using assms(3,4) i W
    by (auto simp: intern_string_def intern_tracked_def interned_def Let_def track_alloc_def split: if_splits)
qed

lemma intern_names:
  assumes "white_strings k (h_strings h) (h_string_arena h)" "k + length names \<le> 56" "h_white h = White0"
  obtains h' rs where "fold (\<lambda>name (h, refs). case intern_string (ascii name) h of (h', r) \<Rightarrow> (h', refs @ [g r])) names (h, refs)
      = (h', refs @ map g rs)" "interned h (k + length names) h'" "\<forall>r \<in> set rs. get (h_string_arena h') r \<noteq> None"
  using assms
proof (induction names arbitrary: h k refs thesis)
  case Nil
  then show ?case by (fastforce simp: interned_def)
next
  case (Cons n names)
  obtain h1 r where i: "intern_string (ascii n) h = (h1, r)" by fastforce
  have I: "interned h (Suc k) h1 \<and> get (h_string_arena h1) r \<noteq> None"
    by (rule intern_string_interned [OF Cons.prems(2) _ Cons.prems(4) i]) (use Cons.prems(3) in simp)
  have w1: "white_strings (Suc k) (h_strings h1) (h_string_arena h1)" using I by (simp add: interned_def)
  have "h1 = h\<lparr>h_strings := h_strings h1, h_string_arena := h_string_arena h1, h_gc := h_gc h1\<rparr>"
    using I unfolding interned_def by blast
  then have wh: "h_white h1 = White0" using Cons.prems(4) by (metis heap.select_convs(8) heap.surjective heap.update_convs(1,2,13))
  obtain h' rs where R: "fold (\<lambda>name (h, refs). case intern_string (ascii name) h of (h', r) \<Rightarrow> (h', refs @ [g r])) names (h1, refs @ [g r])
      = (h', (refs @ [g r]) @ map g rs)" "interned h1 (Suc k + length names) h'" "\<forall>r \<in> set rs. get (h_string_arena h') r \<noteq> None"
    by (rule Cons.IH [OF _ w1 _ wh, of "refs @ [g r]"]) (use Cons.prems(3) in simp_all)
  have "get (h_string_arena h') r \<noteq> None" using R(2) I unfolding interned_def by simp
  then show ?case
    using Cons.prems(1) [of h' "r # rs"] R i interned_trans [of h "Suc k" h1] I by simp
qed

lemma init_names_interned:
  assumes "white_strings k (h_strings h) (h_string_arena h)" "k + length names \<le> 56" "h_white h = White0"
  obtains h' rs where "init_names names h = (h', map Some rs)" "interned h (k + length names) h'"
    "\<forall>r \<in> set rs. get (h_string_arena h') r \<noteq> None"
  by (rule intern_names [OF assms, of Some "[]"]) (auto intro: that simp: init_names_def)

lemma cache_names_interned:
  assumes "white_strings k (h_strings h) (h_string_arena h)" "k + length names \<le> 56" "h_white h = White0"
  obtains h' rs where "cache_names names h = (h', rs)" "interned h (k + length names) h'"
    "\<forall>r \<in> set rs. get (h_string_arena h') r \<noteq> None"
  by (rule intern_names [OF assms, of "\<lambda>r. r" "[]"]) (auto intro: that simp: cache_names_def)

lemma internedD:
  assumes "interned h k h'"
  shows "white_strings k (h_strings h') (h_string_arena h')" "get (h_string_arena h) r \<noteq> None \<Longrightarrow> get (h_string_arena h') r \<noteq> None"
    "h_tables h' = h_tables h" "h_closures h' = h_closures h" "h_upvalues h' = h_upvalues h" "h_userdata h' = h_userdata h"
    "h_threads h' = h_threads h" "h_white h' = h_white h" "h_type_metatables h' = h_type_metatables h"
    "h_tm_names h' = h_tm_names h" "h_type_name_refs h' = h_type_name_refs h"
    "h_static_intern_cache h' = h_static_intern_cache h"
    "gc_phase (h_gc h') = gc_phase (h_gc h)" "tmudata (h_gc h') = tmudata (h_gc h)"
proof -
  have e: "h' = h\<lparr>h_strings := h_strings h', h_string_arena := h_string_arena h', h_gc := h_gc h'\<rparr>"
    using assms unfolding interned_def by blast
  show "h_tables h' = h_tables h" "h_closures h' = h_closures h" "h_upvalues h' = h_upvalues h" "h_userdata h' = h_userdata h"
    "h_threads h' = h_threads h" "h_white h' = h_white h" "h_type_metatables h' = h_type_metatables h"
    "h_tm_names h' = h_tm_names h" "h_type_name_refs h' = h_type_name_refs h"
    "h_static_intern_cache h' = h_static_intern_cache h"
    by (subst e, simp)+
qed (use assms in \<open>auto simp: interned_def\<close>)

section \<open>The new heap and the new state\<close>

text \<open>What is known of the heap after \<open>k\<close> strings were interned into a fresh one.\<close>

definition fresh_heap :: "nat \<Rightarrow> heap \<Rightarrow> bool" where
  "fresh_heap k h \<longleftrightarrow> white_strings k (h_strings h) (h_string_arena h) \<and> h_tables h = arena_new \<and> h_closures h = arena_new
     \<and> h_upvalues h = arena_new \<and> h_userdata h = arena_new \<and> h_threads h = arena_new \<and> h_white h = White0
     \<and> h_type_metatables h = replicate NUM_TYPE_TAGS None \<and> h_static_intern_cache h = []
     \<and> gc_phase (h_gc h) = Pause \<and> tmudata (h_gc h) = []"

lemma fresh_interned: "fresh_heap k h \<Longrightarrow> interned h m h' \<Longrightarrow> fresh_heap m h'"
  using internedD [of h m h'] by (simp add: fresh_heap_def)

definition live_names :: "heap \<Rightarrow> GcRef list \<Rightarrow> bool" where
  "live_names h rs \<longleftrightarrow> (\<forall>r \<in> set rs. get (h_string_arena h) r \<noteq> None)"

lemma live_interned: "live_names h rs \<Longrightarrow> interned h m h' \<Longrightarrow> live_names h' rs"
  using internedD(2) [of h m h'] by (auto simp: live_names_def)

lemma names_lengths [simp]:
  "length TM_NAMES = 17" "length TYPE_NAMES = 9" "length HOOK_EVENT_NAMES = 5" "length HOOK_MASK_NAMES = 8"
  "length DEBUG_INFO_FIELD_NAMES = 11"
  by (simp_all add: TM_NAMES_def TYPE_NAMES_def HOOK_EVENT_NAMES_def HOOK_MASK_NAMES_def DEBUG_INFO_FIELD_NAMES_def)

lemma heap_new_fresh:
  obtains tms tys where "fresh_heap 26 heap_new" "h_tm_names heap_new = map Some tms" "h_type_name_refs heap_new = map Some tys"
    "live_names heap_new (tms @ tys)"
proof -
  define h0 where "h0 = \<lparr>h_strings = string_table_new, h_string_arena = arena_new, h_tables = arena_new, h_closures = arena_new,
          h_upvalues = arena_new, h_userdata = arena_new, h_threads = arena_new, h_white = White0,
          h_type_metatables = replicate NUM_TYPE_TAGS None, h_tm_names = replicate TM_N None,
          h_type_name_refs = replicate NUM_TYPE_TAGS None, h_static_intern_cache = [], h_gc = gc_state_new\<rparr>"
  have f0: "fresh_heap 0 h0" using white_strings_new by (simp add: fresh_heap_def h0_def gc_state_new_def)
  then have w0: "white_strings 0 (h_strings h0) (h_string_arena h0)" "h_white h0 = White0" by (simp_all add: fresh_heap_def)
  obtain h1 tms where 1: "init_names TM_NAMES h0 = (h1, map Some tms)" "interned h0 (0 + length TM_NAMES) h1" "live_names h1 tms"
    unfolding live_names_def by (rule init_names_interned [OF w0(1) _ w0(2), of TM_NAMES]) simp_all
  have f1: "fresh_heap 17 h1" using fresh_interned [OF f0 1(2)] by simp
  then have w1: "white_strings 17 (h_strings h1) (h_string_arena h1)" "h_white h1 = White0" by (simp_all add: fresh_heap_def)
  obtain h2 tys where 2: "init_names TYPE_NAMES h1 = (h2, map Some tys)" "interned h1 (17 + length TYPE_NAMES) h2" "live_names h2 tys"
    unfolding live_names_def by (rule init_names_interned [OF w1(1) _ w1(2), of TYPE_NAMES]) simp_all
  have f2: "fresh_heap 26 h2" using fresh_interned [OF f1 2(2)] by simp
  have e: "heap_new = h2\<lparr>h_tm_names := map Some tms, h_type_name_refs := map Some tys\<rparr>"
    unfolding heap_new_def h0_def [symmetric] using 1(1) 2(1) by simp
  have "live_names h2 tms" by (rule live_interned [OF 1(3) 2(2)])
  then show ?thesis using f2 2(3) by (intro that [of tms tys]) (auto simp: e fresh_heap_def live_names_def)
qed

lemma cache_names_fresh:
  assumes "fresh_heap k h" "k + length names \<le> 56"
  obtains h' rs where "cache_names names h = (h', rs)" "interned h (k + length names) h'" "fresh_heap (k + length names) h'"
    "live_names h' rs"
proof -
  have w: "white_strings k (h_strings h) (h_string_arena h)" "h_white h = White0" using assms(1) by (simp_all add: fresh_heap_def)
  show ?thesis
    by (rule cache_names_interned [OF w(1) assms(2) w(2)])
      (use that fresh_interned [OF assms(1)] in \<open>simp add: live_names_def\<close>)
qed

lemma alloc_table_ok:
  assumes "arena_inv (h_tables h)" "has_room (h_tables h)"
  shows "arena_inv (h_tables (fst (alloc_table t h)))" "get (h_tables (fst (alloc_table t h))) = (get (h_tables h))(snd (alloc_table t h) \<mapsto> t)"
  using alloc_props(1,2) [OF assms, of t "h_white h"] by (simp_all add: alloc_table_def split_beta)

lemma lua_new_ok:
  "idle (l_heap lua_new) \<and> gc_phase (h_gc (l_heap lua_new)) = Pause \<and> tmudata (h_gc (l_heap lua_new)) = []
   \<and> st_inv (h_strings (l_heap lua_new)) (h_string_arena (l_heap lua_new))
   \<and> state_roots lua_new \<subseteq> {ob. olive (l_heap lua_new) ob}
   \<and> get (h_tables (l_heap lua_new)) (GcRef 0 0) = Some table_new
   \<and> (\<forall>r t. get (h_tables (l_heap lua_new)) r = Some t \<longrightarrow> t = table_new)
   \<and> colors (h_tables (l_heap lua_new)) = replicate 2 (color_to_byte White0)
   \<and> flags (h_tables (l_heap lua_new)) = [0, 0] \<and> l_global lua_new = GcRef 0 0
   \<and> h_userdata (l_heap lua_new) = arena_new \<and> h_white (l_heap lua_new) = White0
   \<and> colors (h_string_arena (l_heap lua_new)) = replicate (length (entries (h_string_arena (l_heap lua_new)))) (color_to_byte White0)"
proof -
  obtain tms tys where H: "fresh_heap 26 heap_new" "h_tm_names heap_new = map Some tms"
    "h_type_name_refs heap_new = map Some tys" "live_names heap_new (tms @ tys)"
    by (rule heap_new_fresh)
  obtain h1 ev where 1: "cache_names HOOK_EVENT_NAMES heap_new = (h1, ev)" "interned heap_new 31 h1" "fresh_heap 31 h1"
    "live_names h1 ev"
    by (rule cache_names_fresh [OF H(1), of HOOK_EVENT_NAMES]) simp_all
  obtain h2 mk where 2: "cache_names HOOK_MASK_NAMES h1 = (h2, mk)" "interned h1 39 h2" "fresh_heap 39 h2" "live_names h2 mk"
    by (rule cache_names_fresh [OF 1(3), of HOOK_MASK_NAMES]) simp_all
  obtain h3 fd where 3: "cache_names DEBUG_INFO_FIELD_NAMES h2 = (h3, fd)" "interned h2 50 h3" "fresh_heap 50 h3" "live_names h3 fd"
    by (rule cache_names_fresh [OF 2(3), of DEBUG_INFO_FIELD_NAMES]) simp_all
  have n: "h_tm_names h3 = map Some tms" "h_type_name_refs h3 = map Some tys"
    using H(2,3) internedD(10,11) [OF 1(2)] internedD(10,11) [OF 2(2)] internedD(10,11) [OF 3(2)] by simp_all
  have l: "live_names h3 (tms @ tys)" "live_names h3 ev" "live_names h3 mk"
    using live_interned [OF live_interned [OF live_interned [OF H(4) 1(2)] 2(2)] 3(2)]
      live_interned [OF live_interned [OF 1(4) 2(2)] 3(2)] live_interned [OF 2(4) 3(2)] by blast+
  define h4 where "h4 = fst (alloc_table table_new h3)"
  define h5 where "h5 = fst (alloc_table table_new h4)"
  let ?s = "lua_new"
  have s: "l_heap ?s = h5" "l_global ?s = snd (alloc_table table_new h3)" "registry ?s = snd (alloc_table table_new h4)"
    "hook_event_names ?s = ev" "hook_mask_names ?s = mk" "debug_info_field_names ?s = fd" "stack ?s = replicate BASIC_STACK_SIZE VNil"
    "l_top ?s = 1" "open_upvalues ?s = []" "error_object ?s = None" "l_hook ?s = hook_new" "global_slots ?s = None"
    "saved_threads ?s = []" "call_stack ?s = [call_info_new 0 1 (1 + LUA_MINSTACK) LUA_MULTRET]" "l_ci ?s = 0"
    using 1(1) 2(1) 3(1) by (simp_all add: lua_new_def h4_def h5_def split_beta)
  have t3: "h_tables h3 = arena_new" using 3(3) by (simp add: fresh_heap_def)
  have i3: "arena_inv (h_tables h3)" and r3: "has_room (h_tables h3)"
    using arena_inv_new by (simp_all add: t3 has_room_def arena_new_def)
  have i4: "arena_inv (h_tables h4)" and r4: "has_room (h_tables h4)"
    using alloc_table_ok(1) [OF i3 r3] by (simp_all add: h4_def t3 alloc_table_def alloc_def arena_new_def has_room_def split_beta Let_def)
  have i5: "arena_inv (h_tables h5)" using alloc_table_ok(1) [OF i4 r4] by (simp add: h5_def)
  have live: "get (h_tables h5) (l_global ?s) = Some table_new" "get (h_tables h5) (registry ?s) \<noteq> None"
    using alloc_table_ok(2) [OF i3 r3, of table_new] alloc_table_ok(2) [OF i4 r4, of table_new]
    unfolding s(2,3) h4_def [symmetric] h5_def [symmetric] by auto
  have tabs: "t = table_new" if "get (h_tables h5) r = Some t" for r t
    using that alloc_table_ok(2) [OF i3 r3, of table_new] alloc_table_ok(2) [OF i4 r4, of table_new]
    unfolding h4_def [symmetric] h5_def [symmetric] by (simp add: t3 arena_new_def get_def split: if_splits)
  have w3: "h_white h3 = White0" using 3(3) by (simp add: fresh_heap_def)
  have col: "colors (h_tables h5) = replicate (length (entries (h_tables h5))) (color_to_byte White0)"
    and col2: "colors (h_tables h5) = replicate 2 (color_to_byte White0)" "flags (h_tables h5) = [0, 0]"
      "l_global ?s = GcRef 0 0"
    by (simp_all add: s(2) numeral_2_eq_2 h5_def h4_def t3 w3 alloc_table_def alloc_def arena_new_def split_beta Let_def)
  have rest: "h_string_arena h5 = h_string_arena h3" "h_strings h5 = h_strings h3" "h_closures h5 = arena_new" "h_upvalues h5 = arena_new"
    "h_userdata h5 = arena_new" "h_threads h5 = arena_new" "h_white h5 = White0" "gc_phase (h_gc h5) = Pause" "tmudata (h_gc h5) = []"
    "h_type_metatables h5 = replicate NUM_TYPE_TAGS None" "h_tm_names h5 = map Some tms" "h_type_name_refs h5 = map Some tys"
    "h_static_intern_cache h5 = []"
    using 3(3) n by (simp_all add: h5_def h4_def alloc_table_def split_beta fresh_heap_def track_alloc_def Let_def)
  have ws: "white_strings 50 (h_strings h5) (h_string_arena h5)" using 3(3) by (simp add: rest fresh_heap_def)
  then have st: "st_inv (h_strings h5) (h_string_arena h5)"
    and cs: "colors (h_string_arena h5) = replicate (length (entries (h_string_arena h5))) (color_to_byte White0)"
    by (simp_all add: white_strings_def)
  have none: "color arena_new r = (None :: Color option)" for r by (simp add: color_def arena_new_def)
  have "c = White0" if "ocolor h5 ob = Some c" for ob c
    using that replicate_color [OF cs] replicate_color [OF col] by (cases ob) (simp_all add: rest none)
  moreover have "heap_ok h5" 
    using i5 st by (simp add: heap_ok_def rest st_inv_def arena_inv_new [where ?'a = Closure] arena_inv_new [where ?'a = upvalue]
        arena_inv_new [where ?'a = userdata] arena_inv_new [where ?'a = lthread])
  ultimately have "idle h5" by (simp add: idle_def rest)
  moreover have "olive h5 ob" if "ob \<in> state_roots ?s" for ob
    using that live l 3(4)
    by (auto simp: state_roots_def base_objs_def running_objs_def s rest gc_root_objs_def cached_objs_def live_names_def
        hook_new_def opt_objs_def opt_list_def vals_objs_def map_filter_simps frame_functions_def call_info_new_def
        BASIC_STACK_SIZE_def val_obj_def split: if_splits)
  ultimately show ?thesis using st live(1) [unfolded col2(3)] col2 cs tabs by (auto simp: s(1) rest)
qed

text \<open>C33. A new interpreter state satisfies the invariants of the collector and of the intern table, every root
  is alive, and a collection may start: the state from which every history of the collector begins.\<close>

theorem new_state_idle:
  "idle (l_heap lua_new) \<and> gc_phase (h_gc (l_heap lua_new)) = Pause \<and> tmudata (h_gc (l_heap lua_new)) = []
   \<and> st_inv (h_strings (l_heap lua_new)) (h_string_arena (l_heap lua_new))
   \<and> state_roots lua_new \<subseteq> {ob. olive (l_heap lua_new) ob}"
  using lua_new_ok by blast

section \<open>The properties of a collection at the new state\<close>

lemma lua_new_start: "idle (l_heap lua_new)" "gc_phase (h_gc (l_heap lua_new)) = Pause"
  using lua_new_ok by blast+

lemma lua_new_sound: "sound_heap (l_heap lua_new)"
proof -
  have "table_inv (h_string_arena (l_heap lua_new)) table_new" by (simp add: table_inv_def table_new_def)
  then show ?thesis using lua_new_ok unfolding sound_heap_def by blast
qed


lemma collection_frees_garbage_witness:
  "\<exists>n h'. gc_steps n (\<lambda>_ s. (s, None :: nat option)) lua_new = lua_new\<lparr>l_heap := h'\<rparr> \<and> gc_phase (h_gc h') = Finalize
     \<and> {ob. olive h' ob} \<subseteq> {ob. olive (l_heap lua_new) ob}"
  using collection_frees_garbage [OF lua_new_start lua_new_sound, of "\<lambda>_ s. (s, None :: nat option)"] by blast


text \<open>The new heap with marking under way.\<close>

definition demo_marking :: heap where
  "demo_marking = set_phase Propagate (clear_marking (l_heap lua_new))"

lemma demo_marking_tri: "tri UNIV {} {} demo_marking"
proof -
  have "tri UNIV {} {} (clear_marking (l_heap lua_new))"
    by (rule idle_tri [OF lua_new_start(1)]) (simp_all add: closed_def)
  then show ?thesis unfolding tri_def closed_def listed_def demo_marking_def set_phase_def set_gc_def by simp
qed

lemma demo_marking_heap:
  "h_tables demo_marking = h_tables (l_heap lua_new)" "gc_phase (h_gc demo_marking) = Propagate"
  "grayagain (h_gc demo_marking) = []" "h_string_arena demo_marking = h_string_arena (l_heap lua_new)"
  "h_white demo_marking = h_white (l_heap lua_new)"
  by (simp_all add: demo_marking_def set_phase_def clear_marking_def set_gc_def)

lemma demo_marking_frozen: "\<not> ofrozen demo_marking (OTab (l_global lua_new))"
  using lua_new_ok by (simp add: ofrozen_def demo_marking_heap)

lemma lookup_str_new: "lookup_str (table_new\<lparr>arr := vs\<rparr>) r strings = VNil"
  by (simp add: lookup_str_def get_str_def table_new_def)

lemma barrier_back_restores_witness:
  "tri UNIV {} (list_objs (grayagain (h_gc (barrier_back (l_global lua_new)
       (demo_marking\<lparr>h_tables := get_mut (h_tables demo_marking) (l_global lua_new) (\<lambda>_. table_new\<lparr>arr := [VTable (l_global lua_new)]\<rparr>)\<rparr>)))))
     (barrier_back (l_global lua_new)
       (demo_marking\<lparr>h_tables := get_mut (h_tables demo_marking) (l_global lua_new) (\<lambda>_. table_new\<lparr>arr := [VTable (l_global lua_new)]\<rparr>)\<rparr>))"
proof (rule barrier_back_restores [OF _ demo_marking_heap(2) demo_marking_frozen, where t = table_new])
  show g: "get (h_tables demo_marking) (l_global lua_new) = Some table_new" using lua_new_ok by (simp add: demo_marking_heap)
  show "tri UNIV {} (list_objs (grayagain (h_gc demo_marking))) demo_marking"
    using demo_marking_tri by (simp add: demo_marking_heap list_objs_simps)
  have n: "lookup_str table_new r st = VNil" for r st using lookup_str_new [of "[]"] by (simp add: table_new_def)
  let ?t = "table_new\<lparr>arr := [VTable (l_global lua_new)]\<rparr>"
  let ?w = "demo_marking\<lparr>h_tables := get_mut (h_tables demo_marking) (l_global lua_new) (\<lambda>_. ?t)\<rparr>"
  have f: "find_interned_string x ?w = find_interned_string x demo_marking" for x by (simp add: find_interned_string_def cong: option.case_cong)
  have "check_weak_mode ?w mt = check_weak_mode demo_marking mt" for mt
  proof (cases "mt = Some (l_global lua_new)")
    case True
    then show ?thesis using g by (simp add: check_weak_mode_def get_mut_get lookup_str_new n split: option.split)
  next
    case False
    then have "Option.bind mt (get (h_tables ?w)) = Option.bind mt (get (h_tables demo_marking))"
      by (cases mt) (simp_all add: get_mut_get)
    then show ?thesis unfolding check_weak_mode_def f by (simp cong: option.case_cong Val.case_cong)
  qed
  then show "check_weak_mode ?w = check_weak_mode demo_marking" by (rule ext)
qed simp_all

lemma close_upvalues_restores_witness:
  "tri UNIV {} {} (l_heap (close_upvalues (lua_new\<lparr>l_heap := demo_marking\<rparr>) 0))"
proof (rule close_upvalues_restores)
  show "tri UNIV {} {} (l_heap (lua_new\<lparr>l_heap := demo_marking\<rparr>))" using demo_marking_tri by simp
  have "c = White0" if "ocolor demo_marking ob = Some c" "is_white c" for ob c
  proof -
    have "ocolor (l_heap lua_new) ob = Some c"
      using that(1) by (cases ob) (simp_all add: demo_marking_def set_phase_def clear_marking_def set_gc_def)
    then have "c = h_white (l_heap lua_new) \<or> c = Black" using lua_new_start(1) unfolding idle_def by blast
    then show ?thesis using that(2) lua_new_ok by auto
  qed
  then show "whites_current (l_heap (lua_new\<lparr>l_heap := demo_marking\<rparr>))"
    using lua_new_ok by (auto simp: whites_current_def demo_marking_heap simp del: ocolor.simps)
qed (simp_all add: demo_marking_heap)

end
