(* ===== verification/Freeze.thy ===== *)
theory Freeze
  imports Tricolor
begin

text \<open>
  Freezing the objects reachable from a table (\<^verbatim>\<open>src/vm/gc/freeze.rs\<close>) and pinning single objects
  (\<^verbatim>\<open>src/vm/gc/pin.rs\<close>). The work list ends with the whole graph flagged, cycles included.
\<close>

section \<open>The work list\<close>

record freeze_stats =
  fz_tables :: u32
  fz_closures :: u32
  fz_upvalues :: u32
  fz_userdata :: u32

definition freeze_stats_default :: freeze_stats where
  "freeze_stats_default = \<lparr>fz_tables = 0, fz_closures = 0, fz_upvalues = 0, fz_userdata = 0\<rparr>"

definition fz_total :: "freeze_stats \<Rightarrow> u32" where
  "fz_total st = fz_tables st + fz_closures st + fz_upvalues st + fz_userdata st"

datatype FreezeTarget = FzTable GcRef | FzClosure GcRef | FzUpvalue GcRef | FzUserdata GcRef

text \<open>The queue is popped from the end of its vector; here its head is that end.\<close>

definition enqueue_val :: "Val \<Rightarrow> FreezeTarget list \<Rightarrow> FreezeTarget list" where
  "enqueue_val v q = (case v of VTable r \<Rightarrow> FzTable r # q | VFunction r \<Rightarrow> FzClosure r # q
     | VUserdata r \<Rightarrow> FzUserdata r # q | _ \<Rightarrow> q)"

definition enqueue_opt_table :: "GcRef option \<Rightarrow> FreezeTarget list \<Rightarrow> FreezeTarget list" where
  "enqueue_opt_table x q = (case x of Some r \<Rightarrow> FzTable r # q | None \<Rightarrow> q)"

definition hash_node_count :: "table \<Rightarrow> u32" where
  "hash_node_count t = word_of_nat (length (nodes t))"

definition hash_node_kv :: "table \<Rightarrow> nat \<Rightarrow> (Val \<times> Val) option" where
  "hash_node_kv t i = (if i < length (nodes t) then
     (if is_nil (nkey (nodes t ! i)) then None else Some (nkey (nodes t ! i), nvalue (nodes t ! i))) else None)"

definition freeze_table_children :: "table \<Rightarrow> Val list" where
  "freeze_table_children t = arr t @ concat (map (\<lambda>i. case hash_node_kv t i of None \<Rightarrow> [] | Some (k, v) \<Rightarrow> [k, v])
     [0..<unat (hash_node_count t)])"

type_synonym freeze_state = "heap \<times> FreezeTarget list \<times> freeze_stats"

definition freeze_table_entry :: "GcRef \<Rightarrow> freeze_state \<Rightarrow> freeze_state" where
  "freeze_table_entry r s = (case s of (h, q, st) \<Rightarrow>
     if is_frozen (h_tables h) r then s
     else case set_flag (h_tables h) r Frozen of (a, flagged) \<Rightarrow>
       if \<not> flagged then s
       else (h\<lparr>h_tables := a\<rparr>,
         (case get a r of None \<Rightarrow> q | Some t \<Rightarrow> fold enqueue_val (freeze_table_children t) (enqueue_opt_table (tmeta t) q)),
         st\<lparr>fz_tables := fz_tables st + 1\<rparr>))"

definition freeze_closure_entry :: "GcRef \<Rightarrow> freeze_state \<Rightarrow> freeze_state" where
  "freeze_closure_entry r s = (case s of (h, q, st) \<Rightarrow>
     if is_frozen (h_closures h) r then s
     else case set_flag (h_closures h) r Frozen of (a, flagged) \<Rightarrow>
       if \<not> flagged then s
       else (h\<lparr>h_closures := a\<rparr>,
         (case get a r of None \<Rightarrow> q
          | Some (LuaC lc) \<Rightarrow> fold (\<lambda>u q. FzUpvalue u # q) (lc_upvalues lc) (FzTable (lc_env lc) # q)
          | Some (RustC rc) \<Rightarrow> fold enqueue_val (rc_upvalues rc) (enqueue_opt_table (rc_env rc) q)),
         st\<lparr>fz_closures := fz_closures st + 1\<rparr>))"

definition freeze_upvalue_entry :: "GcRef \<Rightarrow> freeze_state \<Rightarrow> freeze_state" where
  "freeze_upvalue_entry r s = (case s of (h, q, st) \<Rightarrow>
     if is_frozen (h_upvalues h) r then s
     else case set_flag (h_upvalues h) r Frozen of (a, flagged) \<Rightarrow>
       if \<not> flagged then s
       else (h\<lparr>h_upvalues := a\<rparr>,
         (case get a r of None \<Rightarrow> q | Some u \<Rightarrow> (case uv_state u of Closed v \<Rightarrow> enqueue_val v q | Open _ \<Rightarrow> q)),
         st\<lparr>fz_upvalues := fz_upvalues st + 1\<rparr>))"

definition freeze_userdata_entry :: "GcRef \<Rightarrow> freeze_state \<Rightarrow> freeze_state" where
  "freeze_userdata_entry r s = (case s of (h, q, st) \<Rightarrow>
     if is_frozen (h_userdata h) r then s
     else case set_flag (h_userdata h) r Frozen of (a, flagged) \<Rightarrow>
       if \<not> flagged then s
       else (h\<lparr>h_userdata := a\<rparr>,
         (case get a r of None \<Rightarrow> q
          | Some u \<Rightarrow> (case ud_secret_value u of None \<Rightarrow> id | Some v \<Rightarrow> enqueue_val v)
              (enqueue_opt_table (ud_env u) (enqueue_opt_table (ud_metatable u) q))),
         st\<lparr>fz_userdata := fz_userdata st + 1\<rparr>))"

definition freeze_entry :: "FreezeTarget \<Rightarrow> freeze_state \<Rightarrow> freeze_state" where
  "freeze_entry tgt = (case tgt of FzTable r \<Rightarrow> freeze_table_entry r | FzClosure r \<Rightarrow> freeze_closure_entry r
     | FzUpvalue r \<Rightarrow> freeze_upvalue_entry r | FzUserdata r \<Rightarrow> freeze_userdata_entry r)"

text \<open>The loop has no bound of its own, so not ending is the value \<open>None\<close>.\<close>

partial_function (option) freeze_loop :: "heap \<Rightarrow> FreezeTarget list \<Rightarrow> freeze_stats \<Rightarrow> (heap \<times> freeze_stats) option" where
  "freeze_loop h q st = (case q of [] \<Rightarrow> Some (h, st)
     | tgt # rest \<Rightarrow> (case freeze_entry tgt (h, rest, st) of (h1, q1, st1) \<Rightarrow> freeze_loop h1 q1 st1))"

definition freeze_table :: "GcRef \<Rightarrow> heap \<Rightarrow> (heap \<times> freeze_stats) option" where
  "freeze_table root h = freeze_loop h [FzTable root] freeze_stats_default"

section \<open>Pinning\<close>

definition pin_object :: "Val \<Rightarrow> heap \<Rightarrow> heap \<times> bool" where
  "pin_object v h = (case v of
     VStr r \<Rightarrow> (case set_flag (h_string_arena h) r Pinned of (a, b) \<Rightarrow> (h\<lparr>h_string_arena := a\<rparr>, b))
   | VTable r \<Rightarrow> (case set_flag (h_tables h) r Pinned of (a, b) \<Rightarrow> (h\<lparr>h_tables := a\<rparr>, b))
   | VFunction r \<Rightarrow> (case set_flag (h_closures h) r Pinned of (a, b) \<Rightarrow> (h\<lparr>h_closures := a\<rparr>, b))
   | VUserdata r \<Rightarrow> (case set_flag (h_userdata h) r Pinned of (a, b) \<Rightarrow> (h\<lparr>h_userdata := a\<rparr>, b))
   | VThread r \<Rightarrow> (case set_flag (h_threads h) r Pinned of (a, b) \<Rightarrow> (h\<lparr>h_threads := a\<rparr>, b))
   | _ \<Rightarrow> (h, False))"

definition mark_table_no_traverse :: "GcRef \<Rightarrow> heap \<Rightarrow> heap \<times> bool" where
  "mark_table_no_traverse r h = (case set_flag (h_tables h) r SkipTraverse of (a, b) \<Rightarrow> (h\<lparr>h_tables := a\<rparr>, b))"

section \<open>What a target is\<close>

primrec fz_live :: "heap \<Rightarrow> FreezeTarget \<Rightarrow> bool" where
  "fz_live h (FzTable r) \<longleftrightarrow> get (h_tables h) r \<noteq> None"
| "fz_live h (FzClosure r) \<longleftrightarrow> get (h_closures h) r \<noteq> None"
| "fz_live h (FzUpvalue r) \<longleftrightarrow> get (h_upvalues h) r \<noteq> None"
| "fz_live h (FzUserdata r) \<longleftrightarrow> get (h_userdata h) r \<noteq> None"

primrec fz_frozen :: "heap \<Rightarrow> FreezeTarget \<Rightarrow> bool" where
  "fz_frozen h (FzTable r) \<longleftrightarrow> is_frozen (h_tables h) r"
| "fz_frozen h (FzClosure r) \<longleftrightarrow> is_frozen (h_closures h) r"
| "fz_frozen h (FzUpvalue r) \<longleftrightarrow> is_frozen (h_upvalues h) r"
| "fz_frozen h (FzUserdata r) \<longleftrightarrow> is_frozen (h_userdata h) r"

text \<open>
  What an object refers to, read off its fields and not off the walk: the tables, functions and userdata among the
  values it holds, its tables, and the upvalues of a closure.
\<close>

definition val_targets :: "Val \<Rightarrow> FreezeTarget set" where
  "val_targets v = {FzTable r |r. v = VTable r} \<union> {FzClosure r |r. v = VFunction r} \<union> {FzUserdata r |r. v = VUserdata r}"

definition opt_targets :: "GcRef option \<Rightarrow> FreezeTarget set" where "opt_targets x = FzTable ` set_option x"

definition table_holds :: "table \<Rightarrow> Val \<Rightarrow> bool" where
  "table_holds t v \<longleftrightarrow> v \<in> set (arr t) \<or> (\<exists>n \<in> set (nodes t). nkey n \<noteq> VNil \<and> (v = nkey n \<or> v = nvalue n))"

primrec fz_children :: "heap \<Rightarrow> FreezeTarget \<Rightarrow> FreezeTarget set" where
  "fz_children h (FzTable r) = (case get (h_tables h) r of None \<Rightarrow> {}
     | Some t \<Rightarrow> opt_targets (tmeta t) \<union> \<Union> (val_targets ` {v. table_holds t v}))"
| "fz_children h (FzClosure r) = (case get (h_closures h) r of None \<Rightarrow> {}
     | Some (LuaC lc) \<Rightarrow> insert (FzTable (lc_env lc)) (FzUpvalue ` set (lc_upvalues lc))
     | Some (RustC rc) \<Rightarrow> opt_targets (rc_env rc) \<union> \<Union> (val_targets ` set (rc_upvalues rc)))"
| "fz_children h (FzUpvalue r) = (case get (h_upvalues h) r of None \<Rightarrow> {}
     | Some u \<Rightarrow> (case uv_state u of Closed v \<Rightarrow> val_targets v | Open _ \<Rightarrow> {}))"
| "fz_children h (FzUserdata r) = (case get (h_userdata h) r of None \<Rightarrow> {}
     | Some u \<Rightarrow> opt_targets (ud_metatable u) \<union> opt_targets (ud_env u) \<union> \<Union> (val_targets ` set_option (ud_secret_value u)))"

text \<open>Hash parts are counted in 32 bits; the table invariant keeps them far below.\<close>

definition countable_nodes :: "heap \<Rightarrow> bool" where
  "countable_nodes h \<longleftrightarrow> (\<forall>r t. get (h_tables h) r = Some t \<longrightarrow> length (nodes t) < 2 ^ 32)"

text \<open>Everything from the root on, through objects that are alive and were not frozen before.\<close>

inductive fz_reach :: "heap \<Rightarrow> GcRef \<Rightarrow> FreezeTarget \<Rightarrow> bool" for h root where
  fz_root: "fz_reach h root (FzTable root)"
| fz_step: "fz_reach h root t \<Longrightarrow> fz_live h t \<Longrightarrow> \<not> fz_frozen h t \<Longrightarrow> c \<in> fz_children h t \<Longrightarrow> fz_reach h root c"

section \<open>One entry\<close>

lemma enqueue_val_set: "set (enqueue_val v q) = val_targets v \<union> set q"
  by (cases v) (auto simp: val_targets_def enqueue_val_def)

lemma freeze_table_children_set:
  assumes "length (nodes t) < 2 ^ 32" shows "set (freeze_table_children t) = {v. table_holds t v}"
proof -
  have n: "unat (hash_node_count t) = length (nodes t)"
    using assms by (simp add: hash_node_count_def unsigned_of_nat take_bit_nat_eq_self)
  have "v \<in> set (freeze_table_children t) \<longleftrightarrow> v \<in> set (arr t)
      \<or> (\<exists>i < length (nodes t). nkey (nodes t ! i) \<noteq> VNil \<and> (v = nkey (nodes t ! i) \<or> v = nvalue (nodes t ! i)))" for v
    by (auto simp: freeze_table_children_def n hash_node_kv_def is_nil_def split: option.splits if_splits Val.splits)
  moreover have "(\<exists>i < length (nodes t). nkey (nodes t ! i) \<noteq> VNil \<and> (v = nkey (nodes t ! i) \<or> v = nvalue (nodes t ! i)))
      \<longleftrightarrow> (\<exists>n \<in> set (nodes t). nkey n \<noteq> VNil \<and> (v = nkey n \<or> v = nvalue n))" for v
    by (metis in_set_conv_nth)
  ultimately show ?thesis by (simp add: table_holds_def set_eq_iff)
qed

lemma fold_enqueue_set: "set (fold enqueue_val vs q) = \<Union> (val_targets ` set vs) \<union> set q"
  by (induction vs arbitrary: q) (auto simp: enqueue_val_set)

lemma fold_upvalue_set: "set (fold (\<lambda>u q. FzUpvalue u # q) us q) = FzUpvalue ` set us \<union> set q"
  by (induction us arbitrary: q) auto

lemma enqueue_opt_set: "set (enqueue_opt_table x q) = opt_targets x \<union> set q"
  by (auto simp: enqueue_opt_table_def opt_targets_def split: option.split)

text \<open>Setting the flag of an entry: nothing else changes.\<close>

lemma set_flag_false: "snd (set_flag a r f) = False \<Longrightarrow> fst (set_flag a r f) = a"
  by (auto simp: set_flag_def split: option.splits)

lemma set_flag_live:
  assumes "arena_inv a" shows "snd (set_flag a r f) \<longleftrightarrow> get a r \<noteq> None"
  by (simp add: set_flag_def occupied_index_valid [OF assms] is_valid_def)

lemma frozen_live:
  assumes "arena_inv a" "is_frozen a r" shows "get a r \<noteq> None"
  using assms(2) by (auto simp: is_frozen_def has_flag_def has_any_flag_mask_def occupied_index_valid [OF assms(1)] is_valid_def
    split: if_splits)

lemma set_flag_frozen:
  assumes inv: "arena_inv a" and live: "get a r \<noteq> None"
  shows "is_frozen (fst (set_flag a r Frozen)) x \<longleftrightarrow> is_frozen a x \<or> x = r"
proof -
  have o: "occupied_index a y = (if get a y \<noteq> None then Some (ix y) else None)" for y
    using occupied_index_valid [OF inv] by (simp add: is_valid_def)
  let ?a = "fst (set_flag a r Frozen)"
  have oi: "occupied_index ?a y = occupied_index a y" for y
    by (auto simp: set_flag_def occupied_index_def split: option.splits)
  have f: "flags ?a = (flags a)[ix r := flags a ! ix r OR FLAG_FROZEN]" using live by (simp add: set_flag_def o)
  have len: "ix y < length (flags a)" if "get a y \<noteq> None" for y
    using that arena_inv_lengths [OF inv] by (auto simp: get_def split: if_splits)
  have nz: "(b OR FLAG_FROZEN) AND FLAG_FROZEN \<noteq> 0" for b :: u8
  proof
    assume "(b OR FLAG_FROZEN) AND FLAG_FROZEN = 0"
    then have "bit ((b OR FLAG_FROZEN) AND FLAG_FROZEN) 0 = bit (0 :: u8) 0" by simp
    then show False by (simp add: FLAG_FROZEN_def bit_simps)
  qed
  have same: "x = r" if "get a x \<noteq> None" "ix x = ix r"
    using that live by (intro ix_inj) (auto simp: get_def Let_def split: if_splits)
  show ?thesis
    using live len [of r] nz same
    by (auto simp: is_frozen_def has_flag_def has_any_flag_mask_def oi f o nth_list_update)
qed


text \<open>Only flags of the four arenas may differ.\<close>

definition fz_frame :: "heap \<Rightarrow> heap \<Rightarrow> bool" where
  "fz_frame h0 h \<longleftrightarrow> heap_ok h \<and> (\<exists>a b c d. h = h0\<lparr>h_tables := (h_tables h0)\<lparr>flags := a\<rparr>,
     h_closures := (h_closures h0)\<lparr>flags := b\<rparr>, h_upvalues := (h_upvalues h0)\<lparr>flags := c\<rparr>,
     h_userdata := (h_userdata h0)\<lparr>flags := d\<rparr>\<rparr>)"

lemma fz_frame_refl: "heap_ok h \<Longrightarrow> fz_frame h h"
  unfolding fz_frame_def by (intro conjI exI [of _ "flags (h_tables h)"] exI [of _ "flags (h_closures h)"]
      exI [of _ "flags (h_upvalues h)"] exI [of _ "flags (h_userdata h)"]) simp_all

lemma fz_frame_trans:
  assumes "fz_frame h0 h1" "fz_frame h1 h2" shows "fz_frame h0 h2"
proof -
  obtain a b c d where "h1 = h0\<lparr>h_tables := (h_tables h0)\<lparr>flags := a\<rparr>,
     h_closures := (h_closures h0)\<lparr>flags := b\<rparr>, h_upvalues := (h_upvalues h0)\<lparr>flags := c\<rparr>,
     h_userdata := (h_userdata h0)\<lparr>flags := d\<rparr>\<rparr>"
    using assms(1) unfolding fz_frame_def by blast
  then show ?thesis using assms(2) unfolding fz_frame_def by auto
qed

lemma get_flags [simp]: "get (a\<lparr>flags := fs\<rparr>) = get a"
  by (simp add: get_def fun_eq_iff)

lemma fz_frame_same:
  assumes "fz_frame h0 h" shows "fz_live h = fz_live h0" "fz_children h = fz_children h0"
proof -
  obtain a b c d where h: "h = h0\<lparr>h_tables := (h_tables h0)\<lparr>flags := a\<rparr>,
     h_closures := (h_closures h0)\<lparr>flags := b\<rparr>, h_upvalues := (h_upvalues h0)\<lparr>flags := c\<rparr>,
     h_userdata := (h_userdata h0)\<lparr>flags := d\<rparr>\<rparr>"
    using assms unfolding fz_frame_def by blast
  show "fz_live h = fz_live h0" "fz_children h = fz_children h0"
    by (rule ext, rename_tac t, case_tac t, simp_all add: h cong: option.case_cong)+
qed

text \<open>The counter of a target's kind.\<close>

primrec fz_count :: "FreezeTarget \<Rightarrow> freeze_stats \<Rightarrow> freeze_stats" where
  "fz_count (FzTable r) st = st\<lparr>fz_tables := fz_tables st + 1\<rparr>"
| "fz_count (FzClosure r) st = st\<lparr>fz_closures := fz_closures st + 1\<rparr>"
| "fz_count (FzUpvalue r) st = st\<lparr>fz_upvalues := fz_upvalues st + 1\<rparr>"
| "fz_count (FzUserdata r) st = st\<lparr>fz_userdata := fz_userdata st + 1\<rparr>"

lemma fz_total_count: "fz_total (fz_count t st) = fz_total st + 1"
  by (cases t) (simp_all add: fz_total_def)

lemma heap_okD:
  assumes "heap_ok h"
  shows "arena_inv (h_tables h)" "arena_inv (h_closures h)" "arena_inv (h_upvalues h)" "arena_inv (h_userdata h)"
  using assms by (simp_all add: heap_ok_def)

lemma freeze_entry_skip:
  assumes ok: "heap_ok h" and "\<not> fz_live h t \<or> fz_frozen h t"
  shows "freeze_entry t (h, q, st) = (h, q, st)"
  using assms(2) set_flag_live [OF heap_okD(1) [OF ok], where f = Frozen] set_flag_live [OF heap_okD(2) [OF ok], where f = Frozen]
    set_flag_live [OF heap_okD(3) [OF ok], where f = Frozen] set_flag_live [OF heap_okD(4) [OF ok], where f = Frozen]
  by (cases t) (auto simp: freeze_entry_def freeze_table_entry_def freeze_closure_entry_def freeze_upvalue_entry_def
      freeze_userdata_entry_def split_beta)

lemma set_flag_frame: "\<exists>fs. fst (set_flag a r f) = a\<lparr>flags := fs\<rparr>"
proof (cases "occupied_index a r")
  case None
  then show ?thesis by (intro exI [of _ "flags a"]) (simp add: set_flag_def)
qed (auto simp: set_flag_def)

lemma freeze_entry_live:
  assumes ok: "heap_ok h" and n: "countable_nodes h" and t: "fz_live h t" "\<not> fz_frozen h t"
  obtains h1 q1 where "freeze_entry t (h, q, st) = (h1, q1, fz_count t st)" "fz_frame h h1"
    "\<And>x. fz_frozen h1 x \<longleftrightarrow> fz_frozen h x \<or> x = t" "set q1 = fz_children h t \<union> set q"
proof -
  note inv = heap_okD [OF ok] and g = update_ops_get(3)
  show thesis
  proof (cases t)
    case (FzTable r)
    obtain a where a: "set_flag (h_tables h) r Frozen = (a, True)"
      using set_flag_live [OF inv(1), of r Frozen] t FzTable by (cases "set_flag (h_tables h) r Frozen") auto
    obtain fs where fs: "a = (h_tables h)\<lparr>flags := fs\<rparr>" using set_flag_frame [of "h_tables h" r Frozen] a by auto
    have "arena_inv a" using set_flag_inv(1) [OF inv(1), of r Frozen] a by simp
    then have "fz_frame h (h\<lparr>h_tables := a\<rparr>)" using ok unfolding fz_frame_def heap_ok_def
      by (intro conjI exI [of _ fs] exI [of _ "flags (h_closures h)"] exI [of _ "flags (h_upvalues h)"] exI [of _ "flags (h_userdata h)"])
        (simp_all add: fs)
    moreover have "fz_frozen (h\<lparr>h_tables := a\<rparr>) x \<longleftrightarrow> fz_frozen h x \<or> x = t" for x
      using set_flag_frozen [OF inv(1), of r] a t FzTable by (cases x) auto
    moreover obtain v where v: "get (h_tables h) r = Some v" using t(1) FzTable by auto
    then have "set (freeze_table_children v) = {x. table_holds v x}"
      using n by (simp add: countable_nodes_def freeze_table_children_set)
    then have "freeze_entry t (h, q, st) = (h\<lparr>h_tables := a\<rparr>,
        fold enqueue_val (freeze_table_children v) (enqueue_opt_table (tmeta v) q), fz_count t st)"
      "set (fold enqueue_val (freeze_table_children v) (enqueue_opt_table (tmeta v) q)) = fz_children h t \<union> set q"
      using t(2) FzTable a fs v
      by (auto simp: freeze_entry_def freeze_table_entry_def fold_enqueue_set enqueue_opt_set)
    ultimately show thesis using that by blast
  next
    case (FzClosure r)
    obtain a where a: "set_flag (h_closures h) r Frozen = (a, True)"
      using set_flag_live [OF inv(2), of r Frozen] t FzClosure by (cases "set_flag (h_closures h) r Frozen") auto
    obtain fs where fs: "a = (h_closures h)\<lparr>flags := fs\<rparr>" using set_flag_frame [of "h_closures h" r Frozen] a by auto
    have "arena_inv a" using set_flag_inv(1) [OF inv(2), of r Frozen] a by simp
    then have "fz_frame h (h\<lparr>h_closures := a\<rparr>)" using ok unfolding fz_frame_def heap_ok_def
      by (intro conjI exI [of _ "flags (h_tables h)"] exI [of _ fs] exI [of _ "flags (h_upvalues h)"] exI [of _ "flags (h_userdata h)"])
        (simp_all add: fs)
    moreover have "fz_frozen (h\<lparr>h_closures := a\<rparr>) x \<longleftrightarrow> fz_frozen h x \<or> x = t" for x
      using set_flag_frozen [OF inv(2), of r] a t FzClosure by (cases x) auto
    moreover obtain q1 where "freeze_entry t (h, q, st) = (h\<lparr>h_closures := a\<rparr>, q1, fz_count t st)" "set q1 = fz_children h t \<union> set q"
      using t FzClosure a fs
      by (fastforce simp: freeze_entry_def freeze_closure_entry_def fold_enqueue_set enqueue_opt_set fold_upvalue_set
          split: option.splits Closure.splits)
    ultimately show thesis using that by blast
  next
    case (FzUpvalue r)
    obtain a where a: "set_flag (h_upvalues h) r Frozen = (a, True)"
      using set_flag_live [OF inv(3), of r Frozen] t FzUpvalue by (cases "set_flag (h_upvalues h) r Frozen") auto
    obtain fs where fs: "a = (h_upvalues h)\<lparr>flags := fs\<rparr>" using set_flag_frame [of "h_upvalues h" r Frozen] a by auto
    have "arena_inv a" using set_flag_inv(1) [OF inv(3), of r Frozen] a by simp
    then have "fz_frame h (h\<lparr>h_upvalues := a\<rparr>)" using ok unfolding fz_frame_def heap_ok_def
      by (intro conjI exI [of _ "flags (h_tables h)"] exI [of _ "flags (h_closures h)"] exI [of _ fs] exI [of _ "flags (h_userdata h)"])
        (simp_all add: fs)
    moreover have "fz_frozen (h\<lparr>h_upvalues := a\<rparr>) x \<longleftrightarrow> fz_frozen h x \<or> x = t" for x
      using set_flag_frozen [OF inv(3), of r] a t FzUpvalue by (cases x) auto
    moreover obtain q1 where "freeze_entry t (h, q, st) = (h\<lparr>h_upvalues := a\<rparr>, q1, fz_count t st)" "set q1 = fz_children h t \<union> set q"
      using t FzUpvalue a fs
      by (fastforce simp: freeze_entry_def freeze_upvalue_entry_def enqueue_val_set split: option.splits UpvalueState.splits)
    ultimately show thesis using that by blast
  next
    case (FzUserdata r)
    obtain a where a: "set_flag (h_userdata h) r Frozen = (a, True)"
      using set_flag_live [OF inv(4), of r Frozen] t FzUserdata by (cases "set_flag (h_userdata h) r Frozen") auto
    obtain fs where fs: "a = (h_userdata h)\<lparr>flags := fs\<rparr>" using set_flag_frame [of "h_userdata h" r Frozen] a by auto
    have "arena_inv a" using set_flag_inv(1) [OF inv(4), of r Frozen] a by simp
    then have "fz_frame h (h\<lparr>h_userdata := a\<rparr>)" using ok unfolding fz_frame_def heap_ok_def
      by (intro conjI exI [of _ "flags (h_tables h)"] exI [of _ "flags (h_closures h)"] exI [of _ "flags (h_upvalues h)"] exI [of _ fs])
        (simp_all add: fs)
    moreover have "fz_frozen (h\<lparr>h_userdata := a\<rparr>) x \<longleftrightarrow> fz_frozen h x \<or> x = t" for x
      using set_flag_frozen [OF inv(4), of r] a t FzUserdata by (cases x) auto
    moreover obtain q1 where "freeze_entry t (h, q, st) = (h\<lparr>h_userdata := a\<rparr>, q1, fz_count t st)" "set q1 = fz_children h t \<union> set q"
      using t FzUserdata a fs
      by (fastforce simp: freeze_entry_def freeze_userdata_entry_def enqueue_opt_set enqueue_val_set split: option.splits)
    ultimately show thesis using that by blast
  qed
qed

section \<open>The walk ends and freezes everything reachable\<close>

lemma finite_live_refs: "finite {r. get a r \<noteq> None}"
proof -
  have "{r. get a r \<noteq> None} \<subseteq> (\<lambda>i. GcRef (word_of_nat i) (egen (entries a ! i))) ` {..<length (entries a)}"
  proof
    fix r assume "r \<in> {r. get a r \<noteq> None}"
    then have i: "ix r < length (entries a)" "egen (entries a ! ix r) = ref_gen r"
      by (auto simp: get_def Let_def split: if_splits)
    have "r = GcRef (word_of_nat (ix r)) (egen (entries a ! ix r))" using i(2) by (cases r) simp
    then show "r \<in> (\<lambda>i. GcRef (word_of_nat i) (egen (entries a ! i))) ` {..<length (entries a)}" using i(1) by blast
  qed
  then show ?thesis using finite_subset by blast
qed

lemma finite_fz_live: "finite {t. fz_live h t}"
proof -
  have "{t. fz_live h t} \<subseteq> FzTable ` {r. get (h_tables h) r \<noteq> None} \<union> FzClosure ` {r. get (h_closures h) r \<noteq> None}
     \<union> FzUpvalue ` {r. get (h_upvalues h) r \<noteq> None} \<union> FzUserdata ` {r. get (h_userdata h) r \<noteq> None}"
  proof
    fix t assume "t \<in> {t. fz_live h t}"
    then show "t \<in> FzTable ` {r. get (h_tables h) r \<noteq> None} \<union> FzClosure ` {r. get (h_closures h) r \<noteq> None}
       \<union> FzUpvalue ` {r. get (h_upvalues h) r \<noteq> None} \<union> FzUserdata ` {r. get (h_userdata h) r \<noteq> None}"
      by (cases t) auto
  qed
  then show ?thesis by (rule finite_subset) (intro finite_UnI finite_imageI finite_live_refs)
qed

text \<open>Reachability from a set of targets.\<close>

inductive_set fz_from :: "heap \<Rightarrow> FreezeTarget set \<Rightarrow> FreezeTarget set" for h Q where
  fz_from_start: "t \<in> Q \<Longrightarrow> t \<in> fz_from h Q"
| fz_from_step: "t \<in> fz_from h Q \<Longrightarrow> fz_live h t \<Longrightarrow> \<not> fz_frozen h t \<Longrightarrow> c \<in> fz_children h t \<Longrightarrow> c \<in> fz_from h Q"

definition fz_new :: "heap \<Rightarrow> FreezeTarget set \<Rightarrow> FreezeTarget set" where
  "fz_new h Q = {t \<in> fz_from h Q. fz_live h t \<and> \<not> fz_frozen h t}"

lemma fz_from_skip:
  assumes "\<not> fz_live h t \<or> fz_frozen h t" shows "fz_new h (insert t Q) = fz_new h Q"
proof -
  have "x \<in> fz_from h Q \<or> x = t" if "x \<in> fz_from h (insert t Q)" for x
    using that by induction (use assms in \<open>auto intro: fz_from.intros\<close>)
  moreover have "x \<in> fz_from h (insert t Q)" if "x \<in> fz_from h Q" for x
    using that by induction (auto intro: fz_from.intros)
  ultimately show ?thesis using assms unfolding fz_new_def by blast
qed

lemma fz_from_freeze:
  assumes t: "fz_live h t" "\<not> fz_frozen h t" and f: "fz_frame h h1" "\<And>x. fz_frozen h1 x \<longleftrightarrow> fz_frozen h x \<or> x = t"
  shows "fz_new h (insert t Q) = insert t (fz_new h1 (fz_children h t \<union> Q))" "t \<notin> fz_new h1 (fz_children h t \<union> Q)"
proof -
  note s = fz_frame_same [OF f(1)]
  let ?Q = "fz_children h t \<union> Q"
  have a: "x \<in> insert t (fz_from h1 ?Q)" if "x \<in> fz_from h (insert t Q)" for x
    using that
  proof induction
    case (fz_from_step y c)
    then show ?case using s f(2) by (cases "y = t") (auto intro: fz_from.intros)
  qed (auto intro: fz_from.intros)
  have t0: "t \<in> fz_from h (insert t Q)" by (simp add: fz_from_start)
  have b: "x \<in> fz_from h (insert t Q)" if "x \<in> fz_from h1 ?Q" for x
    using that
  proof induction
    case (fz_from_start x)
    then show ?case using fz_from_step [OF t0 t] by (auto intro: fz_from.intros)
  next
    case (fz_from_step x c)
    then show ?case using s f(2) by (auto intro: fz_from.fz_from_step)
  qed
  show "t \<notin> fz_new h1 ?Q" using f(2) by (simp add: fz_new_def)
  show "fz_new h (insert t Q) = insert t (fz_new h1 ?Q)" using a b t0 t s f(2) unfolding fz_new_def by fastforce
qed

lemma finite_fz_new: "finite (fz_new h Q)"
  by (rule finite_subset [OF _ finite_fz_live [of h]]) (auto simp: fz_new_def)

definition fz_todo :: "heap \<Rightarrow> nat" where
  "fz_todo h = card {t. fz_live h t \<and> \<not> fz_frozen h t}"

lemma fz_todo_less:
  assumes t: "fz_live h t" "\<not> fz_frozen h t" and f: "fz_frame h h1" "\<And>x. fz_frozen h1 x \<longleftrightarrow> fz_frozen h x \<or> x = t"
  shows "fz_todo h1 < fz_todo h"
  unfolding fz_todo_def
  by (rule psubset_card_mono [OF finite_subset [OF _ finite_fz_live [of h]]])
    (use t f(2) fz_frame_same(1) [OF f(1)] in auto)

lemma fz_frame_countable: "fz_frame h0 h \<Longrightarrow> countable_nodes h0 \<Longrightarrow> countable_nodes h"
  by (auto simp: fz_frame_def countable_nodes_def)

lemma freeze_loop_ends:
  "heap_ok h \<Longrightarrow> countable_nodes h \<Longrightarrow> \<exists>h1 st1. freeze_loop h q st = Some (h1, st1) \<and> fz_frame h h1
     \<and> (\<forall>x. fz_frozen h1 x \<longleftrightarrow> fz_frozen h x \<or> x \<in> fz_new h (set q))
     \<and> fz_total st1 = fz_total st + word_of_nat (card (fz_new h (set q)))"
proof (induction "fz_todo h" arbitrary: h q st rule: less_induct)
  case less
  show ?case
    using less.prems
  proof (induction q)
    case Nil
    have "x \<notin> fz_from h {}" for x
    proof
      assume "x \<in> fz_from h {}" then show False by induction simp_all
    qed
    then have "fz_new h {} = {}" by (auto simp: fz_new_def)
    then show ?case using Nil by (subst freeze_loop.simps) (simp add: fz_frame_refl)
  next
    case (Cons t rest)
    show ?case
    proof (cases "fz_live h t \<and> \<not> fz_frozen h t")
      case False
      then have "freeze_loop h (t # rest) st = freeze_loop h rest st"
        using freeze_entry_skip [OF Cons.prems(1), of t rest st] by (subst freeze_loop.simps) auto
      then show ?thesis using Cons fz_from_skip [of h t "set rest"] False by auto
    next
      case True
      then have t: "fz_live h t" "\<not> fz_frozen h t" by simp_all
      obtain h1 q1 where e: "freeze_entry t (h, rest, st) = (h1, q1, fz_count t st)" "fz_frame h h1"
        "\<And>x. fz_frozen h1 x \<longleftrightarrow> fz_frozen h x \<or> x = t" "set q1 = fz_children h t \<union> set rest"
        using freeze_entry_live [OF Cons.prems t, of rest st] by metis
      have ok1: "heap_ok h1" using e(2) by (simp add: fz_frame_def)
      obtain h2 st2 where I: "freeze_loop h1 q1 (fz_count t st) = Some (h2, st2)" "fz_frame h1 h2"
        "\<forall>x. fz_frozen h2 x \<longleftrightarrow> fz_frozen h1 x \<or> x \<in> fz_new h1 (set q1)"
        "fz_total st2 = fz_total (fz_count t st) + word_of_nat (card (fz_new h1 (set q1)))"
        using less.hyps [OF fz_todo_less [OF t e(2,3)] ok1 fz_frame_countable [OF e(2) Cons.prems(2)], of q1 "fz_count t st"] by blast
      note N = fz_from_freeze [OF t e(2,3), of "set rest"]
      have "freeze_loop h (t # rest) st = Some (h2, st2)" using e(1) I(1) by (subst freeze_loop.simps) simp
      moreover have "card (fz_new h (insert t (set rest))) = Suc (card (fz_new h1 (set q1)))"
        unfolding N(1) e(4) by (rule card_insert_disjoint [OF finite_fz_new N(2)])
      then have "fz_total st2 = fz_total st + word_of_nat (card (fz_new h (set (t # rest))))"
        using I(4) by (simp add: fz_total_count)
      ultimately show ?thesis using fz_frame_trans [OF e(2) I(2)] I(3) e(3,4) N(1) by auto
    qed
  qed
qed

lemma fz_reach_from: "fz_reach h root t \<longleftrightarrow> t \<in> fz_from h {FzTable root}"
proof
  show "fz_reach h root t \<Longrightarrow> t \<in> fz_from h {FzTable root}" by (induction rule: fz_reach.induct) (auto intro: fz_from.intros)
  show "t \<in> fz_from h {FzTable root} \<Longrightarrow> fz_reach h root t" by (induction rule: fz_from.induct) (auto intro: fz_reach.intros)
qed

text \<open>C8. Freezing ends, on cyclic graphs too, and freezes exactly the live tables, closures, upvalues and userdata
  that are reachable from the root through objects not frozen before, by the fields of the objects; frozen objects stay
  frozen, the number it reports is the number of objects frozen now, and nothing of the heap but flags changes.\<close>

theorem freeze_table_exact:
  assumes "heap_ok h" "countable_nodes h"
  shows "\<exists>h1 st. freeze_table root h = Some (h1, st) \<and> fz_frame h h1
    \<and> {t. fz_frozen h1 t} = {t. fz_frozen h t} \<union> {t. fz_reach h root t \<and> fz_live h t}
    \<and> fz_total st = word_of_nat (card {t. fz_frozen h1 t \<and> \<not> fz_frozen h t})"
proof -
  obtain h1 st where F: "freeze_table root h = Some (h1, st)" "fz_frame h h1"
    "\<forall>x. fz_frozen h1 x \<longleftrightarrow> fz_frozen h x \<or> x \<in> fz_new h {FzTable root}"
    "fz_total st = word_of_nat (card (fz_new h {FzTable root}))"
    using freeze_loop_ends [OF assms, of "[FzTable root]" freeze_stats_default]
    by (auto simp: freeze_table_def fz_total_def freeze_stats_default_def)
  have e: "{t. fz_frozen h1 t} = {t. fz_frozen h t} \<union> {t. fz_reach h root t \<and> fz_live h t}"
    using F(3) by (auto simp: fz_new_def fz_reach_from)
  have "{t. fz_frozen h1 t \<and> \<not> fz_frozen h t} = fz_new h {FzTable root}" using F(3) by (auto simp: fz_new_def)
  then show ?thesis using F(1,2,4) e by metis
qed

text \<open>A heap with a table that holds itself and a native function, which holds a userdata.\<close>

definition fz_demo :: heap where
  "fz_demo = \<lparr>h_strings = string_table_new, h_string_arena = arena_new,
     h_tables = fst (alloc arena_new (table_new\<lparr>arr := [VTable (GcRef 0 0), VFunction (GcRef 0 0)]\<rparr>) White0),
     h_closures = fst (alloc arena_new (RustC ((rust_closure_new 0 [])\<lparr>rc_upvalues := [VUserdata (GcRef 0 0)]\<rparr>)) White0),
     h_upvalues = arena_new, h_userdata = fst (alloc arena_new userdata_new White0), h_threads = arena_new, h_white = White0,
     h_type_metatables = [], h_tm_names = [], h_type_name_refs = [], h_static_intern_cache = [], h_gc = gc_state_new\<rparr>"

lemma fz_demo_get:
  "get (h_tables fz_demo) r = (if r = GcRef 0 0 then Some (table_new\<lparr>arr := [VTable (GcRef 0 0), VFunction (GcRef 0 0)]\<rparr>) else None)"
  "get (h_closures fz_demo) r = (if r = GcRef 0 0 then Some (RustC ((rust_closure_new 0 [])\<lparr>rc_upvalues := [VUserdata (GcRef 0 0)]\<rparr>)) else None)"
  "get (h_userdata fz_demo) r = (if r = GcRef 0 0 then Some userdata_new else None)"
  by (cases r; auto simp: fz_demo_def alloc_def arena_new_def get_def Let_def word_unat_eq_iff)+

lemma freeze_table_exact_witness:
  "\<exists>h1 st. freeze_table (GcRef 0 0) fz_demo = Some (h1, st) \<and> fz_frozen h1 (FzTable (GcRef 0 0))
     \<and> fz_frozen h1 (FzClosure (GcRef 0 0)) \<and> fz_frozen h1 (FzUserdata (GcRef 0 0))"
proof -
  have ok: "heap_ok fz_demo"
    unfolding heap_ok_def fz_demo_def heap.simps
    by (intro conjI arena_inv_new alloc_props(1) [OF arena_inv_new]) (simp_all add: has_room_def arena_new_def)
  have n: "countable_nodes fz_demo" by (simp add: countable_nodes_def fz_demo_get table_new_def)
  have f: "\<not> fz_frozen fz_demo t" for t
    by (cases t) (simp_all add: is_frozen_def has_flag_def has_any_flag_mask_def occupied_index_def fz_demo_def alloc_def
        arena_new_def Let_def)
  let ?R = "fz_reach fz_demo (GcRef 0 0)"
  have 1: "?R (FzTable (GcRef 0 0))" by (rule fz_root)
  have 2: "?R (FzClosure (GcRef 0 0))"
    by (rule fz_step [OF 1 _ f]) (auto simp: fz_demo_get table_holds_def val_targets_def)
  have "?R (FzUserdata (GcRef 0 0))"
    by (rule fz_step [OF 2 _ f]) (auto simp: fz_demo_get val_targets_def)
  moreover have "fz_live fz_demo (FzTable (GcRef 0 0))" "fz_live fz_demo (FzClosure (GcRef 0 0))"
    "fz_live fz_demo (FzUserdata (GcRef 0 0))" by (simp_all add: fz_demo_get)
  ultimately show ?thesis using 1 2 freeze_table_exact [OF ok n, of "GcRef 0 0"] by blast
qed

end
