(* ===== verification/LuaPattern.thy ===== *)
theory LuaPattern
  imports RText
begin

text \<open>
  The pattern matcher of the string library, \<^verbatim>\<open>MatchState\<close> in \<^verbatim>\<open>src/stdlib/string.rs\<close>: character classes,
  sets, quantifiers with backtracking, captures, balanced matches, frontiers and back references; the search loops
  of \<^verbatim>\<open>string.find\<close>, \<^verbatim>\<open>string.match\<close>, \<^verbatim>\<open>string.gmatch\<close> and \<^verbatim>\<open>string.gsub\<close>.
  The classification functions of the C library are a parameter, with the stubs of \<^verbatim>\<open>platform.rs\<close> as an instance.
\<close>

section \<open>Bytes\<close>

abbreviation ch_percent :: u8 where "ch_percent \<equiv> 37"
abbreviation ch_open :: u8 where "ch_open \<equiv> 40"
abbreviation ch_close :: u8 where "ch_close \<equiv> 41"
abbreviation ch_star :: u8 where "ch_star \<equiv> 42"
abbreviation ch_plus :: u8 where "ch_plus \<equiv> 43"
abbreviation ch_minus :: u8 where "ch_minus \<equiv> 45"
abbreviation ch_dot :: u8 where "ch_dot \<equiv> 46"
abbreviation ch_zero :: u8 where "ch_zero \<equiv> 48"
abbreviation ch_nine :: u8 where "ch_nine \<equiv> 57"
abbreviation ch_quest :: u8 where "ch_quest \<equiv> 63"
abbreviation ch_lbracket :: u8 where "ch_lbracket \<equiv> 91"
abbreviation ch_rbracket :: u8 where "ch_rbracket \<equiv> 93"
abbreviation ch_caret :: u8 where "ch_caret \<equiv> 94"
abbreviation ch_dollar :: u8 where "ch_dollar \<equiv> 36"

definition is_ascii_digit :: "u8 \<Rightarrow> bool" where "is_ascii_digit c \<longleftrightarrow> 48 \<le> c \<and> c \<le> 57"
definition is_ascii_upper :: "u8 \<Rightarrow> bool" where "is_ascii_upper c \<longleftrightarrow> 65 \<le> c \<and> c \<le> 90"
definition is_ascii_lower :: "u8 \<Rightarrow> bool" where "is_ascii_lower c \<longleftrightarrow> 97 \<le> c \<and> c \<le> 122"
definition ascii_lower :: "u8 \<Rightarrow> u8" where "ascii_lower c = (if is_ascii_upper c then c + 32 else c)"
definition ascii_upper :: "u8 \<Rightarrow> u8" where "ascii_upper c = (if is_ascii_lower c then c - 32 else c)"

text \<open>The functions of \<^verbatim>\<open>ctype.h\<close>; they depend on the locale of the process.\<close>

record ctype =
  c_alpha :: "u8 \<Rightarrow> bool"
  c_cntrl :: "u8 \<Rightarrow> bool"
  c_digit :: "u8 \<Rightarrow> bool"
  c_lower :: "u8 \<Rightarrow> bool"
  c_punct :: "u8 \<Rightarrow> bool"
  c_space :: "u8 \<Rightarrow> bool"
  c_upper :: "u8 \<Rightarrow> bool"
  c_alnum :: "u8 \<Rightarrow> bool"
  c_xdigit :: "u8 \<Rightarrow> bool"
  c_tolower :: "u8 \<Rightarrow> u8"
  c_toupper :: "u8 \<Rightarrow> u8"

text \<open>The stubs of the WASM build.\<close>

definition ascii_ctype :: ctype where
  "ascii_ctype = \<lparr>
     c_alpha = (\<lambda>c. is_ascii_upper c \<or> is_ascii_lower c),
     c_cntrl = (\<lambda>c. c < 32 \<or> c = 127),
     c_digit = is_ascii_digit,
     c_lower = is_ascii_lower,
     c_punct = (\<lambda>c. 33 \<le> c \<and> c \<le> 126 \<and> \<not> (is_ascii_upper c \<or> is_ascii_lower c \<or> is_ascii_digit c)),
     c_space = (\<lambda>c. c = 32 \<or> c = 9 \<or> c = 10 \<or> c = 12 \<or> c = 13),
     c_upper = is_ascii_upper,
     c_alnum = (\<lambda>c. is_ascii_upper c \<or> is_ascii_lower c \<or> is_ascii_digit c),
     c_xdigit = (\<lambda>c. is_ascii_digit c \<or> (65 \<le> c \<and> c \<le> 70) \<or> (97 \<le> c \<and> c \<le> 102)),
     c_tolower = ascii_lower,
     c_toupper = ascii_upper\<rparr>"

section \<open>Classes\<close>

definition matchclass :: "ctype \<Rightarrow> u8 \<Rightarrow> u8 \<Rightarrow> bool" where
  "matchclass ct ch class =
    (let l = ascii_lower class;
         signed = (\<lambda>r. if is_ascii_upper class then \<not> r else r)
     in if l = 97 then signed (c_alpha ct ch)
        else if l = 99 then signed (c_cntrl ct ch)
        else if l = 100 then signed (c_digit ct ch)
        else if l = 108 then signed (c_lower ct ch)
        else if l = 112 then signed (c_punct ct ch)
        else if l = 115 then signed (c_space ct ch)
        else if l = 117 then signed (c_upper ct ch)
        else if l = 119 then signed (c_alnum ct ch)
        else if l = 120 then signed (c_xdigit ct ch)
        else if l = 122 then signed (ch = 0)
        else ch = class)"

text \<open>The end of a set: the position after the first closing bracket that is not its first character.\<close>

function bracket_end :: "u8 list \<Rightarrow> nat \<Rightarrow> nat" where
  "bracket_end pat i =
    (if length pat \<le> i then i
     else let j = (if pat ! i = ch_percent \<and> i + 1 < length pat then i + 1 else i) + 1 in
       if j < length pat \<and> pat ! j = ch_rbracket then j + 1 else bracket_end pat j)"
  by pat_completeness auto
termination
  by (relation "measure (\<lambda>(pat, i). length pat - i)") (auto split: if_splits)

declare bracket_end.simps [simp del]

definition class_end :: "u8 list \<Rightarrow> nat \<Rightarrow> nat" where
  "class_end pat p =
    (if length pat \<le> p then p
     else if pat ! p = ch_percent then (if p + 1 < length pat then p + 2 else p + 1)
     else if pat ! p = ch_lbracket then
       bracket_end pat (if p + 1 < length pat \<and> pat ! (p + 1) = ch_caret then p + 2 else p + 1)
     else p + 1)"

function set_matches :: "ctype \<Rightarrow> u8 list \<Rightarrow> u8 \<Rightarrow> nat \<Rightarrow> nat \<Rightarrow> bool \<Rightarrow> bool" where
  "set_matches ct pat ch i ec matched =
    (if \<not> i < ec then matched
     else if pat ! i = ch_percent \<and> i + 1 < ec then
       set_matches ct pat ch (i + 2) ec (matched \<or> matchclass ct ch (pat ! (i + 1)))
     else if i + 2 < ec \<and> pat ! (i + 1) = ch_minus then
       set_matches ct pat ch (i + 3) ec (matched \<or> (pat ! i \<le> ch \<and> ch \<le> pat ! (i + 2)))
     else set_matches ct pat ch (i + 1) ec (matched \<or> ch = pat ! i))"
  by pat_completeness auto
termination
  by (relation "measure (\<lambda>(ct, pat, ch, i, ec, matched). ec - i)") auto

declare set_matches.simps [simp del]

definition matchbracketclass :: "ctype \<Rightarrow> u8 list \<Rightarrow> u8 \<Rightarrow> nat \<Rightarrow> bool \<times> nat" where
  "matchbracketclass ct pat ch p =
    (let ce = class_end pat p; ec = ce - 1; i = p + 1;
         complement = (i < ec \<and> pat ! i = ch_caret);
         matched = set_matches ct pat ch (if complement then i + 1 else i) ec False
     in (if complement then \<not> matched else matched, ce))"

definition singlematch :: "ctype \<Rightarrow> u8 list \<Rightarrow> u8 list \<Rightarrow> nat \<Rightarrow> nat \<Rightarrow> bool" where
  "singlematch ct src pat s p =
    (if length src \<le> s then False
     else let ch = src ! s; q = pat ! p in
       if q = ch_dot then True
       else if q = ch_percent then (if p + 1 < length pat then matchclass ct ch (pat ! (p + 1)) else False)
       else if q = ch_lbracket then fst (matchbracketclass ct pat ch p)
       else ch = q)"

datatype Quantifier = Greedy | Plus | Lazy | Optional | NoQuantifier

definition get_quantifier :: "u8 list \<Rightarrow> nat \<Rightarrow> nat \<times> Quantifier" where
  "get_quantifier pat p =
    (let ce = class_end pat p in
     if ce < length pat then
       (if pat ! ce = ch_star then (ce, Greedy)
        else if pat ! ce = ch_plus then (ce, Plus)
        else if pat ! ce = ch_minus then (ce, Lazy)
        else if pat ! ce = ch_quest then (ce, Optional)
        else (ce, NoQuantifier))
     else (ce, NoQuantifier))"

section \<open>Captures and errors\<close>

datatype CaptureLen = Finished nat | Unfinished | Position

record capture =
  cap_start :: nat
  cap_len :: CaptureLen

text \<open>The part of \<^verbatim>\<open>MatchState\<close> that changes; the recursion depth is the fuel of \<open>match_n\<close> below.\<close>

record match_state =
  captures :: "capture list"
  ms_level :: nat

text \<open>An error with its message; an index out of range panics.\<close>

datatype pat_error = PatError string | PatPanic

type_synonym 'a pres = "(pat_error, 'a) res"

definition MAXCCALLS :: nat where "MAXCCALLS = 200"
definition LUA_MAXCAPTURES :: nat where "LUA_MAXCAPTURES = 32"

type_synonym matcher = "nat \<Rightarrow> nat \<Rightarrow> match_state \<Rightarrow> (nat option \<times> match_state) pres"

definition match_state_new :: match_state where
  "match_state_new = \<lparr>captures = [], ms_level = 0\<rparr>"

section \<open>The matcher\<close>

text \<open>\<open>or_else\<close> runs the second alternative when the first does not match.\<close>

definition or_else :: "(nat option \<times> match_state) pres \<Rightarrow> (match_state \<Rightarrow> (nat option \<times> match_state) pres)
    \<Rightarrow> (nat option \<times> match_state) pres" where
  "or_else r k = res_bind r (\<lambda>(e, ms). case e of Some x \<Rightarrow> Inr (Some x, ms) | None \<Rightarrow> k ms)"

function count_matches :: "ctype \<Rightarrow> u8 list \<Rightarrow> u8 list \<Rightarrow> nat \<Rightarrow> nat \<Rightarrow> nat" where
  "count_matches ct src pat s p =
    (if s < length src \<and> singlematch ct src pat s p then Suc (count_matches ct src pat (s + 1) p) else 0)"
  by pat_completeness auto
termination
  by (relation "measure (\<lambda>(ct, src, pat, s, p). length src - s)") auto

declare count_matches.simps [simp del]

primrec greedy_from :: "matcher \<Rightarrow> nat \<Rightarrow> nat \<Rightarrow> nat \<Rightarrow> match_state \<Rightarrow> (nat option \<times> match_state) pres" where
  "greedy_from rec s pr 0 ms = rec s pr ms"
| "greedy_from rec s pr (Suc n) ms = or_else (rec (s + Suc n) pr ms) (\<lambda>ms. greedy_from rec s pr n ms)"

definition match_greedy :: "ctype \<Rightarrow> u8 list \<Rightarrow> u8 list \<Rightarrow> matcher \<Rightarrow> nat \<Rightarrow> nat \<Rightarrow> nat \<Rightarrow> match_state
    \<Rightarrow> (nat option \<times> match_state) pres" where
  "match_greedy ct src pat rec s pc pr ms = greedy_from rec s pr (count_matches ct src pat s pc) ms"

function match_lazy :: "ctype \<Rightarrow> u8 list \<Rightarrow> u8 list \<Rightarrow> matcher \<Rightarrow> nat \<Rightarrow> nat \<Rightarrow> nat \<Rightarrow> match_state
    \<Rightarrow> (nat option \<times> match_state) pres" where
  "match_lazy ct src pat rec s pc pr ms =
    (case rec s pr ms of
       Inl e \<Rightarrow> Inl e
     | Inr (Some x, ms1) \<Rightarrow> Inr (Some x, ms1)
     | Inr (None, ms1) \<Rightarrow>
         if s < length src \<and> singlematch ct src pat s pc then match_lazy ct src pat rec (s + 1) pc pr ms1
         else Inr (None, ms1))"
  by pat_completeness auto
termination
  by (relation "measure (\<lambda>(ct, src, pat, rec, s, pc, pr, ms). length src - s)") auto

declare match_lazy.simps [simp del]

definition truncate_captures :: "nat \<Rightarrow> match_state \<Rightarrow> match_state" where
  "truncate_captures n ms = ms\<lparr>captures := take n (captures ms), ms_level := ms_level ms - 1\<rparr>"

definition push_capture :: "nat \<Rightarrow> CaptureLen \<Rightarrow> match_state \<Rightarrow> match_state" where
  "push_capture s l ms = ms\<lparr>captures := captures ms @ [\<lparr>cap_start = s, cap_len = l\<rparr>], ms_level := ms_level ms + 1\<rparr>"

definition match_open_capture :: "matcher \<Rightarrow> nat \<Rightarrow> nat \<Rightarrow> match_state \<Rightarrow> (nat option \<times> match_state) pres" where
  "match_open_capture rec s p ms =
    (if LUA_MAXCAPTURES \<le> length (captures ms) then Inl (PatError ''too many captures'')
     else or_else (rec s (p + 1) (push_capture s Unfinished ms))
       (\<lambda>ms1. Inr (None, truncate_captures (length (captures ms)) ms1)))"

definition match_position_capture :: "matcher \<Rightarrow> nat \<Rightarrow> nat \<Rightarrow> match_state \<Rightarrow> (nat option \<times> match_state) pres" where
  "match_position_capture rec s p ms =
    (if LUA_MAXCAPTURES \<le> length (captures ms) then Inl (PatError ''too many captures'')
     else or_else (rec s (p + 2) (push_capture s Position ms))
       (\<lambda>ms1. Inr (None, truncate_captures (length (captures ms)) ms1)))"

text \<open>The last capture that is still open.\<close>

definition find_open_capture :: "capture list \<Rightarrow> nat option" where
  "find_open_capture cs = find (\<lambda>i. cap_len (cs ! i) = Unfinished) (rev [0..<length cs])"

definition set_cap_len :: "nat \<Rightarrow> CaptureLen \<Rightarrow> capture list \<Rightarrow> capture list" where
  "set_cap_len i l cs = cs[i := (cs ! i)\<lparr>cap_len := l\<rparr>]"

definition match_close_capture :: "matcher \<Rightarrow> nat \<Rightarrow> nat \<Rightarrow> match_state \<Rightarrow> (nat option \<times> match_state) pres" where
  "match_close_capture rec s p ms =
    (case find_open_capture (captures ms) of
       None \<Rightarrow> Inl (PatError ''invalid pattern capture'')
     | Some i \<Rightarrow>
         or_else (rec s (p + 1) (ms\<lparr>captures := set_cap_len i (Finished (s - cap_start (captures ms ! i))) (captures ms),
             ms_level := ms_level ms - 1\<rparr>))
           (\<lambda>ms1. Inr (None, ms1\<lparr>captures := set_cap_len i Unfinished (captures ms1), ms_level := ms_level ms1 + 1\<rparr>)))"

text \<open>The position of the delimiter that closes a balanced match; the count is an \<open>i32\<close>.\<close>

function balance_end :: "u8 list \<Rightarrow> u8 \<Rightarrow> u8 \<Rightarrow> nat \<Rightarrow> i32 \<Rightarrow> nat option" where
  "balance_end src op cl i n =
    (if length src \<le> i then None
     else if src ! i = cl then
       (if n - 1 = 0 then Some i else balance_end src op cl (i + 1) (n - 1))
     else if src ! i = op then balance_end src op cl (i + 1) (n + 1)
     else balance_end src op cl (i + 1) n)"
  by pat_completeness auto
termination
  by (relation "measure (\<lambda>(src, op, cl, i, n). length src - i)") auto

declare balance_end.simps [simp del]

definition match_balance :: "u8 list \<Rightarrow> u8 list \<Rightarrow> matcher \<Rightarrow> nat \<Rightarrow> nat \<Rightarrow> match_state \<Rightarrow> (nat option \<times> match_state) pres" where
  "match_balance src pat rec s p ms =
    (if length pat \<le> p + 3 then Inl (PatError ''unbalanced pattern'')
     else if length src \<le> s \<or> src ! s \<noteq> pat ! (p + 2) then Inr (None, ms)
     else case balance_end src (pat ! (p + 2)) (pat ! (p + 3)) (s + 1) 1 of
         None \<Rightarrow> Inr (None, ms)
       | Some i \<Rightarrow> rec (i + 1) (p + 4) ms)"

definition match_frontier :: "ctype \<Rightarrow> u8 list \<Rightarrow> u8 list \<Rightarrow> matcher \<Rightarrow> nat \<Rightarrow> nat \<Rightarrow> match_state
    \<Rightarrow> (nat option \<times> match_state) pres" where
  "match_frontier ct src pat rec s p ms =
    (if length pat \<le> p + 2 \<or> pat ! (p + 2) \<noteq> ch_lbracket then Inl (PatError ''missing '[' after '%f' in pattern'')
     else if 0 < s \<and> length src \<le> s - 1 then Inl PatPanic
     else let prev = (if 0 < s then src ! (s - 1) else 0);
              curr = (if s < length src then src ! s else 0);
              (prev_matches, ce) = matchbracketclass ct pat prev (p + 2)
          in if \<not> prev_matches \<and> fst (matchbracketclass ct pat curr (p + 2)) then rec s ce ms else Inr (None, ms))"

definition slice :: "u8 list \<Rightarrow> nat \<Rightarrow> nat \<Rightarrow> u8 list pres" where
  "slice xs a b = (if a \<le> b \<and> b \<le> length xs then Inr (take (b - a) (drop a xs)) else Inl PatPanic)"

definition match_backref :: "u8 list \<Rightarrow> u8 list \<Rightarrow> matcher \<Rightarrow> nat \<Rightarrow> nat \<Rightarrow> match_state \<Rightarrow> (nat option \<times> match_state) pres" where
  "match_backref src pat rec s p ms =
    (let n = unat (pat ! (p + 1) - ch_zero) in
     if n = 0 \<or> length (captures ms) < n then Inl (PatError ''invalid capture index'')
     else let cap = captures ms ! (n - 1) in case cap_len cap of
         Finished len \<Rightarrow>
           if length src < s + len then Inr (None, ms)
           else res_bind (slice src s (s + len)) (\<lambda>a. res_bind (slice src (cap_start cap) (cap_start cap + len)) (\<lambda>b.
             if a = b then rec (s + len) (p + 2) ms else Inr (None, ms)))
       | _ \<Rightarrow> Inl (PatError ''invalid capture index''))"

text \<open>The end of a class lies behind its start, so the loop of \<^verbatim>\<open>match_inner\<close> ends.\<close>

lemma bracket_end_ge: "i \<le> bracket_end pat i"
proof (induction pat i rule: bracket_end.induct)
  case (1 pat i)
  then show ?case by (subst bracket_end.simps) (auto simp: Let_def split: if_splits)
qed

lemma class_end_gt: "p < length pat \<Longrightarrow> p < class_end pat p"
  using bracket_end_ge [of "p + 1" pat] bracket_end_ge [of "p + 2" pat] by (auto simp: class_end_def)

lemma get_quantifier_fst [simp]: "fst (get_quantifier pat p) = class_end pat p"
  by (simp add: get_quantifier_def Let_def)

function match_inner :: "ctype \<Rightarrow> u8 list \<Rightarrow> u8 list \<Rightarrow> matcher \<Rightarrow> nat \<Rightarrow> nat \<Rightarrow> match_state
    \<Rightarrow> (nat option \<times> match_state) pres" where
  "match_inner ct src pat rec s p ms =
    (if length pat \<le> p then Inr (Some s, ms)
     else if pat ! p = ch_open then
       (if p + 1 < length pat \<and> pat ! (p + 1) = ch_close then match_position_capture rec s p ms
        else match_open_capture rec s p ms)
     else if pat ! p = ch_close then match_close_capture rec s p ms
     else if pat ! p = ch_dollar \<and> length pat \<le> p + 1 then Inr (if s = length src then Some s else None, ms)
     else case snd (get_quantifier pat p) of
       Greedy \<Rightarrow> match_greedy ct src pat rec s p (class_end pat p + 1) ms
     | Lazy \<Rightarrow> match_lazy ct src pat rec s p (class_end pat p + 1) ms
     | Plus \<Rightarrow> if s < length src \<and> singlematch ct src pat s p
               then match_greedy ct src pat rec (s + 1) p (class_end pat p + 1) ms else Inr (None, ms)
     | Optional \<Rightarrow>
         (case (if s < length src \<and> singlematch ct src pat s p then rec (s + 1) (class_end pat p + 1) ms
                else Inr (None, ms)) of
            Inl e \<Rightarrow> Inl e
          | Inr (Some x, ms1) \<Rightarrow> Inr (Some x, ms1)
          | Inr (None, ms1) \<Rightarrow> match_inner ct src pat rec s (class_end pat p + 1) ms1)
     | NoQuantifier \<Rightarrow>
         if pat ! p = ch_percent \<and> p + 1 < length pat \<and> pat ! (p + 1) = 98 then match_balance src pat rec s p ms
         else if pat ! p = ch_percent \<and> p + 1 < length pat \<and> pat ! (p + 1) = 102 then match_frontier ct src pat rec s p ms
         else if pat ! p = ch_percent \<and> p + 1 < length pat \<and> is_ascii_digit (pat ! (p + 1))
         then match_backref src pat rec s p ms
         else if s < length src \<and> singlematch ct src pat s p then match_inner ct src pat rec (s + 1) (class_end pat p) ms
         else Inr (None, ms))"
  by pat_completeness auto
termination
proof (relation "measure (\<lambda>(ct, src, pat, rec, s, p, ms). length pat - p)", goal_cases)
  case (2 ct src pat rec s p ms)
  then show ?case using class_end_gt [of p pat] by simp
next
  case (3 ct src pat rec s p ms)
  then show ?case using class_end_gt [of p pat] by simp
qed simp

declare match_inner.simps [simp del]

text \<open>\<^verbatim>\<open>match_\<close> raises the depth, fails past the limit and lowers it on return: the depth left is fuel.\<close>

primrec match_n :: "ctype \<Rightarrow> u8 list \<Rightarrow> u8 list \<Rightarrow> nat \<Rightarrow> matcher" where
  "match_n ct src pat 0 s p ms = Inl (PatError ''pattern too complex'')"
| "match_n ct src pat (Suc n) s p ms = match_inner ct src pat (match_n ct src pat n) s p ms"

definition match_at :: "ctype \<Rightarrow> u8 list \<Rightarrow> u8 list \<Rightarrow> nat \<Rightarrow> (nat option \<times> match_state) pres" where
  "match_at ct src pat s = match_n ct src pat MAXCCALLS s 0 match_state_new"

end
