(* ===== verification/PatternProps.thy ===== *)
theory PatternProps
  imports LuaPattern
begin

text \<open>
  What a pattern means, as a nondeterministic machine over the positions of the subject and of the pattern, and
  that the backtracking matcher finds a run of it exactly when there is one. Bounds of a match; what the search
  loops find; substitution.
\<close>

section \<open>The meaning of a pattern\<close>

text \<open>A position of the pattern at which a single character class, with or without quantifier, stands.\<close>

definition class_item :: "u8 list \<Rightarrow> nat \<Rightarrow> bool" where
  "class_item pat p \<longleftrightarrow> p < length pat \<and> pat ! p \<noteq> ch_open \<and> pat ! p \<noteq> ch_close
     \<and> \<not> (pat ! p = ch_dollar \<and> length pat \<le> p + 1)"

text \<open>The escapes that are no class: \<open>%b\<close>, \<open>%f\<close> and back references.\<close>

definition escaped :: "u8 list \<Rightarrow> nat \<Rightarrow> (u8 \<Rightarrow> bool) \<Rightarrow> bool" where
  "escaped pat p P \<longleftrightarrow> pat ! p = ch_percent \<and> p + 1 < length pat \<and> P (pat ! (p + 1))"

definition special_escape :: "u8 list \<Rightarrow> nat \<Rightarrow> bool" where
  "special_escape pat p \<longleftrightarrow> escaped pat p (\<lambda>c. c = 98 \<or> c = 102 \<or> is_ascii_digit c)"

text \<open>The subject has \<open>k\<close> characters of the class at \<open>p\<close> from \<open>s\<close> on.\<close>

definition run_of :: "ctype \<Rightarrow> u8 list \<Rightarrow> u8 list \<Rightarrow> nat \<Rightarrow> nat \<Rightarrow> nat \<Rightarrow> bool" where
  "run_of ct src pat s p k \<longleftrightarrow> (\<forall>i < k. s + i < length src \<and> singlematch ct src pat (s + i) p)"

text \<open>What one item of the pattern may consume and do to the captures.\<close>

inductive pat_step :: "ctype \<Rightarrow> u8 list \<Rightarrow> u8 list \<Rightarrow> nat \<Rightarrow> nat \<Rightarrow> capture list \<Rightarrow> nat \<Rightarrow> nat \<Rightarrow> capture list \<Rightarrow> bool"
  for ct src pat where
  step_open: "p < length pat \<Longrightarrow> pat ! p = ch_open \<Longrightarrow> \<not> (p + 1 < length pat \<and> pat ! (p + 1) = ch_close) \<Longrightarrow>
    length cs < LUA_MAXCAPTURES \<Longrightarrow>
    pat_step ct src pat s p cs s (p + 1) (cs @ [\<lparr>cap_start = s, cap_len = Unfinished\<rparr>])"
| step_position: "p + 1 < length pat \<Longrightarrow> pat ! p = ch_open \<Longrightarrow> pat ! (p + 1) = ch_close \<Longrightarrow>
    length cs < LUA_MAXCAPTURES \<Longrightarrow>
    pat_step ct src pat s p cs s (p + 2) (cs @ [\<lparr>cap_start = s, cap_len = Position\<rparr>])"
| step_close: "p < length pat \<Longrightarrow> pat ! p = ch_close \<Longrightarrow> find_open_capture cs = Some i \<Longrightarrow>
    pat_step ct src pat s p cs s (p + 1) (set_cap_len i (Finished (s - cap_start (cs ! i))) cs)"
| step_end: "p + 1 = length pat \<Longrightarrow> pat ! p = ch_dollar \<Longrightarrow> s = length src \<Longrightarrow>
    pat_step ct src pat s p cs s (p + 1) cs"
| step_repeat: "class_item pat p \<Longrightarrow> snd (get_quantifier pat p) = q \<Longrightarrow> run_of ct src pat s p k \<Longrightarrow>
    (case q of Greedy \<Rightarrow> True | Lazy \<Rightarrow> True | Plus \<Rightarrow> 0 < k | Optional \<Rightarrow> k \<le> 1 | NoQuantifier \<Rightarrow> False) \<Longrightarrow>
    pat_step ct src pat s p cs (s + k) (class_end pat p + 1) cs"
| step_single: "class_item pat p \<Longrightarrow> snd (get_quantifier pat p) = NoQuantifier \<Longrightarrow> \<not> special_escape pat p \<Longrightarrow>
    s < length src \<Longrightarrow> singlematch ct src pat s p \<Longrightarrow>
    pat_step ct src pat s p cs (s + 1) (class_end pat p) cs"
| step_balance: "class_item pat p \<Longrightarrow> snd (get_quantifier pat p) = NoQuantifier \<Longrightarrow> escaped pat p (\<lambda>c. c = 98) \<Longrightarrow>
    p + 3 < length pat \<Longrightarrow> s < length src \<Longrightarrow> src ! s = pat ! (p + 2) \<Longrightarrow>
    balance_end src (pat ! (p + 2)) (pat ! (p + 3)) (s + 1) 1 = Some i \<Longrightarrow>
    pat_step ct src pat s p cs (i + 1) (p + 4) cs"
| step_frontier: "class_item pat p \<Longrightarrow> snd (get_quantifier pat p) = NoQuantifier \<Longrightarrow> escaped pat p (\<lambda>c. c = 102) \<Longrightarrow>
    p + 2 < length pat \<Longrightarrow> pat ! (p + 2) = ch_lbracket \<Longrightarrow> s \<le> length src \<Longrightarrow>
    \<not> fst (matchbracketclass ct pat (if 0 < s then src ! (s - 1) else 0) (p + 2)) \<Longrightarrow>
    fst (matchbracketclass ct pat (if s < length src then src ! s else 0) (p + 2)) \<Longrightarrow>
    pat_step ct src pat s p cs s (class_end pat (p + 2)) cs"
| step_backref: "class_item pat p \<Longrightarrow> snd (get_quantifier pat p) = NoQuantifier \<Longrightarrow> escaped pat p is_ascii_digit \<Longrightarrow>
    n = unat (pat ! (p + 1) - ch_zero) \<Longrightarrow> 0 < n \<Longrightarrow> n \<le> length cs \<Longrightarrow> cap_len (cs ! (n - 1)) = Finished len \<Longrightarrow>
    slice src s (s + len) = Inr w \<Longrightarrow> slice src (cap_start (cs ! (n - 1))) (cap_start (cs ! (n - 1)) + len) = Inr w \<Longrightarrow>
    pat_step ct src pat s p cs (s + len) (p + 2) cs"

text \<open>A match consumes the items of the pattern one after the other up to its end.\<close>

inductive pat_match :: "ctype \<Rightarrow> u8 list \<Rightarrow> u8 list \<Rightarrow> nat \<Rightarrow> nat \<Rightarrow> capture list \<Rightarrow> nat \<Rightarrow> capture list \<Rightarrow> bool"
  for ct src pat where
  match_done: "length pat \<le> p \<Longrightarrow> pat_match ct src pat s p cs s cs"
| match_step: "pat_step ct src pat s p cs s1 p1 cs1 \<Longrightarrow> pat_match ct src pat s1 p1 cs1 e cs2 \<Longrightarrow>
    pat_match ct src pat s p cs e cs2"

lemma pat_step_inside: "pat_step ct src pat s p cs s1 p1 cs1 \<Longrightarrow> p < length pat"
  by (induction rule: pat_step.induct) (auto simp: class_item_def)

lemma pat_match_end: "length pat \<le> p \<Longrightarrow> pat_match ct src pat s p cs e cs2 \<longleftrightarrow> e = s \<and> cs2 = cs"
  using pat_step_inside by (fastforce elim: pat_match.cases intro: match_done)

lemma pat_match_inside: "p < length pat \<Longrightarrow> pat_match ct src pat s p cs e cs2 \<longleftrightarrow>
    (\<exists>s1 p1 cs1. pat_step ct src pat s p cs s1 p1 cs1 \<and> pat_match ct src pat s1 p1 cs1 e cs2)"
  by (subst pat_match.simps) auto

section \<open>The matcher finds a run exactly if there is one\<close>

text \<open>The contract of a matcher: what it returns is a match; when it returns none there is none, and the captures
  are as they were.\<close>

definition finds :: "(nat \<Rightarrow> capture list \<Rightarrow> bool) \<Rightarrow> capture list \<Rightarrow> (nat option \<times> match_state) pres \<Rightarrow> bool" where
  "finds M cs r \<longleftrightarrow> (\<forall>e ms. r = Inr (Some e, ms) \<longrightarrow> M e (captures ms))
     \<and> (\<forall>ms. r = Inr (None, ms) \<longrightarrow> captures ms = cs \<and> (\<forall>e cs2. \<not> M e cs2))"

definition matcher_ok :: "ctype \<Rightarrow> u8 list \<Rightarrow> u8 list \<Rightarrow> matcher \<Rightarrow> bool" where
  "matcher_ok ct src pat rec \<longleftrightarrow> (\<forall>s p ms. finds (pat_match ct src pat s p (captures ms)) (captures ms) (rec s p ms))"

lemma finds_Inl [simp]: "finds M cs (Inl e)"
  by (simp add: finds_def)

lemma finds_none [simp]: "finds M cs (Inr (None, ms)) \<longleftrightarrow> captures ms = cs \<and> (\<forall>e cs2. \<not> M e cs2)"
  by (simp add: finds_def)

lemma finds_some [simp]: "finds M cs (Inr (Some e, ms)) \<longleftrightarrow> M e (captures ms)"
  by (simp add: finds_def)

lemma finds_cong: "finds M cs r \<Longrightarrow> (\<And>e c. M e c \<longleftrightarrow> M' e c) \<Longrightarrow> finds M' cs r"
  unfolding finds_def by blast

lemma finds_or_else:
  assumes "finds A cs1 r" "\<And>ms. captures ms = cs1 \<Longrightarrow> (\<forall>e c. \<not> A e c) \<Longrightarrow> finds B cs (k ms)"
    and "\<And>e c. M e c \<longleftrightarrow> A e c \<or> B e c"
  shows "finds M cs (or_else r k)"
proof (cases r)
  case (Inr y)
  then obtain oe ms where y: "r = Inr (oe, ms)" by (cases y) auto
  show ?thesis
  proof (cases oe)
    case (Some e)
    then show ?thesis using assms(1,3) y by (simp add: or_else_def)
  next
    case None
    then have "captures ms = cs1 \<and> (\<forall>e c. \<not> A e c)" using assms(1) y by simp
    then show ?thesis using assms(2) [of ms] assms(3) y None finds_cong [of B cs "k ms" M] by (simp add: or_else_def)
  qed
qed (simp add: or_else_def)

lemma finds_restore:
  assumes "finds A cs1 r" "\<And>ms. captures ms = cs1 \<Longrightarrow> captures (f ms) = cs"
  shows "finds A cs (or_else r (\<lambda>ms. Inr (None, f ms)))"
proof (cases r)
  case (Inr y)
  then obtain oe ms where "r = Inr (oe, ms)" by (cases y) auto
  then show ?thesis using assms by (cases oe) (auto simp: or_else_def)
qed (simp add: or_else_def)

lemma run_of_Suc: "run_of ct src pat s p (Suc k) \<longleftrightarrow>
    s < length src \<and> singlematch ct src pat s p \<and> run_of ct src pat (s + 1) p k"
  by (auto simp: run_of_def All_less_Suc2)

lemma run_of_0 [simp]: "run_of ct src pat s p 0"
  by (simp add: run_of_def)

lemma count_matches_run: "run_of ct src pat s p k \<longleftrightarrow> k \<le> count_matches ct src pat s p"
proof (induction ct src pat s p arbitrary: k rule: count_matches.induct)
  case (1 ct src pat s p)
  show ?case
  proof (cases k)
    case (Suc j)
    show ?thesis using 1 [of j] by (subst count_matches.simps) (auto simp: Suc run_of_Suc)
  qed simp
qed

lemma greedy_from_finds:
  assumes "matcher_ok ct src pat rec"
  shows "finds (\<lambda>e c. \<exists>k \<le> n. pat_match ct src pat (s + k) pr (captures ms) e c) (captures ms) (greedy_from rec s pr n ms)"
proof (induction n arbitrary: ms)
  case 0
  then show ?case using assms by (simp add: matcher_ok_def)
next
  case (Suc n)
  have "finds (pat_match ct src pat (s + Suc n) pr (captures ms)) (captures ms) (rec (s + Suc n) pr ms)"
    using assms unfolding matcher_ok_def by blast
  then show ?case unfolding greedy_from.simps
  proof (rule finds_or_else [where B = "\<lambda>e c. \<exists>k \<le> n. pat_match ct src pat (s + k) pr (captures ms) e c"])
    fix ms1 :: match_state assume "captures ms1 = captures ms"
    then show "finds (\<lambda>e c. \<exists>k \<le> n. pat_match ct src pat (s + k) pr (captures ms) e c) (captures ms) (greedy_from rec s pr n ms1)"
      using Suc [of ms1] by simp
  qed (auto simp: le_Suc_eq)
qed

lemma match_greedy_finds:
  assumes "matcher_ok ct src pat rec"
  shows "finds (\<lambda>e c. \<exists>k. run_of ct src pat s p k \<and> pat_match ct src pat (s + k) pr (captures ms) e c) (captures ms)
    (match_greedy ct src pat rec s p pr ms)"
  using greedy_from_finds [OF assms, of "count_matches ct src pat s p"] by (simp add: match_greedy_def count_matches_run)

lemma ex_nat_cases: "(\<exists>k. P k) \<longleftrightarrow> P 0 \<or> (\<exists>k. P (Suc k))"
  by (metis not0_implies_Suc)

lemma match_lazy_finds:
  assumes "matcher_ok ct src pat rec"
  shows "finds (\<lambda>e c. \<exists>k. run_of ct src pat s p k \<and> pat_match ct src pat (s + k) pr (captures ms) e c) (captures ms)
    (match_lazy ct src pat rec s p pr ms)"
  using assms
proof (induction ct src pat rec s p pr ms rule: match_lazy.induct)
  case (1 ct src pat rec s p pr ms)
  have R: "finds (pat_match ct src pat s pr (captures ms)) (captures ms) (rec s pr ms)"
    using 1(2) unfolding matcher_ok_def by blast
  have e: "match_lazy ct src pat rec s p pr ms = or_else (rec s pr ms) (\<lambda>ms1.
      if s < length src \<and> singlematch ct src pat s p then match_lazy ct src pat rec (s + 1) p pr ms1 else Inr (None, ms1))"
    by (subst match_lazy.simps) (simp add: or_else_def split: sum.split option.split prod.split)
  show ?case unfolding e
  proof (cases "\<exists>ms1. rec s pr ms = Inr (None, ms1) \<and> s < length src \<and> singlematch ct src pat s p")
    case True
    then obtain ms1 where m: "rec s pr ms = Inr (None, ms1)" "s < length src" "singlematch ct src pat s p" by blast
    then have c: "captures ms1 = captures ms" "\<forall>e c. \<not> pat_match ct src pat s pr (captures ms) e c" using R by simp_all
    have "finds (\<lambda>e c. \<exists>k. run_of ct src pat (s + 1) p k \<and> pat_match ct src pat (s + 1 + k) pr (captures ms1) e c) (captures ms1)
        (match_lazy ct src pat rec (s + 1) p pr ms1)"
      using 1 m by blast
    then have "finds (\<lambda>e c. \<exists>k. run_of ct src pat s p k \<and> pat_match ct src pat (s + k) pr (captures ms) e c) (captures ms)
        (match_lazy ct src pat rec (s + 1) p pr ms1)"
      unfolding c(1) by (rule finds_cong) (subst (2) ex_nat_cases, simp add: run_of_Suc m(2,3) c(2))
    then show "finds (\<lambda>e c. \<exists>k. run_of ct src pat s p k \<and> pat_match ct src pat (s + k) pr (captures ms) e c) (captures ms)
      (or_else (rec s pr ms) (\<lambda>ms1. if s < length src \<and> singlematch ct src pat s p
         then match_lazy ct src pat rec (s + 1) p pr ms1 else Inr (None, ms1)))"
      using m by (simp add: or_else_def)
  next
    case False
    show "finds (\<lambda>e c. \<exists>k. run_of ct src pat s p k \<and> pat_match ct src pat (s + k) pr (captures ms) e c) (captures ms)
      (or_else (rec s pr ms) (\<lambda>ms1. if s < length src \<and> singlematch ct src pat s p
         then match_lazy ct src pat rec (s + 1) p pr ms1 else Inr (None, ms1)))"
    proof (cases "rec s pr ms")
      case (Inr y)
      then obtain oe ms1 where y: "rec s pr ms = Inr (oe, ms1)" by (cases y) auto
      show ?thesis
      proof (cases oe)
        case (Some e)
        then show ?thesis using y R by (auto simp: or_else_def intro: exI [of _ "0 :: nat"])
      next
        case None
        then have n: "\<not> (s < length src \<and> singlematch ct src pat s p)" using False y by simp
        have "captures ms1 = captures ms" "\<forall>e c. \<not> pat_match ct src pat s pr (captures ms) e c" using y None R by simp_all
        moreover have "\<not> run_of ct src pat s p (Suc k)" for k using n by (auto simp: run_of_Suc)
        ultimately have "finds (\<lambda>e c. \<exists>k. run_of ct src pat s p k \<and> pat_match ct src pat (s + k) pr (captures ms) e c)
            (captures ms) (Inr (None, ms1))" by (subst ex_nat_cases) simp
        then show ?thesis using y None n by (auto simp: or_else_def)
      qed
    qed (simp add: or_else_def)
  qed
qed

text \<open>The items of a pattern, one equation each.\<close>

lemma step_open_iff:
  assumes "p < length pat" "pat ! p = ch_open"
  shows "pat_step ct src pat s p cs s1 p1 cs1 \<longleftrightarrow> length cs < LUA_MAXCAPTURES \<and> s1 = s \<and>
    (if p + 1 < length pat \<and> pat ! (p + 1) = ch_close then p1 = p + 2 \<and> cs1 = cs @ [\<lparr>cap_start = s, cap_len = Position\<rparr>]
     else p1 = p + 1 \<and> cs1 = cs @ [\<lparr>cap_start = s, cap_len = Unfinished\<rparr>])"
  using assms by (subst pat_step.simps) (auto simp: class_item_def)

lemma step_close_iff:
  assumes "p < length pat" "pat ! p = ch_close"
  shows "pat_step ct src pat s p cs s1 p1 cs1 \<longleftrightarrow> (\<exists>i. find_open_capture cs = Some i \<and> s1 = s \<and> p1 = p + 1
    \<and> cs1 = set_cap_len i (Finished (s - cap_start (cs ! i))) cs)"
  using assms by (subst pat_step.simps) (auto simp: class_item_def)

lemma step_end_iff:
  assumes "p + 1 = length pat" "pat ! p = ch_dollar"
  shows "pat_step ct src pat s p cs s1 p1 cs1 \<longleftrightarrow> s = length src \<and> s1 = s \<and> p1 = p + 1 \<and> cs1 = cs"
  using assms by (subst pat_step.simps) (auto simp: class_item_def)

lemma class_itemD:
  assumes "class_item pat p"
  shows "p < length pat" "pat ! p \<noteq> ch_open" "pat ! p \<noteq> ch_close" "pat ! p = ch_dollar \<Longrightarrow> p + 1 < length pat"
  using assms by (auto simp: class_item_def)

lemma step_class_iff:
  assumes "class_item pat p" "snd (get_quantifier pat p) = q" "q \<noteq> NoQuantifier"
  shows "pat_step ct src pat s p cs s1 p1 cs1 \<longleftrightarrow> (\<exists>k. run_of ct src pat s p k \<and> s1 = s + k \<and> p1 = class_end pat p + 1 \<and> cs1 = cs
    \<and> (case q of Greedy \<Rightarrow> True | Lazy \<Rightarrow> True | Plus \<Rightarrow> 0 < k | Optional \<Rightarrow> k \<le> 1 | NoQuantifier \<Rightarrow> False))"
  using assms class_itemD [OF assms(1)] by (subst pat_step.simps) auto

lemma step_plain_iff:
  assumes "class_item pat p" "snd (get_quantifier pat p) = NoQuantifier"
  shows "pat_step ct src pat s p cs s1 p1 cs1 \<longleftrightarrow>
    (if escaped pat p (\<lambda>c. c = 98) then \<exists>i. p + 3 < length pat \<and> s < length src \<and> src ! s = pat ! (p + 2)
       \<and> balance_end src (pat ! (p + 2)) (pat ! (p + 3)) (s + 1) 1 = Some i \<and> s1 = i + 1 \<and> p1 = p + 4 \<and> cs1 = cs
     else if escaped pat p (\<lambda>c. c = 102) then p + 2 < length pat \<and> pat ! (p + 2) = ch_lbracket \<and> s \<le> length src
       \<and> \<not> fst (matchbracketclass ct pat (if 0 < s then src ! (s - 1) else 0) (p + 2))
       \<and> fst (matchbracketclass ct pat (if s < length src then src ! s else 0) (p + 2))
       \<and> s1 = s \<and> p1 = class_end pat (p + 2) \<and> cs1 = cs
     else if escaped pat p is_ascii_digit then (\<exists>len w. let n = unat (pat ! (p + 1) - ch_zero) in 0 < n \<and> n \<le> length cs
       \<and> cap_len (cs ! (n - 1)) = Finished len \<and> slice src s (s + len) = Inr w
       \<and> slice src (cap_start (cs ! (n - 1))) (cap_start (cs ! (n - 1)) + len) = Inr w
       \<and> s1 = s + len \<and> p1 = p + 2 \<and> cs1 = cs)
     else s < length src \<and> singlematch ct src pat s p \<and> s1 = s + 1 \<and> p1 = class_end pat p \<and> cs1 = cs)"
proof -
  note D = class_itemD [OF assms(1)]
  have d: "\<not> is_ascii_digit 98" "\<not> is_ascii_digit 102" by (simp_all add: is_ascii_digit_def)
  show ?thesis
  proof (cases "escaped pat p (\<lambda>c. c = 98)")
    case True
    then show ?thesis using assms D d by (subst pat_step.simps) (auto simp: escaped_def special_escape_def)
  next
    case b: False
    show ?thesis
    proof (cases "escaped pat p (\<lambda>c. c = 102)")
      case True
      then show ?thesis using assms D d b by (subst pat_step.simps) (auto simp: escaped_def special_escape_def)
    next
      case f: False
      show ?thesis
      proof (cases "escaped pat p is_ascii_digit")
        case True
        then show ?thesis using assms D d b f
          by (subst pat_step.simps) (auto simp: escaped_def special_escape_def Let_def)
      next
        case False
        then have "\<not> special_escape pat p" using b f by (auto simp: escaped_def special_escape_def)
        then show ?thesis using assms D b f False by (subst pat_step.simps) auto
      qed
    qed
  qed
qed

lemma open_finds:
  assumes r: "matcher_ok ct src pat rec" and p: "p < length pat" "pat ! p = ch_open"
  shows "finds (pat_match ct src pat s p (captures ms)) (captures ms)
    (if p + 1 < length pat \<and> pat ! (p + 1) = ch_close then match_position_capture rec s p ms else match_open_capture rec s p ms)"
proof -
  have R: "finds (pat_match ct src pat s q (captures (push_capture s l ms))) (captures (push_capture s l ms)) (rec s q (push_capture s l ms))"
    for q l using r unfolding matcher_ok_def by blast
  have F: "finds (pat_match ct src pat s q (captures (push_capture s l ms))) (captures ms)
      (or_else (rec s q (push_capture s l ms)) (\<lambda>ms1. Inr (None, truncate_captures (length (captures ms)) ms1)))" for q l
    by (rule finds_restore [OF R]) (simp add: truncate_captures_def push_capture_def)
  have M: "pat_match ct src pat s p (captures ms) e c \<longleftrightarrow> length (captures ms) < LUA_MAXCAPTURES \<and>
     (if p + 1 < length pat \<and> pat ! (p + 1) = ch_close then pat_match ct src pat s (p + 2) (captures (push_capture s Position ms)) e c
      else pat_match ct src pat s (p + 1) (captures (push_capture s Unfinished ms)) e c)" for e c
    by (auto simp: pat_match_inside [OF p(1)] step_open_iff [OF p] push_capture_def)
  show ?thesis
  proof (cases "LUA_MAXCAPTURES \<le> length (captures ms)")
    case l: False
    show ?thesis
    proof (cases "p + 1 < length pat \<and> pat ! (p + 1) = ch_close")
      case True
      have "finds (pat_match ct src pat s p (captures ms)) (captures ms)
          (or_else (rec s (p + 2) (push_capture s Position ms)) (\<lambda>ms1. Inr (None, truncate_captures (length (captures ms)) ms1)))"
        by (rule finds_cong [OF F]) (use True l in \<open>simp add: M\<close>)
      then show ?thesis using True l by (simp add: match_position_capture_def)
    next
      case False
      have "finds (pat_match ct src pat s p (captures ms)) (captures ms)
          (or_else (rec s (p + 1) (push_capture s Unfinished ms)) (\<lambda>ms1. Inr (None, truncate_captures (length (captures ms)) ms1)))"
        by (rule finds_cong [OF F]) (use False l in \<open>auto simp: M\<close>)
      then show ?thesis using False l by (auto simp: match_open_capture_def)
    qed
  qed (simp add: match_position_capture_def match_open_capture_def)
qed

lemma find_open_captureD:
  "find_open_capture cs = Some i \<Longrightarrow> i < length cs \<and> cap_len (cs ! i) = Unfinished"
  by (auto simp: find_open_capture_def find_Some_iff rev_nth)

lemma set_cap_len_undo:
  "i < length cs \<Longrightarrow> cap_len (cs ! i) = l \<Longrightarrow> set_cap_len i l (set_cap_len i l' cs) = cs"
  by (auto simp: set_cap_len_def list_eq_iff_nth_eq nth_list_update)

lemma close_finds:
  assumes r: "matcher_ok ct src pat rec" and p: "p < length pat" "pat ! p = ch_close"
  shows "finds (pat_match ct src pat s p (captures ms)) (captures ms) (match_close_capture rec s p ms)"
proof (cases "find_open_capture (captures ms)")
  case None
  then show ?thesis by (simp add: match_close_capture_def)
next
  case (Some i)
  let ?cs = "set_cap_len i (Finished (s - cap_start (captures ms ! i))) (captures ms)"
  let ?m = "ms\<lparr>captures := ?cs, ms_level := ms_level ms - 1\<rparr>"
  have R: "finds (pat_match ct src pat s (p + 1) ?cs) ?cs (rec s (p + 1) ?m)"
    using r unfolding matcher_ok_def by (metis match_state.select_convs(1) match_state.surjective match_state.update_convs(1,2))
  have "finds (pat_match ct src pat s (p + 1) ?cs) (captures ms) (match_close_capture rec s p ms)"
    unfolding match_close_capture_def Some option.simps
    by (rule finds_restore [OF R]) (use find_open_captureD [OF Some] in \<open>simp add: set_cap_len_undo\<close>)
  then show ?thesis
    by (rule finds_cong) (simp add: pat_match_inside [OF p(1)] step_close_iff [OF p] Some)
qed

text \<open>A class with a quantifier.\<close>

lemma class_match:
  assumes "class_item pat p" "snd (get_quantifier pat p) = q" "q \<noteq> NoQuantifier"
  shows "pat_match ct src pat s p cs e c \<longleftrightarrow> (\<exists>k. run_of ct src pat s p k \<and> pat_match ct src pat (s + k) (class_end pat p + 1) cs e c
    \<and> (case q of Greedy \<Rightarrow> True | Lazy \<Rightarrow> True | Plus \<Rightarrow> 0 < k | Optional \<Rightarrow> k \<le> 1 | NoQuantifier \<Rightarrow> False))"
  unfolding pat_match_inside [OF class_itemD(1) [OF assms(1)]] step_class_iff [OF assms] by auto

lemma slice_iff: "slice xs a b = Inr w \<longleftrightarrow> a \<le> b \<and> b \<le> length xs \<and> w = take (b - a) (drop a xs)"
  by (auto simp: slice_def)

lemma balance_finds:
  assumes r: "matcher_ok ct src pat rec" and p: "class_item pat p" "snd (get_quantifier pat p) = NoQuantifier"
    "escaped pat p (\<lambda>c. c = 98)"
  shows "finds (pat_match ct src pat s p (captures ms)) (captures ms) (match_balance src pat rec s p ms)"
proof -
  have R: "finds (pat_match ct src pat s1 p1 (captures ms)) (captures ms) (rec s1 p1 ms)" for s1 p1
    using r unfolding matcher_ok_def by blast
  show ?thesis
    unfolding match_balance_def
    by (auto simp: pat_match_inside [OF class_itemD(1) [OF p(1)]] step_plain_iff [OF p(1,2)] p(3)
        intro!: finds_cong [OF R] split: option.split)
qed

lemma frontier_finds:
  assumes r: "matcher_ok ct src pat rec" and p: "class_item pat p" "snd (get_quantifier pat p) = NoQuantifier"
    "escaped pat p (\<lambda>c. c = 102)"
  shows "finds (pat_match ct src pat s p (captures ms)) (captures ms) (match_frontier ct src pat rec s p ms)"
proof -
  have R: "finds (pat_match ct src pat s1 p1 (captures ms)) (captures ms) (rec s1 p1 ms)" for s1 p1
    using r unfolding matcher_ok_def by blast
  have n: "\<not> escaped pat p (\<lambda>c. c = 98)" using p(3) by (auto simp: escaped_def)
  have e: "snd (matchbracketclass ct pat x q) = class_end pat q" for x q by (simp add: matchbracketclass_def Let_def)
  have len: "s \<le> length src" if "\<not> (0 < s \<and> length src \<le> s - 1)" using that by auto
  show ?thesis
    unfolding match_frontier_def
    using len by (auto simp: pat_match_inside [OF class_itemD(1) [OF p(1)]] step_plain_iff [OF p(1,2)] p(3) n e Let_def split_beta
        intro!: finds_cong [OF R])
qed

lemma backref_finds:
  assumes r: "matcher_ok ct src pat rec" and p: "class_item pat p" "snd (get_quantifier pat p) = NoQuantifier"
    "escaped pat p is_ascii_digit"
  shows "finds (pat_match ct src pat s p (captures ms)) (captures ms) (match_backref src pat rec s p ms)"
proof -
  have R: "finds (pat_match ct src pat s1 p1 (captures ms)) (captures ms) (rec s1 p1 ms)" for s1 p1
    using r unfolding matcher_ok_def by blast
  have n: "\<not> escaped pat p (\<lambda>c. c = 98)" "\<not> escaped pat p (\<lambda>c. c = 102)"
    using p(3) by (auto simp: escaped_def is_ascii_digit_def)
  let ?n = "unat (pat ! (p + 1) - ch_zero)"
  let ?c = "captures ms ! (?n - 1)"
  have M: "pat_match ct src pat s p (captures ms) e c \<longleftrightarrow> (\<exists>len w. 0 < ?n \<and> ?n \<le> length (captures ms)
     \<and> cap_len ?c = Finished len \<and> slice src s (s + len) = Inr w \<and> slice src (cap_start ?c) (cap_start ?c + len) = Inr w
     \<and> pat_match ct src pat (s + len) (p + 2) (captures ms) e c)" for e c
    by (auto simp: pat_match_inside [OF class_itemD(1) [OF p(1)]] step_plain_iff [OF p(1,2)] p(3) n Let_def)
  show ?thesis
  proof (cases "0 < ?n \<and> ?n \<le> length (captures ms) \<and> (\<exists>len. cap_len ?c = Finished len)")
    case False
    then show ?thesis by (auto simp: match_backref_def Let_def split: CaptureLen.split)
  next
    case True
    then obtain len where c: "0 < ?n" "?n \<le> length (captures ms)" "cap_len ?c = Finished len" by blast
    have e: "match_backref src pat rec s p ms = (if length src < s + len then Inr (None, ms)
           else res_bind (slice src s (s + len)) (\<lambda>a. res_bind (slice src (cap_start ?c) (cap_start ?c + len)) (\<lambda>b.
             if a = b then rec (s + len) (p + 2) ms else Inr (None, ms))))"
      using c by (simp add: match_backref_def Let_def)
    show ?thesis
    proof (cases "length src < s + len")
      case True
      then show ?thesis using c by (simp add: e M slice_iff)
    next
      case False
      then obtain a where a: "slice src s (s + len) = Inr a" by (simp add: slice_def)
      show ?thesis
      proof (cases "slice src (cap_start ?c) (cap_start ?c + len)")
        case (Inl x)
        then show ?thesis using False a by (simp add: e)
      next
        case (Inr b)
        have "finds (pat_match ct src pat s p (captures ms)) (captures ms) (rec (s + len) (p + 2) ms)" if "a = b"
          by (rule finds_cong [OF R]) (use that c a Inr in \<open>simp add: M\<close>)
        then show ?thesis using False a Inr c by (simp add: e M)
      qed
    qed
  qed
qed

lemma plain_finds:
  assumes r: "matcher_ok ct src pat rec" and p: "class_item pat p" "snd (get_quantifier pat p) = NoQuantifier"
    "\<not> escaped pat p (\<lambda>c. c = 98)" "\<not> escaped pat p (\<lambda>c. c = 102)" "\<not> escaped pat p is_ascii_digit"
    and k: "s < length src \<Longrightarrow> singlematch ct src pat s p \<Longrightarrow>
      finds (pat_match ct src pat (s + 1) (class_end pat p) (captures ms)) (captures ms) k"
  shows "finds (pat_match ct src pat s p (captures ms)) (captures ms)
    (if s < length src \<and> singlematch ct src pat s p then k else Inr (None, ms))"
  using finds_cong [OF k, of "pat_match ct src pat s p (captures ms)"]
  by (auto simp: pat_match_inside [OF class_itemD(1) [OF p(1)]] step_plain_iff [OF p(1,2)] p(3-5))

lemma plus_finds:
  assumes r: "matcher_ok ct src pat rec" and p: "class_item pat p" "snd (get_quantifier pat p) = Plus"
  shows "finds (pat_match ct src pat s p (captures ms)) (captures ms)
    (if s < length src \<and> singlematch ct src pat s p then match_greedy ct src pat rec (s + 1) p (class_end pat p + 1) ms
     else Inr (None, ms))"
proof -
  have M: "pat_match ct src pat s p (captures ms) e c \<longleftrightarrow> s < length src \<and> singlematch ct src pat s p \<and>
     (\<exists>k. run_of ct src pat (s + 1) p k \<and> pat_match ct src pat (s + 1 + k) (class_end pat p + 1) (captures ms) e c)" for e c
    unfolding class_match [OF p, simplified] by (subst ex_nat_cases) (auto simp: run_of_Suc)
  show ?thesis using finds_cong [OF match_greedy_finds [OF r, of "s + 1" p "class_end pat p + 1" ms]] M by auto
qed

lemma or_else_case:
  "(case r of Inl e \<Rightarrow> Inl e | Inr (Some x, m) \<Rightarrow> Inr (Some x, m) | Inr (None, m) \<Rightarrow> k m) = or_else r k"
  by (auto simp: or_else_def split: sum.split option.split)

lemma match_inner_class:
  assumes "class_item pat p"
  shows "match_inner ct src pat rec s p ms = (case snd (get_quantifier pat p) of
       Greedy \<Rightarrow> match_greedy ct src pat rec s p (class_end pat p + 1) ms
     | Lazy \<Rightarrow> match_lazy ct src pat rec s p (class_end pat p + 1) ms
     | Plus \<Rightarrow> if s < length src \<and> singlematch ct src pat s p
               then match_greedy ct src pat rec (s + 1) p (class_end pat p + 1) ms else Inr (None, ms)
     | Optional \<Rightarrow> or_else (if s < length src \<and> singlematch ct src pat s p then rec (s + 1) (class_end pat p + 1) ms
                else Inr (None, ms)) (\<lambda>ms1. match_inner ct src pat rec s (class_end pat p + 1) ms1)
     | NoQuantifier \<Rightarrow>
         if escaped pat p (\<lambda>c. c = 98) then match_balance src pat rec s p ms
         else if escaped pat p (\<lambda>c. c = 102) then match_frontier ct src pat rec s p ms
         else if escaped pat p is_ascii_digit then match_backref src pat rec s p ms
         else if s < length src \<and> singlematch ct src pat s p then match_inner ct src pat rec (s + 1) (class_end pat p) ms
         else Inr (None, ms))"
proof -
  have c: "\<not> length pat \<le> p" "pat ! p \<noteq> ch_open" "pat ! p \<noteq> ch_close" "\<not> (pat ! p = ch_dollar \<and> length pat \<le> p + 1)"
    using assms by (simp_all add: class_item_def)
  show ?thesis
    unfolding match_inner.simps [of ct src pat rec s p ms] or_else_case if_not_P [OF c(1)] if_not_P [OF c(2)] if_not_P [OF c(3)]
      if_not_P [OF c(4)] escaped_def ..
qed

lemma match_inner_finds:
  assumes "matcher_ok ct src pat rec"
  shows "finds (pat_match ct src pat s p (captures ms)) (captures ms) (match_inner ct src pat rec s p ms)"
  using assms
proof (induction "length pat - p" arbitrary: s p ms rule: less_induct)
  case less
  note r = less.prems
  have IH: "finds (pat_match ct src pat s1 p1 (captures m)) (captures m) (match_inner ct src pat rec s1 p1 m)"
    if "p < p1" "p < length pat" for s1 p1 m using less.hyps [of p1] r that by simp
  consider "length pat \<le> p" | "p < length pat" "pat ! p = ch_open" | "p < length pat" "pat ! p = ch_close"
    | "p + 1 = length pat" "pat ! p = ch_dollar" | "class_item pat p"
    by (auto simp: class_item_def) force
  then show ?case
  proof cases
    case 1
    then show ?thesis by (subst match_inner.simps) (simp add: pat_match_end)
  next
    case 2
    then show ?thesis using open_finds [OF r 2, of s ms] by (subst match_inner.simps) (simp split del: if_split cong: if_cong)
  next
    case 3
    then show ?thesis using close_finds [OF r 3, of s ms] by (subst match_inner.simps) simp
  next
    case 4
    then have p: "p < length pat" and q: "length pat \<le> Suc p" by simp_all
    have "pat_match ct src pat s p (captures ms) e c \<longleftrightarrow> s = length src \<and> e = s \<and> c = captures ms" for e c
      by (auto simp: pat_match_inside [OF p] step_end_iff [OF 4] pat_match_end [OF q])
    then show ?thesis using 4 p by (subst match_inner.simps) auto
  next
    case 5
    note p = class_itemD [OF 5]
    note e = match_inner_class [OF 5, of ct src rec s ms]
    have ce: "p < class_end pat p" by (rule class_end_gt [OF p(1)])
    show ?thesis
    proof (cases "snd (get_quantifier pat p)")
      case Greedy
      have "finds (pat_match ct src pat s p (captures ms)) (captures ms) (match_greedy ct src pat rec s p (class_end pat p + 1) ms)"
        by (rule finds_cong [OF match_greedy_finds [OF r]]) (simp add: class_match [OF 5 Greedy])
      then show ?thesis by (simp add: e Greedy)
    next
      case Lazy
      have "finds (pat_match ct src pat s p (captures ms)) (captures ms) (match_lazy ct src pat rec s p (class_end pat p + 1) ms)"
        by (rule finds_cong [OF match_lazy_finds [OF r]]) (simp add: class_match [OF 5 Lazy])
      then show ?thesis by (simp add: e Lazy)
    next
      case Plus
      then show ?thesis using plus_finds [OF r 5 Plus, of s ms] by (simp add: e)
    next
      case Optional
      let ?one = "s < length src \<and> singlematch ct src pat s p"
      let ?q = "class_end pat p + 1"
      have M: "pat_match ct src pat s p (captures ms) x c \<longleftrightarrow>
         (?one \<and> pat_match ct src pat (s + 1) ?q (captures ms) x c) \<or> pat_match ct src pat s ?q (captures ms) x c" for x c
      proof -
        have "(\<exists>k. run_of ct src pat s p k \<and> pat_match ct src pat (s + k) ?q (captures ms) x c \<and> k \<le> 1) \<longleftrightarrow>
            pat_match ct src pat s ?q (captures ms) x c
            \<or> (run_of ct src pat s p (Suc 0) \<and> pat_match ct src pat (s + Suc 0) ?q (captures ms) x c)"
          by (subst ex_nat_cases, subst ex_nat_cases) (simp add: conj_comms)
        then show ?thesis using class_match [OF 5 Optional] by (auto simp: run_of_Suc)
      qed
      have A: "finds (\<lambda>x c. ?one \<and> pat_match ct src pat (s + 1) ?q (captures ms) x c) (captures ms)
          (if ?one then rec (s + 1) ?q ms else Inr (None, ms))"
        using r [unfolded matcher_ok_def, rule_format, of "s + 1" ?q ms] by auto
      show ?thesis unfolding e Optional Quantifier.case
      proof (rule finds_or_else [OF A _ M])
        fix ms1 :: match_state assume c: "captures ms1 = captures ms"
        have "p < ?q" using ce by simp
        then show "finds (pat_match ct src pat s ?q (captures ms)) (captures ms) (match_inner ct src pat rec s ?q ms1)"
          using IH [of ?q s ms1] p(1) c by metis
      qed
    next
      case NoQuantifier
      have k: "finds (pat_match ct src pat (s + 1) (class_end pat p) (captures ms)) (captures ms)
          (match_inner ct src pat rec (s + 1) (class_end pat p) ms)" by (rule IH [OF ce p(1)])
      show ?thesis
        using balance_finds [OF r 5 NoQuantifier] frontier_finds [OF r 5 NoQuantifier] backref_finds [OF r 5 NoQuantifier]
          plain_finds [OF r 5 NoQuantifier _ _ _ k] by (simp add: e NoQuantifier)
    qed
  qed
qed

lemma match_n_ok: "matcher_ok ct src pat (match_n ct src pat n)"
proof (induction n)
  case 0
  then show ?case by (simp add: matcher_ok_def)
next
  case (Suc n)
  then show ?case using match_inner_finds [OF Suc] unfolding matcher_ok_def by simp
qed

lemma match_at_finds: "finds (pat_match ct src pat s 0 []) [] (match_at ct src pat s)"
  using match_n_ok [of ct src pat MAXCCALLS] unfolding matcher_ok_def match_at_def
  by (metis match_state.select_convs(1) match_state_new_def)

section \<open>Where a match lies\<close>

lemma balance_endD: "balance_end src op cl i n = Some j \<Longrightarrow> i \<le> j \<and> j < length src \<and> src ! j = cl"
proof (induction src op cl i n rule: balance_end.induct)
  case (1 src op cl i n)
  from 1(4) show ?case
    by (subst (asm) balance_end.simps) (use 1(1-3) in \<open>fastforce split: if_splits\<close>)
qed

text \<open>Captures inside the subject, up to a position.\<close>

definition caps_within :: "u8 list \<Rightarrow> nat \<Rightarrow> capture list \<Rightarrow> bool" where
  "caps_within src s cs \<longleftrightarrow> (\<forall>c \<in> set cs. cap_start c \<le> s
     \<and> (\<forall>n. cap_len c = Finished n \<longrightarrow> cap_start c + n \<le> s))"

lemma caps_within_mono: "caps_within src s cs \<Longrightarrow> s \<le> s1 \<Longrightarrow> caps_within src s1 cs"
  unfolding caps_within_def by (meson le_trans)

lemma run_of_room: "run_of ct src pat s p k \<Longrightarrow> s \<le> length src \<Longrightarrow> s + k \<le> length src"
  by (cases k) (auto simp: run_of_def)

lemma pat_step_within:
  assumes "pat_step ct src pat s p cs s1 p1 cs1"
  shows "s \<le> s1 \<and> (s \<le> length src \<longrightarrow> s1 \<le> length src) \<and> (caps_within src s cs \<longrightarrow> caps_within src s1 cs1)
    \<and> length cs1 \<le> max (length cs) LUA_MAXCAPTURES"
  using assms
proof induction
  case (step_close p cs i s)
  let ?l = "Finished (s - cap_start (cs ! i))"
  have i: "i < length cs" using find_open_captureD [OF step_close(3)] by simp
  have "caps_within src s (set_cap_len i ?l cs)" if w: "caps_within src s cs"
  proof -
    have "set (set_cap_len i ?l cs) \<subseteq> insert ((cs ! i)\<lparr>cap_len := ?l\<rparr>) (set cs)"
      unfolding set_cap_len_def by (rule set_update_subset_insert)
    moreover have "cap_start (cs ! i) \<le> s" using w i by (simp add: caps_within_def)
    ultimately show ?thesis using w unfolding caps_within_def by fastforce
  qed
  then show ?case by (simp add: set_cap_len_def)
next
  case (step_repeat p q s k cs)
  then show ?case using run_of_room [of ct src pat s p k] caps_within_mono [of src s cs "s + k"] by simp
next
  case (step_balance p s i cs)
  then show ?case using balance_endD [OF step_balance(7)] caps_within_mono [of src s cs "i + 1"] by auto
next
  case (step_backref p n cs len s w)
  then show ?case using caps_within_mono [of src s cs "s + len"] by (simp add: slice_iff)
next
  case (step_single p s cs)
  then show ?case using caps_within_mono [of src s cs "s + 1"] by simp
qed (auto simp: caps_within_def)

lemma pat_match_within:
  "pat_match ct src pat s p cs e cs1 \<Longrightarrow> s \<le> e \<and> (s \<le> length src \<longrightarrow> e \<le> length src)
    \<and> (caps_within src s cs \<longrightarrow> caps_within src e cs1) \<and> length cs1 \<le> max (length cs) LUA_MAXCAPTURES"
proof (induction rule: pat_match.induct)
  case (match_step s p cs s1 p1 cs1 e cs2)
  then show ?case using pat_step_within [OF match_step(1)] by auto
qed simp

lemma match_at_within:
  assumes "match_at ct src pat s = Inr (Some e, ms)"
  shows "s \<le> e" "s \<le> length src \<Longrightarrow> e \<le> length src" "caps_within src e (captures ms)" "length (captures ms) \<le> LUA_MAXCAPTURES"
proof -
  have "pat_match ct src pat s 0 [] e (captures ms)" using match_at_finds [of ct src pat s] assms by simp
  then show "s \<le> e" "s \<le> length src \<Longrightarrow> e \<le> length src" "caps_within src e (captures ms)" "length (captures ms) \<le> LUA_MAXCAPTURES"
    using pat_match_within [of ct src pat s 0 "[]" e] by (auto simp: caps_within_def)
qed
end
