(* ===== verification/LuaStrLib.thy ===== *)
theory LuaStrLib
  imports PatternProps
begin

text \<open>
  The functions of \<^verbatim>\<open>src/stdlib/string.rs\<close> over the matcher and over byte positions: \<^verbatim>\<open>sub\<close>,
  \<^verbatim>\<open>byte\<close>, \<^verbatim>\<open>rep\<close>, \<^verbatim>\<open>reverse\<close>, \<^verbatim>\<open>lower\<close>, \<^verbatim>\<open>upper\<close>, \<^verbatim>\<open>find\<close>, \<^verbatim>\<open>match\<close>,
  \<^verbatim>\<open>gmatch\<close> and \<^verbatim>\<open>gsub\<close>, from their converted arguments to the values they push. Positions come
  from Lua as \<open>i64\<close>; adding the length of a string to a negative one cannot overflow, so they are integers.
\<close>

section \<open>Positions and slices\<close>

definition posrelat :: "int \<Rightarrow> nat \<Rightarrow> int" where
  "posrelat pos len = (if 0 \<le> pos then pos else pos + int len + 1)"

definition str_sub :: "u8 list \<Rightarrow> int \<Rightarrow> int \<Rightarrow> u8 list pres" where
  "str_sub s i j = (let start = nat (max 1 (posrelat i (length s)));
                        last' = nat (max 0 (min (posrelat j (length s)) (int (length s))))
     in if start \<le> last' then slice s (start - 1) last' else Inr [])"

definition str_byte :: "u8 list \<Rightarrow> int \<Rightarrow> int \<Rightarrow> u8 list" where
  "str_byte s i j = (let posi = nat (max 1 (posrelat i (length s)));
                         pose = nat (max 0 (min (posrelat j (length s)) (int (length s))))
     in if posi > pose then [] else map (\<lambda>k. s ! (k - 1)) [posi..<pose + 1])"

definition MAX_STRING_SIZE :: nat where "MAX_STRING_SIZE = 2 ^ 32 - 3"

definition str_rep :: "u8 list \<Rightarrow> int \<Rightarrow> u8 list pres" where
  "str_rep s n = (if n \<le> 0 then Inr []
     else if MAX_STRING_SIZE < min (length s * nat n) (2 ^ 64 - 1) then Inl (PatError ''string length overflow'')
     else Inr (concat (replicate (nat n) s)))"

definition str_reverse :: "u8 list \<Rightarrow> u8 list" where "str_reverse s = rev s"
definition str_lower :: "ctype \<Rightarrow> u8 list \<Rightarrow> u8 list" where "str_lower ct s = map (c_tolower ct) s"
definition str_upper :: "ctype \<Rightarrow> u8 list \<Rightarrow> u8 list" where "str_upper ct s = map (c_toupper ct) s"

section \<open>Searching\<close>

definition strip_anchor :: "u8 list \<Rightarrow> bool \<times> u8 list" where
  "strip_anchor pat = (if pat \<noteq> [] \<and> hd pat = ch_caret then (True, tl pat) else (False, pat))"

definition init_pos :: "int \<Rightarrow> nat \<Rightarrow> nat" where
  "init_pos i len = nat (max 1 (posrelat i len)) - 1"

text \<open>The loop of \<^verbatim>\<open>find\<close> and \<^verbatim>\<open>match\<close>: the first position at which the pattern matches.\<close>

function search_from :: "ctype \<Rightarrow> u8 list \<Rightarrow> u8 list \<Rightarrow> bool \<Rightarrow> nat \<Rightarrow> (nat \<times> nat \<times> capture list) option pres" where
  "search_from ct s pattern anchor pos =
    (case match_at ct s pattern pos of
       Inl e \<Rightarrow> Inl e
     | Inr (Some e, ms) \<Rightarrow> Inr (Some (pos, e, captures ms))
     | Inr (None, ms) \<Rightarrow> if anchor \<or> length s < pos + 1 then Inr None else search_from ct s pattern anchor (pos + 1))"
  by pat_completeness auto
termination
  by (relation "measure (\<lambda>(ct, s, pattern, anchor, pos). Suc (length s) - pos)") auto

declare search_from.simps [simp del]

text \<open>The value of a capture: a position or the text.\<close>

datatype cap_value = CapPos nat | CapStr "u8 list"

definition get_capture_val :: "capture \<Rightarrow> u8 list \<Rightarrow> cap_value pres" where
  "get_capture_val cap src = (case cap_len cap of
     Position \<Rightarrow> Inr (CapPos (cap_start cap + 1))
   | Finished n \<Rightarrow> res_bind (slice src (cap_start cap) (cap_start cap + n)) (\<lambda>w. Inr (CapStr w))
   | Unfinished \<Rightarrow> Inl (PatError ''unfinished capture''))"

primrec push_captures :: "capture list \<Rightarrow> u8 list \<Rightarrow> cap_value list pres" where
  "push_captures [] src = Inr []"
| "push_captures (c # cs) src = res_bind (get_capture_val c src) (\<lambda>v. res_bind (push_captures cs src) (\<lambda>vs. Inr (v # vs)))"

definition find_plain :: "u8 list \<Rightarrow> u8 list \<Rightarrow> nat option" where
  "find_plain haystack needle = (if needle = [] then Some 0
     else find (\<lambda>i. take (length needle) (drop i haystack) = needle) [0..<length haystack + 1 - length needle])"

text \<open>The first two values are the 1-based bounds of the match.\<close>

definition str_find :: "ctype \<Rightarrow> u8 list \<Rightarrow> u8 list \<Rightarrow> int \<Rightarrow> bool \<Rightarrow> (nat \<times> nat \<times> cap_value list) option pres" where
  "str_find ct s pat i plain = (let k = init_pos i (length s) in
     if plain then res_bind (slice s k (length s)) (\<lambda>hay. Inr (case find_plain hay pat of
         Some pos \<Rightarrow> Some (k + pos + 1, k + pos + 1 + length pat - 1, [])
       | None \<Rightarrow> None))
     else case strip_anchor pat of (anchor, pattern) \<Rightarrow>
       res_bind (search_from ct s pattern anchor k) (\<lambda>r. case r of
           Some (pos, e, cs) \<Rightarrow> res_bind (push_captures cs s) (\<lambda>vs. Inr (Some (pos + 1, e, vs)))
         | None \<Rightarrow> Inr None))"

definition str_match :: "ctype \<Rightarrow> u8 list \<Rightarrow> u8 list \<Rightarrow> int \<Rightarrow> cap_value list option pres" where
  "str_match ct s pat i = (case strip_anchor pat of (anchor, pattern) \<Rightarrow>
     res_bind (search_from ct s pattern anchor (init_pos i (length s))) (\<lambda>r. case r of
         Some (pos, e, cs) \<Rightarrow>
           if cs = [] then res_bind (slice s pos e) (\<lambda>w. Inr (Some [CapStr w]))
           else res_bind (push_captures cs s) (\<lambda>vs. Inr (Some vs))
       | None \<Rightarrow> Inr None))"

text \<open>One call of the iterator of \<^verbatim>\<open>gmatch\<close>: the values and the position kept for the next call.\<close>

function gmatch_from :: "ctype \<Rightarrow> u8 list \<Rightarrow> u8 list \<Rightarrow> bool \<Rightarrow> nat \<Rightarrow> (cap_value list \<times> nat) option pres" where
  "gmatch_from ct s pattern anchor pos =
    (if length s < pos then Inr None
     else case match_at ct s pattern pos of
       Inl e \<Rightarrow> Inl e
     | Inr (Some e, ms) \<Rightarrow> (let np = (if e = pos then e + 1 else e) in
         if captures ms = [] then res_bind (slice s pos e) (\<lambda>w. Inr (Some ([CapStr w], np)))
         else res_bind (push_captures (captures ms) s) (\<lambda>vs. Inr (Some (vs, np))))
     | Inr (None, ms) \<Rightarrow> if anchor then Inr None else gmatch_from ct s pattern anchor (pos + 1))"
  by pat_completeness auto
termination
  by (relation "measure (\<lambda>(ct, s, pattern, anchor, pos). Suc (length s) - pos)") auto

declare gmatch_from.simps [simp del]

definition gmatch_aux :: "ctype \<Rightarrow> u8 list \<Rightarrow> u8 list \<Rightarrow> nat \<Rightarrow> (cap_value list \<times> nat) option pres" where
  "gmatch_aux ct s pat pos = (case strip_anchor pat of (anchor, pattern) \<Rightarrow> gmatch_from ct s pattern anchor pos)"

section \<open>Substitution\<close>

text \<open>Decimal digits, as \<^verbatim>\<open>format!\<close> prints a \<^verbatim>\<open>usize\<close>.\<close>

fun decimal :: "nat \<Rightarrow> u8 list" where
  "decimal n = (if n < 10 then [ch_zero + word_of_nat n] else decimal (n div 10) @ [ch_zero + word_of_nat (n mod 10)])"

declare decimal.simps [simp del]

text \<open>What \<^verbatim>\<open>%1\<close> to \<^verbatim>\<open>%9\<close> stand for in a replacement string.\<close>

definition capture_text :: "u8 list \<Rightarrow> capture list \<Rightarrow> nat \<Rightarrow> nat \<Rightarrow> nat \<Rightarrow> u8 list pres" where
  "capture_text src cs ms_start ms_end n =
    (if n = 0 then slice src ms_start ms_end
     else let i = n - 1 in
       if length cs \<le> i then
         (if i = 0 \<and> cs = [] then slice src ms_start ms_end else Inl (PatError ''invalid capture index''))
       else case cap_len (cs ! i) of
           Finished len \<Rightarrow> slice src (cap_start (cs ! i)) (cap_start (cs ! i) + len)
         | Position \<Rightarrow> Inr (decimal (cap_start (cs ! i) + 1))
         | Unfinished \<Rightarrow> Inl (PatError ''unfinished capture''))"

fun expand_repl :: "u8 list \<Rightarrow> capture list \<Rightarrow> nat \<Rightarrow> nat \<Rightarrow> u8 list \<Rightarrow> u8 list pres" where
  "expand_repl src cs a b [] = Inr []"
| "expand_repl src cs a b [c] = Inr [c]"
| "expand_repl src cs a b (c # d # rest) =
    (if c = ch_percent \<and> is_ascii_digit d then
       res_bind (capture_text src cs a b (unat (d - ch_zero))) (\<lambda>w. res_bind (expand_repl src cs a b rest) (\<lambda>v. Inr (w @ v)))
     else if c = ch_percent \<and> d = ch_percent then res_bind (expand_repl src cs a b rest) (\<lambda>v. Inr (ch_percent # v))
     else res_bind (expand_repl src cs a b (d # rest)) (\<lambda>v. Inr (c # v)))"

text \<open>
  A replacement may call Lua functions, so it is a parameter that threads a state; it gets the captures and the
  bounds of the match. A string replacement is \<open>expand_repl\<close>, which keeps the state.
\<close>

type_synonym 'w replacement = "capture list \<Rightarrow> nat \<Rightarrow> nat \<Rightarrow> 'w \<Rightarrow> (u8 list \<times> 'w) pres"

definition string_repl :: "u8 list \<Rightarrow> u8 list \<Rightarrow> 'w replacement" where
  "string_repl src repl cs a b w = res_bind (expand_repl src cs a b repl) (\<lambda>v. Inr (v, w))"

definition char_at :: "u8 list \<Rightarrow> nat \<Rightarrow> u8 list" where
  "char_at s pos = (if pos < length s then [s ! pos] else [])"

function gsub_loop :: "ctype \<Rightarrow> u8 list \<Rightarrow> u8 list \<Rightarrow> bool \<Rightarrow> nat \<Rightarrow> 'w replacement \<Rightarrow> nat \<Rightarrow> nat \<Rightarrow> u8 list \<Rightarrow> 'w
    \<Rightarrow> (nat \<times> nat \<times> u8 list \<times> 'w) pres" where
  "gsub_loop ct s pattern anchor mx repl pos count acc w =
    (if \<not> (count < mx \<and> pos \<le> length s) then Inr (pos, count, acc, w)
     else case match_at ct s pattern pos of
       Inl e \<Rightarrow> Inl e
     | Inr (Some e, ms) \<Rightarrow>
         (case repl (captures ms) pos e w of
            Inl x \<Rightarrow> Inl x
          | Inr (r, w1) \<Rightarrow>
              let acc1 = acc @ r @ (if e = pos then char_at s pos else []);
                  pos1 = (if e = pos then pos + 1 else e)
              in if anchor then Inr (pos1, count + 1, acc1, w1)
                 else gsub_loop ct s pattern anchor mx repl pos1 (count + 1) acc1 w1)
     | Inr (None, ms) \<Rightarrow>
         if anchor then Inr (pos + 1, count, acc @ char_at s pos, w)
         else gsub_loop ct s pattern anchor mx repl (pos + 1) count (acc @ char_at s pos) w)"
  by pat_completeness auto
termination
  by (relation "measure (\<lambda>(ct, s, pattern, anchor, mx, repl, pos, count, acc, w). Suc (length s) - pos)")
    (auto dest!: match_at_within(1) split: if_splits)

declare gsub_loop.simps [simp del]

definition str_gsub :: "ctype \<Rightarrow> u8 list \<Rightarrow> u8 list \<Rightarrow> 'w replacement \<Rightarrow> int \<Rightarrow> 'w \<Rightarrow> (u8 list \<times> nat \<times> 'w) pres" where
  "str_gsub ct s pat repl mx w = (case strip_anchor pat of (anchor, pattern) \<Rightarrow>
     res_bind (gsub_loop ct s pattern anchor (nat (max mx 0)) repl 0 0 [] w) (\<lambda>(pos, count, acc, w1).
       Inr (if pos \<le> length s then acc @ drop pos s else acc, count, w1)))"

end
