(* ===== verification/StrProps.thy ===== *)
theory StrProps
  imports LuaStrLib
begin

text \<open>
  Properties of the pattern matcher and of the string functions: the matcher implements the meaning of patterns and
  stays inside the subject, searches are leftmost, substitution rebuilds the subject, substrings by position.
\<close>

section \<open>No panic inside the subject\<close>

definition matcher_safe :: "u8 list \<Rightarrow> matcher \<Rightarrow> bool" where
  "matcher_safe src rec \<longleftrightarrow> (\<forall>s p ms. s \<le> length src \<longrightarrow> caps_within src s (captures ms) \<longrightarrow> rec s p ms \<noteq> Inl PatPanic)"

lemma matcher_safeD:
  "matcher_safe src rec \<Longrightarrow> s \<le> length src \<Longrightarrow> caps_within src s (captures ms) \<Longrightarrow> rec s p ms \<noteq> Inl PatPanic"
  unfolding matcher_safe_def by blast

lemma matcher_okD:
  assumes "matcher_ok ct src pat rec" "rec s p ms = Inr (None, ms1)" shows "captures ms1 = captures ms"
  using assms unfolding matcher_ok_def by (metis finds_none)

lemma or_else_panic:
  "or_else r k = Inl PatPanic \<longleftrightarrow> r = Inl PatPanic \<or> (\<exists>ms. r = Inr (None, ms) \<and> k ms = Inl PatPanic)"
  by (cases r) (auto simp: or_else_def split: option.splits)

lemma greedy_from_safe:
  assumes "matcher_ok ct src pat rec" "matcher_safe src rec" "s + n \<le> length src" "caps_within src s (captures ms)"
  shows "greedy_from rec s pr n ms \<noteq> Inl PatPanic"
  using assms(3,4)
proof (induction n arbitrary: ms)
  case 0
  then show ?case using matcher_safeD [OF assms(2)] by simp
next
  case (Suc n)
  have "caps_within src (s + Suc n) (captures ms)" using Suc.prems(2) by (rule caps_within_mono) simp
  then have "rec (s + Suc n) pr ms \<noteq> Inl PatPanic" using Suc.prems(1) by (rule matcher_safeD [OF assms(2), rotated])
  moreover have "greedy_from rec s pr n ms1 \<noteq> Inl PatPanic" if "rec (s + Suc n) pr ms = Inr (None, ms1)" for ms1
    using Suc.IH [of ms1] Suc.prems matcher_okD [OF assms(1) that] by simp
  ultimately show ?case by (auto simp: or_else_panic)
qed

lemma match_greedy_safe:
  assumes "matcher_ok ct src pat rec" "matcher_safe src rec" "s \<le> length src" "caps_within src s (captures ms)"
  shows "match_greedy ct src pat rec s p pr ms \<noteq> Inl PatPanic"
proof -
  have "s + count_matches ct src pat s p \<le> length src"
    using run_of_room [of ct src pat s p "count_matches ct src pat s p"] assms(3) by (simp add: count_matches_run)
  then show ?thesis unfolding match_greedy_def by (rule greedy_from_safe [OF assms(1,2) _ assms(4)])
qed

lemma match_lazy_safe:
  assumes "matcher_ok ct src pat rec" "matcher_safe src rec" "s \<le> length src" "caps_within src s (captures ms)"
  shows "match_lazy ct src pat rec s p pr ms \<noteq> Inl PatPanic"
  using assms
proof (induction ct src pat rec s p pr ms rule: match_lazy.induct)
  case (1 ct src pat rec s p pr ms)
  have a: "rec s pr ms \<noteq> Inl PatPanic" by (rule matcher_safeD [OF 1(3-5)])
  show ?case
  proof (cases "rec s pr ms")
    case (Inl e)
    then show ?thesis using a by (subst match_lazy.simps) simp
  next
    case (Inr y)
    then obtain oe ms1 where y: "rec s pr ms = Inr (oe, ms1)" by (cases y) auto
    show ?thesis
    proof (cases oe)
      case None
      then have "captures ms1 = captures ms" using y matcher_okD [OF 1(2)] by simp
      then have "match_lazy ct src pat rec (s + 1) p pr ms1 \<noteq> Inl PatPanic" if "s < length src" "singlematch ct src pat s p"
        using 1(1) [OF y [unfolded None] refl refl] that 1(2,3) caps_within_mono [OF 1(5), of "s + 1"] by simp
      then show ?thesis using y None by (subst match_lazy.simps) simp
    qed (use y in \<open>subst match_lazy.simps, simp\<close>)
  qed
qed

lemma open_safe:
  assumes "matcher_safe src rec" "s \<le> length src" "caps_within src s (captures ms)"
  shows "match_open_capture rec s p ms \<noteq> Inl PatPanic" "match_position_capture rec s p ms \<noteq> Inl PatPanic"
proof -
  have "caps_within src s (captures (push_capture s Unfinished ms))" "caps_within src s (captures (push_capture s Position ms))"
    using assms(3) by (auto simp: caps_within_def push_capture_def)
  then show "match_open_capture rec s p ms \<noteq> Inl PatPanic" "match_position_capture rec s p ms \<noteq> Inl PatPanic"
    using matcher_safeD [OF assms(1,2)] by (auto simp: match_open_capture_def match_position_capture_def or_else_panic)
qed

lemma close_safe:
  assumes "matcher_safe src rec" "s \<le> length src" "caps_within src s (captures ms)" "p < length pat" "pat ! p = ch_close"
  shows "match_close_capture rec s p ms \<noteq> Inl PatPanic"
proof (cases "find_open_capture (captures ms)")
  case (Some i)
  let ?cs = "set_cap_len i (Finished (s - cap_start (captures ms ! i))) (captures ms)"
  have "caps_within src s ?cs"
    using pat_step_within [OF step_close [OF assms(4,5) Some, of ct src s]] assms(3) by blast
  then have "rec s (p + 1) (ms\<lparr>captures := ?cs, ms_level := ms_level ms - 1\<rparr>) \<noteq> Inl PatPanic"
    using matcher_safeD [OF assms(1,2)] by simp
  then show ?thesis by (auto simp: match_close_capture_def Some or_else_panic)
qed (simp add: match_close_capture_def)

lemma backref_safe:
  assumes "matcher_safe src rec" "s \<le> length src" "caps_within src s (captures ms)"
  shows "match_backref src pat rec s p ms \<noteq> Inl PatPanic"
proof -
  let ?n = "unat (pat ! (p + 1) - ch_zero)"
  let ?c = "captures ms ! (?n - 1)"
  show ?thesis
  proof (cases "0 < ?n \<and> ?n \<le> length (captures ms) \<and> (\<exists>len. cap_len ?c = Finished len)")
    case True
    then obtain len where c: "0 < ?n" "?n \<le> length (captures ms)" "cap_len ?c = Finished len" by blast
    then have "?c \<in> set (captures ms)" by simp
    then have "cap_start ?c + len \<le> s" using assms(3) c(3) by (auto simp: caps_within_def)
    then have "slice src (cap_start ?c) (cap_start ?c + len) \<noteq> Inl PatPanic" using assms(2) by (simp add: slice_def)
    moreover have "rec (s + len) (p + 2) ms \<noteq> Inl PatPanic" if "s + len \<le> length src"
      using matcher_safeD [OF assms(1) that] caps_within_mono [OF assms(3)] by simp
    ultimately show ?thesis using c
      by (auto simp: match_backref_def Let_def slice_def split: if_splits)
  qed (auto simp: match_backref_def Let_def split: CaptureLen.split)
qed

lemma match_inner_safe:
  assumes ok: "matcher_ok ct src pat rec" and safe: "matcher_safe src rec"
    and "s \<le> length src" "caps_within src s (captures ms)"
  shows "match_inner ct src pat rec s p ms \<noteq> Inl PatPanic"
  using assms(3,4)
proof (induction "length pat - p" arbitrary: s p ms rule: less_induct)
  case less
  note sl = less.prems(1) and cw = less.prems(2)
  have IH: "match_inner ct src pat rec s1 p1 m \<noteq> Inl PatPanic"
    if "p < p1" "p < length pat" "s1 \<le> length src" "caps_within src s1 (captures m)" for s1 p1 m
    using less.hyps [of p1 s1 m] that by simp
  consider "length pat \<le> p" | "p < length pat" "pat ! p = ch_open" | "p < length pat" "pat ! p = ch_close"
    | "p + 1 = length pat" "pat ! p = ch_dollar" | "class_item pat p"
    by (auto simp: class_item_def) force
  then show ?case
  proof cases
    case 2
    then show ?thesis using open_safe [OF safe sl cw, of p] by (subst match_inner.simps) simp
  next
    case 3
    then show ?thesis using close_safe [OF safe sl cw 3] by (subst match_inner.simps) simp
  next
    case 5
    note p = class_itemD [OF 5] and e = match_inner_class [OF 5, of ct src rec s ms]
    have ce: "p < class_end pat p" by (rule class_end_gt [OF p(1)])
    have cw1: "caps_within src (s + 1) (captures ms)" by (rule caps_within_mono [OF cw]) simp
    show ?thesis
    proof (cases "snd (get_quantifier pat p)")
      case Greedy
      then show ?thesis using match_greedy_safe [OF ok safe sl cw] by (simp add: e)
    next
      case Lazy
      then show ?thesis using match_lazy_safe [OF ok safe sl cw] by (simp add: e)
    next
      case Plus
      then show ?thesis using match_greedy_safe [OF ok safe _ cw1] by (simp add: e)
    next
      case Optional
      let ?q = "class_end pat p + 1"
      have "rec (s + 1) ?q ms \<noteq> Inl PatPanic" if "s < length src" using matcher_safeD [OF safe _ cw1] that by simp
      moreover have "match_inner ct src pat rec s ?q m \<noteq> Inl PatPanic" if "captures m = captures ms" for m
        using IH [of ?q s m] ce p(1) sl cw that by simp
      ultimately show ?thesis using matcher_okD [OF ok]
        by (auto simp: e Optional or_else_panic split: if_splits)
    next
      case NoQuantifier
      have "match_balance src pat rec s p ms \<noteq> Inl PatPanic"
        using balance_endD [of src "pat ! (p + 2)" "pat ! (p + 3)" "s + 1" 1] matcher_safeD [OF safe] caps_within_mono [OF cw]
        by (auto simp: match_balance_def split: option.split)
      moreover have "match_frontier ct src pat rec s p ms \<noteq> Inl PatPanic"

      proof -
        have "\<not> (0 < s \<and> length src \<le> s - 1)" using sl by auto
        then show ?thesis using matcher_safeD [OF safe sl cw]
          unfolding match_frontier_def Let_def by (simp only: if_False) (simp add: split_beta)
      qed
      moreover have "match_inner ct src pat rec (s + 1) (class_end pat p) ms \<noteq> Inl PatPanic" if "s < length src"
        using IH [OF ce p(1) _ cw1] that by simp
      ultimately show ?thesis using backref_safe [OF safe sl cw] by (simp add: e NoQuantifier)
    qed
  qed (subst match_inner.simps, simp)+
qed

lemma match_n_safe: "matcher_safe src (match_n ct src pat n)"
proof (induction n)
  case (Suc n)
  then show ?case using match_inner_safe [OF match_n_ok Suc] unfolding matcher_safe_def by simp
qed (simp add: matcher_safe_def)

lemma match_at_safe: "s \<le> length src \<Longrightarrow> match_at ct src pat s \<noteq> Inl PatPanic"
  unfolding match_at_def by (rule matcher_safeD [OF match_n_safe]) (simp_all add: match_state_new_def caps_within_def)

section \<open>What a match is\<close>

text \<open>C3. The matcher, at any position of the subject, implements the meaning of the pattern: when it returns
  an end and captures, some run of the pattern machine consumes the subject up to that end with those captures;
  when it returns none there is no run at all, however the repetitions are chosen. It never runs out of bounds:
  every other outcome is one of its errors.\<close>

theorem match_refines:
  assumes "s \<le> length src"
  shows "case match_at ct src pat s of
      Inr (Some e, ms) \<Rightarrow> pat_match ct src pat s 0 [] e (captures ms) \<and> s \<le> e \<and> e \<le> length src \<and> caps_within src e (captures ms)
    | Inr (None, ms) \<Rightarrow> (\<forall>e cs. \<not> pat_match ct src pat s 0 [] e cs)
    | Inl x \<Rightarrow> \<exists>msg. x = PatError msg"
proof (cases "match_at ct src pat s")
  case (Inl x)
  then show ?thesis using match_at_safe [OF assms, of ct pat] by (cases x) auto
next
  case (Inr y)
  obtain oe ms where y: "y = (oe, ms)" by fastforce
  then show ?thesis
    using match_at_finds [of ct src pat s] match_at_within [of ct src pat s _ ms] assms Inr by (cases oe) auto
qed

lemma match_refines_witness: "case match_at ascii_ctype [97, 97, 98] [40, 97, 43, 41, 98] 0 of
      Inr (Some e, ms) \<Rightarrow> e = 3 \<and> captures ms = [\<lparr>cap_start = 0, cap_len = Finished 2\<rparr>]
        \<and> pat_match ascii_ctype [97, 97, 98] [40, 97, 43, 41, 98] 0 0 [] 3 [\<lparr>cap_start = 0, cap_len = Finished 2\<rparr>]
    | _ \<Rightarrow> False"
proof -
  have "match_at ascii_ctype [97, 97, 98] [40, 97, 43, 41, 98] 0
      = Inr (Some 3, \<lparr>captures = [\<lparr>cap_start = 0, cap_len = Finished 2\<rparr>], ms_level = 0\<rparr>)"
    by code_simp
  then show ?thesis using match_refines [of 0 "[97, 97, 98]" ascii_ctype "[40, 97, 43, 41, 98]"] by simp
qed

section \<open>Searching\<close>

text \<open>The positions a search tries.\<close>

definition tried :: "bool \<Rightarrow> nat \<Rightarrow> nat \<Rightarrow> nat set" where
  "tried anchor k len = (if anchor then {k} else {k..max k len})"

definition no_match :: "ctype \<Rightarrow> u8 list \<Rightarrow> u8 list \<Rightarrow> nat \<Rightarrow> bool" where
  "no_match ct src pat p \<longleftrightarrow> (\<forall>e cs. \<not> pat_match ct src pat p 0 [] e cs)"

lemma search_leftmost:
  "search_from ct s pat anchor k = Inr r \<Longrightarrow> (case r of
     None \<Rightarrow> \<forall>p \<in> tried anchor k (length s). no_match ct s pat p
   | Some (p, e, cs) \<Rightarrow> p \<in> tried anchor k (length s) \<and> pat_match ct s pat p 0 [] e cs
       \<and> (\<forall>q \<in> tried anchor k (length s). q < p \<longrightarrow> no_match ct s pat q))"
proof (induction ct s pat anchor k rule: search_from.induct)
  case (1 ct s pat anchor k)
  note F = match_at_finds [of ct s pat k]
  show ?case
  proof (cases "match_at ct s pat k")
    case (Inl x)
    then show ?thesis using 1(2) by (subst (asm) search_from.simps) simp
  next
    case (Inr y)
    obtain oe ms where y: "y = (oe, ms)" by fastforce
    show ?thesis
    proof (cases oe)
      case (Some e)
      then have "r = Some (k, e, captures ms)" using 1(2) Inr y by (subst (asm) search_from.simps) simp
      then show ?thesis using F Inr y Some by (auto simp: tried_def)
    next
      case None
      then have n: "no_match ct s pat k" using F Inr y by (simp add: no_match_def)
      show ?thesis
      proof (cases "anchor \<or> length s < k + 1")
        case True
        then have "r = None" using 1(2) Inr y None by (subst (asm) search_from.simps) auto
        moreover have "tried anchor k (length s) = {k}" using True by (auto simp: tried_def)
        ultimately show ?thesis using n by simp
      next
        case False
        then have "search_from ct s pat anchor (k + 1) = Inr r" using 1(2) Inr y None by (subst (asm) search_from.simps) simp
        note I = 1(1) [OF Inr y [symmetric] None False this]
        have t: "tried anchor k (length s) = insert k (tried anchor (k + 1) (length s))" using False by (auto simp: tried_def)
        show ?thesis
        proof (cases r)
          case r: None
          then show ?thesis using I n t by simp
        next
          case (Some z)
          obtain p e cs where z: "z = (p, e, cs)" by (cases z)
          then show ?thesis using I n t Some by auto
        qed
      qed
    qed
  qed
qed

text \<open>C34. \<open>string.find\<close> with a pattern finds the leftmost match: the result lies at the first position, from the
  start asked for on, at which the pattern has a match, and is one of the matches there; when it finds none, no
  position has one. An anchored pattern is tried at the start only.\<close>

theorem find_leftmost:
  assumes "str_find ct s pat i False = Inr r"
  shows "case r of
      None \<Rightarrow> \<forall>p \<in> tried (fst (strip_anchor pat)) (init_pos i (length s)) (length s). no_match ct s (snd (strip_anchor pat)) p
    | Some (b, e, vs) \<Rightarrow> 0 < b \<and> b - 1 \<in> tried (fst (strip_anchor pat)) (init_pos i (length s)) (length s)
        \<and> (\<exists>cs. pat_match ct s (snd (strip_anchor pat)) (b - 1) 0 [] e cs \<and> push_captures cs s = Inr vs)
        \<and> (\<forall>q \<in> tried (fst (strip_anchor pat)) (init_pos i (length s)) (length s). q < b - 1 \<longrightarrow>
             no_match ct s (snd (strip_anchor pat)) q)"
proof -
  obtain anchor pattern where p: "strip_anchor pat = (anchor, pattern)" by fastforce
  obtain r1 where r1: "search_from ct s pattern anchor (init_pos i (length s)) = Inr r1"
    using assms by (auto simp: str_find_def p Let_def res_bind_Inr_iff)
  note L = search_leftmost [OF r1]
  show ?thesis
  proof (cases r1)
    case None
    then have "r = None" using assms r1 by (simp add: str_find_def p Let_def)
    then show ?thesis using L None p by simp
  next
    case (Some z)
    obtain k e cs where z: "z = (k, e, cs)" by (cases z)
    then obtain vs where "r = Some (k + 1, e, vs)" "push_captures cs s = Inr vs"
      using assms r1 Some by (auto simp: str_find_def p Let_def res_bind_Inr_iff)
    then show ?thesis using L Some z p by auto
  qed
qed

lemma find_leftmost_witness:
  "no_match ascii_ctype [98, 97] [97] 0 \<and> (\<exists>cs. pat_match ascii_ctype [98, 97] [97] 1 0 [] 2 cs)"
proof -
  have e: "str_find ascii_ctype [98, 97] [97] 1 False = Inr (Some (2, 2, []))" by code_simp
  have "strip_anchor [97] = (False, [97])" "init_pos 1 (Suc (Suc 0)) = 0"
    by (simp_all add: strip_anchor_def init_pos_def posrelat_def)
  then show ?thesis using find_leftmost [OF e] by (auto simp: tried_def)
qed

text \<open>A start beyond the end of the subject is not clamped: matching an empty pattern there, or searching
  plain text, slices the subject out of range and panics.\<close>

theorem start_beyond_end_panics:
  assumes "int (length s) + 1 < i"
  shows "str_match ct s [] i = Inl PatPanic \<and> str_find ct s pat i True = Inl PatPanic"
proof -
  have k: "length s < init_pos i (length s)" using assms by (simp add: init_pos_def posrelat_def)
  let ?k = "init_pos i (length s)"
  have "match_at ct s [] ?k = Inr (Some ?k, match_state_new)"
    by (simp add: match_at_def MAXCCALLS_def numeral_eq_Suc match_inner.simps)
  then have "search_from ct s [] False ?k = Inr (Some (?k, ?k, []))"
    by (subst search_from.simps) (simp add: match_state_new_def)
  then show ?thesis using k by (simp add: str_match_def str_find_def strip_anchor_def slice_def Let_def)
qed

lemma start_beyond_end_panics_witness: "str_match ascii_ctype [97, 98, 99] [] 5 = Inl PatPanic"
  using start_beyond_end_panics [of "[97, 98, 99]" 5] by simp

section \<open>Substitution\<close>

lemma take_char_at: "pos \<le> length s \<Longrightarrow> take pos s @ char_at s pos = take (pos + 1) s"
  by (cases "pos < length s") (simp_all add: char_at_def take_Suc_conv_app_nth)

lemma take_slice: "slice s a b = Inr w \<Longrightarrow> take a s @ w = take b s"
  by (auto simp: slice_iff simp flip: take_add)

text \<open>Replacing every match by itself.\<close>

definition whole_match :: "u8 list \<Rightarrow> 'w replacement \<Rightarrow> bool" where
  "whole_match s repl \<longleftrightarrow> (\<forall>cs a b w r w1. repl cs a b w = Inr (r, w1) \<longrightarrow> slice s a b = Inr r)"

lemma gsub_loop_identity:
  "whole_match s repl \<Longrightarrow> acc = take pos s \<Longrightarrow> gsub_loop ct s pattern anchor mx repl pos count acc w = Inr (p, n, r, w1)
    \<Longrightarrow> count \<le> mx \<Longrightarrow> r = take p s \<and> n \<le> mx"
proof (induction ct s pattern anchor mx repl pos count acc w rule: gsub_loop.induct)
  case (1 ct s pattern anchor mx repl pos count acc w)
  show ?case
  proof (cases "count < mx \<and> pos \<le> length s")
    case False
    then show ?thesis using 1(3-6) by (subst (asm) gsub_loop.simps) auto
  next
    case go: True
    show ?thesis
    proof (cases "match_at ct s pattern pos")
      case (Inl x)
      then show ?thesis using 1(5) go by (subst (asm) gsub_loop.simps) simp
    next
      case (Inr y)
      obtain oe ms where y: "y = (oe, ms)" by fastforce
      show ?thesis
      proof (cases oe)
        case None
        have c: "acc @ char_at s pos = take (pos + 1) s" using 1(4) go take_char_at by simp
        show ?thesis
        proof (cases anchor)
          case True
          then show ?thesis using 1(5,6) Inr y None go c by (subst (asm) gsub_loop.simps) auto
        next
          case False
          then have "gsub_loop ct s pattern anchor mx repl (pos + 1) count (acc @ char_at s pos) w = Inr (p, n, r, w1)"
            using 1(5) Inr y None go by (subst (asm) gsub_loop.simps) simp
          then show ?thesis using 1(1) [OF _ Inr y [symmetric] None False 1(3) c] go 1(6) by blast
        qed
      next
        case (Some e)
        have e: "pos \<le> e" using match_at_within(1) Inr y Some by simp
        show ?thesis
        proof (cases "repl (captures ms) pos e w")
          case (Inl x)
          then show ?thesis using 1(5) Inr y Some go by (subst (asm) gsub_loop.simps) simp
        next
          case rr: (Inr z)
          obtain t w2 where z: "z = (t, w2)" by (cases z)
          have t: "slice s pos e = Inr t" using 1(3) rr z unfolding whole_match_def by blast
          let ?acc = "acc @ t @ (if e = pos then char_at s pos else [])" and ?pos = "if e = pos then pos + 1 else e"
          have c: "?acc = take ?pos s"
            using take_slice [OF t] 1(4) take_char_at [of pos s] go by (auto simp flip: append_assoc)
          show ?thesis
          proof (cases anchor)
            case True
            then show ?thesis using 1(5) Inr y Some go rr z c by (subst (asm) gsub_loop.simps) (auto simp: Let_def)
          next
            case False
            then have "gsub_loop ct s pattern anchor mx repl ?pos (count + 1) ?acc w2 = Inr (p, n, r, w1)"
              using 1(5) Inr y Some go rr z by (subst (asm) gsub_loop.simps) (simp add: Let_def)
            then show ?thesis using 1(2) [OF _ Inr y [symmetric] Some rr z [symmetric] refl refl False 1(3) c] go by simp
          qed
        qed
      qed
    qed
  qed
qed

text \<open>C35. Substituting every match by itself, \<open>gsub(s, pat, "%0")\<close>, gives the subject back, whatever the pattern:
  no character is lost or doubled, around empty matches too. No more replacements are made than asked for.\<close>

theorem gsub_identity:
  assumes "str_gsub ct s pat (string_repl s [ch_percent, ch_zero]) mx w = Inr (r, n, w1)"
  shows "r = s \<and> n \<le> nat (max mx 0)"
proof -
  have m: "whole_match s (string_repl s [ch_percent, ch_zero])"
    by (auto simp: whole_match_def string_repl_def is_ascii_digit_def capture_text_def res_bind_Inr_iff)
  obtain p acc where g: "gsub_loop ct s (snd (strip_anchor pat)) (fst (strip_anchor pat)) (nat (max mx 0))
      (string_repl s [ch_percent, ch_zero]) 0 0 [] w = Inr (p, n, acc, w1)" "r = (if p \<le> length s then acc @ drop p s else acc)"
    using assms by (auto simp: str_gsub_def split_beta res_bind_Inr_iff)
  show ?thesis using gsub_loop_identity [OF m _ g(1)] g(2) by simp
qed

lemma gsub_identity_witness:
  "str_gsub ascii_ctype [97, 98] [98, 42] (string_repl [97, 98] [ch_percent, ch_zero]) 9 () = Inr ([97, 98], 3, ())
    \<and> 3 \<le> nat (max 9 0)"
proof -
  have e: "str_gsub ascii_ctype [97, 98] [98, 42] (string_repl [97, 98] [ch_percent, ch_zero]) 9 () = Inr ([97, 98], 3, ())"
    by code_simp
  then show ?thesis using gsub_identity [OF e] by simp
qed

section \<open>Substrings\<close>

lemma filter_upto: "filter (\<lambda>k. a \<le> k \<and> k \<le> b) [1..n] = [max 1 a..min b n]" for a b n :: int
  by (rule sorted_distinct_set_unique) (auto simp: sorted_wrt_filter)

lemma nth_upto_slice:
  assumes "1 \<le> a" "b \<le> int (length s)"
  shows "map (\<lambda>k. s ! (nat k - 1)) [a..b] = take (nat b - (nat a - 1)) (drop (nat a - 1) s)"
proof (cases "a \<le> b")
  case True
  show ?thesis
  proof (rule nth_equalityI)
    fix i assume "i < length (map (\<lambda>k. s ! (nat k - 1)) [a..b])"
    then have i: "i < nat (b - a + 1)" by simp
    have "nat (a + int i) - 1 = nat a - 1 + i" using assms(1) by linarith
    then show "map (\<lambda>k. s ! (nat k - 1)) [a..b] ! i = take (nat b - (nat a - 1)) (drop (nat a - 1) s) ! i"
      using i True assms by (simp add: nth_upto)
  qed (use True assms in simp)
qed (use assms in simp)

lemma byte_slice:
  assumes "1 \<le> A" "B \<le> length s"
  shows "(if A > B then [] else map (\<lambda>k. s ! (k - 1)) [A..<B + 1]) = take (B - (A - 1)) (drop (A - 1) s)"
proof (cases "A > B")
  case False
  have "map (\<lambda>k. s ! (k - 1)) [A..<B + 1] = take (B - (A - 1)) (drop (A - 1) s)"
    by (rule nth_equalityI) (use False assms in \<open>auto simp del: upt_Suc\<close>)
  then show ?thesis using False by simp
qed (use assms in simp)

text \<open>\<open>string.sub\<close> never fails and returns exactly the characters whose 1-based position lies between the two
  bounds, negative bounds counting from the end; \<open>string.byte\<close> returns the same bytes.\<close>

theorem str_sub_chars:
  "str_sub s i j = Inr (map (\<lambda>k. s ! (nat k - 1))
      (filter (\<lambda>k. posrelat i (length s) \<le> k \<and> k \<le> posrelat j (length s)) [1..int (length s)]))
   \<and> str_sub s i j = Inr (str_byte s i j)"
proof -
  let ?a = "max 1 (posrelat i (length s))" and ?b = "min (posrelat j (length s)) (int (length s))"
  have nb: "nat (max 0 ?b) = nat ?b" by simp
  have m: "map (\<lambda>k. s ! (nat k - 1)) [?a..?b] = take (nat ?b - (nat ?a - 1)) (drop (nat ?a - 1) s)"
    by (rule nth_upto_slice) simp_all
  have sub: "str_sub s i j = Inr (take (nat ?b - (nat ?a - 1)) (drop (nat ?a - 1) s))"
    unfolding str_sub_def Let_def nb by (auto simp: slice_def)
  have "str_byte s i j = take (nat ?b - (nat ?a - 1)) (drop (nat ?a - 1) s)"
    unfolding str_byte_def Let_def nb by (rule byte_slice) simp_all
  then show ?thesis unfolding sub filter_upto m by simp
qed

end
