(* ===== verification/Security.thy ===== *)
theory Security
  imports VmState Collector
begin

text \<open>
  The access policy for hosts: secret values and table security (\<^verbatim>\<open>src/table_security.rs\<close>), revocation of
  secret access per calling context (\<^verbatim>\<open>src/vm/state/secret_access.rs\<close>), instruction budgets per owner
  (\<^verbatim>\<open>src/vm/state/instruction_budget.rs\<close>) and value conversion between environments
  (\<^verbatim>\<open>src/vm/state/environment_transfer.rs\<close>).
\<close>

section \<open>State\<close>

text \<open>Revoked contexts: the thread and the depth of the frame; and the resumers recorded since the first one.\<close>

record secret_contexts =
  revoked :: "(GcRef option \<times> nat) list"
  resumers :: "(nat \<times> GcRef option) list"

definition contexts_default :: secret_contexts where
  "contexts_default = \<lparr>revoked = [], resumers = []\<rparr>"

record secure_state =
  s_lua :: lua
  s_contexts :: "secret_contexts option"
  s_contents_policy :: bool

abbreviation s_heap :: "secure_state \<Rightarrow> heap" where "s_heap s \<equiv> l_heap (s_lua s)"

type_synonym 'a sres = "(table_error, 'a) res"

definition set_heap :: "heap \<Rightarrow> secure_state \<Rightarrow> secure_state" where
  "set_heap h s = s\<lparr>s_lua := (s_lua s)\<lparr>l_heap := h\<rparr>\<rparr>"

section \<open>Revocation of secret access\<close>

definition state_is_secure :: "lua \<Rightarrow> bool" where
  "state_is_secure s = list_all (\<lambda>f. ci_taint f = None) (take (l_ci s + 1) (call_stack s))"

definition contexts_prune :: "GcRef option \<Rightarrow> nat \<Rightarrow> secret_contexts \<Rightarrow> secret_contexts" where
  "contexts_prune current depth c = c\<lparr>revoked := filter (\<lambda>(t, d). t \<noteq> current \<or> d \<le> depth) (revoked c)\<rparr>"

definition contexts_transfer_tail :: "GcRef option \<Rightarrow> nat \<Rightarrow> nat \<Rightarrow> secret_contexts \<Rightarrow> secret_contexts" where
  "contexts_transfer_tail current depth previous c =
     c\<lparr>revoked := map (\<lambda>(t, d). if t = current \<and> d = depth then (t, previous) else (t, d)) (revoked c)\<rparr>"

definition contexts_push_resumer :: "nat \<Rightarrow> GcRef option \<Rightarrow> secret_contexts \<Rightarrow> secret_contexts" where
  "contexts_push_resumer i current c = (if revoked c = [] then c else c\<lparr>resumers := resumers c @ [(i, current)]\<rparr>)"

definition contexts_pop_resumer :: "nat \<Rightarrow> GcRef option \<Rightarrow> bool \<Rightarrow> secret_contexts \<Rightarrow> secret_contexts" where
  "contexts_pop_resumer i current ended c =
    (let c1 = (if resumers c \<noteq> [] \<and> fst (last (resumers c)) = i then c\<lparr>resumers := butlast (resumers c)\<rparr> else c)
     in if ended then c1\<lparr>revoked := filter (\<lambda>(t, d). t \<noteq> current) (revoked c1)\<rparr> else c1)"

text \<open>The first entry of the current thread, if it has one, moves to the outer of the two depths.\<close>

fun revoke_at :: "GcRef option \<Rightarrow> nat \<Rightarrow> (GcRef option \<times> nat) list \<Rightarrow> (GcRef option \<times> nat) list" where
  "revoke_at current depth [] = [(current, depth)]"
| "revoke_at current depth ((t, d) # rest) =
    (if t = current then (t, min d depth) # rest else (t, d) # revoke_at current depth rest)"

definition mark_secret_context_revoked :: "nat \<Rightarrow> secure_state \<Rightarrow> secure_state" where
  "mark_secret_context_revoked depth s =
    (let c = (case s_contexts s of Some c \<Rightarrow> c | None \<Rightarrow> contexts_default)
     in s\<lparr>s_contexts := Some (c\<lparr>revoked := revoke_at (current_thread (s_lua s)) depth (revoked c)\<rparr>)\<rparr>)"

definition secret_context_is_revoked :: "secure_state \<Rightarrow> bool" where
  "secret_context_is_revoked s = (case s_contexts s of None \<Rightarrow> False
   | Some c \<Rightarrow> list_ex (\<lambda>(t, d). (t = current_thread (s_lua s) \<and> d \<le> l_ci (s_lua s))
       \<or> list_ex (\<lambda>(i, r). t = r \<and> i < length (saved_threads (s_lua s)) \<and> d \<le> th_ci (saved_threads (s_lua s) ! i)) (resumers c))
       (revoked c))"

definition on_contexts :: "(secret_contexts \<Rightarrow> secret_contexts) \<Rightarrow> secure_state \<Rightarrow> secure_state" where
  "on_contexts f s = s\<lparr>s_contexts := map_option f (s_contexts s)\<rparr>"

definition prune_secret_contexts :: "secure_state \<Rightarrow> secure_state" where
  "prune_secret_contexts s = on_contexts (contexts_prune (current_thread (s_lua s)) (l_ci (s_lua s))) s"

definition transfer_tail_secret_context :: "nat \<Rightarrow> secure_state \<Rightarrow> secure_state" where
  "transfer_tail_secret_context previous s =
     on_contexts (contexts_transfer_tail (current_thread (s_lua s)) (l_ci (s_lua s)) previous) s"

definition push_secret_resumer :: "secure_state \<Rightarrow> secure_state" where
  "push_secret_resumer s = on_contexts (contexts_push_resumer (length (saved_threads (s_lua s)) - 1) (current_thread (s_lua s))) s"

definition pop_secret_resumer :: "bool \<Rightarrow> secure_state \<Rightarrow> secure_state" where
  "pop_secret_resumer ended s =
     on_contexts (contexts_pop_resumer (length (saved_threads (s_lua s)) - 1) (current_thread (s_lua s)) ended) s"

text \<open>Pushing and popping a frame, with the pruning.\<close>

definition push_ci_secure :: "call_info \<Rightarrow> secure_state \<Rightarrow> secure_state" where
  "push_ci_secure ci s = (let s1 = prune_secret_contexts s in s1\<lparr>s_lua := push_ci (s_lua s1) ci\<rparr>)"

definition pop_ci_secure :: "secure_state \<Rightarrow> secure_state" where
  "pop_ci_secure s = prune_secret_contexts (s\<lparr>s_lua := pop_ci (s_lua s)\<rparr>)"

definition can_access_secrets :: "secure_state \<Rightarrow> bool" where
  "can_access_secrets s \<longleftrightarrow> state_is_secure (s_lua s) \<and> \<not> secret_context_is_revoked s"

definition revoke_secret_access :: "secure_state \<Rightarrow> secure_state sres" where
  "revoke_secret_access s =
    (let target = (if ci_is_lua (call_stack (s_lua s) ! l_ci (s_lua s)) then l_ci (s_lua s) else l_ci (s_lua s) - 1)
     in if target = 0 then Inl (TErr ''secret access revocation requires an active calling context'')
        else Inr (mark_secret_context_revoked target s))"

section \<open>Secret values\<close>

datatype SecretPayloadKind = KNil | KBoolean | KNumber | KString | KTable | KFunction | KUserdata | KThread | KLightUserdata

primrec payload_kind :: "Val \<Rightarrow> SecretPayloadKind" where
  "payload_kind VNil = KNil" | "payload_kind (VBool _) = KBoolean" | "payload_kind (VNum _) = KNumber"
| "payload_kind (VStr _) = KString" | "payload_kind (VTable _) = KTable" | "payload_kind (VFunction _) = KFunction"
| "payload_kind (VUserdata _) = KUserdata" | "payload_kind (VThread _) = KThread"
| "payload_kind (VLightUserdata _) = KLightUserdata"

text \<open>The payload of an authentic live wrapper.\<close>

definition secret_of :: "secure_state \<Rightarrow> Val \<Rightarrow> Val option" where
  "secret_of s v = (case v of VUserdata r \<Rightarrow> Option.bind (get (h_userdata (s_heap s)) r) ud_secret_value | _ \<Rightarrow> None)"

definition secret_payload_kind :: "secure_state \<Rightarrow> Val \<Rightarrow> SecretPayloadKind option" where
  "secret_payload_kind s v = map_option payload_kind (secret_of s v)"

definition is_secret_value :: "secure_state \<Rightarrow> Val \<Rightarrow> bool" where
  "is_secret_value s v \<longleftrightarrow> secret_of s v \<noteq> None"

definition DISALLOW_TAINTED_ACCESS :: u8 where "DISALLOW_TAINTED_ACCESS = 1"
definition DISALLOW_SECRET_KEYS :: u8 where "DISALLOW_SECRET_KEYS = 2"
definition SECRET_WRAP_CONTENTS :: u8 where "SECRET_WRAP_CONTENTS = 4"

definition table_wraps_contents :: "secure_state \<Rightarrow> GcRef \<Rightarrow> bool" where
  "table_wraps_contents s r \<longleftrightarrow> s_contents_policy s \<and> (case get (h_tables (s_heap s)) r of None \<Rightarrow> False
     | Some t \<Rightarrow> security_flags t AND SECRET_WRAP_CONTENTS \<noteq> 0)"

definition is_secret_table :: "secure_state \<Rightarrow> Val \<Rightarrow> bool" where
  "is_secret_table s v \<longleftrightarrow> secret_payload_kind s v = Some KTable
     \<or> (case v of VTable r \<Rightarrow> table_wraps_contents s r | _ \<Rightarrow> False)"

definition alloc_secret :: "Val \<Rightarrow> secure_state \<Rightarrow> secure_state \<times> Val" where
  "alloc_secret v s = (case alloc_userdata (userdata_secret v) (s_heap s) of (h, r) \<Rightarrow> (set_heap h s, VUserdata r))"

definition wrap_contents_result :: "Val \<Rightarrow> bool \<Rightarrow> secure_state \<Rightarrow> secure_state \<times> Val" where
  "wrap_contents_result v contents_secret s =
    (if contents_secret \<and> \<not> is_nil v \<and> \<not> is_secret_value s v then alloc_secret v s else (s, v))"

definition wrap_table_value :: "GcRef \<Rightarrow> Val \<Rightarrow> secure_state \<Rightarrow> secure_state \<times> Val" where
  "wrap_table_value r v s = wrap_contents_result v (table_wraps_contents s r) s"

definition table_array_entries :: "table \<Rightarrow> (Val \<times> Val) list" where
  "table_array_entries t = filter (\<lambda>(k, v). \<not> is_nil v)
     (map (\<lambda>i. (VNum (f64_of_int (int (i + 1))), arr t ! i)) [0..<length (arr t)])"

definition collect_table_entries :: "table \<Rightarrow> (Val \<times> Val) list" where
  "collect_table_entries t = table_array_entries t @ hash_entries t"

definition set_table :: "GcRef \<Rightarrow> (table \<Rightarrow> table) \<Rightarrow> secure_state \<Rightarrow> secure_state" where
  "set_table r f s = set_heap ((s_heap s)\<lparr>h_tables := get_mut (h_tables (s_heap s)) r f\<rparr>) s"

fun wrap_entries :: "GcRef \<Rightarrow> (Val \<times> Val) list \<Rightarrow> secure_state \<Rightarrow> secure_state \<times> unit sres" where
  "wrap_entries r [] s = (s, Inr ())"
| "wrap_entries r ((k, v) # rest) s = (case wrap_table_value r v s of (s1, w) \<Rightarrow>
     (case get (h_tables (s_heap s1)) r of
       None \<Rightarrow> (s1, Inl (TErr ''table has been collected''))
     | Some t \<Rightarrow> (case raw_set t k w (h_string_arena (s_heap s1)) of
           (Inl e, t1) \<Rightarrow> (set_table r (\<lambda>_. t1) s1, Inl e)
         | (Inr _, t1) \<Rightarrow> wrap_entries r rest (set_table r (\<lambda>_. t1) s1))))"

definition wrap_existing_table_entries :: "GcRef \<Rightarrow> (Val \<times> Val) list \<Rightarrow> secure_state \<Rightarrow> secure_state \<times> unit sres" where
  "wrap_existing_table_entries r es s = (case wrap_entries r es s of
     (s1, Inl e) \<Rightarrow> (s1, Inl e) | (s1, Inr _) \<Rightarrow> (set_heap (barrier_back r (s_heap s1)) s1, Inr ()))"

definition enable_secret_contents :: "GcRef \<Rightarrow> secure_state \<Rightarrow> secure_state \<times> unit sres" where
  "enable_secret_contents r s = (case get (h_tables (s_heap s)) r of
     None \<Rightarrow> (s, Inl (TErr ''table has been collected''))
   | Some t \<Rightarrow>
       if is_frozen (h_tables (s_heap s)) r \<or> read_only t
       then (s, Inl (TErr ''cannot secure contents of an immutable table''))
       else if table_wraps_contents s r then (s, Inr ())
       else wrap_existing_table_entries r (collect_table_entries t)
         (set_table r (\<lambda>t. t\<lparr>security_flags := security_flags t OR SECRET_WRAP_CONTENTS\<rparr>) (s\<lparr>s_contents_policy := True\<rparr>)))"

definition check_table_access :: "secure_state \<Rightarrow> GcRef \<Rightarrow> Val option \<Rightarrow> unit sres" where
  "check_table_access s r key = (case get (h_tables (s_heap s)) r of
     None \<Rightarrow> Inl (TErr ''table has been collected'')
   | Some t \<Rightarrow>
       if security_flags t AND DISALLOW_TAINTED_ACCESS \<noteq> 0 \<and> \<not> state_is_secure (s_lua s)
       then Inl (TErr ''tainted access to secured table'')
       else if security_flags t AND DISALLOW_SECRET_KEYS \<noteq> 0 \<and> (case key of Some k \<Rightarrow> is_secret_value s k | None \<Rightarrow> False)
       then Inl (TErr ''secret key access to secured table'')
       else Inr ())"

definition ensure_secure_caller :: "secure_state \<Rightarrow> unit sres" where
  "ensure_secure_caller s = (if state_is_secure (s_lua s) then Inr ()
     else Inl (TErr ''table security operation requires an untainted caller''))"

definition set_table_security :: "GcRef \<Rightarrow> u32 \<Rightarrow> secure_state \<Rightarrow> secure_state \<times> unit sres" where
  "set_table_security r option s = (case ensure_secure_caller s of Inl e \<Rightarrow> (s, Inl e) | Inr _ \<Rightarrow>
     let add_flag = (\<lambda>f. case get (h_tables (s_heap s)) r of
           None \<Rightarrow> (s, Inl (TErr ''table has been collected''))
         | Some _ \<Rightarrow> (set_table r (\<lambda>t. t\<lparr>security_flags := security_flags t OR f\<rparr>) s, Inr ()))
     in if option = 0 then add_flag DISALLOW_TAINTED_ACCESS
        else if option = 1 then add_flag DISALLOW_SECRET_KEYS
        else if option = 2 then enable_secret_contents r s
        else (s, Inl (TErr ''invalid TableSecurityOption'')))"

definition wrap_secret :: "Val \<Rightarrow> secure_state \<Rightarrow> secure_state \<times> Val sres" where
  "wrap_secret v s = (case ensure_secure_caller s of Inl e \<Rightarrow> (s, Inl e) | Inr _ \<Rightarrow>
     if is_secret_value s v then (s, Inr v) else (case alloc_secret v s of (s1, w) \<Rightarrow> (s1, Inr w)))"

text \<open>Secrets made by trusted host code.\<close>

definition wrap_host_secret_bool :: "bool \<Rightarrow> secure_state \<Rightarrow> secure_state \<times> Val" where
  "wrap_host_secret_bool b = alloc_secret (VBool b)"

definition wrap_host_secret_number :: "f64 \<Rightarrow> secure_state \<Rightarrow> secure_state \<times> Val" where
  "wrap_host_secret_number n = alloc_secret (VNum n)"

definition wrap_host_secret_string :: "u8 list \<Rightarrow> secure_state \<Rightarrow> secure_state \<times> Val" where
  "wrap_host_secret_string bytes s = (case intern_string bytes (s_heap s) of (h, r) \<Rightarrow> alloc_secret (VStr r) (set_heap h s))"

definition inspect_host_secret_number :: "secure_state \<Rightarrow> Val \<Rightarrow> (f64 \<Rightarrow> 'a sres) \<Rightarrow> 'a sres" where
  "inspect_host_secret_number s v f = (case secret_of s v of Some (VNum n) \<Rightarrow> f n
     | _ \<Rightarrow> Inl (TErr ''secret number expected''))"

definition transform_host_secret_string :: "Val \<Rightarrow> (u8 list \<Rightarrow> u8 list sres) \<Rightarrow> secure_state \<Rightarrow> secure_state \<times> Val sres" where
  "transform_host_secret_string v f s = (case secret_of s v of
     Some (VStr r) \<Rightarrow> (case get (h_string_arena (s_heap s)) r of
         None \<Rightarrow> (s, Inl (TErr ''secret string has been collected''))
       | Some str \<Rightarrow> (case f (sdata str) of Inl e \<Rightarrow> (s, Inl e)
           | Inr out \<Rightarrow> (case wrap_host_secret_string out s of (s1, w) \<Rightarrow> (s1, Inr w))))
   | _ \<Rightarrow> (s, Inl (TErr ''secret string expected'')))"

section \<open>Guarded reads\<close>

definition unwrap_secret :: "secure_state \<Rightarrow> Val \<Rightarrow> Val sres" where
  "unwrap_secret s v = (case secret_of s v of None \<Rightarrow> Inr v
   | Some p \<Rightarrow> if can_access_secrets s then Inr p
       else Inl (TErr ''secret access requires an untainted caller without revoked access''))"

definition checked_secret_bool :: "secure_state \<Rightarrow> Val \<Rightarrow> bool option sres" where
  "checked_secret_bool s v = (case secret_of s v of
     Some (VBool _) \<Rightarrow> res_bind (unwrap_secret s v) (\<lambda>w. case w of VBool b \<Rightarrow> Inr (Some b) | _ \<Rightarrow> Inl TPanic)
   | _ \<Rightarrow> Inr None)"

definition checked_truthiness :: "secure_state \<Rightarrow> Val \<Rightarrow> bool sres" where
  "checked_truthiness s v = res_bind (checked_secret_bool s v) (\<lambda>b. Inr (case b of Some x \<Rightarrow> x | None \<Rightarrow> is_truthy v))"

definition checked_secret_nil :: "secure_state \<Rightarrow> Val \<Rightarrow> bool sres" where
  "checked_secret_nil s v = (case secret_of s v of
     Some VNil \<Rightarrow> res_bind (unwrap_secret s v) (\<lambda>w. Inr (is_nil w)) | _ \<Rightarrow> Inr False)"

definition plain_bool :: "bool option \<Rightarrow> Val \<Rightarrow> bool option" where
  "plain_bool b v = (case b of Some x \<Rightarrow> Some x | None \<Rightarrow> (case v of VBool x \<Rightarrow> Some x | _ \<Rightarrow> None))"

definition checked_secret_equality :: "secure_state \<Rightarrow> Val \<Rightarrow> Val \<Rightarrow> bool option sres" where
  "checked_secret_equality s l r =
    res_bind (checked_secret_bool s l) (\<lambda>lb. res_bind (checked_secret_bool s r) (\<lambda>rb.
      if lb = None \<and> rb = None then
        res_bind (checked_secret_nil s l) (\<lambda>ln. res_bind (checked_secret_nil s r) (\<lambda>rn.
          if \<not> ln \<and> \<not> rn then Inr None else Inr (Some ((ln \<or> is_nil l) \<and> (rn \<or> is_nil r)))))
      else (let lb = plain_bool lb l; rb = plain_bool rb r in Inr (Some (lb \<noteq> None \<and> lb = rb)))))"

definition checked_secret_table_read :: "secure_state \<Rightarrow> Val \<Rightarrow> Val sres" where
  "checked_secret_table_read s v = (case secret_of s v of Some (VTable _) \<Rightarrow> unwrap_secret s v | _ \<Rightarrow> Inr v)"

definition checked_order_operand :: "secure_state \<Rightarrow> Val \<Rightarrow> Val sres" where
  "checked_order_operand s v = res_bind (checked_secret_bool s v) (\<lambda>b. case b of
     Some x \<Rightarrow> Inr (VBool x)
   | None \<Rightarrow> (case secret_of s v of Some (VNum _) \<Rightarrow> unwrap_secret s v | _ \<Rightarrow> Inr v))"

section \<open>The functions given to scripts\<close>

definition lua_set_table_security :: "secure_state \<Rightarrow> secure_state \<times> nat sres" where
  "lua_set_table_security s = (let b = l_base (s_lua s) in case stack_get (s_lua s) b of
     VTable r \<Rightarrow>
       let opt = (case stack_get (s_lua s) (b + 1) of
           VNum n \<Rightarrow> if f64_eq n (f64_of_int 0) then Some 0 else if f64_eq n (f64_of_int 1) then Some 1
                     else if f64_eq n (f64_of_int 2) then Some 2 else None
         | _ \<Rightarrow> None)
       in (case opt of None \<Rightarrow> (s, Inl (TErr ''invalid TableSecurityOption''))
           | Some x \<Rightarrow> (case set_table_security r x s of (s1, Inl e) \<Rightarrow> (s1, Inl e) | (s1, Inr _) \<Rightarrow> (s1, Inr 0)))
   | _ \<Rightarrow> (s, Inl (TErr ''settablesecurity requires a table'')))"

definition on_lua :: "(lua \<Rightarrow> lua) \<Rightarrow> secure_state \<Rightarrow> secure_state" where
  "on_lua f s = s\<lparr>s_lua := f (s_lua s)\<rparr>"

fun secret_wrap_args :: "nat list \<Rightarrow> nat \<Rightarrow> secure_state \<Rightarrow> secure_state \<times> unit sres" where
  "secret_wrap_args [] b s = (s, Inr ())"
| "secret_wrap_args (i # is') b s = (case wrap_secret (stack_get (s_lua s) (b + i)) s of
     (s1, Inl e) \<Rightarrow> (s1, Inl e) | (s1, Inr v) \<Rightarrow> secret_wrap_args is' b (on_lua (\<lambda>l. push l v) s1))"

definition lua_secret_wrap :: "secure_state \<Rightarrow> secure_state \<times> nat sres" where
  "lua_secret_wrap s = (case ensure_secure_caller s of Inl e \<Rightarrow> (s, Inl e) | Inr _ \<Rightarrow>
     (let count = l_top (s_lua s) - l_base (s_lua s) in
     (case secret_wrap_args [0..<count] (l_base (s_lua s)) s of (s1, Inl e) \<Rightarrow> (s1, Inl e) | (s1, Inr _) \<Rightarrow> (s1, Inr count))))"

fun secret_unwrap_args :: "nat list \<Rightarrow> nat \<Rightarrow> secure_state \<Rightarrow> secure_state \<times> unit sres" where
  "secret_unwrap_args [] b s = (s, Inr ())"
| "secret_unwrap_args (i # is') b s = (case unwrap_secret s (stack_get (s_lua s) (b + i)) of
     Inl e \<Rightarrow> (s, Inl e) | Inr v \<Rightarrow> secret_unwrap_args is' b (on_lua (\<lambda>l. push l v) s))"

definition lua_secret_unwrap :: "secure_state \<Rightarrow> secure_state \<times> nat sres" where
  "lua_secret_unwrap s = (let count = l_top (s_lua s) - l_base (s_lua s) in
     case secret_unwrap_args [0..<count] (l_base (s_lua s)) s of (s1, Inl e) \<Rightarrow> (s1, Inl e) | (s1, Inr _) \<Rightarrow> (s1, Inr count))"

definition lua_is_secret_value :: "secure_state \<Rightarrow> secure_state \<times> nat sres" where
  "lua_is_secret_value s = (on_lua (\<lambda>l. push l (VBool (is_secret_value s (stack_get (s_lua s) (l_base (s_lua s)))))) s, Inr 1)"

section \<open>Instruction budgets\<close>

record instruction_budget =
  ib_limit :: "u64 option"
  ib_used :: u64

record instruction_budgets =
  owners :: "(string \<times> instruction_budget) list"
  ib_active :: "nat option"
  ib_exempt :: bool

definition budgets_default :: instruction_budgets where
  "budgets_default = \<lparr>owners = [], ib_active = None, ib_exempt = False\<rparr>"

definition find_instruction_owner :: "string \<Rightarrow> instruction_budgets \<Rightarrow> nat option" where
  "find_instruction_owner owner b = find (\<lambda>i. fst (owners b ! i) = owner) [0..<length (owners b)]"

definition set_budget_at :: "nat \<Rightarrow> instruction_budget \<Rightarrow> instruction_budgets \<Rightarrow> instruction_budgets" where
  "set_budget_at i x b = b\<lparr>owners := (owners b)[i := (fst (owners b ! i), x)]\<rparr>"

definition set_instruction_budget :: "string \<Rightarrow> u64 option \<Rightarrow> instruction_budgets \<Rightarrow> instruction_budgets" where
  "set_instruction_budget owner limit b = (let x = \<lparr>ib_limit = limit, ib_used = 0\<rparr> in
     case find_instruction_owner owner b of
       Some i \<Rightarrow> set_budget_at i x b
     | None \<Rightarrow> b\<lparr>owners := owners b @ [(owner, x)]\<rparr>)"

definition instruction_budget_of :: "string \<Rightarrow> instruction_budgets \<Rightarrow> instruction_budget option" where
  "instruction_budget_of owner b = map_option (\<lambda>i. snd (owners b ! i)) (find_instruction_owner owner b)"

definition reset_instruction_usage :: "string \<Rightarrow> instruction_budgets \<Rightarrow> instruction_budgets \<times> unit sres" where
  "reset_instruction_usage owner b = (case find_instruction_owner owner b of
     None \<Rightarrow> (b, Inl (TErr ''instruction owner is not configured''))
   | Some i \<Rightarrow> (set_budget_at i ((snd (owners b ! i))\<lparr>ib_used := 0\<rparr>) b, Inr ()))"

definition saturating_add_u64 :: "u64 \<Rightarrow> u64 \<Rightarrow> u64" where
  "saturating_add_u64 x y = (if unat x + unat y < 2 ^ 64 then x + y else - 1)"

definition charge_instruction :: "nat \<Rightarrow> instruction_budgets \<Rightarrow> instruction_budgets \<times> unit sres" where
  "charge_instruction i b = (let x = snd (owners b ! i) in
     if (case ib_limit x of Some l \<Rightarrow> l \<le> ib_used x | None \<Rightarrow> False)
     then (b, Inl (TErr (''instruction budget exhausted for owner '' @ [CHR 0x27] @ fst (owners b ! i) @ [CHR 0x27])))
     else (set_budget_at i (x\<lparr>ib_used := saturating_add_u64 (ib_used x) 1\<rparr>) b, Inr ()))"

text \<open>The dispatch loop charges the active owner, if there is one, before each instruction.\<close>

definition charge_active :: "instruction_budgets \<Rightarrow> instruction_budgets \<times> unit sres" where
  "charge_active b = (case ib_active b of None \<Rightarrow> (b, Inr ()) | Some i \<Rightarrow> charge_instruction i b)"

text \<open>
  A scope runs an operation of the host, which may return, fail or unwind; unwinding is a third outcome. The
  operation may use every function above, scopes included.
\<close>

datatype 'a scoped = Returned "'a sres" | Unwound

type_synonym ('w, 'a) host_op = "instruction_budgets \<times> 'w \<Rightarrow> (instruction_budgets \<times> 'w) \<times> 'a scoped"

definition with_instruction_owner :: "string \<Rightarrow> ('w, 'a) host_op \<Rightarrow> ('w, 'a) host_op" where
  "with_instruction_owner owner operation s = (case s of (b, w) \<Rightarrow> (case find_instruction_owner owner b of
     None \<Rightarrow> (s, Returned (Inl (TErr ''instruction owner is not configured'')))
   | Some i \<Rightarrow> (case operation (b\<lparr>ib_active := (if ib_exempt b then None else Some i)\<rparr>, w) of
       ((b1, w1), r) \<Rightarrow> ((b1\<lparr>ib_active := ib_active b\<rparr>, w1), r))))"

definition with_instruction_budget_exemption :: "('w, 'a) host_op \<Rightarrow> ('w, 'a) host_op" where
  "with_instruction_budget_exemption operation s = (case s of (b, w) \<Rightarrow>
     (case operation (b\<lparr>ib_active := None, ib_exempt := True\<rparr>, w) of
        ((b1, w1), r) \<Rightarrow> ((b1\<lparr>ib_exempt := ib_exempt b, ib_active := ib_active b\<rparr>, w1), r)))"

section \<open>Values between environments\<close>

text \<open>The hook of the host is a parameter; while it runs it is taken out of the state.\<close>

type_synonym transfer_hook = "lua \<Rightarrow> GcRef \<Rightarrow> GcRef \<Rightarrow> nat \<Rightarrow> nat \<Rightarrow> lua \<times> unit sres"

record transfer_state =
  t_lua :: lua
  t_hook :: "transfer_hook option"

definition lua_function_environment :: "lua \<Rightarrow> Val \<Rightarrow> GcRef option" where
  "lua_function_environment s v = (case v of
     VFunction r \<Rightarrow> (case get (h_closures (l_heap s)) r of Some (LuaC c) \<Rightarrow> Some (lc_env c) | _ \<Rightarrow> None)
   | _ \<Rightarrow> None)"

definition nearest_lua_environment :: "lua \<Rightarrow> nat \<Rightarrow> GcRef" where
  "nearest_lua_environment s from =
    (case List.map_filter (\<lambda>f. lua_function_environment s (stack_get s (ci_func f))) (rev (take (from + 1) (call_stack s))) of
       [] \<Rightarrow> l_global s | e # _ \<Rightarrow> e)"

definition transfer_environment_values :: "GcRef \<Rightarrow> GcRef \<Rightarrow> nat \<Rightarrow> nat \<Rightarrow> transfer_state \<Rightarrow> transfer_state \<times> unit sres" where
  "transfer_environment_values source target a b s =
    (if source = target \<or> b \<le> a then (s, Inr ())
     else case t_hook s of None \<Rightarrow> (s, Inr ())
       | Some hook \<Rightarrow> (case hook (t_lua s) source target a b of (l, r) \<Rightarrow> (\<lparr>t_lua = l, t_hook = Some hook\<rparr>, r)))"

definition transfer_call_arguments :: "Val \<Rightarrow> nat \<Rightarrow> transfer_state \<Rightarrow> transfer_state \<times> unit sres" where
  "transfer_call_arguments f start s =
    (if t_hook s = None then (s, Inr ())
     else case lua_function_environment (t_lua s) f of None \<Rightarrow> (s, Inr ())
       | Some target \<Rightarrow> transfer_environment_values (nearest_lua_environment (t_lua s) (l_ci (t_lua s))) target
           start (l_top (t_lua s)) s)"

definition transfer_return_values :: "nat \<Rightarrow> transfer_state \<Rightarrow> transfer_state \<times> unit sres" where
  "transfer_return_values start s =
    (if t_hook s = None then (s, Inr ())
     else case lua_function_environment (t_lua s) (stack_get (t_lua s) (ci_func (call_stack (t_lua s) ! l_ci (t_lua s)))) of
         None \<Rightarrow> (s, Inr ())
       | Some source \<Rightarrow> transfer_environment_values source (nearest_lua_environment (t_lua s) (l_ci (t_lua s) - 1))
           start (l_top (t_lua s)) s)"

end
