(* ===== verification/SecurityProps.thy ===== *)
theory SecurityProps
  imports Security LuaInit
begin

text \<open>
  What the access policy guarantees: a denied context learns nothing of a secret but its kind, a revocation lasts
  exactly as long as the frame it was made in, an owner never runs more instructions than its budget.
\<close>

section \<open>Two states that differ in secrets only\<close>

definition same_public :: "userdata \<Rightarrow> userdata \<Rightarrow> bool" where
  "same_public u v \<longleftrightarrow> v = u\<lparr>ud_secret_value := ud_secret_value v\<rparr>
     \<and> map_option payload_kind (ud_secret_value u) = map_option payload_kind (ud_secret_value v)"

definition low_eq :: "secure_state \<Rightarrow> secure_state \<Rightarrow> bool" where
  "low_eq s t \<longleftrightarrow> (\<exists>a. t = set_heap ((s_heap s)\<lparr>h_userdata := a\<rparr>) s
     \<and> (\<forall>r. rel_option same_public (get (h_userdata (s_heap s)) r) (get a r)))"

lemma low_eqE:
  assumes "low_eq s t"
  obtains a where "t = set_heap ((s_heap s)\<lparr>h_userdata := a\<rparr>) s"
    "\<And>r. rel_option same_public (get (h_userdata (s_heap s)) r) (get a r)"
  using assms unfolding low_eq_def by blast

lemma low_eq_public:
  assumes "low_eq s t"
  shows "state_is_secure (s_lua t) = state_is_secure (s_lua s)" "secret_context_is_revoked t = secret_context_is_revoked s"
    "can_access_secrets t = can_access_secrets s" "table_wraps_contents t = table_wraps_contents s"
    "ensure_secure_caller t = ensure_secure_caller s" "h_tables (s_heap t) = h_tables (s_heap s)"
    "stack_get (s_lua t) = stack_get (s_lua s)" "l_top (s_lua t) = l_top (s_lua s)" "l_base (s_lua t) = l_base (s_lua s)"
proof -
  obtain a where a: "t = set_heap ((s_heap s)\<lparr>h_userdata := a\<rparr>) s" using assms by (rule low_eqE)
  note f = a set_heap_def
  show S: "state_is_secure (s_lua t) = state_is_secure (s_lua s)" by (simp add: f state_is_secure_def)
  have c: "s_contexts t = s_contexts s" "current_thread (s_lua t) = current_thread (s_lua s)"
    "l_ci (s_lua t) = l_ci (s_lua s)" "saved_threads (s_lua t) = saved_threads (s_lua s)" by (simp_all add: f)
  show R: "secret_context_is_revoked t = secret_context_is_revoked s" unfolding secret_context_is_revoked_def c ..
  show "can_access_secrets t = can_access_secrets s" unfolding can_access_secrets_def S R ..
  show "ensure_secure_caller t = ensure_secure_caller s" unfolding ensure_secure_caller_def S ..
  show "table_wraps_contents t = table_wraps_contents s" by (simp add: f table_wraps_contents_def fun_eq_iff)
  show "h_tables (s_heap t) = h_tables (s_heap s)" "stack_get (s_lua t) = stack_get (s_lua s)"
    "l_top (s_lua t) = l_top (s_lua s)" "l_base (s_lua t) = l_base (s_lua s)"
    by (simp_all add: f stack_get_def fun_eq_iff)
qed

lemma low_eq_secret:
  assumes "low_eq s t" shows "map_option payload_kind (secret_of t v) = map_option payload_kind (secret_of s v)"
proof (cases v)
  case (VUserdata r)
  obtain a where a: "t = set_heap ((s_heap s)\<lparr>h_userdata := a\<rparr>) s" "rel_option same_public (get (h_userdata (s_heap s)) r) (get a r)"
    using assms by (rule low_eqE) blast
  from a(2) show ?thesis
    by (cases "get (h_userdata (s_heap s)) r"; cases "get a r") (simp_all add: secret_of_def VUserdata a(1) set_heap_def same_public_def)
qed (simp_all add: secret_of_def)

text \<open>The same secret, or two of one kind.\<close>

lemma low_eq_cases:
  assumes "low_eq s t"
  obtains "secret_of s v = None" "secret_of t v = None"
  | p q where "secret_of s v = Some p" "secret_of t v = Some q" "payload_kind p = payload_kind q"
  using low_eq_secret [OF assms, of v] by (cases "secret_of s v"; cases "secret_of t v") auto

lemma payload_kind_eq:
  "payload_kind p = payload_kind q \<Longrightarrow> (case p of VBool b \<Rightarrow> True | _ \<Rightarrow> False) = (case q of VBool b \<Rightarrow> True | _ \<Rightarrow> False)"
  by (cases p; cases q) simp_all

text \<open>Each guarded read of a denied context.\<close>

lemma denied_unwrap:
  assumes l: "low_eq s t" and d: "\<not> can_access_secrets s"
  shows "unwrap_secret t v = unwrap_secret s v"
  by (rule low_eq_cases [OF l, of v]) (use d low_eq_public(3) [OF l] in \<open>simp_all add: unwrap_secret_def\<close>)

lemma denied_bool:
  assumes l: "low_eq s t" and d: "\<not> can_access_secrets s"
  shows "checked_secret_bool t v = checked_secret_bool s v"
proof (rule low_eq_cases [OF l, of v])
  fix p q assume p: "secret_of s v = Some p" "secret_of t v = Some q" "payload_kind p = payload_kind q"
  then show ?thesis using d low_eq_public(3) [OF l]
    by (cases p; cases q) (simp_all add: checked_secret_bool_def unwrap_secret_def)
qed (simp add: checked_secret_bool_def)

lemma denied_nil:
  assumes l: "low_eq s t" and d: "\<not> can_access_secrets s"
  shows "checked_secret_nil t v = checked_secret_nil s v"
proof (rule low_eq_cases [OF l, of v])
  fix p q assume p: "secret_of s v = Some p" "secret_of t v = Some q" "payload_kind p = payload_kind q"
  then show ?thesis using d low_eq_public(3) [OF l]
    by (cases p; cases q) (simp_all add: checked_secret_nil_def unwrap_secret_def)
qed (simp add: checked_secret_nil_def)

lemma denied_reads:
  assumes l: "low_eq s t" and d: "\<not> can_access_secrets s"
  shows "checked_secret_table_read t v = checked_secret_table_read s v" "checked_order_operand t v = checked_order_operand s v"
    "checked_truthiness t v = checked_truthiness s v" "checked_secret_equality t v w = checked_secret_equality s v w"
proof -
  note u = denied_unwrap [OF l d] and b = denied_bool [OF l d] and n = denied_nil [OF l d]
  show "checked_truthiness t v = checked_truthiness s v" by (simp add: checked_truthiness_def b)
  show "checked_secret_equality t v w = checked_secret_equality s v w" unfolding checked_secret_equality_def b n ..
  show "checked_secret_table_read t v = checked_secret_table_read s v"
  proof (rule low_eq_cases [OF l, of v])
    fix p q assume "secret_of s v = Some p" "secret_of t v = Some q" "payload_kind p = payload_kind q"
    then show ?thesis using u by (cases p; cases q) (simp_all add: checked_secret_table_read_def)
  qed (simp add: checked_secret_table_read_def)
  have c: "(case secret_of t v of Some (VNum _) \<Rightarrow> unwrap_secret t v | _ \<Rightarrow> Inr v)
      = (case secret_of s v of Some (VNum _) \<Rightarrow> unwrap_secret s v | _ \<Rightarrow> Inr v)"
  proof (rule low_eq_cases [OF l, of v])
    fix p q assume "secret_of s v = Some p" "secret_of t v = Some q" "payload_kind p = payload_kind q"
    then show ?thesis using u by (cases p; cases q) simp_all
  qed simp
  show "checked_order_operand t v = checked_order_operand s v" unfolding checked_order_operand_def b c ..
qed

lemma low_eq_tests:
  assumes l: "low_eq s t"
  shows "is_secret_value t v = is_secret_value s v" "secret_payload_kind t v = secret_payload_kind s v"
    "is_secret_table t v = is_secret_table s v" "check_table_access t r k = check_table_access s r k"
proof -
  note k = low_eq_secret [OF l]
  show sv: "is_secret_value t x = is_secret_value s x" for x unfolding is_secret_value_def using k [of x] by (metis option.map_disc_iff)
  show "secret_payload_kind t v = secret_payload_kind s v" by (simp add: secret_payload_kind_def k)
  then show "is_secret_table t v = is_secret_table s v" unfolding is_secret_table_def low_eq_public(4) [OF l] by simp
  show "check_table_access t r k = check_table_access s r k"
    unfolding check_table_access_def low_eq_public(1,6) [OF l] sv ..
qed

lemma low_eq_push: "low_eq s t \<Longrightarrow> low_eq (on_lua (\<lambda>l. push l v) s) (on_lua (\<lambda>l. push l v) t)"
proof -
  assume "low_eq s t"
  then obtain a where a: "t = set_heap ((s_heap s)\<lparr>h_userdata := a\<rparr>) s"
    "\<And>r. rel_option same_public (get (h_userdata (s_heap s)) r) (get a r)" by (rule low_eqE) blast
  have h: "l_heap (push l v) = l_heap l" for l by (simp add: push_def Let_def)
  have p: "push (l\<lparr>l_heap := h\<rparr>) v = (push l v)\<lparr>l_heap := h\<rparr>" for l h by (simp add: push_def Let_def)
  show ?thesis unfolding low_eq_def
    by (rule exI [of _ a]) (use a(2) in \<open>simp add: a(1) on_lua_def set_heap_def h p\<close>)
qed

lemma can_access_push: "can_access_secrets (on_lua (\<lambda>l. push l v) s) = can_access_secrets s"
proof -
  have p: "call_stack (push l v) = call_stack l" "l_ci (push l v) = l_ci l" "current_thread (push l v) = current_thread l"
    "saved_threads (push l v) = saved_threads l" for l by (simp_all add: push_def Let_def)
  show ?thesis
    unfolding can_access_secrets_def on_lua_def state_is_secure_def secret_context_is_revoked_def
    by (simp add: p cong: option.case_cong)
qed

lemma denied_unwrap_args:
  "low_eq s t \<Longrightarrow> \<not> can_access_secrets s \<Longrightarrow> snd (secret_unwrap_args is' b t) = snd (secret_unwrap_args is' b s)
     \<and> low_eq (fst (secret_unwrap_args is' b s)) (fst (secret_unwrap_args is' b t))"
proof (induction is' arbitrary: s t)
  case (Cons i is')
  have e: "unwrap_secret t (stack_get (s_lua t) (b + i)) = unwrap_secret s (stack_get (s_lua s) (b + i))"
    using denied_unwrap [OF Cons.prems] low_eq_public(7) [OF Cons.prems(1)] by simp
  show ?case
  proof (cases "unwrap_secret s (stack_get (s_lua s) (b + i))")
    case (Inl x)
    then show ?thesis using e Cons.prems(1) by simp
  next
    case (Inr v)
    show ?thesis using Cons.IH [OF low_eq_push [OF Cons.prems(1), of v]] Cons.prems(2) e Inr by (simp add: can_access_push)
  qed
qed simp

text \<open>A state whose first frame is tainted, with one secret boolean.\<close>

definition demo_secret :: "bool \<Rightarrow> secure_state" where
  "demo_secret b = \<lparr>s_lua = lua_new\<lparr>call_stack := [(call_info_new 0 1 1 0)\<lparr>ci_taint := Some [97, 98]\<rparr>],
     l_heap := (l_heap lua_new)\<lparr>h_userdata := fst (alloc arena_new (userdata_secret (VBool b)) White0)\<rparr>\<rparr>,
     s_contexts = None, s_contents_policy = True\<rparr>"

text \<open>C9. Noninterference: take two states that differ only in what the secret wrappers hold, kind by kind. When
  the caller may not access secrets, because some frame is tainted or its context was revoked, every guarded
  operation gives the same result in both: unwrapping, truth tests, equality, order operands, indexing, the
  tests for secrets, table access checks, and the script function \<open>secretunwrap\<close>, whose states stay equal but for
  the secrets.\<close>

theorem secrets_noninterference:
  assumes "low_eq s t" "\<not> can_access_secrets s"
  shows "unwrap_secret t v = unwrap_secret s v \<and> checked_truthiness t v = checked_truthiness s v
    \<and> checked_secret_equality t v w = checked_secret_equality s v w \<and> checked_order_operand t v = checked_order_operand s v
    \<and> checked_secret_table_read t v = checked_secret_table_read s v \<and> is_secret_value t v = is_secret_value s v
    \<and> is_secret_table t v = is_secret_table s v \<and> check_table_access t r k = check_table_access s r k
    \<and> snd (lua_secret_unwrap t) = snd (lua_secret_unwrap s) \<and> low_eq (fst (lua_secret_unwrap s)) (fst (lua_secret_unwrap t))"
proof -
  let ?n = "l_top (s_lua s) - l_base (s_lua s)" and ?b = "l_base (s_lua s)"
  have U: "snd (secret_unwrap_args [0..<?n] ?b t) = snd (secret_unwrap_args [0..<?n] ?b s)"
    "low_eq (fst (secret_unwrap_args [0..<?n] ?b s)) (fst (secret_unwrap_args [0..<?n] ?b t))"
    using denied_unwrap_args [OF assms] by blast+
  have "snd (lua_secret_unwrap t) = snd (lua_secret_unwrap s)" "low_eq (fst (lua_secret_unwrap s)) (fst (lua_secret_unwrap t))"
    using U low_eq_public(8,9) [OF assms(1)]
    by (auto simp: lua_secret_unwrap_def Let_def split_beta split: sum.splits)
  then show ?thesis using denied_unwrap [OF assms] denied_reads [OF assms] low_eq_tests [OF assms(1)] by simp
qed

lemma secrets_noninterference_witness:
  "checked_truthiness (demo_secret False) (VUserdata (GcRef 0 0)) = checked_truthiness (demo_secret True) (VUserdata (GcRef 0 0))"
proof -
  have l: "low_eq (demo_secret True) (demo_secret False)"
    unfolding low_eq_def
    by (rule exI [of _ "fst (alloc arena_new (userdata_secret (VBool False)) White0)"])
      (auto simp: demo_secret_def set_heap_def alloc_def arena_new_def get_def same_public_def userdata_secret_def Let_def)
  have "\<not> can_access_secrets (demo_secret True)"
    by (simp add: can_access_secrets_def state_is_secure_def demo_secret_def)
  from secrets_noninterference [OF l this] show ?thesis by blast
qed

section \<open>The scope of a revocation\<close>

text \<open>What may happen to the frames of a thread: a call, a return, or unwinding to an outer frame.\<close>

datatype frame_op = Call call_info | Return | Unwind nat

primrec frame_step :: "frame_op \<Rightarrow> secure_state \<Rightarrow> secure_state" where
  "frame_step (Call ci) s = push_ci_secure ci s"
| "frame_step Return s = pop_ci_secure s"
| "frame_step (Unwind n) s = on_lua (\<lambda>l. l\<lparr>l_ci := min n (l_ci l)\<rparr>) s"

definition frame_run :: "frame_op list \<Rightarrow> secure_state \<Rightarrow> secure_state" where
  "frame_run ops s = fold frame_step ops s"

definition no_revocation :: "secure_state \<Rightarrow> bool" where
  "no_revocation s \<longleftrightarrow> (case s_contexts s of None \<Rightarrow> True | Some c \<Rightarrow> revoked c = [])"

definition revoked_only :: "nat \<Rightarrow> secure_state \<Rightarrow> bool" where
  "revoked_only d s \<longleftrightarrow> (\<exists>c. s_contexts s = Some c \<and> revoked c = [(current_thread (s_lua s), d)] \<and> resumers c = [])"

definition revocation_gone :: "nat \<Rightarrow> secure_state \<Rightarrow> bool" where
  "revocation_gone d s \<longleftrightarrow> (revoked_only d s \<and> l_ci (s_lua s) < d) \<or> (\<exists>c. s_contexts s = Some c \<and> revoked c = [])"

lemma revoked_only_iff: "revoked_only d s \<Longrightarrow> secret_context_is_revoked s \<longleftrightarrow> d \<le> l_ci (s_lua s)"
  by (auto simp: revoked_only_def secret_context_is_revoked_def)

lemma revocation_gone_not: "revocation_gone d s \<Longrightarrow> \<not> secret_context_is_revoked s"
  using revoked_only_iff by (auto simp: revocation_gone_def secret_context_is_revoked_def)

lemma frame_step_thread [simp]: "current_thread (s_lua (frame_step op s)) = current_thread (s_lua s)"
  by (cases op) (simp_all add: push_ci_secure_def pop_ci_secure_def prune_secret_contexts_def on_contexts_def on_lua_def
      push_ci_def pop_ci_def Let_def)

lemma step_gone: "revocation_gone d s \<Longrightarrow> revocation_gone d (frame_step op s)"
  by (cases op) (auto simp: revocation_gone_def revoked_only_def push_ci_secure_def pop_ci_secure_def prune_secret_contexts_def
      on_contexts_def contexts_prune_def on_lua_def push_ci_def pop_ci_def Let_def)

lemma step_revoked:
  "revoked_only d s \<Longrightarrow> d \<le> l_ci (s_lua s) \<Longrightarrow>
     if d \<le> l_ci (s_lua (frame_step op s)) then revoked_only d (frame_step op s) else revocation_gone d (frame_step op s)"
  by (cases op) (auto simp: revocation_gone_def revoked_only_def push_ci_secure_def pop_ci_secure_def prune_secret_contexts_def
      on_contexts_def contexts_prune_def on_lua_def push_ci_def pop_ci_def Let_def)

lemma run_gone: "revocation_gone d s \<Longrightarrow> revocation_gone d (frame_run ops s)"
  unfolding frame_run_def by (induction ops arbitrary: s) (auto intro: step_gone)

lemma run_revoked:
  assumes "revoked_only d s" "d \<le> l_ci (s_lua s)"
  shows "secret_context_is_revoked (frame_run ops s) \<longleftrightarrow> (\<forall>n \<le> length ops. d \<le> l_ci (s_lua (frame_run (take n ops) s)))"
  using assms
proof (induction ops arbitrary: s)
  case Nil
  then show ?case using revoked_only_iff by (simp add: frame_run_def)
next
  case (Cons op ops)
  let ?s = "frame_step op s"
  have all: "(\<forall>n \<le> length (op # ops). d \<le> l_ci (s_lua (frame_run (take n (op # ops)) s)))
      \<longleftrightarrow> (\<forall>n \<le> length ops. d \<le> l_ci (s_lua (frame_run (take n ops) ?s)))"
  proof
    assume a: "\<forall>n \<le> length (op # ops). d \<le> l_ci (s_lua (frame_run (take n (op # ops)) s))"
    show "\<forall>n \<le> length ops. d \<le> l_ci (s_lua (frame_run (take n ops) ?s))"
    proof (intro allI impI)
      fix n assume "n \<le> length ops"
      then show "d \<le> l_ci (s_lua (frame_run (take n ops) ?s))" using a [rule_format, of "Suc n"] by (simp add: frame_run_def)
    qed
  next
    assume a: "\<forall>n \<le> length ops. d \<le> l_ci (s_lua (frame_run (take n ops) ?s))"
    show "\<forall>n \<le> length (op # ops). d \<le> l_ci (s_lua (frame_run (take n (op # ops)) s))"
    proof (intro allI impI)
      fix n assume "n \<le> length (op # ops)"
      then show "d \<le> l_ci (s_lua (frame_run (take n (op # ops)) s))"
        using a [rule_format, of "n - 1"] Cons.prems(2) by (cases n) (simp_all add: frame_run_def)
    qed
  qed
  have r: "frame_run (op # ops) s = frame_run ops ?s" by (simp add: frame_run_def)
  show ?case
  proof (cases "d \<le> l_ci (s_lua ?s)")
    case True
    then have "revoked_only d ?s" using step_revoked [OF Cons.prems, of op] by simp
    then show ?thesis using Cons.IH [OF _ True] r all by simp
  next
    case False
    then have "revocation_gone d ?s" using step_revoked [OF Cons.prems, of op] by simp
    then have "\<not> secret_context_is_revoked (frame_run ops ?s)" using run_gone revocation_gone_not by blast
    moreover have "\<not> (\<forall>n \<le> length ops. d \<le> l_ci (s_lua (frame_run (take n ops) ?s)))"
      using False by (auto simp: frame_run_def intro: exI [of _ 0])
    ultimately show ?thesis using r all by simp
  qed
qed

text \<open>
  The frame a revocation is for: that of the Lua function running, or of the one that called the native function
  running.
\<close>

definition revoking_frame :: "secure_state \<Rightarrow> nat \<Rightarrow> bool" where
  "revoking_frame s d \<longleftrightarrow> (if ci_is_lua (call_stack (s_lua s) ! l_ci (s_lua s)) then d = l_ci (s_lua s) else d = l_ci (s_lua s) - 1)"

text \<open>C10. A revocation in a thread without earlier ones is for the frame of the running Lua function, or of the caller
  of the running native function, and is refused when that is the bottom frame of the thread. It denies access for
  exactly as long as that frame lives: through every call and return above it, and no longer once the frame is left, by
  a return or by unwinding from an error, also when new frames are pushed at its depth later.\<close>

theorem revocation_scope:
  assumes "s_contexts s = None" "revoking_frame s d"
  shows "case revoke_secret_access s of
      Inl e \<Rightarrow> d = 0
    | Inr s1 \<Rightarrow> d > 0 \<and> s_lua s1 = s_lua s \<and> (secret_context_is_revoked (frame_run ops s1) \<longleftrightarrow>
        (\<forall>n \<le> length ops. d \<le> l_ci (s_lua (frame_run (take n ops) s1))))"
proof -
  let ?s = "mark_secret_context_revoked d s"
  have r: "revoke_secret_access s = (if d = 0 then Inl (TErr ''secret access revocation requires an active calling context'') else Inr ?s)"
    using assms(2) by (auto simp: revoking_frame_def revoke_secret_access_def Let_def split: if_splits)
  have "revoked_only d ?s"
    by (simp add: mark_secret_context_revoked_def assms(1) contexts_default_def revoked_only_def Let_def)
  moreover have l: "s_lua ?s = s_lua s" by (simp add: mark_secret_context_revoked_def Let_def)
  moreover have "d \<le> l_ci (s_lua s)" using assms(2) by (auto simp: revoking_frame_def split: if_splits)
  ultimately show ?thesis using run_revoked [of d ?s ops] r by simp
qed

lemma revocation_scope_witness:
  "let f = (call_info_new 0 1 1 0)\<lparr>ci_is_lua := True\<rparr>;
       s = \<lparr>s_lua = lua_new\<lparr>call_stack := [f, f, call_info_new 0 1 1 0], l_ci := 2\<rparr>, s_contexts = None, s_contents_policy = False\<rparr>
   in case revoke_secret_access s of
      Inl e \<Rightarrow> False
    | Inr s1 \<Rightarrow> s_lua s1 = s_lua s \<and> (secret_context_is_revoked (frame_run [Return, Call f, Unwind 0] s1) \<longleftrightarrow>
        (\<forall>n \<le> length [Return, Call f, Unwind 0]. 1 \<le> l_ci (s_lua (frame_run (take n [Return, Call f, Unwind 0]) s1))))"
proof -
  let ?f = "(call_info_new 0 1 1 0)\<lparr>ci_is_lua := True\<rparr>"
  let ?s = "\<lparr>s_lua = lua_new\<lparr>call_stack := [?f, ?f, call_info_new 0 1 1 0], l_ci := 2\<rparr>, s_contexts = None, s_contents_policy = False\<rparr>"
  have "revoking_frame ?s 1" by (simp add: revoking_frame_def call_info_new_def)
  from revocation_scope [OF _ this, of "[Return, Call ?f, Unwind 0]"] show ?thesis
    unfolding Let_def by (simp split: sum.splits)
qed

section \<open>Budget scopes\<close>

text \<open>
  What untrusted code and its host may do to the budgets, as a tree: an instruction dispatched, a Lua error, a
  panic, a protected call, the scopes of an owner and of an exemption, a change of a budget.
\<close>

datatype act = Dispatch | Raise | Panic | Pcall "act list" | Owner string "act list" | Exempt "act list"
  | Configure string "u64 option" | Reset string

primrec run_act :: "act \<Rightarrow> ('w, unit) host_op" and run_acts :: "act list \<Rightarrow> ('w, unit) host_op" where
  "run_act Dispatch = (\<lambda>(b, w). case charge_active b of (b1, r) \<Rightarrow> ((b1, w), Returned r))"
| "run_act Raise = (\<lambda>s. (s, Returned (Inl (TErr ''error''))))"
| "run_act Panic = (\<lambda>s. (s, Unwound))"
| "run_act (Pcall as) = (\<lambda>s. case run_acts as s of (s1, Unwound) \<Rightarrow> (s1, Unwound) | (s1, Returned _) \<Rightarrow> (s1, Returned (Inr ())))"
| "run_act (Owner owner as) = with_instruction_owner owner (run_acts as)"
| "run_act (Exempt as) = with_instruction_budget_exemption (run_acts as)"
| "run_act (Configure owner limit) = (\<lambda>(b, w). ((set_instruction_budget owner limit b, w), Returned (Inr ())))"
| "run_act (Reset owner) = (\<lambda>(b, w). case reset_instruction_usage owner b of (b1, r) \<Rightarrow> ((b1, w), Returned r))"
| "run_acts [] = (\<lambda>s. (s, Returned (Inr ())))"
| "run_acts (a # as) = (\<lambda>s. case run_act a s of (s1, Returned (Inr _)) \<Rightarrow> run_acts as s1 | (s1, r) \<Rightarrow> (s1, r))"

definition within_limit :: "instruction_budget \<Rightarrow> bool" where
  "within_limit x \<longleftrightarrow> (case ib_limit x of Some l \<Rightarrow> ib_used x \<le> l | None \<Rightarrow> True)"

definition budgets_ok :: "instruction_budgets \<Rightarrow> bool" where
  "budgets_ok b \<longleftrightarrow> (\<forall>e \<in> set (owners b). within_limit (snd e)) \<and> (case ib_active b of None \<Rightarrow> True
     | Some i \<Rightarrow> i < length (owners b) \<and> \<not> ib_exempt b)"

definition usage :: "string \<Rightarrow> instruction_budgets \<Rightarrow> u64" where
  "usage owner b = (case instruction_budget_of owner b of Some x \<Rightarrow> ib_used x | None \<Rightarrow> 0)"

text \<open>What every action keeps.\<close>

definition budgets_step :: "instruction_budgets \<Rightarrow> instruction_budgets \<Rightarrow> bool" where
  "budgets_step b b1 \<longleftrightarrow> budgets_ok b1 \<and> ib_active b1 = ib_active b \<and> ib_exempt b1 = ib_exempt b
     \<and> length (owners b) \<le> length (owners b1) \<and> (ib_exempt b \<longrightarrow> (\<forall>owner. usage owner b1 \<le> usage owner b))"

lemma budgets_step_refl: "budgets_ok b \<Longrightarrow> budgets_step b b" by (simp add: budgets_step_def)

lemma budgets_step_trans: "budgets_step a b \<Longrightarrow> budgets_step b c \<Longrightarrow> budgets_step a c"
  unfolding budgets_step_def by (metis order_trans)

lemma find_owner:
  "find_instruction_owner owner b = Some i \<longleftrightarrow> i < length (owners b) \<and> fst (owners b ! i) = owner
     \<and> (\<forall>j < i. fst (owners b ! j) \<noteq> owner)"
  "find_instruction_owner owner b = None \<longleftrightarrow> (\<forall>j < length (owners b). fst (owners b ! j) \<noteq> owner)"
  by (auto simp: find_instruction_owner_def find_Some_iff find_None_iff)

lemma find_set_budget_at [simp]:
  "i < length (owners b) \<Longrightarrow> find_instruction_owner owner (set_budget_at i x b) = find_instruction_owner owner b"
proof -
  assume "i < length (owners b)"
  then have "fst (((owners b)[i := (fst (owners b ! i), x)]) ! j) = fst (owners b ! j)" for j
    by (cases "j = i") auto
  then show ?thesis by (simp add: find_instruction_owner_def set_budget_at_def)
qed

lemma set_budget_at_ok:
  "budgets_ok b \<Longrightarrow> within_limit x \<Longrightarrow> budgets_ok (set_budget_at i x b)"
  by (auto simp: budgets_ok_def set_budget_at_def dest!: subsetD [OF set_update_subset_insert] split: option.splits)

lemma set_budget_at_scope [simp]:
  "ib_active (set_budget_at i x b) = ib_active b" "ib_exempt (set_budget_at i x b) = ib_exempt b"
  "length (owners (set_budget_at i x b)) = length (owners b)"
  by (simp_all add: set_budget_at_def)

lemma nth_set_budget_at:
  "i < length (owners b) \<Longrightarrow> owners (set_budget_at i x b) ! j = (if j = i then (fst (owners b ! i), x) else owners b ! j)"
  by (simp add: set_budget_at_def)

lemma usage_set_budget_at:
  assumes "i < length (owners b)" "find_instruction_owner name b = Some i" "ib_used x \<le> ib_used (snd (owners b ! i))"
  shows "usage owner (set_budget_at i x b) \<le> usage owner b"
proof (cases "find_instruction_owner owner b")
  case (Some j)
  then show ?thesis using assms by (simp add: usage_def instruction_budget_of_def nth_set_budget_at)
qed (use assms in \<open>simp add: usage_def instruction_budget_of_def\<close>)

lemma saturating_add_le: "x < l \<Longrightarrow> saturating_add_u64 x 1 \<le> l"
  for x l :: u64
  using unsigned_less [of l, where 'a = nat] by (auto simp: saturating_add_u64_def word_le_nat_alt word_less_nat_alt unat_word_ariths)

lemma charge_step: "budgets_ok b \<Longrightarrow> budgets_step b (fst (charge_active b))"
proof (cases "ib_active b")
  case (Some i)
  assume ok: "budgets_ok b"
  have i: "i < length (owners b)" "\<not> ib_exempt b" using ok Some by (simp_all add: budgets_ok_def)
  let ?x = "snd (owners b ! i)"
  show ?thesis
  proof (cases "(case ib_limit ?x of Some l \<Rightarrow> l \<le> ib_used ?x | None \<Rightarrow> False)")
    case True
    then show ?thesis using ok Some by (simp add: charge_active_def charge_instruction_def Let_def budgets_step_refl)
  next
    case False
    then have "within_limit (?x\<lparr>ib_used := saturating_add_u64 (ib_used ?x) 1\<rparr>)"
      by (auto simp: within_limit_def not_le intro: saturating_add_le split: option.splits)
    then show ?thesis using False ok Some i
      by (simp add: charge_active_def charge_instruction_def Let_def budgets_step_def set_budget_at_ok)
  qed
qed (simp add: charge_active_def budgets_step_refl)

lemma configure_step: "budgets_ok b \<Longrightarrow> budgets_step b (set_instruction_budget owner limit b)"
proof -
  assume ok: "budgets_ok b"
  let ?x = "\<lparr>ib_limit = limit, ib_used = 0\<rparr>"
  have w: "within_limit ?x" by (simp add: within_limit_def split: option.split)
  show ?thesis
  proof (cases "find_instruction_owner owner b")
    case None
    let ?b = "b\<lparr>owners := owners b @ [(owner, ?x)]\<rparr>"
    have "usage o2 ?b \<le> usage o2 b" for o2
    proof (cases "find_instruction_owner o2 ?b")
      case (Some j)
      show ?thesis
      proof (cases "j < length (owners b)")
        case True
        then have "find_instruction_owner o2 b = Some j" using Some by (simp add: find_owner(1) nth_append)
        then show ?thesis using Some True by (simp add: usage_def instruction_budget_of_def nth_append)
      next
        case False
        then have "j = length (owners b)" using Some by (simp add: find_owner(1))
        then show ?thesis using Some by (simp add: usage_def instruction_budget_of_def)
      qed
    qed (simp add: usage_def instruction_budget_of_def)
    moreover have "budgets_ok ?b" using ok w by (auto simp: budgets_ok_def split: option.splits)
    ultimately show ?thesis by (simp add: set_instruction_budget_def Let_def None budgets_step_def)
  next
    case (Some i)
    have i: "i < length (owners b)" using Some by (simp add: find_owner)
    show ?thesis using usage_set_budget_at [OF i Some, of ?x] set_budget_at_ok [OF ok w]
      by (simp add: set_instruction_budget_def Let_def Some budgets_step_def)
  qed
qed

lemma reset_step: "budgets_ok b \<Longrightarrow> budgets_step b (fst (reset_instruction_usage owner b))"
proof (cases "find_instruction_owner owner b")
  case (Some i)
  assume ok: "budgets_ok b"
  have i: "i < length (owners b)" using Some by (simp add: find_owner)
  let ?x = "(snd (owners b ! i))\<lparr>ib_used := 0\<rparr>"
  have "within_limit ?x" by (simp add: within_limit_def split: option.split)
  then show ?thesis using usage_set_budget_at [OF i Some, of ?x] set_budget_at_ok [OF ok, of ?x i]
    by (simp add: reset_instruction_usage_def Some budgets_step_def)
qed (simp add: reset_instruction_usage_def budgets_step_refl)

lemma usage_scope [simp]:
  "usage owner (b\<lparr>ib_active := x\<rparr>) = usage owner b" "usage owner (b\<lparr>ib_exempt := y\<rparr>) = usage owner b"
  by (simp_all add: usage_def instruction_budget_of_def find_instruction_owner_def)

text \<open>A scope puts back what it found, whatever the operation does.\<close>

lemma owner_step:
  assumes op: "\<And>b w. budgets_ok b \<Longrightarrow> budgets_step b (fst (fst (operation (b, w))))" and ok: "budgets_ok b"
  shows "budgets_step b (fst (fst (with_instruction_owner owner operation (b, w))))"
proof (cases "find_instruction_owner owner b")
  case (Some i)
  let ?b = "b\<lparr>ib_active := (if ib_exempt b then None else Some i)\<rparr>"
  have "budgets_ok ?b" using ok Some by (simp add: budgets_ok_def find_owner)
  note step = op [OF this, of w]
  obtain b1 w1 r where r: "operation (?b, w) = ((b1, w1), r)" by (metis prod.exhaust)
  have e: "with_instruction_owner owner operation (b, w) = ((b1\<lparr>ib_active := ib_active b\<rparr>, w1), r)"
    unfolding with_instruction_owner_def by (simp only: prod.case Some option.case r)
  show ?thesis unfolding e using step ok by (auto simp: r budgets_step_def budgets_ok_def split: option.splits)
qed (use ok in \<open>simp add: with_instruction_owner_def budgets_step_refl\<close>)

lemma exempt_step:
  assumes op: "\<And>b w. budgets_ok b \<Longrightarrow> budgets_step b (fst (fst (operation (b, w))))" and ok: "budgets_ok b"
  shows "budgets_step b (fst (fst (with_instruction_budget_exemption operation (b, w))))"
proof -
  have "budgets_ok (b\<lparr>ib_active := None, ib_exempt := True\<rparr>)" using ok by (simp add: budgets_ok_def)
  from op [OF this, of w] show ?thesis using ok
    by (auto simp: with_instruction_budget_exemption_def budgets_step_def budgets_ok_def split: prod.split option.splits)
qed

lemma run_step:
  "\<And>b (w :: 'w). budgets_ok b \<Longrightarrow> budgets_step b (fst (fst (run_act a (b, w))))"
  "\<And>b (w :: 'w). budgets_ok b \<Longrightarrow> budgets_step b (fst (fst (run_acts as (b, w))))"
proof (induction a and as rule: run_act.induct run_acts.induct)
  case (Pcall as)
  have "fst (run_act (Pcall as) s) = fst (run_acts as s)" for s :: "instruction_budgets \<times> 'w"
    by (simp split: prod.split scoped.split)
  then show ?case using Pcall by simp
next
  case (Owner owner as)
  then show ?case by (simp add: owner_step)
next
  case (Exempt as)
  then show ?case by (simp add: exempt_step)
next
  case (Cons_act a as)
  have "budgets_step b (fst (fst (run_acts as s1)))" if "run_act a (b, w) = (s1, r)" for s1 r
    using Cons_act that by (cases s1) (metis budgets_step_def budgets_step_trans fst_conv)
  moreover have "budgets_step b (fst (fst (run_act a (b, w))))" using Cons_act by blast
  ultimately show ?case by (auto split: prod.split scoped.split sum.split)
next
  case Dispatch
  then show ?case using charge_step by (simp split: prod.split) (metis fst_conv)
next
  case (Reset owner)
  then show ?case using reset_step by (simp split: prod.split) (metis fst_conv)
qed (simp_all add: budgets_step_refl configure_step)

text \<open>C11. Budget scopes are sound: whatever untrusted code and its host do, nesting owner scopes, exemptions and
  protected calls, raising errors and panicking, no owner's usage exceeds its limit, the active owner and the
  exemption are what they were before, and what runs under an exemption raises no owner's usage.\<close>

theorem budgets_sound:
  assumes "budgets_ok b"
  shows "(\<forall>e \<in> set (owners (fst (fst (run_acts as (b, w))))). case ib_limit (snd e) of None \<Rightarrow> True | Some l \<Rightarrow> ib_used (snd e) \<le> l)
    \<and> ib_active (fst (fst (run_acts as (b, w)))) = ib_active b \<and> ib_exempt (fst (fst (run_acts as (b, w)))) = ib_exempt b
    \<and> (ib_exempt b \<longrightarrow> usage owner (fst (fst (run_acts as (b, w)))) \<le> usage owner b)"
  using run_step(2) [OF assms, of as w] by (auto simp: budgets_step_def budgets_ok_def within_limit_def split: option.splits)

lemma budgets_sound_witness:
  "let b = set_instruction_budget ''A'' (Some 1) budgets_default;
       as = [Pcall [Owner ''A'' [Dispatch, Exempt [Owner ''A'' [Dispatch]], Dispatch]], Exempt [Panic]]
   in ib_active (fst (fst (run_acts as (b, ())))) = None \<and> usage ''A'' (fst (fst (run_acts as (b, ())))) = 1"
proof -
  let ?b = "set_instruction_budget ''A'' (Some 1) budgets_default"
  let ?as = "[Pcall [Owner ''A'' [Dispatch, Exempt [Owner ''A'' [Dispatch]], Dispatch]], Exempt [Panic]]"
  have "budgets_ok ?b" by (simp add: budgets_ok_def set_instruction_budget_def budgets_default_def find_instruction_owner_def
      within_limit_def Let_def)
  from budgets_sound [OF this, of ?as "()"] have "ib_active (fst (fst (run_acts ?as (?b, ())))) = None"
    by (simp add: set_instruction_budget_def budgets_default_def find_instruction_owner_def Let_def)
  moreover have "usage ''A'' (fst (fst (run_acts ?as (?b, ())))) = 1"
    by (simp add: set_instruction_budget_def budgets_default_def find_instruction_owner_def with_instruction_owner_def
        with_instruction_budget_exemption_def charge_active_def charge_instruction_def set_budget_at_def saturating_add_u64_def
        usage_def instruction_budget_of_def Let_def)
  ultimately show ?thesis by simp
qed

end
