(* ===== verification/NumFmt.thy ===== *)
theory NumFmt
  imports Float64 RText
begin

text \<open>
  Numbers as text, \<^verbatim>\<open>src/vm/value.rs\<close>: \<^verbatim>\<open>tostring\<close> of a number,
  the bytes concatenation appends and the length it reserves for them. Rust formats a double from its exact
  value, rounding half to even; the base ten logarithm of the C library is a parameter.
\<close>

section \<open>Decimal digits\<close>

fun nat_digits :: "nat \<Rightarrow> u8 list" where
  "nat_digits n = (if n < 10 then [48 + of_nat n] else nat_digits (n div 10) @ [48 + of_nat (n mod 10)])"

declare nat_digits.simps [simp del]

definition fmt_int :: "int \<Rightarrow> u8 list" where
  "fmt_int i = (if i < 0 then 45 # nat_digits (nat (- i)) else nat_digits (nat i))"

text \<open>The magnitude of a finite double as a fraction.\<close>

definition f64_num :: "f64 \<Rightarrow> int" where "f64_num x = scale_num (f64_mant x) (f64_exp x)"
definition f64_den :: "f64 \<Rightarrow> int" where "f64_den x = scale_num 1 (- f64_exp x)"

definition pad_zeros :: "nat \<Rightarrow> u8 list \<Rightarrow> u8 list" where
  "pad_zeros k ds = replicate (k - length ds) 48 @ ds"

text \<open>\<^verbatim>\<open>{:.dec$}\<close>: exactly \<open>dec\<close> places.\<close>

definition fmt_fixed :: "nat \<Rightarrow> f64 \<Rightarrow> u8 list" where
  "fmt_fixed dec x =
    (let ds = pad_zeros (dec + 1) (nat_digits (nat (round_half_even (f64_num x * 10 ^ dec) (f64_den x))));
         k = length ds - dec
     in (if f64_sign x then [45] else []) @ take k ds @ (if dec = 0 then [] else 46 # drop k ds))"

text \<open>The exact decimal exponent of a positive fraction.\<close>

function neg_dec_exp :: "int \<Rightarrow> int \<Rightarrow> nat" where
  "neg_dec_exp n d = (if n \<le> 0 \<or> d \<le> n then 0 else Suc (neg_dec_exp (10 * n) d))"
  by pat_completeness auto
termination by (relation "measure (\<lambda>(n, d). nat (d - n))") auto

declare neg_dec_exp.simps [simp del]

definition dec_exp :: "int \<Rightarrow> int \<Rightarrow> int" where
  "dec_exp n d = (if d \<le> n then int (length (nat_digits (nat (n div d)))) - 1 else - int (neg_dec_exp n d))"

text \<open>The fourteen digits and the exponent of \<^verbatim>\<open>{:.13e}\<close>.\<close>

definition sci_digits :: "f64 \<Rightarrow> int \<times> int" where
  "sci_digits x = (let e = dec_exp (f64_num x) (f64_den x);
     q = round_half_even (f64_num x * 10 ^ nat (13 - e)) (f64_den x * 10 ^ nat (e - 13))
   in if q = 10 ^ 14 then (10 ^ 13, e + 1) else (q, e))"

definition fmt_exp_mantissa :: "f64 \<Rightarrow> u8 list" where
  "fmt_exp_mantissa x = (let ds = nat_digits (nat (fst (sci_digits x)))
     in (if f64_sign x then [45] else []) @ take 1 ds @ 46 # drop 1 ds)"

section \<open>The formatter\<close>

definition trim_end :: "u8 \<Rightarrow> u8 list \<Rightarrow> u8 list" where
  "trim_end c s = rev (dropWhile (\<lambda>b. b = c) (rev s))"

definition strip_trailing_zeros :: "u8 list \<Rightarrow> u8 list" where
  "strip_trailing_zeros s = (if 46 \<in> set s then trim_end 46 (trim_end 48 s) else s)"

definition fmt_scientific_stripped :: "u8 list \<Rightarrow> int \<Rightarrow> u8 list" where
  "fmt_scientific_stripped mantissa e = strip_trailing_zeros mantissa @
     (if 0 \<le> e then [101, 43] @ pad_zeros 2 (nat_digits (nat e)) else [101, 45] @ pad_zeros 2 (nat_digits (nat (- e))))"

definition fmt_lua_number :: "(f64 \<Rightarrow> int) \<Rightarrow> f64 \<Rightarrow> u8 list" where
  "fmt_lua_number log10_floor n =
    (if is_nan n then [45, 110, 97, 110]
     else if is_infinite n then (if f64_sign n then [45, 105, 110, 102] else [105, 110, 102])
     else if is_zero n then (if f64_sign n then [45, 48] else [48])
     else let exp10 = log10_floor (f64_abs n) in
       if -4 \<le> exp10 \<and> exp10 < 14 then strip_trailing_zeros (fmt_fixed (nat (max (13 - exp10) 0)) n)
       else fmt_scientific_stripped (fmt_exp_mantissa n) (snd (sci_digits n)))"

definition MAX_FIXED_INTEGER_ABS :: f64 where "MAX_FIXED_INTEGER_ABS = f64_of_int (10 ^ 14)"

definition lua_fixed_integer :: "f64 \<Rightarrow> int option" where
  "lua_fixed_integer n = (if \<not> is_finite n \<or> is_zero n \<or> f64_le MAX_FIXED_INTEGER_ABS (f64_abs n) then None
     else let k = f64_to_i64 n in if f64_eq (f64_of_int k) n then Some k else None)"

text \<open>\<open>ilog10\<close> of a positive integer.\<close>

fun ilog10 :: "nat \<Rightarrow> nat" where "ilog10 n = (if n < 10 then 0 else Suc (ilog10 (n div 10)))"

declare ilog10.simps [simp del]

definition lua_integer_len :: "int \<Rightarrow> nat" where
  "lua_integer_len i = (let a = nat \<bar>i\<bar>; digits = (if a = 0 then 1 else ilog10 a + 1)
     in digits + (if i < 0 then 1 else 0))"

definition lua_number_string_len :: "(f64 \<Rightarrow> int) \<Rightarrow> f64 \<Rightarrow> nat" where
  "lua_number_string_len log10_floor n =
    (if is_nan n then 4
     else if is_infinite n then (if f64_sign n then 4 else 3)
     else if is_zero n then (if f64_sign n then 2 else 1)
     else case lua_fixed_integer n of Some i \<Rightarrow> lua_integer_len i
       | None \<Rightarrow> length (fmt_lua_number log10_floor n))"

definition append_lua_number_bytes :: "(f64 \<Rightarrow> int) \<Rightarrow> u8 list \<Rightarrow> f64 \<Rightarrow> u8 list" where
  "append_lua_number_bytes log10_floor buffer n = buffer @
    (if is_nan n then [45, 110, 97, 110]
     else if is_infinite n then (if f64_sign n then [45, 105, 110, 102] else [105, 110, 102])
     else if is_zero n then (if f64_sign n then [45, 48] else [48])
     else case lua_fixed_integer n of Some i \<Rightarrow> fmt_int i
       | None \<Rightarrow> fmt_lua_number log10_floor n)"

section \<open>Properties\<close>

lemma length_nat_digits: "length (nat_digits n) = ilog10 n + 1"
  by (induction n rule: nat_digits.induct) (subst nat_digits.simps, subst ilog10.simps, simp)

text \<open>The length concatenation reserves for a number is the length of the bytes it appends.\<close>

lemma number_length_exact:
  "length (append_lua_number_bytes log10_floor buffer n) = length buffer + lua_number_string_len log10_floor n"
  by (simp add: append_lua_number_bytes_def lua_number_string_len_def fmt_int_def lua_integer_len_def length_nat_digits
      Let_def ilog10.simps [of 0] split: option.split)

section \<open>Integers\<close>

lemma nat_digits_range: "\<forall>b \<in> set (nat_digits n). 48 \<le> b \<and> b < 58"
proof (induction n rule: nat_digits.induct)
  case (1 n)
  have "48 \<le> (48 + of_nat m :: u8) \<and> (48 + of_nat m :: u8) < 58" if "m < 10" for m
    using that by (simp add: word_le_nat_alt word_less_nat_alt unat_word_ariths unat_of_nat)
  then show ?case using 1 by (subst nat_digits.simps) (auto simp: nat_digits.simps [of n])
qed

lemma nat_digits_shift: "0 < n \<Longrightarrow> nat_digits (n * 10 ^ k) = nat_digits n @ replicate k 48"
proof (induction k)
  case (Suc k)
  have "nat_digits (n * 10 ^ k * 10) = nat_digits (n * 10 ^ k) @ [48]"
    using Suc.prems by (subst nat_digits.simps) simp
  then show ?case using Suc by (simp add: mult.assoc mult.left_commute mult.commute replicate_append_same)
qed simp

lemma trim_end_same [simp]: "trim_end c (s @ replicate k c) = trim_end c s"
  by (simp add: trim_end_def dropWhile_append)

lemma trim_end_other [simp]: "b \<noteq> c \<Longrightarrow> trim_end c (s @ [b]) = s @ [b]" by (simp add: trim_end_def)

lemma strip_zeros:
  assumes "46 \<notin> set s" "s \<noteq> []" "last s \<noteq> 46"
  shows "strip_trailing_zeros (s @ (if k = 0 then [] else 46 # replicate k 48)) = s"
proof (cases "k = 0")
  case False
  have "trim_end 48 ((s @ [46]) @ replicate k 48) = s @ [46]" by (simp only: trim_end_same) simp
  moreover have "trim_end 46 (s @ [46]) = s"
    using assms(2,3) by (cases s rule: rev_cases) (simp_all add: trim_end_def)
  ultimately show ?thesis using False by (simp add: strip_trailing_zeros_def)
qed (use assms in \<open>simp add: strip_trailing_zeros_def\<close>)

lemma small_mag_trunc:
  assumes "f64_mag x < 1070 * 2 ^ 52" shows "\<bar>f64_trunc x\<bar> < 2 ^ 47"
proof -
  have d: "f64_mag x div 2 ^ 52 \<le> 1069" using assms by simp
  have r: "0 \<le> f64_mag x" by (simp add: f64_mag_range)
  have m: "0 \<le> f64_mant x" "f64_mant x < 2 ^ 53"
  proof -
    have b: "0 \<le> f64_mag x mod 2 ^ 52" "f64_mag x mod 2 ^ 52 < 2 ^ 52" by simp_all
    have "f64_mag x = 2 ^ 52 * (f64_mag x div 2 ^ 52) + f64_mag x mod 2 ^ 52" by simp
    then have z: "f64_mag x div 2 ^ 52 = 0 \<Longrightarrow> f64_mag x < 2 ^ 52" using b(2) by (metis add_0 mult_zero_right)
    have s: "(2 :: int) ^ 53 = 2 ^ 52 + 2 ^ 52" by simp
    have "0 \<le> f64_mant x \<and> f64_mant x < 2 ^ 52 + 2 ^ 52"
    proof (cases "f64_mag x div 2 ^ 52 = 0")
      case True
      then have "f64_mant x = f64_mag x" unfolding f64_mant_def Let_def by (rule if_P)
      then show ?thesis using r z [OF True] by linarith
    next
      case False
      then have "f64_mant x = f64_mag x mod 2 ^ 52 + 2 ^ 52" unfolding f64_mant_def Let_def by (rule if_not_P)
      then show ?thesis using b by linarith
    qed
    then show "0 \<le> f64_mant x" "f64_mant x < 2 ^ 53" unfolding s by blast+
  qed
  have e: "f64_exp x \<le> -6" using d by (auto simp: f64_exp_def Let_def)
  let ?k = "nat (- f64_exp x)"
  have "(64 :: int) \<le> 2 ^ ?k" using e power_increasing [of 6 ?k "2 :: int"] by simp
  then have "f64_mant x div 2 ^ ?k \<le> f64_mant x div 64" using m(1) by (intro zdiv_mono2) simp_all
  also have "\<dots> < 2 ^ 47" using m(2) by simp
  finally have "f64_mant x div 2 ^ ?k < 2 ^ 47" .
  moreover have "0 \<le> f64_mant x div 2 ^ ?k" using m(1) by (simp add: pos_imp_zdiv_nonneg_iff)
  ultimately show ?thesis using e by (simp add: f64_trunc_def scale_num_def Let_def)
qed

lemma max_fixed_mag: "f64_mag MAX_FIXED_INTEGER_ABS = 1068 * 2 ^ 52 + 10 ^ 14 * 2 ^ 6" "\<not> is_nan MAX_FIXED_INTEGER_ABS"
  "\<not> f64_sign MAX_FIXED_INTEGER_ABS"
  unfolding MAX_FIXED_INTEGER_ABS_def by code_simp+

lemma of_int_mag:
  assumes "2 ^ 46 \<le> \<bar>k\<bar>" "\<bar>k\<bar> < 2 ^ 47"
  shows "f64_mag (f64_of_int k) = 1068 * 2 ^ 52 + \<bar>k\<bar> * 2 ^ 6"
proof -
  obtain l where l: "0 \<le> l" "l \<le> 52" "round_mag \<bar>k\<bar> 1 = (l + 1022) * 2 ^ 52 + \<bar>k\<bar> * 2 ^ nat (52 - l)"
    "2 ^ 52 \<le> \<bar>k\<bar> * 2 ^ nat (52 - l)" "\<bar>k\<bar> * 2 ^ nat (52 - l) < 2 ^ 53"
    using round_mag_int [of "\<bar>k\<bar>"] assms by fastforce
  have "nat (52 - l) = 6"
  proof (rule ccontr)
    assume "nat (52 - l) \<noteq> 6"
    then consider "nat (52 - l) \<le> 5" | "7 \<le> nat (52 - l)" by linarith
    then show False
    proof cases
      case 1
      then have "(2 :: int) ^ nat (52 - l) \<le> 2 ^ 5" by (rule power_increasing) simp
      then have "\<bar>k\<bar> * 2 ^ nat (52 - l) < 2 ^ 47 * 2 ^ 5" using assms(2) by (intro mult_less_le_imp_less) simp_all
      then show False using l(4) by simp
    next
      case 2
      then have "(2 :: int) ^ 7 \<le> 2 ^ nat (52 - l)" by (rule power_increasing) simp
      then have "2 ^ 46 * 2 ^ 7 \<le> \<bar>k\<bar> * 2 ^ nat (52 - l)" using assms(1) by (intro mult_mono) simp_all
      then show False using l(5) by simp
    qed
  qed
  moreover from this have "l = 46" using l(1,2) by linarith
  ultimately have m: "round_mag \<bar>k\<bar> 1 = 1068 * 2 ^ 52 + \<bar>k\<bar> * 2 ^ 6" using l(3) by simp
  have "f64_of_int k = f64_bits (k < 0) (round_mag \<bar>k\<bar> 1)"
    using assms by (auto simp: f64_of_int_def f64_scaled_def f64_round_def scale_num_def)
  then show ?thesis unfolding m using assms by (simp add: f64_mag_bits)
qed

lemma fixed_integer:
  assumes "lua_fixed_integer n = Some i"
  shows "n = f64_of_int i" "i \<noteq> 0" "\<bar>i\<bar> < 10 ^ 14"
proof -
  have f: "is_finite n" "\<not> is_zero n" "\<not> f64_le MAX_FIXED_INTEGER_ABS (f64_abs n)" "i = f64_to_i64 n" "f64_eq (f64_of_int i) n"
    using assms by (auto simp: lua_fixed_integer_def Let_def split: if_splits)
  have a: "f64_mag (f64_abs n) = f64_mag n" "\<not> f64_sign (f64_abs n)"
    by (simp_all add: f64_abs_def f64_mag_take_bit f64_sign_def bit_take_bit_iff unsigned_take_bit_eq flip: take_bit_eq_mask)
  have lt: "f64_mag n < 1068 * 2 ^ 52 + 10 ^ 14 * 2 ^ 6"
    using f(1,3) a max_fixed_mag by (auto simp: f64_le_def f64_key_def is_nan_def is_finite_def)
  then have "\<bar>f64_trunc n\<bar> < 2 ^ 47" by (intro small_mag_trunc) simp
  then have i: "\<bar>i\<bar> < 2 ^ 47" using f(1,4) by (auto simp: f64_to_i64_def I64_MIN_def I64_MAX_def is_finite_def is_nan_def is_infinite_def)
  show n: "n = f64_of_int i" using f64_eq_cases [OF f(5)] f(2) by auto
  show "i \<noteq> 0"
  proof
    assume "i = 0"
    moreover have "is_zero (f64_of_int 0)" by code_simp
    ultimately show False using n f(2) by simp
  qed
  show "\<bar>i\<bar> < 10 ^ 14"
  proof (rule ccontr)
    assume "\<not> \<bar>i\<bar> < 10 ^ 14"
    then show False using of_int_mag [of i] i lt n by simp
  qed
qed

lemma of_int_fraction:
  assumes "0 < \<bar>i\<bar>" "\<bar>i\<bar> < 2 ^ 53"
  shows "f64_num (f64_of_int i) = \<bar>i\<bar> * f64_den (f64_of_int i)" "0 < f64_den (f64_of_int i)" "f64_sign (f64_of_int i) = (i < 0)"
  using f64_of_int_parts [OF assms] by (auto simp: f64_num_def f64_den_def scale_num_def)

lemma nat_digits_ne: "nat_digits n \<noteq> []" by (subst nat_digits.simps) simp

text \<open>C18. The shortcut for integers below ten to the fourteenth prints what the general formatter prints, given a
  logarithm that is right for that integer: its digits, with no point, no zeros and no exponent.\<close>

theorem integer_shortcut:
  assumes "lua_fixed_integer n = Some i" "log10_floor (f64_abs n) = int (ilog10 (nat \<bar>i\<bar>))"
  shows "fmt_lua_number log10_floor n = fmt_int i"
proof -
  note n = fixed_integer [OF assms(1)]
  have nz: "0 < nat \<bar>i\<bar>" and b: "0 < \<bar>i\<bar>" "\<bar>i\<bar> < 2 ^ 53" using n by auto
  note fr = of_int_fraction [OF b]
  have fin: "is_finite n" "\<not> is_zero n" using assms(1) by (auto simp: lua_fixed_integer_def split: if_splits)
  let ?ds = "nat_digits (nat \<bar>i\<bar>)"
  have l: "ilog10 (nat \<bar>i\<bar>) < 14"
  proof (rule ccontr)
    assume "\<not> ilog10 (nat \<bar>i\<bar>) < 14"
    moreover have "0 < m \<Longrightarrow> 10 ^ ilog10 m \<le> m" for m
    proof (induction m rule: ilog10.induct)
      case (1 m)
      have "10 * (m div 10) \<le> m" by simp
      moreover have "\<not> m < 10 \<Longrightarrow> 10 * 10 ^ ilog10 (m div 10) \<le> 10 * (m div 10)" using 1 by simp
      ultimately have "\<not> m < 10 \<Longrightarrow> 10 * 10 ^ ilog10 (m div 10) \<le> m" by (meson le_trans)
      then show ?case using 1(2) by (subst ilog10.simps) simp
    qed
    from this [OF nz] have "10 ^ ilog10 (nat \<bar>i\<bar>) \<le> nat \<bar>i\<bar>" .
    ultimately have "10 ^ 14 \<le> nat \<bar>i\<bar>" by (meson le_trans not_less one_le_numeral power_increasing)
    then show False using n(3) by simp
  qed
  define dec where "dec = 13 - ilog10 (nat \<bar>i\<bar>)"
  have dec: "nat (max (13 - log10_floor (f64_abs n)) 0) = dec" using l assms(2) by (simp add: dec_def nat_diff_distrib')
  have "round_half_even (f64_num n * 10 ^ dec) (f64_den n) = \<bar>i\<bar> * 10 ^ dec"
    unfolding n(1) fr(1) using round_half_even_exact [OF fr(2), of "\<bar>i\<bar> * 10 ^ dec"] by (simp add: ac_simps)
  then have digits: "nat_digits (nat (round_half_even (f64_num n * 10 ^ dec) (f64_den n))) = ?ds @ replicate dec 48"
    using nat_digits_shift [OF nz, of dec] by (simp add: nat_mult_distrib nat_power_eq)
  have pad: "pad_zeros (dec + 1) (?ds @ replicate dec 48) = ?ds @ replicate dec 48"
    by (simp add: pad_zeros_def length_nat_digits)
  have fixed: "fmt_fixed dec n = (if i < 0 then [45] else []) @ ?ds @ (if dec = 0 then [] else 46 # replicate dec 48)"
    unfolding fmt_fixed_def digits pad Let_def using fr(3) n(1) by simp
  have r: "46 \<notin> set ?ds" "last ?ds \<noteq> 46" "?ds \<noteq> []"
    using nat_digits_range [of "nat \<bar>i\<bar>"] nat_digits_ne last_in_set [OF nat_digits_ne, of "nat \<bar>i\<bar>"] by fastforce+
  have s: "strip_trailing_zeros (((if i < 0 then [45] else []) @ ?ds) @ (if dec = 0 then [] else 46 # replicate dec 48))
      = (if i < 0 then [45] else []) @ ?ds"
    by (rule strip_zeros) (use r in auto)
  have "fmt_lua_number log10_floor n = strip_trailing_zeros (fmt_fixed dec n)"
    using fin l assms(2) dec
    by (simp add: fmt_lua_number_def is_finite_def is_nan_def is_infinite_def)
  also have "\<dots> = (if i < 0 then [45] else []) @ ?ds" unfolding fixed using s by simp
  finally show ?thesis by (simp add: fmt_int_def)
qed

lemma integer_shortcut_witness: "fmt_lua_number (\<lambda>_. 2) (f64_of_int (- 250)) = [45, 50, 53, 48]"
proof -
  have "lua_fixed_integer (f64_of_int (- 250)) = Some (- 250)" by code_simp
  moreover have "(2 :: int) = int (ilog10 (nat \<bar>- 250\<bar>))" by (simp add: ilog10.simps)
  ultimately have "fmt_lua_number (\<lambda>_. 2) (f64_of_int (- 250)) = fmt_int (- 250)" by (rule integer_shortcut)
  then show ?thesis by (simp add: fmt_int_def nat_digits.simps)
qed

text \<open>The exponent is taken before rounding: 99999999999999.5, whose logarithm rounds to a number below 14, prints with
  fifteen digits where fourteen significant ones would carry into the exponent and give \<^verbatim>\<open>1e+14\<close>.\<close>

lemma carry_prints_fifteen_digits:
  "fmt_lua_number (\<lambda>_. 13) (f64_scaled False 199999999999999 (- 1)) = 49 # replicate 14 48"
proof -
  let ?x = "f64_scaled False 199999999999999 (- 1)"
  have f: "\<not> is_nan ?x" "\<not> is_infinite ?x" "\<not> is_zero ?x" "\<not> f64_sign ?x" by code_simp+
  have n: "f64_num ?x = 199999999999999 * 2 ^ 5" "f64_den ?x = 2 ^ 6" by code_simp+
  have r: "round_half_even (f64_num ?x) (f64_den ?x) = 10 ^ 14" unfolding n by (simp add: round_half_even_def)
  have d: "nat_digits (10 ^ 14) = 49 # replicate 14 48" using nat_digits_shift [of 1 14] by (simp add: nat_digits.simps [of "Suc 0"])
  then have e: "nat_digits 100000000000000 = 49 # replicate 14 48" by (simp del: replicate.simps)
  have "fmt_fixed 0 ?x = 49 # replicate 14 48"
    by (simp add: fmt_fixed_def r e f(4) pad_zeros_def Let_def del: replicate.simps)
  then show ?thesis by (simp add: fmt_lua_number_def f strip_trailing_zeros_def del: replicate.simps)
qed

end
