(* ===== verification/ExecState.thy ===== *)
theory ExecState
  imports Security NumFmt
begin

text \<open>
  The state instructions work on, and the coercions of \<^verbatim>\<open>src/vm/execute.rs\<close>: registers and
  constants, numbers from values, integers from numbers, table keys, and the runtime errors.

  An operation takes the state and returns the new state with a result or an error. What the code takes from
  the process and its C library is a record of parameters. Positions and variable names in messages are not
  rendered: an error keeps the message, or the register whose name the message would show.
\<close>

section \<open>State, errors, operations\<close>

datatype vm_error = EMsg string | ELocated string | EWhere string | ETypeErr nat string | EMemory | EYield nat
  | EPanic | EFuel | EHost nat

record vm =
  v_sec :: secure_state
  v_taint_mode :: bool
  v_budgets :: instruction_budgets
  v_transfer :: "transfer_hook option"

abbreviation v_lua :: "vm \<Rightarrow> lua" where "v_lua s \<equiv> s_lua (v_sec s)"
abbreviation v_heap :: "vm \<Rightarrow> heap" where "v_heap s \<equiv> l_heap (v_lua s)"

type_synonym 'a vres = "(vm_error, 'a) res"
type_synonym 'a vop = "vm \<Rightarrow> vm \<times> 'a vres"

definition vret :: "'a \<Rightarrow> 'a vop" where "vret x s = (s, Inr x)"
definition vfail :: "vm_error \<Rightarrow> 'a vop" where "vfail e s = (s, Inl e)"
definition vlift :: "'a vres \<Rightarrow> 'a vop" where "vlift r s = (s, r)"
definition vget :: "(vm \<Rightarrow> 'a) \<Rightarrow> 'a vop" where "vget f s = (s, Inr (f s))"
definition vmod :: "(vm \<Rightarrow> vm) \<Rightarrow> unit vop" where "vmod f s = (f s, Inr ())"

definition vbind :: "'a vop \<Rightarrow> ('a \<Rightarrow> 'b vop) \<Rightarrow> 'b vop" where
  "vbind m f s = (case m s of (s1, Inl e) \<Rightarrow> (s1, Inl e) | (s1, Inr x) \<Rightarrow> f x s1)"

definition vthen :: "unit vop \<Rightarrow> 'b vop \<Rightarrow> 'b vop" where
  "vthen m n = vbind m (\<lambda>_. n)"

definition on_vlua :: "(lua \<Rightarrow> lua) \<Rightarrow> vm \<Rightarrow> vm" where
  "on_vlua f s = s\<lparr>v_sec := (v_sec s)\<lparr>s_lua := f (s_lua (v_sec s))\<rparr>\<rparr>"

definition on_vheap :: "(heap \<Rightarrow> heap) \<Rightarrow> vm \<Rightarrow> vm" where
  "on_vheap f = on_vlua (\<lambda>l. l\<lparr>l_heap := f (l_heap l)\<rparr>)"

definition on_vsec :: "(secure_state \<Rightarrow> secure_state) \<Rightarrow> vm \<Rightarrow> vm" where
  "on_vsec f s = s\<lparr>v_sec := f (v_sec s)\<rparr>"

text \<open>Operations of the access policy, whose errors are plain messages.\<close>

definition table_failure :: "table_error \<Rightarrow> vm_error" where
  "table_failure e = (case e of TErr m \<Rightarrow> EMsg m | TLoop \<Rightarrow> EFuel | TPanic \<Rightarrow> EPanic)"

definition lift_sres :: "'a sres \<Rightarrow> 'a vres" where
  "lift_sres r = (case r of Inl e \<Rightarrow> Inl (table_failure e) | Inr x \<Rightarrow> Inr x)"

definition sec_test :: "(secure_state \<Rightarrow> 'a sres) \<Rightarrow> 'a vop" where
  "sec_test f s = (s, lift_sres (f (v_sec s)))"

definition sec_op :: "(secure_state \<Rightarrow> secure_state \<times> 'a) \<Rightarrow> 'a vop" where
  "sec_op f s = (case f (v_sec s) of (t, x) \<Rightarrow> (s\<lparr>v_sec := t\<rparr>, Inr x))"

definition heap_op :: "(heap \<Rightarrow> heap \<times> 'a) \<Rightarrow> 'a vop" where
  "heap_op f s = (case f (v_heap s) of (h, x) \<Rightarrow> (on_vheap (\<lambda>_. h) s, Inr x))"

definition reg_get :: "nat \<Rightarrow> Val vop" where "reg_get i = vget (\<lambda>s. stack_get (v_lua s) i)"
definition reg_set :: "nat \<Rightarrow> Val \<Rightarrow> unit vop" where "reg_set i v = vmod (on_vlua (\<lambda>l. stack_set l i v))"
definition set_top :: "nat \<Rightarrow> unit vop" where "set_top n = vmod (on_vlua (\<lambda>l. l\<lparr>l_top := n\<rparr>))"

definition on_ci :: "(call_info \<Rightarrow> call_info) \<Rightarrow> unit vop" where
  "on_ci f = vmod (on_vlua (\<lambda>l. l\<lparr>call_stack := (call_stack l)[l_ci l := f (call_stack l ! l_ci l)]\<rparr>))"

definition cur_ci :: "vm \<Rightarrow> call_info" where "cur_ci s = call_stack (v_lua s) ! l_ci (v_lua s)"

definition save_pc :: "nat \<Rightarrow> unit vop" where "save_pc pc = on_ci (\<lambda>c. c\<lparr>ci_saved_pc := pc\<rparr>)"

text \<open>The process, the C library, native functions and the calls of nested activations.\<close>

type_synonym vcall = "nat \<Rightarrow> int \<Rightarrow> unit vop"

record platform =
  p_strtod :: "u8 list \<Rightarrow> (f64 \<times> nat) option"
  p_strcoll :: "u8 list \<Rightarrow> u8 list \<Rightarrow> int"
  p_pow :: "f64 \<Rightarrow> f64 \<Rightarrow> f64"
  p_log10_floor :: "f64 \<Rightarrow> int"
  p_interrupted :: "vm \<Rightarrow> bool"
  p_native :: "nat \<Rightarrow> vcall \<Rightarrow> nat vop"
  p_finalizer :: "nat \<Rightarrow> lua \<Rightarrow> lua \<times> vm_error option"
  p_gc_fuel :: nat

record nested =
  n_call :: vcall
  n_execute :: "unit vop"

section \<open>Registers, constants\<close>

definition const_at :: "Val list \<Rightarrow> nat \<Rightarrow> Val vres" where
  "const_at ks i = (if i < length ks then Inr (ks ! i) else Inl EPanic)"

definition rk :: "Val list \<Rightarrow> nat \<Rightarrow> Val list \<Rightarrow> u32 \<Rightarrow> Val vres" where
  "rk st base constants field =
    (if is_k field then const_at constants (unat (index_k field)) else const_at st (base + unat field))"

definition rk_get :: "Proto \<Rightarrow> nat \<Rightarrow> u32 \<Rightarrow> Val vop" where
  "rk_get p base field s = (s, rk (stack (v_lua s)) base (pr_constants p) field)"

section \<open>Numbers from text\<close>

definition is_ascii_whitespace :: "u8 \<Rightarrow> bool" where
  "is_ascii_whitespace b \<longleftrightarrow> b \<in> {32, 9, 10, 12, 13}"

text \<open>The encodings of the Unicode white space characters, which \<open>str::trim\<close> removes.\<close>

definition white_space :: "u8 list list" where
  "white_space = [[9], [10], [11], [12], [13], [32], [0xC2, 0x85], [0xC2, 0xA0], [0xE1, 0x9A, 0x80], [0xE2, 0x80, 0x80],
     [0xE2, 0x80, 0x81], [0xE2, 0x80, 0x82], [0xE2, 0x80, 0x83], [0xE2, 0x80, 0x84], [0xE2, 0x80, 0x85], [0xE2, 0x80, 0x86],
     [0xE2, 0x80, 0x87], [0xE2, 0x80, 0x88], [0xE2, 0x80, 0x89], [0xE2, 0x80, 0x8A], [0xE2, 0x80, 0xA8], [0xE2, 0x80, 0xA9],
     [0xE2, 0x80, 0xAF], [0xE2, 0x81, 0x9F], [0xE3, 0x80, 0x80]]"

definition starts_with :: "u8 list \<Rightarrow> u8 list \<Rightarrow> bool" where
  "starts_with p s \<longleftrightarrow> take (length p) s = p"

function trim_start :: "u8 list list \<Rightarrow> u8 list \<Rightarrow> u8 list" where
  "trim_start ws s = (case find (\<lambda>w. w \<noteq> [] \<and> starts_with w s) ws of
     None \<Rightarrow> s | Some w \<Rightarrow> trim_start ws (drop (length w) s))"
  by pat_completeness auto
termination
proof (relation "measure (length \<circ> snd)", goal_cases)
  case (2 ws s w)
  then have "w \<noteq> []" "starts_with w s" by (auto simp: find_Some_iff)
  then have "s \<noteq> []" by (auto simp: starts_with_def)
  then show ?case using \<open>w \<noteq> []\<close> by (simp add: diff_less)
qed simp

declare trim_start.simps [simp del]

definition str_trim :: "u8 list \<Rightarrow> u8 list" where
  "str_trim s = rev (trim_start (map rev white_space) (rev (trim_start white_space s)))"

definition strip_prefix :: "u8 list \<Rightarrow> u8 list \<Rightarrow> u8 list option" where
  "strip_prefix p s = (if starts_with p s then Some (drop (length p) s) else None)"

definition hex_value :: "u8 \<Rightarrow> nat option" where
  "hex_value b = (if 48 \<le> b \<and> b \<le> 57 then Some (unat b - 48) else if 97 \<le> b \<and> b \<le> 102 then Some (unat b - 87)
     else if 65 \<le> b \<and> b \<le> 70 then Some (unat b - 55) else None)"

text \<open>\<open>u64::from_str_radix (s, 16)\<close>, which accepts a plus sign.\<close>

fun hex_digits :: "u8 list \<Rightarrow> nat \<Rightarrow> nat option" where
  "hex_digits [] acc = Some acc"
| "hex_digits (b # bs) acc = (case hex_value b of None \<Rightarrow> None
     | Some d \<Rightarrow> if acc * 16 + d < 2 ^ 64 then hex_digits bs (acc * 16 + d) else None)"

definition from_str_radix16 :: "u8 list \<Rightarrow> nat option" where
  "from_str_radix16 s = (let t = (if s \<noteq> [] \<and> hd s = 43 then tl s else s) in if t = [] then None else hex_digits t 0)"

definition libc_strtod :: "(u8 list \<Rightarrow> (f64 \<times> nat) option) \<Rightarrow> u8 list \<Rightarrow> (f64 \<times> nat) option" where
  "libc_strtod strtod s = (case strtod (takeWhile (\<lambda>b. b \<noteq> 0) s) of
     None \<Rightarrow> None | Some (x, n) \<Rightarrow> if n = 0 then None else Some (x, n))"

definition parse_hex :: "u8 list \<Rightarrow> f64 option" where
  "parse_hex trimmed = (if \<not> valid_utf8 trimmed then None
     else let h = str_trim trimmed;
              (sign, part) = (if h \<noteq> [] \<and> hd h = 45 then (f64_of_int (- 1), tl h)
                else if h \<noteq> [] \<and> hd h = 43 then (f64_of_int 1, tl h) else (f64_of_int 1, h))
       in case (case strip_prefix [48, 120] part of None \<Rightarrow> strip_prefix [48, 88] part | r \<Rightarrow> r) of
            None \<Rightarrow> None
          | Some digits \<Rightarrow> map_option (\<lambda>v. f64_mul sign (f64_of_int (int v))) (from_str_radix16 digits))"

definition str_to_number :: "platform \<Rightarrow> u8 list \<Rightarrow> f64 option" where
  "str_to_number P data = (let trimmed = dropWhile is_ascii_whitespace data in
     if trimmed = [] then None
     else case libc_strtod (p_strtod P) trimmed of None \<Rightarrow> None
       | Some (result, consumed) \<Rightarrow> (let rest = drop consumed trimmed in
           if rest \<noteq> [] \<and> (hd rest = 120 \<or> hd rest = 88) then parse_hex trimmed
           else if list_all is_ascii_whitespace rest then Some result else None))"

section \<open>Coercions\<close>

definition coerce_to_number :: "platform \<Rightarrow> heap \<Rightarrow> Val \<Rightarrow> f64 option" where
  "coerce_to_number P h v = (case v of
     VNum n \<Rightarrow> Some n
   | VStr r \<Rightarrow> Option.bind (get (h_string_arena h) r) (\<lambda>s. str_to_number P (sdata s))
   | _ \<Rightarrow> None)"

text \<open>A number that equals an integer bit for bit, or a zero.\<close>

definition exact_integer_number :: "f64 \<Rightarrow> int option" where
  "exact_integer_number n = (if \<not> is_finite n then None
     else let k = f64_to_i64 n in
       if f64_of_int k = n \<or> (k = 0 \<and> (n = f64_zero False \<or> n = f64_zero True)) then Some k else None)"

definition coerce_integer_for_loop :: "platform \<Rightarrow> heap \<Rightarrow> Val \<Rightarrow> Val \<Rightarrow> Val \<Rightarrow> (int \<times> int \<times> int) option" where
  "coerce_integer_for_loop P h init limit step =
    Option.bind (Option.bind (coerce_to_number P h init) exact_integer_number) (\<lambda>i.
    Option.bind (Option.bind (coerce_to_number P h limit) exact_integer_number) (\<lambda>l.
    Option.bind (Option.bind (coerce_to_number P h step) exact_integer_number) (\<lambda>d. Some (i, l, d))))"

definition integer_for_loop_state :: "lua \<Rightarrow> nat \<Rightarrow> (int \<times> int \<times> int) option" where
  "integer_for_loop_state s ra = (case (stack_get s ra, stack_get s (ra + 1), stack_get s (ra + 2)) of
     (VNum i, VNum l, VNum d) \<Rightarrow>
       Option.bind (exact_integer_number i) (\<lambda>i. Option.bind (exact_integer_number l) (\<lambda>l.
       Option.bind (exact_integer_number d) (\<lambda>d. Some (i, l, d))))
   | _ \<Rightarrow> None)"

definition fb2int :: "u32 \<Rightarrow> u32" where
  "fb2int x = (let e = drop_bit 3 x AND 31 in if e = 0 then x else push_bit (unat (e - 1)) ((x AND 7) + 8))"

section \<open>Table keys\<close>

datatype resolved_key = KeyStr GcRef u32 | KeyInt int | KeyOther Val

definition resolve_plain_table_key :: "heap \<Rightarrow> Val \<Rightarrow> resolved_key" where
  "resolve_plain_table_key h key = (case key of
     VStr r \<Rightarrow> (case get (h_string_arena h) r of None \<Rightarrow> KeyOther key | Some s \<Rightarrow> KeyStr r (shash s))
   | VNum n \<Rightarrow> (case exact_integer_number n of None \<Rightarrow> KeyOther key | Some k \<Rightarrow> KeyInt k)
   | _ \<Rightarrow> KeyOther key)"

text \<open>A lookup whose chain does not end has no value; valid tables have none.\<close>

definition lookup_of :: "Val tres \<Rightarrow> Val" where
  "lookup_of r = (case r of Inr v \<Rightarrow> v | Inl _ \<Rightarrow> VNil)"

definition gettable_fast_result :: "table \<Rightarrow> resolved_key \<Rightarrow> string_arena \<Rightarrow> Val" where
  "gettable_fast_result t key strings = (case key of
     KeyStr r h \<Rightarrow> lookup_of (get_str_hashed t r h)
   | KeyInt k \<Rightarrow> lookup_of (get_int t k)
   | KeyOther v \<Rightarrow> lookup_of (tget t v strings))"

section \<open>Errors\<close>

definition arith_error :: "platform \<Rightarrow> heap \<Rightarrow> Val \<Rightarrow> Val \<Rightarrow> u32 \<Rightarrow> u32 \<Rightarrow> vm_error" where
  "arith_error P h lhs rhs b_rk c_rk =
    (let first = coerce_to_number P h lhs = None; field = (if first then b_rk else c_rk)
     in if is_k field
        then ELocated (''attempt to perform arithmetic on a '' @ type_name (if first then lhs else rhs) @ '' value'')
        else ETypeErr (unat field) ''perform arithmetic on'')"

definition compare_error :: "Val \<Rightarrow> Val \<Rightarrow> vm_error" where
  "compare_error l r = ELocated (if type_name l = type_name r
     then ''attempt to compare two '' @ type_name l @ '' values''
     else ''attempt to compare '' @ type_name l @ '' with '' @ type_name r)"

end
