(* ===== verification/RuntimeOps.thy ===== *)
theory RuntimeOps
  imports ExecState
begin

text \<open>
  The helpers of the dispatch loop, \<^verbatim>\<open>src/vm/execute/runtime_ops.rs\<close>: taint of table slots and
  closures (\<^verbatim>\<open>src/stdlib/taint.rs\<close>), metamethod calls, indexing and assignment with metatables,
  comparison and concatenation. Calls of Lua and native functions go through the nested activations.
\<close>

section \<open>Taint\<close>

definition taint_string :: "u8 list \<Rightarrow> string" where "taint_string bs = map (\<lambda>b. char_of (unat b)) bs"

definition resolve_numeric_taint_key :: "f64 \<Rightarrow> int option" where
  "resolve_numeric_taint_key n = (let k = f64_to_i64 n in if f64_eq (f64_of_int k) n then Some k else None)"

definition taint_key :: "heap \<Rightarrow> Val \<Rightarrow> TaintKey option" where
  "taint_key h key = (case key of
     VStr r \<Rightarrow> map_option (\<lambda>s. TK_Str (sdata s)) (get (h_string_arena h) r)
   | VNum n \<Rightarrow> if is_finite n then map_option TK_Int (resolve_numeric_taint_key n) else None
   | _ \<Rightarrow> None)"

definition set_slot_taint :: "TaintKey \<Rightarrow> string \<Rightarrow> table \<Rightarrow> table" where
  "set_slot_taint k name t = (case k of TK_Str bs \<Rightarrow> set_slot_taint_str t bs name | TK_Int i \<Rightarrow> set_slot_taint_int t i name)"

definition get_slot_taint :: "table \<Rightarrow> TaintKey \<Rightarrow> string option" where
  "get_slot_taint t k = (case k of TK_Str bs \<Rightarrow> get_slot_taint_str t bs | TK_Int i \<Rightarrow> get_slot_taint_int t i)"

definition on_table :: "GcRef \<Rightarrow> (table \<Rightarrow> table) \<Rightarrow> vm \<Rightarrow> vm" where
  "on_table r f = on_vheap (\<lambda>h. h\<lparr>h_tables := get_mut (h_tables h) r f\<rparr>)"

definition propagate_slot_taint :: "GcRef \<Rightarrow> Val \<Rightarrow> vm \<Rightarrow> vm" where
  "propagate_slot_taint r key s = (if \<not> v_taint_mode s then s else case ci_taint (cur_ci s) of None \<Rightarrow> s
   | Some name \<Rightarrow> (case taint_key (v_heap s) key of None \<Rightarrow> s
       | Some k \<Rightarrow> on_table r (set_slot_taint k (taint_string name)) s))"

definition propagate_slot_read_taint :: "GcRef \<Rightarrow> Val \<Rightarrow> vm \<Rightarrow> vm" where
  "propagate_slot_read_taint r key s = (if \<not> v_taint_mode s \<or> ci_taint (cur_ci s) \<noteq> None then s
   else case get (h_tables (v_heap s)) r of None \<Rightarrow> s
     | Some t \<Rightarrow> (case Option.bind (taint_key (v_heap s) key) (get_slot_taint t) of None \<Rightarrow> s
         | Some name \<Rightarrow> fst (on_ci (\<lambda>c. c\<lparr>ci_taint := Some (ascii name)\<rparr>) s)))"

text \<open>The stamps of closures, in a weak table of the registry. The literals have distinct addresses.\<close>

definition CLOSURE_TAINT_KEY :: string where "CLOSURE_TAINT_KEY = ''__closure_taint''"

definition ADDR_CLOSURE_TAINT :: nat where "ADDR_CLOSURE_TAINT = 1"
definition ADDR_MODE :: nat where "ADDR_MODE = 2"
definition ADDR_K :: nat where "ADDR_K = 3"

definition decode_taint_name :: "heap \<Rightarrow> Val \<Rightarrow> rstring option" where
  "decode_taint_name h v = (case v of VStr r \<Rightarrow> map_option (\<lambda>s. utf8_lossy (sdata s)) (get (h_string_arena h) r) | _ \<Rightarrow> None)"

definition get_closure_taint :: "GcRef \<Rightarrow> vm \<Rightarrow> vm \<times> rstring option" where
  "get_closure_taint c s = (case get (h_closures (v_heap s)) c of None \<Rightarrow> (s, None)
   | Some _ \<Rightarrow> (case intern_string_static ADDR_CLOSURE_TAINT (ascii CLOSURE_TAINT_KEY) (v_heap s) of (h, key) \<Rightarrow>
      (on_vheap (\<lambda>_. h) s,
       Option.bind (get (h_tables h) (registry (v_lua s))) (\<lambda>reg. case lookup_str reg key (h_string_arena h) of
         VTable stamps \<Rightarrow> Option.bind (get (h_tables h) stamps) (\<lambda>t.
           decode_taint_name h (lookup_of (tget t (VFunction c) (h_string_arena h))))
       | _ \<Rightarrow> None))))"

definition table_raw_set :: "GcRef \<Rightarrow> Val \<Rightarrow> Val \<Rightarrow> string \<Rightarrow> unit vop" where
  "table_raw_set r k v missing s = (case get (h_tables (v_heap s)) r of None \<Rightarrow> (s, Inl (EMsg missing))
   | Some t \<Rightarrow> (case raw_set t k v (h_string_arena (v_heap s)) of (res, t1) \<Rightarrow>
       (on_table r (\<lambda>_. t1) s, case res of Inl e \<Rightarrow> Inl (table_failure e) | Inr _ \<Rightarrow> Inr ())))"

definition create_weak_closure_taint_table :: "GcRef vop" where
  "create_weak_closure_taint_table =
    vbind (heap_op (intern_string_static ADDR_MODE (ascii ''__mode''))) (\<lambda>mode.
    vbind (heap_op (intern_string_static ADDR_K (ascii ''k''))) (\<lambda>k.
    vbind (heap_op (alloc_table table_new)) (\<lambda>mt.
    vthen (table_raw_set mt (VStr mode) (VStr k) ''closure taint metatable missing'')
    (vbind (heap_op (alloc_table table_new)) (\<lambda>t.
     vthen (vmod (on_table t (\<lambda>x. set_metatable x (Some mt)))) (vret t))))))"

definition get_or_create_closure_taint_table :: "GcRef vop" where
  "get_or_create_closure_taint_table =
    vbind (heap_op (intern_string_static ADDR_CLOSURE_TAINT (ascii CLOSURE_TAINT_KEY))) (\<lambda>key.
    vbind (vget (\<lambda>s. case get (h_tables (v_heap s)) (registry (v_lua s)) of
        Some reg \<Rightarrow> (case lookup_str reg key (h_string_arena (v_heap s)) of VTable t \<Rightarrow> Some t | _ \<Rightarrow> None) | None \<Rightarrow> None)) (\<lambda>found.
    case found of Some t \<Rightarrow> vret t
    | None \<Rightarrow> vbind create_weak_closure_taint_table (\<lambda>t.
        vbind (vget (\<lambda>s. registry (v_lua s))) (\<lambda>reg.
        vthen (table_raw_set reg (VStr key) (VTable t) ''registry table missing'')
        (vthen (vmod (on_vheap (barrier_back reg))) (vret t))))))"

definition set_closure_taint :: "GcRef \<Rightarrow> rstring option \<Rightarrow> unit vop" where
  "set_closure_taint c taint s = (case get (h_closures (v_heap s)) c of
     None \<Rightarrow> (s, Inl (EMsg ''closure has been collected''))
   | Some _ \<Rightarrow> vbind get_or_create_closure_taint_table (\<lambda>t.
       vbind (case taint of None \<Rightarrow> vret VNil | Some name \<Rightarrow> vbind (heap_op (intern_string name)) (\<lambda>r. vret (VStr r))) (\<lambda>v.
       vthen (table_raw_set t (VFunction c) v ''closure taint table missing'') (vmod (on_vheap (barrier_back t))))) s)"

section \<open>Metamethods\<close>

definition get_tm_for_val :: "heap \<Rightarrow> Val \<Rightarrow> TMS \<Rightarrow> Val option" where
  "get_tm_for_val h v event = gettmbyobj v event (h_tables h) (h_string_arena h) (h_type_metatables h) (h_tm_names h) (h_userdata h)"

definition get_tm_for_table :: "heap \<Rightarrow> GcRef \<Rightarrow> TMS \<Rightarrow> Val option" where
  "get_tm_for_table h mt event = fasttm (h_tables h) (h_string_arena h) mt event (h_tm_names h)"

definition call_tm_res :: "nested \<Rightarrow> Val \<Rightarrow> Val \<Rightarrow> Val \<Rightarrow> nat \<Rightarrow> unit vop" where
  "call_tm_res N tm x y res =
    vbind (vget (\<lambda>s. l_top (v_lua s))) (\<lambda>b.
    vthen (vmod (on_vlua (\<lambda>l. (stack_set (stack_set (stack_set (ensure_stack l (b + 4)) b tm) (b + 1) x) (b + 2) y)\<lparr>l_top := b + 3\<rparr>)))
    (vthen (n_call N b 1) (vbind (reg_get b) (reg_set res))))"

definition call_tm_void :: "nested \<Rightarrow> Val \<Rightarrow> Val \<Rightarrow> Val \<Rightarrow> Val \<Rightarrow> unit vop" where
  "call_tm_void N tm x y z =
    vbind (vget (\<lambda>s. l_top (v_lua s))) (\<lambda>b.
    vthen (vmod (on_vlua (\<lambda>l. (stack_set (stack_set (stack_set (stack_set (ensure_stack l (b + 5)) b tm) (b + 1) x) (b + 2) y) (b + 3) z)\<lparr>l_top := b + 4\<rparr>)))
    (n_call N b 0))"

definition call_bin_tm :: "platform \<Rightarrow> nested \<Rightarrow> Val \<Rightarrow> Val \<Rightarrow> nat \<Rightarrow> TMS \<Rightarrow> u32 \<Rightarrow> u32 \<Rightarrow> unit vop" where
  "call_bin_tm P N lhs rhs res event b_rk c_rk s =
    (case (case get_tm_for_val (v_heap s) lhs event of None \<Rightarrow> get_tm_for_val (v_heap s) rhs event | tm \<Rightarrow> tm) of
       Some tm \<Rightarrow> call_tm_res N tm lhs rhs res s
     | None \<Rightarrow> (s, Inl (arith_error P (v_heap s) lhs rhs b_rk c_rk)))"

section \<open>Stack depth\<close>

definition MAXCALLS :: nat where "MAXCALLS = 20000"
definition MAXCCALLS_state :: nat where "MAXCCALLS_state = 200"

definition check_stack_overflow :: "unit vop" where
  "check_stack_overflow s = (let d = call_depth (v_lua s) in
     if MAXCCALLS_state \<le> d then
       (if MAXCCALLS_state + MAXCCALLS_state div 8 \<le> d then (s, Inl (EMsg ''stack overflow''))
        else if d = MAXCCALLS_state then (s, Inl (EWhere ''stack overflow'')) else (s, Inr ()))
     else (s, Inr ()))"

datatype CallResult = LuaCall | RustCall

definition finish_call :: "nested \<Rightarrow> CallResult \<Rightarrow> unit vop" where
  "finish_call N r = (case r of LuaCall \<Rightarrow> n_execute N | RustCall \<Rightarrow> vret ())"

text \<open>A call that counts toward the depth, whatever it gives.\<close>

definition with_depth :: "unit vop \<Rightarrow> unit vop" where
  "with_depth m s = (case vthen check_stack_overflow m (on_vlua (\<lambda>l. l\<lparr>call_depth := call_depth l + 1\<rparr>) s) of
     (s1, r) \<Rightarrow> (on_vlua (\<lambda>l. l\<lparr>call_depth := call_depth l - 1\<rparr>) s1, r))"

section \<open>Indexing\<close>

definition ensure_table_not_frozen :: "GcRef \<Rightarrow> unit vop" where
  "ensure_table_not_frozen r s =
    (if is_frozen (h_tables (v_heap s)) r then (s, Inl (EMsg ''attempt to modify a frozen table''))
     else if (case get (h_tables (v_heap s)) r of None \<Rightarrow> False | Some t \<Rightarrow> read_only t)
     then (s, Inl (EMsg ''attempt to modify a read-only table'')) else (s, Inr ()))"

definition try_plain_table_get_ref :: "GcRef \<Rightarrow> Val \<Rightarrow> nat \<Rightarrow> vm \<Rightarrow> vm \<times> bool" where
  "try_plain_table_get_ref r key res s = (case check_table_access (v_sec s) r (Some key) of
     Inl _ \<Rightarrow> (s, False)
   | Inr _ \<Rightarrow> (case get (h_tables (v_heap s)) r of None \<Rightarrow> (s, False)
     | Some t \<Rightarrow> (let v = gettable_fast_result t (resolve_plain_table_key (v_heap s) key) (h_string_arena (v_heap s)) in
         if is_nil v \<and> tmeta t \<noteq> None then (s, False)
         else let s1 = (if is_nil v then s else propagate_slot_read_taint r key s)
           in (on_vlua (\<lambda>l. stack_set l res v) s1, True))))"

definition try_plain_table_get :: "Val \<Rightarrow> Val \<Rightarrow> nat \<Rightarrow> vm \<Rightarrow> vm \<times> bool" where
  "try_plain_table_get t key res s = (case t of VTable r \<Rightarrow> try_plain_table_get_ref r key res s | _ \<Rightarrow> (s, False))"

definition resolve_integer_gettable_key :: "f64 \<Rightarrow> int option" where
  "resolve_integer_gettable_key n = (if \<not> is_finite n then None
     else let k = f64_to_i64 n in if f64_eq (f64_of_int k) n then Some k else None)"

definition resolve_gettable_key :: "heap \<Rightarrow> Val \<Rightarrow> resolved_key" where
  "resolve_gettable_key h key = (case key of
     VStr r \<Rightarrow> (case get (h_string_arena h) r of None \<Rightarrow> KeyOther key | Some s \<Rightarrow> KeyStr r (shash s))
   | VNum n \<Rightarrow> (case resolve_integer_gettable_key n of None \<Rightarrow> KeyOther key | Some k \<Rightarrow> KeyInt k)
   | _ \<Rightarrow> KeyOther key)"

datatype tag_step = TagDone | TagContinue Val

definition index_error :: "nat option \<Rightarrow> Val \<Rightarrow> vm_error" where
  "index_error obj_reg current = (case obj_reg of Some reg \<Rightarrow> ETypeErr reg ''index''
   | None \<Rightarrow> ELocated (''attempt to index a '' @ type_name current @ '' value''))"

definition index_tm :: "nested \<Rightarrow> Val \<Rightarrow> Val \<Rightarrow> Val \<Rightarrow> nat \<Rightarrow> tag_step vop" where
  "index_tm N tm current key res = (case tm of
     VFunction _ \<Rightarrow> vthen (call_tm_res N tm current key res) (vret TagDone) | _ \<Rightarrow> vret (TagContinue tm))"

definition handle_table_gettable :: "nested \<Rightarrow> Val \<Rightarrow> GcRef \<Rightarrow> Val \<Rightarrow> resolved_key \<Rightarrow> nat \<Rightarrow> tag_step vop" where
  "handle_table_gettable N current r key resolved res =
    vthen (sec_test (\<lambda>s. check_table_access s r (Some key))) (\<lambda>s.
    case get (h_tables (v_heap s)) r of None \<Rightarrow> (s, Inl (EMsg ''invalid table reference''))
    | Some t \<Rightarrow> (let v = gettable_fast_result t resolved (h_string_arena (v_heap s)) in
        if \<not> is_nil v then vthen (vmod (propagate_slot_read_taint r key)) (vthen (reg_set res v) (vret TagDone)) s
        else case Option.bind (tmeta t) (\<lambda>mt. get_tm_for_table (v_heap s) mt TM_Index) of
            None \<Rightarrow> vthen (reg_set res VNil) (vret TagDone) s
          | Some tm \<Rightarrow> index_tm N tm current key res s))"

definition handle_non_table_gettable :: "nested \<Rightarrow> Val \<Rightarrow> Val \<Rightarrow> nat \<Rightarrow> nat option \<Rightarrow> tag_step vop" where
  "handle_non_table_gettable N current key res obj_reg s = (case get_tm_for_val (v_heap s) current TM_Index of
     None \<Rightarrow> (s, Inl (index_error obj_reg current))
   | Some tm \<Rightarrow> index_tm N tm current key res s)"

definition gettable_step :: "nested \<Rightarrow> Val \<Rightarrow> Val \<Rightarrow> resolved_key \<Rightarrow> nat \<Rightarrow> nat option \<Rightarrow> tag_step vop" where
  "gettable_step N current key resolved res obj_reg = (case current of
     VTable r \<Rightarrow> handle_table_gettable N current r key resolved res
   | _ \<Rightarrow> handle_non_table_gettable N current key res obj_reg)"

primrec gettable_loop :: "nat \<Rightarrow> nested \<Rightarrow> Val \<Rightarrow> bool \<Rightarrow> Val \<Rightarrow> resolved_key \<Rightarrow> nat \<Rightarrow> nat option \<Rightarrow> unit vop" where
  "gettable_loop 0 N current contents_secret key resolved res obj_reg = vfail (EMsg ''loop in gettable'')"
| "gettable_loop (Suc n) N current contents_secret key resolved res obj_reg =
    vbind (sec_test (\<lambda>s. checked_secret_table_read s current)) (\<lambda>current.
    vbind (vget (\<lambda>s. contents_secret \<or> (case current of VTable r \<Rightarrow> table_wraps_contents (v_sec s) r | _ \<Rightarrow> False))) (\<lambda>secret.
    vbind (gettable_step N current key resolved res obj_reg) (\<lambda>st. case st of
      TagDone \<Rightarrow> vbind (reg_get res) (\<lambda>v. vbind (sec_op (wrap_contents_result v secret)) (reg_set res))
    | TagContinue next \<Rightarrow> gettable_loop n N next secret key resolved res obj_reg)))"

text \<open>The lookup notes whether a global name caused it, and forgets it afterwards.\<close>

definition with_gettable_provenance :: "bool \<Rightarrow> unit vop \<Rightarrow> unit vop" where
  "with_gettable_provenance global operation s =
    (case operation (on_vlua (\<lambda>l. l\<lparr>syntactic_global_lookup := global\<rparr>) s) of (s1, r) \<Rightarrow>
      (on_vlua (\<lambda>l. l\<lparr>syntactic_global_lookup := syntactic_global_lookup (v_lua s)\<rparr>) s1, r))"

definition vm_gettable :: "nested \<Rightarrow> Val \<Rightarrow> Val \<Rightarrow> nat \<Rightarrow> nat option \<Rightarrow> bool \<Rightarrow> unit vop" where
  "vm_gettable N t key res obj_reg global s = with_gettable_provenance global
     (gettable_loop MAXTAGLOOP N t False key (resolve_gettable_key (v_heap s) key) res obj_reg) s"

section \<open>Assignment\<close>

definition table_get :: "GcRef \<Rightarrow> Val \<Rightarrow> Val vop" where
  "table_get r key = vthen (sec_test (\<lambda>s. check_table_access s r (Some key))) (\<lambda>s.
     case get (h_tables (v_heap s)) r of None \<Rightarrow> (s, Inl (EMsg ''invalid table reference''))
     | Some t \<Rightarrow> (s, Inr (lookup_of (tget t key (h_string_arena (v_heap s))))))"

definition raw_set_tracked :: "GcRef \<Rightarrow> Val \<Rightarrow> Val \<Rightarrow> unit vop" where
  "raw_set_tracked r k v s = (case get (h_tables (v_heap s)) r of None \<Rightarrow> (s, Inl (EMsg ''invalid table reference''))
   | Some t \<Rightarrow> (case raw_set_with_memory_delta t k v (h_string_arena (v_heap s)) of
       (Inl e, t1) \<Rightarrow> (on_table r (\<lambda>_. t1) s, Inl (table_failure e))
     | (Inr d, t1) \<Rightarrow> (on_vheap (\<lambda>h. h\<lparr>h_gc := (h_gc h)\<lparr>total_bytes := total_bytes (h_gc h) + d\<rparr>\<rparr>) (on_table r (\<lambda>_. t1) s), Inr ())))"

definition check_alloc_limit :: "unit vop" where
  "check_alloc_limit s = (if alloc_limit_exceeded (v_heap s) then (s, Inl EMemory) else (s, Inr ()))"

definition table_set :: "GcRef \<Rightarrow> Val \<Rightarrow> Val \<Rightarrow> unit vop" where
  "table_set r key v =
    vthen (sec_test (\<lambda>s. check_table_access s r (Some key))) (vthen (ensure_table_not_frozen r)
    (vbind (sec_op (wrap_table_value r v)) (\<lambda>w.
     vthen (raw_set_tracked r key w) (vthen check_alloc_limit (vmod (on_vheap (barrier_back r)))))))"

definition raw_set_existing_slot :: "GcRef \<Rightarrow> Val \<Rightarrow> Val \<Rightarrow> unit vop" where
  "raw_set_existing_slot r key v =
    vbind (sec_op (wrap_table_value r v)) (\<lambda>w.
    vthen (table_raw_set r key w ''invalid table reference'') (vthen (vmod (on_vheap (barrier_back r)))
      (vmod (propagate_slot_taint r key))))"

definition raw_set_new_slot :: "GcRef \<Rightarrow> Val \<Rightarrow> Val \<Rightarrow> unit vop" where
  "raw_set_new_slot r key v = vthen (table_set r key v) (vmod (propagate_slot_taint r key))"

definition resolve_settable_tm :: "nested \<Rightarrow> Val \<Rightarrow> Val \<Rightarrow> Val \<Rightarrow> Val \<Rightarrow> tag_step vop" where
  "resolve_settable_tm N current key v tm = (case tm of
     VFunction _ \<Rightarrow> vthen (call_tm_void N tm current key v) (vret TagDone) | _ \<Rightarrow> vret (TagContinue tm))"

definition table_metatable :: "GcRef \<Rightarrow> GcRef option vop" where
  "table_metatable r s = (case get (h_tables (v_heap s)) r of None \<Rightarrow> (s, Inl (EMsg ''invalid table reference''))
     | Some t \<Rightarrow> (s, Inr (tmeta t)))"

definition handle_table_settable :: "nested \<Rightarrow> Val \<Rightarrow> GcRef \<Rightarrow> Val \<Rightarrow> Val \<Rightarrow> tag_step vop" where
  "handle_table_settable N current r key v =
    vthen (sec_test (\<lambda>s. check_table_access s r (Some key)))
    (vbind (table_metatable r) (\<lambda>m.
     if m = None then vthen (raw_set_new_slot r key v) (vret TagDone)
     else vbind (table_get r key) (\<lambda>old.
       if \<not> is_nil old then vthen (ensure_table_not_frozen r) (vthen (raw_set_existing_slot r key v) (vret TagDone))
       else vbind (table_metatable r) (\<lambda>m.
         vbind (vget (\<lambda>s. Option.bind m (\<lambda>mt. get_tm_for_table (v_heap s) mt TM_NewIndex))) (\<lambda>tm. case tm of
           None \<Rightarrow> vthen (ensure_table_not_frozen r) (vthen (raw_set_new_slot r key v) (vret TagDone))
         | Some tm \<Rightarrow> resolve_settable_tm N current key v tm)))))"

definition handle_non_table_settable :: "nested \<Rightarrow> Val \<Rightarrow> Val \<Rightarrow> Val \<Rightarrow> nat option \<Rightarrow> tag_step vop" where
  "handle_non_table_settable N current key v obj_reg s = (case get_tm_for_val (v_heap s) current TM_NewIndex of
     None \<Rightarrow> (s, Inl (index_error obj_reg current))
   | Some tm \<Rightarrow> resolve_settable_tm N current key v tm s)"

definition settable_step :: "nested \<Rightarrow> Val \<Rightarrow> Val \<Rightarrow> Val \<Rightarrow> nat option \<Rightarrow> tag_step vop" where
  "settable_step N current key v obj_reg = (case current of
     VTable r \<Rightarrow> handle_table_settable N current r key v
   | _ \<Rightarrow> handle_non_table_settable N current key v obj_reg)"

primrec settable_loop :: "nat \<Rightarrow> nested \<Rightarrow> Val \<Rightarrow> Val \<Rightarrow> Val \<Rightarrow> nat option \<Rightarrow> unit vop" where
  "settable_loop 0 N current key v obj_reg = vfail (EMsg ''loop in settable'')"
| "settable_loop (Suc n) N current key v obj_reg =
    vbind (settable_step N current key v obj_reg) (\<lambda>st. case st of
      TagDone \<Rightarrow> vret () | TagContinue next \<Rightarrow> settable_loop n N next key v obj_reg)"

definition vm_settable :: "nested \<Rightarrow> Val \<Rightarrow> Val \<Rightarrow> Val \<Rightarrow> nat option \<Rightarrow> unit vop" where
  "vm_settable N t key v obj_reg = settable_loop MAXTAGLOOP N t key v obj_reg"

section \<open>Comparison\<close>

definition val_equal :: "heap \<Rightarrow> Val \<Rightarrow> Val \<Rightarrow> bool" where
  "val_equal h x y = val_raw_equal x y (h_string_arena h)"

datatype ordering = Less | Equal | Greater

text \<open>Two strings are compared piece by piece between their NUL bytes.\<close>

function l_strcmp :: "platform \<Rightarrow> u8 list \<Rightarrow> u8 list \<Rightarrow> ordering" where
  "l_strcmp P l r =
    (let ln = length (takeWhile (\<lambda>b. b \<noteq> 0) l); rn = length (takeWhile (\<lambda>b. b \<noteq> 0) r);
         temp = p_strcoll P (take ln l) (take rn r)
     in if temp \<noteq> 0 then (if temp < 0 then Less else Greater)
        else if length r \<le> rn then (if length l \<le> ln then Equal else Greater)
        else if length l \<le> ln then Less
        else l_strcmp P (drop (ln + 1) l) (drop (ln + 1) r))"
  by pat_completeness auto
termination by (relation "measure (\<lambda>(P, l, r). length l)") auto

declare l_strcmp.simps [simp del]

definition same_type :: "Val \<Rightarrow> Val \<Rightarrow> bool" where
  "same_type x y \<longleftrightarrow> payload_kind x = payload_kind y"

definition call_order_tm :: "nested \<Rightarrow> (nat \<Rightarrow> int \<Rightarrow> CallResult vop) \<Rightarrow> Val \<Rightarrow> Val \<Rightarrow> TMS \<Rightarrow> bool option vop" where
  "call_order_tm N precall lhs rhs event s = (case get_tm_for_val (v_heap s) lhs event of
     None \<Rightarrow> (s, Inr None)
   | Some tm \<Rightarrow>
      (let tm2 = (case get_tm_for_val (v_heap s) rhs event of None \<Rightarrow> VNil | Some t \<Rightarrow> t) in
       if \<not> val_raw_equal tm tm2 (h_string_arena (v_heap s)) then (s, Inr None)
       else let b = l_top (v_lua s) in
         vthen (vmod (on_vlua (\<lambda>l. (stack_set (stack_set (stack_set (ensure_stack l (b + 4)) b tm) (b + 1) lhs) (b + 2) rhs)\<lparr>l_top := b + 3\<rparr>)))
         (vthen (with_depth (vbind (precall b 1) (finish_call N)))
         (vbind (reg_get b) (\<lambda>v. vbind (sec_test (\<lambda>t. checked_truthiness t v)) (\<lambda>t. vret (Some t))))) s))"

definition order_operands :: "Val \<Rightarrow> Val \<Rightarrow> (Val \<times> Val) vop" where
  "order_operands x y =
    vbind (sec_test (\<lambda>s. checked_order_operand s x)) (\<lambda>x. vbind (sec_test (\<lambda>s. checked_order_operand s y)) (\<lambda>y. vret (x, y)))"

definition compare_strings :: "platform \<Rightarrow> GcRef \<Rightarrow> GcRef \<Rightarrow> ordering vop" where
  "compare_strings P x y s = (case (get (h_string_arena (v_heap s)) x, get (h_string_arena (v_heap s)) y) of
     (Some p, Some q) \<Rightarrow> (s, Inr (l_strcmp P (sdata p) (sdata q)))
   | _ \<Rightarrow> (s, Inl (compare_error (VStr x) (VStr y))))"

definition val_less_than :: "platform \<Rightarrow> nested \<Rightarrow> (nat \<Rightarrow> int \<Rightarrow> CallResult vop) \<Rightarrow> Val \<Rightarrow> Val \<Rightarrow> bool vop" where
  "val_less_than P N precall x y = vbind (order_operands x y) (\<lambda>(x, y). case (x, y) of
     (VNum m, VNum n) \<Rightarrow> vret (f64_lt m n)
   | (VStr p, VStr q) \<Rightarrow> vbind (compare_strings P p q) (\<lambda>ord. vret (ord = Less))
   | _ \<Rightarrow> if \<not> same_type x y then vfail (compare_error x y)
       else vbind (call_order_tm N precall x y TM_Lt) (\<lambda>r. case r of Some b \<Rightarrow> vret b | None \<Rightarrow> vfail (compare_error x y)))"

definition val_less_equal :: "platform \<Rightarrow> nested \<Rightarrow> (nat \<Rightarrow> int \<Rightarrow> CallResult vop) \<Rightarrow> Val \<Rightarrow> Val \<Rightarrow> bool vop" where
  "val_less_equal P N precall x y = vbind (order_operands x y) (\<lambda>(x, y). case (x, y) of
     (VNum m, VNum n) \<Rightarrow> vret (f64_le m n)
   | (VStr p, VStr q) \<Rightarrow> vbind (compare_strings P p q) (\<lambda>ord. vret (ord \<noteq> Greater))
   | _ \<Rightarrow> if \<not> same_type x y then vfail (compare_error x y)
       else vbind (call_order_tm N precall x y TM_Le) (\<lambda>r. case r of Some b \<Rightarrow> vret b
         | None \<Rightarrow> vbind (call_order_tm N precall y x TM_Lt) (\<lambda>r. case r of Some b \<Rightarrow> vret (\<not> b)
             | None \<Rightarrow> vfail (compare_error x y))))"

section \<open>Concatenation\<close>

definition MAX_CONCAT_SIZE :: nat where "MAX_CONCAT_SIZE = 2 ^ 32 - 3"

definition is_string_or_number :: "heap \<Rightarrow> Val \<Rightarrow> bool" where
  "is_string_or_number h v \<longleftrightarrow> (case v of VNum _ \<Rightarrow> True | VStr r \<Rightarrow> get (h_string_arena h) r \<noteq> None | _ \<Rightarrow> False)"

definition val_string_len :: "platform \<Rightarrow> heap \<Rightarrow> Val \<Rightarrow> nat" where
  "val_string_len P h v = (case v of
     VStr r \<Rightarrow> (case get (h_string_arena h) r of None \<Rightarrow> 0 | Some s \<Rightarrow> length (sdata s))
   | VNum n \<Rightarrow> lua_number_string_len (p_log10_floor P) n | _ \<Rightarrow> 0)"

definition val_to_string_bytes :: "platform \<Rightarrow> heap \<Rightarrow> u8 list \<Rightarrow> Val \<Rightarrow> u8 list" where
  "val_to_string_bytes P h buffer v = (case v of
     VStr r \<Rightarrow> (case get (h_string_arena h) r of None \<Rightarrow> buffer | Some s \<Rightarrow> buffer @ sdata s)
   | VNum n \<Rightarrow> append_lua_number_bytes (p_log10_floor P) buffer n | _ \<Rightarrow> buffer)"

definition needs_concat_metamethod :: "heap \<Rightarrow> Val \<Rightarrow> Val \<Rightarrow> bool" where
  "needs_concat_metamethod h x y \<longleftrightarrow> \<not> is_string_or_number h x \<or> \<not> is_string_or_number h y"

definition concat_via_metamethod :: "nested \<Rightarrow> Val \<Rightarrow> Val \<Rightarrow> nat \<Rightarrow> nat \<Rightarrow> unit vop" where
  "concat_via_metamethod N lhs rhs res lst s =
    (case (case get_tm_for_val (v_heap s) lhs TM_Concat of None \<Rightarrow> get_tm_for_val (v_heap s) rhs TM_Concat | tm \<Rightarrow> tm) of
       Some tm \<Rightarrow> call_tm_res N tm lhs rhs res s
     | None \<Rightarrow> (s, Inl (ETypeErr (if is_string_or_number (v_heap s) lhs then lst else lst - 1) ''concatenate'')))"

text \<open>The run of strings and numbers below the top, at least two long.\<close>

function concat_run_from :: "vm \<Rightarrow> nat \<Rightarrow> nat \<Rightarrow> nat \<Rightarrow> nat" where
  "concat_run_from s tp total_values n =
    (if n < total_values \<and> is_string_or_number (v_heap s) (stack_get (v_lua s) (tp - n - 1))
     then concat_run_from s tp total_values (n + 1) else n)"
  by pat_completeness auto
termination by (relation "measure (\<lambda>(s, tp, total_values, n). total_values - n)") auto

declare concat_run_from.simps [simp del]

definition count_concat_run :: "vm \<Rightarrow> nat \<Rightarrow> nat \<Rightarrow> nat" where
  "count_concat_run s tp total_values = concat_run_from s tp total_values 2"

lemma concat_run_from_ge: "n \<le> concat_run_from s tp total_values n"
proof (induction s tp total_values n rule: concat_run_from.induct)
  case (1 s tp total_values n)
  then show ?case by (subst concat_run_from.simps) (use Suc_leD in auto)
qed

lemma count_concat_run_ge: "2 \<le> count_concat_run s tp total_values"
  by (simp add: count_concat_run_def concat_run_from_ge)

definition concat_values :: "lua \<Rightarrow> nat \<Rightarrow> nat \<Rightarrow> Val list" where
  "concat_values l tp run_len = map (\<lambda>i. stack_get l (tp - 1 - i)) (rev [0..<run_len])"

fun sum_lengths :: "nat list \<Rightarrow> nat \<Rightarrow> nat option" where
  "sum_lengths [] acc = Some acc"
| "sum_lengths (k # ks) acc = (if MAX_CONCAT_SIZE - acc \<le> k then None else sum_lengths ks (acc + k))"

definition concat_run_length :: "platform \<Rightarrow> vm \<Rightarrow> nat \<Rightarrow> nat \<Rightarrow> nat vres" where
  "concat_run_length P s tp run_len =
    (case sum_lengths (map (val_string_len P (v_heap s)) (concat_values (v_lua s) tp run_len)) 0 of
       None \<Rightarrow> Inl (ELocated ''string length overflow'') | Some k \<Rightarrow> Inr k)"

definition concat_string_run :: "platform \<Rightarrow> nat \<Rightarrow> nat \<Rightarrow> unit vop" where
  "concat_string_run P tp run_len s = (case concat_run_length P s tp run_len of
     Inl e \<Rightarrow> (s, Inl e)
   | Inr _ \<Rightarrow> vbind (heap_op (intern_string (foldl (val_to_string_bytes P (v_heap s)) [] (concat_values (v_lua s) tp run_len))))
       (\<lambda>r. reg_set (tp - run_len) (VStr r)) s)"

function concat_loop :: "platform \<Rightarrow> nested \<Rightarrow> nat \<Rightarrow> nat \<Rightarrow> nat \<Rightarrow> unit vop" where
  "concat_loop P N base total_values lst s =
    (if total_values \<le> 1 then (s, Inr ())
     else let tp = base + lst + 1; lhs = stack_get (v_lua s) (tp - 2); rhs = stack_get (v_lua s) (tp - 1) in
       if needs_concat_metamethod (v_heap s) lhs rhs
       then (case concat_via_metamethod N lhs rhs (tp - 2) lst s of
           (s1, Inl e) \<Rightarrow> (s1, Inl e)
         | (s1, Inr _) \<Rightarrow> concat_loop P N base (total_values - 1) (lst - 1) s1)
       else let k = count_concat_run s tp total_values in (case concat_string_run P tp k s of
           (s1, Inl e) \<Rightarrow> (s1, Inl e)
         | (s1, Inr _) \<Rightarrow> concat_loop P N base (total_values - (k - 1)) (lst - (k - 1)) s1))"
  by pat_completeness auto
termination
proof (relation "measure (\<lambda>(P, N, base, total_values, lst, s). total_values)", goal_cases)
  case (3 P N base total_values lst s x xa xb xc xd)
  then show ?case using count_concat_run_ge [of s x total_values] by simp
qed auto

declare concat_loop.simps [simp del]

definition vm_concat :: "platform \<Rightarrow> nested \<Rightarrow> nat \<Rightarrow> nat \<Rightarrow> nat \<Rightarrow> unit vop" where
  "vm_concat P N base b c = concat_loop P N base (c - b + 1) c"

end
