(* ===== verification/Calls.thy ===== *)
theory Calls
  imports RuntimeOps
begin

text \<open>
  The call machinery of \<^verbatim>\<open>src/vm/execute.rs\<close>: \<^verbatim>\<open>precall\<close> sets up the frame of a
  Lua function or runs a native one, \<^verbatim>\<open>poscall\<close> moves the results to the caller,
  \<^verbatim>\<open>adjust_varargs\<close> lays out the arguments of a vararg function and
  \<^verbatim>\<open>callhook\<close> runs the debug hook.
\<close>

section \<open>Stack blocks\<close>

definition ensure_stack_len :: "nat \<Rightarrow> lua \<Rightarrow> lua" where
  "ensure_stack_len n l = (if length (stack l) < n then l\<lparr>stack := vec_resize (stack l) n VNil\<rparr> else l)"

definition fill_nil :: "nat \<Rightarrow> nat \<Rightarrow> lua \<Rightarrow> lua" where
  "fill_nil a b l = l\<lparr>stack := take a (stack l) @ replicate (b - a) VNil @ drop (max a b) (stack l)\<rparr>"

text \<open>\<open>copy_within (a..b, d)\<close>, which copies as if through a buffer.\<close>

definition copy_within :: "nat \<Rightarrow> nat \<Rightarrow> nat \<Rightarrow> lua \<Rightarrow> lua" where
  "copy_within a b d l = l\<lparr>stack := take d (stack l) @ take (b - a) (drop a (stack l)) @ drop (d + (b - a)) (stack l)\<rparr>"

section \<open>Hooks\<close>

datatype HookEvent = HookCall | HookReturn | HookTailReturn | HookCount | HookLine

primrec hook_event_index :: "HookEvent \<Rightarrow> nat" where
  "hook_event_index HookCall = 0" | "hook_event_index HookReturn = 1" | "hook_event_index HookTailReturn = 2"
| "hook_event_index HookCount = 3" | "hook_event_index HookLine = 4"

definition MASK_CALL :: u8 where "MASK_CALL = 1"
definition MASK_RET :: u8 where "MASK_RET = 2"
definition MASK_LINE :: u8 where "MASK_LINE = 4"
definition MASK_COUNT :: u8 where "MASK_COUNT = 8"

definition hook_event_name :: "lua \<Rightarrow> HookEvent \<Rightarrow> Val" where
  "hook_event_name l ev = VStr (hook_event_names l ! hook_event_index ev)"

definition on_hook :: "(hook_state \<Rightarrow> hook_state) \<Rightarrow> lua \<Rightarrow> lua" where
  "on_hook f l = l\<lparr>l_hook := f (l_hook l)\<rparr>"

definition set_ci_top :: "nat \<Rightarrow> lua \<Rightarrow> lua" where
  "set_ci_top n l = l\<lparr>call_stack := (call_stack l)[l_ci l := (call_stack l ! l_ci l)\<lparr>ci_top := n\<rparr>]\<rparr>"

definition prepare_hook :: "HookEvent \<Rightarrow> int \<Rightarrow> lua \<Rightarrow> lua" where
  "prepare_hook ev line l =
    (let b = l_top l;
         l1 = on_hook (\<lambda>h. h\<lparr>allow_hook := False\<rparr>) (set_ci_top (b + LUA_MINSTACK) (ensure_stack_len (b + LUA_MINSTACK) l));
         l2 = stack_set (stack_set l1 b (hook_func (l_hook l))) (b + 1) (hook_event_name l1 ev)
     in (stack_set l2 (b + 2) (if 0 \<le> line then VNum (f64_of_int line) else VNil))\<lparr>l_top := b + 3\<rparr>)"

definition callhook :: "nested \<Rightarrow> HookEvent \<Rightarrow> int \<Rightarrow> unit vop" where
  "callhook N ev line s =
    (if \<not> allow_hook (l_hook (v_lua s)) \<or> is_nil (hook_func (l_hook (v_lua s))) then (s, Inr ())
     else let saved_top = l_top (v_lua s); saved_ci_top = ci_top (cur_ci s) in
       (case n_call N saved_top 0 (on_vlua (prepare_hook ev line) s) of
         (s1, r) \<Rightarrow> (on_vlua (\<lambda>l. (set_ci_top saved_ci_top (on_hook (\<lambda>h. h\<lparr>allow_hook := True\<rparr>) l))\<lparr>l_top := saved_top\<rparr>) s1, r)))"

section \<open>Results\<close>

text \<open>\<open>hook_times\<close>: one hook for each elided tail call; errors of these hooks are dropped.\<close>

primrec hook_times :: "nested \<Rightarrow> nat \<Rightarrow> vm \<Rightarrow> vm" where
  "hook_times N 0 s = s"
| "hook_times N (Suc n) s = hook_times N n (fst (callhook N HookTailReturn (- 1) s))"

definition return_hooks :: "nested \<Rightarrow> vm \<Rightarrow> vm" where
  "return_hooks N s = (if hook_mask (l_hook (v_lua s)) AND MASK_RET = 0 then s
     else let s1 = fst (callhook N HookReturn (- 1) s) in hook_times N (nat (ci_tail_calls (cur_ci s1))) s1)"

definition transfer_op :: "(transfer_state \<Rightarrow> transfer_state \<times> unit sres) \<Rightarrow> unit vop" where
  "transfer_op f s = (case f \<lparr>t_lua = v_lua s, t_hook = v_transfer s\<rparr> of (t, r) \<Rightarrow>
     ((on_vlua (\<lambda>_. t_lua t) s)\<lparr>v_transfer := t_hook t\<rparr>, lift_sres r))"

definition move_results :: "int \<Rightarrow> nat \<Rightarrow> nat \<Rightarrow> lua \<Rightarrow> lua" where
  "move_results wanted dest first l =
    (if wanted = LUA_MULTRET then
       (let count = l_top l - first in
        (if 0 < count \<and> first \<noteq> dest then copy_within first (l_top l) dest l else l)\<lparr>l_top := dest + count\<rparr>)
     else if wanted = 0 then l\<lparr>l_top := dest\<rparr>
     else if wanted = 1 then
       (let v = (if first < l_top l then stack l ! first else VNil)
        in l\<lparr>stack := (stack l)[dest := v], l_top := dest + 1\<rparr>)
     else
       (let w = nat wanted; available = min (l_top l - first) w;
            l1 = (if 0 < available \<and> first \<noteq> dest then copy_within first (first + available) dest l else l);
            l2 = ensure_stack_len (dest + w) l1;
            l3 = (if available < w then fill_nil (dest + available) (dest + w) l2 else l2)
        in l3\<lparr>l_top := dest + w\<rparr>))"

definition poscall :: "nested \<Rightarrow> nat \<Rightarrow> bool vop" where
  "poscall N first s0 =
    (let s = return_hooks N s0 in
     vthen (transfer_op (transfer_return_values first)) (\<lambda>s.
       let f = ci_func (cur_ci s); wanted = ci_num_results (cur_ci s);
           s1 = on_vsec pop_ci_secure s;
           s2 = on_vlua (\<lambda>l. l\<lparr>l_base := ci_base (call_stack l ! l_ci l)\<rparr>) s1
       in (on_vlua (move_results wanted f first) s2, Inr (wanted \<noteq> LUA_MULTRET))) s)"

section \<open>Arguments\<close>

definition push_nils :: "nat \<Rightarrow> lua \<Rightarrow> lua" where
  "push_nils n l = ((\<lambda>l. push l VNil) ^^ n) l"

text \<open>The table \<^verbatim>\<open>arg\<close> of Lua 5.0; failures of its assignments are ignored by the code.\<close>

definition arg_entries :: "lua \<Rightarrow> nat \<Rightarrow> nat \<Rightarrow> table" where
  "arg_entries l first nvar = fold (\<lambda>i t. snd (raw_set t (VNum (f64_of_int (int (i + 1)))) (stack_get l (first + i))
     (h_string_arena (l_heap l)))) [0..<nvar] table_new"

definition make_arg_table :: "nat \<Rightarrow> nat \<Rightarrow> lua \<Rightarrow> lua \<times> GcRef" where
  "make_arg_table first nvar l =
    (let t = arg_entries l first nvar in case intern_string (ascii ''n'') (l_heap l) of (h1, n_key) \<Rightarrow>
      (let t1 = snd (raw_set t (VStr n_key) (VNum (f64_of_int (int nvar))) (h_string_arena h1)) in
       case alloc_table t1 h1 of (h2, r) \<Rightarrow> (l\<lparr>l_heap := h2\<rparr>, r)))"

fun copy_params :: "nat \<Rightarrow> nat list \<Rightarrow> lua \<Rightarrow> lua" where
  "copy_params fixed [] l = l"
| "copy_params fixed (i # is') l =
    copy_params fixed is' (stack_set ((stack_set l (l_top l) (stack_get l (fixed + i)))\<lparr>l_top := l_top l + 1\<rparr>) (fixed + i) VNil)"

definition adjust_varargs :: "Proto \<Rightarrow> nat \<Rightarrow> lua \<Rightarrow> lua \<times> nat" where
  "adjust_varargs p nargs l0 =
    (let np = unat (pr_num_params p); l = push_nils (np - nargs) l0; actual = max nargs np;
         (l1, arg) = (if pr_is_vararg p AND VARARG_NEEDSARG \<noteq> 0
           then (case make_arg_table (l_top l - actual + np) (actual - np) l of (l, r) \<Rightarrow> (l, Some r)) else (l, None));
         fixed = l_top l1 - actual; new_base = l_top l1;
         l2 = copy_params fixed [0..<np] (ensure_stack_len (new_base + np + 1) l1);
         l3 = (case arg of None \<Rightarrow> l2 | Some r \<Rightarrow> (stack_set l2 (l_top l2) (VTable r))\<lparr>l_top := l_top l2 + 1\<rparr>)
     in (l3, new_base))"

definition fixed_args :: "Proto \<Rightarrow> nat \<Rightarrow> nat \<Rightarrow> lua \<Rightarrow> lua \<times> nat" where
  "fixed_args p nargs func_idx l0 =
    (let np = unat (pr_num_params p); new_base = func_idx + 1; fixed_top = new_base + np;
         l = ensure_stack_len (new_base + unat (pr_max_stack_size p)) l0
     in (if np < nargs then l\<lparr>l_top := fixed_top\<rparr>
         else if l_top l < fixed_top then (fill_nil (l_top l) fixed_top l)\<lparr>l_top := fixed_top\<rparr> else l, new_base))"

text \<open>The registers of the new frame, cleared above the arguments.\<close>

definition open_frame :: "nat \<Rightarrow> lua \<Rightarrow> lua" where
  "open_frame frame_top l0 = (let l = ensure_stack_len frame_top l0
     in (if l_top l < frame_top then fill_nil (l_top l) frame_top l else l)\<lparr>l_top := frame_top\<rparr>)"

definition lua_args :: "Proto \<Rightarrow> nat \<Rightarrow> lua \<Rightarrow> lua \<times> nat" where
  "lua_args p func_idx l = (let nargs = get_nargs l func_idx in
     if pr_is_vararg p AND VARARG_ISVARARG \<noteq> 0 then adjust_varargs p nargs l else fixed_args p nargs func_idx l)"

section \<open>Entering a function\<close>

definition push_frame :: "call_info \<Rightarrow> nat \<Rightarrow> vm \<Rightarrow> vm" where
  "push_frame ci base s = on_vlua (\<lambda>l. l\<lparr>l_base := base\<rparr>) (on_vsec (push_ci_secure ci) s)"

definition call_hook :: "nested \<Rightarrow> bool \<Rightarrow> unit vop" where
  "call_hook N lua_frame s = (if hook_mask (l_hook (v_lua s)) AND MASK_CALL = 0 then (s, Inr ())
     else if lua_frame then
       vthen (on_ci (\<lambda>c. c\<lparr>ci_saved_pc := ci_saved_pc c + 1\<rparr>)) (vthen (callhook N HookCall (- 1))
         (on_ci (\<lambda>c. c\<lparr>ci_saved_pc := ci_saved_pc c - 1\<rparr>))) s
     else callhook N HookCall (- 1) s)"

definition precall_lua :: "nested \<Rightarrow> lua_closure \<Rightarrow> rstring option \<Rightarrow> nat \<Rightarrow> int \<Rightarrow> CallResult vop" where
  "precall_lua N c taint func_idx num_results s =
    (let p = lc_proto c in case lua_args p func_idx (v_lua s) of (l1, new_base) \<Rightarrow>
      (let frame_top = new_base + unat (pr_max_stack_size p);
           ci = (call_info_new func_idx new_base frame_top num_results)\<lparr>ci_is_lua := True, ci_taint := taint\<rparr>;
           s1 = push_frame ci new_base (on_vlua (\<lambda>_. open_frame frame_top l1) s)
       in vthen (call_hook N True) (vret LuaCall) s1))"

definition precall_native :: "platform \<Rightarrow> nested \<Rightarrow> rust_closure \<Rightarrow> rstring option \<Rightarrow> nat \<Rightarrow> int \<Rightarrow> CallResult vop" where
  "precall_native P N c taint func_idx num_results s =
    (let frame_top = l_top (v_lua s) + LUA_MINSTACK;
         ci = (call_info_new func_idx (func_idx + 1) frame_top num_results)\<lparr>ci_taint := taint\<rparr>;
         s1 = push_frame ci (func_idx + 1) (on_vlua (ensure_stack_len frame_top) s)
     in vthen (call_hook N False)
        (vbind (p_native P (rc_func c) (n_call N)) (\<lambda>n.
         vbind (vget (\<lambda>s. l_top (v_lua s) - n)) (\<lambda>first.
         vbind (poscall N first) (\<lambda>_. vret RustCall)))) s1)"

definition precall_depth :: "unit vop" where
  "precall_depth s = (let next = l_ci (v_lua s) + 1 in
     if ci_overflow (v_lua s) then (if MAXCALLS * 2 \<le> next then (s, Inl (EMsg ''stack overflow'')) else (s, Inr ()))
     else if MAXCALLS \<le> next then (on_vlua (\<lambda>l. l\<lparr>ci_overflow := True\<rparr>) s, Inl (EWhere ''stack overflow''))
     else (s, Inr ()))"

text \<open>The values from the called one up move by one, to make room for the metamethod.\<close>

fun shift_up :: "nat \<Rightarrow> nat \<Rightarrow> lua \<Rightarrow> lua" where
  "shift_up func_idx 0 l = l"
| "shift_up func_idx (Suc k) l = shift_up func_idx k (stack_set l (func_idx + Suc k) (stack_get l (func_idx + k)))"

definition insert_call_tm :: "nat \<Rightarrow> Val \<Rightarrow> lua \<Rightarrow> lua" where
  "insert_call_tm func_idx tm l =
    (let tp = l_top l; l1 = shift_up func_idx (tp - func_idx) (ensure_stack_len (tp + 1) l)
     in stack_set (l1\<lparr>l_top := tp + 1\<rparr>) func_idx tm)"

definition call_error :: "vm \<Rightarrow> nat \<Rightarrow> Val \<Rightarrow> vm_error" where
  "call_error s func_idx v = (case stack_get (v_lua s) (ci_func (cur_ci s)) of
     VFunction r \<Rightarrow> (case get (h_closures (v_heap s)) r of
         Some (LuaC _) \<Rightarrow> ETypeErr (func_idx - ci_base (cur_ci s)) ''call''
       | _ \<Rightarrow> EMsg (''attempt to call a '' @ type_name v @ '' value''))
   | _ \<Rightarrow> EMsg (''attempt to call a '' @ type_name v @ '' value''))"

definition callee :: "nat \<Rightarrow> GcRef vop" where
  "callee func_idx s = (case stack_get (v_lua s) func_idx of
     VFunction r \<Rightarrow> (s, Inr r)
   | v \<Rightarrow> (case get_tm_for_val (v_heap s) v TM_Call of
       Some (VFunction r) \<Rightarrow> (on_vlua (insert_call_tm func_idx (VFunction r)) s, Inr r)
     | _ \<Rightarrow> (s, Inl (call_error s func_idx v))))"

definition precall :: "platform \<Rightarrow> nested \<Rightarrow> nat \<Rightarrow> int \<Rightarrow> CallResult vop" where
  "precall P N func_idx num_results =
    vthen precall_depth (vbind (callee func_idx) (\<lambda>r.
    vthen (transfer_op (transfer_call_arguments (VFunction r) (func_idx + 1))) (\<lambda>s.
    case get_closure_taint r s of (s, taint) \<Rightarrow> (case get (h_closures (v_heap s)) r of
      None \<Rightarrow> (s, Inl (EMsg ''invalid function reference''))
    | Some (LuaC c) \<Rightarrow> precall_lua N c taint func_idx num_results s
    | Some (RustC c) \<Rightarrow> precall_native P N c taint func_idx num_results s))))"

definition call_function :: "platform \<Rightarrow> nested \<Rightarrow> vcall" where
  "call_function P N func_idx num_results s =
    (case with_depth (vbind (precall P N func_idx num_results) (finish_call N))
        (on_vlua (\<lambda>l. l\<lparr>n_ccalls := n_ccalls l + 1\<rparr>) s) of
      (s1, r) \<Rightarrow> (on_vlua (\<lambda>l. l\<lparr>n_ccalls := n_ccalls l - 1\<rparr>) s1, r))"

end
