(* ===== verification/Execute.thy ===== *)
theory Execute
  imports Calls
begin

text \<open>
  The dispatch loop of \<^verbatim>\<open>src/vm/execute.rs\<close>: one operation per instruction, the checks before
  each instruction (interrupts, budgets, hooks), frames entered and left without recursion, and nested
  activations for calls out of metamethods, hooks, iterators and native code.

  The loop runs for as many instructions as its fuel; nested activations have one unit less.
\<close>

section \<open>Frames\<close>

record frame =
  f_proto :: Proto
  f_env :: GcRef
  f_closure :: GcRef

text \<open>
  After an instruction: go on at a position with a base, enter the frame on top of the call stack (one call
  deeper or not), or leave a frame, which tells whether its caller asked for a fixed number of results.
\<close>

datatype outcome = Goto nat nat | Reenter nat | Leave bool

type_synonym handler = "platform \<Rightarrow> nested \<Rightarrow> frame \<Rightarrow> Instruction \<Rightarrow> nat \<Rightarrow> nat \<Rightarrow> outcome vop"

abbreviation reg_a :: "Instruction \<Rightarrow> nat" where "reg_a i \<equiv> unat (ins_a i)"
abbreviation reg_b :: "Instruction \<Rightarrow> nat" where "reg_b i \<equiv> unat (ins_b i)"
abbreviation reg_c :: "Instruction \<Rightarrow> nat" where "reg_c i \<equiv> unat (ins_c i)"
abbreviation reg_bx :: "Instruction \<Rightarrow> nat" where "reg_bx i \<equiv> unat (ins_bx i)"

definition go :: "unit vop \<Rightarrow> nat \<Rightarrow> nat \<Rightarrow> outcome vop" where
  "go m pc base = vthen m (vret (Goto pc base))"

text \<open>\<open>((pc as i64) + d) as usize\<close>.\<close>

definition jump_pc :: "nat \<Rightarrow> int \<Rightarrow> nat" where
  "jump_pc pc d = nat ((int pc + d) mod 2 ^ 64)"

definition code_at :: "Proto \<Rightarrow> nat \<Rightarrow> Instruction vres" where
  "code_at p pc = (if pc < length (pr_code p) then Inr (Instruction (pr_code p ! pc)) else Inl EPanic)"

text \<open>The jump that follows a test.\<close>

definition test_jump :: "frame \<Rightarrow> bool \<Rightarrow> nat \<Rightarrow> nat \<Rightarrow> outcome vop" where
  "test_jump f taken pc base = (if taken
     then vbind (vlift (code_at (f_proto f) pc)) (\<lambda>j. vret (Goto (jump_pc pc (sint (ins_sbx j) + 1)) base))
     else vret (Goto (pc + 1) base))"

section \<open>Data movement\<close>

definition op_move :: handler where
  "op_move P N f i pc base = go (vbind (reg_get (base + reg_b i)) (reg_set (base + reg_a i))) pc base"

definition op_loadk :: handler where
  "op_loadk P N f i pc base =
    go (vbind (vlift (const_at (pr_constants (f_proto f)) (reg_bx i))) (reg_set (base + reg_a i))) pc base"

definition op_loadbool :: handler where
  "op_loadbool P N f i pc base =
    go (reg_set (base + reg_a i) (VBool (ins_b i \<noteq> 0))) (if ins_c i \<noteq> 0 then pc + 1 else pc) base"

definition op_loadnil :: handler where
  "op_loadnil P N f i pc base =
    go (vmod (on_vlua (\<lambda>l. fold (\<lambda>k l. stack_set l (base + k) VNil) [reg_a i ..< reg_b i + 1] l))) pc base"

section \<open>Globals and tables\<close>

definition get_or_index :: "nested \<Rightarrow> Val \<Rightarrow> Val \<Rightarrow> nat \<Rightarrow> nat option \<Rightarrow> bool \<Rightarrow> nat \<Rightarrow> unit vop" where
  "get_or_index N t key ra obj_reg global pc s = (case try_plain_table_get t key ra s of
     (s1, True) \<Rightarrow> (s1, Inr ())
   | (s1, False) \<Rightarrow> vthen (save_pc pc) (vm_gettable N t key ra obj_reg global) s1)"

definition op_getglobal :: handler where
  "op_getglobal P N f i pc base =
    go (vbind (vlift (const_at (pr_constants (f_proto f)) (reg_bx i))) (\<lambda>key.
        get_or_index N (VTable (f_env f)) key (base + reg_a i) None True pc)) pc base"

definition op_setglobal :: handler where
  "op_setglobal P N f i pc base =
    go (vbind (vlift (const_at (pr_constants (f_proto f)) (reg_bx i))) (\<lambda>key.
        vbind (reg_get (base + reg_a i)) (\<lambda>v.
        vthen (save_pc pc) (vm_settable N (VTable (f_env f)) key v None)))) pc base"

definition lookup_slot_shadow_table :: "lua \<Rightarrow> global_slot_runtime \<Rightarrow> GcRef option" where
  "lookup_slot_shadow_table l rt = Option.bind (slot_shadow_registry_key rt) (\<lambda>key.
     Option.bind (get (h_tables (l_heap l)) (registry l)) (\<lambda>reg.
     case lookup_str reg key (h_string_arena (l_heap l)) of VTable t \<Rightarrow> Some t | _ \<Rightarrow> None))"

definition get_global_slot_key :: "lua \<Rightarrow> nat \<Rightarrow> Val option" where
  "get_global_slot_key l slot = Option.bind (global_slots l) (\<lambda>rt.
     if slot < length (slot_name_keys rt) then Some (VStr (slot_name_keys rt ! slot)) else None)"

text \<open>The value of a slot is its snapshot, unless the shadow table has the name.\<close>

definition slot_value :: "global_slot_runtime \<Rightarrow> GcRef \<Rightarrow> Val \<Rightarrow> Val \<Rightarrow> nat \<Rightarrow> unit vop" where
  "slot_value rt live key snapshot ra =
    vthen (sec_test (\<lambda>s. check_table_access s live (Some key))) (\<lambda>s.
      let v = (case get (h_tables (v_heap s)) live of None \<Rightarrow> VNil
               | Some t \<Rightarrow> if array_len t = 0 \<and> hash_size t = 0 then VNil else lookup_of (tget t key (h_string_arena (v_heap s))));
          s1 = (if v = VNil then s else propagate_slot_read_taint live key s)
      in vbind (sec_op (wrap_table_value (slot_root_global rt) (if v = VNil then snapshot else v))) (reg_set ra) s1)"

definition op_getglobalslot :: handler where
  "op_getglobalslot P N f i pc base s =
    (let slot = reg_bx i; ra = base + reg_a i in case global_slots (v_lua s) of
       None \<Rightarrow> (s, Inl (ELocated ''global slot runtime missing''))
     | Some rt \<Rightarrow>
        vbind (vlift (const_at (slot_values rt) slot)) (\<lambda>snapshot.
        case get_global_slot_key (v_lua s) slot of
          None \<Rightarrow> vfail (ELocated ''global slot runtime missing'')
        | Some key \<Rightarrow>
            if f_env f \<noteq> slot_root_global rt
            then go (get_or_index N (VTable (f_env f)) key ra None True pc) pc base
            else vthen (sec_test (\<lambda>s. check_table_access s (slot_root_global rt) (Some key)))
             (go (if slot = 0 then vbind (sec_op (wrap_table_value (slot_root_global rt) snapshot)) (reg_set ra)
                  else case lookup_slot_shadow_table (v_lua s) rt of
                      None \<Rightarrow> get_or_index N (VTable (slot_root_global rt)) key ra None True pc
                    | Some live \<Rightarrow> slot_value rt live key snapshot ra) pc base)) s)"

definition op_setglobalslot :: handler where
  "op_setglobalslot P N f i pc base s = (case get_global_slot_key (v_lua s) (reg_bx i) of
     None \<Rightarrow> (s, Inl (ELocated ''global slot runtime missing''))
   | Some key \<Rightarrow> go (vbind (reg_get (base + reg_a i)) (\<lambda>v.
       vthen (save_pc pc) (vm_settable N (VTable (f_env f)) key v None))) pc base s)"

definition op_gettable :: handler where
  "op_gettable P N f i pc base =
    go (vbind (reg_get (base + reg_b i)) (\<lambda>t. vbind (rk_get (f_proto f) base (ins_c i)) (\<lambda>key.
        get_or_index N t key (base + reg_a i) (Some (reg_b i)) False pc))) pc base"

definition op_settable :: handler where
  "op_settable P N f i pc base =
    go (vbind (reg_get (base + reg_a i)) (\<lambda>t. vbind (rk_get (f_proto f) base (ins_b i)) (\<lambda>key.
        vbind (rk_get (f_proto f) base (ins_c i)) (\<lambda>v.
        vthen (save_pc pc) (vm_settable N t key v (Some (reg_a i))))))) pc base"

definition gc_check_op :: "platform \<Rightarrow> unit vop" where
  "gc_check_op P s = (case gc_check (p_gc_fuel P) (p_finalizer P) (v_lua s) of
     None \<Rightarrow> (s, Inl EFuel)
   | Some (l, r) \<Rightarrow> (on_vlua (\<lambda>_. l) s, case r of Inr _ \<Rightarrow> Inr () | Inl (Some e) \<Rightarrow> Inl e | Inl None \<Rightarrow> Inl EMemory))"

definition op_newtable :: handler where
  "op_newtable P N f i pc base =
    go (vthen (gc_check_op P)
       (vbind (heap_op (alloc_table (with_sizes (unat (fb2int (ins_b i))) (unat (fb2int (ins_c i)))))) (\<lambda>t.
        reg_set (base + reg_a i) (VTable t)))) pc base"

definition op_self :: handler where
  "op_self P N f i pc base =
    go (vbind (reg_get (base + reg_b i)) (\<lambda>t. vthen (reg_set (base + reg_a i + 1) t)
       (vbind (rk_get (f_proto f) base (ins_c i)) (\<lambda>key.
        get_or_index N t key (base + reg_a i) (Some (reg_b i)) False pc)))) pc base"

section \<open>Arithmetic\<close>

text \<open>A product and a sum, rounded once.\<close>

definition f64_mul_add :: "f64 \<Rightarrow> f64 \<Rightarrow> f64 \<Rightarrow> f64" where
  "f64_mul_add x y z =
    (let s = (f64_sign x \<noteq> f64_sign y) in
     if is_nan x \<or> is_nan y \<or> is_nan z then f64_nan
     else if is_infinite x \<or> is_infinite y then
       (if is_zero x \<or> is_zero y \<or> (is_infinite z \<and> f64_sign z \<noteq> s) then f64_nan else f64_inf s)
     else if is_infinite z then z
     else let ep = f64_exp x + f64_exp y; e = min ep (f64_exp z);
              k = f64_smant x * f64_smant y * 2 ^ nat (ep - e) + f64_smant z * 2 ^ nat (f64_exp z - e)
          in if k = 0 then f64_zero (s \<and> f64_sign z) else f64_scaled (k < 0) \<bar>k\<bar> e)"

definition op_arith :: "(f64 \<Rightarrow> f64 \<Rightarrow> f64) \<Rightarrow> TMS \<Rightarrow> handler" where
  "op_arith g event P N f i pc base =
    go (vbind (rk_get (f_proto f) base (ins_b i)) (\<lambda>b. vbind (rk_get (f_proto f) base (ins_c i)) (\<lambda>c s.
        case (coerce_to_number P (v_heap s) b, coerce_to_number P (v_heap s) c) of
          (Some x, Some y) \<Rightarrow> reg_set (base + reg_a i) (VNum (g x y)) s
        | _ \<Rightarrow> vthen (save_pc pc) (call_bin_tm P N b c (base + reg_a i) event (ins_b i) (ins_c i)) s))) pc base"

definition lua_mod :: "f64 \<Rightarrow> f64 \<Rightarrow> f64" where
  "lua_mod x y = f64_mul_add (f64_floor (f64_div x y)) (f64_neg y) x"

definition op_add :: handler where "op_add = op_arith f64_add TM_Add"
definition op_sub :: handler where "op_sub = op_arith f64_sub TM_Sub"
definition op_mul :: handler where "op_mul = op_arith f64_mul TM_Mul"
definition op_div :: handler where "op_div = op_arith f64_div TM_Div"
definition op_mod :: handler where "op_mod = op_arith lua_mod TM_Mod"
definition op_pow :: handler where "op_pow P = op_arith (p_pow P) TM_Pow P"

definition op_unm :: handler where
  "op_unm P N f i pc base =
    go (vbind (reg_get (base + reg_b i)) (\<lambda>b s. case coerce_to_number P (v_heap s) b of
         Some x \<Rightarrow> reg_set (base + reg_a i) (VNum (f64_neg x)) s
       | None \<Rightarrow> (case get_tm_for_val (v_heap s) b TM_Unm of
           Some tm \<Rightarrow> vthen (save_pc pc) (call_tm_res N tm b b (base + reg_a i)) s
         | None \<Rightarrow> (s, Inl (ETypeErr (reg_b i) ''perform arithmetic on''))))) pc base"

definition op_not :: handler where
  "op_not P N f i pc base =
    go (vbind (reg_get (base + reg_b i)) (\<lambda>b. vbind (sec_test (\<lambda>s. checked_truthiness s b)) (\<lambda>t.
        reg_set (base + reg_a i) (VBool (\<not> t))))) pc base"

definition table_length :: "table \<Rightarrow> string_arena \<Rightarrow> nat vres" where
  "table_length t strings = (case table_len (length (arr t) + length (nodes t) + 2) t strings of Inr n \<Rightarrow> Inr n | Inl e \<Rightarrow> Inl (table_failure e))"

definition op_len :: handler where
  "op_len P N f i pc base =
    go (vbind (reg_get (base + reg_b i)) (\<lambda>b s. case b of
         VStr r \<Rightarrow> (case get (h_string_arena (v_heap s)) r of
             None \<Rightarrow> (s, Inl (EMsg ''invalid string reference''))
           | Some x \<Rightarrow> reg_set (base + reg_a i) (VNum (f64_of_int (int (length (sdata x))))) s)
       | VTable r \<Rightarrow> (case get (h_tables (v_heap s)) r of
             None \<Rightarrow> (s, Inl (EMsg ''invalid table reference''))
           | Some t \<Rightarrow> vbind (vlift (table_length t (h_string_arena (v_heap s)))) (\<lambda>n.
               reg_set (base + reg_a i) (VNum (f64_of_int (int n)))) s)
       | _ \<Rightarrow> (case get_tm_for_val (v_heap s) b TM_Len of
             Some tm \<Rightarrow> vthen (save_pc pc) (call_tm_res N tm b VNil (base + reg_a i)) s
           | None \<Rightarrow> (s, Inl (ETypeErr (reg_b i) ''get length of''))))) pc base"

definition op_concat :: handler where
  "op_concat P N f i pc base =
    go (vthen (gc_check_op P) (vthen (save_pc pc) (vthen (vm_concat P N base (reg_b i) (reg_c i))
       (if reg_a i = reg_b i then vret () else vbind (reg_get (base + reg_b i)) (reg_set (base + reg_a i)))))) pc base"

section \<open>Comparison and tests\<close>

definition raw_or_eq_tm :: "nested \<Rightarrow> Val \<Rightarrow> Val \<Rightarrow> nat \<Rightarrow> bool vop" where
  "raw_or_eq_tm N b c pc s =
    (let h = v_heap s; meta = (\<lambda>m1 m2. get_comp_tm (h_tables h) (h_string_arena h) m1 m2 TM_Eq (h_tm_names h)) in
     if val_equal h b c then (s, Inr True)
     else if \<not> same_type b c then (s, Inr False)
     else case (case (b, c) of
         (VTable x, VTable y) \<Rightarrow> meta (Option.bind (get (h_tables h) x) tmeta) (Option.bind (get (h_tables h) y) tmeta)
       | (VUserdata x, VUserdata y) \<Rightarrow> meta (Option.bind (get (h_userdata h) x) ud_metatable) (Option.bind (get (h_userdata h) y) ud_metatable)
       | _ \<Rightarrow> None) of
       None \<Rightarrow> (s, Inr False)
     | Some tm \<Rightarrow> vthen (save_pc pc) (\<lambda>s. let res = l_top (v_lua s) in
         vthen (call_tm_res N tm b c res) (vbind (reg_get res) (\<lambda>v. sec_test (\<lambda>t. checked_truthiness t v))) s) s)"

definition op_eq :: handler where
  "op_eq P N f i pc base =
    vbind (rk_get (f_proto f) base (ins_b i)) (\<lambda>b. vbind (rk_get (f_proto f) base (ins_c i)) (\<lambda>c.
    vbind (sec_test (\<lambda>s. checked_secret_equality s b c)) (\<lambda>secret.
    vbind (case secret of Some e \<Rightarrow> vret e | None \<Rightarrow> raw_or_eq_tm N b c pc) (\<lambda>e.
    test_jump f (e = (ins_a i \<noteq> 0)) pc base))))"

definition op_order :: "(Val \<Rightarrow> Val \<Rightarrow> bool vop) \<Rightarrow> frame \<Rightarrow> Instruction \<Rightarrow> nat \<Rightarrow> nat \<Rightarrow> outcome vop" where
  "op_order compare f i pc base =
    vbind (rk_get (f_proto f) base (ins_b i)) (\<lambda>b. vbind (rk_get (f_proto f) base (ins_c i)) (\<lambda>c.
    vthen (save_pc pc) (vbind (compare b c) (\<lambda>r. test_jump f (r = (ins_a i \<noteq> 0)) pc base))))"

definition op_lt :: handler where "op_lt P N = op_order (val_less_than P N (precall P N))"
definition op_le :: handler where "op_le P N = op_order (val_less_equal P N (precall P N))"

definition op_test :: handler where
  "op_test P N f i pc base =
    vbind (reg_get (base + reg_a i)) (\<lambda>v. vbind (sec_test (\<lambda>s. checked_truthiness s v)) (\<lambda>t.
    test_jump f (t = (ins_c i \<noteq> 0)) pc base))"

definition op_testset :: handler where
  "op_testset P N f i pc base =
    vbind (reg_get (base + reg_b i)) (\<lambda>v. vbind (sec_test (\<lambda>s. checked_truthiness s v)) (\<lambda>t.
    let hit = (t = (ins_c i \<noteq> 0)) in
    vthen (if hit then reg_set (base + reg_a i) v else vret ()) (test_jump f hit pc base)))"

section \<open>Jumps and loops\<close>

definition op_jmp :: handler where
  "op_jmp P N f i pc base = vret (Goto (jump_pc pc (sint (ins_sbx i))) base)"

definition for_message :: "string \<Rightarrow> string" where
  "for_message m = CHR 0x27 # ''for'' @ CHR 0x27 # m"

definition for_numbers :: "platform \<Rightarrow> heap \<Rightarrow> Val \<Rightarrow> Val \<Rightarrow> Val \<Rightarrow> (f64 \<times> f64 \<times> f64) vres" where
  "for_numbers P h init limit step = (case coerce_to_number P h init of
     None \<Rightarrow> Inl (ELocated (for_message '' initial value must be a number''))
   | Some i \<Rightarrow> (case coerce_to_number P h limit of
       None \<Rightarrow> Inl (ELocated (for_message '' limit must be a number''))
     | Some l \<Rightarrow> (case coerce_to_number P h step of
         None \<Rightarrow> Inl (ELocated (for_message '' step must be a number''))
       | Some d \<Rightarrow> Inr (f64_sub i d, l, d))))"

text \<open>The difference of two integers wraps around; a build with overflow checks panics instead.\<close>

definition wrap_i64 :: "int \<Rightarrow> int" where
  "wrap_i64 k = sint (word_of_int k :: 64 word)"

definition for_prep_values :: "platform \<Rightarrow> heap \<Rightarrow> Val \<Rightarrow> Val \<Rightarrow> Val \<Rightarrow> (f64 \<times> f64 \<times> f64) vres" where
  "for_prep_values P h init limit step = (case coerce_integer_for_loop P h init limit step of
     Some (i, l, d) \<Rightarrow> Inr (f64_of_int (wrap_i64 (i - d)), f64_of_int l, f64_of_int d)
   | None \<Rightarrow> for_numbers P h init limit step)"

definition op_forprep :: handler where
  "op_forprep P N f i pc base s = (let ra = base + reg_a i; l = v_lua s in
    case for_prep_values P (v_heap s) (stack_get l ra) (stack_get l (ra + 1)) (stack_get l (ra + 2)) of
      Inl e \<Rightarrow> (s, Inl e)
    | Inr (x, y, z) \<Rightarrow> go (vthen (reg_set ra (VNum x)) (vthen (reg_set (ra + 1) (VNum y)) (reg_set (ra + 2) (VNum z))))
        (jump_pc pc (sint (ins_sbx i))) base s)"

definition for_continue :: "frame \<Rightarrow> Instruction \<Rightarrow> nat \<Rightarrow> nat \<Rightarrow> bool \<Rightarrow> f64 \<Rightarrow> outcome vop" where
  "for_continue f i pc base again x = (if again
     then go (vthen (reg_set (base + reg_a i) (VNum x)) (reg_set (base + reg_a i + 3) (VNum x))) (jump_pc pc (sint (ins_sbx i))) base
     else vret (Goto pc base))"

definition checked_add_i64 :: "int \<Rightarrow> int \<Rightarrow> int option" where
  "checked_add_i64 x y = (if I64_MIN \<le> x + y \<and> x + y \<le> I64_MAX then Some (x + y) else None)"

definition float_for_loop :: "frame \<Rightarrow> Instruction \<Rightarrow> nat \<Rightarrow> nat \<Rightarrow> outcome vop" where
  "float_for_loop f i pc base s = (let ra = base + reg_a i; l = v_lua s in
    case stack_get l (ra + 2) of
      VNum d \<Rightarrow> (case stack_get l ra of
        VNum x0 \<Rightarrow> (let x = f64_add x0 d in case stack_get l (ra + 1) of
            VNum lim \<Rightarrow> for_continue f i pc base (if f64_lt (f64_zero False) d then f64_le x lim else f64_le lim x) x s
          | _ \<Rightarrow> (s, Inl (ELocated (for_message '' limit is not a number''))))
      | _ \<Rightarrow> (s, Inl (ELocated (for_message '' index is not a number''))))
    | _ \<Rightarrow> (s, Inl (ELocated (for_message '' step is not a number''))))"

definition op_forloop :: handler where
  "op_forloop P N f i pc base s = (case integer_for_loop_state (v_lua s) (base + reg_a i) of
     Some (k, lim, d) \<Rightarrow> (case checked_add_i64 k d of
         Some k1 \<Rightarrow> for_continue f i pc base (if 0 < d then k1 \<le> lim else lim \<le> k1) (f64_of_int k1) s
       | None \<Rightarrow> float_for_loop f i pc base s)
   | None \<Rightarrow> float_for_loop f i pc base s)"

definition top_to_frame :: "unit vop" where
  "top_to_frame = vmod (\<lambda>s. on_vlua (\<lambda>l. l\<lparr>l_top := ci_top (call_stack l ! l_ci l)\<rparr>) s)"

definition op_tforloop :: handler where
  "op_tforloop P N f i pc base =
    (let ra = base + reg_a i; cb = ra + 3 in
     vthen (vmod (on_vlua (\<lambda>l. let l1 = stack_set l (cb + 2) (stack_get l (ra + 2)); l2 = stack_set l1 (cb + 1) (stack_get l1 (ra + 1))
        in (stack_set l2 cb (stack_get l2 ra))\<lparr>l_top := cb + 3\<rparr>)))
     (vthen (save_pc pc)
     (vthen (with_depth (vbind (precall P N cb (int (reg_c i))) (finish_call N)))
     (vthen top_to_frame
     (vbind (reg_get (ra + 3)) (\<lambda>control.
      if is_nil control then vret (Goto (pc + 1) base)
      else vthen (reg_set (ra + 2) control)
        (vbind (vlift (code_at (f_proto f) pc)) (\<lambda>j. vret (Goto (jump_pc pc (sint (ins_sbx j)) + 1) base)))))))))"

section \<open>Calls and returns\<close>

definition op_call :: handler where
  "op_call P N f i pc base =
    (let ra = base + reg_a i; b = reg_b i; c = reg_c i in
     vthen (if b \<noteq> 0 then set_top (ra + b) else vret ())
     (vthen (save_pc pc)
     (vbind (precall P N ra (if c = 0 then LUA_MULTRET else int c - 1)) (\<lambda>r. case r of
        LuaCall \<Rightarrow> vret (Reenter 1)
      | RustCall \<Rightarrow> vthen (if c \<noteq> 0 then top_to_frame else vret ()) (vret (Reenter 0))))))"

text \<open>The new frame takes the place of the one that made the tail call.\<close>

fun move_down :: "nat \<Rightarrow> nat \<Rightarrow> nat list \<Rightarrow> lua \<Rightarrow> lua" where
  "move_down old_func new_func [] l = l"
| "move_down old_func new_func (k # ks) l =
    move_down old_func new_func ks (stack_set l (old_func + k) (stack_get l (new_func + k)))"

definition replace_frame :: "lua \<Rightarrow> lua" where
  "replace_frame l0 =
    (let prev = l_ci l0 - 1; cs0 = call_stack l0; old_func = ci_func (cs0 ! prev); new_func = ci_func (cs0 ! l_ci l0);
         l1 = close_upvalues l0 (ci_base (cs0 ! prev));
         new_base = old_func + (ci_base (cs0 ! l_ci l0) - new_func);
         count = l_top l1 - new_func;
         l2 = move_down old_func new_func [0..<count] (l1\<lparr>l_base := new_base\<rparr>);
         new = call_stack l2 ! l_ci l2; old = call_stack l2 ! prev;
         old1 = old\<lparr>ci_base := new_base, ci_top := old_func + count, ci_saved_pc := ci_saved_pc new,
                    ci_taint := (case ci_taint new of None \<Rightarrow> ci_taint old | t \<Rightarrow> t)\<rparr>
     in l2\<lparr>l_top := old_func + count, call_stack := (call_stack l2)[prev := old1]\<rparr>)"

definition count_tail_call :: "nat \<Rightarrow> lua \<Rightarrow> lua" where
  "count_tail_call prev l = l\<lparr>call_stack := (call_stack l)[prev := (call_stack l ! prev)\<lparr>ci_tail_calls := ci_tail_calls (call_stack l ! prev) + 1\<rparr>]\<rparr>"

definition op_tailcall :: handler where
  "op_tailcall P N f i pc base =
    (let ra = base + reg_a i; b = reg_b i in
     vthen (if b \<noteq> 0 then set_top (ra + b) else vret ())
     (vthen (save_pc pc)
     (vbind (precall P N ra LUA_MULTRET) (\<lambda>r s. case r of
        LuaCall \<Rightarrow> (let prev = l_ci (v_lua s) - 1;
                        s1 = on_vsec (transfer_tail_secret_context prev) (on_vlua replace_frame s);
                        s2 = on_vsec pop_ci_secure (on_vlua (count_tail_call prev) s1)
                    in (s2, Inr (Reenter 0)))
      | RustCall \<Rightarrow> (s, Inr (Goto pc (ci_base (cur_ci s))))))))"

definition op_return :: handler where
  "op_return P N f i pc base =
    (let first = base + reg_a i; b = reg_b i in
     vthen (vmod (on_vlua (\<lambda>l. close_upvalues l base)))
     (vthen (if b \<noteq> 0 then set_top (first + b - 1) else vret ())
     (vbind (poscall N first) (\<lambda>fixed. vret (Leave fixed)))))"

section \<open>Upvalues, closures, varargs\<close>

definition own_upvalues :: "GcRef \<Rightarrow> GcRef list option vop" where
  "own_upvalues c s = (case get (h_closures (v_heap s)) c of
     None \<Rightarrow> (s, Inl (EMsg ''invalid closure''))
   | Some (LuaC lc) \<Rightarrow> (s, Inr (Some (lc_upvalues lc)))
   | Some (RustC _) \<Rightarrow> (s, Inr None))"

definition op_getupval :: handler where
  "op_getupval P N f i pc base =
    go (vbind (own_upvalues (f_closure f)) (\<lambda>ups. case ups of None \<Rightarrow> vret ()
      | Some us \<Rightarrow> vbind (vget (\<lambda>s. if reg_b i < length us
            then (case get (h_upvalues (v_heap s)) (us ! reg_b i) of None \<Rightarrow> VNil | Some u \<Rightarrow> uv_get u (stack (v_lua s)))
            else VNil)) (reg_set (base + reg_a i)))) pc base"

definition store_upvalue :: "GcRef \<Rightarrow> Val \<Rightarrow> lua \<Rightarrow> lua" where
  "store_upvalue r v l =
    (let h = l_heap l; c = color (h_upvalues h) r;
         l1 = (case get (h_upvalues h) r of None \<Rightarrow> l
           | Some u \<Rightarrow> (case uv_set u (stack l) v of (u1, st) \<Rightarrow>
               l\<lparr>stack := st, l_heap := h\<lparr>h_upvalues := get_mut (h_upvalues h) r (\<lambda>_. u1)\<rparr>\<rparr>))
     in case c of None \<Rightarrow> l1 | Some c \<Rightarrow> l1\<lparr>l_heap := barrier_forward_val c v (l_heap l1)\<rparr>)"

definition op_setupval :: handler where
  "op_setupval P N f i pc base =
    go (vbind (reg_get (base + reg_a i)) (\<lambda>v. vbind (own_upvalues (f_closure f)) (\<lambda>ups. case ups of None \<Rightarrow> vret ()
      | Some us \<Rightarrow> if reg_b i < length us then vmod (on_vlua (store_upvalue (us ! reg_b i) v)) else vret ()))) pc base"

primrec capture_upvalues :: "nat \<Rightarrow> frame \<Rightarrow> nat \<Rightarrow> nat \<Rightarrow> GcRef list \<Rightarrow> GcRef list vop" where
  "capture_upvalues 0 f pc base acc = vret acc"
| "capture_upvalues (Suc n) f pc base acc =
    vbind (vlift (code_at (f_proto f) pc)) (\<lambda>pseudo.
    if ins_opcode pseudo = Op_Move then
      vbind (\<lambda>s. case find_upvalue (v_lua s) (base + reg_b pseudo) of (l, r) \<Rightarrow> (on_vlua (\<lambda>_. l) s, Inr r)) (\<lambda>r.
      capture_upvalues n f (pc + 1) base (acc @ [r]))
    else if ins_opcode pseudo = Op_GetUpval then
      vbind (own_upvalues (f_closure f)) (\<lambda>ups. capture_upvalues n f (pc + 1) base
        (case ups of Some us \<Rightarrow> if reg_b pseudo < length us then acc @ [us ! reg_b pseudo] else acc | None \<Rightarrow> acc))
    else vfail (ELocated ''invalid pseudo-instruction after CLOSURE''))"

definition active_taint :: "lua \<Rightarrow> rstring option" where
  "active_taint l = (case List.map_filter ci_taint (rev (take (l_ci l + 1) (call_stack l))) of [] \<Rightarrow> None | t # _ \<Rightarrow> Some t)"

definition op_closure :: handler where
  "op_closure P N f i pc base =
    vthen (gc_check_op P)
    (if reg_bx i < length (pr_protos (f_proto f)) then
      (let child = pr_protos (f_proto f) ! reg_bx i; nups = unat (pr_num_upvalues child) in
       vbind (capture_upvalues nups f pc base []) (\<lambda>us.
       vbind (heap_op (alloc_closure (LuaC ((lua_closure_new child (f_env f))\<lparr>lc_upvalues := us\<rparr>)))) (\<lambda>r.
       go (vthen (reg_set (base + reg_a i) (VFunction r))
          (vbind (vget (\<lambda>s. active_taint (v_lua s))) (\<lambda>taint. case taint of None \<Rightarrow> vret () | Some t \<Rightarrow> set_closure_taint r (Some t))))
         (pc + nups) base)))
     else vfail EPanic)"

definition op_close :: handler where
  "op_close P N f i pc base = go (vmod (on_vlua (\<lambda>l. close_upvalues l (base + reg_a i)))) pc base"

fun copy_varargs :: "nat \<Rightarrow> nat \<Rightarrow> nat \<Rightarrow> nat list \<Rightarrow> lua \<Rightarrow> lua" where
  "copy_varargs start available ra [] l = l"
| "copy_varargs start available ra (k # ks) l =
    copy_varargs start available ra ks (stack_set l (ra + k) (if k < available then stack_get l (start + k) else VNil))"

definition op_vararg :: handler where
  "op_vararg P N f i pc base =
    go (vmod (on_vlua (\<lambda>l.
      let start = ci_func (call_stack l ! l_ci l) + 1 + unat (pr_num_params (f_proto f)); available = base - start;
          b = reg_b i; ra = base + reg_a i; wanted = (if b = 0 then available else b - 1);
          l1 = copy_varargs start available ra [0..<wanted] (ensure_stack l (ra + wanted))
      in if b = 0 then l1\<lparr>l_top := ra + wanted\<rparr> else l1))) pc base"

section \<open>Table constructors\<close>

primrec write_items :: "nat \<Rightarrow> GcRef \<Rightarrow> nat \<Rightarrow> nat \<Rightarrow> nat \<Rightarrow> unit vop" where
  "write_items 0 r ra offset i = vret ()"
| "write_items (Suc n) r ra offset i =
    vbind (reg_get (ra + i)) (\<lambda>v. vbind (sec_op (wrap_table_value r v)) (\<lambda>w s.
    case get (h_tables (v_heap s)) r of None \<Rightarrow> (s, Inl (EMsg ''invalid table reference''))
    | Some t \<Rightarrow> (case set_array_slot t (offset + i - 1) w of Inl e \<Rightarrow> (s, Inl (table_failure e))
        | Inr t1 \<Rightarrow> write_items n r ra offset (i + 1) (on_table r (\<lambda>_. t1) s))))"

fun set_slots :: "Val list \<Rightarrow> nat \<Rightarrow> table \<Rightarrow> table tres" where
  "set_slots [] k t = Inr t"
| "set_slots (v # vs) k t = (case set_array_slot t k v of Inl e \<Rightarrow> Inl e | Inr t1 \<Rightarrow> set_slots vs (k + 1) t1)"

definition write_setlist_array_values :: "GcRef \<Rightarrow> nat \<Rightarrow> nat \<Rightarrow> nat \<Rightarrow> unit vop" where
  "write_setlist_array_values r ra offset count =
    vthen (ensure_table_not_frozen r)
    (vbind (vget (\<lambda>s. is_secret_table (v_sec s) (VTable r))) (\<lambda>secret.
     if secret then vthen (write_items count r ra offset 1) (vmod (on_vheap (barrier_back r)))
     else (\<lambda>s. case get (h_tables (v_heap s)) r of None \<Rightarrow> (s, Inl (EMsg ''invalid table reference''))
       | Some t \<Rightarrow> (case set_slots (map (\<lambda>i. stack_get (v_lua s) (ra + i)) [1..<count + 1]) offset t of
           Inl e \<Rightarrow> (s, Inl (table_failure e))
         | Inr t1 \<Rightarrow> (on_vheap (barrier_back r) (on_table r (\<lambda>_. t1) s), Inr ())))))"

definition grow_array :: "GcRef \<Rightarrow> nat \<Rightarrow> heap \<Rightarrow> heap" where
  "grow_array r n h = (case get (h_tables h) r of None \<Rightarrow> h
   | Some t \<Rightarrow> (let t1 = ensure_array_capacity t n; d = estimated_memory t1 - estimated_memory t in
       h\<lparr>h_tables := get_mut (h_tables h) r (\<lambda>_. t1), h_gc := (h_gc h)\<lparr>total_bytes := total_bytes (h_gc h) + d\<rparr>\<rparr>))"

definition op_setlist :: handler where
  "op_setlist P N f i pc base =
    (let ra = base + reg_a i in
     vbind (if reg_b i = 0
       then (\<lambda>s. vthen top_to_frame (vret (l_top (v_lua s) - ra - 1)) s) else vret (reg_b i)) (\<lambda>n.
     vbind (if reg_c i = 0 then vbind (vlift (code_at (f_proto f) pc)) (\<lambda>w. vret (unat (raw w), pc + 1)) else vret (reg_c i, pc)) (\<lambda>(c, pc).
     vbind (reg_get ra) (\<lambda>t. case t of
       VTable r \<Rightarrow>
        vthen (sec_test (\<lambda>s. check_table_access s r None))
        (if c = 0 then vfail EPanic
         else let offset = (c - 1) * unat LFIELDS_PER_FLUSH in
           vthen (vmod (on_vheap (grow_array r (offset + n)))) (vthen check_alloc_limit
             (go (write_setlist_array_values r ra offset n) pc base)))
     | _ \<Rightarrow> vfail (ETypeErr (reg_a i) ''index'')))))"

section \<open>Dispatch\<close>

primrec dispatch :: "OpCode \<Rightarrow> handler" where
  "dispatch Op_Move = op_move" | "dispatch Op_LoadK = op_loadk" | "dispatch Op_LoadBool = op_loadbool"
| "dispatch Op_LoadNil = op_loadnil" | "dispatch Op_GetUpval = op_getupval" | "dispatch Op_GetGlobal = op_getglobal"
| "dispatch Op_GetTable = op_gettable" | "dispatch Op_SetGlobal = op_setglobal" | "dispatch Op_SetUpval = op_setupval"
| "dispatch Op_SetTable = op_settable" | "dispatch Op_NewTable = op_newtable" | "dispatch Op_OpSelf = op_self"
| "dispatch Op_Add = op_add" | "dispatch Op_Sub = op_sub" | "dispatch Op_Mul = op_mul" | "dispatch Op_Div = op_div"
| "dispatch Op_Mod = op_mod" | "dispatch Op_Pow = op_pow" | "dispatch Op_Unm = op_unm" | "dispatch Op_Not = op_not"
| "dispatch Op_Len = op_len" | "dispatch Op_Concat = op_concat" | "dispatch Op_Jmp = op_jmp" | "dispatch Op_Eq = op_eq"
| "dispatch Op_Lt = op_lt" | "dispatch Op_Le = op_le" | "dispatch Op_Test = op_test" | "dispatch Op_TestSet = op_testset"
| "dispatch Op_Call = op_call" | "dispatch Op_TailCall = op_tailcall" | "dispatch Op_Return = op_return"
| "dispatch Op_ForLoop = op_forloop" | "dispatch Op_ForPrep = op_forprep" | "dispatch Op_TForLoop = op_tforloop"
| "dispatch Op_SetList = op_setlist" | "dispatch Op_Close = op_close" | "dispatch Op_Closure = op_closure"
| "dispatch Op_VarArg = op_vararg" | "dispatch Op_GetGlobalSlot = op_getglobalslot"
| "dispatch Op_SetGlobalSlot = op_setglobalslot"

definition line_at :: "Proto \<Rightarrow> nat \<Rightarrow> int" where
  "line_at p k = (if k < length (pr_line_info p) then sint (pr_line_info p ! k) else 0)"

definition charge_meter :: "bool \<Rightarrow> nat \<Rightarrow> unit vop" where
  "charge_meter metered pc s = (if \<not> metered then (s, Inr ())
     else case charge_active (v_budgets s) of (b, Inr _) \<Rightarrow> (s\<lparr>v_budgets := b\<rparr>, Inr ())
       | (b, Inl e) \<Rightarrow> (fst (save_pc pc (s\<lparr>v_budgets := b\<rparr>)), Inl (table_failure e)))"

definition hook_yields :: "nat \<Rightarrow> unit vop" where
  "hook_yields npc = vthen (save_pc npc) (vthen (vmod (on_vlua (\<lambda>l. l\<lparr>yielded_in_hook := True\<rparr>))) (vfail (EYield 0)))"

definition count_hook :: "nested \<Rightarrow> nat \<Rightarrow> unit vop" where
  "count_hook N npc s =
    (let s1 = on_vlua (on_hook (\<lambda>h. h\<lparr>hook_count := base_hook_count h\<rparr>)) s
     in if yield_on_hook (l_hook (v_lua s1)) then hook_yields npc s1 else callhook N HookCount (- 1) s1)"

definition line_hook :: "nested \<Rightarrow> Proto \<Rightarrow> nat \<Rightarrow> nat \<Rightarrow> unit vop" where
  "line_hook N p npc old_pc s =
    (let fire = (npc = 0 \<or> npc + 1 \<le> old_pc \<or> line_at p npc \<noteq> (if old_pc = 0 then 0 else line_at p (old_pc - 1)))
     in if \<not> fire then (s, Inr ())
        else if yield_on_hook (l_hook (v_lua s)) then hook_yields npc s else callhook N HookLine (line_at p npc) s)"

text \<open>The hooks before the instruction at \<open>npc\<close>; the result is the base to go on with.\<close>

definition trace_hooks :: "nested \<Rightarrow> Proto \<Rightarrow> nat \<Rightarrow> nat \<Rightarrow> nat vop" where
  "trace_hooks N p npc base s =
    (let m = hook_mask (l_hook (v_lua s)); has_count = (m AND MASK_COUNT \<noteq> 0); has_line = (m AND MASK_LINE \<noteq> 0) in
     if \<not> has_count \<and> \<not> has_line then (s, Inr base)
     else let s1 = (if has_count then on_vlua (on_hook (\<lambda>h. h\<lparr>hook_count := hook_count h - 1\<rparr>)) s else s);
              fired = (has_count \<and> hook_count (l_hook (v_lua s1)) = 0) in
       if \<not> fired \<and> \<not> has_line then (s1, Inr base)
       else let old_pc = ci_saved_pc (cur_ci s1) in
         vthen (save_pc (npc + 1))
         (vthen (if fired then count_hook N npc else vret ())
         (vthen (if has_line then line_hook N p npc old_pc else vret ())
         (vget (\<lambda>s. l_base (v_lua s))))) s1)"

definition exec_instruction :: "platform \<Rightarrow> nested \<Rightarrow> bool \<Rightarrow> frame \<Rightarrow> nat \<Rightarrow> nat \<Rightarrow> outcome vop" where
  "exec_instruction P N metered f pc base s =
    (if length (pr_code (f_proto f)) \<le> pc then (s, Inl (ELocated ''bytecode overrun''))
     else if p_interrupted P s then (s, Inl (ELocated ''interrupted!''))
     else vthen (charge_meter metered (pc + 1))
       (vbind (trace_hooks N (f_proto f) pc base) (\<lambda>base.
        let i = Instruction (pr_code (f_proto f) ! pc) in dispatch (ins_opcode i) P N f i (pc + 1) base)) s)"

definition enter_frame :: "(frame \<times> nat \<times> nat) vop" where
  "enter_frame s = (case stack_get (v_lua s) (ci_func (cur_ci s)) of
     VFunction r \<Rightarrow> (case get (h_closures (v_heap s)) r of
         None \<Rightarrow> (s, Inl (EMsg ''invalid closure''))
       | Some (RustC _) \<Rightarrow> (s, Inl (EMsg ''expected Lua closure in execute''))
       | Some (LuaC c) \<Rightarrow> (s, Inr (\<lparr>f_proto = lc_proto c, f_env = lc_env c, f_closure = r\<rparr>, ci_saved_pc (cur_ci s), l_base (v_lua s))))
   | _ \<Rightarrow> (s, Inl (EMsg ''not a function'')))"

text \<open>
  The two loops as one: at a frame with a position and a base, or about to enter the frame on top.
\<close>

datatype exec_point = At frame nat nat | Enter

fun exec_loop :: "nat \<Rightarrow> platform \<Rightarrow> nested \<Rightarrow> bool \<Rightarrow> nat \<Rightarrow> exec_point \<Rightarrow> unit vop" where
  "exec_loop 0 P N metered depth pt s = (s, Inl EFuel)"
| "exec_loop (Suc n) P N metered depth Enter s = (case enter_frame s of
     (s1, Inl e) \<Rightarrow> (s1, Inl e)
   | (s1, Inr (f, pc, base)) \<Rightarrow> exec_loop n P N metered depth (At f pc base) s1)"
| "exec_loop (Suc n) P N metered depth (At f pc base) s = (case exec_instruction P N metered f pc base s of
     (s1, Inl e) \<Rightarrow> (s1, Inl e)
   | (s1, Inr (Goto pc1 base1)) \<Rightarrow> exec_loop n P N metered depth (At f pc1 base1) s1
   | (s1, Inr (Reenter d)) \<Rightarrow> exec_loop n P N metered (depth + d) Enter s1
   | (s1, Inr (Leave fixed)) \<Rightarrow>
       if depth \<le> 1 then (s1, Inr ())
       else exec_loop n P N metered (depth - 1) Enter (if fixed then fst (top_to_frame s1) else s1))"

definition execute :: "nat \<Rightarrow> platform \<Rightarrow> nested \<Rightarrow> unit vop" where
  "execute n P N s = exec_loop n P N (ib_active (v_budgets s) \<noteq> None) 1 Enter s"

text \<open>Calls nested in \<open>n\<close> activations.\<close>

primrec activations :: "nat \<Rightarrow> platform \<Rightarrow> nested" where
  "activations 0 P = \<lparr>n_call = \<lambda>_ _. vfail EFuel, n_execute = vfail EFuel\<rparr>"
| "activations (Suc n) P = \<lparr>n_call = call_function P (activations n P), n_execute = execute n P (activations n P)\<rparr>"

end
