(* ===== verification/FloatInts.thy ===== *)
theory FloatInts
  imports Float64
begin

text \<open>
  Doubles that are integers of at most 53 bits: their sums are exact and their order is the order of the integers.
\<close>

lemma nbits_shift: "0 < n \<Longrightarrow> nbits (n * 2 ^ j) = nbits n + int j"
proof (induction j)
  case (Suc j)
  have "0 < n * 2 ^ j" using Suc.prems by simp
  then have "nbits (n * 2 ^ j * 2) = 1 + nbits (n * 2 ^ j)" by (subst nbits.simps) simp
  then show ?case using Suc by (simp add: ac_simps)
qed simp

lemma scale_num_shift: "scale_num (n * 2 ^ j) e = scale_num n e * 2 ^ j" by (simp add: scale_num_def)

lemma round_half_even_shift: "0 < k \<Longrightarrow> round_half_even (n * k) (d * k) = round_half_even n d"
proof -
  assume k: "0 < k"
  have "2 * (n mod d * k) < d * k \<longleftrightarrow> 2 * (n mod d) < d" "d * k < 2 * (n mod d * k) \<longleftrightarrow> d < 2 * (n mod d)"
    using k mult_less_cancel_right [of "2 * (n mod d)" k d] mult_less_cancel_right [of d k "2 * (n mod d)"]
    by (simp_all add: mult.assoc)
  then show ?thesis using k by (simp add: round_half_even_def Let_def mod_mult_mult2 mult.assoc [symmetric])
qed

lemma round_mag_shift:
  assumes "0 < n" "0 < d" shows "round_mag (n * 2 ^ j) (d * 2 ^ j) = round_mag n d"
proof -
  have r: "rat_log2 (n * 2 ^ j) (d * 2 ^ j) = rat_log2 n d"
    using nbits_shift [OF assms(1)] nbits_shift [OF assms(2)] by (simp add: rat_log2_def Let_def scale_num_shift)
  show ?thesis unfolding round_mag_def r scale_num_shift by (simp add: round_half_even_shift)
qed

lemma f64_scaled_shift: "0 \<le> m \<Longrightarrow> f64_scaled s (m * 2 ^ j) (- int j) = f64_scaled s m 0"
  using round_mag_shift [of m 1 j] by (simp add: f64_scaled_def f64_round_def scale_num_def)

text \<open>An integer as a scaled mantissa.\<close>

lemma of_int_smant:
  assumes "\<bar>k\<bar> < 2 ^ 53" "e \<le> f64_exp (f64_of_int k)" "e \<le> 0"
  shows "f64_smant (f64_of_int k) * 2 ^ nat (f64_exp (f64_of_int k) - e) = k * 2 ^ nat (- e)"
proof (cases "k = 0")
  case True
  have "f64_mant (f64_of_int 0) = 0" by code_simp
  then show ?thesis using True by (simp add: f64_smant_def)
next
  case False
  then obtain l where l: "0 \<le> l" "l \<le> 52" "f64_mant (f64_of_int k) = \<bar>k\<bar> * 2 ^ nat (52 - l)"
    "f64_exp (f64_of_int k) = l - 52" "f64_sign (f64_of_int k) = (k < 0)"
    using f64_of_int_parts [of k] assms(1) by auto
  have "nat (52 - l) + nat (l - 52 - e) = nat (- e)" using l assms(2,3) by linarith
  then have "(2 :: int) ^ nat (52 - l) * 2 ^ nat (l - 52 - e) = 2 ^ nat (- e)" by (simp flip: power_add)
  moreover have "f64_smant (f64_of_int k) = k * 2 ^ nat (52 - l)" using l by (simp add: f64_smant_def)
  ultimately show ?thesis using l(4) by (simp add: mult.assoc)
qed

lemma of_int_class: "\<bar>k\<bar> < 2 ^ 53 \<Longrightarrow> \<not> is_nan (f64_of_int k) \<and> \<not> is_infinite (f64_of_int k)"
  using f64_of_int_finite [of k] by (simp add: is_finite_def is_nan_def is_infinite_def)

lemma of_int_exp: "\<bar>k\<bar> < 2 ^ 53 \<Longrightarrow> f64_exp (f64_of_int k) \<le> 0"
proof (cases "k = 0")
  case True
  have "f64_exp (f64_of_int 0) \<le> 0" by code_simp
  then show ?thesis using True by simp
next
  case False
  assume "\<bar>k\<bar> < 2 ^ 53"
  then show ?thesis using f64_of_int_parts [of k] False by auto
qed

lemma of_int_sign: "\<bar>k\<bar> < 2 ^ 53 \<Longrightarrow> f64_sign (f64_of_int k) \<longleftrightarrow> k < 0"
proof (cases "k = 0")
  case True
  have "\<not> f64_sign (f64_of_int 0)" by code_simp
  then show ?thesis using True by simp
next
  case False
  assume "\<bar>k\<bar> < 2 ^ 53"
  then show ?thesis using f64_of_int_parts [of k] False by auto
qed

lemma f64_add_int:
  assumes "\<bar>a\<bar> < 2 ^ 53" "\<bar>b\<bar> < 2 ^ 53"
  shows "f64_add (f64_of_int a) (f64_of_int b) = f64_of_int (a + b)"
proof -
  let ?x = "f64_of_int a" and ?y = "f64_of_int b"
  define e where "e = min (f64_exp ?x) (f64_exp ?y)"
  have e: "e \<le> f64_exp ?x" "e \<le> f64_exp ?y" "e \<le> 0" using of_int_exp [OF assms(1)] by (auto simp: e_def)
  have k: "f64_smant ?x * 2 ^ nat (f64_exp ?x - e) + f64_smant ?y * 2 ^ nat (f64_exp ?y - e) = (a + b) * 2 ^ nat (- e)"
    using of_int_smant [OF assms(1) e(1,3)] of_int_smant [OF assms(2) e(2,3)] by (simp add: algebra_simps)
  have r: "f64_add ?x ?y = (if (a + b) * 2 ^ nat (- e) = 0 then f64_zero (f64_sign ?x \<and> f64_sign ?y)
      else f64_scaled ((a + b) * 2 ^ nat (- e) < 0) \<bar>(a + b) * 2 ^ nat (- e)\<bar> e)"
    using of_int_class [OF assms(1)] of_int_class [OF assms(2)] unfolding f64_add_def Let_def e_def [symmetric] k by simp
  show ?thesis
  proof (cases "a + b = 0")
    case True
    have "f64_of_int 0 = f64_zero False" by code_simp
    moreover have "(f64_sign ?x \<and> f64_sign ?y) = False" using True of_int_sign assms by auto
    ultimately show ?thesis using r True by (cases "f64_sign ?x") simp_all
  next
    case False
    have "f64_add ?x ?y = f64_scaled (a + b < 0) (\<bar>a + b\<bar> * 2 ^ nat (- e)) (- int (nat (- e)))"
      using r False e(3) by (simp add: abs_mult mult_less_0_iff)
    then show ?thesis by (simp only: f64_scaled_shift abs_ge_zero f64_of_int_def)
  qed
qed

lemma f64_neg_int: "\<bar>k\<bar> < 2 ^ 53 \<Longrightarrow> k \<noteq> 0 \<Longrightarrow> f64_neg (f64_of_int k) = f64_of_int (- k)"
proof -
  assume k: "\<bar>k\<bar> < 2 ^ 53" "k \<noteq> 0"
  have bits: "f64_of_int j = f64_bits (j < 0) (round_mag \<bar>j\<bar> 1)" if "j \<noteq> 0" for j
    using that by (simp add: f64_of_int_def f64_scaled_def f64_round_def scale_num_def)
  have "f64_neg x = f64_bits (\<not> f64_sign x) (f64_mag x)" for x
  proof (rule f64_eqI)
    show "f64_sign (f64_neg x) = f64_sign (f64_bits (\<not> f64_sign x) (f64_mag x))"
      by (simp add: f64_neg_def f64_sign_def bit_xor_iff f64_sign_bits [unfolded f64_sign_def])
    have "f64_mag (f64_neg x) = f64_mag x"
      by (simp add: f64_neg_def f64_mag_def) (rule arg_cong [of _ _ uint], rule bit_word_eqI, auto simp: bit_simps)
    then show "f64_mag (f64_neg x) = f64_mag (f64_bits (\<not> f64_sign x) (f64_mag x))"
      using f64_mag_range [of x] by simp
  qed
  moreover obtain l where "round_mag \<bar>k\<bar> 1 = (l + 1022) * 2 ^ 52 + \<bar>k\<bar> * 2 ^ nat (52 - l)" "0 \<le> l" "l \<le> 52"
    "\<bar>k\<bar> * 2 ^ nat (52 - l) < 2 ^ 53"
    using round_mag_int [of "\<bar>k\<bar>"] k by auto
  then have "0 \<le> round_mag \<bar>k\<bar> 1" "round_mag \<bar>k\<bar> 1 < 2 ^ 63" by auto
  moreover have "(\<not> k < 0) = (0 < k)" using k by auto
  ultimately show ?thesis using k bits [of k] bits [of "- k"] by auto
qed

lemma f64_sub_int:
  assumes "\<bar>a\<bar> < 2 ^ 53" "\<bar>b\<bar> < 2 ^ 53" "b \<noteq> 0"
  shows "f64_sub (f64_of_int a) (f64_of_int b) = f64_of_int (a - b)"
  using f64_add_int [of a "- b"] f64_neg_int [of b] assms by (simp add: f64_sub_def)

section \<open>Order\<close>

lemma of_int_mag_mono:
  assumes "0 < j" "j < k" "k < 2 ^ 53"
  shows "f64_mag (f64_of_int j) < f64_mag (f64_of_int k)"
proof -
  have mag: "\<exists>l. 0 \<le> l \<and> l \<le> 52 \<and> f64_mag (f64_of_int i) = (l + 1022) * 2 ^ 52 + i * 2 ^ nat (52 - l)
      \<and> 2 ^ 52 \<le> i * 2 ^ nat (52 - l) \<and> i * 2 ^ nat (52 - l) < 2 ^ 53" if i: "0 < i" "i < 2 ^ 53" for i
  proof -
    from round_mag_int [OF i] obtain l where l: "0 \<le> l" "l \<le> 52" "round_mag i 1 = (l + 1022) * 2 ^ 52 + i * 2 ^ nat (52 - l)"
      "2 ^ 52 \<le> i * 2 ^ nat (52 - l)" "i * 2 ^ nat (52 - l) < 2 ^ 53" by blast
    have "f64_of_int i = f64_bits False (round_mag i 1)"
      using i by (simp add: f64_of_int_def f64_scaled_def f64_round_def scale_num_def)
    moreover have "0 \<le> round_mag i 1" "round_mag i 1 < 2 ^ 63" using l by auto
    ultimately have "f64_mag (f64_of_int i) = round_mag i 1" by simp
    then show ?thesis using l by auto
  qed
  obtain l where l: "0 \<le> l" "l \<le> 52" "f64_mag (f64_of_int j) = (l + 1022) * 2 ^ 52 + j * 2 ^ nat (52 - l)"
    "2 ^ 52 \<le> j * 2 ^ nat (52 - l)" "j * 2 ^ nat (52 - l) < 2 ^ 53" using mag [of j] assms by auto
  obtain m where m: "0 \<le> m" "m \<le> 52" "f64_mag (f64_of_int k) = (m + 1022) * 2 ^ 52 + k * 2 ^ nat (52 - m)"
    "2 ^ 52 \<le> k * 2 ^ nat (52 - m)" "k * 2 ^ nat (52 - m) < 2 ^ 53" using mag [of k] assms by auto
  have "l \<le> m"
  proof (rule ccontr)
    assume "\<not> l \<le> m"
    then have "nat (52 - m) = nat (52 - l) + 1 + (nat (l - m) - 1)" using l m by linarith
    then have "k * 2 ^ nat (52 - m) = k * 2 ^ nat (52 - l) * 2 * 2 ^ (nat (l - m) - 1)"
      by (simp only: power_add power_one_right mult.assoc)
    moreover have "2 ^ 52 \<le> k * 2 ^ nat (52 - l)"
      using l(4) assms order_trans [OF _ mult_right_mono [of j k "2 ^ nat (52 - l)"]] by simp
    then have "2 ^ 52 * 2 * 1 \<le> k * 2 ^ nat (52 - l) * 2 * 2 ^ (nat (l - m) - 1)" by (intro mult_mono) simp_all
    ultimately have "2 ^ 52 * 2 * 1 \<le> k * 2 ^ nat (52 - m)" by presburger
    then show False using m(5) by simp
  qed
  then consider "l = m" | "l + 1 \<le> m" by linarith
  then show ?thesis
  proof cases
    case 1
    then show ?thesis using l m assms by simp
  next
    case 2
    then show ?thesis using l m by simp
  qed
qed

lemma f64_key_int:
  assumes "\<bar>a\<bar> < 2 ^ 53" "\<bar>b\<bar> < 2 ^ 53" "a < b"
  shows "f64_key (f64_of_int a) < f64_key (f64_of_int b)"
proof -
  have mag: "f64_mag (f64_of_int k) = f64_mag (f64_of_int \<bar>k\<bar>)" if k: "\<bar>k\<bar> < 2 ^ 53" for k
  proof (cases "k = 0")
    case False
    obtain l where "round_mag \<bar>k\<bar> 1 = (l + 1022) * 2 ^ 52 + \<bar>k\<bar> * 2 ^ nat (52 - l)" "0 \<le> l" "l \<le> 52"
      "\<bar>k\<bar> * 2 ^ nat (52 - l) < 2 ^ 53" using round_mag_int [OF _ k] False by (meson zero_less_abs_iff)
    then have "0 \<le> round_mag \<bar>k\<bar> 1" "round_mag \<bar>k\<bar> 1 < 2 ^ 63" by auto
    then show ?thesis using False by (simp add: f64_of_int_def f64_scaled_def f64_round_def scale_num_def)
  qed simp
  have z: "f64_mag (f64_of_int 0) = 0" by code_simp
  have pos: "0 < f64_mag (f64_of_int k)" if "0 < k" "k < 2 ^ 53" for k
    using of_int_mag_mono [of 1 k] that f64_mag_range(1) [of "f64_of_int 1"]
    by (cases "k = 1") (auto simp: eval_nat_numeral intro: order_le_less_trans, code_simp)
  consider "0 \<le> a" | "a < 0" "0 \<le> b" | "b < 0" by linarith
  then show ?thesis
  proof cases
    case 1
    then show ?thesis using assms of_int_sign pos [of b] z of_int_mag_mono [of a b]
      by (cases "a = 0") (auto simp: f64_key_def)
  next
    case 2
    then show ?thesis using assms of_int_sign mag [of a] pos [of "\<bar>a\<bar>"] f64_mag_range(1) [of "f64_of_int b"]
      by (auto simp: f64_key_def)
  next
    case 3
    then show ?thesis using assms of_int_sign mag [of a] mag [of b] of_int_mag_mono [of "- b" "- a"] by (auto simp: f64_key_def)
  qed
qed

lemma f64_compare_int:
  assumes "\<bar>a\<bar> < 2 ^ 53" "\<bar>b\<bar> < 2 ^ 53"
  shows "f64_lt (f64_of_int a) (f64_of_int b) \<longleftrightarrow> a < b" "f64_le (f64_of_int a) (f64_of_int b) \<longleftrightarrow> a \<le> b"
  using of_int_class [OF assms(1)] of_int_class [OF assms(2)] f64_key_int [OF assms] f64_key_int [OF assms(2,1)]
  by (auto simp: f64_lt_def f64_le_def not_less elim: linorder_cases) (metis linorder_neqE order_less_asym not_less)+

end
