(* ===== verification/LoopProps.thy ===== *)
theory LoopProps
  imports Execute FloatInts
begin

text \<open>
  The numeric \<^verbatim>\<open>for\<close>: its integer path against its floating point path, the values the loop
  variable takes, and the wrap-around of the prepared index at the end of the integer range.
\<close>

lemma stack_get_set [simp]: "stack_get (stack_set l i v) j = (if i = j then v else stack_get l j)"
  by (auto simp: stack_get_def stack_set_def vec_resize_def Let_def nth_append nth_list_update)

lemma on_vlua_sel [simp]:
  "v_lua (on_vlua g s) = g (v_lua s)" "v_taint_mode (on_vlua g s) = v_taint_mode s" "v_budgets (on_vlua g s) = v_budgets s"
  "v_transfer (on_vlua g s) = v_transfer s" "s_contexts (v_sec (on_vlua g s)) = s_contexts (v_sec s)"
  "s_contents_policy (v_sec (on_vlua g s)) = s_contents_policy (v_sec s)"
  by (simp_all add: on_vlua_def)

lemma stack_set_sel [simp]: "l_heap (stack_set l i v) = l_heap l" "l_top (stack_set l i v) = l_top l"
  "call_stack (stack_set l i v) = call_stack l" "l_ci (stack_set l i v) = l_ci l"
  by (simp_all add: stack_set_def Let_def)

lemma vthen_regs [simp]: "vthen (reg_set i v) m s = m (on_vlua (\<lambda>l. stack_set l i v) s)"
  by (simp add: vthen_def vbind_def reg_set_def vmod_def)

lemma go_reg [simp]: "go (reg_set i v) pc base s = (on_vlua (\<lambda>l. stack_set l i v) s, Inr (Goto pc base))"
  by (simp add: go_def vret_def)

lemma go_then [simp]: "go (vthen (reg_set i v) m) pc base s = go m pc base (on_vlua (\<lambda>l. stack_set l i v) s)"
  by (simp add: go_def vthen_def vbind_def reg_set_def vmod_def)

lemma exact_integer_of_int: "\<bar>k\<bar> < 2 ^ 53 \<Longrightarrow> exact_integer_number (f64_of_int k) = Some k"
  by (simp add: exact_integer_number_def f64_of_int_finite f64_to_i64_of_int Let_def)

text \<open>The three control registers.\<close>

definition for_regs :: "vm \<Rightarrow> nat \<Rightarrow> int \<Rightarrow> int \<Rightarrow> int \<Rightarrow> bool" where
  "for_regs s ra k lim d \<longleftrightarrow> stack_get (v_lua s) ra = VNum (f64_of_int k) \<and> stack_get (v_lua s) (ra + 1) = VNum (f64_of_int lim)
     \<and> stack_get (v_lua s) (ra + 2) = VNum (f64_of_int d)"

definition small :: "int \<Rightarrow> bool" where "small k \<longleftrightarrow> \<bar>k\<bar> < 2 ^ 52"

lemma small_bound: "small k \<Longrightarrow> \<bar>k\<bar> < 2 ^ 53" by (simp add: small_def)

lemma small_sum: "small j \<Longrightarrow> small k \<Longrightarrow> \<bar>j + k\<bar> < 2 ^ 53 \<and> \<bar>j - k\<bar> < 2 ^ 53" by (auto simp: small_def)

lemma f64_zero_of_int: "f64_zero False = f64_of_int 0" by code_simp

lemma small_ints:
  assumes "small k" "small lim" "small d"
  shows "for_regs s ra k lim d \<Longrightarrow> integer_for_loop_state (v_lua s) ra = Some (k, lim, d)"
    "checked_add_i64 k d = Some (k + d)"
proof -
  show "integer_for_loop_state (v_lua s) ra = Some (k, lim, d)" if "for_regs s ra k lim d"
    using that exact_integer_of_int [OF small_bound [OF assms(1)]] exact_integer_of_int [OF small_bound [OF assms(2)]]
      exact_integer_of_int [OF small_bound [OF assms(3)]]
    by (simp add: integer_for_loop_state_def for_regs_def)
  show "checked_add_i64 k d = Some (k + d)"
    using small_sum [OF assms(1,3)] by (auto simp: checked_add_i64_def I64_MIN_def I64_MAX_def)
qed

lemma forloop_small:
  assumes "small k" "small lim" "small d" "for_regs s (base + reg_a i) k lim d"
  shows "op_forloop P N f i pc base s
    = for_continue f i pc base (if 0 < d then k + d \<le> lim else lim \<le> k + d) (f64_of_int (k + d)) s"
  using small_ints [OF assms(1,2,3)] assms(4) by (simp add: op_forloop_def)

text \<open>C17. The integer path of the numeric \<open>for\<close> does what the floating point path does: for control values that are
  integers of at most 52 bits, preparing the loop and each turn of it give the same state and go on at the same
  instruction.\<close>

theorem for_fast_path:
  assumes "small k" "small lim" "small d" "d \<noteq> 0" "for_regs s (base + reg_a i) k lim d"
  shows "op_forloop P N f i pc base s = float_for_loop f i pc base s
    \<and> for_prep_values P h (VNum (f64_of_int k)) (VNum (f64_of_int lim)) (VNum (f64_of_int d))
      = for_numbers P h (VNum (f64_of_int k)) (VNum (f64_of_int lim)) (VNum (f64_of_int d))"
proof
  note b = small_bound [OF assms(1)] small_bound [OF assms(2)] small_bound [OF assms(3)]
  note s = small_sum [OF assms(1,3)]
  have add: "f64_add (f64_of_int k) (f64_of_int d) = f64_of_int (k + d)" using b by (intro f64_add_int)
  have "f64_lt (f64_zero False) (f64_of_int d) \<longleftrightarrow> 0 < d" using f64_compare_int(1) [of 0 d] b by (simp add: f64_zero_of_int)
  moreover have "f64_le (f64_of_int (k + d)) (f64_of_int lim) \<longleftrightarrow> k + d \<le> lim"
    "f64_le (f64_of_int lim) (f64_of_int (k + d)) \<longleftrightarrow> lim \<le> k + d"
    using s b by (auto intro!: f64_compare_int(2))
  ultimately show "op_forloop P N f i pc base s = float_for_loop f i pc base s"
    using forloop_small [OF assms(1,2,3,5)] assms(5) by (simp add: float_for_loop_def Let_def for_regs_def add)
  have "wrap_i64 (k - d) = k - d"
    unfolding wrap_i64_def using s by (subst signed_of_int) (auto simp: signed_take_bit_int_eq_self_iff)
  moreover have "f64_sub (f64_of_int k) (f64_of_int d) = f64_of_int (k - d)" using b assms(4) by (intro f64_sub_int)
  ultimately show "for_prep_values P h (VNum (f64_of_int k)) (VNum (f64_of_int lim)) (VNum (f64_of_int d))
      = for_numbers P h (VNum (f64_of_int k)) (VNum (f64_of_int lim)) (VNum (f64_of_int d))"
    using exact_integer_of_int [OF b(1)] exact_integer_of_int [OF b(2)] exact_integer_of_int [OF b(3)]
    by (simp add: for_prep_values_def for_numbers_def coerce_integer_for_loop_def coerce_to_number_def)
qed

section \<open>The values of the loop variable\<close>

text \<open>The loop turns, with a body in between, and the values of the loop variable in each turn.\<close>

fun for_trace :: "nat \<Rightarrow> (vm \<Rightarrow> vm) \<Rightarrow> platform \<Rightarrow> nested \<Rightarrow> frame \<Rightarrow> Instruction \<Rightarrow> nat \<Rightarrow> nat \<Rightarrow> vm \<Rightarrow> Val list option" where
  "for_trace 0 body P N f i pc base s = None"
| "for_trace (Suc n) body P N f i pc base s = (case op_forloop P N f i pc base s of
     (s1, Inr (Goto pc1 _)) \<Rightarrow> if pc1 = pc then Some []
       else map_option (\<lambda>vs. stack_get (v_lua s1) (base + reg_a i + 3) # vs) (for_trace n body P N f i pc base (body s1))
   | _ \<Rightarrow> None)"

definition turns :: "int \<Rightarrow> int \<Rightarrow> int \<Rightarrow> nat" where
  "turns first lim d = nat ((lim - first) div d + 1)"

lemma turns_step:
  assumes "d \<noteq> 0"
  shows "turns first lim d = (if (if 0 < d then first \<le> lim else lim \<le> first) then Suc (turns (first + d) lim d) else 0)"
proof -
  have e: "(lim - first) div d = (lim - (first + d)) div d + 1"
    using assms div_add_self2 [of d "lim - (first + d)"] by (simp add: algebra_simps)
  have "(if 0 < d then first \<le> lim else lim \<le> first) \<longleftrightarrow> 0 \<le> (lim - first) div d"
    using assms pos_imp_zdiv_nonneg_iff [of d "lim - first"] neg_imp_zdiv_nonneg_iff [of d "lim - first"] by auto
  then show ?thesis using e by (auto simp: turns_def)
qed

lemma loop_trace:
  assumes "small lim" "small d" "d \<noteq> 0" "jump_pc pc (sint (ins_sbx i)) \<noteq> pc"
    "\<And>s j. j < 3 \<Longrightarrow> stack_get (v_lua (body s)) (base + reg_a i + j) = stack_get (v_lua s) (base + reg_a i + j)"
  shows "small k \<Longrightarrow> for_regs s (base + reg_a i) k lim d \<Longrightarrow> turns (k + d) lim d < n \<Longrightarrow>
    for_trace n body P N f i pc base s = Some (map (\<lambda>j. VNum (f64_of_int (k + d + int j * d))) [0..<turns (k + d) lim d])"
proof (induction n arbitrary: k s)
  case (Suc n)
  let ?ra = "base + reg_a i"
  let ?again = "if 0 < d then k + d \<le> lim else lim \<le> k + d"
  note op = forloop_small [OF Suc.prems(1) assms(1,2) Suc.prems(2), of P N f pc]
  show ?case
  proof (cases ?again)
    case False
    then have "turns (k + d) lim d = 0" using turns_step [OF assms(3), of "k + d" lim] by presburger
    then show ?thesis using False op by (simp add: for_continue_def vret_def)
  next
    case True
    then have t: "turns (k + d) lim d = Suc (turns (k + d + d) lim d)" using turns_step [OF assms(3), of "k + d" lim] by presburger
    let ?v = "VNum (f64_of_int (k + d))"
    let ?s1 = "on_vlua (\<lambda>l. stack_set l (?ra + 3) ?v) (on_vlua (\<lambda>l. stack_set l ?ra ?v) s)"
    have e: "op_forloop P N f i pc base s = (?s1, Inr (Goto (jump_pc pc (sint (ins_sbx i))) base))"
      using op True by (simp add: for_continue_def)
    have "for_regs ?s1 ?ra (k + d) lim d" using Suc.prems(2) by (simp add: for_regs_def)
    then have r: "for_regs (body ?s1) ?ra (k + d) lim d"
      using assms(5) [of 0 ?s1] assms(5) [of 1 ?s1] assms(5) [of 2 ?s1] by (simp add: for_regs_def)
    have sm: "small (k + d)" using True Suc.prems(1) assms(1,2) by (auto simp: small_def split: if_splits)
    have "for_trace n body P N f i pc base (body ?s1)
        = Some (map (\<lambda>j. VNum (f64_of_int (k + d + d + int j * d))) [0..<turns (k + d + d) lim d])"
      using Suc.IH [OF sm r] Suc.prems(3) t by simp
    moreover have "map (\<lambda>j. VNum (f64_of_int (k + d + int j * d))) [0..<Suc (turns (k + d + d) lim d)]
        = ?v # map (\<lambda>j. VNum (f64_of_int (k + d + d + int j * d))) [0..<turns (k + d + d) lim d]"
      unfolding map_upt_Suc by (simp add: algebra_simps)
    ultimately show ?thesis using e assms(4) t by simp
  qed
qed simp

text \<open>C12. A numeric \<open>for\<close> over integers of at most 51 bits runs its body for \<open>first\<close>, \<open>first + step\<close>, and so on, in
  this order, for exactly the values that do not pass the limit, and ends, whatever the body does to the rest of
  the state; a loop whose first value is past the limit does not run it.\<close>

theorem for_loop_values:
  assumes "\<bar>first\<bar> < 2 ^ 51" "\<bar>lim\<bar> < 2 ^ 51" "\<bar>d\<bar> < 2 ^ 51" "d \<noteq> 0" "for_regs s (base + reg_a i) first lim d"
    "jump_pc pc (sint (ins_sbx i)) \<noteq> pc"
    "\<And>s j. j < 3 \<Longrightarrow> stack_get (v_lua (body s)) (base + reg_a i + j) = stack_get (v_lua s) (base + reg_a i + j)"
    "reg_a i0 = reg_a i" "op_forprep P N f i0 pc0 base s = (s1, r)" "turns first lim d < n"
  shows "r = Inr (Goto (jump_pc pc0 (sint (ins_sbx i0))) base) \<and> for_trace n body P N f i pc base s1
    = Some (map (\<lambda>j. VNum (f64_of_int (first + int j * d))) [0..<turns first lim d])"
proof -
  have sm: "small first" "small lim" "small d" "small (first - d)" using assms(1-3) by (auto simp: small_def)
  note b = small_bound [OF sm(1)] small_bound [OF sm(2)] small_bound [OF sm(3)]
  have w: "wrap_i64 (first - d) = first - d"
    unfolding wrap_i64_def using sm(4) by (subst signed_of_int) (auto simp: signed_take_bit_int_eq_self_iff small_def)
  have v: "for_prep_values P h (VNum (f64_of_int first)) (VNum (f64_of_int lim)) (VNum (f64_of_int d))
      = Inr (f64_of_int (first - d), f64_of_int lim, f64_of_int d)" for h
    using exact_integer_of_int [OF b(1)] exact_integer_of_int [OF b(2)] exact_integer_of_int [OF b(3)] w
    by (simp add: for_prep_values_def coerce_integer_for_loop_def coerce_to_number_def)
  have e: "r = Inr (Goto (jump_pc pc0 (sint (ins_sbx i0))) base)" "for_regs s1 (base + reg_a i) (first - d) lim d"
    using assms(5,8,9) v by (auto simp: op_forprep_def Let_def for_regs_def)
  then show ?thesis
    using loop_trace [OF sm(2,3) assms(4,6,7) sm(4) e(2), of n P N f] assms(10) by simp
qed

text \<open>A small state and frame for examples.\<close>

definition demo_proto :: Proto where
  "demo_proto = Proto [] [] [] [] [] [] [] [] 0 0 0 0 0 2 [] []"

definition demo_frame :: frame where
  "demo_frame = \<lparr>f_proto = demo_proto, f_env = l_global lua_new, f_closure = GcRef 0 0\<rparr>"

definition demo_platform :: platform where
  "demo_platform = \<lparr>p_strtod = \<lambda>_. None, p_strcoll = \<lambda>_ _. 0, p_pow = \<lambda>x y. x, p_log10_floor = \<lambda>_. 0,
     p_interrupted = \<lambda>_. False, p_native = \<lambda>_ _. vret 0, p_finalizer = \<lambda>_ l. (l, None), p_gc_fuel = 0\<rparr>"

definition demo_vm :: vm where
  "demo_vm = \<lparr>v_sec = \<lparr>s_lua = lua_new, s_contexts = None, s_contents_policy = False\<rparr>, v_taint_mode = False,
     v_budgets = budgets_default, v_transfer = None\<rparr>"

definition demo_for :: "int \<Rightarrow> int \<Rightarrow> int \<Rightarrow> vm" where
  "demo_for k lim d = on_vlua (\<lambda>l. stack_set (stack_set (stack_set l 1 (VNum (f64_of_int k))) 2 (VNum (f64_of_int lim))) 3
     (VNum (f64_of_int d))) demo_vm"

lemma demo_for_regs: "for_regs (demo_for k lim d) (1 + reg_a (Instruction 0)) k lim d"
  by (simp add: for_regs_def demo_for_def ins_a_def)

lemma for_fast_path_witness:
  "op_forloop demo_platform (activations 0 demo_platform) demo_frame (Instruction 0) 5 1 (demo_for 1 10 4)
    = float_for_loop demo_frame (Instruction 0) 5 1 (demo_for 1 10 4)"
  using for_fast_path [of 1 10 4 "demo_for 1 10 4" 1 "Instruction 0", OF _ _ _ _ demo_for_regs] by (simp add: small_def)

lemma for_loop_values_witness:
  "for_trace 4 id demo_platform (activations 0 demo_platform) demo_frame (Instruction 0) 5 1
     (fst (op_forprep demo_platform (activations 0 demo_platform) demo_frame (Instruction 0) 2 1 (demo_for 1 10 4)))
    = Some [VNum (f64_of_int 1), VNum (f64_of_int 5), VNum (f64_of_int 9)]"
proof -
  let ?p = "op_forprep demo_platform (activations 0 demo_platform) demo_frame (Instruction 0) 2 1 (demo_for 1 10 4)"
  have j: "jump_pc 5 (sint (ins_sbx (Instruction 0))) \<noteq> 5"
    by (simp add: jump_pc_def ins_sbx_def ins_bx_def mask_values BITRK_value)
  have e: "?p = (fst ?p, snd ?p)" by simp
  have "for_trace 4 id demo_platform (activations 0 demo_platform) demo_frame (Instruction 0) 5 1 (fst ?p)
      = Some (map (\<lambda>j. VNum (f64_of_int (1 + int j * 4))) [0..<turns 1 10 4])"
    by (rule conjunct2 [OF for_loop_values [OF _ _ _ _ demo_for_regs j _ refl e]]) (simp_all add: turns_def)
  moreover have "[0..<turns 1 10 4] = [0, 1, 2]" by (simp add: turns_def upt_rec)
  ultimately show ?thesis by simp
qed

section \<open>The end of the integer range\<close>

text \<open>Preparing a loop from the least integer by 1 wraps around: the index the loop starts from is the greatest
  integer, where the floating point path has the least, so the loop is left before its first turn, and a build with
  overflow checks panics.\<close>

lemma for_prep_wraps:
  "for_prep_values P h (VNum (f64_of_int I64_MIN)) (VNum (f64_of_int 0)) (VNum (f64_of_int 1))
    = Inr (f64_of_int I64_MAX, f64_of_int 0, f64_of_int 1)
   \<and> for_numbers P h (VNum (f64_of_int I64_MIN)) (VNum (f64_of_int 0)) (VNum (f64_of_int 1))
    = Inr (f64_of_int I64_MIN, f64_of_int 0, f64_of_int 1)"
proof -
  have "exact_integer_number (f64_of_int I64_MIN) = Some I64_MIN" "exact_integer_number (f64_of_int 0) = Some 0"
    "exact_integer_number (f64_of_int 1) = Some 1" "wrap_i64 (I64_MIN - 1) = I64_MAX"
    "f64_sub (f64_of_int I64_MIN) (f64_of_int 1) = f64_of_int I64_MIN" by code_simp+
  then show ?thesis
    by (simp add: for_prep_values_def for_numbers_def coerce_integer_for_loop_def coerce_to_number_def)
qed

end
