(* ===== verification/CallProps.thy ===== *)
theory CallProps
  imports LoopProps
begin

text \<open>
  The calling convention: what a frame finds in its registers, what its caller finds after the return, how the
  extra arguments of a vararg function come back, and what a metamethod call leaves on the stack.
\<close>

section \<open>Reading the stack\<close>

definition stack_slice :: "lua \<Rightarrow> nat \<Rightarrow> nat \<Rightarrow> Val list" where
  "stack_slice l a b = map (stack_get l) [a..<b]"

lemma stack_slice_nth [simp]: "k < b - a \<Longrightarrow> stack_slice l a b ! k = stack_get l (a + k)" by (simp add: stack_slice_def)
lemma stack_slice_length [simp]: "length (stack_slice l a b) = b - a" by (simp add: stack_slice_def)

lemma stack_slice_eqI: "length vs = b - a \<Longrightarrow> (\<And>k. k < b - a \<Longrightarrow> stack_get l (a + k) = vs ! k) \<Longrightarrow> stack_slice l a b = vs"
  by (rule nth_equalityI) simp_all

lemma stack_get_top [simp]: "stack_get (l\<lparr>l_top := n\<rparr>) j = stack_get l j" "stack_get (l\<lparr>l_base := n\<rparr>) j = stack_get l j"
  "stack_get (l\<lparr>call_stack := cs\<rparr>) j = stack_get l j" "stack_get (l\<lparr>l_ci := n\<rparr>) j = stack_get l j"
  by (simp_all add: stack_get_def)

lemma stack_get_ensure [simp]: "stack_get (ensure_stack_len n l) j = stack_get l j"
  by (auto simp: ensure_stack_len_def stack_get_def vec_resize_def nth_append)

lemma ensure_stack_len_sel [simp]: "l_top (ensure_stack_len n l) = l_top l" "l_heap (ensure_stack_len n l) = l_heap l"
  "call_stack (ensure_stack_len n l) = call_stack l" "l_ci (ensure_stack_len n l) = l_ci l"
  "length (stack (ensure_stack_len n l)) = max n (length (stack l))"
  by (auto simp: ensure_stack_len_def vec_resize_def)

lemma stack_get_fill: "a \<le> length (stack l) \<Longrightarrow> stack_get (fill_nil a b l) j = (if a \<le> j \<and> j < b then VNil else stack_get l j)"
  by (auto simp: fill_nil_def stack_get_def nth_append max_def)

lemma fill_nil_sel [simp]: "l_top (fill_nil a b l) = l_top l" "l_heap (fill_nil a b l) = l_heap l"
  "call_stack (fill_nil a b l) = call_stack l" "l_ci (fill_nil a b l) = l_ci l"
  by (simp_all add: fill_nil_def)

lemma copy_within_length:
  assumes "a \<le> b" "b \<le> length (stack l)" "d + (b - a) \<le> length (stack l)"
  shows "length (stack (copy_within a b d l)) = length (stack l)" "length (take d (stack l)) = d"
    "length (take (b - a) (drop a (stack l))) = b - a"
proof -
  show d: "length (take d (stack l)) = d" "length (take (b - a) (drop a (stack l))) = b - a" using assms by simp_all
  have "stack (copy_within a b d l) = take d (stack l) @ take (b - a) (drop a (stack l)) @ drop (d + (b - a)) (stack l)"
    by (simp add: copy_within_def)
  then show "length (stack (copy_within a b d l)) = length (stack l)"
    by (simp only: length_append d length_drop) (use assms(3) in linarith)
qed

lemma stack_get_copy:
  assumes "a \<le> b" "b \<le> length (stack l)" "d + (b - a) \<le> length (stack l)"
  shows "stack_get (copy_within a b d l) j = (if d \<le> j \<and> j < d + (b - a) then stack_get l (a + (j - d)) else stack_get l j)"
proof -
  let ?xs = "stack l" and ?n = "b - a"
  note d = copy_within_length(2,3) [OF assms]
  have len: "length (take d ?xs @ take ?n (drop a ?xs) @ drop (d + ?n) ?xs) = length ?xs"
    using copy_within_length(1) [OF assms] by (simp add: copy_within_def)
  consider "j < d" | "d \<le> j" "j < d + ?n" | "d + ?n \<le> j" by linarith
  then show ?thesis
  proof cases
    case 1
    then show ?thesis using assms d len by (simp add: stack_get_def copy_within_def nth_append)
  next
    case 2
    then have "j - d < b - a" "a + (j - d) < length ?xs" "j < length ?xs" using assms by linarith+
    then show ?thesis using 2 assms d len by (simp add: stack_get_def copy_within_def nth_append)
  next
    case 3
    then have "\<not> j - d < b - a" "\<not> j < d" "d + (b - a) + (j - d - (b - a)) = j" using assms by linarith+
    then show ?thesis using 3 assms d len by (simp add: stack_get_def copy_within_def nth_append)
  qed
qed

lemma copy_within_sel [simp]: "l_top (copy_within a b d l) = l_top l" "l_heap (copy_within a b d l) = l_heap l"
  "call_stack (copy_within a b d l) = call_stack l" "l_ci (copy_within a b d l) = l_ci l"
  by (simp_all add: copy_within_def)

section \<open>Returning\<close>

definition result_count :: "int \<Rightarrow> nat \<Rightarrow> nat" where
  "result_count wanted available = (if wanted = LUA_MULTRET then available else nat wanted)"

lemma move_results_spec:
  assumes "dest \<le> first" "first \<le> l_top l" "l_top l \<le> length (stack l)" "dest < length (stack l)" "- 1 \<le> wanted"
  defines "n \<equiv> result_count wanted (l_top l - first)"
  shows "l_top (move_results wanted dest first l) = dest + n"
    and "stack_slice (move_results wanted dest first l) dest (dest + n) = take n (stack_slice l first (l_top l) @ replicate n VNil)"
    and "\<And>j. j < dest \<Longrightarrow> stack_get (move_results wanted dest first l) j = stack_get l j"
    and "call_stack (move_results wanted dest first l) = call_stack l" "l_ci (move_results wanted dest first l) = l_ci l"
    and "l_heap (move_results wanted dest first l) = l_heap l"
proof -
  let ?m = "move_results wanted dest first l" and ?av = "l_top l - first"
  have res: "l_top ?m = dest + n \<and> (\<forall>k < n. stack_get ?m (dest + k) = (if k < ?av then stack_get l (first + k) else VNil))
      \<and> (\<forall>j < dest. stack_get ?m j = stack_get l j) \<and> call_stack ?m = call_stack l \<and> l_ci ?m = l_ci l \<and> l_heap ?m = l_heap l"
  proof -
    consider "wanted = - 1" | "wanted = 0" | "wanted = 1" | "2 \<le> wanted" using assms(5) by linarith
    then show ?thesis
    proof cases
      case 1
      then show ?thesis using assms(1-4)
        by (auto simp: move_results_def LUA_MULTRET_def n_def result_count_def Let_def stack_get_copy)
    next
      case 2
      then show ?thesis by (simp add: move_results_def LUA_MULTRET_def n_def result_count_def)
    next
      case 3
      then show ?thesis using assms(1-4)
        by (auto simp: move_results_def LUA_MULTRET_def n_def result_count_def Let_def stack_get_def)
    next
      case 4
      define w where "w = nat wanted"
      define av where "av = min ?av w"
      have w: "wanted \<noteq> - 1" "wanted \<noteq> 0" "wanted \<noteq> 1" "n = w" using 4 by (simp_all add: n_def result_count_def LUA_MULTRET_def w_def)
      define l1 where "l1 = (if 0 < av \<and> first \<noteq> dest then copy_within first (first + av) dest l else l)"
      have b: "first + av \<le> length (stack l)" "dest + av \<le> length (stack l)" using assms(1-3) by (auto simp: av_def)
      have g1: "stack_get l1 j = (if dest \<le> j \<and> j < dest + av then stack_get l (first + (j - dest)) else stack_get l j)" for j
        using b by (auto simp: l1_def stack_get_copy)
      have s1: "l_top l1 = l_top l" "l_heap l1 = l_heap l" "call_stack l1 = call_stack l" "l_ci l1 = l_ci l" "length (stack l1) = length (stack l)"
        using b by (simp_all add: l1_def copy_within_length)
      define l2 where "l2 = ensure_stack_len (dest + w) l1"
      define l3 where "l3 = (if av < w then fill_nil (dest + av) (dest + w) l2 else l2)"
      have g3: "stack_get l3 j = (if av < w \<and> dest + av \<le> j \<and> j < dest + w then VNil else stack_get l1 j)" for j
        using b s1 by (auto simp: l3_def l2_def stack_get_fill)
      have m: "?m = l3\<lparr>l_top := dest + w\<rparr>"
        using w unfolding move_results_def LUA_MULTRET_def l3_def l2_def l1_def av_def w_def Let_def by simp
      have up: "stack_get l3 (dest + k) = (if k < ?av then stack_get l (first + k) else VNil)" if "k < w" for k
      proof (cases "k < av")
        case True
        then have "k < ?av" by (simp add: av_def)
        then show ?thesis using True by (simp add: g3 g1)
      next
        case False
        then have "\<not> k < ?av" "av < w" using that by (simp_all add: av_def)
        then show ?thesis using False that by (simp add: g3)
      qed
      moreover have "stack_get l3 j = stack_get l j" if "j < dest" for j using that by (simp add: g3 g1)
      moreover have "l_heap l3 = l_heap l" "call_stack l3 = call_stack l" "l_ci l3 = l_ci l"
        by (simp_all add: l3_def l2_def s1)
      ultimately show ?thesis unfolding m w(4) by simp
    qed
  qed
  then show "l_top ?m = dest + n" "\<And>j. j < dest \<Longrightarrow> stack_get ?m j = stack_get l j" "call_stack ?m = call_stack l"
    "l_ci ?m = l_ci l" "l_heap ?m = l_heap l" by blast+
  show "stack_slice ?m dest (dest + n) = take n (stack_slice l first (l_top l) @ replicate n VNil)"
    using res by (intro stack_slice_eqI) (auto simp: nth_append)
qed

lemma move_results_base: "l_base (move_results wanted dest first l) = l_base l"
proof -
  have "l_base (copy_within a b d l) = l_base l" "l_base (fill_nil a b l) = l_base l" "l_base (ensure_stack_len a l) = l_base l"
    for a b d l by (simp_all add: copy_within_def fill_nil_def ensure_stack_len_def)
  then show ?thesis by (auto simp: move_results_def Let_def)
qed

lemma pop_ci_secure_lua: "s_lua (pop_ci_secure t) = pop_ci (s_lua t)"
  by (simp add: pop_ci_secure_def prune_secret_contexts_def on_contexts_def)

lemma on_vsec_lua: "v_lua (on_vsec g s) = s_lua (g (v_sec s))" by (simp add: on_vsec_def)

lemma transfer_none: "v_transfer s = None \<Longrightarrow> transfer_op (transfer_return_values first) s = (s, Inr ())"
  by (simp add: transfer_op_def transfer_return_values_def on_vlua_def lift_sres_def)

text \<open>C13. Returning: the caller finds its frame on top, its base restored, and from the slot of the called function up
  the results it asked for, as many as it wanted, cut off or filled up with nil, or all of them; nothing below
  that slot has changed.\<close>

theorem poscall_results:
  assumes "hook_mask (l_hook (v_lua s)) AND MASK_RET = 0" "v_transfer s = None" "0 < l_ci (v_lua s)"
    "ci_func (cur_ci s) \<le> first" "first \<le> l_top (v_lua s)" "l_top (v_lua s) \<le> length (stack (v_lua s))"
    "ci_func (cur_ci s) < length (stack (v_lua s))" "- 1 \<le> ci_num_results (cur_ci s)"
    "n = result_count (ci_num_results (cur_ci s)) (l_top (v_lua s) - first)" "poscall N first s = (s1, r)"
  shows "r = Inr (ci_num_results (cur_ci s) \<noteq> LUA_MULTRET)
    \<and> l_ci (v_lua s1) = l_ci (v_lua s) - 1 \<and> l_base (v_lua s1) = ci_base (call_stack (v_lua s) ! (l_ci (v_lua s) - 1))
    \<and> l_top (v_lua s1) = ci_func (cur_ci s) + n
    \<and> stack_slice (v_lua s1) (ci_func (cur_ci s)) (ci_func (cur_ci s) + n) = take n (stack_slice (v_lua s) first (l_top (v_lua s)) @ replicate n VNil)
    \<and> (\<forall>j < ci_func (cur_ci s). stack_get (v_lua s1) j = stack_get (v_lua s) j)"
proof -
  let ?l = "(pop_ci (v_lua s))\<lparr>l_base := ci_base (call_stack (pop_ci (v_lua s)) ! l_ci (pop_ci (v_lua s)))\<rparr>"
  let ?f = "ci_func (cur_ci s)" and ?w = "ci_num_results (cur_ci s)"
  have p: "stack (pop_ci l) = stack l" "l_top (pop_ci l) = l_top l" "call_stack (pop_ci l) = call_stack l"
    "0 < l_ci l \<Longrightarrow> l_ci (pop_ci l) = l_ci l - 1" for l by (simp_all add: pop_ci_def Let_def)
  have s1: "v_lua s1 = move_results ?w ?f first ?l" and r: "r = Inr (?w \<noteq> LUA_MULTRET)"
    using assms(1,2,10) by (auto simp: poscall_def return_hooks_def vthen_def vbind_def transfer_none Let_def on_vsec_lua pop_ci_secure_lua)
  have sl: "stack_get ?l = stack_get (v_lua s)" "stack ?l = stack (v_lua s)" "l_top ?l = l_top (v_lua s)"
    by (simp_all add: fun_eq_iff stack_get_def p)
  have pre: "?f \<le> first" "first \<le> l_top ?l" "l_top ?l \<le> length (stack ?l)" "?f < length (stack ?l)"
    using assms(4-7) sl by simp_all
  have slice_eq: "stack_slice ?l a b = stack_slice (v_lua s) a b" for a b by (simp add: stack_slice_def sl)
  have base: "l_base (move_results ?w ?f first ?l) = l_base ?l"
    by (rule move_results_base)
  note m = move_results_spec(1,2,3,5) [OF pre assms(8), unfolded slice_eq sl, folded assms(9)]
  show ?thesis unfolding s1 base using m r assms(3) p by simp
qed

text \<open>A return to a caller that asked for two results and gets one.\<close>

definition demo_return :: vm where
  "demo_return = on_vlua (\<lambda>l. l\<lparr>call_stack := [call_info_new 0 1 40 0, call_info_new 2 3 40 2], l_ci := 1, l_top := 5,
     stack := [VNil, VNil, VNil, VBool True, VBool False]\<rparr>) demo_vm"

lemma lua_new_sel [simp]: "l_hook lua_new = hook_new" "open_upvalues lua_new = []" "l_ci lua_new = 0" "l_top lua_new = 1"
  "stack lua_new = replicate BASIC_STACK_SIZE VNil" "call_depth lua_new = 0"
  by (simp_all add: lua_new_def Let_def split_beta)

lemma poscall_results_witness:
  "stack_slice (v_lua (fst (poscall (activations 0 demo_platform) 4 demo_return))) 2 4 = [VBool False, VNil]"
proof -
  let ?p = "poscall (activations 0 demo_platform) 4 demo_return"
  have ci: "cur_ci demo_return = call_info_new 2 3 40 2" by (simp add: cur_ci_def demo_return_def)
  have l: "hook_mask (l_hook (v_lua demo_return)) AND MASK_RET = 0" "v_transfer demo_return = None" "l_ci (v_lua demo_return) = 1"
    "l_top (v_lua demo_return) = 5" "length (stack (v_lua demo_return)) = 5" "stack_slice (v_lua demo_return) 4 5 = [VBool False]"
    by (simp_all add: demo_return_def demo_vm_def hook_new_def stack_slice_def stack_get_def)
  obtain s1 r where p: "?p = (s1, r)" by (metis surj_pair)
  have n: "2 = result_count (ci_num_results (cur_ci demo_return)) (l_top (v_lua demo_return) - 4)"
    by (simp add: ci call_info_new_def result_count_def LUA_MULTRET_def)
  have c: "ci_func (cur_ci demo_return) = 2" "ci_num_results (cur_ci demo_return) = 2" by (simp_all add: ci call_info_new_def)
  have "stack_slice (v_lua s1) 2 (2 + 2) = take 2 (stack_slice (v_lua demo_return) 4 5 @ replicate 2 VNil)"
    using poscall_results [OF l(1,2) _ _ _ _ _ _ n p] l(3-5) unfolding c by simp
  then show ?thesis using l(6) p by (simp add: eval_nat_numeral)
qed

section \<open>Entering a Lua function\<close>

lemma push_is_set: "push l v = (stack_set l (l_top l) v)\<lparr>l_top := l_top l + 1\<rparr>"
  by (simp add: push_def stack_set_def Let_def)

lemma push_nils_get: "stack_get (push_nils n l) j = (if l_top l \<le> j \<and> j < l_top l + n then VNil else stack_get l j)"
  and push_nils_sel: "l_top (push_nils n l) = l_top l + n" "l_heap (push_nils n l) = l_heap l" "call_stack (push_nils n l) = call_stack l"
    "l_ci (push_nils n l) = l_ci l"
proof -
  have "l_top (push_nils n l) = l_top l + n \<and> l_heap (push_nils n l) = l_heap l \<and> call_stack (push_nils n l) = call_stack l
      \<and> l_ci (push_nils n l) = l_ci l
      \<and> (\<forall>j. stack_get (push_nils n l) j = (if l_top l \<le> j \<and> j < l_top l + n then VNil else stack_get l j))"
    by (induction n) (auto simp: push_nils_def push_is_set)
  then show "stack_get (push_nils n l) j = (if l_top l \<le> j \<and> j < l_top l + n then VNil else stack_get l j)"
    "l_top (push_nils n l) = l_top l + n" "l_heap (push_nils n l) = l_heap l" "call_stack (push_nils n l) = call_stack l"
    "l_ci (push_nils n l) = l_ci l" by blast+
qed

lemma copy_params_append: "copy_params fixed (xs @ ys) l = copy_params fixed ys (copy_params fixed xs l)"
  by (induction fixed xs l rule: copy_params.induct) simp_all

lemma copy_params_spec:
  assumes "fixed + np \<le> l_top l"
  shows "l_top (copy_params fixed [0..<np] l) = l_top l + np" "call_stack (copy_params fixed [0..<np] l) = call_stack l"
    "l_ci (copy_params fixed [0..<np] l) = l_ci l"
    "stack_get (copy_params fixed [0..<np] l) j = (if fixed \<le> j \<and> j < fixed + np then VNil
       else if l_top l \<le> j \<and> j < l_top l + np then stack_get l (fixed + (j - l_top l)) else stack_get l j)"
proof -
  have "l_top (copy_params fixed [0..<np] l) = l_top l + np \<and> call_stack (copy_params fixed [0..<np] l) = call_stack l
    \<and> l_ci (copy_params fixed [0..<np] l) = l_ci l
    \<and> (\<forall>j. stack_get (copy_params fixed [0..<np] l) j = (if fixed \<le> j \<and> j < fixed + np then VNil
       else if l_top l \<le> j \<and> j < l_top l + np then stack_get l (fixed + (j - l_top l)) else stack_get l j))"
    using assms
  proof (induction np)
    case (Suc n)
    then show ?case by (auto simp: copy_params_append less_Suc_eq)
  qed auto
  then show "l_top (copy_params fixed [0..<np] l) = l_top l + np" "call_stack (copy_params fixed [0..<np] l) = call_stack l"
    "l_ci (copy_params fixed [0..<np] l) = l_ci l"
    "stack_get (copy_params fixed [0..<np] l) j = (if fixed \<le> j \<and> j < fixed + np then VNil
       else if l_top l \<le> j \<and> j < l_top l + np then stack_get l (fixed + (j - l_top l)) else stack_get l j)" by blast+
qed

lemma stack_set_len: "n \<le> length (stack l) \<Longrightarrow> n \<le> length (stack (stack_set l i v))"
  by (simp add: stack_set_def Let_def vec_resize_def)

lemma copy_params_len: "n \<le> length (stack l) \<Longrightarrow> n \<le> length (stack (copy_params fixed ks l))"
  by (induction fixed ks l rule: copy_params.induct) (simp_all add: stack_set_len)

lemma open_frame_spec:
  shows "l_top (open_frame n l) = n" "call_stack (open_frame n l) = call_stack l" "l_ci (open_frame n l) = l_ci l"
    and "l_top l \<le> length (stack l) \<Longrightarrow> stack_get (open_frame n l) j = (if l_top l \<le> j \<and> j < n then VNil else stack_get l j)"
  by (auto simp: open_frame_def Let_def stack_get_fill)

text \<open>The arguments of a call, and what a function with so many parameters and registers finds in its registers.\<close>

definition call_args :: "lua \<Rightarrow> nat \<Rightarrow> Val list" where
  "call_args l func_idx = stack_slice l (func_idx + 1) (l_top l)"

definition param_regs :: "nat \<Rightarrow> nat \<Rightarrow> Val list \<Rightarrow> Val list" where
  "param_regs np regs args = take np (args @ replicate np VNil) @ replicate (regs - np) VNil"

lemma param_regs_nth: "k < regs \<Longrightarrow> np \<le> regs \<Longrightarrow>
    param_regs np regs args ! k = (if k < np \<and> k < length args then args ! k else VNil)"
  by (auto simp: param_regs_def nth_append)

lemma fixed_args_spec:
  assumes "fixed_args p nargs f l = (l1, b)" "f < l_top l" "l_top l \<le> length (stack l)" "nargs = l_top l - f - 1"
    "unat (pr_num_params p) \<le> unat (pr_max_stack_size p)"
  shows "b = f + 1" "l_top l1 \<le> length (stack l1)" "l_top l1 = b + unat (pr_num_params p)"
    "stack_get l1 j = (if l_top l \<le> j \<and> j < b + unat (pr_num_params p) then VNil else stack_get l j)"
proof -
  let ?np = "unat (pr_num_params p)" and ?l = "ensure_stack_len (f + 1 + unat (pr_max_stack_size p)) l"
  show b: "b = f + 1" using assms(1) by (simp add: fixed_args_def Let_def)
  have e: "l1 = (if ?np < nargs then ?l\<lparr>l_top := f + 1 + ?np\<rparr>
      else if l_top l < f + 1 + ?np then (fill_nil (l_top l) (f + 1 + ?np) ?l)\<lparr>l_top := f + 1 + ?np\<rparr> else ?l)"
    using assms(1) unfolding fixed_args_def by (auto simp: Let_def split: if_splits)
  show "l_top l1 \<le> length (stack l1)" "l_top l1 = b + ?np"
    using assms(2-5) by (auto simp: e b fill_nil_def)
  show "stack_get l1 j = (if l_top l \<le> j \<and> j < b + ?np then VNil else stack_get l j)"
    using assms(2-4) by (auto simp: e b stack_get_fill)
qed

text \<open>Entering a Lua function with a fixed number of parameters: its registers start right after the called
  function, the first hold the arguments, missing arguments are nil, surplus ones are gone, every other register
  is nil, and nothing below has changed.\<close>

theorem fixed_arguments:
  assumes "pr_is_vararg p AND VARARG_ISVARARG = 0" "unat (pr_num_params p) \<le> unat (pr_max_stack_size p)"
    "f < l_top l" "l_top l \<le> length (stack l)" "lua_args p f l = (l1, b)"
    "l2 = open_frame (b + unat (pr_max_stack_size p)) l1"
  shows "b = f + 1 \<and> l_top l2 = b + unat (pr_max_stack_size p)
    \<and> stack_slice l2 b (l_top l2) = param_regs (unat (pr_num_params p)) (unat (pr_max_stack_size p)) (call_args l f)
    \<and> (\<forall>j \<le> f. stack_get l2 j = stack_get l j)"
proof -
  let ?np = "unat (pr_num_params p)" and ?ms = "unat (pr_max_stack_size p)"
  have f: "fixed_args p (l_top l - f - 1) f l = (l1, b)"
    using assms(1,3,5) by (auto simp: lua_args_def get_nargs_def Let_def split: if_splits)
  note a = fixed_args_spec [OF f assms(3,4) refl assms(2)]
  have g: "stack_get l2 j = (if l_top l1 \<le> j \<and> j < b + ?ms then VNil else stack_get l1 j)" for j
    using open_frame_spec(4) [OF a(2)] assms(6) by simp
  have "stack_get l2 (b + k) = param_regs ?np ?ms (call_args l f) ! k" if "k < ?ms" for k
    using that assms(2,3) a(1,3) by (auto simp: g a(4) param_regs_nth call_args_def)
  then have "stack_slice l2 b (b + ?ms) = param_regs ?np ?ms (call_args l f)"
    using assms(2) by (intro stack_slice_eqI) (auto simp: param_regs_def)
  moreover have "\<forall>j \<le> f. stack_get l2 j = stack_get l j" using a(1,3) assms(3) by (auto simp: g a(4))
  ultimately show ?thesis using a(1) open_frame_spec(1) assms(6) by simp
qed

lemma adjust_varargs_spec:
  assumes "adjust_varargs p nargs l = (l1, b)" "f < l_top l" "l_top l \<le> length (stack l)" "nargs = l_top l - f - 1"
    "pr_is_vararg p AND VARARG_NEEDSARG = 0" "np = unat (pr_num_params p)"
  shows "b = f + 1 + max nargs np" "l_top l1 = b + np" "b + np \<le> length (stack l1)" "call_stack l1 = call_stack l" "l_ci l1 = l_ci l"
    "k < np \<Longrightarrow> stack_get l1 (b + k) = (if k < nargs then stack_get l (f + 1 + k) else VNil)"
    "np \<le> k \<Longrightarrow> k < nargs \<Longrightarrow> stack_get l1 (f + 1 + k) = stack_get l (f + 1 + k)"
    "j \<le> f \<Longrightarrow> stack_get l1 j = stack_get l j"
proof -
  let ?l = "push_nils (np - nargs) l"
  define m where "m = ensure_stack_len (l_top ?l + np + 1) ?l"
  have t: "l_top ?l = f + 1 + max nargs np" using assms(2,4) by (simp add: push_nils_sel)
  have e: "l1 = copy_params (f + 1) [0..<np] m" and b: "b = f + 1 + max nargs np"
    using assms(1,5,6) t by (auto simp: adjust_varargs_def Let_def m_def)
  have mt: "l_top m = f + 1 + max nargs np" "call_stack m = call_stack l" "l_ci m = l_ci l" "l_top m + np + 1 \<le> length (stack m)"
    using t by (simp_all add: m_def push_nils_sel)
  have mg: "stack_get m j = (if l_top l \<le> j \<and> j < f + 1 + np then VNil else stack_get l j)" for j
    using assms(2,4) by (auto simp: m_def push_nils_get)
  have np: "f + 1 + np \<le> l_top m" using mt(1) by simp
  note c = copy_params_spec [OF np]
  show "b = f + 1 + max nargs np" by (rule b)
  show "l_top l1 = b + np" "call_stack l1 = call_stack l" "l_ci l1 = l_ci l" using c(1-3) mt b e by simp_all
  show "b + np \<le> length (stack l1)" using copy_params_len [of "b + np" m] mt(1,4) b e by simp
  show "k < np \<Longrightarrow> stack_get l1 (b + k) = (if k < nargs then stack_get l (f + 1 + k) else VNil)"
    unfolding e c(4) mg using assms(2,4) mt(1) b by auto
  show "np \<le> k \<Longrightarrow> k < nargs \<Longrightarrow> stack_get l1 (f + 1 + k) = stack_get l (f + 1 + k)"
    unfolding e c(4) mg using assms(2,4) mt(1) by auto
  show "j \<le> f \<Longrightarrow> stack_get l1 j = stack_get l j" unfolding e c(4) mg using assms(2,4) mt(1) by auto
qed

lemma copy_varargs_append: "copy_varargs a n ra (xs @ ys) l = copy_varargs a n ra ys (copy_varargs a n ra xs l)"
  by (induction a n ra xs l rule: copy_varargs.induct) simp_all

lemma copy_varargs_spec:
  assumes "start + available \<le> ra"
  shows "stack_get (copy_varargs start available ra [0..<n] l) j = (if ra \<le> j \<and> j < ra + n
      then (if j - ra < available then stack_get l (start + (j - ra)) else VNil) else stack_get l j)"
    and "l_top (copy_varargs start available ra [0..<n] l) = l_top l"
proof -
  have "(\<forall>j. stack_get (copy_varargs start available ra [0..<n] l) j = (if ra \<le> j \<and> j < ra + n
      then (if j - ra < available then stack_get l (start + (j - ra)) else VNil) else stack_get l j))
      \<and> l_top (copy_varargs start available ra [0..<n] l) = l_top l"
  proof (induction n)
    case (Suc n)
    have "start + n < ra" if "n < available" using that assms by linarith
    then show ?case using Suc by (auto simp: copy_varargs_append less_Suc_eq)
  qed auto
  then show "stack_get (copy_varargs start available ra [0..<n] l) j = (if ra \<le> j \<and> j < ra + n
      then (if j - ra < available then stack_get l (start + (j - ra)) else VNil) else stack_get l j)"
    "l_top (copy_varargs start available ra [0..<n] l) = l_top l" by blast+
qed

lemma stack_get_ensure_stack [simp]: "stack_get (ensure_stack l n) j = stack_get l j"
  by (auto simp: ensure_stack_def stack_get_def vec_resize_def nth_append)

lemma ensure_stack_sel [simp]: "l_top (ensure_stack l n) = l_top l" "call_stack (ensure_stack l n) = call_stack l"
  "l_ci (ensure_stack l n) = l_ci l"
  by (simp_all add: ensure_stack_def)

text \<open>C14. Entering a vararg function: its parameters hold the first arguments, nil where there are none, and every other
  register is nil; in this frame the vararg expression with an open number of results gives exactly the remaining
  arguments in their order, and with a fixed number that many of them, filled up with nil.\<close>

theorem vararg_arguments:
  assumes "pr_is_vararg p AND VARARG_ISVARARG \<noteq> 0" "pr_is_vararg p AND VARARG_NEEDSARG = 0"
    "unat (pr_num_params p) \<le> unat (pr_max_stack_size p)" "f < l_top l" "l_top l \<le> length (stack l)"
    "lua_args p f l = (l1, b)" "l2 = open_frame (b + unat (pr_max_stack_size p)) l1"
    "v_lua s = l2" "ci_func (cur_ci s) = f" "f_proto fr = p" "op_vararg P N fr i pc b s = (s1, r)"
    "rest = drop (unat (pr_num_params p)) (call_args l f)"
    "n = (if ins_b i = 0 then length rest else unat (ins_b i) - 1)"
  shows "stack_slice l2 b (l_top l2) = param_regs (unat (pr_num_params p)) (unat (pr_max_stack_size p)) (call_args l f)
    \<and> stack_slice (v_lua s1) (b + reg_a i) (b + reg_a i + n) = take n (rest @ replicate n VNil)
    \<and> (\<forall>j < b + reg_a i. stack_get (v_lua s1) j = stack_get l2 j)
    \<and> l_top (v_lua s1) = (if ins_b i = 0 then b + reg_a i + n else l_top l2)"
proof -
  let ?np = "unat (pr_num_params p)" and ?ms = "unat (pr_max_stack_size p)"
  define nargs where "nargs = l_top l - f - 1"
  have f: "adjust_varargs p nargs l = (l1, b)"
    using assms(1,4,6) by (auto simp: lua_args_def get_nargs_def Let_def nargs_def split: if_splits)
  note a = adjust_varargs_spec [OF f assms(4,5) nargs_def assms(2) refl]
  have g: "stack_get l2 j = (if l_top l1 \<le> j \<and> j < b + ?ms then VNil else stack_get l1 j)" for j
    using open_frame_spec(4) [of l1] a(2,3) assms(7) by simp
  have args: "length (call_args l f) = nargs" by (simp add: call_args_def nargs_def)
  have rest: "length rest = nargs - ?np" using args assms(12) by simp
  have rest_nth: "rest ! k = stack_get l1 (f + 1 + ?np + k)" if "k < nargs - ?np" for k
    using that a(7) [of "?np + k"] args assms(12) by (simp add: call_args_def nargs_def add.assoc)
  have "stack_get l2 (b + k) = param_regs ?np ?ms (call_args l f) ! k" if "k < ?ms" for k
    using that a(2,6) assms(3) by (auto simp: g param_regs_nth args) (auto simp: call_args_def nargs_def)
  then have regs: "stack_slice l2 b (b + ?ms) = param_regs ?np ?ms (call_args l f)"
    using assms(3) by (intro stack_slice_eqI) (auto simp: param_regs_def)
  let ?start = "f + 1 + ?np"
  have av: "b - ?start = nargs - ?np" using a(1) by simp
  have ci: "call_stack l2 ! l_ci l2 = cur_ci s" using assms(8) by (simp add: cur_ci_def)
  have top: "l_top l2 = b + ?ms" using open_frame_spec(1) assms(7) by simp
  define l3 where "l3 = copy_varargs ?start (nargs - ?np) (b + reg_a i) [0..<n] (ensure_stack l2 (b + reg_a i + n))"
  have s1: "v_lua s1 = (if ins_b i = 0 then l3\<lparr>l_top := b + reg_a i + n\<rparr> else l3)"
    using assms(8-11,13) ci av rest
    by (auto simp: op_vararg_def go_def vthen_def vbind_def vmod_def vret_def Let_def unat_eq_zero l3_def)
  have c: "?start + (nargs - ?np) \<le> b + reg_a i" using a(1) by simp
  have l3: "stack_get l3 j = (if b + reg_a i \<le> j \<and> j < b + reg_a i + n
      then (if j - (b + reg_a i) < nargs - ?np then stack_get l2 (?start + (j - (b + reg_a i))) else VNil) else stack_get l2 j)"
    "l_top l3 = l_top l2" for j
    unfolding l3_def using copy_varargs_spec [OF c] by simp_all
  have low: "stack_get l2 (?start + k) = rest ! k" if "k < nargs - ?np" for k
    using that a(1,2) by (auto simp: g rest_nth)
  have "stack_get (v_lua s1) (b + reg_a i + k) = take n (rest @ replicate n VNil) ! k" if "k < n" for k
    using that low [of k] by (simp add: s1 l3 nth_append rest)
  then have "stack_slice (v_lua s1) (b + reg_a i) (b + reg_a i + n) = take n (rest @ replicate n VNil)"
    by (intro stack_slice_eqI) auto
  moreover have "\<forall>j < b + reg_a i. stack_get (v_lua s1) j = stack_get l2 j" by (simp add: s1 l3)
  ultimately show ?thesis using regs top by (simp add: s1 l3)
qed

text \<open>Calls with the arguments true and false, to a function of one parameter and three registers.\<close>

definition demo_call :: lua where
  "demo_call = lua_new\<lparr>stack := [VNil, VNil, VNil, VBool True, VBool False], l_top := 5, call_stack := [call_info_new 2 5 40 0]\<rparr>"

definition demo_callee :: "u8 \<Rightarrow> Proto" where
  "demo_callee va = Proto [] [] [] [] [] [] [] [] 0 0 0 1 va 3 [] []"

lemma demo_call_sel: "l_top demo_call = 5" "length (stack demo_call) = 5" "l_ci demo_call = 0"
  "call_args demo_call 2 = [VBool True, VBool False]"
  by (simp_all add: demo_call_def call_args_def stack_slice_def stack_get_def upt_rec)

lemma fixed_arguments_witness:
  "stack_slice (open_frame 6 (fst (lua_args (demo_callee 0) 2 demo_call))) 3 6 = [VBool True, VNil, VNil]"
proof -
  obtain l1 b where r: "lua_args (demo_callee 0) 2 demo_call = (l1, b)" by fastforce
  have p: "unat (pr_num_params (demo_callee 0)) = 1" "unat (pr_max_stack_size (demo_callee 0)) = 3"
    "pr_is_vararg (demo_callee 0) AND VARARG_ISVARARG = 0" by (simp_all add: demo_callee_def)
  note t = fixed_arguments [of "demo_callee 0" 2 demo_call l1 b "open_frame (b + 3) l1", unfolded p demo_call_sel]
  have b: "b = 3" using t r by simp
  have "l_top (open_frame 6 l1) = 6" "stack_slice (open_frame 6 l1) 3 (l_top (open_frame 6 l1)) = param_regs 1 3 [VBool True, VBool False]"
    using t r unfolding b by auto
  then show ?thesis using r by (simp add: param_regs_def eval_nat_numeral)
qed

lemma vararg_arguments_witness:
  "\<exists>s. let l2 = open_frame 8 (fst (lua_args (demo_callee 2) 2 demo_call)) in v_lua s = l2
     \<and> stack_slice l2 5 8 = [VBool True, VNil, VNil]
     \<and> stack_slice (v_lua (fst (op_vararg demo_platform (activations 0 demo_platform) (demo_frame\<lparr>f_proto := demo_callee 2\<rparr>)
          (Instruction 0) 0 5 s))) 5 6 = [VBool False]"
proof -
  obtain l1 b where r: "lua_args (demo_callee 2) 2 demo_call = (l1, b)" by fastforce
  let ?l2 = "open_frame (b + 3) l1"
  define s where "s = on_vlua (\<lambda>_. ?l2) demo_vm"
  have p: "unat (pr_num_params (demo_callee 2)) = 1" "unat (pr_max_stack_size (demo_callee 2)) = 3"
    "pr_is_vararg (demo_callee 2) AND VARARG_ISVARARG \<noteq> 0" "pr_is_vararg (demo_callee 2) AND VARARG_NEEDSARG = 0"
    by (simp_all add: demo_callee_def VARARG_ISVARARG_def VARARG_NEEDSARG_def)
  have f: "adjust_varargs (demo_callee 2) 2 demo_call = (l1, b)"
    using r p(3) by (simp add: lua_args_def get_nargs_def demo_call_sel)
  note a = adjust_varargs_spec [OF f _ _ _ p(4) refl, of 2, unfolded demo_call_sel p]
  have b: "b = 5" "call_stack l1 = call_stack demo_call" "l_ci l1 = 0" using a(1,4,5) by simp_all
  have ci: "ci_func (cur_ci s) = 2"
    using b open_frame_spec(2,3) by (simp add: s_def cur_ci_def demo_call_def call_info_new_def)
  obtain s1 x where v: "op_vararg demo_platform (activations 0 demo_platform) (demo_frame\<lparr>f_proto := demo_callee 2\<rparr>) (Instruction 0) 0 b s = (s1, x)"
    by fastforce
  have a0: "reg_a (Instruction 0) = 0" "ins_b (Instruction 0) = 0" by (simp_all add: ins_a_def ins_b_def)
  note t = vararg_arguments [OF p(3,4) _ _ _ r refl _ ci _ v refl refl, unfolded p demo_call_sel a0]
  have "stack_slice ?l2 b (l_top ?l2) = param_regs 1 3 [VBool True, VBool False]"
    "stack_slice (v_lua s1) (b + 0) (b + 0 + 1) = take 1 ([VBool False] @ replicate 1 VNil)"
    using t by (simp_all add: s_def)
  then show ?thesis using r b(1) v open_frame_spec(1)
    by (intro exI [of _ s]) (simp add: Let_def s_def param_regs_def eval_nat_numeral)
qed

end
