(* ===== verification/ValueOps.thy ===== *)
theory ValueOps
  imports CallProps TableOps
begin

text \<open>
  Two operations of the dispatch loop on values: concatenation of strings and numbers, and indexing along a
  chain of \<^verbatim>\<open>__index\<close> tables.
\<close>

section \<open>Concatenation\<close>

definition rendering :: "platform \<Rightarrow> heap \<Rightarrow> Val \<Rightarrow> u8 list" where
  "rendering P h v = val_to_string_bytes P h [] v"

lemma append_number: "append_lua_number_bytes f buffer n = buffer @ append_lua_number_bytes f [] n"
  by (simp add: append_lua_number_bytes_def)

lemma val_to_string_bytes_rendering: "val_to_string_bytes P h buffer v = buffer @ rendering P h v"
  by (auto simp: rendering_def val_to_string_bytes_def append_number [of _ buffer] split: Val.split option.split)

lemma foldl_rendering: "foldl (val_to_string_bytes P h) buffer vs = buffer @ concat (map (rendering P h) vs)"
  by (induction vs arbitrary: buffer) (simp_all add: val_to_string_bytes_rendering)

lemma val_string_len_rendering: "is_string_or_number h v \<Longrightarrow> val_string_len P h v = length (rendering P h v)"
  using number_length_exact [of "p_log10_floor P" "[]"]
  by (auto simp: is_string_or_number_def val_string_len_def rendering_def val_to_string_bytes_def split: Val.splits)

lemma sum_lengths_spec:
  "acc < MAX_CONCAT_SIZE \<Longrightarrow> sum_lengths ks acc = (if acc + sum_list ks < MAX_CONCAT_SIZE then Some (acc + sum_list ks) else None)"
  by (induction ks acc rule: sum_lengths.induct) auto

lemma concat_values_slice: "n \<le> tp \<Longrightarrow> concat_values l tp n = stack_slice l (tp - n) tp"
  by (rule nth_equalityI) (auto simp: concat_values_def rev_nth)

lemma concat_run_all:
  "(\<And>k. k < n \<Longrightarrow> is_string_or_number (v_heap s) (stack_get (v_lua s) (tp - k - 1))) \<Longrightarrow> m \<le> n \<Longrightarrow> concat_run_from s tp n m = n"
proof (induction s tp n m rule: concat_run_from.induct)
  case (1 s tp n m)
  then show ?case by (subst concat_run_from.simps) (cases "m = n"; simp)
qed

lemma concat_all_strings:
  assumes "b < c" "\<forall>v \<in> set (stack_slice (v_lua s) (base + b) (base + c + 1)). is_string_or_number (v_heap s) v"
  shows "vm_concat P N base b c s = concat_string_run P (base + c + 1) (c - b + 1) s"
proof -
  let ?tp = "base + c + 1" and ?n = "c - b + 1"
  have str: "is_string_or_number (v_heap s) (stack_get (v_lua s) (?tp - k - 1))" if "k < ?n" for k
  proof -
    have "?tp - k - 1 \<in> {base + b..<?tp}" using that assms(1) by auto
    then have "stack_get (v_lua s) (?tp - k - 1) \<in> set (stack_slice (v_lua s) (base + b) ?tp)"
      unfolding stack_slice_def set_map set_upt by (rule imageI)
    then show ?thesis using assms(2) by blast
  qed
  have nm: "\<not> needs_concat_metamethod (v_heap s) (stack_get (v_lua s) (?tp - 2)) (stack_get (v_lua s) (?tp - 1))"
    using str [of 0] str [of 1] assms(1) by (simp add: needs_concat_metamethod_def)
  have run: "count_concat_run s ?tp ?n = ?n"
    unfolding count_concat_run_def by (rule concat_run_all) (use str assms(1) in auto)
  show ?thesis
  proof (cases "concat_string_run P ?tp ?n s")
    case (Pair s1 r)
    have "concat_loop P N base 1 k s1 = (s1, Inr ())" for k by (subst concat_loop.simps) simp
    moreover have "base + c + 1 = ?tp" by simp
    ultimately show ?thesis
      using nm run Pair assms(1) unfolding vm_concat_def
      by (subst concat_loop.simps) (auto simp: Let_def split: sum.split)
  qed
qed

text \<open>C16. Concatenating strings and numbers stores a string whose bytes are the renderings of the operands in order;
  nothing else on the stack changes and every string stays; from 2^32 - 3 bytes on it is an error and the state is as
  before.\<close>

theorem concat_renders:
  assumes "b < c" "\<forall>v \<in> set (stack_slice (v_lua s) (base + b) (base + c + 1)). is_string_or_number (v_heap s) v"
    "st_inv (h_strings (v_heap s)) (h_string_arena (v_heap s))" "st_room (h_strings (v_heap s))" "has_room (h_string_arena (v_heap s))"
    "text = concat (map (rendering P (v_heap s)) (stack_slice (v_lua s) (base + b) (base + c + 1)))"
    "vm_concat P N base b c s = (s1, r)"
  shows "if length text < MAX_CONCAT_SIZE
    then r = Inr () \<and> (\<exists>x. stack_get (v_lua s1) (base + b) = VStr x \<and> map_option sdata (get (h_string_arena (v_heap s1)) x) = Some text)
      \<and> (\<forall>j. j \<noteq> base + b \<longrightarrow> stack_get (v_lua s1) j = stack_get (v_lua s) j)
      \<and> (\<forall>x t. get (h_string_arena (v_heap s)) x = Some t \<longrightarrow> get (h_string_arena (v_heap s1)) x = Some t)
    else r = Inl (ELocated ''string length overflow'') \<and> s1 = s"
proof -
  let ?tp = "base + c + 1" and ?n = "c - b + 1"
  have n: "?n \<le> ?tp" "?tp - ?n = base + b" using assms(1) by simp_all
  note vals = concat_values_slice [OF n(1), of "v_lua s", unfolded n(2)]
  have lens: "sum_list (map (val_string_len P (v_heap s)) (stack_slice (v_lua s) (base + b) ?tp)) = length text"
    using assms(2,6) by (simp add: length_concat val_string_len_rendering o_def cong: map_cong)
  have run: "concat_run_length P s ?tp ?n = (if length text < MAX_CONCAT_SIZE then Inr (length text) else Inl (ELocated ''string length overflow''))"
    using sum_lengths_spec [of 0] lens unfolding concat_run_length_def vals by (simp add: MAX_CONCAT_SIZE_def)
  have ct: "foldl (val_to_string_bytes P (v_heap s)) [] (concat_values (v_lua s) ?tp ?n) = text"
    unfolding vals foldl_rendering using assms(6) by simp
  have e: "concat_string_run P ?tp ?n s = (s1, r)" using concat_all_strings [OF assms(1,2)] assms(7) by simp
  show ?thesis
  proof (cases "length text < MAX_CONCAT_SIZE")
    case False
    then show ?thesis using e run by (simp add: concat_string_run_def)
  next
    case True
    obtain t' a' x where i: "intern (h_strings (v_heap s)) text (h_string_arena (v_heap s)) (h_white (v_heap s)) = (t', a', x)"
      by (metis prod_cases3)
    note p = intern_props [OF assms(3-5) i]
    obtain h' where h: "intern_string text (v_heap s) = (h', x)" "h_string_arena h' = a'"
      using i by (auto simp: intern_string_def intern_tracked_def Let_def)
    have s1: "s1 = on_vlua (\<lambda>l. stack_set l (base + b) (VStr x)) (on_vheap (\<lambda>_. h') s)" "r = Inr ()"
      using e [unfolded concat_string_run_def run ct n(2)] True h by (auto simp: vbind_def heap_op_def reg_set_def vmod_def)
    have l: "stack_get (v_lua (on_vheap (\<lambda>_. h') s)) j = stack_get (v_lua s) j" "v_heap (on_vheap (\<lambda>_. h') s) = h'" for j
      by (simp_all add: on_vheap_def stack_get_def)
    show ?thesis using True p(2,3) by (simp add: s1 l h(2))
  qed
qed

section \<open>Indexing\<close>

text \<open>
  What a table holds for a key, by a scan of its parts, and what its metatable holds under the first of the
  metamethod names, \<^verbatim>\<open>__index\<close>.
\<close>

definition raw_value :: "vm \<Rightarrow> GcRef \<Rightarrow> Val \<Rightarrow> Val" where
  "raw_value s r key = (case get (h_tables (v_heap s)) r of None \<Rightarrow> VNil | Some t \<Rightarrow> abs_get t key)"

definition index_of :: "vm \<Rightarrow> GcRef \<Rightarrow> Val option" where
  "index_of s r = Option.bind (get (h_tables (v_heap s)) r) (\<lambda>t. Option.bind (tmeta t) (\<lambda>mt.
     Option.bind (h_tm_names (v_heap s) ! 0) (\<lambda>name.
       if raw_value s mt (VStr name) = VNil then None else Some (raw_value s mt (VStr name)))))"

text \<open>A chain of tables, each leading to the next by its \<open>__index\<close>, none but the last with a value for the key.\<close>

fun index_chain :: "vm \<Rightarrow> Val \<Rightarrow> GcRef list \<Rightarrow> bool" where
  "index_chain s key [] = False"
| "index_chain s key [r] = True"
| "index_chain s key (r # r' # rs) \<longleftrightarrow> is_nil (raw_value s r key) \<and> index_of s r = Some (VTable r') \<and> index_chain s key (r' # rs)"

text \<open>
  Tables the caller may read and whose values are not wrapped; they and their metatables are well-formed, and no
  metatable has the bit that says it lacks \<open>__index\<close>.
\<close>

definition sound_table :: "vm \<Rightarrow> table \<Rightarrow> bool" where
  "sound_table s t \<longleftrightarrow> table_inv (h_string_arena (v_heap s)) t"

definition readable :: "vm \<Rightarrow> Val \<Rightarrow> GcRef \<Rightarrow> bool" where
  "readable s key r \<longleftrightarrow> (\<exists>t. get (h_tables (v_heap s)) r = Some t \<and> sound_table s t
       \<and> (\<forall>mt m. tmeta t = Some mt \<longrightarrow> get (h_tables (v_heap s)) mt = Some m \<longrightarrow> sound_table s m \<and> \<not> bit (tflags m) 0))
     \<and> check_table_access (v_sec s) r (Some key) = Inr () \<and> \<not> table_wraps_contents (v_sec s) r"

text \<open>The lookups of the code find what the scans find.\<close>

lemma fast_result_scan:
  assumes "table_inv (h_string_arena h) t"
  shows "gettable_fast_result t (resolve_gettable_key h key) (h_string_arena h) = abs_get t key"
proof -
  have "gettable_fast_result t (resolve_gettable_key h key) (h_string_arena h) = lookup_of (tget t key (h_string_arena h))"
    by (auto simp: gettable_fast_result_def resolve_gettable_key_def resolve_integer_gettable_key_def number_to_int_key_def
        tget_def get_str_def get_str_hashed_def lookup_of_def Let_def split: Val.splits option.splits)
  then show ?thesis using tget_spec [OF assms] by (simp add: lookup_of_def)
qed

lemma bit_0_mask: "\<not> bit (w :: u8) 0 \<longleftrightarrow> w AND 1 = 0"
  by (simp add: and_one_eq even_iff_mod_2_eq_zero [symmetric] bit_0)

lemma index_lookup:
  assumes "readable s key r" "get (h_tables (v_heap s)) r = Some t"
  shows "Option.bind (tmeta t) (\<lambda>mt. get_tm_for_table (v_heap s) mt TM_Index) = index_of s r"
proof (cases "tmeta t")
  case (Some mt)
  show ?thesis
  proof (cases "get (h_tables (v_heap s)) mt")
    case None
    then show ?thesis using Some assms(2)
      by (simp add: index_of_def get_tm_for_table_def fasttm_def raw_value_def split: option.split bind_split)
  next
    case m: (Some m)
    then have "table_inv (h_string_arena (v_heap s)) m" "\<not> bit (tflags m) 0"
      using assms Some by (auto simp: readable_def sound_table_def)
    then show ?thesis using Some assms(2) m get_str_spec [of "h_string_arena (v_heap s)" m]
      by (auto simp: index_of_def get_tm_for_table_def fasttm_def raw_value_def fast_tm_absent_def bit_0_mask lookup_str_def
          non_nil_def split: option.split)
  qed
qed (simp add: index_of_def assms(2))

lemma read_plain: "checked_secret_table_read t (VTable r) = Inr (VTable r)"
  by (simp add: checked_secret_table_read_def secret_of_def)

lemma no_taint: "\<not> v_taint_mode s \<Longrightarrow> propagate_slot_read_taint r key s = s"
  by (simp add: propagate_slot_read_taint_def)

lemma gettable_step_table:
  assumes "readable s key r" "\<not> v_taint_mode s"
  shows "gettable_step N (VTable r) key (resolve_gettable_key (v_heap s) key) res obj s =
    (if \<not> is_nil (raw_value s r key) then (on_vlua (\<lambda>l. stack_set l res (raw_value s r key)) s, Inr TagDone)
     else case index_of s r of None \<Rightarrow> (on_vlua (\<lambda>l. stack_set l res VNil) s, Inr TagDone)
       | Some tm \<Rightarrow> index_tm N tm (VTable r) key res s)"
proof -
  obtain t where t: "get (h_tables (v_heap s)) r = Some t" "table_inv (h_string_arena (v_heap s)) t"
    "check_table_access (v_sec s) r (Some key) = Inr ()"
    using assms(1) by (auto simp: readable_def sound_table_def)
  show ?thesis
    unfolding gettable_step_def handle_table_gettable_def
    using t index_lookup [OF assms(1) t(1)] fast_result_scan [OF t(2)]
    by (auto simp: vthen_def vbind_def sec_test_def lift_sres_def raw_value_def reg_set_def vmod_def vret_def
        no_taint [OF assms(2)] Let_def split: option.splits)
qed

lemma gettable_done:
  assumes "gettable_step N current key k res obj s = (on_vlua (\<lambda>l. stack_set l res v) s, Inr TagDone)" "current = VTable r"
    "\<not> table_wraps_contents (v_sec s) r"
  shows "gettable_loop (Suc n) N current False key k res obj s = (on_vlua (\<lambda>l. stack_set l res v) s, Inr ())"
proof -
  have id: "stack_set (stack_set l res v) res v = stack_set l res v" for l
    by (simp add: stack_set_def Let_def vec_resize_def nth_list_update)
  have id2: "on_vlua (\<lambda>l. stack_set l res v) (on_vlua (\<lambda>l. stack_set l res v) s) = on_vlua (\<lambda>l. stack_set l res v) s"
    by (simp add: on_vlua_def id)
  show ?thesis using assms
    by (simp add: vbind_def sec_test_def lift_sres_def read_plain vget_def reg_get_def sec_op_def wrap_contents_result_def
        reg_set_def vmod_def id2)
qed

lemma gettable_continue:
  assumes "gettable_step N (VTable r) key k res obj s = (s, Inr (TagContinue v))" "\<not> table_wraps_contents (v_sec s) r"
  shows "gettable_loop (Suc n) N (VTable r) False key k res obj s = gettable_loop n N v False key k res obj s"
  using assms by (simp add: vbind_def sec_test_def lift_sres_def read_plain vget_def)

lemma chain_loop:
  assumes "\<forall>r \<in> set rs. readable s key r" "\<not> v_taint_mode s" "index_chain s key rs"
    "length rs \<le> n \<Longrightarrow> is_nil (raw_value s (last rs) key) \<Longrightarrow> index_of s (last rs) = None"
  shows "gettable_loop n N (VTable (hd rs)) False key (resolve_gettable_key (v_heap s) key) res obj s =
    (if length rs \<le> n then (on_vlua (\<lambda>l. stack_set l res (raw_value s (last rs) key)) s, Inr ())
     else (s, Inl (EMsg ''loop in gettable'')))"
  using assms(1,3,4)
proof (induction rs arbitrary: n rule: induct_list012)
  case 1
  then show ?case by simp
next
  case (2 r)
  note st = gettable_step_table [of s key r N res obj, OF _ assms(2)]
  show ?case
  proof (cases n)
    case (Suc m)
    have "gettable_step N (VTable r) key (resolve_gettable_key (v_heap s) key) res obj s
        = (on_vlua (\<lambda>l. stack_set l res (raw_value s r key)) s, Inr TagDone)"
      using st 2 Suc by (auto simp: option.case_eq_if)
    then show ?thesis using gettable_done [of N "VTable r"] 2 Suc by (simp add: readable_def del: gettable_loop.simps)
  qed (simp add: vfail_def)
next
  case (3 r r' rs)
  note st = gettable_step_table [of s key r N res obj, OF _ assms(2)]
  show ?case
  proof (cases n)
    case (Suc m)
    have "gettable_step N (VTable r) key (resolve_gettable_key (v_heap s) key) res obj s = (s, Inr (TagContinue (VTable r')))"
      using st 3(3,4) by (simp add: index_tm_def vret_def)
    then show ?thesis using gettable_continue 3 Suc by (simp add: readable_def del: gettable_loop.simps)
  qed (simp add: vfail_def)
qed

text \<open>C15. Indexing follows \<open>__index\<close>: the register gets the value of the first table on the chain that has one, nil if
  none has and the last has no \<open>__index\<close>, and nothing else changes. The chain may repeat tables; when it leads to more
  than a hundred, as one that runs into a cycle does, it is an error, and nothing changes.\<close>

theorem index_follows_chain:
  assumes "\<forall>r \<in> set rs. readable s key r" "\<not> v_taint_mode s" "index_chain s key rs"
    "length rs \<le> 100 \<Longrightarrow> raw_value s (last rs) key = VNil \<Longrightarrow> index_of s (last rs) = None"
    "vm_gettable N (VTable (hd rs)) key res obj global s = (s1, r)"
  shows "v_heap s1 = v_heap s \<and> (if length rs \<le> 100 then r = Inr ()
      \<and> (\<forall>j. stack_get (v_lua s1) j = (if j = res then raw_value s (last rs) key else stack_get (v_lua s) j))
    else r = Inl (EMsg ''loop in gettable'') \<and> (\<forall>j. stack_get (v_lua s1) j = stack_get (v_lua s) j))"
proof -
  let ?s = "on_vlua (\<lambda>l. l\<lparr>syntactic_global_lookup := global\<rparr>) s"
  have h: "v_heap ?s = v_heap s" "s_heap (v_sec ?s) = s_heap (v_sec s)" "stack_get (v_lua ?s) j = stack_get (v_lua s) j" "v_taint_mode ?s = v_taint_mode s" for j
    by (simp_all add: stack_get_def on_vlua_def)
  have e: "raw_value ?s = raw_value s" by (simp add: fun_eq_iff raw_value_def h split: option.split)
  have e': "index_of ?s = index_of s" unfolding index_of_def [abs_def] e h ..
  have c: "index_chain ?s key rs = index_chain s key rs" by (induction rs rule: induct_list012) (simp_all add: e e')
  have "is_secret_value (v_sec ?s) v = is_secret_value (v_sec s) v" "state_is_secure (v_lua ?s) = state_is_secure (v_lua s)" for v
    by (simp_all add: is_secret_value_def secret_of_def state_is_secure_def split: Val.split)
  then have a: "readable ?s key = readable s key"
    by (simp add: fun_eq_iff readable_def sound_table_def h check_table_access_def table_wraps_contents_def split: option.split)
  have l: "gettable_loop MAXTAGLOOP N (VTable (hd rs)) False key (resolve_gettable_key (v_heap s) key) res obj ?s =
      (if length rs \<le> 100 then (on_vlua (\<lambda>l. stack_set l res (raw_value s (last rs) key)) ?s, Inr ())
       else (?s, Inl (EMsg ''loop in gettable'')))"
    using chain_loop [of rs ?s key MAXTAGLOOP N res obj] assms(1-4) by (simp add: h e e' c a MAXTAGLOOP_def)
  have g: "stack_get (l\<lparr>syntactic_global_lookup := b\<rparr>) j = stack_get l j" for l b j by (simp add: stack_get_def)
  show ?thesis using assms(5) by (auto simp: vm_gettable_def with_gettable_provenance_def l g h split: if_splits)
qed

lemma stack_get_heap: "stack_get (l\<lparr>l_heap := h\<rparr>) j = stack_get l j" by (simp add: stack_get_def)

text \<open>
  An empty table, with a metatable whose \<open>__index\<close> is a table with a value at 1; and a table that is its own metatable
  and its own \<open>__index\<close>.
\<close>

definition index_entry :: "GcRef \<Rightarrow> table" where
  "index_entry r = table_new\<lparr>nodes := [\<lparr>nkey = VStr (GcRef 0 0), nvalue = VTable r, nnext = None\<rparr>]\<rparr>"

definition demo_index_heap :: heap where
  "demo_index_heap = (let
     s = fst (alloc arena_new \<lparr>shash = 0, sdata = ascii ''__index''\<rparr> White0);
     t0 = fst (alloc arena_new (set_metatable table_new (Some (GcRef 2 0))) White0);
     t1 = fst (alloc t0 (table_new\<lparr>arr := [VBool True]\<rparr>) White0);
     t2 = fst (alloc t1 (index_entry (GcRef 1 0)) White0);
     t3 = fst (alloc t2 (set_metatable (index_entry (GcRef 3 0)) (Some (GcRef 3 0))) White0)
   in (l_heap lua_new)\<lparr>h_string_arena := s, h_tables := t3, h_tm_names := Some (GcRef 0 0) # replicate 16 None\<rparr>)"

definition demo_index :: vm where
  "demo_index = on_vheap (\<lambda>_. demo_index_heap) demo_vm"

lemma demo_index_tables:
  "get (h_tables (v_heap demo_index)) (GcRef 0 0) = Some (set_metatable table_new (Some (GcRef 2 0)))"
  "get (h_tables (v_heap demo_index)) (GcRef 1 0) = Some (table_new\<lparr>arr := [VBool True]\<rparr>)"
  "get (h_tables (v_heap demo_index)) (GcRef 2 0) = Some (index_entry (GcRef 1 0))"
  "get (h_tables (v_heap demo_index)) (GcRef 3 0) = Some (set_metatable (index_entry (GcRef 3 0)) (Some (GcRef 3 0)))"
  "h_tm_names (v_heap demo_index) = Some (GcRef 0 0) # replicate 16 None" "s_contents_policy (v_sec demo_index) = False"
  "get (h_string_arena (v_heap demo_index)) (GcRef 0 0) = Some \<lparr>shash = 0, sdata = ascii ''__index''\<rparr>"
  "call_stack (v_lua demo_index) = call_stack lua_new" "l_ci (v_lua demo_index) = 0" "v_taint_mode demo_index = False"
  by (simp_all add: demo_index_def on_vheap_def demo_index_heap_def demo_vm_def get_def alloc_def arena_new_def Let_def)

lemma index_entry_inv:
  assumes "get strings (GcRef 0 0) \<noteq> None" "m = tmeta t'" "t' = (index_entry r)\<lparr>tmeta := m, tflags := 0\<rparr>"
  shows "table_inv strings t'"
proof -
  have "pow2_size 1" unfolding pow2_size_def by (rule exI [of _ 0]) simp
  from hp.home_range [OF this] have "val_main_position strings 1 k = 0" for k by simp
  then have "hp.scattered strings (nodes (index_entry r))"
    using assms(1)
    by (auto simp: hp.scattered_def pow2_size_def links_ok_def keys_ok_def homes_ok_def index_entry_def dead_key_def link_def
        is_nan_val_def nth_Cons split: nat.splits intro: exI [of _ 0])
  then show ?thesis by (subst assms(3)) (simp add: table_inv_def index_entry_def table_new_def array_slot_def)
qed

lemma demo_sound:
  "sound_table demo_index (set_metatable table_new m)" "sound_table demo_index (table_new\<lparr>arr := [VBool True]\<rparr>)"
  "sound_table demo_index (index_entry r)" "sound_table demo_index (set_metatable (index_entry r) m)"
proof -
  have s: "get (h_string_arena (v_heap demo_index)) (GcRef 0 0) \<noteq> None" by (simp add: demo_index_tables)
  show "sound_table demo_index (set_metatable table_new m)" "sound_table demo_index (table_new\<lparr>arr := [VBool True]\<rparr>)"
    by (simp_all add: sound_table_def table_inv_def set_metatable_def table_new_def MAXASIZE_def MAXBITS_def)
  show "sound_table demo_index (index_entry r)" "sound_table demo_index (set_metatable (index_entry r) m)"
    unfolding sound_table_def
    by (rule index_entry_inv [OF s refl, where r = r], simp add: index_entry_def set_metatable_def table_new_def)+
qed

lemma demo_readable: "r \<in> {GcRef 0 0, GcRef 1 0, GcRef 3 0} \<Longrightarrow> readable demo_index key r"
proof -
  have "list_all (\<lambda>f. ci_taint f = None) (call_stack lua_new)"
    by (simp add: lua_new_def Let_def split_beta call_info_new_def)
  then have secure: "state_is_secure (v_lua demo_index)"
    by (auto simp: state_is_secure_def demo_index_tables list_all_iff dest: in_set_takeD)
  have flags: "security_flags (set_metatable table_new m) = 0" "security_flags (table_new\<lparr>arr := a\<rparr>) = 0"
    "security_flags (set_metatable (index_entry r) m) = 0" "tmeta (set_metatable t m) = m" "tmeta (table_new\<lparr>arr := a\<rparr>) = None"
    "tflags (set_metatable t m) = 0" "tflags (index_entry r) = 0" for m a r t
    by (simp_all add: set_metatable_def table_new_def index_entry_def)
  show "r \<in> {GcRef 0 0, GcRef 1 0, GcRef 3 0} \<Longrightarrow> readable demo_index key r"
    by (auto simp: readable_def check_table_access_def demo_index_tables table_wraps_contents_def secure flags demo_sound)
qed

lemma demo_index_values:
  "raw_value demo_index (GcRef 0 0) (VNum (f64_of_int 1)) = VNil"
  "raw_value demo_index (GcRef 1 0) (VNum (f64_of_int 1)) = VBool True"
  "raw_value demo_index (GcRef 3 0) (VNum (f64_of_int 1)) = VNil"
  "index_of demo_index (GcRef 0 0) = Some (VTable (GcRef 1 0))" "index_of demo_index (GcRef 3 0) = Some (VTable (GcRef 3 0))"
proof -
  have "abs_get (set_metatable table_new (Some (GcRef 2 0))) (VNum (f64_of_int 1)) = VNil"
    "abs_get (table_new\<lparr>arr := [VBool True]\<rparr>) (VNum (f64_of_int 1)) = VBool True"
    "abs_get (set_metatable (index_entry (GcRef 3 0)) (Some (GcRef 3 0))) (VNum (f64_of_int 1)) = VNil"
    "abs_get (index_entry (GcRef 1 0)) (VStr (GcRef 0 0)) = VTable (GcRef 1 0)"
    "abs_get (set_metatable (index_entry (GcRef 3 0)) (Some (GcRef 3 0))) (VStr (GcRef 0 0)) = VTable (GcRef 3 0)"
    by code_simp+
  moreover have "tmeta (set_metatable t m) = m" for t m by (simp add: set_metatable_def)
  ultimately show "raw_value demo_index (GcRef 0 0) (VNum (f64_of_int 1)) = VNil"
    "raw_value demo_index (GcRef 1 0) (VNum (f64_of_int 1)) = VBool True"
    "raw_value demo_index (GcRef 3 0) (VNum (f64_of_int 1)) = VNil"
    "index_of demo_index (GcRef 0 0) = Some (VTable (GcRef 1 0))" "index_of demo_index (GcRef 3 0) = Some (VTable (GcRef 3 0))"
    by (simp_all add: raw_value_def index_of_def demo_index_tables)
qed

lemma demo_cycle: "index_chain demo_index (VNum (f64_of_int 1)) (replicate (Suc n) (GcRef 3 0))"
  by (induction n) (simp_all add: demo_index_values)

lemma index_follows_chain_witness:
  "stack_get (v_lua (fst (vm_gettable (activations 0 demo_platform) (VTable (GcRef 0 0)) (VNum (f64_of_int 1)) 3 None False demo_index))) 3
      = VBool True
   \<and> snd (vm_gettable (activations 0 demo_platform) (VTable (GcRef 3 0)) (VNum (f64_of_int 1)) 3 None False demo_index)
      = Inl (EMsg ''loop in gettable'')"
proof -
  let ?k = "VNum (f64_of_int 1)" and ?rs = "[GcRef 0 0, GcRef 1 0]" and ?cs = "replicate 101 (GcRef 3 0)"
  obtain s1 r where v: "vm_gettable (activations 0 demo_platform) (VTable (hd ?rs)) ?k 3 None False demo_index = (s1, r)"
    by (metis surj_pair)
  obtain s2 r2 where w: "vm_gettable (activations 0 demo_platform) (VTable (hd ?cs)) ?k 3 None False demo_index = (s2, r2)"
    by (metis surj_pair)
  have n: "\<not> v_taint_mode demo_index" by (simp add: demo_index_tables)
  have c: "index_chain demo_index ?k ?rs" by (simp add: demo_index_values)
  have d: "index_chain demo_index ?k ?cs" using demo_cycle [of 100] by simp
  have "stack_get (v_lua s1) 3 = VBool True"
    using index_follows_chain [OF _ n c _ v] by (simp add: demo_readable demo_index_values)
  moreover have "r2 = Inl (EMsg ''loop in gettable'')"
    using index_follows_chain [OF _ n d _ w] by (simp add: demo_readable)
  ultimately show ?thesis using v w by simp
qed

lemma concat_renders_witness:
  "\<exists>s x. map_option sdata (get (h_string_arena (v_heap (fst (vm_concat demo_platform (activations 0 demo_platform) 1 0 1 s)))) x) = Some [49, 50]
     \<and> stack_get (v_lua (fst (vm_concat demo_platform (activations 0 demo_platform) 1 0 1 s))) 1 = VStr x"
proof -
  define s where "s = on_vheap (\<lambda>h. h\<lparr>h_strings := string_table_new, h_string_arena := arena_new\<rparr>) (demo_for 1 2 3)"
  have vals: "stack_slice (v_lua s) (1 + 0) (1 + 1 + 1) = [VNum (f64_of_int 1), VNum (f64_of_int 2)]"
    by (simp add: stack_slice_def s_def on_vheap_def demo_for_def upt_rec stack_get_heap)
  have h: "h_strings (v_heap s) = string_table_new" "h_string_arena (v_heap s) = arena_new"
    by (simp_all add: s_def on_vheap_def)
  have "rendering demo_platform (v_heap s) (VNum (f64_of_int 1)) = append_lua_number_bytes (\<lambda>_. 0) [] (f64_of_int 1)"
    "rendering demo_platform (v_heap s) (VNum (f64_of_int 2)) = append_lua_number_bytes (\<lambda>_. 0) [] (f64_of_int 2)"
    by (simp_all add: rendering_def val_to_string_bytes_def demo_platform_def)
  moreover have "append_lua_number_bytes (\<lambda>_. 0) [] (f64_of_int 1) = [49]" "append_lua_number_bytes (\<lambda>_. 0) [] (f64_of_int 2) = [50]"
    by code_simp+
  ultimately have t: "[49, 50] = concat (map (rendering demo_platform (v_heap s)) (stack_slice (v_lua s) (1 + 0) (1 + 1 + 1)))"
    unfolding vals by simp
  obtain s1 r where v: "vm_concat demo_platform (activations 0 demo_platform) 1 0 1 s = (s1, r)" by (metis surj_pair)
  have "\<exists>x. stack_get (v_lua s1) (1 + 0) = VStr x \<and> map_option sdata (get (h_string_arena (v_heap s1)) x) = Some [49, 50]"
    using concat_renders [OF _ _ _ _ _ t v] unfolding vals h
    by (simp add: is_string_or_number_def MAX_CONCAT_SIZE_def st_inv_new demo_room)
  then show ?thesis using v by (intro exI [of _ s]) auto
qed

end
