(* ===== verification/Syntax.thy ===== *)
theory Syntax
  imports ExecState
begin

text \<open>
  Tokens and the syntax tree, \<^verbatim>\<open>src/compiler/token.rs\<close> and
  \<^verbatim>\<open>src/compiler/ast.rs\<close>, and the operations of a compilation: each takes a state and gives the
  next one with a result or a failure.
\<close>

section \<open>Failures and operations\<close>

text \<open>A syntax error with its source and line and, for bytes that are no text, the whole message in raw form.\<close>

datatype syntax_error = SyntaxError (se_message: "u8 list") (se_source: rstring) (se_line: u32) (se_raw: "u8 list option")

datatype failure = FSyntax syntax_error | FReader nat | FPanic | FFuel

type_synonym ('s, 'a) op = "'s \<Rightarrow> 's \<times> (failure, 'a) res"

definition oret :: "'a \<Rightarrow> ('s, 'a) op" where "oret x s = (s, Inr x)"
definition ofail :: "failure \<Rightarrow> ('s, 'a) op" where "ofail e s = (s, Inl e)"
definition oget :: "('s \<Rightarrow> 'a) \<Rightarrow> ('s, 'a) op" where "oget f s = (s, Inr (f s))"
definition omod :: "('s \<Rightarrow> 's) \<Rightarrow> ('s, unit) op" where "omod f s = (f s, Inr ())"

definition obind :: "('s, 'a) op \<Rightarrow> ('a \<Rightarrow> ('s, 'b) op) \<Rightarrow> ('s, 'b) op" where
  "obind m f s = (case m s of (s1, Inl e) \<Rightarrow> (s1, Inl e) | (s1, Inr x) \<Rightarrow> f x s1)"

definition othen :: "('s, 'a) op \<Rightarrow> ('s, 'b) op \<Rightarrow> ('s, 'b) op" where
  "othen m n = obind m (\<lambda>_. n)"

lemma obind_simps [simp]: "obind (oret x) f = f x" "obind (ofail e) f = ofail e" "obind (oget g) f' = (\<lambda>s. f' (g s) s)"
  "obind (omod h) f'' = (\<lambda>s. f'' () (h s))"
  by (simp_all add: fun_eq_iff obind_def oret_def ofail_def oget_def omod_def)

lemma obind_fail: "m s = (s1, Inl e) \<Longrightarrow> obind m f s = (s1, Inl e)" by (simp add: obind_def)
lemma obind_ok: "m s = (s1, Inr x) \<Longrightarrow> obind m f s = f x s1" by (simp add: obind_def)

section \<open>Tokens\<close>

record Span =
  sp_line :: u32
  sp_column :: u32

datatype Token = T_And | T_Break | T_Do | T_Else | T_ElseIf | T_End | T_False | T_For | T_Function | T_If | T_In | T_Local
  | T_Nil | T_Not | T_Or | T_Repeat | T_Return | T_Then | T_True | T_Until | T_While
  | T_Concat | T_Dots | T_Eq | T_Ge | T_Le | T_Ne
  | T_Number f64 | T_Name rstring | T_Str "u8 list" | T_Char u8 | T_Eos

text \<open>The kind of a token is the token without what a literal carries.\<close>

datatype TokenKind = K_Tok Token | K_Number | K_Name | K_Str | K_Char u8

definition token_kind :: "Token \<Rightarrow> TokenKind" where
  "token_kind t = (case t of T_Number _ \<Rightarrow> K_Number | T_Name _ \<Rightarrow> K_Name | T_Str _ \<Rightarrow> K_Str | T_Char c \<Rightarrow> K_Char c | _ \<Rightarrow> K_Tok t)"

definition lookup_keyword :: "u8 list \<Rightarrow> Token option" where
  "lookup_keyword bs = (if bs = [] then None else
    let n = length bs; c = char_of (unat (hd bs)) in
    if n = 2 then
      (if c = CHR ''d'' then (if bs = ascii ''do'' then Some T_Do else None)
       else if c = CHR ''i'' then (if bs ! 1 = 102 then Some T_If else if bs ! 1 = 110 then Some T_In else None)
       else if c = CHR ''o'' then (if bs ! 1 = 114 then Some T_Or else None) else None)
    else if n = 3 then
      (if bs = ascii ''and'' then Some T_And else if bs = ascii ''end'' then Some T_End
       else if bs = ascii ''for'' then Some T_For else if bs = ascii ''nil'' then Some T_Nil
       else if bs = ascii ''not'' then Some T_Not else None)
    else if n = 4 then
      (if bs = ascii ''else'' then Some T_Else else if bs = ascii ''then'' then Some T_Then
       else if bs = ascii ''true'' then Some T_True else None)
    else if n = 5 then
      (if bs = ascii ''break'' then Some T_Break else if bs = ascii ''false'' then Some T_False
       else if bs = ascii ''local'' then Some T_Local else if bs = ascii ''until'' then Some T_Until
       else if bs = ascii ''while'' then Some T_While else None)
    else if n = 6 then
      (if bs = ascii ''elseif'' then Some T_ElseIf else if bs = ascii ''repeat'' then Some T_Repeat
       else if bs = ascii ''return'' then Some T_Return else None)
    else if bs = ascii ''function'' then Some T_Function else None)"

definition is_control :: "u8 \<Rightarrow> bool" where "is_control c \<longleftrightarrow> c < 32 \<or> c = 127"

text \<open>\<open>char::from (c)\<close> as text.\<close>

definition latin1 :: "u8 \<Rightarrow> u8 list" where
  "latin1 c = (if c < 128 then [c] else [0xC0 OR drop_bit 6 c, 0x80 OR (c AND 63)])"

primrec token2str :: "Token \<Rightarrow> u8 list" where
  "token2str T_And = ascii ''and''" | "token2str T_Break = ascii ''break''" | "token2str T_Do = ascii ''do''"
| "token2str T_Else = ascii ''else''" | "token2str T_ElseIf = ascii ''elseif''" | "token2str T_End = ascii ''end''"
| "token2str T_False = ascii ''false''" | "token2str T_For = ascii ''for''" | "token2str T_Function = ascii ''function''"
| "token2str T_If = ascii ''if''" | "token2str T_In = ascii ''in''" | "token2str T_Local = ascii ''local''"
| "token2str T_Nil = ascii ''nil''" | "token2str T_Not = ascii ''not''" | "token2str T_Or = ascii ''or''"
| "token2str T_Repeat = ascii ''repeat''" | "token2str T_Return = ascii ''return''" | "token2str T_Then = ascii ''then''"
| "token2str T_True = ascii ''true''" | "token2str T_Until = ascii ''until''" | "token2str T_While = ascii ''while''"
| "token2str T_Concat = ascii ''..''" | "token2str T_Dots = ascii ''...''" | "token2str T_Eq = ascii ''==''"
| "token2str T_Ge = ascii ''>=''" | "token2str T_Le = ascii ''<=''" | "token2str T_Ne = ascii ''~=''"
| "token2str (T_Number _) = ascii ''<number>''" | "token2str (T_Name _) = ascii ''<name>''" | "token2str (T_Str _) = ascii ''<string>''"
| "token2str (T_Char c) = (if is_control c then ascii ''char('' @ nat_digits (unat c) @ ascii '')'' else latin1 c)"
| "token2str T_Eos = ascii ''<eof>''"

definition is_block_follow :: "Token \<Rightarrow> bool" where
  "is_block_follow t \<longleftrightarrow> t = T_Else \<or> t = T_ElseIf \<or> t = T_End \<or> t = T_Until \<or> t = T_Eos"

definition quoted :: "u8 list \<Rightarrow> u8 list" where "quoted t = 39 # t @ [39]"

definition near :: "u8 list \<Rightarrow> u8 list \<Rightarrow> u8 list" where "near msg text = msg @ ascii '' near '' @ quoted text"

section \<open>The syntax tree\<close>

datatype BinOp = B_Add | B_Sub | B_Mul | B_Div | B_Mod | B_Pow | B_Concat | B_Lt | B_Le | B_Gt | B_Ge | B_Eq | B_Ne | B_And | B_Or

datatype UnOp = U_Neg | U_Not | U_Len

record FuncName =
  fname_parts :: "rstring list"
  fname_method :: "rstring option"
  fname_span :: Span

datatype Stat = S_Assign "Expr list" "Expr list" Span
  | S_LocalDecl "rstring list" "Expr list" Span
  | S_Do "Stat list" Span u32
  | S_While Expr "Stat list" Span u32
  | S_Repeat "Stat list" Expr Span
  | S_If "Expr list" "Stat list list" "Stat list option" Span u32
  | S_NumericFor rstring Expr Expr "Expr option" "Stat list" Span u32
  | S_GenericFor "rstring list" "Expr list" "Stat list" u32 Span u32
  | S_FuncDecl FuncName FuncBody Span
  | S_LocalFunc rstring FuncBody Span
  | S_Return "Expr list" Span
  | S_Break Span
  | S_ExprStat Expr Span
and Expr = E_Nil Span | E_True Span | E_False Span | E_Number f64 Span | E_Str "u8 list" Span | E_VarArg Span
  | E_Name rstring Span
  | E_BinOp BinOp Expr Expr Span
  | E_UnOp UnOp Expr Span
  | E_Index Expr Expr Span
  | E_Field Expr rstring Span
  | E_MethodCall Expr rstring "Expr list" Span
  | E_Call Expr "Expr list" Span
  | E_FuncDef FuncBody Span
  | E_TableCtor "TableField list" Span
  | E_Paren Expr Span
and TableField = F_Index Expr Expr Span | F_Name rstring Expr Span | F_Value Expr Span
and FuncBody = FuncBody (fb_params: "rstring list") (fb_varargs: bool) (fb_body: "Stat list") (fb_span: Span) (fb_end_line: u32)

primrec stat_span :: "Stat \<Rightarrow> Span" where
  "stat_span (S_Assign _ _ s) = s" | "stat_span (S_LocalDecl _ _ s) = s" | "stat_span (S_Do _ s _) = s"
| "stat_span (S_While _ _ s _) = s" | "stat_span (S_Repeat _ _ s) = s" | "stat_span (S_If _ _ _ s _) = s"
| "stat_span (S_NumericFor _ _ _ _ _ s _) = s" | "stat_span (S_GenericFor _ _ _ _ s _) = s" | "stat_span (S_FuncDecl _ _ s) = s"
| "stat_span (S_LocalFunc _ _ s) = s" | "stat_span (S_Return _ s) = s" | "stat_span (S_Break s) = s" | "stat_span (S_ExprStat _ s) = s"

primrec expr_span :: "Expr \<Rightarrow> Span" where
  "expr_span (E_Nil s) = s" | "expr_span (E_True s) = s" | "expr_span (E_False s) = s" | "expr_span (E_Number _ s) = s"
| "expr_span (E_Str _ s) = s" | "expr_span (E_VarArg s) = s" | "expr_span (E_Name _ s) = s" | "expr_span (E_BinOp _ _ _ s) = s"
| "expr_span (E_UnOp _ _ s) = s" | "expr_span (E_Index _ _ s) = s" | "expr_span (E_Field _ _ s) = s"
| "expr_span (E_MethodCall _ _ _ s) = s" | "expr_span (E_Call _ _ s) = s" | "expr_span (E_FuncDef _ s) = s"
| "expr_span (E_TableCtor _ s) = s" | "expr_span (E_Paren _ s) = s"

end
