(* ===== verification/Lexer.thy ===== *)
theory Lexer
  imports Syntax
begin

text \<open>
  The lexer, \<^verbatim>\<open>src/compiler/lexer.rs\<close>: from bytes, given at once or by a reader in
  chunks, to tokens. A reader is the list of the answers it will give; loops run for as many rounds as bytes are
  left. The C library's \<open>strtod\<close> and decimal point are parameters.
\<close>

section \<open>State\<close>

datatype reader_answer = R_Data "u8 list" | R_End | R_Err nat

record lexer =
  lx_source :: "u8 list"
  lx_pos :: nat
  lx_line :: u32
  lx_column :: u32
  lx_source_name :: rstring
  lx_lookahead :: "(Token \<times> Span) option"
  lx_text :: rstring
  lx_reader :: "reader_answer list option"
  lx_reader_error :: "nat option"
  lx_exhausted :: bool

record lex_env =
  le_strtod :: "u8 list \<Rightarrow> (f64 \<times> nat) option"
  le_decpoint :: u8

type_synonym 'a lop = "(lexer, 'a) op"

definition is_newline :: "u8 \<Rightarrow> bool" where "is_newline c \<longleftrightarrow> c = 10 \<or> c = 13"
definition is_digit :: "u8 \<Rightarrow> bool" where "is_digit c \<longleftrightarrow> 48 \<le> c \<and> c \<le> 57"
definition is_alpha :: "u8 \<Rightarrow> bool" where "is_alpha c \<longleftrightarrow> (65 \<le> c \<and> c \<le> 90) \<or> (97 \<le> c \<and> c \<le> 122)"
definition is_name_char :: "u8 \<Rightarrow> bool" where "is_name_char c \<longleftrightarrow> is_alpha c \<or> is_digit c \<or> c = 95"
definition is_hexdigit :: "u8 \<Rightarrow> bool" where "is_hexdigit c \<longleftrightarrow> hex_value c \<noteq> None"
definition is_blank :: "u8 \<Rightarrow> bool" where "is_blank c \<longleftrightarrow> c = 32 \<or> c = 9 \<or> c = 12 \<or> c = 11"

text \<open>A text given at once; a first line that starts with a hash sign is skipped.\<close>

definition lexer_new :: "u8 list \<Rightarrow> rstring \<Rightarrow> lexer" where
  "lexer_new source name =
    (let shebang = (source \<noteq> [] \<and> hd source = 35);
         line = length (takeWhile (\<lambda>b. \<not> is_newline b) source);
         start = (if shebang then (if line < length source then line + 1 else length source) else 0)
     in \<lparr>lx_source = source, lx_pos = start, lx_line = (if shebang then 2 else 1), lx_column = 1, lx_source_name = name, lx_lookahead = None,
         lx_text = [], lx_reader = None, lx_reader_error = None, lx_exhausted = False\<rparr>)"

definition lexer_from_reader :: "u8 list \<Rightarrow> reader_answer list \<Rightarrow> rstring \<Rightarrow> lexer" where
  "lexer_from_reader first_chunk answers name =
    \<lparr>lx_source = first_chunk, lx_pos = 0, lx_line = 1, lx_column = 1, lx_source_name = name, lx_lookahead = None,
     lx_text = [], lx_reader = Some answers, lx_reader_error = None, lx_exhausted = False\<rparr>"

section \<open>Bytes\<close>

definition refill :: "lexer \<Rightarrow> lexer \<times> bool" where
  "refill l = (if lx_exhausted l then (l, False) else case lx_reader l of
     None \<Rightarrow> (l, False)
   | Some [] \<Rightarrow> (l\<lparr>lx_exhausted := True\<rparr>, False)
   | Some (a # as) \<Rightarrow> (let l1 = l\<lparr>lx_reader := Some as\<rparr> in case a of
       R_Data d \<Rightarrow> if d = [] then (l1\<lparr>lx_exhausted := True\<rparr>, False) else (l1\<lparr>lx_source := lx_source l @ d\<rparr>, True)
     | R_End \<Rightarrow> (l1\<lparr>lx_exhausted := True\<rparr>, False)
     | R_Err e \<Rightarrow> (l1\<lparr>lx_reader_error := Some e, lx_exhausted := True\<rparr>, False)))"

primrec ensure_rounds :: "nat \<Rightarrow> nat \<Rightarrow> lexer \<Rightarrow> lexer \<times> bool" where
  "ensure_rounds 0 needed l = (l, lx_pos l + needed \<le> length (lx_source l))"
| "ensure_rounds (Suc n) needed l = (if lx_pos l + needed \<le> length (lx_source l) then (l, True)
     else case refill l of (l1, False) \<Rightarrow> (l1, False) | (l1, True) \<Rightarrow> ensure_rounds n needed l1)"

definition ensure_available :: "nat \<Rightarrow> lexer \<Rightarrow> lexer \<times> bool" where
  "ensure_available needed l = ensure_rounds (Suc (length (case lx_reader l of None \<Rightarrow> [] | Some as \<Rightarrow> as))) needed l"

definition peek_ahead :: "nat \<Rightarrow> lexer \<Rightarrow> lexer \<times> u8 option" where
  "peek_ahead k l = (if lx_pos l + k < length (lx_source l) then (l, Some (lx_source l ! (lx_pos l + k)))
     else case ensure_available (k + 1) l of
       (l1, True) \<Rightarrow> (l1, Some (lx_source l1 ! (lx_pos l1 + k))) | (l1, False) \<Rightarrow> (l1, None))"

definition peek :: "lexer \<Rightarrow> lexer \<times> u8 option" where
  "peek l = (if lx_pos l < length (lx_source l) then (l, Some (lx_source l ! lx_pos l))
     else case refill l of (l1, ok) \<Rightarrow>
       if ok \<and> lx_pos l1 < length (lx_source l1) then (l1, Some (lx_source l1 ! lx_pos l1)) else (l1, None))"

definition advance :: "lexer \<Rightarrow> lexer \<times> u8 option" where
  "advance l0 = (case (if length (lx_source l0) \<le> lx_pos l0 then refill l0 else (l0, True)) of
     (l, False) \<Rightarrow> (l, None)
   | (l, True) \<Rightarrow>
      (let c = lx_source l ! lx_pos l;
           l1 = l\<lparr>lx_pos := lx_pos l + 1, lx_column := (if is_newline c then lx_column l else lx_column l + 1)\<rparr>;
           l2 = (if lx_reader l1 \<noteq> None \<and> length (lx_source l1) \<le> lx_pos l1 then fst (refill l1) else l1)
       in (l2, Some c)))"

definition inc_line :: "lexer \<Rightarrow> lexer" where
  "inc_line l0 = (case peek l0 of (l, old) \<Rightarrow> case peek (l\<lparr>lx_pos := lx_pos l + 1\<rparr>) of (l1, c) \<Rightarrow>
     (let l2 = (case c of Some b \<Rightarrow> if is_newline b \<and> b \<noteq> (case old of None \<Rightarrow> 0 | Some o' \<Rightarrow> o')
                  then l1\<lparr>lx_pos := lx_pos l1 + 1\<rparr> else l1 | None \<Rightarrow> l1)
      in l2\<lparr>lx_line := lx_line l2 + 1, lx_column := 1\<rparr>))"

text \<open>The bytes that are left, in the buffer and with the reader.\<close>

definition pending :: "lexer \<Rightarrow> u8 list" where
  "pending l = (if lx_exhausted l then [] else case lx_reader l of None \<Rightarrow> []
     | Some as \<Rightarrow> concat (map (\<lambda>a. case a of R_Data d \<Rightarrow> d | _ \<Rightarrow> [])
         (takeWhile (\<lambda>a. case a of R_Data d \<Rightarrow> d \<noteq> [] | _ \<Rightarrow> False) as)))"

definition rest_bytes :: "lexer \<Rightarrow> u8 list" where
  "rest_bytes l = drop (lx_pos l) (lx_source l @ pending l)"

definition rounds :: "lexer \<Rightarrow> nat" where "rounds l = Suc (length (rest_bytes l))"

definition l_peek :: "u8 option lop" where "l_peek l = (case peek l of (l1, c) \<Rightarrow> (l1, Inr c))"
definition l_advance :: "unit lop" where "l_advance l = (fst (advance l), Inr ())"
definition l_inc_line :: "unit lop" where "l_inc_line l = (inc_line l, Inr ())"

definition peek_is :: "(u8 \<Rightarrow> bool) \<Rightarrow> bool lop" where
  "peek_is p = obind l_peek (\<lambda>c. oret (case c of None \<Rightarrow> False | Some b \<Rightarrow> p b))"

primrec skip_while_n :: "nat \<Rightarrow> (u8 \<Rightarrow> bool) \<Rightarrow> unit lop" where
  "skip_while_n 0 p = ofail FFuel"
| "skip_while_n (Suc n) p = obind (peek_is p) (\<lambda>b. if b then othen l_advance (skip_while_n n p) else oret ())"

definition skip_while :: "(u8 \<Rightarrow> bool) \<Rightarrow> unit lop" where
  "skip_while p l = skip_while_n (rounds l) p l"

section \<open>Errors\<close>

definition lex_error :: "u8 list \<Rightarrow> 'a lop" where
  "lex_error msg l = (l, Inl (FSyntax (SyntaxError msg (lx_source_name l) (lx_line l) None)))"

definition lex_error_near :: "string \<Rightarrow> u8 list \<Rightarrow> 'a lop" where
  "lex_error_near msg text = lex_error (near (ascii msg) text)"

section \<open>Spaces and names\<close>

text \<open>In a text given at once the code looks through the bytes themselves.\<close>

definition fast_skip :: "(u8 \<Rightarrow> bool) \<Rightarrow> lexer \<Rightarrow> lexer" where
  "fast_skip p l = (let n = length (takeWhile p (drop (lx_pos l) (lx_source l)))
     in l\<lparr>lx_pos := lx_pos l + n, lx_column := lx_column l + of_nat n\<rparr>)"

definition skip_whitespace :: "unit lop" where
  "skip_whitespace l = (if lx_reader l = None then (fast_skip is_blank l, Inr ()) else skip_while is_blank l)"

definition scan_name_extent :: "(nat \<times> nat) lop" where
  "scan_name_extent l = (let start = lx_pos l in
     if lx_reader l = None then (let l1 = fast_skip is_name_char l in (l1, Inr (start, lx_pos l1)))
     else othen (skip_while is_name_char) (oget (\<lambda>l. (start, lx_pos l))) l)"

definition source_slice :: "nat \<Rightarrow> nat \<Rightarrow> lexer \<Rightarrow> u8 list" where
  "source_slice a b l = take (b - a) (drop a (lx_source l))"

section \<open>Numbers\<close>

definition parse_decimal :: "lex_env \<Rightarrow> u8 list \<Rightarrow> f64 option" where
  "parse_decimal E bs = (case libc_strtod (le_strtod E) bs of
     None \<Rightarrow> None | Some (v, n) \<Rightarrow> if n = length bs then Some v else None)"

definition try_decimal :: "lex_env \<Rightarrow> u8 list \<Rightarrow> f64 option" where
  "try_decimal E bs = (case parse_decimal E bs of Some v \<Rightarrow> Some v
     | None \<Rightarrow> if le_decpoint E \<noteq> 46 then parse_decimal E (map (\<lambda>b. if b = 46 then le_decpoint E else b) bs) else None)"

definition set_text :: "u8 list \<Rightarrow> unit lop" where
  "set_text t = omod (\<lambda>l. l\<lparr>lx_text := t\<rparr>)"

definition hex_prefixed :: "nat \<Rightarrow> lexer \<Rightarrow> bool" where
  "hex_prefixed start l \<longleftrightarrow> 2 \<le> lx_pos l - start \<and> lx_source l ! start = 48
     \<and> (lx_source l ! (start + 1) = 120 \<or> lx_source l ! (start + 1) = 88)"

definition read_number :: "lex_env \<Rightarrow> u8 \<Rightarrow> f64 lop" where
  "read_number E first l0 = (let start = (if first = 46 then lx_pos l0 - 1 else lx_pos l0) in
     othen (if first \<noteq> 46 then l_advance else oret ())
     (othen (skip_while (\<lambda>c. is_digit c \<or> c = 46))
     (obind (oget (hex_prefixed start)) (\<lambda>is_hex.
      othen (if is_hex then skip_while is_hexdigit else oret ())
     (obind (peek_is (\<lambda>c. c = 101 \<or> c = 69)) (\<lambda>exponent.
      othen (if exponent then othen l_advance (obind (peek_is (\<lambda>c. c = 43 \<or> c = 45)) (\<lambda>sign. if sign then l_advance else oret ()))
             else oret ())
     (othen (skip_while is_name_char)
     (obind (oget (\<lambda>l. source_slice start (lx_pos l) l)) (\<lambda>bs.
      let text = utf8_lossy bs in othen (set_text text)
       (if is_hex then (case from_str_radix16 (drop 2 text) of
            Some v \<Rightarrow> oret (f64_of_int (int v)) | None \<Rightarrow> lex_error_near ''malformed number'' text)
        else case try_decimal E bs of Some v \<Rightarrow> oret v | None \<Rightarrow> lex_error_near ''malformed number'' text))))))))) l0)"

section \<open>Short strings\<close>

text \<open>\<open>char::from_u32\<close> of at most 16 bits, encoded.\<close>

definition encode_char :: "nat \<Rightarrow> u8 list option" where
  "encode_char c = (if 0xD800 \<le> c \<and> c < 0xE000 then None
     else if c < 0x80 then Some [of_nat c]
     else if c < 0x800 then Some [of_nat (0xC0 + c div 64), of_nat (0x80 + c mod 64)]
     else Some [of_nat (0xE0 + c div 4096), of_nat (0x80 + c div 64 mod 64), of_nat (0x80 + c mod 64)])"

definition read_hex_escape_digit :: "string \<Rightarrow> nat lop" where
  "read_hex_escape_digit message = obind l_peek (\<lambda>c. case c of
     None \<Rightarrow> lex_error_near message (ascii ''<string>'')
   | Some b \<Rightarrow> (case hex_value b of
       None \<Rightarrow> lex_error_near message (ascii ''<string>'')
     | Some d \<Rightarrow> othen l_advance (oret d)))"

definition read_hex_escape_byte :: "u8 lop" where
  "read_hex_escape_byte = obind (read_hex_escape_digit ''invalid hex escape'') (\<lambda>high.
     obind (read_hex_escape_digit ''invalid hex escape'') (\<lambda>low. oret (of_nat (16 * high + low))))"

primrec unicode_digits :: "nat \<Rightarrow> nat \<Rightarrow> nat lop" where
  "unicode_digits 0 acc = oret acc"
| "unicode_digits (Suc n) acc = obind (read_hex_escape_digit ''invalid unicode escape'') (\<lambda>d. unicode_digits n (16 * acc + d))"

definition read_unicode_escape_char :: "u8 list lop" where
  "read_unicode_escape_char = obind (unicode_digits 4 0) (\<lambda>c. case encode_char c of
     None \<Rightarrow> lex_error_near ''invalid unicode escape'' (ascii ''<string>'') | Some bs \<Rightarrow> oret bs)"

primrec decimal_digits :: "nat \<Rightarrow> nat \<Rightarrow> nat lop" where
  "decimal_digits 0 acc = oret acc"
| "decimal_digits (Suc n) acc = obind l_peek (\<lambda>c. case c of
     None \<Rightarrow> oret acc
   | Some b \<Rightarrow> if is_digit b then othen l_advance (decimal_digits n (10 * acc + (unat b - 48))) else oret acc)"

definition push_decimal_escape :: "u8 list lop" where
  "push_decimal_escape = obind (decimal_digits 3 0) (\<lambda>v.
     if 255 < v then lex_error_near ''escape sequence too large'' (ascii ''<string>'') else oret [of_nat v])"

text \<open>The byte a letter stands for after a backslash.\<close>

definition escape_letter :: "u8 \<Rightarrow> u8" where
  "escape_letter b = (if b = 97 then 7 else if b = 98 then 8 else if b = 102 then 12 else if b = 110 then 10
     else if b = 114 then 13 else if b = 116 then 9 else if b = 118 then 11 else b)"

text \<open>What an escape adds to the string.\<close>

definition read_short_string_escape :: "u8 list lop" where
  "read_short_string_escape = obind l_peek (\<lambda>c. case c of
     None \<Rightarrow> lex_error_near ''unfinished string'' (ascii ''<eof>'')
   | Some b \<Rightarrow>
       if b = 120 then othen l_advance (obind read_hex_escape_byte (\<lambda>x. oret [x]))
       else if b = 117 then othen l_advance read_unicode_escape_char
       else if is_newline b then othen l_inc_line (oret [10])
       else if is_digit b then push_decimal_escape
       else othen l_advance (oret [escape_letter b]))"

primrec short_string_n :: "nat \<Rightarrow> u8 \<Rightarrow> u8 list \<Rightarrow> u8 list lop" where
  "short_string_n 0 delimiter buf = ofail FFuel"
| "short_string_n (Suc n) delimiter buf = obind l_peek (\<lambda>c. case c of
     None \<Rightarrow> lex_error_near ''unfinished string'' (ascii ''<eof>'')
   | Some b \<Rightarrow>
       if is_newline b then lex_error_near ''unfinished string'' (ascii ''<string>'')
       else if b = delimiter then othen l_advance (oret buf)
       else if b = 92 then othen l_advance (obind read_short_string_escape (\<lambda>x. short_string_n n delimiter (buf @ x)))
       else othen l_advance (short_string_n n delimiter (buf @ [b])))"

definition read_short_string :: "u8 \<Rightarrow> u8 list lop" where
  "read_short_string delimiter = othen l_advance (\<lambda>l. short_string_n (rounds l) delimiter [] l)"

section \<open>Long strings\<close>

definition l_peek_ahead :: "nat \<Rightarrow> u8 option lop" where
  "l_peek_ahead k l = (case peek_ahead k l of (l1, c) \<Rightarrow> (l1, Inr c))"

primrec count_equals :: "nat \<Rightarrow> nat \<Rightarrow> nat lop" where
  "count_equals 0 i = ofail FFuel"
| "count_equals (Suc n) i = obind (l_peek_ahead i) (\<lambda>c. if c = Some 61 then count_equals n (i + 1) else oret i)"

text \<open>The level of a long bracket, or whether equal signs follow (\<open>- 1\<close>) or not (\<open>- 2\<close>).\<close>

definition count_sep :: "int lop" where
  "count_sep l = obind (count_equals (rounds l) 1) (\<lambda>i. obind (l_peek_ahead i) (\<lambda>c.
     oret (if c = Some 91 then int i - 1 else if 1 < i then - 1 else - 2))) l"

primrec equals_then :: "nat \<Rightarrow> nat \<Rightarrow> bool lop" where
  "equals_then 0 i = obind (l_peek_ahead i) (\<lambda>c. oret (c = Some 93))"
| "equals_then (Suc n) i = obind (l_peek_ahead i) (\<lambda>c. if c = Some 61 then equals_then n (i + 1) else oret False)"

definition check_closing_long_bracket :: "nat \<Rightarrow> bool lop" where
  "check_closing_long_bracket sep = obind (peek_is (\<lambda>c. c = 93)) (\<lambda>b. if b then equals_then sep 1 else oret False)"

definition skip_bracket :: "nat \<Rightarrow> unit lop" where
  "skip_bracket sep = omod (\<lambda>l. l\<lparr>lx_pos := lx_pos l + (2 + sep), lx_column := lx_column l + of_nat (2 + sep)\<rparr>)"

primrec long_string_n :: "nat \<Rightarrow> nat \<Rightarrow> bool \<Rightarrow> u8 list \<Rightarrow> u8 list lop" where
  "long_string_n 0 sep is_comment buf = ofail FFuel"
| "long_string_n (Suc n) sep is_comment buf = obind l_peek (\<lambda>c. case c of
     None \<Rightarrow> lex_error_near (''unfinished long '' @ (if is_comment then ''comment'' else ''string'')) (ascii ''<eof>'')
   | Some b \<Rightarrow>
       if is_newline b then othen l_inc_line (long_string_n n sep is_comment (buf @ [10]))
       else if b = 93 then obind (check_closing_long_bracket sep) (\<lambda>closing.
         if closing then othen (skip_bracket sep) (oret (if is_comment then [] else buf))
         else othen l_advance (long_string_n n sep is_comment (if is_comment then buf else buf @ [93])))
       else othen l_advance (long_string_n n sep is_comment (if is_comment then buf else buf @ [b])))"

definition read_long_string :: "nat \<Rightarrow> bool \<Rightarrow> u8 list lop" where
  "read_long_string sep is_comment = othen (skip_bracket sep)
     (obind (peek_is is_newline) (\<lambda>b. othen (if b then l_inc_line else oret ()) (\<lambda>l. long_string_n (rounds l) sep is_comment [] l)))"

section \<open>Tokens\<close>

definition take_reader_error :: "unit lop" where
  "take_reader_error l = (case lx_reader_error l of None \<Rightarrow> (l, Inr ()) | Some e \<Rightarrow> (l\<lparr>lx_reader_error := None\<rparr>, Inl (FReader e)))"

definition current_span :: "lexer \<Rightarrow> Span" where
  "current_span l = \<lparr>sp_line = lx_line l, sp_column = lx_column l\<rparr>"

text \<open>A token, or \<open>None\<close> for a newline or a comment, after which the scan goes on.\<close>

definition scan_comment :: "Token option lop" where
  "scan_comment = othen l_advance (obind (peek_is (\<lambda>c. c = 45)) (\<lambda>b.
     if \<not> b then oret (Some (T_Char 45))
     else othen l_advance (obind (peek_is (\<lambda>c. c = 91)) (\<lambda>bracket.
       obind (if bracket then count_sep else oret (- 2)) (\<lambda>sep.
       if 0 \<le> sep then othen (obind (read_long_string (nat sep) True) (\<lambda>_. oret ())) (oret None)
       else othen (skip_while (\<lambda>c. \<not> is_newline c)) (oret None))))))"

definition text_from :: "nat \<Rightarrow> unit lop" where
  "text_from start l = set_text (utf8_lossy (source_slice start (lx_pos l) l)) l"

definition scan_bracket :: "nat \<Rightarrow> Token option lop" where
  "scan_bracket start = obind count_sep (\<lambda>sep.
     if 0 \<le> sep then obind (read_long_string (nat sep) False) (\<lambda>s. othen (text_from start) (oret (Some (T_Str s))))
     else if sep = - 1 then lex_error_near ''invalid long string delimiter'' [91]
     else othen l_advance (oret (Some (T_Char 91))))"

definition one_or_two :: "u8 \<Rightarrow> Token \<Rightarrow> Token option lop" where
  "one_or_two c two = othen l_advance (obind (peek_is (\<lambda>b. b = 61)) (\<lambda>b.
     if b then othen l_advance (oret (Some two)) else oret (Some (T_Char c))))"

definition scan_tilde :: "Token option lop" where
  "scan_tilde = othen l_advance (obind (peek_is (\<lambda>b. b = 61)) (\<lambda>b.
     if b then othen l_advance (oret (Some T_Ne)) else lex_error_near ''unexpected symbol'' [126]))"

definition scan_dots :: "lex_env \<Rightarrow> Token option lop" where
  "scan_dots E = othen l_advance (obind (peek_is (\<lambda>b. b = 46)) (\<lambda>b.
     if b then othen l_advance (obind (peek_is (\<lambda>b. b = 46)) (\<lambda>b.
       if b then othen l_advance (oret (Some T_Dots)) else oret (Some T_Concat)))
     else obind (peek_is is_digit) (\<lambda>d.
       if d then obind (read_number E 46) (\<lambda>v. oret (Some (T_Number v))) else oret (Some (T_Char 46)))))"

definition scan_name :: "Token option lop" where
  "scan_name = obind scan_name_extent (\<lambda>(a, b). obind (oget (source_slice a b)) (\<lambda>bs. oret (Some (case lookup_keyword bs of
     Some kw \<Rightarrow> kw | None \<Rightarrow> T_Name bs))))"

definition scan_at :: "lex_env \<Rightarrow> nat \<Rightarrow> u8 \<Rightarrow> Token option lop" where
  "scan_at E start c =
    (if is_newline c then othen l_inc_line (oret None)
     else if c = 45 then scan_comment
     else if c = 91 then scan_bracket start
     else if c = 61 then one_or_two 61 T_Eq
     else if c = 60 then one_or_two 60 T_Le
     else if c = 62 then one_or_two 62 T_Ge
     else if c = 126 then scan_tilde
     else if c = 46 then scan_dots E
     else if c = 34 \<or> c = 39 then obind (read_short_string c) (\<lambda>s. othen (text_from start) (oret (Some (T_Str s))))
     else if is_digit c then obind (read_number E c) (\<lambda>v. oret (Some (T_Number v)))
     else if is_alpha c \<or> c = 95 then scan_name
     else othen l_advance (oret (Some (T_Char c))))"

primrec scan_n :: "nat \<Rightarrow> lex_env \<Rightarrow> (Token \<times> Span) lop" where
  "scan_n 0 E = ofail FFuel"
| "scan_n (Suc n) E = othen take_reader_error (othen skip_whitespace (othen take_reader_error
     (obind (oget current_span) (\<lambda>span. obind (oget lx_pos) (\<lambda>start. obind l_peek (\<lambda>c. case c of
        None \<Rightarrow> othen take_reader_error (oret (T_Eos, span))
      | Some b \<Rightarrow> obind (scan_at E start b) (\<lambda>t. case t of Some tok \<Rightarrow> oret (tok, span) | None \<Rightarrow> scan_n n E)))))))"

definition scan :: "lex_env \<Rightarrow> (Token \<times> Span) lop" where
  "scan E l = scan_n (rounds l) E l"

definition next_token :: "lex_env \<Rightarrow> (Token \<times> Span) lop" where
  "next_token E l = (case lx_lookahead l of Some t \<Rightarrow> (l\<lparr>lx_lookahead := None\<rparr>, Inr t) | None \<Rightarrow> scan E l)"

definition lookahead :: "lex_env \<Rightarrow> Token lop" where
  "lookahead E l = (case lx_lookahead l of Some t \<Rightarrow> (l, Inr (fst t))
     | None \<Rightarrow> obind (scan E) (\<lambda>t. othen (omod (\<lambda>l. l\<lparr>lx_lookahead := Some t\<rparr>)) (oret (fst t))) l)"

end
