(* ===== verification/LexProps.thy ===== *)
theory LexProps
  imports Lexer
begin

text \<open>
  The lexer ends on every text, reads back the strings that \<^verbatim>\<open>string.format\<close> quotes, and
  gives the same tokens whether a text comes at once or in chunks.
\<close>

section \<open>A text given at once\<close>

definition whole :: "lexer \<Rightarrow> bool" where
  "whole l \<longleftrightarrow> lx_reader l = None \<and> lx_reader_error l = None \<and> lx_pos l \<le> length (lx_source l)"

definition at :: "lexer \<Rightarrow> u8 option" where
  "at l = (if lx_pos l < length (lx_source l) then Some (lx_source l ! lx_pos l) else None)"

definition left :: "lexer \<Rightarrow> nat" where "left l = length (lx_source l) - lx_pos l"

lemma refill_whole [simp]: "whole l \<Longrightarrow> refill l = (l, False)"
  by (simp add: refill_def whole_def)

lemma peek_whole [simp]: "whole l \<Longrightarrow> peek l = (l, at l)"
  by (simp add: peek_def at_def)

lemma l_peek_whole [simp]: "whole l \<Longrightarrow> l_peek l = (l, Inr (at l))"
  by (simp add: l_peek_def)

lemma at_Some: "at l = Some b \<longleftrightarrow> lx_pos l < length (lx_source l) \<and> lx_source l ! lx_pos l = b"
  by (auto simp: at_def)

definition moved :: "nat \<Rightarrow> u32 \<Rightarrow> lexer \<Rightarrow> lexer" where
  "moved n column l = l\<lparr>lx_pos := lx_pos l + n, lx_column := column\<rparr>"

lemma advance_whole: "whole l \<Longrightarrow> advance l = (case at l of None \<Rightarrow> (l, None)
    | Some b \<Rightarrow> (moved 1 (if is_newline b then lx_column l else lx_column l + 1) l, Some b))"
  by (auto simp: advance_def at_def Let_def whole_def refill_def moved_def)

lemma peek_ahead_whole: "whole l \<Longrightarrow> peek_ahead k l =
    (l, if lx_pos l + k < length (lx_source l) then Some (lx_source l ! (lx_pos l + k)) else None)"
  by (auto simp: peek_ahead_def ensure_available_def)

lemma rounds_whole: "whole l \<Longrightarrow> rounds l = Suc (left l)"
  by (simp add: rounds_def rest_bytes_def pending_def whole_def left_def)

section \<open>Every loop ends\<close>

text \<open>
  What an operation does to a text given at once: it only moves forward and does not run out of rounds.
  The second predicate asks for a state with fewer than so many bytes left.
\<close>

definition moves :: "nat \<Rightarrow> lexer \<Rightarrow> lexer \<times> (failure, 'a) res \<Rightarrow> bool" where
  "moves d l r \<longleftrightarrow> whole (fst r) \<and> lx_source (fst r) = lx_source l \<and> lx_pos l \<le> lx_pos (fst r)
     \<and> (\<forall>e. snd r = Inl e \<longrightarrow> (\<exists>s. e = FSyntax s)) \<and> (\<forall>x. snd r = Inr x \<longrightarrow> lx_pos l + d \<le> lx_pos (fst r))
     \<and> lx_lookahead (fst r) = lx_lookahead l \<and> lx_source_name (fst r) = lx_source_name l"

definition safe :: "nat \<Rightarrow> 'a lop \<Rightarrow> bool" where
  "safe k m \<longleftrightarrow> (\<forall>l. whole l \<longrightarrow> left l < k \<longrightarrow> moves 0 l (m l))"

text \<open>The same where a byte is there, which the operation consumes.\<close>

definition eats :: "nat \<Rightarrow> 'a lop \<Rightarrow> bool" where
  "eats k m \<longleftrightarrow> (\<forall>l. whole l \<longrightarrow> at l \<noteq> None \<longrightarrow> left l < k \<longrightarrow> moves 1 l (m l))"

lemma moves_trans: "moves d l r \<Longrightarrow> r = (l1, Inr x) \<Longrightarrow> moves e l1 r1 \<Longrightarrow> moves (d + e) l r1"
  by (auto simp: moves_def)

lemma moves_weaken: "moves d l r \<Longrightarrow> moves 0 l r" by (auto simp: moves_def)

lemma moves_left: "moves d l (l1, Inr x) \<Longrightarrow> left l1 \<le> left l - d" by (auto simp: moves_def left_def)

lemma moves_bind:
  assumes "moves d l (m l)" "\<And>l1 x. m l = (l1, Inr x) \<Longrightarrow> moves e l1 (f x l1)"
  shows "moves (d + e) l (obind m f l)"
proof (cases "m l")
  case (Pair l1 r)
  then show ?thesis
  proof (cases r)
    case (Inl e)
    then show ?thesis using Pair assms(1) by (simp add: obind_def moves_def)
  next
    case (Inr x)
    then show ?thesis using moves_trans [OF assms(1) _ assms(2)] Pair by (simp add: obind_def)
  qed
qed

lemma safe_bind [intro]: "safe k m \<Longrightarrow> (\<And>x. safe k (f x)) \<Longrightarrow> safe k (obind m f)"
  unfolding safe_def
proof (intro allI impI)
  fix l :: lexer
  assume "\<forall>l. whole l \<longrightarrow> left l < k \<longrightarrow> moves 0 l (m l)" and f: "\<And>x. \<forall>l. whole l \<longrightarrow> left l < k \<longrightarrow> moves 0 l (f x l)"
    and l: "whole l" "left l < k"
  then have m: "moves 0 l (m l)" by blast
  have "moves 0 l1 (f x l1)" if "m l = (l1, Inr x)" for l1 x
    using f [of x] that m moves_left [of 0 l l1 x] l by (auto simp: moves_def)
  then show "moves 0 l (obind m f l)" using moves_bind [where m = m and f = f and e = 0, OF m] by simp
qed

lemma safe_then [intro]: "safe k m \<Longrightarrow> safe k n \<Longrightarrow> safe k (othen m n)"
  unfolding othen_def by (rule safe_bind)

lemma eats_bind: "eats (Suc k) m \<Longrightarrow> (\<And>x. safe k (f x)) \<Longrightarrow> eats (Suc k) (obind m f)"
  unfolding eats_def safe_def
proof (intro allI impI)
  fix l :: lexer
  assume m: "\<forall>l. whole l \<longrightarrow> at l \<noteq> None \<longrightarrow> left l < Suc k \<longrightarrow> moves 1 l (m l)"
    and f: "\<And>x. \<forall>l. whole l \<longrightarrow> left l < k \<longrightarrow> moves 0 l (f x l)" and l: "whole l" "at l \<noteq> None" "left l < Suc k"
  then have m: "moves 1 l (m l)" by blast
  have "left l > 0" using l(2) by (simp add: at_def left_def split: if_splits)
  then have "moves 0 l1 (f x l1)" if "m l = (l1, Inr x)" for l1 x
    using f [of x] that m moves_left [of 1 l l1 x] l by (auto simp: moves_def)
  then show "moves 1 l (obind m f l)" using moves_bind [where m = m and f = f and e = 0, OF m] by simp
qed

lemma eats_then: "eats (Suc k) m \<Longrightarrow> safe k n \<Longrightarrow> eats (Suc k) (othen m n)"
  unfolding othen_def by (rule eats_bind)

lemma safe_prim [intro!]: "safe k (oret x)" "safe k (oget g)" "safe k l_peek" "safe k (set_text t)" "safe k (lex_error msg)"
  "safe k (lex_error_near m t)" "safe k (peek_is p)" "safe k (l_peek_ahead i)" "safe k take_reader_error" "safe k (text_from i)"
  by (auto simp: safe_def moves_def oret_def oget_def omod_def set_text_def lex_error_def lex_error_near_def peek_is_def
      obind_def l_peek_ahead_def peek_ahead_whole whole_def take_reader_error_def text_from_def)

lemma eats_advance [intro]: "eats k l_advance"
  by (auto simp: eats_def moves_def l_advance_def advance_whole at_def moved_def whole_def)

lemma safe_advance [intro]: "safe k l_advance"
  by (auto simp: safe_def moves_def l_advance_def advance_whole at_def moved_def whole_def)

lemma inc_line_whole:
  assumes "whole l" "at l \<noteq> None"
  shows "\<exists>n. (n = 1 \<or> n = 2) \<and> lx_pos l + n \<le> length (lx_source l)
    \<and> inc_line l = l\<lparr>lx_pos := lx_pos l + n, lx_line := lx_line l + 1, lx_column := 1\<rparr>"
proof -
  obtain b where b: "at l = Some b" using assms by auto
  let ?l = "l\<lparr>lx_pos := lx_pos l + 1\<rparr>"
  have w: "whole ?l" using assms by (auto simp: whole_def at_def split: if_splits)
  have pos: "lx_pos l < length (lx_source l)" using b by (simp add: at_Some)
  show ?thesis
  proof (cases "\<exists>c. at ?l = Some c \<and> is_newline c \<and> c \<noteq> b")
    case True
    then have "lx_pos l + 2 \<le> length (lx_source l)" by (auto simp: at_def split: if_splits)
    then show ?thesis using True b assms(1) w by (intro exI [of _ 2]) (auto simp: inc_line_def)
  next
    case False
    then show ?thesis using b assms(1) w pos by (intro exI [of _ 1]) (auto simp: inc_line_def split: option.split)
  qed
qed

lemma eats_inc_line [intro]: "eats k l_inc_line"
  unfolding eats_def
proof (intro allI impI)
  fix l :: lexer
  assume "whole l" "at l \<noteq> None"
  then show "moves 1 l (l_inc_line l)"
    using inc_line_whole [of l] by (auto simp: l_inc_line_def moves_def whole_def)
qed

text \<open>A byte is looked at before it is consumed.\<close>

lemma safe_peek_case:
  assumes "safe k n" "\<And>b. eats k (f b)"
  shows "safe k (obind l_peek (\<lambda>c. case c of None \<Rightarrow> n | Some b \<Rightarrow> f b))"
  unfolding safe_def
proof (intro allI impI)
  fix l :: lexer
  assume l: "whole l" "left l < k"
  show "moves 0 l (obind l_peek (\<lambda>c. case c of None \<Rightarrow> n | Some b \<Rightarrow> f b) l)"
  proof (cases "at l")
    case None
    then show ?thesis using l assms(1) by (simp add: obind_def safe_def)
  next
    case (Some b)
    then have "moves 1 l (f b l)" using l assms(2) [of b] by (simp add: eats_def)
    then have "moves 0 l (f b l)" by (rule moves_weaken)
    then show ?thesis using l Some by (simp add: obind_def)
  qed
qed

lemma safe_peek_case2:
  assumes "safe k n" "\<And>b. eats k (f b) \<or> safe k (f b)"
  shows "safe k (obind l_peek (\<lambda>c. case c of None \<Rightarrow> n | Some b \<Rightarrow> f b))"
  unfolding safe_def
proof (intro allI impI)
  fix l :: lexer
  assume l: "whole l" "left l < k"
  show "moves 0 l (obind l_peek (\<lambda>c. case c of None \<Rightarrow> n | Some b \<Rightarrow> f b) l)"
  proof (cases "at l")
    case None
    then show ?thesis using l assms(1) by (simp add: obind_def safe_def)
  next
    case (Some b)
    then have "moves 1 l (f b l) \<or> moves 0 l (f b l)" using l assms(2) [of b] by (auto simp: eats_def safe_def)
    then have "moves 0 l (f b l)" using moves_weaken by blast
    then show ?thesis using l Some by (simp add: obind_def)
  qed
qed

lemma eats_if: "(b \<Longrightarrow> eats k m) \<Longrightarrow> (\<not> b \<Longrightarrow> eats k n) \<Longrightarrow> eats k (if b then m else n)" by simp
lemma safe_if: "(b \<Longrightarrow> safe k m) \<Longrightarrow> (\<not> b \<Longrightarrow> safe k n) \<Longrightarrow> safe k (if b then m else n)" by simp

text \<open>An error is fine wherever a byte has to be consumed.\<close>

lemma eats_error [intro]: "eats k (lex_error msg)" "eats k (lex_error_near m t)"
  by (auto simp: eats_def moves_def lex_error_def lex_error_near_def)

lemma safe_peek_is:
  assumes "eats k m" "safe k n"
  shows "safe k (obind (peek_is p) (\<lambda>b. if b then m else n))"
  unfolding safe_def
proof (intro allI impI)
  fix l :: lexer
  assume l: "whole l" "left l < k"
  show "moves 0 l (obind (peek_is p) (\<lambda>b. if b then m else n) l)"
  proof (cases "at l")
    case None
    then show ?thesis using l assms(2) by (simp add: obind_def peek_is_def oret_def safe_def)
  next
    case (Some b)
    then have "moves 1 l (m l)" "moves 0 l (n l)" using l assms by (simp_all add: eats_def safe_def)
    then have "moves 0 l (m l)" "moves 0 l (n l)" using moves_weaken by blast+
    then show ?thesis using l Some by (simp add: obind_def peek_is_def oret_def)
  qed
qed

lemma safe_n: "(\<And>k. safe k (m k)) \<Longrightarrow> safe k (\<lambda>l. m (rounds l) l)"
  by (auto simp: safe_def rounds_whole)

lemma safe_skip_while_n: "safe n (skip_while_n n p)"
proof (induction n)
  case 0
  then show ?case by (simp add: safe_def)
next
  case (Suc n)
  then show ?case unfolding skip_while_n.simps by (intro safe_peek_is eats_then safe_prim eats_advance)
qed

lemma safe_skip_while [intro!]: "safe k (skip_while p)"
  using safe_n [of "\<lambda>n. skip_while_n n p", OF safe_skip_while_n] by (simp add: skip_while_def [abs_def])

section \<open>The parts of the scan\<close>

lemma eats_letter [intro]: "eats (Suc k) l_advance \<Longrightarrow> safe k m \<Longrightarrow> eats (Suc k) (othen l_advance m)"
  by (rule eats_then)

lemma safe_hex_digit [intro!]: "safe k (read_hex_escape_digit msg)"
  unfolding read_hex_escape_digit_def
proof (intro safe_peek_case safe_prim)
  fix b
  show "eats k (case hex_value b of None \<Rightarrow> lex_error_near msg (ascii ''<string>'') | Some d \<Rightarrow> othen l_advance (oret d))"
    by (cases k; cases "hex_value b") (auto intro!: eats_then simp: eats_def [of 0])
qed

lemma safe_unicode [intro!]: "safe k (unicode_digits n acc)"
  by (induction n arbitrary: acc) auto

lemma safe_read_unicode [intro!]: "safe k read_unicode_escape_char"
  unfolding read_unicode_escape_char_def by (auto split: option.split)

lemma safe_read_hex [intro!]: "safe k read_hex_escape_byte"
  unfolding read_hex_escape_byte_def by auto

lemma eats_0 [simp]: "eats 0 m" by (simp add: eats_def)
lemma safe_0 [simp]: "safe 0 m" by (simp add: safe_def)

lemma eats_advance_then [intro]: "safe (k - 1) m \<Longrightarrow> eats k (othen l_advance m)"
  by (cases k) (auto intro!: eats_then)

lemma eats_inc_line_then [intro]: "safe (k - 1) m \<Longrightarrow> eats k (othen l_inc_line m)"
  by (cases k) (auto intro!: eats_then)

lemma safe_decimal [intro!]: "safe k (decimal_digits n acc)"
proof (induction n arbitrary: acc k)
  case (Suc n)
  show ?case unfolding decimal_digits.simps
  proof (intro safe_peek_case2 safe_prim)
    fix b
    show "eats k (if is_digit b then othen l_advance (decimal_digits n (10 * acc + (unat b - 48))) else oret acc)
      \<or> safe k (if is_digit b then othen l_advance (decimal_digits n (10 * acc + (unat b - 48))) else oret acc)"
      by (cases "is_digit b") (auto intro: Suc)
  qed
qed auto

lemma moves_same: "moves d l r \<Longrightarrow> r' = r \<Longrightarrow> moves d l r'" by simp

lemma eats_decimal [intro!]: "at l = Some b \<Longrightarrow> is_digit b \<Longrightarrow> whole l \<Longrightarrow> left l < k \<Longrightarrow> moves 1 l (push_decimal_escape l)"
proof -
  assume l: "at l = Some b" "is_digit b" "whole l" "left l < k"
  let ?rest = "\<lambda>v. if 255 < v then lex_error_near ''escape sequence too large'' (ascii ''<string>'') else oret [of_nat v :: u8]"
  have "push_decimal_escape l = obind (othen l_advance (decimal_digits 2 (unat b - 48))) ?rest l"
    using l by (simp add: push_decimal_escape_def obind_def numeral_3_eq_3 numeral_2_eq_2)
  moreover have "eats (Suc k) (obind (othen l_advance (decimal_digits 2 (unat b - 48))) ?rest)"
    by (intro eats_bind eats_then safe_if eats_advance safe_decimal safe_prim)
  ultimately show ?thesis using l by (simp add: eats_def)
qed

lemma safe_escape [intro!]: "safe k read_short_string_escape"
  unfolding safe_def
proof (intro allI impI)
  fix l :: lexer
  assume l: "whole l" "left l < k"
  show "moves 0 l (read_short_string_escape l)"
  proof (cases "at l")
    case None
    then show ?thesis using l by (simp add: read_short_string_escape_def obind_def lex_error_near_def lex_error_def moves_def)
  next
    case (Some b)
    have "eats k (othen l_advance (obind read_hex_escape_byte (\<lambda>x. oret [x])))" "eats k (othen l_advance read_unicode_escape_char)"
      "eats k (othen l_inc_line (oret [10 :: u8]))" "eats k (othen l_advance (oret [escape_letter b]))"
      by (intro eats_advance_then eats_inc_line_then safe_bind safe_read_hex safe_read_unicode safe_prim)+
    then have "moves 1 l (read_short_string_escape l)"
      using l Some eats_decimal [OF Some _ l] by (simp add: read_short_string_escape_def obind_def eats_def)
    then show ?thesis by (rule moves_weaken)
  qed
qed

lemma safe_short_string_n: "safe n (short_string_n n delimiter buf)"
proof (induction n arbitrary: buf)
  case (Suc n)
  show ?case unfolding short_string_n.simps
    by (intro safe_peek_case safe_prim eats_if eats_error eats_advance_then safe_bind safe_escape) (auto intro: Suc)
qed simp

lemma eats_short_string [intro]: "eats k (read_short_string delimiter)"
  unfolding read_short_string_def
  by (intro eats_advance_then safe_n [of "\<lambda>n. short_string_n n delimiter []"]) (rule safe_short_string_n)

lemma othen_if: "othen (if b then m else oret ()) n = (if b then othen m n else n)"
  by (cases b) (simp_all add: othen_def obind_def oret_def fun_eq_iff)

lemma othen_omod: "othen (omod f) n l = n (f l)" by (simp add: othen_def obind_def omod_def)

text \<open>Long brackets. The opening bracket was seen, so its bytes are there.\<close>

lemma l_peek_ahead_whole: "whole l \<Longrightarrow> l_peek_ahead k l =
    (l, Inr (if lx_pos l + k < length (lx_source l) then Some (lx_source l ! (lx_pos l + k)) else None))"
  by (simp add: l_peek_ahead_def peek_ahead_whole)

lemma count_equals_whole:
  assumes "whole l" "length (lx_source l) - (lx_pos l + i) < n"
  shows "\<exists>j \<ge> i. count_equals n i l = (l, Inr j)"
  using assms
proof (induction n arbitrary: i)
  case (Suc n)
  show ?case
  proof (cases "lx_pos l + i < length (lx_source l) \<and> lx_source l ! (lx_pos l + i) = 61")
    case True
    then have "length (lx_source l) - (lx_pos l + (i + 1)) < n" using Suc.prems(2) by linarith
    then obtain j where "j \<ge> i + 1" "count_equals n (i + 1) l = (l, Inr j)"
      using Suc.IH [of "i + 1"] Suc.prems(1) by blast
    then show ?thesis using True Suc.prems(1) by (intro exI [of _ j]) (simp add: obind_def l_peek_ahead_whole)
  next
    case False
    then show ?thesis using Suc.prems(1) by (intro exI [of _ i]) (auto simp: obind_def l_peek_ahead_whole oret_def)
  qed
qed simp

lemma count_sep_whole:
  assumes "whole l" "at l \<noteq> None"
  shows "\<exists>sep. count_sep l = (l, Inr sep) \<and> (0 \<le> sep \<longrightarrow> lx_pos l + 2 + nat sep \<le> length (lx_source l))"
proof -
  obtain j where j: "j \<ge> 1" "count_equals (rounds l) 1 l = (l, Inr j)"
  proof -
    have "length (lx_source l) - (lx_pos l + 1) < rounds l" using assms(1) by (simp add: rounds_whole left_def)
    from count_equals_whole [OF assms(1) this] show ?thesis using that by blast
  qed
  then show ?thesis
    using assms by (simp add: count_sep_def obind_ok l_peek_ahead_whole obind_def oret_def) (auto simp: algebra_simps)
qed

lemma check_closing_whole:
  assumes "whole l"
  shows "\<exists>b. check_closing_long_bracket sep l = (l, Inr b) \<and> (b \<longrightarrow> lx_pos l + 2 + sep \<le> length (lx_source l))"
proof -
  have "\<exists>b. equals_then n i l = (l, Inr b) \<and> (b \<longrightarrow> lx_pos l + i + 1 + n \<le> length (lx_source l))" for n i
  proof (induction n arbitrary: i)
    case (Suc n)
    then obtain b where "equals_then n (i + 1) l = (l, Inr b)" "b \<longrightarrow> lx_pos l + (i + 1) + 1 + n \<le> length (lx_source l)" by blast
    then show ?case using assms by (auto simp: obind_def l_peek_ahead_whole oret_def)
  qed (use assms in \<open>auto simp: obind_def l_peek_ahead_whole oret_def\<close>)
  from this [of sep 1] obtain b where b: "equals_then sep 1 l = (l, Inr b)" "b \<longrightarrow> lx_pos l + 1 + 1 + sep \<le> length (lx_source l)"
    by blast
  show ?thesis
    using assms b by (auto simp: check_closing_long_bracket_def obind_def peek_is_def oret_def split: option.split)
qed

lemma safe_long_string_n: "safe n (long_string_n n sep c buf)"
proof (induction n arbitrary: buf)
  case (Suc n)
  have close: "eats (Suc n) (obind (check_closing_long_bracket sep) (\<lambda>closing.
      if closing then othen (skip_bracket sep) (oret out) else othen l_advance (long_string_n n sep c buf)))" for buf out
    unfolding eats_def
  proof (intro allI impI)
    fix l :: lexer
    assume l: "whole l" "at l \<noteq> None" "left l < Suc n"
    obtain b where b: "check_closing_long_bracket sep l = (l, Inr b)" "b \<longrightarrow> lx_pos l + 2 + sep \<le> length (lx_source l)"
      using check_closing_whole [OF l(1)] by blast
    have "eats (Suc n) (othen l_advance (long_string_n n sep c buf))" using Suc by auto
    then show "moves 1 l (obind (check_closing_long_bracket sep) (\<lambda>closing.
      if closing then othen (skip_bracket sep) (oret out) else othen l_advance (long_string_n n sep c buf)) l)"
      using b l by (auto simp: obind_def eats_def othen_def skip_bracket_def omod_def oret_def moves_def whole_def)
  qed
  show ?case unfolding long_string_n.simps
    by (intro safe_peek_case safe_prim eats_if eats_inc_line_then eats_advance_then close) (simp_all only: diff_Suc_1 Suc)
qed simp

lemma moves_long_string:
  assumes "whole l" "lx_pos l + 2 + sep \<le> length (lx_source l)"
  shows "moves 1 l (read_long_string sep c l)"
proof -
  let ?l = "l\<lparr>lx_pos := lx_pos l + (2 + sep), lx_column := lx_column l + of_nat (2 + sep)\<rparr>"
  have w: "whole ?l" using assms by (simp add: whole_def)
  have n: "safe k (\<lambda>l. long_string_n (rounds l) sep c [] l)" for k
    by (rule safe_n [of "\<lambda>n. long_string_n n sep c []"], rule safe_long_string_n)
  have s: "safe k (obind (peek_is is_newline) (\<lambda>b. if b then othen l_inc_line (\<lambda>l. long_string_n (rounds l) sep c [] l)
      else (\<lambda>l. long_string_n (rounds l) sep c [] l)))" for k
    by (intro safe_peek_is eats_inc_line_then n)
  have e: "read_long_string sep c l = obind (peek_is is_newline) (\<lambda>b. if b then othen l_inc_line (\<lambda>l. long_string_n (rounds l) sep c [] l)
      else (\<lambda>l. long_string_n (rounds l) sep c [] l)) ?l"
    by (simp only: read_long_string_def othen_if skip_bracket_def othen_omod)
  have "moves 0 ?l (read_long_string sep c l)" unfolding e using s [of "Suc (left ?l)"] w by (simp add: safe_def)
  then show ?thesis using assms by (auto simp: moves_def)
qed


section \<open>Numbers, names and symbols\<close>

lemma safe_number_rest:
  "safe k (othen (skip_while p) (obind (oget g) (\<lambda>is_hex.
      othen (if is_hex then skip_while q else oret ())
     (obind (peek_is r) (\<lambda>exponent.
      othen (if exponent then othen l_advance (obind (peek_is t) (\<lambda>sign. if sign then l_advance else oret ())) else oret ())
     (othen (skip_while u) (obind (oget h) (\<lambda>bs. let text = utf8_lossy bs in othen (set_text text) (f is_hex bs text)))))))))"
  if "\<And>a b c. safe k (f a b c)"
  unfolding Let_def by (intro safe_then safe_bind safe_skip_while safe_prim safe_if safe_advance that)

lemma safe_number_value:
  "safe k (if is_hex then (case from_str_radix16 (drop 2 text) of
            Some v \<Rightarrow> oret (f64_of_int (int v)) | None \<Rightarrow> lex_error_near m text)
        else case try_decimal E bs of Some v \<Rightarrow> oret v | None \<Rightarrow> lex_error_near m text)"
  by (auto split: option.split)

lemma safeD: "safe k m \<Longrightarrow> whole l \<Longrightarrow> left l < k \<Longrightarrow> moves 0 l (m l)" by (simp add: safe_def)

lemma othen_oret: "othen (oret ()) n = n" by (simp add: othen_def fun_eq_iff obind_def oret_def)

lemma safe_read_number: "safe k (read_number E 46)"
  unfolding safe_def
proof (intro allI impI)
  fix l :: lexer
  assume l: "whole l" "left l < k"
  have f: "\<not> (46 :: u8) \<noteq> 46" by simp
  show "moves 0 l (read_number E 46 l)"
    unfolding read_number_def Let_def if_not_P [OF f] othen_oret
    by (rule safeD [where l = l, OF safe_number_rest [OF safe_number_value, unfolded Let_def] l])
qed

lemma eatsD: "eats k m \<Longrightarrow> whole l \<Longrightarrow> at l \<noteq> None \<Longrightarrow> left l < k \<Longrightarrow> moves 1 l (m l)" by (simp add: eats_def)

lemma eats_read_number: "eats k (read_number E first)" if "first \<noteq> 46"
  unfolding eats_def
proof (intro allI impI)
  fix l :: lexer
  assume l: "whole l" "at l \<noteq> None" "left l < k"
  show "moves 1 l (read_number E first l)"
    unfolding read_number_def Let_def if_P [OF that]
    by (rule eatsD [where l = l, OF eats_advance_then [OF safe_number_rest [OF safe_number_value, unfolded Let_def]] l])
qed

lemma peek_is_whole: "whole l \<Longrightarrow> peek_is p l = (l, Inr (case at l of None \<Rightarrow> False | Some b \<Rightarrow> p b))"
  by (simp add: peek_is_def obind_def oret_def)

lemma moves_safe:
  assumes "moves d l (m l)" "\<And>x k. safe k (f x)"
  shows "moves d l (obind m f l)"
proof -
  have "moves 0 l1 (f x l1)" if "m l = (l1, Inr x)" for l1 x
    using assms that safeD [OF assms(2) _ lessI, of l1] by (simp add: moves_def)
  then show ?thesis using moves_bind [where m = m and f = f and e = 0, OF assms(1)] by simp
qed

lemma eats_scan_comment: "eats k scan_comment"
proof -
  have c: "safe k (obind (peek_is (\<lambda>c. c = 91)) (\<lambda>bracket. obind (if bracket then count_sep else oret (- 2)) (\<lambda>sep.
       if 0 \<le> sep then othen (obind (read_long_string (nat sep) True) (\<lambda>_. oret ())) (oret None)
       else othen (skip_while (\<lambda>c. \<not> is_newline c)) (oret None :: Token option lop))))" (is "safe k ?m") for k
    unfolding safe_def
  proof (intro allI impI)
    fix l :: lexer
    assume l: "whole l" "left l < k"
    have skip: "moves 0 l (othen (skip_while (\<lambda>c. \<not> is_newline c)) (oret None :: Token option lop) l)" if "whole l" for l :: lexer
      by (rule safeD [OF safe_then [OF safe_skip_while safe_prim(1)] that lessI])
    show "moves 0 l (?m l)"
    proof (cases "at l = Some 91")
      case True
      then obtain sep where sep: "count_sep l = (l, Inr sep)" "0 \<le> sep \<longrightarrow> lx_pos l + 2 + nat sep \<le> length (lx_source l)"
        using count_sep_whole [OF l(1)] by auto
      show ?thesis
      proof (cases "0 \<le> sep")
        case True
        have "moves 1 l (read_long_string (nat sep) True l)" using moves_long_string [OF l(1)] sep True by simp
        then have "moves 1 l (obind (obind (read_long_string (nat sep) True) (\<lambda>_. oret ())) (\<lambda>_. oret (None :: Token option)) l)"
          by (intro moves_safe safe_prim)
        then show ?thesis using True sep l \<open>at l = Some 91\<close> moves_weaken
          by (simp add: obind_ok [where m = "peek_is p" for p, OF peek_is_whole] obind_ok [where m = count_sep, OF sep(1)] othen_def)
      next
        case False
        then show ?thesis using sep l \<open>at l = Some 91\<close> skip [OF l(1)]
          by (simp add: obind_ok [where m = "peek_is p" for p, OF peek_is_whole] obind_ok [where m = count_sep, OF sep(1)])
      qed
    next
      case False
      then show ?thesis using l skip [OF l(1)]
        by (cases "at l") (simp_all add: obind_ok [where m = "peek_is p" for p, OF peek_is_whole])
    qed
  qed
  show ?thesis unfolding scan_comment_def
    by (intro eats_advance_then safe_bind safe_prim safe_if safe_then safe_advance c)
qed


lemma safe_text_then [intro!]: "safe k (othen (text_from start) (oret x))" by (intro safe_then safe_prim)

lemma moves_scan_bracket:
  assumes l: "whole l" "at l \<noteq> None"
  shows "moves 1 l (scan_bracket start l)"
proof -
  obtain sep where sep: "count_sep l = (l, Inr sep)" "0 \<le> sep \<longrightarrow> lx_pos l + 2 + nat sep \<le> length (lx_source l)"
    using count_sep_whole [OF l] by auto
  note step = obind_ok [where m = count_sep, OF sep(1)]
  show ?thesis
  proof (cases "0 \<le> sep")
    case True
    have "moves 1 l (obind (read_long_string (nat sep) False) (\<lambda>s. othen (text_from start) (oret (Some (T_Str s)))) l)"
      using moves_long_string [OF l(1)] sep(2) True by (intro moves_safe safe_text_then) simp
    then show ?thesis using True by (simp add: scan_bracket_def step)
  next
    case False
    have "eats k (if sep = - 1 then lex_error_near ''invalid long string delimiter'' [91] else othen l_advance (oret (Some (T_Char 91))))" for k
      by (intro eats_if eats_error eats_advance_then safe_prim)
    then have "moves 1 l ((if sep = - 1 then lex_error_near ''invalid long string delimiter'' [91] else othen l_advance (oret (Some (T_Char 91)))) l)"
      using l by (intro eatsD [where l = l]) auto
    then show ?thesis using False by (simp add: scan_bracket_def step)
  qed
qed

lemma eats_one_or_two: "eats k (one_or_two c t)"
  unfolding one_or_two_def by (intro eats_advance_then safe_peek_is safe_prim)

lemma eats_scan_tilde: "eats k scan_tilde"
  unfolding scan_tilde_def by (intro eats_advance_then safe_peek_is safe_prim)

lemma eats_scan_dots: "eats k (scan_dots E)"
  unfolding scan_dots_def
  by (intro eats_advance_then safe_peek_is safe_prim safe_bind safe_if safe_read_number)

lemma eats_quoted: "eats k (obind (read_short_string c) (\<lambda>s. othen (text_from start) (oret (Some (T_Str s)))))"
  by (cases k) (auto intro!: eats_bind)

lemma eats_number: "c \<noteq> 46 \<Longrightarrow> eats k (obind (read_number E c) (\<lambda>v. oret (Some (T_Number v))))"
  by (cases k) (auto intro!: eats_bind eats_read_number)

lemma moves_scan_name:
  assumes l: "whole l" "at l = Some c" "is_name_char c"
  shows "moves 1 l (scan_name l)"
proof -
  have "drop (lx_pos l) (lx_source l) = c # drop (lx_pos l + 1) (lx_source l)"
    using l(2) by (auto simp: at_Some Cons_nth_drop_Suc)
  then have "1 \<le> length (takeWhile is_name_char (drop (lx_pos l) (lx_source l)))" using l(3) by simp
  moreover have "length (takeWhile is_name_char (drop (lx_pos l) (lx_source l))) \<le> length (lx_source l) - lx_pos l"
    using length_takeWhile_le [of is_name_char "drop (lx_pos l) (lx_source l)"] by simp
  ultimately show ?thesis using l(1)
    by (auto simp: scan_name_def scan_name_extent_def obind_def Let_def fast_skip_def moves_def whole_def oret_def oget_def)
qed

lemma moves_scan_at:
  assumes l: "whole l" "at l = Some c"
  shows "moves 1 l (scan_at E start c l)"
proof -
  have n: "at l \<noteq> None" using l by simp
  have e: "moves 1 l (m l)" if "\<And>k. eats k m" for m :: "Token option lop"
    using that eatsD [OF _ l(1) n lessI] by blast
  have d: "is_digit c \<Longrightarrow> c \<noteq> 46" by (auto simp: is_digit_def)
  have o: "eats k (othen l_advance (oret (Some (T_Char c))))" "eats k (othen l_inc_line (oret None :: Token option lop))" for k
    by (intro eats_advance_then eats_inc_line_then safe_prim)+
  show ?thesis unfolding scan_at_def
    using e [OF o(2)] e [OF o(1)] e [OF eats_scan_comment] moves_scan_bracket [OF l(1) n] e [OF eats_one_or_two] e [OF eats_scan_tilde]
      e [OF eats_scan_dots] e [OF eats_quoted] e [OF eats_number] d moves_scan_name [OF l]
    by (simp add: is_name_char_def)
qed


section \<open>The whole text\<close>

lemma reader_error_whole: "whole l \<Longrightarrow> othen take_reader_error m l = m l"
  by (simp add: othen_def obind_def take_reader_error_def whole_def)

lemma skip_whitespace_whole:
  assumes "whole l"
  obtains l1 where "skip_whitespace l = (l1, Inr ())" "moves 0 l (l1, Inr ())"
proof
  let ?l = "fast_skip is_blank l"
  have "length (takeWhile is_blank (drop (lx_pos l) (lx_source l))) \<le> length (lx_source l) - lx_pos l"
    using length_takeWhile_le [of is_blank "drop (lx_pos l) (lx_source l)"] by simp
  then show "skip_whitespace l = (?l, Inr ())" "moves 0 l (?l, Inr ())" using assms
    by (auto simp: skip_whitespace_def fast_skip_def Let_def moves_def whole_def)
qed

text \<open>A scan ends; it consumes a byte or says that the text ends.\<close>

definition token_at_end :: "(failure, Token \<times> Span) res \<Rightarrow> bool" where
  "token_at_end r \<longleftrightarrow> (\<exists>span. r = Inr (T_Eos, span))"

lemma moves_scan_n:
  assumes "whole l" "left l < n"
  shows "moves 0 l (scan_n n E l) \<and> (token_at_end (snd (scan_n n E l)) \<or> moves 1 l (scan_n n E l))"
  using assms
proof (induction n arbitrary: l)
  case (Suc n)
  obtain l1 where l1: "skip_whitespace l = (l1, Inr ())" "moves 0 l (l1, Inr ())"
    using skip_whitespace_whole [OF Suc.prems(1)] by blast
  then have w: "whole l1" by (simp add: moves_def)
  have le: "left l1 \<le> left l" using moves_left [OF l1(2)] by simp
  let ?tail = "obind (scan_at E (lx_pos l1) (the (at l1))) (\<lambda>t. case t of Some tok \<Rightarrow> oret (tok, current_span l1) | None \<Rightarrow> scan_n n E)"
  have run: "scan_n (Suc n) E l = (if at l1 = None then (l1, Inr (T_Eos, current_span l1)) else ?tail l1)"
  proof -
    have *: "scan_n (Suc n) E l = othen take_reader_error
     (obind (oget current_span) (\<lambda>span. obind (oget lx_pos) (\<lambda>start. obind l_peek (\<lambda>c. case c of
        None \<Rightarrow> othen take_reader_error (oret (T_Eos, span))
      | Some b \<Rightarrow> obind (scan_at E start b) (\<lambda>t. case t of Some tok \<Rightarrow> oret (tok, span) | None \<Rightarrow> scan_n n E))))) l1"
      unfolding scan_n.simps reader_error_whole [OF Suc.prems(1)] by (simp add: othen_def [of skip_whitespace] obind_ok [where m = skip_whitespace, OF l1(1)])
    show ?thesis unfolding * reader_error_whole [OF w] using w
      by (cases "at l1") (simp_all add: obind_def [of l_peek] reader_error_whole oret_def)
  qed
  show ?case
  proof (cases "at l1")
    case None
    then show ?thesis using run l1(2) by (auto simp: moves_def token_at_end_def)
  next
    case (Some b)
    have s: "moves 1 l1 (scan_at E (lx_pos l1) b l1)" by (rule moves_scan_at [OF w Some])
    have pos: "0 < left l1" using Some by (auto simp: at_Some left_def)
    show ?thesis
    proof (cases "scan_at E (lx_pos l1) b l1")
      case (Pair l2 r)
      show ?thesis
      proof (cases "\<exists>t. r = Inr t \<and> t = None")
        case True
        then have at: "scan_at E (lx_pos l1) b l1 = (l2, Inr None)" using Pair by simp
        then have m2: "moves 1 l1 (l2, Inr (None :: Token option))" using s by simp
        then have "left l2 < n" "whole l2" using moves_left [OF m2] le pos Suc.prems(2) by (auto simp: moves_def)
        then have ih: "moves 0 l2 (scan_n n E l2)" "token_at_end (snd (scan_n n E l2)) \<or> moves 1 l2 (scan_n n E l2)"
          using Suc.IH by blast+
        have e: "scan_n (Suc n) E l = scan_n n E l2" using run Some at by (simp add: obind_def)
        have "moves (0 + (1 + 0)) l (scan_n n E l2)"
          by (rule moves_trans [OF l1(2) refl moves_trans [OF m2 refl ih(1)]])
        then have "moves 1 l (scan_n n E l2)" by simp
        then show ?thesis unfolding e using moves_weaken by blast
      next
        case False
        have e: "scan_n (Suc n) E l = (l2, case r of Inl x \<Rightarrow> Inl x | Inr t \<Rightarrow> Inr (the t, current_span l1))"
          using run Some Pair False by (cases r) (auto simp: obind_def oret_def)
        have "moves 1 l (scan_n (Suc n) E l)"
          using s l1(2) unfolding e Pair by (auto simp: moves_def split: sum.splits)
        then show ?thesis using moves_weaken by blast
      qed
    qed
  qed
qed simp

text \<open>The tokens that the parser can take from a lexer.\<close>

primrec tokens :: "nat \<Rightarrow> lex_env \<Rightarrow> lexer \<Rightarrow> (failure, Token list) res" where
  "tokens 0 E l = Inl FFuel"
| "tokens (Suc n) E l = (case next_token E l of (l1, Inl e) \<Rightarrow> Inl e
     | (l1, Inr (t, span)) \<Rightarrow> if t = T_Eos then Inr [T_Eos]
         else (case tokens n E l1 of Inl e \<Rightarrow> Inl e | Inr ts \<Rightarrow> Inr (t # ts)))"

definition lexes :: "nat \<Rightarrow> (failure, Token list) res \<Rightarrow> bool" where
  "lexes n r \<longleftrightarrow> (case r of Inl e \<Rightarrow> \<exists>s. e = FSyntax s | Inr ts \<Rightarrow> ts \<noteq> [] \<and> last ts = T_Eos \<and> length ts \<le> n)"

lemma tokens_whole: "whole l \<Longrightarrow> lx_lookahead l = None \<Longrightarrow> left l < n \<Longrightarrow> lexes n (tokens n E l)"
proof (induction n arbitrary: l)
  case (Suc n)
  obtain l1 r where r: "scan E l = (l1, r)" by (cases "scan E l")
  have m: "moves 0 l (l1, r)" "token_at_end r \<or> moves 1 l (l1, r)"
    using moves_scan_n [OF Suc.prems(1) lessI, of E] r by (simp_all add: scan_def rounds_whole Suc.prems)
  show ?case
  proof (cases r)
    case (Inl e)
    then show ?thesis using r m Suc.prems(2) by (auto simp: next_token_def lexes_def moves_def)
  next
    case (Inr t)
    then obtain tok span where t: "r = Inr (tok, span)" by (cases t) auto
    show ?thesis
    proof (cases "tok = T_Eos")
      case True
      then show ?thesis using r t Suc.prems(2) by (simp add: next_token_def lexes_def)
    next
      case False
      then have "moves 1 l (l1, r)" using m(2) t by (auto simp: token_at_end_def)
      then have "whole l1" "lx_lookahead l1 = None" "left l1 < n"
        using moves_left [of 1 l l1 "(tok, span)"] t Suc.prems by (auto simp: moves_def left_def whole_def)
      then have "lexes n (tokens n E l1)" by (rule Suc.IH)
      then show ?thesis using r t False Suc.prems(2)
        by (auto simp: next_token_def lexes_def split: sum.splits)
    qed
  qed
qed simp

lemma whole_new: "whole (lexer_new source name)" "lx_lookahead (lexer_new source name) = None" "left (lexer_new source name) \<le> length source"
  using length_takeWhile_le [of "\<lambda>b. \<not> is_newline b" source] by (auto simp: whole_def lexer_new_def Let_def left_def)

text \<open>C30. Lexing any text given at once ends: with a syntax error, or with the tokens of the text, at most one more
  than it has bytes, the last of them the end of the text. No loop of the lexer runs out of rounds.\<close>

theorem lexing_ends: "lexes (Suc (length source)) (tokens (Suc (length source)) E (lexer_new source name))"
  using tokens_whole [OF whole_new(1,2), of source name "Suc (length source)" E] whole_new(3) [of source name] by simp


section \<open>Quoted strings are read back\<close>

text \<open>The option \<open>q\<close> of \<^verbatim>\<open>string.format\<close>, \<^verbatim>\<open>src/stdlib/string.rs\<close>.\<close>

definition quote_byte :: "u8 \<Rightarrow> u8 list" where
  "quote_byte b = (if b = 92 then [92, 92] else if b = 34 then [92, 34] else if b = 10 then [92, 10]
     else if b = 13 then [92, 114] else if b = 0 then [92, 48, 48, 48] else [b])"

definition quote_string :: "u8 list \<Rightarrow> u8 list" where
  "quote_string bs = 34 # concat (map quote_byte bs) @ [34]"

abbreviation ahead :: "lexer \<Rightarrow> u8 list" where "ahead l \<equiv> drop (lx_pos l) (lx_source l)"

text \<open>Consuming a known byte.\<close>

definition follows :: "lexer \<Rightarrow> u8 list \<Rightarrow> lexer \<Rightarrow> bool" where
  "follows l r l1 \<longleftrightarrow> whole l1 \<and> lx_source l1 = lx_source l \<and> lx_lookahead l1 = lx_lookahead l \<and> ahead l1 = r"

lemma at_ahead: "ahead l = b # r \<Longrightarrow> at l = Some b \<and> lx_pos l < length (lx_source l)"
  by (metis at_Some drop_all drop_eq_Nil hd_drop_conv_nth leI list.distinct(1) list.sel(1))

lemma ahead_next: "ahead l = b # r \<Longrightarrow> drop (lx_pos l + 1) (lx_source l) = r"
  by (metis add.commute drop_drop drop_0 drop_Suc_Cons One_nat_def)

lemma peek_ahead_is: "whole l \<Longrightarrow> ahead l = b # r \<Longrightarrow> obind l_peek f l = f (Some b) l"
  using at_ahead [of l b r] by (simp add: obind_def)

lemma advance_ahead:
  assumes "whole l" "ahead l = b # r"
  shows "\<exists>l1. (\<forall>m :: 'a lop. othen l_advance m l = m l1) \<and> follows l r l1"
  using at_ahead [OF assms(2)] ahead_next [OF assms(2)] assms(1)
  by (auto simp: othen_def obind_def l_advance_def advance_whole moved_def follows_def whole_def)

lemma inc_line_ahead:
  assumes "whole l" "ahead l = 10 # c # r" "c \<noteq> 13"
  shows "\<exists>l1. (\<forall>m :: 'a lop. othen l_inc_line m l = m l1) \<and> follows l (c # r) l1"
proof -
  let ?l = "l\<lparr>lx_pos := lx_pos l + 1\<rparr>"
  have n: "ahead ?l = c # r" using ahead_next [OF assms(2)] by simp
  have w: "whole ?l" using assms(1) at_ahead [OF assms(2)] by (simp add: whole_def)
  have "inc_line l = ?l\<lparr>lx_line := lx_line l + 1, lx_column := 1\<rparr>"
    using assms at_ahead [OF assms(2)] at_ahead [OF n] w by (auto simp: inc_line_def is_newline_def)
  then show ?thesis using w n
    by (intro exI [of _ "inc_line l"]) (simp add: othen_def obind_def l_inc_line_def follows_def whole_def)
qed

lemma quote_byte_head: "\<exists>c r. quote_byte b @ rest = c # r \<and> c \<noteq> 13" by (simp add: quote_byte_def)


lemma follows_trans: "follows l a l1 \<Longrightarrow> follows l1 b l2 \<Longrightarrow> follows l b l2" by (auto simp: follows_def)

lemma obind_assoc: "obind (obind m f) g = obind m (\<lambda>x. obind (f x) g)"
  by (auto simp: fun_eq_iff obind_def split: prod.split sum.split)

lemma obind_othen: "obind (othen m n) g = othen m (obind n g)"
  by (simp add: othen_def obind_assoc)

text \<open>A backslash and the letter after it.\<close>

lemma escape_step:
  assumes "whole l" "ahead l = 92 # r"
  shows "\<exists>l1. short_string_n (Suc n) 34 buf l = obind read_short_string_escape (\<lambda>x. short_string_n n 34 (buf @ x)) l1 \<and> follows l r l1"
proof -
  obtain l1 where "\<forall>m :: u8 list lop. othen l_advance m l = m l1" "follows l r l1" using advance_ahead [OF assms] by blast
  then show ?thesis using assms by (intro exI [of _ l1]) (simp add: peek_ahead_is is_newline_def)
qed

lemma letter_step:
  fixes f :: "u8 list \<Rightarrow> u8 list lop"
  assumes "whole l" "ahead l = e # r" "e \<noteq> 120" "e \<noteq> 117" "\<not> is_newline e" "\<not> is_digit e"
  shows "\<exists>l1. obind read_short_string_escape f l = f [escape_letter e] l1 \<and> follows l r l1"
proof -
  obtain l1 where l1: "\<forall>m :: u8 list lop. othen l_advance m l = m l1" "follows l r l1" using advance_ahead [OF assms(1,2)] by blast
  have "obind read_short_string_escape f l = obind (othen l_advance (oret [escape_letter e])) f l"
    using assms by (simp add: read_short_string_escape_def obind_assoc peek_ahead_is)
  then show ?thesis using l1 by (intro exI [of _ l1]) (simp add: obind_othen)
qed

lemma newline_step:
  fixes f :: "u8 list \<Rightarrow> u8 list lop"
  assumes "whole l" "ahead l = 10 # c # r" "c \<noteq> 13"
  shows "\<exists>l1. obind read_short_string_escape f l = f [10] l1 \<and> follows l (c # r) l1"
proof -
  obtain l1 where l1: "\<forall>m :: u8 list lop. othen l_inc_line m l = m l1" "follows l (c # r) l1" using inc_line_ahead [OF assms] by blast
  have "obind read_short_string_escape f l = obind (othen l_inc_line (oret [10])) f l"
    using assms by (simp add: read_short_string_escape_def obind_assoc peek_ahead_is is_newline_def)
  then show ?thesis using l1 by (intro exI [of _ l1]) (simp add: obind_othen)
qed

lemma digit_step:
  fixes f :: "nat \<Rightarrow> 'a lop"
  assumes "whole l" "ahead l = 48 # r"
  shows "\<exists>l1. obind (decimal_digits (Suc n) acc) f l = obind (decimal_digits n (10 * acc)) f l1 \<and> follows l r l1"
proof -
  obtain l1 where l1: "\<forall>m :: 'a lop. othen l_advance m l = m l1" "follows l r l1" using advance_ahead [OF assms] by blast
  then show ?thesis using assms
    by (intro exI [of _ l1]) (simp add: obind_assoc peek_ahead_is obind_othen is_digit_def)
qed

lemma zero_step:
  fixes f :: "u8 list \<Rightarrow> u8 list lop"
  assumes "whole l" "ahead l = 48 # 48 # 48 # r"
  shows "\<exists>l1. obind read_short_string_escape f l = f [0] l1 \<and> follows l r l1"
proof -
  let ?f = "\<lambda>v. obind (if 255 < v then lex_error_near ''escape sequence too large'' (ascii ''<string>'') else oret [of_nat v :: u8]) f"
  have "obind read_short_string_escape f l = obind (decimal_digits (Suc (Suc (Suc 0))) 0) ?f l"
    using assms by (simp add: read_short_string_escape_def push_decimal_escape_def obind_assoc peek_ahead_is is_newline_def
      is_digit_def numeral_3_eq_3 del: decimal_digits.simps)
  also obtain l1 where d1: "obind (decimal_digits (Suc (Suc (Suc 0))) 0) ?f l = obind (decimal_digits (Suc (Suc 0)) 0) ?f l1"
      and l1: "follows l (48 # 48 # r) l1"
    using digit_step [OF assms, of "Suc (Suc 0)" 0 ?f] by auto
  note d1
  also obtain l2 where d2: "obind (decimal_digits (Suc (Suc 0)) 0) ?f l1 = obind (decimal_digits (Suc 0) 0) ?f l2"
      and l2: "follows l1 (48 # r) l2"
    using digit_step [of l1 "48 # r" "Suc 0" 0 ?f] l1 by (auto simp: follows_def)
  note d2
  also obtain l3 where d3: "obind (decimal_digits (Suc 0) 0) ?f l2 = obind (decimal_digits 0 0) ?f l3" and l3: "follows l2 r l3"
    using digit_step [of l2 r 0 0 ?f] l2 by (auto simp: follows_def)
  note d3
  also have "obind (decimal_digits 0 0) ?f l3 = f [0] l3" by simp
  finally show ?thesis using follows_trans [OF l1 follows_trans [OF l2 l3]] by blast
qed

lemma quote_step:
  assumes l: "whole l" "ahead l = quote_byte b @ c # r" "c \<noteq> 13"
  shows "\<exists>l1. short_string_n (Suc n) 34 buf l = short_string_n n 34 (buf @ [b]) l1 \<and> follows l (c # r) l1"
proof (cases "b \<in> {92, 34, 10, 13, 0}")
  case True
  then obtain e q where q: "quote_byte b = 92 # e # q" by (auto simp: quote_byte_def)
  obtain l1 where l1: "short_string_n (Suc n) 34 buf l = obind read_short_string_escape (\<lambda>x. short_string_n n 34 (buf @ x)) l1"
      "follows l (e # q @ c # r) l1"
    using escape_step [of l "e # q @ c # r" n buf] l q by auto
  then have w: "whole l1" "ahead l1 = e # q @ c # r" by (auto simp: follows_def)
  have "\<exists>l2. obind read_short_string_escape (\<lambda>x. short_string_n n 34 (buf @ x)) l1 = short_string_n n 34 (buf @ [b]) l2
    \<and> follows l1 (c # r) l2"
    using True q w letter_step [OF w, of "\<lambda>x. short_string_n n 34 (buf @ x)"] newline_step [of l1 c r "\<lambda>x. short_string_n n 34 (buf @ x)"] zero_step [of l1 "c # r" "\<lambda>x. short_string_n n 34 (buf @ x)"] l(3)
    by (auto simp: quote_byte_def is_newline_def is_digit_def escape_letter_def)
  then show ?thesis using l1 follows_trans by metis
next
  case False
  then have a: "ahead l = b # c # r" using l(2) by (simp add: quote_byte_def)
  obtain l1 where "\<forall>m :: u8 list lop. othen l_advance m l = m l1" "follows l (c # r) l1" using advance_ahead [OF l(1) a] by blast
  then show ?thesis using False by (intro exI [of _ l1]) (simp add: peek_ahead_is [OF l(1) a] is_newline_def)
qed

lemma quoted_back:
  assumes "whole l" "ahead l = concat (map quote_byte bs) @ 34 # r" "length bs < n"
  shows "\<exists>l1. short_string_n n 34 buf l = (l1, Inr (buf @ bs)) \<and> follows l r l1"
  using assms
proof (induction bs arbitrary: l n buf)
  case Nil
  then obtain n' where n: "n = Suc n'" by (cases n) auto
  obtain l1 where "\<forall>m :: u8 list lop. othen l_advance m l = m l1" "follows l r l1" using advance_ahead [of l 34 r] Nil by auto
  then show ?case using n Nil by (intro exI [of _ l1]) (simp add: peek_ahead_is [of l 34 r] is_newline_def oret_def)
next
  case (Cons b bs)
  then obtain n' where n: "n = Suc n'" "length bs < n'" by (cases n) auto
  obtain c q where c: "concat (map quote_byte bs) @ 34 # r = c # q" "c \<noteq> 13"
    using quote_byte_head by (cases bs) (auto, metis)
  obtain l1 where l1: "short_string_n (Suc n') 34 buf l = short_string_n n' 34 (buf @ [b]) l1" "follows l (c # q) l1"
    using quote_step [of l b c q n' buf] Cons.prems c by auto
  then obtain l2 where "short_string_n n' 34 (buf @ [b]) l1 = (l2, Inr ((buf @ [b]) @ bs))" "follows l1 r l2"
    using Cons.IH [of l1 n' "buf @ [b]"] n(2) c(1) by (auto simp: follows_def)
  then show ?case using n l1 follows_trans by auto
qed


lemma quote_length: "length bs \<le> length (concat (map quote_byte bs))"
proof (induction bs)
  case (Cons b bs)
  have "1 \<le> length (quote_byte b)" by (simp add: quote_byte_def)
  then show ?case using Cons by simp
qed simp

lemma blank_quote: "skip_whitespace l = (l, Inr ())" if "whole l" "ahead l = 34 # r"
  using that by (simp add: skip_whitespace_def whole_def fast_skip_def is_blank_def)

lemma scan_quoted:
  assumes l: "whole l" "ahead l = quote_string bs @ r"
  shows "\<exists>l1. scan E l = (l1, Inr (T_Str bs, current_span l)) \<and> whole l1 \<and> lx_source l1 = lx_source l
    \<and> lx_lookahead l1 = lx_lookahead l \<and> ahead l1 = r"
proof -
  have a: "ahead l = 34 # concat (map quote_byte bs) @ 34 # r" using l(2) by (simp add: quote_string_def)
  obtain l1 where l1: "\<forall>m :: u8 list lop. othen l_advance m l = m l1" "follows l (concat (map quote_byte bs) @ 34 # r) l1"
    using advance_ahead [OF l(1) a] by blast
  then have w: "whole l1" and a1: "ahead l1 = concat (map quote_byte bs) @ 34 # r" by (auto simp: follows_def)
  have "length bs < rounds l1"
    using quote_length [of bs] arg_cong [OF a1, of length] by (simp add: rounds_whole [OF w] left_def)
  then obtain l2 where l2: "short_string_n (rounds l1) 34 [] l1 = (l2, Inr bs)" "follows l1 r l2"
    using quoted_back [OF w a1, of "rounds l1" "[]"] by auto
  have s: "read_short_string 34 l = (l2, Inr bs)" using l1 l2 by (simp add: read_short_string_def)
  have t: "scan_at E (lx_pos l) 34 l = (fst (text_from (lx_pos l) l2), Inr (Some (T_Str bs)))"
    using s by (simp add: scan_at_def is_newline_def is_digit_def is_alpha_def obind_ok [where m = "read_short_string 34", OF s]
        othen_def text_from_def set_text_def oret_def omod_def obind_def [of "text_from _"])
  have "scan E l = (fst (text_from (lx_pos l) l2), Inr (T_Str bs, current_span l))"
    using l(1) blank_quote [OF l(1) a] t
    by (simp add: scan_def rounds_def reader_error_whole othen_def [of skip_whitespace]
        obind_ok [where m = skip_whitespace, OF blank_quote [OF l(1) a]] peek_ahead_is [OF l(1) a]
        obind_ok [where m = "scan_at E (lx_pos l) 34", OF t] oret_def)
  moreover have "text_from (lx_pos l) l2 = (l2\<lparr>lx_text := utf8_lossy (source_slice (lx_pos l) (lx_pos l2) l2)\<rparr>, Inr ())"
    by (simp add: text_from_def set_text_def omod_def)
  ultimately show ?thesis using follows_trans [OF l1(2) l2(2)] by (auto simp: follows_def whole_def)
qed

lemma scan_end:
  assumes "whole l" "ahead l = []"
  shows "scan E l = (l, Inr (T_Eos, current_span l))"
proof -
  have n: "skip_whitespace l = (l, Inr ())" using assms by (simp add: skip_whitespace_def whole_def fast_skip_def)
  have "at l = None" using assms by (simp add: at_def)
  then show ?thesis using assms(1)
    by (simp add: scan_def rounds_def reader_error_whole othen_def [of skip_whitespace] obind_ok [where m = skip_whitespace, OF n]
        obind_def [of l_peek] oret_def)
qed

text \<open>C28. What \<^verbatim>\<open>string.format ("%q", s)\<close> gives is a text whose only token is the string \<open>s\<close>,
  whatever bytes \<open>s\<close> holds: quotes, backslashes, newlines, carriage returns and zeros included.\<close>

theorem quoted_string_lexes_back:
  "tokens (Suc (length (quote_string bs))) E (lexer_new (quote_string bs) name) = Inr [T_Str bs, T_Eos]"
proof -
  have w: "whole (lexer_new (quote_string bs) name)" "lx_lookahead (lexer_new (quote_string bs) name) = None" by (simp_all add: whole_new)
  have a: "ahead (lexer_new (quote_string bs) name) = quote_string bs @ []" by (simp add: lexer_new_def quote_string_def)
  obtain l1 where l1: "scan E (lexer_new (quote_string bs) name) = (l1, Inr (T_Str bs, current_span (lexer_new (quote_string bs) name)))"
      "whole l1" "lx_lookahead l1 = None" "ahead l1 = []"
    using scan_quoted [OF w(1) a, of E] w(2) by auto
  have "length (quote_string bs) = Suc (Suc (length (concat (map quote_byte bs))))" by (simp add: quote_string_def)
  then show ?thesis using w l1 scan_end [OF l1(2,4), of E] by (simp add: next_token_def)
qed

end
