(* ===== verification/LexChunks.thy ===== *)
theory LexChunks
  imports LexProps
begin

text \<open>
  A reader may give a text in any pieces: the lexer of the pieces is simulated, operation by operation, by the
  lexer of the whole text, so both give the same tokens.
\<close>

section \<open>The simulation\<close>

definition is_data :: "reader_answer \<Rightarrow> bool" where
  "is_data a \<longleftrightarrow> (case a of R_Data d \<Rightarrow> d \<noteq> [] | _ \<Rightarrow> False)"

definition no_reader_error :: "lexer \<Rightarrow> bool" where
  "no_reader_error l \<longleftrightarrow> lx_reader_error l = None \<and> (case lx_reader l of None \<Rightarrow> True
     | Some as \<Rightarrow> lx_exhausted l \<or> (case dropWhile is_data as of R_Err e # _ \<Rightarrow> False | _ \<Rightarrow> True))"

definition good :: "lexer \<Rightarrow> bool" where
  "good l \<longleftrightarrow> no_reader_error l \<and> (pending l \<noteq> [] \<longrightarrow> lx_pos l \<le> length (lx_source l))"

definition flat :: "lexer \<Rightarrow> lexer" where
  "flat l = l\<lparr>lx_source := lx_source l @ pending l, lx_reader := None, lx_exhausted := False\<rparr>"

definition simulates :: "'a lop \<Rightarrow> lexer \<Rightarrow> bool" where
  "simulates m l \<longleftrightarrow> (good l \<longrightarrow> good (fst (m l)) \<and> m (flat l) = (flat (fst (m l)), snd (m l)))"

definition sim :: "'a lop \<Rightarrow> bool" where "sim m \<longleftrightarrow> (\<forall>l. simulates m l)"

lemma sim_bind [intro]: "sim m \<Longrightarrow> (\<And>x. sim (f x)) \<Longrightarrow> sim (obind m f)"
  unfolding sim_def
proof (intro allI)
  fix l
  assume m: "\<forall>l. simulates m l" and f: "\<And>x. \<forall>l. simulates (f x) l"
  obtain l1 r where r: "m l = (l1, r)" by (cases "m l")
  show "simulates (obind m f) l"
  proof (cases r)
    case (Inl e)
    then show ?thesis using r m [rule_format, of l] by (auto simp: simulates_def obind_def)
  next
    case (Inr x)
    then show ?thesis using r m [rule_format, of l] f [rule_format, of x l1] by (auto simp: simulates_def obind_def)
  qed
qed

lemma sim_then [intro]: "sim m \<Longrightarrow> sim n \<Longrightarrow> sim (othen m n)"
  unfolding othen_def by (rule sim_bind)

lemma sim_if [intro]: "(b \<Longrightarrow> sim m) \<Longrightarrow> (\<not> b \<Longrightarrow> sim n) \<Longrightarrow> sim (if b then m else n)" by simp

lemma flat_fields [simp]: "lx_pos (flat l) = lx_pos l" "lx_line (flat l) = lx_line l" "lx_column (flat l) = lx_column l"
  "lx_lookahead (flat l) = lx_lookahead l" "lx_source_name (flat l) = lx_source_name l" "lx_text (flat l) = lx_text l" "lx_reader (flat l) = None"
  "lx_reader_error (flat l) = lx_reader_error l" "lx_source (flat l) = lx_source l @ pending l" "lx_exhausted (flat l) = False"
  "pending (flat l) = []"
  by (simp_all add: flat_def pending_def)

lemma is_data_eta: "is_data = (\<lambda>a. case a of R_Data d \<Rightarrow> d \<noteq> [] | _ \<Rightarrow> False)"
  by (simp add: fun_eq_iff is_data_def)

lemma pending_data: "pending l = (if lx_exhausted l then [] else case lx_reader l of None \<Rightarrow> []
    | Some as \<Rightarrow> concat (map (\<lambda>a. case a of R_Data d \<Rightarrow> d | _ \<Rightarrow> []) (takeWhile is_data as)))"
  by (simp only: pending_def is_data_eta)

text \<open>A refill moves bytes from the reader to the buffer.\<close>

lemma refill_good:
  assumes "good l"
  shows "good (fst (refill l)) \<and> flat (fst (refill l)) = flat l
    \<and> (if snd (refill l) then length (lx_source l) < length (lx_source (fst (refill l))) else pending (fst (refill l)) = [])
    \<and> lx_pos (fst (refill l)) = lx_pos l \<and> (pending l = [] \<longrightarrow> \<not> snd (refill l)) \<and> (lx_reader l = None \<longrightarrow> fst (refill l) = l)
    \<and> (\<exists>xs. lx_source (fst (refill l)) = lx_source l @ xs)"
proof (cases "lx_exhausted l \<or> lx_reader l = None")
  case True
  then show ?thesis using assms by (auto simp: refill_def pending_def)
next
  case False
  then obtain as where as: "lx_reader l = Some as" "\<not> lx_exhausted l" by auto
  show ?thesis
  proof (cases as)
    case Nil
    then show ?thesis using as assms
      by (simp add: refill_def flat_def good_def no_reader_error_def pending_data)
  next
    case (Cons a as')
    then show ?thesis using as assms
      by (cases a) (auto simp: refill_def flat_def good_def no_reader_error_def pending_data Let_def is_data_def split: list.splits)
  qed
qed


lemma at_flat: "lx_pos l < length (lx_source l) \<Longrightarrow> at (flat l) = Some (lx_source l ! lx_pos l)"
  by (simp add: at_def nth_append)

lemma at_flat_end: "pending l = [] \<Longrightarrow> at (flat l) = at l" by (simp add: at_def)

lemma peek_flat: "peek (flat l) = (flat l, at (flat l))"
  by (simp add: peek_def at_def refill_def)

text \<open>Looking at bytes changes what is in the buffer only.\<close>

lemma peek_good:
  assumes "good l"
  shows "good (fst (peek l)) \<and> flat (fst (peek l)) = flat l \<and> snd (peek l) = at (flat l) \<and> lx_pos (fst (peek l)) = lx_pos l
    \<and> (if snd (peek l) = None then pending (fst (peek l)) = [] else lx_pos l < length (lx_source (fst (peek l))))"
proof (cases "lx_pos l < length (lx_source l)")
  case True
  then show ?thesis using assms by (simp add: peek_def at_flat)
next
  case False
  obtain l1 ok where r: "refill l = (l1, ok)" by (cases "refill l")
  note g = refill_good [OF assms, unfolded r fst_conv snd_conv]
  show ?thesis
  proof (cases ok)
    case True
    then have "pending l \<noteq> []" using g by auto
    then have "lx_pos l = length (lx_source l)" using assms False by (simp add: good_def)
    then have "lx_pos l1 < length (lx_source l1)" using g True by simp
    then show ?thesis using False r g True at_flat [of l1] by (simp add: peek_def)
  next
    case not_ok: False
    then have p: "pending l1 = []" using g by simp
    then have "length (lx_source l @ pending l) = length (lx_source l1)" using g by (metis append_Nil2 flat_fields(9))
    moreover have "pending l \<noteq> [] \<longrightarrow> lx_pos l \<le> length (lx_source l)" using assms by (simp add: good_def)
    ultimately have "at (flat l) = None \<or> lx_pos l < length (lx_source l1)"
      by (auto simp: at_def)
    moreover have "refill l = (l1, False) \<Longrightarrow> lx_source l1 = lx_source l"
      by (auto simp: refill_def Let_def split: if_splits option.splits list.splits reader_answer.splits)
    ultimately show ?thesis using False r g not_ok p by (auto simp: peek_def)
  qed
qed

lemma sim_peek [intro!]: "sim l_peek"
proof -
  have "simulates l_peek l" for l
    using peek_good [of l] by (auto simp: simulates_def l_peek_def peek_flat split: prod.split)
  then show ?thesis by (simp add: sim_def)
qed

lemma sim_prim [intro!]: "sim (oret x)" "sim (lex_error m)" "sim (lex_error_near n t)" "sim (ofail e)"
  by (simp_all add: sim_def simulates_def oret_def lex_error_def lex_error_near_def ofail_def)

lemma sim_get: "(\<And>l. good l \<Longrightarrow> g (flat l) = g l) \<Longrightarrow> sim (oget g)"
  by (simp add: sim_def simulates_def oget_def)

lemma pending_fields [simp]: "pending (l\<lparr>lx_text := t\<rparr>) = pending l" "pending (l\<lparr>lx_pos := p\<rparr>) = pending l"
  "pending (l\<lparr>lx_line := n\<rparr>) = pending l" "pending (l\<lparr>lx_column := c\<rparr>) = pending l" "pending (l\<lparr>lx_lookahead := t'\<rparr>) = pending l"
  by (simp_all add: pending_def cong: option.case_cong if_cong)

lemma error_fields [simp]: "no_reader_error (l\<lparr>lx_text := t\<rparr>) = no_reader_error l"
  "no_reader_error (l\<lparr>lx_pos := p\<rparr>) = no_reader_error l" "no_reader_error (l\<lparr>lx_line := n\<rparr>) = no_reader_error l"
  "no_reader_error (l\<lparr>lx_column := c\<rparr>) = no_reader_error l" "no_reader_error (l\<lparr>lx_lookahead := t'\<rparr>) = no_reader_error l"
  by (simp_all add: no_reader_error_def cong: option.case_cong if_cong)

lemma flat_updates: "flat (l\<lparr>lx_text := t\<rparr>) = flat l\<lparr>lx_text := t\<rparr>" "flat (l\<lparr>lx_pos := p\<rparr>) = flat l\<lparr>lx_pos := p\<rparr>"
  "flat (l\<lparr>lx_line := n\<rparr>) = flat l\<lparr>lx_line := n\<rparr>" "flat (l\<lparr>lx_column := c\<rparr>) = flat l\<lparr>lx_column := c\<rparr>"
  "flat (l\<lparr>lx_lookahead := t'\<rparr>) = flat l\<lparr>lx_lookahead := t'\<rparr>"
  by (simp_all add: flat_def)

lemma sim_set_text [intro!]: "sim (set_text t)"
  by (simp add: sim_def simulates_def set_text_def omod_def good_def flat_updates)

lemma sim_peek_is [intro!]: "sim (peek_is p)"
  unfolding peek_is_def by (intro sim_bind sim_peek sim_prim)

lemma ensure_good:
  assumes "good l" "length (case lx_reader l of None \<Rightarrow> [] | Some as \<Rightarrow> as) < n"
  shows "good (fst (ensure_rounds n k l)) \<and> flat (fst (ensure_rounds n k l)) = flat l \<and> lx_pos (fst (ensure_rounds n k l)) = lx_pos l
    \<and> (snd (ensure_rounds n k l) \<longleftrightarrow> lx_pos l + k \<le> length (lx_source l @ pending l))
    \<and> (snd (ensure_rounds n k l) \<longrightarrow> lx_pos l + k \<le> length (lx_source (fst (ensure_rounds n k l))))"
  using assms
proof (induction n arbitrary: l)
  case (Suc n)
  show ?case
  proof (cases "lx_pos l + k \<le> length (lx_source l)")
    case True
    then show ?thesis using Suc.prems by simp
  next
    case False
    obtain l1 ok where r: "refill l = (l1, ok)" by (cases "refill l")
    note g = refill_good [OF Suc.prems(1), unfolded r fst_conv snd_conv]
    then have len: "length (lx_source l @ pending l) = length (lx_source l1 @ pending l1)" by (metis flat_fields(9))
    show ?thesis
    proof (cases ok)
      case True
      then have "length (case lx_reader l1 of None \<Rightarrow> [] | Some as \<Rightarrow> as) < n"
        using r Suc.prems(2) by (auto simp: refill_def Let_def split: if_splits option.splits list.splits reader_answer.splits)
      then show ?thesis using Suc.IH [of l1] g r True False len by auto
    next
      case not_ok: False
      then have "lx_source l1 = lx_source l"
        using r by (auto simp: refill_def Let_def split: if_splits option.splits list.splits reader_answer.splits)
      then show ?thesis using g r not_ok False len by auto
    qed
  qed
qed simp

lemma peek_ahead_good:
  assumes "good l"
  shows "good (fst (peek_ahead k l)) \<and> flat (fst (peek_ahead k l)) = flat l \<and> lx_pos (fst (peek_ahead k l)) = lx_pos l
    \<and> peek_ahead k (flat l) = (flat l, snd (peek_ahead k l))
    \<and> (snd (peek_ahead k l) \<noteq> None \<longrightarrow> lx_pos l + k < length (lx_source (fst (peek_ahead k l))))"
proof (cases "lx_pos l + k < length (lx_source l)")
  case True
  then show ?thesis using assms by (simp add: peek_ahead_def nth_append)
next
  case False
  obtain l1 ok where r: "ensure_available (k + 1) l = (l1, ok)" by (cases "ensure_available (k + 1) l")
  note g = ensure_good [OF assms, of "Suc (length (case lx_reader l of None \<Rightarrow> [] | Some as \<Rightarrow> as))" "k + 1",
    folded ensure_available_def, unfolded r fst_conv snd_conv]
  then have src: "lx_source l @ pending l = lx_source l1 @ pending l1" by (metis flat_fields(9) lessI)
  have "peek_ahead k (flat l) = (flat l, if lx_pos l + k < length (lx_source l @ pending l)
      then Some ((lx_source l @ pending l) ! (lx_pos l + k)) else None)"
    by (simp add: peek_ahead_def ensure_available_def refill_def)
  then show ?thesis using g False r by (auto simp: peek_ahead_def src nth_append)
qed

lemma sim_peek_ahead [intro!]: "sim (l_peek_ahead k)"
proof -
  have "simulates (l_peek_ahead k) l" for l
    using peek_ahead_good [of l k] by (auto simp: simulates_def l_peek_ahead_def split: prod.split)
  then show ?thesis by (simp add: sim_def)
qed


section \<open>Moving forward\<close>

lemma good_pos: "good l \<Longrightarrow> p \<le> length (lx_source l) \<or> pending l = [] \<Longrightarrow> good (l\<lparr>lx_pos := p\<rparr>)"
  by (auto simp: good_def)

lemma good_fields: "good (l\<lparr>lx_line := n\<rparr>) = good l" "good (l\<lparr>lx_column := c\<rparr>) = good l" "good (l\<lparr>lx_text := t\<rparr>) = good l"
  "good (l\<lparr>lx_lookahead := t'\<rparr>) = good l"
  by (simp_all add: good_def)

definition stepped :: "lexer \<Rightarrow> lexer" where
  "stepped l = l\<lparr>lx_pos := lx_pos l + 1, lx_column := (if is_newline (lx_source l ! lx_pos l) then lx_column l else lx_column l + 1)\<rparr>"

lemma advance_stepped: "lx_pos l < length (lx_source l) \<Longrightarrow> advance l =
    (if lx_reader l \<noteq> None \<and> length (lx_source l) \<le> lx_pos l + 1 then fst (refill (stepped l)) else stepped l,
     Some (lx_source l ! lx_pos l))"
  by (simp add: advance_def stepped_def Let_def)

lemma advance_at_end: "length (lx_source l) \<le> lx_pos l \<Longrightarrow> advance l = (case refill l of (l1, False) \<Rightarrow> (l1, None) | (l1, True) \<Rightarrow>
    (if lx_reader l1 \<noteq> None \<and> length (lx_source l1) \<le> lx_pos l1 + 1 then fst (refill (stepped l1)) else stepped l1,
     Some (lx_source l1 ! lx_pos l1)))"
  by (cases "refill l"; cases "snd (refill l)") (auto simp: advance_def stepped_def Let_def)

lemma stepped_good:
  assumes "good l" "lx_pos l < length (lx_source l)"
  shows "good (stepped l) \<and> flat (stepped l) = stepped (flat l)"
  using assms by (simp add: stepped_def good_def flat_updates nth_append)

lemma sim_advance [intro!]: "sim l_advance"
proof -
  have ahead: "good l1 \<and> flat l1 = stepped (flat l)" if "good l" "lx_pos l < length (lx_source l)"
      "l1 = (if lx_reader l \<noteq> None \<and> length (lx_source l) \<le> lx_pos l + 1 then fst (refill (stepped l)) else stepped l)" for l l1
    using stepped_good [OF that(1,2)] refill_good [of "stepped l"] that(3) by simp
  have "good (fst (advance l)) \<and> fst (advance (flat l)) = flat (fst (advance l))" if l: "good l" for l
  proof (cases "lx_pos l < length (lx_source l)")
    case True
    then show ?thesis using ahead [OF l True refl] by (simp add: advance_stepped)
  next
    case False
    obtain l1 ok where r: "refill l = (l1, ok)" by (cases "refill l")
    note g = refill_good [OF l, unfolded r fst_conv snd_conv]
    show ?thesis
    proof (cases ok)
      case True
      then have "lx_pos l = length (lx_source l)" using g l False by (auto simp: good_def)
      then have pos: "lx_pos l1 < length (lx_source l1)" using g True by simp
      have "lx_pos (flat l1) < length (lx_source (flat l1))" using pos by simp
      then have "fst (advance (flat l1)) = stepped (flat l1)" by (simp add: advance_stepped)
      then show ?thesis using ahead [OF _ pos refl] g r True False by (simp add: advance_at_end)
    next
      case not_ok: False
      then have p: "pending l1 = []" using g by simp
      have "lx_source l1 = lx_source l"
        using r not_ok by (auto simp: refill_def Let_def split: if_splits option.splits list.splits reader_answer.splits)
      moreover have "lx_source l @ pending l = lx_source l1 @ pending l1" using g by (metis flat_fields(9))
      ultimately have "length (lx_source (flat l1)) \<le> lx_pos (flat l1)" using False g p by simp
      then have "fst (advance (flat l1)) = flat l1" by (simp add: advance_at_end refill_def)
      then show ?thesis using g r not_ok False by (simp add: advance_at_end)
    qed
  qed
  then show ?thesis by (simp add: sim_def simulates_def l_advance_def)
qed

lemma inc_line_good:
  assumes l: "good l"
  shows "good (inc_line l) \<and> inc_line (flat l) = flat (inc_line l)"
proof -
  obtain l1 old where r1: "peek l = (l1, old)" by (cases "peek l")
  note g1 = peek_good [OF l, unfolded r1 fst_conv snd_conv]
  let ?l1 = "l1\<lparr>lx_pos := lx_pos l1 + 1\<rparr>"
  have good1: "good ?l1" using g1 by (intro good_pos) (auto split: if_splits)
  obtain l2 c where r2: "peek ?l1 = (l2, c)" by (cases "peek ?l1")
  note g2 = peek_good [OF good1, unfolded r2 fst_conv snd_conv]
  let ?twice = "case c of Some b \<Rightarrow> is_newline b \<and> b \<noteq> (case old of None \<Rightarrow> 0 | Some a \<Rightarrow> a) | None \<Rightarrow> False"
  let ?l2 = "if ?twice then l2\<lparr>lx_pos := lx_pos l2 + 1\<rparr> else l2"
  have good2: "good ?l2"
  proof (cases ?twice)
    case True
    then have "c \<noteq> None" by (cases c) simp_all
    then have "lx_pos l2 + 1 \<le> length (lx_source l2)" using g2 by auto
    then show ?thesis using True g2 good_pos [of l2 "lx_pos l2 + 1"] by simp
  qed (use g2 in auto)
  have e: "inc_line l = ?l2\<lparr>lx_line := lx_line ?l2 + 1, lx_column := 1\<rparr>"
    using r1 r2 by (auto simp: inc_line_def Let_def split: option.split)
  have f1: "flat ?l1 = flat l\<lparr>lx_pos := lx_pos l + 1\<rparr>" using g1 by (simp add: flat_updates)
  have f: "peek (flat l) = (flat l, old)" "peek (flat l\<lparr>lx_pos := lx_pos l + 1\<rparr>) = (flat l2, c)"
    using peek_flat [of l] peek_flat [of ?l1] g1 g2 f1 by simp_all
  have lines: "lx_line l2 = lx_line (flat l2)" "lx_line ?l2 = lx_line l2" by simp_all
  have "inc_line (flat l) = flat (inc_line l)"
    unfolding e lines(2) unfolding lines(1) using f g2 by (auto simp: inc_line_def Let_def flat_updates split: option.split)
  then show ?thesis using good2 unfolding e by (simp add: good_fields)
qed

lemma sim_inc_line [intro!]: "sim l_inc_line"
  using inc_line_good by (simp add: sim_def simulates_def l_inc_line_def)

lemma rounds_flat: "rounds (flat l) = rounds l"
  by (simp add: rounds_def rest_bytes_def)

lemma sim_n: "(\<And>n. sim (m n)) \<Longrightarrow> sim (\<lambda>l. m (rounds l) l)"
  by (simp add: sim_def simulates_def rounds_flat)

lemma slice_flat: "good l \<Longrightarrow> b \<le> lx_pos l \<Longrightarrow> source_slice a b (flat l) = source_slice a b l"
  by (auto simp: source_slice_def good_def)


section \<open>Long strings\<close>

lemma simulates_bind:
  assumes "good l \<Longrightarrow> simulates m l" "\<And>l1 x. good l \<Longrightarrow> m l = (l1, Inr x) \<Longrightarrow> good l1 \<Longrightarrow> simulates (f x) l1"
  shows "simulates (obind m f) l"
proof (cases "good l")
  case True
  obtain l1 r where r: "m l = (l1, r)" by (cases "m l")
  note m = assms(1) [OF True]
  then have "good l1" using r True by (simp add: simulates_def)
  then have "simulates (f x) l1" if "r = Inr x" for x using assms(2) [OF True, of l1 x] r that by simp
  then show ?thesis using r m by (cases r) (auto simp: simulates_def obind_def)
qed (simp add: simulates_def)

lemma simD: "sim m \<Longrightarrow> simulates m l" by (simp add: sim_def)
lemma simI: "(\<And>l. simulates m l) \<Longrightarrow> sim m" by (simp add: sim_def)

lemma simulates_skip_bracket:
  "lx_pos l + 2 + sep \<le> length (lx_source l) \<Longrightarrow> simulates (skip_bracket sep) l"
  by (simp add: simulates_def skip_bracket_def omod_def flat_updates good_fields good_pos)

lemma sim_count_equals: "sim (count_equals n i)"
  by (induction n arbitrary: i) auto

lemma sim_count_sep: "sim count_sep"
  unfolding count_sep_def [abs_def]
  by (rule sim_n [where m = "\<lambda>n. obind (count_equals n 1) (\<lambda>i. obind (l_peek_ahead i) (\<lambda>c.
     oret (if c = Some 91 then int i - 1 else if 1 < i then - 1 else - 2)))"]) (intro sim_bind sim_count_equals sim_peek_ahead sim_prim)

lemma count_sep_seen:
  assumes "good l" "count_sep l = (l1, Inr sep)" "0 \<le> sep"
  shows "lx_pos l1 + 2 + nat sep \<le> length (lx_source l1)"
proof -
  obtain l2 r where r: "count_equals (rounds l) 1 l = (l2, r)" by (cases "count_equals (rounds l) 1 l")
  then obtain i where i: "r = Inr i" using assms(2) by (cases r) (auto simp: count_sep_def obind_def)
  have g: "good l2" using sim_count_equals [of "rounds l" 1] r assms(1) by (auto simp: sim_def simulates_def)
  obtain l3 c where c: "peek_ahead i l2 = (l3, c)" by (cases "peek_ahead i l2")
  have "l1 = l3" "sep = (if c = Some 91 then int i - 1 else if 1 < i then - 1 else - 2)"
    using assms(2) r i c by (auto simp: count_sep_def obind_def l_peek_ahead_def oret_def)
  then show ?thesis using peek_ahead_good [OF g, of i] c assms(3) by (auto split: if_splits)
qed

lemma sim_equals_then: "sim (equals_then n i)"
  by (induction n arbitrary: i) auto

lemma equals_then_seen: "good l \<Longrightarrow> equals_then n i l = (l1, Inr True) \<Longrightarrow> lx_pos l1 + i + n < length (lx_source l1)"
proof (induction n arbitrary: i l)
  case 0
  then show ?case using peek_ahead_good [of l i] by (auto simp: obind_def l_peek_ahead_def oret_def split: prod.splits)
next
  case (Suc n)
  obtain l2 c where c: "peek_ahead i l = (l2, c)" by (cases "peek_ahead i l")
  then have "good l2" "equals_then n (i + 1) l2 = (l1, Inr True)"
    using Suc.prems peek_ahead_good [of l i] by (auto simp: obind_def l_peek_ahead_def oret_def split: if_splits)
  then show ?case using Suc.IH [of l2 "i + 1"] by simp
qed

lemma sim_check_closing: "sim (check_closing_long_bracket sep)"
  unfolding check_closing_long_bracket_def by (intro sim_bind sim_if sim_peek_is sim_equals_then sim_prim)

lemma check_closing_seen:
  assumes "good l" "check_closing_long_bracket sep l = (l1, Inr True)"
  shows "lx_pos l1 + 2 + sep \<le> length (lx_source l1)"
proof -
  obtain l2 r where r: "peek_is (\<lambda>c. c = 93) l = (l2, r)" by (cases "peek_is (\<lambda>c. c = 93) l")
  then have g: "good l2" using assms(1) simD [OF sim_peek_is, of "\<lambda>c. c = 93" l] by (simp add: simulates_def)
  have "equals_then sep 1 l2 = (l1, Inr True)"
    using assms(2) r by (cases r) (auto simp: check_closing_long_bracket_def obind_def oret_def split: if_splits)
  from equals_then_seen [OF g this] show ?thesis by simp
qed

lemma sim_peek_case: "sim n \<Longrightarrow> (\<And>b. sim (f b)) \<Longrightarrow> sim (obind l_peek (\<lambda>c. case c of None \<Rightarrow> n | Some b \<Rightarrow> f b))"
  by (intro sim_bind sim_peek) (simp split: option.split)

lemma sim_long_string_n: "sim (long_string_n n sep c buf)"
proof (induction n arbitrary: buf)
  case (Suc n)
  have close: "sim (obind (check_closing_long_bracket sep) (\<lambda>closing.
      if closing then othen (skip_bracket sep) (oret out) else othen l_advance (long_string_n n sep c buf)))" for buf out
  proof (intro simI simulates_bind)
    fix l l1 closing
    assume "good l" "check_closing_long_bracket sep l = (l1, Inr closing)" "good l1"
    then have "closing \<Longrightarrow> simulates (skip_bracket sep) l1"
      using check_closing_seen [of l sep l1] simulates_skip_bracket [of l1 sep] by simp
    moreover have "sim (othen l_advance (long_string_n n sep c buf))" using Suc by (intro sim_then sim_advance)
    ultimately show "simulates (if closing then othen (skip_bracket sep) (oret out) else othen l_advance (long_string_n n sep c buf)) l1"
      using simulates_bind [of l1 "skip_bracket sep" "\<lambda>_. oret out", OF _ simD [OF sim_prim(1)]]
      by (cases closing) (simp_all add: othen_def simD)
  qed (rule simD [OF sim_check_closing])
  show ?case unfolding long_string_n.simps
    by (intro sim_peek_case sim_prim sim_if sim_then sim_inc_line sim_advance close Suc)
qed auto

lemma simulates_read_long_string:
  assumes "lx_pos l + 2 + sep \<le> length (lx_source l)"
  shows "simulates (read_long_string sep c) l"
proof -
  have "sim (\<lambda>l. long_string_n (rounds l) sep c [] l)"
    by (rule sim_n [where m = "\<lambda>n. long_string_n n sep c []"]) (rule sim_long_string_n)
  then have "sim (obind (peek_is is_newline) (\<lambda>b. othen (if b then l_inc_line else oret ()) (\<lambda>l. long_string_n (rounds l) sep c [] l)))"
    by (intro sim_bind sim_then sim_if sim_peek_is sim_inc_line sim_prim)
  then show ?thesis unfolding read_long_string_def othen_def [of "skip_bracket sep"]
    by (intro simulates_bind simulates_skip_bracket [OF assms] simD)
qed


section \<open>Scanning\<close>

text \<open>In a text given at once the fast loops do what the loops over a reader do.\<close>

lemma skip_while_fast:
  assumes "lx_reader l = None" "\<And>b. p b \<Longrightarrow> \<not> is_newline b" "left l < n"
  shows "skip_while_n n p l = (fast_skip p l, Inr ())"
  using assms
proof (induction n arbitrary: l)
  case (Suc n)
  have peek: "peek_is p l = (l, Inr (case at l of None \<Rightarrow> False | Some b \<Rightarrow> p b))"
    using Suc.prems(1) by (simp add: peek_is_def obind_def l_peek_def peek_def at_def refill_def oret_def)
  show ?case
  proof (cases "\<exists>b. at l = Some b \<and> p b")
    case True
    then obtain b where b: "lx_pos l < length (lx_source l)" "lx_source l ! lx_pos l = b" "p b" "\<not> is_newline b"
      using Suc.prems(2) by (auto simp: at_Some)
    let ?l = "l\<lparr>lx_pos := lx_pos l + 1, lx_column := lx_column l + 1\<rparr>"
    have a: "l_advance l = (?l, Inr ())" using b Suc.prems(1) by (simp add: l_advance_def advance_stepped stepped_def)
    have d: "drop (lx_pos l) (lx_source l) = b # drop (lx_pos l + 1) (lx_source l)"
      using b by (metis Cons_nth_drop_Suc Suc_eq_plus1)
    have "left ?l < n" using b Suc.prems(3) by (simp add: left_def)
    then have "skip_while_n n p ?l = (fast_skip p ?l, Inr ())" using Suc.prems(1,2) by (intro Suc.IH) simp_all
    moreover have "fast_skip p ?l = fast_skip p l" using d b(3) by (simp add: fast_skip_def Let_def)
    moreover have "skip_while_n (Suc n) p l = skip_while_n n p ?l"
      using True by (auto simp: obind_ok [where m = "peek_is p", OF peek] othen_def obind_ok [where m = l_advance, OF a])
    ultimately show ?thesis by simp
  next
    case False
    then have "takeWhile p (drop (lx_pos l) (lx_source l)) = []"
      by (cases "drop (lx_pos l) (lx_source l)") (auto simp: at_Some dest: at_ahead)
    then have "fast_skip p l = l" by (simp add: fast_skip_def Let_def)
    moreover have "skip_while_n (Suc n) p l = (l, Inr ())"
      using False by (cases "at l") (auto simp: obind_ok [where m = "peek_is p", OF peek] oret_def)
    ultimately show ?thesis by simp
  qed
qed simp

lemma sim_skip_while: "sim (skip_while p)"
proof -
  have "sim (skip_while_n n p)" for n by (induction n) auto
  then show ?thesis unfolding skip_while_def [abs_def] by (rule sim_n [where m = "\<lambda>n. skip_while_n n p"])
qed

lemma flat_none: "lx_reader l = None \<Longrightarrow> flat l = l\<lparr>lx_exhausted := False\<rparr>"
  by (simp add: flat_def pending_def)

lemma skip_while_flat: "(\<And>b. p b \<Longrightarrow> \<not> is_newline b) \<Longrightarrow> skip_while p (flat l) = (fast_skip p (flat l), Inr ())"
  unfolding skip_while_def by (rule skip_while_fast) (simp_all add: rounds_def rest_bytes_def left_def)

lemma simulates_fast_skip:
  assumes "lx_reader l = None"
  shows "good l \<Longrightarrow> good (fast_skip p l) \<and> fast_skip p (flat l) = flat (fast_skip p l)"
  using assms by (simp add: fast_skip_def Let_def flat_updates good_def no_reader_error_def pending_def)

lemma blank_not_newline: "is_blank b \<Longrightarrow> \<not> is_newline b" by (auto simp: is_blank_def is_newline_def)
lemma name_not_newline: "is_name_char b \<Longrightarrow> \<not> is_newline b"
  by (auto simp: is_name_char_def is_alpha_def is_digit_def is_newline_def)

lemma sim_skip_whitespace: "sim skip_whitespace"
proof (rule simI)
  fix l
  show "simulates skip_whitespace l"
  proof (cases "lx_reader l")
    case None
    then show ?thesis using simulates_fast_skip [OF None] by (simp add: simulates_def skip_whitespace_def)
  next
    case (Some as)
    then show ?thesis using simD [OF sim_skip_while, of is_blank l] skip_while_flat [of is_blank, OF blank_not_newline]
      by (simp add: simulates_def skip_whitespace_def)
  qed
qed

text \<open>The bytes of a name are in the buffer when it is sliced.\<close>

lemma sim_slice: "sim (obind (oget lx_pos) (\<lambda>b. oget (source_slice a b)))"
  by (auto simp: sim_def simulates_def obind_def oget_def slice_flat)

definition name_tail :: "nat \<Rightarrow> Token option lop" where
  "name_tail a = obind (obind (oget lx_pos) (\<lambda>b. oget (source_slice a b)))
     (\<lambda>bs. oret (Some (case lookup_keyword bs of Some kw \<Rightarrow> kw | None \<Rightarrow> T_Name bs)))"

lemma sim_name_tail: "sim (name_tail a)"
  unfolding name_tail_def by (intro sim_bind [OF sim_slice] sim_prim)

lemma scan_name_fast: "lx_reader l = None \<Longrightarrow> scan_name l = name_tail (lx_pos l) (fast_skip is_name_char l)"
  by (simp add: scan_name_def name_tail_def obind_def scan_name_extent_def oget_def Let_def)

lemma scan_name_slow: "lx_reader l = Some as \<Longrightarrow> scan_name l = obind (skip_while is_name_char) (\<lambda>_. name_tail (lx_pos l)) l"
  by (auto simp: scan_name_def name_tail_def obind_def scan_name_extent_def oget_def Let_def othen_def split: prod.split sum.split)

lemma sim_scan_name: "sim scan_name"
proof (rule simI)
  fix l
  show "simulates scan_name l"
  proof (cases "lx_reader l")
    case None
    then show ?thesis
      using simulates_fast_skip [OF None, of is_name_char] simD [OF sim_name_tail, of "lx_pos l" "fast_skip is_name_char l"]
      by (simp add: simulates_def scan_name_fast)
  next
    case (Some as)
    have "scan_name (flat l) = obind (skip_while is_name_char) (\<lambda>_. name_tail (lx_pos l)) (flat l)"
      using skip_while_flat [of is_name_char l, OF name_not_newline] by (simp add: scan_name_fast obind_def)
    moreover have "sim (obind (skip_while is_name_char) (\<lambda>_. name_tail (lx_pos l)))"
      by (intro sim_bind sim_skip_while sim_name_tail)
    ultimately show ?thesis using Some by (simp add: sim_def simulates_def scan_name_slow)
  qed
qed

lemma sim_slice_from: "sim (oget (\<lambda>l. source_slice start (lx_pos l) l))"
  by (intro sim_get) (simp add: slice_flat)

lemma sim_text_from: "sim (text_from start)"
proof -
  have "text_from start = obind (oget (\<lambda>l. source_slice start (lx_pos l) l)) (\<lambda>bs. set_text (utf8_lossy bs))"
    by (simp add: fun_eq_iff text_from_def)
  then show ?thesis by (simp only:) (intro sim_bind sim_slice_from sim_set_text)
qed

lemma sim_hex_prefixed: "sim (oget (hex_prefixed start))"
proof (rule sim_get)
  fix l
  assume "good l"
  then consider "pending l = []" | "lx_pos l \<le> length (lx_source l)" by (auto simp: good_def)
  then show "hex_prefixed start (flat l) = hex_prefixed start l"
  proof cases
    case 1
    then show ?thesis by (simp add: hex_prefixed_def)
  next
    case 2
    then have "2 \<le> lx_pos l - start \<Longrightarrow> Suc start < length (lx_source l)" by linarith
    then show ?thesis by (auto simp: hex_prefixed_def nth_append)
  qed
qed

lemma sim_read_number: "sim (read_number E c)"
proof -
  have "simulates (read_number E c) l" for l
    unfolding read_number_def [abs_def] Let_def simulates_def flat_fields
    by (rule simD [unfolded simulates_def])
      (intro sim_then sim_if sim_bind sim_advance sim_prim sim_skip_while sim_hex_prefixed sim_peek_is sim_slice_from sim_set_text,
       auto split: option.split)
  then show ?thesis by (simp add: sim_def)
qed

lemma sim_short_strings:
  "sim (read_hex_escape_digit m)" "sim read_hex_escape_byte" "sim (unicode_digits n acc)" "sim read_unicode_escape_char"
  "sim (decimal_digits n acc)" "sim push_decimal_escape" "sim read_short_string_escape" "sim (short_string_n n d buf)"
  "sim (read_short_string d)"
proof -
  show digit: "sim (read_hex_escape_digit m)" for m
    unfolding read_hex_escape_digit_def by (intro sim_peek_case sim_prim) (auto split: option.split)
  show byte: "sim read_hex_escape_byte" unfolding read_hex_escape_byte_def by (intro sim_bind digit sim_prim)
  show uni: "sim (unicode_digits n acc)" for n acc by (induction n arbitrary: acc) (auto intro: digit)
  show unicode: "sim read_unicode_escape_char" unfolding read_unicode_escape_char_def by (auto intro: uni split: option.split)
  show dec: "sim (decimal_digits n acc)" for n acc
  proof (induction n arbitrary: acc)
    case (Suc n)
    then show ?case unfolding decimal_digits.simps by (intro sim_peek_case sim_if sim_then sim_advance sim_prim)
  qed auto
  show push: "sim push_decimal_escape" unfolding push_decimal_escape_def by (intro sim_bind dec sim_if sim_prim)
  show esc: "sim read_short_string_escape" unfolding read_short_string_escape_def
    by (intro sim_peek_case sim_if sim_then sim_bind sim_advance sim_inc_line sim_prim byte unicode push)
  show str: "sim (short_string_n n d buf)" for n buf
  proof (induction n arbitrary: buf)
    case (Suc n)
    show ?case unfolding short_string_n.simps by (intro sim_peek_case sim_if sim_then sim_bind sim_advance sim_prim esc Suc)
  qed auto
  show "sim (read_short_string d)" unfolding read_short_string_def
    by (intro sim_then sim_advance sim_n [where m = "\<lambda>n. short_string_n n d []"] str)
qed


text \<open>The branches of the scan.\<close>

lemma simulates_long_after_sep:
  assumes "good l0" "count_sep l0 = (l, Inr sep)" "good l" "sim m" "\<And>s. sim (f s)"
  shows "simulates (if 0 \<le> sep then obind (read_long_string (nat sep) c) f else m) l"
proof (cases "0 \<le> sep")
  case True
  have "simulates (obind (read_long_string (nat sep) c) f) l"
    by (rule simulates_bind [OF simulates_read_long_string [OF count_sep_seen [OF assms(1,2) True]] simD [OF assms(5)]])
  then show ?thesis using True by simp
next
  case False
  then show ?thesis using simD [OF assms(4)] by simp
qed

lemma sim_long_after_sep:
  assumes "\<And>sep. sim (m sep)" "\<And>s. sim (f s)"
  shows "sim (obind count_sep (\<lambda>sep. if 0 \<le> sep then obind (read_long_string (nat sep) c) f else m sep))"
  by (rule simI, rule simulates_bind [OF simD [OF sim_count_sep]]) (rule simulates_long_after_sep [OF _ _ _ assms])

lemma sim_scan_comment: "sim scan_comment"
proof -
  have skip: "sim (othen (skip_while (\<lambda>c. \<not> is_newline c)) (oret None))" by (intro sim_then sim_skip_while sim_prim)
  have long: "sim (obind count_sep (\<lambda>sep. if 0 \<le> sep then othen (obind (read_long_string (nat sep) True) (\<lambda>_. oret ())) (oret None)
      else othen (skip_while (\<lambda>c. \<not> is_newline c)) (oret (None :: Token option))))"
    unfolding othen_def [of "obind _ _"] obind_assoc by (intro sim_long_after_sep skip) auto
  have branch: "sim (obind (if b then count_sep else oret (- 2)) (\<lambda>sep. if 0 \<le> sep then othen (obind (read_long_string (nat sep) True) (\<lambda>_. oret ())) (oret None)
      else othen (skip_while (\<lambda>c. \<not> is_newline c)) (oret (None :: Token option))))" for b
    using long skip by (cases b) simp_all
  show ?thesis unfolding scan_comment_def
    by (rule sim_then [OF sim_advance], rule sim_bind [OF sim_peek_is], rule sim_if [OF sim_prim(1)],
        rule sim_then [OF sim_advance], rule sim_bind [OF sim_peek_is], rule branch)
qed

lemma sim_scan_bracket: "sim (scan_bracket start)"
  unfolding scan_bracket_def
  by (intro sim_long_after_sep sim_if sim_then sim_text_from sim_advance sim_prim)

lemma sim_scan_at: "sim (scan_at E start c)"
  unfolding scan_at_def one_or_two_def scan_tilde_def scan_dots_def
  by (intro sim_if sim_then sim_bind sim_advance sim_inc_line sim_prim sim_peek_is sim_scan_comment sim_scan_bracket
      sim_short_strings sim_text_from sim_read_number sim_scan_name)

lemma sim_take_error: "sim take_reader_error"
  by (simp add: sim_def simulates_def take_reader_error_def good_def no_reader_error_def)

lemma sim_scan_n: "sim (scan_n n E)"
proof (induction n)
  case (Suc n)
  have span: "sim (oget current_span)" "sim (oget lx_pos)" by (auto intro!: sim_get simp: current_span_def)
  show ?case unfolding scan_n.simps
    by (intro sim_then sim_take_error sim_skip_whitespace sim_bind span sim_peek_case sim_prim sim_scan_at)
      (auto simp: Suc split: option.split)
qed auto

lemma sim_scan: "sim (scan E)"
  unfolding scan_def [abs_def] by (rule sim_n [where m = "\<lambda>n. scan_n n E"]) (rule sim_scan_n)

lemma sim_next_token: "sim (next_token E)"
proof (rule simI)
  fix l
  show "simulates (next_token E) l"
    using simD [OF sim_scan, of E l]
    by (cases "lx_lookahead l") (auto simp: simulates_def next_token_def good_fields flat_updates)
qed

lemma sim_lookahead: "sim (lookahead E)"
proof (rule simI)
  fix l
  have "sim (omod (\<lambda>l. l\<lparr>lx_lookahead := t\<rparr>))" for t
    by (simp add: sim_def simulates_def omod_def good_fields flat_updates)
  then have "sim (obind (scan E) (\<lambda>t. othen (omod (\<lambda>l. l\<lparr>lx_lookahead := Some t\<rparr>)) (oret (fst t))))"
    by (intro sim_bind sim_scan sim_then sim_prim)
  then show "simulates (lookahead E) l"
    by (cases "lx_lookahead l") (auto simp: simulates_def lookahead_def dest: simD)
qed

lemma tokens_flat: "good l \<Longrightarrow> tokens n E (flat l) = tokens n E l"
proof (induction n arbitrary: l)
  case (Suc n)
  obtain l1 r where r: "next_token E l = (l1, r)" by (cases "next_token E l")
  then have "good l1" "next_token E (flat l) = (flat l1, r)"
    using simD [OF sim_next_token, of E l] Suc.prems by (simp_all add: simulates_def)
  then show ?case using Suc.IH [of l1] r by (cases r) (auto split: prod.split)
qed simp

section \<open>Pieces and the whole\<close>

definition text_of_chunks :: "u8 list \<Rightarrow> u8 list list \<Rightarrow> u8 list" where
  "text_of_chunks first chunks = first @ concat (takeWhile (\<lambda>c. c \<noteq> []) chunks)"

lemma chunks_good: "good (lexer_from_reader first (map R_Data chunks) name)"
proof -
  have "\<not> (\<exists>e as. dropWhile is_data (map R_Data chunks) = R_Err e # as)"
    by (induction chunks) (auto simp: is_data_def)
  then show ?thesis
    by (auto simp: good_def no_reader_error_def lexer_from_reader_def split: list.split reader_answer.split)
qed

lemma chunks_flat:
  assumes "take 1 (text_of_chunks first chunks) \<noteq> [35]"
  shows "flat (lexer_from_reader first (map R_Data chunks) name) = lexer_new (text_of_chunks first chunks) name"
proof -
  have "pending (lexer_from_reader first (map R_Data chunks) name) = concat (takeWhile (\<lambda>c. c \<noteq> []) chunks)"
    by (simp add: pending_data lexer_from_reader_def takeWhile_map is_data_def comp_def)
  moreover have "\<not> (text_of_chunks first chunks \<noteq> [] \<and> hd (text_of_chunks first chunks) = 35)"
    using assms by (cases "text_of_chunks first chunks") auto
  ultimately show ?thesis
    by (auto simp: flat_def lexer_new_def Let_def lexer_from_reader_def text_of_chunks_def)
qed

text \<open>C29. A text that a reader gives in pieces, cut anywhere, in the middle of a name, a number, an escape, a long
  bracket or a line end, has the tokens, or the error, of the whole text given at once, unless the text starts with
  a hash sign, whose line only the lexer of a whole text skips.\<close>

theorem chunks_lex_as_whole:
  assumes "take 1 (text_of_chunks first chunks) \<noteq> [35]"
  shows "tokens n E (lexer_from_reader first (map R_Data chunks) name) = tokens n E (lexer_new (text_of_chunks first chunks) name)"
  using tokens_flat [OF chunks_good, of n E first chunks name] chunks_flat [OF assms] by simp

theorem chunks_lex_as_whole_witness:
  "tokens 4 \<lparr>le_strtod = \<lambda>_. None, le_decpoint = 46\<rparr> (lexer_from_reader (ascii ''ret'') [R_Data (ascii ''urn [''), R_Data (ascii ''[x]]'')] [])
    = tokens 4 \<lparr>le_strtod = \<lambda>_. None, le_decpoint = 46\<rparr> (lexer_new (ascii ''return [[x]]'') [])"
proof -
  have t: "text_of_chunks (ascii ''ret'') [ascii ''urn ['', ascii ''[x]]''] = ascii ''return [[x]]''"
    by (simp add: text_of_chunks_def ascii_def)
  have "take 1 (text_of_chunks (ascii ''ret'') [ascii ''urn ['', ascii ''[x]]'']) \<noteq> [35]"
    unfolding t by (simp add: ascii_def)
  from chunks_lex_as_whole [OF this, of 4 "\<lparr>le_strtod = \<lambda>_. None, le_decpoint = 46\<rparr>" "[]"] show ?thesis unfolding t by simp
qed

end
