(* ===== verification/Parser.thy ===== *)
theory Parser
  imports Lexer
begin

text \<open>
  The parser, \<^verbatim>\<open>src/compiler/parser.rs\<close>: recursive descent over the tokens of the lexer, operators
  by priority. Every function takes the parsers of blocks and of expressions it calls as arguments; the last section
  closes the recursion, whose depth the syntax level bounds. Loops run for as many rounds as tokens may be left.
\<close>

section \<open>State\<close>

record FuncScope =
  fs_line_defined :: u32
  fs_local_count :: u32
  fs_local_names :: "rstring list"
  fs_upvalue_names :: "rstring list"

record parser =
  ps_lexer :: lexer
  ps_current :: Token
  ps_current_kind :: TokenKind
  ps_span :: Span
  ps_lastline :: u32
  ps_loop_depth :: u32
  ps_syntax_depth :: u32
  ps_func_scopes :: "FuncScope list"

type_synonym 'a pop = "(parser, 'a) op"

definition MAX_SYNTAX_LEVELS :: u32 where "MAX_SYNTAX_LEVELS = 200"

definition func_scope :: "u32 \<Rightarrow> FuncScope" where
  "func_scope line = \<lparr>fs_line_defined = line, fs_local_count = 0, fs_local_names = [], fs_upvalue_names = []\<rparr>"

definition parser_from_lexer :: "lex_env \<Rightarrow> lexer \<Rightarrow> (failure, parser) res" where
  "parser_from_lexer E l = (case next_token E l of (l1, Inl e) \<Rightarrow> Inl e
     | (l1, Inr (tok, span)) \<Rightarrow> Inr \<lparr>ps_lexer = l1, ps_current = tok, ps_current_kind = token_kind tok, ps_span = span,
         ps_lastline = 1, ps_loop_depth = 0, ps_syntax_depth = 0, ps_func_scopes = [func_scope 0]\<rparr>)"

section \<open>Errors\<close>

definition p_syntax_error :: "u8 list \<Rightarrow> 'a pop" where
  "p_syntax_error msg p = (p, Inl (FSyntax (SyntaxError msg (lx_source_name (ps_lexer p)) (sp_line (ps_span p)) None)))"

definition near_text :: "parser \<Rightarrow> u8 list" where
  "near_text p = (case ps_current p of T_Number _ \<Rightarrow> lx_text (ps_lexer p) | T_Str _ \<Rightarrow> lx_text (ps_lexer p)
     | T_Name s \<Rightarrow> s | t \<Rightarrow> token2str t)"

text \<open>A byte that is no ASCII character also goes into a message of raw bytes.\<close>

definition raw_near :: "u8 list \<Rightarrow> u8 \<Rightarrow> rstring \<Rightarrow> u32 \<Rightarrow> u8 list option" where
  "raw_near msg b source line = map_option (\<lambda>id. id @ [58] @ nat_digits (unat line) @ [58, 32] @ msg @ ascii '' near '' @ [39, b, 39])
     (chunkid source)"

definition p_syntax_error_near :: "u8 list \<Rightarrow> 'a pop" where
  "p_syntax_error_near msg p =
    (let source = lx_source_name (ps_lexer p); line = sp_line (ps_span p); text = near msg (near_text p) in
     case ps_current p of
       T_Char b \<Rightarrow> if b < 128 then (p, Inl (FSyntax (SyntaxError text source line None)))
         else (case raw_near msg b source line of
             None \<Rightarrow> (p, Inl FPanic)
           | Some bytes \<Rightarrow> (p, Inl (FSyntax (SyntaxError text source line (Some bytes)))))
     | _ \<Rightarrow> (p, Inl (FSyntax (SyntaxError text source line None))))"

definition error_expected :: "u8 list \<Rightarrow> 'a pop" where
  "error_expected what = p_syntax_error_near (quoted what @ ascii '' expected'')"

section \<open>Levels and scopes\<close>

definition enter_level :: "unit pop" where
  "enter_level p = (let p1 = p\<lparr>ps_syntax_depth := ps_syntax_depth p + 1\<rparr> in
     if MAX_SYNTAX_LEVELS < ps_syntax_depth p1 then p_syntax_error (ascii ''chunk has too many syntax levels'') p1 else (p1, Inr ()))"

definition leave_level :: "unit pop" where
  "leave_level = omod (\<lambda>p. p\<lparr>ps_syntax_depth := ps_syntax_depth p - 1\<rparr>)"

definition set_scope :: "nat \<Rightarrow> (FuncScope \<Rightarrow> FuncScope) \<Rightarrow> parser \<Rightarrow> parser" where
  "set_scope i f p = p\<lparr>ps_func_scopes := (ps_func_scopes p)[i := f (ps_func_scopes p ! i)]\<rparr>"

definition too_many :: "u32 \<Rightarrow> u32 \<Rightarrow> string \<Rightarrow> u8 list" where
  "too_many line n what = ascii ''function at line '' @ nat_digits (unat line) @ ascii '' has more than '' @ nat_digits (unat n) @ ascii what"

definition register_locals :: "u32 \<Rightarrow> unit pop" where
  "register_locals count p = (if ps_func_scopes p = [] then (p, Inr ()) else
     let i = length (ps_func_scopes p) - 1; scope = ps_func_scopes p ! i in
     if LUAI_MAXVARS < fs_local_count scope + count then
       p_syntax_error (too_many (fs_line_defined scope) LUAI_MAXVARS '' local variables'') p
     else (set_scope i (\<lambda>s. s\<lparr>fs_local_count := fs_local_count s + count\<rparr>) p, Inr ()))"

definition register_locals_named :: "rstring list \<Rightarrow> unit pop" where
  "register_locals_named names = othen (register_locals (of_nat (length names)))
     (omod (\<lambda>p. if ps_func_scopes p = [] then p else
        set_scope (length (ps_func_scopes p) - 1) (\<lambda>s. s\<lparr>fs_local_names := fs_local_names s @ names\<rparr>) p))"

text \<open>A name that is a local or an upvalue of an enclosing function becomes an upvalue of all functions in between.\<close>

definition knows_name :: "rstring \<Rightarrow> FuncScope \<Rightarrow> bool" where
  "knows_name name s \<longleftrightarrow> name \<in> set (fs_local_names s) \<or> name \<in> set (fs_upvalue_names s)"

primrec add_upvalues :: "nat list \<Rightarrow> rstring \<Rightarrow> unit pop" where
  "add_upvalues [] name = oret ()"
| "add_upvalues (i # is') name = (\<lambda>p. let scope = ps_func_scopes p ! i in
     if name \<in> set (fs_upvalue_names scope) then add_upvalues is' name p
     else if unat LUAI_MAXUPVALUES \<le> length (fs_upvalue_names scope) then
       p_syntax_error (too_many (fs_line_defined scope) LUAI_MAXUPVALUES '' upvalues'') p
     else add_upvalues is' name (set_scope i (\<lambda>s. s\<lparr>fs_upvalue_names := fs_upvalue_names s @ [name]\<rparr>) p))"

definition check_name_upvalue :: "rstring \<Rightarrow> unit pop" where
  "check_name_upvalue name p = (let scopes = ps_func_scopes p; n = length scopes in
     if n < 2 \<or> knows_name name (scopes ! (n - 1)) then (p, Inr ())
     else case List.find (\<lambda>i. knows_name name (scopes ! i)) (rev [0..<n - 1]) of
       None \<Rightarrow> (p, Inr ())
     | Some found \<Rightarrow> add_upvalues [found + 1..<n] name p)"

section \<open>Token helpers\<close>

text \<open>The tokens left are at most as many as bytes, and the current one and the one looked at.\<close>

definition prounds :: "parser \<Rightarrow> nat" where
  "prounds p = rounds (ps_lexer p) + 2"

definition p_advance :: "lex_env \<Rightarrow> (Token \<times> Span) pop" where
  "p_advance E p =
    (let p1 = p\<lparr>ps_current := T_Eos, ps_lastline := sp_line (ps_span p)\<rparr> in
     case next_token E (ps_lexer p) of
       (l, Inl e) \<Rightarrow> (p1\<lparr>ps_lexer := l\<rparr>, Inl e)
     | (l, Inr (tok, span)) \<Rightarrow>
         (p1\<lparr>ps_lexer := l, ps_current_kind := token_kind tok, ps_current := tok, ps_span := span\<rparr>, Inr (ps_current p, ps_span p)))"

definition check :: "Token \<Rightarrow> bool pop" where
  "check expected = oget (\<lambda>p. ps_current_kind p = token_kind expected)"

definition check_char :: "u8 \<Rightarrow> bool pop" where
  "check_char ch = oget (\<lambda>p. ps_current_kind p = K_Char ch)"

definition p_block_follow :: "parser \<Rightarrow> bool" where
  "p_block_follow p \<longleftrightarrow> ps_current_kind p \<in> {K_Tok T_Else, K_Tok T_ElseIf, K_Tok T_End, K_Tok T_Until, K_Tok T_Eos}"

definition skip_token :: "lex_env \<Rightarrow> unit pop" where
  "skip_token E = obind (p_advance E) (\<lambda>_. oret ())"

definition test_next :: "lex_env \<Rightarrow> Token \<Rightarrow> bool pop" where
  "test_next E expected = obind (check expected) (\<lambda>b. if b then othen (skip_token E) (oret True) else oret False)"

definition test_next_char :: "lex_env \<Rightarrow> u8 \<Rightarrow> bool pop" where
  "test_next_char E ch = obind (check_char ch) (\<lambda>b. if b then othen (skip_token E) (oret True) else oret False)"

definition expect :: "lex_env \<Rightarrow> Token \<Rightarrow> Span pop" where
  "expect E expected = obind (check expected) (\<lambda>b. if b then obind (oget ps_span) (\<lambda>s. othen (skip_token E) (oret s))
     else error_expected (token2str expected))"

definition expect_char :: "lex_env \<Rightarrow> u8 \<Rightarrow> Span pop" where
  "expect_char E ch = obind (check_char ch) (\<lambda>b. if b then obind (oget ps_span) (\<lambda>s. othen (skip_token E) (oret s))
     else error_expected (token2str (T_Char ch)))"

definition expect_name :: "lex_env \<Rightarrow> (rstring \<times> Span) pop" where
  "expect_name E = obind (oget ps_span) (\<lambda>span. obind (oget ps_current_kind) (\<lambda>kind.
     if kind \<noteq> K_Name then error_expected (ascii ''<name>'')
     else obind (p_advance E) (\<lambda>t. case fst t of T_Name name \<Rightarrow> oret (name, span) | _ \<Rightarrow> error_expected (ascii ''<name>''))))"

definition check_match :: "lex_env \<Rightarrow> Token \<Rightarrow> Token \<Rightarrow> u32 \<Rightarrow> unit pop" where
  "check_match E close opening open_line = obind (check close) (\<lambda>b.
     if b then skip_token E
     else obind (oget (\<lambda>p. lx_line (ps_lexer p))) (\<lambda>line.
       if open_line = line then error_expected (token2str close)
       else p_syntax_error_near (quoted (token2str close) @ ascii '' expected (to close '' @ quoted (token2str opening)
         @ ascii '' at line '' @ nat_digits (unat open_line) @ ascii '')'')))"

section \<open>Lists\<close>

text \<open>Names after a separator, and expressions after a comma.\<close>

primrec names_n :: "nat \<Rightarrow> lex_env \<Rightarrow> u8 \<Rightarrow> rstring list \<Rightarrow> rstring list pop" where
  "names_n 0 E sep names = ofail FFuel"
| "names_n (Suc n) E sep names = obind (test_next_char E sep) (\<lambda>b.
     if b then obind (expect_name E) (\<lambda>x. names_n n E sep (names @ [fst x])) else oret names)"

primrec exprs_n :: "nat \<Rightarrow> lex_env \<Rightarrow> Expr pop \<Rightarrow> Expr list \<Rightarrow> Expr list pop" where
  "exprs_n 0 E expr es = ofail FFuel"
| "exprs_n (Suc n) E expr es = obind (test_next_char E 44) (\<lambda>b.
     if b then obind expr (\<lambda>e. exprs_n n E expr (es @ [e])) else oret es)"

definition more_names :: "lex_env \<Rightarrow> u8 \<Rightarrow> rstring list \<Rightarrow> rstring list pop" where
  "more_names E sep names p = names_n (prounds p) E sep names p"

definition more_exprs :: "lex_env \<Rightarrow> Expr pop \<Rightarrow> Expr list \<Rightarrow> Expr list pop" where
  "more_exprs E expr es p = exprs_n (prounds p) E expr es p"

definition parse_expr_list :: "lex_env \<Rightarrow> Expr pop \<Rightarrow> Expr list pop" where
  "parse_expr_list E expr = obind expr (\<lambda>e. more_exprs E expr [e])"


section \<open>Expressions\<close>

definition UNARY_PRIORITY :: nat where "UNARY_PRIORITY = 8"

definition binary_priority :: "BinOp \<Rightarrow> nat \<times> nat" where
  "binary_priority binop = (case binop of B_Or \<Rightarrow> (1, 1) | B_And \<Rightarrow> (2, 2)
     | B_Lt \<Rightarrow> (3, 3) | B_Gt \<Rightarrow> (3, 3) | B_Le \<Rightarrow> (3, 3) | B_Ge \<Rightarrow> (3, 3) | B_Ne \<Rightarrow> (3, 3) | B_Eq \<Rightarrow> (3, 3)
     | B_Concat \<Rightarrow> (5, 4) | B_Add \<Rightarrow> (6, 6) | B_Sub \<Rightarrow> (6, 6) | B_Mul \<Rightarrow> (7, 7) | B_Div \<Rightarrow> (7, 7) | B_Mod \<Rightarrow> (7, 7)
     | B_Pow \<Rightarrow> (10, 9))"

definition get_unary_op :: "Token \<Rightarrow> UnOp option" where
  "get_unary_op t = (case t of T_Not \<Rightarrow> Some U_Not
     | T_Char c \<Rightarrow> if c = 45 then Some U_Neg else if c = 35 then Some U_Len else None | _ \<Rightarrow> None)"

definition get_binary_op :: "Token \<Rightarrow> BinOp option" where
  "get_binary_op t = (case t of
       T_Char c \<Rightarrow> if c = 43 then Some B_Add else if c = 45 then Some B_Sub else if c = 42 then Some B_Mul
         else if c = 47 then Some B_Div else if c = 37 then Some B_Mod else if c = 94 then Some B_Pow
         else if c = 60 then Some B_Lt else if c = 62 then Some B_Gt else None
     | T_Concat \<Rightarrow> Some B_Concat | T_Ne \<Rightarrow> Some B_Ne | T_Eq \<Rightarrow> Some B_Eq | T_Le \<Rightarrow> Some B_Le | T_Ge \<Rightarrow> Some B_Ge
     | T_And \<Rightarrow> Some B_And | T_Or \<Rightarrow> Some B_Or | _ \<Rightarrow> None)"

text \<open>The parameters of a function, and whether three dots end them.\<close>

primrec params_n :: "nat \<Rightarrow> lex_env \<Rightarrow> rstring list \<Rightarrow> (rstring list \<times> bool) pop" where
  "params_n 0 E params = ofail FFuel"
| "params_n (Suc n) E params = obind (oget ps_current) (\<lambda>t. case t of
     T_Name _ \<Rightarrow> obind (expect_name E) (\<lambda>x. obind (test_next_char E 44) (\<lambda>b.
       if b then params_n n E (params @ [fst x]) else oret (params @ [fst x], False)))
   | T_Dots \<Rightarrow> othen (skip_token E) (oret (params, True))
   | _ \<Rightarrow> p_syntax_error_near (ascii ''<name> or '' @ quoted (ascii ''...'') @ ascii '' expected''))"

definition parse_params :: "lex_env \<Rightarrow> (rstring list \<times> bool) pop" where
  "parse_params E p = obind (check_char 41) (\<lambda>b. if b then oret ([], False) else (\<lambda>p. params_n (prounds p) E [] p)) p"

definition parse_func_body :: "lex_env \<Rightarrow> Stat list pop \<Rightarrow> Span \<Rightarrow> FuncBody pop" where
  "parse_func_body E blk def_span = obind (oget (\<lambda>p. sp_line (ps_span p))) (\<lambda>open_line.
     othen (expect_char E 40) (obind (parse_params E) (\<lambda>(params, has_varargs). othen (expect_char E 41)
    (othen (omod (\<lambda>p. p\<lparr>ps_func_scopes := ps_func_scopes p @ [func_scope (sp_line def_span)]\<rparr>))
    (othen (register_locals_named params)
    (obind (oget ps_loop_depth) (\<lambda>saved_loop_depth.
     othen (omod (\<lambda>p. p\<lparr>ps_loop_depth := 0\<rparr>)) (obind blk (\<lambda>body.
     othen (omod (\<lambda>p. p\<lparr>ps_loop_depth := saved_loop_depth, ps_func_scopes := butlast (ps_func_scopes p)\<rparr>))
    (obind (oget (\<lambda>p. sp_line (ps_span p))) (\<lambda>end_line.
     othen (check_match E T_End T_Function open_line) (oret (FuncBody params has_varargs body def_span end_line)))))))))))))"

definition parse_field :: "lex_env \<Rightarrow> Expr pop \<Rightarrow> TableField pop" where
  "parse_field E expr = obind (oget ps_span) (\<lambda>span. obind (oget ps_current) (\<lambda>t.
     case t of
       T_Char c \<Rightarrow> if c = 91 then othen (skip_token E) (obind expr (\<lambda>key. othen (expect_char E 93) (othen (expect_char E 61)
           (obind expr (\<lambda>value. oret (F_Index key value span))))))
         else obind expr (\<lambda>value. oret (F_Value value span))
     | T_Name _ \<Rightarrow> obind (\<lambda>p. case lookahead E (ps_lexer p) of (l, r) \<Rightarrow> (p\<lparr>ps_lexer := l\<rparr>, r)) (\<lambda>t.
         if t = T_Char 61 then obind (expect_name E) (\<lambda>x. othen (expect_char E 61)
           (obind expr (\<lambda>value. oret (F_Name (fst x) value span))))
         else obind expr (\<lambda>value. oret (F_Value value span)))
     | _ \<Rightarrow> obind expr (\<lambda>value. oret (F_Value value span))))"

primrec fields_n :: "nat \<Rightarrow> lex_env \<Rightarrow> Expr pop \<Rightarrow> TableField list \<Rightarrow> TableField list pop" where
  "fields_n 0 E expr fs = ofail FFuel"
| "fields_n (Suc n) E expr fs = obind (check_char 125) (\<lambda>b. if b then oret fs
     else obind (parse_field E expr) (\<lambda>field. obind (test_next_char E 44) (\<lambda>comma.
       obind (if comma then oret True else test_next_char E 59) (\<lambda>sep.
         if sep then fields_n n E expr (fs @ [field]) else oret (fs @ [field])))))"

definition parse_table_ctor :: "lex_env \<Rightarrow> Expr pop \<Rightarrow> Expr pop" where
  "parse_table_ctor E expr = obind (oget ps_span) (\<lambda>span. othen (expect_char E 123)
     (obind (\<lambda>p. fields_n (prounds p) E expr [] p) (\<lambda>fs.
      othen (check_match E (T_Char 125) (T_Char 123) (sp_line span)) (oret (E_TableCtor fs span)))))"

definition parse_func_args :: "lex_env \<Rightarrow> Expr pop \<Rightarrow> Expr list pop" where
  "parse_func_args E expr = obind (oget ps_current) (\<lambda>t. case t of
       T_Char c \<Rightarrow>
         if c = 40 then obind (oget (\<lambda>p. sp_line (ps_span p))) (\<lambda>open_line. obind (oget ps_lastline) (\<lambda>lastline.
           if open_line \<noteq> lastline then p_syntax_error_near (ascii ''ambiguous syntax (function call x new statement)'')
           else othen (skip_token E) (obind (check_char 41) (\<lambda>b. obind (if b then oret [] else parse_expr_list E expr) (\<lambda>args.
             othen (check_match E (T_Char 41) (T_Char 40) open_line) (oret args))))))
         else if c = 123 then obind (parse_table_ctor E expr) (\<lambda>t. oret [t])
         else p_syntax_error_near (ascii ''function arguments expected'')
     | T_Str s \<Rightarrow> obind (oget ps_span) (\<lambda>span. othen (skip_token E) (oret [E_Str s span]))
     | _ \<Rightarrow> p_syntax_error_near (ascii ''function arguments expected''))"

definition parse_primary_expr :: "lex_env \<Rightarrow> Expr pop \<Rightarrow> Expr pop" where
  "parse_primary_expr E expr = obind (oget ps_span) (\<lambda>span. obind (oget ps_current) (\<lambda>t. case t of
       T_Name name \<Rightarrow> othen (skip_token E) (othen (check_name_upvalue name) (oret (E_Name name span)))
     | T_Char c \<Rightarrow> if c = 40 then othen (skip_token E) (obind expr (\<lambda>e. othen (expect_char E 41) (oret (E_Paren e span))))
         else p_syntax_error_near (ascii ''unexpected symbol'')
     | _ \<Rightarrow> p_syntax_error_near (ascii ''unexpected symbol'')))"

primrec suffixes_n :: "nat \<Rightarrow> lex_env \<Rightarrow> Expr pop \<Rightarrow> Expr \<Rightarrow> Expr pop" where
  "suffixes_n 0 E expr e = ofail FFuel"
| "suffixes_n (Suc n) E expr e = obind (oget ps_current) (\<lambda>t.
     let call = obind (parse_func_args E expr) (\<lambda>args. suffixes_n n E expr (E_Call e args (expr_span e))) in
     case t of
       T_Char c \<Rightarrow>
         if c = 46 then othen (skip_token E) (obind (expect_name E) (\<lambda>x. suffixes_n n E expr (E_Field e (fst x) (expr_span e))))
         else if c = 91 then othen (skip_token E) (obind expr (\<lambda>key. othen (expect_char E 93)
           (suffixes_n n E expr (E_Index e key (expr_span e)))))
         else if c = 58 then othen (skip_token E) (obind (expect_name E) (\<lambda>x. obind (parse_func_args E expr) (\<lambda>args.
           suffixes_n n E expr (E_MethodCall e (fst x) args (expr_span e)))))
         else if c = 40 \<or> c = 123 then call
         else oret e
     | T_Str _ \<Rightarrow> call
     | _ \<Rightarrow> oret e)"

definition parse_suffixed_expr :: "lex_env \<Rightarrow> Expr pop \<Rightarrow> Expr pop" where
  "parse_suffixed_expr E expr = obind (parse_primary_expr E expr) (\<lambda>e p. suffixes_n (prounds p) E expr e p)"

definition parse_simple_expr :: "lex_env \<Rightarrow> Stat list pop \<Rightarrow> Expr pop \<Rightarrow> Expr pop" where
  "parse_simple_expr E blk expr = obind (oget ps_span) (\<lambda>span. obind (oget ps_current) (\<lambda>t. case t of
       T_Number v \<Rightarrow> othen (skip_token E) (oret (E_Number v span))
     | T_Str s \<Rightarrow> othen (skip_token E) (oret (E_Str s span))
     | T_Nil \<Rightarrow> othen (skip_token E) (oret (E_Nil span))
     | T_True \<Rightarrow> othen (skip_token E) (oret (E_True span))
     | T_False \<Rightarrow> othen (skip_token E) (oret (E_False span))
     | T_Dots \<Rightarrow> othen (skip_token E) (oret (E_VarArg span))
     | T_Function \<Rightarrow> othen (skip_token E) (obind (parse_func_body E blk span) (\<lambda>body. oret (E_FuncDef body span)))
     | T_Char c \<Rightarrow> if c = 123 then parse_table_ctor E expr else parse_suffixed_expr E expr
     | _ \<Rightarrow> parse_suffixed_expr E expr))"

primrec binops_n :: "nat \<Rightarrow> lex_env \<Rightarrow> (nat \<Rightarrow> Expr pop) \<Rightarrow> nat \<Rightarrow> Span \<Rightarrow> Expr \<Rightarrow> Expr pop" where
  "binops_n 0 E sub limit span e = ofail FFuel"
| "binops_n (Suc n) E sub limit span e = obind (oget ps_current) (\<lambda>t. case get_binary_op t of
       None \<Rightarrow> oret e
     | Some binop \<Rightarrow> (case binary_priority binop of (left_prio, right_prio) \<Rightarrow>
         if left_prio \<le> limit then oret e
         else othen (skip_token E) (obind (sub right_prio) (\<lambda>right. binops_n n E sub limit span (E_BinOp binop e right span)))))"

definition parse_sub_expr :: "lex_env \<Rightarrow> Stat list pop \<Rightarrow> (nat \<Rightarrow> Expr pop) \<Rightarrow> nat \<Rightarrow> Expr pop" where
  "parse_sub_expr E blk sub limit = othen enter_level (obind (oget ps_span) (\<lambda>span. obind (oget ps_current) (\<lambda>t.
     obind (case get_unary_op t of
         Some unop \<Rightarrow> othen (skip_token E) (obind (sub UNARY_PRIORITY) (\<lambda>operand. oret (E_UnOp unop operand span)))
       | None \<Rightarrow> parse_simple_expr E blk (sub 0)) (\<lambda>e.
     obind (\<lambda>p. binops_n (prounds p) E sub limit span e p) (\<lambda>e. othen leave_level (oret e))))))"


section \<open>Statements\<close>

definition loop_body :: "Stat list pop \<Rightarrow> Stat list pop" where
  "loop_body blk = othen (omod (\<lambda>p. p\<lparr>ps_loop_depth := ps_loop_depth p + 1\<rparr>)) (obind blk (\<lambda>body.
     othen (omod (\<lambda>p. p\<lparr>ps_loop_depth := ps_loop_depth p - 1\<rparr>)) (oret body)))"

definition this_line :: "u32 pop" where "this_line = oget (\<lambda>p. sp_line (ps_span p))"

primrec elseifs_n :: "nat \<Rightarrow> lex_env \<Rightarrow> Stat list pop \<Rightarrow> Expr pop \<Rightarrow> Expr list \<Rightarrow> Stat list list \<Rightarrow> (Expr list \<times> Stat list list) pop" where
  "elseifs_n 0 E blk expr conditions bodies = ofail FFuel"
| "elseifs_n (Suc n) E blk expr conditions bodies = obind (check T_ElseIf) (\<lambda>b.
     if b then othen (skip_token E) (obind expr (\<lambda>c. othen (expect E T_Then) (obind blk (\<lambda>body.
       elseifs_n n E blk expr (conditions @ [c]) (bodies @ [body])))))
     else oret (conditions, bodies))"

definition parse_if :: "lex_env \<Rightarrow> Stat list pop \<Rightarrow> Expr pop \<Rightarrow> Span \<Rightarrow> Stat pop" where
  "parse_if E blk expr span = othen (skip_token E) (obind expr (\<lambda>c. othen (expect E T_Then) (obind blk (\<lambda>body.
     obind (\<lambda>p. elseifs_n (prounds p) E blk expr [c] [body] p) (\<lambda>(conditions, bodies).
     obind (test_next E T_Else) (\<lambda>b. obind (if b then obind blk (\<lambda>e. oret (Some e)) else oret None) (\<lambda>else_body.
     obind this_line (\<lambda>end_line. othen (check_match E T_End T_If (sp_line span))
       (oret (S_If conditions bodies else_body span end_line))))))))))"

definition parse_while :: "lex_env \<Rightarrow> Stat list pop \<Rightarrow> Expr pop \<Rightarrow> Span \<Rightarrow> Stat pop" where
  "parse_while E blk expr span = othen (skip_token E) (obind expr (\<lambda>condition. othen (expect E T_Do)
     (obind (loop_body blk) (\<lambda>body. obind this_line (\<lambda>end_line. othen (check_match E T_End T_While (sp_line span))
       (oret (S_While condition body span end_line)))))))"

definition parse_do :: "lex_env \<Rightarrow> Stat list pop \<Rightarrow> Span \<Rightarrow> Stat pop" where
  "parse_do E blk span = othen (skip_token E) (obind blk (\<lambda>body. obind this_line (\<lambda>end_line.
     othen (check_match E T_End T_Do (sp_line span)) (oret (S_Do body span end_line)))))"

definition parse_numeric_for :: "lex_env \<Rightarrow> Stat list pop \<Rightarrow> Expr pop \<Rightarrow> rstring \<Rightarrow> u32 \<Rightarrow> Span \<Rightarrow> Stat pop" where
  "parse_numeric_for E blk expr name open_line span = othen (register_locals 3) (othen (register_locals_named [name])
     (othen (expect_char E 61) (obind expr (\<lambda>start. othen (expect_char E 44) (obind expr (\<lambda>stop.
      obind (test_next_char E 44) (\<lambda>b. obind (if b then obind expr (\<lambda>e. oret (Some e)) else oret None) (\<lambda>step.
      othen (expect E T_Do) (obind (loop_body blk) (\<lambda>body. obind this_line (\<lambda>end_line.
      othen (check_match E T_End T_For open_line) (oret (S_NumericFor name start stop step body span end_line)))))))))))))"

definition parse_generic_for :: "lex_env \<Rightarrow> Stat list pop \<Rightarrow> Expr pop \<Rightarrow> rstring \<Rightarrow> u32 \<Rightarrow> Span \<Rightarrow> Stat pop" where
  "parse_generic_for E blk expr first_name open_line span = obind (more_names E 44 [first_name]) (\<lambda>names.
     othen (register_locals 3) (othen (register_locals_named names) (othen (expect E T_In) (obind this_line (\<lambda>iter_line.
     obind (parse_expr_list E expr) (\<lambda>iterators. othen (expect E T_Do) (obind (loop_body blk) (\<lambda>body.
     obind this_line (\<lambda>end_line. othen (check_match E T_End T_For open_line)
       (oret (S_GenericFor names iterators body iter_line span end_line)))))))))))"

definition parse_for :: "lex_env \<Rightarrow> Stat list pop \<Rightarrow> Expr pop \<Rightarrow> Span \<Rightarrow> Stat pop" where
  "parse_for E blk expr span = othen (skip_token E) (obind (expect_name E) (\<lambda>x. obind (oget ps_current) (\<lambda>t.
     if t = T_Char 61 then parse_numeric_for E blk expr (fst x) (sp_line span) span
     else if t = T_Char 44 \<or> t = T_In then parse_generic_for E blk expr (fst x) (sp_line span) span
     else p_syntax_error_near (quoted (ascii ''='') @ ascii '' or '' @ quoted (ascii ''in'') @ ascii '' expected''))))"

definition parse_repeat :: "lex_env \<Rightarrow> Stat list pop \<Rightarrow> Expr pop \<Rightarrow> Span \<Rightarrow> Stat pop" where
  "parse_repeat E blk expr span = othen (skip_token E) (othen (omod (\<lambda>p. p\<lparr>ps_loop_depth := ps_loop_depth p + 1\<rparr>))
     (obind blk (\<lambda>body. othen (check_match E T_Until T_Repeat (sp_line span)) (obind expr (\<lambda>condition.
      othen (omod (\<lambda>p. p\<lparr>ps_loop_depth := ps_loop_depth p - 1\<rparr>)) (oret (S_Repeat body condition span)))))))"

definition parse_func_name :: "lex_env \<Rightarrow> FuncName pop" where
  "parse_func_name E = obind (oget ps_span) (\<lambda>span. obind (expect_name E) (\<lambda>x. obind (more_names E 46 [fst x]) (\<lambda>parts.
     obind (test_next_char E 58) (\<lambda>b. obind (if b then obind (expect_name E) (\<lambda>m. oret (Some (fst m))) else oret None) (\<lambda>method.
     oret \<lparr>fname_parts = parts, fname_method = method, fname_span = span\<rparr>)))))"

definition parse_func_decl :: "lex_env \<Rightarrow> Stat list pop \<Rightarrow> Span \<Rightarrow> Stat pop" where
  "parse_func_decl E blk span = othen (skip_token E) (obind (parse_func_name E) (\<lambda>name.
     obind (parse_func_body E blk span) (\<lambda>body. oret (S_FuncDecl name body span))))"

definition parse_local :: "lex_env \<Rightarrow> Stat list pop \<Rightarrow> Expr pop \<Rightarrow> Span \<Rightarrow> Stat pop" where
  "parse_local E blk expr span = othen (skip_token E) (obind (test_next E T_Function) (\<lambda>b. obind (expect_name E) (\<lambda>x.
     if b then othen (register_locals_named [fst x]) (obind (parse_func_body E blk span) (\<lambda>body. oret (S_LocalFunc (fst x) body span)))
     else obind (more_names E 44 [fst x]) (\<lambda>names. othen (register_locals_named names) (obind (test_next_char E 61) (\<lambda>eq.
       obind (if eq then parse_expr_list E expr else oret []) (\<lambda>vals. oret (S_LocalDecl names vals span))))))))"

definition parse_return :: "lex_env \<Rightarrow> Expr pop \<Rightarrow> Span \<Rightarrow> Stat pop" where
  "parse_return E expr span = othen (skip_token E) (obind (oget p_block_follow) (\<lambda>follow. obind (check_char 59) (\<lambda>semi.
     obind (if follow \<or> semi then oret [] else parse_expr_list E expr) (\<lambda>vals. oret (S_Return vals span)))))"

definition parse_break :: "lex_env \<Rightarrow> Span \<Rightarrow> Stat pop" where
  "parse_break E span = othen (skip_token E) (obind (oget ps_loop_depth) (\<lambda>d.
     if d = 0 then p_syntax_error_near (ascii ''no loop to break'') else oret (S_Break span)))"

primrec targets_n :: "nat \<Rightarrow> lex_env \<Rightarrow> Expr pop \<Rightarrow> Expr list \<Rightarrow> Expr list pop" where
  "targets_n 0 E expr es = ofail FFuel"
| "targets_n (Suc n) E expr es = obind (test_next_char E 44) (\<lambda>b.
     if b then obind (parse_suffixed_expr E expr) (\<lambda>e. targets_n n E expr (es @ [e])) else oret es)"

definition is_call :: "Expr \<Rightarrow> bool" where
  "is_call e = (case e of E_Call _ _ _ \<Rightarrow> True | E_MethodCall _ _ _ _ \<Rightarrow> True | _ \<Rightarrow> False)"

definition parse_expr_stat :: "lex_env \<Rightarrow> Expr pop \<Rightarrow> Span \<Rightarrow> Stat pop" where
  "parse_expr_stat E expr span = obind (parse_suffixed_expr E expr) (\<lambda>e. obind (check_char 61) (\<lambda>eq. obind (check_char 44) (\<lambda>comma.
     if eq \<or> comma then obind (\<lambda>p. targets_n (prounds p) E expr [e] p) (\<lambda>targets. othen (expect_char E 61)
       (obind (parse_expr_list E expr) (\<lambda>vals. oret (S_Assign targets vals span))))
     else if is_call e then oret (S_ExprStat e span) else error_expected (ascii ''=''))))"

definition parse_stat :: "lex_env \<Rightarrow> Stat list pop \<Rightarrow> Expr pop \<Rightarrow> Stat pop" where
  "parse_stat E blk expr = obind (oget ps_span) (\<lambda>span. obind (oget ps_current) (\<lambda>t. case t of
       T_If \<Rightarrow> parse_if E blk expr span
     | T_While \<Rightarrow> parse_while E blk expr span
     | T_Do \<Rightarrow> parse_do E blk span
     | T_For \<Rightarrow> parse_for E blk expr span
     | T_Repeat \<Rightarrow> parse_repeat E blk expr span
     | T_Function \<Rightarrow> parse_func_decl E blk span
     | T_Local \<Rightarrow> parse_local E blk expr span
     | T_Return \<Rightarrow> parse_return E expr span
     | T_Break \<Rightarrow> parse_break E span
     | _ \<Rightarrow> parse_expr_stat E expr span))"

section \<open>Blocks and chunks\<close>

definition is_last :: "Stat \<Rightarrow> bool" where
  "is_last s = (case s of S_Return _ _ \<Rightarrow> True | S_Break _ \<Rightarrow> True | _ \<Rightarrow> False)"

primrec stats_n :: "nat \<Rightarrow> lex_env \<Rightarrow> Stat list pop \<Rightarrow> Expr pop \<Rightarrow> Stat list \<Rightarrow> Stat list pop" where
  "stats_n 0 E blk expr stmts = ofail FFuel"
| "stats_n (Suc n) E blk expr stmts = obind (oget p_block_follow) (\<lambda>follow. if follow then oret stmts
     else obind (parse_stat E blk expr) (\<lambda>stmt. obind (test_next_char E 59) (\<lambda>_.
       if is_last stmt then oret (stmts @ [stmt]) else stats_n n E blk expr (stmts @ [stmt]))))"

definition saved_locals :: "parser \<Rightarrow> (u32 \<times> nat) option" where
  "saved_locals p = (if ps_func_scopes p = [] then None
     else Some (fs_local_count (last (ps_func_scopes p)), length (fs_local_names (last (ps_func_scopes p)))))"

definition restore_locals :: "(u32 \<times> nat) option \<Rightarrow> unit pop" where
  "restore_locals saved = omod (\<lambda>p. case saved of None \<Rightarrow> p
     | Some (count, names_len) \<Rightarrow> if ps_func_scopes p = [] then p
         else set_scope (length (ps_func_scopes p) - 1)
           (\<lambda>s. s\<lparr>fs_local_count := count, fs_local_names := take names_len (fs_local_names s)\<rparr>) p)"

definition parse_block :: "lex_env \<Rightarrow> Stat list pop \<Rightarrow> (nat \<Rightarrow> Expr pop) \<Rightarrow> Stat list pop" where
  "parse_block E blk sub = othen enter_level (obind (oget saved_locals) (\<lambda>saved.
     obind (\<lambda>p. stats_n (prounds p) E blk (sub 0) [] p) (\<lambda>stmts.
     othen (restore_locals saved) (othen leave_level (oret stmts)))))"

text \<open>The parsers of blocks and of expressions down to a depth, which never exceeds the syntax levels left.\<close>

primrec parsers :: "nat \<Rightarrow> lex_env \<Rightarrow> Stat list pop \<times> (nat \<Rightarrow> Expr pop)" where
  "parsers 0 E = (ofail FFuel, \<lambda>_. ofail FFuel)"
| "parsers (Suc n) E = (case parsers n E of (blk, sub) \<Rightarrow> (parse_block E blk sub, parse_sub_expr E blk sub))"

definition parse_depth :: nat where "parse_depth = Suc (unat MAX_SYNTAX_LEVELS)"

definition parse_chunk :: "lex_env \<Rightarrow> Stat list pop" where
  "parse_chunk E = obind (fst (parsers parse_depth E)) (\<lambda>block. obind (check T_Eos) (\<lambda>b.
     if b then oret block else error_expected (ascii ''<eof>'')))"

definition parse_with_lexer :: "lex_env \<Rightarrow> lexer \<Rightarrow> (failure, Stat list) res" where
  "parse_with_lexer E l = (case parser_from_lexer E l of Inl e \<Rightarrow> Inl e | Inr p \<Rightarrow> snd (parse_chunk E p))"

definition parse :: "lex_env \<Rightarrow> u8 list \<Rightarrow> rstring \<Rightarrow> (failure, Stat list) res" where
  "parse E source name = parse_with_lexer E (lexer_new source name)"

end
