(* ===== verification/Codegen.thy ===== *)
theory Codegen
  imports Parser Chunk
begin

text \<open>
  The state of the code generator of \<^verbatim>\<open>src/compiler/codegen.rs\<close> and its operations below the
  level of expressions: emission, jump lists, constants, registers, variables and blocks.
  The stack of function states is the innermost state with the list of the enclosing ones,
  nearest first. A prototype under construction is the record of its fields.
\<close>

section \<open>Expressions under construction\<close>

datatype ExprKind = EK_Void | EK_Nil | EK_True | EK_False | EK_K | EK_KNum | EK_Local | EK_Upval | EK_Global | EK_Indexed
  | EK_Jmp | EK_Relocable | EK_NonReloc | EK_Call | EK_VarArg

record ExprContext =
  ec_kind :: ExprKind
  ec_info :: i32
  ec_aux :: i32
  ec_nval :: f64
  ec_t :: i32
  ec_f :: i32

definition expr_void :: ExprContext where
  "expr_void = \<lparr>ec_kind = EK_Void, ec_info = 0, ec_aux = 0, ec_nval = 0, ec_t = NO_JUMP, ec_f = NO_JUMP\<rparr>"

definition expr_new :: "ExprKind \<Rightarrow> i32 \<Rightarrow> ExprContext" where
  "expr_new kind info = \<lparr>ec_kind = kind, ec_info = info, ec_aux = 0, ec_nval = 0, ec_t = NO_JUMP, ec_f = NO_JUMP\<rparr>"

definition expr_number :: "f64 \<Rightarrow> ExprContext" where
  "expr_number v = \<lparr>ec_kind = EK_KNum, ec_info = 0, ec_aux = 0, ec_nval = v, ec_t = NO_JUMP, ec_f = NO_JUMP\<rparr>"

definition has_jumps :: "ExprContext \<Rightarrow> bool" where "has_jumps e \<longleftrightarrow> ec_t e \<noteq> ec_f e"

definition is_numeral :: "ExprContext \<Rightarrow> bool" where
  "is_numeral e \<longleftrightarrow> ec_kind e = EK_KNum \<and> ec_t e = NO_JUMP \<and> ec_f e = NO_JUMP"

section \<open>Function states\<close>

record UpvalDesc =
  ux_in_stack :: bool
  ux_index :: u8
  ux_name :: rstring

record BlockContext =
  bk_num_active_vars :: u8
  bk_has_upval :: bool
  bk_is_breakable :: bool
  bk_break_list :: i32

datatype ConstantKey = ConstantKey (ck_kind: u8) (ck_bits: u64)

definition key_number :: "f64 \<Rightarrow> ConstantKey" where "key_number n = ConstantKey 0 n"
definition key_boolean :: "bool \<Rightarrow> ConstantKey" where "key_boolean b = ConstantKey 1 (if b then 1 else 0)"

datatype StringConstantEntry = StringConstantEntry (sk_pool_pos: nat) (sk_index: u32)

record ProtoParts =
  cp_code :: "u32 list"
  cp_constants :: "Val list"
  cp_protos :: "Proto list"
  cp_line_info :: "u32 list"
  cp_local_vars :: "LocalVar list"
  cp_upvalue_names :: "rstring list"
  cp_source :: rstring
  cp_short_source :: rstring
  cp_line_defined :: u32
  cp_last_line_defined :: u32
  cp_num_upvalues :: u8
  cp_num_params :: u8
  cp_is_vararg :: u8
  cp_max_stack_size :: u8
  cp_string_pool :: "StringPoolEntry list"
  cp_global_slot_names :: "u8 list option list"

definition proto_parts :: "Proto \<Rightarrow> ProtoParts" where
  "proto_parts p = \<lparr>cp_code = pr_code p, cp_constants = pr_constants p, cp_protos = pr_protos p, cp_line_info = pr_line_info p,
     cp_local_vars = pr_local_vars p, cp_upvalue_names = pr_upvalue_names p, cp_source = pr_source p,
     cp_short_source = pr_short_source p, cp_line_defined = pr_line_defined p, cp_last_line_defined = pr_last_line_defined p,
     cp_num_upvalues = pr_num_upvalues p, cp_num_params = pr_num_params p, cp_is_vararg = pr_is_vararg p,
     cp_max_stack_size = pr_max_stack_size p, cp_string_pool = pr_string_pool p, cp_global_slot_names = pr_global_slot_names p\<rparr>"

definition proto_of :: "ProtoParts \<Rightarrow> Proto" where
  "proto_of p = Proto (cp_code p) (cp_constants p) (cp_protos p) (cp_line_info p) (cp_local_vars p) (cp_upvalue_names p)
     (cp_source p) (cp_short_source p) (cp_line_defined p) (cp_last_line_defined p) (cp_num_upvalues p) (cp_num_params p)
     (cp_is_vararg p) (cp_max_stack_size p) (cp_string_pool p) (cp_global_slot_names p)"

record FuncState =
  cf_proto :: ProtoParts
  cf_free_reg :: u8
  cf_num_active_vars :: u8
  cf_upvalues :: "UpvalDesc list"
  cf_active_vars :: "16 word list"
  cf_blocks :: "BlockContext list"
  cf_jpc :: i32
  cf_last_target :: i32
  cf_nil_k :: "u32 option"
  cf_constant_index :: "ConstantKey \<rightharpoonup> u32"
  cf_string_index :: "u32 \<rightharpoonup> StringConstantEntry list"

text \<open>\<open>FuncState::new\<close>; \<open>None\<close> is the panic of \<open>chunkid\<close>.\<close>

definition func_state_new :: "rstring \<Rightarrow> FuncState option" where
  "func_state_new source = map_option (\<lambda>p. \<lparr>cf_proto = proto_parts p, cf_free_reg = 0, cf_num_active_vars = 0, cf_upvalues = [],
     cf_active_vars = [], cf_blocks = [], cf_jpc = NO_JUMP, cf_last_target = -1, cf_nil_k = None, cf_constant_index = Map.empty,
     cf_string_index = Map.empty\<rparr>) (proto_new source)"

record Compiler =
  cc_fs :: FuncState
  cc_outer :: "FuncState list"
  cc_source_name :: rstring
  cc_current_line :: u32

type_synonym 'a cop = "(Compiler, 'a) op"

definition compiler_new :: "rstring \<Rightarrow> Compiler option" where
  "compiler_new name = map_option (\<lambda>f. \<lparr>cc_fs = f, cc_outer = [], cc_source_name = name, cc_current_line = 1\<rparr>) (func_state_new name)"

definition c_pc :: "Compiler \<Rightarrow> nat" where "c_pc c = length (cp_code (cf_proto (cc_fs c)))"

definition on_fs :: "(FuncState \<Rightarrow> FuncState) \<Rightarrow> unit cop" where "on_fs f = omod (cc_fs_update f)"

definition on_proto :: "(ProtoParts \<Rightarrow> ProtoParts) \<Rightarrow> unit cop" where "on_proto f = on_fs (cf_proto_update f)"

definition bad_syntax :: "Compiler \<Rightarrow> u8 list \<Rightarrow> failure" where
  "bad_syntax c msg = FSyntax (SyntaxError msg (cc_source_name c) (cc_current_line c) None)"

definition c_error :: "u8 list \<Rightarrow> 'a cop" where
  "c_error msg = obind (oget (\<lambda>c. bad_syntax c msg)) ofail"

text \<open>An error kept as a value; a panic goes on.\<close>

definition attempt :: "'a cop \<Rightarrow> (failure, 'a) res cop" where
  "attempt m c = (case m c of
     (c1, Inl (FSyntax e)) \<Rightarrow> (c1, Inr (Inl (FSyntax e)))
   | (c1, Inl f) \<Rightarrow> (c1, Inl f)
   | (c1, Inr x) \<Rightarrow> (c1, Inr (Inr x)))"

section \<open>Instructions\<close>

definition get_instruction :: "nat \<Rightarrow> Instruction cop" where
  "get_instruction pc = obind (oget (\<lambda>c. cp_code (cf_proto (cc_fs c)))) (\<lambda>code.
     if pc < length code then oret (Instruction (code ! pc)) else ofail FPanic)"

definition set_instruction :: "nat \<Rightarrow> Instruction \<Rightarrow> unit cop" where
  "set_instruction pc i = obind (oget c_pc) (\<lambda>n.
     if pc < n then on_proto (\<lambda>p. p\<lparr>cp_code := (cp_code p)[pc := raw i]\<rparr>) else ofail FPanic)"

definition on_instruction :: "nat \<Rightarrow> (Instruction \<Rightarrow> Instruction) \<Rightarrow> unit cop" where
  "on_instruction pc f = obind (get_instruction pc) (\<lambda>i. set_instruction pc (f i))"

definition get_label :: "nat cop" where
  "get_label = obind (oget c_pc) (\<lambda>pc. othen (on_fs (\<lambda>f. f\<lparr>cf_last_target := word_of_nat pc\<rparr>)) (oret pc))"

section \<open>Jump lists\<close>

definition patch_jump :: "nat \<Rightarrow> nat \<Rightarrow> unit cop" where
  "patch_jump pc target = on_instruction pc (set_sbx (word_of_nat target - word_of_nat pc - 1))"

definition get_jump_target :: "nat \<Rightarrow> i32 cop" where
  "get_jump_target pc = obind (get_instruction pc) (\<lambda>i.
     oret (if ins_sbx i = NO_JUMP then NO_JUMP else word_of_nat pc + 1 + ins_sbx i))"

text \<open>A list that does not run in a circle has at most as many jumps as the function has instructions.\<close>

definition jump_rounds :: "Compiler \<Rightarrow> nat" where "jump_rounds c = Suc (c_pc c)"

definition with_rounds :: "(nat \<Rightarrow> 'a cop) \<Rightarrow> 'a cop" where "with_rounds m = (\<lambda>c. m (jump_rounds c) c)"

primrec link_end_n :: "nat \<Rightarrow> i32 \<Rightarrow> i32 \<Rightarrow> unit cop" where
  "link_end_n 0 l l2 = ofail FFuel"
| "link_end_n (Suc n) l l2 = obind (get_jump_target (as_usize l)) (\<lambda>nxt.
     if nxt = NO_JUMP then patch_jump (as_usize l) (as_usize l2) else link_end_n n nxt l2)"

definition concat_jumps_result :: "nat \<Rightarrow> i32 \<Rightarrow> nat cop" where
  "concat_jumps_result l1 l2 =
    (if l2 = NO_JUMP then oret l1
     else if word_of_nat l1 = NO_JUMP then oret (as_usize l2)
     else othen (with_rounds (\<lambda>n. link_end_n n (word_of_nat l1) l2)) (oret l1))"

definition concat_jumps :: "i32 \<Rightarrow> i32 \<Rightarrow> i32 cop" where
  "concat_jumps l1 l2 =
    (if l2 = NO_JUMP then oret l1
     else if l1 = NO_JUMP then oret l2
     else othen (with_rounds (\<lambda>n. link_end_n n l1 l2)) (oret l1))"

definition get_jump_control :: "nat \<Rightarrow> nat cop" where
  "get_jump_control pc = (if 1 \<le> pc
     then obind (get_instruction (pc - 1)) (\<lambda>i. oret (if is_test_mode (ins_opcode i) then pc - 1 else pc))
     else oret pc)"

primrec need_value_n :: "nat \<Rightarrow> i32 \<Rightarrow> bool cop" where
  "need_value_n 0 l = ofail FFuel"
| "need_value_n (Suc n) l = (if l = NO_JUMP then oret False
     else obind (get_jump_control (as_usize l)) (\<lambda>ctrl. obind (get_instruction ctrl) (\<lambda>i.
       if ins_opcode i \<noteq> Op_TestSet then oret True
       else obind (get_jump_target (as_usize l)) (need_value_n n))))"

definition need_value :: "i32 \<Rightarrow> bool cop" where "need_value l = with_rounds (\<lambda>n. need_value_n n l)"

definition patch_test_reg :: "nat \<Rightarrow> u32 \<Rightarrow> bool cop" where
  "patch_test_reg node reg = obind (get_jump_control node) (\<lambda>ctrl. obind (get_instruction ctrl) (\<lambda>i.
     if ins_opcode i \<noteq> Op_TestSet then oret False
     else othen (set_instruction ctrl (if reg \<noteq> NO_REG \<and> reg \<noteq> ins_b i then set_a reg i else abc Op_Test (ins_b i) 0 (ins_c i)))
       (oret True)))"

primrec remove_values_n :: "nat \<Rightarrow> i32 \<Rightarrow> unit cop" where
  "remove_values_n 0 l = ofail FFuel"
| "remove_values_n (Suc n) l = (if l = NO_JUMP then oret ()
     else othen (patch_test_reg (as_usize l) NO_REG) (obind (get_jump_target (as_usize l)) (remove_values_n n)))"

definition remove_values :: "i32 \<Rightarrow> unit cop" where "remove_values l = with_rounds (\<lambda>n. remove_values_n n l)"

primrec patch_list_aux_n :: "nat \<Rightarrow> i32 \<Rightarrow> nat \<Rightarrow> u32 \<Rightarrow> nat \<Rightarrow> unit cop" where
  "patch_list_aux_n 0 l vtarget reg dtarget = ofail FFuel"
| "patch_list_aux_n (Suc n) l vtarget reg dtarget = (if l = NO_JUMP then oret ()
     else obind (get_jump_target (as_usize l)) (\<lambda>nxt. obind (patch_test_reg (as_usize l) reg) (\<lambda>t.
       othen (patch_jump (as_usize l) (if t then vtarget else dtarget)) (patch_list_aux_n n nxt vtarget reg dtarget))))"

definition patch_list_aux :: "i32 \<Rightarrow> nat \<Rightarrow> u32 \<Rightarrow> nat \<Rightarrow> unit cop" where
  "patch_list_aux l vtarget reg dtarget = with_rounds (\<lambda>n. patch_list_aux_n n l vtarget reg dtarget)"

definition patch_to_here :: "i32 \<Rightarrow> unit cop" where
  "patch_to_here l = othen get_label (obind (oget (\<lambda>c. cf_jpc (cc_fs c))) (\<lambda>jpc.
     obind (concat_jumps jpc l) (\<lambda>merged. on_fs (\<lambda>f. f\<lparr>cf_jpc := merged\<rparr>))))"

definition patch_list :: "i32 \<Rightarrow> nat \<Rightarrow> unit cop" where
  "patch_list l target = obind (oget c_pc) (\<lambda>pc.
     if target = pc then patch_to_here l else patch_list_aux l target NO_REG target)"

definition discharge_jpc :: "unit cop" where
  "discharge_jpc = obind (oget (\<lambda>c. cf_jpc (cc_fs c))) (\<lambda>jpc.
     if jpc \<noteq> NO_JUMP then obind (oget c_pc) (\<lambda>pc.
       othen (patch_list_aux jpc pc NO_REG pc) (on_fs (\<lambda>f. f\<lparr>cf_jpc := NO_JUMP\<rparr>)))
     else oret ())"

section \<open>Emission\<close>

definition push_code :: "Instruction \<Rightarrow> u32 \<Rightarrow> unit cop" where
  "push_code i line = on_proto (\<lambda>p. p\<lparr>cp_code := cp_code p @ [raw i], cp_line_info := cp_line_info p @ [line]\<rparr>)"

definition emit :: "Instruction \<Rightarrow> u32 \<Rightarrow> nat cop" where
  "emit i line = othen discharge_jpc (obind (oget c_pc) (\<lambda>pc. othen (push_code i line) (oret pc)))"

definition emit_abc :: "OpCode \<Rightarrow> u32 \<Rightarrow> u32 \<Rightarrow> u32 \<Rightarrow> u32 \<Rightarrow> nat cop" where
  "emit_abc op a b c line = emit (abc op a b c) line"

definition emit_abx :: "OpCode \<Rightarrow> u32 \<Rightarrow> u32 \<Rightarrow> u32 \<Rightarrow> nat cop" where
  "emit_abx op a bx line = emit (a_bx op a bx) line"

definition emit_asbx :: "OpCode \<Rightarrow> u32 \<Rightarrow> i32 \<Rightarrow> u32 \<Rightarrow> nat cop" where
  "emit_asbx op a sbx line = emit (a_sbx op a sbx) line"

definition extend_nil :: "nat \<Rightarrow> u32 \<Rightarrow> u32 \<Rightarrow> unit cop \<Rightarrow> unit cop" where
  "extend_nil pc from_reg n otherwise = obind (get_instruction (pc - 1)) (\<lambda>prev.
     if ins_opcode prev = Op_LoadNil \<and> ins_a prev \<le> from_reg \<and> from_reg \<le> ins_b prev + 1 then
       (if from_reg + n - 1 > ins_b prev then set_instruction (pc - 1) (set_b (from_reg + n - 1) prev) else oret ())
     else otherwise)"

definition emit_nil :: "u32 \<Rightarrow> u32 \<Rightarrow> u32 \<Rightarrow> unit cop" where
  "emit_nil from_reg n line =
    (let load = othen (emit_abc Op_LoadNil from_reg (from_reg + n - 1) 0 line) (oret ()) in
     obind (oget c_pc) (\<lambda>pc. obind (oget (\<lambda>c. cf_last_target (cc_fs c))) (\<lambda>last_target.
       if sint last_target < sint (word_of_nat pc :: i32) then
         (if pc = 0 then oret () else extend_nil pc from_reg n load)
       else load)))"

definition emit_jump :: "u32 \<Rightarrow> nat cop" where
  "emit_jump line = obind (oget (\<lambda>c. cf_jpc (cc_fs c))) (\<lambda>jpc.
     othen (on_fs (\<lambda>f. f\<lparr>cf_jpc := NO_JUMP\<rparr>)) (obind (emit_asbx Op_Jmp 0 NO_JUMP line) (\<lambda>pc. concat_jumps_result pc jpc)))"

definition code_label :: "u32 \<Rightarrow> u32 \<Rightarrow> u32 \<Rightarrow> u32 \<Rightarrow> nat cop" where
  "code_label reg b jump line = othen get_label (emit_abc Op_LoadBool reg b jump line)"

section \<open>Constants\<close>

definition push_constant :: "Val \<Rightarrow> u32 cop" where
  "push_constant v = obind (oget (\<lambda>c. length (cp_constants (cf_proto (cc_fs c))))) (\<lambda>idx.
     if unat MAXARG_BX < idx then c_error (ascii ''constant table overflow'')
     else othen (on_proto (\<lambda>p. p\<lparr>cp_constants := cp_constants p @ [v]\<rparr>)) (oret (word_of_nat idx)))"

definition add_keyed :: "ConstantKey \<Rightarrow> Val \<Rightarrow> u32 cop" where
  "add_keyed key v = obind (oget (\<lambda>c. cf_constant_index (cc_fs c) key)) (\<lambda>found. case found of
     Some idx \<Rightarrow> oret idx
   | None \<Rightarrow> obind (push_constant v) (\<lambda>idx.
       othen (on_fs (\<lambda>f. f\<lparr>cf_constant_index := (cf_constant_index f)(key \<mapsto> idx)\<rparr>)) (oret idx)))"

definition add_constant :: "Val \<Rightarrow> u32 cop" where
  "add_constant v = (case v of
     VNum n \<Rightarrow> add_keyed (key_number n) v
   | VBool b \<Rightarrow> add_keyed (key_boolean b) v
   | _ \<Rightarrow> push_constant v)"

definition number_constant :: "f64 \<Rightarrow> u32 cop" where "number_constant n = add_constant (VNum n)"

definition nil_constant :: "u32 cop" where
  "nil_constant = obind (oget (\<lambda>c. cf_nil_k (cc_fs c))) (\<lambda>found. case found of
     Some idx \<Rightarrow> oret idx
   | None \<Rightarrow> obind (push_constant VNil) (\<lambda>idx. othen (on_fs (\<lambda>f. f\<lparr>cf_nil_k := Some idx\<rparr>)) (oret idx)))"

text \<open>An index of a bucket that is not in the pool would panic.\<close>

primrec find_pooled :: "u8 list \<Rightarrow> StringPoolEntry list \<Rightarrow> StringConstantEntry list \<Rightarrow> (failure, u32 option) res" where
  "find_pooled s pool [] = Inr None"
| "find_pooled s pool (e # es) = (if sk_pool_pos e < length pool
     then (if sp_bytes (pool ! sk_pool_pos e) = s then Inr (Some (sk_index e)) else find_pooled s pool es)
     else Inl FPanic)"

definition new_string_constant :: "u8 list \<Rightarrow> u32 cop" where
  "new_string_constant s = obind (push_constant VNil) (\<lambda>idx. obind (oget (\<lambda>c. length (cp_string_pool (cf_proto (cc_fs c))))) (\<lambda>pos.
     othen (on_proto (\<lambda>p. p\<lparr>cp_string_pool := cp_string_pool p @ [StringPoolEntry idx s (lua_hash s)]\<rparr>))
     (othen (on_fs (\<lambda>f. f\<lparr>cf_string_index := (cf_string_index f)(lua_hash s \<mapsto>
         (case cf_string_index f (lua_hash s) of None \<Rightarrow> [] | Some es \<Rightarrow> es) @ [StringConstantEntry pos idx])\<rparr>)) (oret idx))))"

definition string_constant :: "u8 list \<Rightarrow> u32 cop" where
  "string_constant s = obind (oget (\<lambda>c. cp_string_pool (cf_proto (cc_fs c)))) (\<lambda>pool.
     if pool \<noteq> [] \<and> sp_bytes (last pool) = s then oret (sp_index (last pool))
     else obind (oget (\<lambda>c. cf_string_index (cc_fs c) (lua_hash s))) (\<lambda>bucket.
       case find_pooled s pool (case bucket of None \<Rightarrow> [] | Some es \<Rightarrow> es) of
         Inl e \<Rightarrow> ofail e
       | Inr (Some idx) \<Rightarrow> oret idx
       | Inr None \<Rightarrow> new_string_constant s))"

section \<open>Registers\<close>

definition check_stack :: "u32 \<Rightarrow> unit cop" where
  "check_stack n = obind (oget (\<lambda>c. ucast (cf_free_reg (cc_fs c)) + n)) (\<lambda>new_stack.
     if MAXSTACK < new_stack then c_error (ascii ''function or expression too complex'')
     else on_proto (\<lambda>p. if ucast (cp_max_stack_size p) < new_stack then p\<lparr>cp_max_stack_size := ucast new_stack\<rparr> else p))"

definition reserve_regs :: "u32 \<Rightarrow> unit cop" where
  "reserve_regs n = othen (check_stack n) (on_fs (\<lambda>f. f\<lparr>cf_free_reg := cf_free_reg f + ucast n\<rparr>))"

definition c_free :: "Compiler \<Rightarrow> u32" where "c_free c = ucast (cf_free_reg (cc_fs c))"
definition c_active :: "Compiler \<Rightarrow> u32" where "c_active c = ucast (cf_num_active_vars (cc_fs c))"

definition alloc_reg :: "u32 cop" where
  "alloc_reg = othen (check_stack 1) (obind (oget c_free) (\<lambda>reg.
     othen (on_fs (\<lambda>f. f\<lparr>cf_free_reg := cf_free_reg f + 1\<rparr>)) (oret reg)))"

definition free_reg :: "u32 \<Rightarrow> unit cop" where
  "free_reg reg = on_fs (\<lambda>f. if ucast (cf_num_active_vars f) \<le> reg \<and> \<not> is_k reg \<and> 0 < cf_free_reg f
       \<and> reg = ucast (cf_free_reg f) - 1
     then f\<lparr>cf_free_reg := cf_free_reg f - 1\<rparr> else f)"

definition set_free_reg :: "u8 \<Rightarrow> unit cop" where "set_free_reg r = on_fs (\<lambda>f. f\<lparr>cf_free_reg := r\<rparr>)"

definition reset_free :: "unit cop" where "reset_free = on_fs (\<lambda>f. f\<lparr>cf_free_reg := cf_num_active_vars f\<rparr>)"

section \<open>Variables\<close>

text \<open>The active variables from the innermost: \<open>Some\<close> register of the variable of the name, or a panic on a bad index.\<close>

primrec search_local_n :: "rstring \<Rightarrow> FuncState \<Rightarrow> nat \<Rightarrow> (failure, u8 option) res" where
  "search_local_n name f 0 = Inr None"
| "search_local_n name f (Suc i) =
    (if i < length (cf_active_vars f) \<and> unat (cf_active_vars f ! i) < length (cp_local_vars (cf_proto f))
     then (if lv_name (cp_local_vars (cf_proto f) ! unat (cf_active_vars f ! i)) = name then Inr (Some (word_of_nat i))
           else search_local_n name f i)
     else Inl FPanic)"

definition search_local :: "rstring \<Rightarrow> FuncState \<Rightarrow> (failure, u8 option) res" where
  "search_local name f = search_local_n name f (unat (cf_num_active_vars f))"

primrec index_where :: "('a \<Rightarrow> bool) \<Rightarrow> 'a list \<Rightarrow> nat \<Rightarrow> nat option" where
  "index_where P [] i = None"
| "index_where P (x # xs) i = (if P x then Some i else index_where P xs (Suc i))"

definition search_upvalue :: "rstring \<Rightarrow> FuncState \<Rightarrow> u8 option" where
  "search_upvalue name f = map_option word_of_nat (index_where (\<lambda>uv. ux_name uv = name) (cf_upvalues f) 0)"

definition add_upvalue :: "(u8 list \<Rightarrow> failure) \<Rightarrow> rstring \<Rightarrow> bool \<Rightarrow> u8 \<Rightarrow> FuncState \<Rightarrow> (failure, u8 \<times> FuncState) res" where
  "add_upvalue bad name in_stack index f =
    (case index_where (\<lambda>uv. ux_in_stack uv = in_stack \<and> ux_index uv = index) (cf_upvalues f) 0 of
       Some i \<Rightarrow> Inr (word_of_nat i, f)
     | None \<Rightarrow> if unat LUAI_MAXUPVALUES \<le> length (cf_upvalues f) then Inl (bad (ascii ''too many upvalues''))
         else Inr (word_of_nat (length (cf_upvalues f)),
           f\<lparr>cf_upvalues := cf_upvalues f @ [\<lparr>ux_in_stack = in_stack, ux_index = index, ux_name = name\<rparr>],
             cf_proto := (cf_proto f)\<lparr>cp_num_upvalues := word_of_nat (Suc (length (cf_upvalues f)))\<rparr>\<rparr>))"

text \<open>Blocks are kept innermost first.\<close>

primrec mark_block :: "u8 \<Rightarrow> BlockContext list \<Rightarrow> BlockContext list" where
  "mark_block level [] = []"
| "mark_block level (b # bs) =
    (if bk_num_active_vars b \<le> level then b\<lparr>bk_has_upval := True\<rparr> # bs else b # mark_block level bs)"

definition mark_upval :: "u8 \<Rightarrow> FuncState \<Rightarrow> FuncState" where
  "mark_upval level f = f\<lparr>cf_blocks := mark_block level (cf_blocks f)\<rparr>"

definition linked :: "(u8 list \<Rightarrow> failure) \<Rightarrow> rstring \<Rightarrow> bool \<Rightarrow> u8 \<Rightarrow> FuncState \<Rightarrow> FuncState list
    \<Rightarrow> FuncState list \<times> (failure, u8 option) res" where
  "linked bad name in_stack index f parents = (case add_upvalue bad name in_stack index f of
     Inl e \<Rightarrow> (f # parents, Inl e)
   | Inr (i, f1) \<Rightarrow> (f1 # parents, Inr (Some i)))"

fun resolve_aux :: "(u8 list \<Rightarrow> failure) \<Rightarrow> rstring \<Rightarrow> FuncState list \<Rightarrow> FuncState list \<times> (failure, u8 option) res" where
  "resolve_aux bad name (f # p # rest) = (case search_local name p of
     Inl e \<Rightarrow> (f # p # rest, Inl e)
   | Inr (Some i) \<Rightarrow> linked bad name True i f (mark_upval i p # rest)
   | Inr None \<Rightarrow> (case search_upvalue name p of
       Some i \<Rightarrow> linked bad name False i f (p # rest)
     | None \<Rightarrow> (case resolve_aux bad name (p # rest) of
         (ps, Inl e) \<Rightarrow> (f # ps, Inl e)
       | (ps, Inr None) \<Rightarrow> (f # ps, Inr None)
       | (ps, Inr (Some i)) \<Rightarrow> linked bad name False i f ps)))"
| "resolve_aux bad name fs = (fs, Inr None)"

definition resolve_outer :: "rstring \<Rightarrow> u8 option cop" where
  "resolve_outer name c = (case resolve_aux (bad_syntax c) name (cc_fs c # cc_outer c) of
     (f # fs, r) \<Rightarrow> (c\<lparr>cc_fs := f, cc_outer := fs\<rparr>, r)
   | ([], r) \<Rightarrow> (c, r))"

definition resolve_var :: "rstring \<Rightarrow> ExprContext cop" where
  "resolve_var name = obind (oget (\<lambda>c. search_local name (cc_fs c))) (\<lambda>loc. case loc of
     Inl e \<Rightarrow> ofail e
   | Inr (Some reg) \<Rightarrow> oret (expr_new EK_Local (ucast reg))
   | Inr None \<Rightarrow> obind (oget (\<lambda>c. search_upvalue name (cc_fs c))) (\<lambda>up. case up of
       Some i \<Rightarrow> oret (expr_new EK_Upval (ucast i))
     | None \<Rightarrow> obind (resolve_outer name) (\<lambda>outer. case outer of
         Some i \<Rightarrow> oret (expr_new EK_Upval (ucast i))
       | None \<Rightarrow> obind (string_constant name) (\<lambda>k. oret (expr_new EK_Global k)))))"

definition local_limit_message :: "u32 \<Rightarrow> u8 list" where
  "local_limit_message line_defined = (if line_defined = 0
     then ascii ''main function has more than '' @ nat_digits (unat LUAI_MAXACTIVEVARS) @ ascii '' local variables''
     else ascii ''function at line '' @ nat_digits (unat line_defined) @ ascii '' has more than ''
       @ nat_digits (unat LUAI_MAXACTIVEVARS) @ ascii '' local variables'')"

definition new_local :: "rstring \<Rightarrow> unit cop" where
  "new_local name = obind (oget cc_fs) (\<lambda>f.
     if unat LUAI_MAXACTIVEVARS \<le> length (cf_active_vars f) then c_error (local_limit_message (cp_line_defined (cf_proto f)))
     else othen (on_proto (\<lambda>p. p\<lparr>cp_local_vars := cp_local_vars p @ [LocalVar name 0 0]\<rparr>))
       (on_fs (\<lambda>g. g\<lparr>cf_active_vars := cf_active_vars g @ [word_of_nat (length (cp_local_vars (cf_proto f)))]\<rparr>)))"

definition start_at :: "u32 \<Rightarrow> LocalVar list \<Rightarrow> nat \<Rightarrow> LocalVar list" where
  "start_at pc vars i = (if i < length vars then vars[i := LocalVar (lv_name (vars ! i)) pc (lv_end (vars ! i))] else vars)"

definition end_at :: "u32 \<Rightarrow> LocalVar list \<Rightarrow> nat \<Rightarrow> LocalVar list" where
  "end_at pc vars i = (if i < length vars then vars[i := LocalVar (lv_name (vars ! i)) (lv_start (vars ! i)) pc] else vars)"

definition activate_locals :: "u32 \<Rightarrow> unit cop" where
  "activate_locals n = obind (oget (\<lambda>c. length (cf_active_vars (cc_fs c)))) (\<lambda>m.
     if m < unat n then ofail FPanic
     else on_fs (\<lambda>f. f\<lparr>cf_num_active_vars := cf_num_active_vars f + ucast n,
       cf_proto := (cf_proto f)\<lparr>cp_local_vars := foldl (start_at (word_of_nat (length (cp_code (cf_proto f)))))
         (cp_local_vars (cf_proto f)) (map unat (drop (m - unat n) (cf_active_vars f)))\<rparr>\<rparr>))"

primrec drop_locals :: "nat \<Rightarrow> FuncState \<Rightarrow> FuncState" where
  "drop_locals 0 f = f"
| "drop_locals (Suc n) f = drop_locals n (let g = f\<lparr>cf_num_active_vars := cf_num_active_vars f - 1\<rparr> in
     if cf_active_vars f = [] then g
     else g\<lparr>cf_active_vars := butlast (cf_active_vars f),
       cf_proto := (cf_proto f)\<lparr>cp_local_vars := end_at (word_of_nat (length (cp_code (cf_proto f))))
         (cp_local_vars (cf_proto f)) (unat (last (cf_active_vars f)))\<rparr>\<rparr>)"

definition remove_locals :: "u8 \<Rightarrow> unit cop" where
  "remove_locals to_level = on_fs (\<lambda>f. drop_locals (unat (cf_num_active_vars f) - unat to_level) f)"

section \<open>Blocks\<close>

definition enter_block :: "bool \<Rightarrow> unit cop" where
  "enter_block is_breakable = on_fs (\<lambda>f. f\<lparr>cf_blocks := \<lparr>bk_num_active_vars = cf_num_active_vars f, bk_has_upval = False,
     bk_is_breakable = is_breakable, bk_break_list = NO_JUMP\<rparr> # cf_blocks f\<rparr>)"

definition only_if :: "bool \<Rightarrow> unit cop \<Rightarrow> unit cop" where "only_if b m = (if b then m else oret ())"

definition close_block :: "BlockContext \<Rightarrow> unit cop" where
  "close_block b = othen (remove_locals (bk_num_active_vars b)) (othen reset_free
     (othen (only_if (bk_has_upval b) (obind (oget cc_current_line) (\<lambda>line.
         othen (emit_abc Op_Close (ucast (bk_num_active_vars b)) 0 0 line) (oret ()))))
       (only_if (bk_is_breakable b) (obind (oget c_pc) (patch_list (bk_break_list b))))))"

definition leave_block :: "unit cop" where
  "leave_block = obind (oget (\<lambda>c. cf_blocks (cc_fs c))) (\<lambda>bs. case bs of
     [] \<Rightarrow> oret ()
   | b # rest \<Rightarrow> othen (on_fs (\<lambda>f. f\<lparr>cf_blocks := rest\<rparr>)) (close_block b))"

primrec link_break_n :: "nat \<Rightarrow> i32 \<Rightarrow> i32 \<Rightarrow> unit cop" where
  "link_break_n 0 bl jump_pc = ofail FFuel"
| "link_break_n (Suc n) bl jump_pc = obind (get_instruction (as_usize bl)) (\<lambda>i.
     if ins_sbx i = NO_JUMP then set_instruction (as_usize bl) (set_sbx (jump_pc - bl - 1) i)
     else link_break_n n (bl + 1 + ins_sbx i) jump_pc)"

definition set_break_list :: "nat \<Rightarrow> i32 \<Rightarrow> unit cop" where
  "set_break_list k l = on_fs (\<lambda>f. f\<lparr>cf_blocks := (cf_blocks f)[k := (cf_blocks f ! k)\<lparr>bk_break_list := l\<rparr>]\<rparr>)"

definition add_break_jump :: "i32 \<Rightarrow> unit cop" where
  "add_break_jump jump_pc = obind (oget (\<lambda>c. cf_blocks (cc_fs c))) (\<lambda>bs. case index_where bk_is_breakable bs 0 of
     None \<Rightarrow> c_error (ascii ''no loop to break'')
   | Some k \<Rightarrow> if bk_break_list (bs ! k) = NO_JUMP then set_break_list k jump_pc
       else with_rounds (\<lambda>n. link_break_n n (bk_break_list (bs ! k)) jump_pc))"

end
