(* ===== verification/CodeExpr.thy ===== *)
theory CodeExpr
  imports Codegen Execute
begin

text \<open>
  The middle layer of \<^verbatim>\<open>src/compiler/codegen.rs\<close>: expressions moved to registers and constants,
  stores, conditional jumps, constant folding and operators. An operation on a mutable
  expression gives the changed expression; \<open>_ref\<close> names the form that keeps an error as a
  value beside the expression, which \<open>exp2val\<close> drops.
\<close>

section \<open>Values\<close>

definition set_one_ret :: "ExprContext \<Rightarrow> ExprContext cop" where
  "set_one_ret e = (if ec_kind e = EK_Call then
       obind (get_instruction (as_usize (ec_info e))) (\<lambda>i. othen (set_instruction (as_usize (ec_info e)) (set_c 2 i))
         (oret (e\<lparr>ec_kind := EK_NonReloc, ec_info := ins_a (set_c 2 i)\<rparr>)))
     else if ec_kind e = EK_VarArg then
       othen (on_instruction (as_usize (ec_info e)) (set_b 2)) (oret (e\<lparr>ec_kind := EK_Relocable\<rparr>))
     else oret e)"

definition relocable :: "ExprContext \<Rightarrow> nat cop \<Rightarrow> ExprContext cop" where
  "relocable e m = obind m (\<lambda>pc. oret (e\<lparr>ec_info := word_of_nat pc, ec_kind := EK_Relocable\<rparr>))"

definition discharge_vars :: "ExprContext \<Rightarrow> u32 \<Rightarrow> ExprContext cop" where
  "discharge_vars e line = (case ec_kind e of
     EK_Local \<Rightarrow> oret (e\<lparr>ec_kind := EK_NonReloc\<rparr>)
   | EK_Upval \<Rightarrow> relocable e (emit_abc Op_GetUpval 0 (ec_info e) 0 line)
   | EK_Global \<Rightarrow> relocable e (emit_abx Op_GetGlobal 0 (ec_info e) line)
   | EK_Indexed \<Rightarrow> othen (free_reg (ec_aux e)) (othen (free_reg (ec_info e))
       (relocable e (emit_abc Op_GetTable 0 (ec_info e) (ec_aux e) line)))
   | EK_Call \<Rightarrow> set_one_ret e
   | EK_VarArg \<Rightarrow> set_one_ret e
   | _ \<Rightarrow> oret e)"

definition free_expr :: "ExprContext \<Rightarrow> unit cop" where
  "free_expr e = only_if (ec_kind e = EK_NonReloc) (free_reg (ec_info e))"

definition move_to_reg :: "ExprContext \<Rightarrow> u32 \<Rightarrow> u32 \<Rightarrow> bool cop" where
  "move_to_reg e reg line = (case ec_kind e of
     EK_Nil \<Rightarrow> othen (emit_nil reg 1 line) (oret True)
   | EK_False \<Rightarrow> othen (emit_abc Op_LoadBool reg 0 0 line) (oret True)
   | EK_True \<Rightarrow> othen (emit_abc Op_LoadBool reg 1 0 line) (oret True)
   | EK_K \<Rightarrow> othen (emit_abx Op_LoadK reg (ec_info e) line) (oret True)
   | EK_KNum \<Rightarrow> obind (attempt (number_constant (ec_nval e))) (\<lambda>r.
       othen (emit_abx Op_LoadK reg (case r of Inl _ \<Rightarrow> 0 | Inr k \<Rightarrow> k) line) (oret True))
   | EK_Relocable \<Rightarrow> othen (on_instruction (as_usize (ec_info e)) (set_a reg)) (oret True)
   | EK_NonReloc \<Rightarrow> othen (only_if (reg \<noteq> ec_info e) (othen (emit_abc Op_Move reg (ec_info e) 0 line) (oret ()))) (oret True)
   | _ \<Rightarrow> oret False)"

definition discharge2reg :: "ExprContext \<Rightarrow> u32 \<Rightarrow> u32 \<Rightarrow> ExprContext cop" where
  "discharge2reg e reg line = obind (discharge_vars e line) (\<lambda>e. obind (move_to_reg e reg line) (\<lambda>moved.
     oret (if moved then e\<lparr>ec_info := reg, ec_kind := EK_NonReloc\<rparr> else e)))"

text \<open>The two loads of a comparison; \<open>NO_JUMP\<close> for none.\<close>

definition load_bools :: "ExprContext \<Rightarrow> u32 \<Rightarrow> u32 \<Rightarrow> (i32 \<times> i32) cop" where
  "load_bools e reg line = obind (need_value (ec_t e)) (\<lambda>nt. obind (if nt then oret True else need_value (ec_f e)) (\<lambda>n.
     if n then obind (if ec_kind e = EK_Jmp then oret NO_JUMP else obind (emit_jump line) (\<lambda>pc. oret (word_of_nat pc))) (\<lambda>fj.
       obind (code_label reg 0 1 line) (\<lambda>p_f. obind (code_label reg 1 0 line) (\<lambda>p_t.
       othen (patch_to_here fj) (oret (word_of_nat p_f, word_of_nat p_t)))))
     else oret (NO_JUMP, NO_JUMP)))"

definition materialize :: "ExprContext \<Rightarrow> u32 \<Rightarrow> u32 \<Rightarrow> unit cop" where
  "materialize e reg line = obind (load_bools e reg line) (\<lambda>(p_f, p_t). obind get_label (\<lambda>final_pc.
     othen (patch_list_aux (ec_f e) final_pc reg (if p_f = NO_JUMP then final_pc else as_usize p_f))
       (patch_list_aux (ec_t e) final_pc reg (if p_t = NO_JUMP then final_pc else as_usize p_t))))"

definition exp2reg :: "ExprContext \<Rightarrow> u32 \<Rightarrow> u32 \<Rightarrow> ExprContext cop" where
  "exp2reg e reg line = obind (discharge2reg e reg line) (\<lambda>e.
     obind (if ec_kind e = EK_Jmp then obind (concat_jumps (ec_t e) (ec_info e)) (\<lambda>t. oret (e\<lparr>ec_t := t\<rparr>)) else oret e) (\<lambda>e.
     othen (only_if (has_jumps e) (materialize e reg line))
       (oret (e\<lparr>ec_f := NO_JUMP, ec_t := NO_JUMP, ec_info := reg, ec_kind := EK_NonReloc\<rparr>))))"

type_synonym expr_ref = "ExprContext \<times> failure option"

definition raise_ref :: "expr_ref cop \<Rightarrow> ExprContext cop" where
  "raise_ref m = obind m (\<lambda>(e, r). case r of None \<Rightarrow> oret e | Some err \<Rightarrow> ofail err)"

definition exp2nextreg_ref :: "ExprContext \<Rightarrow> u32 \<Rightarrow> expr_ref cop" where
  "exp2nextreg_ref e line = obind (discharge_vars e line) (\<lambda>e. othen (free_expr e) (obind (attempt alloc_reg) (\<lambda>r. case r of
     Inl err \<Rightarrow> oret (e, Some err)
   | Inr reg \<Rightarrow> obind (exp2reg e reg line) (\<lambda>e. oret (e, None)))))"

definition exp2nextreg :: "ExprContext \<Rightarrow> u32 \<Rightarrow> ExprContext cop" where
  "exp2nextreg e line = raise_ref (exp2nextreg_ref e line)"

definition exp2anyreg_ref :: "ExprContext \<Rightarrow> u32 \<Rightarrow> expr_ref cop" where
  "exp2anyreg_ref e line = obind (discharge_vars e line) (\<lambda>e. obind (oget c_active) (\<lambda>active.
     if ec_kind e = EK_NonReloc \<and> \<not> has_jumps e then oret (e, None)
     else if ec_kind e = EK_NonReloc \<and> active \<le> ec_info e then obind (exp2reg e (ec_info e) line) (\<lambda>e. oret (e, None))
     else exp2nextreg_ref e line))"

text \<open>The register is the \<open>ec_info\<close> of the result.\<close>

definition exp2anyreg :: "ExprContext \<Rightarrow> u32 \<Rightarrow> ExprContext cop" where
  "exp2anyreg e line = raise_ref (exp2anyreg_ref e line)"

definition exp2val :: "ExprContext \<Rightarrow> u32 \<Rightarrow> ExprContext cop" where
  "exp2val e line = (if has_jumps e then obind (exp2anyreg_ref e line) (\<lambda>r. oret (fst r)) else discharge_vars e line)"

definition discharge2anyreg :: "ExprContext \<Rightarrow> u32 \<Rightarrow> ExprContext cop" where
  "discharge2anyreg e line = (if ec_kind e \<noteq> EK_NonReloc
     then othen (reserve_regs 1) (obind (oget c_free) (\<lambda>r. discharge2reg e (r - 1) line))
     else oret e)"

text \<open>\<open>Some\<close> operand for a constant that fits one.\<close>

definition constant_operand :: "ExprContext \<Rightarrow> (ExprContext \<times> u32) option cop" where
  "constant_operand e = (let known = (\<lambda>k. oret (Some (e\<lparr>ec_info := k, ec_kind := EK_K\<rparr>, k OR BITRK)));
       small = (\<lambda>m. obind (oget (\<lambda>c. length (cp_constants (cf_proto (cc_fs c))))) (\<lambda>n.
          if n \<le> unat MAXINDEXRK then obind m known else oret None))
     in case ec_kind e of
       EK_Nil \<Rightarrow> small nil_constant
     | EK_True \<Rightarrow> small (add_constant (VBool True))
     | EK_False \<Rightarrow> small (add_constant (VBool False))
     | EK_K \<Rightarrow> if ec_info e \<le> MAXINDEXRK then oret (Some (e, ec_info e OR BITRK)) else oret None
     | EK_KNum \<Rightarrow> obind (number_constant (ec_nval e)) (\<lambda>k. if k \<le> MAXINDEXRK then known k else oret None)
     | _ \<Rightarrow> oret None)"

definition exp2rk :: "ExprContext \<Rightarrow> u32 \<Rightarrow> (ExprContext \<times> u32) cop" where
  "exp2rk e line = obind (exp2val e line) (\<lambda>e. obind (constant_operand e) (\<lambda>found. case found of
     Some r \<Rightarrow> oret r
   | None \<Rightarrow> obind (exp2anyreg e line) (\<lambda>e. oret (e, ec_info e))))"

definition storevar :: "ExprContext \<Rightarrow> ExprContext \<Rightarrow> u32 \<Rightarrow> unit cop" where
  "storevar var ex line = (case ec_kind var of
     EK_Local \<Rightarrow> othen (free_expr ex) (obind (exp2reg ex (ec_info var) line) free_expr)
   | EK_Upval \<Rightarrow> obind (exp2anyreg ex line) (\<lambda>ex. othen (emit_abc Op_SetUpval (ec_info ex) (ec_info var) 0 line) (free_expr ex))
   | EK_Global \<Rightarrow> obind (exp2anyreg ex line) (\<lambda>ex. othen (emit_abx Op_SetGlobal (ec_info ex) (ec_info var) line) (free_expr ex))
   | EK_Indexed \<Rightarrow> obind (exp2rk ex line) (\<lambda>(ex, rk). othen (emit_abc Op_SetTable (ec_info var) (ec_aux var) rk line) (free_expr ex))
   | _ \<Rightarrow> c_error (ascii ''invalid assignment target''))"

section \<open>Conditions\<close>

definition invertjump :: "ExprContext \<Rightarrow> unit cop" where
  "invertjump e = obind (get_jump_control (as_usize (ec_info e))) (\<lambda>ctrl.
     on_instruction ctrl (\<lambda>i. set_a (if ins_a i = 0 then 1 else 0) i))"

definition pop_code :: "unit cop" where
  "pop_code = on_proto (\<lambda>p. p\<lparr>cp_code := butlast (cp_code p), cp_line_info := butlast (cp_line_info p)\<rparr>)"

definition jump_to :: "u32 \<Rightarrow> i32 cop" where "jump_to line = obind (emit_jump line) (\<lambda>pc. oret (word_of_nat pc))"

definition test_and_jump :: "ExprContext \<Rightarrow> bool \<Rightarrow> u32 \<Rightarrow> (ExprContext \<times> i32) cop" where
  "test_and_jump e cond line = obind (discharge2anyreg e line) (\<lambda>e. othen (free_expr e)
     (othen (emit_abc Op_TestSet NO_REG (ec_info e) (if cond then 1 else 0) line)
       (obind (jump_to line) (\<lambda>pc. oret (e, pc)))))"

definition jumponcond :: "ExprContext \<Rightarrow> bool \<Rightarrow> u32 \<Rightarrow> (ExprContext \<times> i32) cop" where
  "jumponcond e cond line = (if ec_kind e = EK_Relocable
     then obind (get_instruction (as_usize (ec_info e))) (\<lambda>i. if ins_opcode i = Op_Not
       then othen pop_code (othen (emit_abc Op_Test (ins_b i) 0 (if cond then 0 else 1) line)
         (obind (jump_to line) (\<lambda>pc. oret (e, pc))))
       else test_and_jump e cond line)
     else test_and_jump e cond line)"

definition goiftrue :: "ExprContext \<Rightarrow> u32 \<Rightarrow> ExprContext cop" where
  "goiftrue e line = obind (discharge_vars e line) (\<lambda>e.
     obind (case ec_kind e of
         EK_K \<Rightarrow> oret (e, NO_JUMP) | EK_KNum \<Rightarrow> oret (e, NO_JUMP) | EK_True \<Rightarrow> oret (e, NO_JUMP)
       | EK_False \<Rightarrow> obind (jump_to line) (\<lambda>pc. oret (e, pc))
       | EK_Jmp \<Rightarrow> othen (invertjump e) (oret (e, ec_info e))
       | _ \<Rightarrow> jumponcond e False line) (\<lambda>(e, pc).
     obind (concat_jumps (ec_f e) pc) (\<lambda>f. othen (patch_to_here (ec_t e)) (oret (e\<lparr>ec_f := f, ec_t := NO_JUMP\<rparr>)))))"

definition goiffalse :: "ExprContext \<Rightarrow> u32 \<Rightarrow> ExprContext cop" where
  "goiffalse e line = obind (discharge_vars e line) (\<lambda>e.
     obind (case ec_kind e of
         EK_Nil \<Rightarrow> oret (e, NO_JUMP) | EK_False \<Rightarrow> oret (e, NO_JUMP)
       | EK_True \<Rightarrow> obind (jump_to line) (\<lambda>pc. oret (e, pc))
       | EK_Jmp \<Rightarrow> oret (e, ec_info e)
       | _ \<Rightarrow> jumponcond e True line) (\<lambda>(e, pc).
     obind (concat_jumps (ec_t e) pc) (\<lambda>t. othen (patch_to_here (ec_f e)) (oret (e\<lparr>ec_t := t, ec_f := NO_JUMP\<rparr>)))))"

definition compile_condition :: "ExprContext \<Rightarrow> u32 \<Rightarrow> i32 cop" where
  "compile_condition e line = obind (goiftrue (if ec_kind e = EK_Nil then e\<lparr>ec_kind := EK_False\<rparr> else e) line) (\<lambda>e. oret (ec_f e))"

definition set_multret :: "ExprContext \<Rightarrow> ExprContext cop" where
  "set_multret e = (if ec_kind e = EK_Call then othen (on_instruction (as_usize (ec_info e)) (set_c 0)) (oret e)
     else if ec_kind e = EK_VarArg then obind (oget c_free) (\<lambda>r.
       othen (on_instruction (as_usize (ec_info e)) (\<lambda>i. set_a r (set_b 0 i)))
         (othen (attempt (reserve_regs 1)) (oret (e\<lparr>ec_kind := EK_Relocable\<rparr>))))
     else oret e)"

section \<open>Operators\<close>

definition set_indexed :: "ExprContext \<Rightarrow> ExprContext \<Rightarrow> u32 \<Rightarrow> ExprContext cop" where
  "set_indexed table key line = obind (exp2rk key line) (\<lambda>(key, rk). oret (table\<lparr>ec_aux := rk, ec_kind := EK_Indexed\<rparr>))"

definition code_self :: "ExprContext \<Rightarrow> ExprContext \<Rightarrow> u32 \<Rightarrow> ExprContext cop" where
  "code_self e key line = obind (exp2anyreg e line) (\<lambda>e. othen (free_expr e) (obind (oget c_free) (\<lambda>func.
     othen (reserve_regs 2) (obind (exp2rk key line) (\<lambda>(key, rk).
       othen (emit_abc Op_OpSelf func (ec_info e) rk line) (othen (free_expr key)
         (oret (e\<lparr>ec_info := func, ec_kind := EK_NonReloc\<rparr>))))))))"

text \<open>\<open>None\<close> for an operation that is not folded.\<close>

definition fold_value :: "platform \<Rightarrow> OpCode \<Rightarrow> f64 \<Rightarrow> f64 \<Rightarrow> f64 option" where
  "fold_value P op v1 v2 = (case op of
     Op_Add \<Rightarrow> Some (f64_add v1 v2)
   | Op_Sub \<Rightarrow> Some (f64_sub v1 v2)
   | Op_Mul \<Rightarrow> Some (f64_mul v1 v2)
   | Op_Div \<Rightarrow> if f64_eq v2 0 then None else Some (f64_div v1 v2)
   | Op_Mod \<Rightarrow> if f64_eq v2 0 then None else Some (f64_mul_add (f64_floor (f64_div v1 v2)) (f64_neg v2) v1)
   | Op_Pow \<Rightarrow> Some (p_pow P v1 v2)
   | Op_Unm \<Rightarrow> Some (f64_neg v1)
   | _ \<Rightarrow> None)"

definition const_fold :: "platform \<Rightarrow> OpCode \<Rightarrow> ExprContext \<Rightarrow> ExprContext \<Rightarrow> ExprContext option" where
  "const_fold P op e1 e2 = (if \<not> is_numeral e1 \<or> \<not> is_numeral e2 then None
     else case fold_value P op (ec_nval e1) (ec_nval e2) of
       None \<Rightarrow> None
     | Some r \<Rightarrow> if is_nan r then None else Some (e1\<lparr>ec_nval := r\<rparr>))"

definition code_op :: "OpCode \<Rightarrow> ExprContext \<Rightarrow> u32 \<Rightarrow> u32 \<Rightarrow> u32 \<Rightarrow> ExprContext cop" where
  "code_op op e1 b c line = relocable e1 (emit_abc op 0 b c line)"

definition code_arith :: "platform \<Rightarrow> OpCode \<Rightarrow> ExprContext \<Rightarrow> ExprContext \<Rightarrow> u32 \<Rightarrow> ExprContext cop" where
  "code_arith P op e1 e2 line = (case const_fold P op e1 e2 of Some e \<Rightarrow> oret e | None \<Rightarrow>
     if op = Op_Concat then obind (exp2nextreg e2 line) (\<lambda>e2. obind (exp2anyreg e1 line) (\<lambda>e1.
       othen (free_expr e2) (othen (free_expr e1) (code_op op e1 (ec_info e1) (ec_info e2) line))))
     else if op = Op_Unm \<or> op = Op_Not \<or> op = Op_Len then obind (exp2anyreg e1 line) (\<lambda>e1.
       othen (free_expr e2) (othen (free_expr e1) (code_op op e1 (ec_info e1) 0 line)))
     else obind (exp2rk e2 line) (\<lambda>(e2, c). obind (exp2rk e1 line) (\<lambda>(e1, b).
       othen (free_expr e2) (othen (free_expr e1) (code_op op e1 b c line)))))"

definition code_comp :: "OpCode \<Rightarrow> u32 \<Rightarrow> ExprContext \<Rightarrow> ExprContext \<Rightarrow> u32 \<Rightarrow> ExprContext cop" where
  "code_comp op cond e1 e2 line = obind (exp2rk e1 line) (\<lambda>(e1, b). obind (exp2rk e2 line) (\<lambda>(e2, c).
     othen (free_expr e2) (othen (free_expr e1)
       (othen (if cond = 0 \<and> op \<noteq> Op_Eq then emit_abc op 1 c b line else emit_abc op cond b c line)
         (obind (emit_jump line) (\<lambda>jmp.
           oret (e1\<lparr>ec_info := word_of_nat jmp, ec_kind := EK_Jmp, ec_t := NO_JUMP, ec_f := NO_JUMP\<rparr>)))))))"

definition infix_op :: "BinOp \<Rightarrow> ExprContext \<Rightarrow> u32 \<Rightarrow> ExprContext cop" where
  "infix_op op e line = (case op of
     B_And \<Rightarrow> goiftrue e line
   | B_Or \<Rightarrow> goiffalse e line
   | B_Concat \<Rightarrow> exp2nextreg e line
   | _ \<Rightarrow> if is_numeral e then oret e else obind (exp2rk e line) (\<lambda>r. oret (fst r)))"

definition concat_right :: "platform \<Rightarrow> ExprContext \<Rightarrow> ExprContext \<Rightarrow> u32 \<Rightarrow> ExprContext cop" where
  "concat_right P e1 e2 line = obind (exp2nextreg e2 line) (\<lambda>e2. code_arith P Op_Concat e1 e2 line)"

definition postfix_concat :: "platform \<Rightarrow> ExprContext \<Rightarrow> ExprContext \<Rightarrow> u32 \<Rightarrow> ExprContext cop" where
  "postfix_concat P e1 e2 line = obind (exp2val e2 line) (\<lambda>e2.
     if ec_kind e2 = EK_Relocable then obind (get_instruction (as_usize (ec_info e2))) (\<lambda>i.
       if ins_opcode i = Op_Concat
       then othen (free_expr e1) (othen (on_instruction (as_usize (ec_info e2)) (set_b (ec_info e1)))
         (oret (e1\<lparr>ec_kind := EK_Relocable, ec_info := ec_info e2\<rparr>)))
       else concat_right P e1 e2 line)
     else concat_right P e1 e2 line)"

definition postfix_op :: "platform \<Rightarrow> BinOp \<Rightarrow> ExprContext \<Rightarrow> ExprContext \<Rightarrow> u32 \<Rightarrow> ExprContext cop" where
  "postfix_op P op e1 e2 line = (case op of
     B_And \<Rightarrow> obind (discharge_vars e2 line) (\<lambda>e2. obind (concat_jumps (ec_f e2) (ec_f e1)) (\<lambda>f. oret (e2\<lparr>ec_f := f\<rparr>)))
   | B_Or \<Rightarrow> obind (discharge_vars e2 line) (\<lambda>e2. obind (concat_jumps (ec_t e2) (ec_t e1)) (\<lambda>t. oret (e2\<lparr>ec_t := t\<rparr>)))
   | B_Concat \<Rightarrow> postfix_concat P e1 e2 line
   | B_Add \<Rightarrow> code_arith P Op_Add e1 e2 line | B_Sub \<Rightarrow> code_arith P Op_Sub e1 e2 line
   | B_Mul \<Rightarrow> code_arith P Op_Mul e1 e2 line | B_Div \<Rightarrow> code_arith P Op_Div e1 e2 line
   | B_Mod \<Rightarrow> code_arith P Op_Mod e1 e2 line | B_Pow \<Rightarrow> code_arith P Op_Pow e1 e2 line
   | B_Eq \<Rightarrow> code_comp Op_Eq 1 e1 e2 line | B_Ne \<Rightarrow> code_comp Op_Eq 0 e1 e2 line
   | B_Lt \<Rightarrow> code_comp Op_Lt 1 e1 e2 line | B_Le \<Rightarrow> code_comp Op_Le 1 e1 e2 line
   | B_Gt \<Rightarrow> code_comp Op_Lt 0 e1 e2 line | B_Ge \<Rightarrow> code_comp Op_Le 0 e1 e2 line)"

definition code_not :: "ExprContext \<Rightarrow> u32 \<Rightarrow> ExprContext cop" where
  "code_not e line = obind (discharge_vars e line) (\<lambda>e.
     obind (case ec_kind e of
         EK_Nil \<Rightarrow> oret (e\<lparr>ec_kind := EK_True\<rparr>) | EK_False \<Rightarrow> oret (e\<lparr>ec_kind := EK_True\<rparr>)
       | EK_K \<Rightarrow> oret (e\<lparr>ec_kind := EK_False\<rparr>) | EK_KNum \<Rightarrow> oret (e\<lparr>ec_kind := EK_False\<rparr>)
       | EK_True \<Rightarrow> oret (e\<lparr>ec_kind := EK_False\<rparr>)
       | EK_Jmp \<Rightarrow> othen (invertjump e) (oret e)
       | EK_Relocable \<Rightarrow> obind (discharge2anyreg e line) (\<lambda>e. othen (free_expr e) (code_op Op_Not e (ec_info e) 0 line))
       | EK_NonReloc \<Rightarrow> obind (discharge2anyreg e line) (\<lambda>e. othen (free_expr e) (code_op Op_Not e (ec_info e) 0 line))
       | _ \<Rightarrow> oret e) (\<lambda>e.
     othen (remove_values (ec_t e)) (othen (remove_values (ec_f e)) (oret (e\<lparr>ec_t := ec_f e, ec_f := ec_t e\<rparr>)))))"

definition prefix_op :: "platform \<Rightarrow> UnOp \<Rightarrow> ExprContext \<Rightarrow> u32 \<Rightarrow> ExprContext cop" where
  "prefix_op P op e line = (case op of
     U_Neg \<Rightarrow> obind (if ec_kind e = EK_K then exp2anyreg e line else oret e) (\<lambda>e. code_arith P Op_Unm e (expr_number 0) line)
   | U_Not \<Rightarrow> code_not e line
   | U_Len \<Rightarrow> obind (exp2anyreg e line) (\<lambda>e. code_arith P Op_Len e (expr_number 0) line))"

section \<open>Table constructors\<close>

definition code_setlist :: "u32 \<Rightarrow> u32 \<Rightarrow> u32 \<Rightarrow> u32 \<Rightarrow> unit cop" where
  "code_setlist base nelems tostore line = (let c = (nelems - 1) div LFIELDS_PER_FLUSH + 1 in
     othen (if c \<le> MAXARG_C then emit_abc Op_SetList base tostore c line
       else othen (emit_abc Op_SetList base tostore 0 line) (emit (Instruction c) line))
     (set_free_reg (ucast (base + 1))))"

text \<open>Halving and rounding up makes a value from sixteen on smaller, also the largest, whose sum wraps.\<close>

lemma fb_shift_less: "\<not> x < 16 \<Longrightarrow> unat (drop_bit 1 (x + 1 :: u32)) < unat x"
proof -
  assume x: "\<not> x < 16"
  have "unat (drop_bit 1 (x + 1)) = unat (x + 1) div 2" by (simp add: drop_bit_eq_div unat_div)
  moreover have "unat (x + 1) \<le> unat x + 1" using word_of_nat_less_eq_iff by (metis One_nat_def add.right_neutral add_Suc_right unat_1 unat_word_ariths(1) mod_less_eq_dividend)
  moreover have "16 \<le> unat x" using x by (simp add: word_less_nat_alt)
  ultimately show ?thesis by linarith
qed

text \<open>\<open>luaO_int2fb\<close>.\<close>

function fb_shift :: "u32 \<Rightarrow> u32 \<Rightarrow> u32 \<times> u32" where
  "fb_shift x e = (if x < 16 then (x, e) else fb_shift (drop_bit 1 (x + 1)) (e + 1))"
  by auto

termination by (relation "measure (\<lambda>(x, e). unat x)") (use fb_shift_less in auto)

declare fb_shift.simps [simp del]

definition int2fb :: "u32 \<Rightarrow> u32" where
  "int2fb x = (if x < 8 then x else case fb_shift x 0 of (y, e) \<Rightarrow> push_bit 3 (e + 1) OR (y - 8))"

end
