(* ===== verification/Compile.thy ===== *)
theory Compile
  imports CodeExpr
begin

text \<open>
  The upper layer of \<^verbatim>\<open>src/compiler/codegen.rs\<close>: function bodies, calls, table constructors,
  statements, and the compilation of a syntax tree to a prototype. The code of a statement
  or an expression takes the codes of its parts as arguments, so the compilation is one
  recursion over the tree.
\<close>

section \<open>Functions\<close>

definition enter_function :: "rstring \<Rightarrow> unit cop" where
  "enter_function source = (case func_state_new source of
     None \<Rightarrow> ofail FPanic
   | Some f \<Rightarrow> omod (\<lambda>c. c\<lparr>cc_fs := f, cc_outer := cc_fs c # cc_outer c\<rparr>))"

definition function_proto :: "FuncState \<Rightarrow> Proto" where
  "function_proto f = proto_of ((cf_proto f)\<lparr>cp_upvalue_names := map ux_name (cf_upvalues f)\<rparr>)"

definition end_function :: "unit cop" where
  "end_function = obind (oget cc_current_line) (\<lambda>line. othen (emit_abc Op_Return 0 1 0 line) (remove_locals 0))"

text \<open>The state of the inner function gives way to its parent, which the caller needs next.\<close>

definition leave_function :: "Proto cop" where
  "leave_function = othen end_function (obind (oget cc_fs) (\<lambda>f. obind (oget cc_outer) (\<lambda>outer. case outer of
     [] \<Rightarrow> ofail FPanic
   | p # rest \<Rightarrow> othen (omod (\<lambda>c. c\<lparr>cc_fs := p, cc_outer := rest\<rparr>)) (oret (function_proto f)))))"

definition finish_main :: "Proto cop" where
  "finish_main = othen end_function (obind (oget cc_fs) (\<lambda>f. oret (function_proto f)))"

primrec compile_block :: "unit cop list \<Rightarrow> unit cop" where
  "compile_block [] = oret ()"
| "compile_block (s # ss) = othen s (othen reset_free (compile_block ss))"

definition compile_block_scoped :: "unit cop list \<Rightarrow> unit cop" where
  "compile_block_scoped block = othen (enter_block False) (othen (compile_block block) leave_block)"

definition set_line :: "u32 \<Rightarrow> unit cop" where "set_line line = omod (\<lambda>c. c\<lparr>cc_current_line := line\<rparr>)"

definition new_locals :: "rstring list \<Rightarrow> unit cop" where
  "new_locals names = foldr (\<lambda>name m. othen (new_local name) m) names (oret ())"

definition capture_upvals :: "UpvalDesc list \<Rightarrow> u32 \<Rightarrow> unit cop" where
  "capture_upvals uvs line = foldr (\<lambda>uv m. othen (emit_abc (if ux_in_stack uv then Op_Move else Op_GetUpval) 0 (ucast (ux_index uv)) 0 line) m)
     uvs (oret ())"

definition declare_varargs :: "bool \<Rightarrow> rstring list \<Rightarrow> unit cop" where
  "declare_varargs has_varargs params =
    (if has_varargs \<and> ascii ''arg'' \<in> set params then on_proto (\<lambda>p. p\<lparr>cp_is_vararg := VARARG_ISVARARG\<rparr>)
     else if has_varargs then othen (on_proto (\<lambda>p. p\<lparr>cp_is_vararg := VARARG_HASARG OR VARARG_ISVARARG OR VARARG_NEEDSARG\<rparr>))
       (othen (new_local (ascii ''arg'')) (activate_locals 1))
     else oret ())"

definition declare_params :: "bool \<Rightarrow> rstring list \<Rightarrow> bool \<Rightarrow> unit cop" where
  "declare_params need_self params has_varargs =
     othen (only_if need_self (othen (new_local (ascii ''self'')) (activate_locals 1)))
    (othen (new_locals params)
    (othen (activate_locals (word_of_nat (length params)))
    (othen (on_proto (\<lambda>p. p\<lparr>cp_num_params := word_of_nat (length params) + (if need_self then 1 else 0)\<rparr>))
    (othen (declare_varargs has_varargs params)
    (obind (oget c_active) reserve_regs)))))"

definition add_closure :: "Proto \<Rightarrow> UpvalDesc list \<Rightarrow> u32 \<Rightarrow> ExprContext cop" where
  "add_closure proto uvs line = obind (oget (\<lambda>c. length (cp_protos (cf_proto (cc_fs c))))) (\<lambda>idx.
     othen (on_proto (\<lambda>p. p\<lparr>cp_protos := cp_protos p @ [proto]\<rparr>))
       (obind (emit_abx Op_Closure 0 (word_of_nat idx) line) (\<lambda>pc.
         othen (capture_upvals uvs line) (oret (expr_new EK_Relocable (word_of_nat pc))))))"

definition compile_funcbody :: "rstring list \<Rightarrow> bool \<Rightarrow> unit cop list \<Rightarrow> u32 \<Rightarrow> bool \<Rightarrow> u32 \<Rightarrow> ExprContext cop" where
  "compile_funcbody params has_varargs body end_line need_self line =
     obind (oget cc_source_name) (\<lambda>source. othen (enter_function source)
    (othen (on_proto (\<lambda>p. p\<lparr>cp_line_defined := line\<rparr>))
    (othen (declare_params need_self params has_varargs)
    (othen (compile_block body)
    (othen (on_proto (\<lambda>p. p\<lparr>cp_last_line_defined := end_line\<rparr>))
    (othen (set_line end_line)
    (obind (oget (\<lambda>c. cf_upvalues (cc_fs c))) (\<lambda>uvs. obind leave_function (\<lambda>proto. add_closure proto uvs line)))))))))"

section \<open>Lists of expressions\<close>

primrec compile_exprlist_from :: "nat \<Rightarrow> ExprContext cop \<Rightarrow> ExprContext cop list \<Rightarrow> u32 \<Rightarrow> (nat \<times> ExprContext) cop" where
  "compile_exprlist_from n m [] line = obind m (\<lambda>e. oret (Suc n, e))"
| "compile_exprlist_from n m (m' # ms) line = obind m (\<lambda>e. obind (exp2nextreg e line) (\<lambda>_.
     compile_exprlist_from (Suc n) m' ms line))"

definition compile_exprlist :: "ExprContext cop list \<Rightarrow> u32 \<Rightarrow> (nat \<times> ExprContext) cop" where
  "compile_exprlist ms line = (case ms of [] \<Rightarrow> oret (0, expr_void) | m # ms \<Rightarrow> compile_exprlist_from 0 m ms line)"

definition multi_kind :: "ExprContext \<Rightarrow> bool" where "multi_kind e \<longleftrightarrow> ec_kind e = EK_Call \<or> ec_kind e = EK_VarArg"

definition set_results :: "ExprContext \<Rightarrow> int \<Rightarrow> unit cop" where
  "set_results e needed =
     othen (if needed < 0 then othen (set_one_ret e) (oret ())
       else if ec_kind e = EK_Call then on_instruction (as_usize (ec_info e)) (set_c (word_of_int (needed + 1)))
       else obind (oget c_free) (\<lambda>r. othen (on_instruction (as_usize (ec_info e)) (\<lambda>i. set_a r (set_b (word_of_int (needed + 1)) i)))
         (reserve_regs 1)))
     (only_if (1 < needed) (reserve_regs (word_of_int (needed - 1))))"

definition adjust_assign :: "nat \<Rightarrow> nat \<Rightarrow> ExprContext \<Rightarrow> u32 \<Rightarrow> unit cop" where
  "adjust_assign nvars nexps e line = (let extra = int nvars - int nexps in
     if multi_kind e then set_results e (extra + 1)
     else othen (only_if (ec_kind e \<noteq> EK_Void) (othen (exp2nextreg e line) (oret ())))
       (only_if (0 < extra) (obind (oget c_free) (\<lambda>reg.
         othen (reserve_regs (word_of_int extra)) (emit_nil reg (word_of_int extra) line)))))"

definition finish_call_code :: "ExprContext \<Rightarrow> u32 \<Rightarrow> u32 \<Rightarrow> ExprContext cop" where
  "finish_call_code func b line = obind (emit_abc Op_Call (ec_info func) b 2 line) (\<lambda>pc.
     othen (set_free_reg (ucast (ec_info func + 1))) (oret (func\<lparr>ec_info := word_of_nat pc, ec_kind := EK_Call\<rparr>)))"

definition counted_call :: "ExprContext \<Rightarrow> u32 \<Rightarrow> ExprContext cop" where
  "counted_call func line = obind (oget c_free) (\<lambda>r. finish_call_code func (r - (ec_info func + 1) + 1) line)"

fun compile_funcargs :: "ExprContext \<Rightarrow> ExprContext cop list \<Rightarrow> u32 \<Rightarrow> ExprContext cop" where
  "compile_funcargs func [] line = counted_call func line"
| "compile_funcargs func [m] line = obind m (\<lambda>e. if multi_kind e
     then othen (set_multret e) (finish_call_code func 0 line)
     else othen (exp2nextreg e line) (counted_call func line))"
| "compile_funcargs func (m # ms) line = obind m (\<lambda>e. othen (exp2nextreg e line) (compile_funcargs func ms line))"

section \<open>Table constructors\<close>

text \<open>The code of a field; that of a list item tells whether the item can give many values.\<close>

datatype field_code = FC_Value bool "ExprContext cop" | FC_Name rstring "ExprContext cop" | FC_Index "ExprContext cop" "ExprContext cop"

definition is_value_field :: "field_code \<Rightarrow> bool" where
  "is_value_field f = (case f of FC_Value _ _ \<Rightarrow> True | _ \<Rightarrow> False)"

definition store_field :: "u32 \<Rightarrow> ExprContext cop \<Rightarrow> ExprContext cop \<Rightarrow> u32 \<Rightarrow> unit cop" where
  "store_field table key val line = obind key (\<lambda>k. obind (exp2rk k line) (\<lambda>(k, key_rk). obind val (\<lambda>v. obind (exp2rk v line) (\<lambda>(v, val_rk).
     othen (emit_abc Op_SetTable table key_rk val_rk line) (othen (free_expr v) (free_expr k))))))"

text \<open>The sizes are the items stored in the array part, the fields of the hash part and the items not yet flushed.\<close>

fun compile_fields :: "u32 \<Rightarrow> field_code list \<Rightarrow> u32 \<Rightarrow> u32 \<Rightarrow> u32 \<Rightarrow> u32 \<Rightarrow> (u32 \<times> u32 \<times> u32) cop" where
  "compile_fields table [] na nh tostore line = oret (na, nh, tostore)"
| "compile_fields table (FC_Value multi m # fs) na nh tostore line = obind m (\<lambda>e.
     if list_all (\<lambda>f. \<not> is_value_field f) fs \<and> multi
     then othen (set_multret e) (othen (code_setlist table (na + 1) 0 line) (compile_fields table fs na nh 0 line))
     else othen (exp2nextreg e line)
       (if LFIELDS_PER_FLUSH \<le> tostore + 1
        then othen (code_setlist table (na + 1) (tostore + 1) line) (compile_fields table fs (na + 1) nh 0 line)
        else compile_fields table fs (na + 1) nh (tostore + 1) line))"
| "compile_fields table (FC_Name name m # fs) na nh tostore line =
     othen (store_field table (obind (string_constant name) (\<lambda>k. oret (expr_new EK_K k))) m line)
       (compile_fields table fs na (nh + 1) tostore line)"
| "compile_fields table (FC_Index k m # fs) na nh tostore line =
     othen (store_field table k m line) (compile_fields table fs na (nh + 1) tostore line)"

definition compile_table_ctor :: "field_code list \<Rightarrow> u32 \<Rightarrow> ExprContext cop" where
  "compile_table_ctor items line = obind (emit_abc Op_NewTable 0 0 0 line) (\<lambda>pc.
     obind (exp2nextreg (expr_new EK_Relocable (word_of_nat pc)) line) (\<lambda>t.
     obind (compile_fields (ec_info t) items 0 0 0 line) (\<lambda>(na, nh, tostore).
     othen (only_if (0 < tostore) (code_setlist (ec_info t) na tostore line))
       (othen (on_instruction pc (\<lambda>i. set_c (int2fb nh) (set_b (int2fb na) i))) (oret t)))))"

definition is_multret_expr :: "Expr \<Rightarrow> bool" where
  "is_multret_expr e = (case e of E_Call _ _ _ \<Rightarrow> True | E_MethodCall _ _ _ _ \<Rightarrow> True | E_VarArg _ \<Rightarrow> True | _ \<Rightarrow> False)"

section \<open>Statements\<close>

definition is_place :: "ExprContext \<Rightarrow> bool" where
  "is_place e \<longleftrightarrow> ec_kind e = EK_Local \<or> ec_kind e = EK_Upval \<or> ec_kind e = EK_Global \<or> ec_kind e = EK_Indexed"

primrec compile_targets :: "ExprContext cop list \<Rightarrow> u32 \<Rightarrow> ExprContext list cop" where
  "compile_targets [] line = oret []"
| "compile_targets (m # ms) line = obind m (\<lambda>e. if is_place e
     then obind (compile_targets ms line) (\<lambda>es. oret (e # es))
     else obind (oget cc_source_name) (\<lambda>source.
       ofail (FSyntax (SyntaxError (ascii ''invalid assignment target'') source line None))))"

definition clashes :: "i32 \<Rightarrow> ExprContext \<Rightarrow> bool" where
  "clashes local_reg e \<longleftrightarrow> ec_kind e = EK_Indexed \<and> (ec_info e = local_reg \<or> (ec_aux e AND 256 = 0 \<and> ec_aux e = local_reg))"

definition redirect :: "i32 \<Rightarrow> i32 \<Rightarrow> ExprContext \<Rightarrow> ExprContext" where
  "redirect local_reg extra e = (if ec_kind e = EK_Indexed
     then e\<lparr>ec_info := (if ec_info e = local_reg then extra else ec_info e),
       ec_aux := (if ec_aux e AND 256 = 0 \<and> ec_aux e = local_reg then extra else ec_aux e)\<rparr>
     else e)"

text \<open>The targets passed are kept in order; a local target is checked against them.\<close>

primrec check_conflict :: "ExprContext list \<Rightarrow> ExprContext list \<Rightarrow> u32 \<Rightarrow> ExprContext list cop" where
  "check_conflict passed [] line = oret passed"
| "check_conflict passed (t # ts) line = (if ec_kind t = EK_Local
     then obind (oget c_free) (\<lambda>extra.
       othen (only_if (list_ex (clashes (ec_info t)) passed)
           (othen (emit_abc Op_Move extra (ec_info t) 0 line) (reserve_regs 1)))
         (check_conflict (map (redirect (ec_info t) extra) passed @ [t]) ts line))
     else check_conflict (passed @ [t]) ts line)"

primrec store_targets :: "ExprContext list \<Rightarrow> u32 \<Rightarrow> unit cop" where
  "store_targets [] line = oret ()"
| "store_targets (t # ts) line = obind (oget c_free) (\<lambda>r. othen (storevar t (expr_new EK_NonReloc (r - 1)) line) (store_targets ts line))"

definition compile_assign :: "ExprContext cop list \<Rightarrow> ExprContext cop list \<Rightarrow> u32 \<Rightarrow> unit cop" where
  "compile_assign targets values line = obind (compile_targets targets line) (\<lambda>ts. obind (check_conflict [] ts line) (\<lambda>ts.
     obind (compile_exprlist values line) (\<lambda>(nexps, e). let nvars = length targets in
       if nexps = nvars then obind (set_one_ret e) (\<lambda>e.
         if ts = [] then ofail FPanic else othen (storevar (last ts) e line) (store_targets (rev (butlast ts)) line))
       else othen (adjust_assign nvars nexps e line)
         (othen (only_if (nvars < nexps) (on_fs (\<lambda>f. f\<lparr>cf_free_reg := cf_free_reg f - word_of_nat (nexps - nvars)\<rparr>)))
           (store_targets (rev ts) line)))))"

definition compile_local_decl :: "rstring list \<Rightarrow> ExprContext cop list \<Rightarrow> u32 \<Rightarrow> unit cop" where
  "compile_local_decl names values line = othen (new_locals names)
     (othen (if values = [] then adjust_assign (length names) 0 expr_void line
         else obind (compile_exprlist values line) (\<lambda>(nexps, e). adjust_assign (length names) nexps e line))
       (activate_locals (word_of_nat (length names))))"

definition condition_exit :: "ExprContext cop \<Rightarrow> u32 \<Rightarrow> i32 cop" where
  "condition_exit cond cond_line = obind cond (\<lambda>e. compile_condition e cond_line)"

definition jump_here :: "i32 cop" where "jump_here = obind (oget cc_current_line) jump_to"

definition compile_while :: "ExprContext cop \<Rightarrow> u32 \<Rightarrow> unit cop list \<Rightarrow> u32 \<Rightarrow> unit cop" where
  "compile_while cond cond_line body end_line = obind get_label (\<lambda>whileinit. obind (condition_exit cond cond_line) (\<lambda>condexit.
     othen (enter_block True) (othen (compile_block body) (obind jump_here (\<lambda>jmp.
       othen (patch_list jmp whileinit) (othen leave_block (othen (patch_to_here condexit) (set_line end_line))))))))"

definition loop_level :: "BlockContext list \<Rightarrow> u32" where
  "loop_level bs = (case find bk_is_breakable bs of None \<Rightarrow> 0 | Some b \<Rightarrow> ucast (bk_num_active_vars b))"

definition break_out :: "u32 \<Rightarrow> unit cop" where
  "break_out line = obind (jump_to line) add_break_jump"

definition repeat_with_upvalues :: "i32 \<Rightarrow> nat \<Rightarrow> u32 \<Rightarrow> unit cop" where
  "repeat_with_upvalues condexit repeat_init line = obind (oget (\<lambda>c. loop_level (cf_blocks (cc_fs c)))) (\<lambda>level.
     othen (emit_abc Op_Close level 0 0 line) (othen (break_out line) (othen (patch_to_here condexit) (othen leave_block
       (obind (jump_to line) (\<lambda>back. patch_list back repeat_init))))))"

definition compile_repeat :: "unit cop list \<Rightarrow> ExprContext cop \<Rightarrow> u32 \<Rightarrow> u32 \<Rightarrow> unit cop" where
  "compile_repeat body cond cond_line line = obind get_label (\<lambda>repeat_init.
     othen (enter_block True) (othen (enter_block False) (othen (compile_block body)
       (obind (condition_exit cond cond_line) (\<lambda>condexit.
         obind (oget (\<lambda>c. case cf_blocks (cc_fs c) of [] \<Rightarrow> False | b # _ \<Rightarrow> bk_has_upval b)) (\<lambda>up.
         othen (if up then repeat_with_upvalues condexit repeat_init line
           else othen leave_block (patch_list condexit repeat_init)) leave_block))))))"

text \<open>The clauses of a conditional, each the code of a condition, its line and a body; the result is the list of escapes.\<close>

fun compile_clauses :: "i32 \<Rightarrow> i32 \<Rightarrow> (ExprContext cop \<times> u32 \<times> unit cop list) list \<Rightarrow> (i32 \<times> i32) cop" where
  "compile_clauses escape flist [] = oret (escape, flist)"
| "compile_clauses escape flist ((cond, line, body) # cs) = obind jump_here (\<lambda>jmp. obind (concat_jumps escape jmp) (\<lambda>escape.
     othen (patch_to_here flist) (obind (condition_exit cond line) (\<lambda>flist.
       othen (compile_block_scoped body) (compile_clauses escape flist cs)))))"

definition compile_if :: "(ExprContext cop \<times> u32) list \<Rightarrow> unit cop list list \<Rightarrow> unit cop list option \<Rightarrow> u32 \<Rightarrow> unit cop" where
  "compile_if conds bodies else_body end_line =
    (if conds = [] \<or> length bodies < length conds then ofail FPanic
     else obind (condition_exit (fst (hd conds)) (snd (hd conds))) (\<lambda>flist. othen (compile_block_scoped (hd bodies))
       (obind (compile_clauses NO_JUMP flist (map (\<lambda>((c, l), b). (c, l, b)) (zip (tl conds) (tl bodies)))) (\<lambda>(escape, flist).
       obind (case else_body of
           Some body \<Rightarrow> obind jump_here (\<lambda>jmp. obind (concat_jumps escape jmp) (\<lambda>escape.
             othen (patch_to_here flist) (othen (compile_block_scoped body) (oret escape))))
         | None \<Rightarrow> concat_jumps escape flist) (\<lambda>escape.
       othen (patch_to_here escape) (set_line end_line))))))"

definition into_next :: "ExprContext cop \<Rightarrow> u32 \<Rightarrow> unit cop" where
  "into_next m line = obind m (\<lambda>e. othen (exp2nextreg e line) (oret ()))"

definition load_step :: "ExprContext cop option \<Rightarrow> u32 \<Rightarrow> unit cop" where
  "load_step step line = (case step of
     Some m \<Rightarrow> into_next m line
   | None \<Rightarrow> obind (number_constant 0x3FF0000000000000) (\<lambda>k. obind (oget c_free) (\<lambda>reg.
       othen (emit_abx Op_LoadK reg k line) (reserve_regs 1))))"

definition compile_numeric_for :: "rstring \<Rightarrow> ExprContext cop \<Rightarrow> ExprContext cop \<Rightarrow> ExprContext cop option \<Rightarrow> unit cop list
    \<Rightarrow> u32 \<Rightarrow> u32 \<Rightarrow> unit cop" where
  "compile_numeric_for name start stop step body line end_line = othen (enter_block True) (obind (oget c_free) (\<lambda>base.
     othen (new_locals [ascii ''(for index)'', ascii ''(for limit)'', ascii ''(for step)'', name])
    (othen (into_next start line) (othen (into_next stop line) (othen (load_step step line)
    (othen (activate_locals 3) (obind (emit_asbx Op_ForPrep base NO_JUMP line) (\<lambda>prep.
     othen (enter_block False) (othen (activate_locals 1) (othen (reserve_regs 1) (othen (compile_block body) (othen leave_block
    (othen (patch_to_here (word_of_nat prep)) (obind (emit_asbx Op_ForLoop base NO_JUMP line) (\<lambda>endfor.
     othen (patch_jump endfor (prep + 1)) (othen leave_block (set_line end_line)))))))))))))))))"

definition compile_generic_for :: "rstring list \<Rightarrow> ExprContext cop list \<Rightarrow> unit cop list \<Rightarrow> u32 \<Rightarrow> u32 \<Rightarrow> u32 \<Rightarrow> unit cop" where
  "compile_generic_for names iterators body line iter_line end_line = othen (enter_block True) (obind (oget c_free) (\<lambda>base.
     othen (new_locals [ascii ''(for generator)'', ascii ''(for state)'', ascii ''(for control)'']) (othen (new_locals names)
    (obind (compile_exprlist iterators line) (\<lambda>(nexps, e). othen (adjust_assign 3 nexps e line)
    (othen (check_stack 3) (othen (activate_locals 3) (obind (emit_jump line) (\<lambda>prep.
     othen (enter_block False) (othen (activate_locals (word_of_nat (length names)))
    (othen (reserve_regs (word_of_nat (length names))) (othen (compile_block body) (othen leave_block
    (othen (patch_to_here (word_of_nat prep)) (othen (emit_abc Op_TForLoop base 0 (word_of_nat (length names)) iter_line)
    (obind (emit_jump iter_line) (\<lambda>loop_jmp. othen (patch_jump loop_jmp (prep + 1)) (othen leave_block (set_line end_line)))))))))))))))))))"

definition index_by :: "u32 \<Rightarrow> ExprContext cop \<Rightarrow> rstring \<Rightarrow> ExprContext cop" where
  "index_by line var part = obind var (\<lambda>e. obind (exp2anyreg e line) (\<lambda>e. obind (string_constant part) (\<lambda>k.
     set_indexed e (expr_new EK_K k) line)))"

definition compile_func_decl :: "FuncName \<Rightarrow> (bool \<Rightarrow> u32 \<Rightarrow> ExprContext cop) \<Rightarrow> u32 \<Rightarrow> unit cop" where
  "compile_func_decl name body line = (if fname_parts name = [] then ofail FPanic else
     obind (foldl (index_by line) (resolve_var (hd (fname_parts name)))
         (tl (fname_parts name) @ (case fname_method name of None \<Rightarrow> [] | Some method_name \<Rightarrow> [method_name]))) (\<lambda>var.
       obind (body (fname_method name \<noteq> None) line) (\<lambda>func. storevar var func line)))"

definition compile_local_func :: "rstring \<Rightarrow> (bool \<Rightarrow> u32 \<Rightarrow> ExprContext cop) \<Rightarrow> u32 \<Rightarrow> unit cop" where
  "compile_local_func name body line = othen (new_local name) (othen (activate_locals 1)
     (obind (body False line) (\<lambda>func. obind (oget c_active) (\<lambda>active. othen (exp2reg func (active - 1) line) (oret ())))))"

definition return_open :: "ExprContext \<Rightarrow> u32 \<Rightarrow> unit cop" where
  "return_open e line = othen (set_multret e) (obind (oget c_active) (\<lambda>first.
     othen (emit_abc Op_Return first 0 0 line) (oret ())))"

definition tail_call :: "ExprContext \<Rightarrow> unit cop" where
  "tail_call e = only_if (ec_kind e = EK_Call) (obind (get_instruction (as_usize (ec_info e))) (\<lambda>i.
     only_if (ins_opcode i = Op_Call) (set_instruction (as_usize (ec_info e)) (abc Op_TailCall (ins_a i) (ins_b i) 0))))"

fun return_values :: "u32 \<Rightarrow> u32 \<Rightarrow> ExprContext cop list \<Rightarrow> u32 \<Rightarrow> unit cop" where
  "return_values base n [] line = othen (emit_abc Op_Return base (n + 1) 0 line) (oret ())"
| "return_values base n [m] line = obind m (\<lambda>e. if multi_kind e then return_open e line
     else othen (exp2nextreg e line) (othen (emit_abc Op_Return base (n + 1) 0 line) (oret ())))"
| "return_values base n (m # ms) line = obind m (\<lambda>e. othen (exp2nextreg e line) (return_values base n ms line))"

definition compile_return :: "ExprContext cop list \<Rightarrow> u32 \<Rightarrow> unit cop" where
  "compile_return values line = (case values of
     [] \<Rightarrow> othen (emit_abc Op_Return 0 1 0 line) (oret ())
   | [m] \<Rightarrow> obind m (\<lambda>e. if multi_kind e then othen (tail_call e) (return_open e line)
       else obind (exp2anyreg e line) (\<lambda>e. othen (emit_abc Op_Return (ec_info e) 2 0 line) (oret ())))
   | _ \<Rightarrow> obind (oget c_free) (\<lambda>base. return_values base (word_of_nat (length values)) values line))"

fun needs_close :: "BlockContext list \<Rightarrow> bool" where
  "needs_close [] = False"
| "needs_close (b # bs) = (bk_has_upval b \<or> (\<not> bk_is_breakable b \<and> needs_close bs))"

definition compile_break :: "u32 \<Rightarrow> unit cop" where
  "compile_break line = obind (oget (\<lambda>c. cf_blocks (cc_fs c))) (\<lambda>bs.
     othen (only_if (needs_close bs) (othen (emit_abc Op_Close (loop_level bs) 0 0 line) (oret ()))) (break_out line))"

definition compile_expr_stat :: "ExprContext cop \<Rightarrow> unit cop" where
  "compile_expr_stat m = obind m (\<lambda>e. only_if (ec_kind e = EK_Call) (on_instruction (as_usize (ec_info e)) (set_c 1)))"

section \<open>The tree\<close>

definition code_vararg :: "u32 \<Rightarrow> ExprContext cop" where
  "code_vararg line = othen (on_proto (\<lambda>p. p\<lparr>cp_is_vararg := cp_is_vararg p AND NOT VARARG_NEEDSARG\<rparr>))
     (obind (emit_abc Op_VarArg 0 1 0 line) (\<lambda>pc. oret (expr_new EK_VarArg (word_of_nat pc))))"

definition string_key :: "u8 list \<Rightarrow> ExprContext cop" where
  "string_key s = obind (string_constant s) (\<lambda>k. oret (expr_new EK_K k))"

definition code_index :: "ExprContext cop \<Rightarrow> ExprContext cop \<Rightarrow> u32 \<Rightarrow> ExprContext cop" where
  "code_index table key line = obind table (\<lambda>t. obind (exp2anyreg t line) (\<lambda>t. obind key (\<lambda>k. set_indexed t k line)))"

definition code_method_call :: "ExprContext cop \<Rightarrow> rstring \<Rightarrow> ExprContext cop list \<Rightarrow> u32 \<Rightarrow> ExprContext cop" where
  "code_method_call table name args line = obind table (\<lambda>t. obind (exp2anyreg t line) (\<lambda>obj. obind (string_key name) (\<lambda>key.
     obind (code_self obj key line) (\<lambda>obj. compile_funcargs obj args line))))"

definition code_call :: "ExprContext cop \<Rightarrow> ExprContext cop list \<Rightarrow> u32 \<Rightarrow> ExprContext cop" where
  "code_call func args line = obind func (\<lambda>f. obind (exp2nextreg f line) (\<lambda>f. compile_funcargs f args line))"

definition code_binop :: "platform \<Rightarrow> BinOp \<Rightarrow> ExprContext cop \<Rightarrow> ExprContext cop \<Rightarrow> u32 \<Rightarrow> ExprContext cop" where
  "code_binop P op left right line = obind left (\<lambda>e1. obind (infix_op op e1 line) (\<lambda>e1. obind right (\<lambda>e2. postfix_op P op e1 e2 line)))"

definition on_line :: "Span \<Rightarrow> (u32 \<Rightarrow> 'a cop) \<Rightarrow> 'a cop" where
  "on_line s m = othen (set_line (sp_line s)) (m (sp_line s))"

primrec compile_stat :: "platform \<Rightarrow> Stat \<Rightarrow> unit cop"
  and compile_expr :: "platform \<Rightarrow> Expr \<Rightarrow> ExprContext cop"
  and compile_field :: "platform \<Rightarrow> TableField \<Rightarrow> field_code"
  and compile_body :: "platform \<Rightarrow> FuncBody \<Rightarrow> bool \<Rightarrow> u32 \<Rightarrow> ExprContext cop" where
  "compile_stat P (S_Assign targets values s) = on_line s (compile_assign (map (compile_expr P) targets) (map (compile_expr P) values))"
| "compile_stat P (S_LocalDecl names values s) = on_line s (compile_local_decl names (map (compile_expr P) values))"
| "compile_stat P (S_Do body s end_line) = on_line s (\<lambda>_ c. (case compile_block_scoped (map (compile_stat P) body) c of
     (c1, r) \<Rightarrow> (c1\<lparr>cc_current_line := end_line\<rparr>, r)))"
| "compile_stat P (S_While cond body s end_line) = on_line s (\<lambda>_. compile_while (compile_expr P cond) (sp_line (expr_span cond))
     (map (compile_stat P) body) end_line)"
| "compile_stat P (S_Repeat body cond s) = on_line s (compile_repeat (map (compile_stat P) body) (compile_expr P cond)
     (sp_line (expr_span cond)))"
| "compile_stat P (S_If conds bodies else_body s end_line) = on_line s (\<lambda>_. compile_if
     (zip (map (compile_expr P) conds) (map (\<lambda>e. sp_line (expr_span e)) conds)) (map (map (compile_stat P)) bodies)
     (map_option (map (compile_stat P)) else_body) end_line)"
| "compile_stat P (S_NumericFor name start stop step body s end_line) = on_line s (\<lambda>line. compile_numeric_for name (compile_expr P start)
     (compile_expr P stop) (map_option (compile_expr P) step) (map (compile_stat P) body) line end_line)"
| "compile_stat P (S_GenericFor names iterators body iter_line s end_line) = on_line s (\<lambda>line. compile_generic_for names
     (map (compile_expr P) iterators) (map (compile_stat P) body) line iter_line end_line)"
| "compile_stat P (S_FuncDecl name body s) = on_line s (compile_func_decl name (compile_body P body))"
| "compile_stat P (S_LocalFunc name body s) = on_line s (compile_local_func name (compile_body P body))"
| "compile_stat P (S_Return values s) = on_line s (compile_return (map (compile_expr P) values))"
| "compile_stat P (S_Break s) = on_line s compile_break"
| "compile_stat P (S_ExprStat e s) = on_line s (\<lambda>_. compile_expr_stat (compile_expr P e))"
| "compile_expr P (E_Nil s) = on_line s (\<lambda>_. oret (expr_new EK_Nil 0))"
| "compile_expr P (E_True s) = on_line s (\<lambda>_. oret (expr_new EK_True 0))"
| "compile_expr P (E_False s) = on_line s (\<lambda>_. oret (expr_new EK_False 0))"
| "compile_expr P (E_Number n s) = on_line s (\<lambda>_. oret (expr_number n))"
| "compile_expr P (E_Str bytes s) = on_line s (\<lambda>_. string_key bytes)"
| "compile_expr P (E_VarArg s) = on_line s code_vararg"
| "compile_expr P (E_Name name s) = on_line s (\<lambda>_. resolve_var name)"
| "compile_expr P (E_BinOp op left right s) = on_line s (code_binop P op (compile_expr P left) (compile_expr P right))"
| "compile_expr P (E_UnOp op e s) = on_line s (\<lambda>line. obind (compile_expr P e) (\<lambda>x. prefix_op P op x line))"
| "compile_expr P (E_Index table key s) = on_line s (code_index (compile_expr P table) (compile_expr P key))"
| "compile_expr P (E_Field table name s) = on_line s (code_index (compile_expr P table) (string_key name))"
| "compile_expr P (E_MethodCall table name args s) = on_line s (code_method_call (compile_expr P table) name (map (compile_expr P) args))"
| "compile_expr P (E_Call func args s) = on_line s (code_call (compile_expr P func) (map (compile_expr P) args))"
| "compile_expr P (E_FuncDef body s) = on_line s (compile_body P body False)"
| "compile_expr P (E_TableCtor items s) = on_line s (compile_table_ctor (map (compile_field P) items))"
| "compile_expr P (E_Paren e s) = on_line s (\<lambda>line. obind (compile_expr P e) (\<lambda>x. discharge_vars x line))"
| "compile_field P (F_Index key val s) = FC_Index (compile_expr P key) (compile_expr P val)"
| "compile_field P (F_Name name val s) = FC_Name name (compile_expr P val)"
| "compile_field P (F_Value val s) = FC_Value (is_multret_expr val) (compile_expr P val)"
| "compile_body P (FuncBody params has_varargs body s end_line) =
     compile_funcbody params has_varargs (map (compile_stat P) body) end_line"

section \<open>Chunks\<close>

definition compile_main :: "platform \<Rightarrow> Stat list \<Rightarrow> rstring \<Rightarrow> (failure, Proto) res" where
  "compile_main P block name = (case compiler_new name of
     None \<Rightarrow> Inl FPanic
   | Some c \<Rightarrow> snd (othen (on_proto (\<lambda>p. p\<lparr>cp_is_vararg := 2, cp_num_params := 0\<rparr>))
       (othen (compile_block (map (compile_stat P) block)) finish_main) c))"

definition compile :: "platform \<Rightarrow> lex_env \<Rightarrow> u8 list \<Rightarrow> rstring \<Rightarrow> (failure, Proto) res" where
  "compile P E source name = res_bind (parse E source name) (\<lambda>block. compile_main P block name)"

definition compile_with_lexer :: "platform \<Rightarrow> lex_env \<Rightarrow> lexer \<Rightarrow> rstring \<Rightarrow> (failure, Proto) res" where
  "compile_with_lexer P E l name = res_bind (parse_with_lexer E l) (\<lambda>block. compile_main P block name)"

end
