(* ===== verification/ChunkProps.thy ===== *)
theory ChunkProps
  imports Chunk
begin

text \<open>
  The reader of binary chunks inverts the writer, rejects every truncated chunk and never loops;
  the panics it has on hostile counts.
\<close>

section \<open>Words\<close>

lemma bit_le_word:
  "bit (le_word bs :: 'a::len word) k \<longleftrightarrow> k < LENGTH('a) \<and> k div 8 < length bs \<and> bit (bs ! (k div 8)) (k mod 8)"
proof (induction bs arbitrary: k)
  case (Cons b bs)
  show ?case
  proof (cases "k < 8")
    case True
    then show ?thesis by (auto simp: bit_simps bit_imp_le_length)
  next
    case False
    then have "(k - 8) div 8 = k div 8 - 1" "(k - 8) mod 8 = k mod 8" "k div 8 \<noteq> 0"
      by (simp_all add: le_div_geq le_mod_geq)
    moreover have "\<not> bit b k" using False bit_imp_le_length [of b k] by auto
    ultimately show ?thesis using False Cons [of "k - 8"]
      by (cases "k div 8") (auto simp: bit_simps dest: bit_imp_le_length)
  qed
qed simp

lemma le_word_bytes:
  assumes "LENGTH('a) = 8 * n" shows "le_word (le_bytes n w) = (w :: 'a::len word)"
proof (rule bit_word_eqI)
  fix k assume k: "k < LENGTH('a)"
  then have "k div 8 < n" using assms by (simp add: less_mult_imp_div_less mult.commute)
  then show "bit (le_word (le_bytes n w) :: 'a word) k = bit w k"
    using k by (simp add: bit_le_word le_bytes_def bit_simps)
qed

lemma le_bytes_length [simp]: "length (le_bytes n w) = n"
  by (simp add: le_bytes_def)

lemma as_usize_of_nat: "n < 2 ^ 31 \<Longrightarrow> as_usize (word_of_nat n) = n"
proof -
  assume n: "n < 2 ^ 31"
  have "sint (word_of_nat n :: i32) = int n" using n by (simp add: sint_uint unsigned_of_nat take_bit_nat_eq_self signed_take_bit_int_eq_self)
  then have "(scast (word_of_nat n :: i32) :: u64) = word_of_int (int n)" by (simp add: scast_eq)
  then show "as_usize (word_of_nat n) = n" using n by (simp add: as_usize_def unsigned_of_nat take_bit_nat_eq_self)
qed

section \<open>What a reader accepts\<close>

text \<open>\<open>reads f bs x\<close>: wherever the input goes on with \<open>bs\<close>, the reader returns \<open>x\<close> and consumes them.\<close>

definition reads :: "'a loader \<Rightarrow> u8 list \<Rightarrow> 'a \<Rightarrow> bool" where
  "reads f bs x \<longleftrightarrow> (\<forall>data pos rest. drop pos data = bs @ rest \<and> pos \<le> length data \<and> length data < 2 ^ 63
     \<longrightarrow> f data pos = Inr (x, pos + length bs))"

lemma readsI:
  "(\<And>data pos rest. drop pos data = bs @ rest \<Longrightarrow> pos + length bs \<le> length data \<Longrightarrow> length data < 2 ^ 63
     \<Longrightarrow> f data pos = Inr (x, pos + length bs)) \<Longrightarrow> reads f bs x"
  unfolding reads_def
proof (intro allI impI)
  fix data pos rest
  assume f: "\<And>data pos rest. drop pos data = bs @ rest \<Longrightarrow> pos + length bs \<le> length data \<Longrightarrow> length data < 2 ^ 63
     \<Longrightarrow> f data pos = Inr (x, pos + length bs)"
    and d: "drop pos data = bs @ rest \<and> pos \<le> length data \<and> length data < 2 ^ 63"
  have "length data - pos = length bs + length rest" using d by (metis length_append length_drop)
  then have "pos + length bs \<le> length data" using d by linarith
  then show "f data pos = Inr (x, pos + length bs)" using f d by blast
qed

lemma reads_return: "reads (load_return x) [] x"
  by (simp add: reads_def load_return_def)

lemma reads_bind:
  assumes "reads f bs x" "reads (g x) cs y" shows "reads (load_bind f g) (bs @ cs) y"
proof (rule readsI)
  fix data pos rest
  assume d: "drop pos data = (bs @ cs) @ rest" "pos + length (bs @ cs) \<le> length data" "length data < 2 ^ 63"
  have f: "f data pos = Inr (x, pos + length bs)" using assms(1) d by (simp add: reads_def)
  have "drop (pos + length bs) data = drop (length bs) (drop pos data)" by (simp add: add.commute)
  also have "\<dots> = cs @ rest" unfolding d(1) by simp
  finally have "g x data (pos + length bs) = Inr (y, pos + length bs + length cs)"
    using assms(2) d(2,3) by (simp add: reads_def)
  then show "load_bind f g data pos = Inr (y, pos + length (bs @ cs))" using f by (simp add: load_bind_def)
qed

lemma reads_map: "reads f bs x \<Longrightarrow> reads (load_bind f (\<lambda>x. load_return (h x))) bs (h x)"
  using reads_bind [OF _ reads_return] by fastforce

lemma reads_block: "length bs = n \<Longrightarrow> reads (load_block n) bs bs"
  by (rule readsI) (auto simp: load_block_def)

lemma reads_byte: "reads load_byte (dump_byte b) b"
proof (rule readsI)
  fix data pos rest
  assume d: "drop pos data = dump_byte b @ rest" "pos + length (dump_byte b) \<le> length data"
  then have "data ! pos = b" by (metis Suc_le_eq add.commute append_Cons dump_byte_def hd_drop_conv_nth list.sel(1) list.size(3,4) plus_1_eq_Suc add_0)
  then show "load_byte data pos = Inr (b, pos + length (dump_byte b))"
    using d(2) by (simp add: load_byte_def dump_byte_def)
qed

lemma reads_int: "reads load_int (dump_int n) n"
  using reads_map [OF reads_block [of "le_bytes 4 n" 4], of "\<lambda>bytes. le_word bytes :: i32"]
  by (simp add: load_int_def dump_int_def le_word_bytes)

lemma reads_size: "reads load_size (dump_size n) n"
  using reads_map [OF reads_block [of "le_bytes 8 n" 8], of "\<lambda>bytes. le_word bytes :: u64"]
  by (simp add: load_size_def dump_size_def le_word_bytes)

lemma reads_number: "reads load_number (dump_number n) n"
  using reads_map [OF reads_block [of "le_bytes 8 n" 8], of "\<lambda>bytes. le_word bytes :: f64"]
  by (simp add: load_number_def dump_number_def le_word_bytes)


lemma reads_short:
  "(length bs < 2 ^ 63 \<Longrightarrow> reads f bs x) \<Longrightarrow> reads f bs x"
proof (rule readsI)
  fix data pos rest
  assume f: "length bs < 2 ^ 63 \<Longrightarrow> reads f bs x" and d: "drop pos data = bs @ rest"
    "pos + length bs \<le> length data" "length data < 2 ^ 63"
  from d have "length bs < 2 ^ 63" by linarith
  then show "f data pos = Inr (x, pos + length bs)" using f d by (simp add: reads_def)
qed

lemma reads_string: "reads load_string (dump_string s) s"
proof (cases s)
  case None
  have "reads load_string (dump_size 0 @ []) None"
    unfolding load_string_def by (rule reads_bind [OF reads_size]) (simp add: reads_return)
  then show ?thesis by (simp add: None dump_string_def)
next
  case (Some bs)
  show ?thesis
  proof (rule reads_short)
    assume "length (dump_string s) < 2 ^ 63"
    then have n: "length bs < 2 ^ 63" by (simp add: Some dump_string_def)
    let ?n = "word_of_nat (length bs) + 1 :: u64"
    have u: "unat (?n - 1) = length bs" using n by (simp add: unsigned_of_nat take_bit_nat_eq_self)
    have "unat ?n = length bs + 1"
      using n by (simp add: unat_word_ariths unsigned_of_nat take_bit_nat_eq_self)
    then have z: "?n \<noteq> 0" by (metis Suc_eq_plus1 nat.distinct(1) unsigned_0)
    have "reads load_string (dump_size ?n @ bs @ dump_byte 0 @ []) (Some bs)"
      unfolding load_string_def
      apply (rule reads_bind [OF reads_size])
      unfolding u using z
      by (simp only: if_False) (intro reads_bind [OF reads_block [OF refl]] reads_bind [OF reads_byte] reads_return)
    then show "reads load_string (dump_string s) s" by (simp add: Some dump_string_def)
  qed
qed


lemma chunks4_concat: "chunks4 (concat (map (le_bytes 4) ws)) = map (le_bytes 4) ws"
proof (induction ws)
  case (Cons w ws)
  have "le_bytes 4 w = [w1, w2, w3, w4] \<Longrightarrow> chunks4 (le_bytes 4 w @ bs) = le_bytes 4 w # chunks4 bs"
    for w1 w2 w3 w4 :: u8 and bs by simp
  then show ?case using Cons by (simp add: le_bytes_def upt_rec)
qed simp

lemma length_concat_le_bytes: "length (concat (map (le_bytes n) ws)) = length ws * n"
  by (induction ws) simp_all

lemma reads_u32_vec:
  assumes "length ws < 2 ^ 31"
  shows "reads (load_u32_vec (length ws)) (concat (map (le_bytes 4) ws)) ws"
proof -
  have "reads (load_block (length ws * 4)) (concat (map (le_bytes 4) ws)) (concat (map (le_bytes 4) ws))"
    by (rule reads_block) (rule length_concat_le_bytes)
  then have "reads (load_bind (load_block (length ws * 4)) (\<lambda>bytes. load_return (map le_word (chunks4 bytes) :: u32 list)))
      (concat (map (le_bytes 4) ws)) (map le_word (chunks4 (concat (map (le_bytes 4) ws))))"
    by (rule reads_map)
  moreover have "map le_word (chunks4 (concat (map (le_bytes 4) ws))) = (ws :: u32 list)"
    unfolding chunks4_concat map_map by (rule map_idI) (simp add: le_word_bytes)
  ultimately show ?thesis using assms by (simp add: load_u32_vec_def)
qed

lemma reads_loop:
  "\<forall>k < length xs. reads (f (i + k)) (g (i + k, xs ! k)) (h (i + k, xs ! k)) \<Longrightarrow>
   reads (load_loop f i (length xs)) (concat (map g (enumerate i xs))) (map h (enumerate i xs))"
proof (induction xs arbitrary: i)
  case Nil then show ?case by (simp add: reads_return)
next
  case (Cons x xs)
  have x: "reads (f i) (g (i, x)) (h (i, x))" using Cons.prems by (auto dest: spec [of _ 0])
  have "\<forall>k < length xs. reads (f (Suc i + k)) (g (Suc i + k, xs ! k)) (h (Suc i + k, xs ! k))"
  proof (intro allI impI)
    fix k assume "k < length xs"
    then show "reads (f (Suc i + k)) (g (Suc i + k, xs ! k)) (h (Suc i + k, xs ! k))"
      using Cons.prems [THEN spec, of "Suc k"] by simp
  qed
  from Cons.IH [OF this] have "reads (load_loop f (i + 1) (length xs)) (concat (map g (enumerate (Suc i) xs)))
    (map h (enumerate (Suc i) xs))" by simp
  from reads_map [OF this, of "(#) (h (i, x))"]
  have "reads (load_bind (f i) (\<lambda>x. load_bind (load_loop f (i + 1) (length xs)) (\<lambda>xs. load_return (x # xs))))
    (g (i, x) @ concat (map g (enumerate (Suc i) xs))) (h (i, x) # map h (enumerate (Suc i) xs))"
    by (rule reads_bind [OF x])
  then show ?case by simp
qed

lemma map_enumerate_snd: "map (\<lambda>p. g (snd p)) (enumerate i xs) = map g xs"
  by (induction xs arbitrary: i) simp_all

lemma reads_each:
  assumes "\<forall>x \<in> set xs. reads f (g x) (h x)"
  shows "reads (load_loop (\<lambda>_. f) i (length xs)) (concat (map g xs)) (map h xs)"
proof -
  have "reads (load_loop (\<lambda>_. f) i (length xs)) (concat (map (\<lambda>p. g (snd p)) (enumerate i xs)))
     (map (\<lambda>p. h (snd p)) (enumerate i xs))"
    by (rule reads_loop) (use assms in auto)
  then show ?thesis by (simp only: map_enumerate_snd)
qed

lemma reads_reserve: "n < 2 ^ 31 \<Longrightarrow> k \<le> 32 \<Longrightarrow> reads (reserve n k) [] ()"
proof -
  assume "n < 2 ^ 31" "k \<le> 32"
  then have "n * k \<le> 2 ^ 31 * 32" by (intro mult_le_mono) simp_all
  then show ?thesis by (simp add: reserve_def reads_return)
qed

lemma reads_count: "n < 2 ^ 31 \<Longrightarrow> reads (g n) bs y \<Longrightarrow>
   reads (load_bind load_int (\<lambda>k. g (as_usize k))) (dump_int (word_of_nat n) @ bs) y"
  by (rule reads_bind [OF reads_int]) (simp add: as_usize_of_nat)


section \<open>What a written prototype reads as\<close>

text \<open>The bytes of a string constant, when the writer writes one as a string.\<close>

definition constant_bytes :: "string_arena option \<Rightarrow> StringPoolEntry list \<Rightarrow> nat \<times> Val \<Rightarrow> u8 list option" where
  "constant_bytes arena pool iv = (case snd iv of
     VNil \<Rightarrow> pool_find pool (fst iv)
   | VStr r \<Rightarrow> Some (case arena of
        Some a \<Rightarrow> (case get a r of Some s \<Rightarrow> sdata s | None \<Rightarrow> [])
      | None \<Rightarrow> (case pool_find pool (fst iv) of Some bytes \<Rightarrow> bytes | None \<Rightarrow> []))
   | _ \<Rightarrow> None)"

definition loaded_constant :: "string_arena option \<Rightarrow> StringPoolEntry list \<Rightarrow> nat \<times> Val \<Rightarrow> Val \<times> StringPoolEntry list" where
  "loaded_constant arena pool iv = (case constant_bytes arena pool iv of
     Some bytes \<Rightarrow> (VNil, [StringPoolEntry (word_of_nat (fst iv)) bytes (lua_hash bytes)])
   | None \<Rightarrow> (case snd iv of VBool b \<Rightarrow> (VBool b, []) | VNum n \<Rightarrow> (VNum n, []) | _ \<Rightarrow> (VNil, [])))"

primrec loaded :: "string_arena option \<Rightarrow> bool \<Rightarrow> Proto \<Rightarrow> Proto" where
  "loaded arena strip (Proto code ks ps lines vars names source short ld lld nu np va mx pool gs) =
    Proto code (map (\<lambda>iv. fst (loaded_constant arena pool iv)) (enumerate 0 ks)) (map (loaded arena strip) ps)
      (if strip then [] else lines) (if strip then [] else vars) (if strip then [] else names)
      source (the (chunkid source)) ld lld nu np va mx
      (concat (map (\<lambda>iv. snd (loaded_constant arena pool iv)) (enumerate 0 ks))) []"

text \<open>What the format can hold: every count fits an \<open>i32\<close>, the names are text, the source has a display name.\<close>

primrec dumpable :: "Proto \<Rightarrow> bool" where
  "dumpable (Proto code ks ps lines vars names source short ld lld nu np va mx pool gs) \<longleftrightarrow>
     length code < 2 ^ 31 \<and> length ks < 2 ^ 31 \<and> length ps < 2 ^ 31 \<and> length lines < 2 ^ 31
     \<and> length vars < 2 ^ 31 \<and> length names < 2 ^ 31
     \<and> valid_utf8 source \<and> chunkid source \<noteq> None
     \<and> list_all (\<lambda>v. valid_utf8 (lv_name v)) vars \<and> list_all valid_utf8 names
     \<and> list_all id (map dumpable ps)"

lemma reads_dump_string: "reads load_string (dump_string (Some bs)) (Some bs)"
  by (rule reads_string)

lemma dump_constant_bytes: "constant_bytes arena pool iv = Some bytes \<Longrightarrow>
   dump_constant arena pool iv = dump_byte LUA_TSTRING @ dump_string (Some bytes)"
  by (auto simp: constant_bytes_def dump_constant_def split: Val.splits option.splits)

lemma tags: "LUA_TBOOLEAN \<noteq> LUA_TNIL" "LUA_TNUMBER \<noteq> LUA_TNIL" "LUA_TSTRING \<noteq> LUA_TNIL"
  "LUA_TNUMBER \<noteq> LUA_TBOOLEAN" "LUA_TSTRING \<noteq> LUA_TBOOLEAN" "LUA_TSTRING \<noteq> LUA_TNUMBER"
  by (simp_all add: LUA_TNIL_def LUA_TBOOLEAN_def LUA_TNUMBER_def LUA_TSTRING_def)

lemma reads_last: "reads f bs x \<Longrightarrow> reads (g x) [] y \<Longrightarrow> reads (load_bind f g) bs y"
  using reads_bind [of f bs x g "[]" y] by simp

lemma reads_constant_string:
  "reads (load_constant i) (dump_byte LUA_TSTRING @ dump_string (Some bytes))
     (VNil, [StringPoolEntry (word_of_nat i) bytes (lua_hash bytes)])"
  unfolding load_constant_def
  by (rule reads_bind, rule reads_byte, simp only: tags simp_thms if_False if_True, rule reads_last,
      rule reads_string) (simp add: unwrap_or_default_def reads_return)

lemma reads_constant_nil: "reads (load_constant i) (dump_byte LUA_TNIL) (VNil, [])"
  unfolding load_constant_def
  by (rule reads_last [OF reads_byte]) (simp add: reads_return)

lemma reads_constant_bool:
  "reads (load_constant i) (dump_byte LUA_TBOOLEAN @ dump_byte (if b then 1 else 0)) (VBool b, [])"
  unfolding load_constant_def
  by (rule reads_bind, rule reads_byte, simp only: tags simp_thms if_False if_True, rule reads_last,
      rule reads_byte) (cases b; simp add: reads_return)

lemma reads_constant_number:
  "reads (load_constant i) (dump_byte LUA_TNUMBER @ dump_number n) (VNum n, [])"
  unfolding load_constant_def
  by (rule reads_bind, rule reads_byte, simp only: tags simp_thms if_False if_True, rule reads_last,
      rule reads_number) (simp add: reads_return)

lemma reads_constant:
  "reads (load_constant (fst iv)) (dump_constant arena pool iv) (loaded_constant arena pool iv)"
proof (cases "constant_bytes arena pool iv")
  case (Some bytes)
  then show ?thesis by (simp add: dump_constant_bytes loaded_constant_def reads_constant_string)
next
  case None
  then show ?thesis
    by (cases "snd iv") (simp_all add: loaded_constant_def dump_constant_def constant_bytes_def
        reads_constant_nil reads_constant_bool [simplified] reads_constant_number)
qed

lemma reads_constants:
  assumes "length ks < 2 ^ 31"
  shows "reads load_constants
    (dump_int (word_of_nat (length ks)) @ concat (map (dump_constant arena pool) (enumerate 0 ks)))
    (map (\<lambda>iv. fst (loaded_constant arena pool iv)) (enumerate 0 ks),
     concat (map (\<lambda>iv. snd (loaded_constant arena pool iv)) (enumerate 0 ks)))"
proof -
  have loop: "reads (load_loop load_constant 0 (length ks)) (concat (map (dump_constant arena pool) (enumerate 0 ks)))
     (map (loaded_constant arena pool) (enumerate 0 ks))"
    by (rule reads_loop) (metis reads_constant fst_conv)
  show ?thesis unfolding load_constants_def
    apply (rule reads_count [OF assms])
    apply (rule reads_bind [where bs = "[]", simplified append_Nil, OF reads_reserve [OF assms]])
     apply simp
    apply (rule reads_last [OF loop])
    apply (simp add: reads_return comp_def)
    done
qed


lemma reads_source:
  assumes "valid_utf8 source" "chunkid source \<noteq> None" "source = dp \<longrightarrow> dp = lp"
  shows "reads (load_source lp) (if source = dp then dump_string None else dump_string (Some source))
    (source, the (chunkid source))"
proof (cases "source = dp")
  case True
  then show ?thesis unfolding load_source_def if_P [OF True]
    by (intro reads_last [OF reads_string]) (use assms in \<open>auto simp: reads_return\<close>)
next
  case False
  then show ?thesis unfolding load_source_def if_not_P [OF False]
    by (intro reads_last [OF reads_string]) (use assms in \<open>auto simp: reads_return utf8_lossy_valid\<close>)
qed

lemma reads_local_var:
  assumes "valid_utf8 (lv_name v)"
  shows "reads load_local_var (dump_local_var v) v"
  unfolding load_local_var_def dump_local_var_def
  by (rule reads_bind, rule reads_string, rule reads_bind, rule reads_int, rule reads_last, rule reads_int)
    (use assms in \<open>simp add: unwrap_or_default_def utf8_lossy_valid reads_return\<close>)

lemma reads_name:
  "valid_utf8 n \<Longrightarrow> reads (load_bind load_string (\<lambda>name. load_return (utf8_lossy (unwrap_or_default name))))
     (dump_string (Some n)) n"
  by (rule reads_last, rule reads_string) (simp add: unwrap_or_default_def utf8_lossy_valid reads_return)

text \<open>A counted vector: the count, the reservation, the elements.\<close>

lemma reads_counted:
  assumes "length xs < 2 ^ 31" "k \<le> 32" "\<forall>x \<in> set xs. reads f (g x) (h x)" "reads (G (map h xs)) cs y"
  shows "reads (load_bind load_int (\<lambda>n. load_bind (reserve (as_usize n) k)
     (\<lambda>_. load_bind (load_loop (\<lambda>_. f) 0 (as_usize n)) G)))
     (dump_int (word_of_nat (length xs)) @ concat (map g xs) @ cs) y"
  by (rule reads_count [OF assms(1)], rule reads_bind [where bs = "[]", simplified append_Nil],
      rule reads_reserve [OF assms(1,2)], rule reads_bind, rule reads_each [OF assms(3)], rule assms(4))

lemma reads_debug_full:
  assumes "length lines < 2 ^ 31" "length vars < 2 ^ 31" "length names < 2 ^ 31"
    "\<forall>v \<in> set vars. valid_utf8 (lv_name v)" "\<forall>n \<in> set names. valid_utf8 n"
  shows "reads load_debug (dump_int (word_of_nat (length lines)) @ concat (map (le_bytes 4) lines)
     @ dump_int (word_of_nat (length vars)) @ concat (map dump_local_var vars)
     @ dump_int (word_of_nat (length names)) @ concat (map (\<lambda>n. dump_string (Some n)) names) @ [])
     (lines, vars, names)"
  unfolding load_debug_def
  apply (rule reads_count [OF assms(1)], rule reads_bind, rule reads_u32_vec [OF assms(1)])
  apply (rule reads_counted [where h = "\<lambda>v. v", OF assms(2)], simp)
  using assms(4) reads_local_var apply blast
  apply (rule reads_counted [where h = "\<lambda>n. n", OF assms(3)], simp)
  using assms(5) reads_name apply blast
  apply (simp add: reads_return)
  done

lemma reads_debug:
  assumes "dumpable p"
  shows "reads load_debug (dump_debug strip p)
    (if strip then [] else pr_line_info p, if strip then [] else pr_local_vars p,
     if strip then [] else pr_upvalue_names p)"
proof (cases strip)
  case True
  then show ?thesis using reads_debug_full [of "[]" "[]" "[]"] by (simp add: dump_debug_def)
next
  case False
  have "(\<lambda>l. dump_int (ucast l)) = (le_bytes 4 :: u32 \<Rightarrow> _)" by (simp add: dump_int_def fun_eq_iff)
  with False reads_debug_full [of "pr_line_info p" "pr_local_vars p" "pr_upvalue_names p"] assms
  show ?thesis by (cases p) (simp add: dump_debug_def list_all_iff)
qed


lemma dump_source_length: "8 \<le> length (if b then dump_string None else dump_string (Some s))"
  by (simp add: dump_string_def dump_size_def)

lemma dump_child_length:
  assumes "c \<in> set (pr_protos p)"
  shows "length (dump_function arena strip c (pr_source p)) < length (dump_function arena strip p dp)"
proof -
  let ?cs = "concat (map (\<lambda>child. dump_function arena strip child (pr_source p)) (pr_protos p))"
  from assms obtain xs ys where "pr_protos p = xs @ c # ys" by (meson split_list)
  then have "length (dump_function arena strip c (pr_source p)) \<le> length ?cs" by simp
  also have "\<dots> < length (dump_function arena strip p dp)"
    using dump_source_length [of "pr_source p = dp" "pr_source p"]
    by (subst (2) dump_function.simps) (simp add: dump_byte_def)
  finally show ?thesis .
qed

lemma reads_function:
  "dumpable p \<Longrightarrow> (pr_source p = dp \<longrightarrow> dp = lp) \<Longrightarrow> length (dump_function arena strip p dp) < fuel \<Longrightarrow>
   reads (load_function fuel lp) (dump_function arena strip p dp) (loaded arena strip p)"
proof (induction arena strip p dp arbitrary: fuel lp rule: dump_function.induct)
  case (1 arena strip p dp)
  from 1(4) obtain fl where fuel: "fuel = Suc fl" by (cases fuel) simp_all
  have src: "valid_utf8 (pr_source p)" "chunkid (pr_source p) \<noteq> None"
    and cnt: "length (pr_code p) < 2 ^ 31" "length (pr_constants p) < 2 ^ 31" "length (pr_protos p) < 2 ^ 31"
    and kids: "\<forall>c \<in> set (pr_protos p). dumpable c"
    using 1(2) by (cases p; simp add: list_all_iff)+
  have child: "\<forall>c \<in> set (pr_protos p). reads (load_function fl (pr_source p))
      (dump_function arena strip c (pr_source p)) (loaded arena strip c)"
  proof
    fix c assume c: "c \<in> set (pr_protos p)"
    show "reads (load_function fl (pr_source p)) (dump_function arena strip c (pr_source p)) (loaded arena strip c)"
      by (rule 1(1) [OF c]) (use kids c dump_child_length [OF c, of arena strip dp] 1(4) fuel in auto)
  qed
  have loaded: "loaded arena strip p = Proto (pr_code p)
      (map (\<lambda>iv. fst (loaded_constant arena (pr_string_pool p) iv)) (enumerate 0 (pr_constants p)))
      (map (loaded arena strip) (pr_protos p))
      (if strip then [] else pr_line_info p) (if strip then [] else pr_local_vars p)
      (if strip then [] else pr_upvalue_names p) (pr_source p) (the (chunkid (pr_source p)))
      (pr_line_defined p) (pr_last_line_defined p) (pr_num_upvalues p) (pr_num_params p) (pr_is_vararg p)
      (pr_max_stack_size p)
      (concat (map (\<lambda>iv. snd (loaded_constant arena (pr_string_pool p) iv)) (enumerate 0 (pr_constants p)))) []"
    by (cases p) simp
  show ?case
    unfolding fuel load_function.simps dump_function.simps [of arena strip p dp] dump_code_def append_assoc
    apply (rule reads_bind, rule reads_source [OF src 1(3)], unfold prod.case)
    apply (rule reads_bind, rule reads_int, rule reads_bind, rule reads_int)
    apply (rule reads_bind, rule reads_byte, rule reads_bind, rule reads_byte)
    apply (rule reads_bind, rule reads_byte, rule reads_bind, rule reads_byte)
    apply (rule reads_count [OF cnt(1)], rule reads_bind, rule reads_u32_vec [OF cnt(1)])
    apply (subst append_assoc [symmetric], rule reads_bind, rule reads_constants [OF cnt(2)], unfold prod.case)
    apply (rule reads_counted [where h = "loaded arena strip", OF cnt(3)], simp, rule child)
    apply (rule reads_last, rule reads_debug [OF 1(2)], unfold prod.case)
    apply (simp add: reads_return loaded)
    done
qed

lemma reads_header: "reads load_header dump_header ()"
  unfolding load_header_def dump_header_def
  apply (rule reads_bind, rule reads_block, rule refl)
  apply (simp only: simp_thms if_False)
  apply (rule reads_last, rule reads_block)
  apply (simp_all add: make_header_def LUA_SIGNATURE_def LUAC_HEADERSIZE_def dump_byte_def reads_return)
  done

lemma undump_written:
  assumes "dumpable p" "pr_source p \<noteq> []" "length (dump p arena strip) < 2 ^ 63"
  shows "undump (dump p arena strip) name = Inr (loaded arena strip p)"
proof -
  let ?d = "dump p arena strip"
  have "reads (load_function (length ?d + 1) name) (dump_function arena strip p []) (loaded arena strip p)"
    by (rule reads_function) (use assms in \<open>simp_all add: dump_def\<close>)
  with reads_header have "reads (load_bind load_header (\<lambda>_. load_function (length ?d + 1) name)) ?d (loaded arena strip p)"
    unfolding dump_def by (rule reads_bind)
  then have "load_bind load_header (\<lambda>_. load_function (length ?d + 1) name) ?d 0
      = Inr (loaded arena strip p, length ?d)"
    using assms(3) by (simp add: reads_def)
  then show ?thesis by (simp add: undump_def undump_fuel_def)
qed


text \<open>C39. A chunk written from a prototype is read back: the same code, constants, nested functions, lines,
  names and counts, each string constant as its bytes in the pool with their hash and a nil in the
  constant vector, the debug vectors empty when they were stripped, and a source name elided by the
  writer restored from the enclosing function. The main function's source must not be empty: that one
  the writer also elides.\<close>

theorem undump_dump:
  assumes "dumpable p" "pr_source p \<noteq> []" "length (dump p arena strip) < 2 ^ 63"
  shows "undump (dump p arena strip) name = Inr (loaded arena strip p)"
  using assms by (rule undump_written)

section \<open>Writing again\<close>

lemma pool_find_loaded:
  "b \<le> i \<Longrightarrow> i < b + length ks \<Longrightarrow> b + length ks < 2 ^ 32 \<Longrightarrow>
   pool_find (concat (map (\<lambda>iv. snd (loaded_constant arena pool iv)) (enumerate b ks))) i
     = constant_bytes arena pool (i, ks ! (i - b))"
proof (induction ks arbitrary: b)
  case (Cons k ks)
  have ne: "(word_of_nat b :: u32) = word_of_nat i \<longleftrightarrow> b = i"
    using Cons.prems by (simp add: word_of_nat_eq_iff take_bit_nat_eq_self)
  show ?case
  proof (cases "b = i")
    case True
    have later: "find (\<lambda>e. sp_index e = word_of_nat i)
        (concat (map (\<lambda>iv. snd (loaded_constant arena pool iv)) (enumerate (Suc i) ks))) = None"
    proof -
      have "sp_index e \<noteq> word_of_nat i" if "e \<in> set (snd (loaded_constant arena pool iv))"
        "iv \<in> set (enumerate (Suc i) ks)" for e iv
      proof -
        have "(fst iv, snd iv) \<in> set (zip [Suc i..<Suc i + length ks] ks)"
          using that(2) by (simp add: enumerate_eq_zip del: upt_Suc)
        then have "fst iv \<in> set [Suc i..<Suc i + length ks]" by (rule set_zip_leftD)
        then have "fst iv < 2 ^ 32" "fst iv \<noteq> i" using Cons.prems True by auto
        then have "(word_of_nat (fst iv) :: u32) \<noteq> word_of_nat i"
          using Cons.prems True by (simp add: word_of_nat_eq_iff take_bit_nat_eq_self)
        then show ?thesis using that(1)
          by (auto simp: loaded_constant_def split: option.splits Val.splits)
      qed
      then show ?thesis by (auto simp: find_None_iff)
    qed
    show ?thesis using True later
      by (cases "constant_bytes arena pool (i, k)")
        (simp_all add: pool_find_def loaded_constant_def split: Val.split)
  next
    case False
    then have "i - b = Suc (i - Suc b)" "Suc b \<le> i" "i < Suc b + length ks" "Suc b + length ks < 2 ^ 32"
      using Cons.prems by simp_all
    then show ?thesis using Cons.IH [of "Suc b"] False ne
      by (simp add: pool_find_def loaded_constant_def split: option.split Val.split)
  qed
qed simp

lemma redump_constant:
  "constant_bytes arena pool iv = pool_find pool' (fst iv) \<Longrightarrow>
   dump_constant None pool' (fst iv, fst (loaded_constant arena pool iv)) = dump_constant arena pool iv"
  by (cases "snd iv")
    (auto simp: dump_constant_def loaded_constant_def constant_bytes_def split: option.splits)


lemma redump_constants:
  assumes "length ks < 2 ^ 32"
  shows "map (dump_constant None (concat (map (\<lambda>iv. snd (loaded_constant arena pool iv)) (enumerate 0 ks))))
      (enumerate 0 (map (\<lambda>iv. fst (loaded_constant arena pool iv)) (enumerate 0 ks)))
    = map (dump_constant arena pool) (enumerate 0 ks)" (is "map (dump_constant None ?pool) _ = _")
proof (rule nth_equalityI)
  fix i assume "i < length (map (dump_constant None ?pool)
      (enumerate 0 (map (\<lambda>iv. fst (loaded_constant arena pool iv)) (enumerate 0 ks))))"
  then have i: "i < length ks" by simp
  have "constant_bytes arena pool (i, ks ! i) = pool_find ?pool i"
    using pool_find_loaded [of 0 i ks arena pool] i assms by simp
  then show "map (dump_constant None ?pool)
      (enumerate 0 (map (\<lambda>iv. fst (loaded_constant arena pool iv)) (enumerate 0 ks))) ! i
    = map (dump_constant arena pool) (enumerate 0 ks) ! i"
    using i redump_constant [of arena pool "(i, ks ! i)" ?pool] by (simp add: nth_enumerate_eq)
qed simp

lemma redump_function:
  "dumpable p \<Longrightarrow>
   dump_function None strip' (loaded arena strip p) dp = dump_function arena (strip \<or> strip') p dp"
proof (induction p arbitrary: dp)
  case (Proto code ks ps lines vars names source short ld lld nu np va mx pool gs)
  have kids: "map (\<lambda>child. dump_function None strip' child source) (map (loaded arena strip) ps)
     = map (\<lambda>child. dump_function arena (strip \<or> strip') child source) ps"
    using Proto by (auto simp: list_all_iff)
  have ks: "length ks < 2 ^ 32" using Proto.prems by simp
  let ?p = "Proto code ks ps lines vars names source short ld lld nu np va mx pool gs"
  show ?case
    by (subst dump_function.simps [of None _ "loaded arena strip ?p"], subst dump_function.simps [of arena _ ?p])
      (simp add: kids redump_constants [OF ks] dump_code_def dump_debug_def del: map_map)
qed

text \<open>Writing is canonical: what is read from a written chunk, written again without an arena, gives
  the same bytes; writing it stripped gives the stripped chunk of the original.\<close>

theorem redump_identical:
  assumes "dumpable p"
  shows "dump (loaded arena strip p) None strip' = dump p arena (strip \<or> strip')"
  by (simp add: dump_def redump_function [OF assms])

section \<open>Fuel\<close>

text \<open>
  \<open>fueled n f f'\<close>: on inputs with fewer than \<open>n\<close> bytes left the readers agree, do not run out of
  fuel and do not move back.
\<close>

definition fueled :: "nat \<Rightarrow> 'a loader \<Rightarrow> 'a loader \<Rightarrow> bool" where
  "fueled n f f' \<longleftrightarrow> (\<forall>data pos. length data - pos < n \<longrightarrow>
     f data pos = f' data pos \<and> f data pos \<noteq> Inl LFuel \<and> (\<forall>x pos'. f data pos = Inr (x, pos') \<longrightarrow> pos \<le> pos'))"

definition consumes :: "'a loader \<Rightarrow> bool" where
  "consumes f \<longleftrightarrow> (\<forall>data pos x pos'. f data pos = Inr (x, pos') \<longrightarrow> pos < pos' \<and> pos' \<le> length data)"

lemma fueledD:
  assumes "fueled n f f'" "length data - pos < n"
  shows "f' data pos = f data pos" "f data pos \<noteq> Inl LFuel" "f data pos = Inr (x, pos') \<Longrightarrow> pos \<le> pos'"
  using assms unfolding fueled_def by (auto 0 3)

lemma fueled_bind:
  assumes f: "fueled n f f'" and g: "\<forall>x. fueled n (g x) (g' x)"
  shows "fueled n (load_bind f g) (load_bind f' g')"
  unfolding fueled_def
proof (intro allI impI)
  fix data :: "u8 list" and pos :: nat assume n: "length data - pos < n"
  note fD = fueledD [OF f n]
  show "load_bind f g data pos = load_bind f' g' data pos \<and> load_bind f g data pos \<noteq> Inl LFuel
    \<and> (\<forall>x pos'. load_bind f g data pos = Inr (x, pos') \<longrightarrow> pos \<le> pos')"
  proof (cases "f data pos")
    case (Inl e)
    then show ?thesis using fD(1,2) by (auto simp: load_bind_def)
  next
    case (Inr r)
    obtain x p1 where r: "r = (x, p1)" by fastforce
    have p1: "pos \<le> p1" using fD(3) Inr r by simp
    have n1: "length data - p1 < n" using n p1 by linarith
    note gD = fueledD [OF g [THEN spec, of x] n1]
    show ?thesis using fD(1) gD p1 Inr r by (fastforce simp: load_bind_def)
  qed
qed

lemma fueled_bind_consumes:
  assumes f: "fueled (Suc n) f f'" and c: "consumes f" and g: "\<forall>x. fueled n (g x) (g' x)"
  shows "fueled (Suc n) (load_bind f g) (load_bind f' g')"
  unfolding fueled_def
proof (intro allI impI)
  fix data :: "u8 list" and pos :: nat assume n: "length data - pos < Suc n"
  note fD = fueledD [OF f n]
  show "load_bind f g data pos = load_bind f' g' data pos \<and> load_bind f g data pos \<noteq> Inl LFuel
    \<and> (\<forall>x pos'. load_bind f g data pos = Inr (x, pos') \<longrightarrow> pos \<le> pos')"
  proof (cases "f data pos")
    case (Inl e)
    then show ?thesis using fD(1,2) by (auto simp: load_bind_def)
  next
    case (Inr r)
    obtain x p1 where r: "r = (x, p1)" by fastforce
    have p1: "pos < p1" "p1 \<le> length data" using c Inr r unfolding consumes_def by blast+
    have n1: "length data - p1 < n" using n p1 by linarith
    note gD = fueledD [OF g [THEN spec, of x] n1]
    show ?thesis using fD(1) gD p1 Inr r by (fastforce simp: load_bind_def)
  qed
qed


lemma fueled_return: "fueled n (load_return x) (load_return x)"
  by (simp add: fueled_def load_return_def)

lemma fueled_fail: "e \<noteq> LFuel \<Longrightarrow> fueled n (load_fail e) (load_fail e)"
  by (simp add: fueled_def load_fail_def)

lemma fueled_byte: "fueled n load_byte load_byte"
  by (simp add: fueled_def load_byte_def)

lemma fueled_block: "fueled n (load_block k) (load_block k)"
  by (simp add: fueled_def load_block_def)

lemma fueled_if: "fueled n f f' \<Longrightarrow> fueled n g g' \<Longrightarrow> fueled n (if b then f else g) (if b then f' else g')"
  by simp

lemma fueled_let: "fueled n (f x) (f' x) \<Longrightarrow> fueled n (let y = x in f y) (let y = x in f' y)"
  by simp

lemma fueled_loop: "\<forall>i. fueled n (f i) (f' i) \<Longrightarrow> fueled n (load_loop f i k) (load_loop f' i k)"
  by (induction k arbitrary: i) (simp_all add: fueled_return fueled_bind)

lemma fueled_split: "(\<And>a b. fueled n (f a b) (f' a b)) \<Longrightarrow> fueled n (case x of (a, b) \<Rightarrow> f a b) (case x of (a, b) \<Rightarrow> f' a b)"
  by (cases x) simp

lemmas fueled_intros = fueled_return fueled_fail fueled_byte fueled_block fueled_if fueled_loop
  fueled_split fueled_let

lemma fueled_int: "fueled n load_int load_int"
  unfolding load_int_def by (intro fueled_bind allI fueled_intros)

lemma fueled_string: "fueled n load_string load_string"
  unfolding load_string_def load_size_def by (intro fueled_bind allI fueled_intros)

lemma fueled_u32_vec: "fueled n (load_u32_vec k) (load_u32_vec k)"
  unfolding load_u32_vec_def by (intro fueled_bind allI fueled_intros) simp

lemma fueled_reserve: "fueled n (reserve k s) (reserve k s)"
  unfolding reserve_def by (intro fueled_intros) simp

lemma fueled_constants: "fueled n load_constants load_constants"
  unfolding load_constants_def load_constant_def load_number_def
  by (intro fueled_bind allI fueled_intros fueled_int fueled_reserve fueled_string) simp

lemma fueled_debug: "fueled n load_debug load_debug"
  unfolding load_debug_def load_local_var_def
  by (intro fueled_bind allI fueled_intros fueled_int fueled_reserve fueled_string fueled_u32_vec)

lemma fueled_header: "fueled n load_header load_header"
  unfolding load_header_def by (intro fueled_bind allI fueled_intros) simp_all

lemma fueled_source: "fueled n (load_source lp) (load_source lp)"
  unfolding load_source_def Let_def
  by (intro fueled_bind allI fueled_string) (auto intro: fueled_intros split: option.split)

lemma consumes_block: "0 < k \<Longrightarrow> consumes (load_block k)"
  by (auto simp: consumes_def load_block_def split: if_splits)

section \<open>Truncated input\<close>

text \<open>
  \<open>cut_ok f\<close>: a successful read stays inside the input; on a longer prefix of the same input it
  gives the same, on a shorter one it reports a truncated chunk.
\<close>

definition cut_ok :: "'a loader \<Rightarrow> bool" where
  "cut_ok f \<longleftrightarrow> (\<forall>data pos x pos'. f data pos = Inr (x, pos') \<longrightarrow> pos \<le> length data \<longrightarrow>
     pos \<le> pos' \<and> pos' \<le> length data
     \<and> (\<forall>m \<ge> pos. f (take m data) pos = (if pos' \<le> m then Inr (x, pos') else Inl (LErr ''truncated''))))"

lemma cut_okD:
  assumes "cut_ok f" "f data pos = Inr (x, pos')" "pos \<le> length data"
  shows "pos \<le> pos'" "pos' \<le> length data"
    "pos \<le> m \<Longrightarrow> f (take m data) pos = (if pos' \<le> m then Inr (x, pos') else Inl (LErr ''truncated''))"
  using assms unfolding cut_ok_def by blast+

lemma cut_bind:
  assumes f: "cut_ok f" and g: "\<forall>x. cut_ok (g x)"
  shows "cut_ok (load_bind f g)"
  unfolding cut_ok_def
proof (intro allI impI)
  fix data pos y pos' assume b: "load_bind f g data pos = Inr (y, pos')" and p: "pos \<le> length data"
  from b obtain x p1 where fx: "f data pos = Inr (x, p1)" and gx: "g x data p1 = Inr (y, pos')"
    by (auto simp: load_bind_def res_bind_Inr_iff)
  note fD = cut_okD [OF f fx p]
  note gD = cut_okD [OF g [THEN spec] gx fD(2)]
  have "load_bind f g (take m data) pos = (if pos' \<le> m then Inr (y, pos') else Inl (LErr ''truncated''))"
    if m: "pos \<le> m" for m
  proof (cases "p1 \<le> m")
    case True
    then show ?thesis using fD(3) [OF m] gD(3) [OF True] by (simp add: load_bind_def)
  next
    case False
    then show ?thesis using fD(3) [OF m] gD(1) by (simp add: load_bind_def)
  qed
  then show "pos \<le> pos' \<and> pos' \<le> length data \<and> (\<forall>m \<ge> pos. load_bind f g (take m data) pos =
      (if pos' \<le> m then Inr (y, pos') else Inl (LErr ''truncated'')))"
    using fD(1) gD(1,2) by auto
qed

lemma cut_return: "cut_ok (load_return x)"
  by (simp add: cut_ok_def load_return_def)

lemma cut_fail: "cut_ok (load_fail e)"
  by (simp add: cut_ok_def load_fail_def)

lemma cut_byte: "cut_ok load_byte"
  by (auto simp: cut_ok_def load_byte_def)

lemma cut_block: "cut_ok (load_block n)"
proof -
  have "take n (drop p (take m data)) = take n (drop p data)" if "p + n \<le> m" for p m :: nat and data :: "u8 list"
    using that by (simp add: drop_take min_def)
  then show ?thesis unfolding cut_ok_def load_block_def by (auto simp: min_def)
qed

lemma cut_if: "cut_ok f \<Longrightarrow> cut_ok g \<Longrightarrow> cut_ok (if b then f else g)"
  by simp

lemma cut_let: "cut_ok (f x) \<Longrightarrow> cut_ok (let y = x in f y)"
  by simp

lemma cut_loop: "\<forall>i. cut_ok (f i) \<Longrightarrow> cut_ok (load_loop f i k)"
  by (induction k arbitrary: i) (simp_all add: cut_return cut_bind)

lemma cut_split: "(\<And>a b. cut_ok (f a b)) \<Longrightarrow> cut_ok (case x of (a, b) \<Rightarrow> f a b)"
  by (cases x) simp

lemma cut_option: "cut_ok f \<Longrightarrow> (\<And>a. cut_ok (g a)) \<Longrightarrow> cut_ok (case x of None \<Rightarrow> f | Some a \<Rightarrow> g a)"
  by (cases x) simp_all

lemmas cut_intros = cut_return cut_fail cut_byte cut_block cut_if cut_loop cut_split cut_let cut_option

lemma cut_int: "cut_ok load_int"
  unfolding load_int_def by (intro cut_bind allI cut_intros)

lemma cut_string: "cut_ok load_string"
  unfolding load_string_def load_size_def by (intro cut_bind allI cut_intros)

lemma cut_reserve: "cut_ok (reserve k s)"
  unfolding reserve_def by (intro cut_intros)

lemma cut_source: "cut_ok (load_source lp)"
  unfolding load_source_def Let_def by (intro cut_bind allI cut_string cut_intros)

lemma cut_u32_vec: "cut_ok (load_u32_vec k)"
  unfolding load_u32_vec_def by (intro cut_bind allI cut_intros)

lemma cut_constants: "cut_ok load_constants"
  unfolding load_constants_def load_constant_def load_number_def
  by (intro cut_bind allI cut_intros cut_int cut_reserve cut_string)

lemma cut_debug: "cut_ok load_debug"
  unfolding load_debug_def load_local_var_def
  by (intro cut_bind allI cut_intros cut_int cut_reserve cut_string cut_u32_vec)

lemma cut_header: "cut_ok load_header"
  unfolding load_header_def by (intro cut_bind allI cut_intros)

lemma cut_function: "cut_ok (load_function fuel lp)"
  by (induction fuel arbitrary: lp; unfold load_function.simps)
    (intro cut_bind allI cut_intros cut_source cut_int cut_reserve cut_u32_vec cut_constants cut_debug; assumption?)+

lemma consumes_bind:
  assumes "consumes f" "\<forall>x. cut_ok (g x)" shows "consumes (load_bind f g)"
  unfolding consumes_def
proof (intro allI impI)
  fix data pos y pos' assume b: "load_bind f g data pos = Inr (y, pos')"
  then obtain x p1 where f: "f data pos = Inr (x, p1)" and g: "g x data p1 = Inr (y, pos')"
    by (auto simp: load_bind_def res_bind_Inr_iff)
  have p1: "pos < p1" "p1 \<le> length data" using assms(1) f unfolding consumes_def by blast+
  show "pos < pos' \<and> pos' \<le> length data"
    using cut_okD(1,2) [OF assms(2) [THEN spec] g p1(2)] p1(1) by linarith
qed

lemma consumes_source: "consumes (load_source lp)"
  unfolding load_source_def load_string_def load_size_def Let_def
  by (rule consumes_bind, rule consumes_bind, rule consumes_bind [OF consumes_block])
    (simp, (intro allI cut_bind cut_intros)+)

lemma fueled_function: "fueled n (load_function n lp) (load_function (n + k) lp)"
proof (induction n arbitrary: lp)
  case 0 show ?case by (simp add: fueled_def)
next
  case (Suc n)
  show ?case unfolding add_Suc load_function.simps
    by (rule fueled_bind_consumes [OF fueled_source consumes_source], intro allI, rule fueled_split)
      (intro fueled_bind allI fueled_intros fueled_int fueled_byte fueled_u32_vec fueled_constants
        fueled_reserve fueled_debug Suc)
qed


section \<open>The reader as a whole\<close>

lemma load_chunk_fueled: "fueled n (load_bind load_header (\<lambda>_. load_function n name))
   (load_bind load_header (\<lambda>_. load_function (n + k) name))"
  by (intro fueled_bind allI fueled_header fueled_function)

lemma undump_fuel_enough:
  assumes "length data < fuel"
  shows "undump_fuel fuel data name = undump data name" "undump data name \<noteq> Inl LFuel"
proof -
  obtain k where k: "fuel = length data + 1 + k" using assms by (metis Suc_eq_plus1 less_eq_Suc_le le_iff_add)
  note fD = fueledD [OF load_chunk_fueled [of "length data + 1" name k], of data 0]
  show "undump_fuel fuel data name = undump data name"
    using fD(1) by (simp add: undump_fuel_def undump_def k)
  show "undump data name \<noteq> Inl LFuel"
    using fD(2) by (auto simp: undump_fuel_def undump_def split: prod.splits
      elim!: res_bind.elims)
qed

text \<open>Reading always ends: no chunk, however malformed, makes the reader recurse or loop without
  bound. The fuel of the model is never the reason of an error, and any larger amount gives the same
  result.\<close>

theorem undump_terminates:
  "undump data name \<noteq> Inl LFuel \<and> (\<forall>fuel > length data. undump_fuel fuel data name = undump data name)"
  using undump_fuel_enough by blast

text \<open>C40. An accepted chunk ends somewhere inside its bytes: what follows that end is ignored, and
  every shorter prefix is refused with the message \<open>truncated\<close>, never with a wrong prototype, another
  message or a panic.\<close>

theorem undump_prefix:
  assumes "undump data name = Inr p"
  shows "\<exists>e \<le> length data. \<forall>m. undump (take m data) name = (if e \<le> m then Inr p else Inl (LErr ''truncated''))"
proof -
  let ?l = "load_bind load_header (\<lambda>_. load_function (length data + 1) name)"
  obtain e where e: "?l data 0 = Inr (p, e)"
    using assms by (auto simp: undump_def undump_fuel_def res_bind_Inr_iff)
  have cut: "cut_ok ?l" by (intro cut_bind allI cut_header cut_function)
  have "undump (take m data) name = (if e \<le> m then Inr p else Inl (LErr ''truncated''))" for m
  proof -
    have "undump (take m data) name = undump_fuel (length data + 1) (take m data) name"
      by (rule undump_fuel_enough(1) [symmetric]) simp
    then show ?thesis using cut_okD(3) [OF cut e, of m] by (simp add: undump_fuel_def)
  qed
  then show ?thesis using cut_okD(2) [OF cut e] by blast
qed

text \<open>\<open>fails f bs e\<close>: wherever the input goes on with \<open>bs\<close>, the reader stops with \<open>e\<close>.\<close>

definition fails :: "'a loader \<Rightarrow> u8 list \<Rightarrow> load_error \<Rightarrow> bool" where
  "fails f bs e \<longleftrightarrow> (\<forall>data pos rest. drop pos data = bs @ rest \<and> pos \<le> length data \<and> length data < 2 ^ 63
     \<longrightarrow> f data pos = Inl e)"

lemma fails_bind:
  assumes "reads f bs x" "fails (g x) cs e" shows "fails (load_bind f g) (bs @ cs) e"
  unfolding fails_def
proof (intro allI impI, elim conjE)
  fix data pos rest
  assume d: "drop pos data = (bs @ cs) @ rest" "pos \<le> length data" "length data < 2 ^ 63"
  have f: "f data pos = Inr (x, pos + length bs)" using assms(1) d by (simp add: reads_def)
  have l: "length data - pos = length ((bs @ cs) @ rest)" using arg_cong [OF d(1), of length] by simp
  have "drop (pos + length bs) data = drop (length bs) (drop pos data)" by (simp add: add.commute)
  also have "\<dots> = cs @ rest" unfolding d(1) by simp
  finally have "g x data (pos + length bs) = Inl e"
    using assms(2) d l by (simp add: fails_def)
  then show "load_bind f g data pos = Inl e" using f by (simp add: load_bind_def)
qed

lemma fails_first: "fails f bs e \<Longrightarrow> fails (load_bind f g) bs e"
  by (simp add: fails_def load_bind_def)

lemma as_usize_negative:
  assumes "sint n < 0" shows "2 ^ 63 \<le> as_usize n"
proof -
  have r: "- (2 ^ 31) \<le> sint n" using sint_ge [of n] by simp
  have "uint (scast n :: u64) = sint n mod 2 ^ LENGTH(64)" by (subst scast_eq) (rule uint_word_of_int)
  then have "uint (scast n :: u64) = sint n mod 2 ^ 64" by simp
  also have "\<dots> = (sint n + 2 ^ 64) mod 2 ^ 64" by simp
  also have "\<dots> = sint n + 2 ^ 64" using assms r by (intro mod_pos_pos_trivial) simp_all
  finally have "int (as_usize n) = sint n + 2 ^ 64" by (simp add: as_usize_def)
  then have "int (2 ^ 63) \<le> int (as_usize n)" using r by simp
  then show ?thesis by (simp only: of_nat_le_iff)
qed

lemma fails_negative_constants:
  assumes "sint n < 0" shows "fails load_constants (dump_int n) LPanic"
proof -
  have "fails (reserve (as_usize n) 16) [] LPanic"
    using as_usize_negative [OF assms] by (simp add: fails_def reserve_def load_fail_def)
  then show ?thesis unfolding load_constants_def
    using fails_bind [OF reads_int fails_first, of _ n "[]"] by simp
qed

text \<open>A chunk whose constant count is negative is not refused as the documentation of the reader
  says: the count, sign-extended to a size, is asked of the allocator, and the reader panics.\<close>

theorem negative_count_panics:
  assumes "sint n < 0" "chunkid name \<noteq> None"
    "data = dump_header @ dump_string None @ dump_int l0 @ dump_int l1 @ dump_byte a @ dump_byte b
       @ dump_byte c @ dump_byte d @ dump_int 0 @ dump_int n @ rest"
    "length data < 2 ^ 63"
  shows "undump data name = Inl LPanic"
proof -
  obtain short where short: "chunkid name = Some short" using assms(2) by blast
  have src: "reads (load_source name) (dump_string None) (name, short)"
    unfolding load_source_def by (rule reads_last, rule reads_string) (simp add: short reads_return)
  have code: "reads load_int (dump_int 0) 0" "reads (load_u32_vec (as_usize 0)) [] []"
    using reads_int reads_u32_vec [of "[]"] by (simp_all add: as_usize_def)
  have "fails (load_function (length data + 1) name) (dump_string None @ dump_int l0 @ dump_int l1
      @ dump_byte a @ dump_byte b @ dump_byte c @ dump_byte d @ dump_int 0 @ [] @ dump_int n) LPanic"
    unfolding Suc_eq_plus1 [symmetric] load_function.simps
    by (rule fails_bind [OF src], unfold prod.case, rule fails_bind [OF reads_int], rule fails_bind [OF reads_int],
        rule fails_bind [OF reads_byte], rule fails_bind [OF reads_byte], rule fails_bind [OF reads_byte],
        rule fails_bind [OF reads_byte], rule fails_bind [OF code(1)], rule fails_bind [OF code(2)],
        rule fails_first, rule fails_negative_constants [OF assms(1)])
  then have "fails (load_bind load_header (\<lambda>_. load_function (length data + 1) name)) (dump_header
      @ dump_string None @ dump_int l0 @ dump_int l1
      @ dump_byte a @ dump_byte b @ dump_byte c @ dump_byte d @ dump_int 0 @ [] @ dump_int n) LPanic"
    by (rule fails_bind [OF reads_header])
  then have "load_bind load_header (\<lambda>_. load_function (length data + 1) name) data 0 = Inl LPanic"
    using assms(3,4) by (auto simp: fails_def)
  then show ?thesis by (simp add: undump_def undump_fuel_def)
qed

section \<open>Concrete chunks\<close>

definition sample_child :: Proto where
  "sample_child = Proto [30] [VNum 5, VBool True] [] [2] [] [] (ascii ''=f'') (ascii ''f'') 1 3 0 0 2 2 [] []"

definition sample :: Proto where
  "sample = Proto [1, 2] [VNil, VNil, VBool False] [sample_child] [1, 1] [LocalVar (ascii ''x'') 0 1] [ascii ''u'']
     (ascii ''=f'') (ascii ''f'') 0 0 1 0 2 3 [StringPoolEntry 1 (ascii ''hi'') 0] []"

lemma dump_lengths:
  "length (dump_byte b) = 1" "length (dump_int n) = 4" "length (dump_size m) = 8" "length (dump_number x) = 8"
  "length (dump_string s) = (case s of None \<Rightarrow> 8 | Some bs \<Rightarrow> length bs + 9)"
  "length (dump_code p) = 4 + 4 * length (pr_code p)"
  "length (dump_debug strip p) = (if strip then 12 else 12 + 4 * length (pr_line_info p)
     + sum_list (map (\<lambda>v. length (lv_name v) + 17) (pr_local_vars p))
     + sum_list (map (\<lambda>n. length n + 9) (pr_upvalue_names p)))"
proof -
  show a: "length (dump_byte b) = 1" "length (dump_int n) = 4" "length (dump_size m) = 8" "length (dump_number x) = 8"
    by (simp_all add: dump_byte_def dump_int_def dump_size_def dump_number_def)
  show s: "length (dump_string s) = (case s of None \<Rightarrow> 8 | Some bs \<Rightarrow> length bs + 9)" for s
    by (simp add: dump_string_def dump_size_def dump_byte_def split: option.split)
  show "length (dump_code p) = 4 + 4 * length (pr_code p)"
    using length_concat_le_bytes [of 4 "pr_code p"] by (simp add: dump_code_def dump_int_def)
  have i: "length (dump_int n) = 4" for n by (simp add: dump_int_def)
  show "length (dump_debug strip p) = (if strip then 12 else 12 + 4 * length (pr_line_info p)
     + sum_list (map (\<lambda>v. length (lv_name v) + 17) (pr_local_vars p))
     + sum_list (map (\<lambda>n. length n + 9) (pr_upvalue_names p)))"
    by (simp add: dump_debug_def dump_local_var_def i s length_concat comp_def sum_list_triv ac_simps)
qed

lemma sample_sel:
  "pr_code sample = [1, 2]" "pr_constants sample = [VNil, VNil, VBool False]" "pr_protos sample = [sample_child]"
  "pr_line_info sample = [1, 1]" "pr_local_vars sample = [LocalVar (ascii ''x'') 0 1]"
  "pr_upvalue_names sample = [ascii ''u'']" "pr_source sample = ascii ''=f''"
  "pr_string_pool sample = [StringPoolEntry 1 (ascii ''hi'') 0]"
  "pr_code sample_child = [30]" "pr_constants sample_child = [VNum 5, VBool True]" "pr_protos sample_child = []"
  "pr_line_info sample_child = [2]" "pr_local_vars sample_child = []" "pr_upvalue_names sample_child = []"
  "pr_source sample_child = ascii ''=f''" "pr_string_pool sample_child = []"
  by (simp_all add: sample_def sample_child_def)

lemma sample_ok: "dumpable sample" "pr_source sample \<noteq> []" "length (dump sample None False) < 2 ^ 63"
proof -
  have u: "valid_utf8 (ascii ''=f'')" "valid_utf8 (ascii ''x'')" "valid_utf8 (ascii ''u'')"
    "chunkid (ascii ''=f'') \<noteq> None"
    by code_simp+
  then show "dumpable sample" by (simp add: sample_def sample_child_def)
  show "pr_source sample \<noteq> []" by (simp add: sample_def ascii_def)
  show "length (dump sample None False) < 2 ^ 63"
    by (simp add: dump_def dump_header_def LUA_SIGNATURE_def dump_function.simps [of None False sample]
        dump_function.simps [of None False sample_child] dump_lengths sample_sel dump_constant_def pool_find_def)
qed

lemma undump_dump_witness:
  "undump (dump sample None False) (ascii ''name'') = Inr (loaded None False sample)"
  by (rule undump_dump [OF sample_ok])

lemma redump_identical_witness:
  "dump (loaded None False sample) None True = dump sample None (False \<or> True)"
  by (rule redump_identical [OF sample_ok(1)])

lemma undump_terminates_witness:
  "undump_fuel 100 [1, 2, 3] [] = undump [1, 2, 3] []"
  using undump_terminates [of "[1, 2, 3]" "[]"] by simp

lemma negative_count_panics_witness:
  "undump (dump_header @ dump_string None @ dump_int 0 @ dump_int 0 @ dump_byte 0 @ dump_byte 0
       @ dump_byte 0 @ dump_byte 2 @ dump_int 0 @ dump_int (- 1) @ []) (ascii ''=x'') = Inl LPanic"
proof (rule negative_count_panics [OF _ _ refl])
  show "chunkid (ascii ''=x'') \<noteq> None" by code_simp
  have "length (dump_header @ dump_string None @ dump_int 0 @ dump_int 0 @ dump_byte 0 @ dump_byte 0
       @ dump_byte 0 @ dump_byte 2 @ dump_int 0 @ dump_int (- 1) @ []) = 40" by code_simp
  then show "length (dump_header @ dump_string None @ dump_int 0 @ dump_int 0 @ dump_byte 0 @ dump_byte 0
       @ dump_byte 0 @ dump_byte 2 @ dump_int 0 @ dump_int (- 1) @ []) < 2 ^ 63" by simp
qed simp

lemma undump_prefix_witness:
  "\<exists>e \<le> length (dump sample None False). \<forall>m. undump (take m (dump sample None False)) []
     = (if e \<le> m then Inr (loaded None False sample) else Inl (LErr ''truncated''))"
  by (rule undump_prefix [OF undump_written [OF sample_ok]])

end
