(* ===== verification/ParseProps.thy ===== *)
theory ParseProps
  imports LexProps Parser
begin

text \<open>
  The parser ends on every text: its recursion is as deep as the syntax levels allow and every round of a loop
  consumes a token.
\<close>

section \<open>Tokens left\<close>

definition weight :: "Token \<Rightarrow> nat" where "weight t = (if t = T_Eos then 0 else 1)"

definition tokens_left :: "parser \<Rightarrow> nat" where
  "tokens_left p = left (ps_lexer p) + (case lx_lookahead (ps_lexer p) of None \<Rightarrow> 0 | Some t \<Rightarrow> weight (fst t)) + weight (ps_current p)"

definition steady :: "parser \<Rightarrow> bool" where
  "steady p \<longleftrightarrow> whole (ps_lexer p) \<and> ps_current_kind p = token_kind (ps_current p)"

abbreviation source_name :: "parser \<Rightarrow> rstring" where "source_name p \<equiv> lx_source_name (ps_lexer p)"

text \<open>An error of syntax; a message with raw bytes also needs the display name of the source.\<close>

definition honest :: "rstring \<Rightarrow> failure \<Rightarrow> bool" where
  "honest name e \<longleftrightarrow> (\<exists>s. e = FSyntax s) \<or> e = FPanic \<and> chunkid name = None"

text \<open>
  What an operation does to a parser at a level with fewer than so many tokens left: it fails honestly, or it
  ends at another level and has consumed so many tokens.
\<close>

definition outcome :: "nat \<Rightarrow> nat \<Rightarrow> parser \<Rightarrow> parser \<times> (failure, 'a) res \<Rightarrow> bool" where
  "outcome D d p r \<longleftrightarrow> (case r of (p', Inl e) \<Rightarrow> honest (source_name p) e
     | (p', Inr x) \<Rightarrow> steady p' \<and> source_name p' = source_name p \<and> unat (ps_syntax_depth p') = D \<and> tokens_left p' + d \<le> tokens_left p)"

definition ready :: "nat \<Rightarrow> nat \<Rightarrow> parser \<Rightarrow> bool" where
  "ready D k p \<longleftrightarrow> steady p \<and> unat (ps_syntax_depth p) = D \<and> tokens_left p < k"

definition runs :: "nat \<Rightarrow> nat \<Rightarrow> nat \<Rightarrow> nat \<Rightarrow> 'a pop \<Rightarrow> bool" where
  "runs D D' k d m \<longleftrightarrow> (\<forall>p. ready D k p \<longrightarrow> outcome D' d p (m p))"

lemma runsI: "(\<And>p. ready D k p \<Longrightarrow> outcome D' d p (m p)) \<Longrightarrow> runs D D' k d m" by (simp add: runs_def)
lemma runsD: "runs D D' k d m \<Longrightarrow> ready D k p \<Longrightarrow> outcome D' d p (m p)" by (simp add: runs_def)

lemma outcome_fail [simp]: "outcome D d p (p', Inl e) = honest (source_name p) e" by (simp add: outcome_def)
lemma outcome_ok: "outcome D d p (p', Inr x) = (steady p' \<and> source_name p' = source_name p \<and> unat (ps_syntax_depth p') = D
    \<and> tokens_left p' + d \<le> tokens_left p)" by (simp add: outcome_def)

abbreviation ok :: "nat \<Rightarrow> nat \<Rightarrow> 'a pop \<Rightarrow> bool" where "ok D k m \<equiv> runs D D k 0 m"
abbreviation eat :: "nat \<Rightarrow> nat \<Rightarrow> 'a pop \<Rightarrow> bool" where "eat D k m \<equiv> runs D D k 1 m"

lemma outcome_bind:
  assumes "outcome D1 d p (m p)" "ready D k p" "\<And>x p1. m p = (p1, Inr x) \<Longrightarrow> ready D1 (k - d) p1 \<Longrightarrow> outcome D2 e p1 (f x p1)"
  shows "outcome D2 (d + e) p (obind m f p)"
proof -
  obtain p1 r where r: "m p = (p1, r)" by (cases "m p")
  show ?thesis
  proof (cases r)
    case (Inl e)
    then show ?thesis using assms(1) r by (simp add: obind_def)
  next
    case (Inr x)
    then have 1: "steady p1" "source_name p1 = source_name p" "unat (ps_syntax_depth p1) = D1" "tokens_left p1 + d \<le> tokens_left p"
      using assms(1) r by (auto simp: outcome_ok)
    then have "ready D1 (k - d) p1" using assms(2) by (auto simp: ready_def)
    then have "outcome D2 e p1 (f x p1)" using assms(3) r Inr by simp
    then show ?thesis using 1 r Inr by (cases "f x p1"; cases "snd (f x p1)") (auto simp: outcome_ok obind_def)
  qed
qed

lemma runs_bind:
  assumes "runs D D1 k d m" "\<And>x. runs D1 D2 (k - d) e (f x)"
  shows "runs D D2 k (d + e) (obind m f)"
  using assms by (auto intro!: runsI outcome_bind dest: runsD)

lemma runs_less: "runs D D' k d m \<Longrightarrow> e \<le> d \<Longrightarrow> j \<le> k \<Longrightarrow> runs D D' j e m"
proof (rule runsI)
  fix p
  assume r: "runs D D' k d m" and l: "e \<le> d" "j \<le> k" and p: "ready D j p"
  then have "outcome D' d p (m p)" by (intro runsD [OF r]) (auto simp: ready_def)
  then show "outcome D' e p (m p)" using l(1) by (cases "m p"; cases "snd (m p)") (auto simp: outcome_ok)
qed

text \<open>The rules where the level stays the same.\<close>

lemma ok_bind: "ok D k m \<Longrightarrow> (\<And>x. ok D k (f x)) \<Longrightarrow> ok D k (obind m f)"
  using runs_bind [of D D k 0 m D 0 f] by simp

lemma eat_bind1: "eat D k m \<Longrightarrow> (\<And>x. ok D (k - 1) (f x)) \<Longrightarrow> eat D k (obind m f)"
  using runs_bind [of D D k 1 m D 0 f] by simp

lemma eat_bind2: "ok D k m \<Longrightarrow> (\<And>x. eat D k (f x)) \<Longrightarrow> eat D k (obind m f)"
  using runs_bind [of D D k 0 m D 1 f] by simp

lemma ok_if_eat: "eat D k m \<Longrightarrow> ok D k m" by (erule runs_less) simp_all

lemma ok_bind1: "eat D k m \<Longrightarrow> (\<And>x. ok D (k - 1) (f x)) \<Longrightarrow> ok D k (obind m f)"
  by (rule ok_if_eat, rule eat_bind1)

lemma ok_less: "ok D k m \<Longrightarrow> j \<le> k \<Longrightarrow> ok D j m" by (erule runs_less) simp_all

lemma ok_othen: "ok D k m \<Longrightarrow> ok D k n \<Longrightarrow> ok D k (othen m n)"
  unfolding othen_def by (rule ok_bind)

lemma ok_if: "(b \<Longrightarrow> runs D D' k d m) \<Longrightarrow> (\<not> b \<Longrightarrow> runs D D' k d n) \<Longrightarrow> runs D D' k d (if b then m else n)" by simp

section \<open>Elementary operations\<close>

lemma runs_oret [simp]: "ok D k (oret x)" by (simp add: runs_def oret_def outcome_ok ready_def)

lemma runs_get: "(\<And>x. runs D D' k d (f x)) \<Longrightarrow> runs D D' k d (obind (oget g) f)"
  by (simp add: runs_def)

lemma runs_error [simp]: "runs D D' k d (p_syntax_error msg)"
  by (simp add: runs_def p_syntax_error_def honest_def)

lemma runs_near [simp]: "runs D D' k d (p_syntax_error_near msg)"
  by (auto simp: runs_def p_syntax_error_near_def honest_def Let_def raw_near_def split: Token.split option.split)

lemma runs_expected [simp]: "runs D D' k d (error_expected msg)"
  by (simp add: error_expected_def)

lemma runs_mod:
  assumes "\<And>p. ps_lexer (g p) = ps_lexer p \<and> ps_current (g p) = ps_current p \<and> ps_current_kind (g p) = ps_current_kind p
    \<and> ps_syntax_depth (g p) = ps_syntax_depth p"
  shows "ok D k (omod g)"
  using assms by (simp add: runs_def omod_def outcome_ok ready_def steady_def tokens_left_def)

text \<open>The lexer behind a parser.\<close>

lemma scan_whole:
  assumes "whole l" "scan E l = (l1, r)"
  shows "(\<exists>s. r = Inl (FSyntax s)) \<or> (\<exists>t span. r = Inr (t, span) \<and> whole l1 \<and> lx_source_name l1 = lx_source_name l
    \<and> lx_lookahead l1 = lx_lookahead l \<and> left l1 + weight t \<le> left l)"
proof -
  have m: "moves 0 l (l1, r)" "token_at_end r \<or> moves 1 l (l1, r)"
    using moves_scan_n [OF assms(1) lessI, of E] assms(2) by (simp_all add: scan_def rounds_whole [OF assms(1)])
  show ?thesis
  proof (cases r)
    case (Inl e)
    then show ?thesis using m(1) by (auto simp: moves_def)
  next
    case (Inr x)
    obtain t span where x: "x = (t, span)" by (cases x)
    have "left l1 + weight t \<le> left l"
      using m Inr x by (auto simp: moves_def left_def weight_def token_at_end_def whole_def)
    then show ?thesis using m(1) Inr x by (auto simp: moves_def)
  qed
qed

lemma runs_advance:
  assumes "ps_current p \<noteq> T_Eos \<longrightarrow> d \<le> 1" "ps_current p = T_Eos \<longrightarrow> d = 0" "steady p"
  shows "case p_advance E p of (p', Inl e) \<Rightarrow> honest (source_name p) e
       | (p', Inr x) \<Rightarrow> x = (ps_current p, ps_span p) \<and> steady p' \<and> source_name p' = source_name p
          \<and> ps_syntax_depth p' = ps_syntax_depth p \<and> tokens_left p' + d \<le> tokens_left p"
proof (cases "lx_lookahead (ps_lexer p)")
  case None
  obtain l1 r where r: "scan E (ps_lexer p) = (l1, r)" by (cases "scan E (ps_lexer p)")
  have "whole (ps_lexer p)" using assms(3) by (simp add: steady_def)
  from scan_whole [OF this r] show ?thesis
    using None r assms by (auto simp: p_advance_def next_token_def Let_def honest_def steady_def tokens_left_def weight_def)
next
  case (Some t)
  then show ?thesis using assms
    by (cases t) (auto simp: p_advance_def next_token_def Let_def steady_def tokens_left_def weight_def whole_def left_def)
qed

lemma ok_advance: "ok D k (p_advance E)"
proof (rule runsI)
  fix p
  assume "ready D k p"
  then show "outcome D 0 p (p_advance E p)"
    using runs_advance [of p 0 E] by (cases "p_advance E p"; cases "snd (p_advance E p)") (auto simp: outcome_ok ready_def)
qed

text \<open>A token is consumed where the current one is known.\<close>

definition eat_at :: "nat \<Rightarrow> nat \<Rightarrow> Token \<Rightarrow> 'a pop \<Rightarrow> bool" where
  "eat_at D k t m \<longleftrightarrow> (\<forall>p. ready D k p \<and> ps_current p = t \<longrightarrow> outcome D 1 p (m p))"

lemma eat_current: "(\<And>t. eat_at D k t (f t)) \<Longrightarrow> eat D k (obind (oget ps_current) f)"
  unfolding runs_def eat_at_def by simp

lemma eat_at_eat: "eat D k m \<Longrightarrow> eat_at D k t m"
  unfolding runs_def eat_at_def by blast

lemma eat_at_if: "(b \<Longrightarrow> eat_at D k t m) \<Longrightarrow> (\<not> b \<Longrightarrow> eat_at D k t n) \<Longrightarrow> eat_at D k t (if b then m else n)" by simp

lemma eat_at_get: "(\<And>x. eat_at D k t (f x)) \<Longrightarrow> eat_at D k t (obind (oget g) f)"
  by (simp add: eat_at_def)

lemma eat_at_advance:
  assumes "t \<noteq> T_Eos" "\<And>span. ok D (k - 1) (f (t, span))"
  shows "eat_at D k t (obind (p_advance E) f)"
  unfolding eat_at_def
proof (intro allI impI)
  fix p
  assume p: "ready D k p \<and> ps_current p = t"
  obtain p1 r where r: "p_advance E p = (p1, r)" by (cases "p_advance E p")
  have a: "case r of Inl e \<Rightarrow> honest (source_name p) e
      | Inr x \<Rightarrow> x = (t, ps_span p) \<and> outcome D 1 p (p1, r)"
    using runs_advance [of p 1 E] r p assms(1) by (auto simp: ready_def outcome_ok split: sum.splits)
  have "outcome D (1 + 0) p (obind (p_advance E) f p)"
    using a r assms(2) p by (intro outcome_bind [where k = k]) (auto intro: runsD split: sum.splits)
  then show "outcome D 1 p (obind (p_advance E) f p)" by simp
qed

lemma eat_at_skip: "t \<noteq> T_Eos \<Longrightarrow> ok D (k - 1) m \<Longrightarrow> eat_at D k t (othen (skip_token E) m)"
  using eat_at_advance [of t D k "\<lambda>_. m" E]
  by (simp add: skip_token_def othen_def obind_assoc)

lemma ok_skip: "ok D k (skip_token E)"
  unfolding skip_token_def by (intro ok_bind ok_advance runs_oret)

lemma kind_eos: "token_kind t = K_Tok T_Eos \<longleftrightarrow> t = T_Eos"
  by (cases t) (simp_all add: token_kind_def)

text \<open>The same where the kind of the current token was checked.\<close>

lemma eat_kind:
  assumes "kind \<noteq> K_Tok T_Eos" "ok D (k - 1) m" "runs D D k 1 n"
  shows "eat D k (obind (oget (\<lambda>p. ps_current_kind p = kind)) (\<lambda>b. if b then othen (skip_token E) m else n))"
proof (rule runsI)
  fix p
  assume p: "ready D k p"
  show "outcome D 1 p (obind (oget (\<lambda>p. ps_current_kind p = kind)) (\<lambda>b. if b then othen (skip_token E) m else n) p)"
  proof (cases "ps_current_kind p = kind")
    case True
    then have "ps_current p \<noteq> T_Eos" using p assms(1) by (auto simp: ready_def steady_def kind_eos)
    then show ?thesis using eat_at_skip [OF _ assms(2), of "ps_current p" E] p True unfolding eat_at_def by simp
  next
    case False
    then show ?thesis using runsD [OF assms(3) p] by simp
  qed
qed

lemma ok_test:
  "ok D k (test_next E t)" "ok D k (test_next_char E c)" "ok D k (check t)" "ok D k (check_char c)" "ok D k (oget g)"
proof -
  show get: "ok D k (oget g)" for g :: "parser \<Rightarrow> 'b" by (simp add: runs_def oget_def outcome_ok ready_def)
  show "ok D k (check t)" "ok D k (check_char c)" by (simp_all add: check_def check_char_def get)
  then show "ok D k (test_next E t)" "ok D k (test_next_char E c)" unfolding test_next_def test_next_char_def
    by (auto intro!: ok_bind ok_othen ok_skip)
qed

lemma eat_expect: "t \<noteq> T_Eos \<Longrightarrow> eat D k (expect E t)" "eat D k (expect_char E c)"
proof -
  have s: "(obind (oget ps_span) (\<lambda>s. othen (skip_token E) (oret s))) = (\<lambda>p. othen (skip_token E) (oret (ps_span p)) p)"
    by (simp add: fun_eq_iff)
  have "eat D k (obind (oget (\<lambda>p. ps_current_kind p = kind)) (\<lambda>b. if b then obind (oget ps_span) (\<lambda>s. othen (skip_token E) (oret s)) else error_expected m))"
    if kind: "kind \<noteq> K_Tok T_Eos" for kind and m
  proof -
    have step: "eat D k (obind (oget (\<lambda>p. ps_current_kind p = kind)) (\<lambda>b. if b then othen (skip_token E) (oret x) else error_expected m))" for x
      by (intro eat_kind kind runs_oret runs_expected)
    show ?thesis
    proof (rule runsI)
      fix p
      assume "ready D k p"
      from runsD [OF step this, of "ps_span p"]
      show "outcome D 1 p (obind (oget (\<lambda>p. ps_current_kind p = kind)) (\<lambda>b. if b then obind (oget ps_span) (\<lambda>s. othen (skip_token E) (oret s)) else error_expected m) p)"
        by (cases "ps_current_kind p = kind") simp_all
    qed
  qed
  note e = this
  show "t \<noteq> T_Eos \<Longrightarrow> eat D k (expect E t)" unfolding expect_def check_def by (intro e) (simp add: kind_eos)
  show "eat D k (expect_char E c)" unfolding expect_char_def check_char_def by (intro e) simp
qed

lemma eat_name: "eat D k (expect_name E)"
proof -
  let ?m = "\<lambda>span. obind (p_advance E) (\<lambda>t. case fst t of T_Name name \<Rightarrow> oret (name, span) | _ \<Rightarrow> error_expected (ascii ''<name>''))"
  have "eat D k (obind (oget ps_current_kind) (\<lambda>kind. if kind \<noteq> K_Name then error_expected (ascii ''<name>'') else ?m span))" for span
  proof (rule runsI)
    fix p
    assume p: "ready D k p"
    have "eat_at D k (ps_current p) (?m span)" if "ps_current p \<noteq> T_Eos"
      using that by (rule eat_at_advance) (simp split: Token.split)
    moreover have "ps_current_kind p = K_Name \<Longrightarrow> ps_current p \<noteq> T_Eos"
      using p by (auto simp: ready_def steady_def token_kind_def)
    ultimately show "outcome D 1 p (obind (oget ps_current_kind) (\<lambda>kind. if kind \<noteq> K_Name then error_expected (ascii ''<name>'') else ?m span) p)"
      using p runsD [OF runs_expected [of D D k 1 "ascii ''<name>''"] p]
      unfolding eat_at_def by (cases "ps_current_kind p = K_Name") simp_all
  qed
  then show ?thesis unfolding expect_name_def by (rule runs_get)
qed

lemma ok_match: "ok D k (check_match E close opening line)"
  unfolding check_match_def
  by (intro ok_bind ok_test ok_if ok_skip runs_expected runs_near)


text \<open>Levels.\<close>

lemma depth_step: "unat (d :: u32) = D \<Longrightarrow> D \<le> 200 \<Longrightarrow> unat (d + 1) = Suc D"
  by (subst unat_plus_simple [THEN iffD1]) (auto simp: word_le_nat_alt unat_word_ariths)

lemma runs_enter: "runs D D k d (othen enter_level m)" if "D \<le> 200" "D < 200 \<Longrightarrow> runs (Suc D) D k d m"
proof (rule runsI)
  fix p
  assume p: "ready D k p"
  let ?p = "p\<lparr>ps_syntax_depth := ps_syntax_depth p + 1\<rparr>"
  have d: "unat (ps_syntax_depth ?p) = Suc D" using p that(1) by (simp add: ready_def depth_step)
  show "outcome D d p (othen enter_level m p)"
  proof (cases "D < 200")
    case True
    then have "ready (Suc D) k ?p" "\<not> MAX_SYNTAX_LEVELS < ps_syntax_depth ?p"
      using p d by (simp_all add: ready_def steady_def tokens_left_def MAX_SYNTAX_LEVELS_def word_less_nat_alt)
    then have "outcome D d ?p (m ?p)" "enter_level p = (?p, Inr ())"
      using runsD [OF that(2) [OF True]] by (simp_all add: enter_level_def Let_def)
    then show ?thesis
      by (cases "m ?p"; cases "snd (m ?p)") (auto simp: othen_def obind_def outcome_ok tokens_left_def)
  next
    case False
    then have "MAX_SYNTAX_LEVELS < ps_syntax_depth ?p"
      using d that(1) by (simp add: MAX_SYNTAX_LEVELS_def word_less_nat_alt)
    then show ?thesis by (simp add: othen_def obind_def enter_level_def Let_def p_syntax_error_def honest_def)
  qed
qed

lemma runs_leave: "runs (Suc D) D k 0 (othen leave_level (oret x))"
proof (rule runsI)
  fix p
  assume p: "ready (Suc D) k p"
  then have "unat (ps_syntax_depth p - 1) = D" by (subst unat_minus_one) (auto simp: ready_def)
  then show "outcome D 0 p (othen leave_level (oret x) p)"
    using p by (simp add: leave_level_def othen_def oret_def outcome_ok ready_def steady_def tokens_left_def)
qed

section \<open>The parts of the parser\<close>

lemma ok_modify:
  "ok D k (omod (\<lambda>p. p\<lparr>ps_loop_depth := f p\<rparr>))" "ok D k (omod (\<lambda>p. p\<lparr>ps_func_scopes := g p\<rparr>))"
  "ok D k (omod (\<lambda>p. p\<lparr>ps_loop_depth := f p, ps_func_scopes := g p\<rparr>))" "ok D k (restore_locals saved)"
  by (auto intro!: runs_mod simp: restore_locals_def set_scope_def split: option.split)

lemma ok_register: "ok D k (register_locals n)"
proof (rule runsI)
  fix p
  assume p: "ready D k p"
  show "outcome D 0 p (register_locals n p)"
    using p runsD [OF runs_error p, of D 0] 
    by (auto simp: register_locals_def Let_def outcome_ok ready_def steady_def tokens_left_def set_scope_def)
qed

lemma ok_register_named: "ok D k (register_locals_named names)"
  unfolding register_locals_named_def by (intro ok_othen ok_register runs_mod) (simp add: set_scope_def)

lemma ok_upvalues: "ok D k (check_name_upvalue name)"
proof -
  have add: "ok D k (add_upvalues js name)" for js
  proof (induction js)
    case (Cons j js)
    show ?case
    proof (rule runsI)
      fix p
      assume p: "ready D k p"
      let ?p = "set_scope j (\<lambda>s. s\<lparr>fs_upvalue_names := fs_upvalue_names s @ [name]\<rparr>) p"
      have "ready D k ?p" using p by (simp add: ready_def steady_def tokens_left_def set_scope_def)
      then have "outcome D 0 ?p (add_upvalues js name ?p)" by (rule runsD [OF Cons])
      then have "outcome D 0 p (add_upvalues js name ?p)"
        by (cases "add_upvalues js name ?p"; cases "snd (add_upvalues js name ?p)")
          (auto simp: outcome_ok tokens_left_def set_scope_def)
      then show "outcome D 0 p (add_upvalues (j # js) name p)"
        using runsD [OF Cons p] by (simp add: Let_def runs_error [THEN runsD, OF p])
    qed
  qed simp
  show ?thesis
  proof (rule runsI)
    fix p
    assume p: "ready D k p"
    show "outcome D 0 p (check_name_upvalue name p)"
      using p runsD [OF add p]
      by (auto simp: check_name_upvalue_def Let_def outcome_ok ready_def split: option.split)
  qed
qed

text \<open>Loops have a round for every token that is left.\<close>

lemma rounds_enough: "steady p \<Longrightarrow> tokens_left p < prounds p"
  by (auto simp: prounds_def tokens_left_def steady_def rounds_whole weight_def split: option.split)

lemma ok_rounds: "(\<And>n. ok D n (m n)) \<Longrightarrow> ok D k (\<lambda>p. m (prounds p) p)"
  using rounds_enough by (fastforce simp: runs_def ready_def)

lemma ok_rounds2: "(\<And>n. runs D D' n d (m n)) \<Longrightarrow> runs D D' k d (\<lambda>p. m (prounds p) p)"
  using rounds_enough by (fastforce simp: runs_def ready_def)

lemma ok_names: "ok D k (more_names E sep names)"
proof -
  have "ok D n (names_n n E sep names)" for n names
  proof (induction n arbitrary: names)
    case (Suc n)
    show ?case unfolding names_n.simps
      by (rule ok_bind [OF ok_test(2)], intro ok_if, rule ok_bind1 [OF eat_name]) (simp_all add: Suc)
  qed (simp add: runs_def ready_def)
  then show ?thesis unfolding more_names_def [abs_def] by (rule ok_rounds [where m = "\<lambda>n. names_n n E sep names"])
qed


lemma ok_exprs:
  assumes "\<And>k. eat D k expr"
  shows "ok D k (more_exprs E expr es)"
proof -
  have "ok D n (exprs_n n E expr es)" for n es
  proof (induction n arbitrary: es)
    case (Suc n)
    show ?case unfolding exprs_n.simps
      by (rule ok_bind [OF ok_test(2)], intro ok_if, rule ok_bind1 [OF assms]) (simp_all add: Suc)
  qed (simp add: runs_def ready_def)
  then show ?thesis unfolding more_exprs_def [abs_def] by (rule ok_rounds [where m = "\<lambda>n. exprs_n n E expr es"])
qed

lemma eat_expr_list: "(\<And>k. eat D k expr) \<Longrightarrow> eat D k (parse_expr_list E expr)"
  unfolding parse_expr_list_def by (rule eat_bind1) (auto intro: ok_exprs)

lemma ok_params: "ok D k (parse_params E)"
proof -
  have "ok D n (params_n n E params)" for n params
  proof (induction n arbitrary: params)
    case (Suc n)
    have "eat D (Suc n) (params_n (Suc n) E params)" unfolding params_n.simps
    proof (rule eat_current)
      fix t
      have "eat D (Suc n) (obind (expect_name E) (\<lambda>x. obind (test_next_char E 44) (\<lambda>b.
          if b then params_n n E (params @ [fst x]) else oret (params @ [fst x], False))))"
        by (intro eat_bind1 eat_name ok_bind ok_test ok_if runs_oret) (simp add: Suc)
      moreover have "eat_at D (Suc n) t (othen (skip_token E) (oret (params, True)))" if "t = T_Dots"
        using that by (intro eat_at_skip runs_oret) simp
      ultimately show "eat_at D (Suc n) t (case t of
          T_Name _ \<Rightarrow> obind (expect_name E) (\<lambda>x. obind (test_next_char E 44) (\<lambda>b.
             if b then params_n n E (params @ [fst x]) else oret (params @ [fst x], False)))
         | T_Dots \<Rightarrow> othen (skip_token E) (oret (params, True))
         | _ \<Rightarrow> p_syntax_error_near (ascii ''<name> or '' @ quoted (ascii ''...'') @ ascii '' expected''))"
        by (cases t) (auto intro: eat_at_eat)
    qed
    then show ?case by (rule ok_if_eat)
  qed (simp add: runs_def ready_def)
  then have "ok D k (obind (check_char 41) (\<lambda>b. if b then oret ([], False) else (\<lambda>p. params_n (prounds p) E [] p)))"
    by (intro ok_bind ok_test ok_if runs_oret ok_rounds [where m = "\<lambda>n. params_n n E []"])
  then show ?thesis by (simp add: parse_params_def [abs_def])
qed

lemma ok_bind_pair: "ok D k m \<Longrightarrow> (\<And>a b. ok D k (f a b)) \<Longrightarrow> ok D k (obind m (\<lambda>(a, b). f a b))"
  by (rule ok_bind) (simp_all add: split_beta)

lemma eat_othen1: "eat D k m \<Longrightarrow> ok D (k - 1) n \<Longrightarrow> eat D k (othen m n)"
  unfolding othen_def by (rule eat_bind1)

lemma eat_othen2: "ok D k m \<Longrightarrow> eat D k n \<Longrightarrow> eat D k (othen m n)"
  unfolding othen_def by (rule eat_bind2)

lemma ok_expect: "t \<noteq> T_Eos \<Longrightarrow> ok D k (expect E t)" "ok D k (expect_char E c)" "ok D k (expect_name E)"
  by (intro ok_if_eat eat_expect eat_name; assumption)+

lemmas ok_rules = ok_bind_pair ok_bind ok_othen ok_if ok_test ok_expect ok_match ok_modify ok_register ok_register_named
  ok_upvalues ok_skip ok_names runs_oret runs_near runs_error runs_expected

lemma eat_func_body: "(\<And>k. ok D k blk) \<Longrightarrow> eat D k (parse_func_body E blk span)"
  unfolding parse_func_body_def
  by (rule runs_get, rule eat_othen1 [OF eat_expect(2)]) (intro ok_rules ok_params)

text \<open>Expressions.\<close>

lemma ok_lookahead: "ok D k (\<lambda>p. case lookahead E (ps_lexer p) of (l, r) \<Rightarrow> (p\<lparr>ps_lexer := l\<rparr>, r))"
proof (rule runsI)
  fix p
  assume p: "ready D k p"
  show "outcome D 0 p (case lookahead E (ps_lexer p) of (l, r) \<Rightarrow> (p\<lparr>ps_lexer := l\<rparr>, r))"
  proof (cases "lx_lookahead (ps_lexer p)")
    case None
    obtain l1 r where r: "scan E (ps_lexer p) = (l1, r)" by (cases "scan E (ps_lexer p)")
    have "whole (ps_lexer p)" using p by (simp add: ready_def steady_def)
    from scan_whole [OF this r] show ?thesis using None r p
      by (auto simp: lookahead_def obind_def othen_def omod_def oret_def honest_def outcome_ok ready_def steady_def tokens_left_def
          weight_def whole_def left_def)
  next
    case (Some t)
    then show ?thesis using p by (simp add: lookahead_def outcome_ok ready_def steady_def tokens_left_def)
  qed
qed

lemma eat_field:
  assumes "\<And>k. eat D k expr"
  shows "eat D k (parse_field E expr)"
proof -
  note ok_expr = assms [THEN ok_if_eat]
  have plain: "eat D k (obind expr (\<lambda>value. oret (F_Value value span)))" for span
    by (intro eat_bind1 assms runs_oret)
  have named: "eat D k (obind (\<lambda>p. case lookahead E (ps_lexer p) of (l, r) \<Rightarrow> (p\<lparr>ps_lexer := l\<rparr>, r)) (\<lambda>t.
         if t = T_Char 61 then obind (expect_name E) (\<lambda>x. othen (expect_char E 61)
           (obind expr (\<lambda>value. oret (F_Name (fst x) value span))))
         else obind expr (\<lambda>value. oret (F_Value value span))))" for span
    by (rule eat_bind2 [OF ok_lookahead], intro ok_if, rule eat_bind1 [OF eat_name])
      (intro ok_rules ok_expr plain)+
  have index: "eat_at D k (T_Char c) (othen (skip_token E) (obind expr (\<lambda>key. othen (expect_char E 93) (othen (expect_char E 61)
           (obind expr (\<lambda>value. oret (F_Index key value span)))))))" for c span
    by (rule eat_at_skip) (simp, intro ok_rules ok_expr)
  show ?thesis unfolding parse_field_def
    by (rule runs_get, rule eat_current) (auto split: Token.split intro: index eat_at_eat plain named)
qed

lemma eat_table:
  assumes "\<And>k. eat D k expr"
  shows "eat D k (parse_table_ctor E expr)"
proof -
  have f: "ok D n (fields_n n E expr fs)" for n fs
  proof (induction n arbitrary: fs)
    case (Suc n)
    show ?case unfolding fields_n.simps
      by (rule ok_bind [OF ok_test(4)], intro ok_if runs_oret, rule ok_bind1 [OF eat_field [OF assms]])
        (intro ok_rules, simp_all add: Suc)
  qed (simp add: runs_def ready_def)
  show ?thesis unfolding parse_table_ctor_def
    by (rule runs_get, rule eat_othen1 [OF eat_expect(2)]) (intro ok_rules ok_rounds [where m = "\<lambda>n. fields_n n E expr []"] f)
qed

lemma eat_func_args:
  assumes "\<And>k. eat D k expr"
  shows "eat D k (parse_func_args E expr)"
proof -
  note ok_list = eat_expr_list [OF assms, THEN ok_if_eat]
  have "eat_at D k (T_Char c) (othen (skip_token E) (obind (check_char 41) (\<lambda>b. obind (if b then oret [] else parse_expr_list E expr) (\<lambda>args.
             othen (check_match E (T_Char 41) (T_Char 40) line) (oret args)))))" for c line
    by (rule eat_at_skip) (simp, intro ok_rules ok_list)
  then have paren: "eat_at D k (T_Char c) (obind (oget (\<lambda>p. sp_line (ps_span p))) (\<lambda>open_line. obind (oget ps_lastline) (\<lambda>lastline.
           if open_line \<noteq> lastline then p_syntax_error_near msg
           else othen (skip_token E) (obind (check_char 41) (\<lambda>b. obind (if b then oret [] else parse_expr_list E expr) (\<lambda>args.
             othen (check_match E (T_Char 41) (T_Char 40) open_line) (oret args)))))))" for c msg
    by (intro eat_at_get eat_at_if eat_at_eat [OF runs_near])
  have str: "eat_at D k (T_Str s) (obind (oget ps_span) (\<lambda>span. othen (skip_token E) (oret [E_Str s span])))" for s
    by (intro eat_at_get eat_at_skip runs_oret) simp
  have table: "eat D k (obind (parse_table_ctor E expr) (\<lambda>t. oret [t]))" by (intro eat_bind1 eat_table assms runs_oret)
  show ?thesis unfolding parse_func_args_def
    by (rule eat_current) (auto split: Token.split intro: paren str eat_at_eat table runs_near simp del: obind_simps)
qed


lemma eat_primary:
  assumes "\<And>k. eat D k expr"
  shows "eat D k (parse_primary_expr E expr)"
proof -
  have "eat_at D k (T_Name name) (othen (skip_token E) (othen (check_name_upvalue name) (oret (E_Name name span))))"
    "eat_at D k (T_Char c) (othen (skip_token E) (obind expr (\<lambda>e. othen (expect_char E 41) (oret (E_Paren e span)))))" for name c span
    by (rule eat_at_skip, simp, intro ok_rules assms [THEN ok_if_eat])+
  then show ?thesis unfolding parse_primary_expr_def
    by (intro runs_get eat_current) (auto split: Token.split intro: eat_at_eat simp del: obind_simps)
qed

lemma eat_suffixed:
  assumes "\<And>k. eat D k expr"
  shows "eat D k (parse_suffixed_expr E expr)"
proof -
  note ok_expr = assms [THEN ok_if_eat]
  have "ok D n (suffixes_n n E expr e)" for n e
  proof (induction n arbitrary: e)
    case (Suc n)
    have next1: "ok D (Suc n - 1) (suffixes_n n E expr e)" for e by (simp add: Suc)
    have call: "ok D (Suc n) (obind (parse_func_args E expr) (\<lambda>args. suffixes_n n E expr (f args)))" for f
      by (rule ok_bind1 [OF eat_func_args [OF assms]]) (rule next1)
    have field: "ok D (Suc n) (othen (skip_token E) (obind (expect_name E) (\<lambda>x. suffixes_n n E expr (f x))))" for f
      by (rule ok_othen [OF ok_skip], rule ok_bind1 [OF eat_name]) (rule next1)
    have index: "ok D (Suc n) (othen (skip_token E) (obind expr (\<lambda>key. othen (expect_char E 93) (suffixes_n n E expr (f key)))))" for f
      by (rule ok_othen [OF ok_skip], rule ok_bind1 [OF assms], rule ok_othen [OF ok_expect(2)]) (rule next1)
    have method_call: "ok D (Suc n) (othen (skip_token E) (obind (expect_name E) (\<lambda>x. obind (parse_func_args E expr) (\<lambda>args.
           suffixes_n n E expr (f x args)))))" for f
      by (rule ok_othen [OF ok_skip], rule ok_bind [OF ok_expect(3)]) (rule call)
    have "ok D (Suc n) (case t of
       T_Char c \<Rightarrow>
         if c = 46 then othen (skip_token E) (obind (expect_name E) (\<lambda>x. suffixes_n n E expr (E_Field e (fst x) (expr_span e))))
         else if c = 91 then othen (skip_token E) (obind expr (\<lambda>key. othen (expect_char E 93)
           (suffixes_n n E expr (E_Index e key (expr_span e)))))
         else if c = 58 then othen (skip_token E) (obind (expect_name E) (\<lambda>x. obind (parse_func_args E expr) (\<lambda>args.
           suffixes_n n E expr (E_MethodCall e (fst x) args (expr_span e)))))
         else if c = 40 \<or> c = 123 then obind (parse_func_args E expr) (\<lambda>args. suffixes_n n E expr (E_Call e args (expr_span e)))
         else oret e
     | T_Str _ \<Rightarrow> obind (parse_func_args E expr) (\<lambda>args. suffixes_n n E expr (E_Call e args (expr_span e)))
     | _ \<Rightarrow> oret e)" for t
      by (cases t) (simp_all only: Token.case ok_if [OF field ok_if [OF index ok_if [OF method_call ok_if [OF call runs_oret]]]] call runs_oret)
    then show ?case unfolding suffixes_n.simps Let_def by (intro runs_get)
  qed (simp add: runs_def ready_def)
  then show ?thesis unfolding parse_suffixed_expr_def
    by (intro eat_bind1 eat_primary assms ok_rounds [where m = "\<lambda>n. suffixes_n n E expr e" for e])
qed

lemma eat_simple:
  assumes "\<And>k. ok D k blk" "\<And>k. eat D k expr"
  shows "eat D k (parse_simple_expr E blk expr)"
proof -
  have tok: "eat_at D k t (othen (skip_token E) (oret e))" if "t \<noteq> T_Eos" for t and e :: Expr
    using that by (rule eat_at_skip) simp
  have fn: "eat_at D k T_Function (othen (skip_token E) (obind (parse_func_body E blk span) (\<lambda>body. oret (E_FuncDef body span))))" for span
    by (rule eat_at_skip) (simp, intro ok_rules eat_func_body [THEN ok_if_eat] assms(1))
  show ?thesis unfolding parse_simple_expr_def
    by (intro runs_get eat_current)
      (auto split: Token.split intro!: tok fn intro: eat_at_eat eat_table eat_suffixed assms(2) simp del: obind_simps)
qed

lemma eat_sub_expr:
  assumes "D \<le> 200" "\<And>k. D < 200 \<Longrightarrow> ok (Suc D) k blk" "\<And>k l. D < 200 \<Longrightarrow> eat (Suc D) k (sub l)"
  shows "eat D k (parse_sub_expr E blk sub limit)"
  unfolding parse_sub_expr_def
proof (rule runs_enter [OF assms(1)])
  assume D: "D < 200"
  have binops: "ok (Suc D) n (binops_n n E sub limit span e)" for n span e
  proof (induction n arbitrary: e)
    case (Suc n)
    have "ok (Suc D) (Suc n) (othen (skip_token E) (obind (sub r) (\<lambda>right. binops_n n E sub limit span (f right))))" for r f
      by (rule ok_othen [OF ok_skip], rule ok_bind1 [OF assms(3) [OF D]]) (simp add: Suc)
    then show ?case unfolding binops_n.simps
      by (intro runs_get) (auto split: option.split prod.split intro!: ok_if simp del: obind_simps)
  qed (simp add: runs_def ready_def)
  have head: "eat (Suc D) k (obind (oget ps_current) (\<lambda>t. case get_unary_op t of
         Some unop \<Rightarrow> othen (skip_token E) (obind (sub UNARY_PRIORITY) (\<lambda>operand. oret (E_UnOp unop operand span)))
       | None \<Rightarrow> parse_simple_expr E blk (sub 0)))" for span
  proof (rule eat_current)
    fix t
    have "eat (Suc D) k (othen (skip_token E) (obind (sub UNARY_PRIORITY) (\<lambda>operand. oret (E_UnOp unop operand span))))" for unop
      by (intro eat_othen2 ok_skip eat_bind1 assms(3) D runs_oret)
    then show "eat_at (Suc D) k t (case get_unary_op t of
         Some unop \<Rightarrow> othen (skip_token E) (obind (sub UNARY_PRIORITY) (\<lambda>operand. oret (E_UnOp unop operand span)))
       | None \<Rightarrow> parse_simple_expr E blk (sub 0))"
      using eat_simple [of "Suc D" blk "sub 0" k E, OF assms(2,3) [OF D]]
      by (auto split: option.split intro: eat_at_eat simp del: obind_simps)
  qed
  have tail: "runs (Suc D) D (k - 1) 0 (obind (\<lambda>p. binops_n (prounds p) E sub limit span e p) (\<lambda>e. othen leave_level (oret e)))" for span e
    using runs_bind [OF ok_rounds [where m = "\<lambda>n. binops_n n E sub limit span e", OF binops] runs_leave, of _ "\<lambda>x. x"] by simp
  have all: "runs (Suc D) D k (1 + 0) (obind (obind (oget ps_current) (\<lambda>t. case get_unary_op t of
         Some unop \<Rightarrow> othen (skip_token E) (obind (sub UNARY_PRIORITY) (\<lambda>operand. oret (E_UnOp unop operand span)))
       | None \<Rightarrow> parse_simple_expr E blk (sub 0))) (\<lambda>e. obind (\<lambda>p. binops_n (prounds p) E sub limit span e p) (\<lambda>e. othen leave_level (oret e))))" for span
    by (rule runs_bind [OF head tail])
  show "runs (Suc D) D k 1 (obind (oget ps_span) (\<lambda>span. obind (oget ps_current) (\<lambda>t.
     obind (case get_unary_op t of
         Some unop \<Rightarrow> othen (skip_token E) (obind (sub UNARY_PRIORITY) (\<lambda>operand. oret (E_UnOp unop operand span)))
       | None \<Rightarrow> parse_simple_expr E blk (sub 0)) (\<lambda>e.
     obind (\<lambda>p. binops_n (prounds p) E sub limit span e p) (\<lambda>e. othen leave_level (oret e))))))"
    by (rule runs_get, insert all [unfolded obind_assoc], simp)
qed


section \<open>Statements and blocks\<close>

lemma ok_loop_body: "(\<And>k. ok D k blk) \<Longrightarrow> ok D k (loop_body blk)"
  unfolding loop_body_def by (intro ok_rules)

lemma ok_line: "ok D k this_line" by (simp add: this_line_def ok_test)

lemma eat_func_name: "eat D k (parse_func_name E)"
  unfolding parse_func_name_def
  by (rule runs_get, rule eat_bind1 [OF eat_name]) (intro ok_rules)

lemma eat_stat:
  assumes "\<And>k. ok D k blk" "\<And>k. eat D k expr"
  shows "eat D k (parse_stat E blk expr)"
proof -
  note ok_expr = assms(2) [THEN ok_if_eat]
  note ok_list = eat_expr_list [OF assms(2), THEN ok_if_eat]
  note ok_body = eat_func_body [OF assms(1), THEN ok_if_eat]
  note parts = ok_rules ok_expr ok_list ok_body assms(1) ok_loop_body ok_line
  have elseifs: "ok D n (elseifs_n n E blk expr cs bs)" for n cs bs
  proof (induction n arbitrary: cs bs)
    case (Suc n)
    show ?case unfolding elseifs_n.simps
      by (rule ok_bind [OF ok_test(3)], intro ok_if runs_oret, rule ok_othen [OF ok_skip], rule ok_bind1 [OF assms(2)],
          rule ok_othen [OF ok_expect(1)], simp, rule ok_bind [OF assms(1)]) (simp add: Suc)
  qed (simp add: runs_def ready_def)
  have targets: "ok D n (targets_n n E expr es)" for n es
  proof (induction n arbitrary: es)
    case (Suc n)
    show ?case unfolding targets_n.simps
      by (rule ok_bind [OF ok_test(2)], intro ok_if runs_oret, rule ok_bind1 [OF eat_suffixed [OF assms(2)]]) (simp add: Suc)
  qed (simp add: runs_def ready_def)
  have eat_if: "eat_at D k T_If (parse_if E blk expr span)" for span
    unfolding parse_if_def
    by (rule eat_at_skip, simp, intro parts ok_rounds [where m = "\<lambda>n. elseifs_n n E blk expr [c] [body]" for c body] elseifs) simp_all
  have eat_while: "eat_at D k T_While (parse_while E blk expr span)" for span
    unfolding parse_while_def by (rule eat_at_skip, simp, intro parts) simp_all
  have eat_do: "eat_at D k T_Do (parse_do E blk span)" for span
    unfolding parse_do_def by (rule eat_at_skip, simp, intro parts)
  have eat_for: "eat_at D k T_For (parse_for E blk expr span)" for span
    unfolding parse_for_def parse_numeric_for_def parse_generic_for_def
    by (rule eat_at_skip, simp, intro parts) simp_all
  have eat_repeat: "eat_at D k T_Repeat (parse_repeat E blk expr span)" for span
    unfolding parse_repeat_def by (rule eat_at_skip, simp, intro parts)
  have eat_function: "eat_at D k T_Function (parse_func_decl E blk span)" for span
    unfolding parse_func_decl_def by (rule eat_at_skip, simp, intro parts eat_func_name [THEN ok_if_eat])
  have eat_local: "eat_at D k T_Local (parse_local E blk expr span)" for span
    unfolding parse_local_def by (rule eat_at_skip, simp, intro parts)
  have eat_return: "eat_at D k T_Return (parse_return E expr span)" for span
    unfolding parse_return_def by (rule eat_at_skip, simp, intro parts)
  have eat_break: "eat_at D k T_Break (parse_break E span)" for span
    unfolding parse_break_def by (rule eat_at_skip, simp, intro parts)
  have eat_expr_stat: "eat D k (parse_expr_stat E expr span)" for span
    unfolding parse_expr_stat_def
    by (rule eat_bind1 [OF eat_suffixed [OF assms(2)]], intro parts ok_rounds [where m = "\<lambda>n. targets_n n E expr [e]" for e] targets)
  show ?thesis unfolding parse_stat_def
    by (intro runs_get eat_current)
      (auto split: Token.split intro!: eat_if eat_while eat_do eat_for eat_repeat eat_function eat_local eat_return eat_break
        intro: eat_at_eat eat_expr_stat simp del: obind_simps)
qed

lemma ok_block:
  assumes "D \<le> 200" "\<And>k. D < 200 \<Longrightarrow> ok (Suc D) k blk" "\<And>k l. D < 200 \<Longrightarrow> eat (Suc D) k (sub l)"
  shows "ok D k (parse_block E blk sub)"
  unfolding parse_block_def
proof (rule runs_enter [OF assms(1)])
  assume D: "D < 200"
  have stats: "ok (Suc D) n (stats_n n E blk (sub 0) ss)" for n ss
  proof (induction n arbitrary: ss)
    case (Suc n)
    show ?case unfolding stats_n.simps
      by (rule ok_bind [OF ok_test(5)], intro ok_if runs_oret, rule ok_bind1 [OF eat_stat [OF assms(2,3) [OF D]]],
          rule ok_bind [OF ok_test(2)], intro ok_if runs_oret) (simp add: Suc)
  qed (simp add: runs_def ready_def)
  have body: "ok (Suc D) k (obind (\<lambda>p. stats_n (prounds p) E blk (sub 0) [] p) (\<lambda>stmts. othen (restore_locals saved) (oret stmts)))" for saved
    by (intro ok_bind ok_rounds [where m = "\<lambda>n. stats_n n E blk (sub 0) []"] stats ok_othen ok_modify runs_oret)
  have "runs (Suc D) D k (0 + 0) (obind (obind (\<lambda>p. stats_n (prounds p) E blk (sub 0) [] p)
      (\<lambda>stmts. othen (restore_locals saved) (oret stmts))) (\<lambda>stmts. othen leave_level (oret stmts)))" for saved
    by (rule runs_bind [OF body runs_leave])
  then show "runs (Suc D) D k 0 (obind (oget saved_locals) (\<lambda>saved. obind (\<lambda>p. stats_n (prounds p) E blk (sub 0) [] p)
      (\<lambda>stmts. othen (restore_locals saved) (othen leave_level (oret stmts)))))"
    by (intro runs_get) (simp only: obind_assoc obind_othen obind_simps add_0)
qed

text \<open>The recursion is closed over the syntax levels.\<close>

lemma parsers_run: "D \<le> 200 \<Longrightarrow> 201 \<le> n + D \<Longrightarrow> ok D k (fst (parsers n E)) \<and> eat D k (snd (parsers n E) l)"
proof (induction n arbitrary: D k l)
  case (Suc n)
  have "D < 200 \<Longrightarrow> ok (Suc D) k (fst (parsers n E))" "D < 200 \<Longrightarrow> eat (Suc D) k (snd (parsers n E) l)" for k l
    using Suc by auto
  then show ?case using ok_block [OF Suc.prems(1), of "fst (parsers n E)" "snd (parsers n E)"]
      eat_sub_expr [OF Suc.prems(1), of "fst (parsers n E)" "snd (parsers n E)"]
    by (auto simp: split_beta)
qed simp

definition parses :: "rstring \<Rightarrow> (failure, Stat list) res \<Rightarrow> bool" where
  "parses name r \<longleftrightarrow> (case r of Inl e \<Rightarrow> honest name e | Inr block \<Rightarrow> True)"

text \<open>C21. Parsing ends on every text: it gives a syntax tree or a syntax error. No loop runs out of rounds, because
  every round consumes a token, and the recursion is never deeper than the 200 syntax levels allow. The only other
  outcome is the panic of \<open>chunkid\<close> in a message about a byte that is no ASCII character.\<close>

theorem parsing_ends: "parses name (parse E source name)"
proof (cases "parser_from_lexer E (lexer_new source name)")
  case (Inl e)
  have "whole (lexer_new source name)" by (rule whole_new)
  moreover obtain l1 r where r: "scan E (lexer_new source name) = (l1, r)" by (cases "scan E (lexer_new source name)")
  ultimately have "honest name e" using Inl scan_whole [OF _ r]
    by (auto simp: parser_from_lexer_def next_token_def lexer_new_def Let_def honest_def)
  then show ?thesis using Inl by (simp add: parse_def parse_with_lexer_def parses_def)
next
  case (Inr p)
  have w: "whole (lexer_new source name)" by (rule whole_new)
  obtain l1 r where r: "scan E (lexer_new source name) = (l1, r)" by (cases "scan E (lexer_new source name)")
  have "lx_source_name (lexer_new source name) = name" by (simp add: lexer_new_def Let_def)
  then have p: "ready 0 (Suc (tokens_left p)) p" "source_name p = name" using Inr scan_whole [OF w r] r whole_new(2) [of source name]
    by (auto simp: parser_from_lexer_def next_token_def ready_def steady_def)
  have "ok 0 k (parse_chunk E)" for k
    unfolding parse_chunk_def parse_depth_def MAX_SYNTAX_LEVELS_def
    by (intro ok_bind ok_test ok_if runs_oret runs_expected) (use parsers_run [of 0 "Suc (unat (200 :: u32))" _ E] in auto)
  from runsD [OF this p(1)] show ?thesis using Inr p(2)
    by (cases "parse_chunk E p"; cases "snd (parse_chunk E p)") (auto simp: parse_def parse_with_lexer_def parses_def)
qed

end
