(* ===== verification/ParseTrees.thy ===== *)
theory ParseTrees
  imports ParseProps
begin

text \<open>
  Operators are parsed by the priorities of the language: the tokens of an expression whose parentheses are where
  the priorities need them are read back as that expression.
\<close>

section \<open>Trees and their tokens\<close>

text \<open>Expressions without positions, and whether an operand stands where its operators may.\<close>

datatype tree = Atom Token | Ident rstring | Binary BinOp tree tree | Unary UnOp tree | Group tree | Sub tree tree | Dot tree rstring

definition is_atom :: "Token \<Rightarrow> bool" where
  "is_atom t \<longleftrightarrow> (case t of T_Nil \<Rightarrow> True | T_True \<Rightarrow> True | T_False \<Rightarrow> True | T_Dots \<Rightarrow> True | T_Number _ \<Rightarrow> True | T_Str _ \<Rightarrow> True | _ \<Rightarrow> False)"

fun tree_of :: "Expr \<Rightarrow> tree option" where
  "tree_of (E_Nil _) = Some (Atom T_Nil)" | "tree_of (E_True _) = Some (Atom T_True)" | "tree_of (E_False _) = Some (Atom T_False)"
| "tree_of (E_VarArg _) = Some (Atom T_Dots)" | "tree_of (E_Number v _) = Some (Atom (T_Number v))"
| "tree_of (E_Str s _) = Some (Atom (T_Str s))" | "tree_of (E_Name n _) = Some (Ident n)"
| "tree_of (E_BinOp b l r _) = (case (tree_of l, tree_of r) of (Some x, Some y) \<Rightarrow> Some (Binary b x y) | _ \<Rightarrow> None)"
| "tree_of (E_UnOp u x _) = map_option (Unary u) (tree_of x)"
| "tree_of (E_Paren x _) = map_option Group (tree_of x)"
| "tree_of (E_Index t k _) = (case (tree_of t, tree_of k) of (Some x, Some y) \<Rightarrow> Some (Sub x y) | _ \<Rightarrow> None)"
| "tree_of (E_Field t f _) = map_option (\<lambda>x. Dot x f) (tree_of t)"
| "tree_of _ = None"

definition binary_token :: "BinOp \<Rightarrow> Token" where
  "binary_token b = (case b of B_Add \<Rightarrow> T_Char 43 | B_Sub \<Rightarrow> T_Char 45 | B_Mul \<Rightarrow> T_Char 42 | B_Div \<Rightarrow> T_Char 47 | B_Mod \<Rightarrow> T_Char 37
     | B_Pow \<Rightarrow> T_Char 94 | B_Lt \<Rightarrow> T_Char 60 | B_Gt \<Rightarrow> T_Char 62 | B_Concat \<Rightarrow> T_Concat | B_Ne \<Rightarrow> T_Ne | B_Eq \<Rightarrow> T_Eq
     | B_Le \<Rightarrow> T_Le | B_Ge \<Rightarrow> T_Ge | B_And \<Rightarrow> T_And | B_Or \<Rightarrow> T_Or)"

definition unary_token :: "UnOp \<Rightarrow> Token" where
  "unary_token u = (case u of U_Not \<Rightarrow> T_Not | U_Neg \<Rightarrow> T_Char 45 | U_Len \<Rightarrow> T_Char 35)"

primrec unparse :: "tree \<Rightarrow> Token list" where
  "unparse (Atom t) = [t]"
| "unparse (Ident n) = [T_Name n]"
| "unparse (Binary b l r) = unparse l @ binary_token b # unparse r"
| "unparse (Unary u x) = unary_token u # unparse x"
| "unparse (Group x) = T_Char 40 # unparse x @ [T_Char 41]"
| "unparse (Sub t k) = unparse t @ T_Char 91 # unparse k @ [T_Char 93]"
| "unparse (Dot t f) = unparse t @ [T_Char 46, T_Name f]"

abbreviation lp :: "BinOp \<Rightarrow> nat" where "lp b \<equiv> fst (binary_priority b)"
abbreviation rp :: "BinOp \<Rightarrow> nat" where "rp b \<equiv> snd (binary_priority b)"

text \<open>The right edge of a tree leaves an operator of that left priority to the operators around it.\<close>

primrec leaves :: "nat \<Rightarrow> tree \<Rightarrow> bool" where
  "leaves p (Atom t) = True" | "leaves p (Ident n) = True" | "leaves p (Group x) = True" | "leaves p (Sub t k) = True"
| "leaves p (Dot t f) = True"
| "leaves p (Binary b l r) = (p \<le> rp b \<and> leaves p r)"
| "leaves p (Unary u x) = (p \<le> UNARY_PRIORITY \<and> leaves p x)"

primrec is_prefix :: "tree \<Rightarrow> bool" where
  "is_prefix (Atom t) = False" | "is_prefix (Ident n) = True" | "is_prefix (Group x) = True" | "is_prefix (Sub t k) = True"
| "is_prefix (Dot t f) = True" | "is_prefix (Binary b l r) = False" | "is_prefix (Unary u x) = False"

text \<open>A tree that needs no more parentheses where operators of at most that priority stop it.\<close>

primrec well_grouped :: "nat \<Rightarrow> tree \<Rightarrow> bool" where
  "well_grouped lim (Atom t) = is_atom t"
| "well_grouped lim (Ident n) = True"
| "well_grouped lim (Binary b l r) = (lim < lp b \<and> well_grouped lim l \<and> leaves (lp b) l \<and> well_grouped (rp b) r)"
| "well_grouped lim (Unary u x) = well_grouped UNARY_PRIORITY x"
| "well_grouped lim (Group x) = well_grouped 0 x"
| "well_grouped lim (Sub t k) = (is_prefix t \<and> well_grouped lim t \<and> well_grouped 0 k)"
| "well_grouped lim (Dot t f) = (is_prefix t \<and> well_grouped lim t)"

text \<open>
  The grammar of the language, apart from the parser: the binary operators by strata, the loosest first, with the
  unary operators at 7. An operand of an operator stands in the operator's stratum on the side it groups to and in
  the next one on the other; a power takes a unary operation on its right, and what is indexed is in stratum 9.
\<close>

definition stratum :: "BinOp \<Rightarrow> nat" where
  "stratum b = (case b of B_Or \<Rightarrow> 1 | B_And \<Rightarrow> 2 | B_Lt \<Rightarrow> 3 | B_Gt \<Rightarrow> 3 | B_Le \<Rightarrow> 3 | B_Ge \<Rightarrow> 3 | B_Ne \<Rightarrow> 3 | B_Eq \<Rightarrow> 3
     | B_Concat \<Rightarrow> 4 | B_Add \<Rightarrow> 5 | B_Sub \<Rightarrow> 5 | B_Mul \<Rightarrow> 6 | B_Div \<Rightarrow> 6 | B_Mod \<Rightarrow> 6 | B_Pow \<Rightarrow> 8)"

definition left_stratum :: "BinOp \<Rightarrow> nat" where
  "left_stratum b = (if b = B_Concat \<or> b = B_Pow then stratum b + 1 else stratum b)"

definition right_stratum :: "BinOp \<Rightarrow> nat" where
  "right_stratum b = (if b = B_Pow then 7 else if b = B_Concat then stratum b else stratum b + 1)"

primrec grammatical :: "nat \<Rightarrow> tree \<Rightarrow> bool" where
  "grammatical k (Atom t) = is_atom t"
| "grammatical k (Ident n) = True"
| "grammatical k (Binary b l r) = (k \<le> stratum b \<and> grammatical (left_stratum b) l \<and> grammatical (right_stratum b) r)"
| "grammatical k (Unary u x) = (k \<le> 7 \<and> grammatical 7 x)"
| "grammatical k (Group x) = grammatical 1 x"
| "grammatical k (Sub t i) = (is_prefix t \<and> grammatical 9 t \<and> grammatical 1 i)"
| "grammatical k (Dot t f) = (is_prefix t \<and> grammatical 9 t)"

text \<open>The priorities of the parser implement the strata.\<close>

definition stratum_limit :: "nat \<Rightarrow> nat" where
  "stratum_limit k = (if k \<le> 3 then k - 1 else if k \<le> 6 then k else 9)"

definition edge_priority :: "nat \<Rightarrow> nat" where
  "edge_priority k = (if k \<le> 4 then k else if k \<le> 6 then k + 1 else 8)"

lemma well_grouped_mono: "well_grouped lim t \<Longrightarrow> lim' \<le> lim \<Longrightarrow> well_grouped lim' t"
  by (induction t arbitrary: lim lim') auto

lemma prefix_leaves: "is_prefix t \<Longrightarrow> leaves p t"
  by (cases t) auto

lemma stratum_limit_less: "k \<le> stratum b \<Longrightarrow> stratum_limit k < lp b"
  by (cases b) (auto simp: stratum_def stratum_limit_def binary_priority_def)

lemma edge_priority_le: "k \<le> stratum b \<Longrightarrow> edge_priority k \<le> rp b"
  by (cases b) (auto simp: stratum_def edge_priority_def binary_priority_def)

lemma edge_priority_right: "k \<le> stratum b \<Longrightarrow> edge_priority k \<le> edge_priority (right_stratum b)"
  by (cases b) (auto simp: stratum_def right_stratum_def edge_priority_def)

lemma limit_right: "rp b \<le> stratum_limit (right_stratum b)"
  by (cases b) (simp_all add: stratum_def right_stratum_def stratum_limit_def binary_priority_def)

lemma edge_left: "lp b \<le> edge_priority (left_stratum b) \<or> b = B_Pow"
  by (cases b) (simp_all add: stratum_def left_stratum_def edge_priority_def binary_priority_def)

lemma grammatical_leaves: "grammatical k t \<Longrightarrow> p \<le> edge_priority k \<Longrightarrow> leaves p t"
proof (induction t arbitrary: k)
  case (Binary b l r)
  then show ?case using edge_priority_le [of k b] edge_priority_right [of k b] Binary.IH(2) [of "right_stratum b"] by simp
next
  case (Unary u x)
  have "p \<le> 8" using Unary.prems(2) by (simp add: edge_priority_def split: if_splits)
  then show ?case using Unary.prems(1) Unary.IH [of 7] by (simp add: edge_priority_def UNARY_PRIORITY_def)
qed (auto intro: prefix_leaves)

lemma grammatical_9_leaves: "grammatical 9 t \<Longrightarrow> leaves p t"
  by (cases t) (auto simp: stratum_def split: BinOp.splits)

lemma grammatical_any_limit: "grammatical 9 t \<Longrightarrow> well_grouped lim t \<Longrightarrow> well_grouped lim' t"
  by (induction t arbitrary: lim lim') (auto simp: stratum_def split: BinOp.splits)

lemma grammatical_well_grouped: "grammatical k t \<Longrightarrow> well_grouped (stratum_limit k) t"
proof (induction t arbitrary: k)
  case (Binary b l r)
  have g: "k \<le> stratum b" "grammatical (left_stratum b) l" "grammatical (right_stratum b) r" using Binary.prems by simp_all
  have "leaves (lp b) l"
    using edge_left [of b] grammatical_leaves [OF g(2)] grammatical_9_leaves [of l] g(2)
    by (auto simp: left_stratum_def stratum_def)
  moreover have "k \<le> left_stratum b" using g(1) by (simp add: left_stratum_def)
  then have "stratum_limit k \<le> stratum_limit (left_stratum b)" by (auto simp: stratum_limit_def)
  then have "well_grouped (stratum_limit k) l" using well_grouped_mono [OF Binary.IH(1) [OF g(2)]] by simp
  moreover have "well_grouped (rp b) r" using well_grouped_mono [OF Binary.IH(2) [OF g(3)]] limit_right by simp
  ultimately show ?case using stratum_limit_less [OF g(1)] by simp
next
  case (Unary u x)
  then have "well_grouped 9 x" using Unary.IH [of 7] by (simp add: stratum_limit_def)
  then have "well_grouped 8 x" by (rule well_grouped_mono) simp
  then show ?case by (simp add: UNARY_PRIORITY_def)
next
  case (Group x)
  then show ?case using Group.IH [of 1] by (simp add: stratum_limit_def)
next
  case (Sub t i)
  then have g: "is_prefix t" "grammatical 9 t" "grammatical 1 i" by simp_all
  have "well_grouped (stratum_limit k) t" by (rule grammatical_any_limit [OF g(2) Sub.IH(1) [OF g(2)]])
  moreover have "well_grouped 0 i" using Sub.IH(2) [OF g(3)] by (simp add: stratum_limit_def)
  ultimately show ?case using g(1) by simp
next
  case (Dot t f)
  then have g: "is_prefix t" "grammatical 9 t" by simp_all
  then show ?case using grammatical_any_limit [OF g(2) Dot.IH [OF g(2)]] by simp
qed simp_all

text \<open>Syntax levels, and rounds of the loops over operators and over suffixes.\<close>

primrec levels :: "tree \<Rightarrow> nat" where
  "levels (Atom t) = 1" | "levels (Ident n) = 1"
| "levels (Binary b l r) = max (levels l) (Suc (levels r))"
| "levels (Unary u x) = Suc (levels x)"
| "levels (Group x) = Suc (levels x)"
| "levels (Sub t k) = max (levels t) (Suc (levels k))"
| "levels (Dot t f) = levels t"

primrec spine :: "tree \<Rightarrow> nat" where
  "spine (Binary b l r) = Suc (spine l)" | "spine (Atom t) = 0" | "spine (Ident n) = 0" | "spine (Unary u x) = 0"
| "spine (Group x) = 0" | "spine (Sub t k) = 0" | "spine (Dot t f) = 0"

primrec chain :: "tree \<Rightarrow> nat" where
  "chain (Sub t k) = Suc (chain t)" | "chain (Dot t f) = Suc (chain t)" | "chain (Atom t) = 0" | "chain (Ident n) = 0"
| "chain (Unary u x) = 0" | "chain (Group x) = 0" | "chain (Binary b l r) = 0"

lemma token_ops:
  "get_binary_op (binary_token b) = Some b" "get_unary_op (unary_token u) = Some u" "binary_token b \<noteq> T_Eos" "unary_token u \<noteq> T_Eos"
  by (cases b; simp add: binary_token_def get_binary_op_def; fail | cases u; simp add: unary_token_def get_unary_op_def)+

lemma levels_pos: "1 \<le> levels t" by (induction t) auto

lemma unparse_no_end: "well_grouped lim t \<Longrightarrow> T_Eos \<notin> set (unparse t)"
  by (induction t arbitrary: lim) (auto simp: token_ops(3,4) [symmetric] is_atom_def split: Token.splits)

lemma spine_tokens: "spine t < length (unparse t)" by (induction t) auto
lemma chain_tokens: "chain t < length (unparse t)" by (induction t) auto

section \<open>A parser before known tokens\<close>

primrec lexer_gives :: "lex_env \<Rightarrow> lexer \<Rightarrow> Token list \<Rightarrow> bool" where
  "lexer_gives E l [] = True"
| "lexer_gives E l (t # ts) = (\<exists>l1 span. next_token E l = (l1, Inr (t, span)) \<and> lexer_gives E l1 ts)"

definition before :: "lex_env \<Rightarrow> parser \<Rightarrow> Token list \<Rightarrow> bool" where
  "before E p ts \<longleftrightarrow> steady p \<and> ps_current p = hd ts \<and> ts \<noteq> [] \<and> lexer_gives E (ps_lexer p) (tl ts)"

text \<open>What stays the same while an expression of the main function is parsed.\<close>

definition beside :: "parser \<Rightarrow> parser \<Rightarrow> bool" where
  "beside p p' \<longleftrightarrow> ps_syntax_depth p' = ps_syntax_depth p \<and> ps_func_scopes p' = ps_func_scopes p"

lemma beside_refl [simp]: "beside p p" by (simp add: beside_def)
lemma beside_trans: "beside p q \<Longrightarrow> beside q r \<Longrightarrow> beside p r" by (simp add: beside_def)

lemma advance_before:
  assumes "before E p (t # u # ts)"
  shows "\<exists>p'. p_advance E p = (p', Inr (t, ps_span p)) \<and> before E p' (u # ts) \<and> beside p p'"
proof -
  obtain l1 span where n: "next_token E (ps_lexer p) = (l1, Inr (u, span))" "lexer_gives E l1 ts"
    using assms by (auto simp: before_def)
  obtain p' where p': "p_advance E p = (p', Inr (t, ps_span p))" "ps_current p' = u" "ps_lexer p' = l1" "beside p p'"
    using n assms by (simp add: p_advance_def Let_def beside_def before_def)
  have "steady p'" using runs_advance [of p 0 E] p' assms by (simp add: before_def)
  then show ?thesis using p' n by (auto simp: before_def)
qed

lemma skip_before:
  assumes "before E p (t # u # ts)"
  shows "\<exists>p'. skip_token E p = (p', Inr ()) \<and> before E p' (u # ts) \<and> beside p p'"
  using advance_before [OF assms] by (auto simp: skip_token_def obind_def oret_def)

lemma othen_ok: "m s = (s1, Inr x) \<Longrightarrow> othen m n s = n s1" by (simp add: othen_def obind_def)

lemma kind_char: "token_kind t = K_Char c \<longleftrightarrow> t = T_Char c"
  by (cases t) (simp_all add: token_kind_def)

lemma expect_before:
  assumes "before E p (T_Char c # u # ts)"
  shows "\<exists>p'. (\<exists>span. expect_char E c p = (p', Inr span)) \<and> before E p' (u # ts) \<and> beside p p'"
proof -
  have "ps_current_kind p = K_Char c" using assms by (simp add: before_def steady_def kind_char)
  then show ?thesis using skip_before [OF assms] by (auto simp: expect_char_def check_char_def othen_ok oret_def)
qed

lemma name_before:
  assumes "before E p (T_Name n # u # ts)"
  shows "\<exists>p'. (\<exists>span. expect_name E p = (p', Inr (n, span))) \<and> before E p' (u # ts) \<and> beside p p'"
proof -
  have k: "ps_current_kind p = K_Name" using assms by (simp add: before_def steady_def token_kind_def)
  show ?thesis using advance_before [OF assms] k by (auto simp: expect_name_def obind_def oret_def)
qed

lemma test_before:
  assumes "before E p (t # ts)" "t \<noteq> T_Char c"
  shows "test_next_char E c p = (p, Inr False)"
  using assms by (simp add: before_def steady_def kind_char test_next_char_def check_char_def oret_def)

text \<open>There is a round for every token.\<close>

lemma before_left: "before E p ts \<Longrightarrow> T_Eos \<notin> set (butlast ts) \<Longrightarrow> length ts \<le> Suc (tokens_left p)"
proof (induction ts arbitrary: p)
  case step: (Cons t ts)
  show ?case
  proof (cases ts)
    case Nil
    then show ?thesis by simp
  next
    case (Cons u us)
    have b: "before E p (t # u # us)" "t \<noteq> T_Eos" using step.prems Cons by auto
    obtain p' where p': "p_advance E p = (p', Inr (t, ps_span p))" "before E p' (u # us)"
      using advance_before [OF b(1)] by blast
    have "steady p" "ps_current p \<noteq> T_Eos" using b by (simp_all add: before_def)
    then have "tokens_left p' + 1 \<le> tokens_left p"
      using runs_advance [of p 1 E, unfolded p'(1)] by simp
    moreover have "length (u # us) \<le> Suc (tokens_left p')"
      using step.IH [of p'] p'(2) Cons step.prems(2) by simp
    ultimately show ?thesis using Cons by simp
  qed
qed simp

text \<open>So the loops of a parser before the tokens of a tree have rounds enough.\<close>

lemma enough_rounds:
  assumes "before E p (ts @ u # rest)" "T_Eos \<notin> set ts" "n < length ts"
  shows "n < prounds p"
proof -
  have "before E p (ts @ [u])" using assms(1)
  proof -
    have "lexer_gives E l (xs @ ys) \<Longrightarrow> lexer_gives E l xs" for l xs ys
      by (induction xs arbitrary: l) auto
    from this [of "ps_lexer p" "tl ts @ [u]" rest] show ?thesis using assms(1,3) by (cases ts) (auto simp: before_def)
  qed
  then have "length (ts @ [u]) \<le> Suc (tokens_left p)"
    using before_left assms(2) by (metis butlast_snoc)
  moreover have "tokens_left p < prounds p" using assms(1) rounds_enough by (simp add: before_def)
  ultimately show ?thesis using assms(3) by simp
qed


section \<open>Reading a tree back\<close>

text \<open>A token that starts a suffix, and one that may follow a tree.\<close>

definition is_suffix :: "Token \<Rightarrow> bool" where
  "is_suffix u \<longleftrightarrow> u \<in> {T_Char 46, T_Char 91, T_Char 58, T_Char 40, T_Char 123} \<or> (\<exists>s. u = T_Str s)"

definition may_follow :: "Token \<Rightarrow> tree \<Rightarrow> bool" where
  "may_follow u t \<longleftrightarrow> \<not> is_suffix u \<and> (\<forall>b. get_binary_op u = Some b \<longrightarrow> leaves (lp b) t)"

primrec operator_tokens :: "tree \<Rightarrow> Token list" where
  "operator_tokens (Binary b l r) = operator_tokens l @ binary_token b # unparse r"
| "operator_tokens (Atom t) = []" | "operator_tokens (Ident n) = []" | "operator_tokens (Unary u x) = []"
| "operator_tokens (Group x) = []" | "operator_tokens (Sub t k) = []" | "operator_tokens (Dot t f) = []"

primrec suffix_tokens :: "tree \<Rightarrow> Token list" where
  "suffix_tokens (Sub t k) = suffix_tokens t @ T_Char 91 # unparse k @ [T_Char 93]"
| "suffix_tokens (Dot t f) = suffix_tokens t @ [T_Char 46, T_Name f]"
| "suffix_tokens (Atom t) = []" | "suffix_tokens (Ident n) = []" | "suffix_tokens (Unary u x) = []"
| "suffix_tokens (Group x) = []" | "suffix_tokens (Binary b l r) = []"

lemma unparse_nonempty [simp]: "unparse t \<noteq> []" by (induction t) auto

lemma part_tokens:
  "set (operator_tokens t) \<subseteq> set (unparse t)" "set (suffix_tokens t) \<subseteq> set (unparse t)"
  "spine t = 0 \<or> spine t < length (operator_tokens t)" "chain t = 0 \<or> chain t < length (suffix_tokens t)"
  by (induction t) auto

definition expr_head :: "lex_env \<Rightarrow> nat \<Rightarrow> Span \<Rightarrow> Expr pop" where
  "expr_head E N span = obind (oget ps_current) (\<lambda>t. case get_unary_op t of
     Some unop \<Rightarrow> othen (skip_token E) (obind (snd (parsers N E) UNARY_PRIORITY) (\<lambda>operand. oret (E_UnOp unop operand span)))
   | None \<Rightarrow> parse_simple_expr E (fst (parsers N E)) (snd (parsers N E) 0))"

text \<open>At the main function, with that many levels left.\<close>

definition shallow :: "nat \<Rightarrow> parser \<Rightarrow> bool" where
  "shallow n p \<longleftrightarrow> length (ps_func_scopes p) = 1 \<and> unat (ps_syntax_depth p) + n \<le> 200"

definition reads :: "lex_env \<Rightarrow> nat \<Rightarrow> nat \<Rightarrow> tree \<Rightarrow> bool" where
  "reads E N lim t \<longleftrightarrow> (\<forall>p u rest. before E p (unparse t @ u # rest) \<and> shallow (levels t) p \<and> may_follow u t
     \<and> (\<forall>b. get_binary_op u = Some b \<longrightarrow> lp b \<le> lim) \<longrightarrow>
     (\<exists>p' e. snd (parsers N E) lim p = (p', Inr e) \<and> before E p' (u # rest) \<and> beside p p' \<and> tree_of e = Some t))"

definition reads_spine :: "lex_env \<Rightarrow> nat \<Rightarrow> nat \<Rightarrow> tree \<Rightarrow> bool" where
  "reads_spine E N lim t \<longleftrightarrow> (\<forall>p u rest span. before E p (unparse t @ u # rest) \<and> shallow (levels t - 1) p \<and> may_follow u t \<longrightarrow>
     (\<exists>ph eh p' e. expr_head E N span p = (ph, Inr eh) \<and> before E ph (operator_tokens t @ u # rest) \<and> beside p ph
        \<and> (\<forall>n \<ge> spine t. binops_n n E (snd (parsers N E)) lim span eh ph = binops_n (n - spine t) E (snd (parsers N E)) lim span e p')
        \<and> before E p' (u # rest) \<and> beside p p' \<and> tree_of e = Some t))"

definition reads_chain :: "lex_env \<Rightarrow> nat \<Rightarrow> tree \<Rightarrow> bool" where
  "reads_chain E N t \<longleftrightarrow> (\<forall>p u rest. before E p (unparse t @ u # rest) \<and> shallow (levels t - 1) p \<longrightarrow>
     (\<exists>ph eh p' e. parse_primary_expr E (snd (parsers N E) 0) p = (ph, Inr eh) \<and> before E ph (suffix_tokens t @ u # rest) \<and> beside p ph
        \<and> (\<forall>n \<ge> chain t. suffixes_n n E (snd (parsers N E) 0) eh ph = suffixes_n (n - chain t) E (snd (parsers N E) 0) e p')
        \<and> before E p' (u # rest) \<and> beside p p' \<and> tree_of e = Some t))"

lemma levels_Suc: "\<exists>n. levels t = Suc n" using levels_pos [of t] by (cases "levels t") auto

lemma parsers_Suc: "snd (parsers (Suc N) E) lim = othen enter_level (obind (oget ps_span) (\<lambda>span. obind (expr_head E N span)
    (\<lambda>e. obind (\<lambda>q. binops_n (prounds q) E (snd (parsers N E)) lim span e q) (\<lambda>e. othen leave_level (oret e)))))"
  by (simp only: parsers.simps split_beta snd_conv parse_sub_expr_def expr_head_def obind_assoc)

lemma reads_Suc:
  assumes "reads_spine E N lim t" "well_grouped lim t"
  shows "reads E (Suc N) lim t"
  unfolding reads_def
proof (intro allI impI, elim conjE)
  fix p u rest
  assume b: "before E p (unparse t @ u # rest)" and sh: "shallow (levels t) p" and f: "may_follow u t"
    and l: "\<forall>b. get_binary_op u = Some b \<longrightarrow> lp b \<le> lim"
  let ?p = "p\<lparr>ps_syntax_depth := ps_syntax_depth p + 1\<rparr>"
  obtain k where k: "levels t = Suc k" using levels_Suc by blast
  have d: "unat (ps_syntax_depth ?p) = Suc (unat (ps_syntax_depth p))" using sh by (simp add: shallow_def depth_step)
  have enter: "enter_level p = (?p, Inr ())"
    using d sh k by (simp add: enter_level_def Let_def MAX_SYNTAX_LEVELS_def shallow_def word_less_nat_alt not_less)
  have "before E ?p (unparse t @ u # rest)" "shallow (levels t - 1) ?p"
    using b sh d k by (simp_all add: before_def steady_def shallow_def)
  then obtain ph eh p' e where h: "expr_head E N (ps_span p) ?p = (ph, Inr eh)" "before E ph (operator_tokens t @ u # rest)"
      "\<forall>n \<ge> spine t. binops_n n E (snd (parsers N E)) lim (ps_span p) eh ph = binops_n (n - spine t) E (snd (parsers N E)) lim (ps_span p) e p'"
      "before E p' (u # rest)" "beside ?p p'" "tree_of e = Some t"
    using assms(1) f unfolding reads_spine_def by (metis (no_types, lifting))
  have "T_Eos \<notin> set (operator_tokens t)" using unparse_no_end [OF assms(2)] part_tokens(1) by blast
  then have "spine t < prounds ph"
    using enough_rounds [OF h(2)] part_tokens(3) [of t] by (auto simp: prounds_def)
  then obtain n where n: "prounds ph - spine t = Suc n" by (metis Suc_diff_Suc)
  have loop: "binops_n (prounds ph) E (snd (parsers N E)) lim (ps_span p) eh ph = (p', Inr e)"
    using h(3) n \<open>spine t < prounds ph\<close> l h(4)
    by (auto simp: before_def oret_def split: option.split prod.split)
  let ?q = "p'\<lparr>ps_syntax_depth := ps_syntax_depth p' - 1\<rparr>"
  let ?rest = "\<lambda>span e. obind (\<lambda>q. binops_n (prounds q) E (snd (parsers N E)) lim span e q) (\<lambda>e. othen leave_level (oret e))"
  have "snd (parsers (Suc N) E) lim p = obind (expr_head E N (ps_span p)) (?rest (ps_span p)) ?p"
    unfolding parsers_Suc by (simp add: othen_ok [where m = enter_level, OF enter])
  also have "\<dots> = ?rest (ps_span p) eh ph" by (rule obind_ok [where m = "expr_head E N (ps_span p)", OF h(1)])
  also have "\<dots> = othen leave_level (oret e) p'" by (rule obind_ok) (rule loop)
  also have "\<dots> = (?q, Inr e)" by (simp add: leave_level_def othen_def oret_def)
  finally have "snd (parsers (Suc N) E) lim p = (?q, Inr e)" .
  moreover have "before E ?q (u # rest)" "beside p ?q"
    using h(4,5) by (simp_all add: before_def steady_def beside_def)
  ultimately show "\<exists>p' e. snd (parsers (Suc N) E) lim p = (p', Inr e) \<and> before E p' (u # rest) \<and> beside p p' \<and> tree_of e = Some t"
    using h(6) by blast
qed


text \<open>The cases of the head of an expression.\<close>

lemma reads_atom:
  assumes "is_atom t"
  shows "reads_spine E N lim (Atom t)"
  unfolding reads_spine_def
proof (intro allI impI, elim conjE)
  fix p u rest span
  assume b: "before E p (unparse (Atom t) @ u # rest)"
  then have c: "ps_current p = t" by (simp add: before_def)
  have b': "before E p (t # u # rest)" using b by simp
  obtain p' where p': "skip_token E p = (p', Inr ())" "before E p' (u # rest)" "beside p p'"
    using skip_before [OF b'] by blast
  have "\<exists>e. expr_head E N span p = (p', Inr e) \<and> tree_of e = Some (Atom t)"
    using assms c p'(1)
    by (cases t) (auto simp: is_atom_def expr_head_def parse_simple_expr_def get_unary_op_def othen_ok [where m = "skip_token E"] oret_def)
  then show "\<exists>ph eh p' e. expr_head E N span p = (ph, Inr eh) \<and> before E ph (operator_tokens (Atom t) @ u # rest) \<and> beside p ph
        \<and> (\<forall>n \<ge> spine (Atom t). binops_n n E (snd (parsers N E)) lim span eh ph = binops_n (n - spine (Atom t)) E (snd (parsers N E)) lim span e p')
        \<and> before E p' (u # rest) \<and> beside p p' \<and> tree_of e = Some (Atom t)"
    using p'(2,3) by fastforce
qed

lemma reads_unary:
  assumes "reads E N UNARY_PRIORITY x"
  shows "reads_spine E N lim (Unary uop x)"
  unfolding reads_spine_def
proof (intro allI impI, elim conjE)
  fix p u rest span
  assume b: "before E p (unparse (Unary uop x) @ u # rest)" and sh: "shallow (levels (Unary uop x) - 1) p" and f: "may_follow u (Unary uop x)"
  have c: "ps_current p = unary_token uop" using b by (simp add: before_def)
  obtain v vs where v: "unparse x @ u # rest = v # vs" by (cases "unparse x") auto
  have b': "before E p (unary_token uop # v # vs)" using b v by simp
  obtain p1 where p1: "skip_token E p = (p1, Inr ())" "before E p1 (v # vs)" "beside p p1"
    using skip_before [OF b'] by blast
  have "shallow (levels x) p1" using sh p1(3) by (simp add: shallow_def beside_def)
  moreover have "may_follow u x" "\<forall>b. get_binary_op u = Some b \<longrightarrow> lp b \<le> UNARY_PRIORITY" using f by (auto simp: may_follow_def)
  ultimately obtain p' e where e: "snd (parsers N E) UNARY_PRIORITY p1 = (p', Inr e)" "before E p' (u # rest)" "beside p1 p'" "tree_of e = Some x"
    using assms p1(2) v unfolding reads_def by metis
  have "expr_head E N span p = (p', Inr (E_UnOp uop e span))"
    using c p1(1) e(1) by (simp add: expr_head_def token_ops othen_ok [where m = "skip_token E"]
        obind_ok [where m = "snd (parsers N E) UNARY_PRIORITY", OF e(1)] oret_def)
  then show "\<exists>ph eh p' e. expr_head E N span p = (ph, Inr eh) \<and> before E ph (operator_tokens (Unary uop x) @ u # rest) \<and> beside p ph
        \<and> (\<forall>n \<ge> spine (Unary uop x). binops_n n E (snd (parsers N E)) lim span eh ph = binops_n (n - spine (Unary uop x)) E (snd (parsers N E)) lim span e p')
        \<and> before E p' (u # rest) \<and> beside p p' \<and> tree_of e = Some (Unary uop x)"
    using e(2,4) beside_trans [OF p1(3) e(3)] by (intro exI [of _ p'] exI [of _ "E_UnOp uop e span"]) simp
qed

lemma reads_binary:
  assumes l: "reads_spine E N lim l" and r: "reads E N (rp bop) r" and lv: "leaves (lp bop) l" "lim < lp bop"
  shows "reads_spine E N lim (Binary bop l r)"
  unfolding reads_spine_def
proof (intro allI impI, elim conjE)
  fix p u rest span
  let ?t = "Binary bop l r"
  assume b: "before E p (unparse ?t @ u # rest)" and sh: "shallow (levels ?t - 1) p" and f: "may_follow u ?t"
  have b': "before E p (unparse l @ binary_token bop # (unparse r @ u # rest))" using b by simp
  have "shallow (levels l - 1) p" using sh by (auto simp: shallow_def)
  moreover have "\<not> is_suffix (binary_token bop)" by (cases bop) (simp_all add: is_suffix_def binary_token_def)
  then have "may_follow (binary_token bop) l" using lv(1) by (simp add: may_follow_def token_ops)
  ultimately obtain ph eh p1 e1 where h: "expr_head E N span p = (ph, Inr eh)"
      "before E ph (operator_tokens l @ binary_token bop # (unparse r @ u # rest))" "beside p ph"
      "\<forall>n \<ge> spine l. binops_n n E (snd (parsers N E)) lim span eh ph = binops_n (n - spine l) E (snd (parsers N E)) lim span e1 p1"
      "before E p1 (binary_token bop # (unparse r @ u # rest))" "beside p p1" "tree_of e1 = Some l"
    using l b' unfolding reads_spine_def by blast
  obtain v vs where v: "unparse r @ u # rest = v # vs" by (cases "unparse r") auto
  obtain p2 where p2: "skip_token E p1 = (p2, Inr ())" "before E p2 (v # vs)" "beside p1 p2"
    using skip_before h(5) v by metis
  have "shallow (levels r) p2" using sh p2(3) h(6) by (auto simp: shallow_def beside_def)
  moreover have "may_follow u r" "\<forall>b. get_binary_op u = Some b \<longrightarrow> lp b \<le> rp bop" using f by (auto simp: may_follow_def)
  ultimately obtain p' e where e: "snd (parsers N E) (rp bop) p2 = (p', Inr e)" "before E p' (u # rest)" "beside p2 p'" "tree_of e = Some r"
    using r p2(2) v unfolding reads_def by metis
  have c: "ps_current p1 = binary_token bop" using h(5) by (simp add: before_def)
  have round: "binops_n (Suc n) E (snd (parsers N E)) lim span e1 p1 = binops_n n E (snd (parsers N E)) lim span (E_BinOp bop e1 e span) p'" for n
    using lv(2) c by (simp add: token_ops split_beta not_le othen_ok [where m = "skip_token E", OF p2(1)]
        obind_ok [where m = "snd (parsers N E) (rp bop)", OF e(1)])
  have "binops_n n E (snd (parsers N E)) lim span eh ph = binops_n (n - spine ?t) E (snd (parsers N E)) lim span (E_BinOp bop e1 e span) p'"
    if n: "n \<ge> spine ?t" for n
  proof -
    obtain m where "n = Suc (spine l + m)" using le_Suc_ex [OF n] by auto
    then show ?thesis using h(4) [rule_format, of n] round [of m] by simp
  qed
  then show "\<exists>ph eh p' e. expr_head E N span p = (ph, Inr eh) \<and> before E ph (operator_tokens ?t @ u # rest) \<and> beside p ph
        \<and> (\<forall>n \<ge> spine ?t. binops_n n E (snd (parsers N E)) lim span eh ph = binops_n (n - spine ?t) E (snd (parsers N E)) lim span e p')
        \<and> before E p' (u # rest) \<and> beside p p' \<and> tree_of e = Some ?t"
    using h(1,2,3,7) e(2,4) beside_trans [OF h(6) beside_trans [OF p2(3) e(3)]]
    by (intro exI [of _ ph] exI [of _ eh] exI [of _ p'] exI [of _ "E_BinOp bop e1 e span"]) simp
qed


text \<open>Prefixes and their suffixes.\<close>

lemma reads_prefix:
  assumes "reads_chain E N t" "is_prefix t" "well_grouped lim t"
  shows "reads_spine E N lim t"
  unfolding reads_spine_def
proof (intro allI impI, elim conjE)
  fix p u rest span
  assume b: "before E p (unparse t @ u # rest)" and sh: "shallow (levels t - 1) p" and f: "may_follow u t"
  obtain ph eh p' e where h: "parse_primary_expr E (snd (parsers N E) 0) p = (ph, Inr eh)" "before E ph (suffix_tokens t @ u # rest)"
      "\<forall>n \<ge> chain t. suffixes_n n E (snd (parsers N E) 0) eh ph = suffixes_n (n - chain t) E (snd (parsers N E) 0) e p'"
      "before E p' (u # rest)" "beside p p'" "tree_of e = Some t"
    using assms(1) b sh unfolding reads_chain_def by blast
  have "T_Eos \<notin> set (suffix_tokens t)" using unparse_no_end [OF assms(3)] part_tokens(2) by blast
  then have "chain t < prounds ph"
    using enough_rounds [OF h(2)] part_tokens(4) [of t] by (auto simp: prounds_def)
  moreover obtain n where n: "prounds ph - chain t = Suc n" using calculation by (metis Suc_diff_Suc)
  moreover have "suffixes_n (Suc n) E (snd (parsers N E) 0) e p' = (p', Inr e)"
    using h(4) f by (auto simp: before_def oret_def may_follow_def is_suffix_def Let_def split: Token.split)
  ultimately have "parse_suffixed_expr E (snd (parsers N E) 0) p = (p', Inr e)"
    using h(3) by (simp add: parse_suffixed_expr_def obind_ok [where m = "parse_primary_expr E (snd (parsers N E) 0)", OF h(1)])
  moreover have "\<exists>n. ps_current p = T_Name n \<or> ps_current p = T_Char 40"
  proof -
    have "is_prefix t \<Longrightarrow> well_grouped lim t \<Longrightarrow> \<exists>n. hd (unparse t) = T_Name n \<or> hd (unparse t) = T_Char 40" for t
      by (induction t) (auto simp: hd_append)
    then show ?thesis using b assms(2,3) by (auto simp: before_def hd_append)
  qed
  ultimately have "expr_head E N span p = (p', Inr e)"
    by (auto simp: expr_head_def get_unary_op_def parse_simple_expr_def)
  moreover have "operator_tokens t = []" "spine t = 0" using assms(2) by (cases t; simp)+
  ultimately show "\<exists>ph eh p' e. expr_head E N span p = (ph, Inr eh) \<and> before E ph (operator_tokens t @ u # rest) \<and> beside p ph
        \<and> (\<forall>n \<ge> spine t. binops_n n E (snd (parsers N E)) lim span eh ph = binops_n (n - spine t) E (snd (parsers N E)) lim span e p')
        \<and> before E p' (u # rest) \<and> beside p p' \<and> tree_of e = Some t"
    using h(4,5,6) by fastforce
qed

lemma chain_ident: "reads_chain E N (Ident n)"
  unfolding reads_chain_def
proof (intro allI impI, elim conjE)
  fix p u rest
  assume b: "before E p (unparse (Ident n) @ u # rest)" and sh: "shallow (levels (Ident n) - 1) p"
  have b': "before E p (T_Name n # u # rest)" using b by simp
  obtain p' where p': "skip_token E p = (p', Inr ())" "before E p' (u # rest)" "beside p p'"
    using skip_before [OF b'] by blast
  have "parse_primary_expr E (snd (parsers N E) 0) p = (p', Inr (E_Name n (ps_span p)))"
    using b sh p'(1,3) by (simp add: parse_primary_expr_def before_def othen_ok [where m = "skip_token E"] check_name_upvalue_def
        shallow_def beside_def Let_def othen_def obind_def oret_def)
  then show "\<exists>ph eh p' e. parse_primary_expr E (snd (parsers N E) 0) p = (ph, Inr eh) \<and> before E ph (suffix_tokens (Ident n) @ u # rest) \<and> beside p ph
        \<and> (\<forall>m \<ge> chain (Ident n). suffixes_n m E (snd (parsers N E) 0) eh ph = suffixes_n (m - chain (Ident n)) E (snd (parsers N E) 0) e p')
        \<and> before E p' (u # rest) \<and> beside p p' \<and> tree_of e = Some (Ident n)"
    using p'(2,3) by fastforce
qed

lemma chain_group:
  assumes "reads E N 0 x"
  shows "reads_chain E N (Group x)"
  unfolding reads_chain_def
proof (intro allI impI, elim conjE)
  fix p u rest
  assume b: "before E p (unparse (Group x) @ u # rest)" and sh: "shallow (levels (Group x) - 1) p"
  obtain v vs where v: "unparse x @ T_Char 41 # u # rest = v # vs" by (cases "unparse x") auto
  have b': "before E p (T_Char 40 # v # vs)" using b v by simp
  obtain p1 where p1: "skip_token E p = (p1, Inr ())" "before E p1 (v # vs)" "beside p p1"
    using skip_before [OF b'] by blast
  have "shallow (levels x) p1" using sh p1(3) by (simp add: shallow_def beside_def)
  moreover have "may_follow (T_Char 41) x" "\<forall>b. get_binary_op (T_Char 41) = Some b \<longrightarrow> lp b \<le> 0"
    by (simp_all add: may_follow_def is_suffix_def get_binary_op_def)
  ultimately obtain p2 e where e: "snd (parsers N E) 0 p1 = (p2, Inr e)" "before E p2 (T_Char 41 # u # rest)" "beside p1 p2" "tree_of e = Some x"
    using assms p1(2) v unfolding reads_def by metis
  obtain p' span where p': "expect_char E 41 p2 = (p', Inr span)" "before E p' (u # rest)" "beside p2 p'"
    using expect_before [OF e(2)] by blast
  have "parse_primary_expr E (snd (parsers N E) 0) p = (p', Inr (E_Paren e (ps_span p)))"
    using b by (simp add: parse_primary_expr_def before_def othen_ok [where m = "skip_token E", OF p1(1)]
        obind_ok [where m = "snd (parsers N E) 0", OF e(1)] othen_ok [where m = "expect_char E 41", OF p'(1)] oret_def)
  then show "\<exists>ph eh p' e. parse_primary_expr E (snd (parsers N E) 0) p = (ph, Inr eh) \<and> before E ph (suffix_tokens (Group x) @ u # rest) \<and> beside p ph
        \<and> (\<forall>n \<ge> chain (Group x). suffixes_n n E (snd (parsers N E) 0) eh ph = suffixes_n (n - chain (Group x)) E (snd (parsers N E) 0) e p')
        \<and> before E p' (u # rest) \<and> beside p p' \<and> tree_of e = Some (Group x)"
    using p'(2) e(4) beside_trans [OF p1(3) beside_trans [OF e(3) p'(3)]]
    by (intro exI [of _ p'] exI [of _ "E_Paren e (ps_span p)"] exI [of _ p'] exI [of _ "E_Paren e (ps_span p)"]) simp
qed


lemma chain_sub:
  assumes t: "reads_chain E N t" and k: "reads E N 0 k"
  shows "reads_chain E N (Sub t k)"
  unfolding reads_chain_def
proof (intro allI impI, elim conjE)
  fix p u rest
  let ?t = "Sub t k"
  let ?S = "snd (parsers N E) 0"
  assume b: "before E p (unparse ?t @ u # rest)" and sh: "shallow (levels ?t - 1) p"
  have b': "before E p (unparse t @ T_Char 91 # (unparse k @ T_Char 93 # u # rest))" using b by simp
  have "shallow (levels t - 1) p" using sh by (auto simp: shallow_def)
  then obtain ph eh p1 e1 where h: "parse_primary_expr E ?S p = (ph, Inr eh)"
      "before E ph (suffix_tokens t @ T_Char 91 # (unparse k @ T_Char 93 # u # rest))" "beside p ph"
      "\<forall>n \<ge> chain t. suffixes_n n E ?S eh ph = suffixes_n (n - chain t) E ?S e1 p1"
      "before E p1 (T_Char 91 # (unparse k @ T_Char 93 # u # rest))" "beside p p1" "tree_of e1 = Some t"
    using t b' unfolding reads_chain_def by blast
  obtain v vs where v: "unparse k @ T_Char 93 # u # rest = v # vs" by (cases "unparse k") auto
  obtain p2 where p2: "skip_token E p1 = (p2, Inr ())" "before E p2 (v # vs)" "beside p1 p2"
    using skip_before h(5) v by metis
  have "shallow (levels k) p2" using sh p2(3) h(6) by (auto simp: shallow_def beside_def)
  moreover have "may_follow (T_Char 93) k" "\<forall>b. get_binary_op (T_Char 93) = Some b \<longrightarrow> lp b \<le> 0"
    by (simp_all add: may_follow_def is_suffix_def get_binary_op_def)
  ultimately obtain p3 e where e: "?S p2 = (p3, Inr e)" "before E p3 (T_Char 93 # u # rest)" "beside p2 p3" "tree_of e = Some k"
    using k p2(2) v unfolding reads_def by metis
  obtain p' span where p': "expect_char E 93 p3 = (p', Inr span)" "before E p' (u # rest)" "beside p3 p'"
    using expect_before [OF e(2)] by blast
  let ?e = "E_Index e1 e (expr_span e1)"
  have c: "ps_current p1 = T_Char 91" using h(5) by (simp add: before_def)
  have round: "suffixes_n (Suc n) E ?S e1 p1 = suffixes_n n E ?S ?e p'" for n
    using c by (simp add: Let_def othen_ok [where m = "skip_token E", OF p2(1)]
        obind_ok [where m = ?S, OF e(1)] othen_ok [where m = "expect_char E 93", OF p'(1)])
  have "suffixes_n n E ?S eh ph = suffixes_n (n - chain ?t) E ?S ?e p'" if n: "n \<ge> chain ?t" for n
  proof -
    obtain m where "n = Suc (chain t + m)" using le_Suc_ex [OF n] by auto
    then show ?thesis using h(4) [rule_format, of n] round [of m] by simp
  qed
  then show "\<exists>ph eh p' e. parse_primary_expr E ?S p = (ph, Inr eh) \<and> before E ph (suffix_tokens ?t @ u # rest) \<and> beside p ph
        \<and> (\<forall>n \<ge> chain ?t. suffixes_n n E ?S eh ph = suffixes_n (n - chain ?t) E ?S e p')
        \<and> before E p' (u # rest) \<and> beside p p' \<and> tree_of e = Some ?t"
    using h(1,2,3,7) p'(2) e(4) beside_trans [OF h(6) beside_trans [OF p2(3) beside_trans [OF e(3) p'(3)]]]
    by (intro exI [of _ ph] exI [of _ eh] exI [of _ p'] exI [of _ ?e]) simp
qed

lemma chain_dot:
  assumes t: "reads_chain E N t"
  shows "reads_chain E N (Dot t f)"
  unfolding reads_chain_def
proof (intro allI impI, elim conjE)
  fix p u rest
  let ?t = "Dot t f"
  let ?S = "snd (parsers N E) 0"
  assume b: "before E p (unparse ?t @ u # rest)" and sh: "shallow (levels ?t - 1) p"
  have b': "before E p (unparse t @ T_Char 46 # T_Name f # u # rest)" using b by simp
  have "shallow (levels t - 1) p" using sh by (auto simp: shallow_def)
  then obtain ph eh p1 e1 where h: "parse_primary_expr E ?S p = (ph, Inr eh)"
      "before E ph (suffix_tokens t @ T_Char 46 # T_Name f # u # rest)" "beside p ph"
      "\<forall>n \<ge> chain t. suffixes_n n E ?S eh ph = suffixes_n (n - chain t) E ?S e1 p1"
      "before E p1 (T_Char 46 # T_Name f # u # rest)" "beside p p1" "tree_of e1 = Some t"
    using t b' unfolding reads_chain_def by blast
  obtain p2 where p2: "skip_token E p1 = (p2, Inr ())" "before E p2 (T_Name f # u # rest)" "beside p1 p2"
    using skip_before [OF h(5)] by blast
  obtain p' span where p': "expect_name E p2 = (p', Inr (f, span))" "before E p' (u # rest)" "beside p2 p'"
    using name_before [OF p2(2)] by blast
  let ?e = "E_Field e1 f (expr_span e1)"
  have c: "ps_current p1 = T_Char 46" using h(5) by (simp add: before_def)
  have round: "suffixes_n (Suc n) E ?S e1 p1 = suffixes_n n E ?S ?e p'" for n
    using c by (simp add: Let_def othen_ok [where m = "skip_token E", OF p2(1)] obind_ok [where m = "expect_name E", OF p'(1)])
  have "suffixes_n n E ?S eh ph = suffixes_n (n - chain ?t) E ?S ?e p'" if n: "n \<ge> chain ?t" for n
  proof -
    obtain m where "n = Suc (chain t + m)" using le_Suc_ex [OF n] by auto
    then show ?thesis using h(4) [rule_format, of n] round [of m] by simp
  qed
  then show "\<exists>ph eh p' e. parse_primary_expr E ?S p = (ph, Inr eh) \<and> before E ph (suffix_tokens ?t @ u # rest) \<and> beside p ph
        \<and> (\<forall>n \<ge> chain ?t. suffixes_n n E ?S eh ph = suffixes_n (n - chain ?t) E ?S e p')
        \<and> before E p' (u # rest) \<and> beside p p' \<and> tree_of e = Some ?t"
    using h(1,2,3,7) p'(2) beside_trans [OF h(6) beside_trans [OF p2(3) p'(3)]]
    by (intro exI [of _ ph] exI [of _ eh] exI [of _ p'] exI [of _ ?e]) simp
qed

text \<open>All trees.\<close>

lemma reads_tree:
  "levels t \<le> Suc N \<Longrightarrow> well_grouped lim t \<Longrightarrow> reads_spine E N lim t \<and> (is_prefix t \<longrightarrow> reads_chain E N t)"
proof (induction t arbitrary: N lim)
  case (Atom t)
  then show ?case by (simp add: reads_atom)
next
  case (Ident n)
  then show ?case using reads_prefix [OF chain_ident, of n lim E N] chain_ident by simp
next
  case (Binary b l r)
  then obtain M where "N = Suc M" using levels_Suc [of r] by (cases N) auto
  then show ?case using Binary reads_Suc [of E M "rp b" r] by (auto intro!: reads_binary)
next
  case (Unary u x)
  then obtain M where "N = Suc M" using levels_Suc [of x] by (cases N) auto
  then show ?case using Unary reads_Suc [of E M UNARY_PRIORITY x] by (auto intro!: reads_unary)
next
  case (Group x)
  then obtain M where "N = Suc M" using levels_Suc [of x] by (cases N) auto
  then have "reads_chain E N (Group x)" using Group reads_Suc [of E M 0 x] by (auto intro!: chain_group)
  then show ?case using reads_prefix [of E N "Group x" lim] Group.prems by simp
next
  case (Sub t k)
  then obtain M where "N = Suc M" using levels_Suc [of k] by (cases N) auto
  then have "reads_chain E N (Sub t k)" using Sub reads_Suc [of E M 0 k] by (auto intro!: chain_sub)
  then show ?case using reads_prefix [of E N "Sub t k" lim] Sub.prems by simp
next
  case (Dot t f)
  then have "reads_chain E N (Dot t f)" by (auto intro!: chain_dot)
  then show ?case using reads_prefix [of E N "Dot t f" lim] Dot.prems by simp
qed


section \<open>From the text\<close>

lemma tokens_given: "tokens n E l = Inr ts \<Longrightarrow> lexer_gives E l ts"
proof (induction n arbitrary: l ts)
  case (Suc n)
  then obtain l1 t span where n: "next_token E l = (l1, Inr (t, span))"
    by (auto split: prod.splits sum.splits)
  show ?case
  proof (cases "t = T_Eos")
    case True
    then show ?thesis using Suc.prems n by auto
  next
    case False
    then obtain us where "tokens n E l1 = Inr us" "ts = t # us" using Suc.prems n by (auto split: sum.splits)
    then show ?thesis using Suc.IH n by simp
  qed
qed simp

lemma parser_before:
  assumes "lexer_gives E (lexer_new source name) ts" "ts \<noteq> []"
  shows "\<exists>p. parser_from_lexer E (lexer_new source name) = Inr p \<and> before E p ts \<and> ps_syntax_depth p = 0 \<and> length (ps_func_scopes p) = 1"
proof -
  let ?l = "lexer_new source name"
  obtain t us where ts: "ts = t # us" using assms(2) by (cases ts) auto
  then obtain l1 span where n: "next_token E ?l = (l1, Inr (t, span))" "lexer_gives E l1 us" using assms(1) by auto
  have w: "whole ?l" "lx_lookahead ?l = None" by (rule whole_new)+
  then have "scan E ?l = (l1, Inr (t, span))" using n by (simp add: next_token_def)
  then have "whole l1" using scan_whole [OF w(1)] by fastforce
  then show ?thesis using n ts by (simp add: parser_from_lexer_def before_def steady_def)
qed

lemma return_parses:
  assumes "tokens n E (lexer_new source name) = Inr (T_Return # unparse t @ [T_Eos])" "well_grouped 0 t" "levels t \<le> 199"
  shows "\<exists>e span. parse E source name = Inr [S_Return [e] span] \<and> tree_of e = Some t"
proof -
  obtain p where p: "parser_from_lexer E (lexer_new source name) = Inr p" "before E p (T_Return # unparse t @ [T_Eos])"
      "ps_syntax_depth p = 0" "length (ps_func_scopes p) = 1"
    using parser_before [OF tokens_given [OF assms(1)]] by auto
  let ?S = "snd (parsers 200 E) 0"
  let ?p = "p\<lparr>ps_syntax_depth := 1\<rparr>"
  have enter: "enter_level p = (?p, Inr ())" using p(3) by (simp add: enter_level_def Let_def MAX_SYNTAX_LEVELS_def)
  obtain v vs where v: "unparse t @ [T_Eos] = v # vs" by (cases "unparse t") auto
  have b1: "before E ?p (T_Return # v # vs)" using p(2) v by (simp add: before_def steady_def)
  obtain p1 where p1: "skip_token E ?p = (p1, Inr ())" "before E p1 (v # vs)" "beside ?p p1" using skip_before [OF b1] by blast
  have "reads E 200 0 t"
    using reads_Suc [of E 199 0 t] reads_tree [of t 199 0 E] assms(2,3) by simp
  moreover have "shallow (levels t) p1" using p1(3) p(4) assms(3) by (simp add: shallow_def beside_def)
  moreover have "may_follow T_Eos t" "\<forall>b. get_binary_op T_Eos = Some b \<longrightarrow> lp b \<le> 0"
    by (simp_all add: may_follow_def is_suffix_def get_binary_op_def)
  ultimately obtain p2 e where e: "?S p1 = (p2, Inr e)" "before E p2 [T_Eos]" "beside p1 p2" "tree_of e = Some t"
    using p1(2) v unfolding reads_def by metis
  have hd: "v \<notin> {T_Else, T_ElseIf, T_End, T_Until, T_Eos, T_Char 59}"
  proof -
    have "well_grouped lim t \<Longrightarrow> hd (unparse t) \<notin> {T_Else, T_ElseIf, T_End, T_Until, T_Eos, T_Char 59}" for lim t
      by (induction t arbitrary: lim) (auto simp: hd_append is_atom_def unary_token_def split: UnOp.splits)
    then show ?thesis using v assms(2) by (metis hd_append list.sel(1) unparse_nonempty)
  qed
  have k: "ps_current_kind p1 = token_kind v" "ps_current_kind p2 = token_kind T_Eos" "ps_current_kind ?p = token_kind T_Return"
    using p1(2) e(2) b1 by (simp_all add: before_def steady_def)
  note kinds = k(2,3) [unfolded token_kind_def, simplified]
  have nofollow: "\<not> p_block_follow p1" "ps_current_kind p1 \<noteq> K_Char 59"
    using hd k(1) by (cases v; auto simp: p_block_follow_def token_kind_def)+
  obtain m where m: "prounds p2 = Suc m" by (simp add: prounds_def)
  have t44: "test_next_char E 44 p2 = (p2, Inr False)" and t59: "test_next_char E 59 p2 = (p2, Inr False)"
    by (rule test_before [OF e(2)], simp)+
  have list: "parse_expr_list E ?S p1 = (p2, Inr [e])"
    using m
    by (simp add: parse_expr_list_def obind_ok [where m = ?S, OF e(1)] more_exprs_def obind_ok [where m = "test_next_char E 44", OF t44] oret_def)
  have ret: "parse_return E ?S span ?p = (p2, Inr (S_Return [e] span))" for span
    using nofollow list by (simp add: parse_return_def othen_ok [where m = "skip_token E", OF p1(1)] check_char_def
        obind_ok [where m = "parse_expr_list E ?S", OF list] oret_def)
  have stat: "parse_stat E (fst (parsers 200 E)) ?S ?p = (p2, Inr (S_Return [e] (ps_span p)))"
    using b1 ret by (simp add: parse_stat_def before_def)
  obtain j where j: "prounds ?p = Suc j" by (simp add: prounds_def)
  have stats: "stats_n (prounds ?p) E (fst (parsers 200 E)) ?S [] ?p = (p2, Inr [S_Return [e] (ps_span p)])"
    using kinds
    by (simp add: j p_block_follow_def obind_ok [where m = "parse_stat E (fst (parsers 200 E)) ?S", OF stat]
        obind_ok [where m = "test_next_char E 59", OF t59] is_last_def oret_def)
  let ?close = "\<lambda>stmts. othen (restore_locals (saved_locals ?p)) (othen leave_level (oret stmts))"
  have "parse_block E (fst (parsers 200 E)) (snd (parsers 200 E)) p
      = obind (\<lambda>p. stats_n (prounds p) E (fst (parsers 200 E)) ?S [] p) ?close ?p"
    unfolding parse_block_def othen_ok [where m = enter_level, OF enter] by simp
  also have "\<dots> = ?close [S_Return [e] (ps_span p)] p2" by (rule obind_ok) (rule stats)
  finally have "\<exists>q. parse_block E (fst (parsers 200 E)) (snd (parsers 200 E)) p = (q, Inr [S_Return [e] (ps_span p)])
      \<and> ps_current_kind q = K_Tok T_Eos"
    using kinds by (auto simp: othen_def restore_locals_def leave_level_def oret_def set_scope_def split: option.split)
  moreover have "fst (parsers (Suc 200) E) = parse_block E (fst (parsers 200 E)) (snd (parsers 200 E))"
    by (simp only: parsers.simps split_beta fst_conv)
  ultimately obtain q where q: "fst (parsers (Suc 200) E) p = (q, Inr [S_Return [e] (ps_span p)])" "ps_current_kind q = K_Tok T_Eos"
    by (metis (no_types))
  have "parse_depth = Suc 200" by (simp add: parse_depth_def MAX_SYNTAX_LEVELS_def)
  then have "parse E source name = Inr [S_Return [e] (ps_span p)]"
    using q p(1) by (simp add: parse_def parse_with_lexer_def parse_chunk_def obind_def check_def token_kind_def oget_def oret_def del: parsers.simps)
  then show ?thesis using e(4) by blast
qed

text \<open>C20. A text whose tokens are a \<open>return\<close> and an expression of operators, indexing, fields and parentheses,
  nested below the limit of levels and with its parentheses where the grammar of the language needs them, parses to that
  expression: the or-operator binds least, then and, the comparisons, concatenation grouping to the right, sums,
  products, the unary operators and powers, which group to the right and bind more than a unary operator on their left.
  The grammar is given by strata, and does not mention the priorities of the parser.\<close>

theorem operators_parse_back:
  assumes "tokens n E (lexer_new source name) = Inr (T_Return # unparse t @ [T_Eos])" "grammatical 1 t" "levels t \<le> 199"
  shows "\<exists>e span. parse E source name = Inr [S_Return [e] span] \<and> tree_of e = Some t"
  using return_parses [OF assms(1) _ assms(3)] grammatical_well_grouped [OF assms(2)] by (simp add: stratum_limit_def)

theorem operators_parse_back_witness:
  "\<exists>e span. parse \<lparr>le_strtod = \<lambda>_. None, le_decpoint = 46\<rparr> (ascii ''return not -a.b^c^d..e..f[x]==(y or z)'') [] = Inr [S_Return [e] span]
    \<and> tree_of e = Some (Binary B_Eq
        (Binary B_Concat (Unary U_Not (Unary U_Neg (Binary B_Pow (Dot (Ident (ascii ''a'')) (ascii ''b''))
            (Binary B_Pow (Ident (ascii ''c'')) (Ident (ascii ''d''))))))
          (Binary B_Concat (Ident (ascii ''e'')) (Sub (Ident (ascii ''f'')) (Ident (ascii ''x'')))))
        (Group (Binary B_Or (Ident (ascii ''y'')) (Ident (ascii ''z'')))))"
proof (rule operators_parse_back [of 30])
  show "tokens 30 \<lparr>le_strtod = \<lambda>_. None, le_decpoint = 46\<rparr> (lexer_new (ascii ''return not -a.b^c^d..e..f[x]==(y or z)'') []) = Inr (T_Return #
    unparse (Binary B_Eq
        (Binary B_Concat (Unary U_Not (Unary U_Neg (Binary B_Pow (Dot (Ident (ascii ''a'')) (ascii ''b''))
            (Binary B_Pow (Ident (ascii ''c'')) (Ident (ascii ''d''))))))
          (Binary B_Concat (Ident (ascii ''e'')) (Sub (Ident (ascii ''f'')) (Ident (ascii ''x'')))))
        (Group (Binary B_Or (Ident (ascii ''y'')) (Ident (ascii ''z''))))) @ [T_Eos])"
    by code_simp
qed code_simp+

end
