(* ===== verification/CompileProps.thy ===== *)
theory CompileProps
  imports Compile ChunkProps ParseTrees
begin

text \<open>
  What every compiled prototype satisfies: the invariant of the function states, kept by each
  operation of the code generator whatever the tree, and what it says of the result. A
  compiled function written as a binary chunk and read again is the same function.
\<close>

section \<open>Well-formed prototypes\<close>

definition plain_constant :: "Val \<Rightarrow> bool" where
  "plain_constant v = (case v of VNil \<Rightarrow> True | VBool _ \<Rightarrow> True | VNum _ \<Rightarrow> True | _ \<Rightarrow> False)"

text \<open>The string constants are the nil entries named by the pool, in order, each with the hash of its bytes.\<close>

definition pool_ok :: "Val list \<Rightarrow> StringPoolEntry list \<Rightarrow> bool" where
  "pool_ok ks pool \<longleftrightarrow> sorted_wrt (\<lambda>e e'. unat (sp_index e) < unat (sp_index e')) pool
     \<and> (\<forall>e \<in> set pool. unat (sp_index e) < length ks \<and> ks ! unat (sp_index e) = VNil \<and> sp_hash e = lua_hash (sp_bytes e))"

definition constants_ok :: "Val list \<Rightarrow> StringPoolEntry list \<Rightarrow> bool" where
  "constants_ok ks pool \<longleftrightarrow> length ks \<le> 2 ^ 18 \<and> list_all plain_constant ks \<and> pool_ok ks pool"

definition stack_ok :: "u8 \<Rightarrow> bool" where "stack_ok n \<longleftrightarrow> 2 \<le> n \<and> n \<le> 250"

definition ends_in_return :: "u32 list \<Rightarrow> bool" where
  "ends_in_return code \<longleftrightarrow> code \<noteq> [] \<and> ins_opcode (Instruction (last code)) = Op_Return"

primrec wf_proto :: "rstring \<Rightarrow> Proto \<Rightarrow> bool" where
  "wf_proto src (Proto code ks ps lines vars names source short ld lld nu np va mx pool gs) \<longleftrightarrow>
     ends_in_return code \<and> length lines = length code \<and> constants_ok ks pool
     \<and> unat nu = length names \<and> length names \<le> 60 \<and> stack_ok mx
     \<and> source = src \<and> chunkid src = Some short \<and> gs = [] \<and> list_all id (map (wf_proto src) ps)"

section \<open>The invariant of the function states\<close>

definition parts_ok :: "rstring \<Rightarrow> nat \<Rightarrow> ProtoParts \<Rightarrow> bool" where
  "parts_ok src n p \<longleftrightarrow> length (cp_line_info p) = length (cp_code p) \<and> constants_ok (cp_constants p) (cp_string_pool p)
     \<and> unat (cp_num_upvalues p) = n \<and> n \<le> 60 \<and> stack_ok (cp_max_stack_size p)
     \<and> cp_source p = src \<and> chunkid src = Some (cp_short_source p) \<and> cp_global_slot_names p = []
     \<and> list_all (wf_proto src) (cp_protos p)"

definition fs_ok :: "rstring \<Rightarrow> FuncState \<Rightarrow> bool" where
  "fs_ok src f \<longleftrightarrow> parts_ok src (length (cf_upvalues f)) (cf_proto f)"

definition cc_ok :: "rstring \<Rightarrow> Compiler \<Rightarrow> bool" where
  "cc_ok src c \<longleftrightarrow> cc_source_name c = src \<and> fs_ok src (cc_fs c) \<and> list_all (fs_ok src) (cc_outer c)"

text \<open>\<open>gives src m Q\<close>: the operation keeps the invariant, and its results satisfy \<open>Q\<close>.\<close>

definition gives :: "rstring \<Rightarrow> 'a cop \<Rightarrow> ('a \<Rightarrow> bool) \<Rightarrow> bool" where
  "gives src m Q \<longleftrightarrow> (\<forall>c. cc_ok src c \<longrightarrow> cc_ok src (fst (m c)) \<and> (\<forall>x. snd (m c) = Inr x \<longrightarrow> Q x))"

abbreviation keeps :: "rstring \<Rightarrow> 'a cop \<Rightarrow> bool" where "keeps src m \<equiv> gives src m (\<lambda>_. True)"

named_theorems keep "operations of the code generator that keep the invariant"

lemma givesI: "(\<And>c c1 r. cc_ok src c \<Longrightarrow> m c = (c1, r) \<Longrightarrow> cc_ok src c1 \<and> (\<forall>x. r = Inr x \<longrightarrow> Q x)) \<Longrightarrow> gives src m Q"
  unfolding gives_def by (metis prod.collapse)

lemma keepsI: "(\<And>c c1 r. cc_ok src c \<Longrightarrow> m c = (c1, r) \<Longrightarrow> cc_ok src c1) \<Longrightarrow> keeps src m"
  by (auto intro: givesI)

lemma givesD: "gives src m Q \<Longrightarrow> cc_ok src c \<Longrightarrow> m c = (c1, r) \<Longrightarrow> cc_ok src c1 \<and> (\<forall>x. r = Inr x \<longrightarrow> Q x)"
  unfolding gives_def by (metis fst_conv snd_conv)

lemma gives_weaken: "gives src m Q \<Longrightarrow> (\<And>x. Q x \<Longrightarrow> R x) \<Longrightarrow> gives src m R"
  by (auto simp: gives_def)

lemma gives_bind:
  assumes "gives src m Q" "\<And>x. Q x \<Longrightarrow> gives src (f x) R"
  shows "gives src (obind m f) R"
proof (rule givesI)
  fix c c1 r assume c: "cc_ok src c" "obind m f c = (c1, r)"
  obtain c2 r2 where m: "m c = (c2, r2)" by fastforce
  note d = givesD [OF assms(1) c(1) m]
  show "cc_ok src c1 \<and> (\<forall>x. r = Inr x \<longrightarrow> R x)"
  proof (cases r2)
    case (Inl e)
    then show ?thesis using c(2) d by (auto simp: obind_def m)
  next
    case (Inr x)
    then show ?thesis using c(2) d givesD [OF assms(2) [of x], of c2 c1 r] by (simp add: obind_def m)
  qed
qed

lemma keeps_bind [keep]: "keeps src m \<Longrightarrow> (\<And>x. keeps src (f x)) \<Longrightarrow> keeps src (obind m f)"
  by (rule gives_bind)

lemma keeps_then [keep]: "keeps src m \<Longrightarrow> keeps src n \<Longrightarrow> keeps src (othen m n)"
  unfolding othen_def by (rule keeps_bind)

lemma keeps_simple [keep]: "keeps src (oret x)" "keeps src (ofail e)" "keeps src (oget g)"
  by (simp_all add: gives_def oret_def ofail_def oget_def)

lemma keeps_if [keep]: "keeps src m \<Longrightarrow> keeps src n \<Longrightarrow> keeps src (if b then m else n)" by simp

lemma keeps_cases [keep]:
  "(\<And>x. keeps src (f x)) \<Longrightarrow> keeps src m \<Longrightarrow> keeps src (case opt of None \<Rightarrow> m | Some x \<Rightarrow> f x)"
  "(\<And>x. keeps src (g x)) \<Longrightarrow> (\<And>x. keeps src (h x)) \<Longrightarrow> keeps src (case res of Inl x \<Rightarrow> g x | Inr x \<Rightarrow> h x)"
  "(\<And>x y. keeps src (k x y)) \<Longrightarrow> keeps src (case xy of (x, y) \<Rightarrow> k x y)"
  "keeps src m \<Longrightarrow> (\<And>x xs. keeps src (l x xs)) \<Longrightarrow> keeps src (case ys of [] \<Rightarrow> m | x # xs \<Rightarrow> l x xs)"
  by (simp_all split: option.split sum.split prod.split list.split)

lemma keeps_kinds [keep]:
  "\<lbrakk>keeps src m1; keeps src m2; keeps src m3; keeps src m4; keeps src m5; keeps src m6; keeps src m7; keeps src m8;
    keeps src m9; keeps src m10; keeps src m11; keeps src m12; keeps src m13; keeps src m14; keeps src m15\<rbrakk> \<Longrightarrow>
   keeps src (case k of EK_Void \<Rightarrow> m1 | EK_Nil \<Rightarrow> m2 | EK_True \<Rightarrow> m3 | EK_False \<Rightarrow> m4 | EK_K \<Rightarrow> m5 | EK_KNum \<Rightarrow> m6
     | EK_Local \<Rightarrow> m7 | EK_Upval \<Rightarrow> m8 | EK_Global \<Rightarrow> m9 | EK_Indexed \<Rightarrow> m10 | EK_Jmp \<Rightarrow> m11 | EK_Relocable \<Rightarrow> m12
     | EK_NonReloc \<Rightarrow> m13 | EK_Call \<Rightarrow> m14 | EK_VarArg \<Rightarrow> m15)"
  by (cases k) simp_all

lemma keeps_binops [keep]:
  "\<lbrakk>keeps src m1; keeps src m2; keeps src m3; keeps src m4; keeps src m5; keeps src m6; keeps src m7; keeps src m8;
    keeps src m9; keeps src m10; keeps src m11; keeps src m12; keeps src m13; keeps src m14; keeps src m15\<rbrakk> \<Longrightarrow>
   keeps src (case op of B_Add \<Rightarrow> m1 | B_Sub \<Rightarrow> m2 | B_Mul \<Rightarrow> m3 | B_Div \<Rightarrow> m4 | B_Mod \<Rightarrow> m5 | B_Pow \<Rightarrow> m6 | B_Concat \<Rightarrow> m7
     | B_Lt \<Rightarrow> m8 | B_Le \<Rightarrow> m9 | B_Gt \<Rightarrow> m10 | B_Ge \<Rightarrow> m11 | B_Eq \<Rightarrow> m12 | B_Ne \<Rightarrow> m13 | B_And \<Rightarrow> m14 | B_Or \<Rightarrow> m15)"
  by (cases op) simp_all

lemma keeps_fs: "(\<And>f. cf_proto (g f) = cf_proto f) \<Longrightarrow> (\<And>f. cf_upvalues (g f) = cf_upvalues f) \<Longrightarrow> keeps src (on_fs g)"
  by (simp add: gives_def on_fs_def omod_def cc_ok_def fs_ok_def)

lemma keeps_proto: "(\<And>n p. parts_ok src n p \<Longrightarrow> parts_ok src n (g p)) \<Longrightarrow> keeps src (on_proto g)"
  by (simp add: gives_def on_proto_def on_fs_def omod_def cc_ok_def fs_ok_def)

lemma keeps_error [keep]: "keeps src (c_error msg)" unfolding c_error_def by (intro keep)

lemma keeps_attempt [keep]: "keeps src m \<Longrightarrow> keeps src (attempt m)"
  by (auto simp: gives_def attempt_def split: prod.split sum.split failure.split)

lemma keeps_rounds [keep]: "(\<And>n. keeps src (m n)) \<Longrightarrow> keeps src (with_rounds m)"
  by (simp add: gives_def with_rounds_def)

lemma keeps_only_if [keep]: "keeps src m \<Longrightarrow> keeps src (only_if b m)" by (simp add: only_if_def keep)

lemma keeps_foldr: "(\<And>x. x \<in> set xs \<Longrightarrow> keeps src (m x)) \<Longrightarrow> keeps src (foldr (\<lambda>x n. othen (m x) n) xs (oret ()))"
  by (induction xs) (auto intro: keep)

section \<open>Emission, jumps, constants, registers\<close>

lemma keeps_get_instruction [keep]: "keeps src (get_instruction pc)" unfolding get_instruction_def by (intro keep)

lemma keeps_set_instruction [keep]: "keeps src (set_instruction pc i)"
  unfolding set_instruction_def by (intro keep keeps_proto) (simp add: parts_ok_def)

lemma keeps_on_instruction [keep]: "keeps src (on_instruction pc f)" unfolding on_instruction_def by (intro keep)

lemma keeps_get_label [keep]: "keeps src get_label" unfolding get_label_def by (intro keep keeps_fs) simp_all

lemma keeps_patch_jump [keep]: "keeps src (patch_jump pc target)" unfolding patch_jump_def by (intro keep)

lemma keeps_get_jump_target [keep]: "keeps src (get_jump_target pc)" unfolding get_jump_target_def by (intro keep)

lemma keeps_get_jump_control [keep]: "keeps src (get_jump_control pc)" unfolding get_jump_control_def by (intro keep)

lemma keeps_link_end [keep]: "keeps src (link_end_n n l l2)" by (induction n arbitrary: l) (simp_all add: keep)

lemma keeps_link_break [keep]: "keeps src (link_break_n n l l2)" by (induction n arbitrary: l) (simp_all add: keep)

lemma keeps_concat [keep]: "keeps src (concat_jumps_result pc l)" "keeps src (concat_jumps l1 l2)"
  unfolding concat_jumps_result_def concat_jumps_def by (intro keep)+

lemma keeps_need_value_n: "keeps src (need_value_n n l)" by (induction n arbitrary: l) (simp_all add: keep)

lemma keeps_need_value [keep]: "keeps src (need_value l)" unfolding need_value_def by (intro keep keeps_need_value_n)

lemma keeps_patch_test_reg [keep]: "keeps src (patch_test_reg node reg)" unfolding patch_test_reg_def by (intro keep)

lemma keeps_remove_values_n: "keeps src (remove_values_n n l)" by (induction n arbitrary: l) (simp_all add: keep)

lemma keeps_remove_values [keep]: "keeps src (remove_values l)"
  unfolding remove_values_def by (intro keep keeps_remove_values_n)

lemma keeps_patch_list_aux_n: "keeps src (patch_list_aux_n n l v r d)"
  by (induction n arbitrary: l) (auto simp del: if_split intro!: keep)

lemma keeps_patch_list_aux [keep]: "keeps src (patch_list_aux l v r d)"
  unfolding patch_list_aux_def by (intro keep keeps_patch_list_aux_n)

lemma keeps_patch_to_here [keep]: "keeps src (patch_to_here l)"
  unfolding patch_to_here_def by (intro keep keeps_fs) simp_all

lemma keeps_patch_list [keep]: "keeps src (patch_list l target)" unfolding patch_list_def by (intro keep)

lemma keeps_discharge_jpc [keep]: "keeps src discharge_jpc"
  unfolding discharge_jpc_def by (intro keep keeps_fs) simp_all

lemma keeps_push_code [keep]: "keeps src (push_code i line)"
  unfolding push_code_def by (rule keeps_proto) (simp add: parts_ok_def)

lemma keeps_pop_code [keep]: "keeps src pop_code"
  unfolding pop_code_def by (rule keeps_proto) (simp add: parts_ok_def)

lemma keeps_emit [keep]: "keeps src (emit i line)" "keeps src (emit_abc op a b c line)" "keeps src (emit_abx op a bx line)"
  "keeps src (emit_asbx op a sbx line)"
  unfolding emit_abc_def emit_abx_def emit_asbx_def emit_def by (intro keep)+

lemma keeps_extend_nil [keep]: "keeps src m \<Longrightarrow> keeps src (extend_nil pc a b m)" unfolding extend_nil_def by (intro keep)

lemma keeps_emit_nil [keep]: "keeps src (emit_nil a n line)" unfolding emit_nil_def Let_def by (intro keep)

lemma keeps_emit_jump [keep]: "keeps src (emit_jump line)"
  unfolding emit_jump_def by (intro keep keeps_fs) simp_all

lemma keeps_code_label [keep]: "keeps src (code_label r b j line)" unfolding code_label_def by (intro keep)

lemma pool_ok_push: "pool_ok ks pool \<Longrightarrow> pool_ok (ks @ [v]) pool"
  by (auto simp: pool_ok_def nth_append)

lemma constants_ok_push: "constants_ok ks pool \<Longrightarrow> plain_constant v \<Longrightarrow> length ks < 2 ^ 18 \<Longrightarrow> constants_ok (ks @ [v]) pool"
  by (simp add: constants_ok_def pool_ok_push)

lemma constants_ok_string:
  assumes "constants_ok ks pool" "length ks < 2 ^ 18"
  shows "constants_ok (ks @ [VNil]) (pool @ [StringPoolEntry (word_of_nat (length ks)) s (lua_hash s)])"
proof -
  have "unat (word_of_nat (length ks) :: u32) = length ks" using assms(2) by (intro unat_of_small) simp
  then show ?thesis using assms
    by (auto simp: constants_ok_def pool_ok_def plain_constant_def nth_append sorted_wrt_append)
qed

text \<open>The index test of the pool: a new constant goes in only below the limit of an operand.\<close>

lemma last_index: "unat MAXARG_BX = 2 ^ 18 - 1" by (simp add: MAXARG_BX_def MASK_BX_def size_defs)

lemma push_constant_cases:
  "push_constant v c = (let ks = cp_constants (cf_proto (cc_fs c)) in
     if length ks < 2 ^ 18 then (c\<lparr>cc_fs := (cc_fs c)\<lparr>cf_proto := (cf_proto (cc_fs c))\<lparr>cp_constants := ks @ [v]\<rparr>\<rparr>\<rparr>,
       Inr (word_of_nat (length ks)))
     else c_error (ascii ''constant table overflow'') c)"
  by (auto simp: push_constant_def Let_def last_index othen_def on_proto_def on_fs_def oret_def)

lemma keeps_push_constant [keep]: "plain_constant v \<Longrightarrow> keeps src (push_constant v)"
proof (rule keepsI)
  fix c c1 r assume "plain_constant v" and c: "cc_ok src c" "push_constant v c = (c1, r)"
  then show "cc_ok src c1" using givesD [OF keeps_error c(1)]
    by (auto simp: push_constant_cases Let_def cc_ok_def fs_ok_def parts_ok_def constants_ok_push split: if_splits)
qed

lemma plain_constants [keep]: "plain_constant VNil" "plain_constant (VBool b)" "plain_constant (VNum n)"
  by (simp_all add: plain_constant_def)

lemma keeps_add_keyed [keep]: "plain_constant v \<Longrightarrow> keeps src (add_keyed key v)"
  unfolding add_keyed_def by (intro keep keeps_fs) simp_all

lemma keeps_number_constant [keep]: "keeps src (number_constant n)" "keeps src (add_constant (VBool b))"
  unfolding number_constant_def add_constant_def Val.case by (intro keep)+

lemma keeps_nil_constant [keep]: "keeps src nil_constant"
  unfolding nil_constant_def by (intro keep keeps_fs) simp_all

lemma keeps_new_string_constant [keep]: "keeps src (new_string_constant s)"
proof (rule keepsI)
  fix c c1 r assume c: "cc_ok src c" "new_string_constant s c = (c1, r)"
  then show "cc_ok src c1"
  proof (cases "length (cp_constants (cf_proto (cc_fs c))) < 2 ^ 18")
    case True
    let ?ks = "cp_constants (cf_proto (cc_fs c))"
    have "push_constant VNil c = (c\<lparr>cc_fs := (cc_fs c)\<lparr>cf_proto := (cf_proto (cc_fs c))\<lparr>cp_constants := ?ks @ [VNil]\<rparr>\<rparr>\<rparr>,
       Inr (word_of_nat (length ?ks)))" using True by (simp add: push_constant_cases Let_def)
    note push = obind_ok [where m = "push_constant VNil", OF this]
    show ?thesis using c(2) cc_ok_def [THEN iffD1, OF c(1)] constants_ok_string [OF _ True]
      by (auto simp: new_string_constant_def push othen_def on_proto_def on_fs_def oret_def cc_ok_def fs_ok_def parts_ok_def)
  next
    case False
    then show ?thesis using c by (auto simp: new_string_constant_def push_constant_cases Let_def obind_def c_error_def oget_def ofail_def)
  qed
qed

lemma keeps_string_constant [keep]: "keeps src (string_constant s)" unfolding string_constant_def by (intro keep)

lemma keeps_check_stack [keep]: "keeps src (check_stack n)"
proof (rule keepsI)
  fix c c1 r assume c: "cc_ok src c" "check_stack n c = (c1, r)"
  let ?n = "ucast (cf_free_reg (cc_fs c)) + n :: u32"
  let ?grow = "\<lambda>p. if ucast (cp_max_stack_size p) < ?n then p\<lparr>cp_max_stack_size := ucast ?n\<rparr> else p"
  show "cc_ok src c1"
  proof (cases "MAXSTACK < ?n")
    case True
    then show ?thesis using c givesD [OF keeps_error c(1)] by (auto simp: check_stack_def)
  next
    case False
    have "stack_ok (ucast ?n)" if "ucast m < ?n" "stack_ok m" for m :: u8
      using that False by (simp add: stack_ok_def MAXSTACK_def word_le_nat_alt word_less_nat_alt unsigned_ucast_eq take_bit_eq_mod)
    then have "keeps src (on_proto ?grow)" by (intro keeps_proto) (simp add: parts_ok_def)
    then show ?thesis using givesD [OF _ c(1)] c(2) False by (auto simp: check_stack_def)
  qed
qed

lemma keeps_reserve_regs [keep]: "keeps src (reserve_regs n)"
  unfolding reserve_regs_def by (intro keep keeps_fs) simp_all

lemma keeps_alloc_reg [keep]: "keeps src alloc_reg" unfolding alloc_reg_def by (intro keep keeps_fs) simp_all

lemma keeps_free_reg [keep]: "keeps src (free_reg r)" "keeps src (set_free_reg k)" "keeps src reset_free"
  unfolding free_reg_def set_free_reg_def reset_free_def by (rule keeps_fs; simp)+

section \<open>Variables and blocks\<close>

lemma keeps_on_fs: "(\<And>f. fs_ok src f \<Longrightarrow> fs_ok src (g f)) \<Longrightarrow> keeps src (on_fs g)"
  by (simp add: gives_def on_fs_def omod_def cc_ok_def)

lemma index_where_bound: "index_where P xs k = Some i \<Longrightarrow> k \<le> i \<and> i < k + length xs"
  by (induction xs arbitrary: k) (force split: if_splits)+

lemma fs_ok_mark: "fs_ok src f \<Longrightarrow> fs_ok src (mark_upval i f)" by (simp add: fs_ok_def mark_upval_def)

lemma count_upvalue: "n < 60 \<Longrightarrow> unat (1 + word_of_nat n :: u8) = Suc n"
proof -
  assume "n < 60"
  then have "unat (word_of_nat (Suc n) :: u8) = Suc n" unfolding unat_of_nat by (intro mod_less) simp
  then show ?thesis by simp
qed

lemma add_upvalue_ok: "add_upvalue bad name s i f = Inr (k, f1) \<Longrightarrow> fs_ok src f \<Longrightarrow> fs_ok src f1"
  by (auto simp: add_upvalue_def fs_ok_def parts_ok_def LUAI_MAXUPVALUES_def count_upvalue
      split: option.splits if_splits)

lemma linked_ok:
  "linked bad name s i f ps = (fs, r) \<Longrightarrow> fs_ok src f \<Longrightarrow> list_all (fs_ok src) ps \<Longrightarrow>
   list_all (fs_ok src) fs \<and> length fs = Suc (length ps)"
  by (auto simp: linked_def split: sum.splits prod.splits dest: add_upvalue_ok)

lemma resolve_aux_ok:
  "resolve_aux bad name fs = (fs1, r) \<Longrightarrow> list_all (fs_ok src) fs \<Longrightarrow> list_all (fs_ok src) fs1 \<and> length fs1 = length fs"
proof (induction bad name fs arbitrary: fs1 r rule: resolve_aux.induct)
  case (1 bad name f p rest)
  then have ok: "fs_ok src f" "fs_ok src p" "list_all (fs_ok src) (mark_upval i p # rest)" "list_all (fs_ok src) (p # rest)" for i
    by (simp_all add: fs_ok_mark)
  obtain ps r1 where aux: "resolve_aux bad name (p # rest) = (ps, r1)" by fastforce
  note below = 1(1) [OF _ _ _ aux ok(4)]
  show ?case
  proof (cases "search_local name p")
    case (Inl e)
    then show ?thesis using 1(2) ok by auto
  next
    case (Inr found)
    show ?thesis
    proof (cases found)
      case (Some i)
      then show ?thesis using 1(2) Inr linked_ok [OF _ ok(1,3)] by force
    next
      case none: None
      show ?thesis
      proof (cases "search_upvalue name p")
        case (Some i)
        then show ?thesis using 1(2) Inr none linked_ok [OF _ ok(1,4)] by force
      next
        case None
        note ps = below [OF Inr none None]
        show ?thesis using 1(2) Inr none None ps ok(1) linked_ok [OF _ ok(1), of bad name False _ ps fs1 r]
          by (auto simp: aux split: sum.splits option.splits)
      qed
    qed
  qed
qed auto

lemma keeps_resolve_outer [keep]: "keeps src (resolve_outer name)"
proof (rule keepsI)
  fix c c1 r assume c: "cc_ok src c" "resolve_outer name c = (c1, r)"
  obtain fs r1 where aux: "resolve_aux (bad_syntax c) name (cc_fs c # cc_outer c) = (fs, r1)" by fastforce
  show "cc_ok src c1" using resolve_aux_ok [OF aux, of src] c
    by (auto simp: resolve_outer_def aux cc_ok_def split: list.splits)
qed

lemma keeps_resolve_var [keep]: "keeps src (resolve_var name)" unfolding resolve_var_def by (intro keep)

lemma keeps_new_local [keep]: "keeps src (new_local name)"
  unfolding new_local_def by (intro keep keeps_proto keeps_fs) (simp_all add: parts_ok_def)

lemma keeps_activate_locals [keep]: "keeps src (activate_locals n)"
  unfolding activate_locals_def by (intro keep keeps_on_fs) (simp add: fs_ok_def parts_ok_def)

lemma drop_locals_ok: "fs_ok src f \<Longrightarrow> fs_ok src (drop_locals n f)"
  by (induction n arbitrary: f) (auto simp: fs_ok_def parts_ok_def Let_def)

lemma keeps_remove_locals [keep]: "keeps src (remove_locals n)"
  unfolding remove_locals_def by (intro keeps_on_fs drop_locals_ok)

lemma keeps_enter_block [keep]: "keeps src (enter_block b)" unfolding enter_block_def by (rule keeps_fs) simp_all

lemma keeps_leave_block [keep]: "keeps src leave_block"
  unfolding leave_block_def close_block_def by (intro keep keeps_fs) simp_all

lemma keeps_add_break_jump [keep]: "keeps src (add_break_jump l)"
  unfolding add_break_jump_def set_break_list_def by (intro keep keeps_fs) simp_all

section \<open>Expressions\<close>

lemma keeps_set_one_ret [keep]: "keeps src (set_one_ret e)" unfolding set_one_ret_def by (intro keep)

lemma keeps_relocable [keep]: "keeps src m \<Longrightarrow> keeps src (relocable e m)" unfolding relocable_def by (intro keep)

lemma keeps_discharge_vars [keep]: "keeps src (discharge_vars e line)" unfolding discharge_vars_def by (intro keep)

lemma keeps_free_expr [keep]: "keeps src (free_expr e)" unfolding free_expr_def by (intro keep)

lemma keeps_discharge2reg [keep]: "keeps src (discharge2reg e reg line)"
  unfolding discharge2reg_def move_to_reg_def by (intro keep)

lemma keeps_materialize [keep]: "keeps src (materialize e reg line)"
  unfolding materialize_def load_bools_def by (intro keep)

lemma keeps_exp2reg [keep]: "keeps src (exp2reg e reg line)" unfolding exp2reg_def by (intro keep)

lemma keeps_raise_ref [keep]: "keeps src m \<Longrightarrow> keeps src (raise_ref m)" unfolding raise_ref_def by (intro keep)

lemma keeps_exp2nextreg [keep]: "keeps src (exp2nextreg_ref e line)" "keeps src (exp2nextreg e line)"
  unfolding exp2nextreg_def exp2nextreg_ref_def by (intro keep)+

lemma keeps_exp2anyreg [keep]: "keeps src (exp2anyreg_ref e line)" "keeps src (exp2anyreg e line)"
  unfolding exp2anyreg_def exp2anyreg_ref_def by (intro keep)+

lemma keeps_exp2val [keep]: "keeps src (exp2val e line)" unfolding exp2val_def by (intro keep)

lemma keeps_discharge2anyreg [keep]: "keeps src (discharge2anyreg e line)" unfolding discharge2anyreg_def by (intro keep)

lemma keeps_constant_operand [keep]: "keeps src (constant_operand e)"
  unfolding constant_operand_def Let_def by (intro keep)

lemma keeps_exp2rk [keep]: "keeps src (exp2rk e line)" unfolding exp2rk_def by (intro keep)

lemma keeps_storevar [keep]: "keeps src (storevar var e line)" unfolding storevar_def by (intro keep)

lemma keeps_jumponcond [keep]: "keeps src (invertjump e)" "keeps src (jump_to line)" "keeps src (jumponcond e b line)"
  unfolding invertjump_def jump_to_def jumponcond_def test_and_jump_def by (intro keep)+

lemma keeps_goif [keep]: "keeps src (goiftrue e line)" "keeps src (goiffalse e line)"
  unfolding goiftrue_def goiffalse_def by (intro keep)+

lemma keeps_compile_condition [keep]: "keeps src (compile_condition e line)" unfolding compile_condition_def by (intro keep)

lemma keeps_set_multret [keep]: "keeps src (set_multret e)" unfolding set_multret_def by (intro keep)

lemma keeps_set_indexed [keep]: "keeps src (set_indexed t k line)" unfolding set_indexed_def by (intro keep)

lemma keeps_code_self [keep]: "keeps src (code_self e k line)" unfolding code_self_def by (intro keep)

lemma keeps_code_arith [keep]: "keeps src (code_arith P op e1 e2 line)"
  unfolding code_arith_def code_op_def by (intro keep)

lemma keeps_code_comp [keep]: "keeps src (code_comp op cond e1 e2 line)" unfolding code_comp_def by (intro keep)

lemma keeps_infix [keep]: "keeps src (infix_op op e line)" unfolding infix_op_def by (intro keep)

lemma keeps_postfix [keep]: "keeps src (postfix_op P op e1 e2 line)"
  unfolding postfix_op_def postfix_concat_def concat_right_def by (intro keep)

lemma keeps_code_not [keep]: "keeps src (code_not e line)" unfolding code_not_def code_op_def by (intro keep)

lemma keeps_prefix [keep]: "keeps src (prefix_op P op e line)" by (cases op) (simp_all add: prefix_op_def keep)

lemma keeps_code_setlist [keep]: "keeps src (code_setlist b n t line)" unfolding code_setlist_def Let_def by (intro keep)

section \<open>Functions\<close>

lemma func_state_new_ok: "func_state_new src = Some f \<Longrightarrow> fs_ok src f"
  by (auto simp: func_state_new_def proto_new_def proto_parts_def fs_ok_def parts_ok_def constants_ok_def pool_ok_def stack_ok_def)

lemma keeps_enter_function [keep]: "keeps src (enter_function src)"
  by (auto simp: gives_def enter_function_def ofail_def omod_def cc_ok_def func_state_new_ok split: option.split)

lemma drop_locals_code: "cp_code (cf_proto (drop_locals n f)) = cp_code (cf_proto f)"
  by (induction n arbitrary: f) (simp_all add: Let_def)

lemma emit_last: "emit i line c = (c1, Inr pc) \<Longrightarrow> \<exists>code. cp_code (cf_proto (cc_fs c1)) = code @ [raw i]"
  by (auto simp: emit_def othen_def push_code_def on_proto_def on_fs_def oret_def obind_def oget_def omod_def
      split: prod.splits sum.splits)

lemma keeps_end_function [keep]: "keeps src end_function" unfolding end_function_def by (intro keep)

lemma end_function_return:
  assumes "end_function c = (c1, Inr u)"
  shows "ends_in_return (cp_code (cf_proto (cc_fs c1)))"
proof -
  obtain c2 pc where e: "emit (abc Op_Return 0 1 0) (cc_current_line c) c = (c2, Inr pc)"
    and c1: "remove_locals 0 c2 = (c1, Inr u)"
    using assms by (auto simp: end_function_def othen_def emit_abc_def obind_def oget_def split: prod.splits sum.splits)
  obtain code where "cp_code (cf_proto (cc_fs c2)) = code @ [raw (abc Op_Return 0 1 0)]" using emit_last [OF e] by blast
  then show ?thesis using c1
    by (auto simp: remove_locals_def on_fs_def omod_def drop_locals_code ends_in_return_def)
qed

lemma wf_function_proto: "fs_ok src f \<Longrightarrow> ends_in_return (cp_code (cf_proto f)) \<Longrightarrow> wf_proto src (function_proto f)"
  by (auto simp: fs_ok_def parts_ok_def function_proto_def proto_of_def list_all_iff)

lemma gives_leave_function: "gives src leave_function (wf_proto src)"
proof (rule givesI)
  fix c c1 r assume c: "cc_ok src c" "leave_function c = (c1, r)"
  obtain c2 u where e: "end_function c = (c2, u)" by fastforce
  have ok: "cc_ok src c2" using givesD [OF keeps_end_function c(1) e] by simp
  show "cc_ok src c1 \<and> (\<forall>x. r = Inr x \<longrightarrow> wf_proto src x)"
  proof (cases u)
    case (Inl err)
    then show ?thesis using c(2) ok by (auto simp: leave_function_def othen_def obind_def e)
  next
    case (Inr v)
    note ret = end_function_return [OF e [unfolded Inr]]
    show ?thesis using c(2) ok wf_function_proto [OF _ ret, of src]
      by (auto simp: leave_function_def othen_def obind_ok [where m = end_function, OF e [unfolded Inr]] cc_ok_def ofail_def oret_def
          split: list.splits)
  qed
qed

lemma gives_source_name: "gives src (oget cc_source_name) (\<lambda>s. s = src)"
  by (simp add: gives_def oget_def cc_ok_def)

lemma keeps_set_line [keep]: "keeps src (set_line line)"
  by (simp add: gives_def set_line_def omod_def cc_ok_def)

lemma keeps_new_locals [keep]: "keeps src (new_locals names)"
  unfolding new_locals_def by (intro keeps_foldr keep)

lemma keeps_declare_params [keep]: "keeps src (declare_params need_self params va)"
  unfolding declare_params_def declare_varargs_def
  by (intro keep keeps_proto) (simp_all add: parts_ok_def)

lemma keeps_add_closure [keep]: "wf_proto src p \<Longrightarrow> keeps src (add_closure p uvs line)"
  unfolding add_closure_def capture_upvals_def by (intro keep keeps_proto keeps_foldr) (simp add: parts_ok_def)

lemma keeps_block [keep]: "\<forall>m \<in> set ms. keeps src m \<Longrightarrow> keeps src (compile_block ms)"
  by (induction ms) (simp_all add: keep)

lemma keeps_block_scoped [keep]: "\<forall>m \<in> set ms. keeps src m \<Longrightarrow> keeps src (compile_block_scoped ms)"
  unfolding compile_block_scoped_def by (intro keep)

declare obind_simps [simp del]

lemma keeps_funcbody [keep]:
  assumes "\<forall>m \<in> set body. keeps src m"
  shows "keeps src (compile_funcbody params va body end_line need_self line)"
proof -
  have "keeps src (on_proto (\<lambda>p. p\<lparr>cp_line_defined := line\<rparr>))" "keeps src (on_proto (\<lambda>p. p\<lparr>cp_last_line_defined := end_line\<rparr>))"
    by (rule keeps_proto; simp add: parts_ok_def)+
  note parts = this keeps_declare_params keeps_block [OF assms] keeps_set_line
  show ?thesis unfolding compile_funcbody_def
    by (rule gives_bind [OF gives_source_name])
      (simp, intro keeps_then parts keeps_bind keep gives_bind [OF gives_leave_function])
qed

section \<open>Lists, statements and the tree\<close>

lemma keeps_exprlist_from: "keeps src m \<Longrightarrow> \<forall>m \<in> set ms. keeps src m \<Longrightarrow> keeps src (compile_exprlist_from n m ms line)"
  by (induction ms arbitrary: n m) (simp_all add: keep)

lemma keeps_exprlist [keep]: "\<forall>m \<in> set ms. keeps src m \<Longrightarrow> keeps src (compile_exprlist ms line)"
  by (cases ms) (simp_all add: compile_exprlist_def keep keeps_exprlist_from)

lemma keeps_adjust_assign [keep]: "keeps src (adjust_assign m n e line)"
  unfolding adjust_assign_def set_results_def Let_def by (intro keep)

lemma keeps_finish_call [keep]: "keeps src (finish_call_code f b line)" "keeps src (counted_call f line)"
  unfolding counted_call_def finish_call_code_def by (intro keep)+

lemma keeps_funcargs [keep]: "\<forall>m \<in> set ms. keeps src m \<Longrightarrow> keeps src (compile_funcargs f ms line)"
  by (induction f ms line rule: compile_funcargs.induct) (auto simp del: if_split intro!: keep)

definition field_keeps :: "rstring \<Rightarrow> field_code \<Rightarrow> bool" where
  "field_keeps src f = (case f of FC_Value _ m \<Rightarrow> keeps src m | FC_Name _ m \<Rightarrow> keeps src m | FC_Index k m \<Rightarrow> keeps src k \<and> keeps src m)"

lemma keeps_store_field [keep]: "keeps src k \<Longrightarrow> keeps src v \<Longrightarrow> keeps src (store_field t k v line)"
  unfolding store_field_def by (intro keep)

lemma keeps_fields [keep]: "\<forall>f \<in> set fs. field_keeps src f \<Longrightarrow> keeps src (compile_fields t fs na nh n line)"
proof (induction fs arbitrary: na nh n)
  case (Cons f fs)
  have rest: "keeps src (compile_fields t fs a b c line)" for a b c using Cons by simp
  show ?case using Cons.prems by (cases f) (auto simp: field_keeps_def simp del: if_split intro!: keep rest)
qed (simp add: keep)

lemma keeps_table_ctor [keep]: "\<forall>f \<in> set fs. field_keeps src f \<Longrightarrow> keeps src (compile_table_ctor fs line)"
  unfolding compile_table_ctor_def by (intro keep)

lemma keeps_targets [keep]: "\<forall>m \<in> set ms. keeps src m \<Longrightarrow> keeps src (compile_targets ms line)"
  by (induction ms) (auto simp del: if_split intro!: keep)

lemma keeps_check_conflict [keep]: "keeps src (check_conflict passed ts line)"
  by (induction ts arbitrary: passed) (auto simp del: if_split intro!: keep)

lemma keeps_store_targets [keep]: "keeps src (store_targets ts line)"
  by (induction ts) (auto intro!: keep)

lemma keeps_assign [keep]:
  "\<forall>m \<in> set ts. keeps src m \<Longrightarrow> \<forall>m \<in> set vs. keeps src m \<Longrightarrow> keeps src (compile_assign ts vs line)"
  unfolding compile_assign_def Let_def by (intro keep keeps_fs) simp_all

lemma keeps_local_decl [keep]: "\<forall>m \<in> set vs. keeps src m \<Longrightarrow> keeps src (compile_local_decl names vs line)"
  unfolding compile_local_decl_def by (intro keep)

lemma keeps_condition_exit [keep]: "keeps src m \<Longrightarrow> keeps src (condition_exit m line)" "keeps src jump_here" "keeps src (break_out line)"
  unfolding condition_exit_def jump_here_def break_out_def by (intro keep; assumption?)+

lemma keeps_while [keep]: "keeps src m \<Longrightarrow> \<forall>m \<in> set ms. keeps src m \<Longrightarrow> keeps src (compile_while m l ms e)"
  unfolding compile_while_def by (intro keep)

lemma keeps_repeat [keep]: "keeps src m \<Longrightarrow> \<forall>m \<in> set ms. keeps src m \<Longrightarrow> keeps src (compile_repeat ms m l line)"
  unfolding compile_repeat_def repeat_with_upvalues_def by (intro keep)

lemma keeps_clauses:
  "\<forall>(m, l, ms) \<in> set cs. keeps src m \<and> (\<forall>m \<in> set ms. keeps src m) \<Longrightarrow> keeps src (compile_clauses e f cs)"
  by (induction e f cs rule: compile_clauses.induct) (auto intro!: keep)

lemma keeps_conditional [keep]:
  assumes "\<forall>m \<in> fst ` set conds. keeps src m" "\<forall>ms \<in> set bodies. \<forall>m \<in> set ms. keeps src m"
    "\<forall>ms \<in> set_option els. \<forall>m \<in> set ms. keeps src m"
  shows "keeps src (compile_if conds bodies els e)"
proof (cases "conds = [] \<or> length bodies < length conds")
  case False
  then obtain c conds1 b bodies1 where split: "conds = c # conds1" "bodies = b # bodies1"
    by (metis length_0_conv list.exhaust list.size(3) not_less_zero linorder_neqE_nat length_greater_0_conv)
  have clauses: "\<forall>(m, l, ms) \<in> set (map (\<lambda>((c, l), b). (c, l, b)) (zip (tl conds) (tl bodies))). keeps src m \<and> (\<forall>m \<in> set ms. keeps src m)"
    using assms(1,2) by (fastforce simp: split dest: set_zip_leftD set_zip_rightD)
  have "keeps src (fst (hd conds))" "\<forall>m \<in> set (hd bodies). keeps src m" "\<And>ms. els = Some ms \<Longrightarrow> \<forall>m \<in> set ms. keeps src m"
    using assms by (simp_all add: split)
  then show ?thesis using False unfolding compile_if_def
    by (cases els) (auto simp del: keeps_cases intro!: keep keeps_clauses [OF clauses])
qed (simp add: compile_if_def keep)

lemma keeps_into_next [keep]: "keeps src m \<Longrightarrow> keeps src (into_next m line)" unfolding into_next_def by (intro keep)

lemma keeps_load_step [keep]: "\<forall>m \<in> set_option step. keeps src m \<Longrightarrow> keeps src (load_step step line)"
  by (cases step) (auto simp: load_step_def intro!: keep)

lemma keeps_numeric_for [keep]:
  "keeps src m \<Longrightarrow> keeps src m1 \<Longrightarrow> \<forall>m \<in> set_option step. keeps src m \<Longrightarrow> \<forall>m \<in> set ms. keeps src m \<Longrightarrow>
   keeps src (compile_numeric_for name m m1 step ms line e)"
  unfolding compile_numeric_for_def by (intro keep)

lemma keeps_generic_for [keep]:
  "\<forall>m \<in> set its. keeps src m \<Longrightarrow> \<forall>m \<in> set ms. keeps src m \<Longrightarrow> keeps src (compile_generic_for names its ms line il e)"
  unfolding compile_generic_for_def by (intro keep)

lemma keeps_foldl_index: "keeps src m \<Longrightarrow> keeps src (foldl (index_by line) m parts)"
proof (induction parts arbitrary: m)
  case (Cons part parts)
  have "keeps src (index_by line m part)" unfolding index_by_def by (intro keep Cons.prems)
  then show ?case using Cons.IH by simp
qed simp

lemma keeps_func_decl [keep]: "\<forall>b l. keeps src (body b l) \<Longrightarrow> keeps src (compile_func_decl name body line)"
  unfolding compile_func_decl_def by (intro keep keeps_foldl_index) simp_all

lemma keeps_local_func [keep]: "\<forall>b l. keeps src (body b l) \<Longrightarrow> keeps src (compile_local_func name body line)"
  unfolding compile_local_func_def by (intro keep) simp_all

lemma keeps_return_open [keep]: "keeps src (return_open e line)" "keeps src (tail_call e)"
  unfolding return_open_def tail_call_def by (intro keep)+

lemma keeps_return_values: "\<forall>m \<in> set ms. keeps src m \<Longrightarrow> keeps src (return_values b n ms line)"
  by (induction b n ms line rule: return_values.induct) (auto simp del: if_split intro!: keep)

lemma keeps_return [keep]: "\<forall>m \<in> set ms. keeps src m \<Longrightarrow> keeps src (compile_return ms line)"
  by (cases ms; cases "tl ms") (auto simp: compile_return_def simp del: if_split intro!: keep keeps_return_values)

lemma keeps_break [keep]: "keeps src (compile_break line)" unfolding compile_break_def by (intro keep)

lemma keeps_expr_stat [keep]: "keeps src m \<Longrightarrow> keeps src (compile_expr_stat m)" unfolding compile_expr_stat_def by (intro keep)

lemma keeps_on_line [keep]: "(\<And>line. keeps src (m line)) \<Longrightarrow> keeps src (on_line s m)" unfolding on_line_def by (intro keep)

lemma keeps_codes [keep]: "keeps src (string_key s)" "keeps src m \<Longrightarrow> keeps src k \<Longrightarrow> keeps src (code_index m k line)"
  "keeps src m \<Longrightarrow> keeps src k \<Longrightarrow> keeps src (code_binop P op m k line)"
  "keeps src m \<Longrightarrow> \<forall>m \<in> set ms. keeps src m \<Longrightarrow> keeps src (code_call m ms line)"
  "keeps src m \<Longrightarrow> \<forall>m \<in> set ms. keeps src m \<Longrightarrow> keeps src (code_method_call m name ms line)"
  unfolding string_key_def code_index_def code_binop_def code_call_def code_method_call_def by (intro keep; assumption?)+

lemma keeps_vararg [keep]: "keeps src (code_vararg line)"
  unfolding code_vararg_def by (intro keep keeps_proto) (simp add: parts_ok_def)

lemma keeps_do: "keeps src m \<Longrightarrow> keeps src (\<lambda>c. case m c of (c1, r) \<Rightarrow> (c1\<lparr>cc_current_line := l\<rparr>, r))"
proof (rule keepsI)
  fix c c1 r assume m: "keeps src m" and c: "cc_ok src c" "(case m c of (c1, r) \<Rightarrow> (c1\<lparr>cc_current_line := l\<rparr>, r)) = (c1, r)"
  obtain c2 r2 where "m c = (c2, r2)" by fastforce
  then show "cc_ok src c1" using givesD [OF m c(1)] c(2) by (auto simp: cc_ok_def)
qed

lemma tree_keeps:
  "keeps src (compile_stat P s)" "keeps src (compile_expr P e)" "field_keeps src (compile_field P f)"
  "\<forall>b l. keeps src (compile_body P fb b l)"
proof (induction s and e and f and fb)
  case (S_Do body s l)
  then show ?case unfolding compile_stat.simps by (intro keep keeps_do) simp_all
qed (auto simp: field_keeps_def simp del: if_split dest!: set_zip_leftD intro!: keep)

section \<open>Compiled chunks\<close>

lemma gives_finish_main: "gives src finish_main (wf_proto src)"
proof (rule givesI)
  fix c c1 r assume c: "cc_ok src c" "finish_main c = (c1, r)"
  obtain c2 u where e: "end_function c = (c2, u)" by fastforce
  have ok: "cc_ok src c2" using givesD [OF keeps_end_function c(1) e] by simp
  show "cc_ok src c1 \<and> (\<forall>x. r = Inr x \<longrightarrow> wf_proto src x)"
  proof (cases u)
    case (Inl err)
    then show ?thesis using c(2) ok by (auto simp: finish_main_def othen_def obind_def e)
  next
    case (Inr v)
    note ret = end_function_return [OF e [unfolded Inr]]
    show ?thesis using c(2) ok wf_function_proto [OF _ ret, of src]
      by (auto simp: finish_main_def othen_def obind_ok [where m = end_function, OF e [unfolded Inr]] obind_simps cc_ok_def oret_def)
  qed
qed

lemma compile_main_ok:
  assumes "compile_main P block name = Inr p"
  shows "wf_proto name p"
proof -
  obtain c where new: "compiler_new name = Some c" using assms by (auto simp: compile_main_def split: option.splits)
  then have ok: "cc_ok name c" by (auto simp: compiler_new_def cc_ok_def func_state_new_ok)
  have start: "keeps name (on_proto (\<lambda>p. p\<lparr>cp_is_vararg := 2, cp_num_params := 0\<rparr>))"
    by (rule keeps_proto) (simp add: parts_ok_def)
  have "gives name (othen (on_proto (\<lambda>p. p\<lparr>cp_is_vararg := 2, cp_num_params := 0\<rparr>))
      (othen (compile_block (map (compile_stat P) block)) finish_main)) (wf_proto name)"
    unfolding othen_def
    by (rule gives_bind [OF start], rule gives_bind [OF keeps_block gives_finish_main]) (simp add: tree_keeps)
  then show ?thesis using assms ok new by (auto simp: compile_main_def gives_def)
qed

text \<open>C22. Every prototype that compiling text or a stream gives is well formed, with all its nested functions: the
  code ends in a return and has a line for each instruction, the constants are plain values within the reach of an
  operand, the string pool names nil entries in order with their hashes, the upvalues are counted and at most sixty,
  the frame size is between 2 and 250, and the names of the source agree.\<close>

theorem compiled_wellformed:
  assumes "compile P E source name = Inr p \<or> compile_with_lexer P E l name = Inr p"
  shows "wf_proto name p"
  using assms by (auto simp: compile_def compile_with_lexer_def res_bind_Inr_iff intro: compile_main_ok)

section \<open>Written and read again\<close>

lemma find_filter: "find Q xs = (case filter Q xs of [] \<Rightarrow> None | x # _ \<Rightarrow> Some x)"
  by (induction xs) auto

lemma filter_below: "sorted_wrt (\<lambda>a b. f a < f b) xs \<Longrightarrow>
   filter (\<lambda>e. f e < Suc n) xs = filter (\<lambda>e. f e < n) xs @ filter (\<lambda>e. f e = (n :: nat)) xs"
proof (induction xs)
  case (Cons x xs)
  then have "filter (\<lambda>e. f e < n) xs = []" if "\<not> f x < n" using that by (force simp: filter_empty_conv)
  then show ?case using Cons by (cases "f x < n") (auto simp: filter_empty_conv not_less less_Suc_eq)
qed simp

lemma filter_at: "sorted_wrt (\<lambda>a b. f a < f b) xs \<Longrightarrow> filter (\<lambda>e. f e = (n :: nat)) xs = y # ys \<Longrightarrow> ys = []"
proof (induction xs)
  case (Cons x xs)
  then have "filter (\<lambda>e. f e = n) xs = []" if "f x = n" using that by (force simp: filter_empty_conv)
  then show ?case using Cons by (cases "f x = n") auto
qed simp

lemma pool_reload_at:
  assumes "constants_ok ks pool" "n < length ks"
  shows "snd (loaded_constant None pool (n, ks ! n)) = filter (\<lambda>e. unat (sp_index e) = n) pool"
    and "fst (loaded_constant None pool (n, ks ! n)) = ks ! n"
proof -
  have small: "unat (word_of_nat n :: u32) = n" using assms by (intro unat_of_small) (simp add: constants_ok_def)
  then have at: "(sp_index e = word_of_nat n) = (unat (sp_index e) = n)" for e using small by (auto simp: word_eq_iff_unsigned)
  have plain: "plain_constant (ks ! n)" using assms by (simp add: constants_ok_def list_all_length)
  have sorted: "sorted_wrt (\<lambda>e e'. unat (sp_index e) < unat (sp_index e')) pool" using assms by (simp add: constants_ok_def pool_ok_def)
  have others: "filter (\<lambda>e. unat (sp_index e) = n) pool = []" if "ks ! n \<noteq> VNil"
    using assms that by (auto simp: filter_empty_conv constants_ok_def pool_ok_def)
  show "fst (loaded_constant None pool (n, ks ! n)) = ks ! n"
    using plain by (cases "ks ! n") (auto simp: loaded_constant_def constant_bytes_def plain_constant_def split: option.split)
  show "snd (loaded_constant None pool (n, ks ! n)) = filter (\<lambda>e. unat (sp_index e) = n) pool"
  proof (cases "filter (\<lambda>e. unat (sp_index e) = n) pool")
    case Nil
    then show ?thesis using plain
      by (cases "ks ! n") (auto simp: loaded_constant_def constant_bytes_def pool_find_def find_filter at plain_constant_def)
  next
    case (Cons e es)
    then have "e \<in> set pool" "unat (sp_index e) = n" by (auto dest: filter_eq_ConsD)
    then have e: "ks ! n = VNil" "sp_hash e = lua_hash (sp_bytes e)" "sp_index e = word_of_nat n"
      using assms others Cons by (auto simp: constants_ok_def pool_ok_def at)
    show ?thesis using filter_at [OF sorted Cons] Cons e
      by (cases e) (simp add: loaded_constant_def constant_bytes_def pool_find_def find_filter at)
  qed
qed

lemma enumerate_take: "n < length ks \<Longrightarrow> enumerate 0 (take (Suc n) ks) = enumerate 0 (take n ks) @ [(n, ks ! n)]"
  by (simp add: take_Suc_conv_app_nth enumerate_append_eq)

lemma pool_reloaded:
  assumes "constants_ok ks pool"
  shows "concat (map (\<lambda>iv. snd (loaded_constant None pool iv)) (enumerate 0 ks)) = pool"
    and "map (\<lambda>iv. fst (loaded_constant None pool iv)) (enumerate 0 ks) = ks"
proof -
  have sorted: "sorted_wrt (\<lambda>e e'. unat (sp_index e) < unat (sp_index e')) pool" using assms by (simp add: constants_ok_def pool_ok_def)
  have "concat (map (\<lambda>iv. snd (loaded_constant None pool iv)) (enumerate 0 (take n ks))) = filter (\<lambda>e. unat (sp_index e) < n) pool"
    if "n \<le> length ks" for n
    using that by (induction n) (simp_all add: enumerate_take pool_reload_at [OF assms] filter_below [OF sorted])
  from this [of "length ks"] show "concat (map (\<lambda>iv. snd (loaded_constant None pool iv)) (enumerate 0 ks)) = pool"
    using assms by (simp add: constants_ok_def pool_ok_def filter_id_conv)
  show "map (\<lambda>iv. fst (loaded_constant None pool iv)) (enumerate 0 ks) = ks"
    by (rule nth_equalityI) (simp_all add: nth_enumerate_eq pool_reload_at [OF assms])
qed

lemma loaded_compiled: "wf_proto src p \<Longrightarrow> loaded None False p = p"
proof (induction p)
  case (Proto code ks ps lines vars names source short ld lld nu np va mx pool gs)
  then have "map (loaded None False) ps = ps" by (auto intro: map_idI simp: list_all_iff)
  then show ?case using Proto.prems by (simp add: pool_reloaded)
qed

text \<open>C24. A compiled function written as a binary chunk and read again is the same function, constants, string pool,
  nested functions and debug vectors included, whatever name the reader passes, when its counts and names are
  what the format can hold and the chunk is named.\<close>

theorem compiled_chunk_roundtrip:
  assumes "compile P E source name = Inr p" "dumpable p" "name \<noteq> []" "length (dump p None False) < 2 ^ 63"
  shows "undump (dump p None False) other = Inr p"
proof -
  have wf: "wf_proto name p" using assms(1) by (auto simp: compile_def res_bind_Inr_iff intro: compile_main_ok)
  then have "pr_source p = name" by (cases p) simp
  then show ?thesis using undump_written [OF assms(2) _ assms(4), of other] assms(3) loaded_compiled [OF wf] by simp
qed

section \<open>A program\<close>

definition plain_env :: lex_env where "plain_env = \<lparr>le_strtod = \<lambda>_. None, le_decpoint = 46\<rparr>"

definition plain_platform :: platform where
  "plain_platform = \<lparr>p_strtod = \<lambda>_. None, p_strcoll = \<lambda>_ _. 0, p_pow = \<lambda>x y. x, p_log10_floor = \<lambda>_. 0,
     p_interrupted = \<lambda>_. False, p_native = \<lambda>_ _ s. (s, Inr 0), p_finalizer = \<lambda>_ l. (l, None), p_gc_fuel = 0\<rparr>"

text \<open>Rules that run an operation from its first step: the later steps are left alone until the state is known.\<close>

lemma lazy_run: "m = m' \<Longrightarrow> obind m f = obind m' f" "m = m' \<Longrightarrow> othen m n = othen m' n" "with_rounds r = with_rounds r"
  "relocable e m = relocable e m"
  by simp_all

lemma obind_run: "obind m f s = (case m s of (s1, r) \<Rightarrow> (case r of Inl e \<Rightarrow> (s1, Inl e) | Inr x \<Rightarrow> f x s1))"
  by (simp add: obind_def split: prod.split sum.split)

lemma othen_run: "othen m n s = (case m s of (s1, r) \<Rightarrow> (case r of Inl e \<Rightarrow> (s1, Inl e) | Inr x \<Rightarrow> n s1))"
  by (simp add: othen_def obind_run)

lemma with_rounds_run: "with_rounds r c = r (jump_rounds c) c" by (simp add: with_rounds_def)

lemmas run_simps = obind_run othen_run with_rounds_run oret_def ofail_def oget_def omod_def on_fs_def on_proto_def c_pc_def

lemmas code_run = get_instruction_def set_instruction_def on_instruction_def discharge_jpc_def push_code_def emit_def emit_abc_def
  emit_abx_def push_constant_cases string_constant_def new_string_constant_def check_stack_def alloc_reg_def free_reg_def
  resolve_var_def resolve_outer_def search_local_def search_upvalue_def reset_free_def c_active_def c_free_def attempt_def
  discharge_vars_def relocable_def free_expr_def only_if_def exp2reg_def discharge2reg_def move_to_reg_def raise_ref_def
  exp2nextreg_def exp2nextreg_ref_def exp2anyreg_def exp2anyreg_ref_def compile_return_def on_line_def set_line_def multi_kind_def
  end_function_def finish_main_def remove_locals_def expr_new_def has_jumps_def

definition return_x :: "u32 \<Rightarrow> u32 \<Rightarrow> Proto" where
  "return_x l k = Proto [raw (a_bx Op_GetGlobal 0 0), raw (abc Op_Return 0 2 0), raw (abc Op_Return 0 1 0)] [VNil] [] [k, k, l]
     [] [] (ascii ''=x'') (ascii ''x'') 0 0 0 0 2 2 [StringPoolEntry 0 (ascii ''x'') (lua_hash (ascii ''x''))] []"

lemma compile_return_x:
  "\<exists>l k. compile plain_platform plain_env (ascii ''return x'') (ascii ''=x'') = Inr (return_x l k)"
proof -
  have "tokens 30 plain_env (lexer_new (ascii ''return x'') (ascii ''=x'')) = Inr (T_Return # unparse (Ident (ascii ''x'')) @ [T_Eos])"
    by code_simp
  then obtain e span where parsed: "parse plain_env (ascii ''return x'') (ascii ''=x'') = Inr [S_Return [e] span]"
      "tree_of e = Some (Ident (ascii ''x''))"
    using return_parses [of 30 plain_env "ascii ''return x''" "ascii ''=x''" "Ident (ascii ''x'')"] by auto
  obtain s where e: "e = E_Name (ascii ''x'') s" using parsed(2) by (cases e) (auto split: option.splits)
  have short: "chunkid (ascii ''=x'') = Some (ascii ''x'')" by code_simp
  have "compile_main plain_platform [S_Return [E_Name (ascii ''x'') s] span] (ascii ''=x'') = Inr (return_x (sp_line s) (sp_line span))"
    by (simp add: compile_main_def compiler_new_def func_state_new_def proto_new_def proto_parts_def short run_simps Let_def cong: lazy_run,
      simp add: code_run run_simps Let_def cong: lazy_run,
      simp add: NO_JUMP_def mask_simps MAXSTACK_def function_proto_def proto_of_def as_usize_def return_x_def, code_simp)
  then show ?thesis using parsed(1) e by (auto simp: compile_def)
qed

theorem compiled_wellformed_witness:
  "\<exists>l k. wf_proto (ascii ''=x'') (return_x l k)"
  using compile_return_x compiled_wellformed by blast

theorem compiled_chunk_roundtrip_witness:
  "\<exists>l k. undump (dump (return_x l k) None False) (ascii ''other'') = Inr (return_x l k)"
proof -
  obtain l k where p: "compile plain_platform plain_env (ascii ''return x'') (ascii ''=x'') = Inr (return_x l k)"
    using compile_return_x by blast
  have "valid_utf8 (ascii ''=x'')" "chunkid (ascii ''=x'') \<noteq> None" by code_simp+
  then have "dumpable (return_x l k)" by (simp add: return_x_def)
  moreover have "length (dump (return_x l k) None False) < 2 ^ 63"
    unfolding dump_def by (subst dump_function.simps)
      (simp add: dump_header_def LUA_SIGNATURE_def return_x_def dump_lengths dump_constant_def pool_find_def ascii_def)
  ultimately show ?thesis using compiled_chunk_roundtrip [OF p] by (auto simp: ascii_def)
qed

end
