(* ===== verification/CodeProps.thy ===== *)
theory CodeProps
  imports CodeExpr
begin

text \<open>
  Where the code generator and the virtual machine meet: the table sizes the one writes and
  the other reads, and constant folding against the arithmetic of the instructions.
\<close>

section \<open>Table sizes\<close>

lemma half_up: "x < 0xFFFFFFFF \<Longrightarrow> unat (drop_bit 1 (x + 1 :: u32)) = (unat x + 1) div 2"
proof -
  assume "x < 0xFFFFFFFF"
  then have "unat (x + 1) = unat x + 1" by (simp add: word_less_nat_alt unat_word_ariths(1))
  then show ?thesis by (simp add: drop_bit_eq_div unat_div)
qed

lemma ceil_halves: "((n + 1) div 2 + 2 ^ k - 1) div 2 ^ k = (n + 2 ^ Suc k - 1) div (2 ^ Suc k :: nat)"
proof -
  have "(1 :: nat) \<le> 2 ^ k" by simp
  then have "(n + 1) div 2 + 2 ^ k - 1 = (n + 2 ^ Suc k - 1) div 2" by simp
  then show ?thesis by (simp add: div_mult2_eq)
qed

lemma fb_shift_spec:
  "fb_shift x e = (y, f) \<Longrightarrow> 8 \<le> x \<Longrightarrow> x < 0xFFFFFFFF \<Longrightarrow>
   \<exists>k. f = e + word_of_nat k \<and> unat y = (unat x + 2 ^ k - 1) div 2 ^ k \<and> 8 \<le> unat y \<and> unat y < 16
     \<and> (k = 0 \<or> 15 * 2 ^ (k - 1) < unat x)"
proof (induction x e arbitrary: y f rule: fb_shift.induct)
  case (1 x e)
  show ?case
  proof (cases "x < 16")
    case True
    then show ?thesis using 1(2,3) by (intro exI [of _ 0]) (simp add: fb_shift.simps word_less_nat_alt word_le_nat_alt)
  next
    case False
    let ?x = "drop_bit 1 (x + 1)"
    have h: "unat ?x = (unat x + 1) div 2" by (rule half_up) (rule 1(4))
    have n: "16 \<le> unat x" "unat x < 0xFFFFFFFF" using False 1(4) by (simp_all add: word_less_nat_alt)
    have "fb_shift ?x (e + 1) = (y, f)" using 1(2) False by (simp add: fb_shift.simps [of x])
    moreover have "8 \<le> ?x" "?x < 0xFFFFFFFF" using h n by (simp_all add: word_le_nat_alt word_less_nat_alt)
    ultimately obtain k where k: "f = e + 1 + word_of_nat k" "unat y = (unat ?x + 2 ^ k - 1) div 2 ^ k"
      "8 \<le> unat y" "unat y < 16" "k = 0 \<or> 15 * 2 ^ (k - 1) < unat ?x" using 1(1) [OF False] by blast
    have "15 * 2 ^ k < unat x"
    proof (cases k)
      case (Suc m)
      then have "15 * 2 ^ m < (unat x + 1) div 2" using k(5) h by simp
      then show ?thesis by (simp add: Suc)
    qed (use n in simp)
    then show ?thesis using k h by (intro exI [of _ "Suc k"]) (simp only: ceil_halves, simp add: ac_simps)
  qed
qed

lemma fb_fields_all:
  "list_all (\<lambda>k. list_all (\<lambda>y. let b = push_bit 3 (word_of_nat k + 1) OR (y - 8) :: u32 in
     unat b < 256 \<and> unat (fb2int b) = unat y * 2 ^ k) [8, 9, 10, 11, 12, 13, 14, 15])
     [0, 1, 2, 3, 4, 5, 6, 7, 8, 9, 10, 11, 12, 13, 14, 15, 16, 17, 18, 19, 20, 21, 22, 23, 24, 25, 26, 27, 28]"
  by (simp add: fb2int_def Let_def)

lemma fb_fields:
  assumes "k \<le> 28" "8 \<le> unat y" "unat y < 16"
  shows "unat (push_bit 3 (word_of_nat k + 1) OR (y - 8) :: u32) < 256"
    and "unat (fb2int (push_bit 3 (word_of_nat k + 1) OR (y - 8))) = unat y * 2 ^ k"
proof -
  obtain n where n: "y = word_of_nat n" "unat y = n" using that [of "unat y"] by simp
  have "n \<in> {8, 9, 10, 11, 12, 13, 14, 15}" using assms(2,3) n(2) by auto
  then have y: "y \<in> set [8, 9, 10, 11, 12, 13, 14, 15]" unfolding n(1) by auto
  have "[0..<29] = [0, 1, 2, 3, 4, 5, 6, 7, 8, 9, 10, 11, 12, 13, 14, 15, 16, 17, 18, 19, 20, 21, 22, 23, 24, 25, 26, 27, 28]"
    by code_simp
  moreover have "k \<in> set [0..<29]" using assms(1) by simp
  ultimately have k: "k \<in> set [0, 1, 2, 3, 4, 5, 6, 7, 8, 9, 10, 11, 12, 13, 14, 15, 16, 17, 18, 19, 20, 21, 22, 23, 24, 25, 26, 27, 28]"
    by metis
  show "unat (push_bit 3 (word_of_nat k + 1) OR (y - 8) :: u32) < 256"
    "unat (fb2int (push_bit 3 (word_of_nat k + 1) OR (y - 8))) = unat y * 2 ^ k"
    using fb_fields_all k y unfolding list_all_iff Let_def by blast+
qed

text \<open>C27. The size written for a table of items fits an operand and reads back as at least that many, at most an eighth
  more, and as the very number below sixteen.\<close>

theorem table_size_bounds:
  assumes "x \<le> 0xF0000000"
  shows "unat (int2fb x) < 256 \<and> unat x \<le> unat (fb2int (int2fb x)) \<and> 8 * unat (fb2int (int2fb x)) \<le> 9 * unat x
    \<and> (x < 16 \<longrightarrow> fb2int (int2fb x) = x)"
proof (cases "x < 8")
  case True
  obtain n where n: "x = word_of_nat n" "unat x = n" using that [of "unat x"] by simp
  have "n \<in> {0, 1, 2, 3, 4, 5, 6, 7}" using True n(2) by (auto simp: word_less_nat_alt)
  then have "x \<in> {0, 1, 2, 3, 4, 5, 6, 7}" unfolding n(1) by auto
  then show ?thesis by (auto simp: int2fb_def fb2int_def)
next
  case False
  obtain y f where s: "fb_shift x 0 = (y, f)" by fastforce
  obtain k where k: "f = word_of_nat k" "unat y = (unat x + 2 ^ k - 1) div 2 ^ k" "8 \<le> unat y" "unat y < 16"
      "k = 0 \<or> 15 * 2 ^ (k - 1) < unat x"
  proof -
    have "8 \<le> x" "x < 0xFFFFFFFF" using False assms by (simp_all add: word_le_nat_alt word_less_nat_alt)
    from fb_shift_spec [OF s this] obtain k where "f = 0 + word_of_nat k" "unat y = (unat x + 2 ^ k - 1) div 2 ^ k"
      "8 \<le> unat y" "unat y < 16" "k = 0 \<or> 15 * 2 ^ (k - 1) < unat x" by blast
    then show ?thesis using that [of k] by simp
  qed
  have bound: "unat x \<le> 15 * 2 ^ 28" using assms by (simp add: word_le_nat_alt)
  have small: "k \<le> 28"
  proof (rule ccontr)
    assume "\<not> k \<le> 28"
    then have "(2 :: nat) ^ 28 \<le> 2 ^ (k - 1)" by (intro power_increasing) auto
    then show False using k(5) bound \<open>\<not> k \<le> 28\<close> by auto
  qed
  let ?v = "unat y * 2 ^ k"
  have v: "unat (fb2int (int2fb x)) = ?v" "unat (int2fb x) < 256"
    using fb_fields [OF small k(3,4)] False by (simp_all add: int2fb_def s k(1) ac_simps)
  let ?n = "unat x + 2 ^ k - 1"
  have "?v + ?n mod 2 ^ k = ?n" unfolding k(2) by (rule div_mult_mod_eq)
  moreover have "?n mod 2 ^ k < 2 ^ k" "(1 :: nat) \<le> 2 ^ k" by simp_all
  ultimately have low: "unat x \<le> ?v" and high: "?v < unat x + 2 ^ k" by linarith+
  have "8 * ?v \<le> 9 * unat x"
  proof (cases "2 ^ (k + 3) \<le> unat x")
    case True
    then show ?thesis using high by (simp add: power_add)
  next
    case below: False
    show ?thesis
    proof (cases k)
      case 0
      then show ?thesis using high by simp
    next
      case (Suc m)
      have "15 * 2 ^ m < unat x" using k(5) Suc by simp
      moreover have "?v = 8 * 2 ^ k"
      proof -
        have "unat x < 8 * 2 ^ k" using below by (simp add: power_add)
        then have "unat y * 2 ^ k < (8 + 1) * 2 ^ k" unfolding add_mult_distrib mult_1 using high by linarith
        then have "unat y < 8 + 1" by (rule mult_less_cancel2 [THEN iffD1, THEN conjunct2])
        then show ?thesis using k(3) by simp
      qed
      ultimately show ?thesis by (simp add: Suc)
    qed
  qed
  moreover have "fb2int (int2fb x) = x" if "x < 16"
  proof -
    have "fb_shift x 0 = (x, 0)" using that by (simp add: fb_shift.simps)
    then have "y = x" using s by simp
    have "(1 :: nat) \<le> 2 ^ (k - 1)" "unat x < 16" using that by (simp_all add: word_less_nat_alt)
    then have "k = 0" using k(5) by linarith
    then show ?thesis using v(1) \<open>y = x\<close> by (simp add: word_unat_eq_iff)
  qed
  ultimately show ?thesis using v low by simp
qed

lemma table_size_bounds_witness:
  "unat (int2fb 1000) < 256 \<and> unat (1000 :: u32) \<le> unat (fb2int (int2fb 1000)) \<and> 8 * unat (fb2int (int2fb 1000)) \<le> 9 * unat (1000 :: u32)
    \<and> fb2int (int2fb 9) = 9"
  using table_size_bounds [of 1000] table_size_bounds [of 9] by simp

section \<open>Constant folding\<close>

text \<open>The operands of an instruction as the machine reads them are two numbers; a negation reads one register.\<close>

definition reads_numbers :: "OpCode \<Rightarrow> vm \<Rightarrow> nat \<Rightarrow> Proto \<Rightarrow> Instruction \<Rightarrow> f64 \<Rightarrow> f64 \<Rightarrow> bool" where
  "reads_numbers op s base p i v1 v2 \<longleftrightarrow> (if op = Op_Unm then stack_get (v_lua s) (base + reg_b i) = VNum v1
     else rk (stack (v_lua s)) base (pr_constants p) (ins_b i) = Inr (VNum v1)
       \<and> rk (stack (v_lua s)) base (pr_constants p) (ins_c i) = Inr (VNum v2))"

text \<open>C23. A folded operation has the value the virtual machine computes: the instruction that was not emitted, run in
  any state where its operands are the two numbers, registers or constants, stores the folded number in its register
  and goes on.\<close>

theorem folding_is_evaluation:
  assumes "const_fold P op e1 e2 = Some e" "reads_numbers op s base (f_proto f) i (ec_nval e1) (ec_nval e2)"
  shows "dispatch op P N f i pc base s = go (reg_set (base + reg_a i) (VNum (ec_nval e))) pc base s"
  using assms
  by (cases op) (auto simp: const_fold_def fold_value_def op_add_def op_sub_def op_mul_def op_div_def op_mod_def op_pow_def op_arith_def
      op_unm_def lua_mod_def go_def vthen_def vbind_def rk_get_def reg_get_def vget_def coerce_to_number_def reads_numbers_def
      split: if_splits option.splits)

definition adding_vm :: vm where
  "adding_vm = \<lparr>v_sec = \<lparr>s_lua = lua_new, s_contexts = None, s_contents_policy = False\<rparr>, v_taint_mode = False,
     v_budgets = budgets_default, v_transfer = None\<rparr>"

definition adding_frame :: frame where
  "adding_frame = \<lparr>f_proto = Proto [] [VNum (f64_of_int 1), VNum (f64_of_int 2)] [] [] [] [] [] [] 0 0 0 0 0 2 [] [],
     f_env = l_global lua_new, f_closure = GcRef 0 0\<rparr>"

lemma folding_is_evaluation_witness:
  "dispatch Op_Add \<lparr>p_strtod = \<lambda>_. None, p_strcoll = \<lambda>_ _. 0, p_pow = \<lambda>x y. x, p_log10_floor = \<lambda>_. 0, p_interrupted = \<lambda>_. False,
       p_native = \<lambda>_ _. vret 0, p_finalizer = \<lambda>_ l. (l, None), p_gc_fuel = 0\<rparr>
     \<lparr>n_call = \<lambda>_ _. vret (), n_execute = vret ()\<rparr> adding_frame (abc Op_Add 0 256 257) 5 1 adding_vm
   = go (reg_set 1 (VNum (f64_of_int 3))) 5 1 adding_vm"
proof -
  let ?e = "\<lambda>k. expr_number (f64_of_int k)"
  have fold: "const_fold P Op_Add (?e 1) (?e 2) = Some (?e 3)" for P
    by (simp add: const_fold_def fold_value_def is_numeral_def expr_number_def) code_simp
  have "reads_numbers Op_Add adding_vm 1 (f_proto adding_frame) (abc Op_Add 0 256 257) (ec_nval (?e 1)) (ec_nval (?e 2))"
    by (simp add: reads_numbers_def rk_def const_at_def abc_fields is_k_def index_k_def mask_simps adding_frame_def expr_number_def
        mask_eq_exp_minus_1)
  from folding_is_evaluation [OF fold this] show ?thesis by (simp add: expr_number_def abc_fields mask_simps)
qed

end
