(* ===== verification/JumpLists.thy ===== *)
theory JumpLists
  imports Codegen ChunkProps
begin

text \<open>
  The jump lists of the code generator are lists of program points threaded through the
  offsets of the jumps themselves. The operations on them are those of lists: joining two
  lists appends, and patching a list rewrites each of its jumps, and its tests, once.
\<close>

section \<open>The list a jump heads\<close>

definition code_of :: "Compiler \<Rightarrow> u32 list" where "code_of c = cp_code (cf_proto (cc_fs c))"

definition with_code :: "Compiler \<Rightarrow> u32 list \<Rightarrow> Compiler" where
  "with_code c code = c\<lparr>cc_fs := (cc_fs c)\<lparr>cf_proto := (cf_proto (cc_fs c))\<lparr>cp_code := code\<rparr>\<rparr>\<rparr>"

definition code_at :: "u32 list \<Rightarrow> nat \<Rightarrow> Instruction" where "code_at code pc = Instruction (code ! pc)"

definition jump_next :: "u32 list \<Rightarrow> nat \<Rightarrow> i32" where
  "jump_next code pc = (if ins_sbx (code_at code pc) = NO_JUMP then NO_JUMP else word_of_nat pc + 1 + ins_sbx (code_at code pc))"

primrec jumps :: "u32 list \<Rightarrow> i32 \<Rightarrow> nat list \<Rightarrow> bool" where
  "jumps code l [] \<longleftrightarrow> l = NO_JUMP"
| "jumps code l (p # ps) \<longleftrightarrow> l = word_of_nat p \<and> p < length code \<and> \<not> is_test_mode (ins_opcode (code_at code p))
     \<and> jumps code (jump_next code p) ps"

text \<open>Code short enough for every offset to fit a jump.\<close>

definition short_code :: "u32 list \<Rightarrow> bool" where "short_code code \<longleftrightarrow> length code \<le> 131071"

lemma with_code_simps [simp]: "code_of (with_code c code) = code" "with_code (with_code c code) code' = with_code c code'"
  "with_code c (code_of c) = c" "c_pc (with_code c code) = length code" "c_pc c = length (code_of c)"
  by (simp_all add: code_of_def with_code_def c_pc_def)

lemma point_index: "p < 131072 \<Longrightarrow> as_usize (word_of_nat p) = p" "p < 131072 \<Longrightarrow> word_of_nat p \<noteq> NO_JUMP"
proof -
  assume p: "p < 131072"
  show "as_usize (word_of_nat p) = p" by (rule as_usize_of_nat) (use p in simp)
  have "unat (word_of_nat p :: i32) = p" by (rule unat_of_small) (use p in simp)
  moreover have "unat NO_JUMP = 2 ^ 32 - 1" by (simp add: NO_JUMP_def unsigned_minus_1_eq_mask mask_eq_exp_minus_1)
  ultimately show "word_of_nat p \<noteq> NO_JUMP" using p by fastforce
qed

section \<open>Single instructions\<close>

lemma get_at: "pc < length (code_of c) \<Longrightarrow> get_instruction pc c = (c, Inr (code_at (code_of c) pc))"
  by (simp add: get_instruction_def code_of_def code_at_def oret_def)

lemma set_at: "pc < length (code_of c) \<Longrightarrow> set_instruction pc i c = (with_code c ((code_of c)[pc := raw i]), Inr ())"
  by (simp add: set_instruction_def code_of_def with_code_def c_pc_def on_proto_def on_fs_def omod_def)

lemma get_bind: "pc < length (code_of c) \<Longrightarrow> obind (get_instruction pc) f c = f (code_at (code_of c) pc) c"
  by (rule obind_ok) (rule get_at)

lemma set_then: "pc < length (code_of c) \<Longrightarrow> othen (set_instruction pc i) m c = m (with_code c ((code_of c)[pc := raw i]))"
  unfolding othen_def by (rule obind_ok) (rule set_at)

lemma code_at_update: "p < length code \<Longrightarrow> code_at (code[p := raw i]) q = (if q = p then i else code_at code q)"
  by (cases i) (simp add: code_at_def)

definition jump_offset :: "nat \<Rightarrow> nat \<Rightarrow> i32" where "jump_offset p t = word_of_nat t - word_of_nat p - 1"

lemma patch_at: "p < length (code_of c) \<Longrightarrow>
   patch_jump p t c = (with_code c ((code_of c)[p := raw (set_sbx (jump_offset p t) (code_at (code_of c) p))]), Inr ())"
  by (simp add: patch_jump_def on_instruction_def jump_offset_def obind_ok [where m = "get_instruction p", OF get_at] set_at)

lemma target_at: "p < length (code_of c) \<Longrightarrow> get_jump_target p c = (c, Inr (jump_next (code_of c) p))"
  by (simp add: get_jump_target_def jump_next_def obind_ok [where m = "get_instruction p", OF get_at] oret_def)

lemma set_sbx_opcode [simp]: "ins_opcode (set_sbx s i) = ins_opcode i" by (simp add: set_sbx_alt)

lemma offset_sint: "p < 131072 \<Longrightarrow> t < 131072 \<Longrightarrow> sint (jump_offset p t) = int t - int p - 1"
proof -
  assume "p < 131072" "t < 131072"
  moreover have "jump_offset p t = word_of_int (int t - int p - 1)" by (simp add: jump_offset_def)
  ultimately show ?thesis by (simp add: sint_sbintrunc' signed_take_bit_int_eq_self del: of_int_diff)
qed

lemma ins_set_sbx: "-131071 \<le> sint s \<Longrightarrow> sint s \<le> 131072 \<Longrightarrow> ins_sbx (set_sbx s i) = s"
  using sbx_excess_K [of s] by (simp add: ins_sbx_def set_sbx_alt mask_simps)

lemma patched_next:
  assumes "p < length code" "length code \<le> 131071" "t \<le> length code" "t \<noteq> p"
  shows "jump_next (code[p := raw (set_sbx (jump_offset p t) i)]) p = word_of_nat t"
proof -
  have "sint (jump_offset p t) = int t - int p - 1" using assms by (intro offset_sint) simp_all
  then have "ins_sbx (set_sbx (jump_offset p t) i) = jump_offset p t" "jump_offset p t \<noteq> NO_JUMP"
    using assms by (auto intro!: ins_set_sbx simp: NO_JUMP_def)
  then show ?thesis using assms(1) by (simp add: jump_next_def code_at_update) (simp add: jump_offset_def)
qed

lemma next_update: "q \<noteq> p \<Longrightarrow> jump_next (code[p := x]) q = jump_next code q"
  by (simp add: jump_next_def code_at_def)

lemma jumps_update: "p \<notin> set ps \<Longrightarrow> jumps (code[p := x]) l ps = jumps code l ps"
  by (induction ps arbitrary: l) (auto simp: next_update code_at_def)

lemma jumps_points: "jumps code l ps \<Longrightarrow> q \<in> set ps \<Longrightarrow> q < length code \<and> \<not> is_test_mode (ins_opcode (code_at code q))"
  by (induction ps arbitrary: l) auto

section \<open>Joining\<close>

declare is_test_mode.simps [simp del]

lemma distinct_points: "distinct ps \<Longrightarrow> set ps \<subseteq> {..<n} \<Longrightarrow> length ps \<le> n"
  by (metis card_lessThan card_mono distinct_card finite_lessThan)

lemma link_end_appends:
  assumes "jumps (code_of c) l (p # ps)" "jumps (code_of c) k (q # qs)" "distinct (p # ps @ q # qs)" "short_code (code_of c)"
    "length ps < n"
  shows "\<exists>code. link_end_n n l k c = (with_code c code, Inr ()) \<and> jumps code l (p # ps @ q # qs)
     \<and> length code = length (code_of c) \<and> (\<forall>i. i \<notin> set (p # ps) \<longrightarrow> code ! i = code_of c ! i)"
  using assms
proof (induction ps arbitrary: n l p)
  case Nil
  let ?code = "code_of c"
  let ?new = "?code[p := raw (set_sbx (jump_offset p q) (code_at ?code p))]"
  obtain m where n: "n = Suc m" using Nil(5) by (cases n) auto
  have p: "l = word_of_nat p" "p < length ?code" "\<not> is_test_mode (ins_opcode (code_at ?code p))" "jump_next ?code p = NO_JUMP"
    and q: "k = word_of_nat q" "q < length ?code" using Nil(1,2) by simp_all
  have ix: "as_usize (word_of_nat p) = p" "as_usize (word_of_nat q) = q" using p(2) q Nil(4) by (simp_all add: point_index short_code_def)
  have "link_end_n n l k c = (with_code c ?new, Inr ())"
    using p by (simp add: n q(1) ix obind_ok [where m = "get_jump_target p", OF target_at] patch_at)
  moreover have "jumps ?new l (p # q # qs)"
  proof -
    have "jump_next ?new p = word_of_nat q"
      by (rule patched_next) (use p q Nil(3,4) in \<open>auto simp: short_code_def\<close>)
    moreover have "jumps ?new k (q # qs)" using Nil(2,3) by (subst jumps_update) auto
    ultimately show ?thesis using p q by (simp add: code_at_update)
  qed
  ultimately show ?case by (intro exI [of _ ?new]) simp
next
  case (Cons p1 ps)
  let ?code = "code_of c"
  obtain m where n: "n = Suc m" using Cons.prems(5) by (cases n) auto
  have p: "l = word_of_nat p" "p < length ?code" "\<not> is_test_mode (ins_opcode (code_at ?code p))"
    "jump_next ?code p = word_of_nat p1" "p1 < length ?code" and rest: "jumps ?code (jump_next ?code p) (p1 # ps)"
    using Cons.prems(1) by simp_all
  have ix: "as_usize (word_of_nat p) = p" "jump_next ?code p \<noteq> NO_JUMP"
    using p Cons.prems(4) by (simp_all add: point_index short_code_def)
  obtain code where code: "link_end_n m (jump_next ?code p) k c = (with_code c code, Inr ())"
      "jumps code (jump_next ?code p) (p1 # ps @ q # qs)" "length code = length ?code"
      "\<forall>i. i \<notin> set (p1 # ps) \<longrightarrow> code ! i = ?code ! i"
    using Cons.IH [OF rest Cons.prems(2) _ Cons.prems(4), of m] Cons.prems(3,5) n by auto
  have same: "code ! p = ?code ! p" using code(4) Cons.prems(3) by auto
  have at: "code_at code p = code_at ?code p" by (simp add: code_at_def same)
  have "jump_next code p = jump_next ?code p" by (simp add: jump_next_def at)
  then have "jumps code l (p # p1 # ps @ q # qs)" using p(1-3) code(2,3) at by (metis jumps.simps(2))
  moreover have "link_end_n n l k c = (with_code c code, Inr ())"
    using code(1) p(1,2) ix by (simp add: n obind_ok [where m = "get_jump_target p", OF target_at])
  ultimately show ?case using code(3,4) by (intro exI [of _ code]) auto
qed

text \<open>C26. Joining two jump lists appends them: of lists without a common jump in short code the result heads the jumps
  of the first and then of the second, the end of the first is found, and only jumps of the first list change.\<close>

theorem joining_appends:
  assumes "jumps (code_of c) l ps" "jumps (code_of c) k qs" "distinct (ps @ qs)" "short_code (code_of c)"
  shows "\<exists>code m. concat_jumps l k c = (with_code c code, Inr m) \<and> jumps code m (ps @ qs)
     \<and> length code = length (code_of c) \<and> (\<forall>i. i \<notin> set ps \<longrightarrow> code ! i = code_of c ! i)"
proof (cases ps)
  case Nil
  then show ?thesis using assms(1,2) by (auto simp: concat_jumps_def oret_def intro!: exI [of _ "code_of c"])
next
  case first: (Cons p ps')
  show ?thesis
  proof (cases qs)
    case Nil
    then show ?thesis using assms(1,2) by (auto simp: concat_jumps_def oret_def intro!: exI [of _ "code_of c"])
  next
    case (Cons q qs')
    have "set ps \<subseteq> {..<length (code_of c)}" using jumps_points [OF assms(1)] by auto
    then have "length ps \<le> length (code_of c)" using distinct_points assms(3) by auto
    then have rounds: "length ps' < jump_rounds c" by (simp add: jump_rounds_def first)
    have "l \<noteq> NO_JUMP" "k \<noteq> NO_JUMP" using assms(1,2,4) first Cons by (auto simp: point_index short_code_def)
    moreover have "jumps (code_of c) l (p # ps')" "jumps (code_of c) k (q # qs')" "distinct (p # ps' @ q # qs')"
      using assms(1-3) first Cons by simp_all
    then obtain code where code: "link_end_n (jump_rounds c) l k c = (with_code c code, Inr ())" "jumps code l (p # ps' @ q # qs')"
        "length code = length (code_of c)" "\<forall>i. i \<notin> set (p # ps') \<longrightarrow> code ! i = code_of c ! i"
      using link_end_appends [OF _ _ _ assms(4) rounds] by metis
    moreover have "othen (with_rounds (\<lambda>n. link_end_n n l k)) (oret l) c = (with_code c code, Inr l)"
      using code(1) by (simp add: with_rounds_def othen_def obind_def oret_def)
    ultimately show ?thesis unfolding first Cons concat_jumps_def by (intro exI [of _ code] exI [of _ l]) simp
  qed
qed

section \<open>Patching\<close>

text \<open>A jump right after a \<open>TESTSET\<close> carries a value; its test becomes a plain test or gets its register.\<close>

definition valued :: "u32 list \<Rightarrow> nat \<Rightarrow> bool" where
  "valued code q \<longleftrightarrow> 1 \<le> q \<and> ins_opcode (code_at code (q - 1)) = Op_TestSet"

definition retarget :: "u32 \<Rightarrow> Instruction \<Rightarrow> Instruction" where
  "retarget reg i = (if reg \<noteq> NO_REG \<and> reg \<noteq> ins_b i then set_a reg i else abc Op_Test (ins_b i) 0 (ins_c i))"

text \<open>What a program point holds once the jumps of the list are patched.\<close>

definition patched_at :: "u32 list \<Rightarrow> nat list \<Rightarrow> nat \<Rightarrow> u32 \<Rightarrow> nat \<Rightarrow> nat \<Rightarrow> u32" where
  "patched_at code ps vt reg dt q =
    (if q \<in> set ps then raw (set_sbx (jump_offset q (if valued code q then vt else dt)) (code_at code q))
     else if Suc q \<in> set ps \<and> ins_opcode (code_at code q) = Op_TestSet then raw (retarget reg (code_at code q))
     else code ! q)"

definition patched :: "u32 list \<Rightarrow> nat list \<Rightarrow> nat \<Rightarrow> u32 \<Rightarrow> nat \<Rightarrow> u32 list" where
  "patched code ps vt reg dt = map (patched_at code ps vt reg dt) [0..<length code]"

lemma testset_mode: "is_test_mode Op_TestSet" by (simp add: is_test_mode.simps)

lemma control_at: "p < length (code_of c) \<Longrightarrow> get_jump_control p c
    = (c, Inr (if 1 \<le> p \<and> is_test_mode (ins_opcode (code_at (code_of c) (p - 1))) then p - 1 else p))"
  by (auto simp: get_jump_control_def get_bind oret_def)

lemma test_reg_at:
  assumes "p < length (code_of c)" "\<not> is_test_mode (ins_opcode (code_at (code_of c) p))"
  shows "patch_test_reg p reg c = (if valued (code_of c) p
     then (with_code c ((code_of c)[p - 1 := raw (retarget reg (code_at (code_of c) (p - 1)))]), Inr True) else (c, Inr False))"
proof -
  let ?ctrl = "if 1 \<le> p \<and> is_test_mode (ins_opcode (code_at (code_of c) (p - 1))) then p - 1 else p"
  have ctrl: "?ctrl < length (code_of c)" using assms(1) by auto
  have test: "ins_opcode (code_at (code_of c) ?ctrl) = Op_TestSet \<longleftrightarrow> valued (code_of c) p"
    using assms(2) testset_mode by (auto simp: valued_def)
  have "patch_test_reg p reg c = (if ins_opcode (code_at (code_of c) ?ctrl) \<noteq> Op_TestSet then (c, Inr False)
     else (with_code c ((code_of c)[?ctrl := raw (retarget reg (code_at (code_of c) ?ctrl))]), Inr True))"
    using ctrl by (simp add: patch_test_reg_def obind_ok [where m = "get_jump_control p", OF control_at [OF assms(1)]] get_bind set_then
        oret_def retarget_def del: One_nat_def)
  then show ?thesis using test testset_mode by (auto simp: valued_def)
qed

definition patch_first :: "u32 list \<Rightarrow> nat \<Rightarrow> nat \<Rightarrow> u32 \<Rightarrow> nat \<Rightarrow> u32 list" where
  "patch_first code p vt reg dt =
    (if valued code p then code[p - 1 := raw (retarget reg (code_at code (p - 1)))] else code)
      [p := raw (set_sbx (jump_offset p (if valued code p then vt else dt)) (code_at code p))]"

lemma patch_first_at:
  assumes "p < length code"
  shows "q < length code \<Longrightarrow> patch_first code p vt reg dt ! q = patched_at code [p] vt reg dt q"
    and "length (patch_first code p vt reg dt) = length code"
  using assms by (auto simp: patch_first_def patched_at_def nth_list_update valued_def)

lemma retarget_opcode: "ins_opcode i = Op_TestSet \<Longrightarrow> is_test_mode (ins_opcode (retarget reg i))"
  by (simp add: retarget_def is_test_mode.simps)

lemma patched_step:
  assumes "jumps code l (p # ps)" "distinct (p # ps)"
  shows "patched (patch_first code p vt reg dt) ps vt reg dt = patched code (p # ps) vt reg dt"
proof (rule nth_equalityI)
  let ?code = "patch_first code p vt reg dt"
  have p: "p < length code" "\<not> is_test_mode (ins_opcode (code_at code p))" and rest: "jumps code (jump_next code p) ps"
    using assms(1) by simp_all
  note len = patch_first_at(2) [OF p(1), of vt reg dt]
  show "length (patched ?code ps vt reg dt) = length (patched code (p # ps) vt reg dt)" by (simp add: patched_def len)
  fix q assume "q < length (patched ?code ps vt reg dt)"
  then have q: "q < length code" by (simp add: patched_def len)
  have at: "?code ! k = patched_at code [p] vt reg dt k" if "k < length code" for k by (rule patch_first_at(1) [OF p(1) that])
  have same: "code_at ?code k = code_at code k" if "k < length code" "k \<noteq> p" "Suc k = p \<longrightarrow> \<not> valued code p" for k
    using that at by (auto simp: code_at_def patched_at_def valued_def)
  have opc: "ins_opcode (code_at ?code p) = ins_opcode (code_at code p)"
    using at p(1) by (simp add: code_at_def patched_at_def)
  have tests: "\<not> is_test_mode (ins_opcode (code_at code k))" if "k \<in> set ps" for k using jumps_points [OF rest that] by simp
  have valued: "valued ?code k = valued code k" if "k \<in> set ps" for k
  proof (cases "k - 1 = p")
    case True
    then show ?thesis using opc p(2) testset_mode by (auto simp: valued_def)
  next
    case False
    have "k < length code" using jumps_points [OF rest that] by simp
    moreover have "k \<noteq> p" using assms(2) that by auto
    ultimately show ?thesis using False same [of "k - 1"] by (auto simp: valued_def)
  qed
  have "patched_at ?code ps vt reg dt q = patched_at code (p # ps) vt reg dt q"
  proof (cases "q = p")
    case True
    then show ?thesis using assms(2) opc p at [OF q] testset_mode
      by (auto simp: patched_at_def)
  next
    case other: False
    show ?thesis
    proof (cases "Suc q = p \<and> valued code p")
      case True
      then have t: "ins_opcode (code_at code q) = Op_TestSet" by (auto simp: valued_def)
      then have "q \<notin> set ps" using tests testset_mode by metis
      then show ?thesis using True other assms(2) at [OF q] t by (auto simp: patched_at_def)
    next
      case False
      then show ?thesis using same [OF q other] other at [OF q] valued
        by (auto simp: patched_at_def valued_def)
    qed
  qed
  then show "patched ?code ps vt reg dt ! q = patched code (p # ps) vt reg dt ! q"
    using q by (simp add: patched_def len)
qed

lemma patch_list_n_exact:
  "jumps (code_of c) l ps \<Longrightarrow> distinct ps \<Longrightarrow> short_code (code_of c) \<Longrightarrow> length ps < n \<Longrightarrow>
   patch_list_aux_n n l vt reg dt c = (with_code c (patched (code_of c) ps vt reg dt), Inr ())"
proof (induction ps arbitrary: n l c)
  case Nil
  then obtain m where "n = Suc m" by (cases n) auto
  moreover have "patched (code_of c) [] vt reg dt = code_of c" by (simp add: patched_def patched_at_def map_nth cong: map_cong)
  ultimately show ?case using Nil by (simp add: oret_def)
next
  case (Cons p ps)
  let ?code = "code_of c"
  let ?t = "valued ?code p"
  let ?new = "patch_first ?code p vt reg dt"
  obtain m where n: "n = Suc m" using Cons.prems(4) by (cases n) auto
  have p: "l = word_of_nat p" "p < length ?code" "\<not> is_test_mode (ins_opcode (code_at ?code p))"
    and rest: "jumps ?code (jump_next ?code p) ps" using Cons.prems(1) by simp_all
  have ix: "as_usize (word_of_nat p) = p" "word_of_nat p \<noteq> NO_JUMP" using p(2) Cons.prems(3) by (simp_all add: point_index short_code_def)
  have "jumps ?new (jump_next ?code p) ps"
  proof -
    have "p - 1 \<notin> set ps" if ?t
      using that jumps_points [OF rest, of "p - 1"] testset_mode by (auto simp: valued_def)
    then show ?thesis using rest Cons.prems(2) by (auto simp: patch_first_def jumps_update)
  qed
  then have "patch_list_aux_n m (jump_next ?code p) vt reg dt (with_code c ?new) = (with_code c (patched ?new ps vt reg dt), Inr ())"
    using Cons.IH [of "with_code c ?new" "jump_next ?code p" m] Cons.prems(2-4) n patch_first_at(2) [OF p(2)]
    by (simp add: short_code_def)
  moreover have "patch_list_aux_n n l vt reg dt c = patch_list_aux_n m (jump_next ?code p) vt reg dt (with_code c ?new)"
  proof -
    have "p \<noteq> p - 1" if ?t using that by (auto simp: valued_def)
    then show ?thesis using p(1,2) ix target_at [OF p(2)] test_reg_at [OF p(2,3), of reg]
      by (auto simp: n obind_def othen_def patch_at patch_first_def code_at_update simp del: One_nat_def)
  qed
  ultimately show ?case using patched_step [OF Cons.prems(1,2)] by simp
qed

text \<open>C25. Patching a jump list rewrites its jumps and their tests and nothing else: each jump of the list goes to the value
  target when the test before it carries a value, and to the other target when not; such a test gets the register or
  drops the value; the walk along the list ends.\<close>

theorem patching_exact:
  assumes "jumps (code_of c) l ps" "distinct ps" "short_code (code_of c)"
  shows "patch_list_aux l vt reg dt c = (with_code c (patched (code_of c) ps vt reg dt), Inr ())"
proof -
  have "set ps \<subseteq> {..<length (code_of c)}" using jumps_points [OF assms(1)] by auto
  then have "length ps < jump_rounds c" using distinct_points assms(2) by (simp add: jump_rounds_def less_Suc_eq_le)
  then show ?thesis using patch_list_n_exact [OF assms] by (simp add: patch_list_aux_def with_rounds_def)
qed

section \<open>A list of two jumps\<close>

definition jumping :: Compiler where
  "jumping = \<lparr>cc_fs = \<lparr>cf_proto = \<lparr>cp_code = map raw [abc Op_TestSet 255 1 0, a_sbx Op_Jmp 0 NO_JUMP, a_sbx Op_Jmp 0 NO_JUMP,
       a_sbx Op_Jmp 0 (- 3)], cp_constants = [], cp_protos = [], cp_line_info = [], cp_local_vars = [], cp_upvalue_names = [],
     cp_source = [], cp_short_source = [], cp_line_defined = 0, cp_last_line_defined = 0, cp_num_upvalues = 0, cp_num_params = 0,
     cp_is_vararg = 0, cp_max_stack_size = 2, cp_string_pool = [], cp_global_slot_names = []\<rparr>, cf_free_reg = 0,
     cf_num_active_vars = 0, cf_upvalues = [], cf_active_vars = [], cf_blocks = [], cf_jpc = NO_JUMP, cf_last_target = -1,
     cf_nil_k = None, cf_constant_index = Map.empty, cf_string_index = Map.empty\<rparr>, cc_outer = [], cc_source_name = [], cc_current_line = 1\<rparr>"

definition jumping_code :: "u32 list" where
  "jumping_code = map raw [abc Op_TestSet 255 1 0, a_sbx Op_Jmp 0 NO_JUMP, a_sbx Op_Jmp 0 NO_JUMP, a_sbx Op_Jmp 0 (- 3)]"

lemma jumping_lists: "code_of jumping = jumping_code" "jumps jumping_code 3 [3, 1]" "jumps jumping_code 2 [2]" "short_code jumping_code"
  "distinct ([3, 1] @ [2 :: nat])"
proof -
  show "jumps jumping_code 3 [3, 1]" "jumps jumping_code 2 [2]" by code_simp+
qed (simp_all add: code_of_def jumping_def jumping_code_def short_code_def)

lemma joining_appends_witness:
  "\<exists>code m. concat_jumps 3 2 jumping = (with_code jumping code, Inr m) \<and> jumps code m [3, 1, 2]"
  using joining_appends [of jumping 3 "[3, 1]" 2 "[2]"] jumping_lists by auto

lemma patching_exact_witness:
  "patch_list_aux 3 5 0 6 jumping = (with_code jumping (patched jumping_code [3, 1] 5 0 6), Inr ())"
  using patching_exact [of jumping 3 "[3, 1]" 5 0 6] jumping_lists by simp

end
