(* ===== verification/Spec2Isabelle.thy ===== *)
theory Spec2Isabelle
  imports Instr TableProps LuaInit Freeze StrProps SecurityProps ValueOps LexChunks CompileProps CodeProps JumpLists
begin

text \<open>
  rilua is a Lua 5.1 interpreter in Rust. This development models its core: the compiler from text to
  bytecode, the bytecode and its binary format, the objects and the garbage collector, the virtual machine, the
  string patterns, and the access policy rilua adds for hosts.

  \<^bold>\<open>How the parts work together.\<close> A text, whole or in pieces from a reader, goes through the lexer
  (\<^verbatim>\<open>compiler/lexer.rs\<close>) and the parser (\<^verbatim>\<open>compiler/parser.rs\<close>) to a syntax tree (\<^verbatim>\<open>compiler/ast.rs\<close>); the code
  generator (\<^verbatim>\<open>compiler/codegen.rs\<close>) makes a prototype of it (\<^verbatim>\<open>vm/proto.rs\<close>), which \<^verbatim>\<open>vm/dump.rs\<close> writes and
  \<^verbatim>\<open>vm/undump.rs\<close> reads as a binary chunk. The dispatch loop (\<^verbatim>\<open>vm/execute.rs\<close>) runs prototypes over the state of
  \<^verbatim>\<open>vm/state.rs\<close>; its helpers (\<^verbatim>\<open>vm/execute/runtime_ops.rs\<close>) look up metamethods, check access and taint, and call
  back into the loop. All objects live in arenas (\<^verbatim>\<open>vm/gc/arena.rs\<close>) and are named by handles of an index and a
  generation; strings are interned (\<^verbatim>\<open>vm/string.rs\<close>); tables are an array and a hash part (\<^verbatim>\<open>vm/table.rs\<close>). The
  collector (\<^verbatim>\<open>vm/gc/collector.rs\<close>) marks from the state, incrementally, behind barriers that the state operations
  raise, and sweeps the arenas.

  \<^bold>\<open>Conventions.\<close> Rust integers are words of their width, signed ones read through \<open>sint\<close>; a length that cannot
  overflow is a \<open>nat\<close>; arithmetic wraps as in a release build, and where a build with overflow checks would panic
  the theory says so. A double is its 64-bit pattern, its operations defined on integers with one rounding
  (\<open>Float64\<close>). A \<^verbatim>\<open>Result\<close> is a sum, \<open>Inl\<close> the error. A panic is an error value of its own, so a theorem that a
  result is \<open>Inr\<close> also excludes panics. State passing is explicit: an operation maps a state to the next state and
  a result, and a state is kept on errors, because callers may catch them. Rust text is its bytes (\<open>RText\<close>). A range of
  the stack or of a text (\<open>fill_nil\<close>, \<open>copy_within\<close>, \<open>source_slice\<close>) that ends beyond the list is cut short, where
  Rust would panic: the properties speak of ranges inside.

  \<^bold>\<open>Theories and sources.\<close>
  \<^item> \<open>Prelude\<close>: integer types, results, the interface \<open>object_store\<close> of handles; \<open>RText\<close>: UTF-8, and \<^verbatim>\<open>chunkid\<close> of
    \<^verbatim>\<open>error.rs\<close>; \<open>Float64\<close>, \<open>FloatInts\<close>: doubles, and sums and order of doubles that are integers.
  \<^item> \<open>Instr\<close>: \<^verbatim>\<open>vm/instructions.rs\<close>, instruction words and the opcode tables; the fields are instances of the locale
    \<open>word_field\<close>, pairs of them of \<open>disjoint_fields\<close>.
  \<^item> \<open>Arena\<close>: \<^verbatim>\<open>vm/gc/arena.rs\<close>, which interprets \<open>object_store\<close>; \<open>LuaStr\<close>: \<^verbatim>\<open>vm/string.rs\<close>; \<open>Value\<close>: \<^verbatim>\<open>vm/value.rs\<close>.
  \<^item> \<open>Table\<close>: \<^verbatim>\<open>vm/table.rs\<close>; \<open>TableInv\<close> and \<open>TableOps\<close>: its invariant, over the locale \<open>hash_scheme\<close>, and what its operations
    do; \<open>Rehash\<close>: resizing; \<open>TableProps\<close>: the contract.
  \<^item> \<open>Chunk\<close>: \<^verbatim>\<open>vm/proto.rs\<close>, \<^verbatim>\<open>vm/dump.rs\<close>, \<^verbatim>\<open>vm/undump.rs\<close>; \<open>ChunkProps\<close>: reading inverts writing.
  \<^item> \<open>Objects\<close>: \<^verbatim>\<open>vm/closure.rs\<close>, \<^verbatim>\<open>vm/callinfo.rs\<close>, \<^verbatim>\<open>vm/metatable.rs\<close> and the heap of \<^verbatim>\<open>vm/state.rs\<close>; \<open>VmState\<close>: the
    interpreter state, open upvalues, the swap of coroutines; \<open>LuaInit\<close>: the state a new interpreter starts from.
  \<^item> \<open>Marking\<close> and \<open>Collector\<close>: the two halves of \<^verbatim>\<open>vm/gc/collector.rs\<close>; \<open>Tricolor\<close>: objects of all kinds as nodes with
    colours and children; \<open>GcCycle\<close>, \<open>GcAtomic\<close>, \<open>GcSweep\<close>, \<open>GcBarriers\<close>: a cycle from its start to the
    finalizers, and the barriers between its steps; \<open>Reach\<close>: what a program can reach, said by the fields of the
    objects and the state alone, without the collector's functions; \<open>GcProps\<close>: what a cycle keeps, frees and queues,
    stated against \<open>Reach\<close>; \<open>Freeze\<close>: \<^verbatim>\<open>vm/gc/freeze.rs\<close>, \<^verbatim>\<open>vm/gc/pin.rs\<close>, against the same kind of reachability by fields.
  \<^item> \<open>LuaPattern\<close> and \<open>LuaStrLib\<close>: the patterns of \<^verbatim>\<open>stdlib/string.rs\<close> and the functions over them; \<open>PatternProps\<close>: patterns
    as a nondeterministic machine, the specification the matcher refines; \<open>StrProps\<close>: the properties.
  \<^item> \<open>Security\<close>: \<^verbatim>\<open>table_security.rs\<close>, \<^verbatim>\<open>vm/state/secret_access.rs\<close>, \<^verbatim>\<open>vm/state/instruction_budget.rs\<close>,
    \<^verbatim>\<open>vm/state/environment_transfer.rs\<close>; \<open>SecurityProps\<close>: the guarantees.
  \<^item> \<open>NumFmt\<close>: numbers as text; \<open>ExecState\<close>: registers and coercions; \<open>RuntimeOps\<close>: \<^verbatim>\<open>vm/execute/runtime_ops.rs\<close>; \<open>Calls\<close>: calls
    and returns; \<open>Execute\<close>: one handler for each opcode and the loop of \<^verbatim>\<open>vm/execute.rs\<close>; \<open>LoopProps\<close>, \<open>CallProps\<close>,
    \<open>ValueOps\<close>: numeric loops, the calling convention, indexing against scans of the tables, and concatenation.
  \<^item> \<open>Syntax\<close>: \<^verbatim>\<open>compiler/token.rs\<close>, \<^verbatim>\<open>compiler/ast.rs\<close> and the operations of a compilation; \<open>Lexer\<close>, \<open>LexProps\<close>, \<open>LexChunks\<close>: the
    lexer, its end on every text and quoted strings, the lexer of pieces against the lexer of the whole;
    \<open>Parser\<close>, \<open>ParseProps\<close>, \<open>ParseTrees\<close>: the parser, its end on every text, operators read back by the
    grammar of the manual, one stratum for each level of precedence.
  \<^item> \<open>Codegen\<close>, \<open>CodeExpr\<close>, \<open>Compile\<close>: \<^verbatim>\<open>compiler/codegen.rs\<close>: state, jumps, constants and variables; expressions;
    statements and the tree. The stack of function states is the innermost state and the list of its parents. The
    compilers of the parts of a tree are arguments of the compiler of the whole, so one primitive recursion over
    the tree compiles it. \<open>CompileProps\<close>: the invariant of the function states, what it says of the result, and the
    way through a binary chunk; \<open>JumpLists\<close>: jump lists as lists of program points; \<open>CodeProps\<close>: constant folding
    and table sizes against the machine that runs the code.

  \<^bold>\<open>What the lemmas show.\<close> For each component an invariant (\<open>arena_inv\<close>, \<open>st_inv\<close>, \<open>table_inv\<close>, the tricolour
  invariant, \<open>cc_ok\<close>) that its operations keep; the meaning of its operations on every state that meets the
  invariant, errors included; and the properties, each after a text with its number. The abstract specifications
  are: a table is a map from keys to values with a border; an arena is a store with fresh handles; a pattern is a
  nondeterministic machine; a collection keeps what is reachable by fields and frees the rest; an expression belongs to
  a grammar of strata; a budget bounds the instructions of its owner; a jump list is a list of program points; a folded operation is the instruction it replaces.

  \<^bold>\<open>Bounds and fuel.\<close> Recursions of the code that Isabelle does not see to end have fuel, and a lemma says how much is
  enough. Marking a value recurses through userdata only: fuel is the number of white userdata
  (\<open>mark_value_eq\<close> is the equation without fuel), and propagation has a turn for each white object and gray entry. The
  reader of chunks has as much fuel as the chunk has bytes (\<open>undump_terminates\<close>). The depth of the matcher is
  the code's own limit of 200, so its fuel is part of what it does. The freeze walk is an \<open>option\<close>, and the theorem says
  that it returns. The lexer makes at most one round more than there are bytes left, the parser at most one for each
  round of the lexer and two more, to a depth of the 200 syntax levels; \<open>lexing_ends\<close> and \<open>parsing_ends\<close> exclude the
  outcome of exhausted rounds. A walk along a jump list has a round for each instruction and one more, enough for
  every list that does not run in a circle (\<open>patching_exact\<close>, \<open>joining_appends\<close>). The dispatch loop and
  nested activations run with fuel because a Lua program may run forever; theorems on them speak of single
  instructions or of loops whose number of turns is known.

  \<^bold>\<open>Parameters.\<close> What the sources call but do not contain is an argument: the C library (\<^verbatim>\<open>strtod\<close>, \<^verbatim>\<open>strcoll\<close>, \<^verbatim>\<open>pow\<close>,
  the decimal logarithm, character classes), the reader of a stream, native functions, finalizers, the transfer
  hook of a host and the interrupt flag of the process.

  \<^bold>\<open>Not modelled.\<close> The libraries given to scripts except the string functions named above (\<^verbatim>\<open>stdlib/base.rs\<close>, \<^verbatim>\<open>table.rs\<close>,
  \<^verbatim>\<open>math.rs\<close>, \<^verbatim>\<open>coroutine.rs\<close>, \<^verbatim>\<open>debug.rs\<close>, \<^verbatim>\<open>taint.rs\<close>, \<^verbatim>\<open>io.rs\<close>, \<^verbatim>\<open>os.rs\<close>, \<^verbatim>\<open>package.rs\<close>, \<^verbatim>\<open>testlib.rs\<close>): they convert
  arguments and call modelled operations, or the operating system. The embedding interface (\<^verbatim>\<open>lib.rs\<close>, \<^verbatim>\<open>api.rs\<close>,
  \<^verbatim>\<open>conversion.rs\<close>, \<^verbatim>\<open>handles.rs\<close>, \<^verbatim>\<open>vm/state/api_ops.rs\<close>), the programs under \<^verbatim>\<open>bin\<close>, the bindings of \<^verbatim>\<open>platform.rs\<close>
  and \<^verbatim>\<open>dynmod.rs\<close>. Texts of messages that name variables (\<^verbatim>\<open>vm/debug_info.rs\<close>), listings and statistics. Exhaustion of
  memory and of the native stack. That a jump list of a compilation never runs in a circle holds only for functions of at
  most 131071 instructions: the code writes longer offsets without a check, so no theorem on whole compilations
  excludes that outcome.
\<close>

end
